(* ===== verification/Prelude.thy ===== *)
theory Prelude
  imports Main "HOL-Library.Finite_Map"
begin

text \<open>
  Shared vocabulary of the development: Go maps as finite maps, the zero-value lookup
  \<open>m[k]\<close>, reachable states of a step relation with the locale that lifts a
  one-step invariant to every reachable state, and the generic list lemmas that the
  component theories use.

  A Go \<open>map[K]V\<close> is a \<open>(K, V) fmap\<close>: its domain is finite by type, a lookup of
  a missing key is the zero value (\<open>getd\<close>) and \<open>v, ok := m[k]\<close> is \<open>fmlookup m k\<close>.
  Iteration over a map has no fixed order in Go, so every operation that ranges over a
  map takes the enumeration used in that iteration as an argument (\<open>enumerates\<close>).
\<close>

named_theorems go_simps \<open>defining equations of the Go helpers\<close>

type_synonym time = int

subsection \<open>Go maps\<close>

definition getd :: "'v \<Rightarrow> ('k, 'v) fmap \<Rightarrow> 'k \<Rightarrow> 'v" where
  "getd z m k = (case fmlookup m k of None \<Rightarrow> z | Some v \<Rightarrow> v)"

definition enumerates :: "'k list \<Rightarrow> ('k, 'v) fmap \<Rightarrow> bool" where
  "enumerates ks m \<longleftrightarrow> distinct ks \<and> set ks = fmdom' m"

lemma getd_upd [simp]: "getd z (fmupd k v m) k' = (if k = k' then v else getd z m k')"
  by (simp add: getd_def)

lemma getd_drop [simp]: "getd z (fmdrop k m) k' = (if k = k' then z else getd z m k')"
  by (simp add: getd_def)

lemma getd_empty [simp]: "getd z fmempty k = z"
  by (simp add: getd_def)

lemma getd_Some: "fmlookup m k = Some v \<Longrightarrow> getd z m k = v"
  by (simp add: getd_def)

lemma fmlookup_in_dom: "fmlookup m k = Some v \<Longrightarrow> k \<in> fmdom' m"
  by (simp add: fmlookup_dom'_iff)

lemma finite_fmdom' [simp]: "finite (fmdom' m)"
  by (simp add: fmdom'_alt_def)

lemma enumerates_mem: "enumerates ks m \<Longrightarrow> k \<in> set ks \<longleftrightarrow> fmlookup m k \<noteq> None"
  by (auto simp: enumerates_def fmlookup_dom'_iff)

lemma enumerates_exists: "\<exists>ks. enumerates ks m"
  using finite_distinct_list [of "fmdom' m"] by (auto simp: enumerates_def)

text \<open>The number of entries whose value satisfies a predicate.\<close>

definition fmcount :: "('v \<Rightarrow> bool) \<Rightarrow> ('k, 'v) fmap \<Rightarrow> nat" where
  "fmcount P m = card {k. \<exists>v. fmlookup m k = Some v \<and> P v}"

lemma fmcount_finite [simp]: "finite {k. \<exists>v. fmlookup m k = Some v \<and> P v}"
proof (rule finite_subset)
  show "{k. \<exists>v. fmlookup m k = Some v \<and> P v} \<subseteq> fmdom' m"
    by (auto simp: fmlookup_dom'_iff)
qed simp

lemma fmcount_upd_hit:
  assumes "fmlookup m k = Some v" and "P v" and "\<not> P w"
  shows "Suc (fmcount P (fmupd k w m)) = fmcount P m"
proof -
  let ?S = "{k. \<exists>v. fmlookup m k = Some v \<and> P v}"
  have "{j. \<exists>u. fmlookup (fmupd k w m) j = Some u \<and> P u} = ?S - {k}"
    using assms by auto
  moreover have "k \<in> ?S" using assms by auto
  ultimately show ?thesis
    unfolding fmcount_def by (simp add: card_Suc_Diff1 del: card_Diff_insert)
qed

lemma fmcount_upd_same:
  assumes "fmlookup m k = Some v" and "P w = P v"
  shows "fmcount P (fmupd k w m) = fmcount P m"
proof -
  have "{j. \<exists>u. fmlookup (fmupd k w m) j = Some u \<and> P u}
      = {j. \<exists>u. fmlookup m j = Some u \<and> P u}"
    using assms by auto
  then show ?thesis by (simp add: fmcount_def)
qed

lemma fmcount_upd_gain:
  assumes "fmlookup m k = Some v" and "\<not> P v" and "P w"
  shows "fmcount P (fmupd k w m) = Suc (fmcount P m)"
proof -
  have "{j. \<exists>u. fmlookup (fmupd k w m) j = Some u \<and> P u}
      = insert k {j. \<exists>u. fmlookup m j = Some u \<and> P u}"
    using assms by auto
  moreover have "k \<notin> {j. \<exists>u. fmlookup m j = Some u \<and> P u}" using assms by auto
  ultimately show ?thesis by (simp add: fmcount_def)
qed

lemma fmcount_fresh:
  assumes "fmlookup m k = None"
  shows "fmcount P (fmupd k w m) = (if P w then Suc (fmcount P m) else fmcount P m)"
proof -
  have "{j. \<exists>u. fmlookup (fmupd k w m) j = Some u \<and> P u}
      = (if P w then insert k {j. \<exists>u. fmlookup m j = Some u \<and> P u} else {j. \<exists>u. fmlookup m j = Some u \<and> P u})"
    using assms by auto
  moreover have "k \<notin> {j. \<exists>u. fmlookup m j = Some u \<and> P u}" using assms by simp
  ultimately show ?thesis by (simp add: fmcount_def)
qed

lemma fmcount_drop_le: "fmcount P (fmdrop k m) \<le> fmcount P m"
  unfolding fmcount_def by (rule card_mono) auto

lemma fmcount_drop_hit:
  assumes "fmlookup m k = Some v"
  shows "fmcount P m = (if P v then Suc (fmcount P (fmdrop k m)) else fmcount P (fmdrop k m))"
proof -
  have "m = fmupd k v (fmdrop k m)" using assms by (intro fmap_ext) auto
  then show ?thesis using fmcount_fresh [of "fmdrop k m" k P v] by simp
qed

lemma fmcount_code [code]:
  "fmcount P m = card (Set.filter (\<lambda>k. case fmlookup m k of None \<Rightarrow> False | Some v \<Rightarrow> P v) (fmdom' m))"
  unfolding fmcount_def
  by (rule arg_cong [where f = card]) (auto simp: fmlookup_dom'_iff split: option.splits)

subsection \<open>Reachable states\<close>

inductive reachable :: "('s \<Rightarrow> bool) \<Rightarrow> ('s \<Rightarrow> 's \<Rightarrow> bool) \<Rightarrow> 's \<Rightarrow> bool"
  for init :: "'s \<Rightarrow> bool" and step :: "'s \<Rightarrow> 's \<Rightarrow> bool" where
  reach_init: "init s \<Longrightarrow> reachable init step s"
| reach_step: "reachable init step s \<Longrightarrow> step s t \<Longrightarrow> reachable init step t"

text \<open>
  The contract of a state machine with an inductive invariant. Every stateful component
  interprets it on its own step relation and invariant.
\<close>

locale invariant_system =
  fixes init :: "'s \<Rightarrow> bool"
    and step :: "'s \<Rightarrow> 's \<Rightarrow> bool"
    and inv :: "'s \<Rightarrow> bool"
  assumes inv_init: "init s \<Longrightarrow> inv s"
    and inv_step: "inv s \<Longrightarrow> step s t \<Longrightarrow> inv t"
begin

lemma reachable_inv: "reachable init step s \<Longrightarrow> inv s"
  by (induction rule: reachable.induct) (auto intro: inv_init inv_step)

end

text \<open>
  A concrete system that implements an abstract one: under its invariant every step is
  matched by abstract steps on the abstraction, possibly none. Whatever holds in all
  reachable states of the abstract system then holds of the abstractions.
\<close>

locale refinement_system = invariant_system cinit cstep cinv
  for cinit :: "'c \<Rightarrow> bool" and cstep :: "'c \<Rightarrow> 'c \<Rightarrow> bool" and cinv :: "'c \<Rightarrow> bool" +
  fixes ainit :: "'a \<Rightarrow> bool"
    and astep :: "'a \<Rightarrow> 'a \<Rightarrow> bool"
    and abs :: "'c \<Rightarrow> 'a"
  assumes abs_init: "cinit s \<Longrightarrow> ainit (abs s)"
    and abs_step: "cinv s \<Longrightarrow> cstep s t \<Longrightarrow> abs t = abs s \<or> astep (abs s) (abs t)"
begin

lemma reachable_abs: "reachable cinit cstep s \<Longrightarrow> reachable ainit astep (abs s)"
proof (induction rule: reachable.induct)
  case (reach_init s)
  then show ?case by (intro reachable.reach_init abs_init)
next
  case (reach_step s t)
  then show ?case using abs_step [OF reachable_inv [OF reach_step(1)] reach_step(2)] by (auto intro: reachable.reach_step)
qed

end

subsection \<open>Lists\<close>

lemma distinct_map_inj:
  "distinct (map f xs) \<Longrightarrow> x \<in> set xs \<Longrightarrow> y \<in> set xs \<Longrightarrow> f x = f y \<Longrightarrow> x = y"
  by (auto simp: distinct_map dest: inj_onD)

lemma count_list_distinct: "distinct xs \<Longrightarrow> count_list xs x = (if x \<in> set xs then 1 else 0)"
  by (induction xs) auto

lemma count_list_filter: "count_list (filter P xs) x = (if P x then count_list xs x else 0)"
  by (induction xs) auto

subsection \<open>Memory that expires\<close>

text \<open>
  Several components remember when something happened last, to keep it from happening again
  too soon, and forget old entries. A log of events, newest first, is \<open>spaced\<close> if events
  with one key are at least \<open>gap\<close> apart. \<open>remembers\<close> is the invariant that ensures it: an
  event of the log is older than \<open>gap\<close>, or the memory knows a time at least as late.
\<close>

fun spaced :: "time \<Rightarrow> ('k \<times> time) list \<Rightarrow> bool" where
  "spaced gap [] = True"
| "spaced gap ((k, t) # log) = (list_all (\<lambda>(k', t'). k' = k \<longrightarrow> t' + gap \<le> t) log \<and> spaced gap log)"

definition remembers :: "time \<Rightarrow> ('k \<times> time) list \<Rightarrow> time \<Rightarrow> ('k \<Rightarrow> time option) \<Rightarrow> bool" where
  "remembers gap log now m \<longleftrightarrow> spaced gap log \<and>
     (\<forall>(k, t)\<in>set log. t \<le> now \<and> (t + gap \<le> now \<or> (\<exists>t'\<ge>t. m k = Some t')))"

lemma remembers_spaced: "remembers gap log now m \<Longrightarrow> spaced gap log"
  by (simp add: remembers_def)

lemma remembers_Nil [simp]: "remembers gap [] now m"
  by (simp add: remembers_def)

lemma remembers_later: "remembers gap log now m \<Longrightarrow> now \<le> now' \<Longrightarrow> remembers gap log now' m"
  by (fastforce simp: remembers_def)

locale expiring_memory =
  fixes lookup :: "'m \<Rightarrow> 'k \<Rightarrow> time option"
    and mark :: "time \<Rightarrow> 'k \<Rightarrow> 'm \<Rightarrow> 'm"
    and gap :: time
  assumes lookup_mark: "lookup (mark now k m) j = (if j = k then Some now else lookup m j)"
begin

lemma remembers_forget:
  assumes "remembers gap log now (lookup m)"
    and "\<And>k. lookup m' k = lookup m k \<or> (\<exists>t. lookup m k = Some t \<and> t + gap \<le> now)"
  shows "remembers gap log now (lookup m')"
proof -
  have "t + gap \<le> now \<or> (\<exists>t'\<ge>t. lookup m' k = Some t')" if "(k, t) \<in> set log" for k t
    using assms(1) assms(2) [of k] that by (fastforce simp: remembers_def)
  then show ?thesis using assms(1) by (auto simp: remembers_def)
qed

lemma remembers_mark:
  assumes "remembers gap log now (lookup m)"
  shows "remembers gap log now (lookup (mark now k m))"
proof -
  have "t + gap \<le> now \<or> (\<exists>t'\<ge>t. lookup (mark now k m) j = Some t')" if "(j, t) \<in> set log" for j t
    using assms that by (cases "j = k") (fastforce simp: remembers_def lookup_mark)+
  then show ?thesis using assms by (auto simp: remembers_def)
qed

lemma remembers_log:
  assumes "remembers gap log now (lookup m)" and "\<And>t. lookup m k = Some t \<Longrightarrow> t + gap \<le> now"
  shows "remembers gap ((k, now) # log) now (lookup (mark now k m))"
proof -
  have "t + gap \<le> now" if "(k, t) \<in> set log" for t using assms that by (fastforce simp: remembers_def)
  then have "spaced gap ((k, now) # log)" using assms(1) by (auto simp: remembers_def list_all_iff)
  then show ?thesis using remembers_mark [OF assms(1), of k] by (auto simp: remembers_def lookup_mark)
qed

end

end
