(* ===== verification/Job_Store.thy ===== *)
theory Job_Store
  imports Prelude "HOL-Library.Char_ord" "HOL-Library.List_Lexorder"
begin

text \<open>
  The job store: \<open>internal/server/store/jobs.go\<close> and \<open>task_values.go\<close> over the
  tables of \<open>migrations.go\<close>. A table is the list of its rows in insertion order; a
  nullable column is an \<open>option\<close>; a statement is a function on the \<open>db\<close> record
  that fails with \<open>ErrConstraint\<close> where SQLite (with \<open>foreign_keys(1)\<close>, as the
  data source name sets it) refuses it: a duplicate primary key, a dangling foreign key,
  the \<open>CHECK\<close> of \<open>step_dependencies\<close>. A transaction that returns an error leaves
  the database as it was. Fresh UUIDs and the clock are arguments. The session, user and
  machine tables appear only as the identifiers that foreign keys refer to.
\<close>

section \<open>Status constants\<close>

definition StatusPending :: string where "StatusPending = ''pending''"
definition StatusCreated :: string where "StatusCreated = ''created''"
definition StatusStarting :: string where "StatusStarting = ''starting''"
definition StatusRunning :: string where "StatusRunning = ''running''"
definition StatusCompleted :: string where "StatusCompleted = ''completed''"
definition StatusFailed :: string where "StatusFailed = ''failed''"
definition StatusSkipped :: string where "StatusSkipped = ''skipped''"
definition StatusCancelled :: string where "StatusCancelled = ''cancelled''"
definition StatusTerminated :: string where "StatusTerminated = ''terminated''"
definition StatusWaitingForInput :: string where "StatusWaitingForInput = ''waiting_for_input''"

lemmas status_defs = StatusPending_def StatusCreated_def StatusStarting_def StatusRunning_def
  StatusCompleted_def StatusFailed_def StatusSkipped_def StatusCancelled_def
  StatusTerminated_def StatusWaitingForInput_def

lemma status_distinct [simp]:
  "distinct [StatusPending, StatusCreated, StatusStarting, StatusRunning, StatusCompleted,
     StatusFailed, StatusSkipped, StatusCancelled, StatusTerminated, StatusWaitingForInput]"
  by (simp add: status_defs)

lemma status_neq [simp]:
  "StatusPending \<noteq> StatusRunning" "StatusRunning \<noteq> StatusPending"
  "StatusPending \<noteq> StatusCompleted" "StatusCompleted \<noteq> StatusPending"
  "StatusPending \<noteq> StatusFailed" "StatusFailed \<noteq> StatusPending"
  "StatusPending \<noteq> StatusSkipped" "StatusSkipped \<noteq> StatusPending"
  "StatusPending \<noteq> StatusCancelled" "StatusCancelled \<noteq> StatusPending"
  "StatusRunning \<noteq> StatusCompleted" "StatusCompleted \<noteq> StatusRunning"
  "StatusRunning \<noteq> StatusFailed" "StatusFailed \<noteq> StatusRunning"
  "StatusRunning \<noteq> StatusSkipped" "StatusSkipped \<noteq> StatusRunning"
  "StatusRunning \<noteq> StatusCancelled" "StatusCancelled \<noteq> StatusRunning"
  "StatusCompleted \<noteq> StatusFailed" "StatusFailed \<noteq> StatusCompleted"
  "StatusCompleted \<noteq> StatusSkipped" "StatusSkipped \<noteq> StatusCompleted"
  "StatusCompleted \<noteq> StatusCancelled" "StatusCancelled \<noteq> StatusCompleted"
  "StatusFailed \<noteq> StatusSkipped" "StatusSkipped \<noteq> StatusFailed"
  "StatusFailed \<noteq> StatusCancelled" "StatusCancelled \<noteq> StatusFailed"
  "StatusSkipped \<noteq> StatusCancelled" "StatusCancelled \<noteq> StatusSkipped"
  "StatusTerminated \<noteq> StatusRunning" "StatusRunning \<noteq> StatusTerminated"
  "StatusTerminated \<noteq> StatusCompleted" "StatusCompleted \<noteq> StatusTerminated"
  "StatusTerminated \<noteq> StatusFailed" "StatusFailed \<noteq> StatusTerminated"
  "StatusWaitingForInput \<noteq> StatusRunning" "StatusRunning \<noteq> StatusWaitingForInput"
  "StatusWaitingForInput \<noteq> StatusTerminated" "StatusTerminated \<noteq> StatusWaitingForInput"
  by (simp_all add: status_defs)

section \<open>The Go structs\<close>

record CreateJobParams =
  cj_Name :: string
  cj_Description :: string
  cj_UserID :: string
  cj_Parameters :: string
  cj_TimeoutSeconds :: int
  cj_MaxConcurrentRuns :: int

record UpdateJobParams =
  uj_JobID :: string
  uj_Name :: string
  uj_Description :: string
  uj_Parameters :: string
  uj_TimeoutSeconds :: int
  uj_MaxConcurrentRuns :: int

record CreateRunParams =
  cr_JobID :: string
  cr_TriggerType :: string
  cr_TriggerDetail :: string
  cr_Parameters :: string

record Job =
  j_JobID :: string
  j_Name :: string
  j_Description :: string
  j_UserID :: string
  j_Parameters :: string
  j_TimeoutSeconds :: int
  j_MaxConcurrentRuns :: int
  j_CreatedAt :: time
  j_UpdatedAt :: time

record Step =
  st_StepID :: string
  st_JobID :: string
  st_Name :: string
  st_Prompt :: string
  st_MachineID :: string
  st_WorkingDir :: string
  st_Command :: string
  st_Args :: string
  st_TimeoutSeconds :: int
  st_SortOrder :: int
  st_OnFailure :: string
  st_SkipPermissions :: "int option"
  st_Model :: string
  st_DelaySeconds :: int
  st_TaskType :: string
  st_SessionKey :: string
  st_RunIf :: string
  st_MaxRetries :: int
  st_RetryDelaySeconds :: int
  st_Parameters :: string
  st_TargetJobID :: string
  st_JobParams :: string

text \<open>
  \<open>CreateStepParams\<close> has the fields of \<open>Step\<close> without the generated identifier and
  \<open>UpdateStepParams\<close> those without the job; both are passed as a \<open>Step\<close> whose
  other field is ignored.
\<close>

record StepDependency =
  dep_StepID :: string
  dep_DependsOn :: string

record Run =
  r_RunID :: string
  r_JobID :: string
  r_Status :: string
  r_TriggerType :: string
  r_TriggerDetail :: string
  r_Parameters :: string
  r_StartedAt :: "time option"
  r_CompletedAt :: "time option"
  r_CreatedAt :: time

record RunStep =
  rs_RunStepID :: string
  rs_RunID :: string
  rs_StepID :: string
  rs_Status :: string
  rs_SessionID :: string
  rs_MachineID :: string
  rs_ExitCode :: "int option"
  rs_StartedAt :: "time option"
  rs_CompletedAt :: "time option"
  rs_PromptSnapshot :: string
  rs_MachineIDSnapshot :: string
  rs_WorkingDirSnapshot :: string
  rs_CommandSnapshot :: string
  rs_ArgsSnapshot :: string
  rs_SkipPermissionsSnapshot :: "int option"
  rs_ModelSnapshot :: string
  rs_DelaySecondsSnapshot :: int
  rs_OnFailureSnapshot :: string
  rs_TimeoutSecondsSnapshot :: int
  rs_TaskTypeSnapshot :: string
  rs_SessionKeySnapshot :: string
  rs_RunIfSnapshot :: string
  rs_MaxRetriesSnapshot :: int
  rs_RetryDelaySecondsSnapshot :: int
  rs_Attempt :: int
  rs_ParametersSnapshot :: string
  rs_TargetJobIDSnapshot :: string
  rs_JobParamsSnapshot :: string
  rs_OnFailure :: string
  rs_ErrorMessage :: string

record JobDetail =
  jd_Job :: Job
  jd_Steps :: "Step list"
  jd_Dependencies :: "StepDependency list"

record RunDetail =
  rd_Run :: Run
  rd_RunSteps :: "RunStep list"

record TaskValue =
  tv_RunStepID :: string
  tv_Key :: string
  tv_Value :: string
  tv_CreatedAt :: time

section \<open>The tables\<close>

record job_row =
  jc_job_id :: string
  jc_name :: string
  jc_description :: "string option"
  jc_user_id :: "string option"
  jc_parameters :: "string option"
  jc_timeout_seconds :: int
  jc_max_concurrent_runs :: int
  jc_created_at :: time
  jc_updated_at :: time

record step_row =
  sc_step_id :: string
  sc_job_id :: string
  sc_name :: string
  sc_prompt :: string
  sc_machine_id :: "string option"
  sc_working_dir :: "string option"
  sc_command :: "string option"
  sc_args :: "string option"
  sc_timeout_seconds :: "int option"
  sc_sort_order :: int
  sc_on_failure :: string
  sc_skip_permissions :: "int option"
  sc_model :: "string option"
  sc_delay_seconds :: "int option"
  sc_task_type :: string
  sc_session_key :: "string option"
  sc_run_if :: string
  sc_max_retries :: int
  sc_retry_delay_seconds :: int
  sc_parameters :: "string option"
  sc_target_job_id :: "string option"
  sc_job_params :: "string option"

record run_row =
  rc_run_id :: string
  rc_job_id :: string
  rc_status :: string
  rc_trigger_type :: string
  rc_trigger_detail :: "string option"
  rc_parameters :: "string option"
  rc_started_at :: "time option"
  rc_ended_at :: "time option"
  rc_created_at :: time

record run_step_row =
  xc_run_step_id :: string
  xc_run_id :: string
  xc_step_id :: string
  xc_status :: string
  xc_machine_id :: "string option"
  xc_session_id :: "string option"
  xc_exit_code :: "int option"
  xc_started_at :: "time option"
  xc_ended_at :: "time option"
  xc_error_message :: "string option"
  xc_prompt :: "string option"
  xc_machine_id_snapshot :: "string option"
  xc_working_dir :: "string option"
  xc_command :: "string option"
  xc_args :: "string option"
  xc_skip_permissions :: "int option"
  xc_model :: "string option"
  xc_delay_seconds :: "int option"
  xc_on_failure :: string
  xc_timeout_seconds :: "int option"
  xc_task_type :: string
  xc_session_key :: "string option"
  xc_run_if :: string
  xc_max_retries :: int
  xc_retry_delay_seconds :: int
  xc_attempt :: int
  xc_parameters :: "string option"
  xc_target_job_id :: "string option"
  xc_job_params :: "string option"

record db =
  db_users :: "string list"
  db_machines :: "string list"
  db_jobs :: "job_row list"
  db_steps :: "step_row list"
  db_deps :: "StepDependency list"
  db_runs :: "run_row list"
  db_run_steps :: "run_step_row list"
  db_values :: "TaskValue list"

datatype store_error =
    ErrNotFound
  | ErrConstraint
  | ErrInvalidTaskType string
  | ErrInvalidRunIf string
  | ErrNegativeRetries int
  | ErrNegativeRetryDelay int
  | ErrSelfDependency string
  | ErrTaskValueKeyEmpty
  | ErrTaskValueKeyLength
  | ErrTaskValueKeyPattern string
  | ErrTaskValueSize
  | ErrTaskValueCount string
  | ErrUnavailable

definition nullIfEmpty :: "string \<Rightarrow> string option" where
  "nullIfEmpty s = (if s = '''' then None else Some s)"

definition coalesce :: "'a option \<Rightarrow> 'a \<Rightarrow> 'a" where
  "coalesce c d = (case c of None \<Rightarrow> d | Some v \<Rightarrow> v)"

lemma coalesce_simps [simp]: "coalesce None d = d" "coalesce (Some v) d = v"
  by (simp_all add: coalesce_def)

lemma coalesce_nullIfEmpty [simp]: "coalesce (nullIfEmpty s) '''' = s"
  by (simp add: nullIfEmpty_def)

lemma nullIfEmpty_Some: "nullIfEmpty s = Some t \<longleftrightarrow> s = t \<and> s \<noteq> ''''"
  by (auto simp: nullIfEmpty_def)

text \<open>A foreign key value is absent or one of the referenced keys.\<close>

definition fk_opt :: "string option \<Rightarrow> string list \<Rightarrow> bool" where
  "fk_opt c keys = (case c of None \<Rightarrow> True | Some k \<Rightarrow> k \<in> set keys)"

abbreviation job_ids :: "db \<Rightarrow> string list" where
  "job_ids d \<equiv> map jc_job_id (db_jobs d)"
abbreviation step_ids :: "db \<Rightarrow> string list" where
  "step_ids d \<equiv> map sc_step_id (db_steps d)"
abbreviation run_ids :: "db \<Rightarrow> string list" where
  "run_ids d \<equiv> map rc_run_id (db_runs d)"
abbreviation run_step_ids :: "db \<Rightarrow> string list" where
  "run_step_ids d \<equiv> map xc_run_step_id (db_run_steps d)"

section \<open>Jobs\<close>

definition clamp_concurrent :: "int \<Rightarrow> int" where
  "clamp_concurrent n = (if n \<le> 0 then 1 else n)"

definition insert_job :: "job_row \<Rightarrow> db \<Rightarrow> store_error + db" where
  "insert_job row d =
     (if jc_job_id row \<in> set (job_ids d) \<or> \<not> fk_opt (jc_user_id row) (db_users d)
      then Inl ErrConstraint
      else Inr (d\<lparr>db_jobs := db_jobs d @ [row]\<rparr>))"

definition CreateJob :: "string \<Rightarrow> time \<Rightarrow> CreateJobParams \<Rightarrow> db \<Rightarrow> store_error + Job \<times> db" where
  "CreateJob newID now p d =
     (let maxConcurrent = clamp_concurrent (cj_MaxConcurrentRuns p);
          row = \<lparr>jc_job_id = newID, jc_name = cj_Name p,
                 jc_description = nullIfEmpty (cj_Description p),
                 jc_user_id = nullIfEmpty (cj_UserID p),
                 jc_parameters = nullIfEmpty (cj_Parameters p),
                 jc_timeout_seconds = cj_TimeoutSeconds p,
                 jc_max_concurrent_runs = maxConcurrent,
                 jc_created_at = now, jc_updated_at = now\<rparr>
      in case insert_job row d of
           Inl e \<Rightarrow> Inl e
         | Inr d' \<Rightarrow> Inr (\<lparr>j_JobID = newID, j_Name = cj_Name p, j_Description = cj_Description p,
                     j_UserID = cj_UserID p, j_Parameters = cj_Parameters p,
                     j_TimeoutSeconds = cj_TimeoutSeconds p, j_MaxConcurrentRuns = maxConcurrent,
                     j_CreatedAt = now, j_UpdatedAt = now\<rparr>, d'))"

definition scan_job :: "job_row \<Rightarrow> Job" where
  "scan_job r = \<lparr>j_JobID = jc_job_id r, j_Name = jc_name r,
     j_Description = coalesce (jc_description r) '''',
     j_UserID = coalesce (jc_user_id r) '''',
     j_Parameters = coalesce (jc_parameters r) '''',
     j_TimeoutSeconds = jc_timeout_seconds r,
     j_MaxConcurrentRuns = jc_max_concurrent_runs r,
     j_CreatedAt = jc_created_at r, j_UpdatedAt = jc_updated_at r\<rparr>"

definition ListJobs :: "db \<Rightarrow> Job list" where
  "ListJobs d = map scan_job (sort_key (\<lambda>r. - jc_created_at r) (db_jobs d))"

definition ListJobsByUser :: "string \<Rightarrow> db \<Rightarrow> Job list" where
  "ListJobsByUser userID d =
     map scan_job (sort_key (\<lambda>r. - jc_created_at r)
       (filter (\<lambda>r. jc_user_id r = Some userID) (db_jobs d)))"

definition UpdateJob :: "time \<Rightarrow> UpdateJobParams \<Rightarrow> db \<Rightarrow> store_error + Job \<times> db" where
  "UpdateJob now p d =
     (let maxConcurrent = clamp_concurrent (uj_MaxConcurrentRuns p);
          upd = (\<lambda>r. if jc_job_id r = uj_JobID p
                     then r\<lparr>jc_name := uj_Name p,
                            jc_description := nullIfEmpty (uj_Description p),
                            jc_parameters := nullIfEmpty (uj_Parameters p),
                            jc_timeout_seconds := uj_TimeoutSeconds p,
                            jc_max_concurrent_runs := maxConcurrent,
                            jc_updated_at := now\<rparr>
                     else r);
          d' = d\<lparr>db_jobs := map upd (db_jobs d)\<rparr>
      in case find (\<lambda>r. jc_job_id r = uj_JobID p) (db_jobs d') of
           None \<Rightarrow> Inl ErrNotFound
         | Some r \<Rightarrow> Inr (scan_job r, d'))"

text \<open>
  \<open>DELETE FROM jobs\<close> cascades to steps and their dependency edges; it is refused while
  a run refers to the job or a run step to one of its steps.
\<close>

definition delete_run_steps :: "(run_step_row \<Rightarrow> bool) \<Rightarrow> db \<Rightarrow> db" where
  "delete_run_steps P d =
     (let gone = map xc_run_step_id (filter P (db_run_steps d))
      in d\<lparr>db_run_steps := filter (\<lambda>x. \<not> P x) (db_run_steps d),
           db_values := filter (\<lambda>v. tv_RunStepID v \<notin> set gone) (db_values d)\<rparr>)"

definition delete_runs :: "string \<Rightarrow> db \<Rightarrow> db" where
  "delete_runs jobID d =
     (let gone = map rc_run_id (filter (\<lambda>r. rc_job_id r = jobID) (db_runs d))
      in (delete_run_steps (\<lambda>x. xc_run_id x \<in> set gone) d)
           \<lparr>db_runs := filter (\<lambda>r. rc_job_id r \<noteq> jobID) (db_runs d)\<rparr>)"

definition delete_steps :: "(step_row \<Rightarrow> bool) \<Rightarrow> db \<Rightarrow> store_error + db" where
  "delete_steps P d =
     (let gone = map sc_step_id (filter P (db_steps d))
      in if \<exists>x\<in>set (db_run_steps d). xc_step_id x \<in> set gone then Inl ErrConstraint
         else Inr (d\<lparr>db_steps := filter (\<lambda>s. \<not> P s) (db_steps d),
                     db_deps := filter (\<lambda>e. dep_StepID e \<notin> set gone \<and>
                                            dep_DependsOn e \<notin> set gone) (db_deps d)\<rparr>))"

definition DeleteJob :: "string \<Rightarrow> db \<Rightarrow> store_error + db" where
  "DeleteJob jobID d =
     (let gone = map rc_run_id (filter (\<lambda>r. rc_job_id r = jobID) (db_runs d));
          d1 = delete_run_steps (\<lambda>x. xc_run_id x \<in> set gone) d;
          d2 = delete_runs jobID d1
      in if jobID \<notin> set (job_ids d2) then Inl ErrNotFound
         else case delete_steps (\<lambda>s. sc_job_id s = jobID) d2 of
                Inl e \<Rightarrow> Inl e
              | Inr d3 \<Rightarrow>
                  Inr (d3\<lparr>db_jobs := filter (\<lambda>r. jc_job_id r \<noteq> jobID) (db_jobs d3)\<rparr>))"

section \<open>Steps and dependencies\<close>

definition normalize_step :: "Step \<Rightarrow> store_error + Step" where
  "normalize_step p =
     (let p = (if st_TaskType p = '''' then p\<lparr>st_TaskType := ''claude_session''\<rparr> else p);
          p = (if st_RunIf p = '''' then p\<lparr>st_RunIf := ''all_success''\<rparr> else p)
      in if st_TaskType p \<noteq> ''claude_session'' \<and> st_TaskType p \<noteq> ''shell'' \<and>
            st_TaskType p \<noteq> ''run_job'' then Inl (ErrInvalidTaskType (st_TaskType p))
         else if st_RunIf p \<noteq> ''all_success'' \<and> st_RunIf p \<noteq> ''all_done''
              then Inl (ErrInvalidRunIf (st_RunIf p))
         else if st_MaxRetries p < 0 then Inl (ErrNegativeRetries (st_MaxRetries p))
         else if st_RetryDelaySeconds p < 0
              then Inl (ErrNegativeRetryDelay (st_RetryDelaySeconds p))
         else
           (let p = (if st_TaskType p = ''shell'' then p\<lparr>st_Prompt := ''''\<rparr> else p);
                p = (if st_TaskType p = ''run_job''
                     then p\<lparr>st_Prompt := '''', st_Command := ''''\<rparr> else p)
            in Inr p))"

definition step_to_row :: "Step \<Rightarrow> step_row" where
  "step_to_row p = \<lparr>sc_step_id = st_StepID p, sc_job_id = st_JobID p, sc_name = st_Name p,
     sc_prompt = st_Prompt p, sc_machine_id = nullIfEmpty (st_MachineID p),
     sc_working_dir = Some (st_WorkingDir p), sc_command = Some (st_Command p),
     sc_args = Some (st_Args p), sc_timeout_seconds = Some (st_TimeoutSeconds p),
     sc_sort_order = st_SortOrder p, sc_on_failure = st_OnFailure p,
     sc_skip_permissions = st_SkipPermissions p, sc_model = Some (st_Model p),
     sc_delay_seconds = Some (st_DelaySeconds p), sc_task_type = st_TaskType p,
     sc_session_key = nullIfEmpty (st_SessionKey p), sc_run_if = st_RunIf p,
     sc_max_retries = st_MaxRetries p, sc_retry_delay_seconds = st_RetryDelaySeconds p,
     sc_parameters = nullIfEmpty (st_Parameters p),
     sc_target_job_id = nullIfEmpty (st_TargetJobID p),
     sc_job_params = nullIfEmpty (st_JobParams p)\<rparr>"

definition scan_step :: "step_row \<Rightarrow> Step" where
  "scan_step r = \<lparr>st_StepID = sc_step_id r, st_JobID = sc_job_id r, st_Name = sc_name r,
     st_Prompt = sc_prompt r, st_MachineID = coalesce (sc_machine_id r) '''',
     st_WorkingDir = coalesce (sc_working_dir r) '''',
     st_Command = coalesce (sc_command r) ''claude'', st_Args = coalesce (sc_args r) '''',
     st_TimeoutSeconds = coalesce (sc_timeout_seconds r) 0, st_SortOrder = sc_sort_order r,
     st_OnFailure = sc_on_failure r, st_SkipPermissions = sc_skip_permissions r,
     st_Model = coalesce (sc_model r) '''', st_DelaySeconds = coalesce (sc_delay_seconds r) 0,
     st_TaskType = sc_task_type r, st_SessionKey = coalesce (sc_session_key r) '''',
     st_RunIf = sc_run_if r, st_MaxRetries = sc_max_retries r,
     st_RetryDelaySeconds = sc_retry_delay_seconds r,
     st_Parameters = coalesce (sc_parameters r) '''',
     st_TargetJobID = coalesce (sc_target_job_id r) '''',
     st_JobParams = coalesce (sc_job_params r) ''''\<rparr>"

definition insert_step :: "step_row \<Rightarrow> db \<Rightarrow> store_error + db" where
  "insert_step row d =
     (if sc_step_id row \<in> set (step_ids d) \<or> sc_job_id row \<notin> set (job_ids d) \<or>
         \<not> fk_opt (sc_machine_id row) (db_machines d)
      then Inl ErrConstraint
      else Inr (d\<lparr>db_steps := db_steps d @ [row]\<rparr>))"

definition CreateStep :: "string \<Rightarrow> Step \<Rightarrow> db \<Rightarrow> store_error + Step \<times> db" where
  "CreateStep newID p d =
     (case normalize_step p of
        Inl e \<Rightarrow> Inl e
      | Inr q \<Rightarrow>
          (let st = q\<lparr>st_StepID := newID\<rparr>
           in case insert_step (step_to_row st) d of
                Inl e \<Rightarrow> Inl e
              | Inr d' \<Rightarrow> Inr (st, d')))"

definition UpdateStep :: "Step \<Rightarrow> db \<Rightarrow> store_error + db" where
  "UpdateStep p d =
     (case normalize_step p of
        Inl e \<Rightarrow> Inl e
      | Inr q \<Rightarrow>
          (let upd = (\<lambda>r. if sc_step_id r = st_StepID q
                          then (step_to_row q)\<lparr>sc_job_id := sc_job_id r\<rparr> else r)
           in if st_StepID q \<notin> set (step_ids d) then Inl ErrNotFound
              else if \<not> fk_opt (nullIfEmpty (st_MachineID q)) (db_machines d)
              then Inl ErrConstraint
              else Inr (d\<lparr>db_steps := map upd (db_steps d)\<rparr>)))"

definition DeleteStep :: "string \<Rightarrow> db \<Rightarrow> store_error + db" where
  "DeleteStep stepID d =
     (case delete_steps (\<lambda>s. sc_step_id s = stepID) d of
        Inl e \<Rightarrow> Inl e
      | Inr d' \<Rightarrow> if stepID \<notin> set (step_ids d) then Inl ErrNotFound else Inr d')"

definition insert_dep :: "StepDependency \<Rightarrow> db \<Rightarrow> store_error + db" where
  "insert_dep e d =
     (if e \<in> set (db_deps d) \<or> dep_StepID e \<notin> set (step_ids d) \<or>
         dep_DependsOn e \<notin> set (step_ids d) \<or> dep_StepID e = dep_DependsOn e
      then Inl ErrConstraint
      else Inr (d\<lparr>db_deps := db_deps d @ [e]\<rparr>))"

definition AddDependency :: "string \<Rightarrow> string \<Rightarrow> db \<Rightarrow> store_error + db" where
  "AddDependency stepID dependsOn d =
     (if stepID = dependsOn then Inl (ErrSelfDependency stepID)
      else insert_dep \<lparr>dep_StepID = stepID, dep_DependsOn = dependsOn\<rparr> d)"

definition RemoveDependency :: "string \<Rightarrow> string \<Rightarrow> db \<Rightarrow> store_error + db" where
  "RemoveDependency stepID dependsOn d =
     (let e = \<lparr>dep_StepID = stepID, dep_DependsOn = dependsOn\<rparr>
      in if e \<notin> set (db_deps d) then Inl ErrNotFound
         else Inr (d\<lparr>db_deps := filter (\<lambda>x. x \<noteq> e) (db_deps d)\<rparr>))"

definition GetStepsWithDeps :: "string \<Rightarrow> db \<Rightarrow> Step list \<times> StepDependency list" where
  "GetStepsWithDeps jobID d =
     (map scan_step (sort_key sc_sort_order (filter (\<lambda>s. sc_job_id s = jobID) (db_steps d))),
      filter (\<lambda>e. \<exists>s\<in>set (db_steps d). sc_step_id s = dep_StepID e \<and> sc_job_id s = jobID)
        (db_deps d))"

definition GetJob :: "string \<Rightarrow> db \<Rightarrow> store_error + JobDetail" where
  "GetJob jobID d =
     (case find (\<lambda>r. jc_job_id r = jobID) (db_jobs d) of
        None \<Rightarrow> Inl ErrNotFound
      | Some r \<Rightarrow> Inr \<lparr>jd_Job = scan_job r,
                       jd_Steps = fst (GetStepsWithDeps jobID d),
                       jd_Dependencies = snd (GetStepsWithDeps jobID d)\<rparr>)"

section \<open>Runs and run steps\<close>

definition insert_run :: "run_row \<Rightarrow> db \<Rightarrow> store_error + db" where
  "insert_run row d =
     (if rc_run_id row \<in> set (run_ids d) \<or> rc_job_id row \<notin> set (job_ids d)
      then Inl ErrConstraint
      else Inr (d\<lparr>db_runs := db_runs d @ [row]\<rparr>))"

definition CreateRun :: "string \<Rightarrow> time \<Rightarrow> CreateRunParams \<Rightarrow> db \<Rightarrow> store_error + Run \<times> db" where
  "CreateRun newID now p d =
     (case insert_run \<lparr>rc_run_id = newID, rc_job_id = cr_JobID p, rc_status = StatusPending,
                      rc_trigger_type = cr_TriggerType p,
                      rc_trigger_detail = nullIfEmpty (cr_TriggerDetail p),
                      rc_parameters = nullIfEmpty (cr_Parameters p),
                      rc_started_at = None, rc_ended_at = None, rc_created_at = now\<rparr> d of
        Inl e \<Rightarrow> Inl e
      | Inr d' \<Rightarrow> Inr (\<lparr>r_RunID = newID, r_JobID = cr_JobID p, r_Status = StatusPending,
                       r_TriggerType = cr_TriggerType p, r_TriggerDetail = cr_TriggerDetail p,
                       r_Parameters = cr_Parameters p, r_StartedAt = None,
                       r_CompletedAt = None, r_CreatedAt = now\<rparr>, d'))"

definition snapshot_row :: "string \<Rightarrow> string \<Rightarrow> Step \<Rightarrow> run_step_row" where
  "snapshot_row newID runID st =
     \<lparr>xc_run_step_id = newID, xc_run_id = runID, xc_step_id = st_StepID st,
      xc_status = StatusPending, xc_machine_id = nullIfEmpty (st_MachineID st),
      xc_session_id = None, xc_exit_code = None, xc_started_at = None, xc_ended_at = None,
      xc_error_message = None, xc_prompt = Some (st_Prompt st),
      xc_machine_id_snapshot = Some (st_MachineID st),
      xc_working_dir = Some (st_WorkingDir st), xc_command = Some (st_Command st),
      xc_args = Some (st_Args st), xc_skip_permissions = st_SkipPermissions st,
      xc_model = Some (st_Model st), xc_delay_seconds = Some (st_DelaySeconds st),
      xc_on_failure = st_OnFailure st, xc_timeout_seconds = Some (st_TimeoutSeconds st),
      xc_task_type = st_TaskType st, xc_session_key = nullIfEmpty (st_SessionKey st),
      xc_run_if = st_RunIf st, xc_max_retries = st_MaxRetries st,
      xc_retry_delay_seconds = st_RetryDelaySeconds st, xc_attempt = 1,
      xc_parameters = nullIfEmpty (st_Parameters st),
      xc_target_job_id = nullIfEmpty (st_TargetJobID st),
      xc_job_params = nullIfEmpty (st_JobParams st)\<rparr>"

definition insert_run_step :: "run_step_row \<Rightarrow> db \<Rightarrow> store_error + db" where
  "insert_run_step row d =
     (if xc_run_step_id row \<in> set (run_step_ids d) \<or> xc_run_id row \<notin> set (run_ids d) \<or>
         xc_step_id row \<notin> set (step_ids d) \<or> \<not> fk_opt (xc_machine_id row) (db_machines d)
      then Inl ErrConstraint
      else Inr (d\<lparr>db_run_steps := db_run_steps d @ [row]\<rparr>))"

text \<open>One generated identifier per step; the whole loop is one transaction.\<close>

fun insert_run_steps_tx :: "string \<Rightarrow> (string \<times> Step) list \<Rightarrow> db \<Rightarrow> store_error + db" where
  "insert_run_steps_tx runID [] d = Inr d"
| "insert_run_steps_tx runID ((newID, st) # rest) d =
     (case insert_run_step (snapshot_row newID runID st) d of
        Inl e \<Rightarrow> Inl e
      | Inr d' \<Rightarrow> insert_run_steps_tx runID rest d')"

definition InsertRunSteps :: "string list \<Rightarrow> string \<Rightarrow> Step list \<Rightarrow> db \<Rightarrow> store_error + db" where
  "InsertRunSteps newIDs runID steps d = insert_run_steps_tx runID (zip newIDs steps) d"

definition scan_run :: "run_row \<Rightarrow> Run" where
  "scan_run r = \<lparr>r_RunID = rc_run_id r, r_JobID = rc_job_id r, r_Status = rc_status r,
     r_TriggerType = rc_trigger_type r, r_TriggerDetail = coalesce (rc_trigger_detail r) '''',
     r_Parameters = coalesce (rc_parameters r) '''', r_StartedAt = rc_started_at r,
     r_CompletedAt = rc_ended_at r, r_CreatedAt = rc_created_at r\<rparr>"

definition scan_run_step :: "run_step_row \<Rightarrow> RunStep" where
  "scan_run_step x = \<lparr>rs_RunStepID = xc_run_step_id x, rs_RunID = xc_run_id x,
     rs_StepID = xc_step_id x, rs_Status = xc_status x,
     rs_SessionID = coalesce (xc_session_id x) '''',
     rs_MachineID = coalesce (xc_machine_id x) '''', rs_ExitCode = xc_exit_code x,
     rs_StartedAt = xc_started_at x, rs_CompletedAt = xc_ended_at x,
     rs_PromptSnapshot = coalesce (xc_prompt x) '''',
     rs_MachineIDSnapshot = coalesce (xc_machine_id_snapshot x) '''',
     rs_WorkingDirSnapshot = coalesce (xc_working_dir x) '''',
     rs_CommandSnapshot = coalesce (xc_command x) '''',
     rs_ArgsSnapshot = coalesce (xc_args x) '''',
     rs_SkipPermissionsSnapshot = xc_skip_permissions x,
     rs_ModelSnapshot = coalesce (xc_model x) '''',
     rs_DelaySecondsSnapshot = coalesce (xc_delay_seconds x) 0,
     rs_OnFailureSnapshot = xc_on_failure x,
     rs_TimeoutSecondsSnapshot = coalesce (xc_timeout_seconds x) 0,
     rs_TaskTypeSnapshot = xc_task_type x,
     rs_SessionKeySnapshot = coalesce (xc_session_key x) '''',
     rs_RunIfSnapshot = xc_run_if x, rs_MaxRetriesSnapshot = xc_max_retries x,
     rs_RetryDelaySecondsSnapshot = xc_retry_delay_seconds x, rs_Attempt = xc_attempt x,
     rs_ParametersSnapshot = coalesce (xc_parameters x) '''',
     rs_TargetJobIDSnapshot = coalesce (xc_target_job_id x) '''',
     rs_JobParamsSnapshot = coalesce (xc_job_params x) '''',
     rs_OnFailure = xc_on_failure x,
     rs_ErrorMessage = coalesce (xc_error_message x) ''''\<rparr>"

definition run_steps_of :: "string \<Rightarrow> db \<Rightarrow> RunStep list" where
  "run_steps_of runID d =
     map scan_run_step (filter (\<lambda>x. xc_run_id x = runID) (db_run_steps d))"

definition GetRunWithSteps :: "string \<Rightarrow> db \<Rightarrow> store_error + RunDetail" where
  "GetRunWithSteps runID d =
     (case find (\<lambda>r. rc_run_id r = runID) (db_runs d) of
        None \<Rightarrow> Inl ErrNotFound
      | Some r \<Rightarrow> Inr \<lparr>rd_Run = scan_run r, rd_RunSteps = run_steps_of runID d\<rparr>)"

definition run_step_status_set :: "time \<Rightarrow> string \<Rightarrow> string \<Rightarrow> int \<Rightarrow> run_step_row \<Rightarrow> run_step_row" where
  "run_step_status_set now status sessionID exitCode x =
     (if status = StatusRunning
      then x\<lparr>xc_status := status, xc_session_id := nullIfEmpty sessionID,
             xc_started_at := Some now\<rparr>
      else if status = StatusCompleted \<or> status = StatusFailed
      then (if sessionID \<noteq> ''''
            then x\<lparr>xc_status := status, xc_session_id := Some sessionID,
                   xc_exit_code := Some exitCode, xc_ended_at := Some now\<rparr>
            else x\<lparr>xc_status := status, xc_exit_code := Some exitCode,
                   xc_ended_at := Some now\<rparr>)
      else x\<lparr>xc_status := status\<rparr>)"

definition UpdateRunStepStatus ::
  "time \<Rightarrow> string \<Rightarrow> string \<Rightarrow> string \<Rightarrow> int \<Rightarrow> db \<Rightarrow> store_error + db" where
  "UpdateRunStepStatus now runStepID status sessionID exitCode d =
     (if runStepID \<notin> set (run_step_ids d) then Inl ErrNotFound
      else Inr (d\<lparr>db_run_steps := map (\<lambda>x. if xc_run_step_id x = runStepID
                     then run_step_status_set now status sessionID exitCode x else x)
                   (db_run_steps d)\<rparr>))"

definition run_status_set :: "time \<Rightarrow> string \<Rightarrow> run_row \<Rightarrow> run_row" where
  "run_status_set now status r =
     (if status = StatusRunning then r\<lparr>rc_status := status, rc_started_at := Some now\<rparr>
      else if status = StatusCompleted \<or> status = StatusFailed \<or> status = StatusCancelled
      then r\<lparr>rc_status := status, rc_ended_at := Some now\<rparr>
      else r\<lparr>rc_status := status\<rparr>)"

definition UpdateRunStatus :: "time \<Rightarrow> string \<Rightarrow> string \<Rightarrow> db \<Rightarrow> store_error + db" where
  "UpdateRunStatus now runID status d =
     (if runID \<notin> set (run_ids d) then Inl ErrNotFound
      else Inr (d\<lparr>db_runs := map (\<lambda>r. if rc_run_id r = runID
                     then run_status_set now status r else r) (db_runs d)\<rparr>))"

definition UpdateRunStepErrorMessage :: "string \<Rightarrow> string \<Rightarrow> db \<Rightarrow> store_error + db" where
  "UpdateRunStepErrorMessage runStepID msg d =
     (if runStepID \<notin> set (run_step_ids d) then Inl ErrNotFound
      else Inr (d\<lparr>db_run_steps := map (\<lambda>x. if xc_run_step_id x = runStepID
                     then x\<lparr>xc_error_message := Some msg\<rparr> else x) (db_run_steps d)\<rparr>))"

definition UpdateRunParameters :: "string \<Rightarrow> string \<Rightarrow> db \<Rightarrow> store_error + db" where
  "UpdateRunParameters runID parametersJSON d =
     (if runID \<notin> set (run_ids d) then Inl ErrNotFound
      else Inr (d\<lparr>db_runs := map (\<lambda>r. if rc_run_id r = runID
                     then r\<lparr>rc_parameters := Some parametersJSON\<rparr> else r) (db_runs d)\<rparr>))"

text \<open>No affected-row check here: an unknown identifier is silently ignored.\<close>

definition UpdateRunStepAttempt :: "string \<Rightarrow> int \<Rightarrow> db \<Rightarrow> db" where
  "UpdateRunStepAttempt runStepID attempt d =
     d\<lparr>db_run_steps := map (\<lambda>x. if xc_run_step_id x = runStepID
          then x\<lparr>xc_attempt := attempt\<rparr> else x) (db_run_steps d)\<rparr>"

definition ListRuns :: "string \<Rightarrow> db \<Rightarrow> Run list" where
  "ListRuns jobID d =
     map scan_run (sort_key (\<lambda>r. - rc_created_at r)
       (filter (\<lambda>r. rc_job_id r = jobID) (db_runs d)))"

definition CountRunsForJobUpTo :: "string \<Rightarrow> time \<Rightarrow> db \<Rightarrow> int" where
  "CountRunsForJobUpTo jobID upTo d =
     int (length (filter (\<lambda>r. rc_job_id r = jobID \<and> rc_created_at r \<le> upTo) (db_runs d)))"

record ListRunsOptions =
  lo_JobID :: string
  lo_Status :: string
  lo_TriggerType :: string
  lo_UserID :: string
  lo_Limit :: int
  lo_Offset :: int

definition list_runs_match :: "ListRunsOptions \<Rightarrow> job_row \<Rightarrow> run_row \<Rightarrow> bool" where
  "list_runs_match opts j r \<longleftrightarrow>
     (lo_JobID opts \<noteq> '''' \<longrightarrow> rc_job_id r = lo_JobID opts) \<and>
     (lo_Status opts \<noteq> '''' \<longrightarrow> rc_status r = lo_Status opts) \<and>
     (lo_TriggerType opts \<noteq> '''' \<longrightarrow> rc_trigger_type r = lo_TriggerType opts) \<and>
     (lo_UserID opts \<noteq> '''' \<longrightarrow> jc_user_id j = Some (lo_UserID opts))"

text \<open>The rows of \<open>ListAllRuns\<close>: each run with its job, newest first, one page of them.\<close>

definition ListAllRuns :: "ListRunsOptions \<Rightarrow> db \<Rightarrow> (run_row \<times> job_row) list" where
  "ListAllRuns opts d =
     (let limit = (if lo_Limit opts \<le> 0 then 50 else lo_Limit opts);
          joined = concat (map (\<lambda>r. map (\<lambda>j. (r, j))
                     (filter (\<lambda>j. jc_job_id j = rc_job_id r) (db_jobs d))) (db_runs d));
          hits = filter (\<lambda>(r, j). list_runs_match opts j r) joined;
          sorted = sort_key (\<lambda>(r, j). - rc_created_at r)
                     (rev (sort_key (\<lambda>(r, j). rc_run_id r) hits))
      in take (nat limit) (drop (nat (lo_Offset opts)) sorted))"

section \<open>Task values\<close>

definition maxTaskValueSize :: nat where "maxTaskValueSize = 32 * 1024"
definition maxTaskValuesPerStep :: nat where "maxTaskValuesPerStep = 20"
definition maxTaskValueKeyLen :: nat where "maxTaskValueKeyLen = 64"

definition is_alpha :: "char \<Rightarrow> bool" where
  "is_alpha c \<longleftrightarrow> (CHR ''a'' \<le> c \<and> c \<le> CHR ''z'') \<or> (CHR ''A'' \<le> c \<and> c \<le> CHR ''Z'')"

definition is_digit :: "char \<Rightarrow> bool" where
  "is_digit c \<longleftrightarrow> CHR ''0'' \<le> c \<and> c \<le> CHR ''9''"

definition is_word_char :: "char \<Rightarrow> bool" where
  "is_word_char c \<longleftrightarrow> is_alpha c \<or> is_digit c \<or> c = CHR ''_''"

text \<open>\<open>^[a-zA-Z][a-zA-Z0-9_]*$\<close>\<close>

fun taskValueKeyPattern :: "string \<Rightarrow> bool" where
  "taskValueKeyPattern [] = False"
| "taskValueKeyPattern (c # cs) = (is_alpha c \<and> list_all is_word_char cs)"

definition values_of :: "string \<Rightarrow> db \<Rightarrow> TaskValue list" where
  "values_of runStepID d = filter (\<lambda>v. tv_RunStepID v = runStepID) (db_values d)"

definition SetTaskValue :: "time \<Rightarrow> string \<Rightarrow> string \<Rightarrow> string \<Rightarrow> db \<Rightarrow> store_error + db" where
  "SetTaskValue now runStepID key val d =
     (if key = '''' then Inl ErrTaskValueKeyEmpty
      else if length key > maxTaskValueKeyLen then Inl ErrTaskValueKeyLength
      else if \<not> taskValueKeyPattern key then Inl (ErrTaskValueKeyPattern key)
      else if length val > maxTaskValueSize then Inl ErrTaskValueSize
      else
        (let existingCount = length (values_of runStepID d);
             exists = length (filter (\<lambda>v. tv_Key v = key) (values_of runStepID d))
         in if exists = 0 \<and> existingCount \<ge> maxTaskValuesPerStep
            then Inl (ErrTaskValueCount runStepID)
            else if runStepID \<notin> set (run_step_ids d) then Inl ErrConstraint
            else if exists = 0
            then Inr (d\<lparr>db_values := db_values d @
                   [\<lparr>tv_RunStepID = runStepID, tv_Key = key, tv_Value = val,
                     tv_CreatedAt = now\<rparr>]\<rparr>)
            else Inr (d\<lparr>db_values := map (\<lambda>v. if tv_RunStepID v = runStepID \<and> tv_Key v = key
                   then v\<lparr>tv_Value := val, tv_CreatedAt := now\<rparr> else v) (db_values d)\<rparr>)))"

definition GetTaskValues :: "string \<Rightarrow> db \<Rightarrow> TaskValue list" where
  "GetTaskValues runStepID d = sort_key tv_Key (values_of runStepID d)"

definition GetTaskValuesForSteps :: "string list \<Rightarrow> db \<Rightarrow> TaskValue list" where
  "GetTaskValuesForSteps runStepIDs d =
     (if runStepIDs = [] then []
      else sort_key tv_RunStepID (sort_key tv_Key
             (filter (\<lambda>v. tv_RunStepID v \<in> set runStepIDs) (db_values d))))"

definition DeleteTaskValuesForStep :: "string \<Rightarrow> db \<Rightarrow> db" where
  "DeleteTaskValuesForStep runStepID d =
     d\<lparr>db_values := filter (\<lambda>v. tv_RunStepID v \<noteq> runStepID) (db_values d)\<rparr>"

section \<open>Cloning a job\<close>

fun clone_steps :: "string \<Rightarrow> (string \<times> Step) list \<Rightarrow> db \<Rightarrow> store_error + Step list \<times> db" where
  "clone_steps newJobID [] d = Inr ([], d)"
| "clone_steps newJobID ((newID, st) # rest) d =
     (let st' = st\<lparr>st_StepID := newID, st_JobID := newJobID\<rparr>
      in case insert_step (step_to_row st') d of
           Inl e \<Rightarrow> Inl e
         | Inr d' \<Rightarrow>
             (case clone_steps newJobID rest d' of
                Inl e \<Rightarrow> Inl e
              | Inr (sts, d'') \<Rightarrow> Inr (st' # sts, d'')))"

fun clone_deps :: "(string, string) fmap \<Rightarrow> StepDependency list \<Rightarrow> db \<Rightarrow>
    store_error + StepDependency list \<times> db" where
  "clone_deps m [] d = Inr ([], d)"
| "clone_deps m (e # rest) d =
     (case (fmlookup m (dep_StepID e), fmlookup m (dep_DependsOn e)) of
        (Some a, Some b) \<Rightarrow>
          (let e' = \<lparr>dep_StepID = a, dep_DependsOn = b\<rparr>
           in case insert_dep e' d of
                Inl er \<Rightarrow> Inl er
              | Inr d' \<Rightarrow>
                  (case clone_deps m rest d' of
                     Inl er \<Rightarrow> Inl er
                   | Inr (es, d'') \<Rightarrow> Inr (e' # es, d'')))
      | _ \<Rightarrow> clone_deps m rest d)"

definition CloneJob :: "string \<Rightarrow> string list \<Rightarrow> time \<Rightarrow> string \<Rightarrow> string \<Rightarrow> db \<Rightarrow>
    store_error + JobDetail \<times> db" where
  "CloneJob newJobID newIDs now jobID newName d =
     (case GetJob jobID d of
        Inl e \<Rightarrow> Inl e
      | Inr src \<Rightarrow>
          (let j = jd_Job src;
               nm = (if newName = '''' then j_Name j @ '' (copy)'' else newName);
               maxConcurrent = clamp_concurrent (j_MaxConcurrentRuns j);
               pairs = zip newIDs (jd_Steps src);
               stepIDMap = fmap_of_list (rev (map (\<lambda>(n, st). (st_StepID st, n)) pairs));
               row = \<lparr>jc_job_id = newJobID, jc_name = nm,
                      jc_description = nullIfEmpty (j_Description j),
                      jc_user_id = nullIfEmpty (j_UserID j),
                      jc_parameters = nullIfEmpty (j_Parameters j),
                      jc_timeout_seconds = j_TimeoutSeconds j,
                      jc_max_concurrent_runs = maxConcurrent,
                      jc_created_at = now, jc_updated_at = now\<rparr>
           in case insert_job row d of
                Inl e \<Rightarrow> Inl e
              | Inr d1 \<Rightarrow>
                  (case clone_steps newJobID pairs d1 of
                     Inl e \<Rightarrow> Inl e
                   | Inr (newSteps, d2) \<Rightarrow>
                       (case clone_deps stepIDMap (jd_Dependencies src) d2 of
                          Inl e \<Rightarrow> Inl e
                        | Inr (newDeps, d3) \<Rightarrow>
                            Inr (\<lparr>jd_Job = j\<lparr>j_JobID := newJobID, j_Name := nm,
                                     j_MaxConcurrentRuns := maxConcurrent,
                                     j_CreatedAt := now, j_UpdatedAt := now\<rparr>,
                                  jd_Steps = newSteps, jd_Dependencies = newDeps\<rparr>, d3)))))"
end
