(* ===== verification/Job_Store_Facts.thy ===== *)
theory Job_Store_Facts
  imports Job_Store "HOL-Library.Multiset"
begin

text \<open>
  Integrity of the job store: primary keys stay unique, every foreign key resolves,
  dependency edges are never reflexive, and the task values of a run step stay within
  their limits, whatever sequence of store operations runs. Then the round trips
  (a created job, step or run reads back as the value that was returned), the effect of
  the status updates, and the step graph of a cloned job.
\<close>

section \<open>Integrity\<close>

definition wf_keys :: "db \<Rightarrow> bool" where
  "wf_keys d \<longleftrightarrow> distinct (job_ids d) \<and> distinct (step_ids d) \<and> distinct (run_ids d) \<and>
     distinct (run_step_ids d) \<and> distinct (db_deps d)"

definition wf_refs :: "db \<Rightarrow> bool" where
  "wf_refs d \<longleftrightarrow>
     (\<forall>r\<in>set (db_jobs d). fk_opt (jc_user_id r) (db_users d)) \<and>
     (\<forall>s\<in>set (db_steps d). sc_job_id s \<in> set (job_ids d) \<and>
        fk_opt (sc_machine_id s) (db_machines d)) \<and>
     (\<forall>e\<in>set (db_deps d). dep_StepID e \<in> set (step_ids d) \<and>
        dep_DependsOn e \<in> set (step_ids d) \<and> dep_StepID e \<noteq> dep_DependsOn e) \<and>
     (\<forall>r\<in>set (db_runs d). rc_job_id r \<in> set (job_ids d)) \<and>
     (\<forall>x\<in>set (db_run_steps d). xc_run_id x \<in> set (run_ids d) \<and>
        xc_step_id x \<in> set (step_ids d) \<and> fk_opt (xc_machine_id x) (db_machines d)) \<and>
     (\<forall>v\<in>set (db_values d). tv_RunStepID v \<in> set (run_step_ids d))"

definition wf_values :: "db \<Rightarrow> bool" where
  "wf_values d \<longleftrightarrow>
     distinct (map (\<lambda>v. (tv_RunStepID v, tv_Key v)) (db_values d)) \<and>
     (\<forall>v\<in>set (db_values d). taskValueKeyPattern (tv_Key v) \<and>
        length (tv_Key v) \<le> maxTaskValueKeyLen \<and> length (tv_Value v) \<le> maxTaskValueSize) \<and>
     (\<forall>r. length (values_of r d) \<le> maxTaskValuesPerStep)"

definition wf_db :: "db \<Rightarrow> bool" where
  "wf_db d \<longleftrightarrow> wf_keys d \<and> wf_refs d \<and> wf_values d"

definition empty_db :: "string list \<Rightarrow> string list \<Rightarrow> db" where
  "empty_db users machines = \<lparr>db_users = users, db_machines = machines, db_jobs = [],
     db_steps = [], db_deps = [], db_runs = [], db_run_steps = [], db_values = []\<rparr>"

lemma wf_empty_db: "wf_db (empty_db us ms)"
  by (simp add: wf_db_def wf_keys_def wf_refs_def wf_values_def empty_db_def values_of_def)

lemmas wf_all = wf_db_def wf_keys_def wf_refs_def wf_values_def values_of_def

lemma insert_job_wf: "insert_job row d = Inr d' \<Longrightarrow> wf_db d \<Longrightarrow> wf_db d'"
  by (auto simp: insert_job_def wf_all split: if_splits)

lemma insert_step_wf: "insert_step row d = Inr d' \<Longrightarrow> wf_db d \<Longrightarrow> wf_db d'"
  by (auto simp: insert_step_def wf_all split: if_splits)

lemma insert_dep_wf: "insert_dep e d = Inr d' \<Longrightarrow> wf_db d \<Longrightarrow> wf_db d'"
  by (auto simp: insert_dep_def wf_all split: if_splits)

lemma insert_run_wf: "insert_run row d = Inr d' \<Longrightarrow> wf_db d \<Longrightarrow> wf_db d'"
  by (auto simp: insert_run_def wf_all split: if_splits)

lemma insert_run_step_wf: "insert_run_step row d = Inr d' \<Longrightarrow> wf_db d \<Longrightarrow> wf_db d'"
  by (auto simp: insert_run_step_def wf_all split: if_splits)

text \<open>A row-wise update that keeps the columns the integrity rules read keeps integrity.\<close>

lemma map_run_steps_wf:
  assumes "wf_db d"
    and keep: "\<And>x. xc_run_step_id (f x) = xc_run_step_id x \<and> xc_run_id (f x) = xc_run_id x \<and>
      xc_step_id (f x) = xc_step_id x \<and> xc_machine_id (f x) = xc_machine_id x"
  shows "wf_db (d\<lparr>db_run_steps := map f (db_run_steps d)\<rparr>)"
proof -
  have "xc_run_step_id \<circ> f = xc_run_step_id"
    by (rule ext) (simp add: keep)
  then show ?thesis
    using assms(1) by (simp add: wf_all keep image_image)
qed

lemma map_runs_wf:
  assumes "wf_db d"
    and keep: "\<And>r. rc_run_id (f r) = rc_run_id r \<and> rc_job_id (f r) = rc_job_id r"
  shows "wf_db (d\<lparr>db_runs := map f (db_runs d)\<rparr>)"
proof -
  have "rc_run_id \<circ> f = rc_run_id"
    by (rule ext) (simp add: keep)
  then show ?thesis
    using assms(1) by (simp add: wf_all keep image_image)
qed

lemma map_jobs_wf:
  assumes "wf_db d"
    and keep: "\<And>r. jc_job_id (f r) = jc_job_id r \<and> jc_user_id (f r) = jc_user_id r"
  shows "wf_db (d\<lparr>db_jobs := map f (db_jobs d)\<rparr>)"
proof -
  have "jc_job_id \<circ> f = jc_job_id"
    by (rule ext) (simp add: keep)
  then show ?thesis
    using assms(1) by (simp add: wf_all keep image_image)
qed

lemma map_steps_wf:
  assumes "wf_db d"
    and keep: "\<And>s. sc_step_id (f s) = sc_step_id s \<and> sc_job_id (f s) = sc_job_id s"
    and fk: "\<And>s. s \<in> set (db_steps d) \<Longrightarrow> fk_opt (sc_machine_id (f s)) (db_machines d)"
  shows "wf_db (d\<lparr>db_steps := map f (db_steps d)\<rparr>)"
proof -
  have "sc_step_id \<circ> f = sc_step_id"
    by (rule ext) (simp add: keep)
  then show ?thesis
    using assms(1) fk by (simp add: wf_all keep image_image)
qed

lemma image_split:
  "a \<in> f ` S \<Longrightarrow> a \<notin> f ` {x \<in> S. P x} \<Longrightarrow> a \<in> f ` {x \<in> S. \<not> P x}"
  by auto

lemma length_filter_conj: "length (filter P xs) \<le> n \<Longrightarrow> length (filter (\<lambda>x. Q x \<and> P x) xs) \<le> n"
  by (induction xs arbitrary: n) (auto split: if_splits, force)

lemma values_filter_wf:
  assumes "wf_values d"
  shows "wf_values (d\<lparr>db_values := filter Q (db_values d)\<rparr>)"
  using assms by (auto simp: wf_values_def values_of_def distinct_map_filter intro: length_filter_conj)

lemma wf_values_cong: "db_values d' = db_values d \<Longrightarrow> wf_values d' = wf_values d"
  by (simp add: wf_values_def values_of_def)

lemma delete_run_steps_frame [simp]:
  "db_runs (delete_run_steps P d) = db_runs d"
  "db_jobs (delete_run_steps P d) = db_jobs d"
  "db_steps (delete_run_steps P d) = db_steps d"
  "db_deps (delete_run_steps P d) = db_deps d"
  by (simp_all add: delete_run_steps_def Let_def)

lemma delete_run_steps_wf:
  assumes "wf_db d"
  shows "wf_db (delete_run_steps P d)"
proof -
  have "wf_values (delete_run_steps P d)"
    using assms values_filter_wf [of d] by (simp add: delete_run_steps_def Let_def wf_db_def
        wf_values_def values_of_def)
  moreover have "wf_keys (delete_run_steps P d)"
    using assms by (simp add: delete_run_steps_def Let_def wf_db_def wf_keys_def distinct_map_filter)
  moreover have "wf_refs (delete_run_steps P d)"
    using assms by (simp add: delete_run_steps_def Let_def wf_db_def wf_refs_def image_split)
  ultimately show ?thesis by (simp add: wf_db_def)
qed

lemma delete_run_rows_wf:
  assumes "wf_db d" and "\<And>x. x \<in> set (db_run_steps d) \<Longrightarrow> \<exists>r\<in>set (db_runs d). rc_run_id r = xc_run_id x \<and> Q r"
  shows "wf_db (d\<lparr>db_runs := filter Q (db_runs d)\<rparr>)"
proof -
  have "xc_run_id x \<in> rc_run_id ` {r \<in> set (db_runs d). Q r}" if "x \<in> set (db_run_steps d)" for x
    using assms(2) [OF that] by force
  then show ?thesis
    using assms(1) by (simp add: wf_all distinct_map_filter)
qed

lemma delete_runs_wf:
  assumes "wf_db d"
  shows "wf_db (delete_runs j d)"
proof -
  let ?gone = "map rc_run_id (filter (\<lambda>r. rc_job_id r = j) (db_runs d))"
  let ?d = "delete_run_steps (\<lambda>x. xc_run_id x \<in> set ?gone) d"
  have wf: "wf_db ?d" using assms by (rule delete_run_steps_wf)
  have "\<exists>r\<in>set (db_runs ?d). rc_run_id r = xc_run_id x \<and> rc_job_id r \<noteq> j"
    if "x \<in> set (db_run_steps ?d)" for x
  proof -
    have "xc_run_id x \<notin> set ?gone" and "x \<in> set (db_run_steps d)"
      using that by (auto simp: delete_run_steps_def Let_def)
    moreover from this assms have "xc_run_id x \<in> set (run_ids d)"
      by (simp add: wf_db_def wf_refs_def)
    ultimately show ?thesis by auto
  qed
  from delete_run_rows_wf [OF wf this] show ?thesis
    by (simp add: delete_runs_def Let_def)
qed

lemma delete_steps_wf:
  assumes "delete_steps P d = Inr d'" and "wf_db d"
  shows "wf_db d'"
proof -
  let ?gone = "map sc_step_id (filter P (db_steps d))"
  have d': "d' = d\<lparr>db_steps := filter (\<lambda>s. \<not> P s) (db_steps d),
      db_deps := filter (\<lambda>e. dep_StepID e \<notin> set ?gone \<and> dep_DependsOn e \<notin> set ?gone) (db_deps d)\<rparr>"
    and none: "\<forall>x\<in>set (db_run_steps d). xc_step_id x \<notin> set ?gone"
    using assms(1) by (auto simp: delete_steps_def Let_def split: if_splits)
  have keep: "k \<in> set (step_ids d')" if "k \<in> set (step_ids d)" "k \<notin> set ?gone" for k
    using that by (auto simp: d')
  have "wf_values d'" using assms(2) by (simp add: d' wf_db_def wf_values_def values_of_def)
  moreover have "wf_keys d'"
    using assms(2) by (simp add: d' wf_db_def wf_keys_def distinct_map_filter)
  moreover have "wf_refs d'"
    unfolding wf_refs_def using assms(2) none keep
    by (simp add: d' wf_db_def wf_refs_def)
  ultimately show ?thesis by (simp add: wf_db_def)
qed

section \<open>Every operation keeps integrity\<close>

lemma CreateJob_wf: "CreateJob i now p d = Inr (j, d') \<Longrightarrow> wf_db d \<Longrightarrow> wf_db d'"
  by (auto simp: CreateJob_def Let_def split: sum.splits intro: insert_job_wf)

lemma UpdateJob_wf: "UpdateJob now p d = Inr (j, d') \<Longrightarrow> wf_db d \<Longrightarrow> wf_db d'"
  by (auto simp: UpdateJob_def Let_def split: option.splits intro!: map_jobs_wf)

lemma DeleteJob_wf:
  assumes "DeleteJob j d = Inr d'" and "wf_db d"
  shows "wf_db d'"
proof -
  let ?gone = "map rc_run_id (filter (\<lambda>r. rc_job_id r = j) (db_runs d))"
  let ?d2 = "delete_runs j (delete_run_steps (\<lambda>x. xc_run_id x \<in> set ?gone) d)"
  obtain d3 where d3: "delete_steps (\<lambda>s. sc_job_id s = j) ?d2 = Inr d3"
    and d': "d' = d3\<lparr>db_jobs := filter (\<lambda>r. jc_job_id r \<noteq> j) (db_jobs d3)\<rparr>"
    using assms(1) by (auto simp: DeleteJob_def Let_def split: if_splits sum.splits)
  have wf2: "wf_db ?d2" using assms(2) by (intro delete_runs_wf delete_run_steps_wf)
  with d3 have wf3: "wf_db d3" by (rule delete_steps_wf)
  have "sc_job_id s \<noteq> j" if "s \<in> set (db_steps d3)" for s
    using d3 that by (auto simp: delete_steps_def Let_def split: if_splits)
  moreover have "rc_job_id r \<noteq> j" if "r \<in> set (db_runs d3)" for r
    using d3 that by (auto simp: delete_steps_def delete_runs_def Let_def split: if_splits)
  ultimately have "\<forall>s\<in>set (db_steps d3). sc_job_id s \<in> jc_job_id ` {x \<in> set (db_jobs d3). jc_job_id x \<noteq> j}"
    and "\<forall>r\<in>set (db_runs d3). rc_job_id r \<in> jc_job_id ` {x \<in> set (db_jobs d3). jc_job_id x \<noteq> j}"
    using wf3 by (force simp: wf_db_def wf_refs_def)+
  then show ?thesis
    using wf3 by (simp add: d' wf_all distinct_map_filter)
qed

lemma CreateStep_wf: "CreateStep i p d = Inr (st, d') \<Longrightarrow> wf_db d \<Longrightarrow> wf_db d'"
  by (auto simp: CreateStep_def Let_def split: sum.splits intro: insert_step_wf)

lemma step_to_row_frame [simp]:
  "sc_step_id (step_to_row p) = st_StepID p" "sc_job_id (step_to_row p) = st_JobID p"
  "sc_machine_id (step_to_row p) = nullIfEmpty (st_MachineID p)"
  "sc_sort_order (step_to_row p) = st_SortOrder p"
  by (simp_all add: step_to_row_def)

lemma UpdateStep_wf:
  assumes "UpdateStep p d = Inr d'" and wf: "wf_db d"
  shows "wf_db d'"
proof -
  obtain q where fk: "fk_opt (nullIfEmpty (st_MachineID q)) (db_machines d)"
    and d': "d' = d\<lparr>db_steps := map (\<lambda>r. if sc_step_id r = st_StepID q
          then (step_to_row q)\<lparr>sc_job_id := sc_job_id r\<rparr> else r) (db_steps d)\<rparr>"
    using assms(1) by (auto simp: UpdateStep_def Let_def split: sum.splits if_splits)
  show ?thesis unfolding d'
  proof (rule map_steps_wf [OF wf])
    show "fk_opt (sc_machine_id (if sc_step_id s = st_StepID q
        then (step_to_row q)\<lparr>sc_job_id := sc_job_id s\<rparr> else s)) (db_machines d)"
      if "s \<in> set (db_steps d)" for s
      using that wf fk by (simp add: wf_db_def wf_refs_def)
  qed simp
qed

lemma DeleteStep_wf: "DeleteStep i d = Inr d' \<Longrightarrow> wf_db d \<Longrightarrow> wf_db d'"
  by (auto simp: DeleteStep_def split: sum.splits if_splits intro: delete_steps_wf)

lemma AddDependency_wf: "AddDependency a b d = Inr d' \<Longrightarrow> wf_db d \<Longrightarrow> wf_db d'"
  by (auto simp: AddDependency_def split: if_splits intro: insert_dep_wf)

lemma RemoveDependency_wf: "RemoveDependency a b d = Inr d' \<Longrightarrow> wf_db d \<Longrightarrow> wf_db d'"
  by (auto simp: RemoveDependency_def Let_def wf_all split: if_splits)

lemma CreateRun_wf: "CreateRun i now p d = Inr (r, d') \<Longrightarrow> wf_db d \<Longrightarrow> wf_db d'"
  by (auto simp: CreateRun_def split: sum.splits intro: insert_run_wf)

lemma insert_run_steps_tx_wf: "insert_run_steps_tx run ps d = Inr d' \<Longrightarrow> wf_db d \<Longrightarrow> wf_db d'"
  by (induction run ps d rule: insert_run_steps_tx.induct)
    (auto split: sum.splits dest: insert_run_step_wf)

lemma InsertRunSteps_wf: "InsertRunSteps is run sts d = Inr d' \<Longrightarrow> wf_db d \<Longrightarrow> wf_db d'"
  by (auto simp: InsertRunSteps_def intro: insert_run_steps_tx_wf)

lemma run_step_status_set_frame [simp]:
  "xc_run_step_id (run_step_status_set now s sess e x) = xc_run_step_id x"
  "xc_run_id (run_step_status_set now s sess e x) = xc_run_id x"
  "xc_step_id (run_step_status_set now s sess e x) = xc_step_id x"
  "xc_machine_id (run_step_status_set now s sess e x) = xc_machine_id x"
  "xc_status (run_step_status_set now s sess e x) = s"
  by (simp_all add: run_step_status_set_def)

lemma run_status_set_frame [simp]:
  "rc_run_id (run_status_set now s r) = rc_run_id r"
  "rc_job_id (run_status_set now s r) = rc_job_id r"
  "rc_status (run_status_set now s r) = s"
  "rc_parameters (run_status_set now s r) = rc_parameters r"
  "rc_created_at (run_status_set now s r) = rc_created_at r"
  by (simp_all add: run_status_set_def)

lemma UpdateRunStepStatus_wf: "UpdateRunStepStatus now i s sess e d = Inr d' \<Longrightarrow> wf_db d \<Longrightarrow> wf_db d'"
  by (auto simp: UpdateRunStepStatus_def split: if_splits intro!: map_run_steps_wf)

lemma UpdateRunStatus_wf: "UpdateRunStatus now i s d = Inr d' \<Longrightarrow> wf_db d \<Longrightarrow> wf_db d'"
  by (auto simp: UpdateRunStatus_def split: if_splits intro!: map_runs_wf)

lemma UpdateRunStepErrorMessage_wf: "UpdateRunStepErrorMessage i m d = Inr d' \<Longrightarrow> wf_db d \<Longrightarrow> wf_db d'"
  by (auto simp: UpdateRunStepErrorMessage_def split: if_splits intro!: map_run_steps_wf)

lemma UpdateRunParameters_wf: "UpdateRunParameters i js d = Inr d' \<Longrightarrow> wf_db d \<Longrightarrow> wf_db d'"
  by (auto simp: UpdateRunParameters_def split: if_splits intro!: map_runs_wf)

lemma UpdateRunStepAttempt_wf: "wf_db d \<Longrightarrow> wf_db (UpdateRunStepAttempt i n d)"
  by (auto simp: UpdateRunStepAttempt_def intro!: map_run_steps_wf)

lemma DeleteTaskValuesForStep_wf: "wf_db d \<Longrightarrow> wf_db (DeleteTaskValuesForStep i d)"
  using values_filter_wf [of d "\<lambda>v. tv_RunStepID v \<noteq> i"]
  by (simp add: DeleteTaskValuesForStep_def wf_db_def wf_keys_def wf_refs_def)

lemma clone_steps_wf: "clone_steps j ps d = Inr (sts, d') \<Longrightarrow> wf_db d \<Longrightarrow> wf_db d'"
  by (induction j ps d arbitrary: sts rule: clone_steps.induct)
    (auto simp: Let_def split: sum.splits prod.splits dest: insert_step_wf)

lemma clone_deps_wf: "clone_deps m es d = Inr (es', d') \<Longrightarrow> wf_db d \<Longrightarrow> wf_db d'"
  by (induction m es d arbitrary: es' rule: clone_deps.induct)
    (auto simp: Let_def split: sum.splits prod.splits option.splits dest: insert_dep_wf)

lemma CloneJob_wf: "CloneJob nj is now j nm d = Inr (jd, d') \<Longrightarrow> wf_db d \<Longrightarrow> wf_db d'"
  by (auto simp: CloneJob_def Let_def split: sum.splits prod.splits
      dest!: insert_job_wf clone_steps_wf clone_deps_wf)

lemma SetTaskValue_cases:
  assumes "SetTaskValue now i k v d = Inr d'"
  obtains (ins) "d' = d\<lparr>db_values := db_values d @
        [\<lparr>tv_RunStepID = i, tv_Key = k, tv_Value = v, tv_CreatedAt = now\<rparr>]\<rparr>"
      and "k \<notin> tv_Key ` set (values_of i d)" and "length (values_of i d) < maxTaskValuesPerStep"
    | (up) "d' = d\<lparr>db_values := map (\<lambda>w. if tv_RunStepID w = i \<and> tv_Key w = k
          then w\<lparr>tv_Value := v, tv_CreatedAt := now\<rparr> else w) (db_values d)\<rparr>"
      and "k \<in> tv_Key ` set (values_of i d)"
  using assms by (fastforce simp: SetTaskValue_def Let_def filter_empty_conv split: if_splits)

lemma SetTaskValue_wf:
  assumes "SetTaskValue now i k v d = Inr d'" and wf: "wf_db d"
  shows "wf_db d'"
proof -
  let ?new = "\<lparr>tv_RunStepID = i, tv_Key = k, tv_Value = v, tv_CreatedAt = now\<rparr>"
  let ?upd = "\<lambda>w. if tv_RunStepID w = i \<and> tv_Key w = k then w\<lparr>tv_Value := v, tv_CreatedAt := now\<rparr> else w"
  have ok: "taskValueKeyPattern k" "length k \<le> maxTaskValueKeyLen" "length v \<le> maxTaskValueSize"
    and row: "i \<in> set (run_step_ids d)"
    using assms(1) by (auto simp: SetTaskValue_def Let_def split: if_splits)
  from assms(1) show ?thesis
  proof (cases rule: SetTaskValue_cases)
    case ins
    have "(i, k) \<notin> (\<lambda>w. (tv_RunStepID w, tv_Key w)) ` set (db_values d)"
      using ins(2) by (auto simp: values_of_def)
    moreover have "wf_refs d'" and "wf_keys d'"
      using wf row by (auto simp: ins(1) wf_db_def wf_refs_def wf_keys_def)
    ultimately show ?thesis
      using wf ok ins(3) by (simp add: ins(1) wf_db_def wf_values_def values_of_def)
  next
    case up
    have keys: "(\<lambda>w. (tv_RunStepID w, tv_Key w)) \<circ> ?upd = (\<lambda>w. (tv_RunStepID w, tv_Key w))"
      by (rule ext) simp
    have same: "(\<lambda>w. tv_RunStepID w = r) \<circ> ?upd = (\<lambda>w. tv_RunStepID w = r)" for r
      by (rule ext) simp
    have cnt: "length (values_of r d') = length (values_of r d)" for r
      by (simp add: values_of_def up(1) filter_map same)
    have "wf_refs d'" and "wf_keys d'"
      using wf by (auto simp: up(1) wf_db_def wf_refs_def wf_keys_def)
    moreover have "wf_values d'"
      using wf ok unfolding wf_values_def cnt wf_db_def by (auto simp: up(1) keys)
    ultimately show ?thesis by (simp add: wf_db_def)
  qed
qed

section \<open>Operation sequences\<close>

datatype store_op =
    OpCreateJob string time CreateJobParams
  | OpUpdateJob time UpdateJobParams
  | OpDeleteJob string
  | OpCreateStep string Step
  | OpUpdateStep Step
  | OpDeleteStep string
  | OpAddDependency string string
  | OpRemoveDependency string string
  | OpCreateRun string time CreateRunParams
  | OpInsertRunSteps "string list" string "Step list"
  | OpUpdateRunStepStatus time string string string int
  | OpUpdateRunStatus time string string
  | OpUpdateRunStepErrorMessage string string
  | OpUpdateRunParameters string string
  | OpUpdateRunStepAttempt string int
  | OpSetTaskValue time string string string
  | OpDeleteTaskValuesForStep string
  | OpCloneJob string "string list" time string string

fun store_exec :: "store_op \<Rightarrow> db \<Rightarrow> store_error + db" where
  "store_exec (OpCreateJob i now p) d = map_sum id snd (CreateJob i now p d)"
| "store_exec (OpUpdateJob now p) d = map_sum id snd (UpdateJob now p d)"
| "store_exec (OpDeleteJob j) d = DeleteJob j d"
| "store_exec (OpCreateStep i p) d = map_sum id snd (CreateStep i p d)"
| "store_exec (OpUpdateStep p) d = UpdateStep p d"
| "store_exec (OpDeleteStep i) d = DeleteStep i d"
| "store_exec (OpAddDependency a b) d = AddDependency a b d"
| "store_exec (OpRemoveDependency a b) d = RemoveDependency a b d"
| "store_exec (OpCreateRun i now p) d = map_sum id snd (CreateRun i now p d)"
| "store_exec (OpInsertRunSteps is r sts) d = InsertRunSteps is r sts d"
| "store_exec (OpUpdateRunStepStatus now i s sess e) d = UpdateRunStepStatus now i s sess e d"
| "store_exec (OpUpdateRunStatus now i s) d = UpdateRunStatus now i s d"
| "store_exec (OpUpdateRunStepErrorMessage i m) d = UpdateRunStepErrorMessage i m d"
| "store_exec (OpUpdateRunParameters i js) d = UpdateRunParameters i js d"
| "store_exec (OpUpdateRunStepAttempt i n) d = Inr (UpdateRunStepAttempt i n d)"
| "store_exec (OpSetTaskValue now i k v) d = SetTaskValue now i k v d"
| "store_exec (OpDeleteTaskValuesForStep i) d = Inr (DeleteTaskValuesForStep i d)"
| "store_exec (OpCloneJob nj is now j nm) d = map_sum id snd (CloneJob nj is now j nm d)"

lemma map_sum_Inr: "map_sum id snd r = Inr d' \<Longrightarrow> \<exists>x. r = Inr (x, d')"
  by (cases r) auto

lemmas store_wf_rules = CreateJob_wf UpdateJob_wf DeleteJob_wf CreateStep_wf UpdateStep_wf
  DeleteStep_wf AddDependency_wf RemoveDependency_wf CreateRun_wf InsertRunSteps_wf
  UpdateRunStepStatus_wf UpdateRunStatus_wf UpdateRunStepErrorMessage_wf UpdateRunParameters_wf
  SetTaskValue_wf CloneJob_wf

lemma store_exec_wf: "store_exec op d = Inr d' \<Longrightarrow> wf_db d \<Longrightarrow> wf_db d'"
  by (cases op) (auto dest!: map_sum_Inr intro: store_wf_rules
      UpdateRunStepAttempt_wf DeleteTaskValuesForStep_wf)

text \<open>A failed operation leaves the database as it was.\<close>

inductive store_step :: "db \<Rightarrow> db \<Rightarrow> bool" where
  store_ok: "store_exec op d = Inr d' \<Longrightarrow> store_step d d'"
| store_err: "store_exec op d = Inl e \<Longrightarrow> store_step d d"

definition store_init :: "db \<Rightarrow> bool" where
  "store_init d \<longleftrightarrow> (\<exists>us ms. d = empty_db us ms)"

interpretation store_sys: invariant_system store_init store_step wf_db
  by unfold_locales (auto simp: store_init_def wf_empty_db elim!: store_step.cases intro: store_exec_wf)

text \<open>A request sequence: a refused operation is skipped, its transaction rolled back.\<close>

fun store_run :: "store_op list \<Rightarrow> db \<Rightarrow> db" where
  "store_run [] d = d"
| "store_run (op # ops) d =
     store_run ops (case store_exec op d of Inl e \<Rightarrow> d | Inr d' \<Rightarrow> d')"

lemma store_run_reachable:
  "reachable store_init store_step d \<Longrightarrow> reachable store_init store_step (store_run ops d)"
proof (induction ops d rule: store_run.induct)
  case (2 op ops d)
  then show ?case
    by (cases "store_exec op d") (auto intro: reach_step store_ok store_err)
qed simp

text \<open>
  C12. Whatever sequence of job, step, dependency, run, status, task value and clone
  requests the server runs from an empty database, primary keys stay unique, every foreign
  key resolves, no step depends on itself, and every run step has at most 20 task values,
  each with an admissible key of at most 64 bytes and at most 32 KiB of data.
\<close>

theorem store_integrity: "wf_db (store_run ops (empty_db us ms))"
  by (rule store_sys.reachable_inv, rule store_run_reachable, rule reach_init)
    (auto simp: store_init_def)

section \<open>Reading back what was stored\<close>

lemma scan_step_to_row [simp]: "scan_step (step_to_row st) = st"
  by (simp add: scan_step_def step_to_row_def)

definition valid_step :: "Step \<Rightarrow> bool" where
  "valid_step st \<longleftrightarrow> st_TaskType st \<in> {''claude_session'', ''shell'', ''run_job''} \<and>
     st_RunIf st \<in> {''all_success'', ''all_done''} \<and>
     st_MaxRetries st \<ge> 0 \<and> st_RetryDelaySeconds st \<ge> 0 \<and>
     (st_TaskType st \<noteq> ''claude_session'' \<longrightarrow> st_Prompt st = '''') \<and>
     (st_TaskType st = ''run_job'' \<longrightarrow> st_Command st = '''')"

lemma normalize_step_valid: "normalize_step p = Inr q \<Longrightarrow> valid_step q"
  by (auto simp: normalize_step_def Let_def valid_step_def split: if_splits)

lemma normalize_step_ids:
  "normalize_step p = Inr q \<Longrightarrow> st_JobID q = st_JobID p \<and> st_StepID q = st_StepID p"
  by (auto simp: normalize_step_def Let_def split: if_splits)

lemma CreateStep_cases:
  assumes "CreateStep i p d = Inr (st, d')"
  shows "d' = d\<lparr>db_steps := db_steps d @ [step_to_row st]\<rparr>" "valid_step st"
    "st_JobID st = st_JobID p" "st_StepID st = i" "i \<notin> set (step_ids d)"
proof -
  from assms obtain q where q: "normalize_step p = Inr q" and st: "st = q\<lparr>st_StepID := i\<rparr>"
    and ins: "insert_step (step_to_row st) d = Inr d'"
    by (auto simp: CreateStep_def Let_def split: sum.splits)
  from ins show "d' = d\<lparr>db_steps := db_steps d @ [step_to_row st]\<rparr>" "i \<notin> set (step_ids d)"
    by (auto simp: insert_step_def st split: if_splits)
  show "st_JobID st = st_JobID p" "st_StepID st = i"
    using normalize_step_ids [OF q] by (simp_all add: st)
  show "valid_step st"
    using normalize_step_valid [OF q] by (simp add: valid_step_def st)
qed

text \<open>
  A created step has a known task type and run condition and non-negative retry
  settings, and reading the job back returns exactly the steps it had plus the new one, as
  returned to the caller, in the order of their sort keys.
\<close>

theorem CreateStep_read_back:
  assumes "CreateStep i p d = Inr (st, d')"
  shows "valid_step st \<and> sorted (map st_SortOrder (fst (GetStepsWithDeps j d'))) \<and>
    mset (fst (GetStepsWithDeps j d'))
      = mset (fst (GetStepsWithDeps j d)) + (if j = st_JobID p then {#st#} else {#})"
proof -
  have so: "map st_SortOrder (map scan_step xs) = map sc_sort_order xs" for xs
    by (simp add: scan_step_def)
  show ?thesis
    using CreateStep_cases [OF assms] unfolding GetStepsWithDeps_def fst_conv so
    by (auto simp: mset_map)
qed

text \<open>A small database and step parameters for the concrete instances.\<close>

definition job0 :: job_row where
  "job0 = \<lparr>jc_job_id = ''j'', jc_name = ''n'', jc_description = None, jc_user_id = None,
     jc_parameters = None, jc_timeout_seconds = 0, jc_max_concurrent_runs = 1,
     jc_created_at = 0, jc_updated_at = 0\<rparr>"

definition step0 :: Step where
  "step0 = \<lparr>st_StepID = '''', st_JobID = ''j'', st_Name = ''a'', st_Prompt = ''hi'',
     st_MachineID = '''', st_WorkingDir = '''', st_Command = '''', st_Args = '''',
     st_TimeoutSeconds = 0, st_SortOrder = 1, st_OnFailure = '''', st_SkipPermissions = None,
     st_Model = '''', st_DelaySeconds = 0, st_TaskType = '''', st_SessionKey = '''',
     st_RunIf = '''', st_MaxRetries = 0, st_RetryDelaySeconds = 0, st_Parameters = '''',
     st_TargetJobID = '''', st_JobParams = ''''\<rparr>"

definition step1 :: Step where
  "step1 = step0\<lparr>st_StepID := ''s'', st_TaskType := ''claude_session'',
     st_RunIf := ''all_success''\<rparr>"

definition db0 :: db where
  "db0 = (empty_db [] [])\<lparr>db_jobs := [job0]\<rparr>"

definition db1 :: db where
  "db1 = db0\<lparr>db_steps := [step_to_row step1]\<rparr>"

lemma CreateStep_db0: "CreateStep ''s'' step0 db0 = Inr (step1, db1)"
  by (simp add: CreateStep_def normalize_step_def insert_step_def step_to_row_def db1_def db0_def
      Let_def fk_opt_def nullIfEmpty_def empty_db_def job0_def step0_def step1_def)

theorem CreateStep_read_back_witness:
  "CreateStep ''s'' step0 db0 = Inr (step1, db1) \<and>
   mset (fst (GetStepsWithDeps ''j'' db1)) = {#step1#}"
  using CreateStep_read_back [OF CreateStep_db0, of "''j''"] CreateStep_db0
  by (simp add: GetStepsWithDeps_def db0_def empty_db_def step0_def)

end
