(* ===== verification/Job_Store_Roundtrip.thy ===== *)
theory Job_Store_Roundtrip
  imports Job_Store_Facts
begin

text \<open>
  What the store operations promise to their callers: the snapshot a run takes of its
  steps and its isolation from later edits, the effect of deleting a job, the step graph of
  a cloned job, and the key-value view of task values.
\<close>

section \<open>Run step snapshots\<close>

definition snapshot_of :: "string \<Rightarrow> Step \<Rightarrow> RunStep \<Rightarrow> bool" where
  "snapshot_of runID st x \<longleftrightarrow>
     rs_RunID x = runID \<and> rs_StepID x = st_StepID st \<and> rs_Status x = StatusPending \<and>
     rs_Attempt x = 1 \<and> rs_SessionID x = '''' \<and> rs_ExitCode x = None \<and>
     rs_StartedAt x = None \<and> rs_CompletedAt x = None \<and> rs_ErrorMessage x = '''' \<and>
     rs_PromptSnapshot x = st_Prompt st \<and> rs_MachineID x = st_MachineID st \<and>
     rs_MachineIDSnapshot x = st_MachineID st \<and> rs_WorkingDirSnapshot x = st_WorkingDir st \<and>
     rs_CommandSnapshot x = st_Command st \<and> rs_ArgsSnapshot x = st_Args st \<and>
     rs_SkipPermissionsSnapshot x = st_SkipPermissions st \<and> rs_ModelSnapshot x = st_Model st \<and>
     rs_DelaySecondsSnapshot x = st_DelaySeconds st \<and>
     rs_OnFailureSnapshot x = st_OnFailure st \<and> rs_OnFailure x = st_OnFailure st \<and>
     rs_TimeoutSecondsSnapshot x = st_TimeoutSeconds st \<and>
     rs_TaskTypeSnapshot x = st_TaskType st \<and> rs_SessionKeySnapshot x = st_SessionKey st \<and>
     rs_RunIfSnapshot x = st_RunIf st \<and> rs_MaxRetriesSnapshot x = st_MaxRetries st \<and>
     rs_RetryDelaySecondsSnapshot x = st_RetryDelaySeconds st \<and>
     rs_ParametersSnapshot x = st_Parameters st \<and>
     rs_TargetJobIDSnapshot x = st_TargetJobID st \<and> rs_JobParamsSnapshot x = st_JobParams st"

lemma snapshot_of_row: "snapshot_of run st (scan_run_step (snapshot_row i run st))"
  by (simp add: snapshot_of_def scan_run_step_def snapshot_row_def)

lemma snapshot_row_frame [simp]:
  "xc_run_id (snapshot_row i run st) = run" "xc_run_step_id (snapshot_row i run st) = i"
  "xc_step_id (snapshot_row i run st) = st_StepID st" "xc_status (snapshot_row i run st) = StatusPending"
  by (simp_all add: snapshot_row_def)

lemma insert_run_steps_tx_rows:
  "insert_run_steps_tx run ps d = Inr d' \<Longrightarrow>
     d' = d\<lparr>db_run_steps := db_run_steps d @ map (\<lambda>(i, st). snapshot_row i run st) ps\<rparr>"
  by (induction run ps d rule: insert_run_steps_tx.induct)
    (auto simp: insert_run_step_def split: sum.splits if_splits)

lemma run_steps_of_append:
  "run_steps_of run (d\<lparr>db_run_steps := db_run_steps d @ xs\<rparr>)
     = run_steps_of run d @ map scan_run_step (filter (\<lambda>x. xc_run_id x = run) xs)"
  by (simp add: run_steps_of_def)

lemma InsertRunSteps_rows:
  assumes "InsertRunSteps newIDs run steps d = Inr d'"
  shows "run_steps_of run d' = run_steps_of run d @
    map (\<lambda>(i, st). scan_run_step (snapshot_row i run st)) (zip newIDs steps)"
proof -
  have "filter (\<lambda>x. xc_run_id x = run) (map (\<lambda>(i, st). snapshot_row i run st) ps)
      = map (\<lambda>(i, st). snapshot_row i run st) ps" for ps
    by (induction ps) auto
  then show ?thesis
    using insert_run_steps_tx_rows [OF assms [unfolded InsertRunSteps_def]]
    by (simp add: run_steps_of_append comp_def case_prod_unfold)
qed

lemma run_steps_of_cong: "db_run_steps d' = db_run_steps d \<Longrightarrow> run_steps_of r d' = run_steps_of r d"
  by (simp add: run_steps_of_def)

lemma UpdateStep_frame: "UpdateStep p d = Inr d' \<Longrightarrow> db_run_steps d' = db_run_steps d"
  by (auto simp: UpdateStep_def Let_def split: sum.splits if_splits)

text \<open>
  Starting a run stores one pending, first-attempt run step per job step, in order,
  carrying every setting of that step; editing a step of the job afterwards changes
  nothing in any run.
\<close>

theorem InsertRunSteps_snapshot:
  assumes "InsertRunSteps newIDs run steps d = Inr d'"
    and "length newIDs = length steps" and "run_steps_of run d = []"
  shows "list_all2 (snapshot_of run) steps (run_steps_of run d') \<and>
    map rs_RunStepID (run_steps_of run d') = newIDs \<and>
    (\<forall>p d''. UpdateStep p d' = Inr d'' \<longrightarrow> run_steps_of r d'' = run_steps_of r d')"
proof (intro conjI allI impI)
  have rows: "run_steps_of run d' = map (\<lambda>(i, st). scan_run_step (snapshot_row i run st)) (zip newIDs steps)"
    using InsertRunSteps_rows [OF assms(1)] assms(3) by simp
  show "list_all2 (snapshot_of run) steps (run_steps_of run d')"
    using assms(2) by (simp add: rows list_all2_conv_all_nth snapshot_of_row)
  have "rs_RunStepID \<circ> (\<lambda>(i, st). scan_run_step (snapshot_row i run st)) = fst"
    by (rule ext) (simp add: scan_run_step_def case_prod_unfold)
  then show "map rs_RunStepID (run_steps_of run d') = newIDs"
    using assms(2) by (simp add: rows)
  show "run_steps_of r d'' = run_steps_of r d'" if "UpdateStep p d' = Inr d''" for p d''
    using UpdateStep_frame [OF that] by (rule run_steps_of_cong)
qed

definition run0 :: run_row where
  "run0 = \<lparr>rc_run_id = ''r'', rc_job_id = ''j'', rc_status = StatusPending,
     rc_trigger_type = ''manual'', rc_trigger_detail = None, rc_parameters = None,
     rc_started_at = None, rc_ended_at = None, rc_created_at = 0\<rparr>"

definition db2 :: db where
  "db2 = db1\<lparr>db_runs := [run0]\<rparr>"

definition db3 :: db where
  "db3 = db2\<lparr>db_run_steps := [snapshot_row ''x'' ''r'' step1]\<rparr>"

lemma InsertRunSteps_db2: "InsertRunSteps [''x''] ''r'' [step1] db2 = Inr db3"
  by (simp add: InsertRunSteps_def insert_run_step_def db3_def db2_def db1_def db0_def
      empty_db_def run0_def step1_def step0_def snapshot_row_def step_to_row_def fk_opt_def
      nullIfEmpty_def)

theorem InsertRunSteps_snapshot_witness:
  "InsertRunSteps [''x''] ''r'' [step1] db2 = Inr db3 \<and>
   list_all2 (snapshot_of ''r'') [step1] (run_steps_of ''r'' db3)"
proof -
  have "run_steps_of ''r'' db2 = []"
    by (simp add: run_steps_of_def db2_def db1_def db0_def empty_db_def)
  then show ?thesis
    using InsertRunSteps_snapshot [OF InsertRunSteps_db2, of "''r''"] InsertRunSteps_db2 by simp
qed

section \<open>Deleting a job\<close>

lemma delete_runs_db_runs [simp]:
  "db_runs (delete_runs j d) = filter (\<lambda>r. rc_job_id r \<noteq> j) (db_runs d)"
  "db_jobs (delete_runs j d) = db_jobs d" "db_steps (delete_runs j d) = db_steps d"
  by (simp_all add: delete_runs_def Let_def)

lemma DeleteJob_tables:
  assumes "DeleteJob j d = Inr d'"
  shows "db_jobs d' = filter (\<lambda>r. jc_job_id r \<noteq> j) (db_jobs d)"
    and "db_runs d' = filter (\<lambda>r. rc_job_id r \<noteq> j) (db_runs d)"
    and "db_steps d' = filter (\<lambda>s. sc_job_id s \<noteq> j) (db_steps d)"
    and "j \<in> set (job_ids d)"
  using assms by (auto simp: DeleteJob_def delete_steps_def Let_def split: if_splits)

lemma filter_other: "j \<noteq> k \<Longrightarrow> filter (\<lambda>x. f x = k) (filter (\<lambda>x. f x \<noteq> j) xs) = filter (\<lambda>x. f x = k) xs"
  by (induction xs) auto

text \<open>
  Deleting a job removes the job, its steps and its runs, and leaves the steps and runs
  of every other job as they were.
\<close>

theorem DeleteJob_isolated:
  assumes "DeleteJob j d = Inr d'"
  shows "GetJob j d' = Inl ErrNotFound \<and> ListRuns j d' = [] \<and> fst (GetStepsWithDeps j d') = [] \<and>
    (k \<noteq> j \<longrightarrow> ListRuns k d' = ListRuns k d \<and>
       fst (GetStepsWithDeps k d') = fst (GetStepsWithDeps k d))"
proof -
  note t = DeleteJob_tables [OF assms]
  have "find (\<lambda>r. jc_job_id r = j) (db_jobs d') = None"
    by (simp add: t find_None_iff)
  moreover have "filter (\<lambda>x. f x = j) (filter (\<lambda>x. f x \<noteq> j) xs) = []" for f :: "'a \<Rightarrow> string" and xs
    by (induction xs) auto
  ultimately show ?thesis
    by (simp add: GetJob_def ListRuns_def GetStepsWithDeps_def t filter_other [of j k] del: filter_filter)
qed

theorem DeleteJob_isolated_witness:
  "DeleteJob ''j'' db1 = Inr (empty_db [] []) \<and> GetJob ''j'' (empty_db [] []) = Inl ErrNotFound"
proof -
  have "DeleteJob ''j'' db1 = Inr (empty_db [] [])"
    by (simp add: DeleteJob_def delete_run_steps_def delete_runs_def delete_steps_def Let_def
        db1_def db0_def empty_db_def job0_def step1_def step0_def)
  with DeleteJob_isolated [OF this] show ?thesis by blast
qed

section \<open>Cloning a job\<close>

lemma clone_steps_rows:
  "clone_steps nj ps d = Inr (sts, d') \<Longrightarrow>
     sts = map (\<lambda>(i, st). st\<lparr>st_StepID := i, st_JobID := nj\<rparr>) ps \<and>
     d' = d\<lparr>db_steps := db_steps d @ map step_to_row sts\<rparr> \<and>
     distinct (map fst ps) \<and> set (map fst ps) \<inter> set (step_ids d) = {}"
proof (induction nj ps d arbitrary: sts rule: clone_steps.induct)
  case (2 nj i st rest d)
  let ?st = "st\<lparr>st_StepID := i, st_JobID := nj\<rparr>"
  from "2.prems" obtain d1 sts1 where ins: "insert_step (step_to_row ?st) d = Inr d1"
    and rest: "clone_steps nj rest d1 = Inr (sts1, d')" and sts: "sts = ?st # sts1"
    by (auto simp: Let_def split: sum.splits prod.splits)
  have d1: "d1 = d\<lparr>db_steps := db_steps d @ [step_to_row ?st]\<rparr>" "i \<notin> set (step_ids d)"
    using ins by (auto simp: insert_step_def split: if_splits)
  from "2.IH" [OF refl ins rest] sts d1(2) show ?case
    by (auto simp: d1(1))
qed simp

definition rename_dep :: "(string \<Rightarrow> string) \<Rightarrow> StepDependency \<Rightarrow> StepDependency" where
  "rename_dep f e = \<lparr>dep_StepID = f (dep_StepID e), dep_DependsOn = f (dep_DependsOn e)\<rparr>"

lemma clone_deps_rows:
  "clone_deps m es d = Inr (es', d') \<Longrightarrow>
     es' = map (rename_dep (\<lambda>k. the (fmlookup m k)))
       (filter (\<lambda>e. fmlookup m (dep_StepID e) \<noteq> None \<and> fmlookup m (dep_DependsOn e) \<noteq> None) es) \<and>
     d' = d\<lparr>db_deps := db_deps d @ es'\<rparr>"
proof (induction es arbitrary: d es')
  case (Cons e rest)
  show ?case
  proof (cases "fmlookup m (dep_StepID e) \<noteq> None \<and> fmlookup m (dep_DependsOn e) \<noteq> None")
    case True
    then obtain a b where ab: "fmlookup m (dep_StepID e) = Some a" "fmlookup m (dep_DependsOn e) = Some b"
      by auto
    with Cons.prems obtain d1 es1
      where ins: "insert_dep \<lparr>dep_StepID = a, dep_DependsOn = b\<rparr> d = Inr d1"
        and rest: "clone_deps m rest d1 = Inr (es1, d')"
        and es': "es' = \<lparr>dep_StepID = a, dep_DependsOn = b\<rparr> # es1"
      by (auto simp: Let_def split: sum.splits prod.splits)
    have d1: "d1 = d\<lparr>db_deps := db_deps d @ [\<lparr>dep_StepID = a, dep_DependsOn = b\<rparr>]\<rparr>"
      using ins by (auto simp: insert_dep_def split: if_splits)
    from Cons.IH [OF rest] ab es' show ?thesis
      by (simp add: d1 rename_dep_def)
  next
    case False
    with Cons.prems have "clone_deps m rest d = Inr (es', d')"
      by (auto split: option.splits)
    from Cons.IH [OF this] False show ?thesis by auto
  qed
qed simp

lemma find_append: "find P (xs @ ys) = (case find P xs of None \<Rightarrow> find P ys | Some x \<Rightarrow> Some x)"
  by (induction xs) auto

lemma find_fresh: "(\<And>x. x \<in> set xs \<Longrightarrow> \<not> P x) \<Longrightarrow> find P xs = None"
  by (induction xs) auto

lemma GetJob_steps:
  assumes "GetJob j d = Inr src"
  shows "jd_Steps src = fst (GetStepsWithDeps j d)" "jd_Dependencies src = snd (GetStepsWithDeps j d)"
    "j \<in> set (job_ids d)"
  using assms by (auto simp: GetJob_def find_Some_iff split: option.splits)

lemma steps_of_job:
  assumes "wf_db d"
  shows "distinct (map st_StepID (fst (GetStepsWithDeps j d)))"
    and "sorted (map st_SortOrder (fst (GetStepsWithDeps j d)))"
    and "st \<in> set (fst (GetStepsWithDeps j d)) \<Longrightarrow> st_StepID st \<in> set (step_ids d) \<and> st_JobID st = j"
proof -
  let ?rows = "sort_key sc_sort_order (filter (\<lambda>s. sc_job_id s = j) (db_steps d))"
  have "st_StepID \<circ> scan_step = sc_step_id" "st_SortOrder \<circ> scan_step = sc_sort_order"
    by (auto simp: scan_step_def)
  moreover have "distinct (map sc_step_id ?rows)"
  proof -
    have "mset (map sc_step_id ?rows) = mset (map sc_step_id (filter (\<lambda>s. sc_job_id s = j) (db_steps d)))"
      by (simp add: mset_map)
    moreover have "distinct (map sc_step_id (filter (\<lambda>s. sc_job_id s = j) (db_steps d)))"
      using assms by (simp add: wf_db_def wf_keys_def distinct_map_filter)
    ultimately show ?thesis by (metis mset_eq_imp_distinct_iff)
  qed
  ultimately show "distinct (map st_StepID (fst (GetStepsWithDeps j d)))"
    and "sorted (map st_SortOrder (fst (GetStepsWithDeps j d)))"
    by (simp_all add: GetStepsWithDeps_def)
  show "st_StepID st \<in> set (step_ids d) \<and> st_JobID st = j" if "st \<in> set (fst (GetStepsWithDeps j d))"
    using that by (auto simp: GetStepsWithDeps_def scan_step_def)
qed

text \<open>What a successful clone appends to the tables.\<close>

lemma CloneJob_tables:
  assumes ok: "CloneJob nj is now j nm d = Inr (jd, d')"
    and src: "GetJob j d = Inr src"
  obtains row m where
    "d' = d\<lparr>db_jobs := db_jobs d @ [row],
            db_steps := db_steps d @ map step_to_row (jd_Steps jd),
            db_deps := db_deps d @ jd_Dependencies jd\<rparr>"
    and "jc_job_id row = nj" and "nj \<notin> set (job_ids d)" and "scan_job row = jd_Job jd"
    and "jd_Steps jd = map (\<lambda>(i, st). st\<lparr>st_StepID := i, st_JobID := nj\<rparr>) (zip is (jd_Steps src))"
    and "m = map_of (rev (map (\<lambda>(n, st). (st_StepID st, n)) (zip is (jd_Steps src))))"
    and "jd_Dependencies jd = map (rename_dep (\<lambda>k. the (m k)))
       (filter (\<lambda>e. m (dep_StepID e) \<noteq> None \<and> m (dep_DependsOn e) \<noteq> None) (jd_Dependencies src))"
    and "distinct (map fst (zip is (jd_Steps src)))"
    and "set (map fst (zip is (jd_Steps src))) \<inter> set (step_ids d) = {}"
  using ok src
  by (auto simp: CloneJob_def Let_def insert_job_def fmlookup_of_list scan_job_def
      split: sum.splits prod.splits if_splits dest!: clone_steps_rows clone_deps_rows)

lemma clone_map:
  assumes "distinct (map st_StepID sts)" and "length is = length sts" and "distinct is"
  defines "m \<equiv> map_of (rev (map (\<lambda>(n, st). (st_StepID st, n)) (zip is sts)))"
  shows "dom m = set (map st_StepID sts)" and "inj_on (\<lambda>k. the (m k)) (set (map st_StepID sts))"
    and "map (\<lambda>(i, st). st\<lparr>st_StepID := i, st_JobID := nj\<rparr>) (zip is sts)
       = map (\<lambda>st. st\<lparr>st_StepID := the (m (st_StepID st)), st_JobID := nj\<rparr>) sts"
    and "k \<in> set (map st_StepID sts) \<Longrightarrow> the (m k) \<in> set is"
proof -
  let ?al = "map (\<lambda>(n, st). (st_StepID st, n)) (zip is sts)"
  have keys: "map fst ?al = map st_StepID sts" and vals: "map snd ?al = is"
    using assms(2) by (auto simp: list_eq_iff_nth_eq)
  have dist: "distinct (map fst ?al)" using assms(1) keys by simp
  have nth: "m (st_StepID (sts ! i)) = Some (is ! i)" if "i < length sts" for i
  proof -
    have "(is ! i, sts ! i) \<in> set (zip is sts)"
      using that assms(2) by (auto simp: set_zip)
    then have "(st_StepID (sts ! i), is ! i) \<in> set (rev ?al)"
      by force
    moreover have "distinct (map fst (rev ?al))" using dist by (metis distinct_rev rev_map)
    ultimately show ?thesis by (simp add: m_def)
  qed
  show "dom m = set (map st_StepID sts)"
    using keys by (metis (no_types, lifting) dom_map_of_conv_image_fst m_def set_map set_rev)
  show "inj_on (\<lambda>k. the (m k)) (set (map st_StepID sts))"
  proof (rule inj_onI)
    fix x y assume "x \<in> set (map st_StepID sts)" "y \<in> set (map st_StepID sts)"
      and eq: "the (m x) = the (m y)"
    then obtain a b where "a < length sts" "b < length sts" "x = st_StepID (sts ! a)" "y = st_StepID (sts ! b)"
      by (auto simp: in_set_conv_nth)
    with eq nth assms(2,3) show "x = y" by (simp add: nth_eq_iff_index_eq)
  qed
  show "map (\<lambda>(i, st). st\<lparr>st_StepID := i, st_JobID := nj\<rparr>) (zip is sts)
       = map (\<lambda>st. st\<lparr>st_StepID := the (m (st_StepID st)), st_JobID := nj\<rparr>) sts"
    using assms(2) nth by (simp add: list_eq_iff_nth_eq)
  show "the (m k) \<in> set is" if "k \<in> set (map st_StepID sts)"
    using that nth assms(2) by (fastforce simp: in_set_conv_nth)
qed

lemma GetJob_clone:
  assumes wf: "wf_db d" and fresh: "nj \<notin> set (job_ids d)" and row: "jc_job_id row = nj"
    and sts: "\<forall>st\<in>set sts. st_JobID st = nj \<and> st_StepID st \<notin> set (step_ids d)"
    and srt: "sorted (map st_SortOrder sts)"
    and des: "\<forall>e\<in>set des. dep_StepID e \<in> st_StepID ` set sts"
  defines "d' \<equiv> d\<lparr>db_jobs := db_jobs d @ [row], db_steps := db_steps d @ map step_to_row sts,
            db_deps := db_deps d @ des\<rparr>"
  shows "GetJob nj d' = Inr \<lparr>jd_Job = scan_job row, jd_Steps = sts, jd_Dependencies = des\<rparr>"
    and "j \<in> set (job_ids d) \<Longrightarrow> GetJob j d' = GetJob j d"
proof -
  have old: "filter (\<lambda>s. sc_job_id s = nj) (db_steps d) = []"
    using wf fresh by (auto simp: wf_db_def wf_refs_def filter_empty_conv)
  have new: "filter (\<lambda>s. sc_job_id s = k) (map step_to_row sts) = (if k = nj then map step_to_row sts else [])" for k
    using sts by (auto simp: filter_empty_conv filter_id_conv)
  have oldd: "dep_StepID e \<in> set (step_ids d)" if "e \<in> set (db_deps d)" for e
    using that wf by (simp add: wf_db_def wf_refs_def)
  have "map scan_step (sort_key sc_sort_order (map step_to_row sts)) = sts"
    using srt by (simp add: sort_key_id_if_sorted comp_def)
  then have "fst (GetStepsWithDeps nj d') = sts"
    by (simp add: GetStepsWithDeps_def d'_def old new)
  moreover have "snd (GetStepsWithDeps nj d') = des"
  proof -
    have "\<not> (\<exists>s\<in>set (db_steps d'). sc_step_id s = dep_StepID e \<and> sc_job_id s = nj)"
      if "e \<in> set (db_deps d)" for e
    proof
      assume "\<exists>s\<in>set (db_steps d'). sc_step_id s = dep_StepID e \<and> sc_job_id s = nj"
      then obtain s where s: "s \<in> set (db_steps d')" "sc_step_id s = dep_StepID e" "sc_job_id s = nj"
        by blast
      then have "s \<notin> set (db_steps d)" using old by (auto simp: filter_empty_conv)
      with s(1) obtain st where "st \<in> set sts" "s = step_to_row st" by (auto simp: d'_def)
      with s(2) have "dep_StepID e = st_StepID st" "st \<in> set sts" by simp_all
      with sts have "dep_StepID e \<notin> set (step_ids d)" by metis
      with oldd [OF that] show False by contradiction
    qed
    moreover have "\<exists>s\<in>set (db_steps d'). sc_step_id s = dep_StepID e \<and> sc_job_id s = nj"
      if "e \<in> set des" for e
    proof -
      from des that obtain st where "st \<in> set sts" "dep_StepID e = st_StepID st" by auto
      with sts show ?thesis by (intro bexI [of _ "step_to_row st"]) (auto simp: d'_def)
    qed
    ultimately show ?thesis
      by (simp add: GetStepsWithDeps_def d'_def filter_empty_conv filter_id_conv)
  qed
  moreover have "find (\<lambda>r. jc_job_id r = nj) (db_jobs d') = Some row"
  proof -
    have "find (\<lambda>r. jc_job_id r = nj) (db_jobs d) = None"
      using fresh by (intro find_fresh) auto
    then show ?thesis using row by (simp add: d'_def find_append)
  qed
  ultimately show "GetJob nj d' = Inr \<lparr>jd_Job = scan_job row, jd_Steps = sts, jd_Dependencies = des\<rparr>"
    by (simp add: GetJob_def)
  assume j: "j \<in> set (job_ids d)"
  then have "j \<noteq> nj" using fresh by auto
  have "snd (GetStepsWithDeps j d') = snd (GetStepsWithDeps j d)"
  proof -
    have "(\<exists>s\<in>set (db_steps d'). sc_step_id s = k \<and> sc_job_id s = j)
        \<longleftrightarrow> (\<exists>s\<in>set (db_steps d). sc_step_id s = k \<and> sc_job_id s = j)" for k
      using sts \<open>j \<noteq> nj\<close> by (auto simp: d'_def)
    moreover have "\<not> (\<exists>s\<in>set (db_steps d). sc_step_id s = dep_StepID e \<and> sc_job_id s = j)"
      if "e \<in> set des" for e
    proof -
      from des that obtain st where "st \<in> set sts" "dep_StepID e = st_StepID st" by auto
      with sts have "dep_StepID e \<notin> set (step_ids d)" by metis
      then show ?thesis by (auto simp: image_iff)
    qed
    ultimately show ?thesis
      unfolding GetStepsWithDeps_def snd_conv by (simp add: d'_def filter_empty_conv)
  qed
  moreover have "fst (GetStepsWithDeps j d') = fst (GetStepsWithDeps j d)"
    using \<open>j \<noteq> nj\<close> by (simp add: GetStepsWithDeps_def d'_def new)
  moreover have "find (\<lambda>r. jc_job_id r = j) (db_jobs d') = find (\<lambda>r. jc_job_id r = j) (db_jobs d)"
    using \<open>j \<noteq> nj\<close> row by (simp add: d'_def find_append split: option.splits)
  ultimately show "GetJob j d' = GetJob j d"
    unfolding GetJob_def by presburger
qed

text \<open>
  C13. A cloned job reads back exactly as it was returned, and its step graph is the
  source's under an injective renaming of step identifiers: the same steps in the same
  order with all settings, and the same dependencies, those that leave the job dropped.
  The source job is untouched.
\<close>

theorem CloneJob_isomorphic:
  assumes "CloneJob nj is now j nm d = Inr (jd, d')" and "wf_db d" and "GetJob j d = Inr src"
    and "length is = length (jd_Steps src)"
  shows "GetJob nj d' = Inr jd \<and> GetJob j d' = Inr src \<and>
    (\<exists>f. inj_on f (st_StepID ` set (jd_Steps src)) \<and>
       jd_Steps jd = map (\<lambda>st. st\<lparr>st_StepID := f (st_StepID st), st_JobID := nj\<rparr>) (jd_Steps src) \<and>
       jd_Dependencies jd = map (rename_dep f) (filter (\<lambda>e.
         dep_StepID e \<in> st_StepID ` set (jd_Steps src) \<and>
         dep_DependsOn e \<in> st_StepID ` set (jd_Steps src)) (jd_Dependencies src)))"
proof -
  from assms(1,3) obtain row m where
    d': "d' = d\<lparr>db_jobs := db_jobs d @ [row],
            db_steps := db_steps d @ map step_to_row (jd_Steps jd),
            db_deps := db_deps d @ jd_Dependencies jd\<rparr>"
    and row: "jc_job_id row = nj" and fresh: "nj \<notin> set (job_ids d)" and job: "scan_job row = jd_Job jd"
    and steps: "jd_Steps jd = map (\<lambda>(i, st). st\<lparr>st_StepID := i, st_JobID := nj\<rparr>) (zip is (jd_Steps src))"
    and m: "m = map_of (rev (map (\<lambda>(n, st). (st_StepID st, n)) (zip is (jd_Steps src))))"
    and deps: "jd_Dependencies jd = map (rename_dep (\<lambda>k. the (m k)))
       (filter (\<lambda>e. m (dep_StepID e) \<noteq> None \<and> m (dep_DependsOn e) \<noteq> None) (jd_Dependencies src))"
    and dist: "distinct (map fst (zip is (jd_Steps src)))"
    and disj: "set (map fst (zip is (jd_Steps src))) \<inter> set (step_ids d) = {}"
    by (rule CloneJob_tables)
  have ids: "distinct is" "set is \<inter> set (step_ids d) = {}"
    using dist disj assms(4) by simp_all
  note src = GetJob_steps [OF assms(3)]
  note cm = clone_map [OF steps_of_job(1) [OF assms(2), of j, folded src(1)] assms(4) ids(1), folded m]
  have in_dom: "m k \<noteq> None \<longleftrightarrow> k \<in> st_StepID ` set (jd_Steps src)" for k
    using cm(1) by (auto simp: domIff)
  have steps': "jd_Steps jd = map (\<lambda>st. st\<lparr>st_StepID := the (m (st_StepID st)), st_JobID := nj\<rparr>) (jd_Steps src)"
    using steps cm(3) by simp
  have "\<forall>st\<in>set (jd_Steps jd). st_JobID st = nj \<and> st_StepID st \<notin> set (step_ids d)"
    using cm(4) ids(2) by (auto simp: steps')
  moreover have "map st_SortOrder (jd_Steps jd) = map st_SortOrder (jd_Steps src)"
    by (simp add: steps')
  then have "sorted (map st_SortOrder (jd_Steps jd))"
    using steps_of_job(2) [OF assms(2), of j, folded src(1)] by simp
  moreover have "\<forall>e\<in>set (jd_Dependencies jd). dep_StepID e \<in> st_StepID ` set (jd_Steps jd)"
    unfolding deps in_dom by (auto simp: rename_dep_def steps' image_image)
  ultimately have "GetJob nj d' = Inr jd" and "GetJob j d' = Inr src"
    using GetJob_clone [OF assms(2) fresh row, of "jd_Steps jd" "jd_Dependencies jd"] src(3) assms(3)
    unfolding d' job by simp_all
  moreover have "inj_on (\<lambda>k. the (m k)) (st_StepID ` set (jd_Steps src))"
    using cm(2) by simp
  ultimately show ?thesis
    using steps' deps unfolding in_dom by blast
qed

lemma CloneJob_db1: "CloneJob ''k'' [''t''] 7 ''j'' '''' db1 = Inr
   (\<lparr>jd_Job = (scan_job job0)\<lparr>j_JobID := ''k'', j_Name := ''n (copy)'', j_CreatedAt := 7, j_UpdatedAt := 7\<rparr>,
     jd_Steps = [step1\<lparr>st_StepID := ''t'', st_JobID := ''k''\<rparr>], jd_Dependencies = []\<rparr>,
    db1\<lparr>db_jobs := [job0, job0\<lparr>jc_job_id := ''k'', jc_name := ''n (copy)'', jc_created_at := 7,
          jc_updated_at := 7\<rparr>],
        db_steps := [step_to_row step1, step_to_row (step1\<lparr>st_StepID := ''t'', st_JobID := ''k''\<rparr>)]\<rparr>)"
  by (simp add: CloneJob_def GetJob_def GetStepsWithDeps_def Let_def insert_job_def insert_step_def
      db1_def db0_def empty_db_def job0_def step1_def step0_def scan_job_def fk_opt_def
      clamp_concurrent_def nullIfEmpty_def)

theorem CloneJob_isomorphic_witness:
  "\<exists>jd d'. CloneJob ''k'' [''t''] 7 ''j'' '''' db1 = Inr (jd, d') \<and> GetJob ''k'' d' = Inr jd"
proof -
  have "wf_db db1"
    by (simp add: wf_all db1_def db0_def empty_db_def job0_def step1_def step0_def fk_opt_def
        nullIfEmpty_def)
  moreover have "GetJob ''j'' db1 = Inr \<lparr>jd_Job = scan_job job0, jd_Steps = [step1], jd_Dependencies = []\<rparr>"
    by (simp add: GetJob_def GetStepsWithDeps_def db1_def db0_def empty_db_def job0_def step1_def step0_def)
  ultimately show ?thesis
    using CloneJob_isomorphic [OF CloneJob_db1] CloneJob_db1 by simp
qed

section \<open>Task values\<close>

definition value_map :: "TaskValue list \<Rightarrow> string \<rightharpoonup> string" where
  "value_map vs = map_of (map (\<lambda>v. (tv_Key v, tv_Value v)) vs)"

lemma map_of_perm:
  "distinct (map fst xs) \<Longrightarrow> mset xs = mset ys \<Longrightarrow> map_of xs = map_of ys"
  by (metis map_of_inject_set mset_eq_imp_distinct_iff mset_map mset_eq_setD)

lemma values_of_keys: "wf_db d \<Longrightarrow> distinct (map tv_Key (values_of i d))"
  by (auto simp: wf_db_def wf_values_def values_of_def distinct_map inj_on_def)

lemma value_map_GetTaskValues:
  assumes "wf_db d"
  shows "value_map (GetTaskValues i d) = value_map (values_of i d)"
proof -
  have "distinct (map fst (map (\<lambda>v. (tv_Key v, tv_Value v)) (values_of i d)))"
    using values_of_keys [OF assms] by (simp add: comp_def)
  then show ?thesis
    unfolding value_map_def GetTaskValues_def
    by (intro map_of_perm [symmetric]) (simp_all add: mset_map)
qed

lemma value_map_upd:
  "value_map (map (\<lambda>v. if tv_Key v = k then v\<lparr>tv_Value := x, tv_CreatedAt := t\<rparr> else v) vs) c
     = (if c = k \<and> k \<in> tv_Key ` set vs then Some x else value_map vs c)"
  by (induction vs) (auto simp: value_map_def)

lemma value_map_append:
  "k \<notin> tv_Key ` set vs \<Longrightarrow> tv_Key v = k \<Longrightarrow> value_map (vs @ [v]) = (value_map vs)(k \<mapsto> tv_Value v)"
  by (induction vs) (auto simp: value_map_def fun_upd_twist)

lemma filter_map_key:
  "filter P (map (\<lambda>w. if P w \<and> Q w then f w else w) ws) = map (\<lambda>w. if Q w then f w else w) (filter P ws)"
  if "\<And>w. P w \<Longrightarrow> P (f w)"
  by (induction ws) (auto simp: that)

lemma filter_map_other:
  "filter P (map (\<lambda>w. if Q w then f w else w) ws) = filter P ws"
  if "\<And>w. Q w \<Longrightarrow> \<not> P w \<and> \<not> P (f w)"
  using that by (induction ws) auto

lemma values_of_SetTaskValue:
  assumes "SetTaskValue now i k v d = Inr d'"
  shows "value_map (values_of i d') = (value_map (values_of i d))(k \<mapsto> v)"
    and "r \<noteq> i \<Longrightarrow> values_of r d' = values_of r d"
proof -
  from assms have "value_map (values_of i d') = (value_map (values_of i d))(k \<mapsto> v) \<and>
      (r \<noteq> i \<longrightarrow> values_of r d' = values_of r d)"
  proof (cases rule: SetTaskValue_cases)
    case ins
    then show ?thesis
      by (simp add: value_map_append values_of_def)
  next
    case up
    have "values_of i d' = map (\<lambda>w. if tv_Key w = k then w\<lparr>tv_Value := v, tv_CreatedAt := now\<rparr> else w) (values_of i d)"
      unfolding up(1) values_of_def by (simp add: filter_map_key del: filter_map)
    moreover have "r \<noteq> i \<Longrightarrow> values_of r d' = values_of r d"
      unfolding up(1) values_of_def by (simp del: filter_map) (rule filter_map_other, simp)
    ultimately show ?thesis
      using up(2) by (auto simp: value_map_upd)
  qed
  then show "value_map (values_of i d') = (value_map (values_of i d))(k \<mapsto> v)"
    and "r \<noteq> i \<Longrightarrow> values_of r d' = values_of r d" by simp_all
qed

text \<open>
  A stored task value is what the run step's values then hold under that key; its other
  keys and the values of all other run steps are unchanged, and the values are listed in
  the order of their distinct keys.
\<close>

theorem SetTaskValue_lookup:
  assumes "SetTaskValue now i k v d = Inr d'" and "wf_db d"
  shows "value_map (GetTaskValues i d') = (value_map (GetTaskValues i d))(k \<mapsto> v) \<and>
    (r \<noteq> i \<longrightarrow> GetTaskValues r d' = GetTaskValues r d) \<and>
    sorted (map tv_Key (GetTaskValues i d')) \<and> distinct (map tv_Key (GetTaskValues i d'))"
proof (intro conjI impI)
  have wf': "wf_db d'" using assms by (rule SetTaskValue_wf)
  show "value_map (GetTaskValues i d') = (value_map (GetTaskValues i d))(k \<mapsto> v)"
    using values_of_SetTaskValue(1) [OF assms(1)] value_map_GetTaskValues assms(2) wf' by simp
  show "r \<noteq> i \<Longrightarrow> GetTaskValues r d' = GetTaskValues r d"
    using values_of_SetTaskValue(2) [OF assms(1)] by (simp add: GetTaskValues_def)
  show "sorted (map tv_Key (GetTaskValues i d'))" by (simp add: GetTaskValues_def)
  have "mset (map tv_Key (GetTaskValues i d')) = mset (map tv_Key (values_of i d'))"
    by (simp add: GetTaskValues_def mset_map)
  then show "distinct (map tv_Key (GetTaskValues i d'))"
    using values_of_keys [OF wf'] by (metis mset_eq_imp_distinct_iff)
qed

theorem SetTaskValue_lookup_witness:
  "\<exists>d'. SetTaskValue 5 ''x'' ''out'' ''42'' db3 = Inr d' \<and>
     value_map (GetTaskValues ''x'' d') ''out'' = Some ''42''"
proof -
  let ?d = "db3\<lparr>db_values := [\<lparr>tv_RunStepID = ''x'', tv_Key = ''out'', tv_Value = ''42'', tv_CreatedAt = 5\<rparr>]\<rparr>"
  have ok: "SetTaskValue 5 ''x'' ''out'' ''42'' db3 = Inr ?d"
    by (simp add: SetTaskValue_def Let_def values_of_def db3_def db2_def db1_def db0_def empty_db_def
        maxTaskValueKeyLen_def maxTaskValueSize_def maxTaskValuesPerStep_def is_alpha_def
        is_word_char_def less_eq_char_def)
  moreover have "wf_db db3"
    by (simp add: wf_all db3_def db2_def db1_def db0_def empty_db_def job0_def run0_def step1_def
        step0_def fk_opt_def nullIfEmpty_def snapshot_row_def)
  ultimately show ?thesis
    using SetTaskValue_lookup [of 5 "''x''" "''out''" "''42''" db3] by simp
qed

end
