(* ===== verification/Dag_Validate.thy ===== *)
theory Dag_Validate
  imports Job_Store_Facts
begin

text \<open>
  Step and graph validation of \<open>internal/server/orchestrator/dag_runner.go\<close>:
  \<open>ValidateJobSteps\<close> with every message it can produce, and \<open>ValidateDAG\<close>, Kahn's
  algorithm over the maps \<open>inDegree\<close> and \<open>adj\<close>. The order in which Go ranges over
  \<open>inDegree\<close> to fill the first queue is an argument. The loop is a total function: each
  round consumes one queue entry and an entry is added only when a positive in-degree
  reaches zero. The theorems show that acceptance is exactly acyclicity, and what an
  accepted list of steps satisfies.
\<close>

section \<open>Step validation\<close>

datatype step_problem =
    BadTaskType string
  | ShellSharesSession string
  | ShellNeedsCommand string
  | RunJobNeedsTarget string
  | RunJobHasMachine string
  | RunJobSharesSession string
  | SessionKeyMachine string
  | BadRunIf string
  | BadMaxRetries string
  | BadRetryDelay string

definition step_problems :: "Step \<Rightarrow> step_problem list" where
  "step_problems s =
     (if st_TaskType s \<noteq> ''claude_session'' \<and> st_TaskType s \<noteq> ''shell'' \<and> st_TaskType s \<noteq> ''run_job''
      then [BadTaskType (st_Name s)] else []) @
     (if st_TaskType s = ''shell'' \<and> st_SessionKey s \<noteq> '''' then [ShellSharesSession (st_Name s)] else []) @
     (if st_TaskType s = ''shell'' \<and> st_Command s = '''' then [ShellNeedsCommand (st_Name s)] else []) @
     (if st_TaskType s = ''run_job''
      then (if st_TargetJobID s = '''' then [RunJobNeedsTarget (st_Name s)] else []) @
           (if st_MachineID s \<noteq> '''' then [RunJobHasMachine (st_Name s)] else []) @
           (if st_SessionKey s \<noteq> '''' then [RunJobSharesSession (st_Name s)] else [])
      else [])"

definition step_limits :: "Step \<Rightarrow> step_problem list" where
  "step_limits s =
     (if st_RunIf s \<noteq> ''all_success'' \<and> st_RunIf s \<noteq> ''all_done'' then [BadRunIf (st_Name s)] else []) @
     (if st_MaxRetries s < 0 \<or> st_MaxRetries s > 5 then [BadMaxRetries (st_Name s)] else []) @
     (if st_RetryDelaySeconds s < 0 \<or> st_RetryDelaySeconds s > 3600
      then [BadRetryDelay (st_Name s)] else [])"

text \<open>The map \<open>sessionKeyMachines\<close> is threaded through the loop.\<close>

fun validate_steps :: "(string, string) fmap \<Rightarrow> Step list \<Rightarrow> step_problem list" where
  "validate_steps m [] = []"
| "validate_steps m (s # rest) =
     (let (clash, m') =
        (if st_SessionKey s \<noteq> ''''
         then (case fmlookup m (st_SessionKey s) of
                 Some existing \<Rightarrow> (if existing \<noteq> st_MachineID s
                                   then [SessionKeyMachine (st_SessionKey s)] else [], m)
               | None \<Rightarrow> ([], fmupd (st_SessionKey s) (st_MachineID s) m))
         else ([], m))
      in step_problems s @ clash @ step_limits s @ validate_steps m' rest)"

definition ValidateJobSteps :: "Step list \<Rightarrow> step_problem list" where
  "ValidateJobSteps steps = validate_steps fmempty steps"

definition step_ok :: "Step \<Rightarrow> bool" where
  "step_ok s \<longleftrightarrow> st_TaskType s \<in> {''claude_session'', ''shell'', ''run_job''} \<and>
     (st_TaskType s = ''shell'' \<longrightarrow> st_SessionKey s = '''' \<and> st_Command s \<noteq> '''') \<and>
     (st_TaskType s = ''run_job'' \<longrightarrow> st_TargetJobID s \<noteq> '''' \<and> st_MachineID s = '''' \<and>
        st_SessionKey s = '''') \<and>
     st_RunIf s \<in> {''all_success'', ''all_done''} \<and>
     0 \<le> st_MaxRetries s \<and> st_MaxRetries s \<le> 5 \<and>
     0 \<le> st_RetryDelaySeconds s \<and> st_RetryDelaySeconds s \<le> 3600"

lemma step_problems_ok: "step_problems s = [] \<and> step_limits s = [] \<longleftrightarrow> step_ok s"
  by (auto simp: step_problems_def step_limits_def step_ok_def)

definition same_machine :: "Step \<Rightarrow> Step \<Rightarrow> bool" where
  "same_machine s t \<longleftrightarrow> st_SessionKey s \<noteq> [] \<and> st_SessionKey s = st_SessionKey t \<longrightarrow>
     st_MachineID s = st_MachineID t"

definition bound_machine :: "(string, string) fmap \<Rightarrow> Step \<Rightarrow> bool" where
  "bound_machine m s \<longleftrightarrow> st_SessionKey s \<noteq> [] \<longrightarrow>
     (\<forall>x. fmlookup m (st_SessionKey s) = Some x \<longrightarrow> st_MachineID s = x)"

lemma same_machine_sym: "same_machine s t \<longleftrightarrow> same_machine t s"
  by (auto simp: same_machine_def)

lemma same_machine_refl [simp]: "same_machine s s"
  by (simp add: same_machine_def)

lemma bound_machine_upd:
  "fmlookup m (st_SessionKey s) = None \<Longrightarrow> st_SessionKey s \<noteq> [] \<Longrightarrow>
     bound_machine (fmupd (st_SessionKey s) (st_MachineID s) m) t \<longleftrightarrow> bound_machine m t \<and> same_machine s t"
  by (auto simp: bound_machine_def same_machine_def)

lemma bound_machine_same:
  "bound_machine m s \<Longrightarrow> bound_machine m t \<Longrightarrow> fmlookup m (st_SessionKey s) = Some x \<Longrightarrow> same_machine s t"
  by (auto simp: bound_machine_def same_machine_def)

lemma validate_steps_Cons:
  "validate_steps m (s # steps) = [] \<longleftrightarrow> step_ok s \<and> bound_machine m s \<and>
     validate_steps (if st_SessionKey s \<noteq> [] \<and> fmlookup m (st_SessionKey s) = None
       then fmupd (st_SessionKey s) (st_MachineID s) m else m) steps = []"
  using step_problems_ok [of s] by (auto simp: bound_machine_def split: option.splits)

lemma validate_steps_iff:
  "validate_steps m steps = [] \<longleftrightarrow> (\<forall>s\<in>set steps. step_ok s \<and> bound_machine m s) \<and>
     (\<forall>s\<in>set steps. \<forall>t\<in>set steps. same_machine s t)"
proof (induction steps arbitrary: m)
  case (Cons s steps)
  show ?case
  proof (cases "st_SessionKey s \<noteq> [] \<and> fmlookup m (st_SessionKey s) = None")
    case True
    then have "bound_machine m s" by (simp add: bound_machine_def)
    moreover have "\<And>t. bound_machine (fmupd (st_SessionKey s) (st_MachineID s) m) t
        \<longleftrightarrow> bound_machine m t \<and> same_machine s t"
      using True by (intro bound_machine_upd) simp_all
    ultimately show ?thesis
      unfolding validate_steps_Cons Cons.IH using True same_machine_sym by auto
  next
    case False
    then have "same_machine s t" if "bound_machine m s" "bound_machine m t" for t
      using that bound_machine_same by (cases "st_SessionKey s = []") (auto simp: same_machine_def)
    then show ?thesis
      unfolding validate_steps_Cons Cons.IH using False same_machine_sym by auto
  qed
qed simp

text \<open>
  \<open>ValidateJobSteps\<close> reports no problem exactly when every step is well configured
  (a known task type; a shell step has a command and no session key; a job step names a
  target, no machine and no session key; retries within 0..5 and delays within 0..3600)
  and all steps with the same session key run on the same machine.
\<close>

theorem ValidateJobSteps_iff:
  "ValidateJobSteps steps = [] \<longleftrightarrow> list_all step_ok steps \<and>
     \<not> (\<exists>s\<in>set steps. \<exists>t\<in>set steps. st_SessionKey s \<noteq> '''' \<and>
          st_SessionKey s = st_SessionKey t \<and> st_MachineID s \<noteq> st_MachineID t)"
  unfolding ValidateJobSteps_def validate_steps_iff
  by (auto simp: list_all_iff bound_machine_def same_machine_def)

section \<open>Cycle detection\<close>

text \<open>The two maps built from the identifiers and the edges.\<close>

fun count_edges :: "StepDependency list \<Rightarrow> (string, int) fmap \<Rightarrow> (string, int) fmap" where
  "count_edges [] deg = deg"
| "count_edges (e # es) deg =
     count_edges es (fmupd (dep_StepID e) (getd 0 deg (dep_StepID e) + 1) deg)"

fun zero_degrees :: "string list \<Rightarrow> (string, int) fmap \<Rightarrow> (string, int) fmap" where
  "zero_degrees [] deg = deg"
| "zero_degrees (i # ids) deg = zero_degrees ids (fmupd i 0 deg)"

fun link_edges :: "StepDependency list \<Rightarrow> (string, string list) fmap \<Rightarrow> (string, string list) fmap" where
  "link_edges [] adj = adj"
| "link_edges (e # es) adj =
     link_edges es (fmupd (dep_DependsOn e) (getd [] adj (dep_DependsOn e) @ [dep_StepID e]) adj)"

definition in_degrees :: "string list \<Rightarrow> StepDependency list \<Rightarrow> (string, int) fmap" where
  "in_degrees ids deps = count_edges deps (zero_degrees ids fmempty)"

definition adjacency :: "StepDependency list \<Rightarrow> (string, string list) fmap" where
  "adjacency deps = link_edges deps fmempty"

text \<open>The inner loop over \<open>adj[node]\<close>, then the outer loop.\<close>

fun relax :: "string list \<Rightarrow> (string, int) fmap \<Rightarrow> string list \<Rightarrow> (string, int) fmap \<times> string list" where
  "relax [] deg q = (deg, q)"
| "relax (n # ns) deg q =
     (let deg' = fmupd n (getd 0 deg n - 1) deg
      in relax ns deg' (if getd 0 deg' n = 0 then q @ [n] else q))"

definition pos_count :: "(string, int) fmap \<Rightarrow> nat" where
  "pos_count = fmcount (\<lambda>v. v > 0)"

lemma pos_count_dec:
  "pos_count (fmupd n (getd 0 deg n - 1) deg)
     = (if getd 0 deg n = 1 then pos_count deg - 1 else pos_count deg)
   \<and> (getd 0 deg n = 1 \<longrightarrow> pos_count deg > 0)"
proof (cases "fmlookup deg n")
  case None
  then have "{k. \<exists>v. fmlookup (fmupd n (- 1) deg) k = Some v \<and> v > 0}
      = {k. \<exists>v. fmlookup deg k = Some v \<and> (v::int) > 0}" by auto
  then show ?thesis using None by (simp add: pos_count_def fmcount_def getd_def)
next
  case (Some v)
  show ?thesis
  proof (cases "v = 1")
    case True
    with fmcount_upd_hit [OF Some, of "\<lambda>v. v > 0" 0] Some show ?thesis
      by (simp add: pos_count_def getd_def)
  next
    case False
    then have "(v - 1 > 0) = (v > 0)" by arith
    with fmcount_upd_same [OF Some, of "\<lambda>v. v > 0" "v - 1"] Some False show ?thesis
      by (simp add: pos_count_def getd_def)
  qed
qed

lemma relax_measure:
  "relax ns deg q = (deg', q') \<Longrightarrow> pos_count deg' + length q' = pos_count deg + length q"
proof (induction ns deg q rule: relax.induct)
  case (2 n ns deg q)
  then show ?case
    using pos_count_dec [of n deg] by (auto simp: Let_def split: if_splits)
qed simp

function kahn :: "(string, string list) fmap \<Rightarrow> (string, int) fmap \<Rightarrow> string list \<Rightarrow> nat \<Rightarrow> nat" where
  "kahn adj deg [] visited = visited"
| "kahn adj deg (node # queue) visited =
     (let (deg', queue') = relax (getd [] adj node) deg queue
      in kahn adj deg' queue' (visited + 1))"
  by pat_completeness auto
termination
  by (relation "measure (\<lambda>(adj, deg, q, v). pos_count deg + length q)") (auto dest: relax_measure [OF sym])

datatype dag_error = CycleDetected

definition ValidateDAG :: "string list \<Rightarrow> Step list \<Rightarrow> StepDependency list \<Rightarrow> dag_error option" where
  "ValidateDAG order steps deps =
     (let inDegree = in_degrees (map st_StepID steps) deps;
          adj = adjacency deps;
          queue = filter (\<lambda>i. getd 0 inDegree i = 0) order;
          visited = kahn adj inDegree queue 0
      in if visited \<noteq> length steps then Some CycleDetected else None)"

section \<open>The graph and its maps\<close>

definition edges :: "StepDependency list \<Rightarrow> (string \<times> string) set" where
  "edges deps = (\<lambda>e. (dep_DependsOn e, dep_StepID e)) ` set deps"

text \<open>The number of dependencies of a step on steps outside a set.\<close>

definition open_edges :: "string set \<Rightarrow> StepDependency list \<Rightarrow> string \<Rightarrow> nat" where
  "open_edges S deps v = length (filter (\<lambda>e. dep_StepID e = v \<and> dep_DependsOn e \<notin> S) deps)"

definition succs :: "StepDependency list \<Rightarrow> string \<Rightarrow> string list" where
  "succs deps u = map dep_StepID (filter (\<lambda>e. dep_DependsOn e = u) deps)"

lemma getd_count_edges:
  "getd 0 (count_edges es deg) v = getd 0 deg v + int (open_edges {} es v)"
  by (induction es deg rule: count_edges.induct) (auto simp: open_edges_def)

lemma getd_zero_degrees:
  "getd 0 (zero_degrees ids deg) v = (if v \<in> set ids then 0 else getd 0 deg v)"
  by (induction ids deg rule: zero_degrees.induct) auto

lemma getd_in_degrees: "getd 0 (in_degrees ids deps) v = int (open_edges {} deps v)"
  by (simp add: in_degrees_def getd_count_edges getd_zero_degrees)

lemma fmdom'_count_edges: "fmdom' (count_edges es deg) = fmdom' deg \<union> dep_StepID ` set es"
  by (induction es deg rule: count_edges.induct) auto

lemma fmdom'_zero_degrees: "fmdom' (zero_degrees ids deg) = fmdom' deg \<union> set ids"
  by (induction ids deg rule: zero_degrees.induct) auto

lemma fmdom'_in_degrees: "fmdom' (in_degrees ids deps) = set ids \<union> dep_StepID ` set deps"
  by (simp add: in_degrees_def fmdom'_count_edges fmdom'_zero_degrees)

lemma getd_link_edges: "getd [] (link_edges es adj) u = getd [] adj u @ succs es u"
  by (induction es adj rule: link_edges.induct) (auto simp: succs_def)

lemma getd_adjacency: "getd [] (adjacency deps) u = succs deps u"
  by (simp add: adjacency_def getd_link_edges)

lemma open_edges_insert:
  assumes "u \<notin> S"
  shows "open_edges S deps v = open_edges (insert u S) deps v + count_list (succs deps u) v"
  using assms by (induction deps) (auto simp: open_edges_def succs_def)

lemma open_edges_0: "open_edges S deps v = 0 \<longleftrightarrow> (\<forall>u. (u, v) \<in> edges deps \<longrightarrow> u \<in> S)"
  by (auto simp: open_edges_def edges_def filter_empty_conv)

lemma succs_edges: "v \<in> set (succs deps u) \<longleftrightarrow> (u, v) \<in> edges deps"
  unfolding succs_def edges_def set_map set_filter image_iff by auto

lemma finite_edges [simp]: "finite (edges deps)"
  by (simp add: edges_def)

section \<open>Correctness of Kahn's algorithm\<close>

lemma relax_deg: "getd 0 (fst (relax ns deg q)) v = getd 0 deg v - int (count_list ns v)"
  by (induction ns deg q rule: relax.induct) (auto simp: Let_def)

lemma relax_queue:
  "\<exists>zs. snd (relax ns deg q) = q @ zs \<and> distinct zs \<and>
     set zs = {v. 0 < getd 0 deg v \<and> getd 0 deg v \<le> int (count_list ns v)}"
proof (induction ns deg q rule: relax.induct)
  case (2 n ns deg q)
  let ?deg = "fmupd n (getd 0 deg n - 1) deg"
  let ?q = "if getd 0 ?deg n = 0 then q @ [n] else q"
  from 2 [OF refl] obtain zs where zs: "snd (relax ns ?deg ?q) = ?q @ zs" "distinct zs"
    "set zs = {v. 0 < getd 0 ?deg v \<and> getd 0 ?deg v \<le> int (count_list ns v)}"
    by blast
  show ?case
  proof (cases "getd 0 deg n = 1")
    case True
    have "v \<in> set (n # zs) \<longleftrightarrow> 0 < getd 0 deg v \<and> getd 0 deg v \<le> int (count_list (n # ns) v)" for v
      using True zs(3) by (cases "v = n") simp_all
    then have "set (n # zs) = {v. 0 < getd 0 deg v \<and> getd 0 deg v \<le> int (count_list (n # ns) v)}"
      by blast
    moreover have "distinct (n # zs)"
      using zs(2,3) True by simp
    ultimately show ?thesis
      using zs(1) True by (intro exI [of _ "n # zs"]) (simp add: Let_def)
  next
    case False
    have "v \<in> set zs \<longleftrightarrow> 0 < getd 0 deg v \<and> getd 0 deg v \<le> int (count_list (n # ns) v)" for v
      using False zs(3) by (cases "v = n") auto
    then have "set zs = {v. 0 < getd 0 deg v \<and> getd 0 deg v \<le> int (count_list (n # ns) v)}"
      by blast
    then show ?thesis
      using zs(1,2) False by (intro exI [of _ zs]) (simp add: Let_def)
  qed
qed auto

text \<open>
  The loop invariant: \<open>S\<close> is the set of visited steps, closed under predecessors and
  ranked by the order of the visits; the queue holds exactly the unvisited steps all of
  whose predecessors are visited.
\<close>

definition kahn_inv :: "string set \<Rightarrow> StepDependency list \<Rightarrow> string set \<Rightarrow> (string \<Rightarrow> nat) \<Rightarrow>
    (string, int) fmap \<Rightarrow> string list \<Rightarrow> nat \<Rightarrow> bool" where
  "kahn_inv V deps S rank deg q n \<longleftrightarrow>
     S \<subseteq> V \<and> n = card S \<and> distinct q \<and>
     set q = {v \<in> V - S. open_edges S deps v = 0} \<and>
     (\<forall>v\<in>V. getd 0 deg v = int (open_edges S deps v)) \<and>
     (\<forall>u v. (u, v) \<in> edges deps \<and> v \<in> S \<longrightarrow> u \<in> S \<and> rank u < rank v) \<and>
     (\<forall>v\<in>S. rank v < n)"

lemma kahn_inv_step:
  assumes inv: "kahn_inv V deps S rank deg (u # q) n"
    and V: "finite V" "\<forall>e\<in>set deps. dep_StepID e \<in> V"
    and rx: "relax (succs deps u) deg q = (deg', q')"
  shows "kahn_inv V deps (insert u S) (rank(u := n)) deg' q' (Suc n)"
proof -
  have u: "u \<in> V" "u \<notin> S" "open_edges S deps u = 0" and fin: "finite S"
    using inv V(1) by (auto simp: kahn_inv_def intro: finite_subset)
  have deg: "getd 0 deg v = int (open_edges S deps v)" if "v \<in> V" for v
    using inv that by (simp add: kahn_inv_def)
  have split: "open_edges S deps v = open_edges (insert u S) deps v + count_list (succs deps u) v" for v
    using u(2) by (rule open_edges_insert)
  have deg': "getd 0 deg' v = int (open_edges (insert u S) deps v)" if "v \<in> V" for v
    using relax_deg [of "succs deps u" deg q v] rx deg [OF that] split [of v] by simp
  obtain zs where zs: "q' = q @ zs" "distinct zs"
    "set zs = {v. 0 < getd 0 deg v \<and> getd 0 deg v \<le> int (count_list (succs deps u) v)}"
    using relax_queue [of "succs deps u" deg q] rx by auto
  have "v \<in> V" if "v \<in> set (succs deps u)" for v
    using that V(2) by (auto simp: succs_def)
  then have zsV: "set zs \<subseteq> V"
    unfolding zs(3) using count_notin [of _ "succs deps u"] by fastforce
  have zset: "set zs = {v \<in> V. 0 < open_edges S deps v \<and> open_edges (insert u S) deps v = 0}"
  proof (rule set_eqI)
    fix v
    have "v \<in> set zs \<longleftrightarrow> v \<in> V \<and> 0 < getd 0 deg v \<and> getd 0 deg v \<le> int (count_list (succs deps u) v)"
      using zsV zs(3) by blast
    also have "\<dots> \<longleftrightarrow> v \<in> V \<and> 0 < open_edges S deps v \<and> open_edges (insert u S) deps v = 0"
      using deg [of v] split [of v] by auto
    finally show "v \<in> set zs \<longleftrightarrow> v \<in> {v \<in> V. 0 < open_edges S deps v \<and> open_edges (insert u S) deps v = 0}"
      by simp
  qed
  have qset: "set (u # q) = {v \<in> V - S. open_edges S deps v = 0}" and "distinct (u # q)"
    using inv by (auto simp: kahn_inv_def)
  have "u \<notin> set zs" using zset u(3) by simp
  have preds: "\<forall>a v. (a, v) \<in> edges deps \<and> v \<in> S \<longrightarrow> a \<in> S"
    using inv by (simp add: kahn_inv_def)
  have "v \<notin> S" if "v \<in> set zs" for v
    using that zset preds open_edges_0 [of S deps v] by auto
  then have "set q' = {v \<in> V - insert u S. open_edges (insert u S) deps v = 0}"
    using zs(1) zset qset \<open>distinct (u # q)\<close> \<open>u \<notin> set zs\<close> split by auto
  moreover have "distinct q'"
    using zs(1,2) \<open>distinct (u # q)\<close> qset zset by auto
  moreover have "\<forall>a v. (a, v) \<in> edges deps \<and> v \<in> insert u S \<longrightarrow>
      a \<in> insert u S \<and> (rank(u := n)) a < (rank(u := n)) v"
    using inv u open_edges_0 [of S deps u] by (auto simp: kahn_inv_def)
  moreover have "\<forall>v\<in>insert u S. (rank(u := n)) v < Suc n"
    using inv by (auto simp: kahn_inv_def less_Suc_eq)
  moreover have "insert u S \<subseteq> V" "Suc n = card (insert u S)"
    using inv u fin by (auto simp: kahn_inv_def)
  ultimately show ?thesis
    using deg' unfolding kahn_inv_def by blast
qed

lemma kahn_final:
  assumes "kahn_inv V deps S rank deg q n" and "finite V" and "\<forall>e\<in>set deps. dep_StepID e \<in> V"
    and "\<And>u. getd [] adj u = succs deps u"
  shows "\<exists>S' rank' deg'. kahn_inv V deps S' rank' deg' [] (kahn adj deg q n)"
  using assms
proof (induction adj deg q n arbitrary: S rank rule: kahn.induct)
  case (1 adj deg visited)
  then show ?case by (auto simp del: fun_upd_apply)
next
  case (2 adj deg node queue visited)
  obtain deg' q' where rx: "relax (getd [] adj node) deg queue = (deg', q')" by fastforce
  with 2 have "kahn_inv V deps (insert node S) (rank(node := visited)) deg' q' (Suc visited)"
    by (intro kahn_inv_step) simp_all
  with "2.IH" [OF rx [symmetric] refl] "2.prems" rx show ?case by simp
qed

lemma kahn_complete_acyclic:
  assumes "kahn_inv V deps S rank deg [] n" and "finite V"
    and "\<forall>e\<in>set deps. dep_StepID e \<in> V \<and> dep_DependsOn e \<in> V"
  shows "n = card V \<longleftrightarrow> acyclic (edges deps)"
proof
  assume n: "n = card V"
  have "S \<subseteq> V" and "n = card S" using assms(1) unfolding kahn_inv_def by blast+
  with n have "S = V" using card_subset_eq [OF assms(2)] by metis
  have lt: "rank a < rank b" if "(a, b) \<in> edges deps" for a b
  proof -
    have "b \<in> V" using that assms(3) unfolding edges_def by blast
    then have "b \<in> S" using \<open>S = V\<close> by simp
    then show ?thesis using assms(1) that unfolding kahn_inv_def by blast
  qed
  have "acyclic ((edges deps)\<inverse>)"
    by (rule acyclicI_order [where f = rank]) (rule lt, simp)
  then show "acyclic (edges deps)" by simp
next
  assume ac: "acyclic (edges deps)"
  then have "wf (edges deps)" by (simp add: finite_acyclic_wf)
  have "V - S = {}"
  proof (rule ccontr)
    assume "V - S \<noteq> {}"
    with \<open>wf (edges deps)\<close> obtain v where v: "v \<in> V - S" and min: "\<And>u. (u, v) \<in> edges deps \<Longrightarrow> u \<notin> V - S"
      by (metis wf_eq_minimal ex_in_conv)
    then have "open_edges S deps v = 0"
      unfolding open_edges_0 using assms(3) by (auto simp: edges_def)
    with v assms(1) show False by (auto simp: kahn_inv_def)
  qed
  with assms(1) have "S = V" by (auto simp: kahn_inv_def)
  with assms(1) show "n = card V" by (simp add: kahn_inv_def)
qed

lemma ValidateDAG_correct:
  assumes "distinct (map st_StepID steps)"
    and ends: "\<forall>e\<in>set deps. dep_StepID e \<in> st_StepID ` set steps \<and> dep_DependsOn e \<in> st_StepID ` set steps"
    and ord: "enumerates order (in_degrees (map st_StepID steps) deps)"
  shows "ValidateDAG order steps deps = None \<longleftrightarrow> acyclic (edges deps)"
proof -
  let ?V = "st_StepID ` set steps" and ?deg = "in_degrees (map st_StepID steps) deps"
  let ?q = "filter (\<lambda>i. getd 0 ?deg i = 0) order"
  have "set order = ?V" and "distinct order"
    using ord ends by (auto simp: enumerates_def fmdom'_in_degrees)
  then have "kahn_inv ?V deps {} (\<lambda>_. 0) ?deg ?q 0"
    by (simp add: kahn_inv_def getd_in_degrees)
  then have "\<exists>S rank deg. kahn_inv ?V deps S rank deg [] (kahn (adjacency deps) ?deg ?q 0)"
    by (rule kahn_final) (use ends in \<open>auto simp: getd_adjacency\<close>)
  then obtain S rank deg where fin: "kahn_inv ?V deps S rank deg [] (kahn (adjacency deps) ?deg ?q 0)"
    by blast
  have "card ?V = length steps"
    using distinct_card [OF assms(1)] by simp
  then show ?thesis
    using kahn_complete_acyclic [OF fin finite_imageI [OF finite_set] ends]
    by (simp add: ValidateDAG_def Let_def)
qed

text \<open>
  C11. For steps with distinct identifiers and dependencies between them, \<open>ValidateDAG\<close>
  terminates and accepts exactly the acyclic dependency graphs, whatever order Go ranges
  over the in-degree map in.
\<close>

theorem ValidateDAG_iff_acyclic:
  assumes "distinct (map st_StepID steps)"
    and "\<forall>e\<in>set deps. dep_StepID e \<in> st_StepID ` set steps \<and> dep_DependsOn e \<in> st_StepID ` set steps"
    and "enumerates order (in_degrees (map st_StepID steps) deps)"
  shows "ValidateDAG order steps deps = None \<longleftrightarrow> acyclic (edges deps)"
  using assms by (rule ValidateDAG_correct)

definition steps_ab :: "Step list" where
  "steps_ab = [step0\<lparr>st_StepID := ''a''\<rparr>, step0\<lparr>st_StepID := ''b''\<rparr>]"

definition deps_ab :: "StepDependency list" where
  "deps_ab = [\<lparr>dep_StepID = ''b'', dep_DependsOn = ''a''\<rparr>]"

definition deps_cycle :: "StepDependency list" where
  "deps_cycle = [\<lparr>dep_StepID = ''b'', dep_DependsOn = ''a''\<rparr>, \<lparr>dep_StepID = ''a'', dep_DependsOn = ''b''\<rparr>]"

theorem ValidateDAG_iff_acyclic_witness:
  "ValidateDAG [''b'', ''a''] steps_ab deps_ab = None \<and> acyclic (edges deps_ab) \<and>
   ValidateDAG [''a'', ''b''] steps_ab deps_cycle = Some CycleDetected \<and> \<not> acyclic (edges deps_cycle)"
proof -
  have "ValidateDAG [''b'', ''a''] steps_ab deps_ab = None"
    and "ValidateDAG [''a'', ''b''] steps_ab deps_cycle = Some CycleDetected"
    by (simp_all add: ValidateDAG_def Let_def steps_ab_def deps_ab_def deps_cycle_def in_degrees_def
        adjacency_def)
  moreover have "enumerates [''b'', ''a''] (in_degrees (map st_StepID steps_ab) deps_ab)"
    and "enumerates [''a'', ''b''] (in_degrees (map st_StepID steps_ab) deps_cycle)"
    by (auto simp: enumerates_def fmdom'_in_degrees steps_ab_def deps_ab_def deps_cycle_def)
  ultimately show ?thesis
    using ValidateDAG_iff_acyclic [of steps_ab deps_ab "[''b'', ''a'']"]
      ValidateDAG_iff_acyclic [of steps_ab deps_cycle "[''a'', ''b'']"]
    by (simp add: steps_ab_def deps_ab_def deps_cycle_def)
qed

end
