(* ===== verification/Go_Strings.thy ===== *)
theory Go_Strings
  imports Prelude "HOL-Library.Sublist"
begin

text \<open>
  The functions of Go's \<open>strings\<close> and \<open>fmt\<close> packages that the sources use, on byte
  strings: \<open>HasPrefix\<close>, \<open>TrimPrefix\<close>, \<open>SplitN\<close> and \<open>Split\<close> with a one-byte
  separator, \<open>TrimSpace\<close> with the UTF-8 encodings of all white space runes, and the
  decimal conversion of \<open>%d\<close>.
\<close>

definition HasPrefix :: "string \<Rightarrow> string \<Rightarrow> bool" where
  "HasPrefix s p \<longleftrightarrow> prefix p s"

definition HasSuffix :: "string \<Rightarrow> string \<Rightarrow> bool" where
  "HasSuffix s p \<longleftrightarrow> suffix p s"

lemma HasPrefix_code [simp]: "HasPrefix s [] = True" "HasPrefix [] (c # p) = False"
  "HasPrefix (d # s) (c # p) = (c = d \<and> HasPrefix s p)"
  by (auto simp: HasPrefix_def)

lemma HasSuffix_code: "HasSuffix s p = HasPrefix (rev s) (rev p)"
  by (simp add: HasPrefix_def HasSuffix_def suffix_to_prefix)

definition TrimPrefix :: "string \<Rightarrow> string \<Rightarrow> string" where
  "TrimPrefix s p = (if HasPrefix s p then drop (length p) s else s)"

definition TrimSuffix :: "string \<Rightarrow> string \<Rightarrow> string" where
  "TrimSuffix s p = (if HasSuffix s p then take (length s - length p) s else s)"

text \<open>\<open>bytes.Index\<close>: the position of the first occurrence.\<close>

fun Index :: "string \<Rightarrow> string \<Rightarrow> nat option" where
  "Index [] p = (if p = [] then Some 0 else None)"
| "Index (c # s) p = (if HasPrefix (c # s) p then Some 0 else map_option Suc (Index s p))"

definition Contains :: "string \<Rightarrow> string \<Rightarrow> bool" where
  "Contains s p \<longleftrightarrow> Index s p \<noteq> None"

lemma Index_Some:
  "Index s p = Some i \<Longrightarrow> \<exists>b. s = take i s @ p @ b \<and> length (take i s) = i"
proof (induction s p arbitrary: i rule: Index.induct)
  case (2 c s p)
  show ?case
  proof (cases "HasPrefix (c # s) p")
    case True
    then show ?thesis using 2(2) by (auto simp: HasPrefix_def prefix_def)
  next
    case False
    then obtain j where j: "i = Suc j" "Index s p = Some j" using 2(2) by auto
    then show ?thesis using 2(1) [OF False j(2)] by auto
  qed
qed (auto split: if_splits)

lemma Index_None: "Index s p = None \<Longrightarrow> s \<noteq> a @ p @ b"
proof (induction s p arbitrary: a rule: Index.induct)
  case (2 c s p)
  then have np: "\<not> HasPrefix (c # s) p" and none: "Index s p = None" by (auto split: if_splits)
  show ?case
  proof (cases a)
    case Nil
    then show ?thesis using np by (auto simp: HasPrefix_def prefix_def)
  next
    case (Cons x a')
    then show ?thesis using 2(1) [OF np none, of a'] by auto
  qed
qed (auto split: if_splits)

lemma Contains_iff: "Contains s p \<longleftrightarrow> (\<exists>a b. s = a @ p @ b)"
  using Index_Some Index_None unfolding Contains_def by blast

lemma Index_first: "Index s p = Some i \<Longrightarrow> s = a @ p @ b \<Longrightarrow> i \<le> length a"
proof (induction s p arbitrary: a i rule: Index.induct)
  case (2 c s p)
  show ?case
  proof (cases "HasPrefix (c # s) p")
    case False
    then obtain j where j: "i = Suc j" "Index s p = Some j" using 2(2) by auto
    have "a \<noteq> []" using False 2(3) by (auto simp: HasPrefix_def prefix_def)
    then obtain x a' where "a = x # a'" by (cases a) auto
    then show ?thesis using 2(1) [OF False j(2), of a'] 2(3) j(1) by auto
  qed (use 2(2) in simp)
qed (auto split: if_splits)

text \<open>\<open>SplitN s c n\<close> for positive \<open>n\<close>: at most \<open>n\<close> pieces, the last one unsplit.\<close>

fun SplitN :: "string \<Rightarrow> char \<Rightarrow> nat \<Rightarrow> string list" where
  "SplitN s c 0 = []"
| "SplitN s c (Suc 0) = [s]"
| "SplitN s c (Suc (Suc n)) =
     (case dropWhile (\<lambda>x. x \<noteq> c) s of
        [] \<Rightarrow> [s]
      | _ # rest \<Rightarrow> takeWhile (\<lambda>x. x \<noteq> c) s # SplitN rest c (Suc n))"

lemma SplitN_last: "c \<notin> set s \<Longrightarrow> SplitN s c (Suc n) = [s]"
proof (cases n)
  case (Suc m)
  assume "c \<notin> set s"
  then have "dropWhile (\<lambda>x. x \<noteq> c) s = []" by auto
  with Suc show ?thesis by (simp del: dropWhile_eq_Nil_conv)
qed simp

lemma takeWhile_sep: "c \<notin> set a \<Longrightarrow> takeWhile (\<lambda>x. x \<noteq> c) (a @ c # r) = a"
  by (induction a) auto

lemma dropWhile_sep: "c \<notin> set a \<Longrightarrow> dropWhile (\<lambda>x. x \<noteq> c) (a @ c # r) = c # r"
  by (induction a) auto

lemma SplitN_sep: "c \<notin> set a \<Longrightarrow> SplitN (a @ c # r) c (Suc (Suc n)) = a # SplitN r c (Suc n)"
  by (simp add: takeWhile_sep dropWhile_sep)

lemma SplitN_length: "length (SplitN s c (Suc n)) \<le> Suc n"
  by (induction s c "Suc n" arbitrary: n rule: SplitN.induct) (auto split: list.splits)

subsection \<open>White space\<close>

definition byte :: "nat \<Rightarrow> char" where
  "byte n = char_of n"

definition space_encodings :: "string list" where
  "space_encodings =
     map (\<lambda>b. [byte b]) [9, 10, 11, 12, 13, 32] @
     [[byte 194, byte 133], [byte 194, byte 160], [byte 225, byte 154, byte 128]] @
     map (\<lambda>b. [byte 226, byte 128, byte b]) [128, 129, 130, 131, 132, 133, 134, 135, 136, 137, 138] @
     [[byte 226, byte 128, byte 168], [byte 226, byte 128, byte 169], [byte 226, byte 128, byte 175],
      [byte 226, byte 129, byte 159], [byte 227, byte 128, byte 128]]"

function trim_left :: "string list \<Rightarrow> string \<Rightarrow> string" where
  "trim_left encs s =
     (case find (\<lambda>e. e \<noteq> [] \<and> HasPrefix s e) encs of
        None \<Rightarrow> s
      | Some e \<Rightarrow> trim_left encs (drop (length e) s))"
  by pat_completeness auto
termination
proof (relation "measure (\<lambda>(encs, s). length s)")
  fix encs :: "string list" and s e :: string
  assume "find (\<lambda>e. e \<noteq> [] \<and> HasPrefix s e) encs = Some e"
  then have "e \<noteq> []" and "HasPrefix s e"
    by (auto simp: find_Some_iff)
  then have "0 < length e" and "length e \<le> length s"
    by (auto simp: HasPrefix_def dest: prefix_length_le)
  then have "length s - length e < length s" by linarith
  then show "((encs, drop (length e) s), encs, s) \<in> measure (\<lambda>(encs, s). length s)"
    by simp
qed simp

declare trim_left.simps [simp del]

definition TrimSpace :: "string \<Rightarrow> string" where
  "TrimSpace s = rev (trim_left (map rev space_encodings) (rev (trim_left space_encodings s)))"

lemma trim_left_id:
  assumes "\<forall>e\<in>set encs. e \<noteq> [] \<longrightarrow> \<not> HasPrefix s e"
  shows "trim_left encs s = s"
proof -
  have "find (\<lambda>e. e \<noteq> [] \<and> HasPrefix s e) encs = None"
    using assms by (auto simp: find_None_iff)
  then show ?thesis by (simp add: trim_left.simps [of encs s])
qed

lemma trim_left_no_space: "\<forall>e\<in>set encs. e \<noteq> [] \<longrightarrow> \<not> HasPrefix (trim_left encs s) e"
proof (induction encs s rule: trim_left.induct)
  case (1 encs s)
  show ?case
  proof (cases "find (\<lambda>e. e \<noteq> [] \<and> HasPrefix s e) encs")
    case None
    then have "trim_left encs s = s" by (simp add: trim_left.simps [of encs s])
    with None show ?thesis by (auto simp: find_None_iff)
  next
    case (Some e)
    with 1 show ?thesis by (simp add: trim_left.simps [of encs s])
  qed
qed

lemma trim_left_suffix: "suffix (trim_left encs s) s"
proof (induction encs s rule: trim_left.induct)
  case (1 encs s)
  show ?case
  proof (cases "find (\<lambda>e. e \<noteq> [] \<and> HasPrefix s e) encs")
    case None
    then show ?thesis by (simp add: trim_left.simps [of encs s])
  next
    case (Some e)
    with 1 have "suffix (trim_left encs (drop (length e) s)) (drop (length e) s)" by simp
    then show ?thesis
      using Some suffix_drop suffix_order.trans by (simp add: trim_left.simps [of encs s]) blast
  qed
qed

lemma TrimSpace_idem: "TrimSpace (TrimSpace s) = TrimSpace s"
proof -
  let ?l = "trim_left space_encodings s" and ?R = "map rev space_encodings"
  have "prefix (TrimSpace s) ?l"
    using trim_left_suffix [of ?R "rev ?l"] by (simp add: TrimSpace_def suffix_to_prefix)
  then have "\<forall>e\<in>set space_encodings. e \<noteq> [] \<longrightarrow> \<not> HasPrefix (TrimSpace s) e"
    using trim_left_no_space [of space_encodings s] prefix_order.trans unfolding HasPrefix_def by blast
  then have "trim_left space_encodings (TrimSpace s) = TrimSpace s" by (rule trim_left_id)
  moreover have "trim_left ?R (rev (TrimSpace s)) = rev (TrimSpace s)"
    using trim_left_no_space [of ?R "rev ?l"] by (intro trim_left_id) (simp add: TrimSpace_def)
  ultimately show ?thesis by (simp add: TrimSpace_def)
qed

text \<open>A string that starts and ends with printable ASCII characters is left alone.\<close>

definition visible :: "char \<Rightarrow> bool" where
  "visible c \<longleftrightarrow> 33 \<le> (of_char c :: nat) \<and> (of_char c :: nat) \<le> 126"

lemma space_encodings_hd: "e \<in> set space_encodings \<Longrightarrow> e \<noteq> [] \<and> \<not> visible (hd e) \<and> \<not> visible (last e)"
  by (auto simp: space_encodings_def visible_def byte_def)

lemma TrimSpace_visible:
  assumes "s \<noteq> []" and "visible (hd s)" and "visible (last s)"
  shows "TrimSpace s = s"
proof -
  have "\<not> HasPrefix s e" if "e \<in> set space_encodings" for e
    using space_encodings_hd [OF that] assms by (cases s; cases e) auto
  then have "trim_left space_encodings s = s" by (intro trim_left_id) blast
  moreover have "\<not> HasPrefix (rev s) e" if mem: "e \<in> set (map rev space_encodings)" for e
  proof -
    obtain e' where e: "e = rev e'" and "e' \<in> set space_encodings"
      using mem unfolding set_map image_iff by blast
    then have "e' \<noteq> [] \<and> \<not> visible (last e')" using space_encodings_hd by blast
    then have "e \<noteq> [] \<and> \<not> visible (hd e)" by (simp add: e hd_rev)
    moreover have "visible (hd (rev s))" using assms by (simp add: hd_rev)
    ultimately show ?thesis using assms(1) by (cases "rev s"; cases e) auto
  qed
  then have "trim_left (map rev space_encodings) (rev s) = rev s" by (intro trim_left_id) blast
  ultimately show ?thesis by (simp add: TrimSpace_def)
qed

subsection \<open>Decimal conversion\<close>

fun dec :: "nat \<Rightarrow> string" where
  "dec n = (if n < 10 then [char_of (48 + n)] else dec (n div 10) @ [char_of (48 + n mod 10)])"

declare dec.simps [simp del]

definition itoa :: "int \<Rightarrow> string" where
  "itoa i = (if i < 0 then CHR ''-'' # dec (nat (- i)) else dec (nat i))"

text \<open>\<open>strconv.Atoi\<close> on a 64-bit machine.\<close>

definition digit :: "char \<Rightarrow> nat" where "digit c = of_char c - 48"

definition Atoi :: "string \<Rightarrow> int option" where
  "Atoi s =
     (let neg = HasPrefix s ''-'';
          ds = (if neg \<or> HasPrefix s ''+'' then tl s else s);
          n = foldl (\<lambda>n c. 10 * n + int (digit c)) 0 ds;
          v = (if neg then - n else n)
      in if ds = [] \<or> list_ex (\<lambda>c. (of_char c :: nat) < 48 \<or> 57 < (of_char c :: nat)) ds \<or>
            v < - (2 ^ 63) \<or> 2 ^ 63 \<le> v then None else Some v)"

abbreviation backslash :: char where "backslash \<equiv> CHR 0x5C"

subsection \<open>Characters beyond ASCII\<close>

text \<open>The width of the character that starts a text, as \<open>utf8.DecodeRune\<close> gives it.\<close>

definition continuation :: "char \<Rightarrow> bool" where
  "continuation c \<longleftrightarrow> 128 \<le> (of_char c :: nat) \<and> of_char c < (192 :: nat)"

definition rune_width :: "string \<Rightarrow> nat" where
  "rune_width s =
     (case s of
        [] \<Rightarrow> 0
      | c # t \<Rightarrow>
          (let b = (of_char c :: nat); t1 = (case t of [] \<Rightarrow> 0 | d # _ \<Rightarrow> (of_char d :: nat));
               conts = (\<lambda>n. n \<le> length t \<and> list_all continuation (take n t))
           in if b < 194 then 1
              else if b < 224 then (if conts 1 then 2 else 1)
              else if b < 240 then (if conts 2 \<and> (b = 224 \<longrightarrow> 160 \<le> t1) \<and> (b = 237 \<longrightarrow> t1 < 160) then 3 else 1)
              else if b < 245 then (if conts 3 \<and> (b = 240 \<longrightarrow> 144 \<le> t1) \<and> (b = 244 \<longrightarrow> t1 < 144) then 4 else 1)
              else 1))"

text \<open>The code point of that character, the replacement character for a byte that starts none, and the
  characters of a text, each in its encoding.\<close>

definition rune_at :: "string \<Rightarrow> nat" where
  "rune_at s =
     (let b = (\<lambda>i. of_char (s ! i) :: nat)
      in case rune_width s of
           0 \<Rightarrow> 65533
         | Suc 0 \<Rightarrow> if b 0 < 128 then b 0 else 65533
         | Suc (Suc 0) \<Rightarrow> (b 0 - 192) * 64 + (b 1 - 128)
         | Suc (Suc (Suc 0)) \<Rightarrow> (b 0 - 224) * 4096 + (b 1 - 128) * 64 + (b 2 - 128)
         | _ \<Rightarrow> (b 0 - 240) * 262144 + (b 1 - 128) * 4096 + (b 2 - 128) * 64 + (b 3 - 128))"

definition replacement :: string where "replacement = [CHR 0xEF, CHR 0xBF, CHR 0xBD]"

fun runes :: "string \<Rightarrow> string list" where
  "runes [] = []"
| "runes (c # s) =
     (if rune_width (c # s) \<le> 1 then (if (of_char c :: nat) < 128 then [c] else replacement) # runes s
      else take (rune_width (c # s)) (c # s) # runes (drop (rune_width (c # s) - 1) s))"

end
