(* ===== verification/Resolver.thy ===== *)
theory Resolver
  imports Job_Store Go_Strings
begin

text \<open>
  Template resolution, \<open>internal/server/orchestrator/resolver.go\<close>. Strings are byte
  lists, the two regular expressions are matchers that return the captured group and the
  length of the match, and \<open>ReplaceAllStringFunc\<close> scans for the leftmost non-overlapping
  matches. \<open>json.Unmarshal\<close> into a string map is a parameter that returns whether it
  succeeded and the map it leaves. The theorems give the value of a template built from
  text, parameters and references, and of the parameter merge.
\<close>

section \<open>Data\<close>

record JobMeta =
  jm_Name :: string
  jm_RunID :: string
  jm_RunNumber :: int
  jm_StartTime :: string
  jm_TriggerType :: string

record StepResult =
  sr_Status :: string
  sr_ExitCode :: int

type_synonym params = "(string, string) fmap"
type_synonym step_values = "(string, params) fmap"
type_synonym step_results = "(string, StepResult) fmap"

record ResolveContext =
  rx_RunParams :: params
  rx_JobMeta :: JobMeta
  rx_StepValues :: step_values
  rx_StepResults :: step_results

section \<open>The patterns\<close>

type_synonym matcher = "string \<Rightarrow> (string \<times> nat) option"

definition is_ident :: "string \<Rightarrow> bool" where
  "is_ident k \<longleftrightarrow> k \<noteq> [] \<and> list_all is_word_char k \<and> \<not> is_digit (hd k)"

definition shorthandPattern :: matcher where
  "shorthandPattern s =
     (case s of
        d # b # rest \<Rightarrow>
          (let k = takeWhile is_word_char rest
           in if d = CHR ''$'' \<and> b = CHR ''{'' \<and> is_ident k \<and>
                 HasPrefix (dropWhile is_word_char rest) ''}''
              then Some (k, length k + 3) else None)
      | _ \<Rightarrow> None)"

definition templatePattern :: matcher where
  "templatePattern s =
     (case s of
        a # b # rest \<Rightarrow>
          (let g = takeWhile (\<lambda>c. c \<noteq> CHR ''}'') rest
           in if a = CHR ''{'' \<and> b = CHR ''{'' \<and> g \<noteq> [] \<and>
                 HasPrefix (dropWhile (\<lambda>c. c \<noteq> CHR ''}'') rest) ''}}''
              then Some (g, length g + 4) else None)
      | _ \<Rightarrow> None)"

text \<open>\<open>ReplaceAllStringFunc\<close>; \<open>f\<close> receives the match and its group.\<close>

fun replace_all :: "matcher \<Rightarrow> (string \<Rightarrow> string \<Rightarrow> string) \<Rightarrow> string \<Rightarrow> string" where
  "replace_all m f [] = []"
| "replace_all m f (c # s) =
     (case m (c # s) of
        None \<Rightarrow> c # replace_all m f s
      | Some (g, len) \<Rightarrow> f (take len (c # s)) g @ replace_all m f (drop (len - 1) s))"

section \<open>Resolution\<close>

definition braced :: "string \<Rightarrow> string" where
  "braced ref = ''{{'' @ ref @ ''}}''"

definition resolveJobRef :: "string \<Rightarrow> JobMeta \<Rightarrow> string" where
  "resolveJobRef ref meta =
     (if ref = ''job.name'' then jm_Name meta
      else if ref = ''job.run_id'' then jm_RunID meta
      else if ref = ''job.run_number'' then itoa (jm_RunNumber meta)
      else if ref = ''job.start_time'' then jm_StartTime meta
      else if ref = ''job.trigger_type'' then jm_TriggerType meta
      else braced ref)"

definition resolveStepRef :: "string \<Rightarrow> step_values \<Rightarrow> step_results \<Rightarrow> string" where
  "resolveStepRef ref stepValues stepResults =
     (let parts = SplitN ref (CHR ''.'') 4
      in if length parts < 3 then braced ref
         else
           (let stepName = parts ! 1; field = parts ! 2
            in if field = ''values''
               then (if length parts < 4 then braced ref
                     else case fmlookup stepValues stepName of
                            None \<Rightarrow> braced ref
                          | Some vals \<Rightarrow>
                              (case fmlookup vals (parts ! 3) of
                                 None \<Rightarrow> braced ref | Some v \<Rightarrow> v))
               else if field = ''status''
               then (case fmlookup stepResults stepName of
                       None \<Rightarrow> braced ref | Some r \<Rightarrow> sr_Status r)
               else if field = ''exit_code''
               then (case fmlookup stepResults stepName of
                       None \<Rightarrow> braced ref | Some r \<Rightarrow> itoa (sr_ExitCode r))
               else braced ref))"

definition resolve_param :: "params \<Rightarrow> string \<Rightarrow> string \<Rightarrow> string" where
  "resolve_param runParams mtch key =
     (case fmlookup runParams key of None \<Rightarrow> mtch | Some v \<Rightarrow> v)"

definition resolve_template :: "JobMeta \<Rightarrow> step_values \<Rightarrow> step_results \<Rightarrow> string \<Rightarrow> string \<Rightarrow> string" where
  "resolve_template meta stepValues stepResults mtch grp =
     (let ref = TrimSpace grp
      in if HasPrefix ref ''job.'' then resolveJobRef ref meta
         else if HasPrefix ref ''steps.'' then resolveStepRef ref stepValues stepResults
         else mtch)"

definition ResolveReferences ::
  "string \<Rightarrow> params \<Rightarrow> JobMeta \<Rightarrow> step_values \<Rightarrow> step_results \<Rightarrow> string" where
  "ResolveReferences template runParams meta stepValues stepResults =
     (if template = '''' then ''''
      else
        (let result = replace_all shorthandPattern (resolve_param runParams) template
         in replace_all templatePattern (resolve_template meta stepValues stepResults) result))"

type_synonym unmarshaller = "string \<Rightarrow> bool \<times> params"

fun apply_overrides :: "params \<Rightarrow> string list \<Rightarrow> params \<Rightarrow> params" where
  "apply_overrides overrides [] defaults = defaults"
| "apply_overrides overrides (k # ks) defaults =
     apply_overrides overrides ks
       (case fmlookup defaults k of
          None \<Rightarrow> defaults
        | Some _ \<Rightarrow> fmupd k (getd '''' overrides k) defaults)"

definition resolveParameters :: "unmarshaller \<Rightarrow> string list \<Rightarrow> string \<Rightarrow> params \<Rightarrow> params" where
  "resolveParameters unmarshal order jobDefaultsJSON overrides =
     (let defaults = (if jobDefaultsJSON \<noteq> '''' then snd (unmarshal jobDefaultsJSON) else fmempty)
      in apply_overrides overrides order defaults)"

section \<open>The value of a template\<close>

text \<open>A template as its author writes it: plain text, parameters, references.\<close>

datatype seg = Lit string | Par string | Ref string

primrec render_seg :: "seg \<Rightarrow> string" where
  "render_seg (Lit s) = s"
| "render_seg (Par k) = ''${'' @ k @ ''}''"
| "render_seg (Ref g) = ''{{'' @ g @ ''}}''"

primrec seg_ok :: "seg \<Rightarrow> bool" where
  "seg_ok (Lit s) = (CHR ''$'' \<notin> set s \<and> CHR ''{'' \<notin> set s)"
| "seg_ok (Par k) = is_ident k"
| "seg_ok (Ref g) = (g \<noteq> [] \<and> CHR ''$'' \<notin> set g \<and> CHR ''{'' \<notin> set g \<and> CHR ''}'' \<notin> set g)"

definition render :: "seg list \<Rightarrow> string" where
  "render segs = concat (map render_seg segs)"

primrec eval_seg :: "ResolveContext \<Rightarrow> seg \<Rightarrow> string" where
  "eval_seg rc (Lit s) = s"
| "eval_seg rc (Par k) = (case fmlookup (rx_RunParams rc) k of None \<Rightarrow> ''${'' @ k @ ''}'' | Some v \<Rightarrow> v)"
| "eval_seg rc (Ref g) =
     resolve_template (rx_JobMeta rc) (rx_StepValues rc) (rx_StepResults rc) (''{{'' @ g @ ''}}'') g"

primrec half_seg :: "params \<Rightarrow> seg \<Rightarrow> string" where
  "half_seg ps (Lit s) = s"
| "half_seg ps (Par k) = resolve_param ps (''${'' @ k @ ''}'') k"
| "half_seg ps (Ref g) = ''{{'' @ g @ ''}}''"

lemma takeWhile_all: "list_all P a \<Longrightarrow> \<not> P c \<Longrightarrow> takeWhile P (a @ c # r) = a"
  by (induction a) auto

lemma dropWhile_all: "list_all P a \<Longrightarrow> \<not> P c \<Longrightarrow> dropWhile P (a @ c # r) = c # r"
  by (induction a) auto

lemma not_word [simp]: "\<not> is_word_char (CHR ''}'')" "\<not> is_word_char (CHR ''{'')" "\<not> is_word_char (CHR ''$'')"
  by (simp_all add: is_word_char_def is_alpha_def is_digit_def less_eq_char_def)

lemma shorthand_hit:
  assumes "is_ident k"
  shows "shorthandPattern (CHR ''$'' # CHR ''{'' # k @ CHR ''}'' # r) = Some (k, length k + 3)"
  using assms by (simp add: shorthandPattern_def is_ident_def takeWhile_all dropWhile_all)

lemma shorthand_miss: "c \<noteq> CHR ''$'' \<Longrightarrow> shorthandPattern (c # s) = None"
  by (auto simp: shorthandPattern_def split: list.splits)

lemma template_hit:
  assumes "g \<noteq> []" and "CHR ''}'' \<notin> set g"
  shows "templatePattern (CHR ''{'' # CHR ''{'' # g @ CHR ''}'' # CHR ''}'' # r) = Some (g, length g + 4)"
  using assms by (simp add: templatePattern_def takeWhile_sep dropWhile_sep)

lemma template_miss:
  "c \<noteq> CHR ''{'' \<Longrightarrow> templatePattern (c # s) = None"
  "d \<noteq> CHR ''{'' \<Longrightarrow> templatePattern (c # d # s) = None"
  by (auto simp: templatePattern_def split: list.splits)

lemma rep1_text:
  "CHR ''$'' \<notin> set a \<Longrightarrow> replace_all shorthandPattern f (a @ r) = a @ replace_all shorthandPattern f r"
  by (induction a) (auto simp: shorthand_miss)

lemma rep2_text:
  "CHR ''{'' \<notin> set a \<Longrightarrow> replace_all templatePattern f (a @ r) = a @ replace_all templatePattern f r"
  by (induction a) (auto simp: template_miss)

lemma rep1_par:
  "is_ident k \<Longrightarrow> replace_all shorthandPattern f (''${'' @ k @ ''}'' @ r)
     = f (''${'' @ k @ ''}'') k @ replace_all shorthandPattern f r"
  by (simp add: shorthand_hit take_Cons' drop_Cons')

lemma rep2_ref:
  "g \<noteq> [] \<Longrightarrow> CHR ''}'' \<notin> set g \<Longrightarrow> replace_all templatePattern f (''{{'' @ g @ ''}}'' @ r)
     = f (''{{'' @ g @ ''}}'') g @ replace_all templatePattern f r"
  by (simp add: template_hit take_Cons' drop_Cons')

lemma rep2_par:
  assumes "is_ident k"
  shows "replace_all templatePattern f (''${'' @ k @ ''}'' @ r)
     = (''${'' @ k @ ''}'') @ replace_all templatePattern f r"
proof -
  obtain c k' where k: "k = c # k'" and c: "is_word_char c"
    using assms by (cases k) (auto simp: is_ident_def)
  have "CHR ''{'' \<notin> set (k @ ''}'')"
    using assms by (auto simp: is_ident_def list_all_iff)
  moreover have "c \<noteq> CHR ''{''" using c by auto
  ultimately show ?thesis
    using rep2_text [of "k @ ''}''" f r] by (simp add: k template_miss)
qed

lemma phase1:
  "list_all seg_ok segs \<Longrightarrow>
     replace_all shorthandPattern (resolve_param ps) (render segs) = concat (map (half_seg ps) segs)"
proof (induction segs)
  case (Cons sg segs)
  then show ?case
  proof (cases sg)
    case (Lit s)
    with Cons show ?thesis by (simp add: render_def rep1_text)
  next
    case (Par k)
    with Cons rep1_par [of k "resolve_param ps" "render segs"] show ?thesis by (simp add: render_def)
  next
    case (Ref g)
    with Cons rep1_text [of "''{{'' @ g @ ''}}''" "resolve_param ps" "render segs"]
    show ?thesis by (simp add: render_def)
  qed
qed (simp add: render_def)

lemma phase2:
  assumes "\<And>k v. fmlookup (rx_RunParams rc) k = Some v \<Longrightarrow> CHR ''{'' \<notin> set v"
  shows "list_all seg_ok segs \<Longrightarrow>
     replace_all templatePattern (resolve_template (rx_JobMeta rc) (rx_StepValues rc) (rx_StepResults rc))
       (concat (map (half_seg (rx_RunParams rc)) segs)) = concat (map (eval_seg rc) segs)"
proof (induction segs)
  case (Cons sg segs)
  let ?f = "resolve_template (rx_JobMeta rc) (rx_StepValues rc) (rx_StepResults rc)"
  let ?r = "concat (map (half_seg (rx_RunParams rc)) segs)"
  show ?case
  proof (cases sg)
    case (Lit s)
    with Cons show ?thesis by (simp add: rep2_text)
  next
    case (Par k)
    show ?thesis
    proof (cases "fmlookup (rx_RunParams rc) k")
      case None
      with Par Cons rep2_par [of k ?f ?r] show ?thesis by (simp add: resolve_param_def)
    next
      case (Some v)
      with Par Cons assms rep2_text [of v ?f ?r] show ?thesis by (simp add: resolve_param_def)
    qed
  next
    case (Ref g)
    with Cons rep2_ref [of g ?f ?r] show ?thesis by simp
  qed
qed simp

text \<open>
  A template built from text, parameters and references resolves piece by piece: text
  is copied, a known parameter becomes its value and an unknown one stays as written, and
  a reference becomes what \<open>resolveJobRef\<close> and \<open>resolveStepRef\<close> give for its trimmed
  body. Parameter values are assumed to contain no opening brace.
\<close>

theorem ResolveReferences_segments:
  assumes "list_all seg_ok segs"
    and "\<And>k v. fmlookup (rx_RunParams rc) k = Some v \<Longrightarrow> CHR ''{'' \<notin> set v"
  shows "ResolveReferences (render segs) (rx_RunParams rc) (rx_JobMeta rc) (rx_StepValues rc) (rx_StepResults rc)
    = concat (map (eval_seg rc) segs)"
proof (cases "render segs = []")
  case True
  with phase1 [OF assms(1), of "rx_RunParams rc"] have "concat (map (half_seg (rx_RunParams rc)) segs) = []"
    by simp
  with phase2 [of rc segs, OF assms(2)] assms(1) True show ?thesis
    by (simp only: ResolveReferences_def replace_all.simps simp_thms if_True)
next
  case False
  with phase1 [OF assms(1), of "rx_RunParams rc"] phase2 [of rc segs, OF assms(2)] assms(1)
  show ?thesis by (simp add: ResolveReferences_def Let_def)
qed

definition meta0 :: JobMeta where
  "meta0 = \<lparr>jm_Name = ''nightly'', jm_RunID = ''r1'', jm_RunNumber = 12, jm_StartTime = ''t'',
     jm_TriggerType = ''manual''\<rparr>"

definition rc0 :: ResolveContext where
  "rc0 = \<lparr>rx_RunParams = fmap_of_list [(''env'', ''prod'')], rx_JobMeta = meta0,
     rx_StepValues = fmap_of_list [(''build'', fmap_of_list [(''out'', ''ok'')])], rx_StepResults = fmempty\<rparr>"

theorem ResolveReferences_segments_witness:
  "ResolveReferences ''on ${env} {{job.name}} {{steps.build.values.out}}''
     (rx_RunParams rc0) (rx_JobMeta rc0) (rx_StepValues rc0) (rx_StepResults rc0) = ''on prod nightly ok''"
proof -
  let ?segs = "[Lit ''on '', Par ''env'', Lit '' '', Ref ''job.name'', Lit '' '', Ref ''steps.build.values.out'']"
  have "list_all seg_ok ?segs"
    by (simp add: is_ident_def is_word_char_def is_alpha_def is_digit_def less_eq_char_def)
  moreover have "CHR ''{'' \<notin> set v" if "fmlookup (rx_RunParams rc0) k = Some v" for k v
    using that by (auto simp: rc0_def fmlookup_of_list split: if_splits)
  moreover have "concat (map (eval_seg rc0) ?segs) = ''on prod nightly ok''"
  proof -
    have "TrimSpace ''job.name'' = ''job.name''"
      and "TrimSpace ''steps.build.values.out'' = ''steps.build.values.out''"
      by (rule TrimSpace_visible; simp add: visible_def)+
    then show ?thesis
      by (simp add: resolve_template_def resolveJobRef_def resolveStepRef_def rc0_def meta0_def
          fmlookup_of_list Let_def numeral_eq_Suc)
  qed
  ultimately show ?thesis
    using ResolveReferences_segments [of ?segs rc0] by (simp add: render_def)
qed

text \<open>
  An unresolved reference is not left as written: the blanks inside its braces are
  dropped, although the comment of \<open>ResolveReferences\<close> says unresolved references are left
  as they are.
\<close>

theorem unresolved_reference_rewritten:
  "ResolveReferences ''{{ job.owner }}'' ps meta vs rs = ''{{job.owner}}''"
proof -
  have "TrimSpace '' job.owner '' = ''job.owner''"
    by code_simp
  then show ?thesis
    by (simp add: ResolveReferences_def shorthand_miss template_hit [of "'' job.owner ''" "[]", simplified]
        resolve_template_def resolveJobRef_def braced_def)
qed

section \<open>Parameters\<close>

lemma apply_overrides_lookup:
  assumes "distinct ks"
  shows "fmlookup (apply_overrides ov ks d) k
    = (case fmlookup d k of None \<Rightarrow> None
       | Some v \<Rightarrow> Some (if k \<in> set ks then getd '''' ov k else v))"
  using assms
proof (induction ov ks d rule: apply_overrides.induct)
  case (2 ov k' ks d)
  then show ?case by (auto split: option.splits)
qed (auto split: option.splits)

text \<open>
  The parameters of a run are exactly the job's default parameters, each with its
  override where one is given; overrides for other keys are dropped, and the result does
  not depend on the order in which the overrides are visited.
\<close>

theorem resolveParameters_lookup:
  assumes "enumerates order overrides"
  shows "fmlookup (resolveParameters unmarshal order js overrides) k
    = (let defaults = if js = '''' then fmempty else snd (unmarshal js)
       in case fmlookup defaults k of None \<Rightarrow> None
          | Some v \<Rightarrow> Some (case fmlookup overrides k of None \<Rightarrow> v | Some w \<Rightarrow> w))"
proof -
  have "distinct order" "k \<in> set order \<longleftrightarrow> fmlookup overrides k \<noteq> None"
    using assms enumerates_mem [OF assms] by (auto simp: enumerates_def)
  then show ?thesis
    by (auto simp: resolveParameters_def apply_overrides_lookup Let_def getd_def split: option.splits)
qed

theorem resolveParameters_lookup_witness:
  "fmlookup (resolveParameters (\<lambda>_. (True, fmap_of_list [(''env'', ''dev'')])) [''env'', ''x''] ''json''
     (fmap_of_list [(''env'', ''prod''), (''x'', ''1'')])) ''env'' = Some ''prod''"
proof -
  have "enumerates [''env'', ''x''] (fmap_of_list [(''env'', ''prod''), (''x'', ''1'')])"
    by (auto simp: enumerates_def fmdom'_alt_def fmdom_of_list)
  from resolveParameters_lookup [OF this, of "\<lambda>_. (True, fmap_of_list [(''env'', ''dev'')])" "''json''" "''env''"]
  show ?thesis by (simp add: fmlookup_of_list)
qed

end
