(* ===== verification/Dag_Runner.thy ===== *)
theory Dag_Runner
  imports Dag_Validate Resolver
begin

text \<open>
  The run executor, type \<open>DAGRunner\<close> of \<open>internal/server/orchestrator/dag_runner.go\<close>.
  The struct is a record; the pointer map \<open>steps\<close> is a finite map whose entries are
  replaced where the code writes through the pointer. Every handler is a function from the
  record to the record after the critical section, the steps it hands to the executor and
  the list of calls it makes on its collaborators (\<open>effect\<close>): store updates, published
  step events, step executions, the scheduled retry and the completion callback. The store
  and the callback are present, as they are for every runner the orchestrator builds.
  Ranges over Go maps take the visiting order as an argument; a nil dereference or a call
  of a nil function is the value \<open>Inl NilDeref\<close>.
\<close>

section \<open>State\<close>

datatype ctx_state = NoCtx | Live | Cancelled

datatype panic = NilDeref

record DAGRunner =
  dr_ctx :: ctx_state
  dr_runID :: string
  dr_jobID :: string
  dr_steps :: "(string, RunStep) fmap"
  dr_stepNames :: "(string, string) fmap"
  dr_dependents :: "(string, string list) fmap"
  dr_inDegree :: "(string, int) fmap"
  dr_completed :: int
  dr_total :: int
  dr_failed :: bool
  dr_done :: bool
  dr_runParams :: params
  dr_jobMeta :: JobMeta
  dr_stepValues :: step_values
  dr_stepResults :: step_results
  dr_activeSessionKeys :: "(string, bool) fmap"
  dr_deferredSteps :: "string list"
  dr_hasFailedUpstream :: "(string, bool) fmap"

datatype effect =
    DBStatus string string string int
  | DBAttempt string int
  | PublishStep string string string string string string string
  | Execute RunStep ResolveContext
  | ScheduleRetry RunStep
  | RunComplete string string

definition TypeJobRunStepStarted :: string where "TypeJobRunStepStarted = ''run.step.started''"
definition TypeJobRunStepCompleted :: string where "TypeJobRunStepCompleted = ''run.step.completed''"
definition TypeJobRunStepFailed :: string where "TypeJobRunStepFailed = ''run.step.failed''"

fun step_map :: "RunStep list \<Rightarrow> (string, RunStep) fmap \<Rightarrow> (string, RunStep) fmap" where
  "step_map [] m = m"
| "step_map (rs # rest) m = step_map rest (fmupd (rs_StepID rs) rs m)"

definition NewDAGRunner ::
  "string \<Rightarrow> string \<Rightarrow> RunStep list \<Rightarrow> StepDependency list \<Rightarrow> params \<Rightarrow> JobMeta \<Rightarrow>
   (string, string) fmap \<Rightarrow> DAGRunner" where
  "NewDAGRunner runID jobID runSteps deps runParams jobMeta stepNames =
     \<lparr>dr_ctx = NoCtx, dr_runID = runID, dr_jobID = jobID,
      dr_steps = step_map runSteps fmempty, dr_stepNames = stepNames,
      dr_dependents = adjacency deps,
      dr_inDegree = in_degrees (map rs_StepID runSteps) deps,
      dr_completed = 0, dr_total = int (length runSteps), dr_failed = False, dr_done = False,
      dr_runParams = runParams, dr_jobMeta = jobMeta, dr_stepValues = fmempty,
      dr_stepResults = fmempty, dr_activeSessionKeys = fmempty, dr_deferredSteps = [],
      dr_hasFailedUpstream = fmempty\<rparr>"

definition SetStepValues :: "string \<Rightarrow> params \<Rightarrow> DAGRunner \<Rightarrow> DAGRunner" where
  "SetStepValues stepName vals d = d\<lparr>dr_stepValues := fmupd stepName vals (dr_stepValues d)\<rparr>"

text \<open>The copies of \<open>copyStepValues\<close>, \<open>copyStepResults\<close> and \<open>copyRunParams\<close> are the
  maps themselves: maps are immutable here.\<close>

definition buildResolveContext :: "DAGRunner \<Rightarrow> ResolveContext" where
  "buildResolveContext d = \<lparr>rx_RunParams = dr_runParams d, rx_JobMeta = dr_jobMeta d,
     rx_StepValues = dr_stepValues d, rx_StepResults = dr_stepResults d\<rparr>"

definition publishStepEvent :: "DAGRunner \<Rightarrow> string \<Rightarrow> string \<Rightarrow> string \<Rightarrow> string \<Rightarrow> effect" where
  "publishStepEvent d eventType runStepID stepID status =
     PublishStep eventType (dr_runID d) runStepID stepID status
       (getd '''' (dr_stepNames d) stepID) (jm_Name (dr_jobMeta d))"

text \<open>Assignment through the pointer \<open>d.steps[stepID]\<close>.\<close>

definition upd_step :: "string \<Rightarrow> (RunStep \<Rightarrow> RunStep) \<Rightarrow> DAGRunner \<Rightarrow> DAGRunner" where
  "upd_step stepID f d =
     (case fmlookup (dr_steps d) stepID of
        None \<Rightarrow> d
      | Some rs \<Rightarrow> d\<lparr>dr_steps := fmupd stepID (f rs) (dr_steps d)\<rparr>)"

definition set_status :: "string \<Rightarrow> string \<Rightarrow> DAGRunner \<Rightarrow> DAGRunner" where
  "set_status stepID s = upd_step stepID (\<lambda>rs. rs\<lparr>rs_Status := s\<rparr>)"

section \<open>Session keys\<close>

definition canLaunch :: "DAGRunner \<Rightarrow> RunStep \<Rightarrow> bool" where
  "canLaunch d rs =
     (if rs_SessionKeySnapshot rs = '''' then True
      else \<not> getd False (dr_activeSessionKeys d) (rs_SessionKeySnapshot rs))"

definition claimSessionKey :: "RunStep \<Rightarrow> DAGRunner \<Rightarrow> DAGRunner" where
  "claimSessionKey rs d =
     (if rs_SessionKeySnapshot rs \<noteq> ''''
      then d\<lparr>dr_activeSessionKeys := fmupd (rs_SessionKeySnapshot rs) True (dr_activeSessionKeys d)\<rparr>
      else d)"

definition releaseSessionKey :: "RunStep \<Rightarrow> DAGRunner \<Rightarrow> DAGRunner" where
  "releaseSessionKey rs d =
     (if rs_SessionKeySnapshot rs \<noteq> ''''
      then d\<lparr>dr_activeSessionKeys := fmdrop (rs_SessionKeySnapshot rs) (dr_activeSessionKeys d)\<rparr>
      else d)"

text \<open>Claim the key and mark the step running; the copy handed to the executor.\<close>

definition mark_running :: "string \<Rightarrow> RunStep \<Rightarrow> DAGRunner \<Rightarrow> DAGRunner" where
  "mark_running stepID rs d = set_status stepID StatusRunning (claimSessionKey rs d)"

definition running_copy :: "RunStep \<Rightarrow> RunStep" where
  "running_copy rs = rs\<lparr>rs_Status := StatusRunning\<rparr>"

fun deferred_loop :: "string list \<Rightarrow> DAGRunner \<Rightarrow> DAGRunner \<times> string list \<times> RunStep list \<times> effect list" where
  "deferred_loop [] d = (d, [], [], [])"
| "deferred_loop (stepID # rest) d =
     (case fmlookup (dr_steps d) stepID of
        None \<Rightarrow> deferred_loop rest d
      | Some rs \<Rightarrow>
          if rs_Status rs \<noteq> StatusPending then deferred_loop rest d
          else if getd False (dr_hasFailedUpstream d) stepID \<and> rs_RunIfSnapshot rs \<noteq> ''all_done''
          then (let (d', remaining, launch, effs) =
                  deferred_loop rest ((set_status stepID StatusSkipped d)\<lparr>dr_completed := dr_completed d + 1\<rparr>)
                in (d', remaining, launch, DBStatus (rs_RunStepID rs) StatusSkipped '''' 0 # effs))
          else if canLaunch d rs
          then (let (d', remaining, launch, effs) = deferred_loop rest (mark_running stepID rs d)
                in (d', remaining, running_copy rs # launch,
                    DBStatus (rs_RunStepID rs) StatusRunning '''' 0 # effs))
          else (let (d', remaining, launch, effs) = deferred_loop rest d
                in (d', stepID # remaining, launch, effs)))"

definition processDeferredSteps :: "DAGRunner \<Rightarrow> DAGRunner \<times> RunStep list \<times> effect list" where
  "processDeferredSteps d =
     (let (d', remaining, launch, effs) = deferred_loop (dr_deferredSteps d) d
      in (d'\<lparr>dr_deferredSteps := remaining\<rparr>, launch, effs))"

section \<open>Start and launch\<close>

fun start_loop :: "string list \<Rightarrow> DAGRunner \<Rightarrow> panic + DAGRunner \<times> RunStep list \<times> effect list" where
  "start_loop [] d = Inr (d, [], [])"
| "start_loop (stepID # rest) d =
     (if getd 0 (dr_inDegree d) stepID = 0
      then case fmlookup (dr_steps d) stepID of
             None \<Rightarrow> Inl NilDeref
           | Some rs \<Rightarrow>
               if rs_Status rs = StatusPending
               then (if canLaunch d rs
                     then (case start_loop rest (mark_running stepID rs d) of
                             Inl p \<Rightarrow> Inl p
                           | Inr (d', launch, effs) \<Rightarrow>
                               Inr (d', running_copy rs # launch,
                                    DBStatus (rs_RunStepID rs) StatusRunning '''' 0 # effs))
                     else start_loop rest (d\<lparr>dr_deferredSteps := dr_deferredSteps d @ [stepID]\<rparr>))
               else start_loop rest d
      else start_loop rest d)"

text \<open>One call of \<open>launchStep\<close>: the executor runs after \<open>DelaySecondsSnapshot\<close>.\<close>

definition launchStep :: "DAGRunner \<Rightarrow> RunStep \<Rightarrow> effect list" where
  "launchStep d rs =
     [publishStepEvent d TypeJobRunStepStarted (rs_RunStepID rs) (rs_StepID rs) StatusRunning,
      Execute rs (buildResolveContext d)]"

definition Start :: "string list \<Rightarrow> DAGRunner \<Rightarrow> panic + DAGRunner \<times> RunStep list \<times> effect list" where
  "Start order d =
     (case start_loop order (d\<lparr>dr_ctx := Live\<rparr>) of
        Inl p \<Rightarrow> Inl p
      | Inr (d', launch, effs) \<Rightarrow> Inr (d', launch, effs @ concat (map (launchStep d') launch)))"

section \<open>Completion\<close>

text \<open>One iteration of the inner loop of \<open>processReadyDependents\<close>.\<close>

definition visit_dep ::
  "bool \<Rightarrow> string \<Rightarrow> DAGRunner \<Rightarrow> DAGRunner \<times> (string \<times> bool) list \<times> RunStep list \<times> effect list" where
  "visit_dep itemFailed depID d =
     (let d = (if itemFailed
               then d\<lparr>dr_hasFailedUpstream := fmupd depID True (dr_hasFailedUpstream d)\<rparr> else d);
          d = d\<lparr>dr_inDegree := fmupd depID (getd 0 (dr_inDegree d) depID - 1) (dr_inDegree d)\<rparr>
      in if getd 0 (dr_inDegree d) depID = 0
         then (case fmlookup (dr_steps d) depID of
                 None \<Rightarrow> (d, [], [], [])
               | Some depRS \<Rightarrow>
                   if rs_Status depRS = StatusPending
                   then (if getd False (dr_hasFailedUpstream d) depID \<and> rs_RunIfSnapshot depRS \<noteq> ''all_done''
                         then ((set_status depID StatusSkipped d)\<lparr>dr_completed := dr_completed d + 1\<rparr>,
                               [(depID, True)], [], [DBStatus (rs_RunStepID depRS) StatusSkipped '''' 0])
                         else if canLaunch d depRS
                         then (mark_running depID depRS d, [], [running_copy depRS],
                               [DBStatus (rs_RunStepID depRS) StatusRunning '''' 0])
                         else (d\<lparr>dr_deferredSteps := dr_deferredSteps d @ [depID]\<rparr>, [], [], []))
                   else (d, [], [], []))
         else (d, [], [], []))"

fun visit_deps ::
  "bool \<Rightarrow> string list \<Rightarrow> DAGRunner \<Rightarrow> DAGRunner \<times> (string \<times> bool) list \<times> RunStep list \<times> effect list" where
  "visit_deps itemFailed [] d = (d, [], [], [])"
| "visit_deps itemFailed (depID # rest) d =
     (let (d1, items1, launch1, effs1) = visit_dep itemFailed depID d;
          (d2, items2, launch2, effs2) = visit_deps itemFailed rest d1
      in (d2, items1 @ items2, launch1 @ launch2, effs1 @ effs2))"

lemma upd_step_frame [simp]:
  "dr_inDegree (upd_step i f d) = dr_inDegree d" "dr_dependents (upd_step i f d) = dr_dependents d"
  "dr_hasFailedUpstream (upd_step i f d) = dr_hasFailedUpstream d"
  "dr_activeSessionKeys (upd_step i f d) = dr_activeSessionKeys d"
  "dr_deferredSteps (upd_step i f d) = dr_deferredSteps d"
  "dr_completed (upd_step i f d) = dr_completed d" "dr_total (upd_step i f d) = dr_total d"
  "dr_failed (upd_step i f d) = dr_failed d" "dr_done (upd_step i f d) = dr_done d"
  "dr_ctx (upd_step i f d) = dr_ctx d" "dr_runID (upd_step i f d) = dr_runID d"
  "dr_jobID (upd_step i f d) = dr_jobID d"
  by (simp_all add: upd_step_def split: option.splits)

lemma set_status_frame [simp]:
  "dr_inDegree (set_status i s d) = dr_inDegree d" "dr_dependents (set_status i s d) = dr_dependents d"
  "dr_hasFailedUpstream (set_status i s d) = dr_hasFailedUpstream d"
  "dr_activeSessionKeys (set_status i s d) = dr_activeSessionKeys d"
  "dr_deferredSteps (set_status i s d) = dr_deferredSteps d"
  "dr_completed (set_status i s d) = dr_completed d" "dr_total (set_status i s d) = dr_total d"
  "dr_failed (set_status i s d) = dr_failed d" "dr_done (set_status i s d) = dr_done d"
  "dr_ctx (set_status i s d) = dr_ctx d" "dr_runID (set_status i s d) = dr_runID d"
  "dr_jobID (set_status i s d) = dr_jobID d"
  by (simp_all add: set_status_def)

lemma claimSessionKey_frame [simp]:
  "dr_inDegree (claimSessionKey rs d) = dr_inDegree d" "dr_dependents (claimSessionKey rs d) = dr_dependents d"
  "dr_hasFailedUpstream (claimSessionKey rs d) = dr_hasFailedUpstream d"
  "dr_steps (claimSessionKey rs d) = dr_steps d"
  "dr_deferredSteps (claimSessionKey rs d) = dr_deferredSteps d"
  "dr_completed (claimSessionKey rs d) = dr_completed d" "dr_total (claimSessionKey rs d) = dr_total d"
  "dr_failed (claimSessionKey rs d) = dr_failed d" "dr_done (claimSessionKey rs d) = dr_done d"
  "dr_ctx (claimSessionKey rs d) = dr_ctx d" "dr_runID (claimSessionKey rs d) = dr_runID d"
  "dr_jobID (claimSessionKey rs d) = dr_jobID d"
  by (simp_all add: claimSessionKey_def)

lemma releaseSessionKey_frame [simp]:
  "dr_inDegree (releaseSessionKey rs d) = dr_inDegree d" "dr_dependents (releaseSessionKey rs d) = dr_dependents d"
  "dr_hasFailedUpstream (releaseSessionKey rs d) = dr_hasFailedUpstream d"
  "dr_steps (releaseSessionKey rs d) = dr_steps d"
  "dr_deferredSteps (releaseSessionKey rs d) = dr_deferredSteps d"
  "dr_completed (releaseSessionKey rs d) = dr_completed d" "dr_total (releaseSessionKey rs d) = dr_total d"
  "dr_failed (releaseSessionKey rs d) = dr_failed d" "dr_done (releaseSessionKey rs d) = dr_done d"
  "dr_ctx (releaseSessionKey rs d) = dr_ctx d" "dr_runID (releaseSessionKey rs d) = dr_runID d"
  "dr_jobID (releaseSessionKey rs d) = dr_jobID d"
  by (simp_all add: releaseSessionKey_def)

lemma mark_running_frame [simp]:
  "dr_inDegree (mark_running i rs d) = dr_inDegree d" "dr_dependents (mark_running i rs d) = dr_dependents d"
  "dr_hasFailedUpstream (mark_running i rs d) = dr_hasFailedUpstream d"
  "dr_deferredSteps (mark_running i rs d) = dr_deferredSteps d"
  "dr_completed (mark_running i rs d) = dr_completed d" "dr_total (mark_running i rs d) = dr_total d"
  "dr_failed (mark_running i rs d) = dr_failed d" "dr_done (mark_running i rs d) = dr_done d"
  "dr_ctx (mark_running i rs d) = dr_ctx d" "dr_runID (mark_running i rs d) = dr_runID d"
  "dr_jobID (mark_running i rs d) = dr_jobID d"
  by (simp_all add: mark_running_def)

lemma visit_dep_measure:
  "visit_dep fl v d = (d', items, launch, effs) \<Longrightarrow>
     pos_count (dr_inDegree d') + length items \<le> pos_count (dr_inDegree d)"
  using pos_count_dec [of v "dr_inDegree d"]
  by (auto simp: visit_dep_def Let_def split: if_splits option.splits)

lemma visit_deps_measure:
  "visit_deps fl vs d = (d', items, launch, effs) \<Longrightarrow>
     pos_count (dr_inDegree d') + length items \<le> pos_count (dr_inDegree d)"
proof (induction vs arbitrary: d d' items launch effs)
  case (Cons v vs)
  obtain d1 i1 l1 e1 where v: "visit_dep fl v d = (d1, i1, l1, e1)" by (cases "visit_dep fl v d")
  obtain d2 i2 l2 e2 where vs: "visit_deps fl vs d1 = (d2, i2, l2, e2)" by (cases "visit_deps fl vs d1")
  from Cons.prems v vs have "d' = d2" "items = i1 @ i2" by simp_all
  with visit_dep_measure [OF v] Cons.IH [OF vs] show ?case by simp
qed simp

text \<open>The work queue of \<open>processReadyDependents\<close>.\<close>

function ready_loop :: "(string \<times> bool) list \<Rightarrow> DAGRunner \<Rightarrow> DAGRunner \<times> RunStep list \<times> effect list" where
  "ready_loop [] d = (d, [], [])"
| "ready_loop ((stepID, itemFailed) # queue) d =
     (let (d1, items, launch1, effs1) = visit_deps itemFailed (getd [] (dr_dependents d) stepID) d;
          (d2, launch2, effs2) = ready_loop (queue @ items) d1
      in (d2, launch1 @ launch2, effs1 @ effs2))"
  by pat_completeness auto
termination
  by (relation "measure (\<lambda>(q, d). pos_count (dr_inDegree d) + length q)")
    (auto dest!: visit_deps_measure [OF sym])

definition processReadyDependents :: "string \<Rightarrow> bool \<Rightarrow> DAGRunner \<Rightarrow> DAGRunner \<times> RunStep list \<times> effect list" where
  "processReadyDependents stepID stepFailed d = ready_loop [(stepID, stepFailed)] d"

text \<open>The loop of the \<open>fail_run\<close> branch over all steps.\<close>

fun fail_run_loop :: "string \<Rightarrow> string list \<Rightarrow> DAGRunner \<Rightarrow> DAGRunner \<times> effect list" where
  "fail_run_loop stepID [] d = (d, [])"
| "fail_run_loop stepID (i # rest) d =
     (case fmlookup (dr_steps d) i of
        None \<Rightarrow> fail_run_loop stepID rest d
      | Some s \<Rightarrow>
          if rs_Status s = StatusPending
          then (let (d', effs) = fail_run_loop stepID rest (set_status i StatusSkipped d)
                in (d', DBStatus (rs_RunStepID s) StatusSkipped '''' 0 # effs))
          else if rs_Status s = StatusRunning \<and> rs_StepID s \<noteq> stepID
          then (let (d', effs) = fail_run_loop stepID rest (set_status i StatusCancelled d)
                in (d', DBStatus (rs_RunStepID s) StatusCancelled '''' 0 # effs))
          else fail_run_loop stepID rest d)"

definition record_result :: "string \<Rightarrow> int \<Rightarrow> DAGRunner \<Rightarrow> DAGRunner" where
  "record_result stepID exitCode d =
     (let stepName = getd '''' (dr_stepNames d) stepID
      in if stepName \<noteq> ''''
         then d\<lparr>dr_stepResults := fmupd stepName
                  \<lparr>sr_Status = (if exitCode \<noteq> 0 then StatusFailed else StatusCompleted),
                   sr_ExitCode = exitCode\<rparr> (dr_stepResults d)\<rparr>
         else d)"

text \<open>
  The tail of \<open>OnStepCompleted\<close>, after the step reached its final status: count it,
  release its dependents, retry the deferred steps, and finish the run or launch.
\<close>

definition finish_step :: "string \<Rightarrow> int \<Rightarrow> RunStep \<Rightarrow> DAGRunner \<Rightarrow> DAGRunner \<times> RunStep list \<times> effect list" where
  "finish_step stepID exitCode rs d =
     (let stepFailed = (exitCode \<noteq> 0);
          d = d\<lparr>dr_completed := dr_completed d + 1\<rparr>;
          (d, launch1, effs1) = processReadyDependents stepID stepFailed d;
          (d, launch2, effs2) = processDeferredSteps d;
          toLaunch = launch1 @ launch2;
          pub = (if stepFailed
                 then publishStepEvent d TypeJobRunStepFailed (rs_RunStepID rs) stepID StatusFailed
                 else publishStepEvent d TypeJobRunStepCompleted (rs_RunStepID rs) stepID StatusCompleted)
      in if dr_completed d = dr_total d
         then (d\<lparr>dr_done := True\<rparr>, [],
               effs1 @ effs2 @ [pub, RunComplete (dr_runID d)
                 (if dr_failed d \<or> stepFailed then StatusFailed else StatusCompleted)])
         else (d, toLaunch, effs1 @ effs2 @ [pub] @ concat (map (launchStep d) toLaunch)))"

definition OnStepCompleted ::
  "string list \<Rightarrow> string \<Rightarrow> int \<Rightarrow> DAGRunner \<Rightarrow> panic + DAGRunner \<times> RunStep list \<times> effect list" where
  "OnStepCompleted order stepID exitCode d =
     (if dr_ctx d = Cancelled then Inr (d, [], [])
      else case fmlookup (dr_steps d) stepID of
             None \<Rightarrow> Inr (d, [], [])
           | Some rs \<Rightarrow>
               let d = releaseSessionKey rs (record_result stepID exitCode d)
               in if exitCode \<noteq> 0
                  then
                    (let d = upd_step stepID (\<lambda>r. r\<lparr>rs_Status := StatusFailed, rs_ExitCode := Some exitCode\<rparr>) d;
                         eff = DBStatus (rs_RunStepID rs) StatusFailed '''' exitCode
                     in if rs_MaxRetriesSnapshot rs > 0 \<and> rs_Attempt rs \<le> rs_MaxRetriesSnapshot rs
                        then
                          (let n = rs_Attempt rs + 1;
                               d = upd_step stepID (\<lambda>r. r\<lparr>rs_Attempt := n\<rparr>) d
                           in Inr (d, [],
                                [eff, DBAttempt (rs_RunStepID rs) n,
                                 publishStepEvent d TypeJobRunStepFailed (rs_RunStepID rs) stepID StatusFailed,
                                 ScheduleRetry (rs\<lparr>rs_Status := StatusFailed, rs_ExitCode := Some exitCode,
                                                   rs_Attempt := n\<rparr>)]))
                        else
                          (let d = d\<lparr>dr_failed := True\<rparr>
                           in if rs_OnFailure rs = ''fail_run''
                              then
                                (let (d, effs) = fail_run_loop stepID order d
                                 in if dr_ctx d = NoCtx then Inl NilDeref
                                    else Inr (d\<lparr>dr_ctx := Cancelled, dr_done := True\<rparr>, [],
                                           eff # effs @
                                           [publishStepEvent d TypeJobRunStepFailed (rs_RunStepID rs) stepID StatusFailed,
                                            RunComplete (dr_runID d) StatusFailed]))
                              else
                                (let (d, launch, effs) = finish_step stepID exitCode rs d
                                 in Inr (d, launch, eff # effs))))
                  else
                    (let d = upd_step stepID (\<lambda>r. r\<lparr>rs_Status := StatusCompleted, rs_ExitCode := Some 0\<rparr>) d;
                         (d, launch, effs) = finish_step stepID exitCode rs d
                     in Inr (d, launch, DBStatus (rs_RunStepID rs) StatusCompleted '''' 0 # effs)))"

text \<open>The goroutine of a scheduled retry, from the moment its delay has passed.\<close>

definition retry_step :: "RunStep \<Rightarrow> DAGRunner \<Rightarrow> panic + DAGRunner \<times> RunStep list \<times> effect list" where
  "retry_step rsCopy d =
     (if dr_ctx d = NoCtx then Inl NilDeref
      else if dr_ctx d = Cancelled then Inr (d, [], [])
      else if rs_SessionKeySnapshot rsCopy \<noteq> '''' \<and> \<not> canLaunch d rsCopy
      then (if fmlookup (dr_steps d) (rs_StepID rsCopy) = None then Inl NilDeref
            else Inr ((set_status (rs_StepID rsCopy) StatusPending d)
                        \<lparr>dr_deferredSteps := dr_deferredSteps d @ [rs_StepID rsCopy]\<rparr>, [], []))
      else if fmlookup (dr_steps d) (rs_StepID rsCopy) = None then Inl NilDeref
      else
        (let d' = mark_running (rs_StepID rsCopy) rsCopy d;
             c = running_copy rsCopy
         in Inr (d', [c], [DBStatus (rs_RunStepID rsCopy) StatusRunning '''' 0,
                           Execute c (buildResolveContext d')])))"

definition Cancel :: "DAGRunner \<Rightarrow> DAGRunner" where
  "Cancel d = d\<lparr>dr_done := True, dr_ctx := (if dr_ctx d = NoCtx then NoCtx else Cancelled)\<rparr>"

end
