(* ===== verification/Dag_Runner_Inv.thy ===== *)
theory Dag_Runner_Inv
  imports Dag_Runner
begin

text \<open>
  The invariant of a run in progress and its preservation by the elementary changes the
  handlers of the runner are made of: an edge of the graph is accounted for, a waiting
  step starts or is skipped, a running step finishes, fails for a retry, or is retried.
  The ghost parameters are the set \<open>C\<close> of edges already accounted for, the steps
  \<open>RT\<close> whose retry is scheduled, the running steps \<open>R\<close> and the steps \<open>W\<close> that are
  ready but not started.
\<close>

section \<open>Views of the state\<close>

definition stat :: "DAGRunner \<Rightarrow> string \<Rightarrow> string option" where
  "stat d v = map_option rs_Status (fmlookup (dr_steps d) v)"

definition skey :: "DAGRunner \<Rightarrow> string \<Rightarrow> string" where
  "skey d v = (case fmlookup (dr_steps d) v of None \<Rightarrow> '''' | Some rs \<Rightarrow> rs_SessionKeySnapshot rs)"

definition run_all :: "DAGRunner \<Rightarrow> string \<Rightarrow> bool" where
  "run_all d v = (case fmlookup (dr_steps d) v of None \<Rightarrow> False | Some rs \<Rightarrow> rs_RunIfSnapshot rs = ''all_done'')"

definition Fin :: "DAGRunner \<Rightarrow> string set \<Rightarrow> string set" where
  "Fin d RT = {v. stat d v = Some StatusCompleted \<or> stat d v = Some StatusSkipped \<or>
                  (stat d v = Some StatusFailed \<and> v \<notin> RT)}"

definition open_cnt :: "(string \<times> string) set \<Rightarrow> StepDependency list \<Rightarrow> string \<Rightarrow> nat" where
  "open_cnt C deps v = length (filter (\<lambda>e. dep_StepID e = v \<and> (dep_DependsOn e, v) \<notin> C) deps)"

definition blocked :: "DAGRunner \<Rightarrow> string \<Rightarrow> bool" where
  "blocked d v \<longleftrightarrow> getd False (dr_hasFailedUpstream d) v \<and> \<not> run_all d v"

section \<open>The invariant\<close>

definition static_inv :: "StepDependency list \<Rightarrow> DAGRunner \<Rightarrow> bool" where
  "static_inv deps d \<longleftrightarrow> distinct deps \<and>
     (\<forall>v rs. fmlookup (dr_steps d) v = Some rs \<longrightarrow> rs_StepID rs = v) \<and>
     (\<forall>v s. stat d v = Some s \<longrightarrow> s \<in> {StatusPending, StatusRunning, StatusCompleted, StatusFailed, StatusSkipped}) \<and>
     (\<forall>u v. (u, v) \<in> edges deps \<longrightarrow> stat d u \<noteq> None \<and> stat d v \<noteq> None) \<and>
     (\<forall>u. getd [] (dr_dependents d) u = succs deps u)"

definition edge_inv :: "StepDependency list \<Rightarrow> DAGRunner \<Rightarrow> (string \<times> string) set \<Rightarrow> string set \<Rightarrow> bool" where
  "edge_inv deps d C RT \<longleftrightarrow>
     (\<forall>u v. (u, v) \<in> C \<longrightarrow> (u, v) \<in> edges deps \<and> u \<in> Fin d RT) \<and>
     (\<forall>v. stat d v \<noteq> None \<longrightarrow> getd 0 (dr_inDegree d) v = int (open_cnt C deps v)) \<and>
     (\<forall>v. getd False (dr_hasFailedUpstream d) v \<longleftrightarrow> (\<exists>u. (u, v) \<in> C \<and> stat d u \<noteq> Some StatusCompleted))"

definition sched_inv :: "StepDependency list \<Rightarrow> DAGRunner \<Rightarrow> (string \<times> string) set \<Rightarrow> string set \<Rightarrow>
    string list \<Rightarrow> string list \<Rightarrow> bool" where
  "sched_inv deps d C RT R W \<longleftrightarrow>
     distinct W \<and> (\<forall>v. v \<in> set W \<longleftrightarrow> stat d v = Some StatusPending \<and> open_cnt C deps v = 0) \<and>
     distinct R \<and> (\<forall>v. v \<in> set R \<longleftrightarrow> stat d v = Some StatusRunning) \<and>
     (\<forall>v\<in>RT. stat d v = Some StatusFailed) \<and>
     (\<forall>v. v \<in> set R \<or> v \<in> RT \<longrightarrow> open_cnt C deps v = 0 \<and> \<not> blocked d v)"

definition key_inv :: "DAGRunner \<Rightarrow> string list \<Rightarrow> bool" where
  "key_inv d R \<longleftrightarrow>
     (\<forall>K. K \<noteq> '''' \<longrightarrow> getd False (dr_activeSessionKeys d) K = (\<exists>v\<in>set R. skey d v = K)) \<and>
     (\<forall>v\<in>set R. \<forall>w\<in>set R. skey d v \<noteq> '''' \<and> skey d v = skey d w \<longrightarrow> v = w)"

definition count_inv :: "DAGRunner \<Rightarrow> string set \<Rightarrow> bool" where
  "count_inv d RT \<longleftrightarrow> dr_completed d = int (card (Fin d RT)) \<and>
     (dr_failed d \<longleftrightarrow> (\<exists>v. stat d v = Some StatusFailed \<and> v \<notin> RT))"

definition skip_inv :: "StepDependency list \<Rightarrow> DAGRunner \<Rightarrow> (string \<times> string) set \<Rightarrow> bool" where
  "skip_inv deps d C \<longleftrightarrow>
     (\<forall>v. stat d v = Some StatusSkipped \<longrightarrow> open_cnt C deps v = 0 \<and> blocked d v)"

definition run_inv :: "StepDependency list \<Rightarrow> DAGRunner \<Rightarrow> (string \<times> string) set \<Rightarrow> string set \<Rightarrow>
    string list \<Rightarrow> string list \<Rightarrow> bool" where
  "run_inv deps d C RT R W \<longleftrightarrow> static_inv deps d \<and> edge_inv deps d C RT \<and> sched_inv deps d C RT R W \<and>
     key_inv d R \<and> count_inv d RT \<and> skip_inv deps d C"

text \<open>Deferred steps are not blocked: the skip branch of \<open>processDeferredSteps\<close> is never taken.\<close>

definition defer_ok :: "DAGRunner \<Rightarrow> string list \<Rightarrow> bool" where
  "defer_ok d W \<longleftrightarrow> (\<forall>v\<in>set W. \<not> blocked d v)"

lemmas inv_defs = static_inv_def edge_inv_def sched_inv_def key_inv_def count_inv_def skip_inv_def

section \<open>Elementary facts\<close>

lemma stat_Some: "stat d v = Some s \<longleftrightarrow> (\<exists>rs. fmlookup (dr_steps d) v = Some rs \<and> rs_Status rs = s)"
  by (auto simp: stat_def)

lemma open_cnt_mono: "C \<subseteq> C' \<Longrightarrow> open_cnt C deps v = 0 \<Longrightarrow> open_cnt C' deps v = 0"
  by (auto simp: open_cnt_def filter_empty_conv)

lemma open_cnt_0: "open_cnt C deps v = 0 \<longleftrightarrow> (\<forall>u. (u, v) \<in> edges deps \<longrightarrow> (u, v) \<in> C)"
  unfolding open_cnt_def edges_def length_0_conv filter_empty_conv by blast

lemma open_cnt_insert_other: "v \<noteq> w \<Longrightarrow> open_cnt (insert (u, v) C) deps w = open_cnt C deps w"
  unfolding open_cnt_def by (rule arg_cong [where f = length], rule filter_cong) auto

lemma open_cnt_insert:
  assumes "distinct deps" and "(u, v) \<in> edges deps" and "(u, v) \<notin> C"
  shows "open_cnt C deps v = Suc (open_cnt (insert (u, v) C) deps v)"
proof -
  obtain e where e: "e \<in> set deps" "dep_DependsOn e = u" "dep_StepID e = v"
    using assms(2) by (auto simp: edges_def)
  have uniq: "e' = e" if "dep_DependsOn e' = u" "dep_StepID e' = v" for e'
    using that e by (cases e; cases e') simp
  let ?A = "{e \<in> set deps. dep_StepID e = v \<and> (dep_DependsOn e, v) \<notin> C}"
  let ?B = "{e \<in> set deps. dep_StepID e = v \<and> (dep_DependsOn e, v) \<notin> insert (u, v) C}"
  have "x \<in> ?A \<longleftrightarrow> x \<in> insert e ?B" for x
    using e uniq [of x] assms(3) by blast
  then have "?A = insert e ?B" by blast
  moreover have "e \<notin> ?B" using e by simp
  moreover have "open_cnt C deps v = card ?A" "open_cnt (insert (u, v) C) deps v = card ?B"
    using assms(1) by (simp_all add: open_cnt_def distinct_card [symmetric])
  ultimately show ?thesis by simp
qed

lemma finite_Fin [simp]: "finite (Fin d RT)"
proof (rule finite_subset)
  show "Fin d RT \<subseteq> fmdom' (dr_steps d)"
    by (auto simp: Fin_def stat_Some intro: fmlookup_in_dom)
qed simp

text \<open>A record that differs only in fields the views do not read has the same views.\<close>

lemma views_cong:
  assumes "dr_steps d' = dr_steps d"
  shows "stat d' = stat d" "skey d' = skey d" "run_all d' = run_all d" "Fin d' = Fin d"
  using assms by (simp_all add: stat_def skey_def run_all_def Fin_def fun_eq_iff)

lemma views_upd_step:
  assumes "fmlookup (dr_steps d) v = Some rs"
    and "rs_Status (f rs) = s" "rs_SessionKeySnapshot (f rs) = rs_SessionKeySnapshot rs"
    "rs_RunIfSnapshot (f rs) = rs_RunIfSnapshot rs"
  shows "stat (upd_step v f d) = (stat d)(v \<mapsto> s)"
    "skey (upd_step v f d) = skey d" "run_all (upd_step v f d) = run_all d"
  using assms by (auto simp: stat_def skey_def run_all_def upd_step_def fun_eq_iff)

lemma lookup_upd_step:
  "fmlookup (dr_steps (upd_step v f d)) w
     = (if w = v then map_option f (fmlookup (dr_steps d) v) else fmlookup (dr_steps d) w)"
  by (auto simp: upd_step_def split: option.splits)

section \<open>Changing the status of one step\<close>

definition step_change :: "DAGRunner \<Rightarrow> DAGRunner \<Rightarrow> string \<Rightarrow> string \<Rightarrow> bool" where
  "step_change d d' v s \<longleftrightarrow> stat d' = (stat d)(v \<mapsto> s) \<and> skey d' = skey d \<and> run_all d' = run_all d \<and>
     dr_dependents d' = dr_dependents d \<and> dr_inDegree d' = dr_inDegree d \<and>
     dr_hasFailedUpstream d' = dr_hasFailedUpstream d \<and>
     (\<forall>w rs. fmlookup (dr_steps d') w = Some rs \<longrightarrow>
        (\<exists>rs0. fmlookup (dr_steps d) w = Some rs0 \<and> rs_StepID rs = rs_StepID rs0))"

lemma change_blocked: "step_change d d' v s \<Longrightarrow> blocked d' = blocked d"
  by (simp add: step_change_def blocked_def fun_eq_iff)

lemma change_static:
  assumes "step_change d d' v s" and "static_inv deps d"
    and "s \<in> {StatusPending, StatusRunning, StatusCompleted, StatusFailed, StatusSkipped}"
  shows "static_inv deps d'"
proof -
  have "rs_StepID rs = w" if "fmlookup (dr_steps d') w = Some rs" for w rs
    using assms(1,2) that unfolding step_change_def static_inv_def by metis
  then show ?thesis
    using assms by (auto simp: step_change_def static_inv_def split: if_splits)
qed

lemma change_edge:
  assumes "step_change d d' v s" and "edge_inv deps d C RT" and "v \<notin> Fin d RT"
    and "Fin d RT \<subseteq> Fin d' RT'" and "stat d v \<noteq> None"
  shows "edge_inv deps d' C RT'"
proof -
  have neq: "u \<noteq> v" if "(u, w) \<in> C" for u w
    using assms(2,3) that by (auto simp: edge_inv_def)
  have "(\<exists>u. (u, w) \<in> C \<and> stat d' u \<noteq> Some StatusCompleted)
      \<longleftrightarrow> (\<exists>u. (u, w) \<in> C \<and> stat d u \<noteq> Some StatusCompleted)" for w
    using neq assms(1) by (auto simp: step_change_def)
  moreover have "stat d' w \<noteq> None \<longleftrightarrow> stat d w \<noteq> None" for w
    using assms(1,5) by (simp add: step_change_def)
  moreover have "u \<in> Fin d' RT'" if "(u, w) \<in> C" for u w
    using that assms(2,4) by (auto simp: edge_inv_def)
  ultimately show ?thesis
    using assms(1,2) by (simp add: edge_inv_def step_change_def)
qed

lemma change_skip:
  assumes "step_change d d' v s" and "skip_inv deps d C"
    and "s = StatusSkipped \<Longrightarrow> open_cnt C deps v = 0 \<and> blocked d v"
  shows "skip_inv deps d' C"
  using assms change_blocked [OF assms(1)] by (auto simp: skip_inv_def step_change_def)

lemma change_Fin_in:
  assumes "step_change d d' v s" and "s = StatusCompleted \<or> s = StatusSkipped \<or> s = StatusFailed" and "v \<notin> RT"
  shows "Fin d' RT = insert v (Fin d RT)"
  using assms by (auto simp: Fin_def step_change_def)

lemma change_Fin_out:
  assumes "step_change d d' v s" and "v \<notin> Fin d RT"
    and "s = StatusPending \<or> s = StatusRunning \<or> s = StatusFailed \<and> v \<in> RT'" and "RT' - {v} = RT - {v}"
  shows "Fin d' RT' = Fin d RT"
proof -
  have "w \<in> RT' \<longleftrightarrow> w \<in> RT" if "w \<noteq> v" for w using assms(4) that by blast
  then show ?thesis
    using assms(1-3) by (auto simp: Fin_def step_change_def)
qed

text \<open>The set of finally failed steps is unchanged unless the step itself fails.\<close>

lemma change_failed:
  assumes "step_change d d' v s" and "s \<noteq> StatusFailed" and "stat d v \<noteq> Some StatusFailed \<or> v \<in> RT"
    and "RT' - {v} = RT - {v}"
  shows "(\<exists>w. stat d' w = Some StatusFailed \<and> w \<notin> RT') \<longleftrightarrow> (\<exists>w. stat d w = Some StatusFailed \<and> w \<notin> RT)"
proof -
  have "stat d' w = Some StatusFailed \<and> w \<notin> RT' \<longleftrightarrow> stat d w = Some StatusFailed \<and> w \<notin> RT" for w
    using assms by (cases "w = v") (auto simp: step_change_def)
  then show ?thesis by simp
qed

lemma change_set_status:
  assumes "stat d v \<noteq> None" and "dr_steps d' = dr_steps (set_status v s d0)" and "dr_steps d0 = dr_steps d"
    and "dr_dependents d' = dr_dependents d" "dr_inDegree d' = dr_inDegree d"
    "dr_hasFailedUpstream d' = dr_hasFailedUpstream d"
  shows "step_change d d' v s"
proof -
  obtain rs where rs: "fmlookup (dr_steps d) v = Some rs" using assms(1) by (auto simp: stat_def)
  have steps: "dr_steps d' = fmupd v (rs\<lparr>rs_Status := s\<rparr>) (dr_steps d)"
    using assms(2,3) rs by (simp add: set_status_def upd_step_def)
  show ?thesis
    using assms(4-) rs
    by (auto simp: step_change_def stat_def skey_def run_all_def steps fun_eq_iff)
qed

text \<open>A waiting step starts.\<close>

lemma canLaunch_key: "canLaunch d rs \<longleftrightarrow> rs_SessionKeySnapshot rs = '''' \<or>
    \<not> getd False (dr_activeSessionKeys d) (rs_SessionKeySnapshot rs)"
  by (simp add: canLaunch_def)

lemma claim_key_inv:
  assumes "key_inv d R" and "\<not> getd False (dr_activeSessionKeys d) (skey d v) \<or> skey d v = ''''"
    and "skey d' = skey d"
    and "dr_activeSessionKeys d' = (if skey d v = '''' then dr_activeSessionKeys d
           else fmupd (skey d v) True (dr_activeSessionKeys d))"
  shows "key_inv d' (R @ [v])"
  using assms by (auto simp: key_inv_def)

lemma run_inv_start:
  assumes inv: "run_inv deps d C RT R W" and v: "stat d v \<noteq> None" "v \<in> set W \<or> v \<in> RT"
    and ch: "step_change d d' v StatusRunning" and ready: "\<not> blocked d v"
    and keys: "key_inv d' (R @ [v])"
    and cnt: "dr_completed d' = dr_completed d" "dr_failed d' = dr_failed d"
  shows "run_inv deps d' C (RT - {v}) (R @ [v]) (remove1 v W)"
proof -
  have s: "stat d' = (stat d)(v \<mapsto> StatusRunning)" using ch by (simp add: step_change_def)
  have old: "stat d v = Some StatusPending \<or> stat d v = Some StatusFailed \<and> v \<in> RT" "open_cnt C deps v = 0"
    using inv v(2) by (auto simp: run_inv_def sched_inv_def)
  have nfin: "v \<notin> Fin d RT" using old by (auto simp: Fin_def)
  have fin: "Fin d' (RT - {v}) = Fin d RT"
    by (rule change_Fin_out [OF ch nfin]) auto
  have "static_inv deps d'" using change_static [OF ch] inv by (simp add: run_inv_def)
  moreover have "edge_inv deps d' C (RT - {v})"
    using change_edge [OF ch _ nfin] inv fin v(1) by (simp add: run_inv_def)
  moreover have "skip_inv deps d' C"
    using change_skip [OF ch] inv by (simp add: run_inv_def)
  moreover have "count_inv d' (RT - {v})"
  proof -
    have "(\<exists>w. stat d' w = Some StatusFailed \<and> w \<notin> RT - {v}) \<longleftrightarrow> (\<exists>w. stat d w = Some StatusFailed \<and> w \<notin> RT)"
      by (rule change_failed [OF ch]) (use old(1) in auto)
    then show ?thesis using inv cnt fin by (simp add: run_inv_def count_inv_def)
  qed
  moreover have "sched_inv deps d' C (RT - {v}) (R @ [v]) (remove1 v W)"
    using inv old ready change_blocked [OF ch]
    by (auto simp: run_inv_def sched_inv_def s)
  ultimately show ?thesis using keys by (simp add: run_inv_def)
qed

lemma mark_running_change:
  assumes "stat d v \<noteq> None"
  shows "step_change d (mark_running v rs d) v StatusRunning"
proof (rule change_set_status [OF assms])
  show "dr_steps (mark_running v rs d) = dr_steps (set_status v StatusRunning (claimSessionKey rs d))"
    by (simp add: mark_running_def)
qed simp_all

lemma mark_running_keys:
  "dr_activeSessionKeys (mark_running v rs d) = (if rs_SessionKeySnapshot rs = '''' then dr_activeSessionKeys d
     else fmupd (rs_SessionKeySnapshot rs) True (dr_activeSessionKeys d))"
  by (simp add: mark_running_def claimSessionKey_def)

lemma run_inv_mark_running:
  assumes inv: "run_inv deps d C RT R W" and v: "stat d v \<noteq> None" "v \<in> set W \<or> v \<in> RT"
    and key: "rs_SessionKeySnapshot rs = skey d v" and can: "canLaunch d rs" and ready: "\<not> blocked d v"
  shows "run_inv deps (mark_running v rs d) C (RT - {v}) (R @ [v]) (remove1 v W)"
proof -
  have ch: "step_change d (mark_running v rs d) v StatusRunning" using v(1) by (rule mark_running_change)
  have "key_inv (mark_running v rs d) (R @ [v])"
  proof (rule claim_key_inv)
    show "key_inv d R" using inv by (simp add: run_inv_def)
    show "\<not> getd False (dr_activeSessionKeys d) (skey d v) \<or> skey d v = ''''"
      using can by (auto simp: canLaunch_key key)
    show "skey (mark_running v rs d) = skey d" using ch by (simp add: step_change_def)
    show "dr_activeSessionKeys (mark_running v rs d) = (if skey d v = '''' then dr_activeSessionKeys d
           else fmupd (skey d v) True (dr_activeSessionKeys d))"
      by (simp add: mark_running_keys key)
  qed
  then show ?thesis using run_inv_start [OF inv v ch ready] by simp
qed

text \<open>A waiting step is skipped because one of its dependencies failed.\<close>

lemma run_inv_skip:
  assumes inv: "run_inv deps d C RT R W" and v: "v \<in> set W" "blocked d v"
    and d': "d' = (set_status v StatusSkipped d)\<lparr>dr_completed := dr_completed d + 1\<rparr>"
  shows "run_inv deps d' C RT R (remove1 v W)" and "Fin d' RT = insert v (Fin d RT)"
proof -
  have old: "stat d v = Some StatusPending" "open_cnt C deps v = 0"
    using inv v(1) by (auto simp: run_inv_def sched_inv_def)
  have ch: "step_change d d' v StatusSkipped"
    using old(1) by (intro change_set_status [where d0 = d]) (simp_all add: d')
  have s: "stat d' = (stat d)(v \<mapsto> StatusSkipped)" using ch by (simp add: step_change_def)
  have nrt: "v \<notin> RT" using inv old by (auto simp: run_inv_def sched_inv_def)
  have nfin: "v \<notin> Fin d RT" using old by (auto simp: Fin_def)
  have cnt: "dr_completed d' = dr_completed d + 1" "dr_failed d' = dr_failed d" by (simp_all add: d')
  show fin: "Fin d' RT = insert v (Fin d RT)"
    by (rule change_Fin_in [OF ch]) (simp_all add: nrt)
  have "static_inv deps d'" using change_static [OF ch] inv by (simp add: run_inv_def)
  moreover have "edge_inv deps d' C RT"
    using change_edge [OF ch _ nfin] inv fin old(1) by (auto simp: run_inv_def)
  moreover have "skip_inv deps d' C"
    using change_skip [OF ch] inv old v by (simp add: run_inv_def)
  moreover have "count_inv d' RT"
    using inv fin nfin cnt change_failed [OF ch, of RT RT] old(1)
    by (simp add: run_inv_def count_inv_def)
  moreover have "sched_inv deps d' C RT R (remove1 v W)"
    using inv old change_blocked [OF ch] by (auto simp: run_inv_def sched_inv_def s)
  moreover have "key_inv d' R"
  proof -
    have "skey d' = skey d" "dr_activeSessionKeys d' = dr_activeSessionKeys d"
      using ch by (simp_all add: step_change_def d')
    then have "key_inv d' R = key_inv d R" by (simp add: key_inv_def)
    then show ?thesis using inv by (simp add: run_inv_def)
  qed
  ultimately show "run_inv deps d' C RT R (remove1 v W)" by (simp add: run_inv_def)
qed

text \<open>A running step leaves the running state: its session key is released.\<close>

lemma release_key_inv:
  assumes "key_inv d R" and "v \<in> set R" and "distinct R" and "skey d' = skey d"
    and "dr_activeSessionKeys d' = (if skey d v = '''' then dr_activeSessionKeys d
           else fmdrop (skey d v) (dr_activeSessionKeys d))"
  shows "key_inv d' (remove1 v R)"
proof -
  have uniq: "w = v" if "w \<in> set R" "skey d w = skey d v" "skey d v \<noteq> ''''" for w
    using assms(1,2) that unfolding key_inv_def by metis
  have act: "getd False (dr_activeSessionKeys d) K = (\<exists>v\<in>set R. skey d v = K)" if "K \<noteq> ''''" for K
    using assms(1) that by (simp add: key_inv_def)
  have "getd False (dr_activeSessionKeys d') K = (\<exists>w\<in>set R - {v}. skey d w = K)" if "K \<noteq> ''''" for K
  proof (cases "K = skey d v")
    case True
    with that assms(5) uniq show ?thesis by auto
  next
    case False
    with that assms(5) act [OF that] show ?thesis by auto
  qed
  then show ?thesis
    using assms(1,3,4) unfolding key_inv_def by (simp add: set_remove1_eq) blast
qed

lemma run_inv_finish:
  assumes inv: "run_inv deps d C RT R W" and v: "v \<in> set R"
    and ch: "step_change d d' v s" and s: "s = StatusCompleted \<or> s = StatusFailed"
    and keys: "dr_activeSessionKeys d' = (if skey d v = '''' then dr_activeSessionKeys d
           else fmdrop (skey d v) (dr_activeSessionKeys d))"
    and cnt: "dr_completed d' = dr_completed d + 1" "dr_failed d' = (dr_failed d \<or> s = StatusFailed)"
  shows "run_inv deps d' C RT (remove1 v R) W" and "Fin d' RT = insert v (Fin d RT)" and "v \<notin> Fin d RT"
proof -
  have old: "stat d v = Some StatusRunning" "open_cnt C deps v = 0" "distinct R"
    using inv v by (auto simp: run_inv_def sched_inv_def)
  have s': "stat d' = (stat d)(v \<mapsto> s)" using ch by (simp add: step_change_def)
  have nrt: "v \<notin> RT" using inv old by (auto simp: run_inv_def sched_inv_def)
  show nfin: "v \<notin> Fin d RT" using old by (auto simp: Fin_def)
  show fin: "Fin d' RT = insert v (Fin d RT)"
    using s by (intro change_Fin_in [OF ch]) (auto simp: nrt)
  have "static_inv deps d'" using change_static [OF ch] inv s by (auto simp: run_inv_def)
  moreover have "edge_inv deps d' C RT"
    using change_edge [OF ch _ nfin] inv fin old(1) by (auto simp: run_inv_def)
  moreover have "skip_inv deps d' C"
    using change_skip [OF ch] inv s by (auto simp: run_inv_def)
  moreover have "count_inv d' RT"
  proof -
    have "(\<exists>w. stat d' w = Some StatusFailed \<and> w \<notin> RT) \<longleftrightarrow>
        (\<exists>w. stat d w = Some StatusFailed \<and> w \<notin> RT) \<or> s = StatusFailed"
    proof (cases "s = StatusFailed")
      case True
      then have "stat d' v = Some StatusFailed" by (simp add: s')
      with nrt True show ?thesis by blast
    next
      case False
      then show ?thesis using change_failed [OF ch, of RT RT] old(1) by simp
    qed
    then show ?thesis using inv cnt fin nfin by (simp add: run_inv_def count_inv_def)
  qed
  moreover have "sched_inv deps d' C RT (remove1 v R) W"
    using inv old s change_blocked [OF ch] by (auto simp: run_inv_def sched_inv_def s')
  moreover have "key_inv d' (remove1 v R)"
    using inv v old(3) ch keys by (intro release_key_inv [of d]) (auto simp: run_inv_def step_change_def)
  ultimately show "run_inv deps d' C RT (remove1 v R) W" by (simp add: run_inv_def)
qed

text \<open>A running step fails and its retry is scheduled.\<close>

lemma run_inv_retry_scheduled:
  assumes inv: "run_inv deps d C RT R W" and v: "v \<in> set R"
    and ch: "step_change d d' v StatusFailed"
    and keys: "dr_activeSessionKeys d' = (if skey d v = '''' then dr_activeSessionKeys d
           else fmdrop (skey d v) (dr_activeSessionKeys d))"
    and cnt: "dr_completed d' = dr_completed d" "dr_failed d' = dr_failed d"
  shows "run_inv deps d' C (insert v RT) (remove1 v R) W" and "v \<notin> RT"
proof -
  have old: "stat d v = Some StatusRunning" "open_cnt C deps v = 0" "distinct R" "\<not> blocked d v"
    using inv v by (auto simp: run_inv_def sched_inv_def)
  have s': "stat d' = (stat d)(v \<mapsto> StatusFailed)" using ch by (simp add: step_change_def)
  show "v \<notin> RT" using inv old by (auto simp: run_inv_def sched_inv_def)
  have nfin: "v \<notin> Fin d RT" using old by (auto simp: Fin_def)
  have fin: "Fin d' (insert v RT) = Fin d RT"
    by (rule change_Fin_out [OF ch nfin]) auto
  have "static_inv deps d'" using change_static [OF ch] inv by (auto simp: run_inv_def)
  moreover have "edge_inv deps d' C (insert v RT)"
    using change_edge [OF ch _ nfin] inv fin old(1) by (auto simp: run_inv_def)
  moreover have "skip_inv deps d' C"
    using change_skip [OF ch] inv by (auto simp: run_inv_def)
  moreover have "count_inv d' (insert v RT)"
  proof -
    have "stat d' w = Some StatusFailed \<and> w \<notin> insert v RT \<longleftrightarrow> stat d w = Some StatusFailed \<and> w \<notin> RT" for w
      using old(1) by (auto simp: s')
    then show ?thesis using inv cnt fin by (simp add: run_inv_def count_inv_def)
  qed
  moreover have "sched_inv deps d' C (insert v RT) (remove1 v R) W"
    using inv old change_blocked [OF ch] by (auto simp: run_inv_def sched_inv_def s')
  moreover have "key_inv d' (remove1 v R)"
    using inv v old(3) ch keys by (intro release_key_inv [of d]) (auto simp: run_inv_def step_change_def)
  ultimately show "run_inv deps d' C (insert v RT) (remove1 v R) W" by (simp add: run_inv_def)
qed

text \<open>A retry finds its session key taken: the step waits again.\<close>

lemma run_inv_retry_deferred:
  assumes inv: "run_inv deps d C RT R W" and v: "v \<in> RT"
    and ch: "step_change d d' v StatusPending"
    and keys: "dr_activeSessionKeys d' = dr_activeSessionKeys d"
    and cnt: "dr_completed d' = dr_completed d" "dr_failed d' = dr_failed d"
  shows "run_inv deps d' C (RT - {v}) R (W @ [v])" and "v \<notin> set W" and "\<not> blocked d v"
proof -
  have old: "stat d v = Some StatusFailed" "open_cnt C deps v = 0" "\<not> blocked d v"
    using inv v by (auto simp: run_inv_def sched_inv_def)
  then show "\<not> blocked d v" by simp
  have s': "stat d' = (stat d)(v \<mapsto> StatusPending)" using ch by (simp add: step_change_def)
  show "v \<notin> set W" using inv old by (auto simp: run_inv_def sched_inv_def)
  have nfin: "v \<notin> Fin d RT" using old v by (auto simp: Fin_def)
  have fin: "Fin d' (RT - {v}) = Fin d RT"
    by (rule change_Fin_out [OF ch nfin]) auto
  have "static_inv deps d'" using change_static [OF ch] inv by (auto simp: run_inv_def)
  moreover have "edge_inv deps d' C (RT - {v})"
    using change_edge [OF ch _ nfin] inv fin old(1) by (auto simp: run_inv_def)
  moreover have "skip_inv deps d' C"
    using change_skip [OF ch] inv by (auto simp: run_inv_def)
  moreover have "count_inv d' (RT - {v})"
    using inv cnt fin change_failed [OF ch, of RT "RT - {v}"] v
    by (simp add: run_inv_def count_inv_def)
  moreover have "sched_inv deps d' C (RT - {v}) R (W @ [v])"
    using inv old change_blocked [OF ch] by (auto simp: run_inv_def sched_inv_def s')
  moreover have "key_inv d' R"
  proof -
    have "key_inv d' R = key_inv d R" using ch keys by (simp add: key_inv_def step_change_def)
    then show ?thesis using inv by (simp add: run_inv_def)
  qed
  ultimately show "run_inv deps d' C (RT - {v}) R (W @ [v])" by (simp add: run_inv_def)
qed

section \<open>Accounting for one edge\<close>

definition edge_upd :: "bool \<Rightarrow> string \<Rightarrow> DAGRunner \<Rightarrow> DAGRunner" where
  "edge_upd fl v d = d\<lparr>dr_hasFailedUpstream := (if fl then fmupd v True (dr_hasFailedUpstream d)
       else dr_hasFailedUpstream d),
     dr_inDegree := fmupd v (getd 0 (dr_inDegree d) v - 1) (dr_inDegree d)\<rparr>"

lemma edge_upd_views [simp]:
  "stat (edge_upd fl v d) = stat d" "skey (edge_upd fl v d) = skey d"
  "run_all (edge_upd fl v d) = run_all d" "Fin (edge_upd fl v d) = Fin d"
  "dr_steps (edge_upd fl v d) = dr_steps d" "dr_deferredSteps (edge_upd fl v d) = dr_deferredSteps d"
  by (auto simp: edge_upd_def stat_def skey_def run_all_def Fin_def fun_eq_iff)

lemma run_inv_edge:
  assumes inv: "run_inv deps d C RT R W"
    and e: "(u, v) \<in> edges deps" "(u, v) \<notin> C" "u \<in> Fin d RT" "fl \<longleftrightarrow> stat d u \<noteq> Some StatusCompleted"
  defines "d' \<equiv> edge_upd fl v d" and "C' \<equiv> insert (u, v) C"
  shows "run_inv deps d' C' RT R (if stat d v = Some StatusPending \<and> getd 0 (dr_inDegree d') v = 0
           then W @ [v] else W)"
    and "v \<notin> set W" and "\<And>w. w \<noteq> v \<Longrightarrow> blocked d' w = blocked d w"
    and "getd 0 (dr_inDegree d') v = int (open_cnt C' deps v)"
proof -
  have dist: "distinct deps" and dom: "stat d v \<noteq> None"
    using inv e(1) by (auto simp: run_inv_def static_inv_def)
  note dec = open_cnt_insert [OF dist e(1,2), folded C'_def]
  have other: "open_cnt C' deps w = open_cnt C deps w" if "w \<noteq> v" for w
    using that open_cnt_insert_other [of v w u C deps] by (simp add: C'_def)
  show nW: "v \<notin> set W" using inv dec by (auto simp: run_inv_def sched_inv_def)
  have nR: "v \<notin> set R" "v \<notin> RT" "stat d v \<noteq> Some StatusSkipped"
    using inv dec by (auto simp: run_inv_def sched_inv_def skip_inv_def)
  show blk: "blocked d' w = blocked d w" if "w \<noteq> v" for w
    using that by (simp add: blocked_def d'_def) (simp add: edge_upd_def)
  show deg: "getd 0 (dr_inDegree d') v = int (open_cnt C' deps v)"
    using inv dom dec by (simp add: run_inv_def edge_inv_def d'_def edge_upd_def)
  have "static_inv deps d'"
    using inv by (simp add: run_inv_def static_inv_def d'_def) (simp add: edge_upd_def)
  moreover have "edge_inv deps d' C' RT"
  proof -
    have "getd False (dr_hasFailedUpstream d') w \<longleftrightarrow> (\<exists>a. (a, w) \<in> C' \<and> stat d a \<noteq> Some StatusCompleted)" for w
      using inv e(4) by (auto simp: run_inv_def edge_inv_def d'_def edge_upd_def C'_def)
    moreover have "getd 0 (dr_inDegree d') w = int (open_cnt C' deps w)" if "stat d w \<noteq> None" for w
      using inv that deg other by (cases "w = v") (auto simp: run_inv_def edge_inv_def d'_def edge_upd_def)
    moreover have "\<forall>a w. (a, w) \<in> C' \<longrightarrow> (a, w) \<in> edges deps \<and> a \<in> Fin d RT"
      using inv e by (auto simp: run_inv_def edge_inv_def C'_def)
    ultimately show ?thesis by (simp add: edge_inv_def d'_def)
  qed
  moreover have "skip_inv deps d' C'"
    using inv nR(3) other blk unfolding run_inv_def skip_inv_def d'_def edge_upd_views by metis
  moreover have "count_inv d' RT"
    using inv by (simp add: run_inv_def count_inv_def d'_def) (simp add: edge_upd_def)
  moreover have "key_inv d' R"
  proof -
    have "key_inv d' R = key_inv d R" by (simp add: key_inv_def d'_def) (simp add: edge_upd_def)
    then show ?thesis using inv by (simp add: run_inv_def)
  qed
  moreover have "sched_inv deps d' C' RT R (if stat d v = Some StatusPending \<and> getd 0 (dr_inDegree d') v = 0
           then W @ [v] else W)"
  proof -
    have ready: "open_cnt C' deps w = 0 \<and> \<not> blocked d' w" if "w \<in> set R \<or> w \<in> RT" for w
    proof -
      have "w \<noteq> v" using that nR by auto
      then show ?thesis using inv that other blk unfolding run_inv_def sched_inv_def by metis
    qed
    have mem: "w \<in> set W \<longleftrightarrow> stat d w = Some StatusPending \<and> open_cnt C' deps w = 0" if "w \<noteq> v" for w
      using inv other [OF that] by (simp add: run_inv_def sched_inv_def)
    let ?W = "if stat d v = Some StatusPending \<and> getd 0 (dr_inDegree d') v = 0 then W @ [v] else W"
    have "w \<in> set ?W \<longleftrightarrow> stat d w = Some StatusPending \<and> open_cnt C' deps w = 0" for w
      using mem [of w] nW deg by (cases "w = v") auto
    moreover have "distinct ?W" using inv nW by (simp add: run_inv_def sched_inv_def)
    moreover have "distinct R" "\<forall>w. w \<in> set R \<longleftrightarrow> stat d w = Some StatusRunning"
      "\<forall>w\<in>RT. stat d w = Some StatusFailed"
      using inv by (simp_all add: run_inv_def sched_inv_def)
    ultimately show ?thesis
      using ready unfolding sched_inv_def d'_def edge_upd_views by blast
  qed
  ultimately show "run_inv deps d' C' RT R (if stat d v = Some StatusPending \<and> getd 0 (dr_inDegree d') v = 0
           then W @ [v] else W)"
    by (simp add: run_inv_def)
qed

end
