(* ===== verification/Dag_Runner_Loops.thy ===== *)
theory Dag_Runner_Loops
  imports Dag_Runner_Inv
begin

text \<open>
  The loops of the runner keep the run invariant: the work queue of
  \<open>processReadyDependents\<close> accounts for every edge that leaves a finished step,
  \<open>processDeferredSteps\<close> starts the waiting steps whose session key is free, and
  \<open>Start\<close> establishes the invariant.
\<close>

text \<open>The number of retries a step has left.\<close>

definition tries_left :: "DAGRunner \<Rightarrow> string \<Rightarrow> nat" where
  "tries_left d v = (case fmlookup (dr_steps d) v of None \<Rightarrow> 0
     | Some rs \<Rightarrow> if rs_MaxRetriesSnapshot rs > 0 then nat (rs_MaxRetriesSnapshot rs + 1 - rs_Attempt rs) else 0)"

lemma static_views_set_status [simp]:
  "skey (set_status v s d) = skey d" "tries_left (set_status v s d) = tries_left d"
  "run_all (set_status v s d) = run_all d"
  by (auto simp: skey_def tries_left_def run_all_def set_status_def lookup_upd_step fun_eq_iff split: option.splits)

lemma static_views_claim [simp]:
  "skey (claimSessionKey rs d) = skey d" "tries_left (claimSessionKey rs d) = tries_left d"
  by (simp_all add: skey_def tries_left_def fun_eq_iff)

lemma static_views_fields [simp]:
  "skey (d\<lparr>dr_completed := n\<rparr>) = skey d" "tries_left (d\<lparr>dr_completed := n\<rparr>) = tries_left d"
  "tries_left (d\<lparr>dr_deferredSteps := xs\<rparr>) = tries_left d" "tries_left (edge_upd fl v d) = tries_left d"
  "tries_left (d\<lparr>dr_ctx := c\<rparr>) = tries_left d"
  by (simp_all add: skey_def tries_left_def edge_upd_def fun_eq_iff)

definition frame :: "DAGRunner \<Rightarrow> DAGRunner \<Rightarrow> bool" where
  "frame d d' \<longleftrightarrow> dr_total d' = dr_total d \<and> dr_ctx d' = dr_ctx d \<and> dr_done d' = dr_done d \<and>
     dr_runID d' = dr_runID d \<and> dr_jobID d' = dr_jobID d \<and> dr_failed d' = dr_failed d \<and>
     dr_dependents d' = dr_dependents d \<and> fmdom' (dr_steps d') = fmdom' (dr_steps d) \<and>
     skey d' = skey d \<and> tries_left d' = tries_left d"

lemma frame_refl [simp]: "frame d d"
  by (simp add: frame_def)

lemma frame_trans: "frame d d1 \<Longrightarrow> frame d1 d2 \<Longrightarrow> frame d d2"
  by (simp add: frame_def)

lemma fmdom'_upd_step [simp]: "fmdom' (dr_steps (upd_step v f d)) = fmdom' (dr_steps d)"
  by (auto simp: upd_step_def fmlookup_in_dom split: option.splits)

lemma fmdom'_set_status [simp]: "fmdom' (dr_steps (set_status v s d)) = fmdom' (dr_steps d)"
  by (simp add: set_status_def)

lemma fmdom'_mark_running [simp]: "fmdom' (dr_steps (mark_running v rs d)) = fmdom' (dr_steps d)"
  by (simp add: mark_running_def)

lemma frame_mark_running [simp]: "frame d (mark_running v rs d)"
  by (simp add: frame_def) (simp add: mark_running_def)

lemma frame_skip [simp]: "frame d ((set_status v s d)\<lparr>dr_completed := n\<rparr>)"
  by (simp add: frame_def)

lemma frame_edge [simp]: "frame d (edge_upd fl v d)"
  by (simp add: frame_def) (simp add: edge_upd_def)

section \<open>Ready dependents\<close>

text \<open>The steps a loop finishes: all of them skipped, none finished before.\<close>

definition adv :: "string set \<Rightarrow> DAGRunner \<Rightarrow> DAGRunner \<Rightarrow> string list \<Rightarrow> bool" where
  "adv RT d d' A \<longleftrightarrow> distinct A \<and> (\<forall>a\<in>set A. a \<notin> Fin d RT \<and> stat d' a = Some StatusSkipped) \<and>
     Fin d' RT = Fin d RT \<union> set A \<and> (\<forall>w\<in>Fin d RT. stat d' w = stat d w) \<and> frame d d'"

lemma adv_trans:
  assumes "adv RT d d1 A" and "adv RT d1 d2 B"
  shows "adv RT d d2 (A @ B)"
proof -
  have "frame d d2" using assms by (auto simp: adv_def intro: frame_trans)
  moreover have "stat d2 a = Some StatusSkipped" if "a \<in> set A" for a
    using assms that by (simp add: adv_def)
  moreover have "set A \<inter> set B = {}"
    using assms by (auto simp: adv_def)
  ultimately show ?thesis using assms by (auto simp: adv_def)
qed

lemma adv_same: "stat d' = stat d \<Longrightarrow> frame d d' \<Longrightarrow> adv RT d d' []"
  by (simp add: adv_def Fin_def)

lemma visit_dep_eq:
  "visit_dep fl v d =
     (let d1 = edge_upd fl v d
      in if getd 0 (dr_inDegree d1) v = 0 \<and> stat d1 v = Some StatusPending
         then let rs = the (fmlookup (dr_steps d1) v)
              in if blocked d1 v
                 then ((set_status v StatusSkipped d1)\<lparr>dr_completed := dr_completed d1 + 1\<rparr>,
                       [(v, True)], [], [DBStatus (rs_RunStepID rs) StatusSkipped '''' 0])
                 else if canLaunch d1 rs
                 then (mark_running v rs d1, [], [running_copy rs], [DBStatus (rs_RunStepID rs) StatusRunning '''' 0])
                 else (d1\<lparr>dr_deferredSteps := dr_deferredSteps d1 @ [v]\<rparr>, [], [], [])
         else (d1, [], [], []))"
proof -
  have "edge_upd fl v d = (let d = (if fl then d\<lparr>dr_hasFailedUpstream := fmupd v True (dr_hasFailedUpstream d)\<rparr> else d)
     in d\<lparr>dr_inDegree := fmupd v (getd 0 (dr_inDegree d) v - 1) (dr_inDegree d)\<rparr>)"
    by (simp add: edge_upd_def Let_def)
  then show ?thesis
    unfolding visit_dep_def Let_def
    by (auto simp: stat_def blocked_def run_all_def split: option.splits)
qed

lemma blocked_cong:
  "dr_hasFailedUpstream d' = dr_hasFailedUpstream d \<Longrightarrow> run_all d' = run_all d \<Longrightarrow> blocked d' = blocked d"
  by (simp add: blocked_def fun_eq_iff)

lemma run_inv_deferred [simp]:
  "run_inv deps (d\<lparr>dr_deferredSteps := xs\<rparr>) C RT R W = run_inv deps d C RT R W"
  by (simp add: run_inv_def inv_defs stat_def skey_def run_all_def blocked_def Fin_def)

lemma views_deferred [simp]:
  "stat (d\<lparr>dr_deferredSteps := xs\<rparr>) = stat d" "blocked (d\<lparr>dr_deferredSteps := xs\<rparr>) = blocked d"
  "Fin (d\<lparr>dr_deferredSteps := xs\<rparr>) = Fin d" "skey (d\<lparr>dr_deferredSteps := xs\<rparr>) = skey d"
  by (simp_all add: stat_def skey_def blocked_def run_all_def Fin_def fun_eq_iff)

lemma frame_deferred [simp]: "frame d' (d\<lparr>dr_deferredSteps := xs\<rparr>) = frame d' d"
  "frame (d'\<lparr>dr_deferredSteps := xs\<rparr>) d = frame d' d"
  by (simp_all add: frame_def)

lemma run_inv_dom: "run_inv deps d C RT R W \<Longrightarrow> fmlookup (dr_steps d) v = Some rs \<Longrightarrow> rs_StepID rs = v"
  by (simp add: run_inv_def static_inv_def)

lemma visit_dep_inv:
  assumes inv: "run_inv deps d C RT R (dr_deferredSteps d)" and ok: "defer_ok d (dr_deferredSteps d)"
    and e: "(u, v) \<in> edges deps" "(u, v) \<notin> C" "u \<in> Fin d RT" "fl \<longleftrightarrow> stat d u \<noteq> Some StatusCompleted"
    and run: "visit_dep fl v d = (d', items, launch, effs)"
  shows "run_inv deps d' (insert (u, v) C) RT (R @ map rs_StepID launch) (dr_deferredSteps d')"
    and "defer_ok d' (dr_deferredSteps d')" and "adv RT d d' (map fst items)" and "list_all snd items"
proof -
  let ?d = "edge_upd fl v d" and ?C = "insert (u, v) C" and ?W = "dr_deferredSteps d"
  note ed = run_inv_edge [OF inv e]
  have okW: "defer_ok ?d ?W" using ok ed(2,3) unfolding defer_ok_def by metis
  have same: "adv RT d ?d []" by (rule adv_same) simp_all
  consider (idle) "\<not> (getd 0 (dr_inDegree ?d) v = 0 \<and> stat d v = Some StatusPending)"
    | (go) "getd 0 (dr_inDegree ?d) v = 0" "stat d v = Some StatusPending" by blast
  then have "run_inv deps d' ?C RT (R @ map rs_StepID launch) (dr_deferredSteps d') \<and>
      defer_ok d' (dr_deferredSteps d') \<and> adv RT d d' (map fst items) \<and> list_all snd items"
  proof cases
    case idle
    then have out: "d' = ?d" "items = []" "launch = []" using run by (auto simp: visit_dep_eq Let_def)
    have "\<not> (stat d v = Some StatusPending \<and> getd 0 (dr_inDegree ?d) v = 0)" using idle by blast
    with ed(1) have "run_inv deps ?d ?C RT R ?W" by (simp only: if_False)
    then show ?thesis using okW same by (simp add: out)
  next
    case go
    then obtain rs where rs: "fmlookup (dr_steps d) v = Some rs" by (auto simp: stat_Some)
    have inv1: "run_inv deps ?d ?C RT R (?W @ [v])" using ed(1) go by simp
    have rem: "remove1 v (?W @ [v]) = ?W" using ed(2) by (simp add: remove1_append)
    have nrt: "v \<notin> RT" using inv go(2) by (auto simp: run_inv_def sched_inv_def)
    have key: "rs_SessionKeySnapshot rs = skey ?d v" using rs by (simp add: skey_def)
    have id: "rs_StepID rs = v" using run_inv_dom [OF inv rs] .
    show ?thesis
    proof (cases "blocked ?d v")
      case True
      let ?s = "(set_status v StatusSkipped ?d)\<lparr>dr_completed := dr_completed ?d + 1\<rparr>"
      have out: "d' = ?s" "items = [(v, True)]" "launch = []"
        using run True go rs by (simp_all add: visit_dep_eq Let_def)
      note sk = run_inv_skip [OF inv1 _ True refl, unfolded rem]
      have ch: "step_change ?d ?s v StatusSkipped"
        using go(2) by (intro change_set_status [of ?d v ?s StatusSkipped ?d]) simp_all
      have st: "stat ?s = (stat d)(v \<mapsto> StatusSkipped)" using ch by (simp add: step_change_def)
      have "blocked ?s = blocked ?d" using ch by (rule change_blocked)
      moreover have "v \<notin> Fin d RT" using go(2) by (auto simp: Fin_def)
      ultimately show ?thesis
        using sk okW st frame_trans [OF frame_edge frame_skip] by (auto simp: out adv_def defer_ok_def)
    next
      case False
      show ?thesis
      proof (cases "canLaunch ?d rs")
        case True
        have out: "d' = mark_running v rs ?d" "items = []" "launch = [running_copy rs]"
          using run True False go rs by (simp_all add: visit_dep_eq Let_def)
        have ch: "step_change ?d d' v StatusRunning" using go unfolding out by (intro mark_running_change) simp
        have "run_inv deps d' ?C RT (R @ [v]) ?W"
          using run_inv_mark_running [OF inv1 _ _ key True False] go nrt rem by (simp add: out)
        moreover have "defer_ok d' ?W" using okW change_blocked [OF ch] by (simp add: defer_ok_def)
        moreover have "Fin d' RT = Fin d RT" "\<forall>w\<in>Fin d RT. stat d' w = stat d w"
          using ch go nrt by (auto simp: step_change_def Fin_def)
        moreover have "frame d d'" unfolding out by (rule frame_trans [OF frame_edge frame_mark_running])
        ultimately show ?thesis
          by (simp add: out id running_copy_def adv_def)
      next
        case nl: False
        have "d' = ?d\<lparr>dr_deferredSteps := dr_deferredSteps ?d @ [v]\<rparr>" "items = []" "launch = []"
          using run False nl go rs by (simp_all add: visit_dep_eq Let_def)
        then show ?thesis
          using inv1 okW False same by (auto simp: defer_ok_def adv_def)
      qed
    qed
  qed
  then show "run_inv deps d' ?C RT (R @ map rs_StepID launch) (dr_deferredSteps d')"
    and "defer_ok d' (dr_deferredSteps d')" and "adv RT d d' (map fst items)" and "list_all snd items" by blast+
qed

lemma visit_deps_inv:
  assumes "run_inv deps d C RT R (dr_deferredSteps d)" and "defer_ok d (dr_deferredSteps d)"
    and "distinct vs" and "\<forall>v\<in>set vs. (u, v) \<in> edges deps \<and> (u, v) \<notin> C"
    and "u \<in> Fin d RT" and "fl \<longleftrightarrow> stat d u \<noteq> Some StatusCompleted"
    and "visit_deps fl vs d = (d', items, launch, effs)"
  shows "run_inv deps d' (C \<union> Pair u ` set vs) RT (R @ map rs_StepID launch) (dr_deferredSteps d') \<and>
    defer_ok d' (dr_deferredSteps d') \<and> adv RT d d' (map fst items) \<and> list_all snd items"
  using assms
proof (induction vs arbitrary: d C R d' items launch effs)
  case Nil
  then show ?case by (simp add: adv_same)
next
  case (Cons v vs)
  obtain d1 i1 l1 e1 where v: "visit_dep fl v d = (d1, i1, l1, e1)" by (cases "visit_dep fl v d")
  obtain d2 i2 l2 e2 where vs: "visit_deps fl vs d1 = (d2, i2, l2, e2)" by (cases "visit_deps fl vs d1")
  have out: "d' = d2" "items = i1 @ i2" "launch = l1 @ l2"
    using Cons.prems(7) v vs by simp_all
  have "(u, v) \<in> edges deps" "(u, v) \<notin> C" using Cons.prems(4) by simp_all
  note one = visit_dep_inv [OF Cons.prems(1,2) this Cons.prems(5,6) v]
  have "u \<in> Fin d1 RT" and "stat d1 u = stat d u" using one(3) Cons.prems(5) by (auto simp: adv_def)
  then have two: "run_inv deps d2 (insert (u, v) C \<union> Pair u ` set vs) RT
        ((R @ map rs_StepID l1) @ map rs_StepID l2) (dr_deferredSteps d2) \<and>
      defer_ok d2 (dr_deferredSteps d2) \<and> adv RT d1 d2 (map fst i2) \<and> list_all snd i2"
    using Cons.prems(3,4,6) by (intro Cons.IH [OF one(1,2) _ _ _ _ vs]) auto
  moreover have "insert (u, v) C \<union> Pair u ` set vs = C \<union> Pair u ` set (v # vs)" by auto
  ultimately show ?case
    using adv_trans [OF one(3)] one(4) by (simp add: out)
qed

text \<open>Queue entries are finished steps whose outgoing edges are not accounted for yet.\<close>

definition queue_inv :: "StepDependency list \<Rightarrow> DAGRunner \<Rightarrow> (string \<times> string) set \<Rightarrow> string set \<Rightarrow>
    (string \<times> bool) list \<Rightarrow> bool" where
  "queue_inv deps d C RT q \<longleftrightarrow> distinct (map fst q) \<and>
     (\<forall>a f. (a, f) \<in> set q \<longrightarrow> a \<in> Fin d RT \<and> f = (stat d a \<noteq> Some StatusCompleted)) \<and>
     (\<forall>a b. (a, b) \<in> edges deps \<longrightarrow> ((a, b) \<in> C \<longleftrightarrow> a \<in> Fin d RT \<and> a \<notin> fst ` set q))"

lemma succs_distinct: "distinct deps \<Longrightarrow> distinct (succs deps u)"
proof (induction deps)
  case (Cons e es)
  have "dep_StepID e \<notin> set (succs es u)" if "dep_DependsOn e = u"
  proof
    assume "dep_StepID e \<in> set (succs es u)"
    then obtain e' where "e' \<in> set es" "dep_DependsOn e' = u" "dep_StepID e' = dep_StepID e"
      by (auto simp: succs_def)
    with that have "e' = e" by (cases e; cases e') simp
    with Cons.prems \<open>e' \<in> set es\<close> show False by simp
  qed
  with Cons show ?case by (auto simp: succs_def)
qed (simp add: succs_def)

lemma queue_inv_visit:
  assumes q: "queue_inv deps d C RT ((u, fl) # q)"
    and adv: "adv RT d d1 (map fst items)" and fl: "list_all snd items"
    and C': "C' = C \<union> Pair u ` set (succs deps u)"
  shows "queue_inv deps d1 C' RT (q @ items)"
proof -
  have fin: "Fin d1 RT = Fin d RT \<union> fst ` set items" using adv by (simp add: adv_def)
  have new: "fst ` set items \<inter> Fin d RT = {}" using adv by (auto simp: adv_def)
  have qfin: "fst ` set q \<subseteq> Fin d RT" "u \<in> Fin d RT" using q by (auto simp: queue_inv_def)
  have dist: "distinct (map fst (q @ items))"
    using q adv new qfin by (auto simp: queue_inv_def adv_def)
  have mem: "a \<in> Fin d1 RT \<and> f = (stat d1 a \<noteq> Some StatusCompleted)" if "(a, f) \<in> set (q @ items)" for a f
  proof (cases "(a, f) \<in> set q")
    case True
    then have "a \<in> Fin d RT" "f = (stat d a \<noteq> Some StatusCompleted)" using q by (auto simp: queue_inv_def)
    with adv show ?thesis by (simp add: adv_def)
  next
    case False
    with that have "(a, f) \<in> set items" by simp
    moreover have "f" using fl \<open>(a, f) \<in> set items\<close> by (auto simp: list_all_iff)
    moreover have "a \<in> fst ` set items" using \<open>(a, f) \<in> set items\<close> by force
    moreover from this have "stat d1 a = Some StatusSkipped" "a \<in> Fin d1 RT" using adv by (auto simp: adv_def)
    ultimately show ?thesis by simp
  qed
  have "(a, b) \<in> C' \<longleftrightarrow> a \<in> Fin d1 RT \<and> a \<notin> fst ` set (q @ items)" if "(a, b) \<in> edges deps" for a b
  proof -
    have "(a, b) \<in> C' \<longleftrightarrow> (a, b) \<in> C \<or> a = u" using that by (auto simp: C' succs_edges)
    also have "\<dots> \<longleftrightarrow> (a \<in> Fin d RT \<and> a \<noteq> u \<and> a \<notin> fst ` set q) \<or> a = u"
      using q that by (auto simp: queue_inv_def)
    also have "\<dots> \<longleftrightarrow> a \<in> Fin d RT \<and> a \<notin> fst ` set q"
      using q qfin by (auto simp: queue_inv_def)
    finally show ?thesis using fin new by auto
  qed
  with dist mem show ?thesis by (auto simp: queue_inv_def)
qed

lemma ready_loop_inv:
  assumes "run_inv deps d C RT R (dr_deferredSteps d)" and "defer_ok d (dr_deferredSteps d)"
    and "queue_inv deps d C RT q" and "ready_loop q d = (d', launch, effs)"
  shows "\<exists>C' A. run_inv deps d' C' RT (R @ map rs_StepID launch) (dr_deferredSteps d') \<and>
    defer_ok d' (dr_deferredSteps d') \<and> queue_inv deps d' C' RT [] \<and> adv RT d d' A"
  using assms
proof (induction q d arbitrary: C R d' launch effs rule: ready_loop.induct)
  case (1 d)
  then show ?case by (auto intro!: exI [of _ C] exI [of _ "[]"] adv_same)
next
  case (2 u fl q d)
  obtain d1 items l1 e1 where vs: "visit_deps fl (getd [] (dr_dependents d) u) d = (d1, items, l1, e1)"
    by (cases "visit_deps fl (getd [] (dr_dependents d) u) d")
  obtain l2 e2 where rl: "ready_loop (q @ items) d1 = (d', l2, e2)" and out: "launch = l1 @ l2"
    using "2.prems"(4) vs by (auto split: prod.splits)
  have succ: "getd [] (dr_dependents d) u = succs deps u" and dist: "distinct deps"
    using "2.prems"(1) by (simp_all add: run_inv_def static_inv_def)
  have u: "u \<in> Fin d RT" "fl = (stat d u \<noteq> Some StatusCompleted)"
    "\<forall>v\<in>set (succs deps u). (u, v) \<in> edges deps \<and> (u, v) \<notin> C"
    using "2.prems"(3) by (auto simp: queue_inv_def succs_edges)
  let ?C = "C \<union> Pair u ` set (succs deps u)"
  have one: "run_inv deps d1 ?C RT (R @ map rs_StepID l1) (dr_deferredSteps d1) \<and>
      defer_ok d1 (dr_deferredSteps d1) \<and> adv RT d d1 (map fst items) \<and> list_all snd items"
    using visit_deps_inv [OF "2.prems"(1,2) succs_distinct [OF dist] u(3,1,2)] vs succ by simp
  then have "queue_inv deps d1 ?C RT (q @ items)"
    using queue_inv_visit [OF "2.prems"(3)] by simp
  from "2.IH" [OF vs [symmetric] refl refl refl _ _ this rl, of "R @ map rs_StepID l1"] one
  obtain C' A where "run_inv deps d' C' RT ((R @ map rs_StepID l1) @ map rs_StepID l2) (dr_deferredSteps d')"
    "defer_ok d' (dr_deferredSteps d')" "queue_inv deps d' C' RT []" "adv RT d1 d' A"
    by auto
  moreover have "adv RT d d' (map fst items @ A)" using one \<open>adv RT d1 d' A\<close> by (auto intro: adv_trans)
  ultimately show ?case by (auto simp: out)
qed

section \<open>Deferred steps\<close>

definition key_busy :: "DAGRunner \<Rightarrow> string \<Rightarrow> bool" where
  "key_busy d v \<longleftrightarrow> skey d v \<noteq> '''' \<and> getd False (dr_activeSessionKeys d) (skey d v)"

lemma not_canLaunch: "fmlookup (dr_steps d) v = Some rs \<Longrightarrow> \<not> canLaunch d rs \<longleftrightarrow> key_busy d v"
  by (auto simp: canLaunch_def key_busy_def skey_def)

lemma mark_running_views:
  assumes "fmlookup (dr_steps d) v = Some rs" and "v \<notin> Fin d RT" and "v \<notin> RT"
  shows "adv RT d (mark_running v rs d) []" and "skey (mark_running v rs d) = skey d"
    and "key_busy d w \<Longrightarrow> key_busy (mark_running v rs d) w" and "blocked (mark_running v rs d) = blocked d"
    and "stat (mark_running v rs d) = (stat d)(v \<mapsto> StatusRunning)"
proof -
  have ch: "step_change d (mark_running v rs d) v StatusRunning"
    using assms(1) by (intro mark_running_change) (simp add: stat_def)
  show k: "skey (mark_running v rs d) = skey d" using ch by (simp add: step_change_def)
  show "key_busy d w \<Longrightarrow> key_busy (mark_running v rs d) w"
    by (auto simp: key_busy_def k mark_running_keys)
  show "blocked (mark_running v rs d) = blocked d" using ch by (rule change_blocked)
  show s: "stat (mark_running v rs d) = (stat d)(v \<mapsto> StatusRunning)" using ch by (simp add: step_change_def)
  have "Fin (mark_running v rs d) RT = Fin d RT"
    using change_Fin_out [OF ch assms(2), of RT] by simp
  then show "adv RT d (mark_running v rs d) []"
    using assms(2) by (auto simp: adv_def s)
qed

lemma waiting_facts:
  assumes "run_inv deps d C RT R W" and "v \<in> set W"
  obtains rs where "fmlookup (dr_steps d) v = Some rs" "rs_Status rs = StatusPending" "rs_StepID rs = v"
    "v \<notin> Fin d RT" "v \<notin> RT" "rs_SessionKeySnapshot rs = skey d v"
proof -
  have "stat d v = Some StatusPending" "v \<notin> RT" using assms by (auto simp: run_inv_def sched_inv_def)
  then obtain rs where "fmlookup (dr_steps d) v = Some rs" "rs_Status rs = StatusPending" "v \<notin> Fin d RT"
    by (auto simp: stat_Some Fin_def)
  with \<open>v \<notin> RT\<close> run_inv_dom [OF assms(1)] that show thesis by (simp add: skey_def)
qed

lemma deferred_loop_inv:
  assumes "run_inv deps d C RT R (pre @ ds)" and "defer_ok d (pre @ ds)"
    and "\<forall>v\<in>set pre. key_busy d v" and "deferred_loop ds d = (d', rem, launch, effs)"
  shows "run_inv deps d' C RT (R @ map rs_StepID launch) (pre @ rem) \<and> defer_ok d' (pre @ rem) \<and>
    (\<forall>v\<in>set (pre @ rem). key_busy d' v) \<and> adv RT d d' []"
  using assms
proof (induction ds arbitrary: d R pre d' rem launch effs)
  case Nil
  then show ?case by (simp add: adv_same)
next
  case (Cons v ds)
  obtain rs where rs: "fmlookup (dr_steps d) v = Some rs" "rs_Status rs = StatusPending" "rs_StepID rs = v"
    "v \<notin> Fin d RT" "v \<notin> RT" "rs_SessionKeySnapshot rs = skey d v"
    using Cons.prems(1) by (rule waiting_facts [where v = v]) auto
  have nb: "\<not> blocked d v" using Cons.prems(2) by (simp add: defer_ok_def)
  have nskip: "\<not> (getd False (dr_hasFailedUpstream d) v \<and> rs_RunIfSnapshot rs \<noteq> ''all_done'')"
    using nb rs(1) by (auto simp: blocked_def run_all_def)
  have notin: "v \<notin> set pre" using Cons.prems(1) by (auto simp: run_inv_def sched_inv_def)
  show ?case
  proof (cases "canLaunch d rs")
    case True
    let ?d = "mark_running v rs d"
    obtain d2 rem2 l2 e2 where dl: "deferred_loop ds ?d = (d2, rem2, l2, e2)" by (cases "deferred_loop ds ?d")
    have out: "d' = d2" "rem = rem2" "launch = running_copy rs # l2"
      using Cons.prems(4) rs(1,2) nskip True dl by auto
    note mv = mark_running_views [OF rs(1,4,5)]
    have inv1: "run_inv deps ?d C RT (R @ [v]) (pre @ ds)"
      using run_inv_mark_running [OF Cons.prems(1) _ _ rs(6) True nb] rs(1,5) notin
      by (simp add: stat_def remove1_append)
    have "defer_ok ?d (pre @ ds)" using Cons.prems(2) mv(4) by (simp add: defer_ok_def)
    moreover have "\<forall>v\<in>set pre. key_busy ?d v" using Cons.prems(3) mv(3) by blast
    ultimately have "run_inv deps d2 C RT ((R @ [v]) @ map rs_StepID l2) (pre @ rem2) \<and> defer_ok d2 (pre @ rem2) \<and>
        (\<forall>v\<in>set (pre @ rem2). key_busy d2 v) \<and> adv RT ?d d2 []"
      using Cons.IH [OF inv1 _ _ dl] by blast
    then show ?thesis
      using adv_trans [OF mv(1), of d2 "[]"] rs(3) by (simp add: out running_copy_def)
  next
    case False
    obtain d2 rem2 l2 e2 where dl: "deferred_loop ds d = (d2, rem2, l2, e2)" by (cases "deferred_loop ds d")
    have out: "d' = d2" "rem = v # rem2" "launch = l2"
      using Cons.prems(4) rs(1,2) nskip False dl by auto
    have "\<forall>v\<in>set (pre @ [v]). key_busy d v"
      using Cons.prems(3) not_canLaunch [OF rs(1)] False by simp
    then show ?thesis
      using Cons.IH [of d R "pre @ [v]", OF _ _ _ dl] Cons.prems(1,2) by (simp add: out)
  qed
qed

lemma processDeferredSteps_inv:
  assumes "run_inv deps d C RT R (dr_deferredSteps d)" and "defer_ok d (dr_deferredSteps d)"
    and "processDeferredSteps d = (d', launch, effs)"
  shows "run_inv deps d' C RT (R @ map rs_StepID launch) (dr_deferredSteps d') \<and>
    defer_ok d' (dr_deferredSteps d') \<and> (\<forall>v\<in>set (dr_deferredSteps d'). key_busy d' v) \<and> adv RT d d' []"
proof -
  obtain d1 rem where dl: "deferred_loop (dr_deferredSteps d) d = (d1, rem, launch, effs)"
    and d': "d' = d1\<lparr>dr_deferredSteps := rem\<rparr>"
    using assms(3) by (auto simp: processDeferredSteps_def split: prod.splits)
  have "run_inv deps d1 C RT (R @ map rs_StepID launch) rem \<and> defer_ok d1 rem \<and>
      (\<forall>v\<in>set rem. key_busy d1 v) \<and> adv RT d d1 []"
    using deferred_loop_inv [of deps d C RT R "[]" "dr_deferredSteps d"] assms(1,2) dl by simp
  then show ?thesis
    by (simp add: d' defer_ok_def adv_def key_busy_def)
qed

text \<open>A busy session key belongs to a running step.\<close>

lemma key_busy_running:
  assumes "run_inv deps d C RT R W" and "key_busy d v"
  shows "R \<noteq> []"
proof -
  have "\<exists>w\<in>set R. skey d w = skey d v"
    using assms unfolding run_inv_def key_inv_def key_busy_def by metis
  then show ?thesis by auto
qed

section \<open>Start\<close>

definition closed_edges :: "StepDependency list \<Rightarrow> DAGRunner \<Rightarrow> string set \<Rightarrow> (string \<times> string) set" where
  "closed_edges deps d S = {(a, b). (a, b) \<in> edges deps \<and> a \<in> S}"

text \<open>
  The state in which \<open>Start\<close> is called: every step is pending or was completed before, the
  completed ones are counted and their edges removed from the in-degrees.
\<close>

definition startable :: "StepDependency list \<Rightarrow> DAGRunner \<Rightarrow> bool" where
  "startable deps d \<longleftrightarrow> static_inv deps d \<and>
     (\<forall>v s. stat d v = Some s \<longrightarrow> s = StatusPending \<or> s = StatusCompleted) \<and>
     fmdom' (dr_inDegree d) = fmdom' (dr_steps d) \<and>
     (\<forall>v. stat d v \<noteq> None \<longrightarrow> getd 0 (dr_inDegree d) v
        = int (open_cnt (closed_edges deps d {u. stat d u = Some StatusCompleted}) deps v)) \<and>
     dr_completed d = int (card {u. stat d u = Some StatusCompleted}) \<and>
     dr_total d = int (card (fmdom' (dr_steps d))) \<and> \<not> dr_failed d \<and> \<not> dr_done d \<and> dr_ctx d = NoCtx \<and>
     (\<forall>v. \<not> getd False (dr_hasFailedUpstream d) v) \<and>
     (\<forall>k. \<not> getd False (dr_activeSessionKeys d) k) \<and> dr_deferredSteps d = []"

definition ready_now :: "DAGRunner \<Rightarrow> string \<Rightarrow> bool" where
  "ready_now d v \<longleftrightarrow> stat d v = Some StatusPending \<and> getd 0 (dr_inDegree d) v = 0"

lemma ctx_views [simp]:
  "stat (d\<lparr>dr_ctx := c\<rparr>) = stat d" "skey (d\<lparr>dr_ctx := c\<rparr>) = skey d" "Fin (d\<lparr>dr_ctx := c\<rparr>) = Fin d"
  "blocked (d\<lparr>dr_ctx := c\<rparr>) = blocked d"
  "run_inv deps (d\<lparr>dr_ctx := c\<rparr>) C RT R W = run_inv deps d C RT R W"
  by (simp_all add: run_inv_def inv_defs stat_def skey_def run_all_def blocked_def Fin_def fun_eq_iff)

lemma startable_run_inv:
  assumes "startable deps d" and "enumerates order (dr_inDegree d)"
  defines "C \<equiv> closed_edges deps d {u. stat d u = Some StatusCompleted}"
  shows "run_inv deps d C {} [] (filter (ready_now d) order)" and "queue_inv deps d C {} []"
    and "\<not> blocked d v" and "Fin d {} = {u. stat d u = Some StatusCompleted}"
proof -
  have no: "stat d v \<noteq> Some StatusRunning" "stat d v \<noteq> Some StatusFailed" "stat d v \<noteq> Some StatusSkipped" for v
    using assms(1) unfolding startable_def by (auto simp: status_defs)
  show fin: "Fin d {} = {u. stat d u = Some StatusCompleted}"
    using no by (simp add: Fin_def)
  show blk: "\<not> blocked d v" for v using assms(1) by (simp add: startable_def blocked_def)
  have nopen: "stat d u = Some StatusCompleted" if "(u, v) \<in> C" for u v
    using that by (simp add: C_def closed_edges_def)
  have "edge_inv deps d C {}"
  proof -
    have "(u, v) \<in> edges deps \<and> u \<in> Fin d {}" if "(u, v) \<in> C" for u v
      using that fin by (simp add: C_def closed_edges_def)
    moreover have "\<not> getd False (dr_hasFailedUpstream d) v" for v using assms(1) by (simp add: startable_def)
    moreover have "getd 0 (dr_inDegree d) v = int (open_cnt C deps v)" if "stat d v \<noteq> None" for v
      using that assms(1) by (simp add: startable_def C_def)
    ultimately show ?thesis using nopen unfolding edge_inv_def by blast
  qed
  moreover have "sched_inv deps d C {} [] (filter (ready_now d) order)"
  proof -
    have "v \<in> set order" if "stat d v \<noteq> None" for v
      using that assms(1,2) by (auto simp: startable_def enumerates_def stat_def fmlookup_dom'_iff)
    moreover have "getd 0 (dr_inDegree d) v = int (open_cnt C deps v)" if "stat d v \<noteq> None" for v
      using that assms(1) by (simp add: startable_def C_def)
    ultimately show ?thesis
      using assms(2) no by (auto simp: sched_inv_def ready_now_def enumerates_def)
  qed
  moreover have "count_inv d {}"
    using assms(1) fin no by (simp add: count_inv_def startable_def)
  moreover have "skip_inv deps d C"
    using no by (simp add: skip_inv_def)
  ultimately show "run_inv deps d C {} [] (filter (ready_now d) order)"
    using assms(1) by (simp add: run_inv_def startable_def key_inv_def)
  show "queue_inv deps d C {} []"
    by (auto simp: queue_inv_def fin C_def closed_edges_def)
qed

lemma start_loop_inv:
  assumes "run_inv deps d C {} R (dr_deferredSteps d @ filter (ready_now d) rest)"
    and "distinct rest" and "\<forall>v\<in>set rest. stat d v \<noteq> None" and "\<forall>v. \<not> blocked d v"
    and "\<forall>v\<in>set (dr_deferredSteps d). key_busy d v"
  shows "\<exists>d' launch effs. start_loop rest d = Inr (d', launch, effs) \<and>
    run_inv deps d' C {} (R @ map rs_StepID launch) (dr_deferredSteps d') \<and> (\<forall>v. \<not> blocked d' v) \<and>
    (\<forall>v\<in>set (dr_deferredSteps d'). key_busy d' v) \<and> adv {} d d' []"
  using assms
proof (induction rest arbitrary: d R)
  case Nil
  then show ?case by (simp add: adv_same)
next
  case (Cons v rest)
  obtain rs where rs: "fmlookup (dr_steps d) v = Some rs" using Cons.prems(3) by (auto simp: stat_def)
  show ?case
  proof (cases "ready_now d v")
    case False
    then have eq: "start_loop (v # rest) d = start_loop rest d"
      using rs by (auto simp: ready_now_def stat_def)
    show ?thesis unfolding eq using Cons.IH [of d R] Cons.prems False by simp
  next
    case True
    have "v \<in> set (dr_deferredSteps d @ filter (ready_now d) (v # rest))" using True by simp
    with Cons.prems(1) obtain rs' where rs': "fmlookup (dr_steps d) v = Some rs'" "rs_StepID rs' = v"
      "v \<notin> Fin d {}" "rs_SessionKeySnapshot rs' = skey d v"
      by (rule waiting_facts)
    then have id: "rs_StepID rs = v" "rs_SessionKeySnapshot rs = skey d v" using rs by simp_all
    have notin: "v \<notin> set (dr_deferredSteps d)"
      using Cons.prems(1) True by (auto simp: run_inv_def sched_inv_def)
    show ?thesis
    proof (cases "canLaunch d rs")
      case can: True
      let ?d = "mark_running v rs d"
      note mv = mark_running_views [OF rs rs'(3), simplified]
      have filt: "filter (ready_now ?d) rest = filter (ready_now d) rest"
        using Cons.prems(2) by (intro filter_cong) (auto simp: ready_now_def mv(5))
      have "run_inv deps ?d C {} (R @ [v]) (dr_deferredSteps ?d @ filter (ready_now ?d) rest)"
        using run_inv_mark_running [OF Cons.prems(1) _ _ id(2) can] Cons.prems(4) True notin filt
        by (simp add: stat_def rs remove1_append)
      moreover have "\<forall>w\<in>set rest. stat ?d w \<noteq> None" using Cons.prems(3) by (simp add: mv(5))
      moreover have "\<forall>w\<in>set (dr_deferredSteps ?d). key_busy ?d w" using Cons.prems(5) mv(3) by simp
      ultimately obtain d' launch effs where out: "start_loop rest ?d = Inr (d', launch, effs)"
        "run_inv deps d' C {} ((R @ [v]) @ map rs_StepID launch) (dr_deferredSteps d')" "\<forall>v. \<not> blocked d' v"
        "\<forall>v\<in>set (dr_deferredSteps d'). key_busy d' v" "adv {} ?d d' []"
        using Cons.IH [of ?d "R @ [v]"] Cons.prems(2,4) mv(4) by auto
      have "start_loop (v # rest) d = Inr (d', running_copy rs # launch, DBStatus (rs_RunStepID rs) StatusRunning '''' 0 # effs)"
        using True can rs out(1) by (auto simp: ready_now_def stat_def)
      then show ?thesis
        using out id(1) adv_trans [OF mv(1) out(5)] by (auto simp: running_copy_def)
    next
      case no: False
      let ?d = "d\<lparr>dr_deferredSteps := dr_deferredSteps d @ [v]\<rparr>"
      have eq: "start_loop (v # rest) d = start_loop rest ?d"
        using True no rs by (auto simp: ready_now_def stat_def)
      have filt: "filter (ready_now ?d) rest = filter (ready_now d) rest"
        by (rule filter_cong) (simp_all add: ready_now_def)
      have busy: "\<forall>w\<in>set (dr_deferredSteps ?d). key_busy ?d w"
        using Cons.prems(5) not_canLaunch [OF rs] no by (simp add: key_busy_def)
      have "run_inv deps ?d C {} R (dr_deferredSteps ?d @ filter (ready_now ?d) rest)"
        using Cons.prems(1) True filt by simp
      then obtain d' launch effs where out: "start_loop rest ?d = Inr (d', launch, effs)"
        "run_inv deps d' C {} (R @ map rs_StepID launch) (dr_deferredSteps d')" "\<forall>v. \<not> blocked d' v"
        "\<forall>v\<in>set (dr_deferredSteps d'). key_busy d' v" "adv {} ?d d' []"
        using Cons.IH [of ?d R] Cons.prems(2-4) busy by auto
      moreover have "adv {} d d' []" using out(5) by (simp add: adv_def)
      ultimately show ?thesis unfolding eq by blast
    qed
  qed
qed

lemma Start_inv:
  assumes "startable deps d" and "enumerates order (dr_inDegree d)"
  shows "\<exists>d' launch effs C. Start order d = Inr (d', launch, effs) \<and>
    run_inv deps d' C {} (map rs_StepID launch) (dr_deferredSteps d') \<and> queue_inv deps d' C {} [] \<and>
    (\<forall>v. \<not> blocked d' v) \<and> (\<forall>v\<in>set (dr_deferredSteps d'). key_busy d' v) \<and>
    adv {} (d\<lparr>dr_ctx := Live\<rparr>) d' []"
proof -
  let ?d = "d\<lparr>dr_ctx := Live\<rparr>" and ?C = "closed_edges deps d {u. stat d u = Some StatusCompleted}"
  note s = startable_run_inv [OF assms]
  have dom: "\<forall>v\<in>set order. stat ?d v \<noteq> None"
    using assms by (auto simp: startable_def enumerates_def stat_def fmlookup_dom'_iff)
  have "filter (ready_now ?d) order = filter (ready_now d) order"
    by (rule filter_cong) (simp_all add: ready_now_def)
  moreover have "dr_deferredSteps ?d = []" using assms(1) by (simp add: startable_def)
  ultimately have "\<exists>d' launch effs. start_loop order ?d = Inr (d', launch, effs) \<and>
      run_inv deps d' ?C {} ([] @ map rs_StepID launch) (dr_deferredSteps d') \<and> (\<forall>v. \<not> blocked d' v) \<and>
      (\<forall>v\<in>set (dr_deferredSteps d'). key_busy d' v) \<and> adv {} ?d d' []"
    using s(1,3) dom assms(2) by (intro start_loop_inv) (auto simp: enumerates_def)
  then obtain d' launch effs where out: "start_loop order ?d = Inr (d', launch, effs)"
    "run_inv deps d' ?C {} (map rs_StepID launch) (dr_deferredSteps d')" "\<forall>v. \<not> blocked d' v"
    "\<forall>v\<in>set (dr_deferredSteps d'). key_busy d' v" "adv {} ?d d' []"
    by auto
  have "queue_inv deps d' ?C {} []"
    using s(2) out(5) by (auto simp: queue_inv_def adv_def)
  with out show ?thesis by (auto simp: Start_def)
qed

end
