(* ===== verification/Dag_Run.thy ===== *)
theory Dag_Run
  imports Dag_Runner_Loops
begin

text \<open>
  A run as a concurrent system: the runner, the steps in flight (handed to the executor
  and not reported back), the scheduled retries and the calls of the completion callback.
  A transition is one critical section of the runner: a step in flight completes with any
  exit code, a scheduled retry fires, the run is cancelled, or task values arrive; any
  interleaving of them is possible. The executor reports each launched step at most once.
\<close>

section \<open>The system\<close>

record run_sys =
  rn_d :: DAGRunner
  rn_R :: "string list"
  rn_RT :: "RunStep list"
  rn_results :: "string list"

primrec retry_of :: "effect \<Rightarrow> RunStep list" where
  "retry_of (DBStatus a b c n) = []"
| "retry_of (DBAttempt a n) = []"
| "retry_of (PublishStep a b c e f g h) = []"
| "retry_of (Execute rs rc) = []"
| "retry_of (ScheduleRetry rs) = [rs]"
| "retry_of (RunComplete a b) = []"

primrec result_of :: "effect \<Rightarrow> string list" where
  "result_of (DBStatus a b c n) = []"
| "result_of (DBAttempt a n) = []"
| "result_of (PublishStep a b c e f g h) = []"
| "result_of (Execute rs rc) = []"
| "result_of (ScheduleRetry rs) = []"
| "result_of (RunComplete a b) = [b]"

definition retries_of :: "effect list \<Rightarrow> RunStep list" where
  "retries_of effs = concat (map retry_of effs)"

definition results_of :: "effect list \<Rightarrow> string list" where
  "results_of effs = concat (map result_of effs)"

text \<open>The progress the executor makes: a step reports back, or a retry delay ends.\<close>

inductive work_step :: "run_sys \<Rightarrow> run_sys \<Rightarrow> bool" where
  step_complete:
    "i \<in> set (rn_R s) \<Longrightarrow> enumerates order (dr_steps (rn_d s)) \<Longrightarrow>
     OnStepCompleted order i code (rn_d s) = Inr (d', launch, effs) \<Longrightarrow>
     work_step s \<lparr>rn_d = d', rn_R = remove1 i (rn_R s) @ map rs_StepID launch,
       rn_RT = rn_RT s @ retries_of effs, rn_results = rn_results s @ results_of effs\<rparr>"
| step_retry:
    "rs \<in> set (rn_RT s) \<Longrightarrow> retry_step rs (rn_d s) = Inr (d', launch, effs) \<Longrightarrow>
     work_step s \<lparr>rn_d = d', rn_R = rn_R s @ map rs_StepID launch,
       rn_RT = remove1 rs (rn_RT s), rn_results = rn_results s\<rparr>"

inductive run_step :: "run_sys \<Rightarrow> run_sys \<Rightarrow> bool" where
  step_work: "work_step s t \<Longrightarrow> run_step s t"
| step_cancel: "run_step s (s\<lparr>rn_d := Cancel (rn_d s)\<rparr>)"
| step_values: "run_step s (s\<lparr>rn_d := SetStepValues name vals (rn_d s)\<rparr>)"

definition run_init :: "StepDependency list \<Rightarrow> run_sys \<Rightarrow> bool" where
  "run_init deps s \<longleftrightarrow> (\<exists>d order launch effs d'. startable deps d \<and> (\<exists>v. stat d v = Some StatusPending) \<and>
     enumerates order (dr_inDegree d) \<and> Start order d = Inr (d', launch, effs) \<and>
     s = \<lparr>rn_d = d', rn_R = map rs_StepID launch, rn_RT = [], rn_results = []\<rparr>)"

section \<open>The invariant of a live run\<close>

abbreviation rt_ids :: "RunStep list \<Rightarrow> string set" where
  "rt_ids RT \<equiv> rs_StepID ` set RT"

definition live_inv :: "StepDependency list \<Rightarrow> DAGRunner \<Rightarrow> (string \<times> string) set \<Rightarrow> string list \<Rightarrow> RunStep list \<Rightarrow> bool" where
  "live_inv deps d C R RT \<longleftrightarrow>
     run_inv deps d C (rt_ids RT) R (dr_deferredSteps d) \<and> queue_inv deps d C (rt_ids RT) [] \<and>
     defer_ok d (dr_deferredSteps d) \<and> distinct (map rs_StepID RT) \<and>
     (\<forall>rs\<in>set RT. rs_SessionKeySnapshot rs = skey d (rs_StepID rs)) \<and>
     (dr_deferredSteps d \<noteq> [] \<longrightarrow> R \<noteq> [] \<or> RT \<noteq> []) \<and>
     dr_total d = int (card (fmdom' (dr_steps d)))"

definition verdict :: "DAGRunner \<Rightarrow> string" where
  "verdict d = (if \<exists>v. stat d v = Some StatusFailed then StatusFailed else StatusCompleted)"

definition all_done :: "DAGRunner \<Rightarrow> bool" where
  "all_done d \<longleftrightarrow> (\<forall>v s. stat d v = Some s \<longrightarrow> s = StatusCompleted \<or> s = StatusFailed \<or> s = StatusSkipped)"

definition sys_inv :: "StepDependency list \<Rightarrow> run_sys \<Rightarrow> bool" where
  "sys_inv deps s \<longleftrightarrow>
     (dr_ctx (rn_d s) = Live \<and> (\<exists>C. live_inv deps (rn_d s) C (rn_R s) (rn_RT s)) \<and>
        (if all_done (rn_d s) \<and> rn_RT s = [] then rn_results s = [verdict (rn_d s)] \<and> dr_done (rn_d s)
         else rn_results s = [] \<and> \<not> dr_done (rn_d s))) \<or>
     (dr_ctx (rn_d s) = Cancelled \<and> dr_done (rn_d s) \<and>
        (rn_results s = [] \<or> rn_results s = [StatusFailed] \<or> rn_results s = [verdict (rn_d s)]))"

lemma fin_subset_dom: "Fin d RT \<subseteq> fmdom' (dr_steps d)"
  by (auto simp: Fin_def stat_Some intro: fmlookup_in_dom)

lemma stat_dom: "stat d v \<noteq> None \<longleftrightarrow> v \<in> fmdom' (dr_steps d)"
  by (auto simp: stat_def fmlookup_dom'_iff)

text \<open>The counters agree exactly when every step has its final status.\<close>

lemma live_completed_total:
  assumes "live_inv deps d C R RT"
  shows "dr_completed d = dr_total d \<longleftrightarrow> all_done d \<and> RT = []"
proof -
  have cnt: "dr_completed d = int (card (Fin d (rt_ids RT)))" "dr_total d = int (card (fmdom' (dr_steps d)))"
    using assms by (simp_all add: live_inv_def run_inv_def count_inv_def)
  have rt: "stat d v = Some StatusFailed" if "v \<in> rt_ids RT" for v
    using assms that by (auto simp: live_inv_def run_inv_def sched_inv_def)
  have "dr_completed d = dr_total d \<longleftrightarrow> Fin d (rt_ids RT) = fmdom' (dr_steps d)"
    unfolding cnt using card_subset_eq [OF finite_fmdom' fin_subset_dom] by auto
  also have "\<dots> \<longleftrightarrow> all_done d \<and> RT = []"
  proof
    assume eq: "Fin d (rt_ids RT) = fmdom' (dr_steps d)"
    have "v \<in> Fin d (rt_ids RT)" if "stat d v = Some s" for v s
      using that eq stat_dom [of d v] by simp
    then have "all_done d" by (fastforce simp: all_done_def Fin_def)
    moreover have "rs_StepID rs \<notin> Fin d (rt_ids RT)" if "rs \<in> set RT" for rs
      using rt that by (auto simp: Fin_def)
    then have "RT = []" using eq rt stat_dom by (cases RT) (auto, metis option.discI)
    ultimately show "all_done d \<and> RT = []" ..
  next
    assume "all_done d \<and> RT = []"
    then have "v \<in> Fin d (rt_ids RT)" if "v \<in> fmdom' (dr_steps d)" for v
      using that stat_dom [of d v] by (auto simp: all_done_def Fin_def)
    then show "Fin d (rt_ids RT) = fmdom' (dr_steps d)" using fin_subset_dom by blast
  qed
  finally show ?thesis .
qed

lemma live_done_quiet:
  assumes "live_inv deps d C R RT" and "all_done d" and "RT = []"
  shows "R = []"
proof (rule ccontr)
  assume "R \<noteq> []"
  then obtain v where "v \<in> set R" by (cases R) auto
  then have "stat d v = Some StatusRunning"
    using assms(1) by (auto simp: live_inv_def run_inv_def sched_inv_def)
  with assms(2) have "StatusRunning = StatusCompleted \<or> StatusRunning = StatusFailed \<or> StatusRunning = StatusSkipped"
    unfolding all_done_def by blast
  then show False by simp
qed

lemma live_failed:
  assumes "live_inv deps d C R []"
  shows "verdict d = (if dr_failed d then StatusFailed else StatusCompleted)"
  using assms by (simp add: verdict_def live_inv_def run_inv_def count_inv_def)

section \<open>Completion of a step\<close>

text \<open>The changes every completion starts with: result recorded, key released, status set.\<close>

definition settle :: "string \<Rightarrow> int \<Rightarrow> RunStep \<Rightarrow> (RunStep \<Rightarrow> RunStep) \<Rightarrow> DAGRunner \<Rightarrow> DAGRunner" where
  "settle i code rs f d = upd_step i f (releaseSessionKey rs (record_result i code d))"

lemma record_result_frame [simp]:
  "dr_steps (record_result i c d) = dr_steps d" "dr_inDegree (record_result i c d) = dr_inDegree d"
  "dr_dependents (record_result i c d) = dr_dependents d" "dr_total (record_result i c d) = dr_total d"
  "dr_hasFailedUpstream (record_result i c d) = dr_hasFailedUpstream d"
  "dr_activeSessionKeys (record_result i c d) = dr_activeSessionKeys d"
  "dr_deferredSteps (record_result i c d) = dr_deferredSteps d" "dr_ctx (record_result i c d) = dr_ctx d"
  "dr_completed (record_result i c d) = dr_completed d" "dr_failed (record_result i c d) = dr_failed d"
  "dr_done (record_result i c d) = dr_done d" "dr_runID (record_result i c d) = dr_runID d"
  "dr_jobID (record_result i c d) = dr_jobID d"
  by (simp_all add: record_result_def Let_def)

lemma settle_frame [simp]:
  "dr_inDegree (settle i c rs f d) = dr_inDegree d" "dr_total (settle i c rs f d) = dr_total d"
  "dr_dependents (settle i c rs f d) = dr_dependents d" "dr_ctx (settle i c rs f d) = dr_ctx d"
  "dr_hasFailedUpstream (settle i c rs f d) = dr_hasFailedUpstream d"
  "dr_deferredSteps (settle i c rs f d) = dr_deferredSteps d"
  "dr_completed (settle i c rs f d) = dr_completed d" "dr_failed (settle i c rs f d) = dr_failed d"
  "dr_done (settle i c rs f d) = dr_done d" "dr_runID (settle i c rs f d) = dr_runID d"
  "fmdom' (dr_steps (settle i c rs f d)) = fmdom' (dr_steps d)"
  by (simp_all add: settle_def)

lemma settle_keys:
  "dr_activeSessionKeys (settle i c rs f d) = (if rs_SessionKeySnapshot rs = '''' then dr_activeSessionKeys d
     else fmdrop (rs_SessionKeySnapshot rs) (dr_activeSessionKeys d))"
  by (simp add: settle_def releaseSessionKey_def)

lemma settle_change:
  assumes "fmlookup (dr_steps d) i = Some rs"
    and "rs_Status (f rs) = s" "rs_SessionKeySnapshot (f rs) = rs_SessionKeySnapshot rs"
    "rs_RunIfSnapshot (f rs) = rs_RunIfSnapshot rs" "rs_StepID (f rs) = rs_StepID rs"
    and "dr_steps d' = dr_steps (settle i c rs f d)" "dr_dependents d' = dr_dependents d"
    "dr_inDegree d' = dr_inDegree d" "dr_hasFailedUpstream d' = dr_hasFailedUpstream d"
  shows "step_change d d' i s"
proof -
  have "dr_steps d' = fmupd i (f rs) (dr_steps d)"
    using assms(1,6) by (simp add: settle_def upd_step_def)
  then show ?thesis
    using assms by (auto simp: step_change_def stat_def skey_def run_all_def fun_eq_iff)
qed

lemma stat_eq_on_Fin_queue:
  assumes "queue_inv deps d C RT []" and "adv RT d d' []"
  shows "queue_inv deps d' C RT []"
  using assms by (auto simp: queue_inv_def adv_def)

lemma retries_of_simps [simp]:
  "retries_of [] = []" "retries_of (e # es) = retry_of e @ retries_of es"
  "retries_of (es @ es') = retries_of es @ retries_of es'"
  by (simp_all add: retries_of_def)

lemma results_of_simps [simp]:
  "results_of [] = []" "results_of (e # es) = result_of e @ results_of es"
  "results_of (es @ es') = results_of es @ results_of es'"
  by (simp_all add: results_of_def)

text \<open>The loops only update step statuses in the store.\<close>

definition quiet :: "effect list \<Rightarrow> bool" where
  "quiet effs \<longleftrightarrow> retries_of effs = [] \<and> results_of effs = []"

lemma quiet_simps [simp]: "quiet []" "quiet (DBStatus a b c n # es) = quiet es"
  "quiet (es @ es') \<longleftrightarrow> quiet es \<and> quiet es'"
  by (auto simp: quiet_def)

lemma quiet_visit_dep: "visit_dep fl v d = (d', items, launch, effs) \<Longrightarrow> quiet effs"
  by (auto simp: visit_dep_def Let_def split: if_splits option.splits)

lemma quiet_visit_deps: "visit_deps fl vs d = (d', items, launch, effs) \<Longrightarrow> quiet effs"
proof (induction vs arbitrary: d d' items launch effs)
  case (Cons v vs)
  obtain d1 i1 l1 e1 where v: "visit_dep fl v d = (d1, i1, l1, e1)" by (cases "visit_dep fl v d")
  with Cons show ?case by (auto split: prod.splits dest: quiet_visit_dep)
qed simp

lemma quiet_ready_loop: "ready_loop q d = (d', launch, effs) \<Longrightarrow> quiet effs"
proof (induction q d arbitrary: d' launch effs rule: ready_loop.induct)
  case (2 u fl q d)
  obtain d1 i1 l1 e1 where v: "visit_deps fl (getd [] (dr_dependents d) u) d = (d1, i1, l1, e1)"
    by (cases "visit_deps fl (getd [] (dr_dependents d) u) d")
  obtain l2 e2 where rl: "ready_loop (q @ i1) d1 = (d', l2, e2)" and e: "effs = e1 @ e2"
    using "2.prems" v by (auto split: prod.splits)
  from "2.IH" [OF v [symmetric] refl refl refl rl] quiet_visit_deps [OF v] e show ?case by simp
qed simp

lemma quiet_deferred_loop: "deferred_loop ds d = (d', rem, launch, effs) \<Longrightarrow> quiet effs"
  by (induction ds d arbitrary: d' rem launch effs rule: deferred_loop.induct)
    (auto simp: Let_def split: option.splits if_splits prod.splits)

lemma quiet_launch [simp]: "quiet (concat (map (launchStep d) ls))"
  by (induction ls) (auto simp: launchStep_def quiet_def publishStepEvent_def)

lemma tries_left_done [simp]: "tries_left (d\<lparr>dr_done := c\<rparr>) = tries_left d"
  "tries_left (d\<lparr>dr_failed := b\<rparr>) = tries_left d"
  by (simp_all add: tries_left_def fun_eq_iff)

lemma done_views [simp]:
  "stat (d\<lparr>dr_done := c\<rparr>) = stat d" "skey (d\<lparr>dr_done := c\<rparr>) = skey d" "Fin (d\<lparr>dr_done := c\<rparr>) = Fin d"
  "blocked (d\<lparr>dr_done := c\<rparr>) = blocked d"
  "run_inv deps (d\<lparr>dr_done := c\<rparr>) C RT R W = run_inv deps d C RT R W"
  by (simp_all add: run_inv_def inv_defs stat_def skey_def run_all_def blocked_def Fin_def fun_eq_iff)

text \<open>The tail of a completion, from the state in which the step has its final status.\<close>

lemma finish_step_inv:
  assumes inv: "run_inv deps d1 C (rt_ids RT) R (dr_deferredSteps d)"
    and d1: "d1 = d\<lparr>dr_completed := dr_completed d + 1\<rparr>"
    and q: "queue_inv deps d1 C (rt_ids RT) [(i, code \<noteq> 0)]"
    and ok: "defer_ok d1 (dr_deferredSteps d)"
    and tot: "dr_total d = int (card (fmdom' (dr_steps d)))"
    and fs: "finish_step i code rs d = (d', launch, effs)"
  obtains C' where
    "run_inv deps d' C' (rt_ids RT) (R @ map rs_StepID launch) (dr_deferredSteps d')"
    "queue_inv deps d' C' (rt_ids RT) []" "defer_ok d' (dr_deferredSteps d')"
    "\<forall>v\<in>set (dr_deferredSteps d'). key_busy d' v" "skey d' = skey d"
    "dr_total d' = int (card (fmdom' (dr_steps d')))" "dr_ctx d' = dr_ctx d" "dr_failed d' = dr_failed d"
    "dr_done d' = (dr_done d \<or> dr_completed d' = dr_total d')" "retries_of effs = []"
    "results_of effs = (if dr_completed d' = dr_total d'
       then [if dr_failed d' \<or> code \<noteq> 0 then StatusFailed else StatusCompleted] else [])"
    "Fin d1 (rt_ids RT) \<subseteq> Fin d' (rt_ids RT)" "tries_left d' = tries_left d"
    "fmdom' (dr_steps d') = fmdom' (dr_steps d)"
proof -
  obtain d2 l1 e1 where rl: "ready_loop [(i, code \<noteq> 0)] d1 = (d2, l1, e1)"
    by (cases "ready_loop [(i, code \<noteq> 0)] d1")
  obtain d3 l2 e2 where pd: "processDeferredSteps d2 = (d3, l2, e2)" by (cases "processDeferredSteps d2")
  have "dr_deferredSteps d1 = dr_deferredSteps d" by (simp add: d1)
  with ready_loop_inv [OF _ _ q rl] inv ok obtain C' A where
    two: "run_inv deps d2 C' (rt_ids RT) (R @ map rs_StepID l1) (dr_deferredSteps d2)"
      "defer_ok d2 (dr_deferredSteps d2)" "queue_inv deps d2 C' (rt_ids RT) []" "adv (rt_ids RT) d1 d2 A"
    by (metis (no_types, lifting))
  note three = processDeferredSteps_inv [OF two(1,2) pd]
  have quiet: "quiet e1" "quiet e2"
    using quiet_ready_loop [OF rl] pd
    by (auto simp: processDeferredSteps_def split: prod.splits dest: quiet_deferred_loop)
  have fr: "frame d1 d3" using two(4) three by (auto simp: adv_def intro: frame_trans)
  have q3: "queue_inv deps d3 C' (rt_ids RT) []" using two(3) three by (auto intro: stat_eq_on_Fin_queue)
  have mono: "Fin d1 (rt_ids RT) \<subseteq> Fin d3 (rt_ids RT)" using two(4) three by (auto simp: adv_def)
  have fs': "finish_step i code rs d =
      (let pub = (if code \<noteq> 0 then publishStepEvent d3 TypeJobRunStepFailed (rs_RunStepID rs) i StatusFailed
                  else publishStepEvent d3 TypeJobRunStepCompleted (rs_RunStepID rs) i StatusCompleted)
       in if dr_completed d3 = dr_total d3
          then (d3\<lparr>dr_done := True\<rparr>, [], e1 @ e2 @ [pub, RunComplete (dr_runID d3)
                 (if dr_failed d3 \<or> code \<noteq> 0 then StatusFailed else StatusCompleted)])
          else (d3, l1 @ l2, e1 @ e2 @ [pub] @ concat (map (launchStep d3) (l1 @ l2))))"
  proof -
    have "processReadyDependents i (code \<noteq> 0) (d\<lparr>dr_completed := dr_completed d + 1\<rparr>) = (d2, l1, e1)"
      using rl unfolding processReadyDependents_def d1 .
    then show ?thesis by (simp only: finish_step_def Let_def pd prod.case)
  qed
  have tot3: "dr_total d3 = int (card (fmdom' (dr_steps d3)))" using fr tot by (simp add: frame_def d1)
  show thesis
  proof (cases "dr_completed d3 = dr_total d3")
    case True
    have "R @ map rs_StepID l1 @ map rs_StepID l2 = []"
    proof (rule ccontr)
      assume "R @ map rs_StepID l1 @ map rs_StepID l2 \<noteq> []"
      then obtain v where v: "v \<in> set (R @ map rs_StepID l1 @ map rs_StepID l2)"
        by (metis list.set_intros(1) neq_Nil_conv)
      then have "stat d3 v = Some StatusRunning" using three by (auto simp: run_inv_def sched_inv_def)
      then have "v \<notin> Fin d3 (rt_ids RT)" "v \<in> fmdom' (dr_steps d3)" using stat_dom [of d3 v] by (auto simp: Fin_def)
      then have "card (Fin d3 (rt_ids RT)) < card (fmdom' (dr_steps d3))"
        by (intro psubset_card_mono) (use fin_subset_dom in auto)
      moreover have "dr_completed d3 = int (card (Fin d3 (rt_ids RT)))"
        using three by (simp add: run_inv_def count_inv_def)
      ultimately show False using True tot3 by simp
    qed
    then have out: "d' = d3\<lparr>dr_done := True\<rparr>" "launch = []" "l1 = []" "l2 = []"
      "results_of effs = [if dr_failed d3 \<or> code \<noteq> 0 then StatusFailed else StatusCompleted]" "retries_of effs = []"
      using fs fs' True quiet by (auto simp: quiet_def publishStepEvent_def)
    show thesis
      by (rule that [of C'])
        (use three q3 fr tot3 True out mono in \<open>simp_all add: frame_def d1 defer_ok_def queue_inv_def key_busy_def\<close>)
  next
    case False
    then have out: "d' = d3" "launch = l1 @ l2" "results_of effs = []" "retries_of effs = []"
      using fs fs' quiet quiet_launch [of d3 "l1 @ l2"] by (auto simp: quiet_def publishStepEvent_def)
    show thesis
      by (rule that [of C']) (use three q3 fr tot3 False out mono in \<open>simp_all add: frame_def d1\<close>)
  qed
qed

definition fail_with :: "int \<Rightarrow> RunStep \<Rightarrow> RunStep" where
  "fail_with code r = r\<lparr>rs_Status := StatusFailed, rs_ExitCode := Some code\<rparr>"

definition fail_again :: "int \<Rightarrow> RunStep \<Rightarrow> RunStep" where
  "fail_again code r = r\<lparr>rs_Status := StatusFailed, rs_ExitCode := Some code, rs_Attempt := rs_Attempt r + 1\<rparr>"

definition succeed :: "RunStep \<Rightarrow> RunStep" where
  "succeed r = r\<lparr>rs_Status := StatusCompleted, rs_ExitCode := Some 0\<rparr>"

definition may_retry :: "RunStep \<Rightarrow> bool" where
  "may_retry rs \<longleftrightarrow> rs_MaxRetriesSnapshot rs > 0 \<and> rs_Attempt rs \<le> rs_MaxRetriesSnapshot rs"

lemma fail_run_loop_frame:
  "fail_run_loop i is d = (d', effs) \<Longrightarrow> dr_ctx d' = dr_ctx d \<and> quiet effs \<and>
     fmdom' (dr_steps d') = fmdom' (dr_steps d)"
proof (induction "is" arbitrary: d d' effs)
  case (Cons j js)
  obtain a ea where a: "fail_run_loop i js (set_status j StatusSkipped d) = (a, ea)"
    by (cases "fail_run_loop i js (set_status j StatusSkipped d)")
  obtain b eb where b: "fail_run_loop i js (set_status j StatusCancelled d) = (b, eb)"
    by (cases "fail_run_loop i js (set_status j StatusCancelled d)")
  show ?case
    using Cons.prems Cons.IH [OF a] Cons.IH [OF b] Cons.IH [of d d' effs] a b
    by (auto split: option.splits if_splits)
qed simp

lemma upd_step_twice: "upd_step i g (upd_step i f d) = upd_step i (g \<circ> f) d"
  by (auto simp: upd_step_def split: option.splits)

text \<open>The four ways a completion of a live run can go.\<close>

lemma OnStepCompleted_cases:
  assumes ctx: "dr_ctx d = Live" and rs: "fmlookup (dr_steps d) i = Some rs"
    and run: "OnStepCompleted order i code d = Inr (d', launch, effs)"
  obtains
    (retry) "code \<noteq> 0" "may_retry rs" "d' = settle i code rs (fail_again code) d" "launch = []"
      "retries_of effs = [fail_again code rs]" "results_of effs = []"
  | (abort) "code \<noteq> 0" "dr_ctx d' = Cancelled" "dr_done d'" "launch = []" "retries_of effs = []"
      "results_of effs = [StatusFailed]" "rs_OnFailure rs = ''fail_run''"
  | (failed) effs' where "code \<noteq> 0" "\<not> may_retry rs"
      "finish_step i code rs ((settle i code rs (fail_with code) d)\<lparr>dr_failed := True\<rparr>) = (d', launch, effs')"
      "effs = DBStatus (rs_RunStepID rs) StatusFailed '''' code # effs'" "rs_OnFailure rs \<noteq> ''fail_run''"
  | (ok) effs' where "code = 0" "finish_step i code rs (settle i code rs succeed d) = (d', launch, effs')"
      "effs = DBStatus (rs_RunStepID rs) StatusCompleted '''' 0 # effs'"
proof (cases "code = 0")
  case True
  then show thesis
    using run ctx rs ok unfolding OnStepCompleted_def settle_def succeed_def
    by (auto simp: Let_def split: prod.splits)
next
  case False
  show thesis
  proof (cases "may_retry rs")
    case True
    have "upd_step i (\<lambda>r. r\<lparr>rs_Attempt := rs_Attempt rs + 1\<rparr>)
        (upd_step i (\<lambda>r. r\<lparr>rs_Status := StatusFailed, rs_ExitCode := Some code\<rparr>)
          (releaseSessionKey rs (record_result i code d))) = settle i code rs (fail_again code) d"
      using rs by (simp add: settle_def upd_step_twice) (simp add: upd_step_def fail_again_def)
    with False True show thesis
      using run ctx rs retry unfolding OnStepCompleted_def may_retry_def
      by (auto simp: Let_def fail_again_def publishStepEvent_def)
  next
    case no: False
    show thesis
    proof (cases "rs_OnFailure rs = ''fail_run''")
      case True
      let ?d = "(settle i code rs (fail_with code) d)\<lparr>dr_failed := True\<rparr>"
      obtain d2 e2 where fl: "fail_run_loop i order ?d = (d2, e2)" by (cases "fail_run_loop i order ?d")
      have "dr_ctx d2 = Live" "quiet e2" using fail_run_loop_frame [OF fl] ctx by simp_all
      with False no True fl show thesis
        using run ctx rs abort unfolding OnStepCompleted_def may_retry_def settle_def fail_with_def
        by (auto simp: Let_def quiet_def publishStepEvent_def)
    next
      case False
      with \<open>code \<noteq> 0\<close> no show thesis
        using run ctx rs failed unfolding OnStepCompleted_def may_retry_def settle_def fail_with_def
        by (auto simp: Let_def split: prod.splits)
    qed
  qed
qed

lemma live_step:
  assumes "live_inv deps d C R RT" and "i \<in> set R"
  obtains rs where "fmlookup (dr_steps d) i = Some rs" "rs_StepID rs = i"
    "rs_SessionKeySnapshot rs = skey d i" "rs_Status rs = StatusRunning" "i \<notin> rt_ids RT"
proof -
  have "stat d i = Some StatusRunning" "run_inv deps d C (rt_ids RT) R (dr_deferredSteps d)"
    and rt: "\<forall>v\<in>rt_ids RT. stat d v = Some StatusFailed"
    using assms by (auto simp: live_inv_def run_inv_def sched_inv_def)
  moreover from this obtain rs where "fmlookup (dr_steps d) i = Some rs" "rs_Status rs = StatusRunning"
    by (auto simp: stat_Some)
  moreover have "i \<notin> rt_ids RT" using rt \<open>stat d i = Some StatusRunning\<close> by auto
  ultimately show thesis using that run_inv_dom [of deps d C "rt_ids RT" R] by (simp add: skey_def)
qed

lemma queue_inv_finished:
  assumes "queue_inv deps d C RT []" and "Fin d' RT = insert i (Fin d RT)" and "i \<notin> Fin d RT"
    and "fl \<longleftrightarrow> stat d' i \<noteq> Some StatusCompleted"
  shows "queue_inv deps d' C RT [(i, fl)]"
  using assms by (auto simp: queue_inv_def)

lemma live_not_done:
  assumes "live_inv deps d C R RT" and "i \<in> set R"
  shows "\<not> all_done d"
proof -
  have "stat d i = Some StatusRunning" using assms by (auto simp: live_inv_def run_inv_def sched_inv_def)
  then show ?thesis unfolding all_done_def by (metis status_neq(12,14,16))
qed

text \<open>A completion that finishes its step keeps the invariant.\<close>

lemma finish_live:
  assumes live: "live_inv deps d C R RT" and i: "i \<in> set R" and rs: "fmlookup (dr_steps d) i = Some rs"
    and f: "rs_Status (f rs) = s" "rs_SessionKeySnapshot (f rs) = rs_SessionKeySnapshot rs"
      "rs_RunIfSnapshot (f rs) = rs_RunIfSnapshot rs" "rs_StepID (f rs) = rs_StepID rs"
    and s: "s = (if code \<noteq> 0 then StatusFailed else StatusCompleted)"
    and d0: "d0 = (settle i code rs f d)\<lparr>dr_failed := (dr_failed d \<or> code \<noteq> 0)\<rparr>"
    and fs: "finish_step i code rs d0 = (d', launch, effs)"
  shows "\<exists>C'. live_inv deps d' C' (remove1 i R @ map rs_StepID launch) RT" "dr_ctx d' = dr_ctx d"
    "dr_done d' = (dr_done d \<or> dr_completed d' = dr_total d')" "retries_of effs = []"
    "results_of effs = (if dr_completed d' = dr_total d'
       then [if dr_failed d' then StatusFailed else StatusCompleted] else [])"
    "insert i (Fin d (rt_ids RT)) \<subseteq> Fin d' (rt_ids RT)" "tries_left d' = tries_left (settle i code rs f d)"
    "fmdom' (dr_steps d') = fmdom' (dr_steps d)"
proof -
  obtain rs' where rs': "fmlookup (dr_steps d) i = Some rs'" "rs_SessionKeySnapshot rs' = skey d i" "i \<notin> rt_ids RT"
    using live i by (rule live_step)
  then have key: "rs_SessionKeySnapshot rs = skey d i" using rs by simp
  let ?d1 = "d0\<lparr>dr_completed := dr_completed d0 + 1\<rparr>"
  have steps: "dr_steps ?d1 = dr_steps (settle i code rs f d)" by (simp add: d0)
  have ch: "step_change d ?d1 i s"
    by (rule settle_change [OF rs f steps]) (simp_all add: d0)
  have inv: "run_inv deps d C (rt_ids RT) R (dr_deferredSteps d)" using live by (simp add: live_inv_def)
  have s': "s = StatusCompleted \<or> s = StatusFailed" using s by auto
  have k1: "dr_activeSessionKeys ?d1 = (if skey d i = '''' then dr_activeSessionKeys d
           else fmdrop (skey d i) (dr_activeSessionKeys d))"
    by (simp add: d0 settle_keys key)
  have k2: "dr_completed ?d1 = dr_completed d + 1" by (simp add: d0)
  have k3: "dr_failed ?d1 = (dr_failed d \<or> s = StatusFailed)" using s by (auto simp: d0)
  note fin' = run_inv_finish [OF inv i ch s' k1 k2 k3]
  have q: "queue_inv deps ?d1 C (rt_ids RT) [(i, code \<noteq> 0)]"
    using live fin'(2,3) ch s by (intro queue_inv_finished [of _ d]) (auto simp: live_inv_def step_change_def)
  have dfr: "dr_deferredSteps d0 = dr_deferredSteps d" by (simp add: d0)
  have ok: "defer_ok ?d1 (dr_deferredSteps d0)"
    using live change_blocked [OF ch] by (simp add: live_inv_def defer_ok_def dfr)
  have tot: "dr_total d0 = int (card (fmdom' (dr_steps d0)))" using live by (simp add: live_inv_def d0)
  have sk: "skey d0 = skey d" using ch by (simp add: step_change_def)
  obtain C' where out:
    "run_inv deps d' C' (rt_ids RT) (remove1 i R @ map rs_StepID launch) (dr_deferredSteps d')"
    "queue_inv deps d' C' (rt_ids RT) []" "defer_ok d' (dr_deferredSteps d')"
    "\<forall>v\<in>set (dr_deferredSteps d'). key_busy d' v" "skey d' = skey d0"
    "dr_total d' = int (card (fmdom' (dr_steps d')))" "dr_ctx d' = dr_ctx d0" "dr_failed d' = dr_failed d0"
    "dr_done d' = (dr_done d0 \<or> dr_completed d' = dr_total d')" "retries_of effs = []"
    "results_of effs = (if dr_completed d' = dr_total d'
       then [if dr_failed d' \<or> code \<noteq> 0 then StatusFailed else StatusCompleted] else [])"
    "Fin ?d1 (rt_ids RT) \<subseteq> Fin d' (rt_ids RT)" "tries_left d' = tries_left d0"
    "fmdom' (dr_steps d') = fmdom' (dr_steps d0)"
    using finish_step_inv [OF fin'(1) [folded dfr] refl q ok tot fs] by blast
  have "dr_deferredSteps d' \<noteq> [] \<longrightarrow> remove1 i R @ map rs_StepID launch \<noteq> []"
  proof
    assume "dr_deferredSteps d' \<noteq> []"
    then obtain v where "key_busy d' v" using out(4) by (cases "dr_deferredSteps d'") auto
    then show "remove1 i R @ map rs_StepID launch \<noteq> []" using key_busy_running [OF out(1)] by blast
  qed
  then have "live_inv deps d' C' (remove1 i R @ map rs_StepID launch) RT"
    using live out(1-6) sk unfolding live_inv_def by auto
  then show "\<exists>C'. live_inv deps d' C' (remove1 i R @ map rs_StepID launch) RT" ..
  show "dr_ctx d' = dr_ctx d" "dr_done d' = (dr_done d \<or> dr_completed d' = dr_total d')" "retries_of effs = []"
    "results_of effs = (if dr_completed d' = dr_total d'
       then [if dr_failed d' then StatusFailed else StatusCompleted] else [])"
    using out(7-11) by (auto simp: d0)
  show "insert i (Fin d (rt_ids RT)) \<subseteq> Fin d' (rt_ids RT)" "tries_left d' = tries_left (settle i code rs f d)"
    "fmdom' (dr_steps d') = fmdom' (dr_steps d)"
    using out(12-14) fin'(2) by (simp_all add: d0)
qed

lemma retry_live:
  fixes code :: int
  assumes live: "live_inv deps d C R RT" and i: "i \<in> set R" and rs: "fmlookup (dr_steps d) i = Some rs"
  defines "d' \<equiv> settle i code rs (fail_again code) d"
  shows "live_inv deps d' C (remove1 i R) (RT @ [fail_again code rs])"
proof -
  obtain rs' where rs': "fmlookup (dr_steps d) i = Some rs'" "rs_StepID rs' = i"
    "rs_SessionKeySnapshot rs' = skey d i" "i \<notin> rt_ids RT"
    using live i by (rule live_step)
  then have id: "rs_StepID (fail_again code rs) = i" "rs_SessionKeySnapshot rs = skey d i"
    "rs_SessionKeySnapshot (fail_again code rs) = skey d i" using rs by (simp_all add: fail_again_def)
  have ch: "step_change d d' i StatusFailed"
    by (rule settle_change [OF rs, where f = "fail_again code"]) (simp_all add: d'_def fail_again_def)
  have inv: "run_inv deps d C (rt_ids RT) R (dr_deferredSteps d)" using live by (simp add: live_inv_def)
  have "dr_activeSessionKeys d' = (if skey d i = '''' then dr_activeSessionKeys d
           else fmdrop (skey d i) (dr_activeSessionKeys d))"
    by (simp add: d'_def settle_keys id)
  note rt = run_inv_retry_scheduled [OF inv i ch this]
  have inv': "run_inv deps d' C (insert i (rt_ids RT)) (remove1 i R) (dr_deferredSteps d)"
    by (rule rt(1)) (simp_all add: d'_def)
  have nfin: "i \<notin> Fin d (rt_ids RT)" using inv i by (auto simp: run_inv_def sched_inv_def Fin_def)
  have "Fin d' (insert i (rt_ids RT)) = Fin d (rt_ids RT)"
    by (rule change_Fin_out [OF ch nfin]) auto
  then have "queue_inv deps d' C (insert i (rt_ids RT)) []"
    using live by (simp add: live_inv_def queue_inv_def)
  moreover have "defer_ok d' (dr_deferredSteps d)"
    using live change_blocked [OF ch] by (simp add: live_inv_def defer_ok_def)
  moreover have "skey d' = skey d" using ch by (simp add: step_change_def)
  ultimately show ?thesis
    using live inv' rs'(4) id by (auto simp: live_inv_def d'_def)
qed

lemma retry_fires_live:
  assumes live: "live_inv deps d C R RT" and rs: "rs \<in> set RT" and ctx: "dr_ctx d = Live"
    and run: "retry_step rs d = Inr (d', launch, effs)"
  shows "live_inv deps d' C (R @ map rs_StepID launch) (remove1 rs RT)" and "frame d d'"
    and "Fin d' (rt_ids (remove1 rs RT)) = Fin d (rt_ids RT)" and "\<not> all_done d'"
    and "set (map rs_StepID launch) \<subseteq> {rs_StepID rs}"
proof -
  let ?i = "rs_StepID rs"
  have inv: "run_inv deps d C (rt_ids RT) R (dr_deferredSteps d)" and dist: "distinct (map rs_StepID RT)"
    and key: "rs_SessionKeySnapshot rs = skey d ?i" using live rs by (auto simp: live_inv_def)
  have failed: "stat d ?i = Some StatusFailed" and nb: "\<not> blocked d ?i"
    using inv rs by (auto simp: run_inv_def sched_inv_def)
  then have look: "fmlookup (dr_steps d) ?i \<noteq> None" by (auto simp: stat_def)
  have ids: "rt_ids (remove1 rs RT) = rt_ids RT - {?i}"
    using dist rs by (auto simp: distinct_map set_remove1_eq dest: inj_onD)
  have dist': "distinct (map rs_StepID (remove1 rs RT))"
    using dist by (auto simp: distinct_map intro: inj_on_subset set_remove1_subset distinct_remove1)
  have nfin: "?i \<notin> Fin d (rt_ids RT)" using failed rs by (auto simp: Fin_def)
  have goal: "live_inv deps d' C (R @ map rs_StepID launch) (remove1 rs RT)"
    if ch: "step_change d d' ?i s" and s: "s = StatusPending \<or> s = StatusRunning" and fr: "frame d d'"
      and inv': "run_inv deps d' C (rt_ids RT - {?i}) (R @ map rs_StepID launch) (dr_deferredSteps d')"
      and ok: "defer_ok d' (dr_deferredSteps d')"
      and prog: "dr_deferredSteps d' \<noteq> [] \<longrightarrow> R @ map rs_StepID launch \<noteq> []" for s
  proof -
    have "Fin d' (rt_ids RT - {?i}) = Fin d (rt_ids RT)"
      using s by (intro change_Fin_out [OF ch nfin]) auto
    moreover have "skey d' = skey d" using ch by (simp add: step_change_def)
    ultimately show ?thesis
      using live inv' ok prog fr dist' ids unfolding live_inv_def queue_inv_def frame_def
      by (auto dest: set_remove1_subset [THEN subsetD])
  qed
  have main: "live_inv deps d' C (R @ map rs_StepID launch) (remove1 rs RT) \<and> frame d d' \<and>
      (\<exists>s. step_change d d' ?i s \<and> (s = StatusPending \<or> s = StatusRunning)) \<and>
      set (map rs_StepID launch) \<subseteq> {?i}"
    proof (cases "canLaunch d rs")
      case False
      then have busy: "key_busy d ?i"
        using key by (simp add: canLaunch_def key_busy_def split: if_splits)
      have out: "d' = (set_status ?i StatusPending d)\<lparr>dr_deferredSteps := dr_deferredSteps d @ [?i]\<rparr>" "launch = []"
        using run ctx look False by (auto simp: retry_step_def canLaunch_def split: if_splits)
      have ch: "step_change d d' ?i StatusPending"
        using failed by (intro change_set_status [where d0 = d]) (simp_all add: out)
      have "?i \<in> rt_ids RT" using rs by blast
      then have "run_inv deps d' C (rt_ids RT - {?i}) R (dr_deferredSteps d')"
        using run_inv_retry_deferred(1) [OF inv _ ch] by (simp add: out)
      moreover have "defer_ok d' (dr_deferredSteps d')"
        using live nb change_blocked [OF ch] by (simp add: live_inv_def defer_ok_def out)
      moreover have "frame d d'" by (simp add: out) (simp add: frame_def)
      ultimately show ?thesis
        using goal [OF ch] key_busy_running [OF inv busy] out ch by auto
    next
      case True
      have out: "d' = mark_running ?i rs d" "launch = [running_copy rs]"
        using run ctx look True by (auto simp: retry_step_def Let_def)
      have dom: "stat d ?i \<noteq> None" using failed by simp
      have ch: "step_change d d' ?i StatusRunning" unfolding out using dom by (rule mark_running_change)
      have "?i \<in> rt_ids RT" using rs by blast
      then have "run_inv deps d' C (rt_ids RT - {?i}) (R @ [?i]) (remove1 ?i (dr_deferredSteps d))"
        using run_inv_mark_running [OF inv dom _ key True nb] by (simp add: out)
      moreover have "?i \<notin> set (dr_deferredSteps d)"
        using inv failed by (auto simp: run_inv_def sched_inv_def)
      moreover have "defer_ok d' (dr_deferredSteps d)"
        using live change_blocked [OF ch] by (simp add: live_inv_def defer_ok_def)
      moreover have "rs_StepID (running_copy rs) = ?i" by (simp add: running_copy_def)
      moreover have "frame d d'" by (simp add: out)
      ultimately show ?thesis
        using goal [OF ch] ch by (auto simp: out remove1_idem)
    qed
  then show "live_inv deps d' C (R @ map rs_StepID launch) (remove1 rs RT)" and "frame d d'"
    and "set (map rs_StepID launch) \<subseteq> {rs_StepID rs}" by blast+
  obtain s where ch: "step_change d d' ?i s" and s: "s = StatusPending \<or> s = StatusRunning" using main by blast
  show "Fin d' (rt_ids (remove1 rs RT)) = Fin d (rt_ids RT)"
    unfolding ids using s by (intro change_Fin_out [OF ch nfin]) auto
  have "stat d' ?i = Some StatusPending \<or> stat d' ?i = Some StatusRunning"
    using ch s by (auto simp: step_change_def)
  then show "\<not> all_done d'" unfolding all_done_def by (metis status_neq)
qed

section \<open>Every reachable state satisfies the invariant\<close>

lemma sys_inv_live:
  assumes "dr_ctx d = Live" and "live_inv deps d C R RT"
    and "results = (if dr_completed d = dr_total d then [if dr_failed d then StatusFailed else StatusCompleted] else [])"
    and "dr_done d = (dr_completed d = dr_total d)"
  shows "sys_inv deps \<lparr>rn_d = d, rn_R = R, rn_RT = RT, rn_results = results\<rparr>"
  using assms live_completed_total [OF assms(2)] live_failed [of deps d C R]
  by (auto simp: sys_inv_def)

lemma sys_inv_step_complete:
  assumes inv: "sys_inv deps s" and i: "i \<in> set (rn_R s)"
    and run: "OnStepCompleted order i code (rn_d s) = Inr (d', launch, effs)"
  shows "sys_inv deps \<lparr>rn_d = d', rn_R = remove1 i (rn_R s) @ map rs_StepID launch,
       rn_RT = rn_RT s @ retries_of effs, rn_results = rn_results s @ results_of effs\<rparr>"
proof (cases "dr_ctx (rn_d s) = Live")
  case False
  then have "dr_ctx (rn_d s) = Cancelled" using inv by (auto simp: sys_inv_def)
  then show ?thesis using run inv by (auto simp: OnStepCompleted_def sys_inv_def)
next
  case ctx: True
  then obtain C where live: "live_inv deps (rn_d s) C (rn_R s) (rn_RT s)" using inv by (auto simp: sys_inv_def)
  have fresh: "rn_results s = []" "\<not> dr_done (rn_d s)"
    using inv ctx live_not_done [OF live i] by (auto simp: sys_inv_def)
  obtain rs where rs: "fmlookup (dr_steps (rn_d s)) i = Some rs" using live i by (rule live_step)
  from ctx rs run show ?thesis
  proof (cases rule: OnStepCompleted_cases)
    case retry
    have live': "live_inv deps d' C (remove1 i (rn_R s)) (rn_RT s @ [fail_again code rs])"
      using retry_live [OF live i rs] by (simp add: retry(3))
    then have "dr_completed d' \<noteq> dr_total d'" using live_completed_total [OF live'] by simp
    then show ?thesis
      using sys_inv_live [OF _ live'] ctx fresh retry by simp
  next
    case abort
    then show ?thesis using fresh by (simp add: sys_inv_def)
  next
    case (failed effs')
    note fl = finish_live [OF live i rs, of "fail_with code" StatusFailed code, OF _ _ _ _ _ refl]
    have fs: "finish_step i code rs ((settle i code rs (fail_with code) (rn_d s))\<lparr>dr_failed :=
        (dr_failed (rn_d s) \<or> code \<noteq> 0)\<rparr>) = (d', launch, effs')"
      using failed(1,3) by simp
    have out: "\<exists>C'. live_inv deps d' C' (remove1 i (rn_R s) @ map rs_StepID launch) (rn_RT s)" "dr_ctx d' = Live"
      "dr_done d' = (dr_completed d' = dr_total d')" "retries_of effs' = []"
      "results_of effs' = (if dr_completed d' = dr_total d'
         then [if dr_failed d' then StatusFailed else StatusCompleted] else [])"
      using fl [OF _ _ _ _ _ fs] failed(1) ctx fresh by (simp_all add: fail_with_def)
    then show ?thesis using fresh by (auto simp: failed(4) intro: sys_inv_live)
  next
    case (ok effs')
    note fl = finish_live [OF live i rs, of succeed StatusCompleted code, OF _ _ _ _ _ refl]
    have "(settle i code rs succeed (rn_d s))\<lparr>dr_failed := (dr_failed (rn_d s) \<or> code \<noteq> 0)\<rparr> =
        settle i code rs succeed (rn_d s)"
      using ok(1) by simp
    then have fs: "finish_step i code rs ((settle i code rs succeed (rn_d s))\<lparr>dr_failed :=
        (dr_failed (rn_d s) \<or> code \<noteq> 0)\<rparr>) = (d', launch, effs')" using ok(2) by metis
    have out: "\<exists>C'. live_inv deps d' C' (remove1 i (rn_R s) @ map rs_StepID launch) (rn_RT s)" "dr_ctx d' = Live"
      "dr_done d' = (dr_completed d' = dr_total d')" "retries_of effs' = []"
      "results_of effs' = (if dr_completed d' = dr_total d'
         then [if dr_failed d' then StatusFailed else StatusCompleted] else [])"
      using fl [OF _ _ _ _ _ fs] ok(1) ctx fresh by (simp_all add: succeed_def)
    then show ?thesis using fresh by (auto simp: ok(3) intro: sys_inv_live)
  qed
qed

lemma sys_inv_step_retry:
  assumes inv: "sys_inv deps s" and rs: "rs \<in> set (rn_RT s)"
    and run: "retry_step rs (rn_d s) = Inr (d', launch, effs)"
  shows "sys_inv deps \<lparr>rn_d = d', rn_R = rn_R s @ map rs_StepID launch,
       rn_RT = remove1 rs (rn_RT s), rn_results = rn_results s\<rparr>"
proof (cases "dr_ctx (rn_d s) = Live")
  case False
  then have "dr_ctx (rn_d s) = Cancelled" using inv by (auto simp: sys_inv_def)
  then show ?thesis using run inv by (auto simp: retry_step_def sys_inv_def)
next
  case ctx: True
  then obtain C where live: "live_inv deps (rn_d s) C (rn_R s) (rn_RT s)" using inv by (auto simp: sys_inv_def)
  have fresh: "rn_results s = []" "\<not> dr_done (rn_d s)"
    using inv ctx rs by (auto simp: sys_inv_def split: if_splits)
  note rf = retry_fires_live [OF live rs ctx run]
  have "dr_ctx d' = Live" "\<not> dr_done d'" using rf(2) ctx fresh by (simp_all add: frame_def)
  then show ?thesis using rf(1,4) fresh by (auto simp: sys_inv_def)
qed

lemma sys_inv_cancel:
  assumes "sys_inv deps s"
  shows "sys_inv deps (s\<lparr>rn_d := Cancel (rn_d s)\<rparr>)"
proof -
  have "verdict (Cancel (rn_d s)) = verdict (rn_d s)"
    by (simp add: verdict_def Cancel_def stat_def)
  then show ?thesis
    using assms by (auto simp: sys_inv_def Cancel_def split: if_splits)
qed

lemma SetStepValues_views [simp]:
  "stat (SetStepValues n vs d) = stat d" "dr_ctx (SetStepValues n vs d) = dr_ctx d"
  "dr_done (SetStepValues n vs d) = dr_done d" "dr_steps (SetStepValues n vs d) = dr_steps d"
  "live_inv deps (SetStepValues n vs d) C R RT = live_inv deps d C R RT"
  "verdict (SetStepValues n vs d) = verdict d" "all_done (SetStepValues n vs d) = all_done d"
  by (simp_all add: live_inv_def SetStepValues_def run_inv_def inv_defs stat_def skey_def run_all_def blocked_def
      Fin_def fun_eq_iff defer_ok_def queue_inv_def verdict_def all_done_def)

lemma sys_inv_init:
  assumes "run_init deps s"
  shows "sys_inv deps s"
proof -
  obtain d order launch effs d' v where st: "startable deps d" and v: "stat d v = Some StatusPending"
    and ord: "enumerates order (dr_inDegree d)" and run: "Start order d = Inr (d', launch, effs)"
    and s: "s = \<lparr>rn_d = d', rn_R = map rs_StepID launch, rn_RT = [], rn_results = []\<rparr>"
    using assms by (auto simp: run_init_def)
  obtain C where out: "run_inv deps d' C {} (map rs_StepID launch) (dr_deferredSteps d')" "queue_inv deps d' C {} []"
    "\<forall>v. \<not> blocked d' v" "\<forall>v\<in>set (dr_deferredSteps d'). key_busy d' v" "adv {} (d\<lparr>dr_ctx := Live\<rparr>) d' []"
    using Start_inv [OF st ord] run by auto
  have fr: "frame (d\<lparr>dr_ctx := Live\<rparr>) d'" and fin: "Fin d' {} = Fin d {}" using out(5) by (simp_all add: adv_def)
  have ctx: "dr_ctx d' = Live" "\<not> dr_done d'" using fr st by (simp_all add: frame_def startable_def)
  have live: "live_inv deps d' C (map rs_StepID launch) []"
    using out fr st key_busy_running [OF out(1)]
    by (auto simp: live_inv_def defer_ok_def frame_def startable_def neq_Nil_conv)
  have "v \<notin> Fin d {}" using v by (simp add: Fin_def)
  moreover have "v \<in> fmdom' (dr_steps d')" using v stat_dom [of d v] fr by (simp add: frame_def)
  ultimately have "card (Fin d' {}) < card (fmdom' (dr_steps d'))"
    unfolding fin by (intro psubset_card_mono) (use fin_subset_dom [of d' "{}"] fin in auto)
  then have "dr_completed d' \<noteq> dr_total d'"
    using live by (simp add: live_inv_def run_inv_def count_inv_def)
  then show ?thesis using ctx by (auto simp: s intro!: sys_inv_live [OF ctx(1) live])
qed

interpretation run_system: invariant_system "run_init deps" run_step "sys_inv deps" for deps
proof
  fix s t
  show "run_init deps s \<Longrightarrow> sys_inv deps s" by (rule sys_inv_init)
  assume inv: "sys_inv deps s" and "run_step s t"
  from this(2) show "sys_inv deps t"
  proof cases
    case step_work
    then show ?thesis
      by cases (use inv sys_inv_step_complete sys_inv_step_retry in \<open>auto\<close>)
  next
    case step_values
    then show ?thesis using inv by (auto simp: sys_inv_def)
  qed (use inv sys_inv_cancel in \<open>auto\<close>)
qed

end
