(* ===== verification/Dag_Run_Props.thy ===== *)
theory Dag_Run_Props
  imports Dag_Run
begin

text \<open>
  What a run guarantees, over every interleaving of completions, retries, cancellation and
  task values: the completion callback fires at most once and with the right verdict, steps
  run only after their dependencies and under their run condition, two steps never share a
  session key, the run neither panics nor deadlocks, and it ends after boundedly many
  steps. The initial states are those a new runner starts from.
\<close>

section \<open>A new runner can be started\<close>

lemma step_map_lookup:
  "distinct (map rs_StepID rss) \<Longrightarrow> set (map rs_StepID rss) \<inter> fmdom' m = {} \<Longrightarrow>
   fmlookup (step_map rss m) v = (case find (\<lambda>rs. rs_StepID rs = v) rss of
      None \<Rightarrow> fmlookup m v | Some rs \<Rightarrow> Some rs)"
proof (induction rss m rule: step_map.induct)
  case (2 rs rest m)
  have "find (\<lambda>r. rs_StepID r = rs_StepID rs) rest = None" using "2.prems" by (auto simp: find_None_iff image_iff)
  with 2 show ?case by (auto split: option.splits)
qed simp

lemma new_runner_views:
  assumes "distinct (map rs_StepID rss)" and d_def: "d = NewDAGRunner runID jobID rss deps ps meta names"
  shows "fmlookup (dr_steps d) v = find (\<lambda>rs. rs_StepID rs = v) rss"
    and "fmdom' (dr_steps d) = rs_StepID ` set rss"
    and "stat d v = map_option rs_Status (find (\<lambda>rs. rs_StepID rs = v) rss)"
proof -
  show look: "fmlookup (dr_steps d) v = find (\<lambda>rs. rs_StepID rs = v) rss" for v
    using step_map_lookup [of rss fmempty v] assms(1)
    by (simp add: d_def NewDAGRunner_def split: option.splits)
  show "stat d v = map_option rs_Status (find (\<lambda>rs. rs_StepID rs = v) rss)"
    by (simp add: stat_def look)
  show "fmdom' (dr_steps d) = rs_StepID ` set rss"
  proof (rule set_eqI)
    fix w
    have "w \<in> fmdom' (dr_steps d) \<longleftrightarrow> find (\<lambda>rs. rs_StepID rs = w) rss \<noteq> None"
      by (auto simp: fmlookup_dom'_iff look)
    also have "\<dots> \<longleftrightarrow> w \<in> rs_StepID ` set rss" by (auto simp: find_None_iff)
    finally show "w \<in> fmdom' (dr_steps d) \<longleftrightarrow> w \<in> rs_StepID ` set rss" .
  qed
qed

definition graph_ok :: "string set \<Rightarrow> StepDependency list \<Rightarrow> bool" where
  "graph_ok V deps \<longleftrightarrow> distinct deps \<and> (\<forall>u v. (u, v) \<in> edges deps \<longrightarrow> u \<in> V \<and> v \<in> V)"

lemma open_cnt_empty: "open_cnt {} deps v = open_edges {} deps v"
  by (simp add: open_cnt_def open_edges_def)

lemma new_runner_static:
  assumes "distinct (map rs_StepID rss)" and "graph_ok (rs_StepID ` set rss) deps"
    and "\<forall>rs\<in>set rss. rs_Status rs = StatusPending \<or> rs_Status rs = StatusCompleted"
    and d_def: "d = NewDAGRunner runID jobID rss deps ps meta names"
  shows "static_inv deps d" and "stat d v = Some s \<Longrightarrow> s = StatusPending \<or> s = StatusCompleted"
    and "fmdom' (dr_inDegree d) = fmdom' (dr_steps d)" and "dr_total d = int (card (fmdom' (dr_steps d)))"
proof -
  note nv = new_runner_views [OF assms(1) d_def]
  show ok: "s = StatusPending \<or> s = StatusCompleted" if "stat d v = Some s" for v s
    using that assms(3) unfolding nv(3) by (auto simp: find_Some_iff)
  have dom: "stat d v \<noteq> None \<longleftrightarrow> v \<in> rs_StepID ` set rss" for v
    using stat_dom [of d v] nv(2) by simp
  have "rs_StepID rs = v" if "fmlookup (dr_steps d) v = Some rs" for v rs
    using that unfolding nv(1) by (auto simp: find_Some_iff)
  moreover have "getd [] (dr_dependents d) u = succs deps u" for u
    by (simp add: d_def NewDAGRunner_def getd_adjacency)
  moreover have "\<forall>v s. stat d v = Some s \<longrightarrow>
      s \<in> {StatusPending, StatusRunning, StatusCompleted, StatusFailed, StatusSkipped}"
    using ok by blast
  ultimately show "static_inv deps d"
    using assms(2) dom unfolding static_inv_def graph_ok_def by blast
  have "dep_StepID ` set deps \<subseteq> rs_StepID ` set rss"
    using assms(2) by (auto simp: graph_ok_def edges_def)
  then show "fmdom' (dr_inDegree d) = fmdom' (dr_steps d)"
    unfolding nv(2) by (auto simp: d_def NewDAGRunner_def fmdom'_in_degrees)
  have "card (rs_StepID ` set rss) = length rss" using distinct_card [OF assms(1)] by simp
  then show "dr_total d = int (card (fmdom' (dr_steps d)))" unfolding nv(2) by (simp add: d_def NewDAGRunner_def)
qed

lemma startable_new:
  assumes "distinct (map rs_StepID rss)" and "\<forall>rs\<in>set rss. rs_Status rs = StatusPending"
    and "graph_ok (rs_StepID ` set rss) deps"
  shows "startable deps (NewDAGRunner runID jobID rss deps ps meta names)" (is "startable deps ?d")
proof -
  have pc: "\<forall>rs\<in>set rss. rs_Status rs = StatusPending \<or> rs_Status rs = StatusCompleted" using assms(2) by simp
  note st = new_runner_static [OF assms(1,3) pc refl, of runID jobID ps meta names]
  have "stat ?d u \<noteq> Some StatusCompleted" for u
    using assms(2) unfolding new_runner_views(3) [OF assms(1) refl] by (auto simp: find_Some_iff)
  then have none: "{u. stat ?d u = Some StatusCompleted} = {}" by simp
  have "getd 0 (dr_inDegree ?d) v = int (open_cnt {} deps v)" for v
    by (simp add: NewDAGRunner_def getd_in_degrees open_cnt_empty)
  moreover have "closed_edges deps ?d {} = {}" by (simp add: closed_edges_def)
  ultimately show ?thesis
    unfolding startable_def none using st by (simp add: NewDAGRunner_def)
qed

section \<open>Progress\<close>

lemma live_progress:
  assumes live: "live_inv deps d C R RT" and ac: "acyclic (edges deps)" and v: "stat d v \<noteq> None"
    and todo: "\<not> (all_done d \<and> RT = [])"
  shows "R \<noteq> [] \<or> RT \<noteq> []"
proof (rule ccontr)
  assume "\<not> (R \<noteq> [] \<or> RT \<noteq> [])"
  then have quiet: "R = []" "RT = []" "dr_deferredSteps d = []" using live by (auto simp: live_inv_def)
  let ?U = "{v. stat d v \<noteq> None} - Fin d {}"
  have "?U \<noteq> {}" using todo quiet(2) by (fastforce simp: all_done_def Fin_def)
  moreover have "wf (edges deps)" using ac by (simp add: finite_acyclic_wf)
  ultimately obtain w where w: "w \<in> ?U" and min: "\<And>u. (u, w) \<in> edges deps \<Longrightarrow> u \<notin> ?U"
    by (metis wf_eq_minimal ex_in_conv)
  have run: "run_inv deps d C {} [] []" and q: "queue_inv deps d C {} []"
    using live quiet by (simp_all add: live_inv_def)
  have "u \<in> Fin d {}" if "(u, w) \<in> edges deps" for u
  proof -
    have "stat d u \<noteq> None" using run that unfolding run_inv_def static_inv_def by blast
    with min [OF that] show ?thesis by simp
  qed
  then have "open_cnt C deps w = 0" using q by (auto simp: open_cnt_0 queue_inv_def)
  moreover obtain s where s: "stat d w = Some s" using w by auto
  moreover have "s \<noteq> StatusRunning" "s \<noteq> StatusPending \<or> open_cnt C deps w \<noteq> 0"
    using run s by (auto simp: run_inv_def sched_inv_def)
  moreover have "s \<in> {StatusPending, StatusRunning, StatusCompleted, StatusFailed, StatusSkipped}"
    using run s by (auto simp: run_inv_def static_inv_def)
  ultimately show False using w by (auto simp: Fin_def)
qed

lemma handlers_total:
  assumes live: "live_inv deps d C R RT" and ctx: "dr_ctx d = Live"
  shows "\<exists>r. OnStepCompleted order i code d = Inr r" and "rs \<in> set RT \<Longrightarrow> \<exists>r. retry_step rs d = Inr r"
proof -
  have "dr_ctx (fst (fail_run_loop i order (d0\<lparr>dr_failed := b\<rparr>))) = dr_ctx d0" for d0 b
    using fail_run_loop_frame [of i order "d0\<lparr>dr_failed := b\<rparr>"] by (cases "fail_run_loop i order (d0\<lparr>dr_failed := b\<rparr>)") simp
  then show "\<exists>r. OnStepCompleted order i code d = Inr r"
    using ctx by (auto simp: OnStepCompleted_def Let_def split_def split: option.splits)
  assume "rs \<in> set RT"
  then have "stat d (rs_StepID rs) = Some StatusFailed"
    using live by (auto simp: live_inv_def run_inv_def sched_inv_def)
  then show "\<exists>r. retry_step rs d = Inr r"
    using ctx by (auto simp: retry_step_def Let_def stat_Some)
qed

section \<open>Termination\<close>

definition step_weight :: "run_sys \<Rightarrow> string \<Rightarrow> nat" where
  "step_weight s v = (let k = tries_left (rn_d s) v
     in if v \<in> rt_ids (rn_RT s) then 3 * k + 3
        else if v \<in> set (rn_R s) then 3 * k + 1
        else if v \<in> Fin (rn_d s) (rt_ids (rn_RT s)) then 0 else 3 * k + 2)"

definition run_weight :: "run_sys \<Rightarrow> nat" where
  "run_weight s = sum (step_weight s) (fmdom' (dr_steps (rn_d s)))"

lemma run_weight_less:
  assumes "fmdom' (dr_steps (rn_d t)) = fmdom' (dr_steps (rn_d s))" and "i \<in> fmdom' (dr_steps (rn_d s))"
    and "\<And>v. step_weight t v \<le> step_weight s v" and "step_weight t i < step_weight s i"
  shows "run_weight t < run_weight s"
  unfolding run_weight_def assms(1) using assms(2-4) by (intro sum_strict_mono_ex1) auto

lemma settle_tries:
  assumes "fmlookup (dr_steps d) i = Some rs"
  shows "tries_left (settle i code rs f d) v = (if v = i
     then (if rs_MaxRetriesSnapshot (f rs) > 0 then nat (rs_MaxRetriesSnapshot (f rs) + 1 - rs_Attempt (f rs)) else 0)
     else tries_left d v)"
  using assms by (simp add: tries_left_def settle_def lookup_upd_step)

lemma live_sets:
  assumes "live_inv deps d C R RT"
  shows "v \<in> set R \<Longrightarrow> v \<notin> Fin d (rt_ids RT)" "v \<in> rt_ids RT \<Longrightarrow> v \<notin> set R"
    "v \<in> set R \<Longrightarrow> v \<in> fmdom' (dr_steps d)" "v \<in> rt_ids RT \<Longrightarrow> v \<in> fmdom' (dr_steps d)"
    "v \<in> rt_ids RT \<Longrightarrow> v \<notin> Fin d (rt_ids RT)"
proof -
  have R: "\<forall>v. v \<in> set R \<longleftrightarrow> stat d v = Some StatusRunning" and RT: "\<forall>v\<in>rt_ids RT. stat d v = Some StatusFailed"
    using assms by (simp_all add: live_inv_def run_inv_def sched_inv_def)
  show "v \<in> set R \<Longrightarrow> v \<notin> Fin d (rt_ids RT)" "v \<in> rt_ids RT \<Longrightarrow> v \<notin> set R"
    "v \<in> rt_ids RT \<Longrightarrow> v \<notin> Fin d (rt_ids RT)"
    using R RT by (auto simp: Fin_def)
  show "v \<in> set R \<Longrightarrow> v \<in> fmdom' (dr_steps d)" "v \<in> rt_ids RT \<Longrightarrow> v \<in> fmdom' (dr_steps d)"
    using R RT stat_dom [of d v] by auto
qed

lemma finish_weight:
  assumes live: "live_inv deps d C R RT" and live': "live_inv deps d' C' (remove1 i R @ L) RT" and i: "i \<in> set R"
    and fin: "insert i (Fin d (rt_ids RT)) \<subseteq> Fin d' (rt_ids RT)"
    and tr: "tries_left d' = tries_left d" and dom: "fmdom' (dr_steps d') = fmdom' (dr_steps d)"
  shows "run_weight \<lparr>rn_d = d', rn_R = remove1 i R @ L, rn_RT = RT, rn_results = r'\<rparr>
       < run_weight \<lparr>rn_d = d, rn_R = R, rn_RT = RT, rn_results = r\<rparr>"
proof -
  let ?s = "\<lparr>rn_d = d, rn_R = R, rn_RT = RT, rn_results = r\<rparr>"
    and ?t = "\<lparr>rn_d = d', rn_R = remove1 i R @ L, rn_RT = RT, rn_results = r'\<rparr>"
  have dist: "distinct R" using live by (simp add: live_inv_def run_inv_def sched_inv_def)
  have le: "step_weight ?t v \<le> step_weight ?s v" for v
    using live_sets [OF live, of v] live_sets [OF live', of v] fin dist tr
    by (auto simp: step_weight_def Let_def)
  have "i \<in> Fin d' (rt_ids RT)" "i \<notin> rt_ids RT" using fin live_sets [OF live, of i] i by auto
  moreover from this have "i \<notin> set (remove1 i R @ L)" using live_sets(1) [OF live', of i] by blast
  ultimately have "step_weight ?t i < step_weight ?s i" using i by (simp add: step_weight_def Let_def)
  then show ?thesis
    using le live_sets(3) [OF live i] dom by (intro run_weight_less) auto
qed

lemma retry_weight:
  assumes live: "live_inv deps d C R RT" and i: "i \<in> set R" and rs: "fmlookup (dr_steps d) i = Some rs"
    and may: "may_retry rs" and live': "live_inv deps d' C (remove1 i R) (RT @ [fail_again code rs])"
    and d': "d' = settle i code rs (fail_again code) d" and ids: "rs_StepID rs = i"
  shows "run_weight \<lparr>rn_d = d', rn_R = remove1 i R, rn_RT = RT @ [fail_again code rs], rn_results = r'\<rparr>
       < run_weight \<lparr>rn_d = d, rn_R = R, rn_RT = RT, rn_results = r\<rparr>"
proof -
  let ?s = "\<lparr>rn_d = d, rn_R = R, rn_RT = RT, rn_results = r\<rparr>"
    and ?t = "\<lparr>rn_d = d', rn_R = remove1 i R, rn_RT = RT @ [fail_again code rs], rn_results = r'\<rparr>"
  have dist: "distinct R" using live by (simp add: live_inv_def run_inv_def sched_inv_def)
  have rt: "rt_ids (RT @ [fail_again code rs]) = insert i (rt_ids RT)" by (simp add: fail_again_def ids)
  have less: "step_weight ?t i < step_weight ?s i"
    using i may settle_tries [OF rs, of code "fail_again code" i] live_sets(2) [OF live, of i] rs
    by (auto simp: step_weight_def Let_def d' rt fail_again_def may_retry_def tries_left_def)
  have "step_weight ?t v = step_weight ?s v" if "v \<noteq> i" for v
  proof -
    have "stat d' v = stat d v" using that by (simp add: d' settle_def stat_def lookup_upd_step)
    then have "v \<in> Fin d' (insert i (rt_ids RT)) \<longleftrightarrow> v \<in> Fin d (rt_ids RT)" using that by (simp add: Fin_def)
    then show ?thesis
      using that dist settle_tries [OF rs, of code "fail_again code" v]
      unfolding step_weight_def Let_def run_sys.simps rt by (simp add: d')
  qed
  with less have "step_weight ?t v \<le> step_weight ?s v" for v by (cases "v = i") simp_all
  with less show ?thesis
    using live_sets(3) [OF live i] by (intro run_weight_less) (simp_all add: d')
qed

lemma retry_fires_weight:
  assumes live: "live_inv deps d C R RT" and rs: "rs \<in> set RT"
    and live': "live_inv deps d' C' (R @ L) (remove1 rs RT)" and fr: "frame d d'"
    and fin: "Fin d' (rt_ids (remove1 rs RT)) = Fin d (rt_ids RT)"
    and L: "set L \<subseteq> {rs_StepID rs}"
  shows "run_weight \<lparr>rn_d = d', rn_R = R @ L, rn_RT = remove1 rs RT, rn_results = r'\<rparr>
       < run_weight \<lparr>rn_d = d, rn_R = R, rn_RT = RT, rn_results = r\<rparr>"
proof -
  let ?i = "rs_StepID rs"
  let ?s = "\<lparr>rn_d = d, rn_R = R, rn_RT = RT, rn_results = r\<rparr>"
    and ?t = "\<lparr>rn_d = d', rn_R = R @ L, rn_RT = remove1 rs RT, rn_results = r'\<rparr>"
  have "distinct (map rs_StepID RT)" using live by (simp add: live_inv_def)
  then have rt: "rt_ids (remove1 rs RT) = rt_ids RT - {?i}"
    using rs by (auto simp: distinct_map set_remove1_eq dest: inj_onD)
  have i: "?i \<in> rt_ids RT" using rs by blast
  have tr: "tries_left d' = tries_left d" and dom: "fmdom' (dr_steps d') = fmdom' (dr_steps d)"
    using fr by (simp_all add: frame_def)
  have less: "step_weight ?t ?i < step_weight ?s ?i"
    using i rt tr by (auto simp: step_weight_def Let_def)
  have "step_weight ?t v \<le> step_weight ?s v" if "v \<noteq> ?i" for v
    using that L fin tr unfolding step_weight_def Let_def run_sys.simps fin tr rt by auto
  with less have "step_weight ?t v \<le> step_weight ?s v" for v by (cases "v = ?i") simp_all
  with less show ?thesis
    using live_sets(4) [OF live i] dom by (intro run_weight_less) simp_all
qed

lemma work_step_weight:
  assumes inv: "sys_inv deps s" and ctx: "dr_ctx (rn_d s) = Live" and step: "work_step s t"
    and ctx': "dr_ctx (rn_d t) = Live"
  shows "run_weight t < run_weight s"
proof -
  obtain C where live: "live_inv deps (rn_d s) C (rn_R s) (rn_RT s)" using inv ctx by (auto simp: sys_inv_def)
  have s: "\<lparr>rn_d = rn_d s, rn_R = rn_R s, rn_RT = rn_RT s, rn_results = rn_results s\<rparr> = s" by simp
  from step show ?thesis
  proof cases
    case (step_retry rs d' launch effs)
    note rf = retry_fires_live [OF live step_retry(2) ctx step_retry(3)]
    show ?thesis
      unfolding step_retry(1)
      using retry_fires_weight [OF live step_retry(2) rf(1,2,3,5), of _ "rn_results s"] unfolding s by simp
  next
    case (step_complete i order code d' launch effs)
    obtain rs where rs: "fmlookup (dr_steps (rn_d s)) i = Some rs" "rs_StepID rs = i"
      using live step_complete(2) by (rule live_step)
    from ctx rs(1) step_complete(4) show ?thesis
    proof (cases rule: OnStepCompleted_cases)
      case retry
      have "live_inv deps d' C (remove1 i (rn_R s)) (rn_RT s @ [fail_again code rs])"
        using retry_live [OF live step_complete(2) rs(1)] by (simp add: retry(3))
      then show ?thesis
        using retry_weight [OF live step_complete(2) rs(1) retry(2) _ retry(3) rs(2), of "rn_results s" "rn_results s"]
          retry(4-6) unfolding s by (simp add: step_complete(1))
    next
      case abort
      then show ?thesis using ctx' by (simp add: step_complete(1))
    next
      case (failed effs')
      have "finish_step i code rs ((settle i code rs (fail_with code) (rn_d s))\<lparr>dr_failed :=
          (dr_failed (rn_d s) \<or> code \<noteq> 0)\<rparr>) = (d', launch, effs')"
        using failed(1,3) by simp
      note fl = finish_live [OF live step_complete(2) rs(1), of "fail_with code", OF refl _ _ _ _ refl this]
      have "tries_left (settle i code rs (fail_with code) (rn_d s)) = tries_left (rn_d s)"
        using settle_tries [OF rs(1), of code "fail_with code"] rs(1) by (auto simp: fail_with_def tries_left_def)
      then show ?thesis
        using fl failed(1) finish_weight [OF live _ step_complete(2), of _ _ _ _ "rn_results s"] unfolding s
        by (auto simp: step_complete(1) failed(4) fail_with_def)
    next
      case (ok effs')
      have "(settle i code rs succeed (rn_d s))\<lparr>dr_failed := (dr_failed (rn_d s) \<or> code \<noteq> 0)\<rparr> =
          settle i code rs succeed (rn_d s)" using ok(1) by simp
      then have "finish_step i code rs ((settle i code rs succeed (rn_d s))\<lparr>dr_failed :=
          (dr_failed (rn_d s) \<or> code \<noteq> 0)\<rparr>) = (d', launch, effs')" using ok(2) by metis
      note fl = finish_live [OF live step_complete(2) rs(1), of succeed, OF refl _ _ _ _ refl this]
      have "tries_left (settle i code rs succeed (rn_d s)) = tries_left (rn_d s)"
        using settle_tries [OF rs(1), of code succeed] rs(1) by (auto simp: succeed_def tries_left_def)
      then show ?thesis
        using fl ok(1) finish_weight [OF live _ step_complete(2), of _ _ _ _ "rn_results s"] unfolding s
        by (auto simp: step_complete(1) ok(3) succeed_def)
    qed
  qed
qed

lemma work_step_ctx: "work_step s t \<Longrightarrow> dr_ctx (rn_d t) = Live \<Longrightarrow> sys_inv deps s \<Longrightarrow> dr_ctx (rn_d s) = Live"
  by (erule work_step.cases) (auto simp: sys_inv_def OnStepCompleted_def retry_step_def)

lemma work_steps_bounded:
  "(work_step ^^ n) s t \<Longrightarrow> sys_inv deps s \<Longrightarrow> dr_ctx (rn_d t) = Live \<Longrightarrow>
     n + run_weight t \<le> run_weight s \<and> dr_ctx (rn_d s) = Live \<and> sys_inv deps t"
proof (induction n arbitrary: t)
  case (Suc n)
  then obtain u where u: "(work_step ^^ n) s u" "work_step u t" by (auto simp: relpowp.simps)
  have "sys_inv deps u"
    using u(1) Suc.prems(2)
  proof (induction n arbitrary: u)
    case (Suc n)
    then show ?case by (auto simp: relpowp.simps intro: run_system.inv_step step_work)
  qed simp
  then have "dr_ctx (rn_d u) = Live" using u(2) Suc.prems(3) by (blast intro: work_step_ctx)
  then show ?case
    using Suc.IH [OF u(1) Suc.prems(2)] work_step_weight [of deps u t] u(2) Suc.prems(3) \<open>sys_inv deps u\<close>
    by (auto intro: run_system.inv_step step_work)
qed simp

section \<open>The guarantees\<close>

text \<open>Two pending steps, the second depending on the first, and the state after \<open>Start\<close>.\<close>

definition rs_a :: RunStep where
  "rs_a = scan_run_step (snapshot_row ''x1'' ''r'' (step1\<lparr>st_StepID := ''a''\<rparr>))"

definition rs_b :: RunStep where
  "rs_b = scan_run_step (snapshot_row ''x2'' ''r'' (step1\<lparr>st_StepID := ''b''\<rparr>))"

definition runner_ab :: DAGRunner where
  "runner_ab = NewDAGRunner ''r'' ''j'' [rs_a, rs_b] deps_ab fmempty meta0 fmempty"

definition start_sys :: "string list \<Rightarrow> DAGRunner \<Rightarrow> run_sys" where
  "start_sys order d = (case Start order d of
     Inl p \<Rightarrow> \<lparr>rn_d = d, rn_R = [], rn_RT = [], rn_results = []\<rparr>
   | Inr (d', launch, effs) \<Rightarrow> \<lparr>rn_d = d', rn_R = map rs_StepID launch, rn_RT = [], rn_results = []\<rparr>)"

definition sys_ab :: run_sys where
  "sys_ab = start_sys [''a'', ''b''] runner_ab"

definition complete_sys :: "string list \<Rightarrow> string \<Rightarrow> int \<Rightarrow> run_sys \<Rightarrow> run_sys" where
  "complete_sys order i code s = (case OnStepCompleted order i code (rn_d s) of
     Inl p \<Rightarrow> s
   | Inr (d', launch, effs) \<Rightarrow> \<lparr>rn_d = d', rn_R = remove1 i (rn_R s) @ map rs_StepID launch,
       rn_RT = rn_RT s @ retries_of effs, rn_results = rn_results s @ results_of effs\<rparr>)"

text \<open>The first step succeeds, or fails; two independent steps with one session key.\<close>

definition sys_ok :: run_sys where
  "sys_ok = complete_sys [''a'', ''b''] ''a'' 0 sys_ab"

definition sys_bad :: run_sys where
  "sys_bad = complete_sys [''a'', ''b''] ''a'' 1 sys_ab"

definition runner_key :: DAGRunner where
  "runner_key = NewDAGRunner ''r'' ''j'' [rs_a\<lparr>rs_SessionKeySnapshot := ''k''\<rparr>,
     rs_b\<lparr>rs_SessionKeySnapshot := ''k''\<rparr>] [] fmempty meta0 fmempty"

definition sys_key :: run_sys where
  "sys_key = start_sys [''a'', ''b''] runner_key"

lemma run_init_start:
  assumes "startable deps d" and "stat d v = Some StatusPending" and "enumerates order (dr_inDegree d)"
  shows "run_init deps (start_sys order d)"
proof -
  obtain d' launch effs where "Start order d = Inr (d', launch, effs)" using Start_inv [OF assms(1,3)] by blast
  with assms show ?thesis unfolding run_init_def start_sys_def by fastforce
qed

lemma complete_step:
  assumes "i \<in> set (rn_R s)" and "enumerates order (dr_steps (rn_d s))"
    and "\<exists>r. OnStepCompleted order i code (rn_d s) = Inr r"
  shows "work_step s (complete_sys order i code s)"
proof -
  obtain d' launch effs where "OnStepCompleted order i code (rn_d s) = Inr (d', launch, effs)"
    using assms(3) by (metis prod.exhaust)
  with work_step.step_complete [OF assms(1,2) this] show ?thesis by (simp add: complete_sys_def)
qed

lemma rs_ab_simps [simp]:
  "rs_StepID rs_a = ''a''" "rs_StepID rs_b = ''b''" "rs_Status rs_a = StatusPending" "rs_Status rs_b = StatusPending"
  by (simp_all add: rs_a_def rs_b_def scan_run_step_def snapshot_row_def step1_def step0_def)

lemma sys_ab_reachable: "reachable (run_init deps_ab) run_step sys_ab"
  and sys_key_reachable: "reachable (run_init []) run_step sys_key"
proof -
  have "startable deps_ab runner_ab"
    unfolding runner_ab_def by (rule startable_new) (auto simp: graph_ok_def edges_def deps_ab_def)
  moreover have "enumerates [''a'', ''b''] (dr_inDegree runner_ab)"
    by (auto simp: enumerates_def runner_ab_def NewDAGRunner_def fmdom'_in_degrees deps_ab_def)
  moreover have "stat runner_ab ''a'' = Some StatusPending" by code_simp
  ultimately show "reachable (run_init deps_ab) run_step sys_ab"
    unfolding sys_ab_def by (intro reach_init run_init_start)
  have "startable [] runner_key"
    unfolding runner_key_def by (rule startable_new) (auto simp: graph_ok_def edges_def)
  moreover have "enumerates [''a'', ''b''] (dr_inDegree runner_key)"
    by (auto simp: enumerates_def runner_key_def NewDAGRunner_def fmdom'_in_degrees)
  moreover have "stat runner_key ''a'' = Some StatusPending" by code_simp
  ultimately show "reachable (run_init []) run_step sys_key"
    unfolding sys_key_def by (intro reach_init run_init_start)
qed

lemma sys_ab_views:
  "rn_R sys_ab = [''a'']" "rn_results sys_ab = []" "dr_ctx (rn_d sys_ab) = Live"
  "stat (rn_d sys_ab) ''a'' = Some StatusRunning" "dr_ctx (rn_d sys_ok) = Live" "dr_ctx (rn_d sys_bad) = Live"
  by (code_simp+)

lemma sys_ab_completes:
  "work_step sys_ab (complete_sys [''a'', ''b''] ''a'' code sys_ab)"
proof (rule complete_step)
  have "fmdom' (dr_steps (rn_d sys_ab)) = {''a'', ''b''}" by code_simp
  then show "enumerates [''a'', ''b''] (dr_steps (rn_d sys_ab))" by (auto simp: enumerates_def)
  obtain C where "live_inv deps_ab (rn_d sys_ab) C (rn_R sys_ab) (rn_RT sys_ab)"
    using run_system.reachable_inv [OF sys_ab_reachable] sys_ab_views(3) by (auto simp: sys_inv_def)
  then show "\<exists>r. OnStepCompleted [''a'', ''b''] ''a'' code (rn_d sys_ab) = Inr r"
    using sys_ab_views(3) by (rule handlers_total)
qed (simp add: sys_ab_views)

lemma sys_done_reachable:
  "reachable (run_init deps_ab) run_step sys_ok" "reachable (run_init deps_ab) run_step sys_bad"
proof -
  have "run_step sys_ab sys_ok" "run_step sys_ab sys_bad"
    unfolding sys_ok_def sys_bad_def by (rule step_work, rule sys_ab_completes)+
  then show "reachable (run_init deps_ab) run_step sys_ok" "reachable (run_init deps_ab) run_step sys_bad"
    using sys_ab_reachable by (metis reach_step)+
qed



text \<open>
  C3. A step runs only after all its dependencies have their final status; unless its
  condition is \<open>all_done\<close>, all of them completed successfully.
\<close>

theorem run_respects_dependencies:
  assumes "reachable (run_init deps) run_step s" and "dr_ctx (rn_d s) = Live"
    and "stat (rn_d s) v = Some StatusRunning" and "(u, v) \<in> edges deps"
  shows "u \<in> Fin (rn_d s) (rt_ids (rn_RT s)) \<and> (stat (rn_d s) u = Some StatusCompleted \<or> run_all (rn_d s) v)"
proof -
  obtain C where live: "live_inv deps (rn_d s) C (rn_R s) (rn_RT s)"
    using run_system.reachable_inv [OF assms(1)] assms(2) by (auto simp: sys_inv_def)
  then have inv: "run_inv deps (rn_d s) C (rt_ids (rn_RT s)) (rn_R s) (dr_deferredSteps (rn_d s))"
    by (simp add: live_inv_def)
  have "v \<in> set (rn_R s)" using inv assms(3) by (simp add: run_inv_def sched_inv_def)
  then have "open_cnt C deps v = 0" "\<not> blocked (rn_d s) v" using inv by (auto simp: run_inv_def sched_inv_def)
  then have "(u, v) \<in> C" using assms(4) by (simp add: open_cnt_0)
  with inv \<open>\<not> blocked (rn_d s) v\<close> show ?thesis
    unfolding run_inv_def edge_inv_def blocked_def by blast
qed

theorem run_respects_dependencies_witness:
  "stat (rn_d sys_ok) ''b'' = Some StatusRunning \<and> stat (rn_d sys_ok) ''a'' = Some StatusCompleted"
proof -
  have "stat (rn_d sys_ok) ''b'' = Some StatusRunning" and "\<not> run_all (rn_d sys_ok) ''b''"
    by code_simp+
  moreover have "(''a'', ''b'') \<in> edges deps_ab" by (simp add: edges_def deps_ab_def)
  ultimately show ?thesis
    using run_respects_dependencies [OF sys_done_reachable(1) sys_ab_views(5)] by blast
qed

text \<open>
  A step is skipped only if it does not run under \<open>all_done\<close> and one of its
  dependencies failed for good or was skipped itself.
\<close>

theorem run_skips_justified:
  assumes "reachable (run_init deps) run_step s" and "dr_ctx (rn_d s) = Live"
    and "stat (rn_d s) v = Some StatusSkipped"
  shows "\<not> run_all (rn_d s) v \<and> (\<exists>u. (u, v) \<in> edges deps \<and> u \<in> Fin (rn_d s) (rt_ids (rn_RT s)) \<and>
     (stat (rn_d s) u = Some StatusFailed \<or> stat (rn_d s) u = Some StatusSkipped))"
proof -
  obtain C where "live_inv deps (rn_d s) C (rn_R s) (rn_RT s)"
    using run_system.reachable_inv [OF assms(1)] assms(2) by (auto simp: sys_inv_def)
  then have inv: "skip_inv deps (rn_d s) C" "edge_inv deps (rn_d s) C (rt_ids (rn_RT s))"
    by (simp_all add: live_inv_def run_inv_def)
  then have "blocked (rn_d s) v" using assms(3) by (simp add: skip_inv_def)
  then obtain u where "(u, v) \<in> C" "stat (rn_d s) u \<noteq> Some StatusCompleted" "\<not> run_all (rn_d s) v"
    using inv(2) by (auto simp: blocked_def edge_inv_def)
  moreover have "(u, v) \<in> edges deps" "u \<in> Fin (rn_d s) (rt_ids (rn_RT s))"
    using inv(2) \<open>(u, v) \<in> C\<close> by (auto simp: edge_inv_def)
  ultimately show ?thesis by (auto simp: Fin_def)
qed

theorem run_skips_justified_witness:
  "stat (rn_d sys_bad) ''b'' = Some StatusSkipped \<and> \<not> run_all (rn_d sys_bad) ''b'' \<and>
   rn_results sys_bad = [StatusFailed]"
proof -
  have "stat (rn_d sys_bad) ''b'' = Some StatusSkipped" "rn_results sys_bad = [StatusFailed]" by code_simp+
  then show ?thesis
    using run_skips_justified [OF sys_done_reachable(2) sys_ab_views(6)] by blast
qed

text \<open>
  C5. Steps that share a session key never run at the same time: the session keys of the
  steps in flight are pairwise different.
\<close>

theorem run_session_keys_exclusive:
  assumes "reachable (run_init deps) run_step s" and "dr_ctx (rn_d s) = Live"
  shows "distinct (filter (\<lambda>k. k \<noteq> '''') (map (skey (rn_d s)) (rn_R s)))"
proof -
  obtain C where "live_inv deps (rn_d s) C (rn_R s) (rn_RT s)"
    using run_system.reachable_inv [OF assms(1)] assms(2) by (auto simp: sys_inv_def)
  then have "key_inv (rn_d s) (rn_R s)" "distinct (rn_R s)"
    by (simp_all add: live_inv_def run_inv_def sched_inv_def)
  then show ?thesis
    by (auto simp: filter_map distinct_map inj_on_def key_inv_def comp_def)
qed

theorem run_session_keys_exclusive_witness:
  "dr_deferredSteps (rn_d sys_key) = [''b''] \<and> rn_R sys_key = [''a''] \<and>
   distinct (filter (\<lambda>k. k \<noteq> '''') (map (skey (rn_d sys_key)) (rn_R sys_key)))"
proof -
  have "dr_deferredSteps (rn_d sys_key) = [''b'']" "rn_R sys_key = [''a'']" "dr_ctx (rn_d sys_key) = Live"
    by code_simp+
  then show ?thesis using run_session_keys_exclusive [OF sys_key_reachable] by blast
qed

lemma live_run_progress:
  assumes "reachable (run_init deps) run_step s" and "acyclic (edges deps)"
    and "dr_ctx (rn_d s) = Live" and "rn_results s = []"
  shows "(rn_R s \<noteq> [] \<or> rn_RT s \<noteq> []) \<and> (\<exists>r. OnStepCompleted order i code (rn_d s) = Inr r) \<and>
    list_all (\<lambda>rs. \<exists>r. retry_step rs (rn_d s) = Inr r) (rn_RT s)"
proof -
  have inv: "sys_inv deps s" using assms(1) by (rule run_system.reachable_inv)
  then obtain C where live: "live_inv deps (rn_d s) C (rn_R s) (rn_RT s)" and todo: "\<not> (all_done (rn_d s) \<and> rn_RT s = [])"
    using assms(3,4) by (auto simp: sys_inv_def split: if_splits)
  then obtain v where v: "stat (rn_d s) v \<noteq> None \<or> rn_RT s \<noteq> []" by (auto simp: all_done_def)
  have "rn_R s \<noteq> [] \<or> rn_RT s \<noteq> []"
    using v live_progress [OF live assms(2) _ todo] by blast
  then show ?thesis
    using handlers_total [OF live assms(3)] by (simp add: list_all_iff)
qed

text \<open>
  C1. No deadlock and no panic: as long as a run of an acyclic job is live and has not
  reported, a step is in flight or a retry is scheduled, and every completion and every
  retry that arrives is handled without a nil dereference.
\<close>

theorem run_makes_progress:
  assumes "reachable (run_init deps) run_step s" and "acyclic (edges deps)"
    and "dr_ctx (rn_d s) = Live" and "rn_results s = []"
  shows "(rn_R s \<noteq> [] \<or> rn_RT s \<noteq> []) \<and> (\<exists>r. OnStepCompleted order i code (rn_d s) = Inr r) \<and>
    list_all (\<lambda>rs. \<exists>r. retry_step rs (rn_d s) = Inr r) (rn_RT s)"
  using assms by (rule live_run_progress)

theorem run_makes_progress_witness:
  "0 < length (rn_R sys_ab) + length (rn_RT sys_ab) \<and> (\<exists>r. OnStepCompleted [''a'', ''b''] ''a'' 0 (rn_d sys_ab) = Inr r)"
proof -
  have "acyclic (edges deps_ab)"
    by (simp add: edges_def deps_ab_def acyclic_def trancl_insert)
  then show ?thesis
    using run_makes_progress [OF sys_ab_reachable] sys_ab_views(2,3) by auto
qed

text \<open>
  C4. A run ends: \<open>n\<close> completions and retries of a live run need weight \<open>n\<close>, so a run
  started with weight \<open>w\<close> (at most \<open>3 (retries + 1) + 2\<close> per step) reaches its verdict or
  is aborted within \<open>w\<close> of them.
\<close>

theorem run_terminates:
  assumes "reachable (run_init deps) run_step s" and "(work_step ^^ n) s t" and "dr_ctx (rn_d t) = Live"
  shows "n + run_weight t \<le> run_weight s"
  using work_steps_bounded [OF assms(2) run_system.reachable_inv [OF assms(1)] assms(3)] by blast

theorem run_terminates_witness:
  "work_step sys_ab sys_ok \<and> Suc (run_weight sys_ok) \<le> run_weight sys_ab"
proof -
  have "work_step sys_ab sys_ok" unfolding sys_ok_def by (rule sys_ab_completes)
  moreover from this have "(work_step ^^ 1) sys_ab sys_ok" by (simp add: OO_def)
  ultimately show ?thesis
    using run_terminates [OF sys_ab_reachable _ sys_ab_views(5), of 1] by simp
qed



section \<open>Two runs that go wrong\<close>

text \<open>
  Cancelling a runner before it is started does not stop it: \<open>Start\<close> still creates a
  live context and launches the ready steps, although the comment on \<open>Cancel\<close> calls it safe
  before \<open>Start\<close>.
\<close>

theorem cancel_before_start_is_lost:
  "\<exists>d' launch effs. Start [''a'', ''b''] (Cancel runner_ab) = Inr (d', launch, effs) \<and>
     map rs_StepID launch = [''a''] \<and> dr_ctx d' = Live \<and> dr_done d'"
proof -
  have "(case Start [''a'', ''b''] (Cancel runner_ab) of Inl p \<Rightarrow> False
     | Inr (d', launch, effs) \<Rightarrow> map rs_StepID launch = [''a''] \<and> dr_ctx d' = Live \<and> dr_done d')"
    by code_simp
  then show ?thesis by (auto split: sum.splits)
qed

text \<open>
  A run of a job without steps is accepted and started, but launches nothing and no
  completion can ever finish it: its verdict is never reported.
\<close>

theorem empty_run_never_completes:
  "ValidateDAG [] [] [] = None \<and>
   Start [] (NewDAGRunner runID jobID [] [] ps meta names)
     = Inr ((NewDAGRunner runID jobID [] [] ps meta names)\<lparr>dr_ctx := Live\<rparr>, [], []) \<and>
   OnStepCompleted order i code ((NewDAGRunner runID jobID [] [] ps meta names)\<lparr>dr_ctx := Live\<rparr>)
     = Inr ((NewDAGRunner runID jobID [] [] ps meta names)\<lparr>dr_ctx := Live\<rparr>, [], [])"
  by (simp add: ValidateDAG_def Start_def OnStepCompleted_def NewDAGRunner_def)

end
