(* ===== verification/Orchestrator.thy ===== *)
theory Orchestrator
  imports Job_Store_Roundtrip Dag_Run_Props
begin

text \<open>
  \<open>internal/server/orchestrator/orchestrator.go\<close>: creating, retrying, repairing and
  cancelling runs. The state is the map of active runners, the job store and the log of
  calls on the other collaborators (event bus, executor, timers). An entry of
  \<open>activeRuns\<close> pairs the runner with what its completion callback captured. The store
  calls of one request are made in the order of the code; \<open>en_fault\<close> says which of them
  fail for reasons outside the model (the database is unavailable), so that every error
  path can be taken; a call made several times in a request carries its ordinal or the row
  it is about. \<open>encoding/json\<close> and the time format are parameters of the
  environment; fresh identifiers and the orders in which Go ranges over maps are arguments.
\<close>

section \<open>State\<close>

datatype orch_error =
    StoreErr store_error
  | ErrMaxConcurrentRuns
  | ErrInvalidRunState
  | ErrCycle
  | ErrJSON
  | Panicked

datatype store_call =
    CGetJob | CGetStepsWithDeps nat | CCreateRun | CInsertRunSteps | CGetRunWithSteps nat
  | CCountRuns | CUpdateRunStatus | CUpdateRunStep string | CUpdateAttempt string | CUpdateParams
  | CDeleteValues string

record env =
  en_unmarshal :: unmarshaller
  en_marshal :: "params \<Rightarrow> string option"
  en_format :: "time \<Rightarrow> string"
  en_fault :: "store_call \<Rightarrow> bool"
  en_now :: time

record callback =
  cb_jobID :: string
  cb_triggerType :: string
  cb_jobName :: string

record active_run =
  ar_runner :: DAGRunner
  ar_onComplete :: "callback option"

datatype oeffect =
    RunEvent string string string string string string
  | CleanupRunSessions string
  | StepCall effect
  | TimeoutAfter string int

record Orchestrator =
  oc_activeRuns :: "(string, active_run) fmap"
  oc_store :: db
  oc_publisher :: bool
  oc_log :: "oeffect list"

definition TypeRunCreated :: string where "TypeRunCreated = ''run.created''"
definition TypeRunStarted :: string where "TypeRunStarted = ''run.started''"
definition TypeRunCompleted :: string where "TypeRunCompleted = ''run.completed''"
definition TypeRunFailed :: string where "TypeRunFailed = ''run.failed''"
definition TypeRunCancelled :: string where "TypeRunCancelled = ''run.cancelled''"

definition NewOrchestrator :: "db \<Rightarrow> Orchestrator" where
  "NewOrchestrator d = \<lparr>oc_activeRuns = fmempty, oc_store = d, oc_publisher = False, oc_log = []\<rparr>"

definition log_effect :: "oeffect \<Rightarrow> Orchestrator \<Rightarrow> Orchestrator" where
  "log_effect e oc = oc\<lparr>oc_log := oc_log oc @ [e]\<rparr>"

definition SetPublisher :: "Orchestrator \<Rightarrow> Orchestrator" where
  "SetPublisher oc = oc\<lparr>oc_publisher := True\<rparr>"

definition publishEvent :: "string \<Rightarrow> string \<Rightarrow> string \<Rightarrow> string \<Rightarrow> string \<Rightarrow> string \<Rightarrow> Orchestrator \<Rightarrow> Orchestrator" where
  "publishEvent evType runID jobID status triggerType jobName oc =
     (if oc_publisher oc
      then log_effect (RunEvent evType runID jobID status triggerType jobName) oc else oc)"

text \<open>A store call that may fail for an outside reason.\<close>

definition call :: "env \<Rightarrow> store_call \<Rightarrow> (store_error + 'a) \<Rightarrow> orch_error + 'a" where
  "call en c r = (if en_fault en c then Inl (StoreErr ErrUnavailable)
     else case r of Inl e \<Rightarrow> Inl (StoreErr e) | Inr x \<Rightarrow> Inr x)"

text \<open>A store update whose error is only logged.\<close>

definition try_store :: "env \<Rightarrow> store_call \<Rightarrow> (store_error + db) \<Rightarrow> Orchestrator \<Rightarrow> Orchestrator" where
  "try_store en c r oc = (case call en c r of Inl e \<Rightarrow> oc | Inr d \<Rightarrow> oc\<lparr>oc_store := d\<rparr>)"

section \<open>Completion of a run\<close>

definition buildOnComplete :: "env \<Rightarrow> callback \<Rightarrow> string \<Rightarrow> string \<Rightarrow> Orchestrator \<Rightarrow> Orchestrator" where
  "buildOnComplete en cb runID status oc =
     (let oc = log_effect (CleanupRunSessions runID) oc;
          oc = try_store en CUpdateRunStatus (UpdateRunStatus (en_now en) runID status (oc_store oc)) oc;
          oc = oc\<lparr>oc_activeRuns := fmdrop runID (oc_activeRuns oc)\<rparr>;
          evType = (if status = StatusFailed then TypeRunFailed else TypeRunCompleted)
      in publishEvent evType runID (cb_jobID cb) status (cb_triggerType cb) (cb_jobName cb) oc)"

text \<open>The calls a runner makes, carried out on the orchestrator's state.\<close>

fun perform :: "env \<Rightarrow> callback \<Rightarrow> effect list \<Rightarrow> Orchestrator \<Rightarrow> Orchestrator" where
  "perform en cb [] oc = oc"
| "perform en cb (e # es) oc = perform en cb es
     (case e of
        DBStatus i s sess code \<Rightarrow>
          try_store en (CUpdateRunStep i) (UpdateRunStepStatus (en_now en) i s sess code (oc_store oc)) oc
      | DBAttempt i n \<Rightarrow>
          try_store en (CUpdateAttempt i) (Inr (UpdateRunStepAttempt i n (oc_store oc))) oc
      | RunComplete runID status \<Rightarrow> buildOnComplete en cb runID status oc
      | _ \<Rightarrow> log_effect (StepCall e) oc)"

definition countActiveRunsForJob :: "string \<Rightarrow> Orchestrator \<Rightarrow> nat" where
  "countActiveRunsForJob jobID oc = fmcount (\<lambda>a. dr_jobID (ar_runner a) = jobID) (oc_activeRuns oc)"

section \<open>CreateRun\<close>

text \<open>The zero \<open>DAGRunner\<close> with only \<open>jobID\<close> set, which reserves a slot.\<close>

definition zero_runner :: "string \<Rightarrow> DAGRunner" where
  "zero_runner jobID = \<lparr>dr_ctx = NoCtx, dr_runID = '''', dr_jobID = jobID, dr_steps = fmempty,
     dr_stepNames = fmempty, dr_dependents = fmempty, dr_inDegree = fmempty, dr_completed = 0,
     dr_total = 0, dr_failed = False, dr_done = False, dr_runParams = fmempty,
     dr_jobMeta = \<lparr>jm_Name = '''', jm_RunID = '''', jm_RunNumber = 0, jm_StartTime = '''', jm_TriggerType = ''''\<rparr>,
     dr_stepValues = fmempty, dr_stepResults = fmempty, dr_activeSessionKeys = fmempty,
     dr_deferredSteps = [], dr_hasFailedUpstream = fmempty\<rparr>"

definition reserve :: "string \<Rightarrow> string \<Rightarrow> Job \<Rightarrow> Orchestrator \<Rightarrow> orch_error + Orchestrator" where
  "reserve reserveKey jobID job oc =
     (let activeCount = countActiveRunsForJob jobID oc
      in if j_MaxConcurrentRuns job > 0 \<and> int activeCount \<ge> j_MaxConcurrentRuns job
         then Inl ErrMaxConcurrentRuns
         else Inr (oc\<lparr>oc_activeRuns := fmupd reserveKey
                     \<lparr>ar_runner = zero_runner jobID, ar_onComplete = None\<rparr> (oc_activeRuns oc)\<rparr>))"

definition removeReservation :: "string \<Rightarrow> Orchestrator \<Rightarrow> Orchestrator" where
  "removeReservation reserveKey oc = oc\<lparr>oc_activeRuns := fmdrop reserveKey (oc_activeRuns oc)\<rparr>"

definition step_names :: "Step list \<Rightarrow> (string, string) fmap" where
  "step_names steps = fmap_of_list (rev (map (\<lambda>s. (st_StepID s, st_Name s)) steps))"

record run_request =
  rq_jobID :: string
  rq_triggerType :: string
  rq_params :: params
  rq_detail :: string
  rq_runID :: string
  rq_reserveID :: string
  rq_stepIDs :: "string list"
  rq_orderDAG :: "string list"
  rq_orderParams :: "string list"
  rq_orderStart :: "string list"

definition reserve_key :: "run_request \<Rightarrow> string" where
  "reserve_key rq = ''pending-'' @ rq_jobID rq @ ''-'' @ rq_reserveID rq"

text \<open>The store phase of \<open>CreateRun\<close>: from the reservation to the runner.\<close>

definition prepare :: "env \<Rightarrow> run_request \<Rightarrow> Job \<Rightarrow> Orchestrator \<Rightarrow>
    (orch_error + Run \<times> DAGRunner \<times> callback) \<times> Orchestrator" where
  "prepare en rq job oc =
     (let jobID = rq_jobID rq
      in case call en (CGetStepsWithDeps 0) (Inr (GetStepsWithDeps jobID (oc_store oc))) of
           Inl e \<Rightarrow> (Inl e, oc)
         | Inr (steps, deps) \<Rightarrow>
       (case ValidateDAG (rq_orderDAG rq) steps deps of
           Some _ \<Rightarrow> (Inl ErrCycle, oc)
         | None \<Rightarrow>
       (let resolvedParams = resolveParameters (en_unmarshal en) (rq_orderParams rq) (j_Parameters job) (rq_params rq)
        in case en_marshal en resolvedParams of
             None \<Rightarrow> (Inl ErrJSON, oc)
           | Some paramsJSON \<Rightarrow>
       (case call en CCreateRun (CreateRun (rq_runID rq) (en_now en)
               \<lparr>cr_JobID = jobID, cr_TriggerType = rq_triggerType rq, cr_TriggerDetail = rq_detail rq,
                cr_Parameters = paramsJSON\<rparr> (oc_store oc)) of
           Inl e \<Rightarrow> (Inl e, oc)
         | Inr (run, d1) \<Rightarrow>
       (let oc = publishEvent TypeRunCreated (r_RunID run) jobID StatusPending (rq_triggerType rq) (j_Name job)
                  (oc\<lparr>oc_store := d1\<rparr>)
        in case call en CInsertRunSteps (InsertRunSteps (rq_stepIDs rq) (r_RunID run) steps (oc_store oc)) of
             Inl e \<Rightarrow> (Inl e, oc)
           | Inr d2 \<Rightarrow>
       (let oc = oc\<lparr>oc_store := d2\<rparr>
        in case call en (CGetRunWithSteps 0) (GetRunWithSteps (r_RunID run) (oc_store oc)) of
             Inl e \<Rightarrow> (Inl e, oc)
           | Inr detail \<Rightarrow>
       (let jobMeta = \<lparr>jm_Name = j_Name job, jm_RunID = r_RunID run,
                       jm_RunNumber = (if en_fault en CCountRuns then 0
                         else CountRunsForJobUpTo jobID (r_CreatedAt run) (oc_store oc)),
                       jm_StartTime = en_format en (r_CreatedAt run), jm_TriggerType = rq_triggerType rq\<rparr>;
            runner = NewDAGRunner (r_RunID run) jobID (rd_RunSteps detail) deps resolvedParams jobMeta (step_names steps)
        in (Inr (run, runner, \<lparr>cb_jobID = jobID, cb_triggerType = rq_triggerType rq, cb_jobName = j_Name job\<rparr>), oc))))))))"

text \<open>Replacing the reservation by the runner.\<close>

definition install :: "string \<Rightarrow> string \<Rightarrow> DAGRunner \<Rightarrow> callback \<Rightarrow> Orchestrator \<Rightarrow> Orchestrator" where
  "install reserveKey runID runner cb oc =
     oc\<lparr>oc_activeRuns := fmupd runID \<lparr>ar_runner = runner, ar_onComplete = Some cb\<rparr>
          (fmdrop reserveKey (oc_activeRuns oc))\<rparr>"

text \<open>Starting the runner: its new state replaces the entry it is registered under.\<close>

definition set_runner :: "string \<Rightarrow> DAGRunner \<Rightarrow> Orchestrator \<Rightarrow> Orchestrator" where
  "set_runner runID d oc =
     (case fmlookup (oc_activeRuns oc) runID of
        None \<Rightarrow> oc
      | Some a \<Rightarrow> oc\<lparr>oc_activeRuns := fmupd runID (a\<lparr>ar_runner := d\<rparr>) (oc_activeRuns oc)\<rparr>)"

definition start_runner :: "env \<Rightarrow> callback \<Rightarrow> string \<Rightarrow> string list \<Rightarrow> DAGRunner \<Rightarrow> Orchestrator \<Rightarrow>
    orch_error + Orchestrator" where
  "start_runner en cb runID order runner oc =
     (case Start order runner of
        Inl p \<Rightarrow> Inl Panicked
      | Inr (d', launch, effs) \<Rightarrow> Inr (perform en cb effs (set_runner runID d' oc)))"

definition orch_CreateRun :: "env \<Rightarrow> run_request \<Rightarrow> Orchestrator \<Rightarrow> (orch_error + Run) \<times> Orchestrator" where
  "orch_CreateRun en rq oc =
     (case call en CGetJob (GetJob (rq_jobID rq) (oc_store oc)) of
        Inl e \<Rightarrow> (Inl e, oc)
      | Inr detail \<Rightarrow>
          (let job = jd_Job detail; key = reserve_key rq
           in case reserve key (rq_jobID rq) job oc of
                Inl e \<Rightarrow> (Inl e, oc)
              | Inr oc1 \<Rightarrow>
                  (case prepare en rq job oc1 of
                     (Inl e, oc2) \<Rightarrow> (Inl e, removeReservation key oc2)
                   | (Inr (run, runner, cb), oc2) \<Rightarrow>
                       (let runID = r_RunID run;
                            oc3 = install key runID runner cb oc2;
                            oc4 = try_store en CUpdateRunStatus
                                   (UpdateRunStatus (en_now en) runID StatusRunning (oc_store oc3)) oc3;
                            oc5 = publishEvent TypeRunStarted runID (rq_jobID rq) StatusRunning
                                   (rq_triggerType rq) (j_Name job) oc4
                        in case start_runner en cb runID (rq_orderStart rq) runner oc5 of
                             Inl e \<Rightarrow> (Inl e, oc5)
                           | Inr oc6 \<Rightarrow>
                               (Inr run, if j_TimeoutSeconds job > 0
                                         then log_effect (TimeoutAfter runID (j_TimeoutSeconds job)) oc6 else oc6)))))"

text \<open>\<open>CreateRunErr\<close> without parameters, for the trigger subscriber and the scheduler.\<close>

definition CreateRunErr :: "env \<Rightarrow> run_request \<Rightarrow> Orchestrator \<Rightarrow> orch_error option \<times> Orchestrator" where
  "CreateRunErr en rq oc =
     (case orch_CreateRun en (rq\<lparr>rq_params := fmempty, rq_detail := ''''\<rparr>) oc of
        (Inl e, oc') \<Rightarrow> (Some e, oc')
      | (Inr run, oc') \<Rightarrow> (None, oc'))"

section \<open>Retry and repair\<close>

definition resettable :: "RunStep \<Rightarrow> bool" where
  "resettable rs \<longleftrightarrow> rs_Status rs = StatusFailed \<or> rs_Status rs = StatusSkipped \<or> rs_Status rs = StatusCancelled"

text \<open>The inner loop of the search for downstream steps: unseen dependents are marked and queued.\<close>

fun mark_unseen :: "string list \<Rightarrow> (string, bool) fmap \<Rightarrow> string list \<Rightarrow> (string, bool) fmap \<times> string list" where
  "mark_unseen [] toReset queue = (toReset, queue)"
| "mark_unseen (dep # rest) toReset queue =
     (if \<not> getd False toReset dep then mark_unseen rest (fmupd dep True toReset) (queue @ [dep])
      else mark_unseen rest toReset queue)"

text \<open>The pre-processing loop of \<open>rebuildAndStartRun\<close> over the completed steps.\<close>

fun predecrement :: "string list \<Rightarrow> (string, int) fmap \<Rightarrow> (string, int) fmap" where
  "predecrement [] deg = deg"
| "predecrement (depID # rest) deg = predecrement rest (fmupd depID (getd 0 deg depID - 1) deg)"

fun preprocess_completed :: "RunStep list \<Rightarrow> DAGRunner \<Rightarrow> DAGRunner" where
  "preprocess_completed [] d = d"
| "preprocess_completed (rs # rest) d =
     preprocess_completed rest
       (if rs_Status rs = StatusCompleted
        then d\<lparr>dr_completed := dr_completed d + 1,
               dr_inDegree := predecrement (getd [] (dr_dependents d) (rs_StepID rs)) (dr_inDegree d)\<rparr>
        else d)"

definition rebuild_names :: "env \<Rightarrow> RunDetail \<Rightarrow> db \<Rightarrow> (string, string) fmap" where
  "rebuild_names en detail d =
     fmadd (fmap_of_list (rev (map (\<lambda>rs. (rs_StepID rs, rs_StepID rs)) (rd_RunSteps detail))))
       (case call en (CGetStepsWithDeps 2) (Inr (GetStepsWithDeps (r_JobID (rd_Run detail)) d)) of
          Inl e \<Rightarrow> fmempty
        | Inr (steps, deps) \<Rightarrow> step_names steps)"

definition rebuild_params :: "env \<Rightarrow> Run \<Rightarrow> params" where
  "rebuild_params en run =
     (if r_Parameters run = '''' then fmempty
      else snd (en_unmarshal en (r_Parameters run)))"

text \<open>The map \<open>activeRuns\<close> holds pointers: an existing runner of the run is cancelled and
  replaced; its goroutines keep the cancelled runner.\<close>

definition rebuildAndStartRun :: "env \<Rightarrow> string list \<Rightarrow> string \<Rightarrow> Orchestrator \<Rightarrow> orch_error option \<times> Orchestrator" where
  "rebuildAndStartRun en order runID oc =
     (case call en CUpdateRunStatus (UpdateRunStatus (en_now en) runID StatusRunning (oc_store oc)) of
        Inl e \<Rightarrow> (Some e, oc)
      | Inr d1 \<Rightarrow>
     (let oc = oc\<lparr>oc_store := d1\<rparr>
      in case call en (CGetRunWithSteps 1) (GetRunWithSteps runID (oc_store oc)) of
        Inl e \<Rightarrow> (Some e, oc)
      | Inr detail \<Rightarrow>
     (let run = rd_Run detail; jobID = r_JobID run
      in case call en (CGetStepsWithDeps 1) (Inr (GetStepsWithDeps jobID (oc_store oc))) of
        Inl e \<Rightarrow> (Some e, oc)
      | Inr (steps0, deps) \<Rightarrow>
     (let jobName = (case call en CGetJob (GetJob jobID (oc_store oc)) of
                       Inl e \<Rightarrow> '''' | Inr jd \<Rightarrow> j_Name (jd_Job jd));
          cb = \<lparr>cb_jobID = jobID, cb_triggerType = r_TriggerType run, cb_jobName = jobName\<rparr>;
          stepNames = rebuild_names en detail (oc_store oc);
          runParams = rebuild_params en run;
          jobMeta = \<lparr>jm_Name = jobName, jm_RunID = runID,
                     jm_RunNumber = (if en_fault en CCountRuns then 0
                       else CountRunsForJobUpTo jobID (r_CreatedAt run) (oc_store oc)),
                     jm_StartTime = en_format en (r_CreatedAt run), jm_TriggerType = r_TriggerType run\<rparr>;
          runner = preprocess_completed (rd_RunSteps detail)
            (NewDAGRunner runID jobID (rd_RunSteps detail) deps runParams jobMeta stepNames);
          oc = oc\<lparr>oc_activeRuns := fmupd runID \<lparr>ar_runner = runner, ar_onComplete = Some cb\<rparr> (oc_activeRuns oc)\<rparr>
      in case start_runner en cb runID order runner oc of
        Inl e \<Rightarrow> (Some e, oc)
      | Inr oc \<Rightarrow> (None, oc)))))"

text \<open>Resetting the chosen steps, in order, up to the first store error; a repair also clears
  the task values of the step.\<close>

definition reset_step :: "env \<Rightarrow> bool \<Rightarrow> RunStep \<Rightarrow> db \<Rightarrow> orch_error option \<times> db" where
  "reset_step en clear rs d =
     (case call en (CUpdateRunStep (rs_RunStepID rs))
             (UpdateRunStepStatus (en_now en) (rs_RunStepID rs) StatusPending '''' 0 d) of
        Inl e \<Rightarrow> (Some e, d)
      | Inr d1 \<Rightarrow>
     (case call en (CUpdateAttempt (rs_RunStepID rs)) (Inr (UpdateRunStepAttempt (rs_RunStepID rs) 1 d1)) of
        Inl e \<Rightarrow> (Some e, d1)
      | Inr d2 \<Rightarrow>
     (if clear
      then (case call en (CDeleteValues (rs_RunStepID rs)) (Inr (DeleteTaskValuesForStep (rs_RunStepID rs) d2)) of
              Inl e \<Rightarrow> (Some e, d2)
            | Inr d3 \<Rightarrow> (None, d3))
      else (None, d2))))"

fun reset_steps :: "env \<Rightarrow> bool \<Rightarrow> RunStep list \<Rightarrow> db \<Rightarrow> orch_error option \<times> db" where
  "reset_steps en clear [] d = (None, d)"
| "reset_steps en clear (rs # rest) d =
     (case reset_step en clear rs d of
        (Some e, d') \<Rightarrow> (Some e, d')
      | (None, d') \<Rightarrow> reset_steps en clear rest d')"

subsection \<open>Downstream steps\<close>

definition unseen :: "(string, string list) fmap \<Rightarrow> (string, bool) fmap \<Rightarrow> string set" where
  "unseen dependents toReset =
     {v. \<not> getd False toReset v \<and> (\<exists>u. v \<in> set (getd [] dependents u))}"

lemma finite_targets: "finite {v. \<exists>u. v \<in> set (getd [] m u)}"
proof (rule finite_subset)
  show "{v. \<exists>u. v \<in> set (getd [] m u)} \<subseteq> (\<Union>u\<in>fmdom' m. set (getd [] m u))"
    by (fastforce simp: getd_def split: option.splits dest: sym [of "Some _"] intro: fmlookup_in_dom)
qed simp

lemma finite_unseen [simp]: "finite (unseen m toReset)"
  by (rule finite_subset [OF _ finite_targets [of m]]) (auto simp: unseen_def)

lemma mark_unseen_measure:
  "set ds \<subseteq> {v. \<exists>u. v \<in> set (getd [] m u)} \<Longrightarrow> mark_unseen ds toReset q = (toReset', q') \<Longrightarrow>
     card (unseen m toReset') + length q' = card (unseen m toReset) + length q"
proof (induction ds toReset q rule: mark_unseen.induct)
  case (2 dep rest toReset queue)
  show ?case
  proof (cases "getd False toReset dep")
    case False
    have "unseen m toReset = insert dep (unseen m (fmupd dep True toReset))"
      using False "2.prems"(1) by (auto simp: unseen_def)
    moreover have "dep \<notin> unseen m (fmupd dep True toReset)" by (simp add: unseen_def)
    ultimately show ?thesis using 2 False by simp
  qed (use 2 in simp)
qed simp

function downstream :: "(string, string list) fmap \<Rightarrow> (string, bool) fmap \<Rightarrow> string list \<Rightarrow> (string, bool) fmap" where
  "downstream dependents toReset [] = toReset"
| "downstream dependents toReset (cur # queue) =
     (let (toReset', queue') = mark_unseen (getd [] dependents cur) toReset queue
      in downstream dependents toReset' queue')"
  by pat_completeness auto
termination
proof (relation "measure (\<lambda>(m, t, q). card (unseen m t) + length q)", goal_cases)
  case (2 dependents toReset cur queue x toReset' queue')
  then have "card (unseen dependents toReset') + length queue' = card (unseen dependents toReset) + length queue"
    by (intro mark_unseen_measure [of "getd [] dependents cur"]) auto
  then show ?case by simp
qed simp

definition RetryStep :: "env \<Rightarrow> string list \<Rightarrow> string \<Rightarrow> string \<Rightarrow> Orchestrator \<Rightarrow> orch_error option \<times> Orchestrator" where
  "RetryStep en order runID stepID oc =
     (case call en (CGetRunWithSteps 0) (GetRunWithSteps runID (oc_store oc)) of
        Inl e \<Rightarrow> (Some e, oc)
      | Inr detail \<Rightarrow>
     (case call en (CGetStepsWithDeps 0) (Inr (GetStepsWithDeps (r_JobID (rd_Run detail)) (oc_store oc))) of
        Inl e \<Rightarrow> (Some e, oc)
      | Inr (steps, deps) \<Rightarrow>
     (let toReset = downstream (adjacency deps) (fmupd stepID True fmempty) [stepID];
          chosen = filter (\<lambda>rs. getd False toReset (rs_StepID rs) \<and> resettable rs) (rd_RunSteps detail)
      in case reset_steps en False chosen (oc_store oc) of
           (Some e, d) \<Rightarrow> (Some e, oc\<lparr>oc_store := d\<rparr>)
         | (None, d) \<Rightarrow> rebuildAndStartRun en order runID (oc\<lparr>oc_store := d\<rparr>))))"

definition merge_overrides :: "env \<Rightarrow> string list \<Rightarrow> params \<Rightarrow> Run \<Rightarrow> db \<Rightarrow> orch_error option \<times> db" where
  "merge_overrides en orderParams paramOverrides run d =
     (if fmdom' paramOverrides \<noteq> {} \<and> r_Parameters run \<noteq> ''''
      then (case en_unmarshal en (r_Parameters run) of
              (ok, existingParams) \<Rightarrow>
                if \<not> ok then (Some ErrJSON, d)
                else (case en_marshal en (apply_overrides paramOverrides orderParams existingParams) of
                        None \<Rightarrow> (Some ErrJSON, d)
                      | Some paramsJSON \<Rightarrow>
                          (case call en CUpdateParams (UpdateRunParameters (r_RunID run) paramsJSON d) of
                             Inl e \<Rightarrow> (Some e, d)
                           | Inr d' \<Rightarrow> (None, d'))))
      else (None, d))"

definition RepairRun :: "env \<Rightarrow> string list \<Rightarrow> string list \<Rightarrow> string \<Rightarrow> params \<Rightarrow> Orchestrator \<Rightarrow>
    orch_error option \<times> Orchestrator" where
  "RepairRun en orderParams order runID paramOverrides oc =
     (case call en (CGetRunWithSteps 0) (GetRunWithSteps runID (oc_store oc)) of
        Inl e \<Rightarrow> (Some e, oc)
      | Inr detail \<Rightarrow>
          if r_Status (rd_Run detail) \<noteq> StatusFailed \<and> r_Status (rd_Run detail) \<noteq> StatusCancelled
          then (Some ErrInvalidRunState, oc)
          else (case merge_overrides en orderParams paramOverrides (rd_Run detail) (oc_store oc) of
                  (Some e, d) \<Rightarrow> (Some e, oc\<lparr>oc_store := d\<rparr>)
                | (None, d1) \<Rightarrow>
                    (case reset_steps en True (filter resettable (rd_RunSteps detail)) d1 of
                       (Some e, d2) \<Rightarrow> (Some e, oc\<lparr>oc_store := d2\<rparr>)
                     | (None, d2) \<Rightarrow> rebuildAndStartRun en order runID (oc\<lparr>oc_store := d2\<rparr>))))"

section \<open>Cancelling and reporting\<close>

fun cancel_steps :: "env \<Rightarrow> RunStep list \<Rightarrow> db \<Rightarrow> orch_error option \<times> db" where
  "cancel_steps en [] d = (None, d)"
| "cancel_steps en (rs # rest) d =
     (if rs_Status rs = StatusPending \<or> rs_Status rs = StatusRunning
      then (case call en (CUpdateRunStep (rs_RunStepID rs))
                   (UpdateRunStepStatus (en_now en) (rs_RunStepID rs) StatusCancelled '''' 0 d) of
              Inl e \<Rightarrow> (Some e, d)
            | Inr d' \<Rightarrow> cancel_steps en rest d')
      else cancel_steps en rest d)"

text \<open>Publishing \<open>run.cancelled\<close> with what can still be read of the run and its job.\<close>

definition publish_cancelled :: "env \<Rightarrow> string \<Rightarrow> Orchestrator \<Rightarrow> Orchestrator" where
  "publish_cancelled en runID oc =
     (case call en (CGetRunWithSteps 1) (GetRunWithSteps runID (oc_store oc)) of
        Inl e \<Rightarrow> oc
      | Inr detail \<Rightarrow>
          (let run = rd_Run detail;
               jobName = (case call en CGetJob (GetJob (r_JobID run) (oc_store oc)) of
                            Inl e \<Rightarrow> '''' | Inr jd \<Rightarrow> j_Name (jd_Job jd))
           in publishEvent TypeRunCancelled runID (r_JobID run) StatusCancelled (r_TriggerType run) jobName oc))"

definition CancelRun :: "env \<Rightarrow> string \<Rightarrow> Orchestrator \<Rightarrow> orch_error option \<times> Orchestrator" where
  "CancelRun en runID oc =
     (let oc = oc\<lparr>oc_activeRuns := fmdrop runID (oc_activeRuns oc)\<rparr>;
          oc = log_effect (CleanupRunSessions runID) oc
      in case call en (CGetRunWithSteps 0) (GetRunWithSteps runID (oc_store oc)) of
           Inl e \<Rightarrow> (Some e, oc)
         | Inr detail \<Rightarrow>
             (case cancel_steps en (rd_RunSteps detail) (oc_store oc) of
                (Some e, d) \<Rightarrow> (Some e, oc\<lparr>oc_store := d\<rparr>)
              | (None, d) \<Rightarrow>
                  (case call en CUpdateRunStatus (UpdateRunStatus (en_now en) runID StatusCancelled d) of
                     Inl e \<Rightarrow> (Some e, oc\<lparr>oc_store := d\<rparr>)
                   | Inr d' \<Rightarrow> (None, publish_cancelled en runID (oc\<lparr>oc_store := d'\<rparr>)))))"

definition orch_OnStepCompleted :: "env \<Rightarrow> string list \<Rightarrow> string \<Rightarrow> string \<Rightarrow> int \<Rightarrow> Orchestrator \<Rightarrow>
    orch_error + Orchestrator" where
  "orch_OnStepCompleted en order runID stepID exitCode oc =
     (case fmlookup (oc_activeRuns oc) runID of
        None \<Rightarrow> Inr oc
      | Some a \<Rightarrow>
          (case OnStepCompleted order stepID exitCode (ar_runner a) of
             Inl p \<Rightarrow> Inl Panicked
           | Inr (d', launch, effs) \<Rightarrow>
               (case ar_onComplete a of
                  None \<Rightarrow> Inr (set_runner runID d' oc)
                | Some cb \<Rightarrow> Inr (perform en cb effs (set_runner runID d' oc)))))"

section \<open>A small environment and request\<close>

definition en0 :: env where
  "en0 = \<lparr>en_unmarshal = (\<lambda>_. (True, fmempty)), en_marshal = (\<lambda>_. Some ''{}''),
     en_format = (\<lambda>_. ''t''), en_fault = (\<lambda>_. False), en_now = 7\<rparr>"

definition rq0 :: run_request where
  "rq0 = \<lparr>rq_jobID = ''j'', rq_triggerType = ''manual'', rq_params = fmempty, rq_detail = '''',
     rq_runID = ''r1'', rq_reserveID = ''u'', rq_stepIDs = [''x1''], rq_orderDAG = [''s''],
     rq_orderParams = [], rq_orderStart = [''s'']\<rparr>"

definition oc0 :: Orchestrator where
  "oc0 = SetPublisher (NewOrchestrator db1)"

end
