(* ===== verification/Orchestrator_Limits.thy ===== *)
theory Orchestrator_Limits
  imports Orchestrator
begin

text \<open>
  The table of active runs: which operations touch which entries, no reservation survives
  a failed \<open>CreateRun\<close>, and the limit on concurrent runs of a job holds in every
  interleaving of requests, completions and cancellations.
\<close>

section \<open>What the runner's handlers keep\<close>

definition same_run :: "DAGRunner \<Rightarrow> DAGRunner \<Rightarrow> bool" where
  "same_run d d' \<longleftrightarrow> dr_runID d' = dr_runID d \<and> dr_jobID d' = dr_jobID d"

lemma same_run_refl [simp]: "same_run d d"
  by (simp add: same_run_def)

lemma same_run_trans: "same_run d d1 \<Longrightarrow> same_run d1 d2 \<Longrightarrow> same_run d d2"
  by (simp add: same_run_def)

lemma same_run_visit_dep: "visit_dep fl v d = (d', items, launch, effs) \<Longrightarrow> same_run d d'"
  by (auto simp: visit_dep_def same_run_def Let_def split: if_splits option.splits)

lemma same_run_visit_deps: "visit_deps fl vs d = (d', items, launch, effs) \<Longrightarrow> same_run d d'"
proof (induction vs arbitrary: d d' items launch effs)
  case (Cons v vs)
  obtain d1 i1 l1 e1 where v: "visit_dep fl v d = (d1, i1, l1, e1)" by (cases "visit_dep fl v d")
  obtain d2 i2 l2 e2 where vs: "visit_deps fl vs d1 = (d2, i2, l2, e2)" by (cases "visit_deps fl vs d1")
  from Cons.prems v vs have "d' = d2" by simp
  with same_run_visit_dep [OF v] Cons.IH [OF vs] show ?case by (auto intro: same_run_trans)
qed simp

lemma same_run_ready_loop: "ready_loop q d = (d', launch, effs) \<Longrightarrow> same_run d d'"
proof (induction q d arbitrary: d' launch effs rule: ready_loop.induct)
  case (2 u fl q d)
  obtain d1 i1 l1 e1 where v: "visit_deps fl (getd [] (dr_dependents d) u) d = (d1, i1, l1, e1)"
    by (cases "visit_deps fl (getd [] (dr_dependents d) u) d")
  obtain l2 e2 where rl: "ready_loop (q @ i1) d1 = (d', l2, e2)"
    using "2.prems" v by (auto split: prod.splits)
  from "2.IH" [OF v [symmetric] refl refl refl rl] same_run_visit_deps [OF v] show ?case
    by (blast intro: same_run_trans)
qed simp

lemma same_run_deferred_loop: "deferred_loop ds d = (d', rem, launch, effs) \<Longrightarrow> same_run d d'"
  by (induction ds d arbitrary: d' rem launch effs rule: deferred_loop.induct)
    (fastforce simp: Let_def same_run_def split: option.splits if_splits prod.splits)+

lemma same_run_fail_run_loop: "fail_run_loop i js d = (d', effs) \<Longrightarrow> same_run d d'"
  by (induction i js d arbitrary: d' effs rule: fail_run_loop.induct)
    (fastforce simp: Let_def same_run_def split: option.splits if_splits prod.splits)+

lemma same_run_start_loop: "start_loop order d = Inr (d', launch, effs) \<Longrightarrow> same_run d d' \<and> quiet effs"
  by (induction order d arbitrary: d' launch effs rule: start_loop.induct)
    (fastforce simp: Let_def same_run_def split: option.splits if_splits sum.splits)+

text \<open>A handler reports completion for its own run only.\<close>

definition reports_own :: "string \<Rightarrow> effect list \<Rightarrow> bool" where
  "reports_own r effs \<longleftrightarrow> (\<forall>a b. RunComplete a b \<in> set effs \<longrightarrow> a = r)"

lemma reports_own_simps [simp]:
  "reports_own r []" "reports_own r (es @ es') \<longleftrightarrow> reports_own r es \<and> reports_own r es'"
  "reports_own r (e # es) \<longleftrightarrow> (\<forall>a b. e = RunComplete a b \<longrightarrow> a = r) \<and> reports_own r es"
  by (auto simp: reports_own_def)

lemma quiet_no_complete: "quiet effs \<Longrightarrow> RunComplete a b \<notin> set effs"
  by (force simp: quiet_def results_of_def)

lemma quiet_reports_own: "quiet effs \<Longrightarrow> reports_own r effs"
  by (auto simp: reports_own_def dest: quiet_no_complete)

lemma reports_own_launch [simp]: "reports_own r (concat (map (launchStep d) ls))"
  by (rule quiet_reports_own) simp

lemma Start_same_run:
  "Start order d = Inr (d', launch, effs) \<Longrightarrow> same_run d d' \<and> quiet effs"
  by (auto simp: Start_def same_run_def split: sum.splits dest!: same_run_start_loop)

lemma finish_step_same_run:
  assumes "finish_step i code rs d = (d', launch, effs)"
  shows "same_run d d' \<and> reports_own (dr_runID d) effs"
proof -
  let ?d = "d\<lparr>dr_completed := dr_completed d + 1\<rparr>"
  obtain d1 l1 e1 where rl: "ready_loop [(i, code \<noteq> 0)] ?d = (d1, l1, e1)"
    by (cases "ready_loop [(i, code \<noteq> 0)] ?d")
  obtain d2 rem l2 e2 where dl: "deferred_loop (dr_deferredSteps d1) d1 = (d2, rem, l2, e2)"
    by (cases "deferred_loop (dr_deferredSteps d1) d1")
  have "same_run d d2"
    using same_run_ready_loop [OF rl] same_run_deferred_loop [OF dl] by (simp add: same_run_def)
  with assms rl dl show ?thesis
    using quiet_reports_own [OF quiet_ready_loop [OF rl]] quiet_reports_own [OF quiet_deferred_loop [OF dl]]
    by (auto simp: finish_step_def processReadyDependents_def processDeferredSteps_def same_run_def
        publishStepEvent_def Let_def split: if_splits)
qed

lemma settled_same_run:
  "same_run d (releaseSessionKey rs (record_result i code d))"
  by (simp add: same_run_def record_result_def Let_def)

lemma OnStepCompleted_same_run:
  assumes "OnStepCompleted order i code d = Inr (d', launch, effs)"
  shows "same_run d d' \<and> reports_own (dr_runID d) effs"
proof (cases "dr_ctx d = Cancelled \<or> fmlookup (dr_steps d) i = None")
  case False
  then obtain rs where rs: "fmlookup (dr_steps d) i = Some rs" "dr_ctx d \<noteq> Cancelled" by auto
  have own: "same_run d d'' \<and> reports_own (dr_runID d) effs''"
    if "finish_step i c rs d0 = (d'', l, effs'')" "dr_runID d0 = dr_runID d" "dr_jobID d0 = dr_jobID d"
    for c d0 d'' l effs''
    using finish_step_same_run [OF that(1)] that(2,3) by (simp add: same_run_def)
  have fr: "same_run d d'' \<and> reports_own (dr_runID d) effs''"
    if "fail_run_loop i order d0 = (d'', effs'')" "dr_runID d0 = dr_runID d" "dr_jobID d0 = dr_jobID d"
    for d0 d'' effs''
    using same_run_fail_run_loop [OF that(1)] fail_run_loop_frame [OF that(1)] that(2,3)
    by (simp add: same_run_def quiet_reports_own)
  have ids: "dr_runID (releaseSessionKey rs (record_result i c d)) = dr_runID d"
    "dr_jobID (releaseSessionKey rs (record_result i c d)) = dr_jobID d" for c
    using settled_same_run [of d rs i c] by (simp_all add: same_run_def)
  show ?thesis
    using assms rs
    by (auto simp: OnStepCompleted_def Let_def publishStepEvent_def same_run_def ids
        split: if_splits prod.splits dest!: own fr)
qed (use assms in \<open>auto simp: OnStepCompleted_def split: if_splits\<close>)

section \<open>Entries of the table\<close>

lemma log_effect_active [simp]: "oc_activeRuns (log_effect e oc) = oc_activeRuns oc"
  "oc_store (log_effect e oc) = oc_store oc"
  by (simp_all add: log_effect_def)

lemma publishEvent_active [simp]: "oc_activeRuns (publishEvent a b c e f g oc) = oc_activeRuns oc"
  "oc_store (publishEvent a b c e f g oc) = oc_store oc"
  by (simp_all add: publishEvent_def)

lemma try_store_active [simp]: "oc_activeRuns (try_store en c r oc) = oc_activeRuns oc"
  by (simp add: try_store_def split: sum.splits)

lemma buildOnComplete_active [simp]:
  "oc_activeRuns (buildOnComplete en cb r s oc) = fmdrop r (oc_activeRuns oc)"
  by (simp add: buildOnComplete_def Let_def)

lemma perform_active:
  "reports_own r effs \<Longrightarrow> oc_activeRuns (perform en cb effs oc) \<in>
     {oc_activeRuns oc, fmdrop r (oc_activeRuns oc)}"
proof (induction effs arbitrary: oc)
  case (Cons e es)
  define oc1 where "oc1 = perform en cb [e] oc"
  have "oc_activeRuns oc1 \<in> {oc_activeRuns oc, fmdrop r (oc_activeRuns oc)}"
    using Cons.prems by (cases e) (auto simp: oc1_def)
  moreover have "fmdrop r (fmdrop r m) = fmdrop r m" for m :: "(string, active_run) fmap"
    by (rule fmap_ext) simp
  ultimately show ?case using Cons.IH [of oc1] Cons.prems by (auto simp: oc1_def)
qed simp

lemma perform_quiet_active [simp]:
  assumes "quiet effs" shows "oc_activeRuns (perform en cb effs oc) = oc_activeRuns oc"
proof -
  have "\<forall>a b. RunComplete a b \<notin> set effs" using quiet_no_complete [OF assms] by simp
  then show ?thesis by (induction effs arbitrary: oc) (auto split: effect.splits)
qed

lemma prepare_active:
  "prepare en rq job oc = (r, oc') \<Longrightarrow> oc_activeRuns oc' = oc_activeRuns oc"
  by (auto simp: prepare_def Let_def split: sum.splits option.splits prod.splits)

lemma prepare_runner:
  "prepare en rq job oc = (Inr (run, runner, cb), oc') \<Longrightarrow>
     dr_jobID runner = rq_jobID rq \<and> dr_runID runner = r_RunID run"
  by (auto simp: prepare_def Let_def NewDAGRunner_def split: sum.splits option.splits prod.splits)

lemma CancelRun_active:
  "CancelRun en runID oc = (r, oc') \<Longrightarrow> oc_activeRuns oc' = fmdrop runID (oc_activeRuns oc)"
  by (auto simp: CancelRun_def publish_cancelled_def Let_def split: sum.splits option.splits prod.splits)

lemma fmdrop_upd_fresh: "fmlookup m k = None \<Longrightarrow> fmdrop k (fmupd k v m) = m"
  by (rule fmap_ext) simp


definition en_no_insert :: env where
  "en_no_insert = en0\<lparr>en_fault := (\<lambda>c. c = CInsertRunSteps)\<rparr>"


section \<open>The limit on concurrent runs\<close>

text \<open>
  Requests interleave: between the reservation, the store phase, the installation of the
  runner and its start, other requests, completions and cancellations of any run may take
  place. \<open>os_pending\<close> holds the requests that have reserved a slot, \<open>os_ready\<close> those
  whose runner is built. Reservation keys and run identifiers are fresh, and a client
  cannot name a reservation key.
\<close>

record orch_sys =
  os_oc :: Orchestrator
  os_pending :: "(run_request \<times> Job) list"
  os_ready :: "(run_request \<times> Run \<times> DAGRunner \<times> callback) list"

definition in_flight :: "orch_sys \<Rightarrow> run_request list" where
  "in_flight s = map fst (os_pending s) @ map fst (os_ready s)"

inductive orch_step :: "(string \<Rightarrow> int) \<Rightarrow> orch_sys \<Rightarrow> orch_sys \<Rightarrow> bool" for lim :: "string \<Rightarrow> int" where
  o_reserve:
    "j_MaxConcurrentRuns job = lim (rq_jobID rq) \<Longrightarrow> fmlookup (oc_activeRuns (os_oc s)) (reserve_key rq) = None \<Longrightarrow>
     reserve (reserve_key rq) (rq_jobID rq) job (os_oc s) = Inr oc' \<Longrightarrow>
     orch_step lim s (s\<lparr>os_oc := oc', os_pending := (rq, job) # os_pending s\<rparr>)"
| o_prepare:
    "(rq, job) \<in> set (os_pending s) \<Longrightarrow> prepare en rq job (os_oc s) = (Inr (run, runner, cb), oc') \<Longrightarrow>
     orch_step lim s (s\<lparr>os_oc := oc', os_pending := remove1 (rq, job) (os_pending s),
       os_ready := (rq, run, runner, cb) # os_ready s\<rparr>)"
| o_fail:
    "(rq, job) \<in> set (os_pending s) \<Longrightarrow> prepare en rq job (os_oc s) = (Inl e, oc') \<Longrightarrow>
     orch_step lim s (s\<lparr>os_oc := removeReservation (reserve_key rq) oc',
       os_pending := remove1 (rq, job) (os_pending s)\<rparr>)"
| o_install:
    "(rq, run, runner, cb) \<in> set (os_ready s) \<Longrightarrow> fmlookup (oc_activeRuns (os_oc s)) (r_RunID run) = None \<Longrightarrow>
     orch_step lim s (s\<lparr>os_oc := install (reserve_key rq) (r_RunID run) runner cb (os_oc s),
       os_ready := remove1 (rq, run, runner, cb) (os_ready s)\<rparr>)"
| o_start:
    "fmlookup (oc_activeRuns (os_oc s)) runID = Some a \<Longrightarrow> ar_onComplete a = Some cb \<Longrightarrow>
     start_runner en cb runID order (ar_runner a) (os_oc s) = Inr oc' \<Longrightarrow>
     orch_step lim s (s\<lparr>os_oc := oc'\<rparr>)"
| o_report:
    "orch_OnStepCompleted en order runID stepID code (os_oc s) = Inr oc' \<Longrightarrow>
     orch_step lim s (s\<lparr>os_oc := oc'\<rparr>)"
| o_cancel:
    "runID \<notin> reserve_key ` set (in_flight s) \<Longrightarrow> CancelRun en runID (os_oc s) = (r, oc') \<Longrightarrow>
     orch_step lim s (s\<lparr>os_oc := oc'\<rparr>)"

definition orch_init :: "orch_sys \<Rightarrow> bool" where
  "orch_init s \<longleftrightarrow> (\<exists>d. s = \<lparr>os_oc = NewOrchestrator d, os_pending = [], os_ready = []\<rparr>)"

definition reserved :: "(string, active_run) fmap \<Rightarrow> run_request \<Rightarrow> bool" where
  "reserved m rq \<longleftrightarrow> (\<exists>a. fmlookup m (reserve_key rq) = Some a \<and> ar_onComplete a = None \<and>
     dr_jobID (ar_runner a) = rq_jobID rq)"

definition own_keys :: "(string, active_run) fmap \<Rightarrow> bool" where
  "own_keys m \<longleftrightarrow> (\<forall>k a cb. fmlookup m k = Some a \<longrightarrow> ar_onComplete a = Some cb \<longrightarrow> dr_runID (ar_runner a) = k)"

definition within :: "(string \<Rightarrow> int) \<Rightarrow> (string, active_run) fmap \<Rightarrow> bool" where
  "within lim m \<longleftrightarrow> (\<forall>j. lim j > 0 \<longrightarrow> int (fmcount (\<lambda>a. dr_jobID (ar_runner a) = j) m) \<le> lim j)"

definition limit_inv :: "(string \<Rightarrow> int) \<Rightarrow> orch_sys \<Rightarrow> bool" where
  "limit_inv lim s \<longleftrightarrow>
     distinct (map reserve_key (in_flight s)) \<and>
     (\<forall>rq\<in>set (in_flight s). reserved (oc_activeRuns (os_oc s)) rq) \<and>
     own_keys (oc_activeRuns (os_oc s)) \<and>
     (\<forall>(rq, run, runner, cb)\<in>set (os_ready s). dr_jobID runner = rq_jobID rq \<and> dr_runID runner = r_RunID run) \<and>
     within lim (oc_activeRuns (os_oc s))"

lemma within_drop:
  assumes "within lim m" shows "within lim (fmdrop k m)"
  unfolding within_def
proof (intro allI impI)
  fix j assume "lim j > 0"
  with assms have "int (fmcount (\<lambda>a. dr_jobID (ar_runner a) = j) m) \<le> lim j" by (simp add: within_def)
  with fmcount_drop_le [of "\<lambda>a. dr_jobID (ar_runner a) = j" k m]
  show "int (fmcount (\<lambda>a. dr_jobID (ar_runner a) = j) (fmdrop k m)) \<le> lim j" by linarith
qed

lemma own_keys_drop: "own_keys m \<Longrightarrow> own_keys (fmdrop k m)"
  by (simp add: own_keys_def)

lemma reserved_drop: "reserved m rq \<Longrightarrow> k \<noteq> reserve_key rq \<Longrightarrow> reserved (fmdrop k m) rq"
  by (auto simp: reserved_def)

text \<open>Replacing a runner by a later state of the same run changes no count.\<close>

lemma replace_runner:
  assumes "fmlookup m k = Some a" and "same_run (ar_runner a) d"
  defines "m' \<equiv> fmupd k (a\<lparr>ar_runner := d\<rparr>) m"
  shows "within lim m \<Longrightarrow> within lim m'" and "own_keys m \<Longrightarrow> own_keys m'" and "reserved m rq \<Longrightarrow> reserved m' rq"
proof -
  have "fmcount (\<lambda>a. dr_jobID (ar_runner a) = j) m' = fmcount (\<lambda>a. dr_jobID (ar_runner a) = j) m" for j
    unfolding m'_def using assms(1,2) by (intro fmcount_upd_same) (auto simp: same_run_def)
  then show "within lim m \<Longrightarrow> within lim m'" by (simp add: within_def)
  show "own_keys m \<Longrightarrow> own_keys m'" using assms by (auto simp: own_keys_def same_run_def)
  show "reserved m rq \<Longrightarrow> reserved m' rq" using assms by (auto simp: reserved_def same_run_def)
qed

text \<open>A handler of an installed run replaces its runner and may remove its own entry.\<close>

lemma limit_inv_handler:
  assumes inv: "limit_inv lim s" and a: "fmlookup (oc_activeRuns (os_oc s)) runID = Some a" "ar_onComplete a = Some cb"
    and same: "same_run (ar_runner a) d'" and own: "reports_own (dr_runID (ar_runner a)) effs"
  shows "limit_inv lim (s\<lparr>os_oc := perform en cb effs (set_runner runID d' (os_oc s))\<rparr>)"
proof -
  let ?m = "oc_activeRuns (os_oc s)"
  define m' where "m' = fmupd runID (a\<lparr>ar_runner := d'\<rparr>) ?m"
  define oc' where "oc' = perform en cb effs (set_runner runID d' (os_oc s))"
  note rep = replace_runner [OF a(1) same, folded m'_def]
  have m': "within lim m'" "own_keys m'" "\<forall>rq\<in>set (in_flight s). reserved m' rq"
    using inv rep by (auto simp: limit_inv_def)
  have "dr_runID (ar_runner a) = runID" using inv a by (auto simp: limit_inv_def own_keys_def)
  then have "oc_activeRuns oc' \<in> {m', fmdrop runID m'}"
    using perform_active [of runID effs en cb "set_runner runID d' (os_oc s)"] own a
    by (auto simp: oc'_def m'_def set_runner_def)
  moreover have "runID \<noteq> reserve_key rq" if "rq \<in> set (in_flight s)" for rq
    using inv that a by (auto simp: limit_inv_def reserved_def)
  ultimately have "within lim (oc_activeRuns oc') \<and> own_keys (oc_activeRuns oc') \<and>
      (\<forall>rq\<in>set (in_flight s). reserved (oc_activeRuns oc') rq)"
    using m' within_drop own_keys_drop reserved_drop by auto
  then show ?thesis using inv by (simp add: limit_inv_def in_flight_def oc'_def)
qed

text \<open>Taking one request out of a list of requests.\<close>

lemma mset_map_remove1: "x \<in> set xs \<Longrightarrow> mset (map f xs) = mset (f x # map f (remove1 x xs))"
  by (induction xs) auto

lemma take_out:
  assumes "mset fl = mset (rq # fl')" and "distinct (map reserve_key fl)"
  shows "distinct (map reserve_key fl')" and "set fl = insert rq (set fl')"
    and "r \<in> set fl' \<Longrightarrow> reserve_key r \<noteq> reserve_key rq"
proof -
  have "mset (map reserve_key fl) = mset (map reserve_key (rq # fl'))"
    using arg_cong [OF assms(1), of "image_mset reserve_key"] by simp
  then have d: "distinct (map reserve_key (rq # fl'))"
    using assms(2) mset_eq_imp_distinct_iff by blast
  then show "distinct (map reserve_key fl')" by simp
  show "set fl = insert rq (set fl')" using mset_eq_setD [OF assms(1)] by simp
  assume "r \<in> set fl'"
  then have "reserve_key r \<in> reserve_key ` set fl'" by simp
  with d show "reserve_key r \<noteq> reserve_key rq" by auto
qed

lemma limit_inv_reserve:
  assumes "limit_inv lim s" and "j_MaxConcurrentRuns job = lim (rq_jobID rq)"
    and fresh: "fmlookup (oc_activeRuns (os_oc s)) (reserve_key rq) = None"
    and res: "reserve (reserve_key rq) (rq_jobID rq) job (os_oc s) = Inr oc'"
  shows "limit_inv lim (s\<lparr>os_oc := oc', os_pending := (rq, job) # os_pending s\<rparr>)"
proof -
  let ?m = "oc_activeRuns (os_oc s)"
  have m': "oc_activeRuns oc' = fmupd (reserve_key rq) \<lparr>ar_runner = zero_runner (rq_jobID rq), ar_onComplete = None\<rparr> ?m"
    and lt: "lim (rq_jobID rq) > 0 \<Longrightarrow> int (countActiveRunsForJob (rq_jobID rq) (os_oc s)) < lim (rq_jobID rq)"
    using res assms(2) by (auto simp: reserve_def Let_def split: if_splits)
  have zero: "dr_jobID (zero_runner j) = j" for j by (simp add: zero_runner_def)
  have "within lim (oc_activeRuns oc')"
    using assms(1) lt unfolding within_def m' fmcount_fresh [OF fresh]
    by (auto simp: limit_inv_def within_def countActiveRunsForJob_def zero)
  moreover have "own_keys (oc_activeRuns oc')"
    using assms(1) by (auto simp: limit_inv_def own_keys_def m')
  moreover have ne: "reserve_key rq \<noteq> reserve_key r" if "r \<in> set (in_flight s)" for r
    using assms(1) that fresh by (auto simp: limit_inv_def reserved_def)
  have "\<forall>r\<in>set (in_flight s). reserved (oc_activeRuns oc') r" "reserved (oc_activeRuns oc') rq"
    using assms(1) ne by (auto simp: limit_inv_def reserved_def m' zero)
  moreover have "reserve_key rq \<notin> reserve_key ` set (in_flight s)" using ne by auto
  ultimately show ?thesis using assms(1) by (auto simp: limit_inv_def in_flight_def)
qed

lemma limit_inv_prepare:
  assumes "limit_inv lim s" and "(rq, job) \<in> set (os_pending s)"
    and "prepare en rq job (os_oc s) = (Inr (run, runner, cb), oc')"
  shows "limit_inv lim (s\<lparr>os_oc := oc', os_pending := remove1 (rq, job) (os_pending s),
       os_ready := (rq, run, runner, cb) # os_ready s\<rparr>)" (is "limit_inv lim ?t")
proof -
  have "mset (in_flight s) = mset (in_flight ?t)"
    using mset_map_remove1 [OF assms(2), of fst] by (simp add: in_flight_def)
  then have "distinct (map reserve_key (in_flight ?t)) = distinct (map reserve_key (in_flight s))"
    and "set (in_flight ?t) = set (in_flight s)"
    by (metis mset_map mset_eq_imp_distinct_iff, metis mset_eq_setD)
  then show ?thesis
    using assms(1) prepare_active [OF assms(3)] prepare_runner [OF assms(3)] by (simp add: limit_inv_def)
qed

lemma limit_inv_fail:
  assumes inv: "limit_inv lim s" and mem: "(rq, job) \<in> set (os_pending s)"
    and "prepare en rq job (os_oc s) = (Inl e, oc')"
  shows "limit_inv lim (s\<lparr>os_oc := removeReservation (reserve_key rq) oc',
       os_pending := remove1 (rq, job) (os_pending s)\<rparr>)" (is "limit_inv lim ?t")
proof -
  have "mset (in_flight s) = mset (rq # in_flight ?t)"
    using mset_map_remove1 [OF mem, of fst] by (simp add: in_flight_def)
  note out = take_out [OF this]
  have d: "distinct (map reserve_key (in_flight s))" using inv by (simp add: limit_inv_def)
  have act: "oc_activeRuns (os_oc ?t) = fmdrop (reserve_key rq) (oc_activeRuns (os_oc s))"
    using prepare_active [OF assms(3)] by (simp add: removeReservation_def)
  have "reserved (oc_activeRuns (os_oc ?t)) r" if "r \<in> set (in_flight ?t)" for r
    unfolding act
  proof (rule reserved_drop)
    show "reserve_key rq \<noteq> reserve_key r" using out(3) [OF d that] by simp
    show "reserved (oc_activeRuns (os_oc s)) r" using inv out(2) [OF d] that by (auto simp: limit_inv_def)
  qed
  moreover have "within lim (oc_activeRuns (os_oc ?t))" "own_keys (oc_activeRuns (os_oc ?t))"
    unfolding act using inv by (simp_all add: limit_inv_def within_drop own_keys_drop)
  moreover have "os_ready ?t = os_ready s" by simp
  ultimately show ?thesis
    using inv out(1) [OF d] unfolding limit_inv_def by simp
qed

lemma limit_inv_install:
  assumes inv: "limit_inv lim s" and mem: "(rq, run, runner, cb) \<in> set (os_ready s)"
    and fresh: "fmlookup (oc_activeRuns (os_oc s)) (r_RunID run) = None"
  shows "limit_inv lim (s\<lparr>os_oc := install (reserve_key rq) (r_RunID run) runner cb (os_oc s),
       os_ready := remove1 (rq, run, runner, cb) (os_ready s)\<rparr>)" (is "limit_inv lim ?t")
proof -
  let ?m = "oc_activeRuns (os_oc s)" and ?m' = "oc_activeRuns (os_oc ?t)" and ?a = "\<lparr>ar_runner = runner, ar_onComplete = Some cb\<rparr>"
  have act: "?m' = fmupd (r_RunID run) ?a (fmdrop (reserve_key rq) ?m)" by (simp add: install_def)
  have "mset (in_flight s) = mset (rq # in_flight ?t)"
    using mset_map_remove1 [OF mem, of fst] by (simp add: in_flight_def)
  note out = take_out [OF this]
  have d: "distinct (map reserve_key (in_flight s))" using inv by (simp add: limit_inv_def)
  have ids: "dr_jobID runner = rq_jobID rq" "dr_runID runner = r_RunID run"
    using inv mem by (auto simp: limit_inv_def)
  have resd: "reserved ?m r" if "r \<in> insert rq (set (in_flight ?t))" for r
    using inv that out(2) [OF d] by (auto simp: limit_inv_def)
  obtain a where a: "fmlookup ?m (reserve_key rq) = Some a" "dr_jobID (ar_runner a) = rq_jobID rq"
    using resd [of rq] by (auto simp: reserved_def)
  have "fmlookup (fmdrop (reserve_key rq) ?m) (r_RunID run) = None" using fresh by simp
  from fmcount_fresh [OF this] have "fmcount (\<lambda>a. dr_jobID (ar_runner a) = j) ?m'
      = fmcount (\<lambda>a. dr_jobID (ar_runner a) = j) ?m" for j
    unfolding act using fmcount_drop_hit [OF a(1)] a(2) ids(1) by simp
  then have "within lim ?m'" using inv by (simp add: limit_inv_def within_def)
  moreover have "own_keys ?m'"
    unfolding act using inv ids(2) by (auto simp: limit_inv_def own_keys_def split: if_splits)
  moreover have "reserved ?m' r" if "r \<in> set (in_flight ?t)" for r
    unfolding act using resd [of r] out(3) [OF d that] that fresh by (auto simp: reserved_def)
  moreover have "set (os_ready ?t) \<subseteq> set (os_ready s)" using set_remove1_subset by fastforce
  ultimately show ?thesis using inv out(1) [OF d] unfolding limit_inv_def by blast
qed

lemma limit_inv_step:
  assumes "limit_inv lim s" and "orch_step lim s t"
  shows "limit_inv lim t"
  using assms(2)
proof cases
  case (o_reserve job rq oc')
  with limit_inv_reserve [OF assms(1)] show ?thesis by blast
next
  case (o_prepare rq job en run runner cb oc')
  with limit_inv_prepare [OF assms(1)] show ?thesis by blast
next
  case (o_fail rq job en e oc')
  with limit_inv_fail [OF assms(1)] show ?thesis by blast
next
  case (o_install rq run runner cb)
  with limit_inv_install [OF assms(1)] show ?thesis by blast
next
  case (o_start runID a cb en order oc')
  then show ?thesis
    using limit_inv_handler [OF assms(1)] quiet_reports_own Start_same_run
    by (fastforce simp: start_runner_def split: sum.splits)
next
  case (o_report en order runID stepID code oc')
  show ?thesis
  proof (cases "fmlookup (oc_activeRuns (os_oc s)) runID")
    case None
    with o_report assms(1) show ?thesis by (auto simp: orch_OnStepCompleted_def limit_inv_def in_flight_def)
  next
    case (Some a)
    then obtain d' launch effs where run: "OnStepCompleted order stepID code (ar_runner a) = Inr (d', launch, effs)"
      using o_report by (auto simp: orch_OnStepCompleted_def split: sum.splits)
    note same = OnStepCompleted_same_run [OF run]
    show ?thesis
    proof (cases "ar_onComplete a")
      case None
      then have "oc' = set_runner runID d' (os_oc s)" using o_report Some run by (simp add: orch_OnStepCompleted_def)
      then show ?thesis
        using o_report(1) assms(1) replace_runner [OF Some] same
        by (auto simp: limit_inv_def in_flight_def set_runner_def Some)
    next
      case cb: (Some cb)
      then show ?thesis
        using o_report Some run limit_inv_handler [OF assms(1) Some cb] same
        by (auto simp: orch_OnStepCompleted_def)
    qed
  qed
next
  case (o_cancel runID en r oc')
  have "reserved (fmdrop runID (oc_activeRuns (os_oc s))) rq" if "rq \<in> set (in_flight s)" for rq
    using assms(1) that o_cancel(2) by (intro reserved_drop) (auto simp: limit_inv_def)
  then show ?thesis
    using o_cancel assms(1) CancelRun_active [OF o_cancel(3)] within_drop own_keys_drop
    by (simp add: limit_inv_def in_flight_def)
qed

interpretation run_limits: invariant_system orch_init "orch_step lim" "limit_inv lim" for lim
proof unfold_locales
  show "limit_inv lim s" if "orch_init s" for s
    using that by (auto simp: orch_init_def limit_inv_def in_flight_def NewOrchestrator_def own_keys_def
        within_def fmcount_def)
  show "limit_inv lim t" if "limit_inv lim s" "orch_step lim s t" for s t
    using that by (rule limit_inv_step)
qed


definition oc_reserved :: Orchestrator where
  "oc_reserved = (case reserve (reserve_key rq0) ''j'' (scan_job job0) oc0 of Inl e \<Rightarrow> oc0 | Inr oc \<Rightarrow> oc)"



end
