(* ===== verification/Orchestrator_Runs.thy ===== *)
theory Orchestrator_Runs
  imports Orchestrator_Limits
begin

text \<open>
  What the requests on runs achieve: \<open>CreateRun\<close> accepts exactly the runnable jobs and
  puts the run in a state from which the theorems on runs apply, \<open>RepairRun\<close> does so for a
  repaired run, and \<open>CancelRun\<close> leaves no step of the run pending or running.
\<close>

section \<open>The graph of a job\<close>

definition job_graph_local :: "string \<Rightarrow> db \<Rightarrow> bool" where
  "job_graph_local jobID d \<longleftrightarrow>
     dep_DependsOn ` set (snd (GetStepsWithDeps jobID d)) \<subseteq> st_StepID ` set (fst (GetStepsWithDeps jobID d))"

lemma job_step_ids:
  "st_StepID ` set (fst (GetStepsWithDeps j d)) = {sc_step_id s | s. s \<in> set (db_steps d) \<and> sc_job_id s = j}"
  by (auto simp: GetStepsWithDeps_def scan_step_def image_iff) 

lemma job_deps_ok:
  assumes "wf_db d" and "job_graph_local j d"
  shows "distinct (snd (GetStepsWithDeps j d))"
    and "\<forall>e\<in>set (snd (GetStepsWithDeps j d)). dep_StepID e \<in> st_StepID ` set (fst (GetStepsWithDeps j d)) \<and>
      dep_DependsOn e \<in> st_StepID ` set (fst (GetStepsWithDeps j d))"
  using assms unfolding job_step_ids job_graph_local_def
  by (auto simp: GetStepsWithDeps_def wf_db_def wf_keys_def) metis

section \<open>The store phase of CreateRun\<close>

lemma call_Inr [simp]: "call en c r = Inr x \<longleftrightarrow> \<not> en_fault en c \<and> r = Inr x"
  by (auto simp: call_def split: sum.splits)

lemma prepare_Inr:
  assumes "prepare en rq job oc = (Inr (run, runner, cb), oc')"
  obtains steps deps ps js d1 d2 rd meta where
    "GetStepsWithDeps (rq_jobID rq) (oc_store oc) = (steps, deps)"
    "ValidateDAG (rq_orderDAG rq) steps deps = None"
    "CreateRun (rq_runID rq) (en_now en) \<lparr>cr_JobID = rq_jobID rq, cr_TriggerType = rq_triggerType rq,
       cr_TriggerDetail = rq_detail rq, cr_Parameters = js\<rparr> (oc_store oc) = Inr (run, d1)"
    "InsertRunSteps (rq_stepIDs rq) (r_RunID run) steps d1 = Inr d2"
    "GetRunWithSteps (r_RunID run) d2 = Inr rd" "oc_store oc' = d2"
    "runner = NewDAGRunner (r_RunID run) (rq_jobID rq) (rd_RunSteps rd) deps ps meta (step_names steps)"
  using assms that
  by (auto simp: prepare_def Let_def split: sum.splits option.splits prod.splits)
lemma CreateRun_row:
  assumes "CreateRun i now p d = Inr (run, d1)"
  shows "r_RunID run = i" and "i \<notin> set (run_ids d)" and "db_run_steps d1 = db_run_steps d"
    and "db_steps d1 = db_steps d" and "db_deps d1 = db_deps d" and "i \<in> set (run_ids d1)"
  using assms by (auto simp: CreateRun_def insert_run_def split: if_splits)

lemma fresh_run_no_steps: "wf_db d \<Longrightarrow> i \<notin> set (run_ids d) \<Longrightarrow> run_steps_of i d = []"
  by (auto simp: run_steps_of_def wf_db_def wf_refs_def filter_empty_conv)

text \<open>The run steps a new runner is built from.\<close>

lemma new_run_steps:
  assumes "wf_db d" and "CreateRun i now p d = Inr (run, d1)"
    and "InsertRunSteps newIDs i steps d1 = Inr d2" and "length newIDs = length steps"
    and "GetRunWithSteps i d2 = Inr rd"
  shows "map rs_StepID (rd_RunSteps rd) = map st_StepID steps"
    and "\<forall>rs\<in>set (rd_RunSteps rd). rs_Status rs = StatusPending"
proof -
  have "run_steps_of i d1 = []"
    using fresh_run_no_steps [OF assms(1) CreateRun_row(2) [OF assms(2)]] CreateRun_row(3) [OF assms(2)]
      run_steps_of_cong by metis
  then have rows: "rd_RunSteps rd = map (\<lambda>(k, st). scan_run_step (snapshot_row k i st)) (zip newIDs steps)"
    using InsertRunSteps_rows [OF assms(3)] assms(5)
    by (auto simp: GetRunWithSteps_def split: option.splits)
  have "map (rs_StepID \<circ> (\<lambda>(k, st). scan_run_step (snapshot_row k i st))) (zip newIDs steps)
      = map (st_StepID \<circ> snd) (zip newIDs steps)"
    by (rule map_cong) (auto simp: scan_run_step_def)
  then show "map rs_StepID (rd_RunSteps rd) = map st_StepID steps"
    using assms(4) by (simp add: rows flip: map_map)
  show "\<forall>rs\<in>set (rd_RunSteps rd). rs_Status rs = StatusPending"
    by (auto simp: rows scan_run_step_def)
qed

lemma prepare_startable:
  assumes prep: "prepare en rq job oc = (Inr (run, runner, cb), oc')"
    and wf: "wf_db (oc_store oc)" "job_graph_local (rq_jobID rq) (oc_store oc)"
    and steps: "GetStepsWithDeps (rq_jobID rq) (oc_store oc) = (steps, deps)"
    and len: "length (rq_stepIDs rq) = length steps"
    and ord: "enumerates (rq_orderDAG rq) (in_degrees (map st_StepID steps) deps)"
  shows "acyclic (edges deps)" and "startable deps runner" and "r_RunID run = rq_runID rq"
    and "dr_inDegree runner = in_degrees (map st_StepID steps) deps"
    and "st \<in> set steps \<Longrightarrow> stat runner (st_StepID st) = Some StatusPending"
proof -
  obtain ps js d1 rd meta where
    val: "ValidateDAG (rq_orderDAG rq) steps deps = None" and
    cr: "CreateRun (rq_runID rq) (en_now en) \<lparr>cr_JobID = rq_jobID rq, cr_TriggerType = rq_triggerType rq,
       cr_TriggerDetail = rq_detail rq, cr_Parameters = js\<rparr> (oc_store oc) = Inr (run, d1)" and
    ins: "InsertRunSteps (rq_stepIDs rq) (r_RunID run) steps d1 = Inr (oc_store oc')" and
    get: "GetRunWithSteps (r_RunID run) (oc_store oc') = Inr rd" and
    runner: "runner = NewDAGRunner (r_RunID run) (rq_jobID rq) (rd_RunSteps rd) deps ps meta (step_names steps)"
    by (rule prepare_Inr [OF prep]) (use steps in auto)
  show id: "r_RunID run = rq_runID rq" by (rule CreateRun_row(1) [OF cr])
  have st: "distinct (map st_StepID steps)" using steps_of_job(1) [OF wf(1), of "rq_jobID rq"] steps by simp
  have ends: "distinct deps" "\<forall>e\<in>set deps. dep_StepID e \<in> st_StepID ` set steps \<and> dep_DependsOn e \<in> st_StepID ` set steps"
    using job_deps_ok [OF wf] steps by simp_all
  show "acyclic (edges deps)" using ValidateDAG_correct [OF st ends(2) ord] val by simp
  note rows = new_run_steps [OF wf(1) cr ins [unfolded id] len get [unfolded id]]
  have dist: "distinct (map rs_StepID (rd_RunSteps rd))" by (simp add: rows(1) st)
  have "rs_StepID ` set (rd_RunSteps rd) = st_StepID ` set steps"
    using rows(1) by (metis list.set_map)
  moreover have "graph_ok (st_StepID ` set steps) deps"
    using ends by (auto simp: graph_ok_def edges_def)
  ultimately have "graph_ok (rs_StepID ` set (rd_RunSteps rd)) deps" by (simp only:)
  then show "startable deps runner" unfolding runner by (rule startable_new [OF dist rows(2)])
  show "dr_inDegree runner = in_degrees (map st_StepID steps) deps"
    by (simp add: runner NewDAGRunner_def rows(1))
  show "stat runner (st_StepID st) = Some StatusPending" if "st \<in> set steps"
  proof -
    have "st_StepID st \<in> rs_StepID ` set (rd_RunSteps rd)"
      using that rows(1) by (metis image_eqI list.set_map)
    then have "find (\<lambda>rs. rs_StepID rs = st_StepID st) (rd_RunSteps rd) \<noteq> None"
      by (auto simp: find_None_iff)
    then obtain rs where "find (\<lambda>rs. rs_StepID rs = st_StepID st) (rd_RunSteps rd) = Some rs" by blast
    with rows(2) show ?thesis
      unfolding new_runner_views(3) [OF dist runner] by (auto simp: find_Some_iff)
  qed
qed

section \<open>Accepted requests\<close>

text \<open>
  A request whose generated identifiers are new and whose iteration orders enumerate the
  maps they range over, as Go produces them.
\<close>

definition request_ok :: "run_request \<Rightarrow> db \<Rightarrow> bool" where
  "request_ok rq d \<longleftrightarrow>
     (case GetStepsWithDeps (rq_jobID rq) d of (steps, deps) \<Rightarrow>
        rq_runID rq \<notin> set (run_ids d) \<and> distinct (rq_stepIDs rq) \<and>
        set (rq_stepIDs rq) \<inter> set (run_step_ids d) = {} \<and> length (rq_stepIDs rq) = length steps \<and>
        enumerates (rq_orderDAG rq) (in_degrees (map st_StepID steps) deps) \<and>
        enumerates (rq_orderStart rq) (in_degrees (map st_StepID steps) deps))"

lemma insert_run_steps_total:
  "distinct (map fst ps) \<Longrightarrow> fst ` set ps \<inter> set (run_step_ids d) = {} \<Longrightarrow> run \<in> set (run_ids d) \<Longrightarrow>
   \<forall>st\<in>snd ` set ps. st_StepID st \<in> set (step_ids d) \<and> fk_opt (nullIfEmpty (st_MachineID st)) (db_machines d) \<Longrightarrow>
   \<exists>d'. insert_run_steps_tx run ps d = Inr d'"
proof (induction run ps d rule: insert_run_steps_tx.induct)
  case (2 run i st rest d)
  define d1 where "d1 = d\<lparr>db_run_steps := db_run_steps d @ [snapshot_row i run st]\<rparr>"
  have ins: "insert_run_step (snapshot_row i run st) d = Inr d1"
    using "2.prems" by (auto simp: insert_run_step_def d1_def) (simp add: snapshot_row_def)
  have "\<exists>d'. insert_run_steps_tx run rest d1 = Inr d'"
    using "2.prems" by (intro "2.IH" [OF ins]) (auto simp: d1_def image_iff)
  then show ?case using ins by simp
qed simp

lemma job_step_fk:
  assumes "wf_db d" and "st \<in> set (fst (GetStepsWithDeps j d))"
  shows "st_StepID st \<in> set (step_ids d) \<and> fk_opt (nullIfEmpty (st_MachineID st)) (db_machines d)"
proof -
  obtain s where "s \<in> set (db_steps d)" "st = scan_step s" using assms(2) by (auto simp: GetStepsWithDeps_def)
  moreover from this have "fk_opt (sc_machine_id s) (db_machines d)" using assms(1) by (simp add: wf_db_def wf_refs_def)
  ultimately show ?thesis
    by (cases "sc_machine_id s") (auto simp: scan_step_def nullIfEmpty_def fk_opt_def)
qed

lemma insert_run_steps_runs: "insert_run_steps_tx run ps d = Inr d' \<Longrightarrow> db_runs d' = db_runs d"
  by (drule insert_run_steps_tx_rows) simp

lemma GetRunWithSteps_total:
  assumes "run \<in> set (run_ids d)"
  obtains r where "GetRunWithSteps run d = Inr \<lparr>rd_Run = scan_run r, rd_RunSteps = run_steps_of run d\<rparr>"
    "r \<in> set (db_runs d)" "rc_run_id r = run"
proof -
  obtain r where r: "find (\<lambda>r. rc_run_id r = run) (db_runs d) = Some r"
    using assms by (cases "find (\<lambda>r. rc_run_id r = run) (db_runs d)") (auto simp: find_None_iff)
  then have "GetRunWithSteps run d = Inr \<lparr>rd_Run = scan_run r, rd_RunSteps = run_steps_of run d\<rparr>"
    by (simp add: GetRunWithSteps_def)
  then show thesis by (rule that) (use r in \<open>auto simp: find_Some_iff\<close>)
qed

lemma prepare_total:
  assumes wf: "wf_db (oc_store oc)" and rq: "request_ok rq (oc_store oc)"
    and ok: "\<forall>c. \<not> en_fault en c" "\<forall>ps. en_marshal en ps \<noteq> None"
    and job: "rq_jobID rq \<in> set (job_ids (oc_store oc))"
    and steps: "GetStepsWithDeps (rq_jobID rq) (oc_store oc) = (steps, deps)"
    and val: "ValidateDAG (rq_orderDAG rq) steps deps = None"
  shows "\<exists>run runner cb oc'. prepare en rq job oc = (Inr (run, runner, cb), oc')"
proof -
  have call: "call en c r = (case r of Inl e \<Rightarrow> Inl (StoreErr e) | Inr x \<Rightarrow> Inr x)" for c and r :: "store_error + 'a"
    using ok(1) by (simp add: call_def)
  obtain js where js: "en_marshal en (resolveParameters (en_unmarshal en) (rq_orderParams rq) (j_Parameters job) (rq_params rq)) = Some js"
    using ok(2) by blast
  define p where "p = \<lparr>cr_JobID = rq_jobID rq, cr_TriggerType = rq_triggerType rq,
       cr_TriggerDetail = rq_detail rq, cr_Parameters = js\<rparr>"
  have "rq_runID rq \<notin> set (run_ids (oc_store oc))" using rq steps by (simp add: request_ok_def)
  then obtain run d1 where cr: "CreateRun (rq_runID rq) (en_now en) p (oc_store oc) = Inr (run, d1)"
    using job by (auto simp: CreateRun_def insert_run_def p_def)
  have frame: "db_steps d1 = db_steps (oc_store oc)" "db_machines d1 = db_machines (oc_store oc)"
    "db_run_steps d1 = db_run_steps (oc_store oc)"
    using cr by (auto simp: CreateRun_def insert_run_def split: if_splits)
  have "\<exists>d2. insert_run_steps_tx (r_RunID run) (zip (rq_stepIDs rq) steps) d1 = Inr d2"
  proof (rule insert_run_steps_total)
    show "distinct (map fst (zip (rq_stepIDs rq) steps))" using rq steps by (simp add: request_ok_def)
    show "fst ` set (zip (rq_stepIDs rq) steps) \<inter> set (run_step_ids d1) = {}"
      using rq steps frame(3) by (auto simp: request_ok_def dest: set_zip_leftD)
    show "r_RunID run \<in> set (run_ids d1)" using CreateRun_row(1,6) [OF cr] by simp
    show "\<forall>st\<in>snd ` set (zip (rq_stepIDs rq) steps). st_StepID st \<in> set (step_ids d1) \<and>
        fk_opt (nullIfEmpty (st_MachineID st)) (db_machines d1)"
      using job_step_fk [OF wf, of _ "rq_jobID rq"] steps frame by (auto dest: set_zip_rightD)
  qed
  then obtain d2 where ins: "InsertRunSteps (rq_stepIDs rq) (r_RunID run) steps d1 = Inr d2"
    by (auto simp: InsertRunSteps_def)
  have "r_RunID run \<in> set (run_ids d2)"
    using CreateRun_row(1,6) [OF cr] insert_run_steps_runs [OF ins [unfolded InsertRunSteps_def]] by simp
  then obtain rd where get: "GetRunWithSteps (r_RunID run) d2 = Inr rd"
    using GetRunWithSteps_total by blast
  show ?thesis
    by (simp add: prepare_def call steps val js Let_def cr [unfolded p_def] ins get)
qed

definition below_limit :: "Job \<Rightarrow> string \<Rightarrow> Orchestrator \<Rightarrow> bool" where
  "below_limit job jobID oc \<longleftrightarrow>
     j_MaxConcurrentRuns job \<le> 0 \<or> int (countActiveRunsForJob jobID oc) < j_MaxConcurrentRuns job"

lemma reserve_Inr:
  "(\<exists>oc1. reserve k jobID job oc = Inr oc1) \<longleftrightarrow> below_limit job jobID oc"
  "reserve k jobID job oc = Inr oc1 \<Longrightarrow> oc_store oc1 = oc_store oc"
  by (auto simp: reserve_def below_limit_def Let_def split: if_splits)

text \<open>A prepared run starts: \<open>Start\<close> does not fault, and its entry holds the started runner.\<close>

lemma start_prepared:
  assumes "startable deps runner" and "enumerates order (dr_inDegree runner)"
    and "fmlookup (oc_activeRuns oc) runID = Some a"
  obtains oc' d' launch effs where "start_runner en cb runID order runner oc = Inr oc'"
    "Start order runner = Inr (d', launch, effs)"
    "oc_activeRuns oc' = fmupd runID (a\<lparr>ar_runner := d'\<rparr>) (oc_activeRuns oc)"
proof -
  obtain d' launch effs where st: "Start order runner = Inr (d', launch, effs)"
    using Start_inv [OF assms(1,2)] by blast
  show thesis
    using Start_same_run [OF st] assms(3)
    by (intro that [OF _ st]) (auto simp: start_runner_def st set_runner_def)
qed

lemma orch_CreateRun_Inr:
  assumes wf: "wf_db (oc_store oc)" "job_graph_local (rq_jobID rq) (oc_store oc)" "request_ok rq (oc_store oc)"
    and steps: "GetStepsWithDeps (rq_jobID rq) (oc_store oc) = (steps, deps)"
    and job: "call en CGetJob (GetJob (rq_jobID rq) (oc_store oc)) = Inr jd"
    and res: "reserve (reserve_key rq) (rq_jobID rq) (jd_Job jd) oc = Inr oc1"
    and prep: "prepare en rq (jd_Job jd) oc1 = (Inr (run, runner, cb), oc2)"
  obtains oc' a d' launch effs where "orch_CreateRun en rq oc = (Inr run, oc')" "startable deps runner"
    "Start (rq_orderStart rq) runner = Inr (d', launch, effs)"
    "fmlookup (oc_activeRuns oc') (r_RunID run) = Some a" "ar_runner a = d'" "ar_onComplete a = Some cb"
    "acyclic (edges deps)" "r_RunID run = rq_runID rq"
    "st \<in> set steps \<Longrightarrow> stat runner (st_StepID st) = Some StatusPending"
    "dr_inDegree runner = in_degrees (map st_StepID steps) deps"
proof -
  have store1: "oc_store oc1 = oc_store oc" by (rule reserve_Inr(2) [OF res])
  have ok: "length (rq_stepIDs rq) = length steps"
    "enumerates (rq_orderDAG rq) (in_degrees (map st_StepID steps) deps)"
    "enumerates (rq_orderStart rq) (in_degrees (map st_StepID steps) deps)"
    using wf(3) steps by (simp_all add: request_ok_def)
  note p = prepare_startable [OF prep, unfolded store1, OF wf(1,2) steps ok(1,2)]
  let ?oc3 = "install (reserve_key rq) (r_RunID run) runner cb oc2"
  let ?oc5 = "publishEvent TypeRunStarted (r_RunID run) (rq_jobID rq) StatusRunning (rq_triggerType rq) (j_Name (jd_Job jd))
    (try_store en CUpdateRunStatus (UpdateRunStatus (en_now en) (r_RunID run) StatusRunning (oc_store ?oc3)) ?oc3)"
  have look: "fmlookup (oc_activeRuns ?oc5) (r_RunID run) = Some \<lparr>ar_runner = runner, ar_onComplete = Some cb\<rparr>"
    by (simp add: install_def)
  obtain oc6 d' launch effs where s: "start_runner en cb (r_RunID run) (rq_orderStart rq) runner ?oc5 = Inr oc6"
    "Start (rq_orderStart rq) runner = Inr (d', launch, effs)"
    "oc_activeRuns oc6 = fmupd (r_RunID run) (\<lparr>ar_runner = runner, ar_onComplete = Some cb\<rparr>\<lparr>ar_runner := d'\<rparr>) (oc_activeRuns ?oc5)"
    by (rule start_prepared [OF p(2) _ look, of "rq_orderStart rq"]) (use ok(3) p(4) in auto)
  let ?oc7 = "if j_TimeoutSeconds (jd_Job jd) > 0 then log_effect (TimeoutAfter (r_RunID run) (j_TimeoutSeconds (jd_Job jd))) oc6 else oc6"
  have "orch_CreateRun en rq oc = (Inr run, ?oc7)"
    by (simp add: orch_CreateRun_def job res prep Let_def s(1))
  then show thesis
    by (rule that [where a = "\<lparr>ar_runner = d', ar_onComplete = Some cb\<rparr>", OF _ p(2) s(2)])
      (use s(3) p in auto)
qed

lemma accepts_iff:
  assumes "wf_db (oc_store oc)" and "job_graph_local (rq_jobID rq) (oc_store oc)"
    and "request_ok rq (oc_store oc)" and "\<forall>c. \<not> en_fault en c" and "\<forall>ps. en_marshal en ps \<noteq> None"
    and "GetJob (rq_jobID rq) (oc_store oc) = Inr jd"
  shows "(\<exists>run oc'. orch_CreateRun en rq oc = (Inr run, oc')) \<longleftrightarrow>
    acyclic (edges (jd_Dependencies jd)) \<and> below_limit (jd_Job jd) (rq_jobID rq) oc"
proof -
  obtain steps deps where steps: "GetStepsWithDeps (rq_jobID rq) (oc_store oc) = (steps, deps)" by force
  have deps: "jd_Dependencies jd = deps" using GetJob_steps(2) [OF assms(6)] steps by simp
  have job: "call en CGetJob (GetJob (rq_jobID rq) (oc_store oc)) = Inr jd" using assms(4,6) by simp
  have st: "distinct (map st_StepID steps)" using steps_of_job(1) [OF assms(1), of "rq_jobID rq"] steps by simp
  have val: "ValidateDAG (rq_orderDAG rq) steps deps = None \<longleftrightarrow> acyclic (edges deps)"
    using job_deps_ok(2) [OF assms(1,2)] assms(3) st steps by (intro ValidateDAG_correct) (auto simp: request_ok_def)
  show ?thesis unfolding deps
  proof (intro iffI conjI)
    assume "\<exists>run oc'. orch_CreateRun en rq oc = (Inr run, oc')"
    then obtain run oc' where run: "orch_CreateRun en rq oc = (Inr run, oc')" by blast
    then obtain oc1 runner cb oc2 where res: "reserve (reserve_key rq) (rq_jobID rq) (jd_Job jd) oc = Inr oc1"
      and prep: "prepare en rq (jd_Job jd) oc1 = (Inr (run, runner, cb), oc2)"
      using job by (auto simp: orch_CreateRun_def Let_def split: sum.splits prod.splits)
    show "acyclic (edges deps)" by (rule orch_CreateRun_Inr [OF assms(1-3) steps job res prep])
    show "below_limit (jd_Job jd) (rq_jobID rq) oc" using reserve_Inr(1) res by blast
  next
    assume ac: "acyclic (edges deps) \<and> below_limit (jd_Job jd) (rq_jobID rq) oc"
    then obtain oc1 where res: "reserve (reserve_key rq) (rq_jobID rq) (jd_Job jd) oc = Inr oc1"
      using reserve_Inr(1) by blast
    obtain run runner cb oc2 where prep: "prepare en rq (jd_Job jd) oc1 = (Inr (run, runner, cb), oc2)"
      using prepare_total [of oc1 rq en steps deps "jd_Job jd"] assms(1,3-5) GetJob_steps(3) [OF assms(6)]
        steps val ac reserve_Inr(2) [OF res] by auto
    show "\<exists>run oc'. orch_CreateRun en rq oc = (Inr run, oc')"
      by (rule orch_CreateRun_Inr [OF assms(1-3) steps job res prep]) blast
  qed
qed

text \<open>
  With the store available, \<open>CreateRun\<close> accepts a request for an existing job exactly
  when the job's dependency graph is acyclic and the job is below its limit of concurrent
  runs.
\<close>

theorem CreateRun_accepts_iff:
  assumes "wf_db (oc_store oc)" and "job_graph_local (rq_jobID rq) (oc_store oc)"
    and "request_ok rq (oc_store oc)" and "\<forall>c. \<not> en_fault en c" and "\<forall>ps. en_marshal en ps \<noteq> None"
    and "GetJob (rq_jobID rq) (oc_store oc) = Inr jd"
  shows "(\<exists>run oc'. orch_CreateRun en rq oc = (Inr run, oc')) \<longleftrightarrow>
    acyclic (edges (jd_Dependencies jd)) \<and> below_limit (jd_Job jd) (rq_jobID rq) oc"
  using assms by (rule accepts_iff)

lemma starts_run:
  assumes "wf_db (oc_store oc)" and "job_graph_local (rq_jobID rq) (oc_store oc)"
    and "request_ok rq (oc_store oc)" and "GetStepsWithDeps (rq_jobID rq) (oc_store oc) = (steps, deps)"
    and "steps \<noteq> []" and "orch_CreateRun en rq oc = (Inr run, oc')"
  shows "acyclic (edges deps) \<and>
    (\<exists>a (launch :: RunStep list). fmlookup (oc_activeRuns oc') (r_RunID run) = Some a \<and> ar_onComplete a \<noteq> None \<and>
       run_init deps \<lparr>rn_d = ar_runner a, rn_R = map rs_StepID launch, rn_RT = [], rn_results = []\<rparr>)"
proof -
  obtain jd oc1 runner cb oc2 where job: "call en CGetJob (GetJob (rq_jobID rq) (oc_store oc)) = Inr jd"
    and res: "reserve (reserve_key rq) (rq_jobID rq) (jd_Job jd) oc = Inr oc1"
    and prep: "prepare en rq (jd_Job jd) oc1 = (Inr (run, runner, cb), oc2)"
    using assms(6) by (auto simp: orch_CreateRun_def Let_def split: sum.splits prod.splits)
  obtain a d' launch effs where a: "startable deps runner" "Start (rq_orderStart rq) runner = Inr (d', launch, effs)"
    "fmlookup (oc_activeRuns oc') (r_RunID run) = Some a" "ar_runner a = d'" "ar_onComplete a = Some cb"
    "acyclic (edges deps)" "stat runner (st_StepID (hd steps)) = Some StatusPending"
    "dr_inDegree runner = in_degrees (map st_StepID steps) deps"
    by (rule orch_CreateRun_Inr [OF assms(1-4) job res prep, of "hd steps"]) (use assms(5,6) in auto)
  have "enumerates (rq_orderStart rq) (dr_inDegree runner)" using assms(3,4) a(8) by (simp add: request_ok_def)
  then have "run_init deps \<lparr>rn_d = ar_runner a, rn_R = map rs_StepID launch, rn_RT = [], rn_results = []\<rparr>"
    unfolding run_init_def a(4) using a(1,2,7) by blast
  then show ?thesis using a(3,5,6) by auto
qed

text \<open>
  C15. A successful \<open>CreateRun\<close> for a job with steps, whatever store calls fail on the way,
  registers under the run's identifier a started runner over an acyclic graph, in an
  initial state of the run system: every theorem on reachable states of runs applies to it.
\<close>

theorem CreateRun_starts_run:
  assumes "wf_db (oc_store oc)" and "job_graph_local (rq_jobID rq) (oc_store oc)"
    and "request_ok rq (oc_store oc)" and "GetStepsWithDeps (rq_jobID rq) (oc_store oc) = (steps, deps)"
    and "steps \<noteq> []" and "orch_CreateRun en rq oc = (Inr run, oc')"
  shows "acyclic (edges deps) \<and>
    (\<exists>a (launch :: RunStep list). fmlookup (oc_activeRuns oc') (r_RunID run) = Some a \<and> ar_onComplete a \<noteq> None \<and>
       run_init deps \<lparr>rn_d = ar_runner a, rn_R = map rs_StepID launch, rn_RT = [], rn_results = []\<rparr>)"
  using assms by (rule starts_run)

lemma wf_db1: "wf_db db1"
  by (simp add: wf_db_def wf_keys_def wf_refs_def wf_values_def db1_def db0_def empty_db_def job0_def
      step1_def step0_def step_to_row_def nullIfEmpty_def fk_opt_def values_of_def)

lemma oc0_request:
  "oc_store oc0 = db1" "job_graph_local (rq_jobID rq0) (oc_store oc0)" "request_ok rq0 (oc_store oc0)"
  "GetStepsWithDeps (rq_jobID rq0) (oc_store oc0) = ([step1], [])"
proof -
  show "oc_store oc0 = db1" by (simp add: oc0_def SetPublisher_def NewOrchestrator_def)
  then show get: "GetStepsWithDeps (rq_jobID rq0) (oc_store oc0) = ([step1], [])" by code_simp
  show "job_graph_local (rq_jobID rq0) (oc_store oc0)" by (simp add: job_graph_local_def get)
  have "in_degrees [''s''] [] = fmupd ''s'' 0 fmempty"
    by (rule fmap_ext) (auto simp: in_degrees_def)
  then show "request_ok rq0 (oc_store oc0)"
    unfolding request_ok_def get
    by (simp add: rq0_def enumerates_def step1_def oc0_def SetPublisher_def NewOrchestrator_def
        db1_def db0_def empty_db_def)
qed

theorem CreateRun_accepts_iff_witness:
  "\<exists>run oc'. orch_CreateRun en0 rq0 oc0 = (Inr run, oc')"
proof -
  obtain jd where jd: "GetJob (rq_jobID rq0) (oc_store oc0) = Inr jd"
    using oc0_request(1) by (auto simp: GetJob_def rq0_def db1_def db0_def job0_def)
  have deps: "jd_Dependencies jd = []" using GetJob_steps(2) [OF jd] oc0_request(4) by simp
  have "countActiveRunsForJob (rq_jobID rq0) oc0 = 0" by code_simp
  moreover have "j_MaxConcurrentRuns (jd_Job jd) = 1"
    using jd oc0_request(1) by (auto simp: GetJob_def rq0_def db1_def db0_def job0_def scan_job_def)
  ultimately show ?thesis
    using CreateRun_accepts_iff [OF _ oc0_request(2,3) _ _ jd, of en0] wf_db1 oc0_request(1) deps
    by (simp add: en0_def below_limit_def edges_def acyclic_def)
qed

theorem CreateRun_starts_run_witness:
  "\<exists>run oc' a (launch :: RunStep list). orch_CreateRun en0 rq0 oc0 = (Inr run, oc') \<and>
     fmlookup (oc_activeRuns oc') (r_RunID run) = Some a \<and>
     run_init [] \<lparr>rn_d = ar_runner a, rn_R = map rs_StepID launch, rn_RT = [], rn_results = []\<rparr>"
proof -
  have "\<not> isl (fst (orch_CreateRun en0 rq0 oc0))" by code_simp
  then obtain run oc' where "orch_CreateRun en0 rq0 oc0 = (Inr run, oc')"
    by (cases "orch_CreateRun en0 rq0 oc0"; cases "fst (orch_CreateRun en0 rq0 oc0)") auto
  then show ?thesis
    using CreateRun_starts_run [OF _ oc0_request(2-4), of en0 run oc'] wf_db1 oc0_request(1) by auto
qed

end
