(* ===== verification/Orchestrator_Repair.thy ===== *)
theory Orchestrator_Repair
  imports Orchestrator_Runs
begin

text \<open>
  Cancelling and repairing a run. Both sweep over the run's steps with a status update;
  what a sweep achieves is proved once, in the locale of a store of step statuses, and
  instantiated with the update that \<open>CancelRun\<close> makes and the reset that \<open>RepairRun\<close>
  and \<open>RetryStep\<close> make. A repaired run is rebuilt into a state of the run system.
\<close>

section \<open>Sweeping over step statuses\<close>

locale status_store =
  fixes status :: "'d \<Rightarrow> string \<Rightarrow> string option"
    and update :: "string \<Rightarrow> 'd \<Rightarrow> 'e option \<times> 'd"
    and target :: string
  assumes update_known: "status d i \<noteq> None \<Longrightarrow> fst (update i d) = None"
    and update_status: "update i d = (None, d') \<Longrightarrow> status d' j = (if j = i then Some target else status d j)"
begin

lemma sweep:
  assumes "\<And>d. loop [] d = (None, d)"
    and "\<And>i rest d. loop (i # rest) d = (case update i d of (Some e, d') \<Rightarrow> (Some e, d') | (None, d') \<Rightarrow> loop rest d')"
    and "\<forall>i\<in>set ids. status d i \<noteq> None"
  shows "fst (loop ids d) = None \<and>
    (\<forall>j. status (snd (loop ids d)) j = (if j \<in> set ids then Some target else status d j))"
  using assms(3)
proof (induction ids arbitrary: d)
  case (Cons i rest)
  obtain d' where u: "update i d = (None, d')" using update_known [of d i] Cons.prems by (cases "update i d") auto
  have "fst (loop rest d') = None \<and>
      (\<forall>j. status (snd (loop rest d')) j = (if j \<in> set rest then Some target else status d' j))"
    using Cons.prems update_status [OF u] by (intro Cons.IH) auto
  then show ?case using update_status [OF u] by (auto simp: assms(2) u)
qed (simp add: assms(1))

end

section \<open>The statuses of run steps\<close>

definition step_status :: "db \<Rightarrow> string \<Rightarrow> string option" where
  "step_status d i = map_option xc_status (find (\<lambda>x. xc_run_step_id x = i) (db_run_steps d))"

lemma find_map_frame:
  "(\<And>x. xc_run_step_id (f x) = xc_run_step_id x) \<Longrightarrow>
   find (\<lambda>x. xc_run_step_id x = i) (map f xs) = map_option f (find (\<lambda>x. xc_run_step_id x = i) xs)"
  by (induction xs) auto

lemma step_status_known: "step_status d i \<noteq> None \<longleftrightarrow> i \<in> set (run_step_ids d)"
  by (auto simp: step_status_def find_None_iff)

lemma status_set [simp]: "xc_status (run_step_status_set now s sess e x) = s"
  by (simp add: run_step_status_set_def)

lemma UpdateRunStepStatus_status:
  assumes "UpdateRunStepStatus now i s sess e d = Inr d'"
  shows "step_status d' j = (if j = i then Some s else step_status d j)"
proof -
  let ?f = "\<lambda>x. if xc_run_step_id x = i then run_step_status_set now s sess e x else x"
  have rows: "db_run_steps d' = map ?f (db_run_steps d)" and mem: "i \<in> set (run_step_ids d)"
    using assms by (auto simp: UpdateRunStepStatus_def split: if_splits)
  have "step_status d' j = map_option (xc_status \<circ> ?f) (find (\<lambda>x. xc_run_step_id x = j) (db_run_steps d))"
    unfolding step_status_def rows by (subst find_map_frame) (simp_all add: option.map_comp)
  also have "\<dots> = (if j = i then Some s else step_status d j)"
  proof (cases "find (\<lambda>x. xc_run_step_id x = j) (db_run_steps d)")
    case None
    then have "j \<noteq> i" using mem by (auto simp: find_None_iff)
    with None show ?thesis by (simp add: step_status_def)
  next
    case (Some x)
    then have "xc_run_step_id x = j" by (auto simp: find_Some_iff)
    with Some show ?thesis by (auto simp: step_status_def)
  qed
  finally show ?thesis .
qed

lemma step_status_attempt [simp]: "step_status (UpdateRunStepAttempt i n d) j = step_status d j"
  by (auto simp: step_status_def UpdateRunStepAttempt_def find_map_frame option.map_comp comp_def
      intro!: arg_cong2 [where f = map_option])

lemma step_status_values [simp]: "step_status (DeleteTaskValuesForStep i d) j = step_status d j"
  by (simp add: step_status_def DeleteTaskValuesForStep_def)

lemma UpdateRunStepStatus_known:
  "step_status d i \<noteq> None \<Longrightarrow> \<exists>d'. UpdateRunStepStatus now i s sess e d = Inr d'"
  using step_status_known [of d i] by (simp add: UpdateRunStepStatus_def)

text \<open>The update of one step that \<open>CancelRun\<close> makes, and the reset of one step.\<close>

definition cancel_one :: "time \<Rightarrow> string \<Rightarrow> db \<Rightarrow> store_error option \<times> db" where
  "cancel_one now i d =
     (case UpdateRunStepStatus now i StatusCancelled '''' 0 d of Inl e \<Rightarrow> (Some e, d) | Inr d' \<Rightarrow> (None, d'))"

definition reset_one :: "time \<Rightarrow> bool \<Rightarrow> string \<Rightarrow> db \<Rightarrow> store_error option \<times> db" where
  "reset_one now clear i d =
     (case UpdateRunStepStatus now i StatusPending '''' 0 d of
        Inl e \<Rightarrow> (Some e, d)
      | Inr d1 \<Rightarrow> (None, (if clear then DeleteTaskValuesForStep i else id) (UpdateRunStepAttempt i 1 d1)))"

interpretation cancels: status_store step_status "cancel_one now" StatusCancelled for now
proof unfold_locales
  show "fst (cancel_one now i d) = None" if "step_status d i \<noteq> None" for d i
    using UpdateRunStepStatus_known [OF that, of now StatusCancelled "''''" 0] by (auto simp: cancel_one_def)
  show "step_status d' j = (if j = i then Some StatusCancelled else step_status d j)"
    if "cancel_one now i d = (None, d')" for d d' i j
    using that by (auto simp: cancel_one_def UpdateRunStepStatus_status split: sum.splits)
qed

interpretation resets: status_store step_status "reset_one now clear" StatusPending for now clear
proof unfold_locales
  show "fst (reset_one now clear i d) = None" if "step_status d i \<noteq> None" for d i
    using UpdateRunStepStatus_known [OF that, of now StatusPending "''''" 0] by (auto simp: reset_one_def)
  show "step_status d' j = (if j = i then Some StatusPending else step_status d j)"
    if "reset_one now clear i d = (None, d')" for d d' i j
    using that by (auto simp: reset_one_def UpdateRunStepStatus_status split: sum.splits)
qed

fun sweep_list :: "(string \<Rightarrow> db \<Rightarrow> store_error option \<times> db) \<Rightarrow> string list \<Rightarrow> db \<Rightarrow> store_error option \<times> db" where
  "sweep_list upd [] d = (None, d)"
| "sweep_list upd (i # rest) d =
     (case upd i d of (Some e, d') \<Rightarrow> (Some e, d') | (None, d') \<Rightarrow> sweep_list upd rest d')"

definition healthy :: "env \<Rightarrow> bool" where
  "healthy en \<longleftrightarrow> (\<forall>c. \<not> en_fault en c)"

lemma healthy_call [simp]: "healthy en \<Longrightarrow> call en c r = (case r of Inl e \<Rightarrow> Inl (StoreErr e) | Inr x \<Rightarrow> Inr x)"
  by (simp add: call_def healthy_def)

definition unsettled :: "RunStep \<Rightarrow> bool" where
  "unsettled rs \<longleftrightarrow> rs_Status rs = StatusPending \<or> rs_Status rs = StatusRunning"

lemma cancel_steps_sweep:
  assumes "healthy en"
  shows "cancel_steps en rss d = map_prod (map_option StoreErr) id
    (sweep_list (cancel_one (en_now en)) (map rs_RunStepID (filter unsettled rss)) d)"
  using assms
  by (induction rss arbitrary: d) (auto simp: cancel_one_def unsettled_def split: sum.splits prod.splits)

lemma reset_steps_sweep:
  assumes "healthy en"
  shows "reset_steps en clear rss d = map_prod (map_option StoreErr) id
    (sweep_list (reset_one (en_now en) clear) (map rs_RunStepID rss) d)"
  using assms
  by (induction rss arbitrary: d) (auto simp: reset_one_def reset_step_def split: sum.splits prod.splits)

section \<open>What a sweep leaves alone\<close>

definition skel :: "db \<Rightarrow> (string \<times> string \<times> string) list" where
  "skel d = map (\<lambda>x. (xc_run_step_id x, xc_run_id x, xc_step_id x)) (db_run_steps d)"

definition others :: "db \<Rightarrow> job_row list \<times> step_row list \<times> StepDependency list \<times> run_row list" where
  "others d = (db_jobs d, db_steps d, db_deps d, db_runs d)"

lemma sweep_view:
  "(\<And>i d. view (snd (upd i d)) = view d) \<Longrightarrow> view (snd (sweep_list upd ids d)) = view d"
proof (induction ids arbitrary: d)
  case (Cons i rest)
  then show ?case by (auto split: prod.splits option.splits) (metis snd_conv)+
qed simp

lemma update_views:
  "UpdateRunStepStatus now i s sess e d = Inr d' \<Longrightarrow> skel d' = skel d \<and> others d' = others d"
  "skel (UpdateRunStepAttempt i n d) = skel d" "others (UpdateRunStepAttempt i n d) = others d"
  "skel (DeleteTaskValuesForStep i d) = skel d" "others (DeleteTaskValuesForStep i d) = others d"
  by (auto simp: UpdateRunStepStatus_def UpdateRunStepAttempt_def DeleteTaskValuesForStep_def skel_def others_def
      split: if_splits)

lemma one_views:
  "skel (snd (cancel_one now i d)) = skel d" "others (snd (cancel_one now i d)) = others d"
  "skel (snd (reset_one now clear i d)) = skel d" "others (snd (reset_one now clear i d)) = others d"
  by (auto simp: cancel_one_def reset_one_def update_views dest: update_views(1) split: sum.splits)

lemma step_status_row:
  assumes "distinct (run_step_ids d)" and "x \<in> set (db_run_steps d)"
  shows "step_status d (xc_run_step_id x) = Some (xc_status x)"
proof -
  obtain y where y: "find (\<lambda>y. xc_run_step_id y = xc_run_step_id x) (db_run_steps d) = Some y"
    using assms(2) by (cases "find (\<lambda>y. xc_run_step_id y = xc_run_step_id x) (db_run_steps d)") (auto simp: find_None_iff)
  then have "y = x" using assms by (intro distinct_map_inj [of xc_run_step_id]) (auto simp: find_Some_iff)
  with y show ?thesis by (simp add: step_status_def)
qed

lemma run_step_status:
  assumes "distinct (run_step_ids d)" and "rs \<in> set (run_steps_of r d)"
  shows "step_status d (rs_RunStepID rs) = Some (rs_Status rs)"
  using assms step_status_row by (auto simp: run_steps_of_def scan_run_step_def)

lemma distinct_run_steps:
  assumes "distinct (run_step_ids d)" shows "distinct (map rs_RunStepID (run_steps_of r d))"
proof -
  have "map rs_RunStepID (run_steps_of r d) = map xc_run_step_id (filter (\<lambda>x. xc_run_id x = r) (db_run_steps d))"
    by (simp add: run_steps_of_def scan_run_step_def)
  then show ?thesis using assms by (simp add: distinct_map_filter)
qed

lemma skel_ids: "skel d' = skel d \<Longrightarrow> run_step_ids d' = run_step_ids d"
  by (drule arg_cong [where f = "map fst"]) (simp add: skel_def comp_def)

lemma skel_steps:
  "map (\<lambda>rs. (rs_RunStepID rs, rs_StepID rs)) (run_steps_of r d)
     = map (\<lambda>(a, b, c). (a, c)) (filter (\<lambda>(a, b, c). b = r) (skel d))"
  unfolding run_steps_of_def skel_def
  by (induction "db_run_steps d" arbitrary: d) (auto simp: scan_run_step_def filter_map comp_def)

text \<open>The run after its chosen steps were swept to a status.\<close>

lemma swept_run:
  assumes "status_store step_status upd target" and "\<And>i d. skel (snd (upd i d)) = skel d"
    and "wf_db d" and "P = map rs_RunStepID (filter Q (run_steps_of r d))"
  shows "fst (sweep_list upd P d) = None"
    and "step_status (snd (sweep_list upd P d)) j = (if j \<in> set P then Some target else step_status d j)"
    and "map (\<lambda>rs. (rs_RunStepID rs, rs_StepID rs)) (run_steps_of r (snd (sweep_list upd P d)))
      = map (\<lambda>rs. (rs_RunStepID rs, rs_StepID rs)) (run_steps_of r d)"
    and "map rs_Status (run_steps_of r (snd (sweep_list upd P d)))
      = map (\<lambda>rs. if Q rs then target else rs_Status rs) (run_steps_of r d)"
proof -
  have ids: "distinct (run_step_ids d)" using assms(3) by (simp add: wf_db_def wf_keys_def)
  have known: "\<forall>i\<in>set P. step_status d i \<noteq> None"
    using run_step_status [OF ids] by (auto simp: assms(4))
  have sw: "fst (sweep_list upd P d) = None \<and>
    (\<forall>j. step_status (snd (sweep_list upd P d)) j = (if j \<in> set P then Some target else step_status d j))"
    by (rule status_store.sweep [OF assms(1) _ _ known]) simp_all
  then show "fst (sweep_list upd P d) = None"
    and st: "step_status (snd (sweep_list upd P d)) j = (if j \<in> set P then Some target else step_status d j)" for j
    by simp_all
  define d' where "d' = snd (sweep_list upd P d)"
  have sk: "skel d' = skel d" unfolding d'_def by (rule sweep_view) (rule assms(2))
  then have eq: "map (\<lambda>rs. (rs_RunStepID rs, rs_StepID rs)) (run_steps_of r d')
      = map (\<lambda>rs. (rs_RunStepID rs, rs_StepID rs)) (run_steps_of r d)"
    by (simp only: skel_steps)
  then show "map (\<lambda>rs. (rs_RunStepID rs, rs_StepID rs)) (run_steps_of r (snd (sweep_list upd P d)))
      = map (\<lambda>rs. (rs_RunStepID rs, rs_StepID rs)) (run_steps_of r d)" by (simp add: d'_def)
  have len: "length (run_steps_of r d') = length (run_steps_of r d)" using map_eq_imp_length_eq [OF eq] .
  have "rs_Status (run_steps_of r d' ! n) = (if Q (run_steps_of r d ! n) then target else rs_Status (run_steps_of r d ! n))"
    if n: "n < length (run_steps_of r d)" for n
  proof -
    let ?x = "run_steps_of r d ! n" and ?y = "run_steps_of r d' ! n"
    have id: "rs_RunStepID ?y = rs_RunStepID ?x" using arg_cong [OF eq, of "\<lambda>l. fst (l ! n)"] n len by simp
    have "distinct (run_step_ids d')" using ids by (simp add: skel_ids [OF sk])
    then have "Some (rs_Status ?y) = step_status d' (rs_RunStepID ?x)"
      using run_step_status [of d' ?y r] n len by (simp add: id)
    also have "\<dots> = (if rs_RunStepID ?x \<in> set P then Some target else Some (rs_Status ?x))"
      using st [of "rs_RunStepID ?x"] run_step_status [OF ids, of ?x r] n by (simp add: d'_def)
    also have "rs_RunStepID ?x \<in> set P \<longleftrightarrow> Q ?x"
      using n distinct_run_steps [OF ids, of r] distinct_map_inj [of rs_RunStepID "run_steps_of r d" ?x]
      by (auto simp: assms(4))
    finally show ?thesis by (simp split: if_splits)
  qed
  then have "map rs_Status (run_steps_of r d') = map (\<lambda>rs. if Q rs then target else rs_Status rs) (run_steps_of r d)"
    by (intro nth_equalityI) (simp_all add: len)
  then show "map rs_Status (run_steps_of r (snd (sweep_list upd P d)))
      = map (\<lambda>rs. if Q rs then target else rs_Status rs) (run_steps_of r d)" by (simp add: d'_def)
qed

section \<open>Cancelling a run\<close>

definition run_status :: "db \<Rightarrow> string \<Rightarrow> string option" where
  "run_status d r = map_option rc_status (find (\<lambda>x. rc_run_id x = r) (db_runs d))"

lemma run_status_set_status [simp]: "rc_status (run_status_set now s x) = s"
  by (simp add: run_status_set_def)

lemma find_map_run:
  "(\<And>x. rc_run_id (f x) = rc_run_id x) \<Longrightarrow>
   find (\<lambda>x. rc_run_id x = i) (map f xs) = map_option f (find (\<lambda>x. rc_run_id x = i) xs)"
  by (induction xs) auto

lemma UpdateRunStatus_row:
  assumes "r \<in> set (run_ids d)"
  obtains d' where "UpdateRunStatus now r s d = Inr d'" "run_status d' r = Some s"
    "db_run_steps d' = db_run_steps d" "db_steps d' = db_steps d" "db_deps d' = db_deps d"
    "run_ids d' = run_ids d" "\<And>r'. r' \<noteq> r \<Longrightarrow> run_status d' r' = run_status d r'"
proof -
  let ?f = "\<lambda>x. if rc_run_id x = r then run_status_set now s x else x"
  define d' where "d' = d\<lparr>db_runs := map ?f (db_runs d)\<rparr>"
  have upd: "UpdateRunStatus now r s d = Inr d'" using assms by (simp add: UpdateRunStatus_def d'_def)
  have look: "run_status d' i = map_option (rc_status \<circ> ?f) (find (\<lambda>x. rc_run_id x = i) (db_runs d))" for i
    unfolding run_status_def d'_def by (simp add: find_map_run option.map_comp)
  obtain x where x: "find (\<lambda>x. rc_run_id x = r) (db_runs d) = Some x"
    using assms by (cases "find (\<lambda>x. rc_run_id x = r) (db_runs d)") (auto simp: find_None_iff)
  then have "rc_run_id x = r" by (auto simp: find_Some_iff)
  with x have 1: "run_status d' r = Some s" by (simp add: look)
  have 2: "run_status d' r' = run_status d r'" if "r' \<noteq> r" for r'
  proof (cases "find (\<lambda>x. rc_run_id x = r') (db_runs d)")
    case None
    then show ?thesis unfolding look by (simp add: run_status_def)
  next
    case (Some x)
    then have "rc_run_id x = r'" by (auto simp: find_Some_iff)
    with Some that show ?thesis unfolding look by (simp add: run_status_def)
  qed
  have "run_ids d' = run_ids d" by (simp add: d'_def)
  with upd 1 2 show thesis by (intro that [of d']) (simp_all add: d'_def)
qed

text \<open>
  With the store available, cancelling an existing run succeeds: its runner leaves the
  table, every pending or running step of the run becomes cancelled, every other run step
  in the database keeps its status, and the run, and no other run, is cancelled.
\<close>

theorem CancelRun_settles:
  assumes "wf_db (oc_store oc)" and "healthy en" and "runID \<in> set (run_ids (oc_store oc))"
  shows "\<exists>oc'. CancelRun en runID oc = (None, oc') \<and> oc_activeRuns oc' = fmdrop runID (oc_activeRuns oc) \<and>
    map rs_Status (run_steps_of runID (oc_store oc')) =
      map (\<lambda>rs. if unsettled rs then StatusCancelled else rs_Status rs) (run_steps_of runID (oc_store oc)) \<and>
    (\<forall>i. i \<notin> rs_RunStepID ` set (run_steps_of runID (oc_store oc)) \<longrightarrow>
       step_status (oc_store oc') i = step_status (oc_store oc) i) \<and>
    (\<forall>r. run_status (oc_store oc') r = (if r = runID then Some StatusCancelled else run_status (oc_store oc) r))"
proof -
  let ?d = "oc_store oc" and ?P = "map rs_RunStepID (filter unsettled (run_steps_of runID (oc_store oc)))"
  define d1 where "d1 = snd (sweep_list (cancel_one (en_now en)) ?P ?d)"
  note sw = swept_run [OF cancels.status_store_axioms [of "en_now en"] one_views(1) assms(1) refl,
      where Q = unsettled and r = runID, folded d1_def]
  have oth: "others d1 = others ?d" unfolding d1_def by (rule sweep_view) (rule one_views)
  then have ids: "runID \<in> set (run_ids d1)" using assms(3) by (simp add: others_def)
  obtain d2 where upd: "UpdateRunStatus (en_now en) runID StatusCancelled d1 = Inr d2"
    and st: "run_status d2 runID = Some StatusCancelled" "\<And>r'. r' \<noteq> runID \<Longrightarrow> run_status d2 r' = run_status d1 r'"
    and rows: "db_run_steps d2 = db_run_steps d1"
    using UpdateRunStatus_row [OF ids] by metis
  obtain x where get: "GetRunWithSteps runID ?d = Inr \<lparr>rd_Run = scan_run x, rd_RunSteps = run_steps_of runID ?d\<rparr>"
    using GetRunWithSteps_total [OF assms(3)] by metis
  have swp: "cancel_steps en (run_steps_of runID ?d) ?d = (None, d1)"
    using cancel_steps_sweep [OF assms(2), of "run_steps_of runID ?d" ?d] sw(1)
    by (cases "sweep_list (cancel_one (en_now en)) ?P ?d") (simp add: d1_def)
  define oc1 where "oc1 = log_effect (CleanupRunSessions runID) (oc\<lparr>oc_activeRuns := fmdrop runID (oc_activeRuns oc)\<rparr>)"
  have "CancelRun en runID oc = (None, publish_cancelled en runID (oc1\<lparr>oc_store := d2\<rparr>))"
    by (simp add: CancelRun_def Let_def assms(2) get swp upd oc1_def)
  moreover have "oc_store (publish_cancelled en runID (oc1\<lparr>oc_store := d2\<rparr>)) = d2"
    "oc_activeRuns (publish_cancelled en runID (oc1\<lparr>oc_store := d2\<rparr>)) = fmdrop runID (oc_activeRuns oc)"
    by (auto simp: publish_cancelled_def Let_def oc1_def split: sum.splits)
  moreover have "run_steps_of runID d2 = run_steps_of runID d1" "step_status d2 = step_status d1"
    using rows by (simp_all add: run_steps_of_def step_status_def fun_eq_iff)
  moreover have "run_status d1 = run_status ?d" using oth by (simp add: run_status_def others_def fun_eq_iff)
  moreover have "i \<notin> set ?P" if "i \<notin> rs_RunStepID ` set (run_steps_of runID ?d)" for i using that by auto
  ultimately show ?thesis using sw(2,4) st by auto
qed

end
