(* ===== verification/Orchestrator_Rebuild.thy ===== *)
theory Orchestrator_Rebuild
  imports Orchestrator_Repair
begin

text \<open>
  The runner that \<open>rebuildAndStartRun\<close> builds from the stored run: its in-degrees and its
  counter account for the completed steps, so a repaired run starts in a state of the run
  system. Then what \<open>RetryStep\<close> does not reset: a run retried at one step while another
  step has failed never reports, and a runner rebuilt after the job has grown dereferences nil.
\<close>

section \<open>Accounting for completed steps\<close>

lemma getd_predecrement: "getd 0 (predecrement ns deg) v = getd 0 deg v - int (count_list ns v)"
  by (induction ns deg rule: predecrement.induct) auto

lemma fmdom'_predecrement: "fmdom' (predecrement ns deg) = fmdom' deg \<union> set ns"
  by (induction ns deg rule: predecrement.induct) auto

lemma preprocess_frame [simp]:
  "dr_steps (preprocess_completed rss d) = dr_steps d" "dr_dependents (preprocess_completed rss d) = dr_dependents d"
  "dr_total (preprocess_completed rss d) = dr_total d" "dr_failed (preprocess_completed rss d) = dr_failed d"
  "dr_done (preprocess_completed rss d) = dr_done d" "dr_ctx (preprocess_completed rss d) = dr_ctx d"
  "dr_hasFailedUpstream (preprocess_completed rss d) = dr_hasFailedUpstream d"
  "dr_activeSessionKeys (preprocess_completed rss d) = dr_activeSessionKeys d"
  "dr_deferredSteps (preprocess_completed rss d) = dr_deferredSteps d"
  "dr_runID (preprocess_completed rss d) = dr_runID d" "dr_jobID (preprocess_completed rss d) = dr_jobID d"
  by (induction rss d rule: preprocess_completed.induct) auto

definition completed_ids :: "RunStep list \<Rightarrow> string set" where
  "completed_ids rss = rs_StepID ` {rs \<in> set rss. rs_Status rs = StatusCompleted}"

lemma preprocess_completed_count:
  "dr_completed (preprocess_completed rss d) = dr_completed d + int (length (filter (\<lambda>rs. rs_Status rs = StatusCompleted) rss))"
  by (induction rss d rule: preprocess_completed.induct) auto

lemma preprocess_dom:
  "(\<forall>u. set (getd [] (dr_dependents d) u) \<subseteq> fmdom' (dr_inDegree d)) \<Longrightarrow>
   fmdom' (dr_inDegree (preprocess_completed rss d)) = fmdom' (dr_inDegree d)"
proof (induction rss d rule: preprocess_completed.induct)
  case (2 rs rest d)
  have "fmdom' (predecrement (getd [] (dr_dependents d) (rs_StepID rs)) (dr_inDegree d)) = fmdom' (dr_inDegree d)"
    using "2.prems" by (auto simp: fmdom'_predecrement)
  with 2 show ?case by simp
qed simp

lemma preprocess_degrees:
  assumes "distinct (map rs_StepID rss)" and "rs_StepID ` set rss \<inter> S = {}"
    and "\<forall>u. getd [] (dr_dependents d) u = succs deps u"
    and "\<forall>v. getd 0 (dr_inDegree d) v = int (open_edges S deps v)"
  shows "getd 0 (dr_inDegree (preprocess_completed rss d)) v = int (open_edges (S \<union> completed_ids rss) deps v)"
  using assms
proof (induction rss d arbitrary: S rule: preprocess_completed.induct)
  case (2 rs rest d)
  let ?i = "rs_StepID rs"
  show ?case
  proof (cases "rs_Status rs = StatusCompleted")
    case True
    have ids: "completed_ids (rs # rest) = insert ?i (completed_ids rest)" using True by (auto simp: completed_ids_def)
    have "getd 0 (predecrement (succs deps ?i) (dr_inDegree d)) w = int (open_edges (insert ?i S) deps w)" for w
      using open_edges_insert [of ?i S deps w] "2.prems" by (simp add: getd_predecrement)
    then show ?thesis
      using "2.IH" [of "insert ?i S"] True "2.prems" by (auto simp: ids)
  next
    case False
    have "completed_ids (rs # rest) = completed_ids rest" using False by (auto simp: completed_ids_def)
    with "2.IH" [of S] False "2.prems" show ?thesis by simp
  qed
qed (simp add: completed_ids_def)

lemma open_cnt_closed: "open_cnt (closed_edges deps d S) deps v = open_edges S deps v"
proof -
  have "(dep_DependsOn e, v) \<notin> closed_edges deps d S \<longleftrightarrow> dep_DependsOn e \<notin> S"
    if "e \<in> set deps" "dep_StepID e = v" for e
    using that by (auto simp: closed_edges_def edges_def)
  then show ?thesis
    unfolding open_cnt_def open_edges_def by (intro arg_cong [where f = length] filter_cong) auto
qed

lemma find_key_Some:
  "distinct (map f xs) \<Longrightarrow>
   (map_option g (find (\<lambda>x. f x = u) xs) = Some c) = (\<exists>x\<in>set xs. f x = u \<and> g x = c)"
proof (induction xs)
  case (Cons a xs)
  show ?case
  proof (cases "f a = u")
    case True
    then have "\<forall>x\<in>set xs. f x \<noteq> u" using Cons.prems by (auto simp: image_iff)
    with True show ?thesis by auto
  qed (use Cons in simp)
qed simp

lemma startable_rebuilt:
  assumes dist: "distinct (map rs_StepID rss)" and graph: "graph_ok (rs_StepID ` set rss) deps"
    and pc: "\<forall>rs\<in>set rss. rs_Status rs = StatusPending \<or> rs_Status rs = StatusCompleted"
  shows "startable deps (preprocess_completed rss (NewDAGRunner runID jobID rss deps ps meta names))"
proof -
  let ?n = "NewDAGRunner runID jobID rss deps ps meta names"
  define d where "d = preprocess_completed rss ?n"
  note st = new_runner_static [OF dist graph pc refl, of runID jobID ps meta names]
  note nv = new_runner_views [OF dist refl, of runID jobID deps ps meta names]
  have stat: "stat d = stat ?n" by (simp add: d_def stat_def fun_eq_iff)
  have adj: "\<forall>u. getd [] (dr_dependents ?n) u = succs deps u" using st(1) by (simp add: static_inv_def)
  have static: "static_inv deps d" using st(1) by (simp add: static_inv_def stat) (simp add: d_def)
  have comp: "{u. stat d u = Some StatusCompleted} = completed_ids rss"
    unfolding stat nv(3) find_key_Some [OF dist] completed_ids_def by auto
  have deg: "getd 0 (dr_inDegree d) v = int (open_edges (completed_ids rss) deps v)" for v
    using preprocess_degrees [OF dist _ adj, of "{}" v] by (simp add: d_def NewDAGRunner_def getd_in_degrees)
  have "set (getd [] (dr_dependents ?n) u) \<subseteq> fmdom' (dr_inDegree ?n)" for u
    using graph adj unfolding st(3) nv(2) by (auto simp: graph_ok_def succs_edges)
  then have dom: "fmdom' (dr_inDegree d) = fmdom' (dr_steps d)"
    using preprocess_dom [of ?n rss] st(3) by (simp add: d_def)
  have "distinct (map rs_StepID (filter (\<lambda>rs. rs_Status rs = StatusCompleted) rss))"
    using dist by (rule distinct_map_filter)
  then have "card (completed_ids rss) = length (filter (\<lambda>rs. rs_Status rs = StatusCompleted) rss)"
    using distinct_card by (fastforce simp: completed_ids_def)
  then have "dr_completed d = int (card (completed_ids rss))"
    by (simp add: d_def preprocess_completed_count NewDAGRunner_def)
  then show ?thesis
    unfolding startable_def d_def [symmetric] comp open_cnt_closed
    using static deg dom st(2,4) stat by (simp add: d_def) (simp add: NewDAGRunner_def)
qed

section \<open>Repairing a run\<close>

definition run_job :: "db \<Rightarrow> string \<Rightarrow> string option" where
  "run_job d r = map_option rc_job_id (find (\<lambda>x. rc_run_id x = r) (db_runs d))"

text \<open>The tables that updates of runs leave alone.\<close>

definition same_tables :: "db \<Rightarrow> db \<Rightarrow> bool" where
  "same_tables d d' \<longleftrightarrow> run_job d' = run_job d \<and> run_ids d' = run_ids d \<and> db_steps d' = db_steps d \<and>
     db_deps d' = db_deps d"

lemma same_tables_trans: "same_tables d d1 \<Longrightarrow> same_tables d1 d2 \<Longrightarrow> same_tables d d2"
  by (simp add: same_tables_def)

lemma same_tables_runs:
  assumes "\<And>x. rc_run_id (f x) = rc_run_id x \<and> rc_job_id (f x) = rc_job_id x"
  shows "same_tables d (d\<lparr>db_runs := map f (db_runs d)\<rparr>)"
  using assms
  by (auto simp: same_tables_def run_job_def find_map_run option.map_comp comp_def fun_eq_iff)

lemma UpdateRunStatus_tables:
  "UpdateRunStatus now r s d = Inr d' \<Longrightarrow> same_tables d d' \<and> db_run_steps d' = db_run_steps d"
  by (auto simp: UpdateRunStatus_def split: if_splits intro!: same_tables_runs)

lemma merge_overrides_tables:
  assumes "merge_overrides en op po run d = (None, d')"
  shows "same_tables d d' \<and> db_run_steps d' = db_run_steps d \<and> (wf_db d \<longrightarrow> wf_db d')"
proof -
  have "d' = d \<or> (\<exists>js. UpdateRunParameters (r_RunID run) js d = Inr d')"
    using assms by (auto simp: merge_overrides_def split: if_splits sum.splits option.splits prod.splits)
  moreover have "same_tables d d' \<and> db_run_steps d' = db_run_steps d" if "UpdateRunParameters r js d = Inr d'" for r js
    using that by (auto simp: UpdateRunParameters_def split: if_splits intro!: same_tables_runs)
  ultimately show ?thesis using UpdateRunParameters_wf by (auto simp: same_tables_def)
qed

lemma same_tables_steps: "same_tables d d' \<Longrightarrow> GetStepsWithDeps j d' = GetStepsWithDeps j d"
  by (simp add: same_tables_def GetStepsWithDeps_def)

lemma others_tables: "others d' = others d \<Longrightarrow> same_tables d d'"
  by (simp add: others_def same_tables_def run_job_def fun_eq_iff)

lemma GetRunWithSteps_job:
  "GetRunWithSteps r d = Inr detail \<Longrightarrow> run_job d r = Some (r_JobID (rd_Run detail)) \<and>
     rd_RunSteps detail = run_steps_of r d \<and> r \<in> set (run_ids d) \<and> r_RunID (rd_Run detail) = r"
  by (auto simp: GetRunWithSteps_def run_job_def scan_run_def find_Some_iff split: option.splits)

text \<open>Rebuilding a run whose stored steps are pending or completed starts it.\<close>

lemma rebuild_starts:
  assumes en: "healthy en" and run: "run_job (oc_store oc) runID = Some jobID" "runID \<in> set (run_ids (oc_store oc))"
    and steps: "GetStepsWithDeps jobID (oc_store oc) = (steps, deps)"
    and dist: "distinct (map rs_StepID (run_steps_of runID (oc_store oc)))"
    and graph: "graph_ok (rs_StepID ` set (run_steps_of runID (oc_store oc))) deps"
    and pc: "\<forall>rs\<in>set (run_steps_of runID (oc_store oc)). rs_Status rs = StatusPending \<or> rs_Status rs = StatusCompleted"
    and pend: "p \<in> set (run_steps_of runID (oc_store oc))" "rs_Status p = StatusPending"
    and ord: "distinct order" "set order = rs_StepID ` set (run_steps_of runID (oc_store oc))"
  shows "\<exists>oc' a (launch :: RunStep list). rebuildAndStartRun en order runID oc = (None, oc') \<and>
    fmlookup (oc_activeRuns oc') runID = Some a \<and> ar_onComplete a \<noteq> None \<and>
    run_init deps \<lparr>rn_d = ar_runner a, rn_R = map rs_StepID launch, rn_RT = [], rn_results = []\<rparr>"
proof -
  let ?d = "oc_store oc" and ?rss = "run_steps_of runID (oc_store oc)"
  obtain d1 where upd: "UpdateRunStatus (en_now en) runID StatusRunning ?d = Inr d1"
    using UpdateRunStatus_row [OF run(2)] by metis
  note tab = UpdateRunStatus_tables [OF upd]
  have rss: "run_steps_of runID d1 = ?rss" using tab by (simp add: run_steps_of_def)
  obtain x where get: "GetRunWithSteps runID d1 = Inr \<lparr>rd_Run = scan_run x, rd_RunSteps = ?rss\<rparr>"
    using GetRunWithSteps_total [of runID d1] run(2) tab rss by (metis same_tables_def)
  have job: "r_JobID (scan_run x) = jobID"
    using GetRunWithSteps_job [OF get] tab run(1) by (simp add: same_tables_def)
  have st1: "GetStepsWithDeps jobID d1 = (steps, deps)" using same_tables_steps tab steps by metis
  obtain cb ps meta names where reb: "rebuildAndStartRun en order runID oc =
      (let runner = preprocess_completed ?rss (NewDAGRunner runID jobID ?rss deps ps meta names);
           oc1 = oc\<lparr>oc_store := d1, oc_activeRuns := fmupd runID \<lparr>ar_runner = runner, ar_onComplete = Some cb\<rparr> (oc_activeRuns oc)\<rparr>
       in case start_runner en cb runID order runner oc1 of Inl e \<Rightarrow> (Some e, oc1) | Inr oc' \<Rightarrow> (None, oc'))"
    unfolding rebuildAndStartRun_def
    by (simp add: en upd get st1 [folded job] Let_def flip: job)
  define runner where "runner = preprocess_completed ?rss (NewDAGRunner runID jobID ?rss deps ps meta names)"
  define oc1 where "oc1 = oc\<lparr>oc_store := d1, oc_activeRuns := fmupd runID \<lparr>ar_runner = runner, ar_onComplete = Some cb\<rparr> (oc_activeRuns oc)\<rparr>"
  have start: "startable deps runner" unfolding runner_def by (rule startable_rebuilt [OF dist graph pc])
  have "fmdom' (dr_steps runner) = rs_StepID ` set ?rss"
    unfolding runner_def by (simp add: new_runner_views(2) [OF dist refl])
  then have enum: "enumerates order (dr_inDegree runner)" using start ord by (simp add: startable_def enumerates_def)
  have look: "fmlookup (oc_activeRuns oc1) runID = Some \<lparr>ar_runner = runner, ar_onComplete = Some cb\<rparr>" by (simp add: oc1_def)
  obtain oc2 d' launch effs where s: "start_runner en cb runID order runner oc1 = Inr oc2"
    "Start order runner = Inr (d', launch, effs)"
    "oc_activeRuns oc2 = fmupd runID (\<lparr>ar_runner = runner, ar_onComplete = Some cb\<rparr>\<lparr>ar_runner := d'\<rparr>) (oc_activeRuns oc1)"
    by (rule start_prepared [OF start enum look])
  have res: "rebuildAndStartRun en order runID oc = (None, oc2)"
    using s(1) by (simp add: reb Let_def oc1_def runner_def)
  have "stat runner (rs_StepID p) = Some StatusPending"
    unfolding runner_def stat_def preprocess_frame new_runner_views(1) [OF dist refl] find_key_Some [OF dist]
    using pend by blast
  then have "run_init deps \<lparr>rn_d = d', rn_R = map rs_StepID launch, rn_RT = [], rn_results = []\<rparr>"
    unfolding run_init_def using start enum s(2) by blast
  with res s(3) show ?thesis by auto
qed


section \<open>Instances and counterexamples\<close>

text \<open>A failed run of a job with two independent steps, both failed.\<close>

definition step_t :: Step where
  "step_t = step1\<lparr>st_StepID := ''t'', st_SortOrder := 2\<rparr>"

definition db_two :: db where
  "db_two = db0\<lparr>db_steps := [step_to_row step1, step_to_row step_t],
     db_runs := [run0\<lparr>rc_status := StatusFailed\<rparr>],
     db_run_steps := [(snapshot_row ''x'' ''r'' step1)\<lparr>xc_status := StatusFailed\<rparr>,
                      (snapshot_row ''y'' ''r'' step_t)\<lparr>xc_status := StatusFailed\<rparr>]\<rparr>"

definition oc_two :: Orchestrator where
  "oc_two = NewOrchestrator db_two"

lemma wf_db_two: "wf_db db_two"
  by (simp add: wf_db_def wf_keys_def wf_refs_def wf_values_def db_two_def db0_def empty_db_def job0_def
      step1_def step0_def step_t_def step_to_row_def nullIfEmpty_def fk_opt_def values_of_def snapshot_row_def run0_def)

lemma oc_two_store [simp]: "oc_store oc_two = db_two"
  by (simp add: oc_two_def NewOrchestrator_def)

lemma healthy_en0 [simp]: "healthy en0"
  by (simp add: healthy_def en0_def)

theorem CancelRun_settles_witness:
  "\<exists>oc'. CancelRun en0 ''r'' oc_two = (None, oc') \<and> run_status (oc_store oc') ''r'' = Some StatusCancelled"
proof -
  have "''r'' \<in> set (run_ids (oc_store oc_two))" by (simp add: db_two_def run0_def)
  then show ?thesis using CancelRun_settles [of oc_two en0 "''r''"] wf_db_two by auto
qed


text \<open>
  \<open>RetryStep\<close> resets only the step and what depends on it, and the rebuilt runner
  does not count failed steps as done. Here two independent steps have failed and one is
  retried: it is launched and succeeds, nothing is left pending or running, and yet the run
  stays active in state running: it never reports a verdict.
\<close>

theorem RetryStep_run_stays_open:
  "(case RetryStep en0 [''s'', ''t''] ''r'' ''s'' oc_two of (e, oc1) \<Rightarrow>
     e = None \<and>
     (case orch_OnStepCompleted en0 [''s'', ''t''] ''r'' ''s'' 0 oc1 of
        Inl p \<Rightarrow> False
      | Inr oc2 \<Rightarrow> run_status (oc_store oc2) ''r'' = Some StatusRunning \<and>
          map rs_Status (run_steps_of ''r'' (oc_store oc2)) = [StatusCompleted, StatusFailed] \<and>
          countActiveRunsForJob ''j'' oc2 = 1))"
  by code_simp

text \<open>A second run of the same job is active; the job allows one run at a time.\<close>

definition oc_busy :: Orchestrator where
  "oc_busy = oc_two\<lparr>oc_activeRuns := fmupd ''r2'' \<lparr>ar_runner = zero_runner ''j'', ar_onComplete = None\<rparr> fmempty\<rparr>"

lemma RepairRun_ignores_limit:
  "reserve ''k'' ''j'' (scan_job job0) oc_busy = Inl ErrMaxConcurrentRuns \<and>
   (case RepairRun en0 [] [''s'', ''t''] ''r'' fmempty oc_busy of (e, oc1) \<Rightarrow>
      e = None \<and> countActiveRunsForJob ''j'' oc1 = 2)"
  by code_simp

text \<open>A step that was added to the job after the run, depending on a completed step.\<close>

definition oc_grown :: Orchestrator where
  "oc_grown = NewOrchestrator (db_two\<lparr>db_steps := db_steps db_two @ [step_to_row (step1\<lparr>st_StepID := ''u''\<rparr>)],
     db_deps := [\<lparr>dep_StepID = ''u'', dep_DependsOn = ''s''\<rparr>],
     db_run_steps := [(snapshot_row ''x'' ''r'' step1)\<lparr>xc_status := StatusCompleted\<rparr>,
                      (snapshot_row ''y'' ''r'' step_t)\<lparr>xc_status := StatusFailed\<rparr>]\<rparr>)"

lemma RepairRun_grown_job_panics:
  "fst (RepairRun en0 [] [''s'', ''t'', ''u''] ''r'' fmempty oc_grown) = Some Panicked"
  by code_simp

end
