(* ===== verification/Job_Handler.thy ===== *)
theory Job_Handler
  imports Job_Store_Roundtrip Dag_Validate Go_Strings
begin

text \<open>
  \<open>internal/server/handler/jobs.go\<close>: the REST handlers for jobs, steps and dependencies.
  A handler takes the caller's claims, the URL parameters and the decoded body (\<open>None\<close>
  where \<open>encoding/json\<close> rejects it) and returns the response, the new store and the
  published job events. \<open>encoding/json\<close> is a parameter; \<open>he_fault\<close> says which store
  calls fail for reasons outside the model, so that the internal-error responses occur.
\<close>

section \<open>State and responses\<close>

record UserClaims =
  uc_UserID :: string
  uc_Role :: string

datatype job_call =
    HGetJob | HGetTarget string | HCreateJob | HUpdateJob | HDeleteJob | HCloneJob | HCreateStep
  | HUpdateStep | HDeleteStep | HAddDep | HGetSteps | HRemoveDep

record henv =
  he_marshal :: "(string, string) fmap \<Rightarrow> string option"
  he_unmarshal :: "string \<Rightarrow> bool"
  he_fault :: "job_call \<Rightarrow> bool"
  he_now :: time
  he_newID :: string
  he_newIDs :: "string list"
  he_order :: "string list"

record JobHandler =
  jh_store :: db
  jh_publisher :: bool
  jh_events :: "(string \<times> string \<times> string \<times> string) list"

datatype run_job_error =
    RunJobDepth
  | RunJobCycle string string
  | RunJobCheckFailed store_error

datatype reply =
    Msg string
  | ParamKeyMsg string
  | StepErrors "step_problem list"
  | StoreMsg store_error
  | RunJobMsg run_job_error
  | JobReply Job
  | DetailReply JobDetail
  | StepReply Step
  | UpdatedReply
  | DepReply string string
  | NoContent

type_synonym response = "int \<times> reply"

definition TypeJobCreated :: string where "TypeJobCreated = ''job.created''"
definition TypeJobUpdated :: string where "TypeJobUpdated = ''job.updated''"
definition TypeJobDeleted :: string where "TypeJobDeleted = ''job.deleted''"

definition NewJobHandler :: "db \<Rightarrow> JobHandler" where
  "NewJobHandler d = \<lparr>jh_store = d, jh_publisher = False, jh_events = []\<rparr>"

definition publishJobEvent :: "string \<Rightarrow> string \<Rightarrow> string \<Rightarrow> string \<Rightarrow> JobHandler \<Rightarrow> JobHandler" where
  "publishJobEvent eventType jobID jobName userID h =
     (if jh_publisher h then h\<lparr>jh_events := jh_events h @ [(eventType, jobID, jobName, userID)]\<rparr> else h)"

definition hcall :: "henv \<Rightarrow> job_call \<Rightarrow> (store_error + 'a) \<Rightarrow> store_error + 'a" where
  "hcall he c r = (if he_fault he c then Inl ErrUnavailable else r)"

section \<open>Authorization\<close>

definition authorizeJob :: "UserClaims option \<Rightarrow> Job \<Rightarrow> response option" where
  "authorizeJob c job =
     (case c of
        None \<Rightarrow> Some (401, Msg ''unauthorized'')
      | Some cl \<Rightarrow>
          if uc_Role cl = ''admin'' \<or> uc_UserID cl = j_UserID job then None
          else Some (404, Msg ''job not found''))"

definition authorizeJobByID :: "henv \<Rightarrow> UserClaims option \<Rightarrow> string \<Rightarrow> JobHandler \<Rightarrow> response + JobDetail" where
  "authorizeJobByID he c jobID h =
     (case hcall he HGetJob (GetJob jobID (jh_store h)) of
        Inl e \<Rightarrow> if e = ErrNotFound then Inl (404, Msg ''job not found'')
                 else Inl (500, Msg ''internal error'')
      | Inr detail \<Rightarrow>
          (case authorizeJob c (jd_Job detail) of Some r \<Rightarrow> Inl r | None \<Rightarrow> Inr detail))"

definition jobOwnsStep :: "JobDetail \<Rightarrow> string \<Rightarrow> bool" where
  "jobOwnsStep detail stepID \<longleftrightarrow> (\<exists>s\<in>set (jd_Steps detail). st_StepID s = stepID)"

section \<open>References between jobs\<close>

definition maxRunJobDepth :: nat where "maxRunJobDepth = 10"
definition maxJobParamsSize :: nat where "maxJobParamsSize = 16 * 1024"

text \<open>The recursion is on the remaining depth \<open>maxRunJobDepth - depth\<close>.\<close>

fun checkRunJobCycle :: "henv \<Rightarrow> db \<Rightarrow> string \<Rightarrow> string \<Rightarrow> nat \<Rightarrow> run_job_error option"
and check_steps :: "henv \<Rightarrow> db \<Rightarrow> string \<Rightarrow> string \<Rightarrow> Step list \<Rightarrow> nat \<Rightarrow> run_job_error option" where
  "checkRunJobCycle he d originJobID jobID 0 = Some RunJobDepth"
| "checkRunJobCycle he d originJobID jobID (Suc n) =
     (case hcall he (HGetTarget jobID) (GetJob jobID d) of
        Inl e \<Rightarrow> if e = ErrNotFound then None else Some (RunJobCheckFailed e)
      | Inr detail \<Rightarrow> check_steps he d originJobID jobID (jd_Steps detail) n)"
| "check_steps he d originJobID jobID [] n = None"
| "check_steps he d originJobID jobID (step # rest) n =
     (if st_TaskType step \<noteq> ''run_job'' \<or> st_TargetJobID step = ''''
      then check_steps he d originJobID jobID rest n
      else if st_TargetJobID step = originJobID then Some (RunJobCycle jobID originJobID)
      else case checkRunJobCycle he d originJobID (st_TargetJobID step) n of
             Some e \<Rightarrow> Some e
           | None \<Rightarrow> check_steps he d originJobID jobID rest n)"

definition validateRunJobStep ::
  "henv \<Rightarrow> UserClaims option \<Rightarrow> db \<Rightarrow> string \<Rightarrow> string \<Rightarrow> string \<Rightarrow> response option" where
  "validateRunJobStep he c d currentJobID targetJobID jobParams =
     (if targetJobID = '''' then Some (400, Msg ''target_job_id is required for run_job tasks'')
      else if jobParams \<noteq> '''' \<and> length jobParams > maxJobParamsSize
      then Some (400, Msg ''job_params exceeds maximum size of 16384 bytes'')
      else if jobParams \<noteq> '''' \<and> \<not> he_unmarshal he jobParams
      then Some (400, Msg ''job_params must be a valid JSON object with string values'')
      else if targetJobID = currentJobID then Some (400, Msg ''run_job task cannot target its own job'')
      else case hcall he (HGetTarget targetJobID) (GetJob targetJobID d) of
             Inl e \<Rightarrow> if e = ErrNotFound
                      then Some (400, Msg ''target_job_id references a job that does not exist'')
                      else Some (500, Msg ''internal error'')
           | Inr targetDetail \<Rightarrow>
               (case authorizeJob c (jd_Job targetDetail) of
                  Some r \<Rightarrow> Some r
                | None \<Rightarrow>
                    (case checkRunJobCycle he d currentJobID targetJobID maxRunJobDepth of
                       Some e \<Rightarrow> Some (400, RunJobMsg e)
                     | None \<Rightarrow> None)))"

section \<open>Jobs\<close>

fun paramKeyRe :: "string \<Rightarrow> bool" where
  "paramKeyRe [] = False"
| "paramKeyRe (c # cs) \<longleftrightarrow> (is_alpha c \<or> c = CHR ''_'') \<and> list_all is_word_char cs"

text \<open>The first key in iteration order that does not match.\<close>

definition validateJobParameters :: "string list \<Rightarrow> string option" where
  "validateJobParameters keys = find (\<lambda>k. \<not> paramKeyRe k) keys"

record createJobRequest =
  cq_Name :: string
  cq_Description :: string
  cq_Parameters :: "(string, string) fmap"
  cq_TimeoutSeconds :: int
  cq_MaxConcurrentRuns :: int

definition h_CreateJob :: "henv \<Rightarrow> UserClaims option \<Rightarrow> createJobRequest option \<Rightarrow> JobHandler \<Rightarrow> response \<times> JobHandler" where
  "h_CreateJob he c body h =
     (case body of
        None \<Rightarrow> ((400, Msg ''invalid request body''), h)
      | Some req \<Rightarrow>
          if cq_Name req = '''' then ((400, Msg ''name is required''), h)
          else if cq_TimeoutSeconds req < 0 then ((400, Msg ''timeout_seconds must be >= 0''), h)
          else if cq_MaxConcurrentRuns req < 0 \<or> cq_MaxConcurrentRuns req > 100
          then ((400, Msg ''max_concurrent_runs must be between 1 and 100''), h)
          else
            (let maxRuns = (if cq_MaxConcurrentRuns req = 0 then 1 else cq_MaxConcurrentRuns req);
                 given = (cq_Parameters req \<noteq> fmempty)
             in case (if given then validateJobParameters (he_order he) else None) of
                  Some k \<Rightarrow> ((400, ParamKeyMsg k), h)
                | None \<Rightarrow>
                    (case (if given then he_marshal he (cq_Parameters req) else Some '''') of
                       None \<Rightarrow> ((500, Msg ''internal error''), h)
                     | Some paramsJSON \<Rightarrow>
                         (let userID = (case c of None \<Rightarrow> '''' | Some cl \<Rightarrow> uc_UserID cl)
                          in case hcall he HCreateJob (CreateJob (he_newID he) (he_now he)
                                    \<lparr>cj_Name = cq_Name req, cj_Description = cq_Description req, cj_UserID = userID,
                                     cj_Parameters = paramsJSON, cj_TimeoutSeconds = cq_TimeoutSeconds req,
                                     cj_MaxConcurrentRuns = maxRuns\<rparr> (jh_store h)) of
                               Inl e \<Rightarrow> ((500, Msg ''internal error''), h)
                             | Inr (job, d) \<Rightarrow>
                                 ((201, JobReply job),
                                  publishJobEvent TypeJobCreated (j_JobID job) (j_Name job) userID
                                    (h\<lparr>jh_store := d\<rparr>))))))"

definition h_GetJob :: "henv \<Rightarrow> UserClaims option \<Rightarrow> string \<Rightarrow> JobHandler \<Rightarrow> response" where
  "h_GetJob he c jobID h =
     (case authorizeJobByID he c jobID h of Inl r \<Rightarrow> r | Inr detail \<Rightarrow> (200, DetailReply detail))"

record updateJobRequest =
  uq_Name :: string
  uq_Description :: string
  uq_Parameters :: "(string, string) fmap option"
  uq_TimeoutSeconds :: "int option"
  uq_MaxConcurrentRuns :: "int option"

definition h_UpdateJob :: "henv \<Rightarrow> UserClaims option \<Rightarrow> string \<Rightarrow> updateJobRequest option \<Rightarrow> JobHandler \<Rightarrow>
    response \<times> JobHandler" where
  "h_UpdateJob he c jobID body h =
     (case authorizeJobByID he c jobID h of
        Inl r \<Rightarrow> (r, h)
      | Inr detail \<Rightarrow>
     (case body of
        None \<Rightarrow> ((400, Msg ''invalid request body''), h)
      | Some req \<Rightarrow>
          if (case uq_TimeoutSeconds req of None \<Rightarrow> False | Some t \<Rightarrow> t < 0)
          then ((400, Msg ''timeout_seconds must be >= 0''), h)
          else if (case uq_MaxConcurrentRuns req of None \<Rightarrow> False | Some n \<Rightarrow> n < 1 \<or> n > 100)
          then ((400, Msg ''max_concurrent_runs must be between 1 and 100''), h)
          else
     (let given = (case uq_Parameters req of None \<Rightarrow> False | Some ps \<Rightarrow> ps \<noteq> fmempty);
          current = jd_Job detail
      in case (if given then validateJobParameters (he_order he) else None) of
           Some k \<Rightarrow> ((400, ParamKeyMsg k), h)
         | None \<Rightarrow>
     (case (case uq_Parameters req of
              None \<Rightarrow> Some (j_Parameters current)
            | Some ps \<Rightarrow> if ps \<noteq> fmempty then he_marshal he ps else Some '''') of
        None \<Rightarrow> ((500, Msg ''internal error''), h)
      | Some paramsJSON \<Rightarrow>
     (let timeout = (case uq_TimeoutSeconds req of None \<Rightarrow> j_TimeoutSeconds current | Some t \<Rightarrow> t);
          maxConcurrent = (case uq_MaxConcurrentRuns req of None \<Rightarrow> j_MaxConcurrentRuns current | Some n \<Rightarrow> n)
      in case hcall he HUpdateJob (UpdateJob (he_now he)
                \<lparr>uj_JobID = j_JobID current, uj_Name = uq_Name req, uj_Description = uq_Description req,
                 uj_Parameters = paramsJSON, uj_TimeoutSeconds = timeout,
                 uj_MaxConcurrentRuns = maxConcurrent\<rparr> (jh_store h)) of
           Inl e \<Rightarrow> ((if e = ErrNotFound then (404, Msg ''job not found'') else (500, Msg ''internal error'')), h)
         | Inr (job, d) \<Rightarrow>
             ((200, JobReply job),
              publishJobEvent TypeJobUpdated (j_JobID job) (j_Name job) (j_UserID current)
                (h\<lparr>jh_store := d\<rparr>)))))))"

definition h_DeleteJob :: "henv \<Rightarrow> UserClaims option \<Rightarrow> string \<Rightarrow> JobHandler \<Rightarrow> response \<times> JobHandler" where
  "h_DeleteJob he c jobID h =
     (case authorizeJobByID he c jobID h of
        Inl r \<Rightarrow> (r, h)
      | Inr detail \<Rightarrow>
          (let job = jd_Job detail
           in case hcall he HDeleteJob (DeleteJob (j_JobID job) (jh_store h)) of
                Inl e \<Rightarrow> ((if e = ErrNotFound then (404, Msg ''job not found'') else (500, Msg ''internal error'')), h)
              | Inr d \<Rightarrow>
                  ((204, NoContent),
                   publishJobEvent TypeJobDeleted (j_JobID job) (j_Name job) (j_UserID job) (h\<lparr>jh_store := d\<rparr>))))"

text \<open>The body is optional: \<open>None\<close> is malformed JSON, \<open>Some ''''\<close> also an empty body.\<close>

definition h_CloneJob :: "henv \<Rightarrow> UserClaims option \<Rightarrow> string \<Rightarrow> string option \<Rightarrow> JobHandler \<Rightarrow> response \<times> JobHandler" where
  "h_CloneJob he c jobID body h =
     (case authorizeJobByID he c jobID h of
        Inl r \<Rightarrow> (r, h)
      | Inr detail \<Rightarrow>
          (case body of
             None \<Rightarrow> ((400, Msg ''invalid request body''), h)
           | Some newName \<Rightarrow>
               (case hcall he HCloneJob (CloneJob (he_newID he) (he_newIDs he) (he_now he)
                       (j_JobID (jd_Job detail)) newName (jh_store h)) of
                  Inl e \<Rightarrow> ((if e = ErrNotFound then (404, Msg ''job not found'') else (500, Msg ''internal error'')), h)
                | Inr (cloned, d) \<Rightarrow> ((201, DetailReply cloned), h\<lparr>jh_store := d\<rparr>))))"

section \<open>Steps\<close>

text \<open>
  The bodies of \<open>AddStep\<close> and \<open>UpdateStep\<close> have the fields of \<open>Step\<close> but the
  identifiers and \<open>Parameters\<close>, which are set to their zero values here.
\<close>

definition req_defaults :: "Step \<Rightarrow> Step" where
  "req_defaults req =
     (let req = (if st_OnFailure req = '''' then req\<lparr>st_OnFailure := ''fail_run''\<rparr> else req);
          req = (if st_TaskType req = '''' then req\<lparr>st_TaskType := ''claude_session''\<rparr> else req);
          req = (if st_RunIf req = '''' then req\<lparr>st_RunIf := ''all_success''\<rparr> else req);
          req = (if st_Command req = '''' \<and> st_TaskType req = ''claude_session''
                 then req\<lparr>st_Command := ''claude''\<rparr> else req);
          req = (if st_TaskType req = ''shell'' then req\<lparr>st_Prompt := ''''\<rparr> else req)
      in if st_TaskType req = ''run_job''
         then req\<lparr>st_Prompt := '''', st_Command := '''', st_MachineID := ''''\<rparr> else req)"

definition model_ok :: "string \<Rightarrow> bool" where
  "model_ok m \<longleftrightarrow> m = '''' \<or> m = ''opus'' \<or> m = ''sonnet'' \<or> m = ''haiku'' \<or> m = ''opusplan''"

definition retry_default :: "Step \<Rightarrow> Step" where
  "retry_default req =
     (if st_RetryDelaySeconds req = 0 \<and> st_MaxRetries req > 0 then req\<lparr>st_RetryDelaySeconds := 30\<rparr> else req)"

text \<open>The prospective step that is validated: the listed fields, zero values elsewhere.\<close>

definition prospective :: "string \<Rightarrow> Step \<Rightarrow> Step" where
  "prospective stepID req =
     \<lparr>st_StepID = stepID, st_JobID = '''', st_Name = st_Name req, st_Prompt = '''',
      st_MachineID = st_MachineID req, st_WorkingDir = '''', st_Command = st_Command req, st_Args = '''',
      st_TimeoutSeconds = 0, st_SortOrder = 0, st_OnFailure = '''', st_SkipPermissions = None,
      st_Model = '''', st_DelaySeconds = 0, st_TaskType = st_TaskType req,
      st_SessionKey = st_SessionKey req, st_RunIf = st_RunIf req, st_MaxRetries = st_MaxRetries req,
      st_RetryDelaySeconds = st_RetryDelaySeconds req, st_Parameters = '''',
      st_TargetJobID = st_TargetJobID req, st_JobParams = ''''\<rparr>"

definition AddStep :: "henv \<Rightarrow> UserClaims option \<Rightarrow> string \<Rightarrow> Step option \<Rightarrow> JobHandler \<Rightarrow> response \<times> JobHandler" where
  "AddStep he c jobID body h =
     (case authorizeJobByID he c jobID h of
        Inl r \<Rightarrow> (r, h)
      | Inr detail \<Rightarrow>
     (case body of
        None \<Rightarrow> ((400, Msg ''invalid request body''), h)
      | Some req0 \<Rightarrow>
     (let req = req_defaults req0; job = j_JobID (jd_Job detail)
      in case (if st_TaskType req = ''run_job''
               then validateRunJobStep he c (jh_store h) job (st_TargetJobID req) (st_JobParams req) else None) of
           Some r \<Rightarrow> (r, h)
         | None \<Rightarrow>
     (let req = (if st_Name req = ''''
                 then req\<lparr>st_Name := ''Step '' @ itoa (int (length (jd_Steps detail)) + 1)\<rparr> else req)
      in if \<not> model_ok (st_Model req)
         then ((400, Msg ''model must be one of: opus, sonnet, haiku, opusplan''), h)
         else if st_DelaySeconds req < 0 \<or> st_DelaySeconds req > 86400
         then ((400, Msg ''delay_seconds must be between 0 and 86400''), h)
         else
     (let req = retry_default req;
          errs = ValidateJobSteps (jd_Steps detail @ [prospective '''' req])
      in if errs \<noteq> [] then ((400, StepErrors errs), h)
         else case hcall he HCreateStep (CreateStep (he_newID he)
                     (req\<lparr>st_StepID := '''', st_JobID := job, st_Parameters := ''''\<rparr>) (jh_store h)) of
                Inl e \<Rightarrow> ((500, Msg ''internal error''), h)
              | Inr (step, d) \<Rightarrow> ((201, StepReply step), h\<lparr>jh_store := d\<rparr>))))))"

definition h_UpdateStep :: "henv \<Rightarrow> UserClaims option \<Rightarrow> string \<Rightarrow> string \<Rightarrow> Step option \<Rightarrow> JobHandler \<Rightarrow>
    response \<times> JobHandler" where
  "h_UpdateStep he c jobID stepID body h =
     (case authorizeJobByID he c jobID h of
        Inl r \<Rightarrow> (r, h)
      | Inr detail \<Rightarrow>
          if \<not> jobOwnsStep detail stepID then ((404, Msg ''step not found''), h)
          else
     (case body of
        None \<Rightarrow> ((400, Msg ''invalid request body''), h)
      | Some req0 \<Rightarrow>
     (let req = req_defaults req0
      in case (if st_TaskType req = ''run_job''
               then validateRunJobStep he c (jh_store h) (j_JobID (jd_Job detail)) (st_TargetJobID req)
                      (st_JobParams req) else None) of
           Some r \<Rightarrow> (r, h)
         | None \<Rightarrow>
             if \<not> model_ok (st_Model req)
             then ((400, Msg ''model must be one of: opus, sonnet, haiku, opusplan''), h)
             else if st_DelaySeconds req < 0 \<or> st_DelaySeconds req > 86400
             then ((400, Msg ''delay_seconds must be between 0 and 86400''), h)
             else
     (let req = retry_default req;
          errs = ValidateJobSteps (map (\<lambda>s. if st_StepID s = stepID then prospective stepID req else s)
                                     (jd_Steps detail))
      in if errs \<noteq> [] then ((400, StepErrors errs), h)
         else case hcall he HUpdateStep (UpdateStep
                     (req\<lparr>st_StepID := stepID, st_JobID := '''', st_Parameters := ''''\<rparr>) (jh_store h)) of
                Inl e \<Rightarrow> ((if e = ErrNotFound then (404, Msg ''step not found'') else (500, Msg ''internal error'')), h)
              | Inr d \<Rightarrow> ((200, UpdatedReply), h\<lparr>jh_store := d\<rparr>)))))"

definition h_DeleteStep :: "henv \<Rightarrow> UserClaims option \<Rightarrow> string \<Rightarrow> string \<Rightarrow> JobHandler \<Rightarrow> response \<times> JobHandler" where
  "h_DeleteStep he c jobID stepID h =
     (case authorizeJobByID he c jobID h of
        Inl r \<Rightarrow> (r, h)
      | Inr detail \<Rightarrow>
          if \<not> jobOwnsStep detail stepID then ((404, Msg ''step not found''), h)
          else case hcall he HDeleteStep (DeleteStep stepID (jh_store h)) of
                 Inl e \<Rightarrow> ((if e = ErrNotFound then (404, Msg ''step not found'') else (500, Msg ''internal error'')), h)
               | Inr d \<Rightarrow> ((204, NoContent), h\<lparr>jh_store := d\<rparr>))"

section \<open>Dependencies\<close>

definition h_AddDependency :: "henv \<Rightarrow> UserClaims option \<Rightarrow> string \<Rightarrow> string \<Rightarrow> string option \<Rightarrow> JobHandler \<Rightarrow>
    response \<times> JobHandler" where
  "h_AddDependency he c jobID stepID body h =
     (case authorizeJobByID he c jobID h of
        Inl r \<Rightarrow> (r, h)
      | Inr detail \<Rightarrow>
     (case body of
        None \<Rightarrow> ((400, Msg ''invalid request body''), h)
      | Some dependsOn \<Rightarrow>
          if dependsOn = '''' then ((400, Msg ''depends_on is required''), h)
          else if \<not> jobOwnsStep detail stepID \<or> \<not> jobOwnsStep detail dependsOn
          then ((404, Msg ''step not found in this job''), h)
          else
     (case hcall he HAddDep (AddDependency stepID dependsOn (jh_store h)) of
        Inl e \<Rightarrow> ((400, StoreMsg e), h)
      | Inr d1 \<Rightarrow>
     (case hcall he HGetSteps (Inr (GetStepsWithDeps (j_JobID (jd_Job detail)) d1)) of
        Inl e \<Rightarrow> ((500, Msg ''internal error''), h\<lparr>jh_store := d1\<rparr>)
      | Inr (steps, deps) \<Rightarrow>
          (case ValidateDAG (he_order he) steps deps of
             Some _ \<Rightarrow>
               ((400, Msg ''cycle detected in job DAG''),
                h\<lparr>jh_store := (case hcall he HRemoveDep (RemoveDependency stepID dependsOn d1) of
                                  Inl e \<Rightarrow> d1 | Inr d2 \<Rightarrow> d2)\<rparr>)
           | None \<Rightarrow> ((201, DepReply stepID dependsOn), h\<lparr>jh_store := d1\<rparr>))))))"

definition h_RemoveDependency :: "henv \<Rightarrow> UserClaims option \<Rightarrow> string \<Rightarrow> string \<Rightarrow> string \<Rightarrow> JobHandler \<Rightarrow>
    response \<times> JobHandler" where
  "h_RemoveDependency he c jobID stepID depID h =
     (case authorizeJobByID he c jobID h of
        Inl r \<Rightarrow> (r, h)
      | Inr detail \<Rightarrow>
          if \<not> jobOwnsStep detail stepID \<or> \<not> jobOwnsStep detail depID
          then ((404, Msg ''step not found in this job''), h)
          else case hcall he HRemoveDep (RemoveDependency stepID depID (jh_store h)) of
                 Inl e \<Rightarrow> ((if e = ErrNotFound then (404, Msg ''dependency not found'') else (500, Msg ''internal error'')), h)
               | Inr d \<Rightarrow> ((204, NoContent), h\<lparr>jh_store := d\<rparr>))"

end
