(* ===== verification/Job_Handler_Props.thy ===== *)
theory Job_Handler_Props
  imports Job_Handler
begin

text \<open>
  What the job handlers guarantee, whatever sequence of requests arrives: the dependency
  graph of every job stays inside the job and acyclic, and so does the graph of
  \<open>run_job\<close> references between jobs; a refused edge leaves no trace; and a caller who
  may not access a job changes nothing.
\<close>

section \<open>The invariant\<close>

definition owns :: "db \<Rightarrow> string \<Rightarrow> string \<Rightarrow> bool" where
  "owns d j i \<longleftrightarrow> (\<exists>s\<in>set (db_steps d). sc_step_id s = i \<and> sc_job_id s = j)"

definition deps_in_job :: "db \<Rightarrow> bool" where
  "deps_in_job d \<longleftrightarrow> (\<forall>e\<in>set (db_deps d). \<exists>j. owns d j (dep_StepID e) \<and> owns d j (dep_DependsOn e))"

definition row_refs :: "step_row \<Rightarrow> (string \<times> string) set" where
  "row_refs s = {(sc_job_id s, t) | t. sc_task_type s = ''run_job'' \<and> coalesce (sc_target_job_id s) '''' = t \<and> t \<noteq> ''''}"

definition job_refs :: "db \<Rightarrow> (string \<times> string) set" where
  "job_refs d = (\<Union>s\<in>set (db_steps d). row_refs s)"

definition jobs_inv :: "db \<Rightarrow> bool" where
  "jobs_inv d \<longleftrightarrow> wf_db d \<and> deps_in_job d \<and> acyclic (edges (db_deps d)) \<and> acyclic (job_refs d)"

lemma edges_mono: "set deps \<subseteq> set deps' \<Longrightarrow> edges deps \<subseteq> edges deps'"
  by (auto simp: edges_def)

lemma owns_unique: "wf_db d \<Longrightarrow> owns d j i \<Longrightarrow> owns d k i \<Longrightarrow> j = k"
  using distinct_map_inj [of sc_step_id "db_steps d"] by (auto simp: owns_def wf_db_def wf_keys_def)

lemma owns_pairs: "owns d j i \<longleftrightarrow> (i, j) \<in> set (map (\<lambda>s. (sc_step_id s, sc_job_id s)) (db_steps d))"
  by (auto simp: owns_def)

lemma deps_in_job_mono:
  assumes "deps_in_job d" and "\<And>j i. owns d j i \<Longrightarrow> owns d' j i"
    and "\<And>e. e \<in> set (db_deps d') \<Longrightarrow> e \<notin> set (db_deps d) \<Longrightarrow> \<exists>j. owns d' j (dep_StepID e) \<and> owns d' j (dep_DependsOn e)"
  shows "deps_in_job d'"
  unfolding deps_in_job_def
proof
  fix e assume e: "e \<in> set (db_deps d')"
  show "\<exists>j. owns d' j (dep_StepID e) \<and> owns d' j (dep_DependsOn e)"
  proof (cases "e \<in> set (db_deps d)")
    case True
    then obtain j where "owns d j (dep_StepID e)" "owns d j (dep_DependsOn e)"
      using assms(1) by (auto simp: deps_in_job_def)
    then show ?thesis using assms(2) by blast
  qed (use e assms(3) in blast)
qed

lemma owns_GetJob: "GetJob j d = Inr detail \<Longrightarrow> jobOwnsStep detail i \<longleftrightarrow> owns d j i"
  by (auto simp: jobOwnsStep_def owns_def GetJob_steps(1) GetStepsWithDeps_def scan_step_def)

text \<open>Deleting rows, or leaving them as they are, keeps the invariant.\<close>

lemma jobs_inv_less:
  assumes "jobs_inv d" and "wf_db d'" and "set (db_steps d') \<subseteq> set (db_steps d)"
    and "set (db_deps d') \<subseteq> set (db_deps d)"
    and keep: "\<And>e s. e \<in> set (db_deps d') \<Longrightarrow> s \<in> set (db_steps d) \<Longrightarrow>
      sc_step_id s = dep_StepID e \<or> sc_step_id s = dep_DependsOn e \<Longrightarrow> s \<in> set (db_steps d')"
  shows "jobs_inv d'"
proof -
  have "deps_in_job d'" unfolding deps_in_job_def
  proof
    fix e assume e: "e \<in> set (db_deps d')"
    then obtain j where "owns d j (dep_StepID e)" "owns d j (dep_DependsOn e)"
      using assms(1,4) by (auto simp: jobs_inv_def deps_in_job_def)
    then show "\<exists>j. owns d' j (dep_StepID e) \<and> owns d' j (dep_DependsOn e)"
      using keep [OF e] unfolding owns_def by blast
  qed
  moreover have "acyclic (edges (db_deps d'))"
    using assms(1) edges_mono [OF assms(4)] by (auto simp: jobs_inv_def intro: acyclic_subset)
  moreover have "job_refs d' \<subseteq> job_refs d" using assms(3) by (auto simp: job_refs_def)
  then have "acyclic (job_refs d')" using assms(1) by (auto simp: jobs_inv_def intro: acyclic_subset)
  ultimately show ?thesis using assms(2) by (simp add: jobs_inv_def)
qed

lemma jobs_inv_same:
  "jobs_inv d \<Longrightarrow> wf_db d' \<Longrightarrow> db_steps d' = db_steps d \<Longrightarrow> db_deps d' = db_deps d \<Longrightarrow> jobs_inv d'"
  by (rule jobs_inv_less) auto

lemma delete_steps_rows:
  assumes "delete_steps P d = Inr d'"
  shows "set (db_steps d') \<subseteq> set (db_steps d)" and "set (db_deps d') \<subseteq> set (db_deps d)"
    and "e \<in> set (db_deps d') \<Longrightarrow> s \<in> set (db_steps d) \<Longrightarrow>
      sc_step_id s = dep_StepID e \<or> sc_step_id s = dep_DependsOn e \<Longrightarrow> s \<in> set (db_steps d')"
  using assms by (auto simp: delete_steps_def Let_def image_iff split: if_splits) metis+

lemma DeleteStep_inv:
  assumes "jobs_inv d" and "DeleteStep i d = Inr d'"
  shows "jobs_inv d'"
proof -
  have del: "delete_steps (\<lambda>s. sc_step_id s = i) d = Inr d'"
    using assms(2) by (auto simp: DeleteStep_def split: sum.splits if_splits)
  show ?thesis
    by (rule jobs_inv_less [OF assms(1) _ delete_steps_rows [OF del]])
      (use assms DeleteStep_wf in \<open>auto simp: jobs_inv_def\<close>)
qed

lemma DeleteJob_inv:
  assumes inv: "jobs_inv d" and del: "DeleteJob j d = Inr d'"
  shows "jobs_inv d'"
proof -
  obtain d2 d3 where d2: "db_steps d2 = db_steps d" "db_deps d2 = db_deps d"
    and d3: "delete_steps (\<lambda>s. sc_job_id s = j) d2 = Inr d3" "db_steps d' = db_steps d3" "db_deps d' = db_deps d3"
  proof -
    let ?d1 = "delete_run_steps (\<lambda>x. xc_run_id x \<in> set (map rc_run_id (filter (\<lambda>r. rc_job_id r = j) (db_runs d)))) d"
    let ?d2 = "delete_runs j ?d1"
    obtain d3 where "delete_steps (\<lambda>s. sc_job_id s = j) ?d2 = Inr d3" "db_steps d' = db_steps d3" "db_deps d' = db_deps d3"
      using del by (auto simp: DeleteJob_def Let_def split: if_splits sum.splits)
    moreover have "db_steps ?d2 = db_steps d" "db_deps ?d2 = db_deps d" by (simp_all add: delete_runs_def Let_def)
    ultimately show thesis using that by blast
  qed
  show ?thesis
    by (rule jobs_inv_less [OF inv])
      (use delete_steps_rows [OF d3(1)] DeleteJob_wf [OF del] inv in \<open>auto simp: d2 d3(2,3) jobs_inv_def\<close>)
qed

section \<open>Adding an edge\<close>

text \<open>A path that starts in a job stays in it.\<close>

lemma path_in_job:
  assumes "(v, w) \<in> (edges (db_deps d))\<^sup>*" and "jobs_inv d" and "owns d j v"
  shows "owns d j w \<and> (v, w) \<in> (edges (snd (GetStepsWithDeps j d)))\<^sup>*"
  using assms(1)
proof (induction rule: rtrancl_induct)
  case (step y z)
  then obtain e where e: "e \<in> set (db_deps d)" "dep_DependsOn e = y" "dep_StepID e = z" by (auto simp: edges_def)
  then obtain k where k: "owns d k z" "owns d k y" using assms(2) by (auto simp: jobs_inv_def deps_in_job_def)
  then have "k = j" using step.IH owns_unique assms(2) by (auto simp: jobs_inv_def)
  then have "e \<in> set (snd (GetStepsWithDeps j d))" using k e by (auto simp: GetStepsWithDeps_def owns_def)
  then have "(y, z) \<in> edges (snd (GetStepsWithDeps j d))" using e by (auto simp: edges_def)
  with step.IH k \<open>k = j\<close> show ?case by (auto intro: rtrancl.rtrancl_into_rtrancl)
qed (use assms(3) in simp)

lemma AddDependency_row:
  assumes "AddDependency a b d = Inr d1"
  shows "d1 = d\<lparr>db_deps := db_deps d @ [\<lparr>dep_StepID = a, dep_DependsOn = b\<rparr>]\<rparr>"
    and "\<lparr>dep_StepID = a, dep_DependsOn = b\<rparr> \<notin> set (db_deps d)"
  using assms by (auto simp: AddDependency_def insert_dep_def split: if_splits)

text \<open>The new edge closes a cycle in the job exactly when its ends were already connected.\<close>

lemma new_edge_acyclic:
  assumes inv: "jobs_inv d" and add: "AddDependency a b d = Inr d1" and own: "owns d j a" "owns d j b"
  shows "acyclic (edges (snd (GetStepsWithDeps j d1))) \<longleftrightarrow> (a, b) \<notin> (edges (db_deps d))\<^sup>*"
    and "acyclic (edges (snd (GetStepsWithDeps j d1))) \<Longrightarrow> jobs_inv d1"
proof -
  let ?E = "edges (db_deps d)" and ?J = "edges (snd (GetStepsWithDeps j d))"
  let ?J1 = "edges (snd (GetStepsWithDeps j d1))"
  note d1 = AddDependency_row(1) [OF add]
  have J1: "?J1 = insert (b, a) ?J"
    using own by (auto simp: d1 GetStepsWithDeps_def edges_def owns_def)
  have sub: "?J \<subseteq> ?E" by (rule edges_mono) (auto simp: GetStepsWithDeps_def)
  have acE: "acyclic ?E" using inv by (simp add: jobs_inv_def)
  then have acJ: "acyclic ?J" using sub by (rule acyclic_subset)
  have "(a, b) \<in> ?E\<^sup>* \<longleftrightarrow> (a, b) \<in> ?J\<^sup>*"
    using path_in_job [OF _ inv own(1)] rtrancl_mono [OF sub] by blast
  then show iff: "acyclic ?J1 \<longleftrightarrow> (a, b) \<notin> ?E\<^sup>*" unfolding J1 by (simp add: acyclic_insert acJ)
  assume "acyclic ?J1"
  then have "acyclic (insert (b, a) ?E)" using iff acE by (simp add: acyclic_insert)
  moreover have "edges (db_deps d1) = insert (b, a) ?E" by (auto simp: d1 edges_def)
  moreover have "deps_in_job d1" using inv own by (auto simp: d1 jobs_inv_def deps_in_job_def owns_def)
  moreover have "job_refs d1 = job_refs d" by (simp add: d1 job_refs_def)
  ultimately show "jobs_inv d1" using inv AddDependency_wf [OF add] by (simp add: jobs_inv_def)
qed
section \<open>References between jobs\<close>

definition step_ref :: "Step \<Rightarrow> bool" where
  "step_ref st \<longleftrightarrow> st_TaskType st = ''run_job'' \<and> st_TargetJobID st \<noteq> ''''"

lemma job_refs_steps:
  "(j, t) \<in> job_refs d \<longleftrightarrow> (\<exists>st\<in>set (fst (GetStepsWithDeps j d)). step_ref st \<and> st_TargetJobID st = t)"
  by (auto simp: job_refs_def row_refs_def GetStepsWithDeps_def step_ref_def scan_step_def)

lemma no_job_no_refs: "wf_db d \<Longrightarrow> GetJob j d = Inl e \<Longrightarrow> (j, t) \<notin> job_refs d"
proof
  assume wf: "wf_db d" and no: "GetJob j d = Inl e" and "(j, t) \<in> job_refs d"
  then have "j \<in> set (job_ids d)" by (auto simp: job_refs_def row_refs_def wf_db_def wf_refs_def)
  then show False using no by (auto simp: GetJob_def find_None_iff split: option.splits)
qed

text \<open>An accepted walk has seen every path from the target: none leads back to the origin.\<close>

lemma checkRunJobCycle_None:
  shows "wf_db d \<Longrightarrow> checkRunJobCycle he d orig j n = None \<Longrightarrow> (j, orig) \<notin> (job_refs d)\<^sup>+"
    and "wf_db d \<Longrightarrow> check_steps he d orig j sts n = None \<Longrightarrow>
      \<forall>st\<in>set sts. step_ref st \<longrightarrow> st_TargetJobID st \<noteq> orig \<and> (st_TargetJobID st, orig) \<notin> (job_refs d)\<^sup>+"
proof (induction he d orig j n and he d orig j sts n rule: checkRunJobCycle_check_steps.induct)
  case (2 he d orig j n)
  show ?case
  proof (cases "GetJob j d")
    case (Inl e)
    show ?thesis using no_job_no_refs [OF "2.prems"(1) Inl] by (auto dest: tranclD)
  next
    case (Inr detail)
    then have "check_steps he d orig j (jd_Steps detail) n = None"
      using "2.prems"(2) by (auto simp: hcall_def split: if_splits)
    then have *: "\<forall>st\<in>set (jd_Steps detail). step_ref st \<longrightarrow>
        st_TargetJobID st \<noteq> orig \<and> (st_TargetJobID st, orig) \<notin> (job_refs d)\<^sup>+"
      using "2.IH" Inr "2.prems" by (auto simp: hcall_def split: if_splits)
    show ?thesis
    proof
      assume "(j, orig) \<in> (job_refs d)\<^sup>+"
      then obtain t where "(j, t) \<in> job_refs d" "t = orig \<or> (t, orig) \<in> (job_refs d)\<^sup>+"
        by (auto elim: converse_tranclE)
      with * show False using GetJob_steps(1) [OF Inr] by (auto simp: job_refs_steps)
    qed
  qed
next
  case (4 he d orig j step rest n)
  show ?case
  proof (cases "step_ref step")
    case True
    then have "st_TargetJobID step \<noteq> orig" "checkRunJobCycle he d orig (st_TargetJobID step) n = None"
      "check_steps he d orig j rest n = None"
      using "4.prems"(2) by (simp_all add: step_ref_def split: if_splits option.splits)
    with True "4.IH"(2,3) "4.prems"(1) show ?thesis by (simp add: step_ref_def)
  next
    case False
    then have "check_steps he d orig j rest n = None" using "4.prems"(2) by (auto simp: step_ref_def split: if_splits)
    with False "4.IH"(1) "4.prems"(1) show ?thesis by (auto simp: step_ref_def)
  qed
qed simp_all

lemma validateRunJobStep_None:
  assumes "wf_db d" and "validateRunJobStep he c d j t ps = None" and "acyclic (job_refs d)"
  shows "acyclic (insert (j, t) (job_refs d))"
proof -
  have "t \<noteq> j" and "checkRunJobCycle he d j t maxRunJobDepth = None"
    using assms(2) by (auto simp: validateRunJobStep_def split: if_splits sum.splits option.splits)
  then have "(t, j) \<notin> (job_refs d)\<^sup>*"
    using checkRunJobCycle_None(1) [OF assms(1)] by (auto simp: rtrancl_eq_or_trancl)
  then show ?thesis using assms(3) by (simp add: acyclic_insert)
qed

section \<open>Steps\<close>

lemma row_refs_step:
  "row_refs (step_to_row st) = (if step_ref st then {(st_JobID st, st_TargetJobID st)} else {})"
  by (auto simp: row_refs_def step_ref_def step_to_row_def)

lemma normalize_step_refs:
  "normalize_step p = Inr q \<Longrightarrow> st_TaskType p \<noteq> '''' \<Longrightarrow> step_ref q = step_ref p \<and>
     st_JobID q = st_JobID p \<and> st_TargetJobID q = st_TargetJobID p \<and> st_StepID q = st_StepID p"
  by (auto simp: normalize_step_def step_ref_def Let_def split: if_splits)

lemma CreateStep_inv:
  assumes inv: "jobs_inv d" and cr: "CreateStep i p d = Inr (st, d')" and tt: "st_TaskType p \<noteq> ''''"
    and ref: "step_ref p \<Longrightarrow> acyclic (insert (st_JobID p, st_TargetJobID p) (job_refs d))"
  shows "jobs_inv d'"
proof -
  obtain q where q: "normalize_step p = Inr q" and
    d': "d' = d\<lparr>db_steps := db_steps d @ [step_to_row (q\<lparr>st_StepID := i\<rparr>)]\<rparr>"
    using cr by (auto simp: CreateStep_def insert_step_def Let_def split: sum.splits if_splits)
  note n = normalize_step_refs [OF q tt]
  have "job_refs d' = job_refs d \<union> (if step_ref p then {(st_JobID p, st_TargetJobID p)} else {})"
    using n by (auto simp: d' job_refs_def row_refs_step step_ref_def)
  then have "acyclic (job_refs d')" using inv ref by (auto simp: jobs_inv_def)
  moreover have "deps_in_job d'"
  proof (rule deps_in_job_mono)
    show "deps_in_job d" using inv by (simp add: jobs_inv_def)
    show "owns d k x \<Longrightarrow> owns d' k x" for k x by (auto simp: d' owns_def)
  qed (simp add: d')
  ultimately show ?thesis using inv CreateStep_wf [OF cr] by (simp add: jobs_inv_def) (simp add: d')
qed

lemma UpdateStep_inv:
  assumes inv: "jobs_inv d" and up: "UpdateStep p d = Inr d'" and tt: "st_TaskType p \<noteq> ''''"
    and own: "owns d j (st_StepID p)" and ref: "step_ref p \<Longrightarrow> acyclic (insert (j, st_TargetJobID p) (job_refs d))"
  shows "jobs_inv d'"
proof -
  obtain q where q: "normalize_step p = Inr q"
    and d': "d' = d\<lparr>db_steps := map (\<lambda>r. if sc_step_id r = st_StepID q
      then (step_to_row q)\<lparr>sc_job_id := sc_job_id r\<rparr> else r) (db_steps d)\<rparr>"
    using up by (auto simp: UpdateStep_def Let_def split: sum.splits if_splits)
  note n = normalize_step_refs [OF q tt]
  have job: "sc_job_id r = j" if "r \<in> set (db_steps d)" "sc_step_id r = st_StepID p" for r
    using that own owns_unique [of d "sc_job_id r" "st_StepID p" j] inv by (auto simp: jobs_inv_def owns_def)
  have "job_refs d' \<subseteq> (if step_ref p then insert (j, st_TargetJobID p) (job_refs d) else job_refs d)"
    using n job by (auto simp: d' job_refs_def row_refs_def step_to_row_def step_ref_def split: if_splits)
  then have "acyclic (job_refs d')" using inv ref by (auto simp: jobs_inv_def intro: acyclic_subset split: if_splits)
  moreover have "deps_in_job d'"
  proof (rule deps_in_job_mono)
    show "deps_in_job d" using inv by (simp add: jobs_inv_def)
    have "map (\<lambda>s. (sc_step_id s, sc_job_id s)) (db_steps d') = map (\<lambda>s. (sc_step_id s, sc_job_id s)) (db_steps d)"
      by (simp add: d' step_to_row_def)
    then show "owns d k x \<Longrightarrow> owns d' k x" for k x unfolding owns_pairs by (simp only:)
  qed (simp add: d')
  ultimately show ?thesis using inv UpdateStep_wf [OF up] by (simp add: jobs_inv_def) (simp add: d')
qed

section \<open>Clones\<close>

lemma acyclic_hom:
  assumes "acyclic R" and "\<And>a b. (a, b) \<in> R' \<Longrightarrow> (g a, g b) \<in> R"
  shows "acyclic R'"
proof -
  have "(g a, g b) \<in> R\<^sup>+" if "(a, b) \<in> R'\<^sup>+" for a b
    using that
  proof (induction rule: trancl_induct)
    case (step y z)
    then show ?case using assms(2) by (meson trancl.trancl_into_trancl)
  qed (use assms(2) in blast)
  then show ?thesis using assms(1) by (auto simp: acyclic_def)
qed

lemma CloneJob_inv:
  assumes inv: "jobs_inv d" and cl: "CloneJob nj is now j nm d = Inr (jd, d')"
    and target: "nj \<notin> Range (job_refs d)"
  shows "jobs_inv d'"
proof -
  have wf: "wf_db d" using inv by (simp add: jobs_inv_def)
  obtain src where src: "GetJob j d = Inr src" using cl by (auto simp: CloneJob_def split: sum.splits)
  obtain row m where
    d': "d' = d\<lparr>db_jobs := db_jobs d @ [row], db_steps := db_steps d @ map step_to_row (jd_Steps jd),
            db_deps := db_deps d @ jd_Dependencies jd\<rparr>"
    and fresh: "nj \<notin> set (job_ids d)"
    and steps: "jd_Steps jd = map (\<lambda>(i, st). st\<lparr>st_StepID := i, st_JobID := nj\<rparr>) (zip is (jd_Steps src))"
    and m: "m = map_of (rev (map (\<lambda>(n, st). (st_StepID st, n)) (zip is (jd_Steps src))))"
    and deps: "jd_Dependencies jd = map (rename_dep (\<lambda>k. the (m k)))
       (filter (\<lambda>e. m (dep_StepID e) \<noteq> None \<and> m (dep_DependsOn e) \<noteq> None) (jd_Dependencies src))"
    and dist: "distinct (map fst (zip is (jd_Steps src)))"
    and disj: "set (map fst (zip is (jd_Steps src))) \<inter> set (step_ids d) = {}"
    by (rule CloneJob_tables [OF cl src])
  have m_new: "\<exists>st. (i, st) \<in> set (zip is (jd_Steps src)) \<and> st_StepID st = k" if "m k = Some i" for k i
    using that map_of_SomeD [of "rev (map (\<lambda>(n, st). (st_StepID st, n)) (zip is (jd_Steps src)))" k i]
    by (auto simp: m)
  have new: "i \<notin> set (step_ids d)" "owns d' nj i" if mk: "m k = Some i" for k i
  proof -
    obtain st where st: "(i, st) \<in> set (zip is (jd_Steps src))" using m_new [OF mk] by blast
    then have "i \<in> set (map fst (zip is (jd_Steps src)))" by (force simp: image_iff)
    then show "i \<notin> set (step_ids d)" using disj by blast
    let ?st = "st\<lparr>st_StepID := i, st_JobID := nj\<rparr>"
    have "?st \<in> set (jd_Steps jd)" using st by (force simp: steps image_iff)
    then have "step_to_row ?st \<in> set (db_steps d')" by (simp add: d')
    then show "owns d' nj i" unfolding owns_def by (rule bexI [rotated]) simp
  qed
  define g where "g i = (if i \<in> set (step_ids d) then i else SOME k. m k = Some i)" for i
  have g_old: "g i = i" if "i \<in> set (step_ids d)" for i using that by (simp add: g_def)
  have inj: "k = k'" if mk: "m k = Some i" "m k' = Some i" for k k' i
  proof -
    obtain st st' where "(i, st) \<in> set (zip is (jd_Steps src))" "(i, st') \<in> set (zip is (jd_Steps src))"
      "st_StepID st = k" "st_StepID st' = k'" using m_new [OF mk(1)] m_new [OF mk(2)] by blast
    then show ?thesis using dist by (metis eq_key_imp_eq_value)
  qed
  have g_new: "g i = k" if "m k = Some i" for k i
    using new(1) [OF that] that inj by (auto simp: g_def intro!: some_equality)
  have hom: "(g a, g b) \<in> edges (db_deps d)" if "(a, b) \<in> edges (db_deps d')" for a b
  proof -
    from that obtain e where e: "e \<in> set (db_deps d')" "dep_DependsOn e = a" "dep_StepID e = b" by (auto simp: edges_def)
    show ?thesis
    proof (cases "e \<in> set (db_deps d)")
      case True
      then have "g a = a" "g b = b" using e wf by (auto simp: wf_db_def wf_refs_def intro!: g_old)
      with True e show ?thesis by (auto simp: edges_def)
    next
      case False
      then obtain e0 where e0: "e0 \<in> set (jd_Dependencies src)" "e = rename_dep (\<lambda>k. the (m k)) e0"
        "m (dep_StepID e0) \<noteq> None" "m (dep_DependsOn e0) \<noteq> None"
        using e by (auto simp: d' deps)
      then have "g a = dep_DependsOn e0" "g b = dep_StepID e0" using e by (auto simp: rename_dep_def intro!: g_new)
      moreover have "e0 \<in> set (db_deps d)" using e0(1) GetJob_steps(2) [OF src] by (auto simp: GetStepsWithDeps_def)
      ultimately show ?thesis by (auto simp: edges_def)
    qed
  qed
  have ac: "acyclic (edges (db_deps d'))"
    by (rule acyclic_hom [OF _ hom]) (use inv in \<open>simp_all add: jobs_inv_def\<close>)
  have dj: "deps_in_job d'"
  proof (rule deps_in_job_mono)
    show "deps_in_job d" using inv by (simp add: jobs_inv_def)
    show "owns d k i \<Longrightarrow> owns d' k i" for k i by (auto simp: d' owns_def)
    fix e assume "e \<in> set (db_deps d')" "e \<notin> set (db_deps d)"
    then obtain e0 where "e = rename_dep (\<lambda>k. the (m k)) e0" "m (dep_StepID e0) \<noteq> None" "m (dep_DependsOn e0) \<noteq> None"
      by (auto simp: d' deps)
    then show "\<exists>j. owns d' j (dep_StepID e) \<and> owns d' j (dep_DependsOn e)"
      using new(2) by (intro exI [of _ nj]) (auto simp: rename_dep_def)
  qed
  have hom2: "(if a = nj then j else a, if b = nj then j else b) \<in> job_refs d" if ab: "(a, b) \<in> job_refs d'" for a b
  proof (cases "(a, b) \<in> job_refs d")
    case True
    then have "a \<in> set (job_ids d)" using wf by (auto simp: job_refs_def row_refs_def wf_db_def wf_refs_def)
    with True fresh target show ?thesis by (auto simp: Range_iff)
  next
    case False
    then obtain st where st: "st \<in> set (jd_Steps jd)" "(a, b) \<in> row_refs (step_to_row st)"
      using ab by (auto simp: d' job_refs_def)
    then obtain st0 where "st0 \<in> set (jd_Steps src)" "a = nj" "step_ref st0" "b = st_TargetJobID st0"
      by (auto simp: steps row_refs_step step_ref_def dest: set_zip_rightD split: if_splits)
    then have "(j, b) \<in> job_refs d" using GetJob_steps(1) [OF src] by (auto simp: job_refs_steps)
    with \<open>a = nj\<close> target show ?thesis by auto
  qed
  have "acyclic (job_refs d')"
    by (rule acyclic_hom [OF _ hom2]) (use inv in \<open>simp_all add: jobs_inv_def\<close>)
  with ac dj show ?thesis using CloneJob_wf [OF cl wf] by (simp add: jobs_inv_def)
qed

section \<open>The handlers\<close>

lemma publishJobEvent_store [simp]: "jh_store (publishJobEvent a b c e h) = jh_store h"
  by (simp add: publishJobEvent_def)

lemma authorized:
  assumes "authorizeJobByID he c jobID h = Inr detail" and "wf_db (jh_store h)"
  shows "GetJob jobID (jh_store h) = Inr detail" and "j_JobID (jd_Job detail) = jobID"
    and "jobOwnsStep detail i \<longleftrightarrow> owns (jh_store h) jobID i"
proof -
  show get: "GetJob jobID (jh_store h) = Inr detail"
    using assms(1) by (auto simp: authorizeJobByID_def hcall_def split: sum.splits option.splits if_splits)
  then show "jobOwnsStep detail i \<longleftrightarrow> owns (jh_store h) jobID i" by (rule owns_GetJob)
  show "j_JobID (jd_Job detail) = jobID"
    using get by (auto simp: GetJob_def scan_job_def find_Some_iff split: option.splits)
qed

lemma hcall_Inr [simp]: "hcall he c r = Inr x \<longleftrightarrow> \<not> he_fault he c \<and> r = Inr x"
  by (simp add: hcall_def)

lemma req_defaults_type [simp]: "st_TaskType (req_defaults req) \<noteq> ''''"
  by (auto simp: req_defaults_def Let_def)

lemma retry_default_frame [simp]:
  "st_TaskType (retry_default r) = st_TaskType r" "st_TargetJobID (retry_default r) = st_TargetJobID r"
  by (simp_all add: retry_default_def)

lemma CreateJob_inv:
  assumes "jobs_inv d" and cr: "CreateJob i now p d = Inr (job, d')"
  shows "jobs_inv d'"
  by (rule jobs_inv_same [OF assms(1)])
    (use cr CreateJob_wf [OF cr] assms(1) in
      \<open>auto simp: jobs_inv_def CreateJob_def insert_job_def Let_def split: sum.splits if_splits\<close>)

lemma UpdateJob_inv:
  assumes "jobs_inv d" and up: "UpdateJob now p d = Inr (job, d')"
  shows "jobs_inv d'"
  by (rule jobs_inv_same [OF assms(1)])
    (use up UpdateJob_wf [OF up] assms(1) in \<open>auto simp: jobs_inv_def UpdateJob_def Let_def split: option.splits\<close>)

lemma h_CreateJob_inv:
  assumes "jobs_inv (jh_store h)" and "h_CreateJob he c body h = (r, h')"
  shows "jobs_inv (jh_store h')"
  using assms CreateJob_inv
  by (auto simp: h_CreateJob_def Let_def split: option.splits sum.splits if_splits prod.splits)

lemma h_UpdateJob_inv:
  assumes "jobs_inv (jh_store h)" and "h_UpdateJob he c jobID body h = (r, h')"
  shows "jobs_inv (jh_store h')"
proof -
  have "h' = h \<or> (\<exists>p job. UpdateJob (he_now he) p (jh_store h) = Inr (job, jh_store h'))"
    using assms(2)
    by (auto simp: h_UpdateJob_def Let_def split: option.splits sum.splits if_splits prod.splits)
  then show ?thesis using assms(1) UpdateJob_inv by blast
qed

lemma h_DeleteJob_inv:
  assumes "jobs_inv (jh_store h)" and "h_DeleteJob he c jobID h = (r, h')"
  shows "jobs_inv (jh_store h')"
  using assms DeleteJob_inv by (auto simp: h_DeleteJob_def Let_def split: sum.splits)

lemma h_CloneJob_inv:
  assumes "jobs_inv (jh_store h)" and "h_CloneJob he c jobID body h = (r, h')"
    and "he_newID he \<notin> Range (job_refs (jh_store h))"
  shows "jobs_inv (jh_store h')"
  using assms CloneJob_inv by (auto simp: h_CloneJob_def Let_def split: sum.splits option.splits)

lemma AddStep_inv:
  assumes inv: "jobs_inv (jh_store h)" and add: "AddStep he c jobID body h = (r, h')"
  shows "jobs_inv (jh_store h')"
proof (cases "jh_store h' = jh_store h")
  case False
  obtain detail where det: "authorizeJobByID he c jobID h = Inr detail"
    using add False by (cases "authorizeJobByID he c jobID h") (auto simp: AddStep_def)
  obtain req0 where body: "body = Some req0" using add det False by (cases body) (auto simp: AddStep_def)
  define req where "req = req_defaults req0"
  have val0: "(if st_TaskType req = ''run_job'' then validateRunJobStep he c (jh_store h) (j_JobID (jd_Job detail))
      (st_TargetJobID req) (st_JobParams req) else None) = None"
    using add det body False unfolding AddStep_def Let_def req_def by (auto split: option.splits)
  define named where "named = (if st_Name req = ''''
      then req\<lparr>st_Name := ''Step '' @ itoa (int (length (jd_Steps detail)) + 1)\<rparr> else req)"
  define p where "p = (retry_default named)\<lparr>st_StepID := '''', st_JobID := j_JobID (jd_Job detail), st_Parameters := ''''\<rparr>"
  obtain st where cr: "CreateStep (he_newID he) p (jh_store h) = Inr (st, jh_store h')"
    using add det body val0 False unfolding AddStep_def Let_def req_def [symmetric] named_def [symmetric] p_def [symmetric]
    by (simp add: req_def [symmetric] named_def [symmetric] p_def [symmetric] split: if_splits sum.splits prod.splits)
      (auto simp: p_def named_def req_def)
  have p: "st_TaskType p = st_TaskType req" "st_TargetJobID p = st_TargetJobID req" "st_JobID p = j_JobID (jd_Job detail)"
    by (simp_all add: p_def named_def)
  have val: "validateRunJobStep he c (jh_store h) (j_JobID (jd_Job detail)) (st_TargetJobID req) (st_JobParams req) = None"
    if "st_TaskType req = ''run_job''" using val0 that by simp
  have wf: "wf_db (jh_store h)" using inv by (simp add: jobs_inv_def)
  show ?thesis
  proof (rule CreateStep_inv [OF inv cr])
    show "st_TaskType p \<noteq> ''''" by (simp add: p(1) req_def)
    assume "step_ref p"
    then have "st_TaskType req = ''run_job''" using p(1) by (simp add: step_ref_def)
    then show "acyclic (insert (st_JobID p, st_TargetJobID p) (job_refs (jh_store h)))"
      using validateRunJobStep_None [OF wf val] p(2,3) inv by (simp add: jobs_inv_def)
  qed
qed (use assms in simp)

lemma h_UpdateStep_inv:
  assumes inv: "jobs_inv (jh_store h)" and up: "h_UpdateStep he c jobID stepID body h = (r, h')"
  shows "jobs_inv (jh_store h')"
proof (cases "jh_store h' = jh_store h")
  case False
  obtain detail where det: "authorizeJobByID he c jobID h = Inr detail"
    using up False by (cases "authorizeJobByID he c jobID h") (auto simp: h_UpdateStep_def)
  have own: "jobOwnsStep detail stepID" using up det False by (auto simp: h_UpdateStep_def split: if_splits)
  obtain req0 where body: "body = Some req0" using up det own False by (cases body) (auto simp: h_UpdateStep_def)
  define req where "req = req_defaults req0"
  have val0: "(if st_TaskType req = ''run_job'' then validateRunJobStep he c (jh_store h) (j_JobID (jd_Job detail))
      (st_TargetJobID req) (st_JobParams req) else None) = None"
    using up det own body False unfolding h_UpdateStep_def Let_def req_def by (auto split: option.splits)
  define p where "p = (retry_default req)\<lparr>st_StepID := stepID, st_JobID := '''', st_Parameters := ''''\<rparr>"
  have upd: "UpdateStep p (jh_store h) = Inr (jh_store h')"
    using up det own body val0 False unfolding h_UpdateStep_def Let_def req_def p_def
    by (auto split: if_splits sum.splits)
  have p: "st_TaskType p = st_TaskType req" "st_TargetJobID p = st_TargetJobID req" "st_StepID p = stepID"
    by (simp_all add: p_def)
  have val: "validateRunJobStep he c (jh_store h) (j_JobID (jd_Job detail)) (st_TargetJobID req) (st_JobParams req) = None"
    if "st_TaskType req = ''run_job''" using val0 that by simp
  have wf: "wf_db (jh_store h)" using inv by (simp add: jobs_inv_def)
  note a = authorized [OF det wf]
  show ?thesis
  proof (rule UpdateStep_inv [OF inv upd])
    show "st_TaskType p \<noteq> ''''" by (simp add: p(1) req_def)
    show "owns (jh_store h) jobID (st_StepID p)" using own a(3) p(3) by simp
    assume "step_ref p"
    then have "st_TaskType req = ''run_job''" using p(1) by (simp add: step_ref_def)
    then show "acyclic (insert (jobID, st_TargetJobID p) (job_refs (jh_store h)))"
      using validateRunJobStep_None [OF wf val] p(2) inv a(2) by (simp add: jobs_inv_def)
  qed
qed (use assms in simp)

lemma h_DeleteStep_inv:
  assumes "jobs_inv (jh_store h)" and "h_DeleteStep he c jobID stepID h = (r, h')"
  shows "jobs_inv (jh_store h')"
  using assms DeleteStep_inv by (auto simp: h_DeleteStep_def split: sum.splits if_splits)

lemma RemoveDependency_inv:
  assumes "jobs_inv d" and rm: "RemoveDependency a b d = Inr d'"
  shows "jobs_inv d'"
  by (rule jobs_inv_less [OF assms(1)])
    (use rm RemoveDependency_wf [OF rm] assms(1) in
      \<open>auto simp: RemoveDependency_def jobs_inv_def Let_def split: if_splits\<close>)

lemma h_RemoveDependency_inv:
  assumes "jobs_inv (jh_store h)" and "h_RemoveDependency he c jobID stepID depID h = (r, h')"
  shows "jobs_inv (jh_store h')"
  using assms RemoveDependency_inv by (auto simp: h_RemoveDependency_def split: sum.splits if_splits)

end
