(* ===== verification/Job_Api.thy ===== *)
theory Job_Api
  imports Job_Handler_Props
begin

text \<open>
  The job API as a state machine: every request of \<open>handler/jobs.go\<close> that changes the
  store is a step, and what holds after any sequence of requests. The last sections state
  when \<open>AddDependency\<close> accepts an edge and what an unauthorized caller can reach.
\<close>

section \<open>AddDependency\<close>

text \<open>The order in which Go ranges over the in-degrees of a job's steps.\<close>

definition order_ok :: "henv \<Rightarrow> string \<Rightarrow> db \<Rightarrow> bool" where
  "order_ok he j d \<longleftrightarrow> distinct (he_order he) \<and> set (he_order he) = {i. owns d j i}"

lemma owned_ids: "st_StepID ` set (fst (GetStepsWithDeps j d)) = {i. owns d j i}"
  by (auto simp: GetStepsWithDeps_def scan_step_def owns_def image_iff)

lemma new_edge_validated:
  assumes inv: "jobs_inv d" and add: "AddDependency a b d = Inr d1" and own: "owns d j a" "owns d j b"
    and ord: "order_ok he j d" and get: "GetStepsWithDeps j d1 = (steps, deps)"
  shows "ValidateDAG (he_order he) steps deps = None \<longleftrightarrow> acyclic (edges deps)"
proof (rule ValidateDAG_correct)
  note d1 = AddDependency_row(1) [OF add]
  have wf: "wf_db d1" using AddDependency_wf [OF add] inv by (simp add: jobs_inv_def)
  show "distinct (map st_StepID steps)" using steps_of_job(1) [OF wf, of j] get by simp
  have ids: "st_StepID ` set steps = {i. owns d j i}" using owned_ids [of j d1] get by (simp add: d1 owns_def)
  have dij: "deps_in_job d1" using inv own by (auto simp: d1 jobs_inv_def deps_in_job_def owns_def)
  show ends: "\<forall>e\<in>set deps. dep_StepID e \<in> st_StepID ` set steps \<and> dep_DependsOn e \<in> st_StepID ` set steps"
  proof
    fix e assume "e \<in> set deps"
    then have e: "e \<in> set (db_deps d1)" "owns d1 j (dep_StepID e)"
      using get by (auto simp: GetStepsWithDeps_def owns_def)
    then obtain k where "owns d1 k (dep_StepID e)" "owns d1 k (dep_DependsOn e)" using dij by (auto simp: deps_in_job_def)
    then have "owns d1 j (dep_DependsOn e)" using owns_unique [OF wf] e(2) by blast
    then show "dep_StepID e \<in> st_StepID ` set steps \<and> dep_DependsOn e \<in> st_StepID ` set steps"
      unfolding ids using e(2) by (simp add: d1 owns_def)
  qed
  show "enumerates (he_order he) (in_degrees (map st_StepID steps) deps)"
    using ord ends ids by (auto simp: enumerates_def fmdom'_in_degrees order_ok_def)
qed

lemma RemoveDependency_undoes:
  assumes "AddDependency a b d = Inr d1"
  shows "RemoveDependency a b d1 = Inr d"
proof -
  have "filter (\<lambda>x. x \<noteq> \<lparr>dep_StepID = a, dep_DependsOn = b\<rparr>) (db_deps d) = db_deps d"
    using AddDependency_row(2) [OF assms] by (auto simp: filter_id_conv)
  then show ?thesis by (simp add: AddDependency_row(1) [OF assms] RemoveDependency_def Let_def)
qed

lemma h_AddDependency_cases:
  assumes inv: "jobs_inv (jh_store h)" and auth: "authorizeJobByID he c jobID h = Inr detail"
    and own: "owns (jh_store h) jobID a" "owns (jh_store h) jobID b" and b: "b \<noteq> ''''"
    and add: "hcall he HAddDep (AddDependency a b (jh_store h)) = Inr d1"
    and up: "\<not> he_fault he HGetSteps" "\<not> he_fault he HRemoveDep" and ord: "order_ok he jobID (jh_store h)"
  shows "h_AddDependency he c jobID a (Some b) h =
    (if (a, b) \<in> (edges (db_deps (jh_store h)))\<^sup>* then ((400, Msg ''cycle detected in job DAG''), h)
     else ((201, DepReply a b), h\<lparr>jh_store := d1\<rparr>))"
    and "(a, b) \<notin> (edges (db_deps (jh_store h)))\<^sup>* \<Longrightarrow> jobs_inv d1"
proof -
  let ?d = "jh_store h"
  have wf: "wf_db ?d" using inv by (simp add: jobs_inv_def)
  note au = authorized [OF auth wf]
  have add': "AddDependency a b ?d = Inr d1" using add by simp
  obtain steps deps where get: "GetStepsWithDeps jobID d1 = (steps, deps)" by force
  note acyc = new_edge_acyclic [OF inv add' own]
  have val: "ValidateDAG (he_order he) steps deps = None \<longleftrightarrow> (a, b) \<notin> (edges (db_deps ?d))\<^sup>*"
    using new_edge_validated [OF inv add' own ord get] acyc(1) get by simp
  have [simp]: "hcall he HGetSteps x = x" "hcall he HRemoveDep y = y" for x :: "store_error + (Step list \<times> StepDependency list)" and y :: "store_error + db"
    using up by (simp_all add: hcall_def)
  show "h_AddDependency he c jobID a (Some b) h =
    (if (a, b) \<in> (edges (db_deps ?d))\<^sup>* then ((400, Msg ''cycle detected in job DAG''), h)
     else ((201, DepReply a b), h\<lparr>jh_store := d1\<rparr>))"
    using val RemoveDependency_undoes [OF add']
    by (auto simp: h_AddDependency_def auth b own add au(2,3) get split: option.splits)
  show "jobs_inv d1" if "(a, b) \<notin> (edges (db_deps ?d))\<^sup>*" using acyc that by blast
qed

lemma h_AddDependency_inv:
  assumes inv: "jobs_inv (jh_store h)" and step: "h_AddDependency he c jobID stepID body h = (r, h')"
    and up: "\<not> he_fault he HGetSteps" "\<not> he_fault he HRemoveDep" and ord: "order_ok he jobID (jh_store h)"
  shows "jobs_inv (jh_store h')"
proof (cases "h' = h")
  case False
  have wf: "wf_db (jh_store h)" using inv by (simp add: jobs_inv_def)
  obtain detail where auth: "authorizeJobByID he c jobID h = Inr detail"
    using step False by (cases "authorizeJobByID he c jobID h") (auto simp: h_AddDependency_def)
  note au = authorized [OF auth wf]
  obtain b where b: "body = Some b" "b \<noteq> ''''" "owns (jh_store h) jobID stepID" "owns (jh_store h) jobID b"
    using step False auth au(3) by (cases body) (auto simp: h_AddDependency_def split: if_splits)
  obtain d1 where add: "hcall he HAddDep (AddDependency stepID b (jh_store h)) = Inr d1"
    using step False auth au(3) b
    by (cases "hcall he HAddDep (AddDependency stepID b (jh_store h))") (auto simp: h_AddDependency_def)
  show ?thesis
    using h_AddDependency_cases [OF inv auth b(3,4,2) add up ord] step False b(1) by (auto split: if_splits)
qed (use inv in simp)


section \<open>The API as a state machine\<close>

text \<open>
  One request. Fresh identifiers are not referenced by any \<open>run_job\<close> step, and the two
  store calls that check and undo a new edge succeed: without that the edge stays
  (\<open>unchecked_edge_stays\<close> below).
\<close>

inductive api_step :: "JobHandler \<Rightarrow> JobHandler \<Rightarrow> bool" where
  api_create: "h_CreateJob he c cq h = (r, h') \<Longrightarrow> api_step h h'"
| api_update: "h_UpdateJob he c jobID uq h = (r, h') \<Longrightarrow> api_step h h'"
| api_delete: "h_DeleteJob he c jobID h = (r, h') \<Longrightarrow> api_step h h'"
| api_clone: "h_CloneJob he c jobID nm h = (r, h') \<Longrightarrow> he_newID he \<notin> Range (job_refs (jh_store h)) \<Longrightarrow> api_step h h'"
| api_add_step: "AddStep he c jobID body h = (r, h') \<Longrightarrow> api_step h h'"
| api_update_step: "h_UpdateStep he c jobID stepID body h = (r, h') \<Longrightarrow> api_step h h'"
| api_delete_step: "h_DeleteStep he c jobID stepID h = (r, h') \<Longrightarrow> api_step h h'"
| api_add_dep: "h_AddDependency he c jobID stepID dep h = (r, h') \<Longrightarrow> order_ok he jobID (jh_store h) \<Longrightarrow>
    \<not> he_fault he HGetSteps \<Longrightarrow> \<not> he_fault he HRemoveDep \<Longrightarrow> api_step h h'"
| api_remove_dep: "h_RemoveDependency he c jobID stepID depID h = (r, h') \<Longrightarrow> api_step h h'"

definition api_init :: "JobHandler \<Rightarrow> bool" where
  "api_init h \<longleftrightarrow> (\<exists>us ms. h = NewJobHandler (empty_db us ms))"

lemma jobs_inv_empty: "jobs_inv (empty_db us ms)"
  using wf_empty_db [of us ms]
  by (simp add: jobs_inv_def deps_in_job_def job_refs_def edges_def acyclic_def empty_db_def)

interpretation job_api: invariant_system api_init api_step "\<lambda>h. jobs_inv (jh_store h)"
proof
  fix h assume "api_init h"
  then show "jobs_inv (jh_store h)" by (auto simp: api_init_def NewJobHandler_def jobs_inv_empty)
next
  fix h h' assume inv: "jobs_inv (jh_store h)" and "api_step h h'"
  from this(2) show "jobs_inv (jh_store h')"
    by cases (use inv in \<open>blast intro: h_CreateJob_inv h_UpdateJob_inv h_DeleteJob_inv h_CloneJob_inv AddStep_inv
        h_UpdateStep_inv h_DeleteStep_inv h_AddDependency_inv h_RemoveDependency_inv\<close>)+
qed

lemma jobs_inv_graph:
  assumes "jobs_inv d"
  shows "acyclic (edges (snd (GetStepsWithDeps j d)))"
    and "\<forall>e\<in>set (snd (GetStepsWithDeps j d)). owns d j (dep_StepID e) \<and> owns d j (dep_DependsOn e)"
proof -
  have sub: "set (snd (GetStepsWithDeps j d)) \<subseteq> set (db_deps d)" by (auto simp: GetStepsWithDeps_def)
  then show "acyclic (edges (snd (GetStepsWithDeps j d)))"
    using assms acyclic_subset [OF _ edges_mono [OF sub]] by (simp add: jobs_inv_def)
  show "\<forall>e\<in>set (snd (GetStepsWithDeps j d)). owns d j (dep_StepID e) \<and> owns d j (dep_DependsOn e)"
  proof
    fix e assume "e \<in> set (snd (GetStepsWithDeps j d))"
    then have e: "e \<in> set (db_deps d)" "owns d j (dep_StepID e)" by (auto simp: GetStepsWithDeps_def owns_def)
    then obtain k where "owns d k (dep_StepID e)" "owns d k (dep_DependsOn e)"
      using assms by (auto simp: jobs_inv_def deps_in_job_def)
    with e(2) show "owns d j (dep_StepID e) \<and> owns d j (dep_DependsOn e)"
      using owns_unique assms by (auto simp: jobs_inv_def)
  qed
qed


text \<open>A job with two steps and an edge between them, built through the API.\<close>

definition he0 :: henv where
  "he0 = \<lparr>he_marshal = (\<lambda>_. Some ''{}''), he_unmarshal = (\<lambda>_. True), he_fault = (\<lambda>_. False), he_now = 7,
          he_newID = ''j'', he_newIDs = [''c1'', ''c2''], he_order = []\<rparr>"

definition admin :: "UserClaims option" where
  "admin = Some \<lparr>uc_UserID = ''u'', uc_Role = ''admin''\<rparr>"

definition stranger :: "UserClaims option" where
  "stranger = Some \<lparr>uc_UserID = ''v'', uc_Role = ''member''\<rparr>"

definition jh1 :: JobHandler where
  "jh1 = snd (h_CreateJob he0 admin
     (Some \<lparr>cq_Name = ''build'', cq_Description = '''', cq_Parameters = fmempty, cq_TimeoutSeconds = 0,
            cq_MaxConcurrentRuns = 0\<rparr>) (NewJobHandler (empty_db [''u''] [''m''])))"

definition jh2 :: JobHandler where
  "jh2 = snd (AddStep (he0\<lparr>he_newID := ''a''\<rparr>) admin ''j'' (Some (step0\<lparr>st_Name := ''A'', st_MachineID := ''m''\<rparr>)) jh1)"

definition jh3 :: JobHandler where
  "jh3 = snd (AddStep (he0\<lparr>he_newID := ''b''\<rparr>) admin ''j'' (Some (step0\<lparr>st_Name := ''B'', st_MachineID := ''m''\<rparr>)) jh2)"

definition he_ab :: henv where "he_ab = he0\<lparr>he_order := [''a'', ''b'']\<rparr>"

definition jh4 :: JobHandler where
  "jh4 = snd (h_AddDependency he_ab admin ''j'' ''b'' (Some ''a'') jh3)"


lemma jh_reachable:
  "reachable api_init api_step jh3" "reachable api_init api_step jh4"
proof -
  let ?h0 = "NewJobHandler (empty_db [''u''] [''m''])"
  have "reachable api_init api_step ?h0" by (rule reach_init) (auto simp: api_init_def)
  then have "reachable api_init api_step jh1"
    unfolding jh1_def by (rule reach_step) (rule api_create, rule prod.collapse [symmetric])
  then have "reachable api_init api_step jh2"
    unfolding jh2_def by (rule reach_step) (rule api_add_step, rule prod.collapse [symmetric])
  then show r3: "reachable api_init api_step jh3"
    unfolding jh3_def by (rule reach_step) (rule api_add_step, rule prod.collapse [symmetric])
  have "map (\<lambda>s. (sc_step_id s, sc_job_id s)) (db_steps (jh_store jh3)) = [(''a'', ''j''), (''b'', ''j'')]" by code_simp
  then have "order_ok he_ab ''j'' (jh_store jh3)"
    unfolding order_ok_def owns_pairs by (auto simp: he_ab_def)
  moreover have "\<not> he_fault he_ab HGetSteps" "\<not> he_fault he_ab HRemoveDep" by (simp_all add: he_ab_def he0_def)
  ultimately have "api_step jh3 jh4"
    unfolding jh4_def by (intro api_add_dep [OF prod.collapse [symmetric]])
  then show "reachable api_init api_step jh4" by (rule reach_step [OF r3])
qed


text \<open>
  In a state the API can reach, an authorized request for a new edge between two
  different steps of the job is answered 201 exactly when the edge closes no cycle; then it
  is appended to the dependencies. Otherwise the answer is 400 and the store is as before.
\<close>

theorem AddDependency_decides_cycles:
  assumes "reachable api_init api_step h" and "authorizeJobByID he c jobID h = Inr detail"
    and "jobOwnsStep detail a" and "jobOwnsStep detail b" and "a \<noteq> b" and "b \<noteq> ''''"
    and "\<lparr>dep_StepID = a, dep_DependsOn = b\<rparr> \<notin> set (db_deps (jh_store h))"
    and "\<forall>call. \<not> he_fault he call" and "order_ok he jobID (jh_store h)"
  shows "h_AddDependency he c jobID a (Some b) h =
    (if (a, b) \<in> (edges (db_deps (jh_store h)))\<^sup>* then ((400, Msg ''cycle detected in job DAG''), h)
     else ((201, DepReply a b),
           h\<lparr>jh_store := (jh_store h)\<lparr>db_deps := db_deps (jh_store h) @ [\<lparr>dep_StepID = a, dep_DependsOn = b\<rparr>]\<rparr>\<rparr>))"
proof -
  have inv: "jobs_inv (jh_store h)" using assms(1) by (rule job_api.reachable_inv)
  then have wf: "wf_db (jh_store h)" by (simp add: jobs_inv_def)
  have own: "owns (jh_store h) jobID a" "owns (jh_store h) jobID b"
    using authorized(3) [OF assms(2) wf] assms(3,4) by blast+
  then have "a \<in> set (step_ids (jh_store h))" "b \<in> set (step_ids (jh_store h))" by (auto simp: owns_def)
  then have "hcall he HAddDep (AddDependency a b (jh_store h)) =
      Inr ((jh_store h)\<lparr>db_deps := db_deps (jh_store h) @ [\<lparr>dep_StepID = a, dep_DependsOn = b\<rparr>]\<rparr>)"
    using assms(5,7,8) by (simp add: AddDependency_def insert_dep_def)
  then show ?thesis using h_AddDependency_cases(1) [OF inv assms(2) own assms(6) _ _ _ assms(9)] assms(8) by blast
qed

theorem AddDependency_decides_cycles_witness:
  "h_AddDependency he_ab admin ''j'' ''a'' (Some ''b'') jh4 = ((400, Msg ''cycle detected in job DAG''), jh4)"
proof -
  have deps: "db_deps (jh_store jh4) = [\<lparr>dep_StepID = ''b'', dep_DependsOn = ''a''\<rparr>]" by code_simp
  have "map (\<lambda>s. (sc_step_id s, sc_job_id s)) (db_steps (jh_store jh4)) = [(''a'', ''j''), (''b'', ''j'')]" by code_simp
  then have own: "owns (jh_store jh4) ''j'' i \<longleftrightarrow> i = ''a'' \<or> i = ''b''" for i unfolding owns_pairs by auto
  then have ord: "order_ok he_ab ''j'' (jh_store jh4)" unfolding order_ok_def by (auto simp: he_ab_def)
  have "\<not> isl (authorizeJobByID he_ab admin ''j'' jh4)" by code_simp
  then obtain detail where auth: "authorizeJobByID he_ab admin ''j'' jh4 = Inr detail"
    by (cases "authorizeJobByID he_ab admin ''j'' jh4") auto
  have wf: "wf_db (jh_store jh4)" using job_api.reachable_inv [OF jh_reachable(2)] by (simp add: jobs_inv_def)
  have "jobOwnsStep detail ''a''" "jobOwnsStep detail ''b''" using authorized(3) [OF auth wf] own by auto
  moreover have "(''a'', ''b'') \<in> (edges (db_deps (jh_store jh4)))\<^sup>*" by (auto simp: deps edges_def)
  ultimately show ?thesis
    using AddDependency_decides_cycles [OF jh_reachable(2) auth _ _ _ _ _ _ ord, of "''a''" "''b''"]
    by (simp add: deps he_ab_def he0_def)
qed

text \<open>When re-reading the steps fails, the edge that was never checked stays in the store.\<close>

lemma unchecked_edge_stays:
  "let (r, h) = h_AddDependency (he_ab\<lparr>he_fault := (\<lambda>call. call = HGetSteps)\<rparr>) admin ''j'' ''a'' (Some ''b'') jh4
   in fst r = 500 \<and> map (\<lambda>e. (dep_DependsOn e, dep_StepID e)) (db_deps (jh_store h)) = [(''a'', ''b''), (''b'', ''a'')]"
  by code_simp

section \<open>Authorization\<close>

text \<open>
  C20. A caller who is neither an administrator nor the owner gets the same answer from every
  request on a job, 404, whether the job exists or not, and the request changes nothing.
\<close>

theorem stranger_sees_no_job:
  assumes "uc_Role cl \<noteq> ''admin''" and "\<not> he_fault he HGetJob"
    and "\<forall>detail. GetJob jobID (jh_store h) = Inr detail \<longrightarrow> j_UserID (jd_Job detail) \<noteq> uc_UserID cl"
  shows "h_GetJob he (Some cl) jobID h = (404, Msg ''job not found'') \<and>
    list_all (\<lambda>outcome. outcome = ((404, Msg ''job not found''), h))
      [h_UpdateJob he (Some cl) jobID uq h, h_DeleteJob he (Some cl) jobID h, h_CloneJob he (Some cl) jobID nm h,
       AddStep he (Some cl) jobID body h, h_UpdateStep he (Some cl) jobID stepID body h,
       h_DeleteStep he (Some cl) jobID stepID h, h_AddDependency he (Some cl) jobID stepID dep h,
       h_RemoveDependency he (Some cl) jobID stepID depID h]"
proof -
  have "authorizeJobByID he (Some cl) jobID h = Inl (404, Msg ''job not found'')"
  proof (cases "GetJob jobID (jh_store h)")
    case (Inl e)
    then have "e = ErrNotFound" by (auto simp: GetJob_def split: option.splits)
    then show ?thesis using Inl assms(2) by (simp add: authorizeJobByID_def hcall_def)
  next
    case (Inr detail)
    then show ?thesis using assms by (simp add: authorizeJobByID_def hcall_def authorizeJob_def)
  qed
  then show ?thesis
    by (simp add: h_GetJob_def h_UpdateJob_def h_DeleteJob_def h_CloneJob_def AddStep_def h_UpdateStep_def
        h_DeleteStep_def h_AddDependency_def h_RemoveDependency_def)
qed

theorem stranger_sees_no_job_witness:
  "h_DeleteJob he0 stranger ''j'' jh4 = ((404, Msg ''job not found''), jh4) \<and>
   h_GetJob he0 stranger ''missing'' jh4 = (404, Msg ''job not found'') \<and> fst (h_GetJob he0 admin ''j'' jh4) = 200"
proof -
  have "map_sum (\<lambda>_. ()) (\<lambda>d. j_UserID (jd_Job d)) (GetJob ''j'' (jh_store jh4)) = Inr ''u''" by code_simp
  then have "j_UserID (jd_Job d) = ''u''" if "GetJob ''j'' (jh_store jh4) = Inr d" for d using that by simp
  moreover have "isl (GetJob ''missing'' (jh_store jh4))" by code_simp
  moreover have "fst (h_GetJob he0 admin ''j'' jh4) = 200" by code_simp
  ultimately show ?thesis
    using stranger_sees_no_job [of "\<lparr>uc_UserID = ''v'', uc_Role = ''member''\<rparr>" he0 "''j''" jh4]
      stranger_sees_no_job [of "\<lparr>uc_UserID = ''v'', uc_Role = ''member''\<rparr>" he0 "''missing''" jh4]
    by (fastforce simp: stranger_def he0_def)
qed

end
