(* ===== verification/Event_Bus.thy ===== *)
theory Event_Bus
  imports Prelude Go_Strings
begin

text \<open>
  \<open>internal/server/event\<close>: the event envelope and its constructors (\<open>event.go\<close>,
  \<open>builders.go\<close>) and the in-process publish/subscribe bus (\<open>bus.go\<close>).

  A subscription lives on the heap (\<open>bus_heap\<close>) from \<open>Subscribe\<close> on, whether or not the
  bus still lists it; its channel is the buffered part \<open>sub_ch\<close>, its workers take events
  from the front of it. \<open>Publish\<close>, \<open>Close\<close> and the unsubscribe function give up the lock
  half way, so each is split into the parts that run under one lock and the parts are
  interleaved by the step relation of \<open>Event_Bus_Props\<close>. The error log and the wait
  groups are not modelled. Sending on a closed channel panics: it is the value \<open>Inl\<close>.
\<close>

section \<open>Events\<close>

text \<open>A payload entry of type \<open>any\<close>: a string, or another value with the text that \<open>%v\<close> prints for it.\<close>

datatype any = VString string | VOther string

record Event =
  ev_EventID :: string
  ev_Type :: string
  ev_Timestamp :: time
  ev_Source :: string
  ev_Payload :: "(string, any) fmap"

definition newEvent :: "string \<Rightarrow> time \<Rightarrow> string \<Rightarrow> string \<Rightarrow> (string, any) fmap \<Rightarrow> Event" where
  "newEvent uid now eventType source payload =
     \<lparr>ev_EventID = uid, ev_Type = eventType, ev_Timestamp = now, ev_Source = source, ev_Payload = payload\<rparr>"

definition strings :: "(string \<times> string) list \<Rightarrow> (string, any) fmap" where
  "strings kvs = fmap_of_list (map (\<lambda>(k, v). (k, VString v)) kvs)"

definition NewRunEvent where
  "NewRunEvent uid now eventType runID jobID status triggerType jobName =
     newEvent uid now eventType ''orchestrator'' (strings [(''run_id'', runID), (''job_id'', jobID),
       (''status'', status), (''trigger_type'', triggerType), (''job_name'', jobName)])"

definition NewSessionEvent where
  "NewSessionEvent uid now eventType sessionID machineID machineName command =
     newEvent uid now eventType ''session'' (strings [(''session_id'', sessionID), (''machine_id'', machineID),
       (''machine_name'', machineName), (''command'', command)])"

definition TypeSessionDispatchFailed :: string where "TypeSessionDispatchFailed = ''session.dispatch_failed''"
definition TypeTriggerCron :: string where "TypeTriggerCron = ''trigger.cron''"

definition NewDispatchFailedEvent where
  "NewDispatchFailedEvent uid now sessionID machineID machineName errMsg =
     newEvent uid now TypeSessionDispatchFailed ''session'' (strings [(''session_id'', sessionID),
       (''machine_id'', machineID), (''machine_name'', machineName), (''error'', errMsg)])"

definition NewMachineEvent where
  "NewMachineEvent uid now eventType machineID displayName =
     newEvent uid now eventType ''connmgr'' (strings [(''machine_id'', machineID), (''display_name'', displayName)])"

definition NewTriggerEvent where
  "NewTriggerEvent uid now eventType source payload = newEvent uid now eventType source payload"

definition NewTemplateEvent where
  "NewTemplateEvent uid now eventType templateID userID templateName =
     newEvent uid now eventType ''template'' (strings [(''template_id'', templateID), (''user_id'', userID),
       (''template_name'', templateName)])"

definition NewRunStepEvent where
  "NewRunStepEvent uid now eventType runID runStepID stepID status stepName jobName =
     newEvent uid now eventType ''orchestrator'' (strings [(''run_id'', runID), (''run_step_id'', runStepID),
       (''step_id'', stepID), (''status'', status), (''step_name'', stepName), (''job_name'', jobName)])"

definition NewJobEvent where
  "NewJobEvent uid now eventType jobID jobName userID =
     newEvent uid now eventType ''handler'' (strings [(''job_id'', jobID), (''job_name'', jobName), (''user_id'', userID)])"

definition NewUserEvent where
  "NewUserEvent uid now eventType userID email =
     newEvent uid now eventType ''handler'' (strings [(''user_id'', userID), (''email'', email)])"

definition NewScheduleEvent where
  "NewScheduleEvent uid now eventType scheduleID jobID jobName cronExpr =
     newEvent uid now eventType ''handler'' (strings [(''schedule_id'', scheduleID), (''job_id'', jobID),
       (''job_name'', jobName), (''cron_expr'', cronExpr)])"

definition NewCredentialEvent where
  "NewCredentialEvent uid now eventType credentialID credentialName userID =
     newEvent uid now eventType ''handler'' (strings [(''credential_id'', credentialID),
       (''credential_name'', credentialName), (''user_id'', userID)])"

definition NewWebhookEvent where
  "NewWebhookEvent uid now eventType webhookID webhookName =
     newEvent uid now eventType ''handler'' (strings [(''webhook_id'', webhookID), (''webhook_name'', webhookName)])"

definition NewServerEvent where
  "NewServerEvent uid now eventType reason = newEvent uid now eventType ''server'' (strings [(''reason'', reason)])"

definition NewBridgeEvent where
  "NewBridgeEvent uid now eventType payload = newEvent uid now eventType ''bridge'' payload"

section \<open>Patterns\<close>

definition MatchPattern :: "string \<Rightarrow> string \<Rightarrow> bool" where
  "MatchPattern pattern eventType =
     (if pattern = ''*'' then True
      else if HasSuffix pattern ''.*'' then HasPrefix eventType (TrimSuffix pattern ''*'')
      else pattern = eventType)"

section \<open>The bus\<close>

definition defaultBufferSize :: int where "defaultBufferSize = 256"
definition defaultConcurrency :: int where "defaultConcurrency = 1"

record SubscriberOptions =
  so_Concurrency :: int
  so_BufferSize :: int

text \<open>\<open>sub_taken\<close> and \<open>sub_offered\<close> are ghost state: the events the workers took from the
  channel, and the matching events that \<open>Publish\<close> offered.\<close>

record subscriber =
  sub_pattern :: string
  sub_ch :: "Event list"
  sub_cap :: nat
  sub_workers :: nat
  sub_closed :: bool
  sub_taken :: "Event list"
  sub_offered :: "Event list"

record Bus =
  bus_heap :: "(nat, subscriber) fmap"
  bus_subscribers :: "nat list"
  bus_closed :: bool
  bus_persistHandler :: bool
  bus_persisted :: "Event list"

datatype bus_panic = SendOnClosedChannel nat | NilSubscriber nat

definition NewBus :: Bus where
  "NewBus = \<lparr>bus_heap = fmempty, bus_subscribers = [], bus_closed = False, bus_persistHandler = False,
             bus_persisted = []\<rparr>"

definition SetPersistHandler :: "Bus \<Rightarrow> Bus" where
  "SetPersistHandler b = b\<lparr>bus_persistHandler := True\<rparr>"

text \<open>
  \<open>Publish\<close>, first part: the closed flag is read under the lock and the event is handed to
  the persist handler, which stores it unless it fails (\<open>stored\<close>). The flag returned says
  whether the second part runs.
\<close>

definition publish_persist :: "bool \<Rightarrow> Event \<Rightarrow> Bus \<Rightarrow> bool \<times> Bus" where
  "publish_persist stored e b =
     (if bus_closed b then (False, b)
      else (True, if bus_persistHandler b \<and> stored then b\<lparr>bus_persisted := bus_persisted b @ [e]\<rparr> else b))"

text \<open>The non-blocking send: a full buffer drops the event.\<close>

definition offer :: "Event \<Rightarrow> subscriber \<Rightarrow> subscriber" where
  "offer e s =
     (let s = s\<lparr>sub_offered := sub_offered s @ [e]\<rparr>
      in if length (sub_ch s) < sub_cap s then s\<lparr>sub_ch := sub_ch s @ [e]\<rparr> else s)"

fun fan_out :: "Event \<Rightarrow> nat list \<Rightarrow> Bus \<Rightarrow> bus_panic + Bus" where
  "fan_out e [] b = Inr b"
| "fan_out e (i # is) b =
     (case fmlookup (bus_heap b) i of
        None \<Rightarrow> Inl (NilSubscriber i)
      | Some s \<Rightarrow>
          if \<not> MatchPattern (sub_pattern s) (ev_Type e) then fan_out e is b
          else if sub_closed s then Inl (SendOnClosedChannel i)
          else fan_out e is (b\<lparr>bus_heap := fmupd i (offer e s) (bus_heap b)\<rparr>))"

text \<open>Second part: the flag is read again, then the event goes to every listed subscriber.\<close>

definition publish_fanout :: "Event \<Rightarrow> Bus \<Rightarrow> bus_panic + Bus" where
  "publish_fanout e b = (if bus_closed b then Inr b else fan_out e (bus_subscribers b) b)"

definition Publish :: "bool \<Rightarrow> Event \<Rightarrow> Bus \<Rightarrow> bus_panic + Bus" where
  "Publish stored e b =
     (case publish_persist stored e b of
        (False, b') \<Rightarrow> Inr b'
      | (True, b') \<Rightarrow> publish_fanout e b')"

text \<open>\<open>Subscribe\<close> allocates the subscription \<open>i\<close>; on a closed bus its channel is closed at once.\<close>

definition Subscribe :: "nat \<Rightarrow> string \<Rightarrow> SubscriberOptions \<Rightarrow> Bus \<Rightarrow> Bus" where
  "Subscribe i pattern opts b =
     (let size = (if so_BufferSize opts \<le> 0 then defaultBufferSize else so_BufferSize opts);
          workers = (if so_Concurrency opts \<le> 0 then defaultConcurrency else so_Concurrency opts);
          sub = \<lparr>sub_pattern = pattern, sub_ch = [], sub_cap = nat size, sub_workers = nat workers,
                 sub_closed = bus_closed b, sub_taken = [], sub_offered = []\<rparr>;
          b' = b\<lparr>bus_heap := fmupd i sub (bus_heap b)\<rparr>
      in if bus_closed b then b' else b'\<lparr>bus_subscribers := bus_subscribers b @ [i]\<rparr>)"

text \<open>Closing a channel, at most once (\<open>sync.Once\<close>).\<close>

definition close_sub :: "nat \<Rightarrow> Bus \<Rightarrow> Bus" where
  "close_sub i b =
     (case fmlookup (bus_heap b) i of
        None \<Rightarrow> b
      | Some s \<Rightarrow> b\<lparr>bus_heap := fmupd i (s\<lparr>sub_closed := True\<rparr>) (bus_heap b)\<rparr>)"

text \<open>The unsubscribe function: delisting under the lock, then closing the channel.\<close>

definition unsubscribe_delist :: "nat \<Rightarrow> Bus \<Rightarrow> Bus" where
  "unsubscribe_delist i b = b\<lparr>bus_subscribers := filter (\<lambda>k. k \<noteq> i) (bus_subscribers b)\<rparr>"

definition unsubscribe :: "nat \<Rightarrow> Bus \<Rightarrow> Bus" where
  "unsubscribe i b = close_sub i (unsubscribe_delist i b)"

text \<open>\<open>Close\<close>: under the lock the subscribers are taken out of the bus, then their channels are closed.\<close>

definition close_mark :: "Bus \<Rightarrow> nat list \<times> Bus" where
  "close_mark b =
     (if bus_closed b then ([], b)
      else (bus_subscribers b, b\<lparr>bus_closed := True, bus_subscribers := []\<rparr>))"

definition Close :: "Bus \<Rightarrow> Bus" where
  "Close b = (case close_mark b of (subs, b') \<Rightarrow> fold close_sub subs b')"

text \<open>One turn of \<open>drain\<close>: a worker takes the next event; \<open>None\<close> when there is none to take.\<close>

definition drain :: "nat \<Rightarrow> Bus \<Rightarrow> (Event \<times> Bus) option" where
  "drain i b =
     (case fmlookup (bus_heap b) i of
        None \<Rightarrow> None
      | Some s \<Rightarrow>
          (case sub_ch s of
             [] \<Rightarrow> None
           | e # es \<Rightarrow> Some (e, b\<lparr>bus_heap := fmupd i (s\<lparr>sub_ch := es, sub_taken := sub_taken s @ [e]\<rparr>) (bus_heap b)\<rparr>)))"

end
