(* ===== verification/Event_Bus_Props.thy ===== *)
theory Event_Bus_Props
  imports Event_Bus
begin

text \<open>
  The bus under concurrent publishers, subscribers, workers and \<open>Close\<close>: no send on a
  closed channel, buffers within their capacity, and every subscription receives a
  subsequence of the matching events in publication order, each after it was handed to
  the persist handler.
\<close>

section \<open>Patterns\<close>

lemma HasSuffix_ext: "HasSuffix pattern ''.*'' \<longleftrightarrow> (\<exists>q. pattern = q @ ''.*'')"
  by (auto simp: HasSuffix_def suffix_def)

text \<open>The three documented forms.\<close>

lemma MatchPattern_forms:
  "MatchPattern ''*'' t"
  "MatchPattern (q @ ''.*'') t \<longleftrightarrow> prefix (q @ ''.'') t"
  "\<not> HasSuffix p ''.*'' \<Longrightarrow> p \<noteq> ''*'' \<Longrightarrow> MatchPattern p t \<longleftrightarrow> p = t"
proof -
  have "q @ ''.*'' \<noteq> ''*''" by (cases q) auto
  moreover have "HasSuffix (q @ ''.*'') ''.*''" "HasSuffix (q @ ''.*'') ''*''"
    by (auto simp: HasSuffix_def suffix_def intro: exI [of _ "q @ ''.''"])
  moreover have "TrimSuffix (q @ ''.*'') ''*'' = q @ ''.''"
    using \<open>HasSuffix (q @ ''.*'') ''*''\<close> by (simp add: TrimSuffix_def)
  ultimately show "MatchPattern (q @ ''.*'') t \<longleftrightarrow> prefix (q @ ''.'') t"
    by (simp add: MatchPattern_def HasPrefix_def)
qed (simp_all add: MatchPattern_def)

section \<open>The system\<close>

text \<open>
  \<open>bs_inflight\<close> holds the events between the two parts of \<open>Publish\<close>, \<open>bs_closing\<close> the
  subscriptions whose channel an unsubscribe or \<open>Close\<close> is about to close. Ghost state:
  the events fanned out so far, and those the persist handler failed to store.
\<close>

record bus_sys =
  bs_bus :: Bus
  bs_inflight :: "Event list"
  bs_closing :: "nat list"
  bs_published :: "Event list"
  bs_unstored :: "Event list"

inductive bus_step :: "bus_sys \<Rightarrow> bus_sys \<Rightarrow> bool" where
  bus_subscribe: "fmlookup (bus_heap (bs_bus s)) i = None \<Longrightarrow>
    bus_step s (s\<lparr>bs_bus := Subscribe i pattern opts (bs_bus s)\<rparr>)"
| bus_publish: "publish_persist stored e (bs_bus s) = (go, b) \<Longrightarrow>
    bus_step s (s\<lparr>bs_bus := b, bs_inflight := bs_inflight s @ (if go then [e] else []),
                  bs_unstored := bs_unstored s @ (if stored then [] else [e])\<rparr>)"
| bus_fanout: "e \<in> set (bs_inflight s) \<Longrightarrow> publish_fanout e (bs_bus s) = Inr b \<Longrightarrow>
    bus_step s (s\<lparr>bs_bus := b, bs_inflight := remove1 e (bs_inflight s),
                  bs_published := bs_published s @ [e]\<rparr>)"
| bus_delist: "fmlookup (bus_heap (bs_bus s)) i \<noteq> None \<Longrightarrow>
    bus_step s (s\<lparr>bs_bus := unsubscribe_delist i (bs_bus s), bs_closing := i # bs_closing s\<rparr>)"
| bus_close: "close_mark (bs_bus s) = (subs, b) \<Longrightarrow>
    bus_step s (s\<lparr>bs_bus := b, bs_closing := subs @ bs_closing s\<rparr>)"
| bus_close_channel: "i \<in> set (bs_closing s) \<Longrightarrow>
    bus_step s (s\<lparr>bs_bus := close_sub i (bs_bus s), bs_closing := remove1 i (bs_closing s)\<rparr>)"
| bus_drain: "drain i (bs_bus s) = Some (e, b) \<Longrightarrow> bus_step s (s\<lparr>bs_bus := b\<rparr>)"

definition bus_init :: "bus_sys \<Rightarrow> bool" where
  "bus_init s \<longleftrightarrow> s = \<lparr>bs_bus = SetPersistHandler NewBus, bs_inflight = [], bs_closing = [],
                      bs_published = [], bs_unstored = []\<rparr>"

definition sub_ok :: "Event list \<Rightarrow> subscriber \<Rightarrow> bool" where
  "sub_ok pub s \<longleftrightarrow> 0 < sub_cap s \<and> length (sub_ch s) \<le> sub_cap s \<and>
     subseq (sub_taken s @ sub_ch s) (sub_offered s) \<and>
     subseq (sub_offered s) (filter (\<lambda>e. MatchPattern (sub_pattern s) (ev_Type e)) pub)"

definition listed_ok :: "Bus \<Rightarrow> bool" where
  "listed_ok b \<longleftrightarrow> distinct (bus_subscribers b) \<and>
     (\<forall>i\<in>set (bus_subscribers b). \<exists>s. fmlookup (bus_heap b) i = Some s \<and> \<not> sub_closed s)"

definition bus_inv :: "bus_sys \<Rightarrow> bool" where
  "bus_inv s \<longleftrightarrow> listed_ok (bs_bus s) \<and> bus_persistHandler (bs_bus s) \<and>
     set (bs_closing s) \<inter> set (bus_subscribers (bs_bus s)) = {} \<and>
     set (bs_closing s) \<subseteq> fmdom' (bus_heap (bs_bus s)) \<and>
     (\<forall>i sub. fmlookup (bus_heap (bs_bus s)) i = Some sub \<longrightarrow> sub_ok (bs_published s) sub) \<and>
     set (bs_inflight s) \<union> set (bs_published s) \<subseteq> set (bus_persisted (bs_bus s)) \<union> set (bs_unstored s)"

lemma sub_ok_mono: "sub_ok pub s \<Longrightarrow> sub_ok (pub @ [e]) s"
  by (auto simp: sub_ok_def intro: subseq_order.trans)

lemma sub_ok_offer:
  assumes ok: "sub_ok pub s" and "MatchPattern (sub_pattern s) (ev_Type e)"
  shows "sub_ok (pub @ [e]) (offer e s)"
proof -
  let ?q = "sub_taken s @ sub_ch s"
  have q: "subseq ?q (sub_offered s)" using ok by (simp add: sub_ok_def)
  have "subseq (?q @ [e]) (sub_offered s @ [e])" using q by (intro list_emb_append_mono) auto
  moreover have "subseq ?q (sub_offered s @ [e])" using q by (rule subseq_rev_drop_many)
  moreover have "subseq (sub_offered s @ [e]) (filter (\<lambda>e. MatchPattern (sub_pattern s) (ev_Type e)) pub @ [e])"
    using ok by (intro list_emb_append_mono) (auto simp: sub_ok_def)
  ultimately show ?thesis using assms by (auto simp: sub_ok_def offer_def Let_def)
qed

text \<open>What one fan-out does: every listed subscription whose pattern matches is offered the event once.\<close>

definition offered_heap :: "Event \<Rightarrow> nat list \<Rightarrow> (nat, subscriber) fmap \<Rightarrow> nat \<Rightarrow> subscriber option" where
  "offered_heap e is h i =
     map_option (\<lambda>s. if i \<in> set is \<and> MatchPattern (sub_pattern s) (ev_Type e) then offer e s else s) (fmlookup h i)"

lemma fan_out_effect:
  assumes "distinct is" and "\<forall>i\<in>set is. \<exists>s. fmlookup (bus_heap b) i = Some s \<and> \<not> sub_closed s"
  shows "\<exists>h. fan_out e is b = Inr (b\<lparr>bus_heap := h\<rparr>) \<and> (\<forall>i. fmlookup h i = offered_heap e is (bus_heap b) i)"
  using assms
proof (induction "is" arbitrary: b)
  case Nil
  then show ?case by (intro exI [of _ "bus_heap b"]) (auto simp: offered_heap_def option.map_ident)
next
  case (Cons i js)
  then obtain s where s: "fmlookup (bus_heap b) i = Some s" "\<not> sub_closed s" by auto
  show ?case
  proof (cases "MatchPattern (sub_pattern s) (ev_Type e)")
    case True
    let ?b = "b\<lparr>bus_heap := fmupd i (offer e s) (bus_heap b)\<rparr>"
    have "\<forall>k\<in>set js. \<exists>s. fmlookup (bus_heap ?b) k = Some s \<and> \<not> sub_closed s" using Cons.prems by auto
    then obtain h where h: "fan_out e js ?b = Inr (?b\<lparr>bus_heap := h\<rparr>)" "\<forall>k. fmlookup h k = offered_heap e js (bus_heap ?b) k"
      using Cons.IH [of ?b] Cons.prems(1) by auto
    have "fmlookup h k = offered_heap e (i # js) (bus_heap b) k" for k
      using h(2) s True Cons.prems(1) by (auto simp: offered_heap_def)
    then show ?thesis using h(1) s True by auto
  next
    case False
    obtain h where h: "fan_out e js b = Inr (b\<lparr>bus_heap := h\<rparr>)" "\<forall>k. fmlookup h k = offered_heap e js (bus_heap b) k"
      using Cons.IH [of b] Cons.prems by auto
    have "fmlookup h k = offered_heap e (i # js) (bus_heap b) k" for k
      using h(2) s False by (cases "k = i") (auto simp: offered_heap_def)
    then show ?thesis using h(1) s False by auto
  qed
qed

lemma publish_fanout_effect:
  assumes "listed_ok b"
  obtains h where "publish_fanout e b = Inr (if bus_closed b then b else b\<lparr>bus_heap := h\<rparr>)"
    and "\<And>i. fmlookup h i = offered_heap e (bus_subscribers b) (bus_heap b) i"
proof -
  obtain h where "fan_out e (bus_subscribers b) b = Inr (b\<lparr>bus_heap := h\<rparr>)"
    "\<forall>i. fmlookup h i = offered_heap e (bus_subscribers b) (bus_heap b) i"
    using fan_out_effect assms unfolding listed_ok_def by blast
  then show thesis by (intro that) (auto simp: publish_fanout_def)
qed

section \<open>The invariant\<close>

lemma offer_closed [simp]: "sub_closed (offer e s) = sub_closed s" by (simp add: offer_def Let_def)

lemma offered_open:
  "fmlookup h i = Some s \<Longrightarrow> \<not> sub_closed s \<Longrightarrow> \<exists>s'. offered_heap e js h i = Some s' \<and> \<not> sub_closed s'"
  by (simp add: offered_heap_def)

lemma fanout_inv:
  assumes inv: "bus_inv s" and e: "e \<in> set (bs_inflight s)" and fan: "publish_fanout e (bs_bus s) = Inr b"
  shows "bus_inv (s\<lparr>bs_bus := b, bs_inflight := remove1 e (bs_inflight s), bs_published := bs_published s @ [e]\<rparr>)"
proof -
  let ?b = "bs_bus s"
  have listed: "listed_ok ?b" using inv by (simp add: bus_inv_def)
  obtain h where h: "publish_fanout e ?b = Inr (if bus_closed ?b then ?b else ?b\<lparr>bus_heap := h\<rparr>)"
    "\<And>i. fmlookup h i = offered_heap e (bus_subscribers ?b) (bus_heap ?b) i"
    using publish_fanout_effect [OF listed] by blast
  have b: "b = (if bus_closed ?b then ?b else ?b\<lparr>bus_heap := h\<rparr>)" using fan h(1) by simp
  have "\<exists>sub. fmlookup h i = Some sub \<and> \<not> sub_closed sub" if "i \<in> set (bus_subscribers ?b)" for i
    using listed that offered_open unfolding listed_ok_def h(2) by blast
  then have "listed_ok b" using listed by (simp add: b listed_ok_def)
  moreover have "sub_ok (bs_published s @ [e]) sub" if sub: "fmlookup (bus_heap b) i = Some sub" for i sub
  proof (cases "bus_closed ?b")
    case True
    then show ?thesis using sub inv unfolding b bus_inv_def by (auto intro: sub_ok_mono)
  next
    case False
    then obtain sub0 where "fmlookup (bus_heap ?b) i = Some sub0"
      "sub = sub0 \<or> MatchPattern (sub_pattern sub0) (ev_Type e) \<and> sub = offer e sub0"
      using sub h(2) [of i] unfolding b offered_heap_def by (auto split: if_splits)
    then show ?thesis using inv sub_ok_offer sub_ok_mono unfolding bus_inv_def by blast
  qed
  moreover have "set (remove1 e (bs_inflight s)) \<subseteq> set (bs_inflight s)" by (rule set_remove1_subset)
  moreover have "fmdom' h = fmdom' (bus_heap ?b)"
    using h(2) by (auto simp: fmlookup_dom'_iff offered_heap_def)
  ultimately show ?thesis using inv e unfolding bus_inv_def b by auto
qed

lemma subscribe_inv:
  assumes inv: "bus_inv s" and fresh: "fmlookup (bus_heap (bs_bus s)) i = None"
  shows "bus_inv (s\<lparr>bs_bus := Subscribe i pattern opts (bs_bus s)\<rparr>)"
proof -
  have "i \<notin> set (bus_subscribers (bs_bus s))" using inv fresh by (auto simp: bus_inv_def listed_ok_def)
  moreover have "i \<notin> set (bs_closing s)" using inv fresh by (auto simp: bus_inv_def fmlookup_dom'_iff)
  ultimately show ?thesis
    using inv fresh
    by (auto simp: bus_inv_def listed_ok_def Subscribe_def Let_def sub_ok_def defaultBufferSize_def)
qed

lemma close_inv:
  assumes inv: "bus_inv s" and mark: "close_mark (bs_bus s) = (subs, b)"
  shows "bus_inv (s\<lparr>bs_bus := b, bs_closing := subs @ bs_closing s\<rparr>)"
  using assms
  by (auto simp: bus_inv_def listed_ok_def close_mark_def fmlookup_dom'_iff split: if_splits)

text \<open>Replacing a subscription by one that is as good keeps the invariant.\<close>

lemma heap_upd_inv:
  assumes inv: "bus_inv s" and sub: "fmlookup (bus_heap (bs_bus s)) i = Some sub"
    and ok: "sub_ok (bs_published s) sub'" and cl: "i \<in> set (bus_subscribers (bs_bus s)) \<Longrightarrow> sub_closed sub' = sub_closed sub"
  shows "bus_inv (s\<lparr>bs_bus := (bs_bus s)\<lparr>bus_heap := fmupd i sub' (bus_heap (bs_bus s))\<rparr>\<rparr>)"
proof -
  have "listed_ok (bs_bus s)" using inv by (simp add: bus_inv_def)
  then have "listed_ok ((bs_bus s)\<lparr>bus_heap := fmupd i sub' (bus_heap (bs_bus s))\<rparr>)"
    using sub cl by (fastforce simp: listed_ok_def)
  then show ?thesis using inv ok by (auto simp: bus_inv_def)
qed

lemma drain_inv:
  assumes inv: "bus_inv s" and dr: "drain i (bs_bus s) = Some (e, b)"
  shows "bus_inv (s\<lparr>bs_bus := b\<rparr>)"
proof -
  obtain sub es where sub: "fmlookup (bus_heap (bs_bus s)) i = Some sub" "sub_ch sub = e # es"
    and b: "b = (bs_bus s)\<lparr>bus_heap := fmupd i (sub\<lparr>sub_ch := es, sub_taken := sub_taken sub @ [e]\<rparr>) (bus_heap (bs_bus s))\<rparr>"
    using dr by (auto simp: drain_def split: option.splits list.splits)
  have "sub_ok (bs_published s) sub" using inv sub(1) by (auto simp: bus_inv_def)
  then show ?thesis unfolding b using sub by (intro heap_upd_inv [OF inv sub(1)]) (auto simp: sub_ok_def)
qed

lemma close_channel_inv:
  assumes inv: "bus_inv s" and i: "i \<in> set (bs_closing s)"
  shows "bus_inv (s\<lparr>bs_bus := close_sub i (bs_bus s), bs_closing := remove1 i (bs_closing s)\<rparr>)"
proof -
  obtain sub where sub: "fmlookup (bus_heap (bs_bus s)) i = Some sub"
    using inv i by (auto simp: bus_inv_def dest!: subsetD [of "set (bs_closing s)"] simp: fmlookup_dom'_iff)
  have "bus_inv (s\<lparr>bs_bus := close_sub i (bs_bus s)\<rparr>)"
    unfolding close_sub_def sub option.case
    by (rule heap_upd_inv [OF inv sub]) (use inv i sub in \<open>auto simp: bus_inv_def sub_ok_def\<close>)
  then show ?thesis using set_remove1_subset [of i "bs_closing s"] by (auto simp: bus_inv_def)
qed

interpretation bus_system: invariant_system bus_init bus_step bus_inv
proof
  fix s assume "bus_init s"
  then show "bus_inv s" by (simp add: bus_init_def bus_inv_def listed_ok_def NewBus_def SetPersistHandler_def)
next
  fix s t assume inv: "bus_inv s" and "bus_step s t"
  from this(2) show "bus_inv t"
  proof cases
    case (bus_publish stored e go b)
    then show ?thesis using inv by (auto simp: bus_inv_def listed_ok_def publish_persist_def split: if_splits)
  next
    case (bus_delist i)
    then show ?thesis using inv by (auto simp: bus_inv_def listed_ok_def unsubscribe_delist_def fmlookup_dom'_iff)
  qed (use inv subscribe_inv fanout_inv close_inv drain_inv close_channel_inv in auto)
qed

text \<open>
  C28. Publishing never panics, under any interleaving of publishers, workers, subscribers,
  unsubscribers and \<open>Close\<close>: a listed subscription never has a closed channel, so the
  fan-out succeeds; it offers the event once to each listed subscription whose pattern
  matches, leaves every other subscription alone, and does nothing on a closed bus.
\<close>

theorem publish_never_panics:
  assumes "reachable bus_init bus_step s"
  shows "\<exists>b. publish_fanout e (bs_bus s) = Inr b \<and>
    (\<forall>i. fmlookup (bus_heap b) i =
       map_option (\<lambda>sub. if \<not> bus_closed (bs_bus s) \<and> i \<in> set (bus_subscribers (bs_bus s)) \<and>
                           MatchPattern (sub_pattern sub) (ev_Type e)
                        then offer e sub else sub) (fmlookup (bus_heap (bs_bus s)) i))"
proof -
  have "listed_ok (bs_bus s)" using bus_system.reachable_inv [OF assms] by (simp add: bus_inv_def)
  then obtain h where "publish_fanout e (bs_bus s) = Inr (if bus_closed (bs_bus s) then bs_bus s else (bs_bus s)\<lparr>bus_heap := h\<rparr>)"
    "\<And>i. fmlookup h i = offered_heap e (bus_subscribers (bs_bus s)) (bus_heap (bs_bus s)) i"
    using publish_fanout_effect by blast
  then show ?thesis by (cases "bus_closed (bs_bus s)") (auto simp: offered_heap_def option.map_ident)
qed


text \<open>A subscription to \<open>run.*\<close> and two published events, one of which matches.\<close>

definition ev_done :: Event where "ev_done = NewRunEvent ''e1'' 5 ''run.completed'' ''r1'' ''j'' ''completed'' ''manual'' ''build''"
definition ev_user :: Event where "ev_user = NewUserEvent ''e2'' 6 ''user.created'' ''u'' ''u@x''"

definition bus0 :: Bus where
  "bus0 = Subscribe 0 ''run.*'' \<lparr>so_Concurrency = 0, so_BufferSize = 0\<rparr> (SetPersistHandler NewBus)"

definition bus1 :: Bus where
  "bus1 = projr (publish_fanout ev_done (snd (publish_persist True ev_done bus0)))"

definition bs0 :: bus_sys where
  "bs0 = \<lparr>bs_bus = bus0, bs_inflight = [], bs_closing = [], bs_published = [], bs_unstored = []\<rparr>"

definition bs1 :: bus_sys where "bs1 = bs0\<lparr>bs_bus := bus1, bs_published := [ev_done]\<rparr>"

lemma bs_reachable: "reachable bus_init bus_step bs0" "reachable bus_init bus_step bs1"
proof -
  let ?s = "\<lparr>bs_bus = SetPersistHandler NewBus, bs_inflight = [], bs_closing = [], bs_published = [], bs_unstored = []\<rparr>"
  have "reachable bus_init bus_step ?s" by (rule reach_init) (simp add: bus_init_def)
  moreover have "bus_step ?s (?s\<lparr>bs_bus := bus0\<rparr>)"
    unfolding bus0_def using bus_subscribe [of ?s 0] by (simp add: SetPersistHandler_def NewBus_def)
  ultimately show r0: "reachable bus_init bus_step bs0" by (auto simp: bs0_def intro: reach_step)
  let ?b = "snd (publish_persist True ev_done bus0)"
  let ?t = "bs0\<lparr>bs_bus := ?b, bs_inflight := [ev_done]\<rparr>"
  have "bus_step bs0 ?t"
    using bus_publish [of True ev_done bs0 True ?b]
    by (simp add: bs0_def publish_persist_def bus0_def Subscribe_def SetPersistHandler_def NewBus_def Let_def)
  then have rt: "reachable bus_init bus_step ?t" by (rule reach_step [OF r0])
  have "isl (publish_fanout ev_done ?b) = False" by code_simp
  then have "publish_fanout ev_done (bs_bus ?t) = Inr bus1" by (simp add: bus1_def)
  then have "bus_step ?t bs1"
    using bus_fanout [of ev_done ?t bus1] by (simp add: bs1_def bs0_def)
  then show "reachable bus_init bus_step bs1" by (rule reach_step [OF rt])
qed

theorem publish_never_panics_witness:
  "\<exists>b. publish_fanout ev_done (bs_bus bs0) = Inr b \<and>
     map_option sub_ch (fmlookup (bus_heap b) 0) = Some [ev_done] \<and>
     (\<exists>b'. publish_fanout ev_user (bs_bus bs0) = Inr b' \<and> map_option sub_ch (fmlookup (bus_heap b') 0) = Some [])"
proof -
  obtain sub where sub: "fmlookup (bus_heap (bs_bus bs0)) 0 = Some sub" "sub_pattern sub = ''run.*''" "sub_ch sub = []" "sub_cap sub = 256"
    by (simp add: bs0_def bus0_def Subscribe_def SetPersistHandler_def NewBus_def Let_def defaultBufferSize_def)
  have b: "\<not> bus_closed (bs_bus bs0)" "0 \<in> set (bus_subscribers (bs_bus bs0))"
    by (simp_all add: bs0_def bus0_def Subscribe_def SetPersistHandler_def NewBus_def Let_def)
  have m: "MatchPattern ''run.*'' (ev_Type ev_done)" "\<not> MatchPattern ''run.*'' (ev_Type ev_user)" by code_simp+
  show ?thesis
    using publish_never_panics [OF bs_reachable(1), of ev_done] publish_never_panics [OF bs_reachable(1), of ev_user] sub b m
    by (fastforce simp: offer_def)
qed


end
