(* ===== verification/Triggers.thy ===== *)
theory Triggers
  imports Job_Store Event_Bus_Props
begin

text \<open>
  Event triggers: the table \<open>job_triggers\<close> (\<open>store/triggers.go\<close>) and the subscriber that
  starts job runs for matching events (\<open>event/trigger_subscriber.go\<close>). \<open>encoding/json\<close>
  (\<open>unmarshal\<close>) and the orchestrator's \<open>CreateRun\<close> (\<open>createRun\<close>, which returns
  whether it failed) are arguments. The store's \<open>JobTrigger\<close> has two timestamps more
  than the subscriber's; one record serves for both.
\<close>

section \<open>The table\<close>

record JobTrigger =
  tr_TriggerID :: string
  tr_JobID :: string
  tr_EventType :: string
  tr_Filter :: string
  tr_Enabled :: bool
  tr_CreatedAt :: time
  tr_UpdatedAt :: time

record trigger_row =
  tc_trigger_id :: string
  tc_job_id :: string
  tc_event_type :: string
  tc_filter :: "string option"
  tc_enabled :: bool
  tc_created_at :: time
  tc_updated_at :: time

definition scan_trigger :: "trigger_row \<Rightarrow> JobTrigger" where
  "scan_trigger r =
     \<lparr>tr_TriggerID = tc_trigger_id r, tr_JobID = tc_job_id r, tr_EventType = tc_event_type r,
      tr_Filter = coalesce (tc_filter r) '''', tr_Enabled = tc_enabled r,
      tr_CreatedAt = tc_created_at r, tr_UpdatedAt = tc_updated_at r\<rparr>"

text \<open>The constraints: a unique key and an existing job.\<close>

definition CreateJobTrigger :: "string \<Rightarrow> time \<Rightarrow> db \<Rightarrow> JobTrigger \<Rightarrow> trigger_row list \<Rightarrow>
    store_error + JobTrigger \<times> trigger_row list" where
  "CreateJobTrigger uid now d t rows =
     (if uid \<in> set (map tc_trigger_id rows) \<or> tr_JobID t \<notin> set (job_ids d) then Inl ErrConstraint
      else Inr (t\<lparr>tr_TriggerID := uid, tr_CreatedAt := now, tr_UpdatedAt := now\<rparr>,
                rows @ [\<lparr>tc_trigger_id = uid, tc_job_id = tr_JobID t, tc_event_type = tr_EventType t,
                         tc_filter = nullIfEmpty (tr_Filter t), tc_enabled = tr_Enabled t,
                         tc_created_at = now, tc_updated_at = now\<rparr>]))"

definition ListJobTriggers :: "string \<Rightarrow> trigger_row list \<Rightarrow> JobTrigger list" where
  "ListJobTriggers jobID rows =
     map scan_trigger (sort_key (\<lambda>r. - tc_created_at r) (filter (\<lambda>r. tc_job_id r = jobID) rows))"

definition GetJobTrigger :: "string \<Rightarrow> trigger_row list \<Rightarrow> store_error + JobTrigger" where
  "GetJobTrigger triggerID rows =
     (case find (\<lambda>r. tc_trigger_id r = triggerID) rows of
        None \<Rightarrow> Inl ErrNotFound | Some r \<Rightarrow> Inr (scan_trigger r))"

definition DeleteJobTrigger :: "string \<Rightarrow> trigger_row list \<Rightarrow> store_error + trigger_row list" where
  "DeleteJobTrigger triggerID rows =
     (if triggerID \<notin> set (map tc_trigger_id rows) then Inl ErrNotFound
      else Inr (filter (\<lambda>r. tc_trigger_id r \<noteq> triggerID) rows))"

text \<open>An \<open>UPDATE\<close> of one row, which is then read back.\<close>

definition update_trigger :: "string \<Rightarrow> (trigger_row \<Rightarrow> trigger_row) \<Rightarrow> trigger_row list \<Rightarrow>
    store_error + JobTrigger \<times> trigger_row list" where
  "update_trigger triggerID f rows =
     (let rows' = map (\<lambda>r. if tc_trigger_id r = triggerID then f r else r) rows
      in if triggerID \<notin> set (map tc_trigger_id rows) then Inl ErrNotFound
         else case GetJobTrigger triggerID rows' of Inl e \<Rightarrow> Inl e | Inr t \<Rightarrow> Inr (t, rows'))"

definition UpdateJobTrigger :: "time \<Rightarrow> string \<Rightarrow> string \<Rightarrow> string \<Rightarrow> trigger_row list \<Rightarrow>
    store_error + JobTrigger \<times> trigger_row list" where
  "UpdateJobTrigger now triggerID eventType flt =
     update_trigger triggerID
       (\<lambda>r. r\<lparr>tc_event_type := eventType, tc_filter := nullIfEmpty flt, tc_updated_at := now\<rparr>)"

definition ToggleJobTrigger :: "time \<Rightarrow> string \<Rightarrow> trigger_row list \<Rightarrow> store_error + JobTrigger \<times> trigger_row list" where
  "ToggleJobTrigger now triggerID =
     update_trigger triggerID (\<lambda>r. r\<lparr>tc_enabled := \<not> tc_enabled r, tc_updated_at := now\<rparr>)"

definition ListEnabledTriggers :: "trigger_row list \<Rightarrow> JobTrigger list" where
  "ListEnabledTriggers rows = map scan_trigger (sort_key (\<lambda>r. - tc_created_at r) (filter tc_enabled rows))"

section \<open>The subscriber\<close>

definition payloadString :: "(string, any) fmap \<Rightarrow> string \<Rightarrow> string" where
  "payloadString payload key =
     (case fmlookup payload key of Some (VString s) \<Rightarrow> s | _ \<Rightarrow> '''')"

fun sprint_v :: "any \<Rightarrow> string" where
  "sprint_v (VString s) = s"
| "sprint_v (VOther s) = s"

text \<open>The range over the filter stops at the first entry that does not match, so its order does not matter.\<close>

definition matchesFilter :: "(string \<Rightarrow> (string, string) fmap option) \<Rightarrow> string \<Rightarrow> (string, any) fmap \<Rightarrow> bool" where
  "matchesFilter unmarshal flt payload =
     (if flt = '''' then True
      else case unmarshal flt of
             None \<Rightarrow> False
           | Some filterMap \<Rightarrow>
               fmpred (\<lambda>k v. case fmlookup payload k of None \<Rightarrow> False | Some a \<Rightarrow> sprint_v a = v) filterMap)"

fun fire_loop :: "(string \<Rightarrow> (string, string) fmap option) \<Rightarrow> (string \<Rightarrow> string \<Rightarrow> 'o \<Rightarrow> bool \<times> 'o) \<Rightarrow>
    Event \<Rightarrow> JobTrigger list \<Rightarrow> 'o \<Rightarrow> 'o" where
  "fire_loop unmarshal createRun e [] o' = o'"
| "fire_loop unmarshal createRun e (trigger # rest) o' =
     (let triggerJobID = payloadString (ev_Payload e) ''job_id''
      in if \<not> MatchPattern (tr_EventType trigger) (ev_Type e) then fire_loop unmarshal createRun e rest o'
         else if triggerJobID \<noteq> '''' \<and> triggerJobID = tr_JobID trigger then fire_loop unmarshal createRun e rest o'
         else if \<not> matchesFilter unmarshal (tr_Filter trigger) (ev_Payload e)
         then fire_loop unmarshal createRun e rest o'
         else case createRun (tr_JobID trigger) ''event_trigger'' o' of
                (failed, o'') \<Rightarrow> fire_loop unmarshal createRun e rest o'')"

text \<open>The handler on the enabled triggers the store lists, or on the error it returns.\<close>

definition trigger_handler :: "(string \<Rightarrow> (string, string) fmap option) \<Rightarrow>
    (string \<Rightarrow> string \<Rightarrow> 'o \<Rightarrow> bool \<times> 'o) \<Rightarrow> (store_error + JobTrigger list) \<Rightarrow> Event \<Rightarrow> 'o \<Rightarrow>
    store_error option \<times> 'o" where
  "trigger_handler unmarshal createRun listed e o' =
     (case listed of
        Inl err \<Rightarrow> (Some err, o')
      | Inr triggers \<Rightarrow> (None, fire_loop unmarshal createRun e triggers o'))"

section \<open>Which runs an event starts\<close>

definition fires :: "(string \<Rightarrow> (string, string) fmap option) \<Rightarrow> Event \<Rightarrow> JobTrigger \<Rightarrow> bool" where
  "fires unmarshal e t \<longleftrightarrow>
     MatchPattern (tr_EventType t) (ev_Type e) \<and>
     \<not> (fmlookup (ev_Payload e) ''job_id'' = Some (VString (tr_JobID t)) \<and> tr_JobID t \<noteq> '''') \<and>
     matchesFilter unmarshal (tr_Filter t) (ev_Payload e)"

lemma payloadString_eq: "payloadString p k \<noteq> '''' \<and> payloadString p k = s \<longleftrightarrow> fmlookup p k = Some (VString s) \<and> s \<noteq> ''''"
  by (auto simp: payloadString_def split: option.splits any.splits)

lemma fire_loop_fold:
  "fire_loop unmarshal createRun e ts o' =
     fold (\<lambda>t o''. snd (createRun (tr_JobID t) ''event_trigger'' o'')) (filter (fires unmarshal e) ts) o'"
proof (induction ts arbitrary: o')
  case (Cons t ts)
  then show ?case
    using payloadString_eq [of "ev_Payload e" "''job_id''" "tr_JobID t"]
    by (cases "createRun (tr_JobID t) ''event_trigger'' o'") (simp add: fires_def Let_def)
qed simp

text \<open>
  An event starts exactly the runs that the enabled triggers ask for: the handler is
  equivalent to calling \<open>CreateRun\<close> in creation order (newest first) for the rows that are
  enabled, whose pattern matches, whose filter holds and whose job is not the one named in
  the event, whatever the calls return.
\<close>

theorem trigger_handler_equivalent:
  "trigger_handler unmarshal createRun (Inr (ListEnabledTriggers rows)) e o' =
     (None, fold (\<lambda>r o''. snd (createRun (tc_job_id r) ''event_trigger'' o''))
              (filter (\<lambda>r. tc_enabled r \<and> fires unmarshal e (scan_trigger r)) (sort_key (\<lambda>r. - tc_created_at r) rows)) o')"
proof -
  have "filter (fires unmarshal e) (ListEnabledTriggers rows) =
    map scan_trigger (filter (\<lambda>r. tc_enabled r \<and> fires unmarshal e (scan_trigger r)) (sort_key (\<lambda>r. - tc_created_at r) rows))"
    by (simp add: ListEnabledTriggers_def filter_map o_def filter_sort [symmetric] conj_commute)
  then show ?thesis by (simp add: trigger_handler_def fire_loop_fold fold_map o_def scan_trigger_def)
qed


text \<open>The calls an event causes, recorded instead of executed.\<close>

definition log_run :: "string \<Rightarrow> string \<Rightarrow> (string \<times> string) list \<Rightarrow> bool \<times> (string \<times> string) list" where
  "log_run jobID triggerType calls = (False, calls @ [(jobID, triggerType)])"

lemma fold_log: "fold (\<lambda>t o''. snd (log_run (f t) c o'')) ts calls = calls @ map (\<lambda>t. (f t, c)) ts"
  by (induction ts arbitrary: calls) (simp_all add: log_run_def)

text \<open>An event that names a job in its payload never starts that job.\<close>

lemma named_job_not_started:
  assumes "fmlookup (ev_Payload e) ''job_id'' = Some (VString jobID)" and "jobID \<noteq> ''''"
  shows "(jobID, c) \<notin> set (fire_loop unmarshal log_run e ts [])"
  using assms by (auto simp: fire_loop_fold fold_log fires_def)

lemma strings_lookup: "fmlookup (strings kvs) k = map_option VString (map_of kvs k)"
  by (induction kvs) (auto simp: strings_def)

text \<open>
  Loop prevention, and where it ends: a lifecycle event of a run names its job, so a job is
  never started by its own runs' lifecycle events; the events of its steps do not name it.
\<close>

lemma run_event_not_recursive:
  "jobID \<noteq> '''' \<Longrightarrow>
   (jobID, c) \<notin> set (fire_loop unmarshal log_run (NewRunEvent uid now ty runID jobID st tt jn) ts [])"
  by (rule named_job_not_started) (simp_all add: NewRunEvent_def newEvent_def strings_lookup)

definition trig_all :: trigger_row where
  "trig_all = \<lparr>tc_trigger_id = ''t'', tc_job_id = ''j'', tc_event_type = ''run.*'', tc_filter = None,
     tc_enabled = True, tc_created_at = 1, tc_updated_at = 1\<rparr>"

text \<open>A trigger on \<open>run.*\<close> for job \<open>j\<close> is fired by a step event of a run of \<open>j\<close>: the job restarts itself.\<close>

lemma step_event_starts_own_job:
  "fire_loop (\<lambda>_. None) log_run
     (NewRunStepEvent ''e'' 1 ''run.step.completed'' ''r'' ''x'' ''s'' ''completed'' ''S'' ''build'')
     (ListEnabledTriggers [trig_all]) [] = [(''j'', ''event_trigger'')]"
  by code_simp

end
