(* ===== verification/Scheduler.thy ===== *)
theory Scheduler
  imports Job_Handler Triggers
begin

text \<open>
  Cron schedules: the table \<open>cron_schedules\<close> (\<open>store/schedules.go\<close>), the scheduler that
  keeps the cron runner in step with it (\<open>scheduler/scheduler.go\<close>) and the REST handlers
  (\<open>handler/schedules.go\<close>).

  The cron runner is the library \<open>robfig/cron\<close>: it is a state of unknown type \<open>'c\<close> with
  the operations of \<open>cron_api\<close>. A registered function is identified with the schedule it
  captures. \<open>cron_laws\<close> states what the library documents of them. The zero \<open>time.Time\<close>
  is \<open>None\<close>. \<open>ReloadSchedule\<close> releases the mutex twice, so it is split into its parts.
\<close>

section \<open>The table\<close>

record CronSchedule =
  cs_ScheduleID :: string
  cs_JobID :: string
  cs_CronExpr :: string
  cs_Timezone :: string
  cs_Enabled :: bool
  cs_NextRunAt :: "time option"
  cs_LastTriggeredAt :: "time option"
  cs_CreatedAt :: time
  cs_UpdatedAt :: time

record CreateScheduleParams =
  csp_JobID :: string
  csp_CronExpr :: string
  csp_Timezone :: string

record UpdateScheduleParams =
  usp_ScheduleID :: string
  usp_CronExpr :: string
  usp_Timezone :: string

abbreviation sched_ids :: "CronSchedule list \<Rightarrow> string list" where
  "sched_ids rows \<equiv> map cs_ScheduleID rows"

definition CreateSchedule :: "string \<Rightarrow> time \<Rightarrow> db \<Rightarrow> CreateScheduleParams \<Rightarrow> CronSchedule list \<Rightarrow>
    store_error + CronSchedule \<times> CronSchedule list" where
  "CreateSchedule uid now d p rows =
     (let tz = (if csp_Timezone p = '''' then ''UTC'' else csp_Timezone p);
          sc = \<lparr>cs_ScheduleID = uid, cs_JobID = csp_JobID p, cs_CronExpr = csp_CronExpr p, cs_Timezone = tz,
                cs_Enabled = True, cs_NextRunAt = None, cs_LastTriggeredAt = None,
                cs_CreatedAt = now, cs_UpdatedAt = now\<rparr>
      in if uid \<in> set (sched_ids rows) \<or> csp_JobID p \<notin> set (job_ids d) then Inl ErrConstraint
         else Inr (sc, rows @ [sc]))"

definition GetSchedule :: "string \<Rightarrow> CronSchedule list \<Rightarrow> store_error + CronSchedule" where
  "GetSchedule scheduleID rows =
     (case find (\<lambda>r. cs_ScheduleID r = scheduleID) rows of None \<Rightarrow> Inl ErrNotFound | Some r \<Rightarrow> Inr r)"

text \<open>Ordered by \<open>next_run_at\<close>, missing values last.\<close>

definition ListEnabledSchedules :: "CronSchedule list \<Rightarrow> CronSchedule list" where
  "ListEnabledSchedules rows =
     (let en = filter cs_Enabled rows
      in sort_key (\<lambda>r. the (cs_NextRunAt r)) (filter (\<lambda>r. cs_NextRunAt r \<noteq> None) en) @
         filter (\<lambda>r. cs_NextRunAt r = None) en)"

definition update_rows :: "string \<Rightarrow> (CronSchedule \<Rightarrow> CronSchedule) \<Rightarrow> CronSchedule list \<Rightarrow>
    store_error + CronSchedule list" where
  "update_rows scheduleID f rows =
     (if scheduleID \<notin> set (sched_ids rows) then Inl ErrNotFound
      else Inr (map (\<lambda>r. if cs_ScheduleID r = scheduleID then f r else r) rows))"

definition UpdateSchedule :: "time \<Rightarrow> UpdateScheduleParams \<Rightarrow> CronSchedule list \<Rightarrow>
    store_error + CronSchedule \<times> CronSchedule list" where
  "UpdateSchedule now p rows =
     (case update_rows (usp_ScheduleID p)
             (\<lambda>r. r\<lparr>cs_CronExpr := usp_CronExpr p, cs_Timezone := usp_Timezone p, cs_NextRunAt := None,
                    cs_UpdatedAt := now\<rparr>) rows of
        Inl e \<Rightarrow> Inl e
      | Inr rows' \<Rightarrow> (case GetSchedule (usp_ScheduleID p) rows' of Inl e \<Rightarrow> Inl e | Inr sc \<Rightarrow> Inr (sc, rows')))"

definition SetScheduleEnabled :: "time \<Rightarrow> string \<Rightarrow> bool \<Rightarrow> CronSchedule list \<Rightarrow> store_error + CronSchedule list" where
  "SetScheduleEnabled now scheduleID enabled =
     (if enabled then update_rows scheduleID (\<lambda>r. r\<lparr>cs_Enabled := True, cs_UpdatedAt := now\<rparr>)
      else update_rows scheduleID (\<lambda>r. r\<lparr>cs_Enabled := False, cs_NextRunAt := None, cs_UpdatedAt := now\<rparr>))"

definition UpdateScheduleTimestamps :: "time \<Rightarrow> string \<Rightarrow> time option \<Rightarrow> time option \<Rightarrow> CronSchedule list \<Rightarrow>
    store_error + CronSchedule list" where
  "UpdateScheduleTimestamps now scheduleID lastTriggered nextRun =
     (if lastTriggered = None
      then update_rows scheduleID (\<lambda>r. r\<lparr>cs_NextRunAt := nextRun, cs_UpdatedAt := now\<rparr>)
      else update_rows scheduleID
             (\<lambda>r. r\<lparr>cs_LastTriggeredAt := lastTriggered, cs_NextRunAt := nextRun, cs_UpdatedAt := now\<rparr>))"

definition DeleteSchedule :: "string \<Rightarrow> CronSchedule list \<Rightarrow> store_error + CronSchedule list" where
  "DeleteSchedule scheduleID rows =
     (if scheduleID \<notin> set (sched_ids rows) then Inl ErrNotFound
      else Inr (filter (\<lambda>r. cs_ScheduleID r \<noteq> scheduleID) rows))"

section \<open>The cron runner\<close>

record 'c cron_api =
  ca_New :: 'c
  ca_AddFunc :: "string \<Rightarrow> CronSchedule \<Rightarrow> 'c \<Rightarrow> (nat \<times> 'c) option"
  ca_Remove :: "nat \<Rightarrow> 'c \<Rightarrow> 'c"
  ca_Next :: "nat \<Rightarrow> 'c \<Rightarrow> time option"
  ca_Start :: "'c \<Rightarrow> 'c"
  ca_Stop :: "'c \<Rightarrow> 'c"
  ca_funcs :: "'c \<Rightarrow> (nat, CronSchedule) fmap"
  ca_Parse :: "string \<Rightarrow> bool"
  ca_LoadLocation :: "string \<Rightarrow> bool"

text \<open>
  Documented behaviour: \<open>AddFunc\<close> returns an identifier for the new entry, \<open>Remove\<close>
  removes that entry from being run, \<open>Start\<close> and \<open>Stop\<close> keep the entries, and an
  expression that parses and sets no time zone of its own is accepted after \<open>CRON_TZ=\<close> and
  a time zone that loads.
\<close>

definition own_zone_free :: "string \<Rightarrow> bool" where
  "own_zone_free expr \<longleftrightarrow> \<not> HasPrefix expr ''TZ='' \<and> \<not> HasPrefix expr ''CRON_TZ=''"

definition cron_laws :: "'c cron_api \<Rightarrow> bool" where
  "cron_laws api \<longleftrightarrow>
     ca_funcs api (ca_New api) = fmempty \<and>
     (\<forall>spec f c i c'. ca_AddFunc api spec f c = Some (i, c') \<longrightarrow>
        fmlookup (ca_funcs api c) i = None \<and> ca_funcs api c' = fmupd i f (ca_funcs api c)) \<and>
     (\<forall>i c. ca_funcs api (ca_Remove api i c) = fmdrop i (ca_funcs api c)) \<and>
     (\<forall>c. ca_funcs api (ca_Start api c) = ca_funcs api c \<and> ca_funcs api (ca_Stop api c) = ca_funcs api c) \<and>
     (\<forall>tz expr f c. ca_LoadLocation api tz \<and> ca_Parse api expr \<and> own_zone_free expr \<longrightarrow>
        ca_AddFunc api (''CRON_TZ='' @ tz @ '' '' @ expr) f c \<noteq> None) \<and>
     ca_LoadLocation api ''UTC''"

section \<open>The scheduler\<close>

text \<open>\<open>ss_table\<close> is the store's table, \<open>ss_events\<close> what was published to the bus.\<close>

record 'c Scheduler =
  ss_cron :: 'c
  ss_entries :: "(string, nat) fmap"
  ss_table :: "CronSchedule list"
  ss_events :: "Event list"

datatype sched_call = SList | SGet | SCreate | SUpdate | SEnable | SDelete | STimestamps

record sched_env =
  se_now :: time
  se_uid :: string
  se_fault :: "sched_call \<Rightarrow> bool"
  se_format :: "time \<Rightarrow> string"

datatype sched_error = InvalidTimezone string | AddEntryFailed string | SchedStore store_error

definition scall :: "sched_env \<Rightarrow> sched_call \<Rightarrow> (store_error + 'a) \<Rightarrow> store_error + 'a" where
  "scall se c r = (if se_fault se c then Inl ErrUnavailable else r)"

definition NewScheduler :: "'c cron_api \<Rightarrow> CronSchedule list \<Rightarrow> 'c Scheduler" where
  "NewScheduler api rows = \<lparr>ss_cron = ca_New api, ss_entries = fmempty, ss_table = rows, ss_events = []\<rparr>"

definition addEntryLocked :: "'c cron_api \<Rightarrow> CronSchedule \<Rightarrow> 'c Scheduler \<Rightarrow>
    sched_error + time option \<times> 'c Scheduler" where
  "addEntryLocked api schedule s =
     (if \<not> ca_LoadLocation api (cs_Timezone schedule) then Inl (InvalidTimezone (cs_Timezone schedule))
      else let spec = ''CRON_TZ='' @ cs_Timezone schedule @ '' '' @ cs_CronExpr schedule
           in case ca_AddFunc api spec schedule (ss_cron s) of
                None \<Rightarrow> Inl (AddEntryFailed (cs_ScheduleID schedule))
              | Some (entryID, c) \<Rightarrow>
                  Inr (ca_Next api entryID c,
                       s\<lparr>ss_cron := c, ss_entries := fmupd (cs_ScheduleID schedule) entryID (ss_entries s)\<rparr>))"

text \<open>Writing the timestamps: a failure is only logged.\<close>

definition put_times :: "sched_env \<Rightarrow> string \<Rightarrow> time option \<Rightarrow> time option \<Rightarrow> 'c Scheduler \<Rightarrow> 'c Scheduler" where
  "put_times se scheduleID lastTriggered nextRun s =
     (case scall se STimestamps (UpdateScheduleTimestamps (se_now se) scheduleID lastTriggered nextRun (ss_table s)) of
        Inl e \<Rightarrow> s | Inr rows \<Rightarrow> s\<lparr>ss_table := rows\<rparr>)"

fun load_loop :: "'c cron_api \<Rightarrow> CronSchedule list \<Rightarrow> (string \<times> time option) list \<Rightarrow> 'c Scheduler \<Rightarrow>
    (string \<times> time option) list \<times> 'c Scheduler" where
  "load_loop api [] updates s = (updates, s)"
| "load_loop api (sc # rest) updates s =
     (case addEntryLocked api sc s of
        Inl e \<Rightarrow> load_loop api rest updates s
      | Inr (nextRun, s') \<Rightarrow>
          load_loop api rest (if nextRun = None then updates else updates @ [(cs_ScheduleID sc, nextRun)]) s')"

definition sched_Start :: "'c cron_api \<Rightarrow> sched_env \<Rightarrow> 'c Scheduler \<Rightarrow> sched_error option \<times> 'c Scheduler" where
  "sched_Start api se s =
     (case scall se SList (Inr (ListEnabledSchedules (ss_table s))) of
        Inl e \<Rightarrow> (Some (SchedStore e), s)
      | Inr schedules \<Rightarrow>
          (case load_loop api schedules [] s of
             (updates, s1) \<Rightarrow>
               (let s2 = fold (\<lambda>(i, t). put_times se i None t) updates s1
                in (None, s2\<lparr>ss_cron := ca_Start api (ss_cron s2)\<rparr>))))"

text \<open>The closure of \<open>buildFuncJob\<close>, run by cron each time the schedule fires.\<close>

definition cron_event :: "sched_env \<Rightarrow> CronSchedule \<Rightarrow> Event" where
  "cron_event se schedule =
     \<lparr>ev_EventID = se_uid se, ev_Type = TypeTriggerCron, ev_Timestamp = se_now se, ev_Source = ''scheduler'',
      ev_Payload = strings [(''schedule_id'', cs_ScheduleID schedule), (''job_id'', cs_JobID schedule),
        (''cron_expr'', cs_CronExpr schedule), (''fired_at'', se_format se (se_now se))]\<rparr>"

definition buildFuncJob :: "'c cron_api \<Rightarrow> sched_env \<Rightarrow> CronSchedule \<Rightarrow> 'c Scheduler \<Rightarrow> 'c Scheduler" where
  "buildFuncJob api se schedule s =
     (let s = s\<lparr>ss_events := ss_events s @ [cron_event se schedule]\<rparr>;
          nextRun = (case fmlookup (ss_entries s) (cs_ScheduleID schedule) of
                       None \<Rightarrow> None | Some entryID \<Rightarrow> ca_Next api entryID (ss_cron s));
          nextRun = (if nextRun = None then Some (se_now se) else nextRun)
      in put_times se (cs_ScheduleID schedule) (Some (se_now se)) nextRun s)"

definition RemoveSchedule :: "'c cron_api \<Rightarrow> string \<Rightarrow> 'c Scheduler \<Rightarrow> 'c Scheduler" where
  "RemoveSchedule api scheduleID s =
     (case fmlookup (ss_entries s) scheduleID of
        None \<Rightarrow> s
      | Some entryID \<Rightarrow> s\<lparr>ss_cron := ca_Remove api entryID (ss_cron s), ss_entries := fmdrop scheduleID (ss_entries s)\<rparr>)"

text \<open>
  \<open>ReloadSchedule\<close>: the first critical section is that of \<open>RemoveSchedule\<close>; the second
  registers the schedule that was read from the store in between.
\<close>

definition reload_register :: "'c cron_api \<Rightarrow> sched_env \<Rightarrow> CronSchedule \<Rightarrow> 'c Scheduler \<Rightarrow>
    sched_error option \<times> 'c Scheduler" where
  "reload_register api se sc s =
     (case addEntryLocked api sc s of
        Inl e \<Rightarrow> (Some e, s)
      | Inr (nextRun, s') \<Rightarrow>
          (None, if nextRun = None then s'
                 else put_times se (cs_ScheduleID sc) (cs_LastTriggeredAt sc) nextRun s'))"

definition ReloadSchedule :: "'c cron_api \<Rightarrow> sched_env \<Rightarrow> string \<Rightarrow> 'c Scheduler \<Rightarrow>
    sched_error option \<times> 'c Scheduler" where
  "ReloadSchedule api se scheduleID s =
     (let s1 = RemoveSchedule api scheduleID s
      in case scall se SGet (GetSchedule scheduleID (ss_table s1)) of
           Inl e \<Rightarrow> (Some (SchedStore e), s1)
         | Inr sc \<Rightarrow> if \<not> cs_Enabled sc then (None, s1) else reload_register api se sc s1)"

definition sched_Stop :: "'c cron_api \<Rightarrow> 'c Scheduler \<Rightarrow> 'c Scheduler" where
  "sched_Stop api s = s\<lparr>ss_cron := ca_Stop api (ss_cron s)\<rparr>"


section \<open>The handlers\<close>

text \<open>
  As in \<open>Job_Handler\<close>: the caller's claims, the URL parameter and the decoded body are
  arguments. The texts of library errors are left out of the messages.
\<close>

definition TypeScheduleCreated :: string where "TypeScheduleCreated = ''schedule.created''"
definition TypeSchedulePaused :: string where "TypeSchedulePaused = ''schedule.paused''"
definition TypeScheduleResumed :: string where "TypeScheduleResumed = ''schedule.resumed''"
definition TypeScheduleDeleted :: string where "TypeScheduleDeleted = ''schedule.deleted''"

datatype sched_reply = SMsg string | SchedReply CronSchedule | RunReply Run | SNoContent

record createScheduleRequest =
  sq_CronExpr :: string
  sq_Timezone :: string

record 'c ScheduleHandler =
  sh_sched :: "'c Scheduler"
  sh_jobs :: db
  sh_publisher :: bool
  sh_published :: "(string \<times> string \<times> string \<times> string \<times> string) list"

definition publishScheduleEvent :: "string \<Rightarrow> string \<Rightarrow> string \<Rightarrow> string \<Rightarrow> string \<Rightarrow> 'c ScheduleHandler \<Rightarrow> 'c ScheduleHandler" where
  "publishScheduleEvent eventType scheduleID jobID jobName cronExpr h =
     (if sh_publisher h then h\<lparr>sh_published := sh_published h @ [(eventType, scheduleID, jobID, jobName, cronExpr)]\<rparr> else h)"

definition validateTimezone :: "'c cron_api \<Rightarrow> string \<Rightarrow> bool" where
  "validateTimezone api tz \<longleftrightarrow> tz = '''' \<or> ca_LoadLocation api tz"

definition sh_authorizeJobByID :: "henv \<Rightarrow> UserClaims option \<Rightarrow> string \<Rightarrow> 'c ScheduleHandler \<Rightarrow>
    (int \<times> sched_reply) + JobDetail" where
  "sh_authorizeJobByID he c jobID h =
     (case hcall he HGetJob (GetJob jobID (sh_jobs h)) of
        Inl e \<Rightarrow> if e = ErrNotFound then Inl (404, SMsg ''job not found'') else Inl (500, SMsg ''internal error'')
      | Inr detail \<Rightarrow>
          (case c of
             None \<Rightarrow> Inl (401, SMsg ''unauthorized'')
           | Some cl \<Rightarrow>
               if uc_Role cl \<noteq> ''admin'' \<and> uc_UserID cl \<noteq> j_UserID (jd_Job detail)
               then Inl (404, SMsg ''job not found'') else Inr detail))"

definition authorizeScheduleByID :: "sched_env \<Rightarrow> henv \<Rightarrow> UserClaims option \<Rightarrow> string \<Rightarrow> 'c ScheduleHandler \<Rightarrow>
    (int \<times> sched_reply) + CronSchedule" where
  "authorizeScheduleByID se he c scheduleID h =
     (case scall se SGet (GetSchedule scheduleID (ss_table (sh_sched h))) of
        Inl e \<Rightarrow> if e = ErrNotFound then Inl (404, SMsg ''schedule not found'') else Inl (500, SMsg ''internal error'')
      | Inr sc \<Rightarrow> (case sh_authorizeJobByID he c (cs_JobID sc) h of Inl r \<Rightarrow> Inl r | Inr _ \<Rightarrow> Inr sc))"

definition sh_reload :: "'c cron_api \<Rightarrow> sched_env \<Rightarrow> string \<Rightarrow> 'c ScheduleHandler \<Rightarrow> 'c ScheduleHandler" where
  "sh_reload api se scheduleID h = h\<lparr>sh_sched := snd (ReloadSchedule api se scheduleID (sh_sched h))\<rparr>"

definition h_CreateSchedule :: "'c cron_api \<Rightarrow> sched_env \<Rightarrow> henv \<Rightarrow> UserClaims option \<Rightarrow> string \<Rightarrow>
    createScheduleRequest option \<Rightarrow> 'c ScheduleHandler \<Rightarrow> (int \<times> sched_reply) \<times> 'c ScheduleHandler" where
  "h_CreateSchedule api se he c jobID body h =
     (case body of
        None \<Rightarrow> ((400, SMsg ''invalid request body''), h)
      | Some req \<Rightarrow>
          if sq_CronExpr req = '''' then ((400, SMsg ''cron_expr is required''), h)
          else if \<not> ca_Parse api (sq_CronExpr req) then ((400, SMsg ''invalid cron_expr''), h)
          else if \<not> validateTimezone api (sq_Timezone req) then ((400, SMsg ''invalid timezone''), h)
          else case sh_authorizeJobByID he c jobID h of
                 Inl r \<Rightarrow> (r, h)
               | Inr jobDetail \<Rightarrow>
                   (case scall se SCreate (CreateSchedule (se_uid se) (se_now se) (sh_jobs h)
                           \<lparr>csp_JobID = jobID, csp_CronExpr = sq_CronExpr req, csp_Timezone = sq_Timezone req\<rparr>
                           (ss_table (sh_sched h))) of
                      Inl e \<Rightarrow> ((500, SMsg ''internal error''), h)
                    | Inr (created, rows) \<Rightarrow>
                        ((201, SchedReply created),
                         publishScheduleEvent TypeScheduleCreated (cs_ScheduleID created) jobID
                           (j_Name (jd_Job jobDetail)) (cs_CronExpr created)
                           (sh_reload api se (cs_ScheduleID created)
                              (h\<lparr>sh_sched := (sh_sched h)\<lparr>ss_table := rows\<rparr>\<rparr>)))))"

definition h_UpdateSchedule :: "'c cron_api \<Rightarrow> sched_env \<Rightarrow> henv \<Rightarrow> UserClaims option \<Rightarrow> string \<Rightarrow>
    createScheduleRequest option \<Rightarrow> 'c ScheduleHandler \<Rightarrow> (int \<times> sched_reply) \<times> 'c ScheduleHandler" where
  "h_UpdateSchedule api se he c scheduleID body h =
     (case authorizeScheduleByID se he c scheduleID h of
        Inl r \<Rightarrow> (r, h)
      | Inr sc \<Rightarrow>
     (case body of
        None \<Rightarrow> ((400, SMsg ''invalid request body''), h)
      | Some req \<Rightarrow>
          if sq_CronExpr req = '''' then ((400, SMsg ''cron_expr is required''), h)
          else if \<not> ca_Parse api (sq_CronExpr req) then ((400, SMsg ''invalid cron_expr''), h)
          else
     (let tz = (if sq_Timezone req = '''' then cs_Timezone sc else sq_Timezone req)
      in if \<not> validateTimezone api tz then ((400, SMsg ''invalid timezone''), h)
         else case scall se SUpdate (UpdateSchedule (se_now se)
                     \<lparr>usp_ScheduleID = cs_ScheduleID sc, usp_CronExpr = sq_CronExpr req, usp_Timezone = tz\<rparr>
                     (ss_table (sh_sched h))) of
                Inl e \<Rightarrow> ((if e = ErrNotFound then (404, SMsg ''schedule not found'') else (500, SMsg ''internal error'')), h)
              | Inr (updated, rows) \<Rightarrow>
                  ((200, SchedReply updated),
                   sh_reload api se (cs_ScheduleID sc) (h\<lparr>sh_sched := (sh_sched h)\<lparr>ss_table := rows\<rparr>\<rparr>)))))"

definition job_name :: "henv \<Rightarrow> string \<Rightarrow> 'c ScheduleHandler \<Rightarrow> string" where
  "job_name he jobID h = (case hcall he HGetJob (GetJob jobID (sh_jobs h)) of Inl e \<Rightarrow> '''' | Inr jd \<Rightarrow> j_Name (jd_Job jd))"

definition h_DeleteSchedule :: "'c cron_api \<Rightarrow> sched_env \<Rightarrow> henv \<Rightarrow> UserClaims option \<Rightarrow> string \<Rightarrow> 'c ScheduleHandler \<Rightarrow>
    (int \<times> sched_reply) \<times> 'c ScheduleHandler" where
  "h_DeleteSchedule api se he c scheduleID h =
     (case authorizeScheduleByID se he c scheduleID h of
        Inl r \<Rightarrow> (r, h)
      | Inr sc \<Rightarrow>
          (case scall se SDelete (DeleteSchedule (cs_ScheduleID sc) (ss_table (sh_sched h))) of
             Inl e \<Rightarrow> ((if e = ErrNotFound then (404, SMsg ''schedule not found'') else (500, SMsg ''internal error'')), h)
           | Inr rows \<Rightarrow>
               ((204, SNoContent),
                publishScheduleEvent TypeScheduleDeleted (cs_ScheduleID sc) (cs_JobID sc) (job_name he (cs_JobID sc) h)
                  (cs_CronExpr sc)
                  (h\<lparr>sh_sched := RemoveSchedule api (cs_ScheduleID sc) ((sh_sched h)\<lparr>ss_table := rows\<rparr>)\<rparr>))))"

definition setEnabled :: "'c cron_api \<Rightarrow> sched_env \<Rightarrow> henv \<Rightarrow> UserClaims option \<Rightarrow> string \<Rightarrow> bool \<Rightarrow> 'c ScheduleHandler \<Rightarrow>
    (int \<times> sched_reply) \<times> 'c ScheduleHandler" where
  "setEnabled api se he c scheduleID enabled h =
     (case authorizeScheduleByID se he c scheduleID h of
        Inl r \<Rightarrow> (r, h)
      | Inr sc \<Rightarrow>
          (case scall se SEnable (SetScheduleEnabled (se_now se) (cs_ScheduleID sc) enabled (ss_table (sh_sched h))) of
             Inl e \<Rightarrow> ((if e = ErrNotFound then (404, SMsg ''schedule not found'') else (500, SMsg ''internal error'')), h)
           | Inr rows \<Rightarrow>
               (let h1 = sh_reload api se (cs_ScheduleID sc) (h\<lparr>sh_sched := (sh_sched h)\<lparr>ss_table := rows\<rparr>\<rparr>)
                in case scall se SGet (GetSchedule (cs_ScheduleID sc) (ss_table (sh_sched h1))) of
                     Inl e \<Rightarrow> ((500, SMsg ''internal error''), h1)
                   | Inr result \<Rightarrow>
                       ((200, SchedReply result),
                        publishScheduleEvent (if enabled then TypeScheduleResumed else TypeSchedulePaused)
                          (cs_ScheduleID sc) (cs_JobID sc) (job_name he (cs_JobID sc) h1) (cs_CronExpr sc) h1))))"

definition PauseSchedule where "PauseSchedule api se he c scheduleID h = setEnabled api se he c scheduleID False h"
definition ResumeSchedule where "ResumeSchedule api se he c scheduleID h = setEnabled api se he c scheduleID True h"

text \<open>\<open>TriggerSchedule\<close>: the run creator, if configured, is the orchestrator with its state \<open>'o\<close>.\<close>

definition TriggerSchedule :: "sched_env \<Rightarrow> henv \<Rightarrow> UserClaims option \<Rightarrow> string \<Rightarrow>
    (string \<Rightarrow> string \<Rightarrow> 'o \<Rightarrow> (store_error + Run) \<times> 'o) option \<Rightarrow> 'c ScheduleHandler \<Rightarrow> 'o \<Rightarrow> (int \<times> sched_reply) \<times> 'o" where
  "TriggerSchedule se he c scheduleID runCreator h o' =
     (case authorizeScheduleByID se he c scheduleID h of
        Inl r \<Rightarrow> (r, o')
      | Inr sc \<Rightarrow>
          (case runCreator of
             None \<Rightarrow> ((500, SMsg ''run creator not configured''), o')
           | Some createRun \<Rightarrow>
               (case createRun (cs_JobID sc) ''manual_schedule'' o' of
                  (Inl e, o'') \<Rightarrow>
                    ((if e = ErrNotFound then (404, SMsg ''job not found'') else (500, SMsg ''failed to create run'')), o'')
                | (Inr run, o'') \<Rightarrow> ((201, RunReply run), o''))))"

end
