(* ===== verification/Scheduler_Props.thy ===== *)
theory Scheduler_Props
  imports Scheduler
begin

text \<open>
  The scheduler keeps the cron runner in step with the table: what is registered is enabled
  in the table, with the row's job, expression and time zone, and registered once. That
  holds for requests that do not overlap; two overlapping reloads break it. The last
  section composes the scheduler with the trigger subscriber.
\<close>

section \<open>The invariant\<close>

definition same_sched :: "CronSchedule \<Rightarrow> CronSchedule \<Rightarrow> bool" where
  "same_sched a b \<longleftrightarrow> cs_ScheduleID a = cs_ScheduleID b \<and> cs_JobID a = cs_JobID b \<and>
     cs_CronExpr a = cs_CronExpr b \<and> cs_Timezone a = cs_Timezone b"

definition tracked :: "'c cron_api \<Rightarrow> 'c Scheduler \<Rightarrow> bool" where
  "tracked api s \<longleftrightarrow>
     (\<forall>i sc. fmlookup (ca_funcs api (ss_cron s)) i = Some sc \<longrightarrow> fmlookup (ss_entries s) (cs_ScheduleID sc) = Some i) \<and>
     (\<forall>k i. fmlookup (ss_entries s) k = Some i \<longrightarrow>
        (\<exists>sc. fmlookup (ca_funcs api (ss_cron s)) i = Some sc \<and> cs_ScheduleID sc = k))"

definition sound :: "'c cron_api \<Rightarrow> 'c Scheduler \<Rightarrow> bool" where
  "sound api s \<longleftrightarrow>
     (\<forall>i sc. fmlookup (ca_funcs api (ss_cron s)) i = Some sc \<longrightarrow>
        (\<exists>row\<in>set (ss_table s). same_sched row sc \<and> cs_Enabled row))"

definition sched_inv :: "'c cron_api \<Rightarrow> 'c Scheduler \<Rightarrow> bool" where
  "sched_inv api s \<longleftrightarrow> distinct (sched_ids (ss_table s)) \<and> tracked api s \<and> sound api s"

lemmas sched_defs = sched_inv_def tracked_def sound_def

lemma tracked_entry: "tracked api s \<Longrightarrow> fmlookup (ca_funcs api (ss_cron s)) i = Some sc \<Longrightarrow>
    fmlookup (ss_entries s) (cs_ScheduleID sc) = Some i"
  by (simp add: tracked_def)

lemma tracked_func: "tracked api s \<Longrightarrow> fmlookup (ss_entries s) k = Some i \<Longrightarrow>
    \<exists>sc. fmlookup (ca_funcs api (ss_cron s)) i = Some sc \<and> cs_ScheduleID sc = k"
  by (simp add: tracked_def)

lemma update_rows_ids: "update_rows k f rows = Inr rows' \<Longrightarrow> (\<And>r. cs_ScheduleID (f r) = cs_ScheduleID r) \<Longrightarrow>
    sched_ids rows' = sched_ids rows"
  by (auto simp: update_rows_def split: if_splits)

lemma put_times_frame [simp]:
  "ss_cron (put_times se k l n s) = ss_cron s" "ss_entries (put_times se k l n s) = ss_entries s"
  by (simp_all add: put_times_def split: sum.splits)

text \<open>The timestamps are not part of what is registered.\<close>

lemma put_times_table:
  obtains g where "ss_table (put_times se k l n s) = map g (ss_table s)"
    and "\<And>r. same_sched (g r) r" and "\<And>r. cs_Enabled (g r) = cs_Enabled r"
proof -
  have "\<exists>g. ss_table (put_times se k l n s) = map g (ss_table s) \<and> (\<forall>r. same_sched (g r) r \<and> cs_Enabled (g r) = cs_Enabled r)"
  proof (cases "scall se STimestamps (UpdateScheduleTimestamps (se_now se) k l n (ss_table s))")
    case (Inl e)
    then show ?thesis by (intro exI [of _ id]) (simp add: put_times_def same_sched_def)
  next
    case (Inr rows)
    define g where "g = (\<lambda>r :: CronSchedule. if cs_ScheduleID r = k
       then if l = None then r\<lparr>cs_NextRunAt := n, cs_UpdatedAt := se_now se\<rparr>
            else r\<lparr>cs_LastTriggeredAt := l, cs_NextRunAt := n, cs_UpdatedAt := se_now se\<rparr> else r)"
    have "rows = map g (ss_table s)"
      using Inr by (auto simp: g_def UpdateScheduleTimestamps_def update_rows_def scall_def split: if_splits)
    then show ?thesis using Inr by (intro exI [of _ g]) (simp add: put_times_def same_sched_def g_def)
  qed
  then show thesis using that by blast
qed

lemma put_times_inv: "sched_inv api s \<Longrightarrow> sched_inv api (put_times se k l n s)"
proof -
  assume inv: "sched_inv api s"
  obtain g where g: "ss_table (put_times se k l n s) = map g (ss_table s)"
    "\<And>r. same_sched (g r) r" "\<And>r. cs_Enabled (g r) = cs_Enabled r"
    using put_times_table [of se k l n s] by metis
  have "sched_ids (map g (ss_table s)) = sched_ids (ss_table s)" using g(2) by (simp add: same_sched_def)
  moreover have "\<exists>row\<in>set (map g (ss_table s)). same_sched row sc \<and> cs_Enabled row"
    if "\<exists>row\<in>set (ss_table s). same_sched row sc \<and> cs_Enabled row" for sc
    using that g(2,3) by (auto simp: same_sched_def)
  ultimately show ?thesis
    using inv unfolding sched_inv_def tracked_def sound_def g(1) put_times_frame by presburger
qed

text \<open>After \<open>RemoveSchedule\<close> nothing is registered for the schedule, so its row may change.\<close>

lemma RemoveSchedule_inv:
  assumes laws: "cron_laws api" and inv: "sched_inv api s" and dist: "distinct (sched_ids rows)"
    and keep: "\<And>r. r \<in> set (ss_table s) \<Longrightarrow> cs_ScheduleID r \<noteq> k \<Longrightarrow> r \<in> set rows"
  shows "sched_inv api (RemoveSchedule api k (s\<lparr>ss_table := rows\<rparr>))"
    and "fmlookup (ss_entries (RemoveSchedule api k (s\<lparr>ss_table := rows\<rparr>))) k = None"
proof -
  let ?s = "RemoveSchedule api k (s\<lparr>ss_table := rows\<rparr>)" and ?F = "ca_funcs api (ss_cron s)"
  have rm: "ca_funcs api (ca_Remove api i c) = fmdrop i (ca_funcs api c)" for i c using laws by (simp add: cron_laws_def)
  have tr: "tracked api s" and so: "sound api s" using inv by (simp_all add: sched_inv_def)
  have funcs: "fmlookup (ca_funcs api (ss_cron ?s)) i = Some sc \<longleftrightarrow> fmlookup ?F i = Some sc \<and> cs_ScheduleID sc \<noteq> k" for i sc
  proof (cases "fmlookup (ss_entries s) k")
    case None
    then show ?thesis using tr by (auto simp: RemoveSchedule_def tracked_def)
  next
    case (Some e)
    then obtain sc' where sc': "fmlookup ?F e = Some sc'" "cs_ScheduleID sc' = k" using tr unfolding tracked_def by blast
    have look: "fmlookup (ca_funcs api (ss_cron ?s)) i = (if i = e then None else fmlookup ?F i)"
      by (simp add: RemoveSchedule_def rm Some)
    have "i = e" if "fmlookup ?F i = Some sc" "cs_ScheduleID sc = k"
      using tracked_entry [OF tr that(1)] that(2) Some by simp
    then show ?thesis unfolding look using sc' by (cases "i = e") auto
  qed
  have entries: "ss_entries ?s = fmdrop k (ss_entries s)" and table: "ss_table ?s = rows"
    by (auto simp: RemoveSchedule_def fmdrop_idle fmdom_notI split: option.splits)
  show "fmlookup (ss_entries ?s) k = None" by (simp add: entries)
  have "tracked api ?s"
    using tracked_entry [OF tr] tracked_func [OF tr] unfolding tracked_def funcs entries by (auto dest: sym) metis
  moreover have "sound api ?s" unfolding sound_def funcs table
  proof (intro allI impI)
    fix i sc assume "fmlookup ?F i = Some sc \<and> cs_ScheduleID sc \<noteq> k"
    then obtain row where "row \<in> set (ss_table s)" "same_sched row sc" "cs_Enabled row" "cs_ScheduleID sc \<noteq> k"
      using so by (auto simp: sound_def)
    then show "\<exists>row\<in>set rows. same_sched row sc \<and> cs_Enabled row" using keep by (auto simp: same_sched_def)
  qed
  ultimately show "sched_inv api ?s" using dist by (simp add: sched_inv_def table)
qed

lemma addEntryLocked_inv:
  assumes laws: "cron_laws api" and inv: "sched_inv api s" and add: "addEntryLocked api sc s = Inr (t, s')"
    and sc: "sc \<in> set (ss_table s)" "cs_Enabled sc" and free: "fmlookup (ss_entries s) (cs_ScheduleID sc) = None"
  shows "sched_inv api s'"
proof -
  obtain spec i c where c: "ca_AddFunc api spec sc (ss_cron s) = Some (i, c)"
    and s': "s' = s\<lparr>ss_cron := c, ss_entries := fmupd (cs_ScheduleID sc) i (ss_entries s)\<rparr>"
    using add by (auto simp: addEntryLocked_def Let_def split: if_splits option.splits)
  have F: "fmlookup (ca_funcs api (ss_cron s)) i = None" "ca_funcs api c = fmupd i sc (ca_funcs api (ss_cron s))"
    using laws c by (auto simp: cron_laws_def)
  have "tracked api s" using inv by (simp add: sched_inv_def)
  note tr = tracked_entry [OF this] tracked_func [OF this]
  have "tracked api s'" unfolding tracked_def s'
  proof (intro conjI allI impI)
    fix j x assume "fmlookup (ca_funcs api (ss_cron (s\<lparr>ss_cron := c, ss_entries := fmupd (cs_ScheduleID sc) i (ss_entries s)\<rparr>))) j = Some x"
    then have "j = i \<and> x = sc \<or> j \<noteq> i \<and> fmlookup (ca_funcs api (ss_cron s)) j = Some x" by (auto simp: F split: if_splits)
    then show "fmlookup (ss_entries (s\<lparr>ss_cron := c, ss_entries := fmupd (cs_ScheduleID sc) i (ss_entries s)\<rparr>)) (cs_ScheduleID x) = Some j"
      using tr(1) free by auto
  next
    fix k j assume "fmlookup (ss_entries (s\<lparr>ss_cron := c, ss_entries := fmupd (cs_ScheduleID sc) i (ss_entries s)\<rparr>)) k = Some j"
    then show "\<exists>x. fmlookup (ca_funcs api (ss_cron (s\<lparr>ss_cron := c, ss_entries := fmupd (cs_ScheduleID sc) i (ss_entries s)\<rparr>))) j = Some x \<and> cs_ScheduleID x = k"
      using tr(2) [of k j] F by (auto split: if_splits)
  qed
  moreover have "sound api s'" using inv sc F by (auto simp: s' sched_defs same_sched_def)
  ultimately show ?thesis using inv by (simp add: sched_inv_def s')
qed

lemma reload_register_inv:
  assumes laws: "cron_laws api" and inv: "sched_inv api s"
    and sc: "sc \<in> set (ss_table s)" "cs_Enabled sc" and free: "fmlookup (ss_entries s) (cs_ScheduleID sc) = None"
  shows "sched_inv api (snd (reload_register api se sc s))"
  using addEntryLocked_inv [OF laws inv _ sc free] put_times_inv inv
  by (auto simp: reload_register_def split: sum.splits prod.splits)

lemma GetSchedule_Inr: "GetSchedule k rows = Inr sc \<Longrightarrow> sc \<in> set rows \<and> cs_ScheduleID sc = k"
  by (auto simp: GetSchedule_def find_Some_iff split: option.splits)

lemma scall_Inr [simp]: "scall se c r = Inr x \<longleftrightarrow> \<not> se_fault se c \<and> r = Inr x"
  by (simp add: scall_def)

lemma ReloadSchedule_inv:
  assumes laws: "cron_laws api" and inv: "sched_inv api s" and dist: "distinct (sched_ids rows)"
    and keep: "\<And>r. r \<in> set (ss_table s) \<Longrightarrow> cs_ScheduleID r \<noteq> k \<Longrightarrow> r \<in> set rows"
  shows "sched_inv api (snd (ReloadSchedule api se k (s\<lparr>ss_table := rows\<rparr>)))"
proof -
  note rem = RemoveSchedule_inv [OF laws inv dist keep, of k, simplified]
  let ?s = "RemoveSchedule api k (s\<lparr>ss_table := rows\<rparr>)"
  show ?thesis
  proof (cases "scall se SGet (GetSchedule k (ss_table ?s))")
    case (Inr sc)
    then have sc: "sc \<in> set (ss_table ?s)" "cs_ScheduleID sc = k" using GetSchedule_Inr by auto
    then show ?thesis using rem reload_register_inv [OF laws rem(1) sc(1)]
      unfolding ReloadSchedule_def Let_def Inr by simp
  qed (use rem in \<open>simp add: ReloadSchedule_def Let_def\<close>)
qed


section \<open>Start and the requests\<close>

lemma addEntryLocked_frame:
  "addEntryLocked api sc s = Inr (t, s') \<Longrightarrow> ss_table s' = ss_table s \<and>
     (\<forall>k. k \<noteq> cs_ScheduleID sc \<longrightarrow> fmlookup (ss_entries s') k = fmlookup (ss_entries s) k)"
  by (auto simp: addEntryLocked_def Let_def split: if_splits option.splits)

lemma load_loop_inv:
  assumes "cron_laws api" and "sched_inv api s" and "load_loop api scs upd s = (upd', s')"
    and "distinct (sched_ids scs)" and "set scs \<subseteq> set (ss_table s)"
    and "\<forall>sc\<in>set scs. cs_Enabled sc \<and> fmlookup (ss_entries s) (cs_ScheduleID sc) = None"
  shows "sched_inv api s'"
  using assms(2-)
proof (induction scs arbitrary: upd s)
  case (Cons sc scs)
  show ?case
  proof (cases "addEntryLocked api sc s")
    case (Inl e)
    then show ?thesis using Cons.IH [of s upd] Cons.prems by simp
  next
    case (Inr p)
    obtain t s1 where p: "p = (t, s1)" by force
    have inv: "sched_inv api s1"
      using addEntryLocked_inv [OF assms(1) Cons.prems(1) Inr [unfolded p]] Cons.prems by simp
    note frame = addEntryLocked_frame [OF Inr [unfolded p]]
    have "\<forall>x\<in>set scs. cs_Enabled x \<and> fmlookup (ss_entries s1) (cs_ScheduleID x) = None"
      using frame Cons.prems(3,5) by (metis image_eqI list.set_intros(2) list.simps(9) distinct.simps(2) set_map)
    then show ?thesis
      using Cons.IH [OF inv, of "if t = None then upd else upd @ [(cs_ScheduleID sc, t)]"] Cons.prems frame Inr p by auto
  qed
qed simp

lemma ListEnabledSchedules_props:
  assumes "distinct (sched_ids rows)"
  shows "distinct (sched_ids (ListEnabledSchedules rows))" and "set (ListEnabledSchedules rows) = {r \<in> set rows. cs_Enabled r}"
proof -
  show set: "set (ListEnabledSchedules rows) = {r \<in> set rows. cs_Enabled r}" by (auto simp: ListEnabledSchedules_def Let_def)
  have "distinct (ListEnabledSchedules rows)"
    using assms by (auto simp: ListEnabledSchedules_def Let_def distinct_map distinct_sort)
  then show "distinct (sched_ids (ListEnabledSchedules rows))"
    using assms by (auto simp: distinct_map set inj_on_def)
qed

lemma sched_Start_inv:
  assumes laws: "cron_laws api" and dist: "distinct (sched_ids rows)"
  shows "sched_inv api (snd (sched_Start api se (NewScheduler api rows)))"
proof -
  let ?s = "NewScheduler api rows"
  have inv: "sched_inv api ?s" using laws dist by (simp add: sched_defs NewScheduler_def cron_laws_def)
  obtain upd s1 where ld: "load_loop api (ListEnabledSchedules rows) [] ?s = (upd, s1)" by force
  have "sched_inv api s1"
    by (rule load_loop_inv [OF laws inv ld])
      (use ListEnabledSchedules_props [OF dist] in \<open>auto simp: NewScheduler_def\<close>)
  then have "sched_inv api (fold (\<lambda>(i, t). put_times se i None t) upd s1)"
    by (induction upd arbitrary: s1) (auto intro: put_times_inv split: prod.splits)
  moreover have "sched_inv api (s\<lparr>ss_cron := ca_Start api (ss_cron s)\<rparr>) = sched_inv api s" for s
    using laws by (simp add: sched_defs cron_laws_def)
  ultimately show ?thesis using ld inv
    by (auto simp: sched_Start_def Let_def scall_def NewScheduler_def)
qed

inductive sched_step :: "'c cron_api \<Rightarrow> 'c ScheduleHandler \<Rightarrow> 'c ScheduleHandler \<Rightarrow> bool" for api :: "'c cron_api" where
  sched_create: "h_CreateSchedule api se he c jobID body h = (r, h') \<Longrightarrow> sched_step api h h'"
| sched_update: "h_UpdateSchedule api se he c scheduleID body h = (r, h') \<Longrightarrow> sched_step api h h'"
| sched_delete: "h_DeleteSchedule api se he c scheduleID h = (r, h') \<Longrightarrow> sched_step api h h'"
| sched_pause: "PauseSchedule api se he c scheduleID h = (r, h') \<Longrightarrow> sched_step api h h'"
| sched_resume: "ResumeSchedule api se he c scheduleID h = (r, h') \<Longrightarrow> sched_step api h h'"
| sched_fire: "fmlookup (ca_funcs api (ss_cron (sh_sched h))) i = Some sc \<Longrightarrow>
    sched_step api h (h\<lparr>sh_sched := buildFuncJob api se sc (sh_sched h)\<rparr>)"
| sched_stop: "sched_step api h (h\<lparr>sh_sched := sched_Stop api (sh_sched h)\<rparr>)"

definition sched_init :: "'c cron_api \<Rightarrow> 'c ScheduleHandler \<Rightarrow> bool" where
  "sched_init api h \<longleftrightarrow> (\<exists>rows se. distinct (sched_ids rows) \<and> sh_sched h = snd (sched_Start api se (NewScheduler api rows)))"

lemma publishScheduleEvent_sched [simp]: "sh_sched (publishScheduleEvent a b c d e h) = sh_sched h"
  by (simp add: publishScheduleEvent_def)

lemma update_rows_keep:
  assumes "update_rows k f rows = Inr rows'" and "\<And>r. cs_ScheduleID (f r) = cs_ScheduleID r" and "distinct (sched_ids rows)"
  shows "distinct (sched_ids rows')" and "\<And>r. r \<in> set rows \<Longrightarrow> cs_ScheduleID r \<noteq> k \<Longrightarrow> r \<in> set rows'"
  using assms update_rows_ids [OF assms(1,2)] by (auto simp: update_rows_def split: if_splits)

lemma setEnabled_sched_inv:
  assumes laws: "cron_laws api" and inv: "sched_inv api (sh_sched h)" and en: "setEnabled api se he c k b h = (r, h')"
  shows "sched_inv api (sh_sched h')"
proof (cases "h' = h")
  case False
  obtain sc where sc: "authorizeScheduleByID se he c k h = Inr sc"
    using en False by (cases "authorizeScheduleByID se he c k h") (auto simp: setEnabled_def)
  obtain rows where rows: "SetScheduleEnabled (se_now se) (cs_ScheduleID sc) b (ss_table (sh_sched h)) = Inr rows"
    and h': "sh_sched h' = snd (ReloadSchedule api se (cs_ScheduleID sc) ((sh_sched h)\<lparr>ss_table := rows\<rparr>))"
    using en False sc by (auto simp: setEnabled_def sh_reload_def Let_def split: sum.splits if_splits)
  have dist: "distinct (sched_ids (ss_table (sh_sched h)))" using inv by (simp add: sched_inv_def)
  obtain f where f: "update_rows (cs_ScheduleID sc) f (ss_table (sh_sched h)) = Inr rows" "\<And>r. cs_ScheduleID (f r) = cs_ScheduleID r"
    using rows by (cases b) (auto simp: SetScheduleEnabled_def)
  show ?thesis unfolding h' by (rule ReloadSchedule_inv [OF laws inv update_rows_keep [OF f dist]])
qed (use inv in simp)


lemma CreateSchedule_sched_inv:
  assumes laws: "cron_laws api" and inv: "sched_inv api (sh_sched h)"
    and cr: "h_CreateSchedule api se he c jobID body h = (r, h')"
  shows "sched_inv api (sh_sched h')"
proof (cases "h' = h")
  case False
  have "h' = h \<or> (\<exists>created rows p. CreateSchedule (se_uid se) (se_now se) (sh_jobs h) p (ss_table (sh_sched h)) = Inr (created, rows) \<and>
    sh_sched h' = snd (ReloadSchedule api se (cs_ScheduleID created) ((sh_sched h)\<lparr>ss_table := rows\<rparr>)))"
    using cr by (auto simp: h_CreateSchedule_def sh_reload_def split: option.splits sum.splits if_splits prod.splits) blast
  then obtain created rows p where cr': "CreateSchedule (se_uid se) (se_now se) (sh_jobs h) p (ss_table (sh_sched h)) = Inr (created, rows)"
    and h': "sh_sched h' = snd (ReloadSchedule api se (cs_ScheduleID created) ((sh_sched h)\<lparr>ss_table := rows\<rparr>))"
    using False by blast
  have "rows = ss_table (sh_sched h) @ [created]" "cs_ScheduleID created \<notin> set (sched_ids (ss_table (sh_sched h)))"
    using cr' by (auto simp: CreateSchedule_def Let_def split: if_splits)
  then show ?thesis unfolding h' by (intro ReloadSchedule_inv [OF laws inv]) (use inv in \<open>auto simp: sched_inv_def\<close>)
qed (use inv in simp)

lemma UpdateSchedule_sched_inv:
  assumes laws: "cron_laws api" and inv: "sched_inv api (sh_sched h)"
    and up: "h_UpdateSchedule api se he c k body h = (r, h')"
  shows "sched_inv api (sh_sched h')"
proof (cases "h' = h")
  case False
  have "h' = h \<or> (\<exists>updated rows p. UpdateSchedule (se_now se) p (ss_table (sh_sched h)) = Inr (updated, rows) \<and>
    sh_sched h' = snd (ReloadSchedule api se (usp_ScheduleID p) ((sh_sched h)\<lparr>ss_table := rows\<rparr>)))"
    using up
    by (auto simp: h_UpdateSchedule_def sh_reload_def Let_def split: option.splits sum.splits if_splits prod.splits)
      (metis UpdateScheduleParams.select_convs(1))+
  then obtain updated rows p where up': "UpdateSchedule (se_now se) p (ss_table (sh_sched h)) = Inr (updated, rows)"
    and h': "sh_sched h' = snd (ReloadSchedule api se (usp_ScheduleID p) ((sh_sched h)\<lparr>ss_table := rows\<rparr>))"
    using False by blast
  have dist: "distinct (sched_ids (ss_table (sh_sched h)))" using inv by (simp add: sched_inv_def)
  obtain f where f: "update_rows (usp_ScheduleID p) f (ss_table (sh_sched h)) = Inr rows" "\<And>r. cs_ScheduleID (f r) = cs_ScheduleID r"
    using up' by (auto simp: UpdateSchedule_def split: sum.splits)
  show ?thesis unfolding h' by (rule ReloadSchedule_inv [OF laws inv update_rows_keep [OF f dist]])
qed (use inv in simp)

lemma DeleteSchedule_sched_inv:
  assumes laws: "cron_laws api" and inv: "sched_inv api (sh_sched h)"
    and del: "h_DeleteSchedule api se he c k h = (r, h')"
  shows "sched_inv api (sh_sched h')"
proof -
  have "h' = h \<or> (\<exists>k rows. DeleteSchedule k (ss_table (sh_sched h)) = Inr rows \<and>
    sh_sched h' = RemoveSchedule api k ((sh_sched h)\<lparr>ss_table := rows\<rparr>))"
    using del by (auto simp: h_DeleteSchedule_def split: sum.splits) blast
  moreover have "sched_inv api (RemoveSchedule api k ((sh_sched h)\<lparr>ss_table := rows\<rparr>))"
    if "DeleteSchedule k (ss_table (sh_sched h)) = Inr rows" for k rows
    by (rule RemoveSchedule_inv [OF laws inv])
      (use that inv in \<open>auto simp: DeleteSchedule_def sched_inv_def distinct_map_filter split: if_splits\<close>)
  ultimately show ?thesis using inv by auto
qed

lemma buildFuncJob_inv: "sched_inv api s \<Longrightarrow> sched_inv api (buildFuncJob api se sc s)"
  unfolding buildFuncJob_def Let_def by (rule put_times_inv) (simp add: sched_defs)

interpretation sched_system: invariant_system "sched_init api" "sched_step api"
  "\<lambda>h. cron_laws api \<longrightarrow> sched_inv api (sh_sched h)" for api
proof
  fix h assume "sched_init api h"
  then show "cron_laws api \<longrightarrow> sched_inv api (sh_sched h)" by (auto simp: sched_init_def sched_Start_inv)
next
  fix h h' assume inv: "cron_laws api \<longrightarrow> sched_inv api (sh_sched h)" and "sched_step api h h'"
  from this(2) show "cron_laws api \<longrightarrow> sched_inv api (sh_sched h')"
  proof cases
    case sched_stop
    then show ?thesis using inv by (auto simp: sched_Stop_def sched_defs cron_laws_def)
  qed (use inv in \<open>auto simp: PauseSchedule_def ResumeSchedule_def intro: CreateSchedule_sched_inv UpdateSchedule_sched_inv
      DeleteSchedule_sched_inv setEnabled_sched_inv buildFuncJob_inv\<close>)
qed



text \<open>A cron runner that keeps its entries in a map and accepts every specification.\<close>

definition fresh_entry :: "(nat, CronSchedule) fmap \<Rightarrow> nat" where
  "fresh_entry m = Max (insert 0 (Suc ` fmdom' m))"

definition cron0 :: "(nat, CronSchedule) fmap cron_api" where
  "cron0 = \<lparr>ca_New = fmempty, ca_AddFunc = (\<lambda>spec f m. Some (fresh_entry m, fmupd (fresh_entry m) f m)),
            ca_Remove = fmdrop, ca_Next = (\<lambda>i m. if fmlookup m i = None then None else Some 60),
            ca_Start = (\<lambda>m. m), ca_Stop = (\<lambda>m. m), ca_funcs = (\<lambda>m. m),
            ca_Parse = (\<lambda>e. e \<noteq> ''''), ca_LoadLocation = (\<lambda>_. True)\<rparr>"

lemma cron0_laws: "cron_laws cron0"
proof -
  have "fmlookup m (fresh_entry m) = None" for m :: "(nat, CronSchedule) fmap"
  proof (rule ccontr)
    assume "fmlookup m (fresh_entry m) \<noteq> None"
    then have "Suc (fresh_entry m) \<in> insert 0 (Suc ` fmdom' m)" by (auto simp: fmlookup_dom'_iff)
    then have "Suc (fresh_entry m) \<le> fresh_entry m" unfolding fresh_entry_def by (intro Max_ge) auto
    then show False by simp
  qed
  then show ?thesis by (simp add: cron_laws_def cron0_def)
qed

definition sched_k :: CronSchedule where
  "sched_k = \<lparr>cs_ScheduleID = ''k'', cs_JobID = ''j'', cs_CronExpr = ''@hourly'', cs_Timezone = ''UTC'', cs_Enabled = True,
              cs_NextRunAt = None, cs_LastTriggeredAt = None, cs_CreatedAt = 1, cs_UpdatedAt = 1\<rparr>"

definition se0 :: sched_env where
  "se0 = \<lparr>se_now = 9, se_uid = ''e'', se_fault = (\<lambda>_. False), se_format = (\<lambda>_. ''now'')\<rparr>"

definition sh0 :: "(nat, CronSchedule) fmap ScheduleHandler" where
  "sh0 = \<lparr>sh_sched = snd (sched_Start cron0 se0 (NewScheduler cron0 [sched_k])), sh_jobs = empty_db [] [],
          sh_publisher = False, sh_published = []\<rparr>"


text \<open>
  Two overlapping reloads of one schedule, as two concurrent updates cause: both remove the
  old entry before either registers the new one. The schedule is then registered twice, and
  after it is removed one entry keeps firing.
\<close>

lemma overlapping_reloads_leak:
  "let s0 = sh_sched sh0;
       s1 = RemoveSchedule cron0 ''k'' (RemoveSchedule cron0 ''k'' s0);
       s2 = snd (reload_register cron0 se0 sched_k (snd (reload_register cron0 se0 sched_k s1)));
       s3 = RemoveSchedule cron0 ''k'' s2
   in map_option cs_ScheduleID (fmlookup (ca_funcs cron0 (ss_cron s3)) 0) = Some ''k'' \<and> fmlookup (ss_entries s3) ''k'' = None"
  by code_simp

section \<open>Schedules and triggers\<close>

text \<open>
  A cron schedule cannot start its own job. The event that a schedule publishes when it
  fires names the schedule's job, and the trigger subscriber, the only consumer of such
  events that starts runs, skips every trigger of the job an event names: whatever triggers
  exist, no run of that job is created.
\<close>

theorem schedule_never_starts_its_job:
  assumes "cs_JobID sc \<noteq> ''''"
  shows "(cs_JobID sc, ty) \<notin> set (snd (trigger_handler unmarshal log_run (Inr (ListEnabledTriggers rows)) (cron_event se sc) []))"
  using named_job_not_started [of "cron_event se sc" "cs_JobID sc" ty unmarshal "ListEnabledTriggers rows"] assms
  by (simp add: trigger_handler_def cron_event_def strings_lookup)

definition trig_cron :: "string \<Rightarrow> trigger_row" where
  "trig_cron jobID = trig_all\<lparr>tc_job_id := jobID, tc_event_type := ''trigger.cron''\<rparr>"

theorem schedule_never_starts_its_job_witness:
  "(''j'', ''event_trigger'') \<notin> set (snd (trigger_handler (\<lambda>_. None) log_run
      (Inr (ListEnabledTriggers [trig_cron ''j'', trig_cron ''i''])) (cron_event se0 sched_k) [])) \<and>
   snd (trigger_handler (\<lambda>_. None) log_run
      (Inr (ListEnabledTriggers [trig_cron ''j'', trig_cron ''i''])) (cron_event se0 sched_k) []) = [(''i'', ''event_trigger'')]"
proof -
  have "cs_JobID sched_k = ''j''" by (simp add: sched_k_def)
  then have "(''j'', ''event_trigger'') \<notin> set (snd (trigger_handler (\<lambda>_. None) log_run
      (Inr (ListEnabledTriggers [trig_cron ''j'', trig_cron ''i''])) (cron_event se0 sched_k) []))"
    using schedule_never_starts_its_job [of sched_k] by simp
  moreover have "snd (trigger_handler (\<lambda>_. None) log_run
      (Inr (ListEnabledTriggers [trig_cron ''j'', trig_cron ''i''])) (cron_event se0 sched_k) []) = [(''i'', ''event_trigger'')]"
    by code_simp
  ultimately show ?thesis by blast
qed

end
