(* ===== verification/Idle_Detector.thy ===== *)
theory Idle_Detector
  imports Prelude Go_Strings "HOL-Library.Char_ord"
begin

text \<open>
  \<open>internal/agent/idle_detector.go\<close>: when a CLI session waits for input. The first part is
  the classification of terminal output, proved equivalent to a description of the escape
  sequences it looks for; the second part is the detector with its two timers.

  A timer is absent (\<open>None\<close>), armed or dead. A timer that fires starts its callback, which
  then waits for the detector's lock: \<open>id_waiting\<close> holds those callbacks. \<open>id_log\<close>
  records the calls of \<open>onIdle\<close> and \<open>onActive\<close>, in the order of the decisions made under
  the lock.
\<close>

section \<open>Escape sequences\<close>

abbreviation ESC :: char where "ESC \<equiv> CHR 0x1B"

definition cursorSave :: string where "cursorSave = [ESC, CHR ''7'']"
definition cursorRestore :: string where "cursorRestore = [ESC, CHR ''8'']"
definition csiPrefix :: string where "csiPrefix = [ESC, CHR ''['']"

definition is_param :: "char \<Rightarrow> bool" where
  "is_param c \<longleftrightarrow> (CHR ''0'' \<le> c \<and> c \<le> CHR ''9'') \<or> c = CHR '';''"

definition is_move :: "char \<Rightarrow> bool" where
  "is_move c \<longleftrightarrow> c \<in> set ''ABCDHfJK''"

text \<open>The inner loop: the index after the digits and semicolons.\<close>

function skip_params :: "string \<Rightarrow> nat \<Rightarrow> nat" where
  "skip_params data i = (if i < length data \<and> is_param (data ! i) then skip_params data (Suc i) else i)"
  by auto
termination by (relation "measure (\<lambda>(data, i). length data - i)") auto

declare skip_params.simps [simp del]

lemma Index_csi_length: "Index (drop idx data) csiPrefix = Some pos \<Longrightarrow> idx + pos + 2 \<le> length data"
proof -
  assume a: "Index (drop idx data) csiPrefix = Some pos"
  then obtain b where "drop idx data = take pos (drop idx data) @ csiPrefix @ b" "length (take pos (drop idx data)) = pos"
    using Index_Some by blast
  then have "length data - idx = pos + (2 + length b)"
    by (metis csiPrefix_def length_append length_drop list.size(3,4) One_nat_def Suc_1 plus_1_eq_Suc add_0)
  moreover have "idx < length data" using a by (auto simp: csiPrefix_def intro: ccontr)
  ultimately show ?thesis by linarith
qed

function csi_loop :: "string \<Rightarrow> nat \<Rightarrow> bool" where
  "csi_loop data idx =
     (case Index (drop idx data) csiPrefix of
        None \<Rightarrow> False
      | Some pos \<Rightarrow>
          (let seqStart = idx + pos + length csiPrefix;
               i = skip_params data seqStart
           in if i < length data \<and> is_move (data ! i) then True else csi_loop data seqStart))"
  by auto
termination
  by (relation "measure (\<lambda>(data, idx). length data - idx)")
    (use Index_csi_length in \<open>fastforce simp: csiPrefix_def\<close>)+

declare csi_loop.simps [simp del]

definition isRepositioningNoise :: "string \<Rightarrow> bool" where
  "isRepositioningNoise data =
     (if Contains data cursorSave \<or> Contains data cursorRestore then True else csi_loop data 0)"

section \<open>What is noise\<close>

text \<open>Cursor movement or erasure: a CSI sequence with parameters that ends in a movement command.\<close>

definition moves_cursor :: "string \<Rightarrow> bool" where
  "moves_cursor data \<longleftrightarrow> (\<exists>a ps c b. data = a @ csiPrefix @ ps @ c # b \<and> list_all is_param ps \<and> is_move c)"

lemma skip_params_takeWhile: "i \<le> length data \<Longrightarrow> skip_params data i = i + length (takeWhile is_param (drop i data))"
proof (induction data i rule: skip_params.induct)
  case (1 data i)
  show ?case
  proof (cases "i < length data \<and> is_param (data ! i)")
    case True
    then have "drop i data = data ! i # drop (Suc i) data" by (simp add: Cons_nth_drop_Suc)
    then show ?thesis using 1 True by (subst skip_params.simps) simp
  next
    case False
    have "takeWhile is_param (drop i data) = []"
    proof (cases "i < length data")
      case True
      then have "drop i data = data ! i # drop (Suc i) data" by (simp add: Cons_nth_drop_Suc)
      then show ?thesis using False True by simp
    qed simp
    then show ?thesis using False by (subst skip_params.simps) auto
  qed
qed

lemma move_not_param: "is_move c \<Longrightarrow> \<not> is_param c"
  by (auto simp: is_move_def is_param_def less_eq_char_def)

text \<open>What the body of the loop tests at the start of a sequence.\<close>

lemma move_at:
  assumes "s \<le> length data"
  shows "(skip_params data s < length data \<and> is_move (data ! skip_params data s)) \<longleftrightarrow>
    (\<exists>ps c b. drop s data = ps @ c # b \<and> list_all is_param ps \<and> is_move c)"
proof -
  let ?t = "takeWhile is_param (drop s data)" and ?i = "skip_params data s"
  have i: "?i = s + length ?t" using assms by (rule skip_params_takeWhile)
  have split: "drop s data = ?t @ drop (length ?t) (drop s data)"
    by (metis dropWhile_eq_drop takeWhile_dropWhile_id)
  have rest: "drop (length ?t) (drop s data) = drop ?i data" by (simp add: i add.commute)
  show ?thesis
  proof
    assume a: "?i < length data \<and> is_move (data ! ?i)"
    then have "drop s data = ?t @ data ! ?i # drop (Suc ?i) data" using split rest by (simp add: Cons_nth_drop_Suc)
    moreover have "list_all is_param ?t" by (auto simp: list_all_iff dest: set_takeWhileD)
    ultimately show "\<exists>ps c b. drop s data = ps @ c # b \<and> list_all is_param ps \<and> is_move c" using a by blast
  next
    assume "\<exists>ps c b. drop s data = ps @ c # b \<and> list_all is_param ps \<and> is_move c"
    then obtain ps c b where c: "drop s data = ps @ c # b" "list_all is_param ps" "is_move c" by blast
    then have "?t = ps" using move_not_param by (auto simp: list_all_iff takeWhile_append2)
    then have "drop ?i data = c # b" using split rest c(1) by (metis append_same_eq append_eq_append_conv)
    then show "?i < length data \<and> is_move (data ! ?i)" using c(3) by (metis nth_via_drop drop_all list.distinct(1) not_less)
  qed
qed

lemma csi_loop_iff: "csi_loop data idx \<longleftrightarrow> moves_cursor (drop idx data)"
proof (induction data idx rule: csi_loop.induct)
  case (1 data idx)
  show ?case
  proof (cases "Index (drop idx data) csiPrefix")
    case None
    then show ?thesis using Index_None by (subst csi_loop.simps) (auto simp: moves_cursor_def)
  next
    case (Some pos)
    let ?s = "idx + pos + length csiPrefix" and ?d = "drop idx data"
    have le: "?s \<le> length data" using Index_csi_length [OF Some] by (simp add: csiPrefix_def)
    obtain b0 where b0: "?d = take pos ?d @ csiPrefix @ b0" "length (take pos ?d) = pos" using Index_Some [OF Some] by blast
    have rest: "drop ?s data = b0"
      using b0 by (metis add.commute append_eq_conv_conj drop_drop)
    have "moves_cursor ?d \<longleftrightarrow> (\<exists>ps c b. drop ?s data = ps @ c # b \<and> list_all is_param ps \<and> is_move c) \<or> moves_cursor (drop ?s data)"
      (is "?l \<longleftrightarrow> ?here \<or> ?later")
    proof
      assume ?l
      then obtain a ps c b where d: "?d = a @ csiPrefix @ ps @ c # b" "list_all is_param ps" "is_move c"
        by (auto simp: moves_cursor_def)
      then have "pos \<le> length a" using Index_first [OF Some, of a "ps @ c # b"] by simp
      then obtain a' where a: "a = take pos ?d @ a'"
        using d(1) by (metis append_eq_append_conv_if append_take_drop_id take_all_iff take_append diff_is_0_eq append.right_neutral take0)
      then have eq: "a' @ csiPrefix @ ps @ c # b = csiPrefix @ b0" using d(1) b0(1) by (metis append.assoc same_append_eq)
      show "?here \<or> ?later"
      proof (cases a')
        case Nil
        then show ?thesis using eq d(2,3) rest by auto
      next
        case (Cons x a1)
        then obtain a2 where "a' = csiPrefix @ a2" using eq by (cases a1) (auto simp: csiPrefix_def)
        then have "b0 = a2 @ csiPrefix @ ps @ c # b" using eq by simp
        then show ?thesis using d(2,3) rest unfolding moves_cursor_def by blast
      qed
    next
      assume "?here \<or> ?later"
      then show ?l
      proof
        assume ?here
        then show ?l using b0(1) rest unfolding moves_cursor_def by metis
      next
        assume ?later
        then obtain a ps c b where "drop ?s data = a @ csiPrefix @ ps @ c # b" "list_all is_param ps" "is_move c"
          by (auto simp: moves_cursor_def)
        then have "?d = (take pos ?d @ csiPrefix @ a) @ csiPrefix @ ps @ c # b" using b0(1) rest by simp
        then show ?l using \<open>list_all is_param ps\<close> \<open>is_move c\<close> unfolding moves_cursor_def by blast
      qed
    qed
    then show ?thesis using 1 [OF Some refl refl] move_at [OF le] Some
      by (subst csi_loop.simps) (auto simp: Let_def)
  qed
qed


text \<open>
  The scan for cursor repositioning terminates on every input and finds exactly what its
  comment describes: a chunk is noise when it contains a save or restore of the cursor, or a
  CSI sequence of digits and semicolons that ends in a cursor movement or erase command.
  Colour codes are never noise by themselves.
\<close>

theorem noise_iff:
  "isRepositioningNoise data \<longleftrightarrow>
     (\<exists>a b. data = a @ cursorSave @ b) \<or> (\<exists>a b. data = a @ cursorRestore @ b) \<or>
     (\<exists>a ps c b. data = a @ csiPrefix @ ps @ c # b \<and> list_all is_param ps \<and> is_move c)"
  by (simp add: isRepositioningNoise_def Contains_iff csi_loop_iff moves_cursor_def)

section \<open>The detector\<close>

datatype callback = CbStartup | CbSilence
datatype call = OnIdle | OnActive

record IdleDetector =
  id_minActivityBytes :: int
  id_onActive :: bool
  id_timer :: "bool option"
  id_startupTimer :: "bool option"
  id_isIdle :: bool
  id_outputSeen :: bool
  id_stopped :: bool
  id_noiseLogged :: bool
  id_waiting :: "callback list"
  id_log :: "call list"

definition DefaultMinActivityBytes :: int where "DefaultMinActivityBytes = 10"

text \<open>The options, \<open>WithMinActivityBytes n\<close> among them, are given by their effect; the durations
  of the timers do not occur in the model.\<close>

definition WithMinActivityBytes :: "int \<Rightarrow> IdleDetector \<Rightarrow> IdleDetector" where
  "WithMinActivityBytes n d = (if n > 0 then d\<lparr>id_minActivityBytes := n\<rparr> else d)"

definition NewIdleDetector :: "bool \<Rightarrow> (IdleDetector \<Rightarrow> IdleDetector) list \<Rightarrow> IdleDetector" where
  "NewIdleDetector onActive opts =
     fold (\<lambda>opt d. opt d) opts
       \<lparr>id_minActivityBytes = DefaultMinActivityBytes, id_onActive = onActive, id_timer = None, id_startupTimer = None,
        id_isIdle = False, id_outputSeen = False, id_stopped = False, id_noiseLogged = False, id_waiting = [], id_log = []\<rparr>"

definition detector_Start :: "IdleDetector \<Rightarrow> IdleDetector" where
  "detector_Start d =
     d\<lparr>id_stopped := False, id_isIdle := False, id_outputSeen := False, id_noiseLogged := False,
       id_startupTimer := Some True\<rparr>"

definition stop_timer :: "bool option \<Rightarrow> bool option" where
  "stop_timer t = map_option (\<lambda>_. False) t"

definition detector_Stop :: "IdleDetector \<Rightarrow> IdleDetector" where
  "detector_Stop d = d\<lparr>id_stopped := True, id_timer := stop_timer (id_timer d), id_startupTimer := stop_timer (id_startupTimer d)\<rparr>"

definition Feed :: "string \<Rightarrow> IdleDetector \<Rightarrow> IdleDetector" where
  "Feed data d =
     (if id_stopped d then d
      else if int (length data) < id_minActivityBytes d then d
      else if isRepositioningNoise data then d\<lparr>id_noiseLogged := True\<rparr>
      else
        let d = (if \<not> id_outputSeen d then d\<lparr>id_outputSeen := True, id_startupTimer := stop_timer (id_startupTimer d)\<rparr> else d);
            d = d\<lparr>id_timer := Some True\<rparr>;
            wasIdle = id_isIdle d;
            d = (if wasIdle then d\<lparr>id_isIdle := False, id_noiseLogged := False\<rparr> else d)
        in if wasIdle \<and> id_onActive d then d\<lparr>id_log := id_log d @ [OnActive]\<rparr> else d)"

text \<open>An armed timer fires: its callback starts and waits for the lock.\<close>

definition fire_startup :: "IdleDetector \<Rightarrow> IdleDetector option" where
  "fire_startup d =
     (if id_startupTimer d = Some True
      then Some (d\<lparr>id_startupTimer := Some False, id_waiting := id_waiting d @ [CbStartup]\<rparr>) else None)"

definition fire_silence :: "IdleDetector \<Rightarrow> IdleDetector option" where
  "fire_silence d =
     (if id_timer d = Some True
      then Some (d\<lparr>id_timer := Some False, id_waiting := id_waiting d @ [CbSilence]\<rparr>) else None)"

fun run_callback :: "callback \<Rightarrow> IdleDetector \<Rightarrow> IdleDetector" where
  "run_callback CbStartup d =
     (if id_stopped d \<or> id_outputSeen d then d else d\<lparr>id_isIdle := True, id_log := id_log d @ [OnIdle]\<rparr>)"
| "run_callback CbSilence d =
     (if id_stopped d then d
      else d\<lparr>id_isIdle := True, id_noiseLogged := False, id_log := id_log d @ [OnIdle]\<rparr>)"

section \<open>The calls the detector makes\<close>

text \<open>
  One action on the detector. A callback that gets the lock is taken out of the waiting
  ones, in any order.
\<close>

inductive idle_step :: "IdleDetector \<Rightarrow> IdleDetector \<Rightarrow> bool" where
  idle_feed: "idle_step d (Feed data d)"
| idle_stop: "idle_step d (detector_Stop d)"
| idle_fire_startup: "fire_startup d = Some d' \<Longrightarrow> idle_step d d'"
| idle_fire_silence: "fire_silence d = Some d' \<Longrightarrow> idle_step d d'"
| idle_callback: "cb \<in> set (id_waiting d) \<Longrightarrow>
    idle_step d (run_callback cb (d\<lparr>id_waiting := remove1 cb (id_waiting d)\<rparr>))"

definition idle_init :: "IdleDetector \<Rightarrow> bool" where
  "idle_init d \<longleftrightarrow> (\<exists>n. d = detector_Start (NewIdleDetector True [WithMinActivityBytes n]))"

text \<open>The detector's state as its calls report it, and the shape of the calls.\<close>

definition last_idle :: "call list \<Rightarrow> bool" where
  "last_idle cs \<longleftrightarrow> cs \<noteq> [] \<and> last cs = OnIdle"

fun active_after_idle :: "bool \<Rightarrow> call list \<Rightarrow> bool" where
  "active_after_idle idle [] = True"
| "active_after_idle idle (OnIdle # cs) = active_after_idle True cs"
| "active_after_idle idle (OnActive # cs) = (idle \<and> active_after_idle False cs)"

lemma active_after_idle_snoc:
  "active_after_idle i (cs @ [c]) \<longleftrightarrow>
     active_after_idle i cs \<and> (c = OnActive \<longrightarrow> (if cs = [] then i else last cs = OnIdle))"
proof (induction cs arbitrary: i)
  case Nil
  then show ?case by (cases c) auto
next
  case (Cons x cs)
  show ?case using Cons [of True] Cons [of False] by (cases x) (auto split: if_splits)
qed

definition idle_inv :: "IdleDetector \<Rightarrow> bool" where
  "idle_inv d \<longleftrightarrow> id_onActive d \<and> id_isIdle d = last_idle (id_log d) \<and> active_after_idle False (id_log d)"

lemma log_snoc:
  "last_idle (cs @ [OnIdle])" "\<not> last_idle (cs @ [OnActive])"
  "active_after_idle False cs \<Longrightarrow> active_after_idle False (cs @ [OnIdle])"
  "active_after_idle False cs \<Longrightarrow> last_idle cs \<Longrightarrow> active_after_idle False (cs @ [OnActive])"
  by (simp_all add: last_idle_def active_after_idle_snoc)

interpretation idle_system: invariant_system idle_init idle_step idle_inv
proof
  fix d assume "idle_init d"
  then show "idle_inv d"
    by (auto simp: idle_init_def idle_inv_def detector_Start_def NewIdleDetector_def WithMinActivityBytes_def last_idle_def)
next
  fix d d' assume inv: "idle_inv d" and "idle_step d d'"
  from this(2) show "idle_inv d'"
  proof cases
    case (idle_feed data)
    then show ?thesis using inv log_snoc by (auto simp: idle_inv_def Feed_def Let_def)
  next
    case (idle_callback cb)
    then show ?thesis using inv log_snoc by (cases cb) (auto simp: idle_inv_def)
  qed (use inv in \<open>auto simp: idle_inv_def detector_Stop_def fire_startup_def fire_silence_def split: if_splits\<close>)
qed


text \<open>In every interleaving \<open>onActive\<close> is called only in the idle state, and nothing is called once stopped.\<close>

lemma idle_calls:
  assumes "reachable idle_init idle_step d"
  shows "id_isIdle d = last_idle (id_log d)" and "active_after_idle False (id_log d)"
  using idle_system.reachable_inv [OF assms] by (simp_all add: idle_inv_def)

lemma stopped_is_silent:
  assumes "id_stopped d" and "idle_step d d'"
  shows "id_stopped d' \<and> id_log d' = id_log d"
  using assms(2)
proof cases
  case (idle_callback cb)
  then show ?thesis using assms(1) by (cases cb) simp_all
qed (use assms(1) in \<open>auto simp: Feed_def detector_Stop_def fire_startup_def fire_silence_def split: if_splits\<close>)

section \<open>Timely callbacks\<close>

text \<open>The same system when a callback gets the lock as soon as its timer fires.\<close>

inductive timely_step :: "IdleDetector \<Rightarrow> IdleDetector \<Rightarrow> bool" where
  timely_feed: "timely_step d (Feed data d)"
| timely_stop: "timely_step d (detector_Stop d)"
| timely_startup: "fire_startup d = Some d' \<Longrightarrow> timely_step d (run_callback CbStartup (d'\<lparr>id_waiting := []\<rparr>))"
| timely_silence: "fire_silence d = Some d' \<Longrightarrow> timely_step d (run_callback CbSilence (d'\<lparr>id_waiting := []\<rparr>))"

fun alternates :: "call \<Rightarrow> call list \<Rightarrow> bool" where
  "alternates c [] = True"
| "alternates c (x # xs) = (x = c \<and> alternates (if c = OnIdle then OnActive else OnIdle) xs)"

lemma alternates_snoc:
  "alternates c (cs @ [x]) \<longleftrightarrow> alternates c cs \<and> x = (if cs = [] then c else if last cs = OnIdle then OnActive else OnIdle)"
proof (induction cs arbitrary: c)
  case (Cons y cs)
  show ?case using Cons [of OnIdle] Cons [of OnActive] by (cases c; cases y) auto
qed auto

definition timely_inv :: "IdleDetector \<Rightarrow> bool" where
  "timely_inv d \<longleftrightarrow> id_onActive d \<and> id_isIdle d = last_idle (id_log d) \<and> alternates OnIdle (id_log d) \<and>
     (id_timer d = Some True \<longrightarrow> \<not> id_isIdle d) \<and> (id_startupTimer d = Some True \<longrightarrow> \<not> id_isIdle d \<and> \<not> id_outputSeen d) \<and>
     (id_timer d = Some True \<longrightarrow> id_outputSeen d)"

lemma alternates_idle:
  "alternates OnIdle cs \<Longrightarrow> \<not> last_idle cs \<Longrightarrow> alternates OnIdle (cs @ [OnIdle])"
  "alternates OnIdle cs \<Longrightarrow> last_idle cs \<Longrightarrow> alternates OnIdle (cs @ [OnActive])"
  by (auto simp: alternates_snoc last_idle_def)

interpretation timely_system: invariant_system idle_init timely_step timely_inv
proof
  fix d assume "idle_init d"
  then show "timely_inv d"
    by (auto simp: idle_init_def timely_inv_def detector_Start_def NewIdleDetector_def WithMinActivityBytes_def last_idle_def
        split: if_splits)
next
  fix d d' assume inv: "timely_inv d" and "timely_step d d'"
  from this(2) show "timely_inv d'"
  proof cases
    case (timely_feed data)
    then show ?thesis using inv log_snoc alternates_idle
      by (auto simp: timely_inv_def Feed_def Let_def stop_timer_def split: if_splits option.splits)
  next
    case timely_stop
    then show ?thesis using inv by (auto simp: timely_inv_def detector_Stop_def stop_timer_def)
  next
    case (timely_startup d1)
    then show ?thesis using inv log_snoc alternates_idle by (auto simp: timely_inv_def fire_startup_def split: if_splits)
  next
    case (timely_silence d1)
    then show ?thesis using inv log_snoc alternates_idle by (auto simp: timely_inv_def fire_silence_def split: if_splits)
  qed
qed

text \<open>
  The idle and active notifications alternate, beginning with idle, and the last one
  agrees with the detector's state, as long as a timer's callback gets the lock before the
  next chunk of output: the consumer sees one transition per change.
\<close>

theorem idle_calls_alternate:
  assumes "reachable idle_init timely_step d"
  shows "alternates OnIdle (id_log d) \<and> id_isIdle d = last_idle (id_log d)"
  using timely_system.reachable_inv [OF assms] by (simp add: timely_inv_def)

definition idle0 :: IdleDetector where "idle0 = detector_Start (NewIdleDetector True [WithMinActivityBytes 3])"

definition idle2 :: IdleDetector where
  "idle2 = Feed ''hello'' (run_callback CbSilence ((the (fire_silence (Feed ''hello'' idle0)))\<lparr>id_waiting := []\<rparr>))"

theorem idle_calls_alternate_witness: "alternates OnIdle (id_log idle2) \<and> id_log idle2 = [OnIdle, OnActive]"
proof -
  let ?d1 = "Feed ''hello'' idle0"
  have "reachable idle_init timely_step idle0" by (rule reach_init) (auto simp: idle_init_def idle0_def)
  then have r1: "reachable idle_init timely_step ?d1" by (rule reach_step) (rule timely_feed)
  have "fire_silence ?d1 \<noteq> None" by code_simp
  then have "timely_step ?d1 (run_callback CbSilence ((the (fire_silence ?d1))\<lparr>id_waiting := []\<rparr>))"
    by (intro timely_silence) auto
  then have "reachable idle_init timely_step (run_callback CbSilence ((the (fire_silence ?d1))\<lparr>id_waiting := []\<rparr>))"
    by (rule reach_step [OF r1])
  then have "reachable idle_init timely_step idle2" unfolding idle2_def by (rule reach_step) (rule timely_feed)
  moreover have "id_log idle2 = [OnIdle, OnActive]" by code_simp
  ultimately show ?thesis using idle_calls_alternate by blast
qed

text \<open>
  A callback that waits while output arrives reports idle just after that output, and the
  next silence reports it again: two \<open>onIdle\<close> calls without \<open>onActive\<close> in between.
\<close>

lemma late_callback_repeats_idle:
  "let d1 = Feed ''hello'' (the (fire_silence (Feed ''hello'' idle0)));
       d2 = run_callback CbSilence (d1\<lparr>id_waiting := []\<rparr>);
       d3 = the (fire_silence d2)
   in id_log (run_callback CbSilence (d3\<lparr>id_waiting := []\<rparr>)) = [OnIdle, OnIdle]"
  by code_simp

end
