(* ===== verification/Scrollback.thy ===== *)
theory Scrollback
  imports Prelude Go_Strings
begin

text \<open>
  \<open>internal/agent/scrollback.go\<close>: the terminal recording of a session, an asciicast file
  that is appended to while the session runs and read back in chunks when a browser
  attaches.

  A file is its bytes. The JSON encoding of a chunk of output and the formatted elapsed
  time are arguments; a write gives the number of bytes written and may fail. A read of at
  most \<open>n\<close> bytes returns at least one byte before the end of the file, as
  \<open>os.File.Read\<close> does, or nothing for an empty buffer; \<open>None\<close> is an I/O error. The
  reading loop need not end (an empty buffer never reaches the end of the file), so it is
  a partial function.
\<close>

section \<open>Writing\<close>

record ScrollbackWriter =
  sw_file :: string
  sw_offset :: int

definition scrollback_header :: "nat \<Rightarrow> nat \<Rightarrow> int \<Rightarrow> string" where
  "scrollback_header cols rows unix =
     ''{\"version\":2,\"width\":'' @ itoa (int cols) @ '',\"height\":'' @ itoa (int rows) @
     '',\"timestamp\":'' @ itoa unix @ ''}'' @ [CHR 0x0A]"

text \<open>The outcome of \<open>WriteString\<close>: all bytes, or an error after some of them.\<close>

datatype io_write = WroteAll | WroteSome nat

definition NewScrollbackWriter :: "bool \<Rightarrow> io_write \<Rightarrow> nat \<Rightarrow> nat \<Rightarrow> int \<Rightarrow> ScrollbackWriter option" where
  "NewScrollbackWriter created wr cols rows unix =
     (if \<not> created then None
      else case wr of
             WroteSome _ \<Rightarrow> None
           | WroteAll \<Rightarrow> (let header = scrollback_header cols rows unix
                          in Some \<lparr>sw_file = header, sw_offset = int (length header)\<rparr>))"

definition output_line :: "string \<Rightarrow> string \<Rightarrow> string" where
  "output_line elapsed escaped = ''['' @ elapsed @ '',\"o\",'' @ escaped @ '']'' @ [CHR 0x0A]"

definition WriteOutput :: "(string \<Rightarrow> string option) \<Rightarrow> string \<Rightarrow> io_write \<Rightarrow> string \<Rightarrow> ScrollbackWriter \<Rightarrow>
    bool \<times> ScrollbackWriter" where
  "WriteOutput marshal elapsed wr data w =
     (case marshal data of
        None \<Rightarrow> (False, w)
      | Some escapedData \<Rightarrow>
          (let line = output_line elapsed escapedData
           in case wr of
                WroteSome n \<Rightarrow> (False, w\<lparr>sw_file := sw_file w @ take n line\<rparr>)
              | WroteAll \<Rightarrow> (True, w\<lparr>sw_file := sw_file w @ line, sw_offset := sw_offset w + int (length line)\<rparr>)))"

definition CurrentOffset :: "ScrollbackWriter \<Rightarrow> int" where
  "CurrentOffset w = sw_offset w"

section \<open>Reading\<close>

record ScrollbackChunk =
  ch_Data :: string
  ch_Offset :: nat
  ch_IsFinal :: bool

datatype read_result = ReadData string | ReadEOF | ReadError

definition file_read :: "nat \<Rightarrow> nat option \<Rightarrow> string \<Rightarrow> read_result" where
  "file_read sz got rest =
     (case got of
        None \<Rightarrow> ReadError
      | Some n \<Rightarrow> if sz = 0 then ReadData []
                  else if rest = [] then ReadEOF
                  else ReadData (take (max 1 (min n sz)) rest))"

partial_function (option) read_loop ::
  "nat \<Rightarrow> (nat \<Rightarrow> nat option) \<Rightarrow> string \<Rightarrow> nat \<Rightarrow> nat \<Rightarrow> ScrollbackChunk list \<Rightarrow> (unit + ScrollbackChunk list) option" where
  "read_loop sz got file offset k chunks =
     (case file_read sz (got k) (drop offset file) of
        ReadError \<Rightarrow> Some (Inl ())
      | ReadEOF \<Rightarrow> Some (Inr chunks)
      | ReadData data \<Rightarrow>
          read_loop sz got file (offset + length data) (Suc k)
            (if data = [] then chunks else chunks @ [\<lparr>ch_Data = data, ch_Offset = offset, ch_IsFinal = False\<rparr>]))"

declare read_loop.simps [code]

definition mark_final :: "ScrollbackChunk list \<Rightarrow> ScrollbackChunk list" where
  "mark_final cs = (if cs = [] then cs else cs[length cs - 1 := (cs ! (length cs - 1))\<lparr>ch_IsFinal := True\<rparr>])"

text \<open>\<open>Inl\<close>: the file does not open (\<open>None\<close>) or cannot be read; the outer \<open>None\<close>: no result at all.\<close>

definition ReadScrollbackChunks :: "nat \<Rightarrow> (nat \<Rightarrow> nat option) \<Rightarrow> string option \<Rightarrow> (unit + ScrollbackChunk list) option" where
  "ReadScrollbackChunks chunkSize got file =
     (case file of
        None \<Rightarrow> Some (Inl ())
      | Some bytes \<Rightarrow>
          (case read_loop chunkSize got bytes 0 0 [] of
             None \<Rightarrow> None
           | Some (Inl e) \<Rightarrow> Some (Inl e)
           | Some (Inr chunks) \<Rightarrow> Some (Inr (mark_final chunks))))"

section \<open>What a reader gets\<close>

text \<open>Consecutive chunks from an offset on: where each starts, and its size.\<close>

fun laid_out :: "nat \<Rightarrow> nat \<Rightarrow> ScrollbackChunk list \<Rightarrow> bool" where
  "laid_out sz off [] = True"
| "laid_out sz off (c # cs) \<longleftrightarrow>
     ch_Offset c = off \<and> ch_Data c \<noteq> [] \<and> length (ch_Data c) \<le> sz \<and> laid_out sz (off + length (ch_Data c)) cs"

lemma laid_out_append:
  "laid_out sz off (cs @ [c]) \<longleftrightarrow> laid_out sz off cs \<and>
     ch_Offset c = off + length (concat (map ch_Data cs)) \<and> ch_Data c \<noteq> [] \<and> length (ch_Data c) \<le> sz"
  by (induction cs arbitrary: off) (auto simp: add.assoc)

lemma read_loop_total:
  assumes sz: "0 < sz" and ok: "\<forall>k. got k \<noteq> None"
  shows "offset \<le> length file \<Longrightarrow> concat (map ch_Data chunks) = take offset file \<Longrightarrow> laid_out sz 0 chunks \<Longrightarrow>
    list_all (\<lambda>c. \<not> ch_IsFinal c) chunks \<Longrightarrow>
    \<exists>cs. read_loop sz got file offset k chunks = Some (Inr cs) \<and> concat (map ch_Data cs) = file \<and> laid_out sz 0 cs \<and>
      list_all (\<lambda>c. \<not> ch_IsFinal c) cs"
proof (induction "length file - offset" arbitrary: offset k chunks rule: less_induct)
  case less
  obtain n where n: "got k = Some n" using ok by auto
  let ?rest = "drop offset file"
  show ?case
  proof (cases "?rest = []")
    case True
    then have "read_loop sz got file offset k chunks = Some (Inr chunks)"
      using sz n by (subst read_loop.simps) (simp add: file_read_def)
    then show ?thesis using less.prems True by auto
  next
    case False
    define data where "data = take (max 1 (min n sz)) ?rest"
    have data: "data \<noteq> []" "length data \<le> sz" "take offset file @ data = take (offset + length data) file"
      using False sz by (auto simp: data_def take_add min_def split: if_splits)
    let ?c = "\<lparr>ch_Data = data, ch_Offset = offset, ch_IsFinal = False\<rparr>"
    have len: "length (take offset file) = offset" using less.prems(1) by simp
    have "offset + length data \<le> length file" using less.prems(1) by (simp add: data_def)
    moreover have "concat (map ch_Data (chunks @ [?c])) = take (offset + length data) file" using less.prems(2) data(3) by simp
    moreover have "laid_out sz 0 (chunks @ [?c])" using less.prems(2,3) data len by (simp add: laid_out_append)
    moreover have "list_all (\<lambda>c. \<not> ch_IsFinal c) (chunks @ [?c])" using less.prems(4) by simp
    moreover have "length file - (offset + length data) < length file - offset"
      using False data(1) by (simp add: diff_less_mono2)
    moreover have "read_loop sz got file offset k chunks = read_loop sz got file (offset + length data) (Suc k) (chunks @ [?c])"
      using sz n False data(1) unfolding data_def by (subst read_loop.simps) (simp add: file_read_def)
    ultimately show ?thesis using less.hyps by metis
  qed
qed

lemma laid_out_nth:
  "laid_out sz off cs \<Longrightarrow> i < length cs \<Longrightarrow>
     ch_Offset (cs ! i) = off + length (concat (map ch_Data (take i cs))) \<and>
     0 < length (ch_Data (cs ! i)) \<and> length (ch_Data (cs ! i)) \<le> sz"
  by (induction cs arbitrary: off i) (auto simp: nth_Cons' take_Cons')

lemma mark_final_props:
  assumes "list_all (\<lambda>c. \<not> ch_IsFinal c) cs"
  shows "map ch_Data (mark_final cs) = map ch_Data cs" and "map ch_Offset (mark_final cs) = map ch_Offset cs"
    and "i < length cs \<Longrightarrow> ch_IsFinal (mark_final cs ! i) \<longleftrightarrow> Suc i = length cs"
  using assms by (auto simp: mark_final_def map_update list_all_length nth_list_update list_update_same_conv intro!: list_update_same_conv [THEN iffD2])

text \<open>
  Reading a recording back loses nothing: for a positive chunk size and a readable file,
  however short the individual reads are, the reader returns, the chunks concatenate to the
  file, each has between one byte and the chunk size and carries the offset of its first
  byte, and exactly the last one is marked final.
\<close>

theorem scrollback_chunks_complete:
  assumes "0 < chunkSize" and "\<forall>k. got k \<noteq> None"
  shows "\<exists>cs. ReadScrollbackChunks chunkSize got (Some file) = Some (Inr cs) \<and> concat (map ch_Data cs) = file \<and>
    (\<forall>i < length cs. ch_Offset (cs ! i) = length (concat (map ch_Data (take i cs))) \<and>
       0 < length (ch_Data (cs ! i)) \<and> length (ch_Data (cs ! i)) \<le> chunkSize \<and>
       (ch_IsFinal (cs ! i) \<longleftrightarrow> Suc i = length cs))"
proof -
  obtain cs where cs: "read_loop chunkSize got file 0 0 [] = Some (Inr cs)" "concat (map ch_Data cs) = file"
    "laid_out chunkSize 0 cs" "list_all (\<lambda>c. \<not> ch_IsFinal c) cs"
    using read_loop_total [OF assms, where offset = 0 and k = 0 and chunks = "[]"] by auto
  note fin = mark_final_props [OF cs(4)]
  have len: "length (mark_final cs) = length cs" using fin(1) by (metis length_map)
  have same: "ch_Data (mark_final cs ! i) = ch_Data (cs ! i)" "ch_Offset (mark_final cs ! i) = ch_Offset (cs ! i)" if "i < length cs" for i
    using fin(1,2) len that by (metis nth_map)+
  have "map ch_Data (take i (mark_final cs)) = map ch_Data (take i cs)" for i using fin(1) by (metis take_map)
  then have "\<forall>i < length (mark_final cs). ch_Offset (mark_final cs ! i) = length (concat (map ch_Data (take i (mark_final cs)))) \<and>
       0 < length (ch_Data (mark_final cs ! i)) \<and> length (ch_Data (mark_final cs ! i)) \<le> chunkSize \<and>
       (ch_IsFinal (mark_final cs ! i) \<longleftrightarrow> Suc i = length (mark_final cs))"
    using laid_out_nth [OF cs(3)] same fin(3) len by simp
  then show ?thesis using cs(1,2) fin(1) by (auto simp: ReadScrollbackChunks_def intro!: exI [of _ "mark_final cs"])
qed

theorem scrollback_chunks_complete_witness:
  "\<exists>cs. ReadScrollbackChunks 2 (\<lambda>k. Some (Suc k)) (Some ''abcde'') = Some (Inr cs) \<and> concat (map ch_Data cs) = ''abcde''"
  using scrollback_chunks_complete [of 2 "\<lambda>k. Some (Suc k)" "''abcde''"] by auto

text \<open>The offset a client is told equals the bytes in the file, as long as no write failed half way.\<close>

lemma WriteOutput_offset:
  assumes "CurrentOffset w = int (length (sw_file w))" and "WriteOutput marshal elapsed wr data w = (True, w')"
  shows "CurrentOffset w' = int (length (sw_file w'))"
  using assms by (auto simp: WriteOutput_def CurrentOffset_def Let_def split: option.splits io_write.splits)

lemma NewScrollbackWriter_offset:
  "NewScrollbackWriter cr wr cols rows unix = Some w \<Longrightarrow> CurrentOffset w = int (length (sw_file w))"
  by (auto simp: NewScrollbackWriter_def CurrentOffset_def Let_def split: if_splits io_write.splits)

end
