(* ===== verification/Blocklist.thy ===== *)
theory Blocklist
  imports Prelude
begin

text \<open>
  Token revocation: the table \<open>revoked_tokens\<close> (\<open>store/tokens.go\<close>) and the in-memory
  blocklist in front of it (\<open>auth/blocklist.go\<close>). A database call that fails for reasons
  outside the model is an argument. The order in which a map is ranged over does not matter
  to the loops here, which treat every entry on its own.
\<close>

section \<open>The table\<close>

record RevokedToken =
  rt_JTI :: string
  rt_UserID :: string
  rt_RevokedAt :: time
  rt_ExpiresAt :: time

text \<open>\<open>jti\<close> is the primary key; \<open>revoked_at\<close> defaults to the current time.\<close>

definition RevokeToken :: "time \<Rightarrow> string \<Rightarrow> string \<Rightarrow> time \<Rightarrow> RevokedToken list \<Rightarrow> RevokedToken list option" where
  "RevokeToken now jti userID expiresAt rows =
     (if jti \<in> set (map rt_JTI rows) then None
      else Some (rows @ [\<lparr>rt_JTI = jti, rt_UserID = userID, rt_RevokedAt = now, rt_ExpiresAt = expiresAt\<rparr>]))"

definition LoadActiveRevocations :: "time \<Rightarrow> RevokedToken list \<Rightarrow> RevokedToken list" where
  "LoadActiveRevocations now rows = filter (\<lambda>r. rt_ExpiresAt r > now) rows"

definition CleanExpired :: "time \<Rightarrow> RevokedToken list \<Rightarrow> RevokedToken list" where
  "CleanExpired now rows = filter (\<lambda>r. \<not> rt_ExpiresAt r \<le> now) rows"

section \<open>The blocklist\<close>

record Blocklist =
  bl_entries :: "(string, time) fmap"
  bl_store :: "RevokedToken list"

definition NewBlocklist :: "time \<Rightarrow> RevokedToken list \<Rightarrow> Blocklist" where
  "NewBlocklist now rows =
     \<lparr>bl_entries = fold (\<lambda>r m. fmupd (rt_JTI r) (rt_ExpiresAt r) m) (LoadActiveRevocations now rows) fmempty,
      bl_store = rows\<rparr>"

text \<open>The flag is the error of \<open>Add\<close>; \<open>up\<close> says whether the database is available.\<close>

definition Blocklist_Add :: "bool \<Rightarrow> time \<Rightarrow> string \<Rightarrow> string \<Rightarrow> time \<Rightarrow> Blocklist \<Rightarrow> bool \<times> Blocklist" where
  "Blocklist_Add up now jti userID expiresAt bl =
     (case (if up then RevokeToken now jti userID expiresAt (bl_store bl) else None) of
        None \<Rightarrow> (False, bl)
      | Some rows \<Rightarrow> (True, bl\<lparr>bl_store := rows, bl_entries := fmupd jti expiresAt (bl_entries bl)\<rparr>))"

definition IsRevoked :: "string \<Rightarrow> Blocklist \<Rightarrow> bool" where
  "IsRevoked jti bl \<longleftrightarrow> fmlookup (bl_entries bl) jti \<noteq> None"

definition cleanExpired :: "bool \<Rightarrow> time \<Rightarrow> Blocklist \<Rightarrow> Blocklist" where
  "cleanExpired up now bl =
     bl\<lparr>bl_entries := fmfilter (\<lambda>jti. \<not> getd now (bl_entries bl) jti < now) (bl_entries bl),
        bl_store := (if up then CleanExpired now (bl_store bl) else bl_store bl)\<rparr>"

section \<open>Revoked until expired\<close>

text \<open>
  The abstract view is the set of revocations that were reported as successful and the
  current time; a restart rebuilds the blocklist from the table.
\<close>

record revocation_sys =
  rv_bl :: Blocklist
  rv_now :: time
  rv_revoked :: "(string \<times> time) set"

inductive revocation_step :: "revocation_sys \<Rightarrow> revocation_sys \<Rightarrow> bool" where
  rv_add: "Blocklist_Add up (rv_now s) jti userID expiresAt (rv_bl s) = (done, bl) \<Longrightarrow>
    revocation_step s (s\<lparr>rv_bl := bl, rv_revoked := (if done then insert (jti, expiresAt) (rv_revoked s) else rv_revoked s)\<rparr>)"
| rv_clean: "revocation_step s (s\<lparr>rv_bl := cleanExpired up (rv_now s) (rv_bl s)\<rparr>)"
| rv_restart: "revocation_step s (s\<lparr>rv_bl := NewBlocklist (rv_now s) (bl_store (rv_bl s))\<rparr>)"
| rv_tick: "rv_now s \<le> now \<Longrightarrow> revocation_step s (s\<lparr>rv_now := now\<rparr>)"

definition revocation_init :: "revocation_sys \<Rightarrow> bool" where
  "revocation_init s \<longleftrightarrow> rv_bl s = NewBlocklist (rv_now s) [] \<and> rv_revoked s = {}"

definition revocation_inv :: "revocation_sys \<Rightarrow> bool" where
  "revocation_inv s \<longleftrightarrow> distinct (map rt_JTI (bl_store (rv_bl s))) \<and>
     (\<forall>jti e. (jti, e) \<in> rv_revoked s \<and> rv_now s < e \<longrightarrow>
        fmlookup (bl_entries (rv_bl s)) jti = Some e \<and> (\<exists>r\<in>set (bl_store (rv_bl s)). rt_JTI r = jti \<and> rt_ExpiresAt r = e))"

lemma load_lookup:
  assumes "distinct (map rt_JTI rows)" and "r \<in> set rows"
  shows "fmlookup (fold (\<lambda>r m. fmupd (rt_JTI r) (rt_ExpiresAt r) m) rows m0) (rt_JTI r) = Some (rt_ExpiresAt r)"
  using assms
proof (induction rows arbitrary: m0)
  case (Cons x rows)
  have keep: "fmlookup (fold (\<lambda>r m. fmupd (rt_JTI r) (rt_ExpiresAt r) m) rows m) k = fmlookup m k"
    if "k \<notin> set (map rt_JTI rows)" for k m
    using that by (induction rows arbitrary: m) auto
  show ?case
  proof (cases "r = x")
    case True
    then show ?thesis using Cons.prems keep by simp
  qed (use Cons in auto)
qed simp

lemma NewBlocklist_lookup:
  assumes "distinct (map rt_JTI rows)" and "r \<in> set rows" and "now < rt_ExpiresAt r"
  shows "fmlookup (bl_entries (NewBlocklist now rows)) (rt_JTI r) = Some (rt_ExpiresAt r)"
  using assms load_lookup [of "LoadActiveRevocations now rows" r fmempty]
  by (simp add: NewBlocklist_def LoadActiveRevocations_def distinct_map_filter)

interpretation revocations: invariant_system revocation_init revocation_step revocation_inv
proof
  fix s assume "revocation_init s"
  then show "revocation_inv s" by (auto simp: revocation_init_def revocation_inv_def NewBlocklist_def LoadActiveRevocations_def)
next
  fix s t assume inv: "revocation_inv s" and "revocation_step s t"
  from this(2) show "revocation_inv t"
  proof cases
    case (rv_add up jti userID expiresAt ok bl)
    show ?thesis
    proof (cases ok)
      case True
      then have new: "jti \<notin> set (map rt_JTI (bl_store (rv_bl s)))"
        and t: "t = s\<lparr>rv_bl := (rv_bl s)\<lparr>bl_store := bl_store (rv_bl s) @ [\<lparr>rt_JTI = jti, rt_UserID = userID,
             rt_RevokedAt = rv_now s, rt_ExpiresAt = expiresAt\<rparr>], bl_entries := fmupd jti expiresAt (bl_entries (rv_bl s))\<rparr>,
           rv_revoked := insert (jti, expiresAt) (rv_revoked s)\<rparr>"
        using rv_add by (auto simp: Blocklist_Add_def RevokeToken_def split: if_splits)
      have "k \<noteq> jti" if "(k, e) \<in> rv_revoked s" "rv_now s < e" for k e
        using inv that new by (auto simp: revocation_inv_def)
      then show ?thesis using inv new unfolding t revocation_inv_def by simp blast
    next
      case False
      then have "t = s" using rv_add by (auto simp: Blocklist_Add_def split: option.splits if_splits)
      then show ?thesis using inv by simp
    qed
  next
    case (rv_clean up)
    then show ?thesis using inv
      by (auto simp: revocation_inv_def cleanExpired_def CleanExpired_def distinct_map_filter getd_def split: if_splits)
        fastforce
  next
    case rv_restart
    then show ?thesis using inv NewBlocklist_lookup [of "bl_store (rv_bl s)"]
      by (fastforce simp: revocation_inv_def NewBlocklist_def)
  qed (use inv in \<open>auto simp: revocation_inv_def\<close>)
qed


text \<open>
  A token whose revocation was reported as successful is rejected until it expires,
  whatever further revocations, clean-ups, database failures and server restarts happen:
  the blocklist refines the set of successful revocations.
\<close>

theorem revoked_until_expired:
  assumes "reachable revocation_init revocation_step s" and "(jti, expiresAt) \<in> rv_revoked s" and "rv_now s < expiresAt"
  shows "IsRevoked jti (rv_bl s)"
  using revocations.reachable_inv [OF assms(1)] assms(2,3) by (auto simp: revocation_inv_def IsRevoked_def)

definition rv0 :: revocation_sys where
  "rv0 = \<lparr>rv_bl = NewBlocklist 1 [], rv_now = 1, rv_revoked = {}\<rparr>"

definition rv1 :: revocation_sys where
  "rv1 = rv0\<lparr>rv_bl := snd (Blocklist_Add True 1 ''t'' ''u'' 10 (rv_bl rv0)), rv_revoked := {(''t'', 10)}\<rparr>"

theorem revoked_until_expired_witness:
  "IsRevoked ''t'' (NewBlocklist 1 (bl_store (rv_bl rv1)))"
proof -
  have "reachable revocation_init revocation_step rv0"
    by (rule reach_init) (simp add: revocation_init_def rv0_def)
  moreover have "fst (Blocklist_Add True 1 ''t'' ''u'' 10 (rv_bl rv0))" by code_simp
  then have "revocation_step rv0 rv1"
    using rv_add [of True rv0 "''t''" "''u''" 10 True "snd (Blocklist_Add True 1 ''t'' ''u'' 10 (rv_bl rv0))"]
    by (cases "Blocklist_Add True 1 ''t'' ''u'' 10 (rv_bl rv0)") (simp add: rv1_def rv0_def)
  ultimately have "reachable revocation_init revocation_step rv1" by (rule reach_step)
  then have "reachable revocation_init revocation_step (rv1\<lparr>rv_bl := NewBlocklist (rv_now rv1) (bl_store (rv_bl rv1))\<rparr>)"
    by (rule reach_step) (rule rv_restart)
  moreover have "rv_now rv1 = 1" "rv_revoked rv1 = {(''t'', 10)}" by (simp_all add: rv1_def rv0_def)
  ultimately show ?thesis using revoked_until_expired by force
qed

end
