(* ===== verification/Conn_Manager.thy ===== *)
theory Conn_Manager
  imports Prelude
begin

text \<open>
  \<open>internal/server/connmgr/manager.go\<close>: which agents are connected, in memory and in the
  table \<open>machines\<close> (the operations of \<open>store/machines.go\<close> it uses), and the delayed
  notification of disconnects.

  An agent is a pointer (\<open>cm_heap\<close>); replacing and removing compare pointers. A
  \<open>context.CancelFunc\<close> is recorded as called. A disconnect timer is armed
  (\<open>cm_armed\<close>) until it is stopped or fires; \<open>db_up\<close> says whether a database call
  succeeds. \<open>Register\<close> and the disconnects release the lock between their parts; the
  parts are separate definitions. \<open>cm_events\<close> lists the published events.
\<close>

section \<open>The table\<close>

record machine_row =
  mc_display_name :: "string option"
  mc_status :: string
  mc_max_sessions :: int
  mc_home_dir :: string
  mc_last_seen_at :: "time option"
  mc_deleted :: bool

type_synonym machines = "(string, machine_row) fmap"

definition UpsertMachine :: "bool \<Rightarrow> string \<Rightarrow> int \<Rightarrow> string \<Rightarrow> machines \<Rightarrow> machines option" where
  "UpsertMachine db_up machineID maxSessions homeDir t =
     (if \<not> db_up then None
      else Some (fmupd machineID
        (case fmlookup t machineID of
           None \<Rightarrow> \<lparr>mc_display_name = None, mc_status = ''disconnected'', mc_max_sessions = maxSessions,
                    mc_home_dir = homeDir, mc_last_seen_at = None, mc_deleted = False\<rparr>
         | Some r \<Rightarrow> r\<lparr>mc_max_sessions := maxSessions, mc_home_dir := homeDir, mc_deleted := False\<rparr>) t))"

definition UpdateMachineStatus :: "bool \<Rightarrow> string \<Rightarrow> string \<Rightarrow> time \<Rightarrow> machines \<Rightarrow> machines option" where
  "UpdateMachineStatus db_up machineID status lastSeenAt t =
     (if \<not> db_up then None
      else case fmlookup t machineID of
             None \<Rightarrow> None
           | Some r \<Rightarrow> Some (fmupd machineID (r\<lparr>mc_status := status, mc_last_seen_at := Some lastSeenAt\<rparr>) t))"

definition GetMachineDisplayName :: "string \<Rightarrow> machines \<Rightarrow> string" where
  "GetMachineDisplayName machineID t =
     (case fmlookup t machineID of
        None \<Rightarrow> ''''
      | Some r \<Rightarrow> if mc_deleted r then '''' else (case mc_display_name r of None \<Rightarrow> '''' | Some n \<Rightarrow> n))"

section \<open>State\<close>

record HealthInfo =
  hi_CPUCores :: int
  hi_MemoryTotalMB :: int
  hi_MemoryUsedMB :: int
  hi_ActiveSessions :: int
  hi_MaxSessions :: int

text \<open>\<open>ag_ctxDone\<close>: the stream has a context and it is done.\<close>

record ConnectedAgent =
  ag_MachineID :: string
  ag_RegisteredAt :: time
  ag_MaxSessions :: int
  ag_HomeDir :: string
  ag_Cancelled :: bool
  ag_ctxDone :: bool
  ag_health :: "HealthInfo option"

definition TypeMachineConnected :: string where "TypeMachineConnected = ''machine.connected''"
definition TypeMachineDisconnected :: string where "TypeMachineDisconnected = ''machine.disconnected''"
definition TypeMachineStale :: string where "TypeMachineStale = ''machine.stale''"

record ConnectionManager =
  cm_heap :: "(nat, ConnectedAgent) fmap"
  cm_agents :: "(string, nat) fmap"
  cm_machines :: machines
  cm_publisher :: bool
  cm_events :: "(string \<times> string \<times> string) list"
  cm_pending :: "(string, nat) fmap"
  cm_armed :: "(nat, string) fmap"
  cm_timers :: nat

definition NewConnectionManager :: "machines \<Rightarrow> ConnectionManager" where
  "NewConnectionManager t =
     \<lparr>cm_heap = fmempty, cm_agents = fmempty, cm_machines = t, cm_publisher = False, cm_events = [],
      cm_pending = fmempty, cm_armed = fmempty, cm_timers = 0\<rparr>"

definition cm_SetPublisher :: "ConnectionManager \<Rightarrow> ConnectionManager" where
  "cm_SetPublisher cm = cm\<lparr>cm_publisher := True\<rparr>"

definition cm_publishEvent :: "string \<Rightarrow> string \<Rightarrow> ConnectionManager \<Rightarrow> ConnectionManager" where
  "cm_publishEvent eventType machineID cm =
     (if cm_publisher cm
      then cm\<lparr>cm_events := cm_events cm @ [(eventType, machineID, GetMachineDisplayName machineID (cm_machines cm))]\<rparr>
      else cm)"

definition UpdateHealth :: "nat \<Rightarrow> HealthInfo \<Rightarrow> ConnectionManager \<Rightarrow> ConnectionManager" where
  "UpdateHealth p h cm =
     (case fmlookup (cm_heap cm) p of
        None \<Rightarrow> cm
      | Some a \<Rightarrow> cm\<lparr>cm_heap := fmupd p (a\<lparr>ag_health := Some h\<rparr>) (cm_heap cm)\<rparr>)"

definition cancel_agent :: "nat option \<Rightarrow> ConnectionManager \<Rightarrow> ConnectionManager" where
  "cancel_agent p cm =
     (case p of
        None \<Rightarrow> cm
      | Some i \<Rightarrow>
          (case fmlookup (cm_heap cm) i of
             None \<Rightarrow> cm
           | Some a \<Rightarrow> cm\<lparr>cm_heap := fmupd i (a\<lparr>ag_Cancelled := True\<rparr>) (cm_heap cm)\<rparr>))"

section \<open>The delayed disconnect\<close>

definition cancelPendingDisconnect :: "string \<Rightarrow> ConnectionManager \<Rightarrow> ConnectionManager" where
  "cancelPendingDisconnect machineID cm =
     (case fmlookup (cm_pending cm) machineID of
        None \<Rightarrow> cm
      | Some t \<Rightarrow> cm\<lparr>cm_armed := fmdrop t (cm_armed cm), cm_pending := fmdrop machineID (cm_pending cm)\<rparr>)"

definition scheduleDisconnectEvent :: "string \<Rightarrow> ConnectionManager \<Rightarrow> ConnectionManager" where
  "scheduleDisconnectEvent machineID cm =
     (let armed = (case fmlookup (cm_pending cm) machineID of None \<Rightarrow> cm_armed cm | Some t \<Rightarrow> fmdrop t (cm_armed cm));
          t = cm_timers cm
      in cm\<lparr>cm_armed := fmupd t machineID armed, cm_pending := fmupd machineID t (cm_pending cm), cm_timers := Suc t\<rparr>)"

text \<open>The timer fires, and then its callback runs.\<close>

definition fire_timer :: "nat \<Rightarrow> ConnectionManager \<Rightarrow> (string \<times> ConnectionManager) option" where
  "fire_timer t cm =
     (case fmlookup (cm_armed cm) t of
        None \<Rightarrow> None
      | Some machineID \<Rightarrow> Some (machineID, cm\<lparr>cm_armed := fmdrop t (cm_armed cm)\<rparr>))"

definition disconnect_callback :: "string \<Rightarrow> ConnectionManager \<Rightarrow> ConnectionManager" where
  "disconnect_callback machineID cm =
     cm_publishEvent TypeMachineDisconnected machineID (cm\<lparr>cm_pending := fmdrop machineID (cm_pending cm)\<rparr>)"

section \<open>Registering and disconnecting\<close>

definition reg_insert :: "string \<Rightarrow> nat \<Rightarrow> ConnectionManager \<Rightarrow> nat option \<times> ConnectionManager" where
  "reg_insert machineID p cm =
     (fmlookup (cm_agents cm) machineID, cm\<lparr>cm_agents := fmupd machineID p (cm_agents cm)\<rparr>)"

definition remove_if :: "string \<Rightarrow> nat \<Rightarrow> ConnectionManager \<Rightarrow> bool \<times> ConnectionManager" where
  "remove_if machineID p cm =
     (if fmlookup (cm_agents cm) machineID \<noteq> Some p then (False, cm)
      else (True, cm\<lparr>cm_agents := fmdrop machineID (cm_agents cm)\<rparr>))"

definition reg_persist :: "bool \<Rightarrow> bool \<Rightarrow> time \<Rightarrow> string \<Rightarrow> nat \<Rightarrow> ConnectedAgent \<Rightarrow> ConnectionManager \<Rightarrow>
    bool \<times> ConnectionManager" where
  "reg_persist up1 up2 now machineID p agent cm =
     (case UpsertMachine up1 machineID (ag_MaxSessions agent) (ag_HomeDir agent) (cm_machines cm) of
        None \<Rightarrow> (False, snd (remove_if machineID p cm))
      | Some t \<Rightarrow>
          (let cm = cm\<lparr>cm_machines := t\<rparr>
           in case UpdateMachineStatus up2 machineID ''connected'' now (cm_machines cm) of
                None \<Rightarrow> (False, snd (remove_if machineID p cm))
              | Some t \<Rightarrow> (True, cm_publishEvent TypeMachineConnected machineID (cm\<lparr>cm_machines := t\<rparr>))))"

text \<open>\<open>Register machineID agent\<close>, the agent being allocated at \<open>p\<close>.\<close>

definition Register :: "bool \<Rightarrow> bool \<Rightarrow> time \<Rightarrow> string \<Rightarrow> nat \<Rightarrow> ConnectedAgent \<Rightarrow> ConnectionManager \<Rightarrow>
    bool \<times> ConnectionManager" where
  "Register up1 up2 now machineID p agent cm =
     (let cm = cancelPendingDisconnect machineID (cm\<lparr>cm_heap := fmupd p agent (cm_heap cm)\<rparr>);
          (old, cm) = reg_insert machineID p cm
      in reg_persist up1 up2 now machineID p agent (cancel_agent old cm))"

definition mark_disconnected :: "bool \<Rightarrow> time \<Rightarrow> string \<Rightarrow> ConnectionManager \<Rightarrow> ConnectionManager" where
  "mark_disconnected up now machineID cm =
     (case UpdateMachineStatus up machineID ''disconnected'' now (cm_machines cm) of
        None \<Rightarrow> cm | Some t \<Rightarrow> cm\<lparr>cm_machines := t\<rparr>)"

definition Disconnect :: "bool \<Rightarrow> time \<Rightarrow> string \<Rightarrow> ConnectionManager \<Rightarrow> ConnectionManager" where
  "Disconnect up now machineID cm =
     scheduleDisconnectEvent machineID
       (mark_disconnected up now machineID (cm\<lparr>cm_agents := fmdrop machineID (cm_agents cm)\<rparr>))"

definition DisconnectIfMatch :: "bool \<Rightarrow> time \<Rightarrow> string \<Rightarrow> nat \<Rightarrow> ConnectionManager \<Rightarrow> bool \<times> ConnectionManager" where
  "DisconnectIfMatch up now machineID p cm =
     (case remove_if machineID p cm of
        (False, cm) \<Rightarrow> (False, cm)
      | (True, cm) \<Rightarrow> (True, scheduleDisconnectEvent machineID (mark_disconnected up now machineID cm)))"

section \<open>The health sweep\<close>

definition stale_agents :: "string list \<Rightarrow> ConnectionManager \<Rightarrow> nat list" where
  "stale_agents order cm =
     filter (\<lambda>p. case fmlookup (cm_heap cm) p of None \<Rightarrow> False | Some a \<Rightarrow> ag_ctxDone a)
       (List.map_filter (fmlookup (cm_agents cm)) order)"

definition sweep_one :: "bool \<Rightarrow> time \<Rightarrow> nat \<Rightarrow> ConnectionManager \<Rightarrow> ConnectionManager" where
  "sweep_one up now p cm =
     (case fmlookup (cm_heap cm) p of
        None \<Rightarrow> cm
      | Some agent \<Rightarrow>
          (case remove_if (ag_MachineID agent) p cm of
             (False, cm) \<Rightarrow> cm
           | (True, cm) \<Rightarrow>
               cm_publishEvent TypeMachineStale (ag_MachineID agent)
                 (mark_disconnected up now (ag_MachineID agent) (cancel_agent (Some p) cm))))"

definition sweepStaleAgents :: "bool \<Rightarrow> time \<Rightarrow> string list \<Rightarrow> ConnectionManager \<Rightarrow> ConnectionManager" where
  "sweepStaleAgents up now order cm = fold (sweep_one up now) (stale_agents order cm) cm"

definition GetAgent :: "string \<Rightarrow> ConnectionManager \<Rightarrow> ConnectedAgent option" where
  "GetAgent machineID cm =
     (case fmlookup (cm_agents cm) machineID of None \<Rightarrow> None | Some p \<Rightarrow> fmlookup (cm_heap cm) p)"

section \<open>Memory and table agree\<close>

definition db_connected :: "string \<Rightarrow> ConnectionManager \<Rightarrow> bool" where
  "db_connected m cm \<longleftrightarrow> (\<exists>r. fmlookup (cm_machines cm) m = Some r \<and> mc_status r = ''connected'')"

definition cm_inv :: "ConnectionManager \<Rightarrow> bool" where
  "cm_inv cm \<longleftrightarrow>
     (\<forall>m p. fmlookup (cm_agents cm) m = Some p \<longrightarrow> (\<exists>a. fmlookup (cm_heap cm) p = Some a \<and> ag_MachineID a = m)) \<and>
     (\<forall>m. db_connected m cm \<longleftrightarrow> fmlookup (cm_agents cm) m \<noteq> None) \<and>
     (\<forall>m. fmlookup (cm_pending cm) m \<noteq> None \<longrightarrow> fmlookup (cm_agents cm) m = None) \<and>
     (\<forall>t m. fmlookup (cm_armed cm) t = Some m \<longrightarrow> fmlookup (cm_pending cm) m = Some t) \<and>
     (\<forall>t. fmlookup (cm_armed cm) t \<noteq> None \<longrightarrow> t < cm_timers cm)"

text \<open>
  Requests that do not overlap, with the database up: a stream registers with a fresh
  agent for its machine, closes, is swept, or a timer fires and its callback runs.
\<close>

inductive cm_step :: "ConnectionManager \<Rightarrow> ConnectionManager \<Rightarrow> bool" where
  cm_register: "fmlookup (cm_heap cm) p = None \<Longrightarrow> ag_MachineID agent = m \<Longrightarrow>
    cm_step cm (snd (Register True True now m p agent cm))"
| cm_disconnect: "fmlookup (cm_machines cm) m \<noteq> None \<Longrightarrow> cm_step cm (Disconnect True now m cm)"
| cm_close: "cm_step cm (snd (DisconnectIfMatch True now m p cm))"
| cm_dead: "fmlookup (cm_heap cm) p = Some a \<Longrightarrow> cm_step cm (cm\<lparr>cm_heap := fmupd p (a\<lparr>ag_ctxDone := True\<rparr>) (cm_heap cm)\<rparr>)"
| cm_health: "cm_step cm (UpdateHealth p h cm)"
| cm_sweep: "cm_step cm (sweepStaleAgents True now order cm)"
| cm_timer: "fire_timer t cm = Some (m, cm') \<Longrightarrow> cm_step cm (disconnect_callback m cm')"

definition cm_init :: "ConnectionManager \<Rightarrow> bool" where
  "cm_init cm \<longleftrightarrow> (\<exists>t. (\<forall>m r. fmlookup t m = Some r \<longrightarrow> mc_status r \<noteq> ''connected'') \<and>
     cm = cm_SetPublisher (NewConnectionManager t))"


lemma UpsertMachine_up:
  "UpsertMachine True m s h t = Some t' \<Longrightarrow> fmlookup t' m \<noteq> None \<and> (\<forall>k. k \<noteq> m \<longrightarrow> fmlookup t' k = fmlookup t k)"
  by (auto simp: UpsertMachine_def)

lemma UpsertMachine_total: "\<exists>t'. UpsertMachine True m s h t = Some t'"
  by (simp add: UpsertMachine_def)

lemma UpdateMachineStatus_up:
  assumes "fmlookup t m \<noteq> None"
  obtains r t' where "UpdateMachineStatus True m st now t = Some t'" and "fmlookup t' m = Some r" and "mc_status r = st"
    and "\<And>k. k \<noteq> m \<Longrightarrow> fmlookup t' k = fmlookup t k"
  using assms by (auto simp: UpdateMachineStatus_def)

lemma publish_frame [simp]:
  "cm_heap (cm_publishEvent e m cm) = cm_heap cm" "cm_agents (cm_publishEvent e m cm) = cm_agents cm"
  "cm_machines (cm_publishEvent e m cm) = cm_machines cm" "cm_pending (cm_publishEvent e m cm) = cm_pending cm"
  "cm_armed (cm_publishEvent e m cm) = cm_armed cm" "cm_timers (cm_publishEvent e m cm) = cm_timers cm"
  "cm_publisher (cm_publishEvent e m cm) = cm_publisher cm"
  by (simp_all add: cm_publishEvent_def)

text \<open>The invariant, per field, so that an operation is checked on the fields it changes.\<close>

definition agents_ok :: "(string, nat) fmap \<Rightarrow> (nat, ConnectedAgent) fmap \<Rightarrow> bool" where
  "agents_ok ags hp \<longleftrightarrow> (\<forall>m p. fmlookup ags m = Some p \<longrightarrow> (\<exists>a. fmlookup hp p = Some a \<and> ag_MachineID a = m))"

definition table_ok :: "(string, nat) fmap \<Rightarrow> machines \<Rightarrow> bool" where
  "table_ok ags t \<longleftrightarrow> (\<forall>m. (\<exists>r. fmlookup t m = Some r \<and> mc_status r = ''connected'') \<longleftrightarrow> fmlookup ags m \<noteq> None)"

definition timers_ok :: "(string, nat) fmap \<Rightarrow> (string, nat) fmap \<Rightarrow> (nat, string) fmap \<Rightarrow> nat \<Rightarrow> bool" where
  "timers_ok ags pend armed n \<longleftrightarrow>
     (\<forall>m. fmlookup pend m \<noteq> None \<longrightarrow> fmlookup ags m = None) \<and>
     (\<forall>t m. fmlookup armed t = Some m \<longrightarrow> fmlookup pend m = Some t) \<and>
     (\<forall>t. fmlookup armed t \<noteq> None \<longrightarrow> t < n)"

lemma cm_inv_fields:
  "cm_inv cm \<longleftrightarrow> agents_ok (cm_agents cm) (cm_heap cm) \<and> table_ok (cm_agents cm) (cm_machines cm) \<and>
     timers_ok (cm_agents cm) (cm_pending cm) (cm_armed cm) (cm_timers cm)"
  by (simp add: cm_inv_def agents_ok_def table_ok_def timers_ok_def db_connected_def)

lemma table_ok_connect:
  "table_ok ags t \<Longrightarrow> fmlookup t' m = Some r \<Longrightarrow> mc_status r = ''connected'' \<Longrightarrow>
   (\<And>k. k \<noteq> m \<Longrightarrow> fmlookup t' k = fmlookup t k) \<Longrightarrow> table_ok (fmupd m p ags) t'"
  unfolding table_ok_def by (metis fmupd_lookup option.distinct(1) option.inject)

lemma table_ok_disconnect:
  "table_ok ags t \<Longrightarrow> fmlookup t' m = Some r \<Longrightarrow> mc_status r = ''disconnected'' \<Longrightarrow>
   (\<And>k. k \<noteq> m \<Longrightarrow> fmlookup t' k = fmlookup t k) \<Longrightarrow> table_ok (fmdrop m ags) t'"
  unfolding table_ok_def
proof (intro allI)
  fix k
  assume t: "\<forall>m. (\<exists>r. fmlookup t m = Some r \<and> mc_status r = ''connected'') \<longleftrightarrow> fmlookup ags m \<noteq> None"
    and r: "fmlookup t' m = Some r" "mc_status r = ''disconnected''" and eq: "\<And>k. k \<noteq> m \<Longrightarrow> fmlookup t' k = fmlookup t k"
  show "(\<exists>r. fmlookup t' k = Some r \<and> mc_status r = ''connected'') \<longleftrightarrow> fmlookup (fmdrop m ags) k \<noteq> None"
    using t r eq [of k] by (cases "k = m") auto
qed

lemma cancelPending_timers:
  assumes "timers_ok ags (cm_pending cm) (cm_armed cm) n"
  shows "timers_ok (fmupd m p ags) (cm_pending (cancelPendingDisconnect m cm)) (cm_armed (cancelPendingDisconnect m cm)) n"
  using assms unfolding timers_ok_def cancelPendingDisconnect_def
  by (cases "fmlookup (cm_pending cm) m") (fastforce split: if_splits)+

lemma schedule_timers:
  assumes "timers_ok ags (cm_pending cm) (cm_armed cm) (cm_timers cm)"
  shows "timers_ok (fmdrop m ags) (cm_pending (scheduleDisconnectEvent m cm)) (cm_armed (scheduleDisconnectEvent m cm))
    (cm_timers (scheduleDisconnectEvent m cm))"
  using assms unfolding timers_ok_def scheduleDisconnectEvent_def Let_def
  by (cases "fmlookup (cm_pending cm) m") (fastforce split: if_splits simp: less_Suc_eq)+

lemma frames [simp]:
  "cm_agents (cancelPendingDisconnect m cm) = cm_agents cm" "cm_heap (cancelPendingDisconnect m cm) = cm_heap cm"
  "cm_machines (cancelPendingDisconnect m cm) = cm_machines cm" "cm_timers (cancelPendingDisconnect m cm) = cm_timers cm"
  "cm_agents (scheduleDisconnectEvent m cm) = cm_agents cm" "cm_heap (scheduleDisconnectEvent m cm) = cm_heap cm"
  "cm_machines (scheduleDisconnectEvent m cm) = cm_machines cm"
  "cm_agents (mark_disconnected u n m cm) = cm_agents cm" "cm_heap (mark_disconnected u n m cm) = cm_heap cm"
  "cm_pending (mark_disconnected u n m cm) = cm_pending cm" "cm_armed (mark_disconnected u n m cm) = cm_armed cm"
  "cm_timers (mark_disconnected u n m cm) = cm_timers cm"
  "cm_agents (cancel_agent q cm) = cm_agents cm" "cm_machines (cancel_agent q cm) = cm_machines cm"
  "cm_pending (cancel_agent q cm) = cm_pending cm" "cm_armed (cancel_agent q cm) = cm_armed cm"
  "cm_timers (cancel_agent q cm) = cm_timers cm"
  by (simp_all add: cancelPendingDisconnect_def scheduleDisconnectEvent_def mark_disconnected_def cancel_agent_def Let_def
      split: option.splits)

lemma cancel_agents_ok: "agents_ok ags (cm_heap cm) \<Longrightarrow> agents_ok ags (cm_heap (cancel_agent q cm))"
  by (auto simp: agents_ok_def cancel_agent_def split: option.splits) (metis ConnectedAgent.select_convs(1) ConnectedAgent.surjective ConnectedAgent.update_convs(5) option.inject)+


lemma agents_upd:
  "agents_ok ags hp \<Longrightarrow> (\<And>a. fmlookup hp p = Some a \<Longrightarrow> ag_MachineID a' = ag_MachineID a) \<Longrightarrow> agents_ok ags (fmupd p a' hp)"
  unfolding agents_ok_def by (metis fmupd_lookup)

lemma Register_inv:
  assumes inv: "cm_inv cm" and p: "fmlookup (cm_heap cm) p = None" "ag_MachineID agent = m"
  shows "cm_inv (snd (Register True True now m p agent cm))"
proof -
  let ?c0 = "cm\<lparr>cm_heap := fmupd p agent (cm_heap cm)\<rparr>"
  let ?c1 = "cancelPendingDisconnect m ?c0"
  let ?c2 = "?c1\<lparr>cm_agents := fmupd m p (cm_agents cm)\<rparr>"
  let ?c3 = "cancel_agent (fmlookup (cm_agents cm) m) ?c2"
  have ag: "agents_ok (cm_agents cm) (cm_heap cm)" and ta: "table_ok (cm_agents cm) (cm_machines cm)"
    and ti: "timers_ok (cm_agents cm) (cm_pending cm) (cm_armed cm) (cm_timers cm)"
    using inv by (simp_all add: cm_inv_fields)
  obtain t1 where t1: "UpsertMachine True m (ag_MaxSessions agent) (ag_HomeDir agent) (cm_machines cm) = Some t1"
    using UpsertMachine_total by blast
  note up = UpsertMachine_up [OF t1]
  obtain r t2 where t2: "UpdateMachineStatus True m ''connected'' now t1 = Some t2" "fmlookup t2 m = Some r"
    "mc_status r = ''connected''" "\<And>k. k \<noteq> m \<Longrightarrow> fmlookup t2 k = fmlookup t1 k"
    using UpdateMachineStatus_up [of t1 m "''connected''" now] up by metis
  have reg: "snd (Register True True now m p agent cm) = cm_publishEvent TypeMachineConnected m (?c3\<lparr>cm_machines := t2\<rparr>)"
    by (simp add: Register_def reg_insert_def reg_persist_def Let_def t1 t2)
  have "agents_ok (cm_agents cm) (fmupd p agent (cm_heap cm))" using ag p(1) by (intro agents_upd) auto
  then have "agents_ok (fmupd m p (cm_agents cm)) (fmupd p agent (cm_heap cm))" using p(2) by (auto simp: agents_ok_def)
  then have "agents_ok (fmupd m p (cm_agents cm)) (cm_heap ?c3)" by (intro cancel_agents_ok) simp
  moreover have "table_ok (fmupd m p (cm_agents cm)) t2"
    by (rule table_ok_connect [OF ta t2(2,3)]) (use t2(4) up in simp)
  moreover have "timers_ok (fmupd m p (cm_agents cm)) (cm_pending ?c1) (cm_armed ?c1) (cm_timers cm)"
    by (rule cancelPending_timers) (use ti in simp)
  ultimately show ?thesis unfolding reg by (simp add: cm_inv_fields)
qed

lemma mark_disconnected_table:
  assumes "table_ok ags (cm_machines cm)" and "fmlookup (cm_machines cm) m \<noteq> None"
  shows "table_ok (fmdrop m ags) (cm_machines (mark_disconnected True now m cm))"
proof -
  obtain r t' where t': "UpdateMachineStatus True m ''disconnected'' now (cm_machines cm) = Some t'" "fmlookup t' m = Some r"
    "mc_status r = ''disconnected''" "\<And>k. k \<noteq> m \<Longrightarrow> fmlookup t' k = fmlookup (cm_machines cm) k"
    using UpdateMachineStatus_up [OF assms(2)] by metis
  then show ?thesis using table_ok_disconnect [OF assms(1) t'(2,3)] by (simp add: mark_disconnected_def)
qed

lemma agents_drop: "agents_ok ags hp \<Longrightarrow> agents_ok (fmdrop m ags) hp"
  by (simp add: agents_ok_def)

lemma Disconnect_inv:
  assumes inv: "cm_inv cm" and m: "fmlookup (cm_machines cm) m \<noteq> None"
  shows "cm_inv (Disconnect True now m cm)"
proof -
  let ?c = "mark_disconnected True now m (cm\<lparr>cm_agents := fmdrop m (cm_agents cm)\<rparr>)"
  have "timers_ok (fmdrop m (cm_agents cm)) (cm_pending (scheduleDisconnectEvent m ?c)) (cm_armed (scheduleDisconnectEvent m ?c))
      (cm_timers (scheduleDisconnectEvent m ?c))"
    by (rule schedule_timers) (use inv in \<open>simp add: cm_inv_fields\<close>)
  moreover have "table_ok (fmdrop m (cm_agents cm)) (cm_machines ?c)"
    by (rule mark_disconnected_table) (use inv m in \<open>simp_all add: cm_inv_fields\<close>)
  ultimately show ?thesis using inv by (simp add: cm_inv_fields Disconnect_def agents_drop)
qed

lemma registered_in_table: "cm_inv cm \<Longrightarrow> fmlookup (cm_agents cm) m = Some p \<Longrightarrow> fmlookup (cm_machines cm) m \<noteq> None"
  by (force simp: cm_inv_def db_connected_def)

lemma DisconnectIfMatch_inv:
  assumes "cm_inv cm"
  shows "cm_inv (snd (DisconnectIfMatch True now m p cm))"
proof (cases "fmlookup (cm_agents cm) m = Some p")
  case True
  then have "snd (DisconnectIfMatch True now m p cm) = Disconnect True now m cm"
    by (simp add: DisconnectIfMatch_def remove_if_def Disconnect_def)
  then show ?thesis using Disconnect_inv [OF assms registered_in_table [OF assms True]] by simp
qed (use assms in \<open>simp add: DisconnectIfMatch_def remove_if_def\<close>)

lemma sweep_one_inv:
  assumes inv: "cm_inv cm"
  shows "cm_inv (sweep_one True now p cm)"
proof (cases "fmlookup (cm_heap cm) p")
  case (Some a)
  let ?m = "ag_MachineID a"
  show ?thesis
  proof (cases "fmlookup (cm_agents cm) ?m = Some p")
    case True
    let ?c0 = "cm\<lparr>cm_agents := fmdrop ?m (cm_agents cm)\<rparr>"
    let ?done = "mark_disconnected True now ?m (cancel_agent (Some p) ?c0)"
    have "agents_ok (fmdrop ?m (cm_agents cm)) (cm_heap ?c0)" using inv by (simp add: cm_inv_fields agents_drop)
    then have "agents_ok (fmdrop ?m (cm_agents cm)) (cm_heap (cancel_agent (Some p) ?c0))" by (rule cancel_agents_ok)
    moreover have "table_ok (fmdrop ?m (cm_agents cm)) (cm_machines ?done)"
      by (rule mark_disconnected_table) (use inv registered_in_table [OF inv True] in \<open>simp_all add: cm_inv_fields\<close>)
    moreover have "timers_ok (fmdrop ?m (cm_agents cm)) (cm_pending cm) (cm_armed cm) (cm_timers cm)"
      using inv by (auto simp: cm_inv_fields timers_ok_def)
    ultimately show ?thesis using Some True by (simp add: sweep_one_def remove_if_def cm_inv_fields)
  qed (use Some inv in \<open>simp add: sweep_one_def remove_if_def\<close>)
qed (use inv in \<open>simp add: sweep_one_def\<close>)

lemma sweep_inv: "cm_inv cm \<Longrightarrow> cm_inv (sweepStaleAgents True now order cm)"
proof -
  have "cm_inv cm \<Longrightarrow> cm_inv (fold (sweep_one True now) ps cm)" for ps
    by (induction ps arbitrary: cm) (simp_all add: sweep_one_inv)
  then show "cm_inv cm \<Longrightarrow> ?thesis" by (simp add: sweepStaleAgents_def)
qed

interpretation connections: invariant_system cm_init cm_step cm_inv
proof
  fix cm assume "cm_init cm"
  then show "cm_inv cm"
    by (auto simp: cm_init_def cm_inv_def db_connected_def cm_SetPublisher_def NewConnectionManager_def)
next
  fix cm cm' assume inv: "cm_inv cm" and "cm_step cm cm'"
  from this(2) show "cm_inv cm'"
  proof cases
    case (cm_dead p a)
    then show ?thesis using inv by (auto simp: cm_inv_fields intro!: agents_upd)
  next
    case (cm_health p h)
    then show ?thesis using inv by (auto simp: cm_inv_fields UpdateHealth_def split: option.splits intro!: agents_upd)
  next
    case (cm_timer t m c)
    then have t: "fmlookup (cm_armed cm) t = Some m" and cm': "cm' = disconnect_callback m (cm\<lparr>cm_armed := fmdrop t (cm_armed cm)\<rparr>)"
      by (auto simp: fire_timer_def split: option.splits)
    have "timers_ok (cm_agents cm) (fmdrop m (cm_pending cm)) (fmdrop t (cm_armed cm)) (cm_timers cm)"
      using inv t unfolding cm_inv_fields timers_ok_def by (metis fmlookup_drop option.distinct(1) option.inject)
    then show ?thesis using inv by (simp add: cm' cm_inv_fields disconnect_callback_def)
  qed (use inv in \<open>auto intro: Register_inv Disconnect_inv DisconnectIfMatch_inv sweep_inv\<close>)
qed


text \<open>
  When requests do not overlap and the database is up, the table says \<open>connected\<close>
  exactly for the machines that \<open>GetAgent\<close> finds, and a disconnect notification whose
  grace period elapses is for a machine that is not connected: reconnecting within the
  grace period suppresses it.
\<close>

theorem connections_agree:
  assumes "reachable cm_init cm_step cm"
  shows "(db_connected m cm \<longleftrightarrow> GetAgent m cm \<noteq> None) \<and>
    (\<forall>t cm'. fire_timer t cm = Some (m, cm') \<longrightarrow> GetAgent m cm = None)"
proof -
  have inv: "cm_inv cm" using assms by (rule connections.reachable_inv)
  have "GetAgent m cm \<noteq> None \<longleftrightarrow> fmlookup (cm_agents cm) m \<noteq> None"
    using inv by (fastforce simp: GetAgent_def cm_inv_def split: option.splits)
  moreover have "db_connected m cm \<longleftrightarrow> fmlookup (cm_agents cm) m \<noteq> None" using inv by (simp add: cm_inv_def)
  moreover have "fmlookup (cm_agents cm) m = None" if "fire_timer t cm = Some (m, cm')" for t cm'
    using that inv by (auto simp: fire_timer_def cm_inv_def split: option.splits)
  ultimately show ?thesis by metis
qed

definition agent_m :: ConnectedAgent where
  "agent_m = \<lparr>ag_MachineID = ''m'', ag_RegisteredAt = 1, ag_MaxSessions = 5, ag_HomeDir = ''/root'', ag_Cancelled = False,
              ag_ctxDone = False, ag_health = None\<rparr>"

definition cm0 :: ConnectionManager where "cm0 = cm_SetPublisher (NewConnectionManager fmempty)"
definition cm1 :: ConnectionManager where "cm1 = snd (Register True True 2 ''m'' 0 agent_m cm0)"

theorem connections_agree_witness: "db_connected ''m'' cm1 \<and> GetAgent ''m'' cm1 \<noteq> None"
proof -
  have "reachable cm_init cm_step cm0" by (rule reach_init) (auto simp: cm_init_def cm0_def intro!: exI [of _ fmempty])
  moreover have "cm_step cm0 cm1"
    unfolding cm1_def by (rule cm_register) (simp_all add: cm0_def agent_m_def cm_SetPublisher_def NewConnectionManager_def)
  ultimately have "reachable cm_init cm_step cm1" by (rule reach_step)
  moreover have "GetAgent ''m'' cm1 \<noteq> None" by code_simp
  ultimately show ?thesis using connections_agree [of cm1 "''m''"] by blast
qed

text \<open>
  Overlapping requests break it. The stream of agent 0 closes and is removed from memory;
  before its status reaches the table, agent 1 registers; the late write then marks the
  connected machine as disconnected and schedules a notification that nothing suppresses.
\<close>

lemma late_disconnect_overwrites:
  "let c1 = snd (remove_if ''m'' 0 cm1);
       c2 = snd (Register True True 3 ''m'' 1 agent_m c1);
       c3 = scheduleDisconnectEvent ''m'' (mark_disconnected True 4 ''m'' c2)
   in GetAgent ''m'' c3 \<noteq> None \<and> map_option mc_status (fmlookup (cm_machines c3) ''m'') = Some ''disconnected'' \<and>
      fmlookup (cm_armed c3) 0 = Some ''m''"
  by code_simp

end
