(* ===== verification/Session_Store.thy ===== *)
theory Session_Store
  imports Conn_Manager Job_Store
begin

text \<open>
  The table \<open>sessions\<close> (\<open>store/sessions.go\<close>). A column that may be \<open>NULL\<close> and is read as
  the empty string is kept as the empty string. The foreign keys of a session are its
  machine and, unless they are empty, its user and its template; the last two tables are
  the argument \<open>known\<close>.
\<close>

record Session =
  sn_SessionID :: string
  sn_MachineID :: string
  sn_UserID :: string
  sn_TemplateID :: string
  sn_Command :: string
  sn_WorkingDir :: string
  sn_Status :: string
  sn_Model :: string
  sn_SkipPerms :: string
  sn_EnvVars :: string
  sn_Args :: string
  sn_InitialPrompt :: string
  sn_CreatedAt :: time
  sn_UpdatedAt :: time
  sn_EndedAt :: "time option"

abbreviation session_ids :: "Session list \<Rightarrow> string list" where
  "session_ids rows \<equiv> map sn_SessionID rows"

text \<open>The zero value a composite literal starts from.\<close>

definition session0 :: Session where
  "session0 = \<lparr>sn_SessionID = '''', sn_MachineID = '''', sn_UserID = '''', sn_TemplateID = '''',
     sn_Command = '''', sn_WorkingDir = '''', sn_Status = '''', sn_Model = '''', sn_SkipPerms = '''',
     sn_EnvVars = '''', sn_Args = '''', sn_InitialPrompt = '''', sn_CreatedAt = 0, sn_UpdatedAt = 0,
     sn_EndedAt = None\<rparr>"

definition CreateSession :: "time \<Rightarrow> machines \<Rightarrow> (string \<Rightarrow> bool) \<Rightarrow> Session \<Rightarrow> Session list \<Rightarrow>
    store_error + Session list" where
  "CreateSession now machines known sess rows =
     (if sn_SessionID sess \<in> set (session_ids rows) \<or> fmlookup machines (sn_MachineID sess) = None \<or>
         (sn_UserID sess \<noteq> '''' \<and> \<not> known (sn_UserID sess)) \<or>
         (sn_TemplateID sess \<noteq> '''' \<and> \<not> known (sn_TemplateID sess))
      then Inl ErrConstraint
      else Inr (rows @ [sess\<lparr>sn_CreatedAt := now, sn_UpdatedAt := now, sn_EndedAt := None\<rparr>]))"

definition GetSession :: "string \<Rightarrow> Session list \<Rightarrow> store_error + Session" where
  "GetSession id' rows =
     (case find (\<lambda>r. sn_SessionID r = id') rows of None \<Rightarrow> Inl ErrNotFound | Some r \<Rightarrow> Inr r)"

definition ListSessions :: "Session list \<Rightarrow> Session list" where
  "ListSessions rows = sort_key (\<lambda>r. - sn_CreatedAt r) rows"

definition ListSessionsByMachine :: "string \<Rightarrow> Session list \<Rightarrow> Session list" where
  "ListSessionsByMachine machineID rows = ListSessions (filter (\<lambda>r. sn_MachineID r = machineID) rows)"

definition ListSessionsByStatus :: "string \<Rightarrow> Session list \<Rightarrow> Session list" where
  "ListSessionsByStatus status rows = ListSessions (filter (\<lambda>r. sn_Status r = status) rows)"

definition terminal_status :: "string \<Rightarrow> bool" where
  "terminal_status st \<longleftrightarrow> st = StatusCompleted \<or> st = StatusFailed \<or> st = StatusTerminated"

definition session_status_set :: "time \<Rightarrow> string \<Rightarrow> Session \<Rightarrow> Session" where
  "session_status_set now status r =
     r\<lparr>sn_Status := status, sn_UpdatedAt := now,
       sn_EndedAt := (if terminal_status status then Some now else sn_EndedAt r)\<rparr>"

definition UpdateSessionStatus :: "time \<Rightarrow> string \<Rightarrow> string \<Rightarrow> Session list \<Rightarrow> store_error + Session list" where
  "UpdateSessionStatus now id' status rows =
     (if id' \<notin> set (session_ids rows) then Inl ErrNotFound
      else Inr (map (\<lambda>r. if sn_SessionID r = id' then session_status_set now status r else r) rows))"

definition UpdateSessionStatusIfNotTerminal :: "time \<Rightarrow> string \<Rightarrow> string \<Rightarrow> Session list \<Rightarrow> Session list" where
  "UpdateSessionStatusIfNotTerminal now id' status rows =
     map (\<lambda>r. if sn_SessionID r = id' \<and> \<not> terminal_status (sn_Status r)
              then r\<lparr>sn_Status := status, sn_UpdatedAt := now, sn_EndedAt := Some now\<rparr> else r) rows"

definition DeleteSession :: "string \<Rightarrow> Session list \<Rightarrow> store_error + Session list" where
  "DeleteSession id' rows =
     (if id' \<notin> set (session_ids rows) then Inl ErrNotFound
      else Inr (filter (\<lambda>r. sn_SessionID r \<noteq> id') rows))"

end
