(* ===== verification/Session_Executor.thy ===== *)
theory Session_Executor
  imports Session_Store Resolver
begin

text \<open>
  \<open>internal/server/executor/session_executor.go\<close> and \<open>internal/shared/cliutil/args.go\<close>: how a
  step of a run is executed as a session on an agent.

  A function that calls the agent or the store takes an \<open>exec_env\<close>: the clock, a fresh
  identifier, which store calls fail, which commands the agent's stream accepts, and the
  results of \<open>encoding/json\<close> and of the \<open>RunStarter\<close>. \<open>ex_calls\<close> holds the calls of
  \<open>onComplete\<close> that were made and not handled yet; a callback is identified by the runner it
  belongs to. \<open>ExecuteStep\<close> ends where the code takes the lock of \<open>sessionToStep\<close> the next
  time: what remains is an \<open>exec_next\<close>, so that other goroutines may run in between. A
  running \<open>monitorSessionExit\<close> is an entry of \<open>ex_monitors\<close>, and each turn of its loop is one
  operation.
\<close>

section \<open>Command-line arguments\<close>

definition StripFlag :: "string list \<Rightarrow> string \<Rightarrow> string list" where
  "StripFlag args flag = filter (\<lambda>a. a \<noteq> flag) args"

fun strip_loop :: "string \<Rightarrow> bool \<Rightarrow> string list \<Rightarrow> string list" where
  "strip_loop flag skip [] = []"
| "strip_loop flag skip (a # rest) =
     (if skip then strip_loop flag False rest
      else if a = flag then strip_loop flag True rest
      else a # strip_loop flag False rest)"

definition StripFlagWithValue :: "string list \<Rightarrow> string \<Rightarrow> string list" where
  "StripFlagWithValue args flag = strip_loop flag False args"

definition ParseArgs :: "(string \<Rightarrow> string list option) \<Rightarrow> string \<Rightarrow> string list" where
  "ParseArgs unmarshal argsSnapshot =
     (let trimmed = TrimSpace argsSnapshot
      in if trimmed = '''' then []
         else case unmarshal trimmed of None \<Rightarrow> [] | Some args \<Rightarrow> args)"

section \<open>State\<close>

definition defaultCommand :: string where "defaultCommand = ''claude''"
definition defaultTermRows :: int where "defaultTermRows = 24"
definition defaultTermCols :: int where "defaultTermCols = 80"
definition failureExitCode :: int where "failureExitCode = 1"
definition timeoutExitCode :: int where "timeoutExitCode = 124"
definition maxNotFoundRetries :: int where "maxNotFoundRetries = 5"

text \<open>Durations in nanoseconds.\<close>

definition second :: time where "second = 1000000000"
definition defaultTimeout :: time where "defaultTimeout = 3600 * second"

record CreateSessionCmd =
  cc_SessionId :: string
  cc_Command :: string
  cc_Args :: "string list"
  cc_WorkingDir :: string
  cc_EnvVars :: "(string, string) fmap"
  cc_Rows :: int
  cc_Cols :: int
  cc_InitialPrompt :: string
  cc_TaskType :: string
  cc_KeepAlive :: bool

datatype ServerCommand =
    CmdCreateSession CreateSessionCmd
  | CmdInputData string string
  | CmdKillSession string string

text \<open>\<open>tk_onComplete\<close> names the runner that is called back, \<open>tk_cancel\<close> the monitor it stops.\<close>

record stepTracking =
  tk_runID :: string
  tk_runStepID :: string
  tk_stepID :: string
  tk_onComplete :: nat
  tk_cancel :: "nat option"

record sessionKeyEntry =
  ke_runID :: string
  ke_sessionKey :: string

record sharedSessionEntry =
  se_sessionID :: string
  se_machineID :: string

text \<open>The variables of \<open>monitorSessionExit\<close>; \<open>mo_ctxDone\<close>: its context was cancelled.\<close>

record monitor =
  mo_sessionID :: string
  mo_machineID :: string
  mo_deadline :: time
  mo_notFoundCount :: int
  mo_ctxDone :: bool

record SessionStepExecutor =
  ex_connMgr :: ConnectionManager
  ex_store :: db
  ex_sessions :: "Session list"
  ex_runStarter :: bool
  ex_sessionToStep :: "(string, stepTracking) fmap"
  ex_sharedSessions :: "(sessionKeyEntry, sharedSessionEntry) fmap"
  ex_monitors :: "(nat, monitor) fmap"
  ex_sent :: "(string \<times> ServerCommand) list"
  ex_started :: "(string \<times> (string, string) fmap) list"
  ex_calls :: "(nat \<times> string \<times> int) list"

datatype exec_call = XCreateSession | XGetSession | XUpdateSession | XRunStep string | XErrorMessage

record exec_env =
  xv_now :: time
  xv_uid :: string
  xv_fault :: "exec_call \<Rightarrow> bool"
  xv_accepts :: "ServerCommand \<Rightarrow> bool"
  xv_args :: "string \<Rightarrow> string list option"
  xv_params :: "string \<Rightarrow> (string, string) fmap option"
  xv_startRun :: "string \<Rightarrow> (string, string) fmap \<Rightarrow> bool"

datatype exec_next =
    Finished
  | ToTrack string
  | ToSend string string string

definition xcall :: "exec_env \<Rightarrow> exec_call \<Rightarrow> (store_error + 'a) \<Rightarrow> store_error + 'a" where
  "xcall env c r = (if xv_fault env c then Inl ErrUnavailable else r)"

definition NewSessionStepExecutor :: "ConnectionManager \<Rightarrow> db \<Rightarrow> Session list \<Rightarrow> SessionStepExecutor" where
  "NewSessionStepExecutor cm d rows =
     \<lparr>ex_connMgr = cm, ex_store = d, ex_sessions = rows, ex_runStarter = False, ex_sessionToStep = fmempty,
      ex_sharedSessions = fmempty, ex_monitors = fmempty, ex_sent = [], ex_started = [], ex_calls = []\<rparr>"

definition SetRunStarter :: "SessionStepExecutor \<Rightarrow> SessionStepExecutor" where
  "SetRunStarter e = e\<lparr>ex_runStarter := True\<rparr>"

definition RunStepIDForSession :: "string \<Rightarrow> SessionStepExecutor \<Rightarrow> string option" where
  "RunStepIDForSession sessionID e = map_option tk_runStepID (fmlookup (ex_sessionToStep e) sessionID)"

text \<open>The call of \<open>onComplete\<close>, and status updates whose failure is only logged.\<close>

definition onComplete :: "nat \<Rightarrow> string \<Rightarrow> int \<Rightarrow> SessionStepExecutor \<Rightarrow> SessionStepExecutor" where
  "onComplete cb stepID exitCode e = e\<lparr>ex_calls := ex_calls e @ [(cb, stepID, exitCode)]\<rparr>"

definition put_status :: "exec_env \<Rightarrow> string \<Rightarrow> string \<Rightarrow> string \<Rightarrow> int \<Rightarrow> SessionStepExecutor \<Rightarrow> SessionStepExecutor" where
  "put_status env runStepID status sessionID exitCode e =
     (case xcall env (XRunStep status) (UpdateRunStepStatus (xv_now env) runStepID status sessionID exitCode (ex_store e)) of
        Inl _ \<Rightarrow> e | Inr d \<Rightarrow> e\<lparr>ex_store := d\<rparr>)"

definition SendCommand :: "exec_env \<Rightarrow> string \<Rightarrow> ServerCommand \<Rightarrow> SessionStepExecutor \<Rightarrow> bool \<times> SessionStepExecutor" where
  "SendCommand env machineID cmd e =
     (if xv_accepts env cmd then (True, e\<lparr>ex_sent := ex_sent e @ [(machineID, cmd)]\<rparr>) else (False, e))"

section \<open>Executing a step\<close>

definition resolveField :: "string \<Rightarrow> ResolveContext option \<Rightarrow> string" where
  "resolveField val rc =
     (case rc of
        None \<Rightarrow> val
      | Some r \<Rightarrow> if val = '''' then val
                  else ResolveReferences val (rx_RunParams r) (rx_JobMeta r) (rx_StepValues r) (rx_StepResults r))"

text \<open>The failures of a \<open>run_job\<close> step before it starts: running, failed, reported.\<close>

definition fail_run_job :: "exec_env \<Rightarrow> RunStep \<Rightarrow> nat \<Rightarrow> SessionStepExecutor \<Rightarrow> SessionStepExecutor" where
  "fail_run_job env rs cb e =
     onComplete cb (rs_StepID rs) failureExitCode
       (put_status env (rs_RunStepID rs) StatusFailed '''' failureExitCode
         (put_status env (rs_RunStepID rs) StatusRunning '''' 0 e))"

definition executeRunJob :: "exec_env \<Rightarrow> RunStep \<Rightarrow> ResolveContext option \<Rightarrow> nat \<Rightarrow> SessionStepExecutor \<Rightarrow>
    SessionStepExecutor" where
  "executeRunJob env rs rc cb e =
     (let targetJobID = resolveField (rs_TargetJobIDSnapshot rs) rc
      in if targetJobID = '''' then fail_run_job env rs cb e
         else if \<not> ex_runStarter e then fail_run_job env rs cb e
         else case (if rs_JobParamsSnapshot rs = '''' then Some fmempty else xv_params env (rs_JobParamsSnapshot rs)) of
                None \<Rightarrow> fail_run_job env rs cb e
              | Some params \<Rightarrow>
                  (let params = (if rc = None then params else fmmap (\<lambda>v. resolveField v rc) params);
                       e = put_status env (rs_RunStepID rs) StatusRunning '''' 0 e
                   in if \<not> xv_startRun env targetJobID params
                      then onComplete cb (rs_StepID rs) failureExitCode
                             (put_status env (rs_RunStepID rs) StatusFailed '''' failureExitCode e)
                      else onComplete cb (rs_StepID rs) 0
                             (put_status env (rs_RunStepID rs) StatusCompleted '''' 0
                               (e\<lparr>ex_started := ex_started e @ [(targetJobID, params)]\<rparr>))))"

definition skipFlag :: string where "skipFlag = ''--dangerously-skip-permissions''"
definition modelFlag :: string where "modelFlag = ''--model''"

definition claude_command :: "RunStep \<Rightarrow> string" where
  "claude_command rs = (if rs_CommandSnapshot rs = '''' then defaultCommand else rs_CommandSnapshot rs)"

definition claude_args :: "exec_env \<Rightarrow> RunStep \<Rightarrow> string list" where
  "claude_args env rs =
     (let args = ParseArgs (xv_args env) (rs_ArgsSnapshot rs);
          args = (if rs_SkipPermissionsSnapshot rs = None \<or> rs_SkipPermissionsSnapshot rs \<noteq> Some 0
                  then skipFlag # StripFlag args skipFlag else args)
      in if rs_ModelSnapshot rs \<noteq> ''''
         then StripFlagWithValue args modelFlag @ [modelFlag, rs_ModelSnapshot rs] else args)"

text \<open>
  The part the three ways to open a session have in common: the row of the session, the link
  from the run step, and the command to the agent, with the failure branches.
\<close>

definition open_session :: "exec_env \<Rightarrow> RunStep \<Rightarrow> nat \<Rightarrow> CreateSessionCmd \<Rightarrow> SessionStepExecutor \<Rightarrow>
    exec_next \<times> SessionStepExecutor" where
  "open_session env rs cb cmd e =
     (let sessionID = cc_SessionId cmd;
          sess = session0\<lparr>sn_SessionID := sessionID, sn_MachineID := rs_MachineIDSnapshot rs,
                   sn_Command := cc_Command cmd, sn_WorkingDir := cc_WorkingDir cmd, sn_Status := StatusCreated\<rparr>
      in case xcall env XCreateSession (CreateSession (xv_now env) (cm_machines (ex_connMgr e)) (\<lambda>_. True) sess (ex_sessions e)) of
           Inl _ \<Rightarrow> (Finished, onComplete cb (rs_StepID rs) failureExitCode e)
         | Inr rows \<Rightarrow>
             (let e = put_status env (rs_RunStepID rs) StatusRunning sessionID 0 (e\<lparr>ex_sessions := rows\<rparr>)
              in case SendCommand env (rs_MachineIDSnapshot rs) (CmdCreateSession cmd) e of
                   (True, e) \<Rightarrow> (ToTrack sessionID, e)
                 | (False, e) \<Rightarrow>
                     (Finished, onComplete cb (rs_StepID rs) failureExitCode
                        (case xcall env XUpdateSession (UpdateSessionStatus (xv_now env) sessionID StatusFailed (ex_sessions e)) of
                           Inl _ \<Rightarrow> e | Inr rows \<Rightarrow> e\<lparr>ex_sessions := rows\<rparr>))))"

definition session_cmd :: "exec_env \<Rightarrow> RunStep \<Rightarrow> string \<Rightarrow> string list \<Rightarrow> string \<Rightarrow> string \<Rightarrow> bool \<Rightarrow> CreateSessionCmd" where
  "session_cmd env rs command args prompt taskType keepAlive =
     \<lparr>cc_SessionId = xv_uid env, cc_Command = command, cc_Args = args, cc_WorkingDir = rs_WorkingDirSnapshot rs, cc_EnvVars = fmempty,
      cc_Rows = defaultTermRows, cc_Cols = defaultTermCols, cc_InitialPrompt = prompt,
      cc_TaskType = taskType, cc_KeepAlive = keepAlive\<rparr>"

definition executeSharedFirstStep :: "exec_env \<Rightarrow> RunStep \<Rightarrow> ResolveContext option \<Rightarrow> nat \<Rightarrow> sessionKeyEntry \<Rightarrow>
    SessionStepExecutor \<Rightarrow> exec_next \<times> SessionStepExecutor" where
  "executeSharedFirstStep env rs rc cb key e =
     (case GetAgent (rs_MachineIDSnapshot rs) (ex_connMgr e) of
        None \<Rightarrow> (Finished, onComplete cb (rs_StepID rs) failureExitCode e)
      | Some _ \<Rightarrow>
          (case open_session env rs cb
                  (session_cmd env rs (claude_command rs) (claude_args env rs) (resolveField (rs_PromptSnapshot rs) rc)
                     ''claude_session'' True) e of
             (ToTrack sessionID, e) \<Rightarrow>
               (ToTrack sessionID,
                e\<lparr>ex_sharedSessions := fmupd key
                    \<lparr>se_sessionID = sessionID, se_machineID = rs_MachineIDSnapshot rs\<rparr> (ex_sharedSessions e)\<rparr>)
           | r \<Rightarrow> r))"

definition executeSharedSubsequentStep :: "exec_env \<Rightarrow> RunStep \<Rightarrow> ResolveContext option \<Rightarrow> nat \<Rightarrow> string \<Rightarrow> string \<Rightarrow>
    SessionStepExecutor \<Rightarrow> exec_next \<times> SessionStepExecutor" where
  "executeSharedSubsequentStep env rs rc cb sessionID machineID e =
     (case GetAgent machineID (ex_connMgr e) of
        None \<Rightarrow> (Finished, onComplete cb (rs_StepID rs) failureExitCode e)
      | Some _ \<Rightarrow>
          (let resolvedPrompt = resolveField (rs_PromptSnapshot rs) rc;
               e = put_status env (rs_RunStepID rs) StatusRunning sessionID 0 e;
               tracking = \<lparr>tk_runID = rs_RunID rs, tk_runStepID = rs_RunStepID rs, tk_stepID = rs_StepID rs,
                           tk_onComplete = cb, tk_cancel = None\<rparr>
           in (ToSend sessionID machineID (resolvedPrompt @ [CHR 0x0D]),
               e\<lparr>ex_sessionToStep := fmupd sessionID tracking (ex_sessionToStep e)\<rparr>)))"

definition executeSharedSession :: "exec_env \<Rightarrow> RunStep \<Rightarrow> ResolveContext option \<Rightarrow> nat \<Rightarrow> SessionStepExecutor \<Rightarrow>
    exec_next \<times> SessionStepExecutor" where
  "executeSharedSession env rs rc cb e =
     (let key = \<lparr>ke_runID = rs_RunID rs, ke_sessionKey = rs_SessionKeySnapshot rs\<rparr>
      in case fmlookup (ex_sharedSessions e) key of
           Some existing \<Rightarrow> executeSharedSubsequentStep env rs rc cb (se_sessionID existing) (se_machineID existing) e
         | None \<Rightarrow> executeSharedFirstStep env rs rc cb key e)"

definition executeClaudeSession :: "exec_env \<Rightarrow> RunStep \<Rightarrow> ResolveContext option \<Rightarrow> nat \<Rightarrow> SessionStepExecutor \<Rightarrow>
    exec_next \<times> SessionStepExecutor" where
  "executeClaudeSession env rs rc cb e =
     (if rs_SessionKeySnapshot rs \<noteq> '''' then executeSharedSession env rs rc cb e
      else case GetAgent (rs_MachineIDSnapshot rs) (ex_connMgr e) of
             None \<Rightarrow> (Finished, onComplete cb (rs_StepID rs) failureExitCode e)
           | Some _ \<Rightarrow>
               open_session env rs cb
                 (session_cmd env rs (claude_command rs) (claude_args env rs) (resolveField (rs_PromptSnapshot rs) rc)
                    ''claude_session'' False) e)"

definition executeShellTask :: "exec_env \<Rightarrow> RunStep \<Rightarrow> ResolveContext option \<Rightarrow> nat \<Rightarrow> SessionStepExecutor \<Rightarrow>
    exec_next \<times> SessionStepExecutor" where
  "executeShellTask env rs rc cb e =
     (if rs_CommandSnapshot rs = '''' then (Finished, onComplete cb (rs_StepID rs) failureExitCode e)
      else case GetAgent (rs_MachineIDSnapshot rs) (ex_connMgr e) of
             None \<Rightarrow> (Finished, onComplete cb (rs_StepID rs) failureExitCode e)
           | Some _ \<Rightarrow>
               open_session env rs cb
                 (session_cmd env rs (rs_CommandSnapshot rs) (ParseArgs (xv_args env) (resolveField (rs_ArgsSnapshot rs) rc))
                    '''' ''shell'' False) e)"

definition ExecuteStep :: "exec_env \<Rightarrow> RunStep \<Rightarrow> ResolveContext option \<Rightarrow> nat \<Rightarrow> SessionStepExecutor \<Rightarrow>
    exec_next \<times> SessionStepExecutor" where
  "ExecuteStep env rs rc cb e =
     (if rs_TaskTypeSnapshot rs = ''shell'' then executeShellTask env rs rc cb e
      else if rs_TaskTypeSnapshot rs = ''run_job'' then (Finished, executeRunJob env rs rc cb e)
      else executeClaudeSession env rs rc cb e)"

section \<open>Monitoring and completion\<close>

text \<open>The product of two 64-bit durations wraps around.\<close>

definition int64 :: "int \<Rightarrow> int" where "int64 n = (n + 2 ^ 63) mod 2 ^ 64 - 2 ^ 63"

definition stepTimeout :: "RunStep \<Rightarrow> time" where
  "stepTimeout rs =
     (if rs_TimeoutSecondsSnapshot rs > 0 then int64 (rs_TimeoutSecondsSnapshot rs * second) else defaultTimeout)"

definition trackAndMonitor :: "exec_env \<Rightarrow> nat \<Rightarrow> RunStep \<Rightarrow> string \<Rightarrow> nat \<Rightarrow> SessionStepExecutor \<Rightarrow> SessionStepExecutor" where
  "trackAndMonitor env k rs sessionID cb e =
     (let e = put_status env (rs_RunStepID rs) StatusRunning sessionID 0 e;
          tracking = \<lparr>tk_runID = rs_RunID rs, tk_runStepID = rs_RunStepID rs, tk_stepID = rs_StepID rs,
                      tk_onComplete = cb, tk_cancel = Some k\<rparr>
      in e\<lparr>ex_sessionToStep := fmupd sessionID tracking (ex_sessionToStep e),
           ex_monitors := fmupd k
             \<lparr>mo_sessionID = sessionID, mo_machineID = rs_MachineIDSnapshot rs,
              mo_deadline = xv_now env + stepTimeout rs, mo_notFoundCount = 0, mo_ctxDone = False\<rparr> (ex_monitors e)\<rparr>)"

definition error_message :: "exec_env \<Rightarrow> stepTracking \<Rightarrow> int \<Rightarrow> SessionStepExecutor \<Rightarrow> SessionStepExecutor" where
  "error_message env tracking exitCode e =
     (if exitCode = 0 then e
      else case xcall env XErrorMessage (UpdateRunStepErrorMessage (tk_runStepID tracking)
                  (''Process exited with code '' @ itoa exitCode) (ex_store e)) of
             Inl _ \<Rightarrow> e | Inr d \<Rightarrow> e\<lparr>ex_store := d\<rparr>)"

definition cancel_monitor :: "nat option \<Rightarrow> SessionStepExecutor \<Rightarrow> SessionStepExecutor" where
  "cancel_monitor k e =
     (case k of
        None \<Rightarrow> e
      | Some i \<Rightarrow> (case fmlookup (ex_monitors e) i of
                     None \<Rightarrow> e
                   | Some m \<Rightarrow> e\<lparr>ex_monitors := fmupd i (m\<lparr>mo_ctxDone := True\<rparr>) (ex_monitors e)\<rparr>))"

definition completeStep :: "exec_env \<Rightarrow> string \<Rightarrow> int \<Rightarrow> SessionStepExecutor \<Rightarrow> SessionStepExecutor" where
  "completeStep env sessionID exitCode e =
     (case fmlookup (ex_sessionToStep e) sessionID of
        None \<Rightarrow> e
      | Some tracking \<Rightarrow>
          onComplete (tk_onComplete tracking) (tk_stepID tracking) exitCode
            (cancel_monitor (tk_cancel tracking)
              (error_message env tracking exitCode
                (e\<lparr>ex_sessionToStep := fmdrop sessionID (ex_sessionToStep e)\<rparr>))))"

definition completeSharedStep :: "exec_env \<Rightarrow> string \<Rightarrow> int \<Rightarrow> SessionStepExecutor \<Rightarrow> SessionStepExecutor" where
  "completeSharedStep env sessionID exitCode e =
     (case fmlookup (ex_sessionToStep e) sessionID of
        None \<Rightarrow> e
      | Some tracking \<Rightarrow>
          onComplete (tk_onComplete tracking) (tk_stepID tracking) exitCode
            (error_message env tracking exitCode
              (e\<lparr>ex_sessionToStep := fmdrop sessionID (ex_sessionToStep e)\<rparr>)))"

definition OnStepIdle :: "exec_env \<Rightarrow> string \<Rightarrow> SessionStepExecutor \<Rightarrow> SessionStepExecutor" where
  "OnStepIdle env sessionID e = completeSharedStep env sessionID 0 e"

text \<open>The rest of \<open>executeSharedSubsequentStep\<close> after the step is tracked.\<close>

definition send_input :: "exec_env \<Rightarrow> string \<Rightarrow> string \<Rightarrow> string \<Rightarrow> SessionStepExecutor \<Rightarrow> SessionStepExecutor" where
  "send_input env sessionID machineID data e =
     (case SendCommand env machineID (CmdInputData sessionID data) e of
        (True, e) \<Rightarrow> e
      | (False, e) \<Rightarrow> completeSharedStep env sessionID failureExitCode e)"

definition sendKill :: "exec_env \<Rightarrow> string \<Rightarrow> string \<Rightarrow> SessionStepExecutor \<Rightarrow> SessionStepExecutor" where
  "sendKill env machineID sessionID e =
     (case GetAgent machineID (ex_connMgr e) of
        None \<Rightarrow> e
      | Some _ \<Rightarrow> snd (SendCommand env machineID (CmdKillSession sessionID ''SIGTERM'') e))"

text \<open>One turn of \<open>monitorSessionExit\<close>: the context is done, or the ticker fires.\<close>

definition end_monitor :: "nat \<Rightarrow> SessionStepExecutor \<Rightarrow> SessionStepExecutor" where
  "end_monitor k e = e\<lparr>ex_monitors := fmdrop k (ex_monitors e)\<rparr>"

definition monitor_done :: "exec_env \<Rightarrow> nat \<Rightarrow> monitor \<Rightarrow> SessionStepExecutor \<Rightarrow> SessionStepExecutor" where
  "monitor_done env k m e =
     end_monitor k (completeStep env (mo_sessionID m) failureExitCode (sendKill env (mo_machineID m) (mo_sessionID m) e))"

definition monitor_tick :: "exec_env \<Rightarrow> nat \<Rightarrow> monitor \<Rightarrow> SessionStepExecutor \<Rightarrow> SessionStepExecutor" where
  "monitor_tick env k m e =
     (if xv_now env > mo_deadline m
      then end_monitor k (completeStep env (mo_sessionID m) timeoutExitCode
             (sendKill env (mo_machineID m) (mo_sessionID m) e))
      else case xcall env XGetSession (GetSession (mo_sessionID m) (ex_sessions e)) of
             Inl er \<Rightarrow>
               if er = ErrNotFound
               then (let n = mo_notFoundCount m + 1
                     in if n \<ge> maxNotFoundRetries
                        then end_monitor k (completeStep env (mo_sessionID m) failureExitCode e)
                        else e\<lparr>ex_monitors := fmupd k (m\<lparr>mo_notFoundCount := n\<rparr>) (ex_monitors e)\<rparr>)
               else e
           | Inr sess \<Rightarrow>
               if sn_Status sess = StatusCompleted
               then end_monitor k (completeStep env (mo_sessionID m) 0 e)
               else if sn_Status sess = StatusFailed \<or> sn_Status sess = StatusTerminated
               then end_monitor k (completeStep env (mo_sessionID m) failureExitCode e)
               else e\<lparr>ex_monitors := fmupd k (m\<lparr>mo_notFoundCount := 0\<rparr>) (ex_monitors e)\<rparr>)"

text \<open>The entries of a run are removed under the lock, in the order of the map, then killed.\<close>

definition CleanupRunSessions :: "exec_env \<Rightarrow> sessionKeyEntry list \<Rightarrow> string \<Rightarrow> SessionStepExecutor \<Rightarrow> SessionStepExecutor" where
  "CleanupRunSessions env order runID e =
     (let toClean = List.map_filter (\<lambda>key. if ke_runID key = runID then fmlookup (ex_sharedSessions e) key else None) order
      in fold (\<lambda>entry. sendKill env (se_machineID entry) (se_sessionID entry)) toClean
           (e\<lparr>ex_sharedSessions := fmfilter (\<lambda>key. ke_runID key \<noteq> runID) (ex_sharedSessions e)\<rparr>))"

end
