(* ===== verification/Session_Registry.thy ===== *)
theory Session_Registry
  imports Prelude "HOL-Library.Sublist"
begin

text \<open>
  \<open>internal/server/session/registry.go\<close>: the fan-out of terminal output to the browsers that
  watch a session.

  A subscriber channel is an address in \<open>rg_heap\<close>. Sending on a closed channel, closing a
  channel twice and using the drop counter of an unknown channel are panics (\<open>Inl\<close>). The set
  of a session's channels is a list without repetition; a message goes to each of them
  independently, so the iteration order of the Go map does not matter. \<open>sc_offered\<close> and
  \<open>sc_taken\<close> are ghost state: what was published for the session since the subscription, and
  what the websocket took from the channel.
\<close>

section \<open>State and operations\<close>

record SubscriberMessage =
  sm_Data :: string
  sm_IsControl :: bool

record sub_chan =
  sc_buf :: "SubscriberMessage list"
  sc_closed :: bool
  sc_offered :: "SubscriberMessage list"
  sc_taken :: "SubscriberMessage list"

record Registry =
  rg_heap :: "(nat, sub_chan) fmap"
  rg_subscribers :: "(string, nat list) fmap"
  rg_dropped :: "(nat, int) fmap"

datatype registry_panic = SendOnClosed nat | CloseOfClosed nat | NilCounter nat

definition NewRegistry :: Registry where
  "NewRegistry = \<lparr>rg_heap = fmempty, rg_subscribers = fmempty, rg_dropped = fmempty\<rparr>"

definition subscriberCap :: nat where "subscriberCap = 256"

definition reg_Subscribe :: "nat \<Rightarrow> string \<Rightarrow> Registry \<Rightarrow> Registry" where
  "reg_Subscribe ch sessionID r =
     r\<lparr>rg_heap := fmupd ch \<lparr>sc_buf = [], sc_closed = False, sc_offered = [], sc_taken = []\<rparr> (rg_heap r),
       rg_subscribers := fmupd sessionID (List.insert ch (getd [] (rg_subscribers r) sessionID)) (rg_subscribers r),
       rg_dropped := fmupd ch 0 (rg_dropped r)\<rparr>"

definition reg_Unsubscribe :: "string \<Rightarrow> nat \<Rightarrow> Registry \<Rightarrow> registry_panic + Registry" where
  "reg_Unsubscribe sessionID ch r =
     (let subs = (case fmlookup (rg_subscribers r) sessionID of
                    None \<Rightarrow> rg_subscribers r
                  | Some chs \<Rightarrow>
                      (let chs = removeAll ch chs
                       in if chs = [] then fmdrop sessionID (rg_subscribers r)
                          else fmupd sessionID chs (rg_subscribers r)));
          r = r\<lparr>rg_subscribers := subs, rg_dropped := fmdrop ch (rg_dropped r)\<rparr>
      in case fmlookup (rg_heap r) ch of
           None \<Rightarrow> Inl (CloseOfClosed ch)
         | Some c \<Rightarrow> if sc_closed c then Inl (CloseOfClosed ch)
                     else Inr (r\<lparr>rg_heap := fmupd ch (c\<lparr>sc_closed := True\<rparr>) (rg_heap r)\<rparr>))"

text \<open>The body of the loop in \<open>Publish\<close> and \<open>PublishControl\<close>, and the loop.\<close>

definition offer :: "SubscriberMessage \<Rightarrow> nat \<Rightarrow> Registry \<Rightarrow> registry_panic + Registry" where
  "offer m ch r =
     (case fmlookup (rg_heap r) ch of
        None \<Rightarrow> Inl (SendOnClosed ch)
      | Some c \<Rightarrow>
          (let c = c\<lparr>sc_offered := sc_offered c @ [m]\<rparr>
           in if sc_closed c then Inl (SendOnClosed ch)
              else if length (sc_buf c) < subscriberCap
              then Inr (r\<lparr>rg_heap := fmupd ch (c\<lparr>sc_buf := sc_buf c @ [m]\<rparr>) (rg_heap r)\<rparr>)
              else case fmlookup (rg_dropped r) ch of
                     None \<Rightarrow> Inl (NilCounter ch)
                   | Some n \<Rightarrow> Inr (r\<lparr>rg_heap := fmupd ch c (rg_heap r), rg_dropped := fmupd ch (n + 1) (rg_dropped r)\<rparr>)))"

fun offer_all :: "SubscriberMessage \<Rightarrow> nat list \<Rightarrow> Registry \<Rightarrow> registry_panic + Registry" where
  "offer_all m [] r = Inr r"
| "offer_all m (ch # chs) r = (case offer m ch r of Inl p \<Rightarrow> Inl p | Inr r' \<Rightarrow> offer_all m chs r')"

definition reg_Publish :: "string \<Rightarrow> string \<Rightarrow> Registry \<Rightarrow> registry_panic + Registry" where
  "reg_Publish sessionID data r =
     offer_all \<lparr>sm_Data = data, sm_IsControl = False\<rparr> (getd [] (rg_subscribers r) sessionID) r"

definition PublishControl :: "string \<Rightarrow> string \<Rightarrow> Registry \<Rightarrow> registry_panic + Registry" where
  "PublishControl sessionID msg r =
     offer_all \<lparr>sm_Data = msg, sm_IsControl = True\<rparr> (getd [] (rg_subscribers r) sessionID) r"

definition SubscriberCount :: "string \<Rightarrow> Registry \<Rightarrow> nat" where
  "SubscriberCount sessionID r = length (getd [] (rg_subscribers r) sessionID)"

definition DroppedCount :: "nat \<Rightarrow> Registry \<Rightarrow> int" where
  "DroppedCount ch r = getd 0 (rg_dropped r) ch"

text \<open>The websocket's receive operation, which waits while the channel is empty.\<close>

definition reg_take :: "nat \<Rightarrow> Registry \<Rightarrow> (SubscriberMessage \<times> Registry) option" where
  "reg_take ch r =
     (case fmlookup (rg_heap r) ch of
        None \<Rightarrow> None
      | Some c \<Rightarrow> (case sc_buf c of
                     [] \<Rightarrow> None
                   | m # ms \<Rightarrow> Some (m, r\<lparr>rg_heap := fmupd ch (c\<lparr>sc_buf := ms, sc_taken := sc_taken c @ [m]\<rparr>) (rg_heap r)\<rparr>)))"

section \<open>Concurrent use\<close>

text \<open>
  \<open>gs_open\<close>: the websocket handlers that are running, each with its channel and session. A
  handler subscribes when it starts and unsubscribes exactly once when it returns. A
  \<open>Publish\<close> holds the read lock until its loop ends, so it is one step with respect to
  subscriptions.
\<close>

record registry_sys =
  gs_reg :: Registry
  gs_open :: "(nat, string) fmap"

definition registry_init :: "registry_sys \<Rightarrow> bool" where
  "registry_init s \<longleftrightarrow> s = \<lparr>gs_reg = NewRegistry, gs_open = fmempty\<rparr>"

inductive registry_step :: "registry_sys \<Rightarrow> registry_sys \<Rightarrow> bool" where
  rg_subscribe: "fmlookup (rg_heap (gs_reg s)) ch = None \<Longrightarrow>
    registry_step s \<lparr>gs_reg = reg_Subscribe ch sid (gs_reg s), gs_open = fmupd ch sid (gs_open s)\<rparr>"
| rg_unsubscribe: "fmlookup (gs_open s) ch = Some sid \<Longrightarrow> reg_Unsubscribe sid ch (gs_reg s) = Inr r \<Longrightarrow>
    registry_step s \<lparr>gs_reg = r, gs_open = fmdrop ch (gs_open s)\<rparr>"
| rg_publish: "reg_Publish sid data (gs_reg s) = Inr r \<Longrightarrow> registry_step s (s\<lparr>gs_reg := r\<rparr>)"
| rg_control: "PublishControl sid data (gs_reg s) = Inr r \<Longrightarrow> registry_step s (s\<lparr>gs_reg := r\<rparr>)"
| rg_receive: "reg_take ch (gs_reg s) = Some (m, r) \<Longrightarrow> registry_step s (s\<lparr>gs_reg := r\<rparr>)"

text \<open>
  The invariant: the lists of subscribers are exactly the open handlers, their channels are
  open and counted, and every message offered is taken, waiting or counted as dropped.
\<close>

definition chan_ok :: "sub_chan \<Rightarrow> int \<Rightarrow> bool" where
  "chan_ok c n \<longleftrightarrow> \<not> sc_closed c \<and> length (sc_buf c) \<le> subscriberCap \<and> 0 \<le> n \<and>
     subseq (sc_taken c @ sc_buf c) (sc_offered c) \<and>
     int (length (sc_offered c)) = int (length (sc_taken c @ sc_buf c)) + n"

definition listed :: "(nat, string) fmap \<Rightarrow> (string, nat list) fmap \<Rightarrow> bool" where
  "listed own subs \<longleftrightarrow> (\<forall>sid. distinct (getd [] subs sid)) \<and>
     (\<forall>sid ch. ch \<in> set (getd [] subs sid) \<longleftrightarrow> fmlookup own ch = Some sid)"

definition registry_inv :: "registry_sys \<Rightarrow> bool" where
  "registry_inv s \<longleftrightarrow> listed (gs_open s) (rg_subscribers (gs_reg s)) \<and>
     (\<forall>ch sid. fmlookup (gs_open s) ch = Some sid \<longrightarrow>
        (\<exists>c n. fmlookup (rg_heap (gs_reg s)) ch = Some c \<and> fmlookup (rg_dropped (gs_reg s)) ch = Some n \<and> chan_ok c n))"

lemma registry_inv_chan:
  assumes "registry_inv s" and "fmlookup (gs_open s) ch = Some sid"
  obtains c n where "fmlookup (rg_heap (gs_reg s)) ch = Some c" "fmlookup (rg_dropped (gs_reg s)) ch = Some n" "chan_ok c n"
  using assms by (auto simp: registry_inv_def)

lemma subseq_offer: "subseq xs ys \<Longrightarrow> subseq (xs @ [m]) (ys @ [m])"
  by (simp add: list_emb_append_mono)

lemma subseq_skip: "subseq xs ys \<Longrightarrow> subseq xs (ys @ [m])"
  by (metis list_emb_append2 append.right_neutral list_emb_append_mono list_emb_Nil)

text \<open>Offering a message to an open channel succeeds, keeps the account, and concerns no other channel.\<close>

lemma offer_ok:
  assumes "fmlookup (rg_heap r) ch = Some c" and "fmlookup (rg_dropped r) ch = Some n" and "chan_ok c n"
  obtains r' c' n' where "offer m ch r = Inr r'" "fmlookup (rg_heap r') ch = Some c'" "fmlookup (rg_dropped r') ch = Some n'"
    "chan_ok c' n'" "sc_offered c' = sc_offered c @ [m]" "rg_subscribers r' = rg_subscribers r"
    "\<And>k. k \<noteq> ch \<Longrightarrow> fmlookup (rg_heap r') k = fmlookup (rg_heap r) k \<and> fmlookup (rg_dropped r') k = fmlookup (rg_dropped r) k"
proof (cases "length (sc_buf c) < subscriberCap")
  case True
  let ?c = "c\<lparr>sc_offered := sc_offered c @ [m], sc_buf := sc_buf c @ [m]\<rparr>"
  have "chan_ok ?c n" using assms(3) True subseq_offer [of "sc_taken c @ sc_buf c" "sc_offered c" m] by (simp add: chan_ok_def)
  then show ?thesis
    using assms True by (intro that [of "r\<lparr>rg_heap := fmupd ch ?c (rg_heap r)\<rparr>" ?c n]) (simp_all add: offer_def chan_ok_def Let_def)
next
  case False
  let ?c = "c\<lparr>sc_offered := sc_offered c @ [m]\<rparr>"
  have "chan_ok ?c (n + 1)" using assms(3) subseq_skip [of "sc_taken c @ sc_buf c" "sc_offered c" m] by (simp add: chan_ok_def)
  then show ?thesis
    using assms False
    by (intro that [of "r\<lparr>rg_heap := fmupd ch ?c (rg_heap r), rg_dropped := fmupd ch (n + 1) (rg_dropped r)\<rparr>" ?c "n + 1"])
      (simp_all add: offer_def chan_ok_def Let_def)
qed

lemma offer_all_ok:
  assumes "distinct chs" and "\<forall>ch \<in> set chs. \<exists>c n. fmlookup (rg_heap r) ch = Some c \<and> fmlookup (rg_dropped r) ch = Some n \<and> chan_ok c n"
  shows "\<exists>r'. offer_all m chs r = Inr r' \<and> rg_subscribers r' = rg_subscribers r \<and>
    (\<forall>k. k \<notin> set chs \<longrightarrow> fmlookup (rg_heap r') k = fmlookup (rg_heap r) k \<and> fmlookup (rg_dropped r') k = fmlookup (rg_dropped r) k) \<and>
    (\<forall>k \<in> set chs. \<exists>c c' n. fmlookup (rg_heap r) k = Some c \<and> fmlookup (rg_heap r') k = Some c' \<and>
       fmlookup (rg_dropped r') k = Some n \<and> chan_ok c' n \<and> sc_offered c' = sc_offered c @ [m])"
  using assms
proof (induction chs arbitrary: r)
  case (Cons ch chs)
  obtain c n where c: "fmlookup (rg_heap r) ch = Some c" "fmlookup (rg_dropped r) ch = Some n" "chan_ok c n"
    using Cons.prems(2) by auto
  obtain r1 c1 n1 where r1: "offer m ch r = Inr r1" "fmlookup (rg_heap r1) ch = Some c1" "fmlookup (rg_dropped r1) ch = Some n1"
    "chan_ok c1 n1" "sc_offered c1 = sc_offered c @ [m]" "rg_subscribers r1 = rg_subscribers r"
    and frame: "\<And>k. k \<noteq> ch \<Longrightarrow> fmlookup (rg_heap r1) k = fmlookup (rg_heap r) k \<and> fmlookup (rg_dropped r1) k = fmlookup (rg_dropped r) k"
    using offer_ok [OF c] by metis
  have "\<forall>k \<in> set chs. \<exists>c n. fmlookup (rg_heap r1) k = Some c \<and> fmlookup (rg_dropped r1) k = Some n \<and> chan_ok c n"
    using Cons.prems frame by (metis distinct.simps(2) list.set_intros(2))
  from Cons.IH [OF _ this] Cons.prems(1) obtain r' where r': "offer_all m chs r1 = Inr r'" "rg_subscribers r' = rg_subscribers r1"
    and out: "\<forall>k. k \<notin> set chs \<longrightarrow> fmlookup (rg_heap r') k = fmlookup (rg_heap r1) k \<and> fmlookup (rg_dropped r') k = fmlookup (rg_dropped r1) k"
    and into: "\<forall>k \<in> set chs. \<exists>c c' n. fmlookup (rg_heap r1) k = Some c \<and> fmlookup (rg_heap r') k = Some c' \<and>
       fmlookup (rg_dropped r') k = Some n \<and> chan_ok c' n \<and> sc_offered c' = sc_offered c @ [m]" by auto
  have "\<exists>c c' n. fmlookup (rg_heap r) k = Some c \<and> fmlookup (rg_heap r') k = Some c' \<and>
       fmlookup (rg_dropped r') k = Some n \<and> chan_ok c' n \<and> sc_offered c' = sc_offered c @ [m]" if "k \<in> set (ch # chs)" for k
  proof (cases "k = ch")
    case True
    then show ?thesis using c r1 out Cons.prems(1) by auto
  next
    case False
    then show ?thesis using that into frame by auto
  qed
  then show ?case using r1 r' out frame by auto
qed simp

text \<open>A message to the subscribers of a session, in a state that satisfies the invariant.\<close>

lemma fan_out:
  assumes "registry_inv s"
  obtains r where "offer_all m (getd [] (rg_subscribers (gs_reg s)) sid) (gs_reg s) = Inr r"
    "registry_inv (s\<lparr>gs_reg := r\<rparr>)"
    "\<And>ch c. fmlookup (gs_open s) ch = Some sid \<Longrightarrow> fmlookup (rg_heap (gs_reg s)) ch = Some c \<Longrightarrow>
       \<exists>c'. fmlookup (rg_heap r) ch = Some c' \<and> sc_offered c' = sc_offered c @ [m]"
    "\<And>ch. fmlookup (gs_open s) ch \<noteq> Some sid \<Longrightarrow> fmlookup (rg_heap r) ch = fmlookup (rg_heap (gs_reg s)) ch"
proof -
  let ?r = "gs_reg s" and ?chs = "getd [] (rg_subscribers (gs_reg s)) sid"
  have lst: "listed (gs_open s) (rg_subscribers ?r)" using assms by (simp add: registry_inv_def)
  then have d: "distinct ?chs" and mem: "\<And>ch. ch \<in> set ?chs \<longleftrightarrow> fmlookup (gs_open s) ch = Some sid" by (simp_all add: listed_def)
  have "\<forall>ch \<in> set ?chs. \<exists>c n. fmlookup (rg_heap ?r) ch = Some c \<and> fmlookup (rg_dropped ?r) ch = Some n \<and> chan_ok c n"
    using assms mem by (auto simp: registry_inv_def)
  from offer_all_ok [OF d this, of m] obtain r where r: "offer_all m ?chs ?r = Inr r" "rg_subscribers r = rg_subscribers ?r"
    and out: "\<And>k. k \<notin> set ?chs \<Longrightarrow> fmlookup (rg_heap r) k = fmlookup (rg_heap ?r) k \<and> fmlookup (rg_dropped r) k = fmlookup (rg_dropped ?r) k"
    and into: "\<And>k. k \<in> set ?chs \<Longrightarrow> \<exists>c c' n. fmlookup (rg_heap ?r) k = Some c \<and> fmlookup (rg_heap r) k = Some c' \<and>
       fmlookup (rg_dropped r) k = Some n \<and> chan_ok c' n \<and> sc_offered c' = sc_offered c @ [m]" by auto
  have "\<exists>c n. fmlookup (rg_heap r) ch = Some c \<and> fmlookup (rg_dropped r) ch = Some n \<and> chan_ok c n"
    if "fmlookup (gs_open s) ch = Some k" for ch k
    using that assms into [of ch] out [of ch] by (cases "ch \<in> set ?chs") (auto simp: registry_inv_def)
  then have "registry_inv (s\<lparr>gs_reg := r\<rparr>)" using lst r(2) by (simp add: registry_inv_def)
  moreover have "\<exists>c'. fmlookup (rg_heap r) ch = Some c' \<and> sc_offered c' = sc_offered c @ [m]"
    if "fmlookup (gs_open s) ch = Some sid" "fmlookup (rg_heap ?r) ch = Some c" for ch c
    using into [of ch] mem [of ch] that by auto
  ultimately show ?thesis using that [of r] r(1) out mem by blast
qed

lemma listed_subscribe:
  assumes "listed own subs" and "fmlookup own ch = None"
  shows "listed (fmupd ch sid own) (fmupd sid (List.insert ch (getd [] subs sid)) subs)"
proof -
  have "distinct (getd [] (fmupd sid (List.insert ch (getd [] subs sid)) subs) k)" for k
    using assms(1) by (simp add: listed_def)
  moreover have "c \<in> set (getd [] (fmupd sid (List.insert ch (getd [] subs sid)) subs) k) \<longleftrightarrow> fmlookup (fmupd ch sid own) c = Some k" for c k
    using assms by (auto simp: listed_def)
  ultimately show ?thesis by (simp add: listed_def)
qed

lemma listed_unsubscribe:
  assumes "listed own subs" and "fmlookup own ch = Some sid"
    and "\<And>k. getd [] subs' k = (if k = sid then removeAll ch (getd [] subs sid) else getd [] subs k)"
  shows "listed (fmdrop ch own) subs'"
  using assms unfolding listed_def by (auto simp: distinct_removeAll split: if_splits)

lemma Unsubscribe_owned:
  assumes inv: "registry_inv s" and own: "fmlookup (gs_open s) ch = Some sid"
  obtains r where "reg_Unsubscribe sid ch (gs_reg s) = Inr r" "registry_inv \<lparr>gs_reg = r, gs_open = fmdrop ch (gs_open s)\<rparr>"
proof -
  let ?r = "gs_reg s"
  let ?chs = "getd [] (rg_subscribers ?r) sid"
  have lst: "listed (gs_open s) (rg_subscribers ?r)" using inv by (simp add: registry_inv_def)
  obtain c n where c: "fmlookup (rg_heap ?r) ch = Some c" "chan_ok c n" using registry_inv_chan [OF inv own] by metis
  have "ch \<in> set ?chs" using lst own by (simp add: listed_def)
  then obtain chs where chs: "fmlookup (rg_subscribers ?r) sid = Some chs"
    by (cases "fmlookup (rg_subscribers ?r) sid") (auto simp: getd_def)
  define subs where "subs = (if removeAll ch chs = [] then fmdrop sid (rg_subscribers ?r)
      else fmupd sid (removeAll ch chs) (rg_subscribers ?r))"
  define r where "r = ?r\<lparr>rg_subscribers := subs, rg_dropped := fmdrop ch (rg_dropped ?r), rg_heap := fmupd ch (c\<lparr>sc_closed := True\<rparr>) (rg_heap ?r)\<rparr>"
  have "reg_Unsubscribe sid ch ?r = Inr r"
    using c chs by (simp add: reg_Unsubscribe_def r_def subs_def chan_ok_def Let_def)
  moreover have "getd [] subs k = (if k = sid then removeAll ch ?chs else getd [] (rg_subscribers ?r) k)" for k
    using chs by (auto simp: subs_def getd_def)
  from listed_unsubscribe [OF lst own this] have "listed (fmdrop ch (gs_open s)) subs" .
  then have "registry_inv \<lparr>gs_reg = r, gs_open = fmdrop ch (gs_open s)\<rparr>"
    using inv by (auto simp: registry_inv_def r_def)
  ultimately show ?thesis using that by blast
qed

lemma take_inv:
  assumes inv: "registry_inv s" and t: "reg_take ch (gs_reg s) = Some (m, r)"
  shows "registry_inv (s\<lparr>gs_reg := r\<rparr>)"
proof -
  obtain c ms where c: "fmlookup (rg_heap (gs_reg s)) ch = Some c" "sc_buf c = m # ms"
    and r: "r = (gs_reg s)\<lparr>rg_heap := fmupd ch (c\<lparr>sc_buf := ms, sc_taken := sc_taken c @ [m]\<rparr>) (rg_heap (gs_reg s))\<rparr>"
    using t by (auto simp: reg_take_def split: option.splits list.splits)
  have "chan_ok c n \<Longrightarrow> chan_ok (c\<lparr>sc_buf := ms, sc_taken := sc_taken c @ [m]\<rparr>) n" for n using c(2) by (simp add: chan_ok_def)
  then show ?thesis using inv c by (auto simp: registry_inv_def r split: if_splits)
qed

interpretation registry: invariant_system registry_init registry_step registry_inv
proof
  fix s assume "registry_init s"
  then show "registry_inv s" by (simp add: registry_init_def registry_inv_def listed_def NewRegistry_def)
next
  fix s t assume inv: "registry_inv s" and "registry_step s t"
  from this(2) show "registry_inv t"
  proof cases
    case (rg_subscribe ch sid)
    have "fmlookup (gs_open s) ch = None"
    proof (rule ccontr)
      assume "fmlookup (gs_open s) ch \<noteq> None"
      then show False using rg_subscribe(2) inv by (auto simp: registry_inv_def)
    qed
    then have "listed (gs_open t) (rg_subscribers (gs_reg t))"
      using inv rg_subscribe by (auto simp: reg_Subscribe_def registry_inv_def intro!: listed_subscribe)
    then show ?thesis using inv rg_subscribe by (auto simp: registry_inv_def reg_Subscribe_def chan_ok_def)
  next
    case (rg_unsubscribe ch sid r)
    then show ?thesis using Unsubscribe_owned [OF inv rg_unsubscribe(2)] by auto
  next
    case (rg_publish sid data r)
    then show ?thesis using fan_out [OF inv, of "\<lparr>sm_Data = data, sm_IsControl = False\<rparr>" sid] by (auto simp: reg_Publish_def)
  next
    case (rg_control sid data r)
    then show ?thesis using fan_out [OF inv, of "\<lparr>sm_Data = data, sm_IsControl = True\<rparr>" sid] by (auto simp: PublishControl_def)
  next
    case (rg_receive ch m r)
    then show ?thesis using take_inv [OF inv] by simp
  qed
qed

text \<open>
  C34. Terminal output reaches the browsers: however subscriptions, messages and reads
  interleave, publishing never panics; every browser that watches the session gets the
  message offered, and no other browser; what a browser has received and what waits for it
  are messages of its session in the order in which they were published, and exactly the
  counted number of them is missing.
\<close>

theorem registry_delivers:
  assumes "reachable registry_init registry_step s" and "fmlookup (gs_open s) ch = Some sid"
  shows "\<exists>c. fmlookup (rg_heap (gs_reg s)) ch = Some c \<and> subseq (sc_taken c @ sc_buf c) (sc_offered c) \<and>
    int (length (sc_offered c)) = int (length (sc_taken c) + length (sc_buf c)) + DroppedCount ch (gs_reg s) \<and>
    (\<forall>k data. \<exists>r c'. reg_Publish k data (gs_reg s) = Inr r \<and> fmlookup (rg_heap r) ch = Some c' \<and>
       sc_offered c' = sc_offered c @ (if k = sid then [\<lparr>sm_Data = data, sm_IsControl = False\<rparr>] else []))"
proof -
  have inv: "registry_inv s" using assms(1) by (rule registry.reachable_inv)
  obtain c n where c: "fmlookup (rg_heap (gs_reg s)) ch = Some c" "fmlookup (rg_dropped (gs_reg s)) ch = Some n" "chan_ok c n"
    using registry_inv_chan [OF inv assms(2)] by metis
  have "\<exists>r c'. reg_Publish k data (gs_reg s) = Inr r \<and> fmlookup (rg_heap r) ch = Some c' \<and>
       sc_offered c' = sc_offered c @ (if k = sid then [\<lparr>sm_Data = data, sm_IsControl = False\<rparr>] else [])" for k data
  proof -
    let ?m = "\<lparr>sm_Data = data, sm_IsControl = False\<rparr>"
    obtain r where r: "offer_all ?m (getd [] (rg_subscribers (gs_reg s)) k) (gs_reg s) = Inr r"
      "\<And>ch c. fmlookup (gs_open s) ch = Some k \<Longrightarrow> fmlookup (rg_heap (gs_reg s)) ch = Some c \<Longrightarrow>
         \<exists>c'. fmlookup (rg_heap r) ch = Some c' \<and> sc_offered c' = sc_offered c @ [?m]"
      "\<And>ch. fmlookup (gs_open s) ch \<noteq> Some k \<Longrightarrow> fmlookup (rg_heap r) ch = fmlookup (rg_heap (gs_reg s)) ch"
      using fan_out [OF inv] by metis
    show ?thesis using r(1) r(2) [OF _ c(1)] r(3) [of ch] c(1) assms(2) by (cases "k = sid") (auto simp: reg_Publish_def)
  qed
  then show ?thesis using c by (auto simp: chan_ok_def DroppedCount_def getd_def)
qed

definition rg1 :: registry_sys where
  "rg1 = \<lparr>gs_reg = reg_Subscribe 0 ''s'' NewRegistry, gs_open = fmupd 0 ''s'' fmempty\<rparr>"

theorem registry_delivers_witness:
  "\<exists>r c'. reg_Publish ''s'' ''hello'' (gs_reg rg1) = Inr r \<and> fmlookup (rg_heap r) 0 = Some c' \<and>
     sc_offered c' = [\<lparr>sm_Data = ''hello'', sm_IsControl = False\<rparr>]"
proof -
  have "registry_init \<lparr>gs_reg = NewRegistry, gs_open = fmempty\<rparr>" by (simp add: registry_init_def)
  moreover have "registry_step \<lparr>gs_reg = NewRegistry, gs_open = fmempty\<rparr> rg1"
    using rg_subscribe [of "\<lparr>gs_reg = NewRegistry, gs_open = fmempty\<rparr>" 0 "''s''"] by (simp add: rg1_def NewRegistry_def)
  ultimately have "reachable registry_init registry_step rg1" by (blast intro: reachable.intros)
  moreover have "fmlookup (gs_open rg1) 0 = Some ''s''" by (simp add: rg1_def)
  moreover have "fmlookup (rg_heap (gs_reg rg1)) 0 = Some \<lparr>sc_buf = [], sc_closed = False, sc_offered = [], sc_taken = []\<rparr>"
    by (simp add: rg1_def reg_Subscribe_def)
  ultimately show ?thesis using registry_delivers [of rg1 0 "''s''"] by fastforce
qed

end
