(* ===== verification/Agent_Service.thy ===== *)
theory Agent_Service
  imports Session_Executor Session_Registry Event_Bus "HOL-Library.Word"
begin

text \<open>
  \<open>internal/server/grpc\<close> and \<open>internal/server/broker\<close>: what the server does with the messages
  of an agent.

  \<open>NewGRPCServer\<close> wires the service to the connection manager, the session registry, the
  stores and the executor, which share the state of \<open>Session_Executor\<close>. A dependency that is
  not set yet is nil (\<open>as_set\<close>), and every handler tests for it. A failing store or
  publisher call is logged and the loop goes on; \<open>sv_fault\<close> says which calls fail. A panic
  of the registry ends the process (\<open>Inl\<close>). JSON decoding and the parsing of times are
  arguments.
\<close>

section \<open>Authentication of an agent\<close>

datatype grpc_error = Unauthenticated string | PermissionDenied string

text \<open>The peer of a call: none, without TLS, or with the common names of its certificates.\<close>

datatype peer = NoPeer | NoTLS | TLSPeer "string list"

definition extractMachineID :: "peer \<Rightarrow> grpc_error + string" where
  "extractMachineID p =
     (case p of
        NoPeer \<Rightarrow> Inl (Unauthenticated ''no peer info in context'')
      | NoTLS \<Rightarrow> Inl (Unauthenticated ''no TLS info in peer'')
      | TLSPeer [] \<Rightarrow> Inl (Unauthenticated ''no client certificate presented'')
      | TLSPeer (cn # _) \<Rightarrow>
          if \<not> HasPrefix cn ''agent-'' then Inl (PermissionDenied cn)
          else let machineID = TrimPrefix cn ''agent-''
               in if machineID = '''' then Inl (PermissionDenied ''empty machine-id in certificate CN'')
                  else Inr machineID)"

definition MachineIDFromContext :: "string option \<Rightarrow> grpc_error + string" where
  "MachineIDFromContext v =
     (case v of
        None \<Rightarrow> Inl (Unauthenticated ''machine-id not found in context'')
      | Some m \<Rightarrow> if m = '''' then Inl (Unauthenticated ''machine-id not found in context'') else Inr m)"

text \<open>The interceptors for unary and for streaming calls.\<close>

definition MachineAuthInterceptor :: "peer \<Rightarrow> (string option \<Rightarrow> grpc_error + 'a) \<Rightarrow> grpc_error + 'a" where
  "MachineAuthInterceptor p handler =
     (case extractMachineID p of Inl e \<Rightarrow> Inl e | Inr machineID \<Rightarrow> handler (Some machineID))"

section \<open>The registry of streams\<close>

record StreamEntry =
  sr_MachineID :: string
  sr_StreamToken :: "64 word"
  sr_MaxSessions :: int
  sr_HomeDir :: string
  sr_ConnectedAt :: time
  sr_SessionStates :: "(string \<times> string) list"

type_synonym StreamRegistry = "(string, StreamEntry) fmap"

definition NextStreamToken :: "64 word \<Rightarrow> 64 word" where
  "NextStreamToken counter = counter + 1"

definition sr_Add :: "string \<Rightarrow> StreamEntry \<Rightarrow> StreamRegistry \<Rightarrow> StreamRegistry" where
  "sr_Add machineID info r = fmupd machineID info r"

definition sr_RemoveIfToken :: "string \<Rightarrow> 64 word \<Rightarrow> StreamRegistry \<Rightarrow> StreamRegistry" where
  "sr_RemoveIfToken machineID token r =
     (case fmlookup r machineID of
        None \<Rightarrow> r
      | Some a \<Rightarrow> if sr_StreamToken a = token then fmdrop machineID r else r)"

definition sr_Remove :: "string \<Rightarrow> StreamRegistry \<Rightarrow> StreamRegistry" where
  "sr_Remove machineID r = fmdrop machineID r"

definition sr_Get :: "string \<Rightarrow> StreamRegistry \<Rightarrow> StreamEntry option" where
  "sr_Get machineID r = fmlookup r machineID"

section \<open>Requests and their replies\<close>

record DirectoryListingEvent =
  dl_RequestId :: string
  dl_Path :: string
  dl_Entries :: "(string \<times> string) list"
  dl_Error :: string
  dl_Parent :: string

text \<open>A channel of capacity one is an address; \<open>br_chans\<close> holds what is buffered in it.\<close>

record pendingEntry =
  pe_ch :: nat
  pe_machineID :: string

record RequestBroker =
  br_pending :: "(string, pendingEntry) fmap"
  br_chans :: "(nat, DirectoryListingEvent list) fmap"

definition broker_New :: RequestBroker where
  "broker_New = \<lparr>br_pending = fmempty, br_chans = fmempty\<rparr>"

definition broker_Register :: "nat \<Rightarrow> string \<Rightarrow> string \<Rightarrow> RequestBroker \<Rightarrow> RequestBroker" where
  "broker_Register ch requestID machineID b =
     \<lparr>br_pending = fmupd requestID \<lparr>pe_ch = ch, pe_machineID = machineID\<rparr> (br_pending b),
      br_chans = fmupd ch [] (br_chans b)\<rparr>"

text \<open>\<open>None\<close>: the send on the full channel blocks the caller for ever.\<close>

definition broker_Resolve :: "string \<Rightarrow> string \<Rightarrow> DirectoryListingEvent \<Rightarrow> RequestBroker \<Rightarrow> RequestBroker option" where
  "broker_Resolve requestID machineID evt b =
     (case fmlookup (br_pending b) requestID of
        None \<Rightarrow> Some b
      | Some entry \<Rightarrow>
          if pe_machineID entry \<noteq> machineID then Some b
          else if getd [] (br_chans b) (pe_ch entry) \<noteq> [] then None
          else Some \<lparr>br_pending = fmdrop requestID (br_pending b), br_chans = fmupd (pe_ch entry) [evt] (br_chans b)\<rparr>)"

definition broker_Cancel :: "string \<Rightarrow> RequestBroker \<Rightarrow> RequestBroker" where
  "broker_Cancel requestID b = b\<lparr>br_pending := fmdrop requestID (br_pending b)\<rparr>"

section \<open>Recorded output\<close>

definition defaultScannerBufSize :: nat where "defaultScannerBufSize = 64 * 1024"
definition maxScannerBufSize :: nat where "maxScannerBufSize = 1024 * 1024"

text \<open>
  The lines a \<open>bufio.Scanner\<close> returns: a carriage return before the line end is dropped, a
  last line need not be terminated, and a line that does not fit the buffer ends the scan.
\<close>

definition drop_cr :: "string \<Rightarrow> string" where
  "drop_cr l = (if l \<noteq> [] \<and> last l = CHR 0x0D then butlast l else l)"

function scan_lines :: "string \<Rightarrow> string list" where
  "scan_lines s =
     (if s = [] then []
      else let line = takeWhile (\<lambda>c. c \<noteq> CHR 0x0A) s
           in if length line \<ge> maxScannerBufSize then []
              else drop_cr line # scan_lines (drop (Suc (length line)) s))"
  by auto
termination by (relation "measure length") auto

declare scan_lines.simps [simp del]

text \<open>\<open>entry\<close> decodes an array into its raw elements, \<open>str\<close> a string literal.\<close>

definition asciicast_line :: "(string \<Rightarrow> string list option) \<Rightarrow> (string \<Rightarrow> string option) \<Rightarrow> string \<Rightarrow> string" where
  "asciicast_line entry str line =
     (if line = [] then []
      else if hd line = CHR ''{'' then []
      else if hd line \<noteq> CHR ''['' then []
      else case entry line of
             None \<Rightarrow> []
           | Some es \<Rightarrow> if length es < 3 then []
                        else (case str (es ! 2) of None \<Rightarrow> [] | Some data \<Rightarrow> data))"

definition parseAsciicastData :: "(string \<Rightarrow> string list option) \<Rightarrow> (string \<Rightarrow> string option) \<Rightarrow> string \<Rightarrow> string" where
  "parseAsciicastData entry str raw = concat (map (asciicast_line entry str) (scan_lines raw))"

section \<open>The service\<close>

record LogEntry =
  le_Timestamp :: string
  le_Level :: string
  le_Component :: string
  le_Message :: string
  le_SessionId :: string
  le_Error :: string
  le_Attrs :: "(string, string) fmap"

record LogRecord =
  lr_Timestamp :: time
  lr_Level :: string
  lr_Component :: string
  lr_Message :: string
  lr_MachineID :: string
  lr_SessionID :: string
  lr_Error :: string
  lr_Metadata :: string
  lr_Source :: string

text \<open>The messages of an agent; a chunk of a recording has its data, offset and final mark.\<close>

datatype AgentEvent =
    EvSessionOutput string string
  | EvSessionStatus string string
  | EvHealth HealthInfo
  | EvScrollbackChunk string string int bool
  | EvSessionExit string int
  | EvTaskValues string "(string, string) fmap"
  | EvStepIdle string
  | EvLogBatch "LogEntry list"
  | EvDirectoryListing DirectoryListingEvent

datatype dependency = DepConnMgr | DepRegistry | DepSessionStore | DepPublisher | DepRunStepLookup
  | DepTaskValueStore | DepStepIdle | DepCleanupStore | DepLogStore | DepLogBroadcaster | DepIngestor

datatype ingest_call = Ingest string string | FlushSession string

record agentService =
  as_set :: "dependency \<Rightarrow> bool"
  as_streams :: StreamRegistry
  as_tokens :: "64 word"
  as_registry :: Registry
  as_exec :: SessionStepExecutor
  as_published :: "Event list"
  as_cleanups :: "(string \<times> string) list"
  as_cleaned :: "(string \<times> string) list"
  as_logs :: "LogRecord list"
  as_broadcast :: "LogRecord list"
  as_ingested :: "ingest_call list"
  as_broker :: RequestBroker

datatype svc_call = SUpdateStatus | SUpdateIfNotTerminal | STaskValue string | SInsertLogs | SPublish
  | SListCleanups | SDeleteCleanups | SUpsertMachine | SMachineStatus | SDisconnect

record svc_env =
  sv_exec :: exec_env
  sv_fault :: "svc_call \<Rightarrow> bool"
  sv_order :: "string list"
  sv_entry :: "string \<Rightarrow> string list option"
  sv_str :: "string \<Rightarrow> string option"
  sv_attrs :: "(string, string) fmap \<Rightarrow> string option"
  sv_parseTime :: "string \<Rightarrow> time option"

abbreviation sv_now :: "svc_env \<Rightarrow> time" where "sv_now env \<equiv> xv_now (sv_exec env)"
abbreviation sv_uid :: "svc_env \<Rightarrow> string" where "sv_uid env \<equiv> xv_uid (sv_exec env)"

definition NewGRPCServer :: "ConnectionManager option \<Rightarrow> SessionStepExecutor \<Rightarrow> agentService" where
  "NewGRPCServer agentConnMgr e =
     \<lparr>as_set = (\<lambda>d. d = DepConnMgr \<and> agentConnMgr \<noteq> None), as_streams = fmempty, as_tokens = 0,
      as_registry = NewRegistry,
      as_exec = (case agentConnMgr of None \<Rightarrow> e | Some cm \<Rightarrow> e\<lparr>ex_connMgr := cm\<rparr>),
      as_published = [], as_cleanups = [], as_cleaned = [], as_logs = [], as_broadcast = [], as_ingested = [],
      as_broker = broker_New\<rparr>"

text \<open>The setters: \<open>SetRegistry\<close>, \<open>SetSessionStore\<close> and so on.\<close>

definition svc_Set :: "dependency \<Rightarrow> agentService \<Rightarrow> agentService" where
  "svc_Set dep s = s\<lparr>as_set := (as_set s)(dep := True)\<rparr>"

section \<open>Handling an event\<close>

definition TypeSessionStarted :: string where "TypeSessionStarted = ''session.started''"
definition TypeSessionExited :: string where "TypeSessionExited = ''session.exited''"
definition TypeSessionTerminated :: string where "TypeSessionTerminated = ''session.terminated''"
definition TypeSessionWaitingForInput :: string where "TypeSessionWaitingForInput = ''session.waiting_for_input''"
definition TypeSessionResumed :: string where "TypeSessionResumed = ''session.resumed''"

definition svc_publish :: "svc_env \<Rightarrow> string \<Rightarrow> string \<Rightarrow> string \<Rightarrow> agentService \<Rightarrow> agentService" where
  "svc_publish env evType sessionID machineID s =
     (if as_set s DepPublisher \<and> \<not> sv_fault env SPublish
      then s\<lparr>as_published := as_published s @ [NewSessionEvent (sv_uid env) (sv_now env) evType sessionID machineID '''' '''']\<rparr>
      else s)"

definition with_registry :: "(Registry \<Rightarrow> registry_panic + Registry) \<Rightarrow> agentService \<Rightarrow> registry_panic + agentService" where
  "with_registry f s = (case f (as_registry s) of Inl p \<Rightarrow> Inl p | Inr r \<Rightarrow> Inr (s\<lparr>as_registry := r\<rparr>))"

definition on_output :: "string \<Rightarrow> string \<Rightarrow> agentService \<Rightarrow> registry_panic + agentService" where
  "on_output sessionID data s =
     (if \<not> as_set s DepRegistry then Inr s
      else case with_registry (reg_Publish sessionID data) s of
             Inl p \<Rightarrow> Inl p
           | Inr s \<Rightarrow> Inr (if as_set s DepIngestor then s\<lparr>as_ingested := as_ingested s @ [Ingest sessionID data]\<rparr> else s))"

definition scrollback_end_msg :: string where "scrollback_end_msg = ''{\"type\":\"scrollback_end\"}''"

definition on_scrollback :: "svc_env \<Rightarrow> string \<Rightarrow> string \<Rightarrow> bool \<Rightarrow> agentService \<Rightarrow> registry_panic + agentService" where
  "on_scrollback env sessionID data isFinal s =
     (if \<not> as_set s DepRegistry then Inr s
      else let termData = parseAsciicastData (sv_entry env) (sv_str env) data
           in case (if termData \<noteq> [] then with_registry (reg_Publish sessionID termData) s else Inr s) of
                Inl p \<Rightarrow> Inl p
              | Inr s \<Rightarrow> if isFinal then with_registry (PublishControl sessionID scrollback_end_msg) s else Inr s)"

definition on_health :: "string \<Rightarrow> HealthInfo \<Rightarrow> agentService \<Rightarrow> agentService" where
  "on_health machineID h s =
     (if \<not> as_set s DepConnMgr then s
      else case fmlookup (cm_agents (ex_connMgr (as_exec s))) machineID of
             None \<Rightarrow> s
           | Some p \<Rightarrow> s\<lparr>as_exec := (as_exec s)\<lparr>ex_connMgr := UpdateHealth p h (ex_connMgr (as_exec s))\<rparr>\<rparr>)"

definition allowedStatus :: "string \<Rightarrow> bool" where
  "allowedStatus st \<longleftrightarrow> st = StatusRunning \<or> st = StatusWaitingForInput \<or> st = StatusCompleted \<or> st = StatusFailed \<or>
     st = StatusTerminated"

definition session_ended_msg :: "string \<Rightarrow> string" where
  "session_ended_msg st = ''{\"type\":\"session_ended\",\"status\":\"'' @ st @ ''\"}''"

definition status_event_type :: "string \<Rightarrow> string" where
  "status_event_type st =
     (if st = StatusTerminated then TypeSessionTerminated
      else if st = StatusFailed \<or> st = StatusCompleted then TypeSessionExited
      else if st = StatusWaitingForInput then TypeSessionWaitingForInput
      else if st = StatusRunning then TypeSessionResumed
      else '''')"

definition put_sessions :: "Session list \<Rightarrow> agentService \<Rightarrow> agentService" where
  "put_sessions rows s = s\<lparr>as_exec := (as_exec s)\<lparr>ex_sessions := rows\<rparr>\<rparr>"

definition on_status :: "svc_env \<Rightarrow> string \<Rightarrow> string \<Rightarrow> string \<Rightarrow> agentService \<Rightarrow> registry_panic + agentService" where
  "on_status env machineID sessionID newStatus s =
     (if \<not> allowedStatus newStatus then Inr s
      else if \<not> as_set s DepSessionStore then Inr s
      else
        let s = (if sv_fault env SUpdateStatus then s
                 else case UpdateSessionStatus (sv_now env) sessionID newStatus (ex_sessions (as_exec s)) of
                        Inl _ \<Rightarrow> s | Inr rows \<Rightarrow> put_sessions rows s)
        in case (if as_set s DepRegistry \<and> terminal_status newStatus
                 then with_registry (PublishControl sessionID (session_ended_msg newStatus)) s else Inr s) of
             Inl p \<Rightarrow> Inl p
           | Inr s \<Rightarrow> Inr (if status_event_type newStatus \<noteq> ''''
                          then svc_publish env (status_event_type newStatus) sessionID machineID s else s))"

definition on_exit :: "svc_env \<Rightarrow> string \<Rightarrow> string \<Rightarrow> int \<Rightarrow> agentService \<Rightarrow> agentService" where
  "on_exit env machineID sessionID exitCode s =
     (let exitStatus = (if exitCode \<noteq> 0 then StatusFailed else StatusCompleted);
          s = (if as_set s DepSessionStore \<and> \<not> sv_fault env SUpdateIfNotTerminal
               then put_sessions (UpdateSessionStatusIfNotTerminal (sv_now env) sessionID exitStatus (ex_sessions (as_exec s))) s
               else s);
          s = svc_publish env TypeSessionExited sessionID machineID s
      in if as_set s DepIngestor then s\<lparr>as_ingested := as_ingested s @ [FlushSession sessionID]\<rparr> else s)"

text \<open>The loop over the map of values, in the order \<open>ks\<close> of this iteration.\<close>

fun store_values :: "svc_env \<Rightarrow> string \<Rightarrow> (string, string) fmap \<Rightarrow> string list \<Rightarrow> db \<Rightarrow> db" where
  "store_values env runStepID vals [] d = d"
| "store_values env runStepID vals (k # ks) d =
     store_values env runStepID vals ks
       (if sv_fault env (STaskValue k) then d
        else case SetTaskValue (sv_now env) runStepID k (getd '''' vals k) d of Inl _ \<Rightarrow> d | Inr d' \<Rightarrow> d')"

definition on_task_values :: "svc_env \<Rightarrow> string \<Rightarrow> (string, string) fmap \<Rightarrow> agentService \<Rightarrow> agentService" where
  "on_task_values env sessionID vals s =
     (if as_set s DepRunStepLookup \<and> as_set s DepTaskValueStore
      then case RunStepIDForSession sessionID (as_exec s) of
             None \<Rightarrow> s
           | Some runStepID \<Rightarrow>
               s\<lparr>as_exec := (as_exec s)\<lparr>ex_store := store_values env runStepID vals (sv_order env) (ex_store (as_exec s))\<rparr>\<rparr>
      else s)"

definition on_step_idle :: "svc_env \<Rightarrow> string \<Rightarrow> agentService \<Rightarrow> agentService" where
  "on_step_idle env sessionID s =
     (if as_set s DepStepIdle then s\<lparr>as_exec := OnStepIdle (sv_exec env) sessionID (as_exec s)\<rparr> else s)"

definition maxBatchSize :: nat where "maxBatchSize = 1000"

definition validLevel :: "string \<Rightarrow> bool" where
  "validLevel l \<longleftrightarrow> l = ''DEBUG'' \<or> l = ''INFO'' \<or> l = ''WARN'' \<or> l = ''ERROR''"

definition log_record :: "svc_env \<Rightarrow> string \<Rightarrow> LogEntry \<Rightarrow> LogRecord" where
  "log_record env machineID e =
     \<lparr>lr_Timestamp = (case sv_parseTime env (le_Timestamp e) of None \<Rightarrow> sv_now env | Some t \<Rightarrow> t),
      lr_Level = (if validLevel (le_Level e) then le_Level e else ''INFO''),
      lr_Component = take 100 (le_Component e), lr_Message = take 2000 (le_Message e), lr_MachineID = machineID,
      lr_SessionID = le_SessionId e, lr_Error = take 1000 (le_Error e),
      lr_Metadata = (if le_Attrs e = fmempty then '''' else case sv_attrs env (le_Attrs e) of None \<Rightarrow> '''' | Some j \<Rightarrow> j),
      lr_Source = ''agent''\<rparr>"

definition on_logs :: "svc_env \<Rightarrow> string \<Rightarrow> LogEntry list \<Rightarrow> agentService \<Rightarrow> agentService" where
  "on_logs env machineID entries s =
     (if \<not> as_set s DepLogStore then s
      else let records = map (log_record env machineID) (take maxBatchSize entries);
               s = (if sv_fault env SInsertLogs then s else s\<lparr>as_logs := as_logs s @ records\<rparr>)
           in if as_set s DepLogBroadcaster then s\<lparr>as_broadcast := as_broadcast s @ records\<rparr> else s)"

datatype svc_failure = Panic registry_panic | Blocked

text \<open>The body of the receive loop of \<open>CommandStream\<close>.\<close>

definition handle_event :: "svc_env \<Rightarrow> string \<Rightarrow> AgentEvent \<Rightarrow> agentService \<Rightarrow> svc_failure + agentService" where
  "handle_event env machineID evt s =
     (case evt of
        EvSessionOutput sid data \<Rightarrow> map_sum Panic id (on_output sid data s)
      | EvScrollbackChunk sid data off fin \<Rightarrow> map_sum Panic id (on_scrollback env sid data fin s)
      | EvHealth h \<Rightarrow> Inr (on_health machineID h s)
      | EvSessionStatus sid st \<Rightarrow> map_sum Panic id (on_status env machineID sid st s)
      | EvSessionExit sid code \<Rightarrow> Inr (on_exit env machineID sid code s)
      | EvTaskValues sid vals \<Rightarrow> Inr (on_task_values env sid vals s)
      | EvStepIdle sid \<Rightarrow> Inr (on_step_idle env sid s)
      | EvDirectoryListing dl \<Rightarrow>
          (case broker_Resolve (dl_RequestId dl) machineID dl (as_broker s) of
             None \<Rightarrow> Inl Blocked
           | Some b \<Rightarrow> Inr (s\<lparr>as_broker := b\<rparr>))
      | EvLogBatch entries \<Rightarrow> Inr (on_logs env machineID entries s))"

section \<open>Registration and streams\<close>

record RegisterRequest =
  rq_MaxSessions :: int
  rq_HomeDir :: string
  rq_ExistingSessions :: "(string \<times> string) list"

definition svc_Register :: "time \<Rightarrow> string option \<Rightarrow> RegisterRequest \<Rightarrow> agentService \<Rightarrow> (grpc_error + unit) \<times> agentService" where
  "svc_Register now ctx req s =
     (case MachineIDFromContext ctx of
        Inl e \<Rightarrow> (Inl e, s)
      | Inr machineID \<Rightarrow>
          (let token = NextStreamToken (as_tokens s)
           in (Inr (), s\<lparr>as_tokens := token,
                as_streams := sr_Add machineID \<lparr>sr_MachineID = machineID, sr_StreamToken = token,
                  sr_MaxSessions = rq_MaxSessions req, sr_HomeDir = rq_HomeDir req, sr_ConnectedAt = now,
                  sr_SessionStates = rq_ExistingSessions req\<rparr> (as_streams s)\<rparr>)))"

abbreviation as_connMgr :: "agentService \<Rightarrow> ConnectionManager" where "as_connMgr s \<equiv> ex_connMgr (as_exec s)"

definition put_connMgr :: "ConnectionManager \<Rightarrow> agentService \<Rightarrow> agentService" where
  "put_connMgr cm s = s\<lparr>as_exec := (as_exec s)\<lparr>ex_connMgr := cm\<rparr>\<rparr>"

text \<open>
  \<open>CommandStream\<close> up to its receive loop, the agent being allocated at \<open>p\<close>: the token it
  captures, or \<open>None\<close> when the registration fails.
\<close>

definition stream_open :: "svc_env \<Rightarrow> nat \<Rightarrow> string \<Rightarrow> agentService \<Rightarrow> 64 word option \<times> agentService" where
  "stream_open env p machineID s =
     (let streamToken = (case sr_Get machineID (as_streams s) of None \<Rightarrow> 0 | Some entry \<Rightarrow> sr_StreamToken entry)
      in if \<not> as_set s DepConnMgr then (Some streamToken, s)
         else
           let (maxSessions, homeDir) = (case sr_Get machineID (as_streams s) of
                  None \<Rightarrow> (0, '''') | Some entry \<Rightarrow> (sr_MaxSessions entry, sr_HomeDir entry));
               ca = \<lparr>ag_MachineID = machineID, ag_RegisteredAt = sv_now env, ag_MaxSessions = maxSessions,
                     ag_HomeDir = homeDir, ag_Cancelled = False, ag_ctxDone = False, ag_health = None\<rparr>
           in case Register (\<not> sv_fault env SUpsertMachine) (\<not> sv_fault env SMachineStatus) (sv_now env) machineID p ca (as_connMgr s) of
                (False, cm) \<Rightarrow> (None, put_connMgr cm s)
              | (True, cm) \<Rightarrow> (Some streamToken, put_connMgr cm s))"

definition stream_close :: "svc_env \<Rightarrow> nat \<Rightarrow> 64 word \<Rightarrow> string \<Rightarrow> agentService \<Rightarrow> agentService" where
  "stream_close env p token machineID s =
     (let s = s\<lparr>as_streams := sr_RemoveIfToken machineID token (as_streams s)\<rparr>
      in if as_set s DepConnMgr
         then put_connMgr (snd (DisconnectIfMatch (\<not> sv_fault env SDisconnect) (sv_now env) machineID p (as_connMgr s))) s
         else s)"

text \<open>
  The goroutine that sends the clean-ups queued while the agent was away: \<open>sent\<close> says whether
  the stream accepts the command for a session.
\<close>

definition AddPendingCleanup :: "string \<Rightarrow> string \<Rightarrow> agentService \<Rightarrow> agentService" where
  "AddPendingCleanup sessionID machineID s = s\<lparr>as_cleanups := as_cleanups s @ [(sessionID, machineID)]\<rparr>"

definition ListPendingCleanups :: "string \<Rightarrow> agentService \<Rightarrow> string list" where
  "ListPendingCleanups machineID s = map fst (filter (\<lambda>c. snd c = machineID) (as_cleanups s))"

definition DeletePendingCleanups :: "string \<Rightarrow> agentService \<Rightarrow> agentService" where
  "DeletePendingCleanups machineID s = s\<lparr>as_cleanups := filter (\<lambda>c. snd c \<noteq> machineID) (as_cleanups s)\<rparr>"

definition send_cleanups :: "svc_env \<Rightarrow> (string \<Rightarrow> bool) \<Rightarrow> string \<Rightarrow> string list \<Rightarrow> agentService \<Rightarrow> agentService" where
  "send_cleanups env sent machineID cleanups s =
     (let ok = takeWhile sent cleanups;
          s = s\<lparr>as_cleaned := as_cleaned s @ map (\<lambda>i. (i, machineID)) ok\<rparr>
      in if length ok < length cleanups \<or> cleanups = [] \<or> sv_fault env SDeleteCleanups then s
         else DeletePendingCleanups machineID s)"

definition dispatch_cleanups :: "svc_env \<Rightarrow> (string \<Rightarrow> bool) \<Rightarrow> string \<Rightarrow> agentService \<Rightarrow> agentService" where
  "dispatch_cleanups env sent machineID s =
     (if as_set s DepCleanupStore \<and> as_set s DepConnMgr \<and> GetAgent machineID (as_connMgr s) \<noteq> None \<and>
         \<not> sv_fault env SListCleanups
      then send_cleanups env sent machineID (ListPendingCleanups machineID s) s
      else s)"

end
