(* ===== verification/Agent_Service_Props.thy ===== *)
theory Agent_Service_Props
  imports Agent_Service Job_Store_Facts
begin

text \<open>
  What the handlers of agent messages guarantee on their own: replies reach the request they
  answer, an exit event respects the status a user has set, and a stream that closes does not
  remove a newer registration of its machine. The last section has the concrete runs in which
  status messages do not respect these rules.
\<close>

section \<open>Replies\<close>

text \<open>
  The broker among concurrent requests. \<open>bs_asked\<close> records for each channel the request and
  the machine it was asked for, \<open>bs_delivered\<close> the replies sent on channels and the machine
  each came from. A request uses a new channel.
\<close>

record broker_sys =
  bs_broker :: RequestBroker
  bs_asked :: "(nat, string \<times> string) fmap"
  bs_delivered :: "(nat \<times> string \<times> DirectoryListingEvent) list"

definition broker_init :: "broker_sys \<Rightarrow> bool" where
  "broker_init s \<longleftrightarrow> s = \<lparr>bs_broker = broker_New, bs_asked = fmempty, bs_delivered = []\<rparr>"

definition replies_to :: "string \<Rightarrow> DirectoryListingEvent \<Rightarrow> RequestBroker \<Rightarrow> (nat \<times> string \<times> DirectoryListingEvent) list" where
  "replies_to machineID evt b =
     (case fmlookup (br_pending b) (dl_RequestId evt) of
        None \<Rightarrow> []
      | Some e \<Rightarrow> if pe_machineID e = machineID then [(pe_ch e, machineID, evt)] else [])"

inductive broker_step :: "broker_sys \<Rightarrow> broker_sys \<Rightarrow> bool" where
  bk_register: "fmlookup (br_chans (bs_broker s)) ch = None \<Longrightarrow>
    broker_step s (s\<lparr>bs_broker := broker_Register ch rid m (bs_broker s), bs_asked := fmupd ch (rid, m) (bs_asked s)\<rparr>)"
| bk_resolve: "broker_Resolve (dl_RequestId evt) m evt (bs_broker s) = Some b \<Longrightarrow>
    broker_step s (s\<lparr>bs_broker := b, bs_delivered := bs_delivered s @ replies_to m evt (bs_broker s)\<rparr>)"
| bk_cancel: "broker_step s (s\<lparr>bs_broker := broker_Cancel rid (bs_broker s)\<rparr>)"
| bk_receive: "fmlookup (br_chans (bs_broker s)) ch = Some (evt # evts) \<Longrightarrow>
    broker_step s (s\<lparr>bs_broker := (bs_broker s)\<lparr>br_chans := fmupd ch evts (br_chans (bs_broker s))\<rparr>\<rparr>)"

definition waiting :: "broker_sys \<Rightarrow> string \<Rightarrow> pendingEntry \<Rightarrow> bool" where
  "waiting s rid e \<longleftrightarrow> fmlookup (bs_asked s) (pe_ch e) = Some (rid, pe_machineID e) \<and>
     fmlookup (br_chans (bs_broker s)) (pe_ch e) = Some [] \<and> pe_ch e \<notin> fst ` set (bs_delivered s)"

definition broker_inv :: "broker_sys \<Rightarrow> bool" where
  "broker_inv s \<longleftrightarrow> (\<forall>rid e. fmlookup (br_pending (bs_broker s)) rid = Some e \<longrightarrow> waiting s rid e) \<and>
     distinct (map fst (bs_delivered s)) \<and>
     (\<forall>ch m evt. (ch, m, evt) \<in> set (bs_delivered s) \<longrightarrow> fmlookup (bs_asked s) ch = Some (dl_RequestId evt, m)) \<and>
     (\<forall>ch. fmlookup (bs_asked s) ch \<noteq> None \<longrightarrow> fmlookup (br_chans (bs_broker s)) ch \<noteq> None)"

lemma Resolve_not_blocked:
  assumes "broker_inv s"
  obtains b where "broker_Resolve rid m evt (bs_broker s) = Some b"
proof (cases "fmlookup (br_pending (bs_broker s)) rid")
  case (Some e)
  then have "getd [] (br_chans (bs_broker s)) (pe_ch e) = []" using assms by (simp add: broker_inv_def waiting_def getd_def)
  then show ?thesis using Some by (cases "pe_machineID e = m") (auto simp: broker_Resolve_def intro: that)
qed (auto simp: broker_Resolve_def intro: that)

lemma broker_inv_resolve:
  assumes inv: "broker_inv s" and r: "broker_Resolve (dl_RequestId evt) m evt (bs_broker s) = Some b"
  shows "broker_inv (s\<lparr>bs_broker := b, bs_delivered := bs_delivered s @ replies_to m evt (bs_broker s)\<rparr>)"
proof (cases "replies_to m evt (bs_broker s)")
  case Nil
  then have "b = bs_broker s" using r by (auto simp: broker_Resolve_def replies_to_def split: option.splits if_splits)
  then show ?thesis using inv Nil by simp
next
  case (Cons x xs)
  let ?rid = "dl_RequestId evt"
  obtain e where e: "fmlookup (br_pending (bs_broker s)) ?rid = Some e" "pe_machineID e = m" and x: "x = (pe_ch e, m, evt)" "xs = []"
    using Cons by (auto simp: replies_to_def split: option.splits if_splits)
  have w: "waiting s ?rid e" using inv e(1) by (simp add: broker_inv_def)
  have b: "b = \<lparr>br_pending = fmdrop ?rid (br_pending (bs_broker s)), br_chans = fmupd (pe_ch e) [evt] (br_chans (bs_broker s))\<rparr>"
    using r e by (simp add: broker_Resolve_def split: if_splits)
  have "waiting (s\<lparr>bs_broker := b, bs_delivered := bs_delivered s @ [(pe_ch e, m, evt)]\<rparr>) rid e'"
    if "fmlookup (br_pending b) rid = Some e'" for rid e'
  proof -
    have e': "fmlookup (br_pending (bs_broker s)) rid = Some e'" "rid \<noteq> ?rid" using that by (auto simp: b split: if_splits)
    then have w': "waiting s rid e'" using inv by (simp add: broker_inv_def)
    then have "pe_ch e' \<noteq> pe_ch e" using w e'(2) by (auto simp: waiting_def)
    then show ?thesis using w' by (auto simp: waiting_def b)
  qed
  then show ?thesis using inv w e(2) by (auto simp: broker_inv_def Cons x waiting_def b)
qed

lemma broker_inv_register:
  assumes inv: "broker_inv s" and ch: "fmlookup (br_chans (bs_broker s)) ch = None"
  shows "broker_inv (s\<lparr>bs_broker := broker_Register ch rid m (bs_broker s), bs_asked := fmupd ch (rid, m) (bs_asked s)\<rparr>)"
proof -
  have fresh: "fmlookup (bs_asked s) ch = None" using inv ch unfolding broker_inv_def by metis
  then have del: "ch \<notin> fst ` set (bs_delivered s)" using inv by (force simp: broker_inv_def)
  then have "(ch, m', evt) \<notin> set (bs_delivered s)" for m' evt by force
  then show ?thesis using inv ch fresh del by (auto simp: broker_inv_def waiting_def broker_Register_def)
qed

interpretation replies: invariant_system broker_init broker_step broker_inv
proof
  fix s assume "broker_init s"
  then show "broker_inv s" by (simp add: broker_init_def broker_inv_def broker_New_def)
next
  fix s t assume inv: "broker_inv s" and "broker_step s t"
  from this(2) show "broker_inv t"
  proof cases
    case (bk_cancel rid)
    then show ?thesis using inv by (auto simp: broker_inv_def waiting_def broker_Cancel_def)
  next
    case (bk_receive ch evt evts)
    then show ?thesis using inv by (fastforce simp: broker_inv_def waiting_def split: if_splits)
  qed (simp_all add: broker_inv_register broker_inv_resolve inv)
qed

text \<open>
  Replies of agents are correlated correctly however requests, replies, timeouts and
  cancellations interleave: a reply never blocks the receive loop of the agent's stream, a
  waiting caller gets at most one reply, and only one that carries its request identifier and
  was sent by the machine it asked; a reply from any other machine changes nothing.
\<close>

theorem broker_replies_matched:
  assumes "reachable broker_init broker_step s"
  shows "broker_Resolve rid m evt (bs_broker s) \<noteq> None \<and> distinct (map fst (bs_delivered s)) \<and>
    ((ch, m', evt') \<in> set (bs_delivered s) \<longrightarrow> fmlookup (bs_asked s) ch = Some (dl_RequestId evt', m')) \<and>
    (\<forall>e. fmlookup (br_pending (bs_broker s)) rid = Some e \<and> pe_machineID e \<noteq> m \<longrightarrow>
       broker_Resolve rid m evt (bs_broker s) = Some (bs_broker s))"
proof -
  have inv: "broker_inv s" using assms by (rule replies.reachable_inv)
  then have "broker_Resolve rid m evt (bs_broker s) \<noteq> None" using Resolve_not_blocked by (metis option.distinct(1))
  then show ?thesis using inv by (auto simp: broker_inv_def broker_Resolve_def)
qed

definition listing_q :: DirectoryListingEvent where
  "listing_q = \<lparr>dl_RequestId = ''q'', dl_Path = ''/home/u'', dl_Entries = [(''notes'', ''file'')], dl_Error = '''', dl_Parent = ''''\<rparr>"

definition bk1 :: broker_sys where
  "bk1 = \<lparr>bs_broker = broker_Register 0 ''q'' ''m'' broker_New, bs_asked = fmupd 0 (''q'', ''m'') fmempty, bs_delivered = []\<rparr>"

theorem broker_replies_matched_witness:
  "broker_Resolve ''q'' ''other'' listing_q (bs_broker bk1) = Some (bs_broker bk1) \<and>
   broker_Resolve ''q'' ''m'' listing_q (bs_broker bk1) \<noteq> None"
proof -
  let ?s0 = "\<lparr>bs_broker = broker_New, bs_asked = fmempty, bs_delivered = []\<rparr>"
  have "broker_step ?s0 bk1" using bk_register [of ?s0 0 "''q''" "''m''"] by (simp add: bk1_def broker_New_def)
  then have r: "reachable broker_init broker_step bk1" using reach_init [of broker_init ?s0] by (auto simp: broker_init_def intro: reach_step)
  have "fmlookup (br_pending (bs_broker bk1)) ''q'' = Some \<lparr>pe_ch = 0, pe_machineID = ''m''\<rparr>"
    by (simp add: bk1_def broker_Register_def)
  then show ?thesis using broker_replies_matched [OF r, of "''q''" "''other''" listing_q]
      broker_replies_matched [OF r, of "''q''" "''m''" listing_q] by simp
qed

section \<open>Streams\<close>

lemma word64_Suc_inj: "n < 2 ^ 64 \<Longrightarrow> m < 2 ^ 64 \<Longrightarrow> of_nat n = (of_nat m :: 64 word) \<Longrightarrow> n = m"
  by (simp add: word_of_nat_eq_iff take_bit_nat_eq_self)

text \<open>The registrations of a server, in order; the token counter starts at zero.\<close>

fun registrations :: "(time \<times> string \<times> RegisterRequest) list \<Rightarrow> agentService \<Rightarrow> agentService" where
  "registrations [] s = s"
| "registrations ((now, m, req) # rs) s = registrations rs (snd (svc_Register now (Some m) req s))"

lemma svc_Register_token [simp]:
  "as_tokens (snd (svc_Register now (Some m) req s)) = (if m = '''' then as_tokens s else as_tokens s + 1)"
  by (simp add: svc_Register_def MachineIDFromContext_def NextStreamToken_def Let_def)

lemma registrations_tokens:
  assumes "as_tokens s = of_nat n" and "\<forall>r \<in> set rs. fst (snd r) \<noteq> ''''"
  shows "as_tokens (registrations rs s) = of_nat (n + length rs) \<and>
    (fmlookup (as_streams (registrations rs s)) m = fmlookup (as_streams s) m \<or>
     (\<exists>e k. fmlookup (as_streams (registrations rs s)) m = Some e \<and> sr_StreamToken e = of_nat k \<and> n < k \<and> k \<le> n + length rs))"
  using assms
proof (induction rs s arbitrary: n rule: registrations.induct)
  case (2 now m' req rs s)
  let ?s = "snd (svc_Register now (Some m') req s)"
  have m': "m' \<noteq> ''''" using 2(3) by simp
  have "as_tokens ?s = of_nat (Suc n)" using 2(2) m' by (simp add: add.commute)
  from 2(1) [OF this] 2(3) have IH: "as_tokens (registrations rs ?s) = of_nat (Suc n + length rs)"
    "fmlookup (as_streams (registrations rs ?s)) m = fmlookup (as_streams ?s) m \<or>
     (\<exists>e k. fmlookup (as_streams (registrations rs ?s)) m = Some e \<and> sr_StreamToken e = of_nat k \<and> Suc n < k \<and> k \<le> Suc n + length rs)"
    by auto
  have "fmlookup (as_streams ?s) m = fmlookup (as_streams s) m \<or>
     (\<exists>e. fmlookup (as_streams ?s) m = Some e \<and> sr_StreamToken e = of_nat (Suc n))"
    using m' 2(2) by (auto simp: svc_Register_def MachineIDFromContext_def Let_def sr_Add_def NextStreamToken_def add.commute)
  then have "fmlookup (as_streams (registrations rs ?s)) m = fmlookup (as_streams s) m \<or>
     (\<exists>e k. fmlookup (as_streams (registrations rs ?s)) m = Some e \<and> sr_StreamToken e = of_nat k \<and> n < k \<and> k \<le> Suc n + length rs)"
  proof
    assume a: "\<exists>e. fmlookup (as_streams ?s) m = Some e \<and> sr_StreamToken e = of_nat (Suc n)"
    have "\<exists>e k. fmlookup (as_streams (registrations rs ?s)) m = Some e \<and> sr_StreamToken e = of_nat k \<and> n < k \<and> k \<le> Suc n + length rs"
      using IH(2)
    proof
      assume "fmlookup (as_streams (registrations rs ?s)) m = fmlookup (as_streams ?s) m"
      then show ?thesis using a by (intro exI [of _ "the (fmlookup (as_streams ?s) m)"] exI [of _ "Suc n"]) auto
    qed (blast dest: Suc_lessD)
    then show ?thesis ..
  next
    assume same: "fmlookup (as_streams ?s) m = fmlookup (as_streams s) m"
    from IH(2) show ?thesis using same by (elim disjE) (simp_all, blast dest: Suc_lessD)
  qed
  then show ?case using IH(1) by simp
qed simp

text \<open>
  The stream of an old connection that closes late does not remove the machine's newer
  registration: after the stream captured its token, any number of registrations (below
  \<open>2 ^ 64\<close> in total) may follow; if one of them was for the machine, closing the old stream
  leaves its entry in place.
\<close>

theorem late_close_keeps_registration:
  assumes "as_tokens s = of_nat n" and "n + length rs < 2 ^ 64" and "\<forall>r \<in> set rs. fst (snd r) \<noteq> ''''"
    and "fmlookup (as_streams s) m = Some old" and "sr_StreamToken old = of_nat k" and "k \<le> n"
    and "fmlookup (as_streams (registrations rs s)) m = Some new" and "new \<noteq> old"
  shows "fmlookup (as_streams (stream_close env p (sr_StreamToken old) m (registrations rs s))) m = Some new"
proof -
  obtain j where j: "sr_StreamToken new = of_nat j" "n < j" "j \<le> n + length rs"
    using registrations_tokens [OF assms(1,3), of m] assms(4,7,8) by auto
  have "sr_StreamToken new \<noteq> sr_StreamToken old"
  proof
    assume "sr_StreamToken new = sr_StreamToken old"
    then have "j = k" using word64_Suc_inj [of j k] j assms(2,5,6) by simp
    then show False using j(2) assms(6) by simp
  qed
  then show ?thesis using assms(7) by (simp add: stream_close_def sr_RemoveIfToken_def put_connMgr_def Let_def)
qed

definition req_of :: "int \<Rightarrow> RegisterRequest" where
  "req_of n = \<lparr>rq_MaxSessions = n, rq_HomeDir = ''/home/u'', rq_ExistingSessions = []\<rparr>"

definition exec0 :: SessionStepExecutor where
  "exec0 = NewSessionStepExecutor (NewConnectionManager fmempty) (empty_db [] []) []"

definition svc1 :: agentService where
  "svc1 = snd (svc_Register 5 (Some ''m'') (req_of 3) (NewGRPCServer None exec0))"

theorem late_close_keeps_registration_witness:
  "map_option sr_MaxSessions
     (fmlookup (as_streams (stream_close env p 1 ''m'' (registrations [(9, ''m'', req_of 4)] svc1))) ''m'') = Some 4"
proof -
  let ?old = "\<lparr>sr_MachineID = ''m'', sr_StreamToken = 1, sr_MaxSessions = 3, sr_HomeDir = ''/home/u'', sr_ConnectedAt = 5, sr_SessionStates = []\<rparr>"
  let ?new = "\<lparr>sr_MachineID = ''m'', sr_StreamToken = 2, sr_MaxSessions = 4, sr_HomeDir = ''/home/u'', sr_ConnectedAt = 9, sr_SessionStates = []\<rparr>"
  note defs = svc1_def svc_Register_def MachineIDFromContext_def NextStreamToken_def sr_Add_def NewGRPCServer_def req_of_def Let_def
  have "as_tokens svc1 = of_nat 1" "fmlookup (as_streams svc1) ''m'' = Some ?old"
    "fmlookup (as_streams (registrations [(9, ''m'', req_of 4)] svc1)) ''m'' = Some ?new"
    by (simp_all add: defs)
  then show ?thesis
    using late_close_keeps_registration [of svc1 1 "[(9, ''m'', req_of 4)]" "''m''" ?old 1 ?new env p] by simp
qed

section \<open>Session states\<close>

lemma IfNotTerminal_keeps:
  "r \<in> set rows \<Longrightarrow> terminal_status (sn_Status r) \<Longrightarrow> r \<in> set (UpdateSessionStatusIfNotTerminal now sid st rows)"
  by (force simp: UpdateSessionStatusIfNotTerminal_def)

lemma on_exit_sessions:
  "ex_sessions (as_exec (on_exit env m sid code s)) =
     (if as_set s DepSessionStore \<and> \<not> sv_fault env SUpdateIfNotTerminal
      then UpdateSessionStatusIfNotTerminal (sv_now env) sid (if code \<noteq> 0 then StatusFailed else StatusCompleted) (ex_sessions (as_exec s))
      else ex_sessions (as_exec s))"
  by (auto simp: on_exit_def svc_publish_def put_sessions_def Let_def)

text \<open>An exit event does not change a session that a user has terminated.\<close>

lemma exit_respects_terminal:
  "r \<in> set (ex_sessions (as_exec s)) \<Longrightarrow> terminal_status (sn_Status r) \<Longrightarrow>
     r \<in> set (ex_sessions (as_exec (on_exit env m sid code s)))"
  by (simp add: on_exit_sessions IfNotTerminal_keeps)

text \<open>
  A status event does. The session of machine \<open>m\<close> was terminated; a late status message
  revives it, and it may come from another machine.
\<close>

definition svc_env0 :: svc_env where
  "svc_env0 = \<lparr>sv_exec = \<lparr>xv_now = 7, xv_uid = ''u'', xv_fault = (\<lambda>_. False), xv_accepts = (\<lambda>_. True), xv_args = (\<lambda>_. None),
     xv_params = (\<lambda>_. None), xv_startRun = (\<lambda>_ _. False)\<rparr>, sv_fault = (\<lambda>_. False), sv_order = [], sv_entry = (\<lambda>_. None),
     sv_str = (\<lambda>_. None), sv_attrs = (\<lambda>_. None), sv_parseTime = (\<lambda>_. None)\<rparr>"

definition svc_term :: agentService where
  "svc_term = svc_Set DepSessionStore (NewGRPCServer None (exec0\<lparr>ex_sessions :=
     [session0\<lparr>sn_SessionID := ''s'', sn_MachineID := ''m'', sn_Status := StatusTerminated, sn_EndedAt := Some 3\<rparr>]\<rparr>))"

lemma status_event_revives:
  "map_sum (\<lambda>_. ()) (\<lambda>s. map sn_Status (ex_sessions (as_exec s)))
     (handle_event svc_env0 ''other'' (EvSessionStatus ''s'' StatusRunning) svc_term) = Inr [StatusRunning]"
  by (simp add: handle_event_def on_status_def allowedStatus_def svc_term_def svc_Set_def NewGRPCServer_def exec0_def
      NewSessionStepExecutor_def svc_env0_def UpdateSessionStatus_def session0_def put_sessions_def session_status_set_def
      status_event_type_def svc_publish_def terminal_status_def StatusRunning_def StatusTerminated_def StatusFailed_def
      StatusCompleted_def StatusWaitingForInput_def TypeSessionResumed_def Let_def)

text \<open>
  A clean-up that is queued while the goroutine sends the earlier ones is deleted with them
  and never sent.
\<close>

lemma queued_cleanup_lost:
  assumes "as_cleanups s = [(''a'', m)]" and "\<not> sv_fault env SDeleteCleanups"
  shows "let cleanups = ListPendingCleanups m s;
             s1 = AddPendingCleanup ''b'' m s;
             s2 = send_cleanups env (\<lambda>_. True) m cleanups s1
         in as_cleanups s2 = [] \<and> as_cleaned s2 = as_cleaned s @ [(''a'', m)]"
  using assms by (simp add: ListPendingCleanups_def AddPendingCleanup_def send_cleanups_def DeletePendingCleanups_def)

end
