(* ===== verification/Session_Executor_Props.thy ===== *)
theory Session_Executor_Props
  imports Session_Executor "HOL-Library.Multiset"
begin

text \<open>
  What the executor owes the runner. Executor, monitors and agents form a transition system;
  in it a launched step is held by exactly one place at a time (a goroutine, the tracking
  table, or a callback on its way), so it is reported at most once. A step with a session of
  its own is always watched by a monitor, which reports it when the session ends or the
  deadline passes; a follow-up step in a shared session is not.
\<close>

section \<open>The command line\<close>

lemma strip_loop_flag: "flag \<notin> set (strip_loop flag skip args)"
  by (induction args arbitrary: skip) auto

lemma strip_loop_subset: "set (strip_loop flag skip args) \<subseteq> set args"
  by (induction args arbitrary: skip) auto

text \<open>
  The command line of a Claude session: when permissions are to be skipped the flag is
  the first argument, and when a model is configured the last two arguments select it; what
  the user supplied contains neither flag any more.
\<close>

theorem claude_args_flags:
  "(rs_SkipPermissionsSnapshot rs \<noteq> Some 0 \<and> rs_ModelSnapshot rs = '''' \<and>
     (\<exists>user. claude_args env rs = skipFlag # user \<and> skipFlag \<notin> set user)) \<or>
   (rs_SkipPermissionsSnapshot rs \<noteq> Some 0 \<and> rs_ModelSnapshot rs \<noteq> '''' \<and>
     (\<exists>user. claude_args env rs = skipFlag # user @ [modelFlag, rs_ModelSnapshot rs] \<and>
        skipFlag \<notin> set user \<and> modelFlag \<notin> set user)) \<or>
   (rs_SkipPermissionsSnapshot rs = Some 0 \<and> rs_ModelSnapshot rs \<noteq> '''' \<and>
     (\<exists>user. claude_args env rs = user @ [modelFlag, rs_ModelSnapshot rs] \<and> modelFlag \<notin> set user)) \<or>
   (rs_SkipPermissionsSnapshot rs = Some 0 \<and> rs_ModelSnapshot rs = '''' \<and>
     claude_args env rs = ParseArgs (xv_args env) (rs_ArgsSnapshot rs))"
proof -
  let ?u = "ParseArgs (xv_args env) (rs_ArgsSnapshot rs)"
  have ne: "skipFlag \<noteq> modelFlag" by (simp add: skipFlag_def modelFlag_def)
  have "skipFlag \<notin> set (strip_loop modelFlag False (StripFlag ?u skipFlag))"
    using strip_loop_subset [of modelFlag False "StripFlag ?u skipFlag"] by (auto simp: StripFlag_def)
  then show ?thesis
    using ne strip_loop_flag [of modelFlag False]
    by (cases "rs_SkipPermissionsSnapshot rs = Some 0"; cases "rs_ModelSnapshot rs = ''''")
      (auto simp: claude_args_def StripFlagWithValue_def Let_def StripFlag_def)
qed

section \<open>The executor as a transition system\<close>

text \<open>
  \<open>es_pend\<close>: goroutines about to call \<open>ExecuteStep\<close>; \<open>es_next\<close>: those in the middle of it.
  The store, the sessions and the connections change under the executor's feet.
\<close>

record exec_sys =
  es_ex :: SessionStepExecutor
  es_pend :: "(nat \<times> RunStep \<times> ResolveContext) list"
  es_next :: "(nat \<times> RunStep \<times> exec_next) list"

inductive exec_step :: "exec_sys \<Rightarrow> exec_sys \<Rightarrow> bool" where
  exec_run: "(cb, rs, rc) \<in> set (es_pend s) \<Longrightarrow> ExecuteStep env rs (Some rc) cb (es_ex s) = (nx, e') \<Longrightarrow>
    exec_step s (s\<lparr>es_ex := e', es_pend := remove1 (cb, rs, rc) (es_pend s), es_next := (cb, rs, nx) # es_next s\<rparr>)"
| exec_abandon: "(cb, rs, rc) \<in> set (es_pend s) \<Longrightarrow> 0 < rs_DelaySecondsSnapshot rs \<Longrightarrow>
    exec_step s (s\<lparr>es_pend := remove1 (cb, rs, rc) (es_pend s)\<rparr>)"
| exec_track: "(cb, rs, ToTrack sid) \<in> set (es_next s) \<Longrightarrow> fmlookup (ex_monitors (es_ex s)) k = None \<Longrightarrow>
    exec_step s (s\<lparr>es_ex := trackAndMonitor env k rs sid cb (es_ex s), es_next := remove1 (cb, rs, ToTrack sid) (es_next s)\<rparr>)"
| exec_send: "(cb, rs, ToSend sid m data) \<in> set (es_next s) \<Longrightarrow>
    exec_step s (s\<lparr>es_ex := send_input env sid m data (es_ex s), es_next := remove1 (cb, rs, ToSend sid m data) (es_next s)\<rparr>)"
| exec_tick: "fmlookup (ex_monitors (es_ex s)) k = Some m \<Longrightarrow>
    exec_step s (s\<lparr>es_ex := monitor_tick env k m (es_ex s)\<rparr>)"
| exec_done: "fmlookup (ex_monitors (es_ex s)) k = Some m \<Longrightarrow>
    exec_step s (s\<lparr>es_ex := monitor_done env k m (es_ex s)\<rparr>)"
| exec_idle: "exec_step s (s\<lparr>es_ex := OnStepIdle env sid (es_ex s)\<rparr>)"
| exec_cleanup: "exec_step s (s\<lparr>es_ex := CleanupRunSessions env order runID (es_ex s)\<rparr>)"
| exec_world: "exec_step s (s\<lparr>es_ex := (es_ex s)\<lparr>ex_connMgr := cm, ex_sessions := rows, ex_store := d, ex_runStarter := b\<rparr>\<rparr>)"

section \<open>Who holds a step\<close>

definition tracked_steps :: "SessionStepExecutor \<Rightarrow> (nat \<times> string) multiset" where
  "tracked_steps e = image_mset (\<lambda>sid. case fmlookup (ex_sessionToStep e) sid of
       None \<Rightarrow> (0, '''') | Some t \<Rightarrow> (tk_onComplete t, tk_stepID t)) (mset_set (fmdom' (ex_sessionToStep e)))"

definition called_steps :: "SessionStepExecutor \<Rightarrow> (nat \<times> string) multiset" where
  "called_steps e = mset (map (\<lambda>(cb, i, code). (cb, i)) (ex_calls e))"

definition held :: "SessionStepExecutor \<Rightarrow> (nat \<times> string) multiset" where
  "held e = tracked_steps e + called_steps e"

fun next_step :: "nat \<times> RunStep \<times> exec_next \<Rightarrow> (nat \<times> string) multiset" where
  "next_step (cb, rs, ToTrack sid) = {#(cb, rs_StepID rs)#}"
| "next_step (cb, rs, _) = {#}"

definition next_steps :: "(nat \<times> RunStep \<times> exec_next) list \<Rightarrow> (nat \<times> string) multiset" where
  "next_steps ns = \<Sum>\<^sub># (mset (map next_step ns))"

definition pend_steps :: "(nat \<times> RunStep \<times> ResolveContext) list \<Rightarrow> (nat \<times> string) multiset" where
  "pend_steps ps = mset (map (\<lambda>(cb, rs, rc). (cb, rs_StepID rs)) ps)"

definition holders :: "exec_sys \<Rightarrow> (nat \<times> string) multiset" where
  "holders s = pend_steps (es_pend s) + next_steps (es_next s) + held (es_ex s)"

lemma tracked_drop:
  assumes "fmlookup (ex_sessionToStep e) sid = Some t"
  shows "tracked_steps e = add_mset (tk_onComplete t, tk_stepID t)
    (tracked_steps (e\<lparr>ex_sessionToStep := fmdrop sid (ex_sessionToStep e)\<rparr>))"
proof -
  let ?m = "ex_sessionToStep e"
  have dom: "mset_set (fmdom' ?m) = add_mset sid (mset_set (fmdom' ?m - {sid}))"
    using assms by (simp add: fmlookup_in_dom mset_set.remove)
  show ?thesis unfolding tracked_steps_def dom
    by (auto simp: assms intro!: image_mset_cong)
qed

lemma tracked_upd:
  "tracked_steps (e\<lparr>ex_sessionToStep := fmupd sid t (ex_sessionToStep e)\<rparr>) =
     add_mset (tk_onComplete t, tk_stepID t) (tracked_steps (e\<lparr>ex_sessionToStep := fmdrop sid (ex_sessionToStep e)\<rparr>))"
  using tracked_drop [of "e\<lparr>ex_sessionToStep := fmupd sid t (ex_sessionToStep e)\<rparr>" sid t]
  by (simp add: fmdrop_fmupd_same)

lemma tracked_drop_le: "tracked_steps (e\<lparr>ex_sessionToStep := fmdrop sid (ex_sessionToStep e)\<rparr>) \<subseteq># tracked_steps e"
proof (cases "fmlookup (ex_sessionToStep e) sid")
  case None
  then have "fmdrop sid (ex_sessionToStep e) = ex_sessionToStep e" by (auto intro: fmap_ext)
  then show ?thesis by simp
qed (simp add: tracked_drop)

lemma held_cong: "ex_sessionToStep e' = ex_sessionToStep e \<Longrightarrow> ex_calls e' = ex_calls e \<Longrightarrow> held e' = held e"
  by (simp add: held_def tracked_steps_def called_steps_def)

lemma put_status_frame [simp]:
  "ex_sessionToStep (put_status env r st sid c e) = ex_sessionToStep e" "ex_calls (put_status env r st sid c e) = ex_calls e"
  "ex_monitors (put_status env r st sid c e) = ex_monitors e" "ex_sharedSessions (put_status env r st sid c e) = ex_sharedSessions e"
  by (auto simp: put_status_def split: sum.splits)

lemma error_message_frame [simp]:
  "ex_sessionToStep (error_message env t c e) = ex_sessionToStep e" "ex_calls (error_message env t c e) = ex_calls e"
  "ex_monitors (error_message env t c e) = ex_monitors e"
  by (auto simp: error_message_def split: sum.splits)

lemma cancel_monitor_frame [simp]:
  "ex_sessionToStep (cancel_monitor k e) = ex_sessionToStep e" "ex_calls (cancel_monitor k e) = ex_calls e"
  by (auto simp: cancel_monitor_def split: option.splits)

lemma sendKill_frame [simp]:
  "ex_sessionToStep (sendKill env m sid e) = ex_sessionToStep e" "ex_calls (sendKill env m sid e) = ex_calls e"
  "ex_monitors (sendKill env m sid e) = ex_monitors e"
  by (auto simp: sendKill_def SendCommand_def split: option.splits)

lemma end_monitor_frame [simp]:
  "ex_sessionToStep (end_monitor k e) = ex_sessionToStep e" "ex_calls (end_monitor k e) = ex_calls e"
  by (simp_all add: end_monitor_def)

lemma held_frames [simp]:
  "held (put_status env r st sid c e) = held e" "held (sendKill env m sid e) = held e"
  "held (end_monitor k e) = held e" "held (e\<lparr>ex_monitors := ms\<rparr>) = held e"
  "held (e\<lparr>ex_sharedSessions := sh\<rparr>) = held e" "held (e\<lparr>ex_started := js\<rparr>) = held e"
  "held (e\<lparr>ex_sessions := rows\<rparr>) = held e" "held (e\<lparr>ex_sent := cs\<rparr>) = held e"
  by (rule held_cong, simp, simp)+

lemma held_onComplete [simp]: "held (onComplete cb i c e) = add_mset (cb, i) (held e)"
  by (simp add: held_def onComplete_def tracked_steps_def called_steps_def)

lemma completed_held:
  assumes "fmlookup (ex_sessionToStep e) sid = Some t"
    and "ex_sessionToStep e' = fmdrop sid (ex_sessionToStep e)" and "ex_calls e' = ex_calls e"
  shows "add_mset (tk_onComplete t, tk_stepID t) (held e') = held e"
proof -
  have "held e' = held (e\<lparr>ex_sessionToStep := fmdrop sid (ex_sessionToStep e)\<rparr>)"
    using assms(2,3) by (intro held_cong) simp_all
  then show ?thesis using tracked_drop [OF assms(1)] by (simp add: held_def called_steps_def)
qed

lemma completeStep_held [simp]: "held (completeStep env sid c e) = held e"
  by (auto simp: completeStep_def intro: completed_held split: option.splits)

lemma completeSharedStep_held [simp]: "held (completeSharedStep env sid c e) = held e"
  by (auto simp: completeSharedStep_def intro: completed_held split: option.splits)

lemma open_session_held:
  assumes "open_session env rs cb cmd e = (nx, e')"
  shows "held e' + next_step (cb, rs, nx) = add_mset (cb, rs_StepID rs) (held e)"
  using assms by (auto simp: open_session_def Let_def SendCommand_def split: sum.splits if_splits)

lemma track_held:
  assumes "ex_sessionToStep e' = fmupd sid t (ex_sessionToStep e)" and "ex_calls e' = ex_calls e"
    and "tk_onComplete t = cb" and "tk_stepID t = i"
  shows "held e' \<subseteq># add_mset (cb, i) (held e)"
proof -
  have "held e' = held (e\<lparr>ex_sessionToStep := fmupd sid t (ex_sessionToStep e)\<rparr>)"
    using assms(1,2) by (intro held_cong) simp_all
  then show ?thesis
    using tracked_drop_le [of sid e] assms(3,4)
    by (simp add: held_def called_steps_def tracked_upd subset_mset.add_right_mono)
qed

lemma shared_held:
  assumes "executeSharedSession env rs rc cb e = (nx, e')"
  shows "held e' + next_step (cb, rs, nx) \<subseteq># add_mset (cb, rs_StepID rs) (held e)"
proof -
  have "held e' + next_step (cb, rs, nx) = add_mset (cb, rs_StepID rs) (held e)"
    if "executeSharedFirstStep env rs rc cb key e = (nx, e')" for key
    using that by (auto simp: executeSharedFirstStep_def dest!: open_session_held split: option.splits exec_next.splits prod.splits)
  moreover have "held e' + next_step (cb, rs, nx) \<subseteq># add_mset (cb, rs_StepID rs) (held e)"
    if "executeSharedSubsequentStep env rs rc cb sid m e = (nx, e')" for sid m
  proof (cases "GetAgent m (ex_connMgr e)")
    case (Some a)
    let ?t = "\<lparr>tk_runID = rs_RunID rs, tk_runStepID = rs_RunStepID rs, tk_stepID = rs_StepID rs,
      tk_onComplete = cb, tk_cancel = None\<rparr>"
    have "held e' \<subseteq># add_mset (cb, rs_StepID rs) (held e)"
      by (rule track_held [of _ sid ?t]) (use that Some in \<open>auto simp: executeSharedSubsequentStep_def Let_def\<close>)
    then show ?thesis using that Some by (auto simp: executeSharedSubsequentStep_def Let_def)
  qed (use that in \<open>auto simp: executeSharedSubsequentStep_def\<close>)
  ultimately show ?thesis using assms by (fastforce simp: executeSharedSession_def Let_def split: option.splits)
qed

lemma ExecuteStep_held:
  assumes "ExecuteStep env rs rc cb e = (nx, e')"
  shows "held e' + next_step (cb, rs, nx) \<subseteq># add_mset (cb, rs_StepID rs) (held e)"
proof -
  have "held (executeRunJob env rs rc cb e) = add_mset (cb, rs_StepID rs) (held e)"
    by (auto simp: executeRunJob_def fail_run_job_def Let_def split: option.splits)
  moreover have "held e' + next_step (cb, rs, nx) = add_mset (cb, rs_StepID rs) (held e)"
    if "executeShellTask env rs rc cb e = (nx, e')"
    using that by (auto simp: executeShellTask_def dest!: open_session_held split: if_splits option.splits)
  moreover have "held e' + next_step (cb, rs, nx) \<subseteq># add_mset (cb, rs_StepID rs) (held e)"
    if "executeClaudeSession env rs rc cb e = (nx, e')"
    using that by (auto simp: executeClaudeSession_def dest!: open_session_held dest: shared_held split: if_splits option.splits)
  ultimately show ?thesis using assms by (auto simp: ExecuteStep_def split: if_splits)
qed

lemma pend_remove1:
  "(cb, rs, rc) \<in> set ps \<Longrightarrow> pend_steps ps = add_mset (cb, rs_StepID rs) (pend_steps (remove1 (cb, rs, rc) ps))"
  by (induction ps) (auto simp: pend_steps_def)

lemma next_remove1: "x \<in> set ns \<Longrightarrow> next_steps ns = next_step x + next_steps (remove1 x ns)"
  by (induction ns) (auto simp: next_steps_def)

lemma next_steps_Cons [simp]: "next_steps (x # ns) = next_step x + next_steps ns"
  by (simp add: next_steps_def)

lemma monitor_held [simp]: "held (monitor_tick env k m e) = held e" "held (monitor_done env k m e) = held e"
  by (auto simp: monitor_tick_def monitor_done_def Let_def split: sum.splits)

lemma cleanup_held [simp]: "held (CleanupRunSessions env order runID e) = held e"
proof -
  have "held (fold (\<lambda>entry. sendKill env (se_machineID entry) (se_sessionID entry)) xs e) = held e"
    for xs :: "sharedSessionEntry list" and e
    by (induction xs arbitrary: e) auto
  then show ?thesis by (simp add: CleanupRunSessions_def Let_def)
qed

lemma world_held: "held (e\<lparr>ex_connMgr := cm, ex_sessions := rows, ex_store := d, ex_runStarter := b\<rparr>) = held e"
  by (rule held_cong) simp_all

text \<open>No step of the executor creates a holder: launches are reported at most once.\<close>

lemma exec_step_holders: "exec_step s t \<Longrightarrow> holders t \<subseteq># holders s"
proof (induction rule: exec_step.induct)
  case (exec_run cb rs rc s env nx e')
  then show ?case
    using ExecuteStep_held [OF exec_run(2)] pend_remove1 [OF exec_run(1)]
    by (simp add: holders_def ac_simps subset_mset.add_left_mono flip: add_mset_add_single)
next
  case (exec_track cb rs sid s k env)
  have "held (trackAndMonitor env k rs sid cb (es_ex s)) \<subseteq># add_mset (cb, rs_StepID rs) (held (es_ex s))"
    by (rule track_held [of _ sid "\<lparr>tk_runID = rs_RunID rs, tk_runStepID = rs_RunStepID rs, tk_stepID = rs_StepID rs,
          tk_onComplete = cb, tk_cancel = Some k\<rparr>"]) (simp_all add: trackAndMonitor_def Let_def)
  then show ?case using next_remove1 [OF exec_track(1)] by (simp add: holders_def ac_simps)
next
  case (exec_send cb rs sid m data s env)
  have "held (send_input env sid m data (es_ex s)) = held (es_ex s)"
    by (simp add: send_input_def SendCommand_def)
  then show ?case using next_remove1 [OF exec_send(1)] by (simp add: holders_def)
next
  case (exec_abandon cb rs rc s)
  then show ?case using pend_remove1 [OF exec_abandon(1)] by (simp add: holders_def)
next
  case exec_world
  then show ?case by (simp add: holders_def world_held)
qed (simp_all add: holders_def OnStepIdle_def)


section \<open>Who watches a step\<close>

text \<open>Runners launch steps and handle callbacks.\<close>

inductive exec_open :: "exec_sys \<Rightarrow> exec_sys \<Rightarrow> bool" where
  open_exec: "exec_step s t \<Longrightarrow> exec_open s t"
| open_launch: "exec_open s (s\<lparr>es_pend := es_pend s @ [(cb, rs, rc)]\<rparr>)"
| open_deliver: "exec_open s (s\<lparr>es_ex := (es_ex s)\<lparr>ex_calls := remove1 c (ex_calls (es_ex s))\<rparr>\<rparr>)"

definition exec_init :: "exec_sys \<Rightarrow> bool" where
  "exec_init s \<longleftrightarrow> (\<exists>cm d rows. s = \<lparr>es_ex = SetRunStarter (NewSessionStepExecutor cm d rows), es_pend = [], es_next = []\<rparr>)"

definition watched :: "SessionStepExecutor \<Rightarrow> bool" where
  "watched e \<longleftrightarrow> (\<forall>sid t k. fmlookup (ex_sessionToStep e) sid = Some t \<and> tk_cancel t = Some k \<longrightarrow>
     (\<exists>m. fmlookup (ex_monitors e) k = Some m \<and> mo_sessionID m = sid))"

lemma watched_cong:
  "ex_sessionToStep e' = ex_sessionToStep e \<Longrightarrow> ex_monitors e' = ex_monitors e \<Longrightarrow> watched e \<Longrightarrow> watched e'"
  by (simp add: watched_def)

lemma watched_drop:
  "ex_sessionToStep e' = fmdrop sid (ex_sessionToStep e) \<Longrightarrow> ex_monitors e' = ex_monitors e \<Longrightarrow> watched e \<Longrightarrow> watched e'"
  by (auto simp: watched_def)

lemma watched_cancel: "watched e \<Longrightarrow> watched (cancel_monitor k e)"
  unfolding watched_def by (fastforce simp: cancel_monitor_def split: option.splits)

lemma watched_onComplete [simp]: "watched (onComplete cb i c e) = watched e"
  by (simp add: watched_def onComplete_def)

lemma completeSharedStep_watched: "watched e \<Longrightarrow> watched (completeSharedStep env sid c e)"
  by (auto simp: completeSharedStep_def intro: watched_drop [of _ sid e] split: option.splits)

lemma completeStep_watched: "watched e \<Longrightarrow> watched (completeStep env sid c e)"
  by (auto simp: completeStep_def intro!: watched_cancel intro: watched_drop [of _ sid e] split: option.splits)

lemma completeStep_untracked: "fmlookup (ex_sessionToStep (completeStep env sid c e)) sid = None"
  by (simp add: completeStep_def onComplete_def split: option.splits)

lemma completeStep_monitors:
  "fmlookup (ex_monitors e) k = Some m \<Longrightarrow>
   \<exists>m'. fmlookup (ex_monitors (completeStep env sid c e)) k = Some m' \<and> mo_sessionID m' = mo_sessionID m"
  by (auto simp: completeStep_def onComplete_def cancel_monitor_def split: option.splits)

lemma monitor_end_watched:
  assumes "watched e" and "fmlookup (ex_monitors e) k = Some m"
  shows "watched (end_monitor k (completeStep env (mo_sessionID m) c e))"
proof -
  let ?e = "completeStep env (mo_sessionID m) c e"
  obtain m' where m': "fmlookup (ex_monitors ?e) k = Some m'" "mo_sessionID m' = mo_sessionID m"
    using completeStep_monitors [OF assms(2)] by blast
  have "j \<noteq> k" if "fmlookup (ex_sessionToStep ?e) sid = Some t" "tk_cancel t = Some j" for sid t j
  proof
    assume "j = k"
    with that completeStep_watched [OF assms(1)] m' have "sid = mo_sessionID m" unfolding watched_def by fastforce
    then show False using that(1) completeStep_untracked by simp
  qed
  then show ?thesis using completeStep_watched [OF assms(1), of env "mo_sessionID m" c]
    unfolding watched_def by (fastforce simp: end_monitor_def)
qed

lemma sendKill_watched: "watched e \<Longrightarrow> watched (sendKill env m sid e)"
  by (rule watched_cong) simp_all

lemma monitor_upd_watched:
  "watched e \<Longrightarrow> fmlookup (ex_monitors e) k = Some m \<Longrightarrow> mo_sessionID m' = mo_sessionID m \<Longrightarrow>
   watched (e\<lparr>ex_monitors := fmupd k m' (ex_monitors e)\<rparr>)"
  unfolding watched_def by (fastforce split: if_splits)

lemma monitor_watched:
  assumes "watched e" and "fmlookup (ex_monitors e) k = Some m"
  shows "watched (monitor_tick env k m e)" and "watched (monitor_done env k m e)"
  using assms monitor_end_watched [OF sendKill_watched [OF assms(1)]]
  by (auto simp: monitor_tick_def monitor_done_def Let_def intro: monitor_end_watched monitor_upd_watched split: sum.splits)

lemma open_session_frame:
  "open_session env rs cb cmd e = (nx, e') \<Longrightarrow> ex_sessionToStep e' = ex_sessionToStep e \<and> ex_monitors e' = ex_monitors e"
  by (auto simp: open_session_def Let_def SendCommand_def onComplete_def split: sum.splits if_splits)

lemma subsequent_watched:
  "executeSharedSubsequentStep env rs rc cb sid m e = (nx, e') \<Longrightarrow> watched e \<Longrightarrow> watched e'"
  by (auto simp: executeSharedSubsequentStep_def Let_def watched_def onComplete_def split: option.splits if_splits)

lemma track_watched:
  assumes "watched e" and "fmlookup (ex_monitors e) k = None"
  shows "watched (trackAndMonitor env k rs sid cb e)"
proof -
  have new: "tk_cancel u \<noteq> Some k" if "fmlookup (ex_sessionToStep e) i = Some u" for i u
    using assms that unfolding watched_def by fastforce
  show ?thesis unfolding watched_def
  proof (intro allI impI)
    fix i u j
    assume "fmlookup (ex_sessionToStep (trackAndMonitor env k rs sid cb e)) i = Some u \<and> tk_cancel u = Some j"
    then show "\<exists>m. fmlookup (ex_monitors (trackAndMonitor env k rs sid cb e)) j = Some m \<and> mo_sessionID m = i"
      using assms(1) new by (cases "i = sid") (auto simp: trackAndMonitor_def Let_def watched_def)
  qed
qed

lemma ExecuteStep_watched:
  assumes "ExecuteStep env rs rc cb e = (nx, e')" and "watched e"
  shows "watched e'"
proof -
  have job: "watched (executeRunJob env rs rc cb e)"
    by (rule watched_cong [OF _ _ assms(2)]) (auto simp: executeRunJob_def fail_run_job_def Let_def onComplete_def split: option.splits)
  have opened: "watched e2" if "open_session env rs cb cmd e = (nx', e2)" for cmd nx' e2
    using open_session_frame [OF that] assms(2) by (auto intro: watched_cong)
  have "watched e2" if "executeSharedSession env rs rc cb e = (nx', e2)" for nx' e2
  proof (cases "fmlookup (ex_sharedSessions e) \<lparr>ke_runID = rs_RunID rs, ke_sessionKey = rs_SessionKeySnapshot rs\<rparr>")
    case None
    have shared: "watched (x\<lparr>ex_sharedSessions := sh\<rparr>) = watched x" for x sh by (simp add: watched_def)
    show ?thesis using that None assms(2)
      by (auto simp: executeSharedSession_def executeSharedFirstStep_def shared dest!: opened
          split: option.splits prod.splits exec_next.splits)
  next
    case (Some a)
    then show ?thesis using that assms(2) by (auto simp: executeSharedSession_def intro: subsequent_watched)
  qed
  then show ?thesis using assms job
    by (auto simp: ExecuteStep_def executeShellTask_def executeClaudeSession_def dest!: opened split: if_splits option.splits)
qed

lemma exec_step_watched: "exec_step s t \<Longrightarrow> watched (es_ex s) \<Longrightarrow> watched (es_ex t)"
proof (induction rule: exec_step.induct)
  case exec_cleanup
  have "watched (fold (\<lambda>entry. sendKill env (se_machineID entry) (se_sessionID entry)) xs e)" if "watched e"
    for xs :: "sharedSessionEntry list" and e env
    using that by (induction xs arbitrary: e) (auto intro: sendKill_watched)
  moreover have "watched (e\<lparr>ex_sharedSessions := sh\<rparr>) = watched e" for e sh by (simp add: watched_def)
  ultimately show ?case using exec_cleanup by (simp add: CleanupRunSessions_def Let_def)
next
  case exec_world
  then show ?case by (simp add: watched_def)
next
  case (exec_send cb rs sid m data s env)
  have "watched (e\<lparr>ex_sent := cs\<rparr>) = watched e" for e cs by (simp add: watched_def)
  with exec_send show ?case by (simp add: send_input_def SendCommand_def completeSharedStep_watched)
qed (auto simp: OnStepIdle_def intro: ExecuteStep_watched monitor_watched completeSharedStep_watched track_watched)

interpretation executor: invariant_system exec_init exec_open "\<lambda>s. watched (es_ex s)"
proof
  show "watched (es_ex s)" if "exec_init s" for s
    using that by (auto simp: exec_init_def watched_def SetRunStarter_def NewSessionStepExecutor_def)
  show "watched (es_ex t)" if "watched (es_ex s)" "exec_open s t" for s t
    using that(2,1) by cases (auto intro: exec_step_watched watched_cong)
qed

lemma completeStep_calls:
  "fmlookup (ex_sessionToStep e) sid = Some t \<Longrightarrow>
   (tk_onComplete t, tk_stepID t, c) \<in> set (ex_calls (completeStep env sid c e))"
  by (simp add: completeStep_def onComplete_def)

text \<open>
  C7. A step that was given a session of its own cannot be forgotten: as long as it is
  tracked, its session has a live monitor, whose first turn after the deadline reports the
  step with exit code 124, whatever the state of store and agent; and whose first turn that
  reads a final status of the session reports it with exit code 0 or 1.
\<close>

theorem own_session_reported:
  assumes "reachable exec_init exec_open s" and "fmlookup (ex_sessionToStep (es_ex s)) sid = Some t" and "tk_cancel t = Some k"
  shows "\<exists>m. fmlookup (ex_monitors (es_ex s)) k = Some m \<and> mo_sessionID m = sid \<and>
    (\<forall>env. xv_now env > mo_deadline m \<longrightarrow>
       (tk_onComplete t, tk_stepID t, timeoutExitCode) \<in> set (ex_calls (monitor_tick env k m (es_ex s)))) \<and>
    (\<forall>env sess. xv_now env \<le> mo_deadline m \<and> \<not> xv_fault env XGetSession \<and>
       GetSession sid (ex_sessions (es_ex s)) = Inr sess \<and> terminal_status (sn_Status sess) \<longrightarrow>
       (tk_onComplete t, tk_stepID t, if sn_Status sess = StatusCompleted then 0 else failureExitCode)
         \<in> set (ex_calls (monitor_tick env k m (es_ex s))))"
proof -
  obtain m where m: "fmlookup (ex_monitors (es_ex s)) k = Some m" "mo_sessionID m = sid"
    using executor.reachable_inv [OF assms(1)] assms(2,3) unfolding watched_def by blast
  have "(tk_onComplete t, tk_stepID t, timeoutExitCode) \<in> set (ex_calls (monitor_tick env k m (es_ex s)))"
    if "xv_now env > mo_deadline m" for env
    using that m assms(2) by (simp add: monitor_tick_def completeStep_calls)
  moreover have "(tk_onComplete t, tk_stepID t, if sn_Status sess = StatusCompleted then 0 else failureExitCode)
      \<in> set (ex_calls (monitor_tick env k m (es_ex s)))"
    if "xv_now env \<le> mo_deadline m" "\<not> xv_fault env XGetSession"
      "GetSession sid (ex_sessions (es_ex s)) = Inr sess" "terminal_status (sn_Status sess)" for env sess
    using that m assms(2)
    by (auto simp: monitor_tick_def xcall_def terminal_status_def completeStep_calls)
  ultimately show ?thesis using m by blast
qed


section \<open>Concrete executions\<close>

definition xenv :: "string \<Rightarrow> time \<Rightarrow> exec_env" where
  "xenv uid now = \<lparr>xv_now = now, xv_uid = uid, xv_fault = (\<lambda>_. False), xv_accepts = (\<lambda>_. True),
     xv_args = (\<lambda>_. Some []), xv_params = (\<lambda>_. None), xv_startRun = (\<lambda>_ _. True)\<rparr>"

definition step_a :: "string \<Rightarrow> RunStep" where
  "step_a key = \<lparr>rs_RunStepID = ''ra'', rs_RunID = ''r'', rs_StepID = ''a'', rs_Status = StatusRunning,
     rs_SessionID = '''', rs_MachineID = '''', rs_ExitCode = None, rs_StartedAt = None, rs_CompletedAt = None,
     rs_PromptSnapshot = '''', rs_MachineIDSnapshot = ''m'', rs_WorkingDirSnapshot = '''',
     rs_CommandSnapshot = '''', rs_ArgsSnapshot = '''', rs_SkipPermissionsSnapshot = Some 0, rs_ModelSnapshot = '''',
     rs_DelaySecondsSnapshot = 0, rs_OnFailureSnapshot = '''', rs_TimeoutSecondsSnapshot = 60,
     rs_TaskTypeSnapshot = '''', rs_SessionKeySnapshot = key, rs_RunIfSnapshot = '''', rs_MaxRetriesSnapshot = 1,
     rs_RetryDelaySecondsSnapshot = 0, rs_Attempt = 1, rs_ParametersSnapshot = '''', rs_TargetJobIDSnapshot = '''',
     rs_JobParamsSnapshot = '''', rs_OnFailure = '''', rs_ErrorMessage = ''''\<rparr>"

definition ex0 :: SessionStepExecutor where
  "ex0 = SetRunStarter (NewSessionStepExecutor cm1 \<lparr>db_users = [], db_machines = [''m''], db_jobs = [], db_steps = [],
     db_deps = [], db_runs = [], db_run_steps = [], db_values = []\<rparr> [])"

definition ex1 :: "string \<Rightarrow> SessionStepExecutor" where
  "ex1 key = snd (ExecuteStep (xenv ''s1'' 0) (step_a key) (Some rc0) 7 ex0)"

definition ex2 :: "string \<Rightarrow> SessionStepExecutor" where
  "ex2 key = trackAndMonitor (xenv ''s1'' 0) 0 (step_a key) ''s1'' 7 (ex1 key)"

lemma cm1_agent: "GetAgent ''m'' cm1 \<noteq> None" "fmlookup (cm_machines cm1) ''m'' \<noteq> None"
  by code_simp+

lemmas exec_defs = ExecuteStep_def executeClaudeSession_def executeSharedSession_def executeSharedFirstStep_def
  executeSharedSubsequentStep_def open_session_def session_cmd_def SendCommand_def CreateSession_def xcall_def
  put_status_def UpdateRunStepStatus_def xenv_def step_a_def ex0_def SetRunStarter_def NewSessionStepExecutor_def
  session0_def Let_def

lemma ex1_track: "fst (ExecuteStep (xenv ''s1'' 0) (step_a key) (Some rc0) 7 ex0) = ToTrack ''s1''"
  "ex_monitors (ex1 key) = fmempty" "ex_sessionToStep (ex1 key) = fmempty" "ex_calls (ex1 key) = []"
  "key \<noteq> '''' \<Longrightarrow> fmlookup (ex_sharedSessions (ex1 key)) \<lparr>ke_runID = ''r'', ke_sessionKey = key\<rparr> =
     Some \<lparr>se_sessionID = ''s1'', se_machineID = ''m''\<rparr>"
  "map sn_SessionID (ex_sessions (ex1 key)) = [''s1'']" "ex_connMgr (ex1 key) = cm1" "ex_store (ex1 key) = ex_store ex0"
  using cm1_agent by (auto simp: ex1_def exec_defs)

lemma ex2_reachable: "reachable exec_init exec_open \<lparr>es_ex = ex2 '''', es_pend = [], es_next = []\<rparr>"
proof -
  let ?s0 = "\<lparr>es_ex = ex0, es_pend = [], es_next = []\<rparr>"
  let ?s1 = "?s0\<lparr>es_pend := es_pend ?s0 @ [(7, step_a '''', rc0)]\<rparr>"
  have "reachable exec_init exec_open ?s0" by (rule reach_init) (auto simp: exec_init_def ex0_def)
  then have r1: "reachable exec_init exec_open ?s1" by (rule reach_step) (rule open_launch)
  have "ExecuteStep (xenv ''s1'' 0) (step_a '''') (Some rc0) 7 (es_ex ?s1) = (ToTrack ''s1'', ex1 '''')"
    using ex1_track by (simp add: ex1_def prod_eq_iff)
  from exec_run [where rc = rc0, OF _ this] have "exec_open ?s1 \<lparr>es_ex = ex1 '''', es_pend = [], es_next = [(7, step_a '''', ToTrack ''s1'')]\<rparr>"
    by (simp add: open_exec)
  with r1 have r2: "reachable exec_init exec_open \<lparr>es_ex = ex1 '''', es_pend = [], es_next = [(7, step_a '''', ToTrack ''s1'')]\<rparr>"
    by (rule reach_step)
  have "fmlookup (ex_monitors (ex1 '''')) 0 = None" by (simp add: ex1_track)
  then have "exec_open \<lparr>es_ex = ex1 '''', es_pend = [], es_next = [(7, step_a '''', ToTrack ''s1'')]\<rparr>
      \<lparr>es_ex = ex2 '''', es_pend = [], es_next = []\<rparr>"
    using exec_track [of 7 "step_a ''''" "''s1''" "\<lparr>es_ex = ex1 '''', es_pend = [], es_next = [(7, step_a '''', ToTrack ''s1'')]\<rparr>" 0
        "xenv ''s1'' 0"] by (simp add: ex2_def open_exec)
  with r2 show ?thesis by (rule reach_step)
qed

lemma ex2_facts:
  "ex_sessionToStep (ex2 key) = fmupd ''s1'' \<lparr>tk_runID = ''r'', tk_runStepID = ''ra'', tk_stepID = ''a'',
     tk_onComplete = 7, tk_cancel = Some 0\<rparr> fmempty"
  "ex_monitors (ex2 key) = fmupd 0 \<lparr>mo_sessionID = ''s1'', mo_machineID = ''m'', mo_deadline = 60000000000,
     mo_notFoundCount = 0, mo_ctxDone = False\<rparr> fmempty"
  "ex_calls (ex2 key) = []" "ex_sharedSessions (ex2 key) = ex_sharedSessions (ex1 key)"
  "ex_sessions (ex2 key) = ex_sessions (ex1 key)" "ex_connMgr (ex2 key) = cm1"
  using ex1_track [of key]
  by (simp_all add: ex2_def trackAndMonitor_def Let_def put_status_def xcall_def xenv_def UpdateRunStepStatus_def ex0_def
      SetRunStarter_def NewSessionStepExecutor_def stepTimeout_def step_a_def int64_def second_def)

theorem own_session_reported_witness:
  "\<exists>m. fmlookup (ex_monitors (ex2 '''')) 0 = Some m \<and> mo_deadline m = 60 * second \<and>
     (7, ''a'', timeoutExitCode) \<in> set (ex_calls (monitor_tick (xenv '''' (61 * second)) 0 m (ex2 '''')))"
proof -
  obtain t where t: "fmlookup (ex_sessionToStep (ex2 '''')) ''s1'' = Some t" "tk_cancel t = Some 0" "tk_onComplete t = 7" "tk_stepID t = ''a''"
    by (simp add: ex2_facts)
  have "map_option mo_deadline (fmlookup (ex_monitors (ex2 '''')) 0) = Some (60 * second)"
    by (simp add: ex2_facts second_def)
  then show ?thesis
    using own_session_reported [OF ex2_reachable, of "''s1''" t 0] t by (auto simp: xenv_def second_def)
qed

text \<open>
  A shared session that has died. The session of step \<open>a\<close> with key \<open>k\<close> fails and the step is
  reported with exit code 1. Its retry finds the old session in the table, sends its prompt
  there and is tracked, but no monitor is left: only an idle event of the dead session could
  report it.
\<close>

definition ex3 :: SessionStepExecutor where
  "ex3 = (let e = ex2 ''k'';
              e = e\<lparr>ex_sessions := map (session_status_set 1 StatusFailed) (ex_sessions e)\<rparr>
          in case fmlookup (ex_monitors e) 0 of None \<Rightarrow> e | Some m \<Rightarrow> monitor_tick (xenv '''' second) 0 m e)"

definition ex4 :: SessionStepExecutor where
  "ex4 = (case ExecuteStep (xenv ''s2'' (2 * second)) (step_a ''k'') (Some rc0) 7 (ex3\<lparr>ex_calls := []\<rparr>) of
            (ToSend sid m data, e) \<Rightarrow> send_input (xenv '''' (2 * second)) sid m data e
          | (_, e) \<Rightarrow> e)"

lemma dead_shared_session_unwatched:
  "ex_calls ex3 = [(7, ''a'', failureExitCode)] \<and> RunStepIDForSession ''s1'' ex4 = Some ''ra'' \<and>
   ex_calls ex4 = [] \<and> fmdom' (ex_monitors ex4) = {}"
proof -
  obtain r where r: "ex_sessions (ex1 ''k'') = [r]" "sn_SessionID r = ''s1''"
    using ex1_track(6) [of "''k''"] by auto
  let ?e = "(ex2 ''k'')\<lparr>ex_sessions := [session_status_set 1 StatusFailed r]\<rparr>"
  have ex3: "ex3 = end_monitor 0 (completeStep (xenv '''' second) ''s1'' failureExitCode ?e)"
    using r by (simp add: ex3_def Let_def ex2_facts monitor_tick_def xenv_def second_def xcall_def GetSession_def session_status_set_def)
  have three: "ex_calls ex3 = [(7, ''a'', failureExitCode)]" "ex_monitors ex3 = fmempty" "ex_connMgr ex3 = cm1"
    "fmlookup (ex_sharedSessions ex3) \<lparr>ke_runID = ''r'', ke_sessionKey = ''k''\<rparr> = Some \<lparr>se_sessionID = ''s1'', se_machineID = ''m''\<rparr>"
    unfolding ex3 using ex1_track(5) [of "''k''"]
    by (auto simp: end_monitor_def completeStep_def ex2_facts onComplete_def cancel_monitor_def error_message_def xcall_def
        fmdrop_fmupd_same
        split: sum.splits)
  then show ?thesis using cm1_agent
    by (auto simp: ex4_def exec_defs send_input_def RunStepIDForSession_def split: sum.splits)
qed

end
