(* ===== verification/Executor_Run.thy ===== *)
theory Executor_Run
  imports Session_Executor_Props Dag_Run_Props
begin

text \<open>
  A run together with the executor that serves it and other runs. \<open>Dag_Run\<close> assumes an
  executor that reports only steps in flight, each at most once. Here the runner's launches
  become goroutines that call \<open>ExecuteStep\<close>, and what the executor calls back is handed to
  \<open>OnStepCompleted\<close> without any such guard; the composed system is a refinement of the
  system of \<open>Dag_Run\<close>, so that every theorem on runs holds for it.
\<close>

section \<open>What a handler launches\<close>

primrec execute_of :: "effect \<Rightarrow> (RunStep \<times> ResolveContext) list" where
  "execute_of (DBStatus a b c n) = []"
| "execute_of (DBAttempt a n) = []"
| "execute_of (PublishStep a b c e f g h) = []"
| "execute_of (Execute rs rc) = [(rs, rc)]"
| "execute_of (ScheduleRetry rs) = []"
| "execute_of (RunComplete a b) = []"

definition executes_of :: "effect list \<Rightarrow> (RunStep \<times> ResolveContext) list" where
  "executes_of effs = concat (map execute_of effs)"

lemma executes_of_simps [simp]:
  "executes_of [] = []" "executes_of (e # es) = execute_of e @ executes_of es"
  "executes_of (es @ es') = executes_of es @ executes_of es'"
  by (simp_all add: executes_of_def)

lemma execute_of_publish [simp]: "execute_of (publishStepEvent d a b c e) = []"
  by (simp add: publishStepEvent_def)

lemma executes_of_visit_dep: "visit_dep fl v d = (d', items, launch, effs) \<Longrightarrow> executes_of effs = []"
  by (auto simp: visit_dep_def Let_def split: if_splits option.splits)

lemma executes_of_visit_deps: "visit_deps fl vs d = (d', items, launch, effs) \<Longrightarrow> executes_of effs = []"
  by (induction vs arbitrary: d d' items launch effs) (auto split: prod.splits dest: executes_of_visit_dep)

lemma executes_of_ready_loop: "ready_loop q d = (d', launch, effs) \<Longrightarrow> executes_of effs = []"
  by (induction q d arbitrary: d' launch effs rule: ready_loop.induct)
    (auto simp: Let_def split: prod.splits dest!: executes_of_visit_deps)

lemma executes_of_deferred_loop: "deferred_loop ds d = (d', rem, launch, effs) \<Longrightarrow> executes_of effs = []"
  by (induction ds d arbitrary: d' rem launch effs rule: deferred_loop.induct)
    (auto simp: Let_def split: option.splits if_splits prod.splits)

lemma executes_of_fail_run_loop: "fail_run_loop i is d = (d', effs) \<Longrightarrow> executes_of effs = []"
  by (induction i "is" d arbitrary: d' effs rule: fail_run_loop.induct)
    (auto simp: Let_def split: option.splits if_splits prod.splits)

lemma executes_of_start_loop: "start_loop order d = Inr (d', launch, effs) \<Longrightarrow> executes_of effs = []"
  by (induction order d arbitrary: d' launch effs rule: start_loop.induct)
    (auto split: option.splits if_splits sum.splits prod.splits)

lemma executes_of_launch [simp]: "map fst (executes_of (concat (map (launchStep d) ls))) = ls"
  by (induction ls) (auto simp: launchStep_def)

text \<open>Every handler executes exactly the steps it launches.\<close>

lemma finish_step_executes: "finish_step i c rs d = (d', launch, effs) \<Longrightarrow> map fst (executes_of effs) = launch"
  by (auto simp: finish_step_def processReadyDependents_def processDeferredSteps_def Let_def
      simp del: ready_loop.simps dest!: executes_of_ready_loop executes_of_deferred_loop split: prod.splits if_splits)

lemma OnStepCompleted_executes:
  "OnStepCompleted order i c d = Inr (d', launch, effs) \<Longrightarrow> map fst (executes_of effs) = launch"
  by (auto simp: OnStepCompleted_def Let_def dest!: executes_of_fail_run_loop finish_step_executes
      split: option.splits if_splits prod.splits)

lemma retry_step_executes: "retry_step rs d = Inr (d', launch, effs) \<Longrightarrow> map fst (executes_of effs) = launch"
  by (auto simp: retry_step_def Let_def split: if_splits)

lemma Start_executes: "Start order d = Inr (d', launch, effs) \<Longrightarrow> map fst (executes_of effs) = launch"
  by (auto simp: Start_def dest!: executes_of_start_loop split: sum.splits)

section \<open>The composed system\<close>

text \<open>\<open>\<rho>\<close> identifies the runner among the callbacks of the executor.\<close>

record comp_sys =
  cs_run :: run_sys
  cs_exec :: exec_sys

abbreviation launched :: "nat \<Rightarrow> effect list \<Rightarrow> (nat \<times> RunStep \<times> ResolveContext) list" where
  "launched \<rho> effs \<equiv> map (Pair \<rho>) (executes_of effs)"

definition add_pend :: "(nat \<times> RunStep \<times> ResolveContext) list \<Rightarrow> exec_sys \<Rightarrow> exec_sys" where
  "add_pend ps x = x\<lparr>es_pend := es_pend x @ ps\<rparr>"

definition take_call :: "nat \<times> string \<times> int \<Rightarrow> exec_sys \<Rightarrow> exec_sys" where
  "take_call c x = x\<lparr>es_ex := (es_ex x)\<lparr>ex_calls := remove1 c (ex_calls (es_ex x))\<rparr>\<rparr>"

inductive comp_step :: "nat \<Rightarrow> comp_sys \<Rightarrow> comp_sys \<Rightarrow> bool" for \<rho> where
  comp_exec: "exec_step (cs_exec s) x \<Longrightarrow> comp_step \<rho> s (s\<lparr>cs_exec := x\<rparr>)"
| comp_deliver: "(\<rho>, i, code) \<in> set (ex_calls (es_ex (cs_exec s))) \<Longrightarrow>
    enumerates order (dr_steps (rn_d (cs_run s))) \<Longrightarrow>
    OnStepCompleted order i code (rn_d (cs_run s)) = Inr (d', launch, effs) \<Longrightarrow>
    comp_step \<rho> s \<lparr>
      cs_run = \<lparr>rn_d = d', rn_R = remove1 i (rn_R (cs_run s)) @ map rs_StepID launch,
        rn_RT = rn_RT (cs_run s) @ retries_of effs, rn_results = rn_results (cs_run s) @ results_of effs\<rparr>,
      cs_exec = add_pend (launched \<rho> effs) (take_call (\<rho>, i, code) (cs_exec s))\<rparr>"
| comp_retry: "rs \<in> set (rn_RT (cs_run s)) \<Longrightarrow> retry_step rs (rn_d (cs_run s)) = Inr (d', launch, effs) \<Longrightarrow>
    comp_step \<rho> s \<lparr>
      cs_run = \<lparr>rn_d = d', rn_R = rn_R (cs_run s) @ map rs_StepID launch,
        rn_RT = remove1 rs (rn_RT (cs_run s)), rn_results = rn_results (cs_run s)\<rparr>,
      cs_exec = add_pend (launched \<rho> effs) (cs_exec s)\<rparr>"
| comp_cancel: "comp_step \<rho> s (s\<lparr>cs_run := (cs_run s)\<lparr>rn_d := Cancel (rn_d (cs_run s))\<rparr>\<rparr>)"
| comp_values: "comp_step \<rho> s (s\<lparr>cs_run := (cs_run s)\<lparr>rn_d := SetStepValues name vals (rn_d (cs_run s))\<rparr>\<rparr>)"
| comp_other_launch: "cb \<noteq> \<rho> \<Longrightarrow> comp_step \<rho> s (s\<lparr>cs_exec := add_pend [(cb, rs, rc)] (cs_exec s)\<rparr>)"
| comp_other_call: "cb \<noteq> \<rho> \<Longrightarrow> comp_step \<rho> s (s\<lparr>cs_exec := take_call (cb, i, code) (cs_exec s)\<rparr>)"

text \<open>The steps of the runner that the executor holds.\<close>

definition of_runner :: "nat \<Rightarrow> exec_sys \<Rightarrow> string multiset" where
  "of_runner \<rho> x = image_mset snd (filter_mset (\<lambda>(cb, i). cb = \<rho>) (holders x))"

definition comp_init :: "nat \<Rightarrow> StepDependency list \<Rightarrow> comp_sys \<Rightarrow> bool" where
  "comp_init \<rho> deps s \<longleftrightarrow> (\<exists>d order launch effs d' x. startable deps d \<and> (\<exists>v. stat d v = Some StatusPending) \<and>
     enumerates order (dr_inDegree d) \<and> Start order d = Inr (d', launch, effs) \<and> of_runner \<rho> x = {#} \<and>
     s = \<lparr>cs_run = \<lparr>rn_d = d', rn_R = map rs_StepID launch, rn_RT = [], rn_results = []\<rparr>,
          cs_exec = add_pend (launched \<rho> effs) x\<rparr>)"

definition comp_inv :: "nat \<Rightarrow> comp_sys \<Rightarrow> bool" where
  "comp_inv \<rho> s \<longleftrightarrow> of_runner \<rho> (cs_exec s) \<subseteq># mset (rn_R (cs_run s))"

lemma of_runner_mono: "holders x \<subseteq># holders y \<Longrightarrow> of_runner \<rho> x \<subseteq># of_runner \<rho> y"
  unfolding of_runner_def by (intro image_mset_subseteq_mono multiset_filter_mono)

lemma holders_add_pend: "holders (add_pend ps x) = pend_steps ps + holders x"
  by (simp add: holders_def add_pend_def pend_steps_def ac_simps)

lemma of_runner_launched:
  "of_runner \<rho> (add_pend (launched \<rho> effs) x) = mset (map (rs_StepID \<circ> fst) (executes_of effs)) + of_runner \<rho> x"
proof -
  have "image_mset snd (filter_mset (\<lambda>(cb, i). cb = \<rho>) (pend_steps (launched \<rho> effs))) =
    mset (map (rs_StepID \<circ> fst) (executes_of effs))"
    by (simp add: pend_steps_def filter_mset_image_mset comp_def split_beta multiset.map_comp)
  then show ?thesis by (simp add: of_runner_def holders_add_pend)
qed

lemma of_runner_other: "cb \<noteq> \<rho> \<Longrightarrow> of_runner \<rho> (add_pend [(cb, rs, rc)] x) = of_runner \<rho> x"
  by (simp add: of_runner_def holders_add_pend pend_steps_def)

lemma holders_take_call: "c \<in> set (ex_calls (es_ex x)) \<Longrightarrow> holders x = add_mset (fst c, fst (snd c)) (holders (take_call c x))"
proof -
  assume c: "c \<in> set (ex_calls (es_ex x))"
  have "called_steps e = add_mset (fst c, fst (snd c)) (called_steps (e\<lparr>ex_calls := remove1 c (ex_calls e)\<rparr>))"
    if "c \<in> set (ex_calls e)" for e
  proof -
    have "mset (ex_calls e) = add_mset c (mset (remove1 c (ex_calls e)))" using that by simp
    then show ?thesis by (simp add: called_steps_def split_beta flip: mset_remove1)
  qed
  from this [OF c] show ?thesis by (simp add: holders_def held_def take_call_def tracked_steps_def)
qed

lemma take_call_le: "holders (take_call c x) \<subseteq># holders x"
proof (cases "c \<in> set (ex_calls (es_ex x))")
  case False
  then have "take_call c x = x" by (simp add: take_call_def remove1_idem)
  then show ?thesis by simp
qed (simp add: holders_take_call)


section \<open>Refinement\<close>

lemma comp_inv_launch:
  assumes "map fst (executes_of effs) = launch" and "of_runner \<rho> x \<subseteq># mset R"
  shows "of_runner \<rho> (add_pend (launched \<rho> effs) x) \<subseteq># mset (R @ map rs_StepID launch)"
proof -
  have "map (rs_StepID \<circ> fst) (executes_of effs) = map rs_StepID launch" using assms(1) by (metis map_map)
  then show ?thesis using assms(2) unfolding of_runner_launched by (simp add: add.commute subset_mset.add_left_mono)
qed

lemma of_runner_call:
  assumes "(\<rho>, i, code) \<in> set (ex_calls (es_ex x))"
  shows "of_runner \<rho> x = add_mset i (of_runner \<rho> (take_call (\<rho>, i, code) x))"
  using holders_take_call [OF assms] by (simp add: of_runner_def)

lemma comp_inv_step: "comp_step \<rho> s t \<Longrightarrow> comp_inv \<rho> s \<Longrightarrow> comp_inv \<rho> t"
proof (induction rule: comp_step.induct)
  case (comp_exec s x)
  then show ?case using of_runner_mono [OF exec_step_holders [OF comp_exec(1)], of \<rho>]
    by (auto simp: comp_inv_def intro: subset_mset.order_trans)
next
  case (comp_deliver i code s order d' launch effs)
  have "of_runner \<rho> (take_call (\<rho>, i, code) (cs_exec s)) \<subseteq># mset (remove1 i (rn_R (cs_run s)))"
    using of_runner_call [OF comp_deliver(1)] comp_deliver(4) by (simp add: comp_inv_def insert_subset_eq_iff)
  from comp_inv_launch [OF OnStepCompleted_executes [OF comp_deliver(3)] this] show ?case by (simp add: comp_inv_def)
next
  case (comp_retry rs s d' launch effs)
  from comp_inv_launch [OF retry_step_executes [OF comp_retry(2)] comp_retry(3) [unfolded comp_inv_def]]
  show ?case by (simp add: comp_inv_def)
next
  case (comp_other_call cb s i code)
  then show ?case using of_runner_mono [OF take_call_le [of "(cb, i, code)" "cs_exec s"], of \<rho>]
    by (auto simp: comp_inv_def intro: subset_mset.order_trans)
qed (simp_all add: comp_inv_def of_runner_other)

lemma comp_step_refines:
  assumes "comp_step \<rho> s t" and "comp_inv \<rho> s"
  shows "cs_run t = cs_run s \<or> run_step (cs_run s) (cs_run t)"
  using assms
proof (cases rule: comp_step.cases)
  case (comp_deliver i code order d' launch effs)
  have "i \<in># of_runner \<rho> (cs_exec s)" using of_runner_call [OF comp_deliver(2)] by simp
  then have "i \<in> set (rn_R (cs_run s))" using assms(2) by (metis comp_inv_def mset_subset_eqD set_mset_mset)
  then show ?thesis using comp_deliver by (simp add: step_work step_complete)
qed (auto intro: step_work step_retry step_cancel step_values)

interpretation executed_run: refinement_system "comp_init \<rho> deps" "comp_step \<rho>" "comp_inv \<rho>" "run_init deps" run_step cs_run
  for \<rho> deps
proof
  fix s
  assume "comp_init \<rho> deps s"
  then obtain d order launch effs d' x where i: "startable deps d" "\<exists>v. stat d v = Some StatusPending"
    "enumerates order (dr_inDegree d)" "Start order d = Inr (d', launch, effs)" "of_runner \<rho> x = {#}"
    "s = \<lparr>cs_run = \<lparr>rn_d = d', rn_R = map rs_StepID launch, rn_RT = [], rn_results = []\<rparr>, cs_exec = add_pend (launched \<rho> effs) x\<rparr>"
    unfolding comp_init_def by blast
  show "comp_inv \<rho> s" using comp_inv_launch [OF Start_executes [OF i(4)], of \<rho> x "[]"] i(5,6) by (simp add: comp_inv_def)
  show "run_init deps (cs_run s)" unfolding run_init_def using i by fastforce
qed (use comp_inv_step comp_step_refines in blast)+

text \<open>
  C6. The session executor implements the executor that runs assume: a run whose steps are
  executed by it, together with any number of other runs, crashing agents, failing store
  calls, timeouts, idle events and cancellations, passes only through states of the abstract
  run system. In particular a launched step is reported at most once, and only to its own
  runner.
\<close>

theorem executor_refines_run:
  assumes "reachable (comp_init \<rho> deps) (comp_step \<rho>) s"
  shows "reachable (run_init deps) run_step (cs_run s) \<and> of_runner \<rho> (cs_exec s) \<subseteq># mset (rn_R (cs_run s))"
  using executed_run.reachable_abs [OF assms] executed_run.reachable_inv [OF assms] by (simp add: comp_inv_def)


definition comp_ab :: comp_sys where
  "comp_ab = (case Start [''a'', ''b''] runner_ab of
     Inl p \<Rightarrow> \<lparr>cs_run = sys_ab, cs_exec = \<lparr>es_ex = ex0, es_pend = [], es_next = []\<rparr>\<rparr>
   | Inr (d', launch, effs) \<Rightarrow>
       \<lparr>cs_run = sys_ab, cs_exec = add_pend (launched 7 effs) \<lparr>es_ex = ex0, es_pend = [], es_next = []\<rparr>\<rparr>)"

lemma comp_ab_init: "comp_init 7 deps_ab comp_ab"
proof -
  let ?x = "\<lparr>es_ex = ex0, es_pend = [], es_next = []\<rparr>"
  have st: "startable deps_ab runner_ab"
    unfolding runner_ab_def by (rule startable_new) (auto simp: graph_ok_def edges_def deps_ab_def)
  have en: "enumerates [''a'', ''b''] (dr_inDegree runner_ab)"
    by (auto simp: enumerates_def runner_ab_def NewDAGRunner_def fmdom'_in_degrees deps_ab_def)
  have pend: "stat runner_ab ''a'' = Some StatusPending" by code_simp
  have none: "of_runner 7 ?x = {#}"
    by (simp add: of_runner_def holders_def held_def tracked_steps_def called_steps_def pend_steps_def next_steps_def
        ex0_def SetRunStarter_def NewSessionStepExecutor_def)
  obtain d' launch effs where s: "Start [''a'', ''b''] runner_ab = Inr (d', launch, effs)" using Start_inv [OF st en] by blast
  show ?thesis
    unfolding comp_init_def using st en pend s none by (fastforce simp: comp_ab_def sys_ab_def start_sys_def)
qed

lemma comp_ab_run: "cs_run comp_ab = sys_ab"
  by (auto simp: comp_ab_def split: sum.splits)

theorem executor_refines_run_witness:
  "reachable (run_init deps_ab) run_step (cs_run comp_ab) \<and> of_runner 7 (cs_exec comp_ab) \<subseteq># {#''a''#}"
proof -
  have "rn_R sys_ab = [''a'']" by code_simp
  moreover have "reachable (comp_init 7 deps_ab) (comp_step 7) comp_ab" using comp_ab_init by (rule reach_init)
  ultimately show ?thesis using executor_refines_run [of 7 deps_ab comp_ab] by (simp add: comp_ab_run)
qed

end
