(* ===== verification/Service_Run.thy ===== *)
theory Service_Run
  imports Agent_Service_Props Executor_Run
begin

text \<open>
  The server as agents see it: the gRPC service of \<open>Agent_Service\<close> together with the executor,
  a run, the browsers that watch sessions and the requests that wait for replies. Agents may
  send any messages in any order. The composed system keeps the invariants of its parts, no
  message of an agent can stop it, and it refines the system of \<open>Executor_Run\<close>.
\<close>

section \<open>The system\<close>

record svc_sys =
  vs_svc :: agentService
  vs_run :: run_sys
  vs_pend :: "(nat \<times> RunStep \<times> ResolveContext) list"
  vs_next :: "(nat \<times> RunStep \<times> exec_next) list"
  vs_open :: "(nat, string) fmap"
  vs_asked :: "(nat, string \<times> string) fmap"
  vs_delivered :: "(nat \<times> string \<times> DirectoryListingEvent) list"

text \<open>Its parts.\<close>

definition comp_of :: "svc_sys \<Rightarrow> comp_sys" where
  "comp_of s = \<lparr>cs_run = vs_run s,
     cs_exec = \<lparr>es_ex = as_exec (vs_svc s), es_pend = vs_pend s, es_next = vs_next s\<rparr>\<rparr>"

definition browsers_of :: "svc_sys \<Rightarrow> registry_sys" where
  "browsers_of s = \<lparr>gs_reg = as_registry (vs_svc s), gs_open = vs_open s\<rparr>"

definition requests_of :: "svc_sys \<Rightarrow> broker_sys" where
  "requests_of s = \<lparr>bs_broker = as_broker (vs_svc s), bs_asked = vs_asked s, bs_delivered = vs_delivered s\<rparr>"

definition deliveries :: "string \<Rightarrow> AgentEvent \<Rightarrow> agentService \<Rightarrow> (nat \<times> string \<times> DirectoryListingEvent) list" where
  "deliveries m evt svc = (case evt of EvDirectoryListing dl \<Rightarrow> replies_to m dl (as_broker svc) | _ \<Rightarrow> [])"

inductive svc_step :: "nat \<Rightarrow> svc_sys \<Rightarrow> svc_sys \<Rightarrow> bool" for \<rho> where
  sv_event: "handle_event env m evt (vs_svc s) = Inr svc' \<Longrightarrow>
    svc_step \<rho> s (s\<lparr>vs_svc := svc', vs_delivered := vs_delivered s @ deliveries m evt (vs_svc s)\<rparr>)"
| sv_register: "svc_step \<rho> s (s\<lparr>vs_svc := snd (svc_Register now ctx req (vs_svc s))\<rparr>)"
| sv_open: "svc_step \<rho> s (s\<lparr>vs_svc := snd (stream_open env p m (vs_svc s))\<rparr>)"
| sv_close: "svc_step \<rho> s (s\<lparr>vs_svc := stream_close env p token m (vs_svc s)\<rparr>)"
| sv_cleanups: "svc_step \<rho> s (s\<lparr>vs_svc := dispatch_cleanups env sent m (vs_svc s)\<rparr>)"
| sv_run: "comp_step \<rho> (comp_of s) c \<Longrightarrow>
    svc_step \<rho> s (s\<lparr>vs_svc := (vs_svc s)\<lparr>as_exec := es_ex (cs_exec c)\<rparr>, vs_run := cs_run c,
      vs_pend := es_pend (cs_exec c), vs_next := es_next (cs_exec c)\<rparr>)"
| sv_browser: "registry_step (browsers_of s) r \<Longrightarrow>
    svc_step \<rho> s (s\<lparr>vs_svc := (vs_svc s)\<lparr>as_registry := gs_reg r\<rparr>, vs_open := gs_open r\<rparr>)"
| sv_request: "broker_step (requests_of s) b \<Longrightarrow>
    svc_step \<rho> s (s\<lparr>vs_svc := (vs_svc s)\<lparr>as_broker := bs_broker b\<rparr>, vs_asked := bs_asked b, vs_delivered := bs_delivered b\<rparr>)"

definition svc_init :: "nat \<Rightarrow> StepDependency list \<Rightarrow> svc_sys \<Rightarrow> bool" where
  "svc_init \<rho> deps s \<longleftrightarrow> comp_init \<rho> deps (comp_of s) \<and> registry_init (browsers_of s) \<and> broker_init (requests_of s)"

definition svc_inv :: "svc_sys \<Rightarrow> bool" where
  "svc_inv s \<longleftrightarrow> registry_inv (browsers_of s) \<and> broker_inv (requests_of s)"

section \<open>What an event changes\<close>

text \<open>
  An event changes the executor by an idle notice, or the tables and the connections, and
  nothing else of it.
\<close>

definition world_change :: "SessionStepExecutor \<Rightarrow> SessionStepExecutor \<Rightarrow> bool" where
  "world_change e e' \<longleftrightarrow> (\<exists>cm rows d. e' = e\<lparr>ex_connMgr := cm, ex_sessions := rows, ex_store := d\<rparr>)"

lemma world_refl [intro, simp]: "world_change e e"
  unfolding world_change_def by (intro exI [of _ "ex_connMgr e"] exI [of _ "ex_sessions e"] exI [of _ "ex_store e"]) simp

lemma world_updates [intro, simp]:
  "world_change e (e\<lparr>ex_connMgr := cm\<rparr>)" "world_change e (e\<lparr>ex_sessions := rows\<rparr>)" "world_change e (e\<lparr>ex_store := d\<rparr>)"
proof -
  show "world_change e (e\<lparr>ex_connMgr := cm\<rparr>)"
    unfolding world_change_def by (intro exI [of _ cm] exI [of _ "ex_sessions e"] exI [of _ "ex_store e"]) simp
  show "world_change e (e\<lparr>ex_sessions := rows\<rparr>)"
    unfolding world_change_def by (intro exI [of _ "ex_connMgr e"] exI [of _ rows] exI [of _ "ex_store e"]) simp
  show "world_change e (e\<lparr>ex_store := d\<rparr>)"
    unfolding world_change_def by (intro exI [of _ "ex_connMgr e"] exI [of _ "ex_sessions e"] exI [of _ d]) simp
qed

lemma world_exec_step:
  assumes "world_change (es_ex x) e'"
  shows "exec_step x (x\<lparr>es_ex := e'\<rparr>)"
proof -
  obtain cm rows d where "e' = (es_ex x)\<lparr>ex_connMgr := cm, ex_sessions := rows, ex_store := d\<rparr>"
    using assms by (auto simp: world_change_def)
  then have "e' = (es_ex x)\<lparr>ex_connMgr := cm, ex_sessions := rows, ex_store := d, ex_runStarter := ex_runStarter (es_ex x)\<rparr>" by simp
  then show ?thesis using exec_world by metis
qed

text \<open>The effect of the handlers that publish to browsers.\<close>

definition browser_effect :: "agentService \<Rightarrow> agentService \<Rightarrow> (nat, string) fmap \<Rightarrow> bool" where
  "browser_effect s s' own \<longleftrightarrow> world_change (as_exec s) (as_exec s') \<and> as_broker s' = as_broker s \<and>
     registry_inv \<lparr>gs_reg = as_registry s', gs_open = own\<rparr>"

lemma fan_out_ok:
  assumes "registry_inv \<lparr>gs_reg = r0, gs_open = own\<rparr>"
  shows "\<exists>r. offer_all m (getd [] (rg_subscribers r0) sid) r0 = Inr r \<and> registry_inv \<lparr>gs_reg = r, gs_open = own\<rparr>"
proof (rule fan_out [OF assms, of m sid])
  fix r
  assume "offer_all m (getd [] (rg_subscribers (gs_reg \<lparr>gs_reg = r0, gs_open = own\<rparr>)) sid) (gs_reg \<lparr>gs_reg = r0, gs_open = own\<rparr>) = Inr r"
    and "registry_inv (\<lparr>gs_reg = r0, gs_open = own\<rparr>\<lparr>gs_reg := r\<rparr>)"
  then show ?thesis by auto
qed

lemma with_registry_ok:
  assumes "registry_inv \<lparr>gs_reg = as_registry s, gs_open = own\<rparr>"
  shows "\<exists>s1. with_registry (reg_Publish sid data) s = Inr s1 \<and> registry_inv \<lparr>gs_reg = as_registry s1, gs_open = own\<rparr> \<and>
    as_exec s1 = as_exec s \<and> as_broker s1 = as_broker s \<and> as_set s1 = as_set s"
  using fan_out_ok [OF assms, of "\<lparr>sm_Data = data, sm_IsControl = False\<rparr>" sid] by (auto simp: reg_Publish_def with_registry_def)

lemma with_control_ok:
  assumes "registry_inv \<lparr>gs_reg = as_registry s, gs_open = own\<rparr>"
  shows "\<exists>s1. with_registry (PublishControl sid data) s = Inr s1 \<and> registry_inv \<lparr>gs_reg = as_registry s1, gs_open = own\<rparr> \<and>
    as_exec s1 = as_exec s \<and> as_broker s1 = as_broker s \<and> as_set s1 = as_set s"
  using fan_out_ok [OF assms, of "\<lparr>sm_Data = data, sm_IsControl = True\<rparr>" sid] by (auto simp: PublishControl_def with_registry_def)

lemma svc_publish_frame [simp]:
  "as_exec (svc_publish env t sid m s) = as_exec s" "as_broker (svc_publish env t sid m s) = as_broker s"
  "as_registry (svc_publish env t sid m s) = as_registry s" "as_set (svc_publish env t sid m s) = as_set s"
  by (simp_all add: svc_publish_def)

lemma put_sessions_frame [simp]:
  "as_broker (put_sessions rows s) = as_broker s" "as_registry (put_sessions rows s) = as_registry s"
  "as_exec (put_sessions rows s) = (as_exec s)\<lparr>ex_sessions := rows\<rparr>" "as_set (put_sessions rows s) = as_set s"
  by (simp_all add: put_sessions_def)

lemma on_output_ok:
  assumes "registry_inv \<lparr>gs_reg = as_registry s, gs_open = own\<rparr>"
  shows "\<exists>s'. on_output sid data s = Inr s' \<and> browser_effect s s' own"
proof (cases "as_set s DepRegistry")
  case True
  obtain s1 where "with_registry (reg_Publish sid data) s = Inr s1" "registry_inv \<lparr>gs_reg = as_registry s1, gs_open = own\<rparr>"
    "as_exec s1 = as_exec s" "as_broker s1 = as_broker s" "as_set s1 = as_set s" using with_registry_ok [OF assms] by blast
  then show ?thesis using True by (simp add: on_output_def browser_effect_def)
qed (use assms in \<open>simp add: on_output_def browser_effect_def\<close>)

lemma on_scrollback_ok:
  assumes "registry_inv \<lparr>gs_reg = as_registry s, gs_open = own\<rparr>"
  shows "\<exists>s'. on_scrollback env sid data fin s = Inr s' \<and> browser_effect s s' own"
proof (cases "as_set s DepRegistry")
  case True
  let ?t = "parseAsciicastData (sv_entry env) (sv_str env) data"
  obtain s1 where s1: "(if ?t \<noteq> [] then with_registry (reg_Publish sid ?t) s else Inr s) = Inr s1"
    "registry_inv \<lparr>gs_reg = as_registry s1, gs_open = own\<rparr>" "as_exec s1 = as_exec s" "as_broker s1 = as_broker s"
    using with_registry_ok [OF assms, of sid ?t] assms by (cases "?t = []") auto
  obtain s2 where "with_registry (PublishControl sid scrollback_end_msg) s1 = Inr s2"
    "registry_inv \<lparr>gs_reg = as_registry s2, gs_open = own\<rparr>" "as_exec s2 = as_exec s1" "as_broker s2 = as_broker s1"
    using with_control_ok [OF s1(2)] by blast
  then show ?thesis using True s1 by (simp add: on_scrollback_def browser_effect_def Let_def)
qed (use assms in \<open>simp add: on_scrollback_def browser_effect_def\<close>)

lemma on_status_ok:
  assumes "registry_inv \<lparr>gs_reg = as_registry s, gs_open = own\<rparr>"
  shows "\<exists>s'. on_status env m sid st s = Inr s' \<and> browser_effect s s' own"
proof (cases "allowedStatus st \<and> as_set s DepSessionStore")
  case True
  define s1 where "s1 = (if sv_fault env SUpdateStatus then s
      else case UpdateSessionStatus (sv_now env) sid st (ex_sessions (as_exec s)) of Inl _ \<Rightarrow> s | Inr rows \<Rightarrow> put_sessions rows s)"
  have s1: "world_change (as_exec s) (as_exec s1)" "as_broker s1 = as_broker s" "as_registry s1 = as_registry s" "as_set s1 = as_set s"
    by (auto simp: s1_def split: sum.splits)
  then have reg: "registry_inv \<lparr>gs_reg = as_registry s1, gs_open = own\<rparr>" using assms by simp
  obtain s2 where s2: "(if as_set s1 DepRegistry \<and> terminal_status st
       then with_registry (PublishControl sid (session_ended_msg st)) s1 else Inr s1) = Inr s2"
    "registry_inv \<lparr>gs_reg = as_registry s2, gs_open = own\<rparr>" "as_exec s2 = as_exec s1" "as_broker s2 = as_broker s1"
    using with_control_ok [OF reg, of sid "session_ended_msg st"] reg by (cases "as_set s1 DepRegistry \<and> terminal_status st") auto
  have "on_status env m sid st s = Inr (if status_event_type st \<noteq> '''' then svc_publish env (status_event_type st) sid m s2 else s2)"
    unfolding on_status_def s1_def [symmetric] Let_def using True s2(1) by simp
  then show ?thesis using s1 s2 by (auto simp: browser_effect_def)
qed (use assms in \<open>auto simp: on_status_def browser_effect_def\<close>)

lemma on_others_frame [simp]:
  "as_registry (on_health m h s) = as_registry s" "as_broker (on_health m h s) = as_broker s"
  "as_registry (on_exit env m sid code s) = as_registry s" "as_broker (on_exit env m sid code s) = as_broker s"
  "as_registry (on_task_values env sid vals s) = as_registry s" "as_broker (on_task_values env sid vals s) = as_broker s"
  "as_registry (on_step_idle env sid s) = as_registry s" "as_broker (on_step_idle env sid s) = as_broker s"
  "as_registry (on_logs env m es s) = as_registry s" "as_broker (on_logs env m es s) = as_broker s"
  by (auto simp: on_health_def on_exit_def on_task_values_def on_step_idle_def on_logs_def Let_def split: option.splits)

lemma on_others_exec:
  "world_change (as_exec s) (as_exec (on_health m h s))" "world_change (as_exec s) (as_exec (on_exit env m sid code s))"
  "world_change (as_exec s) (as_exec (on_task_values env sid vals s))" "as_exec (on_logs env m es s) = as_exec s"
  by (auto simp: on_health_def on_exit_def on_task_values_def on_logs_def Let_def split: option.splits)

text \<open>
  Every event is handled: no panic, no blocking. The invariants of the browsers and of the
  requests hold afterwards.
\<close>

lemma handle_event_ok:
  assumes inv: "svc_inv s"
  obtains svc' where "handle_event env m evt (vs_svc s) = Inr svc'"
    "svc_inv (s\<lparr>vs_svc := svc', vs_delivered := vs_delivered s @ deliveries m evt (vs_svc s)\<rparr>)"
    "(\<exists>env sid. as_exec svc' = OnStepIdle env sid (as_exec (vs_svc s))) \<or> world_change (as_exec (vs_svc s)) (as_exec svc')"
proof -
  let ?s = "vs_svc s"
  let ?goal = "\<exists>svc'. handle_event env m evt ?s = Inr svc' \<and>
      svc_inv (s\<lparr>vs_svc := svc', vs_delivered := vs_delivered s @ deliveries m evt ?s\<rparr>) \<and>
      ((\<exists>env sid. as_exec svc' = OnStepIdle env sid (as_exec ?s)) \<or> world_change (as_exec ?s) (as_exec svc'))"
  have reg: "registry_inv \<lparr>gs_reg = as_registry ?s, gs_open = vs_open s\<rparr>"
    and bro: "broker_inv \<lparr>bs_broker = as_broker ?s, bs_asked = vs_asked s, bs_delivered = vs_delivered s\<rparr>"
    using inv by (simp_all add: svc_inv_def browsers_of_def requests_of_def)
  have browser: ?goal if "\<exists>s'. r = Inr s' \<and> browser_effect ?s s' (vs_open s)" "handle_event env m evt ?s = map_sum Panic id r"
    "deliveries m evt ?s = []" for r
    using that bro by (auto simp: browser_effect_def svc_inv_def browsers_of_def requests_of_def)
  have ?goal
  proof (cases evt)
    case (EvDirectoryListing dl)
    obtain b where b: "broker_Resolve (dl_RequestId dl) m dl (as_broker ?s) = Some b"
      using Resolve_not_blocked [OF bro, of "dl_RequestId dl" m dl] by auto
    from broker_inv_resolve [OF bro] b have
      "broker_inv \<lparr>bs_broker = b, bs_asked = vs_asked s, bs_delivered = vs_delivered s @ replies_to m dl (as_broker ?s)\<rparr>" by simp
    then show ?thesis using b reg EvDirectoryListing
      by (simp add: handle_event_def deliveries_def svc_inv_def browsers_of_def requests_of_def)
  next
    case (EvSessionOutput sid data)
    then show ?thesis using browser [OF on_output_ok [OF reg]] by (simp add: handle_event_def deliveries_def)
  next
    case (EvScrollbackChunk sid data off fin)
    then show ?thesis using browser [OF on_scrollback_ok [OF reg]] by (simp add: handle_event_def deliveries_def)
  next
    case (EvSessionStatus sid st)
    then show ?thesis using browser [OF on_status_ok [OF reg]] by (simp add: handle_event_def deliveries_def)
  next
    case (EvStepIdle sid)
    have "as_exec (on_step_idle env sid ?s) = OnStepIdle (sv_exec env) sid (as_exec ?s) \<or> world_change (as_exec ?s) (as_exec (on_step_idle env sid ?s))"
      by (simp add: on_step_idle_def)
    then show ?thesis using EvStepIdle reg bro
      by (auto simp: handle_event_def deliveries_def svc_inv_def browsers_of_def requests_of_def)
  qed (use reg bro on_others_exec in
    \<open>simp_all add: handle_event_def deliveries_def svc_inv_def browsers_of_def requests_of_def on_others_exec\<close>)
  then show ?thesis using that by blast
qed

section \<open>The refinement\<close>

lemma streams_frame [simp]:
  "as_registry (snd (svc_Register now ctx req s)) = as_registry s" "as_broker (snd (svc_Register now ctx req s)) = as_broker s"
  "as_exec (snd (svc_Register now ctx req s)) = as_exec s"
  "as_registry (snd (stream_open env p m s)) = as_registry s" "as_broker (snd (stream_open env p m s)) = as_broker s"
  "as_registry (stream_close env p t m s) = as_registry s" "as_broker (stream_close env p t m s) = as_broker s"
  "as_registry (dispatch_cleanups env sent m s) = as_registry s" "as_broker (dispatch_cleanups env sent m s) = as_broker s"
  "as_exec (dispatch_cleanups env sent m s) = as_exec s"
  by (auto simp: svc_Register_def stream_open_def stream_close_def dispatch_cleanups_def send_cleanups_def
      DeletePendingCleanups_def put_connMgr_def Let_def split: sum.splits prod.splits bool.splits)

lemma streams_exec:
  "world_change (as_exec s) (as_exec (snd (stream_open env p m s)))" "world_change (as_exec s) (as_exec (stream_close env p t m s))"
  by (auto simp: stream_open_def stream_close_def put_connMgr_def Let_def split: prod.splits bool.splits)

lemma comp_of_world:
  assumes "world_change (as_exec (vs_svc s)) (as_exec svc')"
  shows "comp_step \<rho> (comp_of s) (comp_of (s\<lparr>vs_svc := svc', vs_delivered := ds\<rparr>))"
proof -
  let ?x = "cs_exec (comp_of s)"
  have "exec_step ?x (?x\<lparr>es_ex := as_exec svc'\<rparr>)" by (rule world_exec_step) (use assms in \<open>simp add: comp_of_def\<close>)
  from comp_exec [OF this, of \<rho>] show ?thesis by (simp add: comp_of_def)
qed

lemma comp_of_idle:
  assumes "as_exec svc' = OnStepIdle env sid (as_exec (vs_svc s))"
  shows "comp_step \<rho> (comp_of s) (comp_of (s\<lparr>vs_svc := svc', vs_delivered := ds\<rparr>))"
  using comp_exec [OF exec_idle [of "cs_exec (comp_of s)" env sid], of \<rho>] assms by (simp add: comp_of_def)

interpretation served_run: refinement_system "svc_init \<rho> deps" "svc_step \<rho>" svc_inv "comp_init \<rho> deps" "comp_step \<rho>" comp_of
  for \<rho> deps
proof
  fix s assume "svc_init \<rho> deps s"
  then show "svc_inv s" by (auto simp: svc_init_def svc_inv_def intro: registry.inv_init replies.inv_init)
  show "comp_init \<rho> deps (comp_of s)" using \<open>svc_init \<rho> deps s\<close> by (simp add: svc_init_def)
next
  fix s t assume inv: "svc_inv s" and "svc_step \<rho> s t"
  from this(2) show "svc_inv t"
  proof cases
    case (sv_event env m evt svc')
    then show ?thesis using handle_event_ok [OF inv, of env m evt] by (metis sum.inject(2))
  next
    case (sv_browser r)
    then have "browsers_of t = r" "requests_of t = requests_of s" by (simp_all add: browsers_of_def requests_of_def)
    then show ?thesis using registry.inv_step [OF _ sv_browser(2)] inv by (simp add: svc_inv_def)
  next
    case (sv_request b)
    then have "browsers_of t = browsers_of s" "requests_of t = b" by (simp_all add: browsers_of_def requests_of_def)
    then show ?thesis using replies.inv_step [OF _ sv_request(2)] inv by (simp add: svc_inv_def)
  qed (use inv in \<open>simp_all add: svc_inv_def browsers_of_def requests_of_def\<close>)
next
  fix s t assume inv: "svc_inv s" and "svc_step \<rho> s t"
  from this(2) show "comp_of t = comp_of s \<or> comp_step \<rho> (comp_of s) (comp_of t)"
  proof cases
    case (sv_event env m evt svc')
    then have "(\<exists>env sid. as_exec svc' = OnStepIdle env sid (as_exec (vs_svc s))) \<or> world_change (as_exec (vs_svc s)) (as_exec svc')"
      using handle_event_ok [OF inv, of env m evt] by (metis sum.inject(2))
    then show ?thesis unfolding sv_event(1) using comp_of_idle comp_of_world by blast
  next
    case (sv_run c)
    then have "comp_of t = c" by (simp add: comp_of_def)
    then show ?thesis using sv_run(2) by simp
  next
    case (sv_open env p m)
    then show ?thesis using comp_of_world [OF streams_exec(1) [of "vs_svc s" env p m], of \<rho> "vs_delivered s"] by simp
  next
    case (sv_close env p token m)
    then show ?thesis using comp_of_world [OF streams_exec(2) [of "vs_svc s" env p token m], of \<rho> "vs_delivered s"] by simp
  qed (simp_all add: comp_of_def)
qed

text \<open>
  C8. The server withstands its agents: whatever messages connected agents send, in whatever
  order and interleaved with registrations, closing streams, browsers, directory requests and
  the steps of a run, the handler of a message neither panics nor blocks, and the run passes
  only through states of the abstract run system, so that the theorems on runs hold for it.
\<close>

theorem agents_cannot_break_runs:
  assumes "reachable (svc_init \<rho> deps) (svc_step \<rho>) s"
  shows "(\<exists>svc'. handle_event env m evt (vs_svc s) = Inr svc') \<and> reachable (run_init deps) run_step (vs_run s)"
proof -
  have "svc_inv s" using assms by (rule served_run.reachable_inv)
  moreover have "reachable (run_init deps) run_step (cs_run (comp_of s))"
    using executed_run.reachable_abs [OF served_run.reachable_abs [OF assms]] .
  ultimately show ?thesis using handle_event_ok [of s env m evt] by (metis comp_of_def comp_sys.select_convs(1))
qed

definition svc_ab :: svc_sys where
  "svc_ab = \<lparr>vs_svc = svc_Set DepRegistry (NewGRPCServer None (es_ex (cs_exec comp_ab))), vs_run = cs_run comp_ab,
     vs_pend = es_pend (cs_exec comp_ab), vs_next = es_next (cs_exec comp_ab), vs_open = fmempty, vs_asked = fmempty,
     vs_delivered = []\<rparr>"

theorem agents_cannot_break_runs_witness:
  "(\<exists>svc'. handle_event svc_env0 ''m'' (EvSessionOutput ''s'' ''hello'') (vs_svc svc_ab) = Inr svc') \<and>
   reachable (run_init deps_ab) run_step sys_ab"
proof -
  have "comp_of svc_ab = comp_ab" by (simp add: comp_of_def svc_ab_def NewGRPCServer_def svc_Set_def)
  then have "svc_init 7 deps_ab svc_ab"
    using comp_ab_init by (simp add: svc_init_def browsers_of_def requests_of_def registry_init_def broker_init_def svc_ab_def
        NewGRPCServer_def svc_Set_def)
  then have "reachable (svc_init 7 deps_ab) (svc_step 7) svc_ab" by (rule reach_init)
  from agents_cannot_break_runs [OF this, of svc_env0 "''m''" "EvSessionOutput ''s'' ''hello''"] show ?thesis
    by (simp add: svc_ab_def comp_ab_run)
qed

end
