(* ===== verification/Agent_Util.thy ===== *)
theory Agent_Util
  imports Job_Store Go_Strings "HOL-Library.Word"
begin

text \<open>
  Two small parts of the agent: the reconnection delay (\<open>agent/backoff.go\<close>), on 64-bit
  durations that wrap around, and the extraction of task values from session output
  (\<open>agent/task_value_parser.go\<close>).
\<close>

section \<open>Backoff\<close>

text \<open>A \<open>time.Duration\<close> is a signed 64-bit number of nanoseconds.\<close>

record Backoff =
  bk_current :: "64 word"
  bk_min :: "64 word"
  bk_max :: "64 word"

definition NewBackoff :: "64 word \<Rightarrow> 64 word \<Rightarrow> Backoff" where
  "NewBackoff mn mx = \<lparr>bk_current = mn, bk_min = mn, bk_max = mx\<rparr>"

text \<open>\<open>Next\<close>; \<open>jitter\<close> is the random factor applied to the base in floating point.\<close>

definition backoff_Next :: "(64 word \<Rightarrow> 64 word) \<Rightarrow> Backoff \<Rightarrow> 64 word \<times> Backoff" where
  "backoff_Next jitter b =
     (let base = bk_current b;
          doubled = bk_current b * 2;
          next = (if sint doubled > sint (bk_max b) then bk_max b else doubled)
      in (jitter base, b\<lparr>bk_current := next\<rparr>))"

definition backoff_Reset :: "Backoff \<Rightarrow> Backoff" where
  "backoff_Reset b = b\<lparr>bk_current := bk_min b\<rparr>"

fun after_failures :: "(nat \<Rightarrow> 64 word \<Rightarrow> 64 word) \<Rightarrow> nat \<Rightarrow> Backoff \<Rightarrow> Backoff" where
  "after_failures jitter 0 b = b"
| "after_failures jitter (Suc n) b = snd (backoff_Next (jitter n) (after_failures jitter n b))"

lemma sint_double:
  fixes w :: "64 word"
  assumes "0 \<le> sint w" and "sint w < 2 ^ 62"
  shows "sint (w * 2) = sint w * 2"
proof -
  have two: "sint (2 :: 64 word) = 2" by simp
  have "sint (w * 2) = signed_take_bit 63 (sint w * 2)" using sint_word_mult [of w 2] by (simp add: two)
  also have "\<dots> = sint w * 2" using assms by (intro signed_take_bit_int_eq_self) auto
  finally show ?thesis .
qed

lemma backoff_current:
  assumes "0 < sint mn" and "sint mn \<le> sint mx" and "sint mx < 2 ^ 62"
  shows "sint (bk_current (after_failures jitter n (NewBackoff mn mx))) = min (sint mn * 2 ^ n) (sint mx) \<and>
    bk_max (after_failures jitter n (NewBackoff mn mx)) = mx"
proof (induction n)
  case 0
  then show ?case using assms by (simp add: NewBackoff_def)
next
  case (Suc n)
  let ?b = "after_failures jitter n (NewBackoff mn mx)"
  have pos: "0 < sint (bk_current ?b)" using Suc assms by (simp add: min_def)
  have "sint (bk_current ?b) < 2 ^ 62" using Suc assms(3) by (simp add: min_def split: if_splits)
  then have "sint (bk_current ?b * 2) = sint (bk_current ?b) * 2" using pos by (intro sint_double) auto
  then show ?case using Suc assms(1,2) by (auto simp: backoff_Next_def Let_def min_def)
qed

text \<open>
  The reconnection delay never overflows: for a minimum and a maximum below \<open>2 ^ 62\<close>
  nanoseconds, after \<open>n\<close> failures the base is exactly \<open>min (m * 2 ^ n) M\<close> although the
  doubling is done in 64 bits, so with a jitter of 20% the delay stays between 0.8 times
  the minimum and 1.2 times the maximum; \<open>Reset\<close> returns to the minimum.
\<close>

theorem backoff_bounded:
  assumes "0 < sint mn" and "sint mn \<le> sint mx" and "sint mx < 2 ^ 62"
    and "\<forall>w. 0 \<le> sint w \<longrightarrow> 4 * sint w \<le> 5 * sint (jitter w) \<and> 5 * sint (jitter w) \<le> 6 * sint w"
    and "b = after_failures js n (NewBackoff mn mx)"
  shows "sint (bk_current b) = min (sint mn * 2 ^ n) (sint mx) \<and>
    4 * sint mn \<le> 5 * sint (fst (backoff_Next jitter b)) \<and> 5 * sint (fst (backoff_Next jitter b)) \<le> 6 * sint mx \<and>
    bk_current (backoff_Reset b) = bk_min b"
proof -
  have cur: "sint (bk_current b) = min (sint mn * 2 ^ n) (sint mx)" using backoff_current [OF assms(1-3)] assms(5) by blast
  have one: "(1 :: int) \<le> 2 ^ n" by simp
  have "sint mn * 1 \<le> sint mn * 2 ^ n" using assms(1) one by (intro mult_left_mono) auto
  then have lo: "sint mn \<le> sint (bk_current b)" and hi: "sint (bk_current b) \<le> sint mx" using cur assms(2) by simp_all
  have "4 * sint (bk_current b) \<le> 5 * sint (jitter (bk_current b))" "5 * sint (jitter (bk_current b)) \<le> 6 * sint (bk_current b)"
    using assms(1,4) lo by simp_all
  then have "4 * sint mn \<le> 5 * sint (jitter (bk_current b))" "5 * sint (jitter (bk_current b)) \<le> 6 * sint mx"
    using lo hi by linarith+
  then show ?thesis using cur by (simp add: backoff_Next_def Let_def backoff_Reset_def)
qed

theorem backoff_bounded_witness:
  "sint (bk_current (after_failures (\<lambda>_ w. w) 7 (NewBackoff 1000000000 60000000000))) = 60000000000"
  using backoff_bounded [of 1000000000 60000000000 "\<lambda>w. w" _ "\<lambda>_ w. w" 7, OF _ _ _ _ refl] by simp


section \<open>Task values in session output\<close>

definition maxTaskValueCount :: nat where "maxTaskValueCount = 20"
definition agent_maxTaskValueSize :: nat where "agent_maxTaskValueSize = 32 * 1024"

definition startMark :: string where "startMark = ''%%TASK_VALUE key=''"
definition endMark :: string where "endMark = ''%%END_TASK_VALUE%%''"

text \<open>
  The regular expression \<open>taskValuePattern\<close> at the start of a string: the key, the value
  and what follows. The key is maximal because \<open>%\<close> is no key character, and the value is
  the shortest one.
\<close>

definition taskValuePattern :: "string \<Rightarrow> (string \<times> string \<times> string) option" where
  "taskValuePattern s =
     (if \<not> HasPrefix s startMark then None
      else
        let r = drop (length startMark) s;
            key = takeWhile is_word_char r;
            r1 = drop (length key) r
        in if key = [] \<or> \<not> is_alpha (hd key) \<or> \<not> HasPrefix r1 ''%%'' then None
           else
             let r2 = drop 2 r1;
                 r3 = (if HasPrefix r2 [CHR 0x0A] then tl r2 else r2)
             in case Index r3 endMark of
                  None \<Rightarrow> None
                | Some i \<Rightarrow> Some (key, take i r3, drop (i + length endMark) r3))"

lemma taskValuePattern_shorter:
  assumes "taskValuePattern s = Some (k, v, rest)"
  shows "length rest < length s"
proof -
  have "HasPrefix s startMark" using assms by (auto simp: taskValuePattern_def split: if_splits)
  then have s: "length startMark \<le> length s" by (auto simp: HasPrefix_def dest: prefix_length_le)
  have "length rest \<le> length (drop (length startMark) s)"
    using assms by (auto simp: taskValuePattern_def Let_def split: if_splits option.splits)
  then show ?thesis using s by (simp add: startMark_def)
qed

text \<open>\<open>FindAllStringSubmatch\<close>: leftmost matches that do not overlap.\<close>

function find_all :: "string \<Rightarrow> (string \<times> string) list" where
  "find_all s =
     (case taskValuePattern s of
        Some (k, v, rest) \<Rightarrow> (k, v) # find_all rest
      | None \<Rightarrow> (case s of [] \<Rightarrow> [] | c # t \<Rightarrow> find_all t))"
  by auto
termination by (relation "measure length") (auto dest: taskValuePattern_shorter)

declare find_all.simps [simp del]

fun value_loop :: "nat \<Rightarrow> (string \<times> string) list \<Rightarrow> (string, string) fmap \<Rightarrow> (string, string) fmap" where
  "value_loop count [] result = result"
| "value_loop count ((key, val) # ms) result =
     (if count \<ge> maxTaskValueCount then result
      else value_loop (Suc count) ms
             (fmupd key (if length val > agent_maxTaskValueSize then take agent_maxTaskValueSize val else val) result))"

definition ParseTaskValues :: "string \<Rightarrow> (string, string) fmap" where
  "ParseTaskValues data = value_loop 0 (find_all data) fmempty"

section \<open>What a session prints is what is stored\<close>

definition marker :: "string \<Rightarrow> string \<Rightarrow> string" where
  "marker key val = startMark @ key @ ''%%'' @ [CHR 0x0A] @ val @ endMark"

definition key_ok :: "string \<Rightarrow> bool" where
  "key_ok key \<longleftrightarrow> key \<noteq> [] \<and> is_alpha (hd key) \<and> list_all is_word_char key"

text \<open>The value does not contain the end marker, not even together with the one that follows it.\<close>

definition val_ok :: "string \<Rightarrow> bool" where
  "val_ok val \<longleftrightarrow> Index (val @ endMark) endMark = Some (length val) \<and> length val \<le> agent_maxTaskValueSize"

lemma Index_length: "Index s p = Some i \<Longrightarrow> length p \<le> length s"
  using Index_Some by (metis length_append le_add2 le_add1 order_trans)

lemma Index_append: "Index s p = Some i \<Longrightarrow> Index (s @ r) p = Some i"
proof (induction s p arbitrary: i rule: Index.induct)
  case (1 p)
  then show ?case by (cases r) (auto split: if_splits)
next
  case (2 c s p)
  show ?case
  proof (cases "HasPrefix (c # s) p")
    case True
    then have "HasPrefix (c # s @ r) p"
      unfolding HasPrefix_def using prefix_prefix [of p "c # s" r] by simp
    then show ?thesis using 2(2) True by simp
  next
    case False
    then obtain j where j: "i = Suc j" "Index s p = Some j" using 2(2) by auto
    have "length p \<le> length (c # s)" using Index_length [OF j(2)] by simp
    then have "\<not> HasPrefix ((c # s) @ r) p"
      using False unfolding HasPrefix_def by (metis prefix_append prefix_length_prefix prefix_def)
    then show ?thesis using 2(1) [OF False j(2)] j(1) by simp
  qed
qed

lemma percent_not_word: "\<not> is_word_char (CHR ''%'')"
  by (simp add: is_word_char_def is_alpha_def is_digit_def less_eq_char_def)

lemma pattern_marker:
  assumes "key_ok key" and "val_ok val"
  shows "taskValuePattern (marker key val @ rest) = Some (key, val, rest)"
proof -
  let ?r = "key @ ''%%'' @ [CHR 0x0A] @ val @ endMark @ rest"
  have s: "marker key val @ rest = startMark @ ?r" by (simp add: marker_def)
  have pre: "HasPrefix (startMark @ ?r) startMark" by (simp add: HasPrefix_def)
  have tw: "takeWhile is_word_char (key @ CHR ''%'' # CHR ''%'' # CHR 0x0A # val @ endMark @ rest) = key"
    using assms(1) percent_not_word by (auto simp: key_ok_def list_all_iff takeWhile_append2)
  have idx: "Index (val @ endMark @ rest) endMark = Some (length val)"
    using Index_append [of "val @ endMark" endMark "length val" rest] assms(2) by (simp add: val_ok_def)
  show ?thesis unfolding s taskValuePattern_def using assms(1) pre
    by (simp add: tw Let_def key_ok_def idx HasPrefix_def)
qed

lemma find_all_marker:
  "key_ok key \<Longrightarrow> val_ok val \<Longrightarrow> find_all (marker key val @ rest) = (key, val) # find_all rest"
  by (subst find_all.simps) (simp add: pattern_marker)

lemma find_all_text: "CHR ''%'' \<notin> set t \<Longrightarrow> find_all (t @ s) = find_all s"
proof (induction t)
  case (Cons c t)
  then have "taskValuePattern ((c # t) @ s) = None" by (simp add: taskValuePattern_def startMark_def)
  then show ?case using Cons by (subst find_all.simps) simp
qed simp

fun printed :: "(string \<times> string \<times> string) list \<Rightarrow> string \<Rightarrow> string" where
  "printed [] tail = tail"
| "printed ((text, key, val) # ms) tail = text @ marker key val @ printed ms tail"

lemma find_all_printed:
  "list_all (\<lambda>(text, key, val). CHR ''%'' \<notin> set text \<and> key_ok key \<and> val_ok val) ms \<Longrightarrow> CHR ''%'' \<notin> set tail \<Longrightarrow>
   find_all (printed ms tail) = map snd ms"
proof (induction ms)
  case Nil
  have "find_all [] = []" by (subst find_all.simps) (simp add: taskValuePattern_def startMark_def)
  then show ?case using find_all_text [of tail "[]"] Nil by simp
qed (auto simp: find_all_text find_all_marker)

lemma value_loop_fold:
  "list_all (\<lambda>(k, v). length v \<le> agent_maxTaskValueSize) ms \<Longrightarrow> count + length ms \<le> maxTaskValueCount \<Longrightarrow>
   value_loop count ms m = fold (\<lambda>(k, v) m. fmupd k v m) ms m"
  by (induction ms arbitrary: count m) auto

lemma fold_fmupd_lookup:
  "distinct (map fst ms) \<Longrightarrow> fmlookup (fold (\<lambda>(k, v) m. fmupd k v m) ms m) key =
     (case map_of ms key of None \<Rightarrow> fmlookup m key | Some v \<Rightarrow> Some v)"
  by (induction ms arbitrary: m) (auto split: option.splits simp: map_of_eq_None_iff image_iff)

lemma ParseTaskValues_printed:
  assumes "list_all (\<lambda>(text, key, val). CHR ''%'' \<notin> set text \<and> key_ok key \<and> val_ok val) ms"
    and "CHR ''%'' \<notin> set tail" and "length ms \<le> maxTaskValueCount" and "distinct (map (fst \<circ> snd) ms)"
  shows "fmlookup (ParseTaskValues (printed ms tail)) = map_of (map snd ms)"
proof
  fix key
  have "list_all (\<lambda>(k, v). length v \<le> agent_maxTaskValueSize) (map snd ms)"
    using assms(1) by (auto simp: list_all_iff val_ok_def)
  then have "ParseTaskValues (printed ms tail) = fold (\<lambda>(k, v) m. fmupd k v m) (map snd ms) fmempty"
    using find_all_printed [OF assms(1,2)] value_loop_fold [of "map snd ms" 0] assms(3) by (simp add: ParseTaskValues_def)
  moreover have "distinct (map fst (map snd ms))" using assms(4) by (simp add: comp_def)
  ultimately show "fmlookup (ParseTaskValues (printed ms tail)) key = map_of (map snd ms) key"
    using fold_fmupd_lookup [of "map snd ms" fmempty key] by (simp split: option.splits)
qed

text \<open>
  Task values make the round trip: session output that contains at most 20 marked values
  with different keys, in any surrounding text without percent signs, parses to exactly
  those keys and values.
\<close>

theorem ParseTaskValues_roundtrip:
  assumes "list_all (\<lambda>(text, key, val). CHR ''%'' \<notin> set text \<and> key_ok key \<and> val_ok val) ms"
    and "CHR ''%'' \<notin> set tail" and "length ms \<le> maxTaskValueCount" and "distinct (map (fst \<circ> snd) ms)"
  shows "fmlookup (ParseTaskValues (printed ms tail)) key = map_of (map snd ms) key"
  by (simp add: ParseTaskValues_printed [OF assms])

theorem ParseTaskValues_roundtrip_witness:
  "fmlookup (ParseTaskValues (printed [(''log '', ''url'', ''http://x''), (''; '', ''n'', ''3'')] '' end'')) ''url'' = Some ''http://x''"
proof -
  have "val_ok ''http://x''" "val_ok ''3''"
    by (simp_all add: val_ok_def agent_maxTaskValueSize_def endMark_def HasPrefix_def)
  moreover have "key_ok ''url''" "key_ok ''n''" by code_simp+
  ultimately show ?thesis
    using ParseTaskValues_roundtrip [of "[(''log '', ''url'', ''http://x''), (''; '', ''n'', ''3'')]" "'' end''" "''url''"]
    by (simp add: maxTaskValueCount_def)
qed

end
