(* ===== verification/Agent_Sessions.thy ===== *)
theory Agent_Sessions
  imports Agent_Service Agent_Util Scrollback
begin

text \<open>
  \<open>internal/agent/session.go\<close> and \<open>session_manager.go\<close>: the sessions of an agent and the relay
  of their output to the server.

  A session is a pointer into \<open>sm_heap\<close>. Its pseudo terminal is the list of inputs written to
  it and the chunks of output the process produces; both the process and the terminal are
  arguments. Recordings are files named after the session: \<open>sm_files\<close> maps a name to the
  session whose writer created the file, whose contents are \<open>sw_file\<close> of its writer.

  The channel to the server holds at most 64 events. \<open>sm_sendCh\<close> is \<open>None\<close> while no relay is
  active; \<open>sm_sent\<close> lists what the sender goroutine has taken from it. A relay goroutine is an
  element of \<open>sm_relays\<close>. Resolving a command in the search path, logging and the timers that
  escalate a signal are not modelled; the idle detector is \<open>Idle_Detector\<close>, whose two callbacks
  are operations here.
\<close>

section \<open>State\<close>

text \<open>What the callbacks of a session's idle detector do.\<close>

datatype idle_mode = Standalone | KeepAlive | SubmitPrompt string

record agent_session =
  ss_id :: string
  ss_command :: string
  ss_args :: "string list"
  ss_dir :: string
  ss_env :: "string list"
  ss_rows :: int
  ss_cols :: int
  ss_outputCh :: "string list"
  ss_chClosed :: bool
  ss_startedAt :: time
  ss_scrollback :: ScrollbackWriter
  ss_status :: string
  ss_exitCode :: int
  ss_observer :: "idle_mode option"
  ss_promptSubmitted :: bool
  ss_input :: "string list"
  ss_signals :: "string list"

record SessionManager =
  sm_heap :: "(nat, agent_session) fmap"
  sm_sessions :: "(string, nat) fmap"
  sm_cliPath :: string
  sm_attached :: "(string, bool) fmap"
  sm_taskTypes :: "(string, string) fmap"
  sm_outputBufs :: "(string, string) fmap"
  sm_standalone :: "(string, bool) fmap"
  sm_detectors :: "(string, nat) fmap"
  sm_lastStatus :: "(string, string) fmap"
  sm_files :: "(string, nat) fmap"
  sm_sendCh :: "AgentEvent list option"
  sm_sent :: "AgentEvent list"
  sm_ctxDone :: bool
  sm_relays :: "nat list"

definition NewSessionManager :: "string \<Rightarrow> SessionManager" where
  "NewSessionManager cliPath =
     \<lparr>sm_heap = fmempty, sm_sessions = fmempty, sm_cliPath = cliPath, sm_attached = fmempty, sm_taskTypes = fmempty,
      sm_outputBufs = fmempty, sm_standalone = fmempty, sm_detectors = fmempty, sm_lastStatus = fmempty,
      sm_files = fmempty, sm_sendCh = None, sm_sent = [], sm_ctxDone = False, sm_relays = []\<rparr>"

definition sendChCap :: nat where "sendChCap = 64"
definition outputChCap :: nat where "outputChCap = 256"
definition maxOutputCapture :: nat where "maxOutputCapture = 64 * 1024"
definition scrollbackChunkSize :: nat where "scrollbackChunkSize = 32768"

definition sm_upd :: "nat \<Rightarrow> (agent_session \<Rightarrow> agent_session) \<Rightarrow> SessionManager \<Rightarrow> SessionManager" where
  "sm_upd p f sm =
     (case fmlookup (sm_heap sm) p of None \<Rightarrow> sm | Some s \<Rightarrow> sm\<lparr>sm_heap := fmupd p (f s) (sm_heap sm)\<rparr>)"

definition getSession :: "string \<Rightarrow> SessionManager \<Rightarrow> nat option" where
  "getSession i sm = fmlookup (sm_sessions sm) i"

section \<open>Sending\<close>

definition sendEvent :: "AgentEvent \<Rightarrow> SessionManager \<Rightarrow> SessionManager" where
  "sendEvent evt sm =
     (case sm_sendCh sm of
        None \<Rightarrow> sm
      | Some ch \<Rightarrow> if length ch < sendChCap then sm\<lparr>sm_sendCh := Some (ch @ [evt])\<rparr> else sm)"

text \<open>
  A blocking send waits for the sender goroutine while the channel is full; \<open>inTime\<close> says
  whether that happens before the timeout.
\<close>

definition sendEventBlocking :: "bool \<Rightarrow> AgentEvent \<Rightarrow> SessionManager \<Rightarrow> bool \<times> SessionManager" where
  "sendEventBlocking inTime evt sm =
     (case sm_sendCh sm of
        None \<Rightarrow> (False, sm)
      | Some ch \<Rightarrow>
          if length ch < sendChCap then (True, sm\<lparr>sm_sendCh := Some (ch @ [evt])\<rparr>)
          else if \<not> inTime then (False, sm)
          else (True, sm\<lparr>sm_sendCh := Some (tl ch @ [evt]), sm_sent := sm_sent sm @ [hd ch]\<rparr>))"

definition sender_take :: "SessionManager \<Rightarrow> (AgentEvent \<times> SessionManager) option" where
  "sender_take sm =
     (case sm_sendCh sm of
        None \<Rightarrow> None
      | Some [] \<Rightarrow> None
      | Some (e # es) \<Rightarrow> Some (e, sm\<lparr>sm_sendCh := Some es, sm_sent := sm_sent sm @ [e]\<rparr>))"

section \<open>A session\<close>

text \<open>The environment of the process; \<open>order\<close> enumerates the variables of the request.\<close>

definition session_environ :: "string list \<Rightarrow> string list \<Rightarrow> (string, string) fmap \<Rightarrow> string list" where
  "session_environ environ order envVars =
     (let inherited = filter (\<lambda>e. \<not> HasPrefix e ''CLAUDECODE='') environ;
          hasTERM = (list_ex (\<lambda>e. HasPrefix e ''TERM='') inherited \<or> ''TERM'' \<in> set order)
      in inherited @ map (\<lambda>k. k @ ''='' @ getd '''' envVars k) order @ (if hasTERM then [] else [''TERM=xterm-256color'']))"

record agent_env =
  av_now :: time
  av_environ :: "string list"
  av_order :: "string list"
  av_started :: bool
  av_file :: "bool \<times> io_write"
  av_inTime :: "nat \<Rightarrow> bool"
  av_got :: "nat \<Rightarrow> nat option"
  av_writable :: bool

definition NewSession :: "agent_env \<Rightarrow> CreateSessionCmd \<Rightarrow> string \<Rightarrow> int \<Rightarrow> int \<Rightarrow> agent_session option" where
  "NewSession env cmd command rows cols =
     (if \<not> av_started env then None
      else case NewScrollbackWriter (fst (av_file env)) (snd (av_file env)) (nat cols) (nat rows) (av_now env) of
             None \<Rightarrow> None
           | Some sb \<Rightarrow>
               Some \<lparr>ss_id = cc_SessionId cmd, ss_command = command, ss_args = cc_Args cmd, ss_dir = cc_WorkingDir cmd,
                     ss_env = session_environ (av_environ env) (av_order env) (cc_EnvVars cmd), ss_rows = rows, ss_cols = cols,
                     ss_outputCh = [], ss_chClosed = False, ss_startedAt = av_now env, ss_scrollback = sb,
                     ss_status = StatusRunning, ss_exitCode = 0, ss_observer = None, ss_promptSubmitted = False,
                     ss_input = [], ss_signals = []\<rparr>)"

text \<open>One turn of \<open>readLoop\<close> with the data of one read; recording may fail.\<close>

definition session_read :: "(string \<Rightarrow> string option) \<Rightarrow> string \<Rightarrow> io_write \<Rightarrow> string \<Rightarrow> agent_session \<Rightarrow> agent_session" where
  "session_read marshal elapsed wr data s =
     (if data = [] then s
      else let s = s\<lparr>ss_scrollback := snd (WriteOutput marshal elapsed wr data (ss_scrollback s))\<rparr>
           in if length (ss_outputCh s) < outputChCap then s\<lparr>ss_outputCh := ss_outputCh s @ [data]\<rparr> else s)"

text \<open>\<open>waitForExit\<close>: the result of \<open>Wait\<close> is success, an exit code, or another error; then the channel is closed.\<close>

datatype wait_result = WaitOk | WaitExit int | WaitError

definition session_exited :: "wait_result \<Rightarrow> agent_session \<Rightarrow> agent_session" where
  "session_exited w s =
     (case w of
        WaitOk \<Rightarrow> s\<lparr>ss_exitCode := 0, ss_status := StatusCompleted\<rparr>
      | WaitExit code \<Rightarrow> s\<lparr>ss_exitCode := code, ss_status := StatusFailed\<rparr>
      | WaitError \<Rightarrow> s\<lparr>ss_exitCode := -1, ss_status := StatusFailed\<rparr>)"

definition session_close :: "agent_session \<Rightarrow> agent_session" where
  "session_close s = s\<lparr>ss_chClosed := True\<rparr>"

definition WriteInput :: "agent_env \<Rightarrow> string \<Rightarrow> agent_session \<Rightarrow> agent_session" where
  "WriteInput env data s = (if av_writable env then s\<lparr>ss_input := ss_input s @ [data]\<rparr> else s)"

definition Kill :: "string \<Rightarrow> agent_session \<Rightarrow> agent_session" where
  "Kill signal s =
     s\<lparr>ss_signals := ss_signals s @
        [if signal = ''SIGKILL'' \<or> signal = ''9'' then ''SIGKILL''
         else if signal = ''SIGINT'' \<or> signal = ''2'' then ''SIGINT'' else ''SIGTERM'']\<rparr>"

section \<open>Task values\<close>

definition appendCapped :: "string \<Rightarrow> string \<Rightarrow> nat \<Rightarrow> string" where
  "appendCapped buf data maxSize =
     (let buf = buf @ data in if length buf > maxSize then drop (length buf - maxSize) buf else buf)"

definition task_values_of :: "string \<Rightarrow> string \<Rightarrow> (string, string) fmap" where
  "task_values_of taskType outputStr =
     (let vals = ParseTaskValues outputStr
      in if taskType = ''shell'' \<and> card (fmdom' vals) < maxTaskValueCount
         then let stdout = (if length outputStr > agent_maxTaskValueSize
                            then drop (length outputStr - agent_maxTaskValueSize) outputStr else outputStr)
              in fmupd ''stdout'' stdout vals
         else vals)"

definition extractAndSendTaskValues :: "string \<Rightarrow> string \<Rightarrow> SessionManager \<Rightarrow> SessionManager" where
  "extractAndSendTaskValues sessionID outputBuf sm =
     (if outputBuf = [] then sm
      else let vals = task_values_of (getd '''' (sm_taskTypes sm) sessionID) outputBuf
           in if vals = fmempty then sm else sendEvent (EvTaskValues sessionID vals) sm)"

definition extractAndSendStepTaskValues :: "string \<Rightarrow> SessionManager \<Rightarrow> SessionManager" where
  "extractAndSendStepTaskValues sessionID sm =
     (case fmlookup (sm_outputBufs sm) sessionID of
        None \<Rightarrow> sm
      | Some buf \<Rightarrow>
          if buf = [] then sm
          else extractAndSendTaskValues sessionID buf (sm\<lparr>sm_outputBufs := fmupd sessionID [] (sm_outputBufs sm)\<rparr>))"

section \<open>Replaying a recording\<close>

lemma file_read_progress: "file_read sz got rest = ReadData data \<Longrightarrow> 0 < sz \<Longrightarrow> data \<noteq> [] \<and> rest \<noteq> []"
  by (auto simp: file_read_def split: option.splits if_splits)

text \<open>
  The chunks that are sent, and the offset reached: reading stops at the end of the file, at a
  read error, or when a send times out.
\<close>

function chunk_loop :: "agent_env \<Rightarrow> string \<Rightarrow> string \<Rightarrow> nat \<Rightarrow> nat \<Rightarrow> SessionManager \<Rightarrow> nat \<times> SessionManager" where
  "chunk_loop env sessionID file offset k sm =
     (case file_read scrollbackChunkSize (av_got env k) (drop offset file) of
        ReadError \<Rightarrow> (offset, sm)
      | ReadEOF \<Rightarrow> (offset, sm)
      | ReadData data \<Rightarrow>
          (case sendEventBlocking (av_inTime env k) (EvScrollbackChunk sessionID data (int offset) False) sm of
             (False, sm) \<Rightarrow> (offset, sm)
           | (True, sm) \<Rightarrow> chunk_loop env sessionID file (offset + length data) (Suc k) sm))"
  by auto
termination
  by (relation "measure (\<lambda>(env, sid, file, offset, k, sm). length file - offset)")
    (auto simp: scrollbackChunkSize_def dest!: file_read_progress intro!: diff_less_mono2)

declare chunk_loop.simps [simp del]

definition sendFinalScrollbackMarker :: "bool \<Rightarrow> string \<Rightarrow> nat \<Rightarrow> SessionManager \<Rightarrow> SessionManager" where
  "sendFinalScrollbackMarker inTime sessionID offset sm =
     snd (sendEventBlocking inTime (EvScrollbackChunk sessionID [] (int offset) True) sm)"

definition file_of :: "string \<Rightarrow> SessionManager \<Rightarrow> string option" where
  "file_of sessionID sm =
     (case fmlookup (sm_files sm) sessionID of
        None \<Rightarrow> None
      | Some p \<Rightarrow> map_option (sw_file \<circ> ss_scrollback) (fmlookup (sm_heap sm) p))"

definition sendScrollbackChunks :: "agent_env \<Rightarrow> string \<Rightarrow> SessionManager \<Rightarrow> SessionManager" where
  "sendScrollbackChunks env sessionID sm =
     (case file_of sessionID sm of
        None \<Rightarrow> sendFinalScrollbackMarker (av_inTime env 0) sessionID 0 sm
      | Some file \<Rightarrow>
          (case chunk_loop env sessionID file 0 0 sm of
             (offset, sm) \<Rightarrow> sendFinalScrollbackMarker (av_inTime env 0) sessionID offset sm))"

section \<open>The relay\<close>

definition startSessionRelay :: "nat \<Rightarrow> SessionManager \<Rightarrow> SessionManager" where
  "startSessionRelay p sm =
     (case fmlookup (sm_heap sm) p of
        None \<Rightarrow> sm
      | Some s \<Rightarrow> sm\<lparr>sm_outputBufs := fmupd (ss_id s) [] (sm_outputBufs sm), sm_relays := sm_relays sm @ [p]\<rparr>)"

definition StartRelay :: "string list \<Rightarrow> SessionManager \<Rightarrow> SessionManager" where
  "StartRelay order sm =
     fold startSessionRelay (List.map_filter (fmlookup (sm_sessions sm)) order) (sm\<lparr>sm_sendCh := Some [], sm_ctxDone := False\<rparr>)"

definition removeSession :: "string \<Rightarrow> SessionManager \<Rightarrow> SessionManager" where
  "removeSession sessionID sm =
     sm\<lparr>sm_sessions := fmdrop sessionID (sm_sessions sm), sm_attached := fmdrop sessionID (sm_attached sm),
        sm_taskTypes := fmdrop sessionID (sm_taskTypes sm), sm_outputBufs := fmdrop sessionID (sm_outputBufs sm),
        sm_standalone := fmdrop sessionID (sm_standalone sm), sm_detectors := fmdrop sessionID (sm_detectors sm),
        sm_lastStatus := fmdrop sessionID (sm_lastStatus sm)\<rparr>"

text \<open>The relay goroutine of a session takes a chunk, or finds the channel closed.\<close>

definition relay_data :: "string \<Rightarrow> string list \<Rightarrow> nat \<Rightarrow> agent_session \<Rightarrow> SessionManager \<Rightarrow> SessionManager" where
  "relay_data data rest p s sm =
     (let sm = sm_upd p (\<lambda>s. s\<lparr>ss_outputCh := rest\<rparr>) sm;
          sm = (case fmlookup (sm_outputBufs sm) (ss_id s) of
                  None \<Rightarrow> sm
                | Some buf \<Rightarrow> sm\<lparr>sm_outputBufs := fmupd (ss_id s) (appendCapped buf data maxOutputCapture) (sm_outputBufs sm)\<rparr>)
      in if getd False (sm_attached sm) (ss_id s) then sendEvent (EvSessionOutput (ss_id s) data) sm else sm)"

text \<open>\<open>None\<close>: the entry of the output buffer is nil and dereferencing it ends the agent.\<close>

definition relay_exit :: "nat \<Rightarrow> agent_session \<Rightarrow> SessionManager \<Rightarrow> SessionManager option" where
  "relay_exit p s sm =
     (let sm = sendEvent (EvSessionStatus (ss_id s) (ss_status s)) sm
      in case fmlookup (sm_outputBufs sm) (ss_id s) of
           None \<Rightarrow> None
         | Some buf \<Rightarrow>
             (let sm = extractAndSendTaskValues (ss_id s) buf sm;
                  sm = sendEvent (EvSessionExit (ss_id s) (ss_exitCode s)) sm
              in Some ((removeSession (ss_id s) sm)\<lparr>sm_relays := remove1 p (sm_relays sm)\<rparr>)))"

text \<open>\<open>StopRelay\<close>: the context is cancelled, the goroutines end, and the channel is forgotten.\<close>

definition stop_cancel :: "SessionManager \<Rightarrow> SessionManager" where
  "stop_cancel sm = sm\<lparr>sm_ctxDone := True\<rparr>"

definition relay_stop :: "nat \<Rightarrow> SessionManager \<Rightarrow> SessionManager" where
  "relay_stop p sm = sm\<lparr>sm_relays := remove1 p (sm_relays sm)\<rparr>"

definition stop_finish :: "SessionManager \<Rightarrow> SessionManager" where
  "stop_finish sm = sm\<lparr>sm_sendCh := None\<rparr>"

section \<open>Commands\<close>

definition clamp16 :: "int \<Rightarrow> int \<Rightarrow> int" where
  "clamp16 dflt n = (if 1 \<le> n \<and> n \<le> 65535 then n else dflt)"

definition create_command :: "CreateSessionCmd \<Rightarrow> SessionManager \<Rightarrow> string" where
  "create_command cmd sm =
     (if cc_Command cmd \<noteq> '''' then cc_Command cmd
      else if sm_cliPath sm \<noteq> '''' then sm_cliPath sm else ''claude'')"

definition idle_mode_of :: "CreateSessionCmd \<Rightarrow> idle_mode option" where
  "idle_mode_of cmd =
     (if cc_TaskType cmd = ''shell'' then None
      else if \<not> cc_KeepAlive cmd \<and> cc_InitialPrompt cmd = '''' then Some Standalone
      else if cc_KeepAlive cmd then Some KeepAlive
      else Some (SubmitPrompt (cc_InitialPrompt cmd)))"

text \<open>
  \<open>handleCreate\<close>; the new session is allocated at \<open>p\<close>. First its entries in the tables, with
  the session that had the identifier before, which is killed.
\<close>

definition create_entries :: "nat \<Rightarrow> agent_session \<Rightarrow> CreateSessionCmd \<Rightarrow> SessionManager \<Rightarrow> SessionManager" where
  "create_entries p sess cmd sm =
     (let sid = cc_SessionId cmd;
          existing = fmlookup (sm_sessions sm) sid;
          mode = idle_mode_of cmd;
          taskType = (if cc_TaskType cmd = '''' then ''claude_session'' else cc_TaskType cmd);
          sm = sm\<lparr>sm_heap := fmupd p (sess\<lparr>ss_observer := mode\<rparr>) (sm_heap sm), sm_files := fmupd sid p (sm_files sm),
                  sm_sessions := fmupd sid p (sm_sessions sm)\<rparr>;
          sm = (case existing of None \<Rightarrow> sm | Some q \<Rightarrow> sm_upd q (Kill '''') sm)
      in sm\<lparr>sm_attached := fmupd sid True (sm_attached sm), sm_taskTypes := fmupd sid taskType (sm_taskTypes sm),
            sm_standalone := (if mode = Some Standalone then fmupd sid True (sm_standalone sm) else sm_standalone sm),
            sm_detectors := (if mode \<noteq> None then fmupd sid p (sm_detectors sm) else sm_detectors sm)\<rparr>)"

definition handleCreate :: "agent_env \<Rightarrow> nat \<Rightarrow> CreateSessionCmd \<Rightarrow> SessionManager \<Rightarrow> SessionManager" where
  "handleCreate env p cmd sm =
     (case NewSession env cmd (create_command cmd sm) (clamp16 24 (cc_Rows cmd)) (clamp16 80 (cc_Cols cmd)) of
        None \<Rightarrow> sm
      | Some sess \<Rightarrow>
          (let sm = sendEvent (EvSessionStatus (cc_SessionId cmd) StatusRunning) (create_entries p sess cmd sm)
           in if sm_sendCh sm \<noteq> None then startSessionRelay p sm else sm))"

definition handleInput :: "agent_env \<Rightarrow> string \<Rightarrow> string \<Rightarrow> SessionManager \<Rightarrow> SessionManager" where
  "handleInput env sessionID data sm =
     (case getSession sessionID sm of None \<Rightarrow> sm | Some p \<Rightarrow> sm_upd p (WriteInput env data) sm)"

text \<open>The size of a resize command may be missing; \<open>ok\<close>: the system call succeeds.\<close>

definition handleResize :: "bool \<Rightarrow> string \<Rightarrow> (int \<times> int) option \<Rightarrow> SessionManager \<Rightarrow> SessionManager" where
  "handleResize ok sessionID sz sm =
     (case getSession sessionID sm of
        None \<Rightarrow> sm
      | Some p \<Rightarrow>
          (case sz of
             None \<Rightarrow> sm
           | Some (r, c) \<Rightarrow>
               if r < 1 \<or> r > 65535 \<or> c < 1 \<or> c > 65535 \<or> \<not> ok then sm
               else sm_upd p (\<lambda>s. s\<lparr>ss_rows := r, ss_cols := c\<rparr>) sm))"

definition handleKill :: "string \<Rightarrow> string \<Rightarrow> SessionManager \<Rightarrow> SessionManager" where
  "handleKill sessionID signal sm =
     (case getSession sessionID sm of None \<Rightarrow> sm | Some p \<Rightarrow> sm_upd p (Kill signal) sm)"

definition handleAttach :: "agent_env \<Rightarrow> string \<Rightarrow> SessionManager \<Rightarrow> SessionManager" where
  "handleAttach env sessionID sm =
     (case getSession sessionID sm of
        Some _ \<Rightarrow>
          (let sm = sendScrollbackChunks env sessionID sm
           in sm\<lparr>sm_attached := fmupd sessionID True (sm_attached sm)\<rparr>)
      | None \<Rightarrow>
          snd (sendEventBlocking (av_inTime env 0) (EvSessionStatus sessionID StatusTerminated)
            (sendScrollbackChunks env sessionID sm)))"

definition handleDetach :: "string \<Rightarrow> SessionManager \<Rightarrow> SessionManager" where
  "handleDetach sessionID sm =
     (case getSession sessionID sm of
        None \<Rightarrow> sm | Some _ \<Rightarrow> sm\<lparr>sm_attached := fmupd sessionID False (sm_attached sm)\<rparr>)"

definition handleRequestScrollback :: "agent_env \<Rightarrow> string \<Rightarrow> SessionManager \<Rightarrow> SessionManager" where
  "handleRequestScrollback env sessionID sm = sendScrollbackChunks env sessionID sm"

text \<open>\<open>isUUID\<close> is the parser of the library, \<open>removed\<close> the success of \<open>os.Remove\<close>.\<close>

definition handleCleanupScrollback :: "(string \<Rightarrow> bool) \<Rightarrow> bool \<Rightarrow> string \<Rightarrow> SessionManager \<Rightarrow> SessionManager" where
  "handleCleanupScrollback isUUID removed sessionID sm =
     (if \<not> isUUID sessionID \<or> \<not> removed then sm else sm\<lparr>sm_files := fmdrop sessionID (sm_files sm)\<rparr>)"

datatype agent_command =
    FromExecutor ServerCommand
  | CmdResize string "(int \<times> int) option"
  | CmdAttach string
  | CmdDetach string
  | CmdRequestScrollback string
  | CmdCleanupScrollback string

text \<open>\<open>HandleCommand\<close>; \<open>p\<close> is the address of a session it creates.\<close>

definition HandleCommand :: "agent_env \<Rightarrow> (string \<Rightarrow> bool) \<Rightarrow> bool \<Rightarrow> nat \<Rightarrow> agent_command \<Rightarrow> SessionManager \<Rightarrow> SessionManager" where
  "HandleCommand env isUUID ok p cmd sm =
     (case cmd of
        FromExecutor (CmdCreateSession c) \<Rightarrow> handleCreate env p c sm
      | FromExecutor (CmdInputData sid data) \<Rightarrow> handleInput env sid data sm
      | FromExecutor (CmdKillSession sid signal) \<Rightarrow> handleKill sid signal sm
      | CmdResize sid sz \<Rightarrow> handleResize ok sid sz sm
      | CmdAttach sid \<Rightarrow> handleAttach env sid sm
      | CmdDetach sid \<Rightarrow> handleDetach sid sm
      | CmdRequestScrollback sid \<Rightarrow> handleRequestScrollback env sid sm
      | CmdCleanupScrollback sid \<Rightarrow> handleCleanupScrollback isUUID ok sid sm)"

section \<open>The callbacks of the idle detector\<close>

definition report_status :: "string \<Rightarrow> string \<Rightarrow> SessionManager \<Rightarrow> SessionManager" where
  "report_status sessionID st sm =
     (if getd '''' (sm_lastStatus sm) sessionID = st then sm
      else sendEvent (EvSessionStatus sessionID st) (sm\<lparr>sm_lastStatus := fmupd sessionID st (sm_lastStatus sm)\<rparr>))"

definition on_idle :: "agent_env \<Rightarrow> nat \<Rightarrow> agent_session \<Rightarrow> SessionManager \<Rightarrow> SessionManager" where
  "on_idle env p s sm =
     (case ss_observer s of
        None \<Rightarrow> sm
      | Some Standalone \<Rightarrow> report_status (ss_id s) StatusWaitingForInput sm
      | Some KeepAlive \<Rightarrow> sendEvent (EvStepIdle (ss_id s)) (extractAndSendStepTaskValues (ss_id s) sm)
      | Some (SubmitPrompt prompt) \<Rightarrow>
          if \<not> ss_promptSubmitted s
          then sm_upd p (\<lambda>s. WriteInput env (prompt @ [CHR 0x0D]) (s\<lparr>ss_promptSubmitted := True\<rparr>)) sm
          else sm_upd p (WriteInput env (''/exit'' @ [CHR 0x0D])) sm)"

definition on_active :: "agent_session \<Rightarrow> SessionManager \<Rightarrow> SessionManager" where
  "on_active s sm = (if ss_observer s = Some Standalone then report_status (ss_id s) StatusRunning sm else sm)"

section \<open>Registration\<close>

definition GetStates :: "string list \<Rightarrow> SessionManager \<Rightarrow> (string \<times> string \<times> int option) list" where
  "GetStates order sm =
     map (\<lambda>s. (ss_id s, ss_status s, if ss_status s \<noteq> StatusRunning then Some (ss_exitCode s) else None))
       (List.map_filter (\<lambda>i. case fmlookup (sm_sessions sm) i of None \<Rightarrow> None | Some p \<Rightarrow> fmlookup (sm_heap sm) p) order)"

definition ActiveSessionCount :: "SessionManager \<Rightarrow> nat" where
  "ActiveSessionCount sm = card (fmdom' (sm_sessions sm))"

end
