(* ===== verification/Agent_Sessions_Props.thy ===== *)
theory Agent_Sessions_Props
  imports Agent_Sessions
begin

text \<open>
  The agent as a transition system: commands of the server, output and exit of processes, the
  relay goroutines, the callbacks of idle detectors, and connections that come and go. The
  invariant says that while the agent is connected each session it knows has one relay
  goroutine with an output buffer, so that its exit is reported.
\<close>

section \<open>What the operations leave alone\<close>

lemma sendEvent_frame [simp]:
  "sm_heap (sendEvent e sm) = sm_heap sm" "sm_sessions (sendEvent e sm) = sm_sessions sm" "sm_attached (sendEvent e sm) = sm_attached sm"
  "sm_taskTypes (sendEvent e sm) = sm_taskTypes sm" "sm_outputBufs (sendEvent e sm) = sm_outputBufs sm"
  "sm_standalone (sendEvent e sm) = sm_standalone sm" "sm_detectors (sendEvent e sm) = sm_detectors sm"
  "sm_lastStatus (sendEvent e sm) = sm_lastStatus sm" "sm_files (sendEvent e sm) = sm_files sm" "sm_sent (sendEvent e sm) = sm_sent sm"
  "sm_ctxDone (sendEvent e sm) = sm_ctxDone sm" "sm_relays (sendEvent e sm) = sm_relays sm"
  "sm_sendCh (sendEvent e sm) = None \<longleftrightarrow> sm_sendCh sm = None"
  by (auto simp: sendEvent_def split: option.splits)

text \<open>The parts of the state the invariant speaks of, apart from the channel.\<close>

definition same_core :: "SessionManager \<Rightarrow> SessionManager \<Rightarrow> bool" where
  "same_core sm sm' \<longleftrightarrow> sm_sessions sm' = sm_sessions sm \<and> sm_relays sm' = sm_relays sm \<and> sm_ctxDone sm' = sm_ctxDone sm \<and>
     (sm_sendCh sm' = None \<longleftrightarrow> sm_sendCh sm = None) \<and>
     (\<forall>p. map_option ss_id (fmlookup (sm_heap sm') p) = map_option ss_id (fmlookup (sm_heap sm) p)) \<and>
     (\<forall>i. fmlookup (sm_outputBufs sm') i = None \<longleftrightarrow> fmlookup (sm_outputBufs sm) i = None)"

definition channel_ok :: "SessionManager \<Rightarrow> bool" where
  "channel_ok sm \<longleftrightarrow> (\<forall>ch. sm_sendCh sm = Some ch \<longrightarrow> length ch \<le> sendChCap)"

definition buffers_ok :: "SessionManager \<Rightarrow> bool" where
  "buffers_ok sm \<longleftrightarrow> (\<forall>i b. fmlookup (sm_outputBufs sm) i = Some b \<longrightarrow> length b \<le> maxOutputCapture)"

definition keeps :: "SessionManager \<Rightarrow> SessionManager \<Rightarrow> bool" where
  "keeps sm sm' \<longleftrightarrow> same_core sm sm' \<and> (channel_ok sm \<longrightarrow> channel_ok sm') \<and> (buffers_ok sm \<longrightarrow> buffers_ok sm')"

lemma keeps_refl [simp, intro]: "keeps sm sm" by (simp add: keeps_def same_core_def)

lemma keeps_trans [trans]: "keeps a b \<Longrightarrow> keeps b c \<Longrightarrow> keeps a c"
  by (auto simp: keeps_def same_core_def)

lemma keeps_sendEvent [simp, intro]: "keeps sm (sendEvent e sm)"
  by (auto simp: keeps_def same_core_def channel_ok_def buffers_ok_def) (auto simp: sendEvent_def split: option.splits if_splits)

lemma keeps_blocking: "keeps sm (snd (sendEventBlocking t e sm))"
  by (auto simp: keeps_def same_core_def channel_ok_def buffers_ok_def sendEventBlocking_def sendChCap_def split: option.splits)

lemma keeps_upd: "(\<And>s. ss_id (f s) = ss_id s) \<Longrightarrow> keeps sm (sm_upd p f sm)"
  by (auto simp: keeps_def same_core_def channel_ok_def buffers_ok_def sm_upd_def split: option.splits)

lemma keeps_fields [simp, intro]:
  "keeps sm (sm\<lparr>sm_attached := a\<rparr>)" "keeps sm (sm\<lparr>sm_lastStatus := l\<rparr>)" "keeps sm (sm\<lparr>sm_files := f\<rparr>)"
  by (simp_all add: keeps_def same_core_def channel_ok_def buffers_ok_def)

lemma keeps_buf:
  "fmlookup (sm_outputBufs sm) i \<noteq> None \<Longrightarrow> length b \<le> maxOutputCapture \<Longrightarrow>
     keeps sm (sm\<lparr>sm_outputBufs := fmupd i b (sm_outputBufs sm)\<rparr>)"
  by (auto simp: keeps_def same_core_def channel_ok_def buffers_ok_def)

lemma appendCapped_bound: "length (appendCapped buf data n) \<le> n"
  by (simp add: appendCapped_def Let_def del: drop_append)

lemma keeps_values [simp, intro]: "keeps sm (extractAndSendTaskValues sid buf sm)"
  by (simp add: extractAndSendTaskValues_def Let_def)

lemma keeps_step_values: "keeps sm (extractAndSendStepTaskValues sid sm)"
proof (cases "fmlookup (sm_outputBufs sm) sid")
  case (Some buf)
  have "keeps sm (sm\<lparr>sm_outputBufs := fmupd sid [] (sm_outputBufs sm)\<rparr>)" using Some by (intro keeps_buf) auto
  also have "keeps \<dots> (extractAndSendTaskValues sid buf (sm\<lparr>sm_outputBufs := fmupd sid [] (sm_outputBufs sm)\<rparr>))" by simp
  finally show ?thesis using Some by (simp add: extractAndSendStepTaskValues_def)
qed (simp add: extractAndSendStepTaskValues_def)

lemma keeps_chunks: "keeps sm (snd (chunk_loop env sid bytes offset k sm))"
proof (induction env sid bytes offset k sm rule: chunk_loop.induct)
  case (1 env sid bytes offset k sm)
  show ?case
  proof (cases "file_read scrollbackChunkSize (av_got env k) (drop offset bytes)")
    case (ReadData data)
    obtain ok sm1 where s: "sendEventBlocking (av_inTime env k) (EvScrollbackChunk sid data (int offset) False) sm = (ok, sm1)" by fastforce
    then have k1: "keeps sm sm1" using keeps_blocking by (metis snd_conv)
    show ?thesis
    proof (cases ok)
      case True
      then have "keeps sm1 (snd (chunk_loop env sid bytes (offset + length data) (Suc k) sm1))" using 1 ReadData s by simp
      then show ?thesis using k1 ReadData s True by (subst chunk_loop.simps) (auto intro: keeps_trans)
    qed (use k1 ReadData s in \<open>subst chunk_loop.simps, simp\<close>)
  qed (subst chunk_loop.simps, simp)+
qed

lemma keeps_scrollback: "keeps sm (sendScrollbackChunks env sid sm)"
proof (cases "file_of sid sm")
  case (Some bytes)
  obtain off sm1 where c: "chunk_loop env sid bytes 0 0 sm = (off, sm1)" by fastforce
  then have "keeps sm sm1" using keeps_chunks by (metis snd_conv)
  also have "keeps sm1 (sendFinalScrollbackMarker (av_inTime env 0) sid off sm1)"
    by (simp add: sendFinalScrollbackMarker_def keeps_blocking)
  finally show ?thesis using Some c by (simp add: sendScrollbackChunks_def)
qed (simp add: sendScrollbackChunks_def sendFinalScrollbackMarker_def keeps_blocking)

lemma ss_id_ops [simp]:
  "ss_id (WriteInput env data s) = ss_id s" "ss_id (Kill sig s) = ss_id s" "ss_id (session_read marshal el wr data s) = ss_id s"
  "ss_id (session_exited w s) = ss_id s" "ss_id (session_close s) = ss_id s"
  by (auto simp: WriteInput_def Kill_def session_read_def session_exited_def session_close_def Let_def split: wait_result.splits)

lemma keeps_report: "keeps sm (report_status sid st sm)"
  unfolding report_status_def using keeps_trans [OF keeps_fields(2) keeps_sendEvent] by simp

lemma keeps_idle: "keeps sm (on_idle env p s sm)"
proof (cases "ss_observer s")
  case (Some m)
  then show ?thesis
    by (cases m) (auto simp: on_idle_def keeps_report intro: keeps_trans [OF keeps_step_values keeps_sendEvent] intro!: keeps_upd)
qed (simp add: on_idle_def)

lemma keeps_commands:
  "keeps sm (handleInput env sid data sm)" "keeps sm (handleResize ok sid sz sm)" "keeps sm (handleKill sid signal sm)"
  "keeps sm (handleAttach env sid sm)" "keeps sm (handleDetach sid sm)" "keeps sm (handleRequestScrollback env sid sm)"
  "keeps sm (handleCleanupScrollback isUUID ok sid sm)"
proof -
  show "keeps sm (handleAttach env sid sm)"
    unfolding handleAttach_def Let_def
    by (auto split: option.splits intro: keeps_trans [OF keeps_scrollback keeps_blocking] keeps_trans [OF keeps_scrollback keeps_fields(1)])
qed (auto simp: handleInput_def handleResize_def handleKill_def handleDetach_def handleRequestScrollback_def
      handleCleanupScrollback_def keeps_scrollback split: option.splits intro!: keeps_upd)

section \<open>The agent\<close>

definition created_id :: "agent_command \<Rightarrow> string option" where
  "created_id cmd = (case cmd of FromExecutor (CmdCreateSession c) \<Rightarrow> Some (cc_SessionId c) | _ \<Rightarrow> None)"

text \<open>
  Commands arrive while the relay is active. The server gives each session a new identifier:
  what happens when it does not is the subject of a lemma below.
\<close>

inductive agent_step :: "SessionManager \<Rightarrow> SessionManager \<Rightarrow> bool" where
  ag_command: "sm_sendCh sm \<noteq> None \<Longrightarrow> \<not> sm_ctxDone sm \<Longrightarrow> fmlookup (sm_heap sm) p = None \<Longrightarrow>
    (\<forall>q s. fmlookup (sm_heap sm) q = Some s \<longrightarrow> created_id cmd \<noteq> Some (ss_id s)) \<Longrightarrow>
    agent_step sm (HandleCommand env isUUID ok p cmd sm)"
| ag_read: "fmlookup (sm_heap sm) p = Some s \<Longrightarrow> \<not> ss_chClosed s \<Longrightarrow>
    agent_step sm (sm_upd p (session_read marshal elapsed wr data) sm)"
| ag_exit: "fmlookup (sm_heap sm) p = Some s \<Longrightarrow> ss_status s = StatusRunning \<Longrightarrow> agent_step sm (sm_upd p (session_exited w) sm)"
| ag_close: "fmlookup (sm_heap sm) p = Some s \<Longrightarrow> ss_status s \<noteq> StatusRunning \<Longrightarrow> agent_step sm (sm_upd p session_close sm)"
| ag_relay: "p \<in> set (sm_relays sm) \<Longrightarrow> fmlookup (sm_heap sm) p = Some s \<Longrightarrow> ss_outputCh s = data # rest \<Longrightarrow>
    agent_step sm (relay_data data rest p s sm)"
| ag_relay_exit: "p \<in> set (sm_relays sm) \<Longrightarrow> fmlookup (sm_heap sm) p = Some s \<Longrightarrow> ss_outputCh s = [] \<Longrightarrow> ss_chClosed s \<Longrightarrow>
    relay_exit p s sm = Some sm' \<Longrightarrow> agent_step sm sm'"
| ag_relay_stop: "p \<in> set (sm_relays sm) \<Longrightarrow> sm_ctxDone sm \<Longrightarrow> agent_step sm (relay_stop p sm)"
| ag_idle: "fmlookup (sm_heap sm) p = Some s \<Longrightarrow> agent_step sm (on_idle env p s sm)"
| ag_active: "fmlookup (sm_heap sm) p = Some s \<Longrightarrow> agent_step sm (on_active s sm)"
| ag_sender: "sender_take sm = Some (e, sm') \<Longrightarrow> agent_step sm sm'"
| ag_start: "sm_sendCh sm = None \<Longrightarrow> enumerates order (sm_sessions sm) \<Longrightarrow> agent_step sm (StartRelay order sm)"
| ag_cancel: "sm_sendCh sm \<noteq> None \<Longrightarrow> agent_step sm (stop_cancel sm)"
| ag_finish: "sm_ctxDone sm \<Longrightarrow> sm_relays sm = [] \<Longrightarrow> agent_step sm (stop_finish sm)"

definition agent_init :: "SessionManager \<Rightarrow> bool" where
  "agent_init sm \<longleftrightarrow> (\<exists>cliPath. sm = NewSessionManager cliPath)"

definition relayed :: "nat \<Rightarrow> SessionManager \<Rightarrow> bool" where
  "relayed p sm \<longleftrightarrow> (\<exists>s. fmlookup (sm_heap sm) p = Some s \<and> fmlookup (sm_sessions sm) (ss_id s) = Some p \<and>
     fmlookup (sm_outputBufs sm) (ss_id s) \<noteq> None)"

definition core_inv :: "SessionManager \<Rightarrow> bool" where
  "core_inv sm \<longleftrightarrow>
     (\<forall>i p. fmlookup (sm_sessions sm) i = Some p \<longrightarrow> (\<exists>s. fmlookup (sm_heap sm) p = Some s \<and> ss_id s = i)) \<and>
     distinct (sm_relays sm) \<and> (\<forall>p \<in> set (sm_relays sm). relayed p sm) \<and>
     (sm_sendCh sm = None \<longrightarrow> sm_relays sm = []) \<and>
     (sm_sendCh sm \<noteq> None \<and> \<not> sm_ctxDone sm \<longrightarrow> (\<forall>i p. fmlookup (sm_sessions sm) i = Some p \<longrightarrow> p \<in> set (sm_relays sm)))"

definition agent_inv :: "SessionManager \<Rightarrow> bool" where
  "agent_inv sm \<longleftrightarrow> core_inv sm \<and> channel_ok sm \<and> buffers_ok sm"

lemma core_invD:
  assumes "core_inv sm"
  shows "fmlookup (sm_sessions sm) i = Some p \<Longrightarrow> \<exists>s. fmlookup (sm_heap sm) p = Some s \<and> ss_id s = i"
    and "distinct (sm_relays sm)" and "p \<in> set (sm_relays sm) \<Longrightarrow> relayed p sm"
    and "sm_sendCh sm \<noteq> None \<Longrightarrow> \<not> sm_ctxDone sm \<Longrightarrow> fmlookup (sm_sessions sm) i = Some p \<Longrightarrow> p \<in> set (sm_relays sm)"
  using assms unfolding core_inv_def by blast+

lemma core_same:
  assumes "same_core sm sm'" and "core_inv sm"
  shows "core_inv sm'"
proof -
  have id: "\<exists>s'. fmlookup (sm_heap sm') p = Some s' \<and> ss_id s' = ss_id s" if "fmlookup (sm_heap sm) p = Some s" for p s
    using assms(1) that by (metis (no_types, lifting) map_option_eq_Some option.simps(9) same_core_def)
  have "relayed p sm'" if r: "relayed p sm" for p
  proof -
    obtain s where s: "fmlookup (sm_heap sm) p = Some s" "fmlookup (sm_sessions sm) (ss_id s) = Some p" "fmlookup (sm_outputBufs sm) (ss_id s) \<noteq> None"
      using r unfolding relayed_def by blast
    then show ?thesis using id [OF s(1)] assms(1) unfolding relayed_def same_core_def by metis
  qed
  moreover have "\<exists>s. fmlookup (sm_heap sm') p = Some s \<and> ss_id s = i" if "fmlookup (sm_sessions sm) i = Some p" for i p
    using core_invD(1) [OF assms(2) that] id by metis
  ultimately show ?thesis using assms unfolding core_inv_def same_core_def by simp
qed

lemma keeps_inv: "keeps sm sm' \<Longrightarrow> agent_inv sm \<Longrightarrow> agent_inv sm'"
  by (auto simp: keeps_def agent_inv_def intro: core_same)

lemma relay_data_keeps:
  assumes "fmlookup (sm_heap sm) p = Some s"
  shows "keeps sm (relay_data data rest p s sm)"
proof -
  let ?s1 = "sm_upd p (\<lambda>s. s\<lparr>ss_outputCh := rest\<rparr>) sm"
  let ?s2 = "case fmlookup (sm_outputBufs ?s1) (ss_id s) of None \<Rightarrow> ?s1
    | Some buf \<Rightarrow> ?s1\<lparr>sm_outputBufs := fmupd (ss_id s) (appendCapped buf data maxOutputCapture) (sm_outputBufs ?s1)\<rparr>"
  have "keeps sm ?s1" by (rule keeps_upd) simp
  also have "keeps ?s1 ?s2" by (auto split: option.split intro!: keeps_buf appendCapped_bound)
  also have "keeps ?s2 (relay_data data rest p s sm)" by (simp add: relay_data_def Let_def)
  finally show ?thesis .
qed

lemma relay_exit_inv:
  assumes inv: "agent_inv sm" and p: "p \<in> set (sm_relays sm)" "fmlookup (sm_heap sm) p = Some s"
  obtains sm' where "relay_exit p s sm = Some sm'" "agent_inv sm'"
proof -
  let ?i = "ss_id s"
  have r: "fmlookup (sm_sessions sm) ?i = Some p" "fmlookup (sm_outputBufs sm) ?i \<noteq> None"
    using inv p by (auto simp: agent_inv_def core_inv_def relayed_def)
  then obtain buf where buf: "fmlookup (sm_outputBufs sm) ?i = Some buf" by auto
  define sm1 where "sm1 = sendEvent (EvSessionExit ?i (ss_exitCode s)) (extractAndSendTaskValues ?i buf (sendEvent (EvSessionStatus ?i (ss_status s)) sm))"
  have k: "keeps sm sm1" unfolding sm1_def by (meson keeps_sendEvent keeps_trans keeps_values)
  then have inv1: "agent_inv sm1" using inv by (rule keeps_inv)
  have same: "sm_sessions sm1 = sm_sessions sm" "sm_relays sm1 = sm_relays sm" using k by (simp_all add: keeps_def same_core_def)
  define sm' where "sm' = (removeSession ?i sm1)\<lparr>sm_relays := remove1 p (sm_relays sm1)\<rparr>"
  have "relayed q sm'" if q: "q \<in> set (sm_relays sm1)" "q \<noteq> p" for q
  proof -
    obtain s' where s': "fmlookup (sm_heap sm1) q = Some s'" "fmlookup (sm_sessions sm1) (ss_id s') = Some q"
      "fmlookup (sm_outputBufs sm1) (ss_id s') \<noteq> None" using inv1 q by (auto simp: agent_inv_def core_inv_def relayed_def)
    then have "ss_id s' \<noteq> ?i" using r(1) q(2) same by auto
    then show ?thesis using s' by (auto simp: relayed_def sm'_def removeSession_def)
  qed
  moreover have "q \<noteq> p" if "fmlookup (sm_sessions sm1) i = Some q" "i \<noteq> ?i" for i q
    using inv p(2) that same unfolding agent_inv_def core_inv_def by (metis option.inject)
  ultimately have "agent_inv sm'"
    using inv1 unfolding agent_inv_def core_inv_def
    by (auto simp: sm'_def removeSession_def channel_ok_def buffers_ok_def split: if_splits)
  moreover have "relay_exit p s sm = Some sm'" using buf by (simp add: relay_exit_def Let_def sm1_def sm'_def)
  ultimately show ?thesis using that by blast
qed

lemma NewSession_id: "NewSession env cmd command rows cols = Some s \<Longrightarrow> ss_id s = cc_SessionId cmd"
  by (auto simp: NewSession_def split: if_splits option.splits)

lemma handleCreate_inv:
  assumes inv: "agent_inv sm" and ch: "sm_sendCh sm \<noteq> None" and p: "fmlookup (sm_heap sm) p = None"
    and new: "\<And>q s. fmlookup (sm_heap sm) q = Some s \<Longrightarrow> ss_id s \<noteq> cc_SessionId cmd"
  shows "agent_inv (handleCreate env p cmd sm)"
proof (cases "NewSession env cmd (create_command cmd sm) (clamp16 24 (cc_Rows cmd)) (clamp16 80 (cc_Cols cmd))")
  case (Some sess)
  let ?i = "cc_SessionId cmd" and ?sm = "handleCreate env p cmd sm"
  have core: "core_inv sm" using inv by (simp add: agent_inv_def)
  have none: "fmlookup (sm_sessions sm) ?i = None"
  proof (rule ccontr)
    assume "fmlookup (sm_sessions sm) ?i \<noteq> None"
    then obtain q s where "fmlookup (sm_heap sm) q = Some s" "ss_id s = ?i" using core unfolding core_inv_def by blast
    then show False using new by blast
  qed
  have id: "ss_id sess = ?i" using Some by (rule NewSession_id)
  have f: "sm_sessions ?sm = fmupd ?i p (sm_sessions sm)" "sm_outputBufs ?sm = fmupd ?i [] (sm_outputBufs sm)"
    "sm_heap ?sm = fmupd p (sess\<lparr>ss_observer := idle_mode_of cmd\<rparr>) (sm_heap sm)" "sm_relays ?sm = sm_relays sm @ [p]"
    "sm_ctxDone ?sm = sm_ctxDone sm" "sm_sendCh ?sm = sm_sendCh (sendEvent (EvSessionStatus ?i StatusRunning) sm)"
  proof -
    let ?e = "create_entries p sess cmd sm"
    have e: "sm_sessions ?e = fmupd ?i p (sm_sessions sm)" "sm_outputBufs ?e = sm_outputBufs sm" "sm_relays ?e = sm_relays sm"
      "sm_heap ?e = fmupd p (sess\<lparr>ss_observer := idle_mode_of cmd\<rparr>) (sm_heap sm)" "sm_ctxDone ?e = sm_ctxDone sm"
      "sm_sendCh ?e = sm_sendCh sm" using none by (simp_all add: create_entries_def Let_def)
    have sm: "?sm = startSessionRelay p (sendEvent (EvSessionStatus ?i StatusRunning) ?e)"
      using Some ch e(6) by (auto simp: handleCreate_def Let_def)
    have "sm_sendCh (sendEvent (EvSessionStatus ?i StatusRunning) ?e) = sm_sendCh (sendEvent (EvSessionStatus ?i StatusRunning) sm)"
      using e(6) by (simp add: sendEvent_def split: option.splits)
    then show "sm_sessions ?sm = fmupd ?i p (sm_sessions sm)" "sm_outputBufs ?sm = fmupd ?i [] (sm_outputBufs sm)"
      "sm_heap ?sm = fmupd p (sess\<lparr>ss_observer := idle_mode_of cmd\<rparr>) (sm_heap sm)" "sm_relays ?sm = sm_relays sm @ [p]"
      "sm_ctxDone ?sm = sm_ctxDone sm" "sm_sendCh ?sm = sm_sendCh (sendEvent (EvSessionStatus ?i StatusRunning) sm)"
      unfolding sm using e id by (simp_all add: startSessionRelay_def)
  qed
  have np: "p \<notin> set (sm_relays sm)" using core p unfolding core_inv_def relayed_def by (metis option.distinct(1))
  have "relayed q ?sm" if q: "q \<in> set (sm_relays sm)" for q
  proof -
    obtain s where s: "fmlookup (sm_heap sm) q = Some s" "fmlookup (sm_sessions sm) (ss_id s) = Some q" "fmlookup (sm_outputBufs sm) (ss_id s) \<noteq> None"
      using core_invD(3) [OF core q] unfolding relayed_def by blast
    then show ?thesis using new [OF s(1)] p by (auto simp: relayed_def f)
  qed
  moreover have "relayed p ?sm" using id by (simp add: relayed_def f)
  moreover have "\<exists>s. fmlookup (sm_heap ?sm) q = Some s \<and> ss_id s = i" if i: "fmlookup (sm_sessions ?sm) i = Some q" for i q
  proof (cases "i = ?i")
    case True
    then show ?thesis using i id unfolding f by auto
  next
    case False
    then show ?thesis using core_invD(1) [OF core, of i q] i p by (auto simp: f)
  qed
  moreover have "q \<in> set (sm_relays ?sm)" if "fmlookup (sm_sessions ?sm) i = Some q" "\<not> sm_ctxDone sm" for i q
    using that core_invD(4) [OF core ch, of i q] by (auto simp: f split: if_splits)
  ultimately have "core_inv ?sm"
    using core_invD(2) [OF core] np ch unfolding core_inv_def by (auto simp: f(4,5,6))
  moreover have "channel_ok (sendEvent (EvSessionStatus ?i StatusRunning) sm)"
    using keeps_sendEvent inv unfolding keeps_def agent_inv_def by blast
  then have "channel_ok ?sm" by (simp add: channel_ok_def f)
  moreover have "buffers_ok ?sm" using inv by (auto simp: agent_inv_def buffers_ok_def f)
  ultimately show ?thesis by (simp add: agent_inv_def)
qed (use inv in \<open>simp add: handleCreate_def\<close>)

text \<open>Starting the relay of all sessions.\<close>

lemma start_fold:
  assumes "\<And>p. p \<in> set ps \<Longrightarrow> fmlookup (sm_heap sm) p \<noteq> None"
  shows "sm_relays (fold startSessionRelay ps sm) = sm_relays sm @ ps \<and> sm_sessions (fold startSessionRelay ps sm) = sm_sessions sm \<and>
    sm_heap (fold startSessionRelay ps sm) = sm_heap sm \<and> sm_ctxDone (fold startSessionRelay ps sm) = sm_ctxDone sm \<and>
    sm_sendCh (fold startSessionRelay ps sm) = sm_sendCh sm \<and> (buffers_ok sm \<longrightarrow> buffers_ok (fold startSessionRelay ps sm)) \<and>
    (\<forall>i. fmlookup (sm_outputBufs sm) i \<noteq> None \<longrightarrow> fmlookup (sm_outputBufs (fold startSessionRelay ps sm)) i \<noteq> None) \<and>
    (\<forall>p s. p \<in> set ps \<longrightarrow> fmlookup (sm_heap sm) p = Some s \<longrightarrow> fmlookup (sm_outputBufs (fold startSessionRelay ps sm)) (ss_id s) \<noteq> None)"
  using assms
proof (induction ps arbitrary: sm)
  case (Cons p ps)
  obtain s where s: "fmlookup (sm_heap sm) p = Some s" using Cons.prems [of p] by auto
  let ?sm = "startSessionRelay p sm"
  have f: "sm_relays ?sm = sm_relays sm @ [p]" "sm_sessions ?sm = sm_sessions sm" "sm_heap ?sm = sm_heap sm"
    "sm_ctxDone ?sm = sm_ctxDone sm" "sm_sendCh ?sm = sm_sendCh sm" "sm_outputBufs ?sm = fmupd (ss_id s) [] (sm_outputBufs sm)"
    using s by (simp_all add: startSessionRelay_def)
  have "buffers_ok sm \<Longrightarrow> buffers_ok ?sm" by (auto simp: buffers_ok_def f split: if_splits)
  moreover note Cons.IH [of ?sm]
  ultimately show ?case using Cons.prems s by (auto simp: f)
qed simp

lemma session_addresses:
  assumes core: "core_inv sm" and order: "enumerates order (sm_sessions sm)"
  shows "distinct (List.map_filter (fmlookup (sm_sessions sm)) order)"
    and "p \<in> set (List.map_filter (fmlookup (sm_sessions sm)) order) \<longleftrightarrow> (\<exists>i. fmlookup (sm_sessions sm) i = Some p)"
proof -
  let ?m = "fmlookup (sm_sessions sm)"
  have inj: "i = j" if "?m i = Some q" "?m j = Some q" for i j q
    using core that unfolding core_inv_def by (metis option.inject)
  have "distinct xs \<Longrightarrow> distinct (List.map_filter ?m xs)" for xs
    by (induction xs) (auto simp: List.map_filter_def dest: inj)
  then show "distinct (List.map_filter ?m order)" using order by (simp add: enumerates_def)
  have "i \<in> set order" if "?m i = Some p" for i using order that by (simp add: enumerates_mem)
  then show "p \<in> set (List.map_filter ?m order) \<longleftrightarrow> (\<exists>i. ?m i = Some p)" by (force simp: List.map_filter_def)
qed

lemma StartRelay_inv:
  assumes inv: "agent_inv sm" and "sm_sendCh sm = None" and order: "enumerates order (sm_sessions sm)"
  shows "agent_inv (StartRelay order sm)"
proof -
  let ?ps = "List.map_filter (fmlookup (sm_sessions sm)) order" and ?s0 = "sm\<lparr>sm_sendCh := Some [], sm_ctxDone := False\<rparr>"
  have core: "core_inv sm" using inv by (simp add: agent_inv_def)
  then have none: "sm_relays sm = []" using assms(2) by (simp add: core_inv_def)
  note ps = session_addresses [OF core order]
  have heap: "fmlookup (sm_heap sm) p \<noteq> None" if "p \<in> set ?ps" for p
    using ps(2) that core unfolding core_inv_def by (metis option.distinct(1))
  have f: "sm_relays (StartRelay order sm) = ?ps" "sm_sessions (StartRelay order sm) = sm_sessions sm"
    "sm_heap (StartRelay order sm) = sm_heap sm" "sm_ctxDone (StartRelay order sm) = False" "sm_sendCh (StartRelay order sm) = Some []"
    "buffers_ok (StartRelay order sm)"
    "\<And>p s. p \<in> set ?ps \<Longrightarrow> fmlookup (sm_heap sm) p = Some s \<Longrightarrow> fmlookup (sm_outputBufs (StartRelay order sm)) (ss_id s) \<noteq> None"
    using start_fold [of ?ps ?s0] heap none inv unfolding StartRelay_def by (auto simp: agent_inv_def buffers_ok_def)
  have "relayed p (StartRelay order sm)" if p: "p \<in> set ?ps" for p
  proof -
    obtain i s where "fmlookup (sm_sessions sm) i = Some p" "fmlookup (sm_heap sm) p = Some s" "ss_id s = i"
      using ps(2) p core unfolding core_inv_def by metis
    then show ?thesis using f(7) [OF p] by (auto simp: relayed_def f(2,3))
  qed
  then have "core_inv (StartRelay order sm)" using core ps unfolding core_inv_def f by auto
  then show ?thesis using f(5,6) by (simp add: agent_inv_def channel_ok_def)
qed

interpretation agent: invariant_system agent_init agent_step agent_inv
proof
  fix sm assume "agent_init sm"
  then show "agent_inv sm"
    by (auto simp: agent_init_def NewSessionManager_def agent_inv_def core_inv_def channel_ok_def buffers_ok_def)
next
  fix sm sm' assume inv: "agent_inv sm" and "agent_step sm sm'"
  from this(2) show "agent_inv sm'"
  proof cases
    case (ag_command p cmd env isUUID ok)
    have "agent_inv (HandleCommand env isUUID ok p cmd sm)"
    proof (cases cmd)
      case (FromExecutor c)
      show ?thesis
      proof (cases c)
        case (CmdCreateSession cc)
        have "agent_inv (handleCreate env p cc sm)"
          by (rule handleCreate_inv) (use ag_command inv FromExecutor CmdCreateSession in \<open>force simp: created_id_def\<close>)+
        then show ?thesis using FromExecutor CmdCreateSession by (simp add: HandleCommand_def)
      qed (use FromExecutor in \<open>auto simp: HandleCommand_def intro: keeps_inv [OF _ inv] keeps_commands\<close>)
    qed (auto simp: HandleCommand_def intro: keeps_inv [OF _ inv] keeps_commands)
    then show ?thesis using ag_command by simp
  next
    case (ag_relay_exit p s)
    then show ?thesis using relay_exit_inv [OF inv, of p s] by auto
  next
    case (ag_relay_stop p)
    then show ?thesis using inv
      by (auto simp: relay_stop_def agent_inv_def core_inv_def channel_ok_def buffers_ok_def relayed_def dest: notin_set_remove1)
  next
    case (ag_sender e)
    then show ?thesis using inv
      by (auto simp: sender_take_def agent_inv_def core_inv_def channel_ok_def buffers_ok_def relayed_def split: option.splits list.splits)
  next
    case (ag_start order)
    then show ?thesis using StartRelay_inv inv by simp
  next
    case ag_cancel
    then show ?thesis using inv by (auto simp: stop_cancel_def agent_inv_def core_inv_def channel_ok_def buffers_ok_def relayed_def)
  next
    case ag_finish
    then show ?thesis using inv by (auto simp: stop_finish_def agent_inv_def core_inv_def channel_ok_def buffers_ok_def relayed_def)
  next
    case (ag_active p s)
    then show ?thesis using inv by (auto simp: on_active_def intro: keeps_inv keeps_report)
  qed (auto intro!: keeps_inv [OF _ inv] keeps_upd keeps_idle relay_data_keeps)
qed

text \<open>The channel after an event, and after the three events of an exit.\<close>

lemma sendEvent_room: "sm_sendCh sm = Some ch \<Longrightarrow> length ch < sendChCap \<Longrightarrow> sm_sendCh (sendEvent e sm) = Some (ch @ [e])"
  by (simp add: sendEvent_def)

lemma values_channel:
  assumes "sm_sendCh sm = Some ch" and "length ch < sendChCap"
  obtains es where "sm_sendCh (extractAndSendTaskValues sid buf sm) = Some (ch @ es)" "length es \<le> 1"
  using assms sendEvent_room [OF assms] by (cases "buf = [] \<or> task_values_of (getd '''' (sm_taskTypes sm) sid) buf = fmempty")
    (auto simp: extractAndSendTaskValues_def Let_def intro: that [of "[]"] that [of "[EvTaskValues sid (task_values_of (getd '''' (sm_taskTypes sm) sid) buf)]"])

lemma relay_exit_reports:
  assumes ex: "relay_exit p s sm = Some sm'" and ch: "sm_sendCh sm = Some ch" "length ch + 3 \<le> sendChCap"
  shows "\<exists>es. sm_sendCh sm' = Some (ch @ [EvSessionStatus (ss_id s) (ss_status s)] @ es @ [EvSessionExit (ss_id s) (ss_exitCode s)])"
proof -
  let ?s1 = "sendEvent (EvSessionStatus (ss_id s) (ss_status s)) sm"
  obtain buf where buf: "fmlookup (sm_outputBufs sm) (ss_id s) = Some buf"
    using ex by (auto simp: relay_exit_def Let_def split: option.splits)
  have c1: "sm_sendCh ?s1 = Some (ch @ [EvSessionStatus (ss_id s) (ss_status s)])" using sendEvent_room [OF ch(1)] ch(2) by simp
  obtain es where es: "sm_sendCh (extractAndSendTaskValues (ss_id s) buf ?s1) = Some ((ch @ [EvSessionStatus (ss_id s) (ss_status s)]) @ es)"
    "length es \<le> 1" by (rule values_channel [OF c1]) (use ch(2) in auto)
  have "sm_sendCh (sendEvent (EvSessionExit (ss_id s) (ss_exitCode s)) (extractAndSendTaskValues (ss_id s) buf ?s1))
      = Some (((ch @ [EvSessionStatus (ss_id s) (ss_status s)]) @ es) @ [EvSessionExit (ss_id s) (ss_exitCode s)])"
    by (rule sendEvent_room [OF es(1)]) (use ch(2) es(2) in simp)
  then show ?thesis using ex buf by (auto simp: relay_exit_def Let_def removeSession_def)
qed

text \<open>
  C9. A connected agent forgets no session and survives the exit of every one: in every
  reachable state with an active relay each session in the table has exactly one relay
  goroutine; when its process has ended, the goroutine finds its output buffer, reports the
  status and, after the task values, the exit code to the server unless the channel is full,
  and removes the session from all tables. Reconnecting does not change this, so a session
  that ends while the agent is offline is reported afterwards. An output buffer never
  exceeds 64 KiB.
\<close>

theorem agent_reports_exits:
  assumes "reachable agent_init agent_step sm" and "sm_sendCh sm = Some ch" and "\<not> sm_ctxDone sm"
    and "fmlookup (sm_sessions sm) i = Some p"
  shows "\<exists>s sm' b. fmlookup (sm_heap sm) p = Some s \<and> ss_id s = i \<and> count_list (sm_relays sm) p = 1 \<and>
    fmlookup (sm_outputBufs sm) i = Some b \<and> length b \<le> maxOutputCapture \<and> relay_exit p s sm = Some sm' \<and>
    i \<notin> fmdom' (sm_sessions sm') \<union> fmdom' (sm_attached sm') \<union> fmdom' (sm_taskTypes sm') \<union> fmdom' (sm_outputBufs sm') \<union>
      fmdom' (sm_standalone sm') \<union> fmdom' (sm_detectors sm') \<union> fmdom' (sm_lastStatus sm') \<and>
    (length ch + 3 \<le> sendChCap \<longrightarrow>
       (\<exists>es. sm_sendCh sm' = Some (ch @ [EvSessionStatus i (ss_status s)] @ es @ [EvSessionExit i (ss_exitCode s)])))"
proof -
  have inv: "agent_inv sm" using assms(1) by (rule agent.reachable_inv)
  then have core: "core_inv sm" by (simp add: agent_inv_def)
  have p: "p \<in> set (sm_relays sm)" using core_invD(4) [OF core _ assms(3,4)] assms(2) by simp
  obtain s where s: "fmlookup (sm_heap sm) p = Some s" "ss_id s = i" using core_invD(1) [OF core assms(4)] by blast
  obtain sm' where sm': "relay_exit p s sm = Some sm'" using relay_exit_inv [OF inv p s(1)] by blast
  have one: "count_list (sm_relays sm) p = 1" using p core_invD(2) [OF core] by (simp add: count_list_distinct)
  obtain b where b: "fmlookup (sm_outputBufs sm) i = Some b" using core_invD(3) [OF core p] s by (auto simp: relayed_def)
  have gone: "i \<notin> fmdom' (sm_sessions sm') \<union> fmdom' (sm_attached sm') \<union> fmdom' (sm_taskTypes sm') \<union> fmdom' (sm_outputBufs sm') \<union>
      fmdom' (sm_standalone sm') \<union> fmdom' (sm_detectors sm') \<union> fmdom' (sm_lastStatus sm')"
    using sm' s(2) by (auto simp: relay_exit_def removeSession_def Let_def split: option.splits)
  have "length b \<le> maxOutputCapture" using inv b by (auto simp: agent_inv_def buffers_ok_def)
  then show ?thesis using s one b sm' gone relay_exit_reports [OF sm' assms(2)] by auto
qed

definition aenv :: agent_env where
  "aenv = \<lparr>av_now = 1, av_environ = [''PATH=/bin'', ''CLAUDECODE=1''], av_order = [], av_started = True, av_file = (True, WroteAll),
     av_inTime = (\<lambda>_. True), av_got = (\<lambda>_. Some 4096), av_writable = True\<rparr>"

definition create_s :: "string \<Rightarrow> bool \<Rightarrow> CreateSessionCmd" where
  "create_s prompt keepAlive = \<lparr>cc_SessionId = ''s'', cc_Command = '''', cc_Args = [], cc_WorkingDir = ''/'', cc_EnvVars = fmempty,
     cc_Rows = 24, cc_Cols = 80, cc_InitialPrompt = prompt, cc_TaskType = ''claude_session'', cc_KeepAlive = keepAlive\<rparr>"

definition ag0 :: SessionManager where "ag0 = StartRelay [] (NewSessionManager ''claude'')"
definition ag1 :: SessionManager where "ag1 = handleCreate aenv 0 (create_s ''go'' False) ag0"

theorem agent_reports_exits_witness:
  "\<exists>s sm'. fmlookup (sm_heap ag1) 0 = Some s \<and> relay_exit 0 s ag1 = Some sm' \<and> ''s'' \<notin> fmdom' (sm_sessions sm') \<and>
     (\<exists>ch. sm_sendCh sm' = Some (ch @ [EvSessionExit ''s'' (ss_exitCode s)]))"
proof -
  have r0: "reachable agent_init agent_step (NewSessionManager ''claude'')" by (rule reach_init) (auto simp: agent_init_def)
  have "agent_step (NewSessionManager ''claude'') ag0"
    unfolding ag0_def by (rule ag_start) (auto simp: NewSessionManager_def enumerates_def)
  with r0 have "reachable agent_init agent_step ag0" by (rule reach_step)
  moreover have "agent_step ag0 (HandleCommand aenv (\<lambda>_. True) True 0 (FromExecutor (CmdCreateSession (create_s ''go'' False))) ag0)"
    by (rule ag_command) (simp_all add: ag0_def StartRelay_def NewSessionManager_def List.map_filter_def)
  then have "agent_step ag0 ag1" by (simp add: HandleCommand_def ag1_def)
  ultimately have r: "reachable agent_init agent_step ag1" by (rule reach_step)
  have f: "sm_sendCh ag1 = Some [EvSessionStatus ''s'' StatusRunning]" "\<not> sm_ctxDone ag1" "fmlookup (sm_sessions ag1) ''s'' = Some 0"
    by (simp_all add: ag1_def handleCreate_def NewSession_def aenv_def NewScrollbackWriter_def create_s_def create_entries_def
        ag0_def StartRelay_def NewSessionManager_def List.map_filter_def startSessionRelay_def sendEvent_def sendChCap_def
        idle_mode_of_def Let_def)
  have "Suc (Suc (Suc (Suc 0))) \<le> sendChCap" by (simp add: sendChCap_def)
  then show ?thesis using agent_reports_exits [OF r f] f(1) by (auto simp: fmlookup_dom'_iff)
qed

section \<open>Where the agent falls short\<close>

lemmas agent_defs = ag0_def ag1_def handleCreate_def NewSession_def aenv_def NewScrollbackWriter_def create_s_def create_entries_def
  StartRelay_def NewSessionManager_def List.map_filter_def startSessionRelay_def sendEvent_def sendChCap_def idle_mode_of_def
  sm_upd_def Let_def

text \<open>
  A second session with an identifier in use: when the first one exits, its relay removes the
  tables of the second one, and when the second one exits, its relay dereferences a nil
  buffer.
\<close>

definition exited :: "nat \<Rightarrow> SessionManager \<Rightarrow> SessionManager option" where
  "exited p sm =
     (let sm = sm_upd p (\<lambda>s. session_close (session_exited WaitOk s)) sm
      in case fmlookup (sm_heap sm) p of None \<Rightarrow> None | Some s \<Rightarrow> relay_exit p s sm)"

lemma duplicate_session_crashes:
  "\<exists>sm1 sm2. sm1 = handleCreate aenv 1 (create_s ''go'' False) ag1 \<and> exited 0 sm1 = Some sm2 \<and> exited 1 sm2 = None"
  by (simp add: agent_defs exited_def relay_exit_def removeSession_def extractAndSendTaskValues_def session_exited_def
      session_close_def Kill_def)

text \<open>The prompt of the first step of a shared session is never written: silence reports the step as done.\<close>

lemma keep_alive_prompt_not_submitted:
  "let sm = handleCreate aenv 0 (create_s ''go'' True) ag0
   in case fmlookup (sm_heap sm) 0 of
        None \<Rightarrow> False
      | Some s \<Rightarrow> sm_sendCh (on_idle aenv 0 s sm) = Some [EvSessionStatus ''s'' StatusRunning, EvStepIdle ''s''] \<and>
          map_option ss_input (fmlookup (sm_heap (on_idle aenv 0 s sm)) 0) = Some []"
  by (simp add: agent_defs on_idle_def extractAndSendStepTaskValues_def)

text \<open>Reconnecting replaces the output buffers, so that what a session printed before is not searched.\<close>

lemma reconnect_discards_output:
  assumes "fmlookup (sm_sessions sm) i = Some p" and "fmlookup (sm_heap sm) p = Some s" and "ss_id s = i"
  shows "fmlookup (sm_outputBufs (StartRelay [i] sm)) i = Some []"
  using assms by (simp add: StartRelay_def List.map_filter_def startSessionRelay_def)

text \<open>An exit is not reported at all when the channel is full.\<close>

lemma full_channel_loses_exit:
  assumes "sm_sendCh sm = Some ch" and "sendChCap \<le> length ch" and "relay_exit p s sm = Some sm'"
  shows "sm_sendCh sm' = Some ch" and "fmlookup (sm_sessions sm') (ss_id s) = None"
proof -
  have full: "sendEvent e x = x" if "sm_sendCh x = Some ch" for e x using that assms(2) by (simp add: sendEvent_def)
  then have "extractAndSendTaskValues i b sm = sm" for i b using assms(1) by (simp add: extractAndSendTaskValues_def Let_def)
  then show "sm_sendCh sm' = Some ch" "fmlookup (sm_sessions sm') (ss_id s) = None"
    using assms(1,3) by (auto simp: relay_exit_def full removeSession_def Let_def split: option.splits)
qed

end
