(* ===== verification/Agent_Server.thy ===== *)
theory Agent_Server
  imports Agent_Sessions_Props Agent_Service_Props Job_Store_Roundtrip
begin

text \<open>
  Agent and server together: task values printed by a session reach the run step that the
  session executes, and the recording of a session is replayed to a browser. Both directions
  go through the messages of \<open>Agent_Service\<close>.
\<close>

section \<open>Task values\<close>

text \<open>What the relay keeps of the output: the end of it, all of it when it is short.\<close>

definition captured :: "string list \<Rightarrow> string" where
  "captured ds = foldl (\<lambda>buf data. appendCapped buf data maxOutputCapture) [] ds"

lemma appendCapped_suffix: "appendCapped buf data n = drop (length (buf @ data) - n) (buf @ data)"
  by (auto simp: appendCapped_def Let_def)

lemma captured_suffix: "captured ds = drop (length (concat ds) - maxOutputCapture) (concat ds)"
proof (induction ds rule: rev_induct)
  case (snoc d ds)
  let ?n = maxOutputCapture and ?c = "concat ds"
  have "captured (ds @ [d]) = appendCapped (captured ds) d ?n" by (simp add: captured_def)
  also have "\<dots> = drop (length (?c @ d) - ?n) (?c @ d)"
    by (simp only: snoc appendCapped_suffix) (cases "length ?c \<le> ?n"; auto simp: drop_append add.commute)
  finally show ?case by simp
qed (simp add: captured_def)

lemma SetTaskValue_fresh:
  assumes "key_ok k" and "length k \<le> maxTaskValueKeyLen" and "length v \<le> maxTaskValueSize"
    and "k \<notin> tv_Key ` set (values_of x d)" and "length (values_of x d) < maxTaskValuesPerStep" and "x \<in> set (run_step_ids d)"
  shows "SetTaskValue now x k v d =
    Inr (d\<lparr>db_values := db_values d @ [\<lparr>tv_RunStepID = x, tv_Key = k, tv_Value = v, tv_CreatedAt = now\<rparr>]\<rparr>)"
proof -
  have "filter (\<lambda>w. tv_Key w = k) (values_of x d) = []" using assms(4) by (auto simp: filter_empty_conv)
  moreover have "taskValueKeyPattern k" "k \<noteq> ''''" using assms(1) by (cases k; auto simp: key_ok_def)+
  ultimately show ?thesis using assms by (simp add: SetTaskValue_def Let_def)
qed

lemma value_map_snoc:
  "tv_Key w \<notin> tv_Key ` set ws \<Longrightarrow> value_map (ws @ [w]) = (value_map ws)(tv_Key w \<mapsto> tv_Value w)"
  by (simp add: value_map_append)

lemma store_values_all:
  assumes "\<And>k. k \<in> set ks \<Longrightarrow> key_ok k \<and> length k \<le> maxTaskValueKeyLen \<and> length (getd '''' vals k) \<le> maxTaskValueSize"
    and "distinct ks" and "\<And>c. \<not> sv_fault env c" and "x \<in> set (run_step_ids d)"
    and "length (values_of x d) + length ks \<le> maxTaskValuesPerStep" and "set ks \<inter> tv_Key ` set (values_of x d) = {}"
  shows "value_map (values_of x (store_values env x vals ks d)) k =
    (if k \<in> set ks then Some (getd '''' vals k) else value_map (values_of x d) k)"
  using assms
proof (induction ks arbitrary: d)
  case (Cons k' ks)
  let ?w = "\<lparr>tv_RunStepID = x, tv_Key = k', tv_Value = getd '''' vals k', tv_CreatedAt = sv_now env\<rparr>"
  let ?d = "d\<lparr>db_values := db_values d @ [?w]\<rparr>"
  have v: "values_of x ?d = values_of x d @ [?w]" by (simp add: values_of_def)
  have "SetTaskValue (sv_now env) x k' (getd '''' vals k') d = Inr ?d"
    using Cons.prems by (intro SetTaskValue_fresh) auto
  then have "store_values env x vals (k' # ks) d = store_values env x vals ks ?d" using Cons.prems(3) by simp
  moreover have "value_map (values_of x (store_values env x vals ks ?d)) k =
      (if k \<in> set ks then Some (getd '''' vals k) else value_map (values_of x ?d) k)"
    by (rule Cons.IH) (use Cons.prems v in auto)
  moreover have "value_map (values_of x ?d) = (value_map (values_of x d))(k' \<mapsto> getd '''' vals k')"
    unfolding v by (rule value_map_snoc [of ?w, simplified]) (use Cons.prems in auto)
  ultimately show ?case using Cons.prems(2) by auto
qed simp

lemma store_values_wf: "wf_db d \<Longrightarrow> wf_db (store_values env x vals ks d)"
proof (induction ks arbitrary: d)
  case (Cons k ks)
  have "wf_db (if sv_fault env (STaskValue k) then d
      else case SetTaskValue (sv_now env) x k (getd '''' vals k) d of Inl _ \<Rightarrow> d | Inr d' \<Rightarrow> d')"
    using Cons.prems by (auto split: sum.split intro: SetTaskValue_wf)
  then show ?case using Cons.IH by simp
qed simp


definition svc_x :: agentService where
  "svc_x = svc_Set DepTaskValueStore (svc_Set DepRunStepLookup (NewGRPCServer None (exec0\<lparr>ex_store := db3,
     ex_sessionToStep := fmupd ''s'' \<lparr>tk_runID = ''r'', tk_runStepID = ''x'', tk_stepID = ''a'', tk_onComplete = 0, tk_cancel = None\<rparr> fmempty\<rparr>)))"


text \<open>
  The final status is sent before the values. When the monitor of the step reads it first,
  the session is no longer tracked and its values are dropped.
\<close>

lemma values_after_completion_lost:
  "on_task_values env sid vals (svc\<lparr>as_exec := completeStep xenv' sid code (as_exec svc)\<rparr>) =
     svc\<lparr>as_exec := completeStep xenv' sid code (as_exec svc)\<rparr>"
proof -
  have "fmlookup (ex_sessionToStep (completeStep xenv' sid code e)) sid = None" for e
    by (auto simp: completeStep_def onComplete_def cancel_monitor_def error_message_def split: option.splits sum.splits)
  then show ?thesis by (simp add: on_task_values_def RunStepIDForSession_def)
qed

section \<open>Replaying a recording\<close>

text \<open>
  What the replay relies on in \<open>encoding/json\<close> and \<open>fmt\<close>: the encoding of a text is on one
  line and decodes to the text, and an array literal decodes to its elements. A text is
  \<open>valid\<close> when it is valid UTF-8; other bytes are replaced by the encoder.
\<close>

definition json_laws :: "(string \<Rightarrow> string option) \<Rightarrow> (string \<Rightarrow> string list option) \<Rightarrow> (string \<Rightarrow> string option) \<Rightarrow>
    (string \<Rightarrow> bool) \<Rightarrow> (string \<Rightarrow> bool) \<Rightarrow> bool" where
  "json_laws marshal entry str seconds valid \<longleftrightarrow>
     (\<forall>el data esc. seconds el \<and> valid data \<and> marshal data = Some esc \<longrightarrow>
        CHR 0x0A \<notin> set el \<and> CHR 0x0A \<notin> set esc \<and>
        entry (''['' @ el @ '',\"o\",'' @ esc @ '']'') = Some [el, ''\"o\"'', esc] \<and> str esc = Some data)"

text \<open>A recording: the header and the lines of its chunks, with their times and encodings.\<close>

definition record_lines :: "(string \<Rightarrow> string option) \<Rightarrow> (string \<times> string) list \<Rightarrow> string list" where
  "record_lines marshal cs = map (\<lambda>(el, data). output_line el (the (marshal data))) cs"

fun written :: "(string \<Rightarrow> string option) \<Rightarrow> (string \<times> string) list \<Rightarrow> ScrollbackWriter \<Rightarrow> ScrollbackWriter" where
  "written marshal [] w = w"
| "written marshal ((el, data) # cs) w = written marshal cs (snd (WriteOutput marshal el WroteAll data w))"

lemma written_file:
  "\<forall>c \<in> set cs. marshal (snd c) \<noteq> None \<Longrightarrow> sw_file (written marshal cs w) = sw_file w @ concat (record_lines marshal cs)"
  by (induction marshal cs w rule: written.induct) (auto simp: record_lines_def WriteOutput_def Let_def)

lemma scan_lines_Cons:
  assumes "CHR 0x0A \<notin> set body" and "length body < maxScannerBufSize"
  shows "scan_lines (body @ CHR 0x0A # rest) = drop_cr body # scan_lines rest"
proof -
  have "takeWhile (\<lambda>c. c \<noteq> CHR 0x0A) (body @ CHR 0x0A # rest) = body" using assms(1) by (induction body) auto
  then show ?thesis using assms(2) by (subst scan_lines.simps) (simp add: Let_def)
qed

lemma scan_lines_last:
  assumes "CHR 0x0A \<notin> set body" and "body \<noteq> []" and "length body < maxScannerBufSize"
  shows "scan_lines body = [drop_cr body]"
proof -
  have tw: "takeWhile (\<lambda>c. c \<noteq> CHR 0x0A) body = body" using assms(1) by (induction body) auto
  have "scan_lines [] = []" by (subst scan_lines.simps) simp
  moreover have "drop (Suc (length body)) body = []" by simp
  ultimately show ?thesis using assms(2,3) by (subst scan_lines.simps) (simp only: tw Let_def if_False not_le [symmetric] simp_thms)
qed

definition line_ok :: "string \<Rightarrow> bool" where
  "line_ok l \<longleftrightarrow> l \<noteq> [] \<and> last l = CHR 0x0A \<and> CHR 0x0A \<notin> set (butlast l) \<and> length (butlast l) < maxScannerBufSize \<and>
     (butlast l = [] \<or> last (butlast l) \<noteq> CHR 0x0D)"

lemma scan_lines_concat: "list_all line_ok ls \<Longrightarrow> scan_lines (concat ls) = map butlast ls"
proof (induction ls)
  case (Cons l ls)
  then have ok: "l \<noteq> []" "last l = CHR 0x0A" "CHR 0x0A \<notin> set (butlast l)" "length (butlast l) < maxScannerBufSize"
    "drop_cr (butlast l) = butlast l" by (auto simp: line_ok_def drop_cr_def)
  have "butlast l @ [CHR 0x0A] = l" using append_butlast_last_id [OF ok(1)] ok(2) by simp
  then have c: "concat (l # ls) = butlast l @ CHR 0x0A # concat ls" by (metis append.assoc append_Cons append_Nil concat.simps(2))
  show ?case unfolding c using scan_lines_Cons [OF ok(3,4), of "concat ls"] ok(5) Cons by simp
next
  case Nil
  then show ?case by (simp add: scan_lines.simps)
qed

lemma output_line_ok:
  assumes "CHR 0x0A \<notin> set el" and "CHR 0x0A \<notin> set esc" and "length (output_line el esc) \<le> maxScannerBufSize"
  shows "line_ok (output_line el esc)" and "butlast (output_line el esc) = ''['' @ el @ '',\"o\",'' @ esc @ '']''"
proof -
  show b: "butlast (output_line el esc) = ''['' @ el @ '',\"o\",'' @ esc @ '']''" by (simp add: output_line_def butlast_append)
  have "output_line el esc = (''['' @ el @ '',\"o\",'' @ esc @ '']'') @ [CHR 0x0A]" by (simp add: output_line_def)
  then show "line_ok (output_line el esc)" using assms unfolding line_ok_def b by auto
qed

lemma char_of_digit: "n < 10 \<Longrightarrow> char_of (48 + n :: nat) \<noteq> CHR 0x0A"
proof -
  assume "n < 10"
  then have e: "of_char (char_of (48 + n :: nat)) = (48 + n :: nat)" by (simp add: of_char_of)
  show ?thesis using arg_cong [of "char_of (48 + n :: nat)" "CHR 0x0A" "of_char :: char \<Rightarrow> nat"] unfolding e by auto
qed

lemma dec_no_newline: "CHR 0x0A \<notin> set (dec n)"
proof (induction n rule: dec.induct)
  case (1 n)
  then show ?case using char_of_digit [of n] char_of_digit [of "n mod 10"] by (subst dec.simps) auto
qed

lemma header_ok:
  assumes "length (scrollback_header cols rows unix) \<le> maxScannerBufSize"
  shows "line_ok (scrollback_header cols rows unix)" and "asciicast_line entry str (butlast (scrollback_header cols rows unix)) = []"
proof -
  have no: "CHR 0x0A \<notin> set (itoa n)" for n using dec_no_newline by (auto simp: itoa_def)
  let ?b = "''{\"version\":2,\"width\":'' @ itoa (int cols) @ '',\"height\":'' @ itoa (int rows) @ '',\"timestamp\":'' @ itoa unix @ ''}''"
  have h: "scrollback_header cols rows unix = ?b @ [CHR 0x0A]" by (simp add: scrollback_header_def)
  have b: "butlast (scrollback_header cols rows unix) = ?b" unfolding h by (rule butlast_snoc)
  show "line_ok (scrollback_header cols rows unix)" using assms no unfolding line_ok_def b by (auto simp: h)
  show "asciicast_line entry str (butlast (scrollback_header cols rows unix)) = []" unfolding b by (simp add: asciicast_line_def)
qed

text \<open>Lines of a recording that is cut only between lines decode to the recorded output.\<close>

definition recorded_ok :: "(string \<Rightarrow> string option) \<Rightarrow> (string \<Rightarrow> bool) \<Rightarrow> (string \<Rightarrow> bool) \<Rightarrow> string \<times> string \<Rightarrow> bool" where
  "recorded_ok marshal seconds valid c \<longleftrightarrow> seconds (fst c) \<and> valid (snd c) \<and> marshal (snd c) \<noteq> None"

lemma parse_record_lines:
  assumes "json_laws marshal entry str seconds valid" and "list_all (recorded_ok marshal seconds valid) cs"
    and "\<forall>l \<in> set (record_lines marshal cs). length l \<le> maxScannerBufSize"
  shows "list_all line_ok (record_lines marshal cs)"
    and "concat (map (asciicast_line entry str) (map butlast (record_lines marshal cs))) = concat (map snd cs)"
proof -
  have one: "line_ok l \<and> asciicast_line entry str (butlast l) = data"
    if c: "(el, data) \<in> set cs" and l: "l = output_line el (the (marshal data))" for el data l
  proof -
    obtain esc where esc: "marshal data = Some esc" "seconds el" "valid data" using assms(2) c by (force simp: list_all_iff recorded_ok_def)
    then have law: "CHR 0x0A \<notin> set el" "CHR 0x0A \<notin> set esc" "entry (''['' @ el @ '',\"o\",'' @ esc @ '']'') = Some [el, ''\"o\"'', esc]"
      "str esc = Some data" using assms(1) unfolding json_laws_def by blast+
    have "length (output_line el esc) \<le> maxScannerBufSize" using assms(3) c esc(1) by (force simp: record_lines_def)
    from output_line_ok [OF law(1,2) this] show ?thesis using l esc(1) law(3,4) by (simp add: asciicast_line_def)
  qed
  then show "list_all line_ok (record_lines marshal cs)" by (auto simp: list_all_iff record_lines_def)
  show "concat (map (asciicast_line entry str) (map butlast (record_lines marshal cs))) = concat (map snd cs)"
    using one by (auto simp: record_lines_def intro!: arg_cong [where f = concat] map_cong)
qed

lemma replay_once:
  assumes "file_of sid sm = Some bytes" and "bytes \<noteq> []" and "length bytes \<le> scrollbackChunkSize"
    and "av_got env 0 = Some n" and "length bytes \<le> n" and "av_got env 1 \<noteq> None"
    and "sm_sendCh sm = Some ch" and "length ch + 2 \<le> sendChCap"
  shows "sm_sendCh (handleRequestScrollback env sid sm) =
    Some (ch @ [EvScrollbackChunk sid bytes 0 False, EvScrollbackChunk sid [] (int (length bytes)) True])"
proof -
  let ?sm = "sm\<lparr>sm_sendCh := Some (ch @ [EvScrollbackChunk sid bytes 0 False])\<rparr>"
  obtain n1 where n1: "av_got env 1 = Some n1" using assms(6) by auto
  have "0 < length bytes" using assms(2) by simp
  then have "max 1 (min n scrollbackChunkSize) \<ge> length bytes" using assms(3,5) by simp
  then have r0: "file_read scrollbackChunkSize (av_got env 0) (drop 0 bytes) = ReadData bytes"
    using assms(2,4) by (simp add: file_read_def scrollbackChunkSize_def)
  have r1: "file_read scrollbackChunkSize (av_got env 1) (drop (length bytes) bytes) = ReadEOF"
    using n1 by (simp add: file_read_def scrollbackChunkSize_def)
  have "sendEventBlocking (av_inTime env 0) (EvScrollbackChunk sid bytes 0 False) sm = (True, ?sm)"
    using assms(7,8) by (simp add: sendEventBlocking_def)
  then have "chunk_loop env sid bytes 0 0 sm = chunk_loop env sid bytes (length bytes) 1 ?sm"
    using r0 by (subst chunk_loop.simps) simp
  also have "\<dots> = (length bytes, ?sm)" using r1 by (subst chunk_loop.simps) simp
  finally show ?thesis using assms(1,7,8)
    by (simp add: handleRequestScrollback_def sendScrollbackChunks_def sendFinalScrollbackMarker_def sendEventBlocking_def)
qed


text \<open>An encoder for two words, enough to see the laws hold.\<close>

definition quote_word :: "string \<Rightarrow> string option" where
  "quote_word s = (if s = ''hi'' \<or> s = '' you'' then Some (''\"'' @ s @ ''\"'') else None)"

definition entry_word :: "string \<Rightarrow> string list option" where
  "entry_word l = (if l = ''[0.1,\"o\",\"hi\"]'' then Some [''0.1'', ''\"o\"'', ''\"hi\"'']
     else if l = ''[0.1,\"o\",\" you\"]'' then Some [''0.1'', ''\"o\"'', ''\" you\"''] else None)"

definition str_word :: "string \<Rightarrow> string option" where
  "str_word l = (if l = ''\"hi\"'' then Some ''hi'' else if l = ''\" you\"'' then Some '' you'' else None)"

definition writer0 :: ScrollbackWriter where
  "writer0 = \<lparr>sw_file = scrollback_header 80 24 7, sw_offset = int (length (scrollback_header 80 24 7))\<rparr>"

definition words :: "(string \<times> string) list" where "words = [(''0.1'', ''hi''), (''0.1'', '' you'')]"

lemma word_laws: "json_laws quote_word entry_word str_word (\<lambda>el. el = ''0.1'') (\<lambda>_. True)"
  by (auto simp: json_laws_def quote_word_def entry_word_def str_word_def split: if_splits)

definition ag_rec :: SessionManager where
  "ag_rec = sm_upd 0 (\<lambda>s. s\<lparr>ss_scrollback := written quote_word words writer0\<rparr>) ag1"


text \<open>
  Longer recordings are cut every 32 KiB, and a short read cuts them anywhere. The server
  decodes each part on its own: of a line that is cut, neither part is shown.
\<close>

lemma cut_line_is_lost:
  "let line = output_line ''0.1'' ''\"hi\"''
   in parseAsciicastData entry_word str_word line = ''hi'' \<and>
      parseAsciicastData entry_word str_word (take 8 line) @ parseAsciicastData entry_word str_word (drop 8 line) = ''''"
proof -
  have line: "output_line ''0.1'' ''\"hi\"'' = ''[0.1,\"o\",\"hi\"]'' @ CHR 0x0A # []" by (simp add: output_line_def)
  have cut: "take 8 (output_line ''0.1'' ''\"hi\"'') = ''[0.1,\"o\"''" "drop 8 (output_line ''0.1'' ''\"hi\"'') = '',\"hi\"]'' @ CHR 0x0A # []"
    by (simp_all add: output_line_def)
  have nil: "scan_lines [] = []" by (subst scan_lines.simps) simp
  note lines = scan_lines_Cons [of "''[0.1,\"o\",\"hi\"]''" "[]"] scan_lines_Cons [of "'',\"hi\"]''" "[]"] scan_lines_last [of "''[0.1,\"o\"''"]
  show ?thesis unfolding Let_def cut unfolding line parseAsciicastData_def using lines
    by (simp add: maxScannerBufSize_def drop_cr_def asciicast_line_def entry_word_def str_word_def nil)
qed

end
