(* ===== verification/Injection_Queue.thy ===== *)
theory Injection_Queue
  imports Session_Store Event_Bus "HOL-Library.Sublist"
begin

text \<open>
  \<open>internal/server/session/injection_queue.go\<close> and the audit table of \<open>store/injections.go\<close>:
  text that is queued for a running session and sent to its agent.

  A queue is a pointer into \<open>iq_heap\<close>. The goroutine that drains it is an entry of
  \<open>iq_drainers\<close> with the point it has reached: waiting in its select, waiting for the delay of
  an item, or returned and about to remove the queue from the table. \<open>Enqueue\<close> releases the
  lock between finding the queue and sending on its channel, so these are two operations.
  \<open>sq_accepted\<close>, \<open>sq_handled\<close> and \<open>sq_sent\<close> are ghost state: the items accepted into a queue,
  those the drainer took out of it, and those it sent to the agent.
\<close>

section \<open>The audit table\<close>

record Injection =
  ij_InjectionID :: string
  ij_SessionID :: string
  ij_UserID :: string
  ij_TextLength :: int
  ij_Metadata :: "string option"
  ij_Source :: string
  ij_CreatedAt :: time
  ij_DeliveredAt :: "time option"

text \<open>\<open>uid\<close> replaces an empty identifier; \<open>users\<close> and \<open>sessions\<close> are the tables it refers to.\<close>

definition CreateInjection :: "string \<Rightarrow> time \<Rightarrow> (string \<Rightarrow> bool) \<Rightarrow> (string \<Rightarrow> bool) \<Rightarrow> Injection \<Rightarrow> Injection list \<Rightarrow>
    store_error + (Injection \<times> Injection list)" where
  "CreateInjection uid now users sessions row0 rows =
     (let i = (if ij_InjectionID row0 = '''' then uid else ij_InjectionID row0);
          row = row0\<lparr>ij_InjectionID := i, ij_CreatedAt := now, ij_DeliveredAt := None,
                    ij_Metadata := (case ij_Metadata row0 of Some m \<Rightarrow> if m = '''' then None else Some m | None \<Rightarrow> None)\<rparr>
      in if i \<in> set (map ij_InjectionID rows) \<or> \<not> sessions (ij_SessionID row0) \<or> \<not> users (ij_UserID row0) then Inl ErrConstraint
         else Inr (row, rows @ [row]))"

definition UpdateInjectionDelivered :: "string \<Rightarrow> time \<Rightarrow> Injection list \<Rightarrow> store_error + Injection list" where
  "UpdateInjectionDelivered i deliveredAt rows =
     (if i \<notin> set (map ij_InjectionID rows) then Inl ErrNotFound
      else Inr (map (\<lambda>r. if ij_InjectionID r = i then r\<lparr>ij_DeliveredAt := Some deliveredAt\<rparr> else r) rows))"

definition ListInjectionsBySession :: "string \<Rightarrow> Injection list \<Rightarrow> Injection list" where
  "ListInjectionsBySession sessionID rows =
     sort_key (\<lambda>r. - ij_CreatedAt r) (filter (\<lambda>r. ij_SessionID r = sessionID) rows)"

text \<open>\<open>set_reason\<close> is \<open>json_set\<close> on the field \<open>failure_reason\<close>.\<close>

definition UpdateInjectionFailed :: "(string \<Rightarrow> string \<Rightarrow> string) \<Rightarrow> string \<Rightarrow> string \<Rightarrow> Injection list \<Rightarrow> Injection list" where
  "UpdateInjectionFailed set_reason i reason rows =
     map (\<lambda>r. if ij_InjectionID r = i
              then r\<lparr>ij_DeliveredAt := None,
                     ij_Metadata := Some (set_reason (case ij_Metadata r of None \<Rightarrow> ''{}'' | Some m \<Rightarrow> m) reason)\<rparr>
              else r) rows"

section \<open>The queue\<close>

definition defaultQueueCapacity :: nat where "defaultQueueCapacity = 32"

text \<open>Five minutes in nanoseconds.\<close>

definition defaultStaleThreshold :: time where "defaultStaleThreshold = 300 * 1000000000"

record queueItem =
  qi_InjectionID :: string
  qi_Data :: string
  qi_DelayMs :: int
  qi_QueuedAt :: time

record sessionQueue =
  sq_items :: "queueItem list"
  sq_done :: bool
  sq_machineID :: string
  sq_accepted :: "queueItem list"
  sq_handled :: "queueItem list"
  sq_sent :: "queueItem list"

datatype drainer_pc = Selecting | Delaying queueItem | Returning

record InjectionQueue =
  iq_heap :: "(nat, sessionQueue) fmap"
  iq_queues :: "(string, nat) fmap"
  iq_drainers :: "(nat, string \<times> drainer_pc) fmap"
  iq_connMgr :: ConnectionManager
  iq_sessions :: "Session list"
  iq_audit :: "Injection list"
  iq_sends :: "(string \<times> string \<times> string) list"

record inj_env =
  jv_now :: time
  jv_getSession :: bool
  jv_audit :: bool
  jv_accepts :: bool
  jv_reason :: "string \<Rightarrow> string \<Rightarrow> string"

datatype enqueue_error = CheckSessionStatus store_error | ErrSessionNotRunning | ErrQueueFull

definition NewInjectionQueue :: "ConnectionManager \<Rightarrow> Session list \<Rightarrow> Injection list \<Rightarrow> InjectionQueue" where
  "NewInjectionQueue cm sessions audit =
     \<lparr>iq_heap = fmempty, iq_queues = fmempty, iq_drainers = fmempty, iq_connMgr = cm, iq_sessions = sessions,
      iq_audit = audit, iq_sends = []\<rparr>"

definition isTerminalStatus :: "string \<Rightarrow> bool" where
  "isTerminalStatus status \<longleftrightarrow> status = StatusCompleted \<or> status = StatusFailed \<or> status = StatusTerminated"

definition iq_getSession :: "inj_env \<Rightarrow> string \<Rightarrow> InjectionQueue \<Rightarrow> store_error + Session" where
  "iq_getSession env sessionID q = (if jv_getSession env then GetSession sessionID (iq_sessions q) else Inl ErrUnavailable)"

text \<open>\<open>getOrCreateQueue\<close>; a new queue is allocated at \<open>k\<close> and its drainer starts.\<close>

definition getOrCreateQueue :: "nat \<Rightarrow> string \<Rightarrow> string \<Rightarrow> InjectionQueue \<Rightarrow> nat \<times> InjectionQueue" where
  "getOrCreateQueue k sessionID machineID q =
     (case fmlookup (iq_queues q) sessionID of
        Some sq \<Rightarrow> (sq, q)
      | None \<Rightarrow>
          (k, q\<lparr>iq_heap := fmupd k \<lparr>sq_items = [], sq_done = False, sq_machineID = machineID, sq_accepted = [],
                                     sq_handled = [], sq_sent = []\<rparr> (iq_heap q),
                iq_queues := fmupd sessionID k (iq_queues q),
                iq_drainers := fmupd k (sessionID, Selecting) (iq_drainers q)\<rparr>))"

text \<open>The first part of \<open>Enqueue\<close>: the checks, and the queue the item will be sent on.\<close>

definition enqueue_find :: "inj_env \<Rightarrow> nat \<Rightarrow> string \<Rightarrow> string \<Rightarrow> InjectionQueue \<Rightarrow> (enqueue_error + nat) \<times> InjectionQueue" where
  "enqueue_find env k sessionID machineID q =
     (case iq_getSession env sessionID q of
        Inl e \<Rightarrow> (Inl (CheckSessionStatus e), q)
      | Inr sess \<Rightarrow>
          if isTerminalStatus (sn_Status sess) then (Inl ErrSessionNotRunning, q)
          else (case getOrCreateQueue k sessionID machineID q of (sq, q) \<Rightarrow> (Inr sq, q)))"

definition sq_upd :: "nat \<Rightarrow> (sessionQueue \<Rightarrow> sessionQueue) \<Rightarrow> InjectionQueue \<Rightarrow> InjectionQueue" where
  "sq_upd k f q = (case fmlookup (iq_heap q) k of None \<Rightarrow> q | Some sq \<Rightarrow> q\<lparr>iq_heap := fmupd k (f sq) (iq_heap q)\<rparr>)"

text \<open>The second part: the send that does not wait.\<close>

definition enqueue_send :: "nat \<Rightarrow> queueItem \<Rightarrow> InjectionQueue \<Rightarrow> (enqueue_error + unit) \<times> InjectionQueue" where
  "enqueue_send k item q =
     (case fmlookup (iq_heap q) k of
        None \<Rightarrow> (Inl ErrQueueFull, q)
      | Some sq \<Rightarrow>
          if length (sq_items sq) < defaultQueueCapacity
          then (Inr (), sq_upd k (\<lambda>sq. sq\<lparr>sq_items := sq_items sq @ [item], sq_accepted := sq_accepted sq @ [item]\<rparr>) q)
          else (Inl ErrQueueFull, q))"

definition Enqueue :: "inj_env \<Rightarrow> nat \<Rightarrow> string \<Rightarrow> string \<Rightarrow> string \<Rightarrow> int \<Rightarrow> string \<Rightarrow> InjectionQueue \<Rightarrow>
    (enqueue_error + unit) \<times> InjectionQueue" where
  "Enqueue env k sessionID machineID data delayMs injectionID q =
     (case enqueue_find env k sessionID machineID q of
        (Inl e, q) \<Rightarrow> (Inl e, q)
      | (Inr sq, q) \<Rightarrow>
          enqueue_send sq \<lparr>qi_InjectionID = injectionID, qi_Data = data, qi_DelayMs = delayMs, qi_QueuedAt = jv_now env\<rparr> q)"

section \<open>The drainer\<close>

definition mark_failed :: "inj_env \<Rightarrow> string \<Rightarrow> string \<Rightarrow> InjectionQueue \<Rightarrow> InjectionQueue" where
  "mark_failed env injectionID reason q =
     (if jv_audit env then q\<lparr>iq_audit := UpdateInjectionFailed (jv_reason env) injectionID reason (iq_audit q)\<rparr> else q)"

text \<open>The end of \<open>processItem\<close>: the item is sent to the agent and recorded as delivered.\<close>

definition deliver :: "inj_env \<Rightarrow> nat \<Rightarrow> string \<Rightarrow> string \<Rightarrow> queueItem \<Rightarrow> InjectionQueue \<Rightarrow> InjectionQueue" where
  "deliver env k sessionID machineID item q =
     (case GetAgent machineID (iq_connMgr q) of
        None \<Rightarrow> q
      | Some _ \<Rightarrow>
          if \<not> jv_accepts env then q
          else let q = (sq_upd k (\<lambda>sq. sq\<lparr>sq_sent := sq_sent sq @ [item]\<rparr>) q)\<lparr>iq_sends := iq_sends q @ [(machineID, sessionID, qi_Data item)]\<rparr>
               in case (if jv_audit env then UpdateInjectionDelivered (qi_InjectionID item) (jv_now env) (iq_audit q) else Inl ErrUnavailable) of
                    Inl _ \<Rightarrow> q | Inr rows \<Rightarrow> q\<lparr>iq_audit := rows\<rparr>)"

text \<open>\<open>processItem\<close> up to its delay: the point the drainer has then reached.\<close>

definition process_start :: "inj_env \<Rightarrow> nat \<Rightarrow> string \<Rightarrow> string \<Rightarrow> queueItem \<Rightarrow> InjectionQueue \<Rightarrow> drainer_pc \<times> InjectionQueue" where
  "process_start env k sessionID machineID item q =
     (if jv_now env - qi_QueuedAt item > defaultStaleThreshold then (Selecting, q)
      else case iq_getSession env sessionID q of
             Inl _ \<Rightarrow> (Selecting, q)
           | Inr sess \<Rightarrow>
               if isTerminalStatus (sn_Status sess) then (Selecting, mark_failed env (qi_InjectionID item) ''session terminated'' q)
               else if qi_DelayMs item > 0 then (Delaying item, q)
               else (Selecting, deliver env k sessionID machineID item q))"

definition set_pc :: "nat \<Rightarrow> string \<Rightarrow> drainer_pc \<Rightarrow> InjectionQueue \<Rightarrow> InjectionQueue" where
  "set_pc k sessionID pc q = q\<lparr>iq_drainers := fmupd k (sessionID, pc) (iq_drainers q)\<rparr>"

text \<open>The drainer receives an item.\<close>

definition drain_item :: "inj_env \<Rightarrow> nat \<Rightarrow> string \<Rightarrow> sessionQueue \<Rightarrow> queueItem \<Rightarrow> queueItem list \<Rightarrow> InjectionQueue \<Rightarrow> InjectionQueue" where
  "drain_item env k sessionID sq item rest q =
     (case process_start env k sessionID (sq_machineID sq) item
             (sq_upd k (\<lambda>sq. sq\<lparr>sq_items := rest, sq_handled := sq_handled sq @ [item]\<rparr>) q) of
        (pc, q) \<Rightarrow> set_pc k sessionID pc q)"

text \<open>The delay elapses, or the queue is shut down during it.\<close>

definition delay_elapsed :: "inj_env \<Rightarrow> nat \<Rightarrow> string \<Rightarrow> sessionQueue \<Rightarrow> queueItem \<Rightarrow> InjectionQueue \<Rightarrow> InjectionQueue" where
  "delay_elapsed env k sessionID sq item q = set_pc k sessionID Selecting (deliver env k sessionID (sq_machineID sq) item q)"

definition delay_done :: "inj_env \<Rightarrow> nat \<Rightarrow> string \<Rightarrow> queueItem \<Rightarrow> InjectionQueue \<Rightarrow> InjectionQueue" where
  "delay_done env k sessionID item q =
     set_pc k sessionID Selecting (mark_failed env (qi_InjectionID item) ''queue shutdown'' q)"

text \<open>\<open>drainRemaining\<close>, after which the drainer returns; it also returns when it is idle.\<close>

definition drainRemaining :: "inj_env \<Rightarrow> nat \<Rightarrow> string \<Rightarrow> sessionQueue \<Rightarrow> InjectionQueue \<Rightarrow> InjectionQueue" where
  "drainRemaining env k sessionID sq q =
     set_pc k sessionID Returning
       (fold (\<lambda>item. mark_failed env (qi_InjectionID item) ''queue shutdown'') (sq_items sq)
         (sq_upd k (\<lambda>sq. sq\<lparr>sq_items := [], sq_handled := sq_handled sq @ sq_items sq\<rparr>) q))"

definition idle_return :: "nat \<Rightarrow> string \<Rightarrow> InjectionQueue \<Rightarrow> InjectionQueue" where
  "idle_return k sessionID q = set_pc k sessionID Returning q"

definition removeQueue :: "nat \<Rightarrow> string \<Rightarrow> InjectionQueue \<Rightarrow> InjectionQueue" where
  "removeQueue k sessionID q = q\<lparr>iq_queues := fmdrop sessionID (iq_queues q), iq_drainers := fmdrop k (iq_drainers q)\<rparr>"

section \<open>Shutting down\<close>

definition close_done :: "nat \<Rightarrow> InjectionQueue \<Rightarrow> InjectionQueue" where
  "close_done k q = sq_upd k (\<lambda>sq. sq\<lparr>sq_done := True\<rparr>) q"

definition handleSessionEvent :: "Event \<Rightarrow> InjectionQueue \<Rightarrow> InjectionQueue" where
  "handleSessionEvent evt q =
     (if ev_Type evt \<noteq> ''session.exited'' \<and> ev_Type evt \<noteq> ''session.terminated'' then q
      else case fmlookup (ev_Payload evt) ''session_id'' of
             Some (VString sessionID) \<Rightarrow>
               if sessionID = '''' then q
               else (case fmlookup (iq_queues q) sessionID of None \<Rightarrow> q | Some k \<Rightarrow> close_done k q)
           | _ \<Rightarrow> q)"

text \<open>\<open>Close\<close>, with the order in which it visits the queues; it then waits for the drainers.\<close>

definition iq_Close :: "string list \<Rightarrow> InjectionQueue \<Rightarrow> InjectionQueue" where
  "iq_Close order q = fold close_done (List.map_filter (fmlookup (iq_queues q)) order) q"

section \<open>Concurrent use\<close>

text \<open>\<open>js_puts\<close>: requests that have found their queue and are about to send on it.\<close>

record inj_sys =
  js_q :: InjectionQueue
  js_puts :: "(nat \<times> queueItem) list"

definition inj_init :: "inj_sys \<Rightarrow> bool" where
  "inj_init s \<longleftrightarrow> (\<exists>cm sessions audit. s = \<lparr>js_q = NewInjectionQueue cm sessions audit, js_puts = []\<rparr>)"

inductive inj_step :: "inj_sys \<Rightarrow> inj_sys \<Rightarrow> bool" where
  in_find: "fmlookup (iq_heap (js_q s)) k = None \<Longrightarrow> enqueue_find env k sid m (js_q s) = (Inr k', q) \<Longrightarrow>
    inj_step s \<lparr>js_q = q, js_puts = (k', item) # js_puts s\<rparr>"
| in_send: "(k, item) \<in> set (js_puts s) \<Longrightarrow> enqueue_send k item (js_q s) = (r, q) \<Longrightarrow>
    inj_step s \<lparr>js_q = q, js_puts = remove1 (k, item) (js_puts s)\<rparr>"
| in_item: "fmlookup (iq_drainers (js_q s)) k = Some (sid, Selecting) \<Longrightarrow> fmlookup (iq_heap (js_q s)) k = Some sq \<Longrightarrow>
    sq_items sq = item # rest \<Longrightarrow> inj_step s (s\<lparr>js_q := drain_item env k sid sq item rest (js_q s)\<rparr>)"
| in_elapsed: "fmlookup (iq_drainers (js_q s)) k = Some (sid, Delaying item) \<Longrightarrow> fmlookup (iq_heap (js_q s)) k = Some sq \<Longrightarrow>
    inj_step s (s\<lparr>js_q := delay_elapsed env k sid sq item (js_q s)\<rparr>)"
| in_delay_done: "fmlookup (iq_drainers (js_q s)) k = Some (sid, Delaying item) \<Longrightarrow> fmlookup (iq_heap (js_q s)) k = Some sq \<Longrightarrow>
    sq_done sq \<Longrightarrow> inj_step s (s\<lparr>js_q := delay_done env k sid item (js_q s)\<rparr>)"
| in_drain: "fmlookup (iq_drainers (js_q s)) k = Some (sid, Selecting) \<Longrightarrow> fmlookup (iq_heap (js_q s)) k = Some sq \<Longrightarrow>
    sq_done sq \<Longrightarrow> inj_step s (s\<lparr>js_q := drainRemaining env k sid sq (js_q s)\<rparr>)"
| in_idle: "fmlookup (iq_drainers (js_q s)) k = Some (sid, Selecting) \<Longrightarrow> fmlookup (iq_heap (js_q s)) k = Some sq \<Longrightarrow>
    sq_items sq = [] \<Longrightarrow> inj_step s (s\<lparr>js_q := idle_return k sid (js_q s)\<rparr>)"
| in_remove: "fmlookup (iq_drainers (js_q s)) k = Some (sid, Returning) \<Longrightarrow>
    inj_step s (s\<lparr>js_q := removeQueue k sid (js_q s)\<rparr>)"
| in_event: "inj_step s (s\<lparr>js_q := handleSessionEvent evt (js_q s)\<rparr>)"
| in_close: "enumerates order (iq_queues (js_q s)) \<Longrightarrow> inj_step s (s\<lparr>js_q := iq_Close order (js_q s)\<rparr>)"
| in_world: "inj_step s (s\<lparr>js_q := (js_q s)\<lparr>iq_connMgr := cm, iq_sessions := rows\<rparr>\<rparr>)"

text \<open>What is in progress of an item that was taken from the queue but not finished.\<close>

definition finished :: "drainer_pc option \<Rightarrow> queueItem list \<Rightarrow> queueItem list" where
  "finished pc handled = (case pc of Some (Delaying item) \<Rightarrow> butlast handled | _ \<Rightarrow> handled)"

definition queue_ok :: "(nat, string \<times> drainer_pc) fmap \<Rightarrow> nat \<Rightarrow> sessionQueue \<Rightarrow> bool" where
  "queue_ok drainers k sq \<longleftrightarrow> sq_accepted sq = sq_handled sq @ sq_items sq \<and> length (sq_items sq) \<le> defaultQueueCapacity \<and>
     subseq (sq_sent sq) (finished (map_option snd (fmlookup drainers k)) (sq_handled sq)) \<and>
     (\<forall>sid item. fmlookup drainers k = Some (sid, Delaying item) \<longrightarrow> sq_handled sq \<noteq> [] \<and> last (sq_handled sq) = item)"

definition table_agrees :: "(string, nat) fmap \<Rightarrow> (nat, string \<times> drainer_pc) fmap \<Rightarrow> bool" where
  "table_agrees queues drainers \<longleftrightarrow> (\<forall>sid k. fmlookup queues sid = Some k \<longleftrightarrow> (\<exists>pc. fmlookup drainers k = Some (sid, pc)))"

definition inj_inv :: "inj_sys \<Rightarrow> bool" where
  "inj_inv s \<longleftrightarrow> table_agrees (iq_queues (js_q s)) (iq_drainers (js_q s)) \<and>
     (\<forall>k. fmlookup (iq_drainers (js_q s)) k \<noteq> None \<longrightarrow> fmlookup (iq_heap (js_q s)) k \<noteq> None) \<and>
     (\<forall>k item. (k, item) \<in> set (js_puts s) \<longrightarrow> fmlookup (iq_heap (js_q s)) k \<noteq> None) \<and>
     (\<forall>k sq. fmlookup (iq_heap (js_q s)) k = Some sq \<longrightarrow> queue_ok (iq_drainers (js_q s)) k sq)"

lemma finished_simps [simp]:
  "finished None h = h" "finished (Some Selecting) h = h" "finished (Some Returning) h = h"
  "finished (Some (Delaying i)) (h @ [j]) = h"
  by (simp_all add: finished_def)

text \<open>Operations that only touch the audit table and what was sent.\<close>

lemma mark_failed_frame [simp]:
  "iq_heap (mark_failed env i r q) = iq_heap q" "iq_queues (mark_failed env i r q) = iq_queues q"
  "iq_drainers (mark_failed env i r q) = iq_drainers q"
  by (simp_all add: mark_failed_def)

lemma fold_mark_failed_frame [simp]:
  "iq_heap (fold (\<lambda>x. mark_failed env (f x) r) xs q) = iq_heap q" "iq_queues (fold (\<lambda>x. mark_failed env (f x) r) xs q) = iq_queues q"
  "iq_drainers (fold (\<lambda>x. mark_failed env (f x) r) xs q) = iq_drainers q"
  by (induction xs arbitrary: q) simp_all

lemma sq_upd_frame [simp]:
  "iq_queues (sq_upd k f q) = iq_queues q" "iq_drainers (sq_upd k f q) = iq_drainers q"
  "fmlookup (iq_heap (sq_upd k f q)) j = (if j = k then map_option f (fmlookup (iq_heap q) k) else fmlookup (iq_heap q) j)"
  by (auto simp: sq_upd_def split: option.splits)

lemma deliver_frame [simp]:
  "iq_queues (deliver env k sid m item q) = iq_queues q" "iq_drainers (deliver env k sid m item q) = iq_drainers q"
  "j \<noteq> k \<Longrightarrow> fmlookup (iq_heap (deliver env k sid m item q)) j = fmlookup (iq_heap q) j"
  by (auto simp: deliver_def Let_def split: option.splits sum.splits)

lemma deliver_heap:
  "fmlookup (iq_heap q) k = Some sq \<Longrightarrow>
   fmlookup (iq_heap (deliver env k sid m item q)) k = Some sq \<or>
   fmlookup (iq_heap (deliver env k sid m item q)) k = Some (sq\<lparr>sq_sent := sq_sent sq @ [item]\<rparr>)"
  by (auto simp: deliver_def Let_def split: option.splits sum.splits)

lemma queue_ok_local: "fmlookup ds' k = fmlookup ds k \<Longrightarrow> queue_ok ds' k sq = queue_ok ds k sq"
  by (simp add: queue_ok_def)

text \<open>A drainer moves on, and only its own queue changes.\<close>

lemma drainer_moves:
  assumes inv: "inj_inv s" and d: "fmlookup (iq_drainers (js_q s)) k = Some (sid, pc)"
    and q': "iq_queues q' = iq_queues (js_q s)" "iq_drainers q' = fmupd k (sid, pc') (iq_drainers (js_q s))"
      "\<And>j. j \<noteq> k \<Longrightarrow> fmlookup (iq_heap q') j = fmlookup (iq_heap (js_q s)) j" "fmlookup (iq_heap q') k = Some sq'"
    and ok: "queue_ok (fmupd k (sid, pc') fmempty) k sq'"
  shows "inj_inv (s\<lparr>js_q := q'\<rparr>)"
proof -
  have "queue_ok (iq_drainers q') j sq" if "fmlookup (iq_heap q') j = Some sq" for j sq
  proof (cases "j = k")
    case True
    then show ?thesis using that q'(2,4) ok queue_ok_local [of "iq_drainers q'" k "fmupd k (sid, pc') fmempty"] by simp
  next
    case False
    then have "queue_ok (iq_drainers (js_q s)) j sq" using inv that q'(3) by (simp add: inj_inv_def)
    then show ?thesis using False q'(2) queue_ok_local [of "iq_drainers q'" j "iq_drainers (js_q s)"] by simp
  qed
  moreover have "table_agrees (iq_queues q') (iq_drainers q')" using inv d q'(1,2) by (auto simp: inj_inv_def table_agrees_def)
  moreover have "fmlookup (iq_heap q') j \<noteq> None" if "fmlookup (iq_heap (js_q s)) j \<noteq> None" for j using that q'(3,4) by (cases "j = k") auto
  ultimately show ?thesis using inv q'(2,4) unfolding inj_inv_def by (auto split: if_splits)
qed

lemma inj_invD:
  assumes "inj_inv s"
  shows "fmlookup (iq_heap (js_q s)) k = Some sq \<Longrightarrow> queue_ok (iq_drainers (js_q s)) k sq"
    and "table_agrees (iq_queues (js_q s)) (iq_drainers (js_q s))"
    and "fmlookup (iq_drainers (js_q s)) k \<noteq> None \<Longrightarrow> fmlookup (iq_heap (js_q s)) k \<noteq> None"
    and "(k, item) \<in> set (js_puts s) \<Longrightarrow> fmlookup (iq_heap (js_q s)) k \<noteq> None"
  using assms unfolding inj_inv_def by blast+

lemma subseq_snoc: "subseq xs ys \<Longrightarrow> subseq xs (ys @ [y])" "subseq xs ys \<Longrightarrow> subseq (xs @ [y]) (ys @ [y])"
  using list_emb_append_mono [of "(=)" xs ys "[]" "[y]"] list_emb_append_mono [of "(=)" xs ys "[y]" "[y]"] by simp_all

lemma drain_item_inv:
  assumes inv: "inj_inv s" and d: "fmlookup (iq_drainers (js_q s)) k = Some (sid, Selecting)"
    and sq: "fmlookup (iq_heap (js_q s)) k = Some sq" "sq_items sq = item # rest"
  shows "inj_inv (s\<lparr>js_q := drain_item env k sid sq item rest (js_q s)\<rparr>)"
proof -
  let ?sq = "sq\<lparr>sq_items := rest, sq_handled := sq_handled sq @ [item]\<rparr>"
  let ?q = "sq_upd k (\<lambda>sq. sq\<lparr>sq_items := rest, sq_handled := sq_handled sq @ [item]\<rparr>) (js_q s)"
  have ok: "queue_ok (iq_drainers (js_q s)) k sq" using inj_invD(1) [OF inv sq(1)] .
  then have base: "sq_accepted sq = sq_handled sq @ item # rest" "length rest \<le> defaultQueueCapacity" "subseq (sq_sent sq) (sq_handled sq)"
    using sq(2) d by (auto simp: queue_ok_def)
  obtain pc q1 where p: "process_start env k sid (sq_machineID sq) item ?q = (pc, q1)" by fastforce
  have q1: "iq_queues q1 = iq_queues (js_q s)" "iq_drainers q1 = iq_drainers (js_q s)"
    "\<And>j. j \<noteq> k \<Longrightarrow> fmlookup (iq_heap q1) j = fmlookup (iq_heap (js_q s)) j"
    using p by (auto simp: process_start_def split: if_splits sum.splits)
  have "\<exists>sq'. fmlookup (iq_heap q1) k = Some sq' \<and> queue_ok (fmupd k (sid, pc) fmempty) k sq'"
  proof (cases "q1 = deliver env k sid (sq_machineID sq) item ?q \<and> pc = Selecting")
    case True
    have "fmlookup (iq_heap ?q) k = Some ?sq" using sq(1) by simp
    from deliver_heap [OF this, of env sid "sq_machineID sq" item] show ?thesis
      using True base by (auto simp: queue_ok_def subseq_snoc)
  next
    case False
    then have "fmlookup (iq_heap q1) k = Some ?sq" "pc = Selecting \<or> pc = Delaying item"
      using p sq(1) by (auto simp: process_start_def split: if_splits sum.splits)
    then show ?thesis using base by (auto simp: queue_ok_def subseq_snoc)
  qed
  then obtain sq' where sq': "fmlookup (iq_heap q1) k = Some sq'" "queue_ok (fmupd k (sid, pc) fmempty) k sq'" by blast
  show ?thesis
    by (rule drainer_moves [OF inv d, where pc' = pc and sq' = sq']) (use p q1 sq' in \<open>simp_all add: drain_item_def set_pc_def\<close>)
qed

lemma delay_inv:
  assumes inv: "inj_inv s" and d: "fmlookup (iq_drainers (js_q s)) k = Some (sid, Delaying item)"
    and sq: "fmlookup (iq_heap (js_q s)) k = Some sq"
  shows "inj_inv (s\<lparr>js_q := delay_elapsed env k sid sq item (js_q s)\<rparr>)" and "inj_inv (s\<lparr>js_q := delay_done env k sid item (js_q s)\<rparr>)"
proof -
  have ok: "queue_ok (iq_drainers (js_q s)) k sq" using inj_invD(1) [OF inv sq] .
  then obtain h where h: "sq_handled sq = h @ [item]" using d unfolding queue_ok_def by (metis append_butlast_last_id)
  then have base: "sq_accepted sq = (h @ [item]) @ sq_items sq" "length (sq_items sq) \<le> defaultQueueCapacity" "subseq (sq_sent sq) h"
    using ok d by (auto simp: queue_ok_def)
  obtain sq' where sq': "fmlookup (iq_heap (deliver env k sid (sq_machineID sq) item (js_q s))) k = Some sq'"
    "queue_ok (fmupd k (sid, Selecting) fmempty) k sq'"
    using deliver_heap [OF sq, of env sid "sq_machineID sq" item] base h by (auto simp: queue_ok_def subseq_snoc)
  show "inj_inv (s\<lparr>js_q := delay_elapsed env k sid sq item (js_q s)\<rparr>)"
    by (rule drainer_moves [OF inv d, where pc' = Selecting and sq' = sq']) (use sq' in \<open>simp_all add: delay_elapsed_def set_pc_def\<close>)
  have "queue_ok (fmupd k (sid, Selecting) fmempty) k sq" using base h by (simp add: queue_ok_def subseq_snoc)
  then show "inj_inv (s\<lparr>js_q := delay_done env k sid item (js_q s)\<rparr>)"
    by (intro drainer_moves [OF inv d, where pc' = Selecting and sq' = sq]) (use sq in \<open>simp_all add: delay_done_def set_pc_def\<close>)
qed

lemma return_inv:
  assumes inv: "inj_inv s" and d: "fmlookup (iq_drainers (js_q s)) k = Some (sid, Selecting)"
    and sq: "fmlookup (iq_heap (js_q s)) k = Some sq"
  shows "inj_inv (s\<lparr>js_q := drainRemaining env k sid sq (js_q s)\<rparr>)" and "inj_inv (s\<lparr>js_q := idle_return k sid (js_q s)\<rparr>)"
proof -
  let ?sq = "sq\<lparr>sq_items := [], sq_handled := sq_handled sq @ sq_items sq\<rparr>"
  have ok: "sq_accepted sq = sq_handled sq @ sq_items sq" "subseq (sq_sent sq) (sq_handled sq)" "length (sq_items sq) \<le> defaultQueueCapacity"
    using inj_invD(1) [OF inv sq] d by (auto simp: queue_ok_def)
  have "subseq (sq_sent sq) (sq_handled sq @ sq_items sq)" using ok(2) by (metis list_emb_append_mono list_emb_Nil append.right_neutral)
  then have "queue_ok (fmupd k (sid, Returning) fmempty) k ?sq" using ok by (simp add: queue_ok_def)
  then show "inj_inv (s\<lparr>js_q := drainRemaining env k sid sq (js_q s)\<rparr>)"
    by (intro drainer_moves [OF inv d, where pc' = Returning and sq' = ?sq]) (use sq in \<open>simp_all add: drainRemaining_def set_pc_def\<close>)
  have "queue_ok (fmupd k (sid, Returning) fmempty) k sq" using ok by (simp add: queue_ok_def)
  then show "inj_inv (s\<lparr>js_q := idle_return k sid (js_q s)\<rparr>)"
    by (intro drainer_moves [OF inv d, where pc' = Returning and sq' = sq]) (use sq in \<open>simp_all add: idle_return_def set_pc_def\<close>)
qed

lemma close_done_inv: "inj_inv s \<Longrightarrow> inj_inv (s\<lparr>js_q := close_done k (js_q s)\<rparr>)"
  unfolding inj_inv_def close_done_def queue_ok_def by (auto split: if_splits)

lemma close_fold_inv: "inj_inv s \<Longrightarrow> inj_inv (s\<lparr>js_q := fold close_done ks (js_q s)\<rparr>)"
proof (induction ks arbitrary: s)
  case (Cons k ks)
  then show ?case using Cons.IH [OF close_done_inv [OF Cons.prems, of k]] by simp
qed simp

lemma event_inv: "inj_inv s \<Longrightarrow> inj_inv (s\<lparr>js_q := handleSessionEvent evt (js_q s)\<rparr>)"
  by (auto simp: handleSessionEvent_def close_done_inv split: option.splits any.splits)

lemma remove_inv:
  assumes inv: "inj_inv s" and d: "fmlookup (iq_drainers (js_q s)) k = Some (sid, Returning)"
  shows "inj_inv (s\<lparr>js_q := removeQueue k sid (js_q s)\<rparr>)"
proof -
  let ?ds = "iq_drainers (js_q s)"
  have "queue_ok (fmdrop k ?ds) j sq" if "queue_ok ?ds j sq" for j sq
    using that d queue_ok_local [of "fmdrop k ?ds" j ?ds] by (cases "j = k") (auto simp: queue_ok_def)
  moreover have "table_agrees (fmdrop sid (iq_queues (js_q s))) (fmdrop k ?ds)"
    using inj_invD(2) [OF inv] d unfolding table_agrees_def by (auto; metis fst_conv option.inject prod.inject)
  ultimately show ?thesis using inv by (auto simp: inj_inv_def removeQueue_def split: if_splits)
qed

lemma find_inv:
  assumes inv: "inj_inv s" and k: "fmlookup (iq_heap (js_q s)) k = None" and f: "enqueue_find env k sid m (js_q s) = (Inr k', q)"
  shows "inj_inv \<lparr>js_q = q, js_puts = (k', item) # js_puts s\<rparr>"
proof (cases "fmlookup (iq_queues (js_q s)) sid")
  case (Some j)
  then have "k' = j" "q = js_q s" using f by (auto simp: enqueue_find_def getOrCreateQueue_def split: sum.splits if_splits)
  moreover have "fmlookup (iq_heap (js_q s)) j \<noteq> None"
    using inj_invD(2,3) [OF inv] Some unfolding table_agrees_def by (metis option.distinct(1))
  ultimately show ?thesis using inv by (auto simp: inj_inv_def)
next
  case None
  let ?q = "js_q s" and ?sq = "\<lparr>sq_items = [], sq_done = False, sq_machineID = m, sq_accepted = [], sq_handled = [], sq_sent = []\<rparr>"
  have q: "k' = k" "q = ?q\<lparr>iq_heap := fmupd k ?sq (iq_heap ?q), iq_queues := fmupd sid k (iq_queues ?q),
      iq_drainers := fmupd k (sid, Selecting) (iq_drainers ?q)\<rparr>"
    using f None by (auto simp: enqueue_find_def getOrCreateQueue_def split: sum.splits if_splits)
  have nd: "fmlookup (iq_drainers ?q) k = None" using inj_invD(3) [OF inv, of k] k by blast
  have "table_agrees (iq_queues q) (iq_drainers q)"
    using inj_invD(2) [OF inv] None nd unfolding table_agrees_def q by (auto split: if_splits) (metis option.distinct(1))
  moreover have "queue_ok (iq_drainers q) j sq" if "fmlookup (iq_heap q) j = Some sq" for j sq
  proof (cases "j = k")
    case True
    then show ?thesis using that by (auto simp: queue_ok_def q)
  next
    case False
    then have "queue_ok (iq_drainers ?q) j sq" using inj_invD(1) [OF inv] that by (simp add: q)
    then show ?thesis using False queue_ok_local [of "iq_drainers q" j "iq_drainers ?q"] by (simp add: q)
  qed
  ultimately show ?thesis using inv unfolding inj_inv_def by (auto simp: q)
qed

lemma send_inv:
  assumes inv: "inj_inv s" and "enqueue_send k item (js_q s) = (r, q)"
  shows "inj_inv \<lparr>js_q = q, js_puts = remove1 p (js_puts s)\<rparr>"
proof -
  let ?f = "\<lambda>sq. sq\<lparr>sq_items := sq_items sq @ [item], sq_accepted := sq_accepted sq @ [item]\<rparr>"
  have "q = js_q s \<or> (\<exists>sq. fmlookup (iq_heap (js_q s)) k = Some sq \<and> length (sq_items sq) < defaultQueueCapacity \<and> q = sq_upd k ?f (js_q s))"
    using assms(2) by (auto simp: enqueue_send_def split: option.splits if_splits)
  moreover have mem: "x \<in> set (js_puts s)" if "x \<in> set (remove1 p (js_puts s))" for x
    using that set_remove1_subset by fastforce
  ultimately show ?thesis
    using inv unfolding inj_inv_def by (elim disjE exE conjE) (auto simp: queue_ok_def split: if_splits dest!: mem)
qed

interpretation injections: invariant_system inj_init inj_step inj_inv
proof
  fix s assume "inj_init s"
  then show "inj_inv s" by (auto simp: inj_init_def inj_inv_def NewInjectionQueue_def table_agrees_def)
next
  fix s t assume inv: "inj_inv s" and "inj_step s t"
  from this(2) show "inj_inv t"
  proof cases
    case (in_close order)
    then show ?thesis using close_fold_inv [OF inv] by (simp add: iq_Close_def)
  next
    case (in_world cm rows)
    then show ?thesis using inv by (simp add: inj_inv_def)
  qed (use inv in \<open>auto intro: find_inv send_inv drain_item_inv delay_inv return_inv remove_inv event_inv\<close>)
qed

text \<open>
  C35. Queued text is sent in the order in which it was accepted and at most once: however
  requests, drainers, timers and shutdowns interleave, the accepted items of a queue are
  those its drainer has taken followed by those that wait, at most 32 of them; what was sent
  to the agent is a subsequence of what was taken; and every queue in the table has a drainer
  of its own, so that no item of a listed queue is stuck.
\<close>

theorem injections_in_order:
  assumes "reachable inj_init inj_step s" and "fmlookup (iq_heap (js_q s)) k = Some sq"
  shows "sq_accepted sq = sq_handled sq @ sq_items sq \<and> length (sq_items sq) \<le> defaultQueueCapacity \<and>
    subseq (sq_sent sq) (sq_handled sq) \<and>
    (fmlookup (iq_queues (js_q s)) sid = Some k \<longleftrightarrow> (\<exists>pc. fmlookup (iq_drainers (js_q s)) k = Some (sid, pc)))"
proof -
  have inv: "inj_inv s" using assms(1) by (rule injections.reachable_inv)
  then have ok: "queue_ok (iq_drainers (js_q s)) k sq" using assms(2) by (rule inj_invD)
  have "subseq (butlast xs) xs" for xs :: "queueItem list" by (metis append_butlast_last_id butlast.simps(1) subseq_order.refl subseq_snoc(1))
  then have "subseq (finished pc (sq_handled sq)) (sq_handled sq)" for pc
    by (auto simp: finished_def split: option.splits drainer_pc.splits)
  then have "subseq (sq_sent sq) (sq_handled sq)" using ok unfolding queue_ok_def by (meson subseq_order.trans)
  then show ?thesis using ok inj_invD(2) [OF inv] by (auto simp: queue_ok_def table_agrees_def)
qed

definition jenv :: inj_env where
  "jenv = \<lparr>jv_now = 9, jv_getSession = True, jv_audit = True, jv_accepts = True, jv_reason = (\<lambda>m r. m)\<rparr>"

definition item_h :: queueItem where "item_h = \<lparr>qi_InjectionID = ''i'', qi_Data = ''hello'', qi_DelayMs = 0, qi_QueuedAt = 9\<rparr>"

definition js0 :: inj_sys where
  "js0 = \<lparr>js_q = NewInjectionQueue (NewConnectionManager fmempty)
     [session0\<lparr>sn_SessionID := ''s'', sn_MachineID := ''m'', sn_Status := StatusRunning\<rparr>] [], js_puts = []\<rparr>"

definition js1 :: inj_sys where
  "js1 = \<lparr>js_q = snd (enqueue_find jenv 0 ''s'' ''m'' (js_q js0)), js_puts = [(0, item_h)]\<rparr>"

definition js2 :: inj_sys where "js2 = \<lparr>js_q = snd (enqueue_send 0 item_h (js_q js1)), js_puts = []\<rparr>"

lemmas js_defs = js0_def js1_def js2_def enqueue_find_def iq_getSession_def jenv_def GetSession_def NewInjectionQueue_def session0_def
  isTerminalStatus_def StatusRunning_def StatusCompleted_def StatusFailed_def StatusTerminated_def getOrCreateQueue_def
  enqueue_send_def sq_upd_def defaultQueueCapacity_def

lemma js1_found: "enqueue_find jenv 0 ''s'' ''m'' (js_q js0) = (Inr 0, js_q js1)"
  by (simp add: js_defs)

lemma js1_step: "inj_step js0 js1"
proof -
  have "inj_step js0 \<lparr>js_q = js_q js1, js_puts = (0, item_h) # js_puts js0\<rparr>"
    by (rule in_find [OF _ js1_found]) (simp add: js0_def NewInjectionQueue_def)
  moreover have "js_puts js0 = []" "js_puts js1 = [(0, item_h)]" by (simp_all add: js0_def js1_def)
  ultimately show ?thesis by (metis inj_sys.surjective old.unit.exhaust)
qed

lemma js2_step: "inj_step js1 js2"
proof -
  obtain r q where rq: "enqueue_send 0 item_h (js_q js1) = (r, q)" by fastforce
  have "inj_step js1 \<lparr>js_q = q, js_puts = remove1 (0, item_h) (js_puts js1)\<rparr>" by (rule in_send [OF _ rq]) (simp add: js1_def)
  then show ?thesis using rq by (simp add: js2_def js1_def)
qed

theorem injections_in_order_witness:
  "\<exists>sq. fmlookup (iq_heap (js_q js2)) 0 = Some sq \<and> sq_accepted sq = sq_handled sq @ [item_h] \<and>
     (\<exists>pc. fmlookup (iq_drainers (js_q js2)) 0 = Some (''s'', pc))"
proof -
  have "inj_init js0" by (auto simp: inj_init_def js0_def)
  then have r: "reachable inj_init inj_step js2" using js1_step js2_step by (blast intro: reachable.intros)
  have "fmlookup (iq_queues (js_q js2)) ''s'' = Some 0" by (simp add: js_defs)
  moreover have "map_option sq_items (fmlookup (iq_heap (js_q js2)) 0) = Some [item_h]" by (simp add: js_defs)
  then obtain sq where sq: "fmlookup (iq_heap (js_q js2)) 0 = Some sq" "sq_items sq = [item_h]" by (cases "fmlookup (iq_heap (js_q js2)) 0") auto
  ultimately show ?thesis using injections_in_order [OF r sq(1), of "''s''"] by auto
qed

text \<open>
  An item that is sent on a queue whose drainer has already decided to return is lost: it was
  accepted, and its audit row stays without delivery time and without a reason.
\<close>

lemma accepted_item_lost:
  assumes "inj_inv s" and "fmlookup (iq_drainers (js_q s)) k = Some (sid, Returning)" and "(k, item) \<in> set (js_puts s)"
    and "fmlookup (iq_heap (js_q s)) k = Some sq" and "sq_items sq = []"
  shows "\<exists>q. enqueue_send k item (js_q s) = (Inr (), q) \<and> iq_audit (removeQueue k sid q) = iq_audit (js_q s) \<and>
    fmlookup (iq_drainers (removeQueue k sid q)) k = None \<and>
    (\<exists>sq'. fmlookup (iq_heap (removeQueue k sid q)) k = Some sq' \<and> sq_items sq' = [item])"
  using assms by (auto simp: enqueue_send_def removeQueue_def sq_upd_def defaultQueueCapacity_def)

end
