(* ===== verification/Session_Handler.thy ===== *)
theory Session_Handler
  imports Injection_Queue Session_Executor
begin

text \<open>
  Requests on sessions (\<open>session/handler.go\<close>), the templates they may use
  (\<open>store/templates.go\<close>) and the reaper of stale sessions (\<open>reaper/reaper.go\<close>).

  A request comes with the claims of its user: \<open>NoAuth\<close> when the handler has no claims getter.
  A response is a value, an error its status code and message. The decoded body is an
  argument, \<open>None\<close> when decoding fails; so are the encodings of JSON columns and which store
  calls and commands succeed.
\<close>

section \<open>Templates\<close>

record SessionTemplate =
  tm_TemplateID :: string
  tm_UserID :: string
  tm_Name :: string
  tm_MachineID :: string
  tm_Description :: string
  tm_Command :: string
  tm_Args :: "string list"
  tm_WorkingDir :: string
  tm_EnvVars :: "(string, string) fmap"
  tm_InitialPrompt :: string
  tm_TerminalRows :: int
  tm_TerminalCols :: int
  tm_Tags :: "string list"
  tm_TimeoutSeconds :: int
  tm_DeletedAt :: "time option"
  tm_CreatedAt :: time
  tm_UpdatedAt :: time

text \<open>The unique key of user and name also counts deleted rows.\<close>

definition name_taken :: "string \<Rightarrow> string \<Rightarrow> SessionTemplate list \<Rightarrow> bool" where
  "name_taken userID name rows \<longleftrightarrow> list_ex (\<lambda>t. tm_UserID t = userID \<and> tm_Name t = name) rows"

definition CreateTemplate :: "string \<Rightarrow> time \<Rightarrow> (string \<Rightarrow> bool) \<Rightarrow> SessionTemplate \<Rightarrow> SessionTemplate list \<Rightarrow>
    store_error + (SessionTemplate \<times> SessionTemplate list)" where
  "CreateTemplate uid now known t rows =
     (let row = t\<lparr>tm_TemplateID := uid, tm_CreatedAt := now, tm_UpdatedAt := now, tm_DeletedAt := None\<rparr>
      in if uid \<in> set (map tm_TemplateID rows) \<or> name_taken (tm_UserID t) (tm_Name t) rows \<or> \<not> known (tm_UserID t)
         then Inl ErrConstraint else Inr (row, rows @ [row]))"

definition GetTemplate :: "string \<Rightarrow> SessionTemplate list \<Rightarrow> store_error + SessionTemplate" where
  "GetTemplate templateID rows =
     (case find (\<lambda>t. tm_TemplateID t = templateID \<and> tm_DeletedAt t = None) rows of
        None \<Rightarrow> Inl ErrNotFound | Some t \<Rightarrow> Inr t)"

definition GetTemplateByName :: "string \<Rightarrow> string \<Rightarrow> SessionTemplate list \<Rightarrow> store_error + SessionTemplate" where
  "GetTemplateByName userID name rows =
     (case find (\<lambda>t. tm_UserID t = userID \<and> tm_Name t = name \<and> tm_DeletedAt t = None) rows of
        None \<Rightarrow> Inl ErrNotFound | Some t \<Rightarrow> Inr t)"

definition UpdateTemplate :: "time \<Rightarrow> string \<Rightarrow> SessionTemplate \<Rightarrow> SessionTemplate list \<Rightarrow> store_error + SessionTemplate list" where
  "UpdateTemplate now templateID t rows =
     (case GetTemplate templateID rows of
        Inl e \<Rightarrow> Inl e
      | Inr old \<Rightarrow>
          if tm_Name t \<noteq> tm_Name old \<and> name_taken (tm_UserID old) (tm_Name t) rows then Inl ErrConstraint
          else Inr (map (\<lambda>r. if tm_TemplateID r = templateID \<and> tm_DeletedAt r = None
                     then t\<lparr>tm_TemplateID := tm_TemplateID r, tm_UserID := tm_UserID r, tm_DeletedAt := None,
                            tm_CreatedAt := tm_CreatedAt r, tm_UpdatedAt := now\<rparr> else r) rows))"

definition DeleteTemplate :: "time \<Rightarrow> string \<Rightarrow> SessionTemplate list \<Rightarrow> store_error + SessionTemplate list" where
  "DeleteTemplate now templateID rows =
     (if \<not> list_ex (\<lambda>r. tm_TemplateID r = templateID \<and> tm_DeletedAt r = None) rows then Inl ErrNotFound
      else Inr (map (\<lambda>r. if tm_TemplateID r = templateID \<and> tm_DeletedAt r = None then r\<lparr>tm_DeletedAt := Some now\<rparr> else r) rows))"

text \<open>The loop that looks for an unused name: \<open>-copy\<close>, \<open>-copy-2\<close> up to \<open>-copy-10\<close>.\<close>

definition clone_names :: "string \<Rightarrow> string list" where
  "clone_names base = (base @ ''-copy'') # map (\<lambda>i. base @ ''-copy-'' @ itoa i) [2..10]"

definition CloneTemplate :: "string \<Rightarrow> time \<Rightarrow> (string \<Rightarrow> bool) \<Rightarrow> string \<Rightarrow> SessionTemplate list \<Rightarrow>
    store_error + (SessionTemplate \<times> SessionTemplate list)" where
  "CloneTemplate uid now known templateID rows =
     (case GetTemplate templateID rows of
        Inl e \<Rightarrow> Inl e
      | Inr original \<Rightarrow>
          (case find (\<lambda>n. \<not> name_taken (tm_UserID original) n rows) (clone_names (tm_Name original)) of
             None \<Rightarrow> Inl ErrConstraint
           | Some cloneName \<Rightarrow> CreateTemplate uid now known (original\<lparr>tm_Name := cloneName\<rparr>) rows))"

section \<open>Requests\<close>

datatype auth = NoAuth | Auth "(string \<times> string) option"

record terminalSize =
  tz_Rows :: int
  tz_Cols :: int

record createSessionRequest =
  cr_MachineID :: string
  cr_Command :: string
  cr_Args :: "string list"
  cr_WorkingDir :: string
  cr_TerminalSize :: "terminalSize option"
  cr_EnvVars :: "(string, string) fmap option"
  cr_InitialPrompt :: string
  cr_Model :: string
  cr_SkipPermissions :: "bool option"
  cr_TemplateID :: string
  cr_TemplateName :: string
  cr_Variables :: "(string, string) fmap"

record injectRequest =
  ir_Text :: string
  ir_Raw :: bool
  ir_DelayMs :: int
  ir_Metadata :: "string option"

datatype session_response =
    SErr nat string
  | SCreated string string string
  | SSession Session
  | SSessions "Session list"
  | STerminated
  | SAccepted string
  | SInjections "Injection list"

record SessionHandler =
  sh_q :: InjectionQueue
  sh_hasQueue :: bool
  sh_templates :: "SessionTemplate list"
  sh_sent :: "(string \<times> ServerCommand) list"
  sh_events :: "Event list"
  sh_publisher :: bool

record session_env =
  hv_inj :: inj_env
  hv_uid :: string
  hv_known :: "string \<Rightarrow> bool"
  hv_accepts :: "ServerCommand \<Rightarrow> bool"
  hv_create :: bool
  hv_update :: bool
  hv_audit :: bool
  hv_list :: bool
  hv_order :: "string list"
  hv_env :: "(string, string) fmap option \<Rightarrow> string"
  hv_args :: "string list \<Rightarrow> string"
  hv_queue :: nat
  hv_runes :: "string \<Rightarrow> int"

abbreviation hv_now :: "session_env \<Rightarrow> time" where "hv_now env \<equiv> jv_now (hv_inj env)"

definition claims_of :: "auth \<Rightarrow> string" where
  "claims_of a = (case a of Auth (Some (u, role)) \<Rightarrow> u | _ \<Rightarrow> '''')"

definition authorizeSession :: "auth \<Rightarrow> Session \<Rightarrow> bool" where
  "authorizeSession a sess =
     (case a of
        NoAuth \<Rightarrow> True
      | Auth None \<Rightarrow> False
      | Auth (Some (u, role)) \<Rightarrow> role = ''admin'' \<or> u = sn_UserID sess)"

definition sh_publishEvent :: "Event \<Rightarrow> SessionHandler \<Rightarrow> SessionHandler" where
  "sh_publishEvent e h = (if sh_publisher h then h\<lparr>sh_events := sh_events h @ [e]\<rparr> else h)"

abbreviation sh_sessions :: "SessionHandler \<Rightarrow> Session list" where "sh_sessions h \<equiv> iq_sessions (sh_q h)"
abbreviation sh_connMgr :: "SessionHandler \<Rightarrow> ConnectionManager" where "sh_connMgr h \<equiv> iq_connMgr (sh_q h)"

definition put_rows :: "Session list \<Rightarrow> SessionHandler \<Rightarrow> SessionHandler" where
  "put_rows rows h = h\<lparr>sh_q := (sh_q h)\<lparr>iq_sessions := rows\<rparr>\<rparr>"

section \<open>Creating a session\<close>

function ReplaceAll :: "string \<Rightarrow> string \<Rightarrow> string \<Rightarrow> string" where
  "ReplaceAll s old new =
     (if old = [] then s
      else case Index s old of
             None \<Rightarrow> s
           | Some i \<Rightarrow> take i s @ new @ ReplaceAll (drop (i + length old) s) old new)"
  by auto
termination
proof (relation "measure (\<lambda>(s, old, new). length s)")
  fix s old new :: string and i
  assume "old \<noteq> []" and i: "Index s old = Some i"
  then obtain b where "s = take i s @ old @ b" using Index_Some by blast
  then have "length s = length (take i s) + length old + length b" by (metis length_append add.assoc)
  then show "((drop (i + length old) s, old, new), (s, old, new)) \<in> measure (\<lambda>(s, old, new). length s)"
    using \<open>old \<noteq> []\<close> by (cases s) auto
qed simp

declare ReplaceAll.simps [simp del]

definition substitute :: "(string, string) fmap \<Rightarrow> string list \<Rightarrow> string \<Rightarrow> string" where
  "substitute vars order prompt = fold (\<lambda>k p. ReplaceAll p (''${'' @ k @ ''}'') (getd '''' vars k)) order prompt"

definition merge_template :: "string list \<Rightarrow> SessionTemplate \<Rightarrow> createSessionRequest \<Rightarrow> createSessionRequest" where
  "merge_template order t req =
     (let req = req\<lparr>
            cr_Command := (if cr_Command req = '''' then tm_Command t else cr_Command req),
            cr_Args := (if cr_Args req = [] \<and> tm_Args t \<noteq> [] then tm_Args t else cr_Args req),
            cr_WorkingDir := (if cr_WorkingDir req = '''' then tm_WorkingDir t else cr_WorkingDir req),
            cr_InitialPrompt := (if cr_InitialPrompt req = '''' then tm_InitialPrompt t else cr_InitialPrompt req),
            cr_EnvVars := (if cr_EnvVars req = None \<and> tm_EnvVars t \<noteq> fmempty then Some (tm_EnvVars t) else cr_EnvVars req),
            cr_TerminalSize := (if cr_TerminalSize req = None \<and> (tm_TerminalRows t > 0 \<or> tm_TerminalCols t > 0)
              then Some \<lparr>tz_Rows = tm_TerminalRows t mod 2 ^ 32, tz_Cols = tm_TerminalCols t mod 2 ^ 32\<rparr> else cr_TerminalSize req)\<rparr>
      in if cr_InitialPrompt req \<noteq> '''' \<and> cr_Variables req \<noteq> fmempty
         then req\<lparr>cr_InitialPrompt := substitute (cr_Variables req) order (cr_InitialPrompt req)\<rparr> else req)"

text \<open>The template a request names, with the check of its owner: \<open>Inr None\<close> when it names none.\<close>

definition find_template :: "auth \<Rightarrow> createSessionRequest \<Rightarrow> SessionHandler \<Rightarrow> session_response + SessionTemplate option" where
  "find_template a req h =
     (if cr_TemplateID req = '''' \<and> cr_TemplateName req = '''' then Inr None
      else case (if cr_TemplateID req \<noteq> '''' then GetTemplate (cr_TemplateID req) (sh_templates h)
                 else GetTemplateByName (claims_of a) (cr_TemplateName req) (sh_templates h)) of
             Inl _ \<Rightarrow> Inl (SErr 404 ''template not found'')
           | Inr t \<Rightarrow>
               (case a of
                  Auth (Some (u, role)) \<Rightarrow>
                    if role \<noteq> ''admin'' \<and> tm_UserID t \<noteq> u then Inl (SErr 404 ''template not found'') else Inr (Some t)
                | _ \<Rightarrow> Inr (Some t)))"

text \<open>The defaults and the flags that are set from fields of the request.\<close>

definition final_args :: "createSessionRequest \<Rightarrow> string list" where
  "final_args req =
     (let args = (if cr_Model req \<noteq> '''' then StripFlagWithValue (cr_Args req) modelFlag @ [modelFlag, cr_Model req] else cr_Args req);
          args = StripFlag args skipFlag
      in if cr_SkipPermissions req = Some True then skipFlag # args else args)"

definition complete_request :: "createSessionRequest \<Rightarrow> createSessionRequest" where
  "complete_request req =
     req\<lparr>cr_Command := (if cr_Command req = '''' then ''claude'' else cr_Command req),
         cr_TerminalSize := (if cr_TerminalSize req = None then Some \<lparr>tz_Rows = 24, tz_Cols = 80\<rparr> else cr_TerminalSize req),
         cr_Args := final_args req\<rparr>"

definition boolToSkipPerms :: "bool option \<Rightarrow> string" where
  "boolToSkipPerms b = (case b of None \<Rightarrow> '''' | Some True \<Rightarrow> ''1'' | Some False \<Rightarrow> ''0'')"

definition new_session :: "session_env \<Rightarrow> auth \<Rightarrow> string \<Rightarrow> createSessionRequest \<Rightarrow> Session" where
  "new_session env a templateID req =
     session0\<lparr>sn_SessionID := hv_uid env, sn_MachineID := cr_MachineID req, sn_UserID := claims_of a, sn_TemplateID := templateID,
       sn_Command := cr_Command req, sn_WorkingDir := cr_WorkingDir req, sn_Status := StatusCreated, sn_Model := cr_Model req,
       sn_SkipPerms := boolToSkipPerms (cr_SkipPermissions req), sn_EnvVars := hv_env env (cr_EnvVars req),
       sn_Args := hv_args env (cr_Args req), sn_InitialPrompt := cr_InitialPrompt req\<rparr>"

definition create_cmd :: "session_env \<Rightarrow> createSessionRequest \<Rightarrow> CreateSessionCmd" where
  "create_cmd env req =
     \<lparr>cc_SessionId = hv_uid env, cc_Command = cr_Command req, cc_Args = cr_Args req, cc_WorkingDir = cr_WorkingDir req,
      cc_EnvVars = (case cr_EnvVars req of None \<Rightarrow> fmempty | Some m \<Rightarrow> m),
      cc_Rows = (case cr_TerminalSize req of None \<Rightarrow> 0 | Some z \<Rightarrow> tz_Rows z),
      cc_Cols = (case cr_TerminalSize req of None \<Rightarrow> 0 | Some z \<Rightarrow> tz_Cols z), cc_InitialPrompt = cr_InitialPrompt req,
      cc_TaskType = '''', cc_KeepAlive = False\<rparr>"

definition sh_setStatus :: "session_env \<Rightarrow> string \<Rightarrow> string \<Rightarrow> SessionHandler \<Rightarrow> SessionHandler" where
  "sh_setStatus env sessionID status h =
     (case (if hv_update env then UpdateSessionStatus (hv_now env) sessionID status (sh_sessions h) else Inl ErrUnavailable) of
        Inl _ \<Rightarrow> h | Inr rows \<Rightarrow> put_rows rows h)"

text \<open>The row, the command and the events of a request that passed its checks.\<close>

definition dispatch_session :: "session_env \<Rightarrow> auth \<Rightarrow> string \<Rightarrow> createSessionRequest \<Rightarrow> SessionHandler \<Rightarrow>
    session_response \<times> SessionHandler" where
  "dispatch_session env a templateID req h =
     (case (if hv_create env
            then CreateSession (hv_now env) (cm_machines (sh_connMgr h)) (hv_known env) (new_session env a templateID req) (sh_sessions h)
            else Inl ErrUnavailable) of
        Inl _ \<Rightarrow> (SErr 500 ''failed to create session'', h)
      | Inr rows \<Rightarrow>
          (let h = put_rows rows h; cmd = CmdCreateSession (create_cmd env req)
           in if hv_accepts env cmd
              then (SCreated (hv_uid env) (cr_MachineID req) (cr_Command req),
                    sh_publishEvent (NewSessionEvent (hv_uid env) (hv_now env) ''session.started'' (hv_uid env) (cr_MachineID req) '''' (cr_Command req))
                      (h\<lparr>sh_sent := sh_sent h @ [(cr_MachineID req, cmd)]\<rparr>))
              else
                let h = sh_setStatus env (hv_uid env) StatusFailed h
                in (SErr 500 ''failed to dispatch session to agent'',
                    sh_publishEvent (NewDispatchFailedEvent (hv_uid env) (hv_now env) (hv_uid env) (cr_MachineID req) '''' ''session dispatch failed'') h)))"

definition sh_CreateSession :: "session_env \<Rightarrow> auth \<Rightarrow> createSessionRequest option \<Rightarrow> SessionHandler \<Rightarrow>
    session_response \<times> SessionHandler" where
  "sh_CreateSession env a body h =
     (case body of
        None \<Rightarrow> (SErr 400 ''invalid request body'', h)
      | Some req \<Rightarrow>
          (case find_template a req h of
             Inl r \<Rightarrow> (r, h)
           | Inr tmpl \<Rightarrow>
               (let templateID = (case tmpl of None \<Rightarrow> '''' | Some t \<Rightarrow> tm_TemplateID t);
                    req = (case tmpl of None \<Rightarrow> req | Some t \<Rightarrow> merge_template (hv_order env) t req)
                in if cr_MachineID req = '''' then (SErr 400 ''machine_id is required'', h)
                   else let req = complete_request req
                        in case GetAgent (cr_MachineID req) (sh_connMgr h) of
                             None \<Rightarrow> (SErr 404 ''machine not connected'', h)
                           | Some _ \<Rightarrow> dispatch_session env a templateID req h)))"

section \<open>Reading sessions\<close>

text \<open>Fields that may hold secrets are emptied in every answer.\<close>

definition strip_secrets :: "Session \<Rightarrow> Session" where
  "strip_secrets s = s\<lparr>sn_EnvVars := '''', sn_Args := '''', sn_InitialPrompt := ''''\<rparr>"

definition sh_ListSessions :: "session_env \<Rightarrow> auth \<Rightarrow> string \<Rightarrow> string \<Rightarrow> SessionHandler \<Rightarrow> session_response" where
  "sh_ListSessions env a statusFilter machineFilter h =
     (if \<not> hv_list env then SErr 500 ''failed to list sessions''
      else let sessions = (if machineFilter \<noteq> '''' then ListSessionsByMachine machineFilter (sh_sessions h) else ListSessions (sh_sessions h))
           in case (case a of
                      NoAuth \<Rightarrow> Some sessions
                    | Auth None \<Rightarrow> None
                    | Auth (Some (u, role)) \<Rightarrow>
                        Some (if role \<noteq> ''admin'' then filter (\<lambda>s. sn_UserID s = u) sessions else sessions)) of
                None \<Rightarrow> SErr 401 ''authentication required''
              | Some sessions \<Rightarrow>
                  SSessions (map strip_secrets (if statusFilter \<noteq> '''' then filter (\<lambda>s. sn_Status s = statusFilter) sessions else sessions)))"

definition sh_GetSession :: "session_env \<Rightarrow> auth \<Rightarrow> string \<Rightarrow> SessionHandler \<Rightarrow> session_response" where
  "sh_GetSession env a sessionID h =
     (case iq_getSession (hv_inj env) sessionID (sh_q h) of
        Inl _ \<Rightarrow> SErr 404 ''session not found''
      | Inr sess \<Rightarrow> if authorizeSession a sess then SSession (strip_secrets sess) else SErr 404 ''session not found'')"

definition sh_ListInjections :: "session_env \<Rightarrow> auth \<Rightarrow> string \<Rightarrow> SessionHandler \<Rightarrow> session_response" where
  "sh_ListInjections env a sessionID h =
     (case iq_getSession (hv_inj env) sessionID (sh_q h) of
        Inl _ \<Rightarrow> SErr 404 ''session not found''
      | Inr sess \<Rightarrow>
          if \<not> authorizeSession a sess then SErr 404 ''session not found''
          else if hv_audit env then SInjections (ListInjectionsBySession sessionID (iq_audit (sh_q h)))
          else SErr 500 ''failed to list injections'')"

section \<open>Terminating a session\<close>

definition sh_send :: "session_env \<Rightarrow> string \<Rightarrow> ServerCommand \<Rightarrow> SessionHandler \<Rightarrow> SessionHandler" where
  "sh_send env machineID cmd h =
     (case GetAgent machineID (sh_connMgr h) of
        None \<Rightarrow> h
      | Some _ \<Rightarrow> if hv_accepts env cmd then h\<lparr>sh_sent := sh_sent h @ [(machineID, cmd)]\<rparr> else h)"

definition sh_TerminateSession :: "session_env \<Rightarrow> auth \<Rightarrow> string \<Rightarrow> SessionHandler \<Rightarrow> session_response \<times> SessionHandler" where
  "sh_TerminateSession env a sessionID h =
     (case iq_getSession (hv_inj env) sessionID (sh_q h) of
        Inl _ \<Rightarrow> (SErr 404 ''session not found'', h)
      | Inr sess \<Rightarrow>
          if \<not> authorizeSession a sess then (SErr 404 ''session not found'', h)
          else (STerminated,
                sh_publishEvent (NewSessionEvent (hv_uid env) (hv_now env) ''session.terminated'' sessionID (sn_MachineID sess) '''' '''')
                  (sh_setStatus env sessionID StatusTerminated
                    (sh_send env (sn_MachineID sess) (CmdKillSession sessionID ''SIGTERM'') h))))"

section \<open>Injecting text\<close>

text \<open>The checks of the decoded body, and what is queued and recorded for it.\<close>

definition inject_problem :: "injectRequest option \<Rightarrow> string option" where
  "inject_problem body =
     (case body of
        None \<Rightarrow> Some ''invalid request body''
      | Some req \<Rightarrow>
          if ir_Text req = '''' then Some ''text is required''
          else if ir_DelayMs req < 0 then Some ''delay_ms must be non-negative''
          else if ir_DelayMs req > 30000 then Some ''delay_ms must not exceed 30000''
          else None)"

definition inject_data :: "injectRequest \<Rightarrow> string" where
  "inject_data req = ir_Text req @ (if ir_Raw req then '''' else [CHR 10])"

definition inject_row :: "session_env \<Rightarrow> auth \<Rightarrow> Session \<Rightarrow> injectRequest \<Rightarrow> Injection" where
  "inject_row env a sess req =
     \<lparr>ij_InjectionID = hv_uid env, ij_SessionID = sn_SessionID sess,
      ij_UserID = (if claims_of a = '''' then sn_UserID sess else claims_of a), ij_TextLength = hv_runes env (ir_Text req),
      ij_Metadata = ir_Metadata req, ij_Source = ''api'', ij_CreatedAt = 0, ij_DeliveredAt = None\<rparr>"

definition enqueue_response :: "string \<Rightarrow> enqueue_error + unit \<Rightarrow> session_response" where
  "enqueue_response injectionID r =
     (case r of
        Inr _ \<Rightarrow> SAccepted injectionID
      | Inl ErrQueueFull \<Rightarrow> SErr 429 ''injection queue full''
      | Inl ErrSessionNotRunning \<Rightarrow> SErr 409 ''session is not running''
      | Inl (CheckSessionStatus _) \<Rightarrow> SErr 500 ''failed to enqueue injection'')"

definition sh_InjectSession :: "session_env \<Rightarrow> auth \<Rightarrow> string \<Rightarrow> injectRequest option \<Rightarrow> SessionHandler \<Rightarrow>
    session_response \<times> SessionHandler" where
  "sh_InjectSession env a sessionID body h =
     (case iq_getSession (hv_inj env) sessionID (sh_q h) of
        Inl _ \<Rightarrow> (SErr 404 ''session not found'', h)
      | Inr sess \<Rightarrow>
          if \<not> authorizeSession a sess then (SErr 404 ''session not found'', h)
          else if sn_Status sess \<noteq> StatusRunning then (SErr 409 ''session is not running'', h)
          else if GetAgent (sn_MachineID sess) (sh_connMgr h) = None then (SErr 503 ''agent disconnected'', h)
          else case inject_problem body of
                 Some msg \<Rightarrow> (SErr 400 msg, h)
               | None \<Rightarrow>
                   if \<not> sh_hasQueue h then (SErr 503 ''injection service not available'', h)
                   else case (if hv_audit env
                              then CreateInjection (hv_uid env) (hv_now env) (hv_known env) (\<lambda>i. i \<in> set (session_ids (sh_sessions h)))
                                     (inject_row env a sess (the body)) (iq_audit (sh_q h))
                              else Inl ErrUnavailable) of
                          Inl _ \<Rightarrow> (SErr 500 ''failed to create injection record'', h)
                        | Inr (created, rows) \<Rightarrow>
                            (case Enqueue (hv_inj env) (hv_queue env) sessionID (sn_MachineID sess) (inject_data (the body))
                                    (ir_DelayMs (the body)) (hv_uid env) ((sh_q h)\<lparr>iq_audit := rows\<rparr>) of
                               (r, q) \<Rightarrow> (enqueue_response (ij_InjectionID created) r, h\<lparr>sh_q := q\<rparr>)))"

end
