(* ===== verification/Session_Isolation.thy ===== *)
theory Session_Isolation
  imports Session_Handler
begin

text \<open>
  Users cannot learn of, or touch, the sessions of others. The view of a user is what the
  handler holds of their sessions: the rows, their audit records and their injection queues.
  The answers a user gets are a function of this view, a request changes the view of the
  user it belongs to only (an administrator's request that of the owner of the session it names), and
  so the answers to a user's requests are the same when the requests of all other ordinary users are
  left out.
\<close>

section \<open>Requests\<close>

datatype session_request =
    ReqCreate "createSessionRequest option"
  | ReqList string string
  | ReqGet string
  | ReqTerminate string
  | ReqInject string "injectRequest option"
  | ReqInjections string

definition serve :: "session_env \<Rightarrow> auth \<Rightarrow> session_request \<Rightarrow> SessionHandler \<Rightarrow> session_response \<times> SessionHandler" where
  "serve env a req h =
     (case req of
        ReqCreate body \<Rightarrow> sh_CreateSession env a body h
      | ReqList st m \<Rightarrow> (sh_ListSessions env a st m h, h)
      | ReqGet sid \<Rightarrow> (sh_GetSession env a sid h, h)
      | ReqTerminate sid \<Rightarrow> sh_TerminateSession env a sid h
      | ReqInject sid body \<Rightarrow> sh_InjectSession env a sid body h
      | ReqInjections sid \<Rightarrow> (sh_ListInjections env a sid h, h))"

text \<open>A request with the claims of its user and the choices made while it is served.\<close>

type_synonym call = "session_env \<times> (string \<times> string) \<times> session_request"

abbreviation caller :: "call \<Rightarrow> string" where "caller c \<equiv> fst (fst (snd c))"
abbreviation is_admin :: "call \<Rightarrow> bool" where "is_admin c \<equiv> snd (fst (snd c)) = ''admin''"
abbreviation call_uid :: "call \<Rightarrow> string" where "call_uid c \<equiv> hv_uid (fst c)"
abbreviation call_queue :: "call \<Rightarrow> nat" where "call_queue c \<equiv> hv_queue (fst c)"

definition serve_call :: "call \<Rightarrow> SessionHandler \<Rightarrow> session_response \<times> SessionHandler" where
  "serve_call c h = serve (fst c) (Auth (Some (fst (snd c)))) (snd (snd c)) h"

fun serve_all :: "call list \<Rightarrow> SessionHandler \<Rightarrow> (string \<times> session_response) list" where
  "serve_all [] h = []"
| "serve_all (c # cs) h = (case serve_call c h of (r, h) \<Rightarrow> (caller c, r) # serve_all cs h)"

definition answers :: "string \<Rightarrow> (string \<times> session_response) list \<Rightarrow> session_response list" where
  "answers u rs = map snd (filter (\<lambda>r. fst r = u) rs)"

definition seen_by :: "string \<Rightarrow> call list \<Rightarrow> call list" where
  "seen_by u cs = filter (\<lambda>c. caller c = u \<or> is_admin c) cs"

section \<open>The view of a user\<close>

definition own_rows :: "string \<Rightarrow> SessionHandler \<Rightarrow> Session list" where
  "own_rows u h = filter (\<lambda>s. sn_UserID s = u) (sh_sessions h)"

abbreviation own_ids :: "string \<Rightarrow> SessionHandler \<Rightarrow> string set" where
  "own_ids u h \<equiv> set (session_ids (own_rows u h))"

definition queue_of :: "string \<Rightarrow> InjectionQueue \<Rightarrow> sessionQueue option" where
  "queue_of sid q = Option.bind (fmlookup (iq_queues q) sid) (fmlookup (iq_heap q))"

definition own_audit :: "string \<Rightarrow> SessionHandler \<Rightarrow> Injection list" where
  "own_audit u h = filter (\<lambda>i. ij_SessionID i \<in> own_ids u h) (iq_audit (sh_q h))"

text \<open>What is not about sessions is common to all views.\<close>

definition same_view :: "string \<Rightarrow> SessionHandler \<Rightarrow> SessionHandler \<Rightarrow> bool" where
  "same_view u h h' \<longleftrightarrow>
     own_rows u h = own_rows u h' \<and> own_audit u h = own_audit u h' \<and>
     (\<forall>sid \<in> own_ids u h. queue_of sid (sh_q h) = queue_of sid (sh_q h')) \<and>
     sh_connMgr h = sh_connMgr h' \<and> sh_templates h = sh_templates h' \<and> sh_hasQueue h = sh_hasQueue h'"

definition handler_ok :: "SessionHandler \<Rightarrow> bool" where
  "handler_ok h \<longleftrightarrow>
     distinct (session_ids (sh_sessions h)) \<and> fset (fmdom (iq_queues (sh_q h))) \<subseteq> set (session_ids (sh_sessions h)) \<and>
     (\<forall>sid k. fmlookup (iq_queues (sh_q h)) sid = Some k \<longrightarrow> k |\<in>| fmdom (iq_heap (sh_q h))) \<and>
     (\<forall>sid sid' k. fmlookup (iq_queues (sh_q h)) sid = Some k \<longrightarrow> fmlookup (iq_queues (sh_q h)) sid' = Some k \<longrightarrow> sid = sid')"

definition used_ids :: "SessionHandler \<Rightarrow> string set" where
  "used_ids h = set (session_ids (sh_sessions h)) \<union> set (map ij_InjectionID (iq_audit (sh_q h))) \<union>
     set (map ij_SessionID (iq_audit (sh_q h)))"

abbreviation used_queues :: "SessionHandler \<Rightarrow> nat set" where "used_queues h \<equiv> fset (fmdom (iq_heap (sh_q h)))"

definition call_fresh :: "call \<Rightarrow> SessionHandler \<Rightarrow> bool" where
  "call_fresh c h \<longleftrightarrow> call_uid c \<notin> used_ids h \<and> call_queue c \<notin> used_queues h"

lemma same_viewD:
  assumes "same_view u h h'"
  shows "own_rows u h = own_rows u h'" "own_audit u h = own_audit u h'"
    "sid \<in> own_ids u h \<Longrightarrow> queue_of sid (sh_q h) = queue_of sid (sh_q h')"
    "sh_connMgr h = sh_connMgr h'" "sh_templates h = sh_templates h'" "sh_hasQueue h = sh_hasQueue h'"
  using assms by (auto simp: same_view_def)

lemma same_view_refl [simp]: "same_view u h h" by (simp add: same_view_def)

lemma same_view_sym: "same_view u h h' \<Longrightarrow> same_view u h' h" by (auto simp: same_view_def)

lemma same_view_trans: "same_view u h h' \<Longrightarrow> same_view u h' h'' \<Longrightarrow> same_view u h h''" by (auto simp: same_view_def)

text \<open>The rows of a user determine which of the table's rows a key finds for them.\<close>

lemma GetSession_own:
  assumes "distinct (session_ids rows)"
  shows "GetSession sid rows = Inr s \<and> sn_UserID s = u \<longleftrightarrow> GetSession sid (filter (\<lambda>s. sn_UserID s = u) rows) = Inr s"
proof -
  have "GetSession sid rows = Inr s \<longleftrightarrow> s \<in> set rows \<and> sn_SessionID s = sid" if "distinct (session_ids rows)" for rows
    using that
  proof (induction rows)
    case (Cons r rows)
    then show ?case by (auto simp: GetSession_def split: option.splits)
  qed (simp add: GetSession_def)
  from this [OF assms] this [OF distinct_map_filter [OF assms]] show ?thesis by auto
qed

section \<open>Creating a session\<close>

text \<open>The answer and the new rows of a request, without the rows there are already.\<close>

definition created :: "session_env \<Rightarrow> auth \<Rightarrow> string \<Rightarrow> createSessionRequest \<Rightarrow> ConnectionManager \<Rightarrow> session_response \<times> Session list" where
  "created env a templateID req cm =
     (case (if hv_create env then CreateSession (hv_now env) (cm_machines cm) (hv_known env) (new_session env a templateID req) []
            else Inl ErrUnavailable) of
        Inl _ \<Rightarrow> (SErr 500 ''failed to create session'', [])
      | Inr rows \<Rightarrow>
          if hv_accepts env (CmdCreateSession (create_cmd env req)) then (SCreated (hv_uid env) (cr_MachineID req) (cr_Command req), rows)
          else (SErr 500 ''failed to dispatch session to agent'',
                if hv_update env then map (session_status_set (hv_now env) StatusFailed) rows else rows))"

definition creation :: "session_env \<Rightarrow> auth \<Rightarrow> createSessionRequest option \<Rightarrow> SessionHandler \<Rightarrow> session_response \<times> Session list" where
  "creation env a body h =
     (case body of
        None \<Rightarrow> (SErr 400 ''invalid request body'', [])
      | Some req \<Rightarrow>
          (case find_template a req h of
             Inl r \<Rightarrow> (r, [])
           | Inr tmpl \<Rightarrow>
               (let templateID = (case tmpl of None \<Rightarrow> '''' | Some t \<Rightarrow> tm_TemplateID t);
                    req = (case tmpl of None \<Rightarrow> req | Some t \<Rightarrow> merge_template (hv_order env) t req)
                in if cr_MachineID req = '''' then (SErr 400 ''machine_id is required'', [])
                   else let req = complete_request req
                        in case GetAgent (cr_MachineID req) (sh_connMgr h) of
                             None \<Rightarrow> (SErr 404 ''machine not connected'', [])
                           | Some _ \<Rightarrow> created env a templateID req (sh_connMgr h))))"

lemma creation_cong:
  assumes "sh_templates h = sh_templates h'" "sh_connMgr h = sh_connMgr h'"
  shows "creation env a body h = creation env a body h'"
  unfolding creation_def find_template_def assms ..

lemma CreateSession_fresh:
  assumes "sn_SessionID sess \<notin> set (session_ids rows)"
  shows "CreateSession now ms known sess rows = map_sum id ((@) rows) (CreateSession now ms known sess [])"
  using assms by (simp add: CreateSession_def)

lemma created_rows:
  assumes "s \<in> set (snd (created env a t req cm))"
  shows "sn_SessionID s = hv_uid env \<and> sn_UserID s = claims_of a"
  using assms
  by (auto simp: created_def CreateSession_def new_session_def session0_def session_status_set_def split: if_splits)

lemma created_length: "length (snd (created env a t req cm)) \<le> Suc 0"
  by (auto simp: created_def CreateSession_def)

lemma creation_rows:
  "s \<in> set (snd (creation env a body h)) \<Longrightarrow> sn_SessionID s = hv_uid env \<and> sn_UserID s = claims_of a"
  by (auto simp: creation_def Let_def dest: created_rows split: option.splits sum.splits if_splits)

lemma creation_length: "length (snd (creation env a body h)) \<le> Suc 0"
  by (auto simp: creation_def Let_def created_length split: option.splits sum.splits)

lemma sh_publishEvent_rest [simp]:
  "sh_q (sh_publishEvent e h) = sh_q h" "sh_templates (sh_publishEvent e h) = sh_templates h"
  "sh_hasQueue (sh_publishEvent e h) = sh_hasQueue h"
  by (simp_all add: sh_publishEvent_def)

definition with_rows :: "SessionHandler \<Rightarrow> Session list \<Rightarrow> SessionHandler \<Rightarrow> bool" where
  "with_rows h rows h' \<longleftrightarrow> sh_q h' = (sh_q h)\<lparr>iq_sessions := rows\<rparr> \<and> sh_templates h' = sh_templates h \<and> sh_hasQueue h' = sh_hasQueue h"

lemma sh_setStatus_new:
  assumes "sid \<notin> set (session_ids (sh_sessions h))" "sn_SessionID s = sid"
  shows "with_rows h (sh_sessions h @ (if hv_update env then [session_status_set (hv_now env) st s] else [s]))
    (sh_setStatus env sid st (put_rows (sh_sessions h @ [s]) h))"
proof -
  have "map (\<lambda>r. if sn_SessionID r = sid then f r else r) (sh_sessions h) = sh_sessions h" for f
    using assms(1) by (intro map_idI) auto
  with assms(2) show ?thesis by (simp add: sh_setStatus_def UpdateSessionStatus_def with_rows_def put_rows_def)
qed

lemma dispatch_created:
  assumes "hv_uid env \<notin> set (session_ids (sh_sessions h))"
  shows "fst (dispatch_session env a t req h) = fst (created env a t req (sh_connMgr h))"
    and "with_rows h (sh_sessions h @ snd (created env a t req (sh_connMgr h))) (snd (dispatch_session env a t req h))"
proof -
  let ?new = "new_session env a t req"
  have id: "sn_SessionID ?new = hv_uid env" by (simp add: new_session_def)
  note fresh = CreateSession_fresh [OF assms [folded id], of "hv_now env" "cm_machines (sh_connMgr h)" "hv_known env"]
  have new: "\<exists>s. rows = [s] \<and> sn_SessionID s = hv_uid env"
    if "CreateSession (hv_now env) (cm_machines (sh_connMgr h)) (hv_known env) ?new [] = Inr rows" for rows
    using that id by (auto simp: CreateSession_def split: if_splits)
  show "fst (dispatch_session env a t req h) = fst (created env a t req (sh_connMgr h))"
    by (auto simp: dispatch_session_def created_def fresh Let_def split: sum.splits)
  show "with_rows h (sh_sessions h @ snd (created env a t req (sh_connMgr h))) (snd (dispatch_session env a t req h))"
    using sh_setStatus_new [OF assms, of _ env StatusFailed]
    by (auto simp: dispatch_session_def created_def fresh Let_def with_rows_def put_rows_def dest!: new split: sum.splits)
qed

lemma sh_CreateSession_creation:
  assumes "hv_uid env \<notin> set (session_ids (sh_sessions h))"
  shows "fst (sh_CreateSession env a body h) = fst (creation env a body h)"
    and "with_rows h (sh_sessions h @ snd (creation env a body h)) (snd (sh_CreateSession env a body h))"
  using dispatch_created [OF assms]
  by (auto simp: sh_CreateSession_def creation_def Let_def with_rows_def split: option.splits sum.splits if_splits)

section \<open>One request\<close>

text \<open>The row a user's key finds; another user's row is as good as none.\<close>

definition own_session :: "string \<Rightarrow> string \<Rightarrow> SessionHandler \<Rightarrow> Session option" where
  "own_session u sid h = find (\<lambda>s. sn_SessionID s = sid) (own_rows u h)"

lemma own_session_iff:
  assumes "handler_ok h"
  shows "own_session u sid h = Some s \<longleftrightarrow> GetSession sid (sh_sessions h) = Inr s \<and> sn_UserID s = u"
  using assms GetSession_own [of "sh_sessions h" sid s u]
  by (auto simp: handler_ok_def own_session_def own_rows_def GetSession_def split: option.splits)

lemma own_session_cong: "same_view u h h' \<Longrightarrow> own_session u sid h = own_session u sid h'"
  by (simp add: own_session_def same_view_def)

lemma own_session_id: "own_session u sid h = Some s \<Longrightarrow> sn_SessionID s = sid \<and> sid \<in> own_ids u h"
  by (force simp: own_session_def find_Some_iff)

lemma get_own:
  assumes "handler_ok h"
  shows "GetSession sid (sh_sessions h) = Inl e \<Longrightarrow> own_session u sid h = None"
    and "GetSession sid (sh_sessions h) = Inr s \<Longrightarrow> own_session u sid h = (if sn_UserID s = u then Some s else None)"
proof -
  show "own_session u sid h = None" if "GetSession sid (sh_sessions h) = Inl e"
    using that own_session_iff [OF assms, of u sid "the (own_session u sid h)"] by (cases "own_session u sid h") auto
  show "own_session u sid h = (if sn_UserID s = u then Some s else None)" if "GetSession sid (sh_sessions h) = Inr s"
    using that own_session_iff [OF assms, of u sid "the (own_session u sid h)"] own_session_iff [OF assms, of u sid s]
    by (cases "own_session u sid h") auto
qed

text \<open>The rows of a user after a row has changed.\<close>

lemma own_rows_UpdateSessionStatus:
  assumes "UpdateSessionStatus now sid st (sh_sessions h) = Inr rows"
  shows "own_rows u (put_rows rows h) = map (\<lambda>r. if sn_SessionID r = sid then session_status_set now st r else r) (own_rows u h)"
  using assms
  by (auto simp: UpdateSessionStatus_def own_rows_def put_rows_def filter_map o_def session_status_set_def
      intro!: map_cong filter_cong split: if_splits)

text \<open>What \<open>Enqueue\<close> does to the queue of its session.\<close>

definition enq :: "queueItem \<Rightarrow> string \<Rightarrow> sessionQueue option \<Rightarrow> (enqueue_error + unit) \<times> sessionQueue" where
  "enq item machineID qo =
     (let sq = (case qo of Some sq \<Rightarrow> sq
                | None \<Rightarrow> \<lparr>sq_items = [], sq_done = False, sq_machineID = machineID, sq_accepted = [], sq_handled = [], sq_sent = []\<rparr>)
      in if length (sq_items sq) < defaultQueueCapacity
         then (Inr (), sq\<lparr>sq_items := sq_items sq @ [item], sq_accepted := sq_accepted sq @ [item]\<rparr>)
         else (Inl ErrQueueFull, sq))"

definition queues_ok :: "InjectionQueue \<Rightarrow> bool" where
  "queues_ok q \<longleftrightarrow>
     (\<forall>sid k. fmlookup (iq_queues q) sid = Some k \<longrightarrow> k |\<in>| fmdom (iq_heap q)) \<and>
     (\<forall>sid sid' k. fmlookup (iq_queues q) sid = Some k \<longrightarrow> fmlookup (iq_queues q) sid' = Some k \<longrightarrow> sid = sid')"

lemma handler_ok_queues:
  "handler_ok h \<longleftrightarrow> distinct (session_ids (sh_sessions h)) \<and> fset (fmdom (iq_queues (sh_q h))) \<subseteq> set (session_ids (sh_sessions h)) \<and>
     queues_ok (sh_q h)"
  by (auto simp: handler_ok_def queues_ok_def)

lemma getOrCreateQueue_ok:
  assumes "queues_ok q" "k |\<notin>| fmdom (iq_heap q)" "getOrCreateQueue k sid m q = (k', q')"
  shows "queues_ok q'" "fmlookup (iq_queues q') sid = Some k'"
    and "queue_of sid' q' = (if sid' = sid \<and> queue_of sid q = None
       then Some \<lparr>sq_items = [], sq_done = False, sq_machineID = m, sq_accepted = [], sq_handled = [], sq_sent = []\<rparr> else queue_of sid' q)"
    and "fset (fmdom (iq_heap q')) \<subseteq> insert k (fset (fmdom (iq_heap q)))"
    and "iq_audit q' = iq_audit q" "iq_sessions q' = iq_sessions q" "iq_connMgr q' = iq_connMgr q"
  using assms
  by (auto simp: getOrCreateQueue_def queues_ok_def queue_of_def fmdom_notD Option.bind_eq_None_conv split: option.splits if_splits)
    (auto simp: fmlookup_dom_iff Option.bind_eq_None_conv split: Option.bind_splits, metis option.distinct(1))

lemma enqueue_send_queue:
  assumes "queues_ok q" "fmlookup (iq_queues q) sid = Some k" "enqueue_send k item q = (r, q')"
  shows "r = fst (enq item m (queue_of sid q))"
    and "queue_of sid' q' = (if sid' = sid then Some (snd (enq item m (queue_of sid q))) else queue_of sid' q)"
    and "queues_ok q'" "fmdom (iq_heap q') = fmdom (iq_heap q)"
    and "iq_audit q' = iq_audit q" "iq_sessions q' = iq_sessions q" "iq_connMgr q' = iq_connMgr q"
proof -
  obtain sq where sq: "fmlookup (iq_heap q) k = Some sq"
    using assms(1,2) unfolding queues_ok_def by (meson fmlookup_dom_iff)
  have other: "fmlookup (iq_queues q) s' \<noteq> Some k" if "s' \<noteq> sid" for s'
    using assms(1,2) that by (auto simp: queues_ok_def)
  show "r = fst (enq item m (queue_of sid q))" "fmdom (iq_heap q') = fmdom (iq_heap q)" "iq_audit q' = iq_audit q"
      "iq_sessions q' = iq_sessions q" "iq_connMgr q' = iq_connMgr q"
    using assms(2,3) sq by (auto simp: enqueue_send_def enq_def queue_of_def sq_upd_def Let_def fmdomI split: if_splits)
  show "queues_ok q'"
    using assms sq by (auto simp: enqueue_send_def queues_ok_def sq_upd_def split: if_splits)
  show "queue_of sid' q' = (if sid' = sid then Some (snd (enq item m (queue_of sid q))) else queue_of sid' q)"
    using assms(2,3) sq other [of sid']
    by (auto simp: enqueue_send_def enq_def queue_of_def sq_upd_def Let_def split: if_splits Option.bind_splits)
qed

lemma Enqueue_queue:
  assumes "queues_ok q" "k |\<notin>| fmdom (iq_heap q)" "iq_getSession env sid q = Inr sess" "\<not> isTerminalStatus (sn_Status sess)"
    and "Enqueue env k sid m data d i q = (r, q')"
  defines "item \<equiv> \<lparr>qi_InjectionID = i, qi_Data = data, qi_DelayMs = d, qi_QueuedAt = jv_now env\<rparr>"
  shows "r = fst (enq item m (queue_of sid q))"
    and "queue_of sid' q' = (if sid' = sid then Some (snd (enq item m (queue_of sid q))) else queue_of sid' q)"
    and "queues_ok q'" "fset (fmdom (iq_heap q')) \<subseteq> insert k (fset (fmdom (iq_heap q)))"
    and "iq_audit q' = iq_audit q" "iq_sessions q' = iq_sessions q" "iq_connMgr q' = iq_connMgr q"
proof -
  obtain k' q1 where g: "getOrCreateQueue k sid m q = (k', q1)" by (cases "getOrCreateQueue k sid m q")
  note ok = getOrCreateQueue_ok [OF assms(1,2) g]
  have "enqueue_send k' item q1 = (r, q')"
    using assms(3-5) g by (simp add: Enqueue_def enqueue_find_def item_def)
  note snd = enqueue_send_queue [OF ok(1,2) this]
  have enq: "enq item m (queue_of sid q1) = enq item m (queue_of sid q)"
    by (simp add: ok(3) enq_def Let_def split: option.split)
  show "r = fst (enq item m (queue_of sid q))" using snd(1) [of m] by (simp add: enq)
  show "queue_of sid' q' = (if sid' = sid then Some (snd (enq item m (queue_of sid q))) else queue_of sid' q)"
    using snd(2) [of sid' m, unfolded enq] ok(3) [of sid'] by auto
  show "queues_ok q'" "fset (fmdom (iq_heap q')) \<subseteq> insert k (fset (fmdom (iq_heap q)))"
    and "iq_audit q' = iq_audit q" "iq_sessions q' = iq_sessions q" "iq_connMgr q' = iq_connMgr q"
    using snd(3-) ok(4-) by simp_all
qed

text \<open>The body of \<open>InjectSession\<close> once its session is known and running.\<close>

definition inject_item :: "session_env \<Rightarrow> injectRequest \<Rightarrow> queueItem" where
  "inject_item env req = \<lparr>qi_InjectionID = hv_uid env, qi_Data = inject_data req, qi_DelayMs = ir_DelayMs req, qi_QueuedAt = hv_now env\<rparr>"

definition inject_passes :: "session_env \<Rightarrow> auth \<Rightarrow> Session \<Rightarrow> injectRequest option \<Rightarrow> SessionHandler \<Rightarrow> bool" where
  "inject_passes env a sess body h \<longleftrightarrow>
     authorizeSession a sess \<and> sn_Status sess = StatusRunning \<and> GetAgent (sn_MachineID sess) (sh_connMgr h) \<noteq> None \<and>
     inject_problem body = None \<and> sh_hasQueue h \<and> hv_audit env \<and> hv_known env (ij_UserID (inject_row env a sess (the body)))"

lemma running_not_terminal [simp]: "\<not> isTerminalStatus StatusRunning"
  by (simp add: isTerminalStatus_def StatusRunning_def StatusCompleted_def StatusFailed_def StatusTerminated_def)

lemma GetSession_id: "GetSession sid rows = Inr s \<Longrightarrow> sn_SessionID s = sid \<and> s \<in> set rows"
  by (auto simp: GetSession_def find_Some_iff split: option.splits)
definition inject_refusal :: "auth \<Rightarrow> Session \<Rightarrow> injectRequest option \<Rightarrow> SessionHandler \<Rightarrow> session_response" where
  "inject_refusal a sess body h =
     (if \<not> authorizeSession a sess then SErr 404 ''session not found''
      else if sn_Status sess \<noteq> StatusRunning then SErr 409 ''session is not running''
      else if GetAgent (sn_MachineID sess) (sh_connMgr h) = None then SErr 503 ''agent disconnected''
      else case inject_problem body of
             Some msg \<Rightarrow> SErr 400 msg
           | None \<Rightarrow> if \<not> sh_hasQueue h then SErr 503 ''injection service not available''
                     else SErr 500 ''failed to create injection record'')"

definition audit_row :: "session_env \<Rightarrow> auth \<Rightarrow> Session \<Rightarrow> injectRequest option \<Rightarrow> Injection" where
  "audit_row env a sess body =
     fst (projr (CreateInjection (hv_uid env) (hv_now env) (\<lambda>_. True) (\<lambda>_. True) (inject_row env a sess (the body)) []))"

lemma audit_row_ids [simp]:
  "ij_InjectionID (audit_row env a sess body) = hv_uid env" "ij_SessionID (audit_row env a sess body) = sn_SessionID sess"
  by (simp_all add: audit_row_def CreateInjection_def inject_row_def Let_def)

lemma CreateInjection_row:
  assumes "hv_uid env \<notin> set (map ij_InjectionID rows)" "sessions (sn_SessionID sess)"
  shows "CreateInjection (hv_uid env) (hv_now env) (hv_known env) sessions (inject_row env a sess (the body)) rows =
    (if hv_known env (ij_UserID (inject_row env a sess (the body)))
     then Inr (audit_row env a sess body, rows @ [audit_row env a sess body]) else Inl ErrConstraint)"
  using assms by (auto simp: audit_row_def CreateInjection_def inject_row_def Let_def)

lemma inject_refused:
  assumes "jv_getSession (hv_inj env)" "GetSession sid (sh_sessions h) = Inr sess" "\<not> inject_passes env a sess body h"
    and "hv_uid env \<notin> set (map ij_InjectionID (iq_audit (sh_q h)))"
  shows "sh_InjectSession env a sid body h = (inject_refusal a sess body h, h)"
proof -
  have "sn_SessionID sess \<in> set (session_ids (sh_sessions h))" using GetSession_id [OF assms(2)] by auto
  with assms show ?thesis
    by (auto simp: sh_InjectSession_def iq_getSession_def inject_passes_def inject_refusal_def CreateInjection_row split: option.splits)
qed

lemma inject_accepted:
  assumes "handler_ok h" "jv_getSession (hv_inj env)" "GetSession sid (sh_sessions h) = Inr sess" "inject_passes env a sess body h"
    and "hv_uid env \<notin> set (map ij_InjectionID (iq_audit (sh_q h)))" "hv_queue env |\<notin>| fmdom (iq_heap (sh_q h))"
    and "sh_InjectSession env a sid body h = (r, h')"
  defines "e \<equiv> enq (inject_item env (the body)) (sn_MachineID sess) (queue_of sid (sh_q h))"
  shows "r = enqueue_response (hv_uid env) (fst e)"
    and "queue_of sid' (sh_q h') = (if sid' = sid then Some (snd e) else queue_of sid' (sh_q h))"
    and "iq_audit (sh_q h') = iq_audit (sh_q h) @ [audit_row env a sess body]"
    and "sh_sessions h' = sh_sessions h" "sh_connMgr h' = sh_connMgr h" "sh_templates h' = sh_templates h" "sh_hasQueue h' = sh_hasQueue h"
    and "queues_ok (sh_q h')" "fset (fmdom (iq_heap (sh_q h'))) \<subseteq> insert (hv_queue env) (fset (fmdom (iq_heap (sh_q h))))"
proof -
  let ?q = "(sh_q h)\<lparr>iq_audit := iq_audit (sh_q h) @ [audit_row env a sess body]\<rparr>"
  obtain r0 q' where E: "Enqueue (hv_inj env) (hv_queue env) sid (sn_MachineID sess) (inject_data (the body))
      (ir_DelayMs (the body)) (hv_uid env) ?q = (r0, q')" by fastforce
  have q: "queues_ok ?q" "hv_queue env |\<notin>| fmdom (iq_heap ?q)" "iq_getSession (hv_inj env) sid ?q = Inr sess"
      "\<not> isTerminalStatus (sn_Status sess)"
    using assms(1-4,6) by (auto simp: handler_ok_queues queues_ok_def iq_getSession_def inject_passes_def)
  note Q = Enqueue_queue [OF q E]
  have "sn_SessionID sess \<in> set (session_ids (sh_sessions h))" using GetSession_id [OF assms(3)] by auto
  then have res: "r = enqueue_response (hv_uid env) r0" "h' = h\<lparr>sh_q := q'\<rparr>"
    using assms(2-5,7) E by (auto simp: sh_InjectSession_def iq_getSession_def inject_passes_def CreateInjection_row)
  have same: "queue_of s ?q = queue_of s (sh_q h)" for s by (simp add: queue_of_def)
  show "r = enqueue_response (hv_uid env) (fst e)"
    using Q(1) by (simp add: res e_def inject_item_def same)
  show "queue_of sid' (sh_q h') = (if sid' = sid then Some (snd e) else queue_of sid' (sh_q h))"
    using Q(2) [of sid'] by (simp add: res e_def inject_item_def same)
  show "iq_audit (sh_q h') = iq_audit (sh_q h) @ [audit_row env a sess body]"
    and "sh_sessions h' = sh_sessions h" "sh_connMgr h' = sh_connMgr h" "sh_templates h' = sh_templates h" "sh_hasQueue h' = sh_hasQueue h"
    and "queues_ok (sh_q h')" "fset (fmdom (iq_heap (sh_q h'))) \<subseteq> insert (hv_queue env) (fset (fmdom (iq_heap (sh_q h))))"
    using Q(3-) by (simp_all add: res)
qed

section \<open>The view after a request\<close>

lemma own_session_None: "own_session u sid h = None \<longleftrightarrow> sid \<notin> own_ids u h"
  by (auto simp: own_session_def find_None_iff)

lemma own_ids_eq: "sh_sessions h = sh_sessions h' \<Longrightarrow> own_rows u h = own_rows u h'"
  by (simp add: own_rows_def)

text \<open>The state after a session is terminated.\<close>

lemma sh_send_rest [simp]:
  "sh_q (sh_send env m cmd h) = sh_q h" "sh_templates (sh_send env m cmd h) = sh_templates h" "sh_hasQueue (sh_send env m cmd h) = sh_hasQueue h"
  by (simp_all add: sh_send_def split: option.split)

definition terminates :: "session_env \<Rightarrow> auth \<Rightarrow> string \<Rightarrow> SessionHandler \<Rightarrow> bool" where
  "terminates env a sid h \<longleftrightarrow> jv_getSession (hv_inj env) \<and> hv_update env \<and>
     (case GetSession sid (sh_sessions h) of Inl _ \<Rightarrow> False | Inr sess \<Rightarrow> authorizeSession a sess)"

lemma terminate_q:
  "sh_q (snd (sh_TerminateSession env a sid h)) =
    (if terminates env a sid h
     then (sh_q h)\<lparr>iq_sessions :=
       map (\<lambda>r. if sn_SessionID r = sid then session_status_set (hv_now env) StatusTerminated r else r) (sh_sessions h)\<rparr>
     else sh_q h)"
proof (cases "iq_getSession (hv_inj env) sid (sh_q h)")
  case (Inl e)
  then show ?thesis by (auto simp: sh_TerminateSession_def terminates_def iq_getSession_def)
next
  case (Inr sess)
  then have s: "jv_getSession (hv_inj env)" "GetSession sid (sh_sessions h) = Inr sess" by (auto simp: iq_getSession_def split: if_splits)
  then have "sid \<in> set (session_ids (sh_sessions h))" using GetSession_id by fastforce
  with Inr s show ?thesis
    by (auto simp: sh_TerminateSession_def terminates_def sh_setStatus_def put_rows_def UpdateSessionStatus_def)
qed

lemma terminate_static [simp]:
  "sh_templates (snd (sh_TerminateSession env a sid h)) = sh_templates h" "sh_hasQueue (snd (sh_TerminateSession env a sid h)) = sh_hasQueue h"
  by (auto simp: sh_TerminateSession_def sh_setStatus_def put_rows_def split: sum.splits)

lemma own_rows_status:
  assumes "sh_sessions h' = map (\<lambda>r. if sn_SessionID r = sid then session_status_set now st r else r) (sh_sessions h)"
  shows "own_rows u h' = map (\<lambda>r. if sn_SessionID r = sid then session_status_set now st r else r) (own_rows u h)"
  using assms by (auto simp: own_rows_def filter_map o_def session_status_set_def intro!: map_cong filter_cong)

lemma own_ids_status:
  assumes "sh_sessions h' = map (\<lambda>r. if sn_SessionID r = sid then session_status_set now st r else r) (sh_sessions h)"
  shows "own_ids u h' = own_ids u h"
  unfolding own_rows_status [OF assms] by (force simp: session_status_set_def)

lemma status_foreign:
  assumes "sid \<notin> own_ids u h"
  shows "map (\<lambda>r. if sn_SessionID r = sid then session_status_set now st r else r) (own_rows u h) = own_rows u h"
  using assms by (intro map_idI) auto

lemma same_view_rows:
  assumes "own_rows u h' = own_rows u h" "sh_q h' = (sh_q h)\<lparr>iq_sessions := rows\<rparr>"
    and "sh_templates h' = sh_templates h" "sh_hasQueue h' = sh_hasQueue h"
  shows "same_view u h h'"
  using assms by (simp add: same_view_def own_audit_def queue_of_def)

lemma terminate_foreign:
  assumes "sid \<notin> own_ids u h"
  shows "same_view u h (snd (sh_TerminateSession env a sid h))"
proof (cases "terminates env a sid h")
  case True
  then show ?thesis
    using own_rows_status [of "snd (sh_TerminateSession env a sid h)" sid "hv_now env" StatusTerminated h u]
    by (intro same_view_rows) (simp_all add: terminate_q status_foreign [OF assms])
next
  case False
  then show ?thesis by (intro same_view_rows [of _ _ _ "sh_sessions h"] own_ids_eq) (simp_all add: terminate_q)
qed

lemma inject_foreign:
  assumes "handler_ok h" "sid \<notin> own_ids u h"
    and "hv_uid env \<notin> set (map ij_InjectionID (iq_audit (sh_q h)))" "hv_queue env |\<notin>| fmdom (iq_heap (sh_q h))"
  shows "same_view u h (snd (sh_InjectSession env a sid body h))"
proof (cases "\<exists>sess. jv_getSession (hv_inj env) \<and> GetSession sid (sh_sessions h) = Inr sess \<and> inject_passes env a sess body h")
  case True
  then obtain sess where s: "jv_getSession (hv_inj env)" "GetSession sid (sh_sessions h) = Inr sess" "inject_passes env a sess body h"
    by blast
  obtain r h' where I: "sh_InjectSession env a sid body h = (r, h')" by fastforce
  note A = inject_accepted [OF assms(1) s assms(3,4) I]
  have rows: "own_rows u h' = own_rows u h" using A(4) by (simp add: own_rows_def)
  have "own_audit u h' = own_audit u h" using A(3) assms(2) GetSession_id [OF s(2)] by (simp add: own_audit_def rows)
  with A(2,5-7) rows assms(2) show ?thesis by (auto simp: same_view_def I)
next
  case False
  then have "snd (sh_InjectSession env a sid body h) = h"
    using inject_refused [of env sid h _ a body] assms(3)
    by (cases "iq_getSession (hv_inj env) sid (sh_q h)")
      (auto simp: iq_getSession_def sh_InjectSession_def split: if_splits)
  then show ?thesis by simp
qed

text \<open>A request on a session of the user does the same in both states.\<close>

lemma same_view_own:
  assumes "same_view u h h'" "handler_ok h" "handler_ok h'" "sid \<in> own_ids u h"
  obtains s where "GetSession sid (sh_sessions h) = Inr s" "GetSession sid (sh_sessions h') = Inr s" "sn_UserID s = u"
proof -
  obtain s where s: "own_session u sid h = Some s" using assms(4) own_session_None by (cases "own_session u sid h") blast+
  moreover have "own_session u sid h' = Some s" using s own_session_cong [OF assms(1)] by simp
  ultimately show thesis using that own_session_iff assms(2,3) by blast
qed

lemma terminate_own:
  assumes v: "same_view u h h'" and ok: "handler_ok h" "handler_ok h'" and own: "sid \<in> own_ids u h"
  shows "fst (sh_TerminateSession env a sid h) = fst (sh_TerminateSession env a sid h')"
    and "same_view u (snd (sh_TerminateSession env a sid h)) (snd (sh_TerminateSession env a sid h'))"
proof -
  obtain s where s: "GetSession sid (sh_sessions h) = Inr s" "GetSession sid (sh_sessions h') = Inr s"
    using same_view_own [OF v ok own] by blast
  then show "fst (sh_TerminateSession env a sid h) = fst (sh_TerminateSession env a sid h')"
    by (simp add: sh_TerminateSession_def iq_getSession_def)
  have t: "terminates env a sid h = terminates env a sid h'" using s by (simp add: terminates_def)
  let ?f = "\<lambda>r. if sn_SessionID r = sid then session_status_set (hv_now env) StatusTerminated r else r"
  have rows: "own_rows u (snd (sh_TerminateSession env a sid g)) = (if terminates env a sid g then map ?f (own_rows u g) else own_rows u g)" for g
    using own_rows_status [of "snd (sh_TerminateSession env a sid g)" sid "hv_now env" StatusTerminated g u]
    by (auto simp: terminate_q intro!: own_ids_eq)
  have ids: "own_ids u (snd (sh_TerminateSession env a sid g)) = own_ids u g" for g
  proof -
    have "sn_SessionID (?f r) = sn_SessionID r" for r by (simp add: session_status_set_def)
    then have "session_ids (map ?f (own_rows u g)) = session_ids (own_rows u g)" by simp
    then show ?thesis by (simp only: rows split: if_split) blast
  qed
  have "own_audit u (snd (sh_TerminateSession env a sid g)) = own_audit u g" for g
    by (simp only: own_audit_def ids) (simp add: terminate_q)
  then show "same_view u (snd (sh_TerminateSession env a sid h)) (snd (sh_TerminateSession env a sid h'))"
    using same_viewD [OF v] t unfolding same_view_def ids by (simp add: rows) (simp add: terminate_q queue_of_def)
qed

lemma inject_own:
  assumes v: "same_view u h h'" and ok: "handler_ok h" "handler_ok h'" and own: "sid \<in> own_ids u h"
    and fresh: "hv_uid env \<notin> set (map ij_InjectionID (iq_audit (sh_q h)))" "hv_queue env |\<notin>| fmdom (iq_heap (sh_q h))"
    and fresh': "hv_uid env \<notin> set (map ij_InjectionID (iq_audit (sh_q h')))" "hv_queue env |\<notin>| fmdom (iq_heap (sh_q h'))"
  shows "fst (sh_InjectSession env a sid body h) = fst (sh_InjectSession env a sid body h') \<and>
    same_view u (snd (sh_InjectSession env a sid body h)) (snd (sh_InjectSession env a sid body h'))"
proof -
  obtain s where s: "GetSession sid (sh_sessions h) = Inr s" "GetSession sid (sh_sessions h') = Inr s" "sn_UserID s = u"
    using same_view_own [OF v ok own] by blast
  note V = same_viewD [OF v]
  have p: "inject_passes env a s body h = inject_passes env a s body h'" using V by (simp add: inject_passes_def)
  consider "\<not> jv_getSession (hv_inj env)" | "jv_getSession (hv_inj env)" "\<not> inject_passes env a s body h"
    | "jv_getSession (hv_inj env)" "inject_passes env a s body h" by blast
  then show ?thesis
  proof cases
    case 1 then show ?thesis using v by (simp add: sh_InjectSession_def iq_getSession_def)
  next
    case 2
    then show ?thesis
      using v p V inject_refused [OF _ s(1) _ fresh(1)] inject_refused [OF _ s(2) _ fresh'(1)] by (simp add: inject_refusal_def)
  next
    case 3
    obtain r g where g: "sh_InjectSession env a sid body h = (r, g)" by fastforce
    obtain r' g' where g': "sh_InjectSession env a sid body h' = (r', g')" by fastforce
    note A = inject_accepted [OF ok(1) 3(1) s(1) 3(2) fresh g]
    note B = inject_accepted [OF ok(2) 3(1) s(2) 3(2)[unfolded p] fresh' g']
    have rows: "own_rows u g = own_rows u h" "own_rows u g' = own_rows u h'" using A(4) B(4) by (simp_all add: own_rows_def)
    have "own_audit u g = own_audit u g'" using A(3) B(3) V(1,2) by (simp add: own_audit_def rows)
    then show ?thesis using A(1,2,5-7) B(1,2,5-7) V rows own by (auto simp: g g' same_view_def)
  qed
qed

text \<open>Creating a session adds the same row to the view of its user, and nothing to another's.\<close>

lemma create_own_rows:
  assumes "with_rows h (sh_sessions h @ new) h'"
  shows "own_rows u h' = own_rows u h @ filter (\<lambda>s. sn_UserID s = u) new"
  using assms by (simp add: with_rows_def own_rows_def)

lemma create_foreign:
  assumes "hv_uid env \<notin> used_ids h" "claims_of a \<noteq> u"
  shows "same_view u h (snd (sh_CreateSession env a body h))"
proof -
  have "hv_uid env \<notin> set (session_ids (sh_sessions h))" using assms(1) by (simp add: used_ids_def)
  note C = sh_CreateSession_creation(2) [OF this, of a body]
  have "filter (\<lambda>s. sn_UserID s = u) (snd (creation env a body h)) = []"
    using creation_rows [of _ env a body h] assms(2) by (auto simp: filter_empty_conv)
  with C show ?thesis
    by (intro same_view_rows [of _ _ _ "sh_sessions h @ snd (creation env a body h)"])
      (simp_all add: create_own_rows [OF C], simp_all add: with_rows_def)
qed

lemma create_own:
  assumes v: "same_view u h h'" and fresh: "hv_uid env \<notin> used_ids h" "hv_uid env \<notin> used_ids h'"
    and ok: "handler_ok h" "handler_ok h'"
  shows "fst (sh_CreateSession env a body h) = fst (sh_CreateSession env a body h')"
    and "same_view u (snd (sh_CreateSession env a body h)) (snd (sh_CreateSession env a body h'))"
proof -
  have f: "hv_uid env \<notin> set (session_ids (sh_sessions h))" "hv_uid env \<notin> set (session_ids (sh_sessions h'))"
    using fresh by (simp_all add: used_ids_def)
  note C = sh_CreateSession_creation(2) [OF f(1), of a body] and D = sh_CreateSession_creation(2) [OF f(2), of a body]
  note V = same_viewD [OF v]
  have cr: "creation env a body h = creation env a body h'" by (rule creation_cong) (rule V)+
  then show "fst (sh_CreateSession env a body h) = fst (sh_CreateSession env a body h')"
    by (simp add: sh_CreateSession_creation(1) [OF f(1)] sh_CreateSession_creation(1) [OF f(2)])
  let ?new = "filter (\<lambda>s. sn_UserID s = u) (snd (creation env a body h'))"
  have rows: "own_rows u (snd (sh_CreateSession env a body h)) = own_rows u h @ ?new"
      "own_rows u (snd (sh_CreateSession env a body h')) = own_rows u h' @ ?new"
    using create_own_rows [OF C] create_own_rows [OF D] by (simp_all add: cr)
  have new: "set (session_ids ?new) \<subseteq> {hv_uid env}" using creation_rows [of _ env a body h'] by auto
  have aud: "own_audit u (snd (sh_CreateSession env a body g)) = own_audit u g"
    if "own_rows u (snd (sh_CreateSession env a body g)) = own_rows u g @ ?new"
      "iq_audit (sh_q (snd (sh_CreateSession env a body g))) = iq_audit (sh_q g)" "hv_uid env \<notin> used_ids g" for g
  proof -
    have "ij_SessionID i \<in> set (session_ids (own_rows u g @ ?new)) \<longleftrightarrow> ij_SessionID i \<in> own_ids u g"
      if "i \<in> set (iq_audit (sh_q g))" for i
    proof -
      have "ij_SessionID i \<noteq> hv_uid env" using that \<open>hv_uid env \<notin> used_ids g\<close> unfolding used_ids_def by (metis UnI2 imageI list.set_map)
      then show ?thesis using new by auto
    qed
    with that(1,2) show ?thesis by (simp add: own_audit_def cong: filter_cong)
  qed
  have noq: "queue_of (hv_uid env) (sh_q g) = None"
    if "handler_ok g" "hv_uid env \<notin> used_ids g" for g
  proof -
    have "hv_uid env |\<notin>| fmdom (iq_queues (sh_q g))" using that by (auto simp: handler_ok_def used_ids_def)
    then show ?thesis by (simp add: queue_of_def fmdom_notD)
  qed
  have "queue_of sid (sh_q h) = queue_of sid (sh_q h')" if "sid \<in> set (session_ids (own_rows u h @ ?new))" for sid
    using that new V(3) noq [OF ok(1) fresh(1)] noq [OF ok(2) fresh(2)] by auto
  then show "same_view u (snd (sh_CreateSession env a body h)) (snd (sh_CreateSession env a body h'))"
    using V C D aud [OF rows(1)] aud [OF rows(2)] fresh
    unfolding same_view_def rows by (simp add: with_rows_def queue_of_def)
qed

section \<open>Unwinding\<close>

text \<open>Reading: the answer to a user who is not an administrator is a function of their view.\<close>

lemma list_own:
  assumes "role \<noteq> ''admin''" "same_view u h h'"
  shows "sh_ListSessions env (Auth (Some (u, role))) st m h = sh_ListSessions env (Auth (Some (u, role))) st m h'"
proof -
  have "filter (\<lambda>s. sn_UserID s = u) (ListSessions rows) = ListSessions (filter (\<lambda>s. sn_UserID s = u) rows)"
    "filter (\<lambda>s. sn_UserID s = u) (ListSessionsByMachine m rows) = ListSessionsByMachine m (filter (\<lambda>s. sn_UserID s = u) rows)" for rows
    by (simp_all add: ListSessions_def ListSessionsByMachine_def filter_sort filter_filter conj_commute)
  with assms show ?thesis by (simp add: sh_ListSessions_def same_view_def own_rows_def Let_def del: filter_filter)
qed

text \<open>For such a user, a session of another is not found.\<close>

lemma hidden_session:
  assumes "handler_ok h" "sid \<notin> own_ids u h" "role \<noteq> ''admin''" "iq_getSession env sid (sh_q h) = Inr s"
  shows "\<not> authorizeSession (Auth (Some (u, role))) s"
  using assms get_own(2) [OF assms(1), of sid s u] own_session_None [of u sid h]
  by (auto simp: authorizeSession_def iq_getSession_def split: if_splits)

lemma hidden_answer:
  assumes "handler_ok h" "sid \<notin> own_ids u h" "role \<noteq> ''admin''"
  shows "sh_GetSession env (Auth (Some (u, role))) sid h = SErr 404 ''session not found''"
    and "sh_ListInjections env (Auth (Some (u, role))) sid h = SErr 404 ''session not found''"
    and "fst (sh_TerminateSession env (Auth (Some (u, role))) sid h) = SErr 404 ''session not found''"
    and "fst (sh_InjectSession env (Auth (Some (u, role))) sid body h) = SErr 404 ''session not found''"
  using hidden_session [OF assms, of "hv_inj env"]
  by (auto simp: sh_GetSession_def sh_ListInjections_def sh_TerminateSession_def sh_InjectSession_def split: sum.splits)

lemma read_own:
  assumes v: "same_view u h h'" and ok: "handler_ok h" "handler_ok h'" and own: "sid \<in> own_ids u h"
  shows "sh_GetSession env a sid h = sh_GetSession env a sid h'" "sh_ListInjections env a sid h = sh_ListInjections env a sid h'"
proof -
  obtain s where s: "GetSession sid (sh_sessions h) = Inr s" "GetSession sid (sh_sessions h') = Inr s"
    using same_view_own [OF v ok own] by blast
  then show "sh_GetSession env a sid h = sh_GetSession env a sid h'" by (simp add: sh_GetSession_def iq_getSession_def)
  have "filter (\<lambda>i. ij_SessionID i = sid) (iq_audit (sh_q g)) = filter (\<lambda>i. ij_SessionID i = sid) (own_audit u g)" if "sid \<in> own_ids u g" for g
    using that by (auto simp: own_audit_def intro!: filter_cong)
  with own s same_viewD [OF v] show "sh_ListInjections env a sid h = sh_ListInjections env a sid h'"
    by (simp add: sh_ListInjections_def iq_getSession_def ListInjectionsBySession_def)
qed

text \<open>Local respect: the request of another ordinary user leaves the view as it is.\<close>

lemma serve_foreign:
  assumes "handler_ok h" "call_fresh c h" "caller c \<noteq> u" "\<not> is_admin c"
  shows "same_view u h (snd (serve_call c h))"
proof -
  obtain env w role req where c: "c = (env, (w, role), req)" by (cases c) auto
  have f: "hv_uid env \<notin> used_ids h" "hv_uid env \<notin> set (map ij_InjectionID (iq_audit (sh_q h)))" "hv_queue env |\<notin>| fmdom (iq_heap (sh_q h))"
    using assms(2) by (auto simp: c call_fresh_def used_ids_def)
  have own: "same_view u h (snd (f h))"
    if "sid \<notin> own_ids u h \<Longrightarrow> same_view u h (snd (f h))"
      "sid \<notin> own_ids w h \<Longrightarrow> snd (f h) = h" for f :: "SessionHandler \<Rightarrow> session_response \<times> SessionHandler" and sid
  proof (cases "sid \<in> own_ids w h")
    case True
    then have "own_session w sid h \<noteq> None" by (simp add: own_session_None)
    then have "own_session u sid h = None"
      using assms(1,3) own_session_iff [OF assms(1)] by (cases "own_session u sid h") (force simp: c)+
    with that show ?thesis by (simp add: own_session_None)
  qed (simp add: that)
  have t: "snd (sh_TerminateSession env (Auth (Some (w, role))) sid h) = h" if "sid \<notin> own_ids w h" for sid
    using hidden_session [OF assms(1) that, of role "hv_inj env"] assms(4) by (auto simp: c sh_TerminateSession_def split: sum.splits)
  have i: "snd (sh_InjectSession env (Auth (Some (w, role))) sid body h) = h" if "sid \<notin> own_ids w h" for sid body
    using hidden_session [OF assms(1) that, of role "hv_inj env"] assms(4) by (auto simp: c sh_InjectSession_def split: sum.splits)
  show ?thesis
    using create_foreign [OF f(1), of "Auth (Some (w, role))" u] assms(3)
      own [where f = "sh_TerminateSession env (Auth (Some (w, role))) sid" and sid = sid for sid, OF terminate_foreign t]
      own [where f = "sh_InjectSession env (Auth (Some (w, role))) sid body" and sid = sid for sid body, OF inject_foreign [OF assms(1) _ f(2,3)] i]
    by (cases req) (simp_all add: serve_call_def serve_def c claims_of_def)
qed

text \<open>Step consistency: what a request does to a view, and what its user is told, depends on the view only.\<close>

lemma call_freshD:
  assumes "call_fresh (env, w, req) g"
  shows "hv_uid env \<notin> used_ids g" "hv_uid env \<notin> set (map ij_InjectionID (iq_audit (sh_q g)))" "hv_queue env |\<notin>| fmdom (iq_heap (sh_q g))"
  using assms by (auto simp: call_fresh_def used_ids_def)

lemma serve_view:
  assumes v: "same_view u h h'" and ok: "handler_ok h" "handler_ok h'" and fresh: "call_fresh c h" "call_fresh c h'"
  shows "same_view u (snd (serve_call c h)) (snd (serve_call c h'))"
proof -
  obtain env w role req where c: "c = (env, (w, role), req)" by (cases c) auto
  let ?a = "Auth (Some (w, role))"
  note F = call_freshD [OF fresh(1) [unfolded c]] and F' = call_freshD [OF fresh(2) [unfolded c]]
  have ids: "own_ids u h = own_ids u h'" using same_viewD(1) [OF v] by simp
  have join: "same_view u g g'" if "same_view u h g" "same_view u h' g'" for g g'
    using that v by (meson same_view_sym same_view_trans)
  have te: "same_view u (snd (sh_TerminateSession env ?a sid h)) (snd (sh_TerminateSession env ?a sid h'))" for sid
  proof (cases "sid \<in> own_ids u h")
    case False
    then show ?thesis using ids by (intro join [OF terminate_foreign terminate_foreign]) blast+
  qed (rule terminate_own(2) [OF v ok])
  have inj: "same_view u (snd (sh_InjectSession env ?a sid body h)) (snd (sh_InjectSession env ?a sid body h'))" for sid body
  proof (cases "sid \<in> own_ids u h")
    case True then show ?thesis using inject_own [OF v ok True F(2,3) F'(2,3)] by blast
  next
    case False
    then show ?thesis
      using ids by (intro join [OF inject_foreign [OF ok(1) _ F(2,3)] inject_foreign [OF ok(2) _ F'(2,3)]]) blast+
  qed
  show ?thesis
    using create_own(2) [OF v F(1) F'(1) ok, of ?a] te inj v by (cases req) (simp_all add: serve_call_def serve_def c)
qed

lemma serve_answer:
  assumes v: "same_view u h h'" and ok: "handler_ok h" "handler_ok h'" and fresh: "call_fresh c h" "call_fresh c h'"
    and u: "caller c = u" "\<not> is_admin c"
  shows "fst (serve_call c h) = fst (serve_call c h')"
proof -
  obtain env role req where c: "c = (env, (u, role), req)" using u(1) by (cases c) auto
  let ?a = "Auth (Some (u, role))"
  note F = call_freshD [OF fresh(1) [unfolded c]] and F' = call_freshD [OF fresh(2) [unfolded c]]
  have role: "role \<noteq> ''admin''" using u(2) by (simp add: c)
  note hidden = hidden_answer [OF _ _ role]
  have ids: "own_ids u h = own_ids u h'" using same_viewD(1) [OF v] by simp
  have "sh_GetSession env ?a sid h = sh_GetSession env ?a sid h' \<and> sh_ListInjections env ?a sid h = sh_ListInjections env ?a sid h' \<and>
      fst (sh_TerminateSession env ?a sid h) = fst (sh_TerminateSession env ?a sid h') \<and>
      fst (sh_InjectSession env ?a sid body h) = fst (sh_InjectSession env ?a sid body h')" for sid body
  proof (cases "sid \<in> own_ids u h")
    case True
    show ?thesis
      using read_own [OF v ok True] terminate_own(1) [OF v ok True] inject_own [OF v ok True F(2,3) F'(2,3)] by blast
  next
    case False
    then have False': "sid \<notin> own_ids u h'" using ids by blast
    show ?thesis by (simp only: hidden [OF ok(1) False] hidden [OF ok(2) False'] simp_thms)
  qed
  then show ?thesis
    using list_own [OF role v] create_own(1) [OF v F(1) F'(1) ok] by (cases req) (simp_all add: serve_call_def serve_def c)
qed

text \<open>A request keeps the tables well formed and uses up its own identifiers only.\<close>

lemma status_ids:
  "session_ids (map (\<lambda>r. if sn_SessionID r = sid then session_status_set now st r else r) rows) = session_ids rows"
  by (induction rows) (auto simp: session_status_set_def)

lemma handler_ok_mono:
  assumes "handler_ok h" "iq_queues (sh_q h') = iq_queues (sh_q h)" "iq_heap (sh_q h') = iq_heap (sh_q h)"
    and "distinct (session_ids (sh_sessions h'))" "set (session_ids (sh_sessions h)) \<subseteq> set (session_ids (sh_sessions h'))"
  shows "handler_ok h'"
  using assms(1,4,5) unfolding handler_ok_def assms(2,3) by blast

lemma create_grows:
  fixes a body
  assumes "handler_ok h" "hv_uid env \<notin> used_ids h"
  defines "h' \<equiv> snd (sh_CreateSession env a body h)"
  shows "handler_ok h' \<and> used_ids h' \<subseteq> insert (hv_uid env) (used_ids h) \<and> used_queues h' = used_queues h"
proof -
  have f: "hv_uid env \<notin> set (session_ids (sh_sessions h))" using assms(2) by (simp add: used_ids_def)
  let ?new = "snd (creation env a body h)"
  note C = sh_CreateSession_creation(2) [OF f, of a body, folded h'_def]
  have new: "set (session_ids ?new) \<subseteq> {hv_uid env}" using creation_rows [of _ env a body h] by auto
  have "distinct (session_ids ?new)" using creation_length [of env a body h] by (cases ?new) auto
  then have "distinct (session_ids (sh_sessions h'))"
  proof -
    have "set (session_ids (sh_sessions h)) \<inter> set (session_ids ?new) = {}" using new f by blast
    with \<open>distinct (session_ids ?new)\<close> assms(1) C show ?thesis
      unfolding with_rows_def handler_ok_def by (simp del: set_map)
  qed
  moreover have q: "iq_queues (sh_q h') = iq_queues (sh_q h)" "iq_heap (sh_q h') = iq_heap (sh_q h)" "iq_audit (sh_q h') = iq_audit (sh_q h)"
    using C by (simp_all add: with_rows_def)
  moreover have ids: "set (session_ids (sh_sessions h')) = set (session_ids (sh_sessions h)) \<union> set (session_ids ?new)"
    using C by (simp add: with_rows_def)
  ultimately have "handler_ok h'" by (intro handler_ok_mono [OF assms(1)]) blast+
  moreover have "used_ids h' \<subseteq> insert (hv_uid env) (used_ids h)" using new unfolding used_ids_def ids q by blast
  ultimately show ?thesis by (simp add: q)
qed

lemma terminate_grows:
  fixes env a sid
  assumes "handler_ok h"
  defines "h' \<equiv> snd (sh_TerminateSession env a sid h)"
  shows "handler_ok h' \<and> used_ids h' = used_ids h \<and> used_queues h' = used_queues h"
proof -
  have ids: "session_ids (sh_sessions h') = session_ids (sh_sessions h)"
    by (simp add: h'_def terminate_q status_ids del: map_map map_eq_conv)
  have q: "iq_queues (sh_q h') = iq_queues (sh_q h)" "iq_heap (sh_q h') = iq_heap (sh_q h)" "iq_audit (sh_q h') = iq_audit (sh_q h)"
    by (simp_all add: h'_def terminate_q)
  have "handler_ok h'" using assms(1) by (intro handler_ok_mono [OF assms(1) q(1,2)]) (simp_all only: ids handler_ok_def)
  then show ?thesis by (simp only: used_ids_def ids q simp_thms)
qed

lemma inject_grows:
  assumes "handler_ok h" "hv_uid env \<notin> used_ids h" "hv_queue env |\<notin>| fmdom (iq_heap (sh_q h))"
    and I: "sh_InjectSession env a sid body h = (r, h')"
  shows "handler_ok h' \<and> used_ids h' \<subseteq> insert (hv_uid env) (used_ids h) \<and> used_queues h' \<subseteq> insert (hv_queue env) (used_queues h)"
proof (cases "\<exists>sess. jv_getSession (hv_inj env) \<and> GetSession sid (sh_sessions h) = Inr sess \<and> inject_passes env a sess body h")
  case True
  then obtain sess where s: "jv_getSession (hv_inj env)" "GetSession sid (sh_sessions h) = Inr sess" "inject_passes env a sess body h"
    by blast
  have u: "hv_uid env \<notin> set (map ij_InjectionID (iq_audit (sh_q h)))" using assms(2) by (simp add: used_ids_def)
  note A = inject_accepted [OF assms(1) s u assms(3) I]
  have sid: "sn_SessionID sess = sid" "sid \<in> set (session_ids (sh_sessions h))" using GetSession_id [OF s(2)] by auto
  have "s' \<in> set (session_ids (sh_sessions h))" if q: "s' |\<in>| fmdom (iq_queues (sh_q h'))" for s'
  proof -
    have "queue_of s' (sh_q h') \<noteq> None" using q A(8) by (force simp: queue_of_def queues_ok_def fmlookup_dom_iff)
    then have "s' = sid \<or> queue_of s' (sh_q h) \<noteq> None" by (simp add: A(2) split: if_splits)
    moreover have "s' |\<in>| fmdom (iq_queues (sh_q h))" if "queue_of s' (sh_q h) \<noteq> None"
      using that by (auto simp: queue_of_def fmlookup_dom_iff split: Option.bind_splits)
    ultimately show ?thesis using assms(1) sid by (auto simp: handler_ok_def)
  qed
  with A assms(1) sid show ?thesis by (auto simp: handler_ok_queues used_ids_def)
next
  case False
  then have "h' = h"
    using inject_refused [of env sid h _ a body] assms(2) I
    by (cases "iq_getSession (hv_inj env) sid (sh_q h)")
      (auto simp: iq_getSession_def sh_InjectSession_def used_ids_def split: if_splits)
  with assms(1) show ?thesis by auto
qed

lemma serve_grows:
  assumes "handler_ok h" "call_fresh c h"
  shows "handler_ok (snd (serve_call c h))" "used_ids (snd (serve_call c h)) \<subseteq> insert (call_uid c) (used_ids h)"
    "used_queues (snd (serve_call c h)) \<subseteq> insert (call_queue c) (used_queues h)"
proof -
  obtain env w role req where c: "c = (env, (w, role), req)" by (cases c) auto
  note F = call_freshD [OF assms(2) [unfolded c]]
  let ?a = "Auth (Some (w, role))"
  have "handler_ok (snd (serve_call c h)) \<and> used_ids (snd (serve_call c h)) \<subseteq> insert (call_uid c) (used_ids h) \<and>
      used_queues (snd (serve_call c h)) \<subseteq> insert (call_queue c) (used_queues h)"
  proof (cases req)
    case (ReqInject sid body)
    obtain r h' where "sh_InjectSession env ?a sid body h = (r, h')" by fastforce
    with inject_grows [OF assms(1) F(1,3) this] show ?thesis by (simp add: serve_call_def serve_def c ReqInject)
  qed (use assms(1) create_grows [OF assms(1) F(1), of ?a] terminate_grows [OF assms(1), of env ?a] in
      \<open>auto simp: serve_call_def serve_def c\<close>)
  then show "handler_ok (snd (serve_call c h))" "used_ids (snd (serve_call c h)) \<subseteq> insert (call_uid c) (used_ids h)"
    "used_queues (snd (serve_call c h)) \<subseteq> insert (call_queue c) (used_queues h)" by blast+
qed

section \<open>Noninterference\<close>

text \<open>Identifiers and queue addresses are new: Go's \<open>uuid.New\<close> and \<open>make\<close>.\<close>

definition calls_fresh :: "call list \<Rightarrow> SessionHandler \<Rightarrow> bool" where
  "calls_fresh cs h \<longleftrightarrow> distinct (map call_uid cs) \<and> distinct (map call_queue cs) \<and> list_all (\<lambda>c. call_fresh c h) cs"

lemma calls_fresh_step:
  assumes "calls_fresh (c # cs) h" "handler_ok h"
  shows "call_fresh c h" "calls_fresh cs (snd (serve_call c h))"
proof -
  show c: "call_fresh c h" using assms by (simp add: calls_fresh_def)
  show "calls_fresh cs (snd (serve_call c h))"
    unfolding calls_fresh_def
  proof (intro conjI)
    have "call_fresh d (snd (serve_call c h))" if "d \<in> set cs" for d
    proof -
      have "call_fresh d h" "call_uid d \<noteq> call_uid c" "call_queue d \<noteq> call_queue c"
        using that assms(1) by (auto simp: calls_fresh_def list_all_iff image_iff)
      then show ?thesis using serve_grows(2,3) [OF assms(2) c] unfolding call_fresh_def by blast
    qed
    then show "list_all (\<lambda>c'. call_fresh c' (snd (serve_call c h))) cs" by (simp add: list_all_iff)
  qed (use assms(1) in \<open>simp_all add: calls_fresh_def\<close>)
qed

lemma calls_fresh_skip: "calls_fresh (c # cs) h \<Longrightarrow> calls_fresh cs h"
  by (simp add: calls_fresh_def)

lemma calls_fresh_filter: "calls_fresh cs h \<Longrightarrow> calls_fresh (filter P cs) h"
  by (auto simp: calls_fresh_def distinct_map_filter list_all_iff)

lemma unwinding:
  assumes "same_view u h h'" "handler_ok h" "handler_ok h'" "calls_fresh cs h" "calls_fresh cs h'"
    and "list_all (\<lambda>c. caller c = u \<longrightarrow> \<not> is_admin c) cs"
  shows "answers u (serve_all cs h) = answers u (serve_all (seen_by u cs) h')"
  using assms
proof (induction cs arbitrary: h h')
  case (Cons c cs)
  note S = calls_fresh_step [OF Cons.prems(4,2)] and S' = calls_fresh_step [OF Cons.prems(5,3)]
  note G = serve_grows(1) [OF Cons.prems(2) S(1)] and G' = serve_grows(1) [OF Cons.prems(3) S'(1)]
  show ?case
  proof (cases "caller c = u \<or> is_admin c")
    case True
    have "answers u (serve_all cs (snd (serve_call c h))) = answers u (serve_all (seen_by u cs) (snd (serve_call c h')))"
      using Cons.prems(6) by (intro Cons.IH serve_view Cons.prems S(1) S'(1) G G' S(2) S'(2)) simp_all
    moreover have "fst (serve_call c h) = fst (serve_call c h')" if "caller c = u"
      using Cons.prems(6) that by (intro serve_answer [OF Cons.prems(1-3) S(1) S'(1)]) simp_all
    ultimately show ?thesis using True by (auto simp: answers_def seen_by_def split_beta)
  next
    case False
    then have "same_view u h (snd (serve_call c h))" by (intro serve_foreign Cons.prems S(1)) simp_all
    then have "answers u (serve_all cs (snd (serve_call c h))) = answers u (serve_all (seen_by u cs) h')"
      using Cons.prems(1,6) by (intro Cons.IH G Cons.prems(3) S(2) calls_fresh_skip [OF Cons.prems(5)])
        (auto intro: same_view_trans same_view_sym)
    with False show ?thesis by (simp add: answers_def seen_by_def split_beta)
  qed
qed (simp add: seen_by_def)

text \<open>
  C21. Noninterference between users. Take any sequence of requests on sessions (create, list,
  read, terminate, inject text, read the audit records), by any users. What a user who is no
  administrator is answered is what they would have been answered had no other ordinary user ever made
  a request: others' sessions can be neither seen nor affected, nor be noticed through
  errors. Requests of administrators are kept, since these may act on any session. Hypotheses:
  the tables are well formed, and new identifiers are new.
\<close>

theorem sessions_isolated:
  assumes "handler_ok h" "calls_fresh cs h" "list_all (\<lambda>c. caller c = u \<longrightarrow> \<not> is_admin c) cs"
  shows "answers u (serve_all cs h) = answers u (serve_all (seen_by u cs) h)"
  using assms by (intro unwinding) simp_all

definition iso_s :: "string \<Rightarrow> string \<Rightarrow> Session" where
  "iso_s i u = session0\<lparr>sn_SessionID := i, sn_UserID := u, sn_Status := StatusRunning\<rparr>"

definition iso_h :: SessionHandler where
  "iso_h = \<lparr>sh_q = NewInjectionQueue (NewConnectionManager fmempty) [iso_s ''a'' ''ann'', iso_s ''b'' ''bob''] [], sh_hasQueue = True,
     sh_templates = [], sh_sent = [], sh_events = [], sh_publisher = False\<rparr>"

definition iso_env :: "nat \<Rightarrow> session_env" where
  "iso_env n = \<lparr>hv_inj = \<lparr>jv_now = 1, jv_getSession = True, jv_audit = True, jv_accepts = True, jv_reason = (\<lambda>m r. r)\<rparr>,
     hv_uid = replicate (n + 2) (CHR ''x''), hv_known = (\<lambda>_. True), hv_accepts = (\<lambda>_. True), hv_create = True, hv_update = True,
     hv_audit = True, hv_list = True, hv_order = [], hv_env = (\<lambda>_. []), hv_args = (\<lambda>_. []), hv_queue = n, hv_runes = (\<lambda>_. 0)\<rparr>"

definition iso_calls :: "call list" where
  "iso_calls = [(iso_env 0, (''bob'', ''user''), ReqTerminate ''a''), (iso_env 1, (''bob'', ''user''), ReqTerminate ''b''),
     (iso_env 2, (''ann'', ''user''), ReqGet ''b''), (iso_env 3, (''ann'', ''user''), ReqList '''' ''''),
     (iso_env 4, (''root'', ''admin''), ReqTerminate ''a''), (iso_env 5, (''ann'', ''user''), ReqGet ''a'')]"

lemmas iso_defs = iso_s_def iso_h_def iso_env_def iso_calls_def NewInjectionQueue_def session0_def NewConnectionManager_def

lemma iso_ok: "handler_ok iso_h" "calls_fresh iso_calls iso_h" "list_all (\<lambda>c. caller c = ''ann'' \<longrightarrow> \<not> is_admin c) iso_calls"
  by (simp_all add: iso_defs handler_ok_def calls_fresh_def call_fresh_def used_ids_def eval_nat_numeral)

lemma iso_answers: "answers ''ann'' (serve_all (seen_by ''ann'' iso_calls) iso_h) =
    [SErr 404 ''session not found'', SSessions [iso_s ''a'' ''ann''],
     SSession (session_status_set 1 StatusTerminated (iso_s ''a'' ''ann''))]"
  by (simp add: iso_defs seen_by_def serve_call_def serve_def answers_def sh_GetSession_def sh_ListSessions_def sh_TerminateSession_def
      iq_getSession_def GetSession_def authorizeSession_def ListSessions_def strip_secrets_def sh_setStatus_def sh_send_def GetAgent_def
      UpdateSessionStatus_def session_status_set_def put_rows_def sh_publishEvent_def terminal_status_def StatusTerminated_def
      StatusRunning_def StatusCompleted_def StatusFailed_def)

theorem sessions_isolated_witness:
  "answers ''ann'' (serve_all iso_calls iso_h) =
    [SErr 404 ''session not found'', SSessions [iso_s ''a'' ''ann''],
     SSession (session_status_set 1 StatusTerminated (iso_s ''a'' ''ann''))]"
  using sessions_isolated [OF iso_ok] iso_answers by simp

end
