(* ===== verification/Reaper.thy ===== *)
theory Reaper
  imports Session_Executor Event_Bus
begin

text \<open>
  The reaper of stale sessions (\<open>reaper/reaper.go\<close>) with the table of user preferences it
  reads (\<open>store/preferences.go\<close>). A sweep reads the clock once per list of sessions and once per row
  it writes; these readings, the outcome of store calls and the decoding of the preferences
  are arguments. The theorem says which sessions a sweep terminates.
\<close>

section \<open>The sweep\<close>

definition minute :: time where "minute = 60 * second"

definition DefaultStaleTimeout :: int where "DefaultStaleTimeout = 4320"

definition staleCreatedTimeout :: time where "staleCreatedTimeout = 5 * minute"

record Reaper =
  rp_sessions :: "Session list"
  rp_prefs :: "(string, string) fmap"
  rp_connMgr :: ConnectionManager
  rp_publisher :: bool
  rp_sent :: "(string \<times> ServerCommand) list"
  rp_events :: "Event list"

text \<open>\<open>rv_decode\<close> decodes \<open>prefsPayload\<close>: \<open>None\<close> when it fails, \<open>Some None\<close> without the field.\<close>

record reaper_env =
  rv_idleNow :: time
  rv_createdNow :: time
  rv_clock :: "string \<Rightarrow> time"
  rv_uid :: "string \<Rightarrow> string"
  rv_listIdle :: bool
  rv_listCreated :: bool
  rv_readPrefs :: "string \<Rightarrow> bool"
  rv_decode :: "string \<Rightarrow> int option option"
  rv_update :: "string \<Rightarrow> bool"
  rv_accepts :: "ServerCommand \<Rightarrow> bool"

definition GetUserPreferences :: "string \<Rightarrow> (string, string) fmap \<Rightarrow> string" where
  "GetUserPreferences userID prefs = getd ''{}'' prefs userID"

definition UpsertUserPreferences :: "string \<Rightarrow> string \<Rightarrow> (string, string) fmap \<Rightarrow> (string, string) fmap" where
  "UpsertUserPreferences userID p prefs = fmupd userID p prefs"

definition loadUserTimeout :: "reaper_env \<Rightarrow> string \<Rightarrow> Reaper \<Rightarrow> int" where
  "loadUserTimeout env userID r =
     (if \<not> rv_readPrefs env userID then DefaultStaleTimeout
      else case rv_decode env (GetUserPreferences userID (rp_prefs r)) of
             Some (Some n) \<Rightarrow> n
           | _ \<Rightarrow> DefaultStaleTimeout)"

definition reaper_kill :: "reaper_env \<Rightarrow> Session \<Rightarrow> Reaper \<Rightarrow> Reaper" where
  "reaper_kill env sess r =
     (let cmd = CmdKillSession (sn_SessionID sess) ''SIGTERM''
      in case GetAgent (sn_MachineID sess) (rp_connMgr r) of
           None \<Rightarrow> r
         | Some _ \<Rightarrow> if rv_accepts env cmd then r\<lparr>rp_sent := rp_sent r @ [(sn_MachineID sess, cmd)]\<rparr> else r)"

definition terminateSession :: "reaper_env \<Rightarrow> Session \<Rightarrow> Reaper \<Rightarrow> Reaper" where
  "terminateSession env sess r =
     (let r = reaper_kill env sess r; sid = sn_SessionID sess
      in case (if rv_update env sid then UpdateSessionStatus (rv_clock env sid) sid StatusTerminated (rp_sessions r)
               else Inl ErrUnavailable) of
           Inl _ \<Rightarrow> r
         | Inr rows \<Rightarrow>
             (let r = r\<lparr>rp_sessions := rows\<rparr>
              in if rp_publisher r
                 then r\<lparr>rp_events := rp_events r @ [NewSessionEvent (rv_uid env sid) (rv_clock env sid) ''session.terminated'' sid
                          (sn_MachineID sess) '''' '''']\<rparr>
                 else r))"

text \<open>The loop over waiting sessions, with its cache of the users' timeouts.\<close>

fun idle_loop :: "reaper_env \<Rightarrow> (string, int) fmap \<Rightarrow> Session list \<Rightarrow> Reaper \<Rightarrow> Reaper" where
  "idle_loop env userTimeouts [] r = r"
| "idle_loop env userTimeouts (sess # rest) r =
     (let timeout = (case fmlookup userTimeouts (sn_UserID sess) of Some t \<Rightarrow> t | None \<Rightarrow> loadUserTimeout env (sn_UserID sess) r);
          userTimeouts = fmupd (sn_UserID sess) timeout userTimeouts
      in if timeout \<le> 0 then idle_loop env userTimeouts rest r
         else if rv_idleNow env - sn_UpdatedAt sess > int64 (timeout * minute)
              then idle_loop env userTimeouts rest (terminateSession env sess r)
              else idle_loop env userTimeouts rest r)"

definition sweepIdleSessions :: "reaper_env \<Rightarrow> Reaper \<Rightarrow> Reaper" where
  "sweepIdleSessions env r =
     (if rv_listIdle env then idle_loop env fmempty (ListSessionsByStatus StatusWaitingForInput (rp_sessions r)) r else r)"

definition sweepStaleSessions :: "reaper_env \<Rightarrow> Reaper \<Rightarrow> Reaper" where
  "sweepStaleSessions env r =
     (if rv_listCreated env
      then fold (\<lambda>sess r. if rv_createdNow env - sn_UpdatedAt sess > staleCreatedTimeout then terminateSession env sess r else r)
             (ListSessionsByStatus StatusCreated (rp_sessions r)) r
      else r)"

definition reaper_sweep :: "reaper_env \<Rightarrow> Reaper \<Rightarrow> Reaper" where
  "reaper_sweep env r = sweepStaleSessions env (sweepIdleSessions env r)"

section \<open>What a sweep does\<close>

text \<open>A session that has waited longer than its user's limit, or was never started.\<close>

definition idle_too_long :: "reaper_env \<Rightarrow> Reaper \<Rightarrow> Session \<Rightarrow> bool" where
  "idle_too_long env r s \<longleftrightarrow>
     (let limit = loadUserTimeout env (sn_UserID s) r in 0 < limit \<and> rv_idleNow env - sn_UpdatedAt s > limit * minute)"

definition never_started :: "reaper_env \<Rightarrow> Session \<Rightarrow> bool" where
  "never_started env s \<longleftrightarrow> rv_createdNow env - sn_UpdatedAt s > staleCreatedTimeout"

definition overdue :: "reaper_env \<Rightarrow> Reaper \<Rightarrow> Session \<Rightarrow> bool" where
  "overdue env r s \<longleftrightarrow>
     (sn_Status s = StatusWaitingForInput \<and> rv_listIdle env \<and> idle_too_long env r s) \<or>
     (sn_Status s = StatusCreated \<and> rv_listCreated env \<and> never_started env s)"

text \<open>Both loops are a fold that terminates the sessions satisfying a test.\<close>

definition reap :: "reaper_env \<Rightarrow> (Session \<Rightarrow> bool) \<Rightarrow> Session list \<Rightarrow> Reaper \<Rightarrow> Reaper" where
  "reap env P ss r = fold (terminateSession env) (filter P ss) r"

definition reaped_row :: "reaper_env \<Rightarrow> Session \<Rightarrow> Session" where
  "reaped_row env s = (if rv_update env (sn_SessionID s) then session_status_set (rv_clock env (sn_SessionID s)) StatusTerminated s else s)"

lemma terminate_rest [simp]:
  "rp_prefs (terminateSession env s r) = rp_prefs r" "rp_connMgr (terminateSession env s r) = rp_connMgr r"
  "rp_publisher (terminateSession env s r) = rp_publisher r"
  by (auto simp: terminateSession_def reaper_kill_def Let_def split: option.splits sum.splits if_splits)

lemma reap_rest [simp]: "rp_prefs (reap env P ss r) = rp_prefs r" "rp_connMgr (reap env P ss r) = rp_connMgr r"
  by (induction ss arbitrary: r) (auto simp: reap_def)

lemma loadUserTimeout_cong: "rp_prefs r = rp_prefs r' \<Longrightarrow> loadUserTimeout env u r = loadUserTimeout env u r'"
  by (simp add: loadUserTimeout_def)

text \<open>The cache never changes the outcome.\<close>

lemma idle_loop_reap:
  assumes "\<And>u t. fmlookup cache u = Some t \<Longrightarrow> t = loadUserTimeout env u r"
  shows "idle_loop env cache ss r =
    reap env (\<lambda>s. 0 < loadUserTimeout env (sn_UserID s) r \<and>
                  rv_idleNow env - sn_UpdatedAt s > int64 (loadUserTimeout env (sn_UserID s) r * minute)) ss r"
  using assms
proof (induction ss arbitrary: cache r)
  case (Cons s ss)
  let ?t = "loadUserTimeout env (sn_UserID s) r"
  have t: "(case fmlookup cache (sn_UserID s) of Some t \<Rightarrow> t | None \<Rightarrow> ?t) = ?t"
    using Cons.prems by (auto split: option.splits)
  have c: "t = loadUserTimeout env u r" if "fmlookup (fmupd (sn_UserID s) ?t cache) u = Some t" for u t
    using that Cons.prems by (auto split: if_splits)
  have same: "loadUserTimeout env u (terminateSession env s r) = loadUserTimeout env u r" for u
    by (rule loadUserTimeout_cong) simp
  let ?cache = "fmupd (sn_UserID s) ?t cache"
  let ?P = "\<lambda>s. 0 < loadUserTimeout env (sn_UserID s) r \<and>
                rv_idleNow env - sn_UpdatedAt s > int64 (loadUserTimeout env (sn_UserID s) r * minute)"
  have keep: "idle_loop env ?cache ss r = reap env ?P ss r" by (rule Cons.IH) (rule c)
  have stop: "idle_loop env ?cache ss (terminateSession env s r) = reap env ?P ss (terminateSession env s r)"
    by (rule Cons.IH [of ?cache "terminateSession env s r", unfolded same]) (rule c)
  show ?case using keep stop by (simp add: t Let_def reap_def not_le)
qed (simp add: reap_def)

lemma terminate_rows:
  assumes "sn_SessionID s \<in> set (session_ids (rp_sessions r))"
  shows "rp_sessions (terminateSession env s r) =
    map (\<lambda>x. if sn_SessionID x = sn_SessionID s then reaped_row env x else x) (rp_sessions r)"
proof (cases "rv_update env (sn_SessionID s)")
  case False
  then have "map (\<lambda>x. if sn_SessionID x = sn_SessionID s then reaped_row env x else x) (rp_sessions r) = rp_sessions r"
    by (intro map_idI) (auto simp: reaped_row_def)
  with False show ?thesis by (simp add: terminateSession_def reaper_kill_def Let_def split: option.split)
next
  case True
  with assms show ?thesis
    by (auto simp: terminateSession_def reaper_kill_def UpdateSessionStatus_def reaped_row_def Let_def split: option.split)
qed

lemma terminate_ids [simp]: "session_ids (rp_sessions (terminateSession env s r)) = session_ids (rp_sessions r)"
  by (auto simp: terminateSession_def reaper_kill_def UpdateSessionStatus_def session_status_set_def Let_def
      split: option.splits sum.splits if_splits)

lemma terminate_id_set [simp]: "sn_SessionID ` set (rp_sessions (terminateSession env s r)) = sn_SessionID ` set (rp_sessions r)"
  by (metis list.set_map terminate_ids)

lemma reaped_id [simp]: "sn_SessionID (reaped_row env s) = sn_SessionID s"
  by (simp add: reaped_row_def session_status_set_def)

lemma reap_rows:
  assumes "set (session_ids ss) \<subseteq> set (session_ids (rp_sessions r))" "distinct (session_ids ss)"
  shows "rp_sessions (reap env P ss r) =
    map (\<lambda>x. if sn_SessionID x \<in> sn_SessionID ` {s \<in> set ss. P s} then reaped_row env x else x) (rp_sessions r)"
  using assms
proof (induction ss arbitrary: r)
  case (Cons s ss)
  let ?r = "if P s then terminateSession env s r else r"
  have "reap env P (s # ss) r = reap env P ss ?r" by (simp add: reap_def)
  moreover have "rp_sessions (reap env P ss ?r) =
      map (\<lambda>x. if sn_SessionID x \<in> sn_SessionID ` {s \<in> set ss. P s} then reaped_row env x else x) (rp_sessions ?r)"
    using Cons.prems by (intro Cons.IH) simp_all
  moreover have "rp_sessions ?r = map (\<lambda>x. if P s \<and> sn_SessionID x = sn_SessionID s then reaped_row env x else x) (rp_sessions r)"
    using Cons.prems by (simp add: terminate_rows)
  moreover have "sn_SessionID s \<notin> sn_SessionID ` {s \<in> set ss. P s}" using Cons.prems(2) by auto
  ultimately show ?case by (auto intro!: map_cong simp: reaped_row_def session_status_set_def)
qed (simp add: reap_def)

lemma set_ListSessionsByStatus [simp]: "set (ListSessionsByStatus st rows) = {s \<in> set rows. sn_Status s = st}"
  by (simp add: ListSessionsByStatus_def ListSessions_def)

lemma distinct_ListSessionsByStatus:
  assumes "distinct (session_ids rows)"
  shows "distinct (session_ids (ListSessionsByStatus st rows))"
proof -
  have "inj_on sn_SessionID (set rows)" "distinct rows" using assms by (simp_all add: distinct_map)
  then show ?thesis by (auto simp: ListSessionsByStatus_def ListSessions_def distinct_map inj_on_def)
qed

text \<open>One pass over the sessions with a status.\<close>

lemma reap_status_rows:
  assumes d: "distinct (session_ids (rp_sessions r))"
  shows "rp_sessions (reap env P (ListSessionsByStatus st (rp_sessions r)) r) =
    map (\<lambda>x. if sn_Status x = st \<and> P x then reaped_row env x else x) (rp_sessions r)"
proof -
  have same: "sn_SessionID x \<in> sn_SessionID ` {s \<in> set (ListSessionsByStatus st (rp_sessions r)). P s} \<longleftrightarrow> sn_Status x = st \<and> P x"
    if "x \<in> set (rp_sessions r)" for x
    using that d by (auto simp: distinct_map dest: inj_onD)
  have "set (session_ids (ListSessionsByStatus st (rp_sessions r))) \<subseteq> set (session_ids (rp_sessions r))" by auto
  from reap_rows [OF this distinct_ListSessionsByStatus [OF d]] show ?thesis
    by (simp only:) (intro map_cong refl, simp only: same)
qed

lemma fold_if_filter: "fold (\<lambda>x r. if P x then f x r else r) xs r = fold f (filter P xs) r"
  by (induction xs arbitrary: r) auto

lemma sweepStale_reap:
  "sweepStaleSessions env r =
    (if rv_listCreated env then reap env (never_started env) (ListSessionsByStatus StatusCreated (rp_sessions r)) r else r)"
  by (simp add: sweepStaleSessions_def reap_def never_started_def [abs_def] fold_if_filter)

lemma minute_int64:
  assumes "0 < n" "n \<le> 525960"
  shows "int64 (n * minute) = n * minute"
  using assms by (simp add: int64_def minute_def second_def)

lemma sweepIdle_reap:
  assumes "\<And>u. loadUserTimeout env u r \<le> 525960"
  shows "sweepIdleSessions env r =
    (if rv_listIdle env then reap env (idle_too_long env r) (ListSessionsByStatus StatusWaitingForInput (rp_sessions r)) r else r)"
proof -
  have "(0 < loadUserTimeout env (sn_UserID s) r \<and>
      rv_idleNow env - sn_UpdatedAt s > int64 (loadUserTimeout env (sn_UserID s) r * minute)) = idle_too_long env r s" for s
    using assms minute_int64 [of "loadUserTimeout env (sn_UserID s) r"] by (auto simp: idle_too_long_def Let_def)
  then show ?thesis
    using idle_loop_reap [of fmempty env r "ListSessionsByStatus StatusWaitingForInput (rp_sessions r)"]
    by (simp add: sweepIdleSessions_def)
qed

text \<open>
  C26. A sweep of the reaper terminates exactly the overdue sessions. Sessions that wait for
  input are overdue when they have waited longer than the limit their user has set (three
  days if there is no setting, never if it is not positive), created sessions after
  five minutes. An overdue row becomes \<open>terminated\<close> with the time of the change, unless the
  update fails, and every other row is left as it was. The hypotheses are the primary key of
  the table and the range the settings are checked against when they are stored.
\<close>

theorem reaper_exact:
  assumes "distinct (session_ids (rp_sessions r))"
    and "\<And>u. loadUserTimeout env u r \<le> 525960"
  shows "rp_sessions (reaper_sweep env r) = map (\<lambda>s. if overdue env r s then reaped_row env s else s) (rp_sessions r)"
proof -
  let ?m = "sweepIdleSessions env r"
  have m: "rp_sessions ?m = map (\<lambda>s. if sn_Status s = StatusWaitingForInput \<and> rv_listIdle env \<and> idle_too_long env r s
      then reaped_row env s else s) (rp_sessions r)"
    using reap_status_rows [OF assms(1), of env "idle_too_long env r"] by (simp add: sweepIdle_reap [OF assms(2)])
  then have ids: "session_ids (rp_sessions ?m) = session_ids (rp_sessions r)" by simp
  have "rp_sessions (reaper_sweep env r) =
      map (\<lambda>s. if sn_Status s = StatusCreated \<and> rv_listCreated env \<and> never_started env s then reaped_row env s else s) (rp_sessions ?m)"
    using reap_status_rows [of ?m env "never_started env"] assms(1) by (simp add: reaper_sweep_def sweepStale_reap ids)
  then show ?thesis unfolding m
    by (auto simp: overdue_def reaped_row_def session_status_set_def StatusWaitingForInput_def StatusCreated_def StatusTerminated_def)
qed

definition rp_s :: "string \<Rightarrow> string \<Rightarrow> time \<Rightarrow> Session" where
  "rp_s i st t = session0\<lparr>sn_SessionID := i, sn_UserID := ''u'', sn_Status := st, sn_UpdatedAt := t\<rparr>"

definition rp1 :: Reaper where
  "rp1 = \<lparr>rp_sessions = [rp_s ''a'' StatusWaitingForInput 0, rp_s ''b'' StatusWaitingForInput (2 * minute), rp_s ''c'' StatusCreated 0],
     rp_prefs = fmupd ''u'' ''1'' fmempty, rp_connMgr = NewConnectionManager fmempty, rp_publisher = False, rp_sent = [], rp_events = []\<rparr>"

definition rpenv :: reaper_env where
  "rpenv = \<lparr>rv_idleNow = 3 * minute, rv_createdNow = 3 * minute, rv_clock = (\<lambda>_. 3 * minute), rv_uid = (\<lambda>i. i), rv_listIdle = True,
     rv_listCreated = True, rv_readPrefs = (\<lambda>_. True), rv_decode = (\<lambda>p. Some (if p = ''1'' then Some 1 else None)),
     rv_update = (\<lambda>_. True), rv_accepts = (\<lambda>_. True)\<rparr>"

lemma rp1_timeout: "loadUserTimeout rpenv u rp1 \<le> 525960"
  by (simp add: loadUserTimeout_def rpenv_def rp1_def GetUserPreferences_def DefaultStaleTimeout_def getd_def)

theorem reaper_exact_witness:
  "map sn_Status (rp_sessions (reaper_sweep rpenv rp1)) = [StatusTerminated, StatusWaitingForInput, StatusCreated]"
  by (subst reaper_exact)
    (simp_all add: rp1_timeout, simp_all add: rp1_def rpenv_def rp_s_def session0_def overdue_def idle_too_long_def never_started_def
      loadUserTimeout_def GetUserPreferences_def DefaultStaleTimeout_def getd_def reaped_row_def session_status_set_def
      staleCreatedTimeout_def minute_def second_def StatusWaitingForInput_def StatusCreated_def StatusTerminated_def Let_def)

end
