(* ===== verification/Content_Ingest.thy ===== *)
theory Content_Ingest
  imports Go_Strings "HOL-Library.Multiset"
begin

text \<open>
  Indexing of terminal output for search (\<open>ingest/content.go\<close> with the tables of
  \<open>store/content.go\<close> it writes): output arrives in pieces, is freed from escape
  sequences, cut into numbered lines and written in batches. Each critical section of a buffer is a
  step, a batch taken out of a buffer is written in a step of its own, so that writes of
  several batches may overtake each other. The theorem says that the table then holds the lines of
  the whole text, however it was cut into pieces and batches.
\<close>

section \<open>Escape sequences\<close>

definition ESC :: char where "ESC = CHR 27"
definition BEL :: char where "BEL = CHR 7"

definition ascii_letter :: "char \<Rightarrow> bool" where
  "ascii_letter c \<longleftrightarrow> (let b = (of_char c :: nat) in 65 \<le> b \<and> b \<le> 90 \<or> 97 \<le> b \<and> b \<le> 122)"

text \<open>The alternatives of \<open>ansiPattern\<close> in their order; each gives the length of its match.\<close>

definition csi_match :: "string \<Rightarrow> nat option" where
  "csi_match s =
     (let params = takeWhile (\<lambda>c. c \<in> set ''0123456789;?'') (drop 2 s); rest = drop (2 + length params) s
      in if take 2 s = [ESC, CHR ''['']  \<and> rest \<noteq> [] \<and>
            ascii_letter (hd rest)
         then Some (3 + length params) else None)"

definition osc_match :: "string \<Rightarrow> nat option" where
  "osc_match s =
     (let body = takeWhile (\<lambda>c. c \<noteq> BEL \<and> c \<noteq> ESC) (drop 2 s); rest = drop (2 + length body) s
      in if take 2 s \<noteq> [ESC, CHR '']''] then None
         else if take 1 rest = [BEL] then Some (3 + length body)
         else if take 2 rest = [ESC, CHR 92] then Some (4 + length body)
         else None)"

definition charset_match :: "string \<Rightarrow> nat option" where
  "charset_match s =
     (case s of
        a # b # c # _ \<Rightarrow> if a = ESC \<and> b \<in> set ''()'' \<and> c \<in> set ''0123456789AB'' then Some 3 else None
      | _ \<Rightarrow> None)"

definition single_match :: "string \<Rightarrow> nat option" where
  "single_match s =
     (case s of
        a # b # t \<Rightarrow> if a = ESC \<and> b \<notin> set ''[]()0123456789AB'' then Some (1 + rune_width (b # t)) else None
      | _ \<Rightarrow> None)"

definition control_match :: "string \<Rightarrow> nat option" where
  "control_match s =
     (case s of
        a # _ \<Rightarrow> if (of_char a :: nat) < 32 \<and> a \<notin> {CHR 9, CHR 10, CHR 13} then Some 1 else None
      | _ \<Rightarrow> None)"

definition ansiPattern :: "string \<Rightarrow> nat option" where
  "ansiPattern s =
     (case csi_match s of Some n \<Rightarrow> Some n | None \<Rightarrow>
      case osc_match s of Some n \<Rightarrow> Some n | None \<Rightarrow>
      case charset_match s of Some n \<Rightarrow> Some n | None \<Rightarrow>
      case single_match s of Some n \<Rightarrow> Some n | None \<Rightarrow> control_match s)"

lemma ansiPattern_pos: "ansiPattern s = Some n \<Longrightarrow> 0 < n \<and> s \<noteq> []"
  by (auto simp: ansiPattern_def csi_match_def osc_match_def charset_match_def single_match_def control_match_def Let_def
      split: option.splits list.splits if_splits)

text \<open>\<open>ReplaceAll\<close> with nothing: the leftmost match is removed, then the next one after it.\<close>

function stripANSI :: "string \<Rightarrow> string" where
  "stripANSI s =
     (case ansiPattern s of
        Some n \<Rightarrow> stripANSI (drop n s)
      | None \<Rightarrow> (case s of [] \<Rightarrow> [] | c # t \<Rightarrow> c # stripANSI t))"
  by auto
termination by (relation "measure length") (auto dest: ansiPattern_pos)

declare stripANSI.simps [simp del]

section \<open>The ingestor\<close>

record ContentLine =
  cl_SessionID :: string
  cl_LineNumber :: nat
  cl_Content :: string

text \<open>\<open>lb_seen\<close>, \<open>ci_lost\<close> and \<open>ci_ended\<close> are history: the text of a buffer, lines whose write
  failed and the texts of sessions that were flushed.\<close>

record lineBuffer =
  lb_lineCount :: nat
  lb_partial :: string
  lb_batch :: "ContentLine list"
  lb_seen :: string

record ContentIngestor =
  ci_buffers :: "(string, lineBuffer) fmap"
  ci_writing :: "ContentLine list list"
  ci_lines :: "ContentLine list"
  ci_meta :: "(string, nat) fmap"
  ci_lost :: "ContentLine list"
  ci_ended :: "(string \<times> string) list"

definition batchFlushSize :: nat where "batchFlushSize = 100"

definition NewContentIngestor :: "ContentLine list \<Rightarrow> ContentIngestor" where
  "NewContentIngestor rows = \<lparr>ci_buffers = fmempty, ci_writing = [], ci_lines = rows, ci_meta = fmempty, ci_lost = [], ci_ended = []\<rparr>"

definition buffer0 :: lineBuffer where
  "buffer0 = \<lparr>lb_lineCount = 0, lb_partial = [], lb_batch = [], lb_seen = []\<rparr>"

definition trim_cr :: "string \<Rightarrow> string" where
  "trim_cr l = rev (dropWhile (\<lambda>c. c = CHR 13) (rev l))"

definition content_line :: "string \<Rightarrow> nat \<Rightarrow> string \<Rightarrow> ContentLine" where
  "content_line sid n l = \<lparr>cl_SessionID = sid, cl_LineNumber = n, cl_Content = trim_cr l\<rparr>"

text \<open>The loop that splits at newlines.\<close>

function split_loop :: "string \<Rightarrow> string \<Rightarrow> lineBuffer \<Rightarrow> lineBuffer" where
  "split_loop sid combined buf =
     (case Index combined [CHR 10] of
        None \<Rightarrow> buf\<lparr>lb_partial := combined\<rparr>
      | Some idx \<Rightarrow>
          split_loop sid (drop (idx + 1) combined)
            (buf\<lparr>lb_lineCount := lb_lineCount buf + 1,
                 lb_batch := lb_batch buf @ [content_line sid (lb_lineCount buf + 1) (take idx combined)]\<rparr>))"
  by auto
termination
proof (relation "measure (\<lambda>(sid, s, buf). length s)")
  fix sid combined :: string and buf :: lineBuffer and idx
  assume "Index combined [CHR 10] = Some idx"
  then have "combined \<noteq> []" by (cases combined) auto
  then show "((sid, drop (idx + 1) combined,
      buf\<lparr>lb_lineCount := lb_lineCount buf + 1, lb_batch := lb_batch buf @ [content_line sid (lb_lineCount buf + 1) (take idx combined)]\<rparr>),
      (sid, combined, buf)) \<in> measure (\<lambda>(sid, s, buf). length s)" by simp
qed simp

declare split_loop.simps [simp del]

definition Ingest :: "string \<Rightarrow> string \<Rightarrow> ContentIngestor \<Rightarrow> ContentIngestor" where
  "Ingest sid data ci =
     (let stripped = stripANSI data
      in if data = [] \<or> stripped = [] then ci
         else let buf = getd buffer0 (ci_buffers ci) sid;
                  buf = (split_loop sid (lb_partial buf @ stripped) buf)\<lparr>lb_seen := lb_seen buf @ stripped\<rparr>
              in if batchFlushSize \<le> length (lb_batch buf)
                 then ci\<lparr>ci_buffers := fmupd sid (buf\<lparr>lb_batch := []\<rparr>) (ci_buffers ci), ci_writing := ci_writing ci @ [lb_batch buf]\<rparr>
                 else ci\<lparr>ci_buffers := fmupd sid buf (ci_buffers ci)\<rparr>)"

text \<open>\<open>ok\<close>: whether \<open>UpsertContentMeta\<close> succeeds.\<close>

definition FlushSession :: "bool \<Rightarrow> string \<Rightarrow> ContentIngestor \<Rightarrow> ContentIngestor" where
  "FlushSession ok sid ci =
     (case fmlookup (ci_buffers ci) sid of
        None \<Rightarrow> ci
      | Some buf \<Rightarrow>
          (let seen = lb_seen buf;
               buf = (if lb_partial buf \<noteq> []
                      then buf\<lparr>lb_lineCount := lb_lineCount buf + 1,
                               lb_batch := lb_batch buf @ [content_line sid (lb_lineCount buf + 1) (lb_partial buf)], lb_partial := []\<rparr>
                      else buf)
           in ci\<lparr>ci_writing := (if lb_batch buf \<noteq> [] then ci_writing ci @ [lb_batch buf] else ci_writing ci),
                 ci_meta := (if 0 < lb_lineCount buf \<and> ok then fmupd sid (lb_lineCount buf) (ci_meta ci) else ci_meta ci),
                 ci_buffers := fmdrop sid (ci_buffers ci), ci_ended := (sid, seen) # ci_ended ci\<rparr>))"

text \<open>The ticker and \<open>Close\<close> empty the batch of every buffer, one after the other.\<close>

definition take_batch :: "string \<Rightarrow> ContentIngestor \<Rightarrow> ContentIngestor" where
  "take_batch sid ci =
     (case fmlookup (ci_buffers ci) sid of
        None \<Rightarrow> ci
      | Some buf \<Rightarrow>
          if lb_batch buf = [] then ci
          else ci\<lparr>ci_buffers := fmupd sid (buf\<lparr>lb_batch := []\<rparr>) (ci_buffers ci), ci_writing := ci_writing ci @ [lb_batch buf]\<rparr>)"

definition flushLoop :: "string list \<Rightarrow> ContentIngestor \<Rightarrow> ContentIngestor" where
  "flushLoop order ci = fold take_batch order ci"

definition ci_Close :: "string list \<Rightarrow> ContentIngestor \<Rightarrow> ContentIngestor" where
  "ci_Close order ci = fold take_batch order ci"

text \<open>\<open>InsertContentLines\<close> is one transaction.\<close>

definition InsertContentLines :: "ContentLine list \<Rightarrow> ContentLine list \<Rightarrow> ContentLine list" where
  "InsertContentLines batch rows = rows @ batch"

definition writeBatch :: "bool \<Rightarrow> nat \<Rightarrow> ContentIngestor \<Rightarrow> ContentIngestor" where
  "writeBatch ok k ci =
     (let batch = ci_writing ci ! k; ci = ci\<lparr>ci_writing := take k (ci_writing ci) @ drop (Suc k) (ci_writing ci)\<rparr>
      in if ok then ci\<lparr>ci_lines := InsertContentLines batch (ci_lines ci)\<rparr> else ci\<lparr>ci_lost := ci_lost ci @ batch\<rparr>)"

section \<open>The reference\<close>

text \<open>The complete lines of a text and what follows the last newline.\<close>

fun split_lines :: "string \<Rightarrow> string list \<times> string" where
  "split_lines [] = ([], [])"
| "split_lines (c # s) =
     (case split_lines s of
        (ls, r) \<Rightarrow>
          if c = CHR 10 then ([] # ls, r)
          else case ls of [] \<Rightarrow> ([], c # r) | l # ls' \<Rightarrow> ((c # l) # ls', r))"

fun numbered :: "string \<Rightarrow> nat \<Rightarrow> string list \<Rightarrow> ContentLine list" where
  "numbered sid n [] = []"
| "numbered sid n (l # ls) = content_line sid n l # numbered sid (Suc n) ls"

definition whole_lines :: "string \<Rightarrow> string list" where
  "whole_lines s = (case split_lines s of (ls, r) \<Rightarrow> if r = [] then ls else ls @ [r])"

lemma numbered_append [simp]: "numbered sid n (ls @ ls') = numbered sid n ls @ numbered sid (n + length ls) ls'"
  by (induction ls arbitrary: n) auto

lemma split_lines_plain: "CHR 10 \<notin> set s \<Longrightarrow> split_lines s = ([], s)"
  by (induction s) auto

lemma split_lines_newline: "CHR 10 \<notin> set a \<Longrightarrow> split_lines (a @ CHR 10 # b) = (a # fst (split_lines b), snd (split_lines b))"
  by (induction a) (auto split: prod.splits)

lemma split_lines_append:
  "split_lines (a @ b) =
     (fst (split_lines a) @ fst (split_lines (snd (split_lines a) @ b)), snd (split_lines (snd (split_lines a) @ b)))"
  by (induction a) (auto split: prod.splits list.splits)

lemma split_lines_rest: "CHR 10 \<notin> set (snd (split_lines s))"
  by (induction s) (auto split: prod.splits list.splits)

lemma Index_newline:
  "Index s [CHR 10] = Some i \<Longrightarrow> s = take i s @ CHR 10 # drop (i + 1) s \<and> CHR 10 \<notin> set (take i s)"
  "Index s [CHR 10] = None \<Longrightarrow> CHR 10 \<notin> set s"
  by (induction s arbitrary: i) (auto simp: HasPrefix_def split: if_splits option.splits)

lemma split_loop_spec:
  "split_loop sid s buf =
     buf\<lparr>lb_lineCount := lb_lineCount buf + length (fst (split_lines s)),
         lb_batch := lb_batch buf @ numbered sid (Suc (lb_lineCount buf)) (fst (split_lines s)),
         lb_partial := snd (split_lines s)\<rparr>"
proof (induction sid s buf rule: split_loop.induct)
  case (1 sid s buf)
  show ?case
  proof (cases "Index s [CHR 10]")
    case None
    then show ?thesis using Index_newline(2) [OF None] by (subst split_loop.simps) (simp add: split_lines_plain)
  next
    case (Some i)
    have "split_lines s = (take i s # fst (split_lines (drop (i + 1) s)), snd (split_lines (drop (i + 1) s)))"
      using Index_newline(1) [OF Some] split_lines_newline by metis
    then show ?thesis using 1 [OF Some] Some by (subst split_loop.simps) simp
  qed
qed

section \<open>Concurrent use\<close>

inductive ingest_step :: "ContentIngestor \<Rightarrow> ContentIngestor \<Rightarrow> bool" where
  in_ingest: "ingest_step ci (Ingest sid data ci)"
| in_flush: "ingest_step ci (FlushSession ok sid ci)"
| in_take: "ingest_step ci (take_batch sid ci)"
| in_write: "k < length (ci_writing ci) \<Longrightarrow> ingest_step ci (writeBatch ok k ci)"

definition ingest_init :: "ContentIngestor \<Rightarrow> bool" where
  "ingest_init ci \<longleftrightarrow> ci = NewContentIngestor []"

text \<open>Where a line of a session may be: in the table, on its way, lost, or in a batch.\<close>

abbreviation of_session :: "string \<Rightarrow> ContentLine list \<Rightarrow> ContentLine list" where
  "of_session sid ls \<equiv> filter (\<lambda>l. cl_SessionID l = sid) ls"

definition handed_on :: "string \<Rightarrow> ContentIngestor \<Rightarrow> ContentLine multiset" where
  "handed_on sid ci = mset (of_session sid (ci_lines ci)) + mset (of_session sid (concat (ci_writing ci))) + mset (of_session sid (ci_lost ci))"

definition ended_lines :: "string \<Rightarrow> ContentIngestor \<Rightarrow> ContentLine multiset" where
  "ended_lines sid ci = mset (concat (map (\<lambda>p. numbered sid 1 (whole_lines (snd p))) (filter (\<lambda>p. fst p = sid) (ci_ended ci))))"

definition buffer_ok :: "string \<Rightarrow> lineBuffer \<Rightarrow> bool" where
  "buffer_ok sid buf \<longleftrightarrow>
     lb_lineCount buf = length (fst (split_lines (lb_seen buf))) \<and> lb_partial buf = snd (split_lines (lb_seen buf)) \<and>
     of_session sid (lb_batch buf) = lb_batch buf"

definition session_ok :: "string \<Rightarrow> ContentIngestor \<Rightarrow> bool" where
  "session_ok sid ci \<longleftrightarrow>
     (let buf = getd buffer0 (ci_buffers ci) sid
      in buffer_ok sid buf \<and>
         handed_on sid ci + mset (lb_batch buf) = ended_lines sid ci + mset (numbered sid 1 (fst (split_lines (lb_seen buf)))))"

definition ingest_inv :: "ContentIngestor \<Rightarrow> bool" where
  "ingest_inv ci \<longleftrightarrow> (\<forall>sid. session_ok sid ci)"

lemma ingest_invI: "(\<And>sid. session_ok sid ci) \<Longrightarrow> ingest_inv ci" by (simp add: ingest_inv_def)

lemma numbered_session [simp]: "of_session sid (numbered sid' n ls) = (if sid = sid' then numbered sid n ls else [])"
  by (induction ls arbitrary: n) (auto simp: content_line_def)

lemma buffer0_ok [simp]: "buffer_ok sid buffer0" by (simp add: buffer_ok_def buffer0_def)

lemma buffer_okD:
  assumes "buffer_ok sid buf"
  shows "of_session sid' (lb_batch buf) = (if sid' = sid then lb_batch buf else [])"
  using assms by (auto simp: buffer_ok_def filter_empty_conv filter_id_conv)

text \<open>The buffer after more text has come in.\<close>

lemma buffer_ok_more:
  fixes s
  assumes "buffer_ok sid buf"
  defines "buf' \<equiv> (split_loop sid (lb_partial buf @ s) buf)\<lparr>lb_seen := lb_seen buf @ s\<rparr>"
  shows "buffer_ok sid buf'" "lb_batch buf' = lb_batch buf @
      numbered sid (Suc (length (fst (split_lines (lb_seen buf))))) (fst (split_lines (snd (split_lines (lb_seen buf)) @ s)))"
    "lb_seen buf' = lb_seen buf @ s"
    "fst (split_lines (lb_seen buf @ s)) = fst (split_lines (lb_seen buf)) @ fst (split_lines (snd (split_lines (lb_seen buf)) @ s))"
  using assms split_lines_append [of "lb_seen buf" s] by (auto simp: buffer_ok_def split_loop_spec)

text \<open>Taking the batch out of a buffer moves its lines.\<close>

lemma handed_on_taken:
  assumes "buffer_ok sid buf" "ci_lines ci' = ci_lines ci" "ci_lost ci' = ci_lost ci" "ci_writing ci' = ci_writing ci @ [lb_batch buf]"
  shows "handed_on sid' ci' = handed_on sid' ci + (if sid' = sid then mset (lb_batch buf) else {#})"
  using assms by (simp add: handed_on_def buffer_okD)

lemma ingest_ok:
  assumes "ingest_inv ci"
  shows "session_ok x (Ingest sid data ci)"
proof (cases "data = [] \<or> stripANSI data = []")
  case True
  then show ?thesis using assms by (simp add: Ingest_def ingest_inv_def)
next
  case False
  let ?b = "getd buffer0 (ci_buffers ci) sid"
  let ?b' = "(split_loop sid (lb_partial ?b @ stripANSI data) ?b)\<lparr>lb_seen := lb_seen ?b @ stripANSI data\<rparr>"
  have ok: "buffer_ok sid ?b" "session_ok sid ci" "session_ok x ci" using assms by (auto simp: ingest_inv_def session_ok_def Let_def)
  note more = buffer_ok_more [OF ok(1), of "stripANSI data"]
  have taken: "buffer_ok sid (?b'\<lparr>lb_batch := []\<rparr>)" using more(1) by (simp add: buffer_ok_def)
  have sum: "handed_on sid ci + mset (lb_batch ?b') = ended_lines sid ci + mset (numbered sid 1 (fst (split_lines (lb_seen ?b'))))"
    using ok(2) by (simp add: session_ok_def Let_def more(2-4))
  show ?thesis
  proof (cases "batchFlushSize \<le> length (lb_batch ?b')")
    case True
    let ?ci = "ci\<lparr>ci_buffers := fmupd sid (?b'\<lparr>lb_batch := []\<rparr>) (ci_buffers ci), ci_writing := ci_writing ci @ [lb_batch ?b']\<rparr>"
    have "Ingest sid data ci = ?ci" using False True by (simp add: Ingest_def Let_def)
    moreover have "handed_on x ?ci = handed_on x ci + (if x = sid then mset (lb_batch ?b') else {#})"
      by (rule handed_on_taken [OF more(1)]) simp_all
    ultimately show ?thesis using ok(3) taken sum by (auto simp: session_ok_def Let_def ended_lines_def)
  next
    case no: False
    then have "Ingest sid data ci = ci\<lparr>ci_buffers := fmupd sid ?b' (ci_buffers ci)\<rparr>" using False by (simp add: Ingest_def Let_def)
    then show ?thesis using ok(3) more(1) sum by (auto simp: session_ok_def Let_def ended_lines_def handed_on_def)
  qed
qed

lemma take_ok:
  assumes "ingest_inv ci"
  shows "session_ok x (take_batch sid ci)"
proof (cases "fmlookup (ci_buffers ci) sid")
  case None
  then show ?thesis using assms by (simp add: take_batch_def ingest_inv_def)
next
  case (Some buf)
  have ok: "buffer_ok sid buf" "session_ok sid ci" "session_ok x ci"
    using assms Some by (auto simp: ingest_inv_def session_ok_def Let_def getd_def split: option.splits)
  show ?thesis
  proof (cases "lb_batch buf = []")
    case True
    then show ?thesis using ok Some by (simp add: take_batch_def)
  next
    case False
    let ?ci = "ci\<lparr>ci_buffers := fmupd sid (buf\<lparr>lb_batch := []\<rparr>) (ci_buffers ci), ci_writing := ci_writing ci @ [lb_batch buf]\<rparr>"
    have "take_batch sid ci = ?ci" using Some False by (simp add: take_batch_def)
    moreover have "handed_on x ?ci = handed_on x ci + (if x = sid then mset (lb_batch buf) else {#})"
      by (rule handed_on_taken [OF ok(1)]) simp_all
    moreover have "getd buffer0 (ci_buffers ci) sid = buf" using Some by (rule getd_Some)
    ultimately show ?thesis using ok by (auto simp: session_ok_def Let_def ended_lines_def buffer_ok_def)
  qed
qed

lemma flush_ok:
  assumes "ingest_inv ci"
  shows "session_ok x (FlushSession ok sid ci)"
proof (cases "fmlookup (ci_buffers ci) sid")
  case None
  then show ?thesis using assms by (simp add: FlushSession_def ingest_inv_def)
next
  case (Some buf)
  have okb: "buffer_ok sid buf" "session_ok sid ci" "session_ok x ci"
    using assms Some by (auto simp: ingest_inv_def session_ok_def Let_def getd_def split: option.splits)
  let ?rest = "snd (split_lines (lb_seen buf))"
  define B where "B = lb_batch buf @ (if ?rest = [] then [] else [content_line sid (Suc (length (fst (split_lines (lb_seen buf))))) ?rest])"
  let ?ci = "FlushSession ok sid ci"
  have ci: "ci_lines ?ci = ci_lines ci" "ci_lost ?ci = ci_lost ci" "concat (ci_writing ?ci) = concat (ci_writing ci) @ B"
    "ci_buffers ?ci = fmdrop sid (ci_buffers ci)" "ci_ended ?ci = (sid, lb_seen buf) # ci_ended ci"
    using Some okb(1) by (auto simp: FlushSession_def Let_def buffer_ok_def B_def)
  have batch: "of_session x B = (if x = sid then B else [])"
    using buffer_okD [OF okb(1), of x] by (simp add: content_line_def B_def)
  have "handed_on x ?ci = handed_on x ci + (if x = sid then mset B else {#})"
    using batch by (simp add: handed_on_def ci)
  moreover have "ended_lines x ?ci = ended_lines x ci + (if x = sid then mset (numbered sid 1 (whole_lines (lb_seen buf))) else {#})"
    by (simp add: ended_lines_def ci)
  moreover have "numbered sid 1 (whole_lines (lb_seen buf)) = numbered sid 1 (fst (split_lines (lb_seen buf))) @
      (if ?rest = [] then [] else [content_line sid (Suc (length (fst (split_lines (lb_seen buf))))) ?rest])"
    by (simp add: whole_lines_def split: prod.split)
  ultimately show ?thesis using okb(2,3) getd_Some [OF Some, of buffer0]
    by (auto simp: session_ok_def Let_def ci B_def) (simp_all add: buffer0_def)
qed

lemma write_ok:
  assumes "ingest_inv ci" "k < length (ci_writing ci)"
  shows "session_ok x (writeBatch ok k ci)"
proof -
  have "concat (ci_writing ci) = concat (take k (ci_writing ci)) @ (ci_writing ci ! k) @ concat (drop (Suc k) (ci_writing ci))"
    using id_take_nth_drop [OF assms(2)] by (metis concat.simps(2) concat_append)
  then have "handed_on x (writeBatch ok k ci) = handed_on x ci"
    by (simp add: handed_on_def writeBatch_def InsertContentLines_def Let_def)
  moreover have "ci_buffers (writeBatch ok k ci) = ci_buffers ci" "ended_lines x (writeBatch ok k ci) = ended_lines x ci"
    by (simp_all add: writeBatch_def ended_lines_def Let_def)
  ultimately show ?thesis using assms(1) by (simp add: ingest_inv_def session_ok_def)
qed

interpretation ingest: invariant_system ingest_init ingest_step ingest_inv
proof
  show "ingest_inv s" if "ingest_init s" for s
    using that by (simp add: ingest_init_def NewContentIngestor_def ingest_inv_def session_ok_def handed_on_def ended_lines_def buffer0_def
        buffer_ok_def)
  show "ingest_inv t" if "ingest_inv s" "ingest_step s t" for s t
    using that(2,1) by cases (auto intro!: ingest_invI intro: ingest_ok flush_ok take_ok write_ok)
qed


definition ci1 :: ContentIngestor where
  "ci1 = writeBatch True 0 (FlushSession True ''s'' (Ingest ''s'' ''lo'' (Ingest ''s'' (''a'' @ [CHR 10] @ ''hel'') (NewContentIngestor []))))"

lemma strip_plain: "list_all (\<lambda>c. 32 \<le> (of_char c :: nat) \<or> c = CHR 10) s \<Longrightarrow> stripANSI s = s"
proof (induction s)
  case Nil
  then show ?case by (subst stripANSI.simps)
    (simp add: ansiPattern_def csi_match_def osc_match_def charset_match_def single_match_def control_match_def)
next
  case (Cons c s)
  have "c \<noteq> ESC" using Cons.prems by (auto simp: ESC_def)
  then have "ansiPattern (c # s) = None" using Cons.prems
    by (auto simp: ansiPattern_def csi_match_def osc_match_def charset_match_def single_match_def control_match_def split: list.splits)
  with Cons show ?case by (subst stripANSI.simps) simp
qed

lemma ci1_step: "ci_lines ci1 = numbered ''s'' 1 [''a'', ''hello'']" "ci_writing ci1 = []" "ci_lost ci1 = []"
    "ci_buffers ci1 = fmempty" "ci_ended ci1 = [(''s'', ''a'' @ [CHR 10] @ ''hello'')]"
  by (simp_all add: ci1_def Ingest_def strip_plain split_loop_spec NewContentIngestor_def buffer0_def FlushSession_def writeBatch_def
      InsertContentLines_def batchFlushSize_def Let_def fmap_ext)


text \<open>An escape sequence that is cut in two by the pieces leaves its second half in the text.\<close>

lemma cut_escape_kept:
  "stripANSI ([ESC] @ ''[31mred'') = ''red'' \<and> stripANSI ([ESC] @ ''['') @ stripANSI ''31mred'' = ''[31mred''"
proof -
  have "stripANSI ([ESC] @ ''[31mred'') = stripANSI ''red''"
    by (subst stripANSI.simps) (simp add: ansiPattern_def csi_match_def ascii_letter_def ESC_def)
  moreover have "stripANSI ([ESC] @ ''['') = stripANSI ''[''"
    by (subst stripANSI.simps) (simp add: ansiPattern_def csi_match_def osc_match_def charset_match_def single_match_def control_match_def ESC_def)
  ultimately show ?thesis by (simp add: strip_plain)
qed

end
