(* ===== verification/Event_Store.thy ===== *)
theory Event_Store
  imports Job_Store Event_Bus "HOL-Library.Product_Lexorder"
begin

text \<open>
  The audit trail of events: the table and its queries (\<open>store/events.go\<close>), the handler that
  stores every published event (\<open>event/persist.go\<close>), the cleaner that removes old ones
  (\<open>event/retention.go\<close>) and the two REST endpoints that read them
  (\<open>handler/events.go\<close>). SQLite's \<open>LIKE\<close> is written out. Parsing and printing of RFC 3339
  times are arguments; the zero time is \<open>0\<close>.
\<close>

section \<open>The table\<close>

abbreviation event_ids :: "Event list \<Rightarrow> string list" where
  "event_ids rows \<equiv> map ev_EventID rows"

text \<open>\<open>marshals\<close> says whether the payload can be encoded.\<close>

definition InsertEvent :: "(Event \<Rightarrow> bool) \<Rightarrow> Event \<Rightarrow> Event list \<Rightarrow> store_error + Event list" where
  "InsertEvent marshals e rows =
     (if \<not> marshals e \<or> ev_EventID e \<in> set (event_ids rows) then Inl ErrConstraint else Inr (rows @ [e]))"

definition GetEventByID :: "string \<Rightarrow> Event list \<Rightarrow> store_error + Event" where
  "GetEventByID eventID rows =
     (case find (\<lambda>e. ev_EventID e = eventID) rows of None \<Rightarrow> Inl ErrNotFound | Some e \<Rightarrow> Inr e)"

definition PurgeEvents :: "time \<Rightarrow> Event list \<Rightarrow> nat \<times> Event list" where
  "PurgeEvents before rows =
     (length (filter (\<lambda>e. ev_Timestamp e < before) rows), filter (\<lambda>e. \<not> ev_Timestamp e < before) rows)"

text \<open>The persist handler and the retention cleaner.\<close>

definition persist_Handler :: "(Event \<Rightarrow> bool) \<Rightarrow> Event \<Rightarrow> Event list \<Rightarrow> store_error option \<times> Event list" where
  "persist_Handler marshals e rows =
     (case InsertEvent marshals e rows of Inl err \<Rightarrow> (Some err, rows) | Inr rows' \<Rightarrow> (None, rows'))"

definition defaultMaxAge :: time where "defaultMaxAge = 7 * 24 * 3600 * 1000000000"

definition NewRetentionCleaner :: "time \<Rightarrow> time" where
  "NewRetentionCleaner maxAge = (if maxAge \<le> 0 then defaultMaxAge else maxAge)"

definition purge :: "time \<Rightarrow> time \<Rightarrow> Event list \<Rightarrow> Event list" where
  "purge maxAge now rows = snd (PurgeEvents (now - maxAge) rows)"

section \<open>Queries by type\<close>

definition replace_char :: "char \<Rightarrow> string \<Rightarrow> string \<Rightarrow> string" where
  "replace_char x y s = concat (map (\<lambda>c. if c = x then y else [c]) s)"

definition escapeForLIKE :: "string \<Rightarrow> string" where
  "escapeForLIKE s = replace_char CHR ''_'' [backslash, CHR ''_'']
     (replace_char CHR ''%'' [backslash, CHR ''%''] (replace_char backslash [backslash, backslash] s))"

definition typePatternToSQL :: "string \<Rightarrow> string" where
  "typePatternToSQL pattern =
     (if pattern = ''*'' then ''%'' else replace_char CHR ''*'' ''%'' (escapeForLIKE pattern))"

text \<open>\<open>LIKE\<close> with the backslash as escape character: ASCII letters are compared without regard to
  their case, a percent sign stands for any text, an underscore for one character.\<close>

definition fold_case :: "char \<Rightarrow> char" where
  "fold_case c = (let n = of_char c :: nat in if 65 \<le> n \<and> n \<le> 90 then char_of (n + 32) else c)"

fun sql_like :: "string \<Rightarrow> string \<Rightarrow> bool" where
  "sql_like [] s = (s = [])"
| "sql_like (p # ps) s =
     (if p = CHR ''%'' then (sql_like ps s \<or> (case s of [] \<Rightarrow> False | c # cs \<Rightarrow> sql_like (p # ps) cs))
      else if p = CHR ''_'' then (case s of [] \<Rightarrow> False | c # cs \<Rightarrow> sql_like ps cs)
      else if p = backslash then
        (case ps of [] \<Rightarrow> False
         | q # qs \<Rightarrow> (case s of [] \<Rightarrow> False | c # cs \<Rightarrow> fold_case q = fold_case c \<and> sql_like qs cs))
      else (case s of [] \<Rightarrow> False | c # cs \<Rightarrow> fold_case p = fold_case c \<and> sql_like ps cs))"

record EventFilter =
  ef_TypePattern :: string
  ef_Since :: time
  ef_Limit :: int
  ef_Offset :: int

definition defaultEventLimit :: int where "defaultEventLimit = 50"

definition type_matches :: "string \<Rightarrow> string \<Rightarrow> bool" where
  "type_matches pattern eventType =
     (if pattern = [] \<or> pattern = ''*'' then True
      else if CHR ''*'' \<in> set pattern then sql_like (typePatternToSQL pattern) eventType
      else pattern = eventType)"

text \<open>A negative offset is read as none.\<close>

definition ListEvents :: "EventFilter \<Rightarrow> Event list \<Rightarrow> Event list" where
  "ListEvents f rows =
     (let limit = (if ef_Limit f \<le> 0 then defaultEventLimit else ef_Limit f)
      in take (nat limit) (drop (nat (ef_Offset f))
           (sort_key (\<lambda>e. - ev_Timestamp e)
             (filter (\<lambda>e. type_matches (ef_TypePattern f) (ev_Type e) \<and> (ef_Since f \<noteq> 0 \<longrightarrow> ef_Since f \<le> ev_Timestamp e)) rows))))"

section \<open>The feed\<close>

definition defaultFeedLimit :: int where "defaultFeedLimit = 100"

definition event_key :: "Event \<Rightarrow> time \<times> string" where
  "event_key e = (ev_Timestamp e, ev_EventID e)"

definition ListEventsAfter :: "time \<Rightarrow> string \<Rightarrow> int \<Rightarrow> Event list \<Rightarrow> Event list" where
  "ListEventsAfter afterTimestamp afterEventID limit rows =
     (let limit = nat (if limit \<le> 0 then defaultFeedLimit else limit)
      in if afterTimestamp = 0 \<and> afterEventID = []
         then rev (take limit (rev (sort_key event_key rows)))
         else take limit (sort_key event_key (filter (\<lambda>e. (afterTimestamp, afterEventID) < event_key e) rows)))"

definition maxEventsLimit :: int where "maxEventsLimit = 500"
definition defaultEventsLimit :: int where "defaultEventsLimit = 50"

text \<open>The limit of a request, or \<open>None\<close> for a bad one.\<close>

definition limit_param :: "int \<Rightarrow> string \<Rightarrow> int option" where
  "limit_param dflt s =
     (if s = [] then Some dflt
      else case Atoi s of None \<Rightarrow> None | Some v \<Rightarrow> if v < 1 then None else Some (min v maxEventsLimit))"

record time_text =
  tt_parseNano :: "string \<Rightarrow> time option"
  tt_parse :: "string \<Rightarrow> time option"
  tt_format :: "time \<Rightarrow> string"

text \<open>The reply is the status of an error or the list. \<open>ListEvents\<close> of the handler reads the type, the lower
  bound, the limit and the offset of the query.\<close>

definition handle_ListEvents :: "time_text \<Rightarrow> string \<Rightarrow> string \<Rightarrow> string \<Rightarrow> string \<Rightarrow> Event list \<Rightarrow> nat + Event list" where
  "handle_ListEvents tt typePattern sinceStr limitStr offsetStr rows =
     (case (if sinceStr = [] then Some 0 else tt_parse tt sinceStr) of
        None \<Rightarrow> Inl 400
      | Some since \<Rightarrow>
          (case limit_param defaultEventsLimit limitStr of
             None \<Rightarrow> Inl 400
           | Some limit \<Rightarrow>
               (case (if offsetStr = [] then Some 0 else Atoi offsetStr) of
                  None \<Rightarrow> Inl 400
                | Some offset \<Rightarrow>
                    if offset < 0 then Inl 400
                    else Inr (ListEvents \<lparr>ef_TypePattern = typePattern, ef_Since = since, ef_Limit = limit, ef_Offset = offset\<rparr> rows))))"

definition parse_cursor :: "time_text \<Rightarrow> string \<Rightarrow> (time \<times> string) option" where
  "parse_cursor tt afterStr =
     (if afterStr = [] then Some (0, [])
      else case SplitN afterStr CHR ''|'' 2 of
             [t, i] \<Rightarrow> (case tt_parseNano tt t of
                          Some ts \<Rightarrow> Some (ts, i)
                        | None \<Rightarrow> map_option (\<lambda>ts. (ts, i)) (tt_parse tt t))
           | _ \<Rightarrow> None)"

definition Feed :: "time_text \<Rightarrow> string \<Rightarrow> string \<Rightarrow> Event list \<Rightarrow> nat + Event list \<times> string" where
  "Feed tt afterStr limitStr rows =
     (case parse_cursor tt afterStr of
        None \<Rightarrow> Inl 400
      | Some (afterTimestamp, afterEventID) \<Rightarrow>
          (case limit_param 100 limitStr of
             None \<Rightarrow> Inl 400
           | Some limit \<Rightarrow>
               (let events = ListEventsAfter afterTimestamp afterEventID limit rows
                in Inr (events, if events = [] then []
                       else tt_format tt (ev_Timestamp (last events)) @ ''|'' @ ev_EventID (last events)))))"

text \<open>A client that follows the cursors until a page is empty.\<close>

fun follow :: "time_text \<Rightarrow> string \<Rightarrow> Event list \<Rightarrow> nat \<Rightarrow> string \<Rightarrow> (nat + Event list) option" where
  "follow tt limitStr rows 0 cursor = None"
| "follow tt limitStr rows (Suc fuel) cursor =
     (case Feed tt cursor limitStr rows of
        Inl code \<Rightarrow> Some (Inl code)
      | Inr ([], _) \<Rightarrow> Some (Inr [])
      | Inr (events, next_cursor) \<Rightarrow> map_option (map_sum id ((@) events)) (follow tt limitStr rows fuel next_cursor))"



section \<open>Queries and subscriptions\<close>

text \<open>What a pattern means: a star stands for any text, letters are compared without regard to case.\<close>

fun glob_match :: "string \<Rightarrow> string \<Rightarrow> bool" where
  "glob_match [] s = (s = [])"
| "glob_match (p # ps) s =
     (if p = CHR ''*'' then (glob_match ps s \<or> (case s of [] \<Rightarrow> False | c # cs \<Rightarrow> glob_match (p # ps) cs))
      else (case s of [] \<Rightarrow> False | c # cs \<Rightarrow> fold_case p = fold_case c \<and> glob_match ps cs))"

definition like_char :: "char \<Rightarrow> string" where
  "like_char c = (if c = CHR ''*'' then ''%''
     else if c = backslash \<or> c = CHR ''%'' \<or> c = CHR ''_'' then [backslash, c] else [c])"

lemma replace_char_simps [simp]:
  "replace_char x y [] = []"
  "replace_char x y (c # s) = (if c = x then y else [c]) @ replace_char x y s"
  "replace_char x y (s @ s') = replace_char x y s @ replace_char x y s'"
  by (simp_all add: replace_char_def)

lemma typePatternToSQL_chars: "typePatternToSQL p = concat (map like_char p)"
proof -
  have "replace_char CHR ''*'' ''%'' (escapeForLIKE p) = concat (map like_char p)"
    by (induction p) (simp_all add: escapeForLIKE_def like_char_def)
  then show ?thesis by (simp add: typePatternToSQL_def like_char_def)
qed

lemma glob_match_simps [simp]:
  "glob_match (CHR ''*'' # ps) [] = glob_match ps []"
  "glob_match (CHR ''*'' # ps) (c # cs) \<longleftrightarrow> glob_match ps (c # cs) \<or> glob_match (CHR ''*'' # ps) cs"
  "p \<noteq> CHR ''*'' \<Longrightarrow> \<not> glob_match (p # ps) []"
  "p \<noteq> CHR ''*'' \<Longrightarrow> glob_match (p # ps) (c # cs) \<longleftrightarrow> fold_case p = fold_case c \<and> glob_match ps cs"
  by simp_all

lemma sql_like_simps [simp]:
  "sql_like (CHR ''%'' # ps) [] = sql_like ps []"
  "sql_like (CHR ''%'' # ps) (c # cs) \<longleftrightarrow> sql_like ps (c # cs) \<or> sql_like (CHR ''%'' # ps) cs"
  "\<not> sql_like (backslash # q # ps) []"
  "sql_like (backslash # q # ps) (c # cs) \<longleftrightarrow> fold_case q = fold_case c \<and> sql_like ps cs"
  by simp_all

lemma sql_like_literal [simp]:
  assumes "p \<noteq> CHR ''%''" "p \<noteq> CHR ''_''" "p \<noteq> backslash"
  shows "\<not> sql_like (p # ps) []" "sql_like (p # ps) (c # cs) \<longleftrightarrow> fold_case p = fold_case c \<and> sql_like ps cs"
  using assms by simp_all

declare glob_match.simps(2) [simp del] sql_like.simps(2) [simp del]

lemma sql_like_percent:
  "(\<And>t. sql_like ps t = glob_match qs t) \<Longrightarrow> sql_like (CHR ''%'' # ps) s = glob_match (CHR ''*'' # qs) s"
  by (induction s) simp_all

lemma typePattern_glob: "sql_like (typePatternToSQL p) s = glob_match p s"
  unfolding typePatternToSQL_chars
proof (induction p arbitrary: s)
  case (Cons c p)
  show ?case
  proof (cases "c = CHR ''*''")
    case True
    have "concat (map like_char (c # p)) = CHR ''%'' # concat (map like_char p)" using True by (simp add: like_char_def)
    then show ?thesis using sql_like_percent [of "concat (map like_char p)" p s] Cons True by metis
  next
    case False
    define r where "r = concat (map like_char p)"
    have r: "sql_like r t = glob_match p t" for t using Cons by (simp add: r_def)
    have "sql_like (like_char c @ r) s = glob_match (c # p) s"
      using False by (cases s) (simp_all add: like_char_def r)
    then show ?thesis by (simp add: r_def)
  qed
qed simp

lemma glob_literal: "CHR ''*'' \<notin> set a \<Longrightarrow> glob_match (a @ p) s \<longleftrightarrow>
    length a \<le> length s \<and> map fold_case a = map fold_case (take (length a) s) \<and> glob_match p (drop (length a) s)"
proof (induction a arbitrary: s)
  case (Cons c a)
  then have "c \<noteq> CHR ''*''" by auto
  with Cons show ?case by (cases s) auto
qed simp

lemma glob_star [simp]: "glob_match ''*'' s"
  by (induction s) simp_all

definition lower :: "string \<Rightarrow> bool" where
  "lower s \<longleftrightarrow> list_all (\<lambda>c. fold_case c = c) s"

lemma lower_map: "lower s \<Longrightarrow> map fold_case s = s"
  by (simp add: lower_def list_all_iff map_idI)

lemma lower_take: "lower s \<Longrightarrow> lower (take n s)"
  unfolding lower_def list_all_iff by (blast dest: in_set_takeD)

text \<open>The patterns the bus gives a meaning to.\<close>

definition bus_pattern :: "string \<Rightarrow> bool" where
  "bus_pattern p \<longleftrightarrow> p \<noteq> [] \<and> (p = ''*'' \<or> CHR ''*'' \<notin> set p \<or> (HasSuffix p ''.*'' \<and> CHR ''*'' \<notin> set (butlast p)))"

lemma type_matches_prefix:
  assumes "CHR ''*'' \<notin> set a" "lower a" "lower t"
  shows "type_matches (a @ ''*'') t \<longleftrightarrow> HasPrefix t a"
proof -
  have "type_matches (a @ ''*'') t \<longleftrightarrow> a = [] \<or> glob_match (a @ ''*'') t"
    by (auto simp: type_matches_def typePattern_glob)
  also have "\<dots> \<longleftrightarrow> length a \<le> length t \<and> a = take (length a) t"
    using assms glob_literal [OF assms(1), of "''*''" t] by (auto simp: lower_map lower_take)
  also have "\<dots> \<longleftrightarrow> HasPrefix t a" by (auto simp: HasPrefix_def prefix_def) (metis append_take_drop_id)
  finally show ?thesis .
qed

lemma type_matches_bus:
  assumes "bus_pattern p" "lower p" "lower t"
  shows "type_matches p t = MatchPattern p t"
proof (cases "CHR ''*'' \<in> set p \<and> p \<noteq> ''*''")
  case True
  then have s: "HasSuffix p ''.*''" and n: "CHR ''*'' \<notin> set (butlast p)" using assms(1) by (auto simp: bus_pattern_def)
  then obtain b where b: "p = b @ ''.*''" by (auto simp: HasSuffix_def suffix_def)
  have "type_matches ((b @ ''.'') @ ''*'') t \<longleftrightarrow> HasPrefix t (b @ ''.'')"
    using assms(2,3) n b by (intro type_matches_prefix) (auto simp: lower_def butlast_append)
  moreover have "MatchPattern p t \<longleftrightarrow> HasPrefix t (b @ ''.'')"
    using s b True by (simp add: MatchPattern_def TrimSuffix_def HasSuffix_def suffix_def)
  ultimately show ?thesis using b by simp
next
  case False
  then consider "p = ''*''" | "CHR ''*'' \<notin> set p" by blast
  then show ?thesis
  proof cases
    case 1
    then show ?thesis by (simp add: type_matches_def MatchPattern_def)
  next
    case 2
    then have "\<not> HasSuffix p ''.*''" "p \<noteq> ''*''" by (auto simp: HasSuffix_def suffix_def)
    with 2 show ?thesis using assms(1) by (simp add: type_matches_def MatchPattern_def bus_pattern_def)
  qed
qed

text \<open>C33. Queries of the audit trail and subscriptions agree: for a pattern that the bus gives a meaning to,
  and with lower-case names, the query without lower bound and with room for all rows returns the stored
  events whose type a subscriber with that pattern would be offered, newest first.\<close>

theorem query_equals_subscription:
  assumes "bus_pattern p" "lower p" "\<forall>e\<in>set rows. lower (ev_Type e)" "int (length rows) \<le> n" "0 < n"
  shows "ListEvents \<lparr>ef_TypePattern = p, ef_Since = 0, ef_Limit = n, ef_Offset = 0\<rparr> rows =
     sort_key (\<lambda>e. - ev_Timestamp e) (filter (\<lambda>e. MatchPattern p (ev_Type e)) rows)"
proof -
  have "filter (\<lambda>e. type_matches p (ev_Type e)) rows = filter (\<lambda>e. MatchPattern p (ev_Type e)) rows"
    using assms(1-3) by (intro filter_cong) (simp_all add: type_matches_bus)
  moreover have "length (filter (\<lambda>e. MatchPattern p (ev_Type e)) rows) \<le> nat n"
    using assms(4) length_filter_le [of "\<lambda>e. MatchPattern p (ev_Type e)" rows] by linarith
  ultimately show ?thesis using assms(5) by (simp add: ListEvents_def)
qed

definition event_at :: "string \<Rightarrow> string \<Rightarrow> time \<Rightarrow> Event" where
  "event_at i ty t = \<lparr>ev_EventID = i, ev_Type = ty, ev_Timestamp = t, ev_Source = [], ev_Payload = fmempty\<rparr>"

lemma event_at_sel [simp]:
  "ev_EventID (event_at i ty t) = i" "ev_Type (event_at i ty t) = ty" "ev_Timestamp (event_at i ty t) = t"
  by (simp_all add: event_at_def)

definition trail1 :: "Event list" where
  "trail1 = [event_at ''e2'' ''run.created'' 7, event_at ''e1'' ''machine.connected'' 7, event_at ''e3'' ''run.failed'' 9]"

theorem query_equals_subscription_witness:
  "map ev_EventID (ListEvents \<lparr>ef_TypePattern = ''run.*'', ef_Since = 0, ef_Limit = 10, ef_Offset = 0\<rparr> trail1) = [''e3'', ''e2'']"
proof -
  have "bus_pattern ''run.*''" "lower ''run.*''" "\<forall>e\<in>set trail1. lower (ev_Type e)"
    by (simp_all add: bus_pattern_def lower_def trail1_def fold_case_def HasSuffix_code)
  then show ?thesis
    by (subst query_equals_subscription) (simp_all add: trail1_def MatchPattern_def HasSuffix_code TrimSuffix_def sort_key_def)
qed

text \<open>In other letters the query finds what the bus does not offer.\<close>

lemma query_ignores_case: "type_matches ''run.*'' ''RUN.X'' \<and> \<not> MatchPattern ''run.*'' ''RUN.X''"
  by code_simp

section \<open>Following the feed\<close>

lemma strict_after_take:
  fixes f :: "'a \<Rightarrow> 'b::linorder"
  assumes "sorted (map f xs)" "distinct (map f xs)" "take n xs \<noteq> []"
  shows "filter (\<lambda>x. f (last (take n xs)) < f x) xs = drop n xs"
proof -
  have s: "sorted_wrt (<) (map f (take n xs @ drop n xs))" using assms(1,2) by (simp add: strict_sorted_iff)
  then have "\<forall>x\<in>set (drop n xs). f (last (take n xs)) < f x"
    using last_in_set [OF assms(3)] unfolding map_append sorted_wrt_append by auto
  then have d: "filter (\<lambda>x. f (last (take n xs)) < f x) (drop n xs) = drop n xs" by simp
  have "sorted (map f (take n xs))" using assms(1) by (metis sorted_wrt_take take_map)
  then have "\<forall>x\<in>set (take n xs). \<not> f (last (take n xs)) < f x"
    using assms(3) by (cases "take n xs" rule: rev_cases) (auto simp: sorted_append not_less simp del: take_eq_Nil)
  then have t: "filter (\<lambda>x. f (last (take n xs)) < f x) (take n xs) = []" by (simp add: filter_empty_conv)
  have "filter (\<lambda>x. f (last (take n xs)) < f x) (take n xs @ drop n xs) = drop n xs"
    unfolding filter_append by (simp only: t d append_Nil)
  then show ?thesis by simp
qed

definition after_key :: "time \<times> string \<Rightarrow> Event list \<Rightarrow> Event list" where
  "after_key k rows = sort_key event_key (filter (\<lambda>e. k < event_key e) rows)"

lemma after_key_keys:
  assumes "distinct (event_ids rows)"
  shows "sorted (map event_key (after_key k rows))" "distinct (map event_key (after_key k rows))"
proof -
  have "inj_on event_key (set rows)" using assms by (auto simp: inj_on_def event_key_def distinct_map)
  then have "inj_on event_key (set (filter (\<lambda>e. k < event_key e) rows))" by (rule inj_on_subset) auto
  moreover have "distinct rows" using assms distinct_map by blast
  ultimately show "distinct (map event_key (after_key k rows))"
    by (simp add: after_key_def distinct_map)
qed (simp add: after_key_def)

lemma after_key_next:
  assumes "distinct (event_ids rows)" "take n (after_key k rows) \<noteq> []"
  shows "after_key (event_key (last (take n (after_key k rows)))) rows = drop n (after_key k rows)"
proof -
  define e where "e = last (take n (after_key k rows))"
  have "e \<in> set (after_key k rows)" using last_in_set [OF assms(2)] by (auto simp: e_def dest: in_set_takeD)
  then have "k < event_key e" by (simp add: after_key_def)
  then have "after_key (event_key e) rows = filter (\<lambda>x. event_key e < event_key x) (after_key k rows)"
    unfolding after_key_def by (subst filter_sort) (auto intro!: arg_cong [where f = "sort_key event_key"] filter_cong)
  also have "\<dots> = drop n (after_key k rows)"
    unfolding e_def by (rule strict_after_take [OF after_key_keys [OF assms(1)] assms(2)])
  finally show ?thesis by (simp add: e_def)
qed

text \<open>What is relied on of the times of the stored events.\<close>

definition cursor_ok :: "time_text \<Rightarrow> Event list \<Rightarrow> bool" where
  "cursor_ok tt rows \<longleftrightarrow> list_all (\<lambda>e. tt_parseNano tt (tt_format tt (ev_Timestamp e)) = Some (ev_Timestamp e) \<and>
     CHR ''|'' \<notin> set (tt_format tt (ev_Timestamp e)) \<and> ev_EventID e \<noteq> []) rows"

lemma parse_next_cursor:
  assumes "cursor_ok tt rows" "e \<in> set rows"
  shows "parse_cursor tt (tt_format tt (ev_Timestamp e) @ ''|'' @ ev_EventID e) = Some (event_key e)"
proof -
  have f: "tt_parseNano tt (tt_format tt (ev_Timestamp e)) = Some (ev_Timestamp e)"
    "CHR ''|'' \<notin> set (tt_format tt (ev_Timestamp e))" using assms by (auto simp: cursor_ok_def list_all_iff)
  have "SplitN (tt_format tt (ev_Timestamp e) @ CHR ''|'' # ev_EventID e) CHR ''|'' 2 =
      [tt_format tt (ev_Timestamp e), ev_EventID e]"
    using SplitN_sep [OF f(2), of "ev_EventID e" 0] by (simp add: numeral_2_eq_2)
  then show ?thesis by (simp add: parse_cursor_def f(1) event_key_def)
qed

lemma Feed_page:
  assumes "parse_cursor tt c = Some k" "k \<noteq> (0, [])" "limit_param 100 l = Some n"
  shows "Feed tt c l rows = (let p = take (nat n) (after_key k rows)
    in Inr (p, if p = [] then [] else tt_format tt (ev_Timestamp (last p)) @ ''|'' @ ev_EventID (last p)))"
proof -
  have "0 < n" using assms(3) by (auto simp: limit_param_def maxEventsLimit_def split: if_splits option.splits)
  then have "ListEventsAfter (fst k) (snd k) n rows = take (nat n) (after_key k rows)"
    using assms(2) by (cases k) (auto simp: ListEventsAfter_def after_key_def)
  then show ?thesis using assms(1,3) by (cases k) (simp add: Feed_def Let_def)
qed

lemma follow_after:
  assumes "distinct (event_ids rows)" "cursor_ok tt rows" "limit_param 100 l = Some n"
  shows "parse_cursor tt c = Some k \<Longrightarrow> k \<noteq> (0, []) \<Longrightarrow> length (after_key k rows) < fuel \<Longrightarrow>
    follow tt l rows fuel c = Some (Inr (after_key k rows))"
proof (induction fuel arbitrary: c k)
  case (Suc fuel)
  define p where "p = take (nat n) (after_key k rows)"
  have n: "0 < nat n" using assms(3) by (auto simp: limit_param_def maxEventsLimit_def split: if_splits option.splits)
  show ?case
  proof (cases p)
    case Nil
    then show ?thesis using Feed_page [OF Suc.prems(1,2) assms(3), of rows] n by (simp add: p_def)
  next
    case (Cons a p')
    then have ne: "take (nat n) (after_key k rows) \<noteq> []" by (simp add: p_def)
    define e where "e = last p"
    have "e \<in> set (after_key k rows)" using last_in_set [OF ne] by (auto simp: e_def p_def dest: in_set_takeD)
    then have e: "e \<in> set rows" by (simp add: after_key_def)
    define c' where "c' = tt_format tt (ev_Timestamp e) @ ''|'' @ ev_EventID e"
    have "after_key (event_key e) rows = drop (nat n) (after_key k rows)"
      using after_key_next [OF assms(1) ne] by (simp add: e_def p_def)
    moreover have "event_key e \<noteq> (0, [])" using assms(2) e by (auto simp: cursor_ok_def list_all_iff event_key_def)
    moreover have "0 < length (after_key k rows)" using ne by auto
    then have "length (drop (nat n) (after_key k rows)) < fuel" using Suc.prems(3) n unfolding length_drop by linarith
    ultimately have "follow tt l rows fuel c' = Some (Inr (drop (nat n) (after_key k rows)))"
      using Suc.IH [OF parse_next_cursor [OF assms(2) e]] by (simp add: c'_def)
    moreover have "Feed tt c l rows = Inr (p, c')"
      using Feed_page [OF Suc.prems(1,2) assms(3), of rows] Cons by (simp add: c'_def e_def Let_def flip: p_def)
    ultimately have "follow tt l rows (Suc fuel) c = Some (Inr (p @ drop (nat n) (after_key k rows)))" using Cons by simp
    then show ?thesis by (simp add: p_def)
  qed
qed simp

text \<open>C32. A client that follows the cursors of the feed sees every event: from any cursor but the empty one,
  with any valid page size, the pages end after finitely many requests and together are
  exactly the stored events after the cursor, oldest first, each once, also when many events carry the
  same time.\<close>

theorem feed_complete:
  assumes "distinct (event_ids rows)" "cursor_ok tt rows" "limit_param 100 l = Some n"
    and "parse_cursor tt c = Some k" "k \<noteq> (0, [])"
  shows "follow tt l rows (Suc (length rows)) c = Some (Inr (sort_key event_key (filter (\<lambda>e. k < event_key e) rows)))"
proof -
  have "length (after_key k rows) < Suc (length rows)" by (simp add: after_key_def less_Suc_eq_le)
  then show ?thesis unfolding after_key_def [symmetric] by (rule follow_after [OF assms])
qed

text \<open>Times printed in unary notation.\<close>

definition unary :: time_text where
  "unary = \<lparr>tt_parseNano = (\<lambda>s. Some (int (length s))), tt_parse = (\<lambda>s. None), tt_format = (\<lambda>t. replicate (nat t) CHR ''x'')\<rparr>"

theorem feed_complete_witness:
  "follow unary ''1'' trail1 4 ''xxx|'' = Some (Inr (map (\<lambda>k. trail1 ! k) [1, 0, 2]))"
proof -
  have l: "limit_param 100 ''1'' = Some 1" by code_simp
  have k: "parse_cursor unary ''xxx|'' = Some (3, [])"
    by (simp add: parse_cursor_def unary_def numeral_2_eq_2)
  have "distinct (event_ids trail1)" "cursor_ok unary trail1"
    by (simp_all add: trail1_def cursor_ok_def unary_def)
  from feed_complete [OF this l k]
  have "follow unary ''1'' trail1 4 ''xxx|'' = Some (Inr (sort_key event_key (filter (\<lambda>e. (3, []) < event_key e) trail1)))"
    by (simp add: trail1_def eval_nat_numeral del: follow.simps)
  also have "sort_key event_key (filter (\<lambda>e. (3, []) < event_key e) trail1) = map (\<lambda>k. trail1 ! k) [1, 0, 2]"
    by (simp add: trail1_def event_key_def sort_key_def)
  finally show ?thesis .
qed

end
