(* ===== verification/Webhooks.thy ===== *)
theory Webhooks
  imports Event_Store
begin

text \<open>
  Outgoing webhooks: the tables (\<open>store/webhooks.go\<close>) and the subscriber of the event bus that
  posts events to them and retries failed deliveries (\<open>event/webhook_delivery.go\<close>). The
  answer of the remote side, encoding, signing and the random part of a delay are
  arguments. The goroutines that make the first attempt and the retry loop are separate
  processes that share the table of deliveries.
\<close>

section \<open>The tables\<close>

record Webhook =
  wh_WebhookID :: string
  wh_Name :: string
  wh_URL :: string
  wh_Secret :: string
  wh_Events :: "string list"
  wh_Enabled :: bool
  wh_CreatedAt :: time
  wh_UpdatedAt :: time

record WebhookDelivery =
  wd_DeliveryID :: string
  wd_WebhookID :: string
  wd_EventID :: string
  wd_Status :: string
  wd_Attempts :: int
  wd_ResponseCode :: int
  wd_LastError :: string
  wd_NextRetryAt :: "time option"
  wd_Payload :: string
  wd_CreatedAt :: time
  wd_UpdatedAt :: time

abbreviation delivery_ids :: "WebhookDelivery list \<Rightarrow> string list" where
  "delivery_ids rows \<equiv> map wd_DeliveryID rows"

definition CreateWebhook :: "string \<Rightarrow> time \<Rightarrow> Webhook \<Rightarrow> Webhook list \<Rightarrow> store_error + (Webhook \<times> Webhook list)" where
  "CreateWebhook uid now w rows =
     (let row = w\<lparr>wh_WebhookID := uid, wh_CreatedAt := now, wh_UpdatedAt := now\<rparr>
      in if uid \<in> set (map wh_WebhookID rows) then Inl ErrConstraint else Inr (row, rows @ [row]))"

definition GetWebhook :: "string \<Rightarrow> Webhook list \<Rightarrow> store_error + Webhook" where
  "GetWebhook i rows = (case find (\<lambda>w. wh_WebhookID w = i) rows of None \<Rightarrow> Inl ErrNotFound | Some w \<Rightarrow> Inr w)"

definition ListWebhooks :: "Webhook list \<Rightarrow> Webhook list" where
  "ListWebhooks rows = sort_key (\<lambda>w. - wh_CreatedAt w) rows"

definition UpdateWebhook :: "time \<Rightarrow> Webhook \<Rightarrow> Webhook list \<Rightarrow> store_error + (Webhook \<times> Webhook list)" where
  "UpdateWebhook now w rows =
     (let rows' = map (\<lambda>r. if wh_WebhookID r = wh_WebhookID w then w\<lparr>wh_CreatedAt := wh_CreatedAt r, wh_UpdatedAt := now\<rparr> else r) rows
      in map_sum id (\<lambda>u. (u, rows')) (GetWebhook (wh_WebhookID w) rows'))"

text \<open>Deliveries go with their webhook.\<close>

definition DeleteWebhook :: "string \<Rightarrow> Webhook list \<Rightarrow> WebhookDelivery list \<Rightarrow> store_error + (Webhook list \<times> WebhookDelivery list)" where
  "DeleteWebhook i rows ds =
     (if i \<notin> set (map wh_WebhookID rows) then Inl ErrNotFound
      else Inr (filter (\<lambda>w. wh_WebhookID w \<noteq> i) rows, filter (\<lambda>d. wd_WebhookID d \<noteq> i) ds))"

definition CreateDelivery :: "time \<Rightarrow> Webhook list \<Rightarrow> Event list \<Rightarrow> WebhookDelivery \<Rightarrow> WebhookDelivery list \<Rightarrow> store_error + WebhookDelivery list" where
  "CreateDelivery now webhooks events d rows =
     (if wd_DeliveryID d \<in> set (delivery_ids rows) \<or> wd_WebhookID d \<notin> set (map wh_WebhookID webhooks) \<or>
         wd_EventID d \<notin> set (event_ids events) then Inl ErrConstraint
      else Inr (rows @ [d\<lparr>wd_CreatedAt := now, wd_UpdatedAt := now\<rparr>]))"

definition UpdateDelivery :: "time \<Rightarrow> WebhookDelivery \<Rightarrow> WebhookDelivery list \<Rightarrow> store_error + WebhookDelivery list" where
  "UpdateDelivery now d rows =
     (if wd_DeliveryID d \<notin> set (delivery_ids rows) then Inl ErrNotFound
      else Inr (map (\<lambda>r. if wd_DeliveryID r = wd_DeliveryID d
             then r\<lparr>wd_Status := wd_Status d, wd_Attempts := wd_Attempts d, wd_ResponseCode := wd_ResponseCode d,
                    wd_LastError := wd_LastError d, wd_NextRetryAt := wd_NextRetryAt d, wd_UpdatedAt := now\<rparr> else r) rows))"

definition ListDeliveries :: "string \<Rightarrow> WebhookDelivery list \<Rightarrow> WebhookDelivery list" where
  "ListDeliveries webhookID rows = sort_key (\<lambda>d. - wd_CreatedAt d) (filter (\<lambda>d. wd_WebhookID d = webhookID) rows)"

definition PendingDeliveries :: "time \<Rightarrow> WebhookDelivery list \<Rightarrow> WebhookDelivery list" where
  "PendingDeliveries now rows =
     sort_key wd_CreatedAt (filter (\<lambda>d. wd_Status d = ''pending'' \<and>
       (case wd_NextRetryAt d of None \<Rightarrow> True | Some t \<Rightarrow> t \<le> now)) rows)"

section \<open>The deliverer\<close>

definition maxDeliveryAttempts :: int where "maxDeliveryAttempts = 3"

text \<open>Durations are in nanoseconds; the jitter is what \<open>rand\<close> returns for half of the base.\<close>

definition backoff_base :: "int \<Rightarrow> time" where
  "backoff_base attempt = (if attempt = 1 then 1 else if attempt = 2 then 5 else 30) * 1000000000"

definition retryBackoff :: "(time \<Rightarrow> time) \<Rightarrow> int \<Rightarrow> time" where
  "retryBackoff rand attempt = backoff_base attempt + rand (backoff_base attempt div 2)"

datatype http_result = HttpError string | HttpStatus int

text \<open>\<open>wb_posts\<close> logs each request with the delivery it was made for and its answer.\<close>

record WebhookDeliverer =
  wb_webhooks :: "Webhook list"
  wb_deliveries :: "WebhookDelivery list"
  wb_events :: "Event list"
  wb_posts :: "(string \<times> http_result) list"

record webhook_env =
  wv_now :: time
  wv_rand :: "time \<Rightarrow> time"
  wv_marshal :: "Event \<Rightarrow> string + string"
  wv_request :: "string \<Rightarrow> string option"
  wv_answer :: http_result
  wv_status :: "int \<Rightarrow> string"
  wv_updates :: bool

definition webhookMatchesEvent :: "string list \<Rightarrow> string \<Rightarrow> bool" where
  "webhookMatchesEvent patterns eventType \<longleftrightarrow> list_ex (\<lambda>p. MatchPattern p eventType) patterns"

definition nextRetryTime :: "webhook_env \<Rightarrow> int \<Rightarrow> time" where
  "nextRetryTime env attempts = wv_now env + retryBackoff (wv_rand env) attempts"

definition save_delivery :: "webhook_env \<Rightarrow> WebhookDelivery \<Rightarrow> WebhookDeliverer \<Rightarrow> WebhookDeliverer" where
  "save_delivery env d wb =
     (case (if wv_updates env then UpdateDelivery (wv_now env) d (wb_deliveries wb) else Inl ErrUnavailable) of
        Inl _ \<Rightarrow> wb | Inr rows \<Rightarrow> wb\<lparr>wb_deliveries := rows\<rparr>)"

definition recordFailure :: "webhook_env \<Rightarrow> WebhookDelivery \<Rightarrow> int \<Rightarrow> string \<Rightarrow> WebhookDeliverer \<Rightarrow> WebhookDeliverer" where
  "recordFailure env d code errMsg wb =
     (let d = d\<lparr>wd_ResponseCode := code, wd_LastError := errMsg\<rparr>
      in save_delivery env
           (if wd_Attempts d \<ge> maxDeliveryAttempts then d\<lparr>wd_Status := ''failed'', wd_NextRetryAt := None\<rparr>
            else d\<lparr>wd_Status := ''pending'', wd_NextRetryAt := Some (nextRetryTime env (wd_Attempts d))\<rparr>) wb)"

text \<open>\<open>deliver\<close>: one attempt. The answer is that of this request.\<close>

definition wb_deliver :: "webhook_env \<Rightarrow> Webhook \<Rightarrow> Event \<Rightarrow> WebhookDelivery \<Rightarrow> WebhookDeliverer \<Rightarrow> WebhookDeliverer" where
  "wb_deliver env wh e d wb =
     (let d = d\<lparr>wd_Attempts := wd_Attempts d + 1\<rparr>
      in case wv_marshal env e of
           Inl err \<Rightarrow> recordFailure env d 0 (''marshal event: '' @ err) wb
         | Inr body \<Rightarrow>
             (case wv_request env (wh_URL wh) of
                Some err \<Rightarrow> recordFailure env d 0 (''build request: '' @ err) wb
              | None \<Rightarrow>
                  (let wb = wb\<lparr>wb_posts := (wd_DeliveryID d, wv_answer env) # wb_posts wb\<rparr>
                   in case wv_answer env of
                        HttpError err \<Rightarrow> recordFailure env d 0 err wb
                      | HttpStatus code \<Rightarrow>
                          (let d = d\<lparr>wd_ResponseCode := code\<rparr>
                           in save_delivery env
                                (if 200 \<le> code \<and> code < 300 then d\<lparr>wd_Status := ''success'', wd_NextRetryAt := None\<rparr>
                                 else d\<lparr>wd_NextRetryAt := Some (nextRetryTime env (wd_Attempts d)), wd_Status := ''pending'',
                                        wd_LastError := ''HTTP '' @ wv_status env code\<rparr>) wb))))"

text \<open>The loop of \<open>Handler\<close> creates a delivery for every webhook that matches and starts a
  goroutine for it; \<open>uids\<close> are the new identifiers.\<close>

definition new_delivery :: "string \<Rightarrow> Webhook \<Rightarrow> Event \<Rightarrow> string \<Rightarrow> WebhookDelivery" where
  "new_delivery uid wh e payload =
     \<lparr>wd_DeliveryID = uid, wd_WebhookID = wh_WebhookID wh, wd_EventID = ev_EventID e, wd_Status = ''pending'', wd_Attempts = 0,
      wd_ResponseCode = 0, wd_LastError = [], wd_NextRetryAt = None, wd_Payload = payload, wd_CreatedAt = 0, wd_UpdatedAt = 0\<rparr>"

fun handler_loop :: "webhook_env \<Rightarrow> Event \<Rightarrow> (Webhook \<times> string) list \<Rightarrow> WebhookDeliverer \<Rightarrow>
    (Webhook \<times> Event \<times> WebhookDelivery) list \<times> WebhookDeliverer" where
  "handler_loop env e [] wb = ([], wb)"
| "handler_loop env e ((wh, uid) # rest) wb =
     (if \<not> wh_Enabled wh \<or> \<not> webhookMatchesEvent (wh_Events wh) (ev_Type e) then handler_loop env e rest wb
      else let d = new_delivery uid wh e (case wv_marshal env e of Inl _ \<Rightarrow> [] | Inr s \<Rightarrow> s)
           in case (if wv_updates env then CreateDelivery (wv_now env) (wb_webhooks wb) (wb_events wb) d (wb_deliveries wb)
                    else Inl ErrUnavailable) of
                Inl _ \<Rightarrow> handler_loop env e rest wb
              | Inr rows \<Rightarrow> apfst ((#) (wh, e, d)) (handler_loop env e rest (wb\<lparr>wb_deliveries := rows\<rparr>)))"

definition wb_Handler :: "webhook_env \<Rightarrow> string list \<Rightarrow> Event \<Rightarrow> WebhookDeliverer \<Rightarrow>
    (Webhook \<times> Event \<times> WebhookDelivery) list \<times> WebhookDeliverer" where
  "wb_Handler env uids e wb = handler_loop env e (zip (ListWebhooks (wb_webhooks wb)) uids) wb"

text \<open>\<open>retryPending\<close> handles the deliveries it has read one after the other; \<open>hooks\<close> is the list of
  webhooks it has read before.\<close>

definition retry_one :: "webhook_env \<Rightarrow> Webhook list \<Rightarrow> WebhookDelivery \<Rightarrow> WebhookDeliverer \<Rightarrow> WebhookDeliverer" where
  "retry_one env hooks d wb =
     (if wd_Attempts d \<ge> maxDeliveryAttempts then save_delivery env (d\<lparr>wd_Status := ''failed''\<rparr>) wb
      else case find (\<lambda>w. wh_WebhookID w = wd_WebhookID d) hooks of
             None \<Rightarrow> wb
           | Some wh \<Rightarrow>
               (case GetEventByID (wd_EventID d) (wb_events wb) of
                  Inl _ \<Rightarrow> wb
                | Inr e \<Rightarrow> wb_deliver env wh e d wb))"

definition retry_read :: "webhook_env \<Rightarrow> WebhookDeliverer \<Rightarrow> WebhookDelivery list \<times> Webhook list" where
  "retry_read env wb = (PendingDeliveries (wv_now env) (wb_deliveries wb), ListWebhooks (wb_webhooks wb))"

text \<open>A whole pass of the retry loop with nothing in between.\<close>

definition retryPending :: "webhook_env \<Rightarrow> WebhookDeliverer \<Rightarrow> WebhookDeliverer" where
  "retryPending env wb = (case retry_read env wb of (pending, hooks) \<Rightarrow> fold (retry_one env hooks) pending wb)"

section \<open>The processes\<close>

text \<open>\<open>hs_flight\<close>: the goroutines of first attempts that have not posted yet; \<open>hs_todo\<close> and \<open>hs_hooks\<close>: what
  the retry loop has read and not handled yet. An attempt is one step. All updates of the
  database succeed; a new delivery gets an identifier that was never used.\<close>

record webhook_sys =
  hs_wb :: WebhookDeliverer
  hs_flight :: "(Webhook \<times> Event \<times> WebhookDelivery) list"
  hs_todo :: "WebhookDelivery list"
  hs_hooks :: "Webhook list"

abbreviation flight_ids :: "webhook_sys \<Rightarrow> string list" where
  "flight_ids s \<equiv> map (\<lambda>x. wd_DeliveryID (snd (snd x))) (hs_flight s)"

definition used_ids :: "webhook_sys \<Rightarrow> string set" where
  "used_ids s = set (delivery_ids (wb_deliveries (hs_wb s))) \<union> fst ` set (wb_posts (hs_wb s)) \<union> set (flight_ids s) \<union>
     set (delivery_ids (hs_todo s))"

definition sys_handle :: "webhook_env \<Rightarrow> string list \<Rightarrow> Event \<Rightarrow> webhook_sys \<Rightarrow> webhook_sys" where
  "sys_handle env uids e s =
     (case wb_Handler env uids e (hs_wb s) of (fl, wb) \<Rightarrow> s\<lparr>hs_wb := wb, hs_flight := hs_flight s @ fl\<rparr>)"

definition sys_post :: "webhook_env \<Rightarrow> nat \<Rightarrow> webhook_sys \<Rightarrow> webhook_sys" where
  "sys_post env k s =
     (case hs_flight s ! k of (wh, e, d) \<Rightarrow>
        s\<lparr>hs_wb := wb_deliver env wh e d (hs_wb s), hs_flight := take k (hs_flight s) @ drop (Suc k) (hs_flight s)\<rparr>)"

definition sys_poll :: "webhook_env \<Rightarrow> webhook_sys \<Rightarrow> webhook_sys" where
  "sys_poll env s = (case retry_read env (hs_wb s) of (todo, hooks) \<Rightarrow> s\<lparr>hs_todo := todo, hs_hooks := hooks\<rparr>)"

definition sys_retry :: "webhook_env \<Rightarrow> webhook_sys \<Rightarrow> webhook_sys" where
  "sys_retry env s =
     (case hs_todo s of
        [] \<Rightarrow> s
      | d # rest \<Rightarrow> s\<lparr>hs_wb := retry_one env (hs_hooks s) d (hs_wb s), hs_todo := rest\<rparr>)"

definition sys_forget :: "(WebhookDelivery \<Rightarrow> bool) \<Rightarrow> Webhook list \<Rightarrow> Event list \<Rightarrow> webhook_sys \<Rightarrow> webhook_sys" where
  "sys_forget P webhooks events s =
     s\<lparr>hs_wb := (hs_wb s)\<lparr>wb_webhooks := webhooks, wb_events := events,
                   wb_deliveries := filter (\<lambda>d. \<not> P d) (wb_deliveries (hs_wb s))\<rparr>\<rparr>"

inductive webhook_step :: "webhook_sys \<Rightarrow> webhook_sys \<Rightarrow> bool" where
  event: "wv_updates env \<Longrightarrow> distinct uids \<Longrightarrow> set uids \<inter> used_ids s = {} \<Longrightarrow>
     webhook_step s (sys_handle env uids e s)"
| post: "wv_updates env \<Longrightarrow> k < length (hs_flight s) \<Longrightarrow> webhook_step s (sys_post env k s)"
| poll: "hs_todo s = [] \<Longrightarrow> webhook_step s (sys_poll env s)"
| retry: "wv_updates env \<Longrightarrow> webhook_step s (sys_retry env s)"
| stored: "InsertEvent marshals e (wb_events (hs_wb s)) = Inr events \<Longrightarrow>
     webhook_step s (sys_forget (\<lambda>_. False) (wb_webhooks (hs_wb s)) events s)"
| purged: "PurgeEvents before (wb_events (hs_wb s)) = (n, events) \<Longrightarrow>
     webhook_step s (sys_forget (\<lambda>d. wd_EventID d \<notin> set (event_ids events)) (wb_webhooks (hs_wb s)) events s)"
| configured: "CreateWebhook uid now w (wb_webhooks (hs_wb s)) = Inr (w', webhooks) \<or>
      UpdateWebhook now w (wb_webhooks (hs_wb s)) = Inr (w', webhooks) \<Longrightarrow>
     webhook_step s (sys_forget (\<lambda>_. False) webhooks (wb_events (hs_wb s)) s)"
| deleted: "DeleteWebhook i (wb_webhooks (hs_wb s)) (wb_deliveries (hs_wb s)) = Inr (webhooks, ds) \<Longrightarrow>
     webhook_step s (sys_forget (\<lambda>d. wd_WebhookID d = i) webhooks (wb_events (hs_wb s)) s)"

definition webhook_start :: webhook_sys where
  "webhook_start = \<lparr>hs_wb = \<lparr>wb_webhooks = [], wb_deliveries = [], wb_events = [], wb_posts = []\<rparr>, hs_flight = [], hs_todo = [], hs_hooks = []\<rparr>"

definition webhook_init :: "webhook_sys \<Rightarrow> bool" where
  "webhook_init s \<longleftrightarrow> s = webhook_start"

abbreviation webhook_reachable :: "webhook_sys \<Rightarrow> bool" where
  "webhook_reachable \<equiv> reachable webhook_init webhook_step"

end
