(* ===== verification/Webhook_Props.thy ===== *)
theory Webhook_Props
  imports Webhooks "HOL-Library.Multiset"
begin

text \<open>
  How often a delivery is posted, and what its status says, in every interleaving of the
  first attempts, the retry loop and changes of the tables. The bound is proved with a
  potential: for each identifier, the posts made and the posts that the goroutines, the retry
  loop and the row still allow.
\<close>

section \<open>The effect of an attempt\<close>

definition upd_row :: "time \<Rightarrow> WebhookDelivery \<Rightarrow> WebhookDelivery \<Rightarrow> WebhookDelivery" where
  "upd_row now d r = (if wd_DeliveryID r = wd_DeliveryID d
     then r\<lparr>wd_Status := wd_Status d, wd_Attempts := wd_Attempts d, wd_ResponseCode := wd_ResponseCode d,
            wd_LastError := wd_LastError d, wd_NextRetryAt := wd_NextRetryAt d, wd_UpdatedAt := now\<rparr> else r)"

lemma upd_row_sel [simp]:
  "wd_DeliveryID (upd_row now d r) = wd_DeliveryID r"
  "wd_Status (upd_row now d r) = (if wd_DeliveryID r = wd_DeliveryID d then wd_Status d else wd_Status r)"
  "wd_Attempts (upd_row now d r) = (if wd_DeliveryID r = wd_DeliveryID d then wd_Attempts d else wd_Attempts r)"
  by (simp_all add: upd_row_def)

lemma save_delivery_row:
  assumes "wv_updates env"
  shows "save_delivery env d wb = wb\<lparr>wb_deliveries := map (upd_row (wv_now env) d) (wb_deliveries wb)\<rparr>"
proof (cases "wd_DeliveryID d \<in> set (delivery_ids (wb_deliveries wb))")
  case False
  then have "map (upd_row (wv_now env) d) (wb_deliveries wb) = wb_deliveries wb"
    by (intro map_idI) (metis (no_types, lifting) imageI list.set_map upd_row_def)
  with False assms show ?thesis by (simp add: save_delivery_def UpdateDelivery_def)
qed (use assms in \<open>simp add: save_delivery_def UpdateDelivery_def upd_row_def [abs_def]\<close>)

definition posted_ok :: "string \<Rightarrow> (string \<times> http_result) list \<Rightarrow> bool" where
  "posted_ok i posts \<longleftrightarrow> list_ex (\<lambda>(j, r). j = i \<and> (case r of HttpStatus code \<Rightarrow> 200 \<le> code \<and> code < 300 | _ \<Rightarrow> False)) posts"

lemma posted_ok_append [simp]: "posted_ok i (new @ posts) \<longleftrightarrow> posted_ok i new \<or> posted_ok i posts"
  by (simp add: posted_ok_def)

definition status_ok :: "(string \<times> http_result) list \<Rightarrow> WebhookDelivery \<Rightarrow> bool" where
  "status_ok posts d \<longleftrightarrow> wd_Status d = ''pending'' \<or>
     (wd_Status d = ''success'' \<and> posted_ok (wd_DeliveryID d) posts) \<or>
     (wd_Status d = ''failed'' \<and> maxDeliveryAttempts \<le> wd_Attempts d)"

lemma status_ok_more: "status_ok posts d \<Longrightarrow> status_ok (new @ posts) d"
  by (auto simp: status_ok_def)

definition attempted :: "webhook_env \<Rightarrow> WebhookDelivery \<Rightarrow> WebhookDelivery \<Rightarrow> (string \<times> http_result) list \<Rightarrow>
    WebhookDeliverer \<Rightarrow> WebhookDeliverer \<Rightarrow> bool" where
  "attempted env d d' new wb wb' \<longleftrightarrow>
     wb' = wb\<lparr>wb_deliveries := map (upd_row (wv_now env) d') (wb_deliveries wb), wb_posts := new @ wb_posts wb\<rparr> \<and>
     wd_DeliveryID d' = wd_DeliveryID d \<and> wd_Attempts d' = wd_Attempts d + 1 \<and> status_ok new d' \<and>
     (new = [] \<or> (\<exists>r. new = [(wd_DeliveryID d, r)]))"

lemma save_attempted:
  assumes "wv_updates env" "new = [] \<or> (\<exists>r. new = [(wd_DeliveryID d, r)])" "wd_DeliveryID e = wd_DeliveryID d"
    "wd_Attempts e = wd_Attempts d + 1" "status_ok new e"
  shows "attempted env d e new wb (save_delivery env e (wb\<lparr>wb_posts := new @ wb_posts wb\<rparr>))"
  unfolding save_delivery_row [OF assms(1)] using assms(2-5) by (simp add: attempted_def)

lemma recordFailure_attempted:
  assumes "wv_updates env" "new = [] \<or> (\<exists>r. new = [(wd_DeliveryID d, r)])" "wd_DeliveryID e = wd_DeliveryID d"
    "wd_Attempts e = wd_Attempts d + 1"
  shows "\<exists>d'. attempted env d d' new wb (recordFailure env e code err (wb\<lparr>wb_posts := new @ wb_posts wb\<rparr>))"
  unfolding recordFailure_def Let_def
  by (rule exI, rule save_attempted [OF assms(1,2)]) (use assms(3,4) in \<open>simp_all add: status_ok_def\<close>)

lemma wb_deliver_attempted:
  assumes "wv_updates env"
  shows "\<exists>d' new. attempted env d d' new wb (wb_deliver env wh e d wb)"
proof -
  define d1 where "d1 = d\<lparr>wd_Attempts := wd_Attempts d + 1\<rparr>"
  have d1: "wd_DeliveryID d1 = wd_DeliveryID d" "wd_Attempts d1 = wd_Attempts d + 1" by (simp_all add: d1_def)
  note fail = recordFailure_attempted [OF assms _ d1, of _ wb]
  show ?thesis
  proof (cases "wv_marshal env e")
    case (Inl err)
    then show ?thesis using fail [of "[]" 0 "''marshal event: '' @ err"] by (auto simp: wb_deliver_def Let_def d1_def)
  next
    case (Inr body)
    show ?thesis
    proof (cases "wv_request env (wh_URL wh)")
      case (Some err)
      then show ?thesis using Inr fail [of "[]" 0 "''build request: '' @ err"] by (auto simp: wb_deliver_def Let_def d1_def)
    next
      case None
      show ?thesis
      proof (cases "wv_answer env")
        case (HttpError err)
        then show ?thesis using Inr None fail [of "[(wd_DeliveryID d, HttpError err)]" 0 err]
          by (auto simp: wb_deliver_def Let_def d1_def)
      next
        case (HttpStatus code)
        define new where "new = [(wd_DeliveryID d, HttpStatus code)]"
        define d2 where "d2 = (if 200 \<le> code \<and> code < 300 then d1\<lparr>wd_ResponseCode := code, wd_Status := ''success'', wd_NextRetryAt := None\<rparr>
          else d1\<lparr>wd_ResponseCode := code, wd_NextRetryAt := Some (nextRetryTime env (wd_Attempts d1)), wd_Status := ''pending'',
                  wd_LastError := ''HTTP '' @ wv_status env code\<rparr>)"
        have "wb_deliver env wh e d wb = save_delivery env d2 (wb\<lparr>wb_posts := new @ wb_posts wb\<rparr>)"
          using Inr None HttpStatus by (simp add: wb_deliver_def Let_def d1_def d2_def new_def)
        moreover have "attempted env d d2 new wb (save_delivery env d2 (wb\<lparr>wb_posts := new @ wb_posts wb\<rparr>))"
          by (rule save_attempted [OF assms]) (simp_all add: new_def d2_def d1 status_ok_def posted_ok_def)
        ultimately show ?thesis by auto
      qed
    qed
  qed
qed

lemma retry_one_cases:
  assumes "wv_updates env"
  obtains "retry_one env hooks d wb = wb"
  | "maxDeliveryAttempts \<le> wd_Attempts d" "retry_one env hooks d wb =
       wb\<lparr>wb_deliveries := map (upd_row (wv_now env) (d\<lparr>wd_Status := ''failed''\<rparr>)) (wb_deliveries wb)\<rparr>"
  | d' new where "\<not> maxDeliveryAttempts \<le> wd_Attempts d" "attempted env d d' new wb (retry_one env hooks d wb)"
proof (cases "maxDeliveryAttempts \<le> wd_Attempts d")
  case True
  then show ?thesis using that(2) by (simp add: retry_one_def save_delivery_row [OF assms])
next
  case False
  then show ?thesis using that(1,3) wb_deliver_attempted [OF assms, of d wb]
    by (fastforce simp: retry_one_def split: option.splits sum.splits)
qed

section \<open>The potential\<close>

definition left :: "WebhookDelivery \<Rightarrow> nat" where
  "left d = nat (maxDeliveryAttempts - wd_Attempts d)"

definition todo_left :: "string \<Rightarrow> WebhookDelivery list \<Rightarrow> nat" where
  "todo_left i ds = sum_list (map (\<lambda>d. if wd_DeliveryID d = i then left d else 0) ds)"

definition row_left :: "string \<Rightarrow> WebhookDelivery list \<Rightarrow> nat" where
  "row_left i rows = todo_left i (filter (\<lambda>d. wd_Status d = ''pending'') rows)"

definition posts_of :: "string \<Rightarrow> (string \<times> http_result) list \<Rightarrow> nat" where
  "posts_of i posts = length (filter (\<lambda>(j, _). j = i) posts)"

definition potential :: "string \<Rightarrow> webhook_sys \<Rightarrow> nat" where
  "potential i s = posts_of i (wb_posts (hs_wb s)) + 3 * count_list (flight_ids s) i +
     max (todo_left i (hs_todo s)) (row_left i (wb_deliveries (hs_wb s)))"

lemma todo_left_simps [simp]:
  "todo_left i [] = 0" "todo_left i (d # ds) = (if wd_DeliveryID d = i then left d else 0) + todo_left i ds"
  "todo_left i (ds @ ds') = todo_left i ds + todo_left i ds'"
  by (simp_all add: todo_left_def)

lemma row_left_simps [simp]:
  "row_left i [] = 0" "row_left i (d # ds) = (if wd_DeliveryID d = i \<and> wd_Status d = ''pending'' then left d else 0) + row_left i ds"
  "row_left i (ds @ ds') = row_left i ds + row_left i ds'"
  by (simp_all add: row_left_def)

lemma posts_of_simps [simp]:
  "posts_of i [] = 0" "posts_of i ((j, r) # ps) = (if j = i then 1 else 0) + posts_of i ps"
  "posts_of i (ps @ ps') = posts_of i ps + posts_of i ps'"
  by (simp_all add: posts_of_def)

lemma row_left_filter: "row_left i (filter P rows) \<le> row_left i rows"
  by (induction rows) simp_all

lemma todo_left_filter: "todo_left i (filter P rows) \<le> todo_left i rows"
  by (induction rows) simp_all

lemma todo_left_sort: "todo_left i (sort_key f rows) = todo_left i rows"
proof -
  have "todo_left i xs = sum_mset (image_mset (\<lambda>d. if wd_DeliveryID d = i then left d else 0) (mset xs))" for xs
    unfolding todo_left_def by (simp flip: sum_mset_sum_list)
  then show ?thesis by simp
qed

lemma PendingDeliveries_left: "todo_left i (PendingDeliveries now rows) \<le> row_left i rows"
proof -
  have "filter (\<lambda>d. wd_Status d = ''pending'' \<and> P d) rows = filter P (filter (\<lambda>d. wd_Status d = ''pending'') rows)" for P
    by (auto intro: filter_cong)
  then show ?thesis unfolding PendingDeliveries_def todo_left_sort row_left_def by (metis todo_left_filter)
qed

lemma absent_left: "i \<notin> set (delivery_ids ds) \<Longrightarrow> todo_left i ds = 0 \<and> row_left i ds = 0"
  by (induction ds) auto

lemma absent_posts: "i \<notin> fst ` set ps \<Longrightarrow> posts_of i ps = 0"
  by (induction ps) auto

lemma delivery_ids_upd [simp]: "delivery_ids (map (upd_row now d) rows) = delivery_ids rows"
  by simp

lemma row_left_upd:
  "distinct (delivery_ids rows) \<Longrightarrow> row_left i (map (upd_row now d) rows) \<le>
     (if i = wd_DeliveryID d then if wd_Status d = ''pending'' then left d else 0 else row_left i rows)"
proof (induction rows)
  case (Cons r rows)
  show ?case
  proof (cases "wd_DeliveryID r = wd_DeliveryID d \<and> i = wd_DeliveryID d")
    case True
    then have "row_left i (map (upd_row now d) rows) = 0"
      using Cons.prems absent_left [of i "map (upd_row now d) rows"] by auto
    with True show ?thesis by (simp add: left_def)
  next
    case False
    then have "row_left i [upd_row now d r] \<le> (if i = wd_DeliveryID d then 0 else row_left i [r])" by (auto simp: left_def)
    with Cons show ?thesis by (auto split: if_splits)
  qed
qed simp

section \<open>The invariant\<close>

definition webhook_inv :: "webhook_sys \<Rightarrow> bool" where
  "webhook_inv s \<longleftrightarrow> distinct (delivery_ids (wb_deliveries (hs_wb s))) \<and>
     (\<forall>x\<in>set (hs_flight s). wd_Attempts (snd (snd x)) = 0) \<and>
     (\<forall>d \<in> set (wb_deliveries (hs_wb s)). status_ok (wb_posts (hs_wb s)) d) \<and>
     (\<forall>i. potential i s \<le> 2 * nat maxDeliveryAttempts)"

lemma status_ok_upd:
  assumes "\<forall>r\<in>set rows. status_ok posts r" "status_ok (new @ posts) d"
  shows "\<forall>r\<in>set (map (upd_row now d) rows). status_ok (new @ posts) r"
proof
  fix r assume "r \<in> set (map (upd_row now d) rows)"
  then obtain r0 where r0: "r0 \<in> set rows" "r = upd_row now d r0" by auto
  show "status_ok (new @ posts) r"
  proof (cases "wd_DeliveryID r0 = wd_DeliveryID d")
    case True
    then show ?thesis using assms(2) r0(2) by (simp add: status_ok_def)
  next
    case False
    then have "r = r0" using r0(2) by (simp add: upd_row_def)
    then show ?thesis using assms(1) r0(1) status_ok_more by blast
  qed
qed

lemma attempted_rows:
  assumes "attempted env d d' new wb wb'" "distinct (delivery_ids (wb_deliveries wb))"
    "\<forall>r\<in>set (wb_deliveries wb). status_ok (wb_posts wb) r"
  shows "distinct (delivery_ids (wb_deliveries wb'))" "\<forall>r\<in>set (wb_deliveries wb'). status_ok (wb_posts wb') r"
    "posts_of i (wb_posts wb') \<le> (if i = wd_DeliveryID d then 1 else 0) + posts_of i (wb_posts wb)"
    "row_left i (wb_deliveries wb') \<le> (if i = wd_DeliveryID d then nat (maxDeliveryAttempts - wd_Attempts d - 1) else row_left i (wb_deliveries wb))"
proof -
  have wb': "wb_deliveries wb' = map (upd_row (wv_now env) d') (wb_deliveries wb)" "wb_posts wb' = new @ wb_posts wb"
    and d': "wd_DeliveryID d' = wd_DeliveryID d" "wd_Attempts d' = wd_Attempts d + 1" "status_ok new d'"
    and new: "new = [] \<or> (\<exists>r. new = [(wd_DeliveryID d, r)])"
    using assms(1) by (auto simp: attempted_def)
  show "distinct (delivery_ids (wb_deliveries wb'))" using assms(2) unfolding wb' delivery_ids_upd .
  have "status_ok (new @ wb_posts wb) d'" using d'(3) by (auto simp: status_ok_def)
  then show "\<forall>r\<in>set (wb_deliveries wb'). status_ok (wb_posts wb') r"
    unfolding wb' by (rule status_ok_upd [OF assms(3)])
  show "posts_of i (wb_posts wb') \<le> (if i = wd_DeliveryID d then 1 else 0) + posts_of i (wb_posts wb)"
    using new by (auto simp: wb')
  show "row_left i (wb_deliveries wb') \<le> (if i = wd_DeliveryID d then nat (maxDeliveryAttempts - wd_Attempts d - 1) else row_left i (wb_deliveries wb))"
    using row_left_upd [OF assms(2), of i "wv_now env" d'] d'(1,2) unfolding wb' by (auto simp: left_def algebra_simps split: if_splits)
qed

lemma handler_loop_rows:
  "wv_updates env \<Longrightarrow> distinct (map snd ws) \<Longrightarrow> handler_loop env e ws wb = (fl, wb') \<Longrightarrow>
   distinct (map (\<lambda>x. wd_DeliveryID (snd (snd x))) fl) \<and> (\<lambda>x. wd_DeliveryID (snd (snd x))) ` set fl \<subseteq> snd ` set ws \<and>
   (\<forall>x\<in>set fl. wd_Attempts (snd (snd x)) = 0 \<and> wd_Status (snd (snd x)) = ''pending'') \<and> wb_posts wb' = wb_posts wb \<and>
   wb_deliveries wb' = wb_deliveries wb @ map (\<lambda>x. (snd (snd x))\<lparr>wd_CreatedAt := wv_now env, wd_UpdatedAt := wv_now env\<rparr>) fl"
proof (induction ws arbitrary: fl wb wb')
  case (Cons w rest)
  obtain wh uid where w: "w = (wh, uid)" by (cases w)
  define d where "d = new_delivery uid wh e (case wv_marshal env e of Inl _ \<Rightarrow> [] | Inr s \<Rightarrow> s)"
  consider "handler_loop env e rest wb = (fl, wb')"
    | rows fl' where "CreateDelivery (wv_now env) (wb_webhooks wb) (wb_events wb) d (wb_deliveries wb) = Inr rows"
      "handler_loop env e rest (wb\<lparr>wb_deliveries := rows\<rparr>) = (fl', wb')" "fl = (wh, e, d) # fl'"
    using Cons.prems(1,3) by (force simp: w Let_def d_def apfst_def map_prod_def split: if_splits sum.splits prod.splits)
  then show ?case
  proof cases
    case 1
    then show ?thesis using Cons.IH [OF Cons.prems(1) _ 1] Cons.prems(2) w by auto
  next
    case 2
    have "rows = wb_deliveries wb @ [d\<lparr>wd_CreatedAt := wv_now env, wd_UpdatedAt := wv_now env\<rparr>]"
      using 2(1) by (simp add: CreateDelivery_def split: if_splits)
    moreover have "wd_DeliveryID d = uid" "wd_Attempts d = 0" "wd_Status d = ''pending''"
      by (simp_all add: d_def new_delivery_def)
    ultimately show ?thesis using Cons.IH [OF Cons.prems(1) _ 2(2)] Cons.prems(2) 2(3) w by auto
  qed
qed simp

lemma created_left:
  "\<forall>x\<in>set fl. wd_Attempts (snd (snd x)) = 0 \<and> wd_Status (snd (snd x)) = ''pending'' \<Longrightarrow>
   row_left i (map (\<lambda>x. (snd (snd x))\<lparr>wd_CreatedAt := t, wd_UpdatedAt := t\<rparr>) fl) = 3 * count_list (map (\<lambda>x. wd_DeliveryID (snd (snd x))) fl) i"
  by (induction fl) (auto simp: left_def maxDeliveryAttempts_def)

lemma inv_handle:
  assumes "webhook_inv s" "wv_updates env" "distinct uids" "set uids \<inter> used_ids s = {}"
  shows "webhook_inv (sys_handle env uids e s)"
proof -
  obtain fl wb' where h: "wb_Handler env uids e (hs_wb s) = (fl, wb')" by (cases "wb_Handler env uids e (hs_wb s)")
  define ws where "ws = zip (ListWebhooks (wb_webhooks (hs_wb s))) uids"
  have "distinct (map snd ws)" using assms(3) by (simp add: ws_def map_snd_zip_take)
  from handler_loop_rows [OF assms(2) this, of e "hs_wb s" fl wb'] h
  have fl: "distinct (map (\<lambda>x. wd_DeliveryID (snd (snd x))) fl)" "(\<lambda>x. wd_DeliveryID (snd (snd x))) ` set fl \<subseteq> snd ` set ws"
    "\<forall>x\<in>set fl. wd_Attempts (snd (snd x)) = 0 \<and> wd_Status (snd (snd x)) = ''pending''"
    and wb': "wb_posts wb' = wb_posts (hs_wb s)" "wb_deliveries wb' = wb_deliveries (hs_wb s) @
      map (\<lambda>x. (snd (snd x))\<lparr>wd_CreatedAt := wv_now env, wd_UpdatedAt := wv_now env\<rparr>) fl"
    by (simp_all add: wb_Handler_def ws_def)
  have "snd ` set ws \<subseteq> set uids" by (auto simp: ws_def dest: set_zip_rightD)
  then have new: "set (map (\<lambda>x. wd_DeliveryID (snd (snd x))) fl) \<inter> used_ids s = {}" using fl(2) assms(4) unfolding list.set_map by blast
  define s' where "s' = sys_handle env uids e s"
  have s': "hs_wb s' = wb'" "hs_flight s' = hs_flight s @ fl" "hs_todo s' = hs_todo s"
    using h by (simp_all add: s'_def sys_handle_def)
  have ids: "delivery_ids (map (\<lambda>x. (snd (snd x))\<lparr>wd_CreatedAt := wv_now env, wd_UpdatedAt := wv_now env\<rparr>) fl) =
      map (\<lambda>x. wd_DeliveryID (snd (snd x))) fl" by (induction fl) auto
  have "potential i s' \<le> 2 * nat maxDeliveryAttempts" for i
  proof -
    have p: "potential i s' \<le> 6 * count_list (map (\<lambda>x. wd_DeliveryID (snd (snd x))) fl) i + potential i s"
      by (simp add: potential_def s' wb' created_left [OF fl(3)])
    show ?thesis
    proof (cases "i \<in> set (map (\<lambda>x. wd_DeliveryID (snd (snd x))) fl)")
      case True
      then have "i \<notin> used_ids s" using new by auto
      then have "potential i s = 0" by (simp add: potential_def used_ids_def absent_left absent_posts count_list_0_iff)
      then show ?thesis using p count_list_distinct [OF fl(1), of i] by (simp add: maxDeliveryAttempts_def split: if_splits)
    next
      case False
      then have "count_list (map (\<lambda>x. wd_DeliveryID (snd (snd x))) fl) i = 0" by (simp add: count_list_0_iff)
      moreover have "potential i s \<le> 2 * nat maxDeliveryAttempts" using assms(1) by (simp add: webhook_inv_def)
      ultimately show ?thesis using p by linarith
    qed
  qed
  moreover have "distinct (delivery_ids (wb_deliveries wb'))"
    using assms(1) fl(1) new unfolding wb' map_append ids by (auto simp: webhook_inv_def used_ids_def)
  moreover have "\<forall>d\<in>set (wb_deliveries wb'). status_ok (wb_posts wb') d"
    using assms(1) fl(3) unfolding wb' by (auto simp: webhook_inv_def status_ok_def)
  moreover have "\<forall>x\<in>set (hs_flight s'). wd_Attempts (snd (snd x)) = 0"
    using assms(1) fl(3) unfolding s' webhook_inv_def by auto
  ultimately have "webhook_inv s'" unfolding webhook_inv_def s' by blast
  then show ?thesis by (simp add: s'_def)
qed

lemma inv_forget:
  assumes "webhook_inv s"
  shows "webhook_inv (sys_forget P webhooks events s)"
proof -
  have "potential i (sys_forget P webhooks events s) \<le> potential i s" for i
    using row_left_filter [of i "\<lambda>d. \<not> P d" "wb_deliveries (hs_wb s)"] by (simp add: potential_def sys_forget_def max_def)
  then have "\<forall>i. potential i (sys_forget P webhooks events s) \<le> 2 * nat maxDeliveryAttempts"
    using assms le_trans unfolding webhook_inv_def by blast
  then show ?thesis using assms by (simp add: webhook_inv_def sys_forget_def distinct_map_filter)
qed

lemma inv_poll:
  assumes "webhook_inv s" "hs_todo s = []"
  shows "webhook_inv (sys_poll env s)"
proof -
  have "potential i (sys_poll env s) \<le> potential i s" for i
    using PendingDeliveries_left [of i "wv_now env" "wb_deliveries (hs_wb s)"] by (simp add: potential_def sys_poll_def retry_read_def assms(2))
  then have "\<forall>i. potential i (sys_poll env s) \<le> 2 * nat maxDeliveryAttempts"
    using assms(1) le_trans unfolding webhook_inv_def by blast
  then show ?thesis using assms by (simp add: webhook_inv_def sys_poll_def retry_read_def)
qed

lemma inv_post:
  assumes "webhook_inv s" "wv_updates env" "k < length (hs_flight s)"
  shows "webhook_inv (sys_post env k s)"
proof -
  obtain wh e d where k: "hs_flight s ! k = (wh, e, d)" by (cases "hs_flight s ! k")
  have fl: "hs_flight s = take k (hs_flight s) @ (wh, e, d) # drop (Suc k) (hs_flight s)"
    using id_take_nth_drop [OF assms(3)] k by simp
  have a: "wd_Attempts d = 0" using assms(1) nth_mem [OF assms(3)] k by (auto simp: webhook_inv_def)
  define wb' where "wb' = wb_deliver env wh e d (hs_wb s)"
  obtain d' new where at: "attempted env d d' new (hs_wb s) wb'" using wb_deliver_attempted [OF assms(2)] wb'_def by blast
  define s' where "s' = sys_post env k s"
  have s': "hs_wb s' = wb'" "hs_flight s' = take k (hs_flight s) @ drop (Suc k) (hs_flight s)" "hs_todo s' = hs_todo s"
    using k by (simp_all add: s'_def sys_post_def wb'_def)
  have inv: "distinct (delivery_ids (wb_deliveries (hs_wb s)))" "\<forall>r\<in>set (wb_deliveries (hs_wb s)). status_ok (wb_posts (hs_wb s)) r"
    using assms(1) by (simp_all add: webhook_inv_def)
  note rows = attempted_rows [OF at inv]
  have "potential i s' \<le> potential i s" for i
  proof -
    have "count_list (flight_ids s) i = count_list (flight_ids s') i + (if i = wd_DeliveryID d then 1 else 0)"
      unfolding s' by (subst fl) simp
    then show ?thesis using rows(3,4) [of i] a unfolding potential_def s'
      by (auto simp: maxDeliveryAttempts_def max_def split: if_splits)
  qed
  then have "\<forall>i. potential i s' \<le> 2 * nat maxDeliveryAttempts" using assms(1) le_trans unfolding webhook_inv_def by blast
  moreover have "\<forall>x\<in>set (hs_flight s'). wd_Attempts (snd (snd x)) = 0"
    using assms(1) unfolding s' webhook_inv_def by (auto dest: in_set_takeD in_set_dropD)
  ultimately have "webhook_inv s'" using rows(1,2) unfolding webhook_inv_def s' by blast
  then show ?thesis by (simp add: s'_def)
qed

lemma inv_retry:
  assumes "webhook_inv s" "wv_updates env"
  shows "webhook_inv (sys_retry env s)"
proof (cases "hs_todo s")
  case (Cons d rest)
  define wb' where "wb' = retry_one env (hs_hooks s) d (hs_wb s)"
  define s' where "s' = sys_retry env s"
  have s': "hs_wb s' = wb'" "hs_flight s' = hs_flight s" "hs_todo s' = rest"
    using Cons by (simp_all add: s'_def sys_retry_def wb'_def)
  have inv: "distinct (delivery_ids (wb_deliveries (hs_wb s)))" "\<forall>r\<in>set (wb_deliveries (hs_wb s)). status_ok (wb_posts (hs_wb s)) r"
    using assms(1) by (simp_all add: webhook_inv_def)
  have "distinct (delivery_ids (wb_deliveries wb')) \<and> (\<forall>r\<in>set (wb_deliveries wb'). status_ok (wb_posts wb') r) \<and>
      (\<forall>i. potential i s' \<le> potential i s)"
  proof (cases rule: retry_one_cases [OF assms(2), of "hs_hooks s" d "hs_wb s"])
    case 1
    then show ?thesis using inv Cons by (auto simp: wb'_def potential_def s')
  next
    case 2
    have f: "status_ok (wb_posts (hs_wb s)) (d\<lparr>wd_Status := ''failed''\<rparr>)" using 2(1) by (simp add: status_ok_def)
    have r: "row_left i (wb_deliveries wb') \<le> row_left i (wb_deliveries (hs_wb s))" for i
      using row_left_upd [OF inv(1), of i "wv_now env" "d\<lparr>wd_Status := ''failed''\<rparr>"]
      by (simp add: wb'_def 2(2) split: if_splits)
    have "potential i s' \<le> potential i s" for i
      using r [of i] Cons by (auto simp: potential_def s' wb'_def 2(2) le_max_iff_disj)
    then show ?thesis using inv(1) status_ok_upd [OF inv(2), of "[]" _ "wv_now env"] f
      by (simp add: wb'_def 2(2) comp_def)
  next
    case (3 d' new)
    note rows = attempted_rows [OF 3(2) inv]
    have "potential i s' \<le> potential i s" for i
      using rows(3,4) [of i] 3(1) Cons by (auto simp: potential_def s' wb'_def left_def max_def split: if_splits)
    then show ?thesis using rows(1,2) by (simp add: wb'_def)
  qed
  moreover have "\<forall>x\<in>set (hs_flight s'). wd_Attempts (snd (snd x)) = 0" using assms(1) by (simp add: s' webhook_inv_def)
  moreover have "\<forall>i. potential i s \<le> 2 * nat maxDeliveryAttempts" using assms(1) by (simp add: webhook_inv_def)
  ultimately have "webhook_inv s'" unfolding webhook_inv_def s'(1) by (meson le_trans)
  then show ?thesis by (simp add: s'_def)
qed (use assms in \<open>simp add: sys_retry_def\<close>)

lemma webhook_step_inv: "webhook_step s s' \<Longrightarrow> webhook_inv s \<Longrightarrow> webhook_inv s'"
  by (induction rule: webhook_step.induct) (simp_all add: inv_handle inv_post inv_poll inv_retry inv_forget)

interpretation webhooks: invariant_system webhook_init webhook_step webhook_inv
proof
  show "webhook_inv s" if "webhook_init s" for s
    using that by (simp add: webhook_init_def webhook_inv_def webhook_start_def potential_def)
  show "webhook_inv t" if "webhook_inv s" "webhook_step s t" for s t by (rule webhook_step_inv [OF that(2,1)])
qed


section \<open>A delivery that is posted twice\<close>

definition whenv :: "http_result \<Rightarrow> webhook_env" where
  "whenv answer = \<lparr>wv_now = 5, wv_rand = (\<lambda>_. 0), wv_marshal = (\<lambda>e. Inr ''{}''), wv_request = (\<lambda>_. None),
     wv_answer = answer, wv_status = itoa, wv_updates = True\<rparr>"

definition hook1 :: Webhook where
  "hook1 = \<lparr>wh_WebhookID = ''w'', wh_Name = [], wh_URL = ''u'', wh_Secret = [], wh_Events = [''*''], wh_Enabled = True,
     wh_CreatedAt = 1, wh_UpdatedAt = 1\<rparr>"

definition hooked :: webhook_sys where
  "hooked = sys_forget (\<lambda>_. False) [hook1] [event_at ''e1'' ''run.failed'' 3] webhook_start"

lemma hooked_reachable: "webhook_reachable hooked"
proof -
  define s1 where "s1 = sys_forget (\<lambda>_. False) [hook1] [] webhook_start"
  have "CreateWebhook ''w'' 1 hook1 (wb_webhooks (hs_wb webhook_start)) = Inr (hook1, [hook1])"
    by (simp add: CreateWebhook_def webhook_start_def hook1_def Let_def)
  moreover have "wb_events (hs_wb webhook_start) = []" by (simp add: webhook_start_def)
  ultimately have "webhook_step webhook_start s1"
    using webhook_step.configured [of "''w''" 1 hook1 webhook_start hook1 "[hook1]"] by (simp add: s1_def)
  then have "webhook_reachable s1" by (rule reach_step [OF reach_init, rotated]) (simp add: webhook_init_def)
  moreover have "webhook_step s1 hooked"
    using webhook_step.stored [of "\<lambda>_. True" "event_at ''e1'' ''run.failed'' 3" s1 "[event_at ''e1'' ''run.failed'' 3]"]
    by (simp add: InsertEvent_def s1_def hooked_def sys_forget_def webhook_start_def)
  ultimately show ?thesis by (rule reach_step)
qed

text \<open>The poll comes while the first request is under way: the retry is answered with 200, the first request times out.\<close>

definition twice :: webhook_sys where
  "twice = sys_post (whenv (HttpError ''timeout'')) 0 (sys_retry (whenv (HttpStatus 200)) (sys_poll (whenv (HttpStatus 200))
     (sys_handle (whenv (HttpStatus 200)) [''d1''] (event_at ''e1'' ''run.failed'' 3) hooked)))"

lemmas twice_simps = twice_def sys_post_def sys_retry_def sys_poll_def sys_handle_def hooked_def sys_forget_def
  webhook_start_def wb_Handler_def ListWebhooks_def webhookMatchesEvent_def MatchPattern_def CreateDelivery_def
  new_delivery_def retry_read_def PendingDeliveries_def retry_one_def maxDeliveryAttempts_def GetEventByID_def
  wb_deliver_def recordFailure_def save_delivery_def UpdateDelivery_def whenv_def hook1_def Let_def sort_key_def used_ids_def

lemma twice_reachable: "webhook_reachable twice"
proof -
  define s1 where "s1 = sys_handle (whenv (HttpStatus 200)) [''d1''] (event_at ''e1'' ''run.failed'' 3) hooked"
  have u: "wv_updates (whenv r)" for r by (simp add: whenv_def)
  have "webhook_step hooked s1" unfolding s1_def by (rule webhook_step.event [OF u]) (simp_all add: twice_simps)
  then have 1: "webhook_reachable s1" by (rule reach_step [OF hooked_reachable])
  have t: "hs_todo s1 = []" "hs_flight s1 \<noteq> []" by (simp_all add: s1_def twice_simps)
  have f: "0 < length (hs_flight (sys_retry (whenv (HttpStatus 200)) (sys_poll (whenv (HttpStatus 200)) s1)))"
    using t(2) by (auto simp: sys_retry_def sys_poll_def retry_read_def split: prod.splits list.splits)
  have "webhook_step s1 (sys_poll (whenv (HttpStatus 200)) s1)" by (rule webhook_step.poll [OF t(1)])
  then have 2: "webhook_reachable (sys_poll (whenv (HttpStatus 200)) s1)" by (rule reach_step [OF 1])
  show ?thesis unfolding twice_def s1_def [symmetric]
    by (rule reach_step [OF reach_step [OF 2 webhook_step.retry [OF u]] webhook_step.post [OF u f]])
qed

lemma delivered_twice: "posts_of ''d1'' (wb_posts (hs_wb twice)) = 2 \<and>
    map (\<lambda>d. (wd_Status d, wd_Attempts d)) (wb_deliveries (hs_wb twice)) = [(''pending'', 1)]"
  by (simp add: twice_simps)


text \<open>The retry loop posts to a webhook that was disabled after the event.\<close>

lemma retry_ignores_enabled:
  "wb_posts (retry_one (whenv (HttpStatus 200)) [hook1\<lparr>wh_Enabled := False\<rparr>]
     (new_delivery ''d1'' hook1 (event_at ''e1'' ''run.failed'' 3) ''{}'') (hs_wb hooked)) = [(''d1'', HttpStatus 200)]"
  by (simp add: twice_simps)

end
