(* ===== verification/Github_Filters.thy ===== *)
theory Github_Filters
  imports Go_Strings "HOL-Library.Finite_Map"
begin

text \<open>
  What the GitHub connector of the bridge does with one event: the filters
  (\<open>connector/github/filters.go\<close>) and the template variables
  (\<open>connector/github/variables.go\<close>). \<open>path.Match\<close> is written out as the Go library has it; its
  error is \<open>Inl\<close>. Numbers of GitHub are \<open>int\<close>.
\<close>

section \<open>Patterns for paths\<close>

datatype pattern_error = ErrBadPattern

fun scan_loop :: "bool \<Rightarrow> string \<Rightarrow> nat" where
  "scan_loop inrange [] = 0"
| "scan_loop inrange (c # p) =
     (if c = backslash then (case p of [] \<Rightarrow> 1 | _ # q \<Rightarrow> 2 + scan_loop inrange q)
      else if c = CHR ''['' then 1 + scan_loop True p
      else if c = CHR '']'' then 1 + scan_loop False p
      else if c = CHR ''*'' \<and> \<not> inrange then 0
      else 1 + scan_loop inrange p)"

definition scanChunk :: "string \<Rightarrow> bool \<times> string \<times> string" where
  "scanChunk pattern =
     (let p = dropWhile (\<lambda>c. c = CHR ''*'') pattern; i = scan_loop False p
      in (p \<noteq> pattern, take i p, drop i p))"

definition getEsc :: "string \<Rightarrow> pattern_error + nat \<times> string" where
  "getEsc chunk =
     (if chunk = [] \<or> hd chunk = CHR ''-'' \<or> hd chunk = CHR '']'' then Inl ErrBadPattern
      else let chunk = (if hd chunk = backslash then tl chunk else chunk)
           in if chunk = [] \<or> (rune_at chunk = 65533 \<and> rune_width chunk = 1) \<or> drop (rune_width chunk) chunk = [] then Inl ErrBadPattern
              else Inr (rune_at chunk, drop (rune_width chunk) chunk))"

text \<open>The ranges of a character set; the fuel is the length of the chunk, every range takes a byte.\<close>

fun ranges :: "nat \<Rightarrow> nat \<Rightarrow> bool \<Rightarrow> bool \<Rightarrow> string \<Rightarrow> pattern_error + bool \<times> string" where
  "ranges 0 r some_range hit chunk = Inl ErrBadPattern"
| "ranges (Suc fuel) r some_range hit chunk =
     (if chunk \<noteq> [] \<and> hd chunk = CHR '']'' \<and> some_range then Inr (hit, tl chunk)
      else case getEsc chunk of
             Inl e \<Rightarrow> Inl e
           | Inr (lo, chunk) \<Rightarrow>
               (case (if hd chunk = CHR ''-'' then getEsc (tl chunk) else Inr (lo, chunk)) of
                  Inl e \<Rightarrow> Inl e
                | Inr (hi, chunk) \<Rightarrow> ranges fuel r True (hit \<or> (lo \<le> r \<and> r \<le> hi)) chunk))"

text \<open>\<open>matchChunk\<close> with its flag \<open>failed\<close>: the rest of the text, \<open>None\<close> for no match.\<close>

fun match_chunk :: "nat \<Rightarrow> bool \<Rightarrow> string \<Rightarrow> string \<Rightarrow> pattern_error + string option" where
  "match_chunk 0 failed chunk s = Inr (if failed then None else Some s)"
| "match_chunk (Suc fuel) failed chunk s =
     (case chunk of
        [] \<Rightarrow> Inr (if failed then None else Some s)
      | c # rest \<Rightarrow>
          (let failed = (failed \<or> s = []); s' = (if failed then s else drop (rune_width s) s) in
           if c = CHR ''['' then
             (let negated = HasPrefix rest ''^''; rest = (if negated then tl rest else rest)
              in case ranges (Suc (length rest)) (if failed then 0 else rune_at s) False False rest of
                   Inl e \<Rightarrow> Inl e
                 | Inr (hit, rest) \<Rightarrow> match_chunk fuel (failed \<or> hit = negated) rest s')
           else if c = CHR ''?'' then match_chunk fuel (failed \<or> hd s = CHR ''/'') rest s'
           else if c = backslash \<and> rest = [] then Inl ErrBadPattern
           else
             (let (c, rest) = (if c = backslash then (hd rest, tl rest) else (c, rest))
              in match_chunk fuel (failed \<or> c \<noteq> hd s) rest (tl s))))"

definition matchChunk :: "string \<Rightarrow> string \<Rightarrow> pattern_error + string option" where
  "matchChunk chunk s = match_chunk (Suc (length chunk)) False chunk s"

text \<open>The loop behind a star: the chunk is tried after each skipped byte up to a slash. \<open>final\<close> says that no
  pattern follows.\<close>

fun star_loop :: "bool \<Rightarrow> string \<Rightarrow> string \<Rightarrow> pattern_error + string option" where
  "star_loop final chunk [] = Inr None"
| "star_loop final chunk (c # s) =
     (if c = CHR ''/'' then Inr None
      else case matchChunk chunk s of
             Inl e \<Rightarrow> Inl e
           | Inr (Some t) \<Rightarrow> if final \<and> t \<noteq> [] then star_loop final chunk s else Inr (Some t)
           | Inr None \<Rightarrow> star_loop final chunk s)"

fun match_loop :: "nat \<Rightarrow> string \<Rightarrow> string \<Rightarrow> bool" where
  "match_loop 0 pattern name \<longleftrightarrow> pattern = [] \<and> name = []"
| "match_loop (Suc fuel) pattern name \<longleftrightarrow>
     (if pattern = [] then name = []
      else case scanChunk pattern of (star, chunk, rest) \<Rightarrow>
        if star \<and> chunk = [] then CHR ''/'' \<notin> set name
        else case matchChunk chunk name of
               Inl _ \<Rightarrow> False
             | Inr t \<Rightarrow>
                 (case t of
                    Some t' \<Rightarrow>
                      if t' = [] \<or> rest \<noteq> [] then match_loop fuel rest t'
                      else star \<and> (case star_loop (rest = []) chunk name of Inr (Some u) \<Rightarrow> match_loop fuel rest u | _ \<Rightarrow> False)
                  | None \<Rightarrow> star \<and> (case star_loop (rest = []) chunk name of Inr (Some u) \<Rightarrow> match_loop fuel rest u | _ \<Rightarrow> False)))"

text \<open>\<open>path.Match\<close>; whether the pattern was malformed is not looked at by the callers.\<close>

definition path_Match :: "string \<Rightarrow> string \<Rightarrow> bool" where
  "path_Match pattern name = match_loop (Suc (length pattern)) pattern name"

section \<open>Filters\<close>

record Filters =
  fl_Branches :: "string list"
  fl_Labels :: "string list"
  fl_CheckNames :: "string list"
  fl_Conclusions :: "string list"
  fl_Paths :: "string list"
  fl_AuthorsIgnore :: "string list"
  fl_ReviewStates :: "string list"
  fl_TagPatterns :: "string list"

record EventData =
  ed_BaseBranch :: string
  ed_Labels :: "string list"
  ed_CheckName :: string
  ed_Conclusion :: string
  ed_ChangedFiles :: "string list"
  ed_Author :: string
  ed_ReviewState :: string
  ed_Tag :: string

definition event_data0 :: EventData where
  "event_data0 = \<lparr>ed_BaseBranch = [], ed_Labels = [], ed_CheckName = [], ed_Conclusion = [], ed_ChangedFiles = [],
     ed_Author = [], ed_ReviewState = [], ed_Tag = []\<rparr>"

definition matchBranches :: "string list \<Rightarrow> string \<Rightarrow> bool" where
  "matchBranches flt baseBranch = (if flt = [] then True else list_ex (\<lambda>b. b = baseBranch) flt)"

definition matchLabels :: "string list \<Rightarrow> string list \<Rightarrow> bool" where
  "matchLabels flt eventLabels =
     (if flt = [] then True else let filterSet = fset_of_list flt in list_ex (\<lambda>l. l |\<in>| filterSet) eventLabels)"

definition matchStringInList :: "string list \<Rightarrow> string \<Rightarrow> bool" where
  "matchStringInList flt v = (if flt = [] then True else list_ex (\<lambda>item. item = v) flt)"

definition matchPath :: "string \<Rightarrow> string \<Rightarrow> bool" where
  "matchPath pattern filePath =
     (if HasSuffix pattern ''/**'' then HasPrefix filePath (TrimSuffix pattern ''/**'' @ ''/'') else path_Match pattern filePath)"

definition matchPaths :: "string list \<Rightarrow> string list \<Rightarrow> bool" where
  "matchPaths flt changedFiles =
     (if flt = [] then True else list_ex (\<lambda>f. list_ex (\<lambda>pattern. matchPath pattern f) flt) changedFiles)"

definition matchAuthorsIgnore :: "string list \<Rightarrow> string \<Rightarrow> bool" where
  "matchAuthorsIgnore flt author = (if flt = [] then True else \<not> list_ex (\<lambda>ignored. ignored = author) flt)"

definition matchReviewStates :: "string list \<Rightarrow> string \<Rightarrow> bool" where
  "matchReviewStates states st = (if states = [] then True else list_ex (\<lambda>s. s = st) states)"

definition matchTagPatterns :: "string list \<Rightarrow> string \<Rightarrow> bool" where
  "matchTagPatterns patterns tag = (if patterns = [] then True else list_ex (\<lambda>p. path_Match p tag) patterns)"

definition filters_Match :: "Filters \<Rightarrow> EventData \<Rightarrow> bool" where
  "filters_Match f e =
     (if \<not> matchBranches (fl_Branches f) (ed_BaseBranch e) then False
      else if \<not> matchLabels (fl_Labels f) (ed_Labels e) then False
      else if \<not> matchStringInList (fl_CheckNames f) (ed_CheckName e) then False
      else if \<not> matchStringInList (fl_Conclusions f) (ed_Conclusion e) then False
      else if \<not> matchPaths (fl_Paths f) (ed_ChangedFiles e) then False
      else if \<not> matchAuthorsIgnore (fl_AuthorsIgnore f) (ed_Author e) then False
      else if \<not> matchReviewStates (fl_ReviewStates f) (ed_ReviewState e) then False
      else matchTagPatterns (fl_TagPatterns f) (ed_Tag e))"

section \<open>Payloads and template variables\<close>

record PRData =
  pr_Number :: int
  pr_Title :: string
  pr_Body :: string
  pr_HTMLURL :: string
  pr_DiffURL :: string
  pr_UpdatedAt :: string
  pr_User :: string
  pr_HeadRef :: string
  pr_HeadSHA :: string
  pr_BaseRef :: string
  pr_Labels :: "string list"

record CheckRunData =
  cr_ID :: int
  cr_Name :: string
  cr_Status :: string
  cr_Conclusion :: string
  cr_HTMLURL :: string
  cr_OutputTitle :: string
  cr_OutputSummary :: string
  cr_OutputText :: string
  cr_PullRequests :: "string list"

record IssueData =
  is_Number :: int
  is_Title :: string
  is_Body :: string
  is_HTMLURL :: string
  is_PullRequest :: bool
  is_User :: string
  is_Labels :: "string list"

record IssueCommentData =
  ic_ID :: int
  ic_Body :: string
  ic_HTMLURL :: string
  ic_UpdatedAt :: string
  ic_User :: string
  ic_IssueURL :: string

record PRCommentData =
  pc_ID :: int
  pc_Body :: string
  pc_HTMLURL :: string
  pc_UpdatedAt :: string
  pc_User :: string
  pc_PullRequestURL :: string

record PRReviewData =
  rv_ID :: int
  rv_State :: string
  rv_Body :: string
  rv_HTMLURL :: string
  rv_SubmittedAt :: string
  rv_User :: string

record ReleaseData =
  rl_ID :: int
  rl_TagName :: string
  rl_Name :: string
  rl_Body :: string
  rl_HTMLURL :: string
  rl_Author :: string
  rl_PublishedAt :: string

type_synonym variables = "(string, string) fmap"

definition maxCheckOutputLen :: nat where "maxCheckOutputLen = 4096"
definition maxBodyLen :: nat where "maxBodyLen = 4096"
definition truncateSuffix :: string where "truncateSuffix = ''... [truncated]''"

definition truncateBody :: "string \<Rightarrow> string" where
  "truncateBody s =
     (if length (runes s) \<le> maxBodyLen then s
      else let cutAt = maxBodyLen - length (runes truncateSuffix) in concat (take cutAt (runes s)) @ truncateSuffix)"

definition join :: "string \<Rightarrow> string list \<Rightarrow> string" where
  "join sep parts = (case parts of [] \<Rightarrow> [] | p # ps \<Rightarrow> p @ concat (map (\<lambda>q. sep @ q) ps))"

text \<open>\<open>strings.ToLower\<close> on ASCII text, as the states of GitHub are.\<close>

definition ToLower :: "string \<Rightarrow> string" where
  "ToLower s = map (\<lambda>c. let n = of_char c :: nat in if 65 \<le> n \<and> n \<le> 90 then char_of (n + 32) else c) s"

definition ExtractPRVariables :: "PRData \<Rightarrow> string \<Rightarrow> variables" where
  "ExtractPRVariables pr repo = fmap_of_list
     [(''PR_URL'', pr_HTMLURL pr), (''PR_TITLE'', pr_Title pr), (''PR_BODY'', truncateBody (pr_Body pr)),
      (''PR_AUTHOR'', pr_User pr), (''PR_BRANCH'', pr_HeadRef pr), (''PR_BASE'', pr_BaseRef pr),
      (''PR_NUMBER'', itoa (pr_Number pr)), (''PR_DIFF_URL'', pr_DiffURL pr), (''REPO_FULL_NAME'', repo)]"

definition ExtractCheckRunVariables :: "CheckRunData \<Rightarrow> string \<Rightarrow> variables" where
  "ExtractCheckRunVariables cr repo =
     (let prURL = (case cr_PullRequests cr of [] \<Rightarrow> [] | u # _ \<Rightarrow> u);
          out = join [CHR 10] [cr_OutputTitle cr, cr_OutputSummary cr, cr_OutputText cr];
          out = (if length out > maxCheckOutputLen then take maxCheckOutputLen out else out)
      in fmap_of_list
           [(''CHECK_NAME'', cr_Name cr), (''CHECK_STATUS'', cr_Status cr), (''CHECK_CONCLUSION'', cr_Conclusion cr),
            (''CHECK_URL'', cr_HTMLURL cr), (''CHECK_OUTPUT'', out), (''PR_URL'', prURL), (''REPO_FULL_NAME'', repo)])"

definition ExtractIssueCommentVariables :: "IssueCommentData \<Rightarrow> string \<Rightarrow> int \<Rightarrow> string \<Rightarrow> string \<Rightarrow> variables" where
  "ExtractIssueCommentVariables c repo issueNumber issueTitle issueURL = fmap_of_list
     [(''COMMENT_BODY'', truncateBody (ic_Body c)), (''COMMENT_AUTHOR'', ic_User c), (''COMMENT_URL'', ic_HTMLURL c),
      (''ISSUE_NUMBER'', itoa issueNumber), (''ISSUE_TITLE'', issueTitle), (''ISSUE_URL'', issueURL), (''REPO_FULL_NAME'', repo)]"

definition ExtractPRCommentVariables :: "PRCommentData \<Rightarrow> string \<Rightarrow> int \<Rightarrow> string \<Rightarrow> string \<Rightarrow> variables" where
  "ExtractPRCommentVariables c repo prNumber prTitle prURL = fmap_of_list
     [(''COMMENT_BODY'', truncateBody (pc_Body c)), (''COMMENT_AUTHOR'', pc_User c), (''COMMENT_URL'', pc_HTMLURL c),
      (''PR_NUMBER'', itoa prNumber), (''PR_TITLE'', prTitle), (''PR_URL'', prURL), (''REPO_FULL_NAME'', repo)]"

definition ExtractPRReviewVariables :: "PRReviewData \<Rightarrow> string \<Rightarrow> int \<Rightarrow> string \<Rightarrow> string \<Rightarrow> variables" where
  "ExtractPRReviewVariables rv repo prNumber prTitle prURL = fmap_of_list
     [(''REVIEW_STATE'', ToLower (rv_State rv)), (''REVIEW_AUTHOR'', rv_User rv), (''REVIEW_BODY'', truncateBody (rv_Body rv)),
      (''REVIEW_URL'', rv_HTMLURL rv), (''PR_NUMBER'', itoa prNumber), (''PR_TITLE'', prTitle), (''PR_URL'', prURL),
      (''REPO_FULL_NAME'', repo)]"

definition ExtractReleaseVariables :: "ReleaseData \<Rightarrow> string \<Rightarrow> variables" where
  "ExtractReleaseVariables rl repo = fmap_of_list
     [(''RELEASE_TAG'', rl_TagName rl), (''RELEASE_NAME'', rl_Name rl), (''RELEASE_BODY'', truncateBody (rl_Body rl)),
      (''RELEASE_URL'', rl_HTMLURL rl), (''RELEASE_AUTHOR'', rl_Author rl), (''REPO_FULL_NAME'', repo)]"

definition ExtractIssueVariables :: "IssueData \<Rightarrow> string \<Rightarrow> variables" where
  "ExtractIssueVariables i repo = fmap_of_list
     [(''ISSUE_URL'', is_HTMLURL i), (''ISSUE_TITLE'', is_Title i), (''ISSUE_BODY'', is_Body i), (''ISSUE_AUTHOR'', is_User i),
      (''ISSUE_LABELS'', join '','' (is_Labels i)), (''ISSUE_NUMBER'', itoa (is_Number i)), (''REPO_FULL_NAME'', repo)]"

section \<open>Truncation\<close>

lemma conts_take: "n \<le> length y \<Longrightarrow> n \<le> length (take n y @ t) \<and> take n (take n y @ t) = take n y"
  by simp

lemma rune_width_self:
  assumes "2 \<le> rune_width x"
  shows "rune_width (take (rune_width x) x @ t) = rune_width x" "length (take (rune_width x) x) = rune_width x"
proof -
  obtain c y where x: "x = c # y" using assms by (cases x) (simp_all add: rune_width_def)
  define n where "n = rune_width x - 1"
  have w: "rune_width x = Suc n" "1 \<le> n" using assms by (simp_all add: n_def)
  have n: "n \<le> length y" using w unfolding x rune_width_def Let_def by (auto split: if_splits)
  then show "length (take (rune_width x) x) = rune_width x" unfolding w(1) by (simp add: x)
  obtain d z where y: "y = d # z" using n w(2) by (cases y) auto
  obtain m where m: "n = Suc m" using w(2) by (cases n) auto
  have "(case take n y @ t of [] \<Rightarrow> 0 | d # _ \<Rightarrow> of_char d) = (of_char d :: nat)" by (simp add: y m)
  then have "rune_width (c # take n y @ t) = Suc n"
    using w(1) conts_take [OF n, of t] unfolding x rune_width_def Let_def list.case y
    by (auto split: if_splits simp: m)
  then show "rune_width (take (rune_width x) x @ t) = rune_width x" unfolding w(1) by (simp add: x)
qed

lemma runes_chunk: "r \<in> set (runes s) \<Longrightarrow> runes (r @ t) = r # runes t"
proof (induction s rule: runes.induct)
  case (2 c s)
  show ?case
  proof (cases "rune_width (c # s) \<le> 1")
    case True
    then consider "r = [c]" "(of_char c :: nat) < 128" | "r = replacement" | "r \<in> set (runes s)"
      using 2(3) by (auto split: if_splits)
    then show ?thesis
    proof cases
      case 1
      then have "rune_width (c # t) = 1" by (simp add: rune_width_def)
      with 1 show ?thesis by simp
    next
      case 2
      have "rune_width (replacement @ t) = 3"
        by (simp add: replacement_def rune_width_def continuation_def numeral_3_eq_3 numeral_2_eq_2)
      then show ?thesis using 2 by (simp add: replacement_def eval_nat_numeral)
    next
      case 3
      then show ?thesis using 2(1) True by blast
    qed
  next
    case False
    then consider "r = take (rune_width (c # s)) (c # s)" | "r \<in> set (runes (drop (rune_width (c # s) - 1) s))"
      using 2(3) by auto
    then show ?thesis
    proof cases
      case 1
      have "2 \<le> rune_width (c # s)" using False by simp
      note self = rune_width_self [OF this, folded 1]
      obtain r' where r: "r = c # r'" using 1 False by (cases "rune_width (c # s)") auto
      have "rune_width (c # r' @ t) = Suc (length r')" using self(1) [of t] self(2) unfolding r by simp
      moreover have "\<not> Suc (length r') \<le> 1" using False self(2) unfolding r by simp
      ultimately show ?thesis unfolding r by simp
    next
      case rest: 2
      then show ?thesis using "2.IH"(2) False by blast
    qed
  qed
qed simp

lemma runes_concat: "set rs \<subseteq> set (runes s) \<Longrightarrow> runes (concat rs @ t) = rs @ runes t"
  by (induction rs) (simp_all add: runes_chunk [where s = s])

text \<open>Text from GitHub that goes into a prompt is capped: \<open>truncateBody\<close> leaves a text of at most
  \<open>maxBodyLen\<close> characters alone and otherwise returns one of exactly \<open>maxBodyLen\<close> characters that
  starts with the characters of the text, none of them cut in two, and ends in the suffix.\<close>

theorem truncateBody_capped:
  "length (runes (truncateBody s)) = min (length (runes s)) maxBodyLen \<and>
   (if length (runes s) \<le> maxBodyLen then truncateBody s = s
    else runes (truncateBody s) = take (maxBodyLen - length truncateSuffix) (runes s) @ runes truncateSuffix)"
proof (cases "length (runes s) \<le> maxBodyLen")
  case False
  have l: "length (runes truncateSuffix) = 15" "length truncateSuffix = 15" by code_simp+
  have "runes (truncateBody s) = take (maxBodyLen - 15) (runes s) @ runes truncateSuffix"
    using False runes_concat [of "take (maxBodyLen - 15) (runes s)" s truncateSuffix]
    by (simp add: truncateBody_def l Let_def set_take_subset)
  then show ?thesis using False by (simp add: l maxBodyLen_def)
qed (simp add: truncateBody_def)

section \<open>Patterns without special characters\<close>

definition plain :: "string \<Rightarrow> bool" where
  "plain p \<longleftrightarrow> list_all (\<lambda>c. c \<notin> {CHR ''*'', CHR ''?'', CHR ''['', backslash}) p"

lemma plain_Cons [simp]: "plain (c # p) \<longleftrightarrow> c \<noteq> CHR ''*'' \<and> c \<noteq> CHR ''?'' \<and> c \<noteq> CHR ''['' \<and> c \<noteq> backslash \<and> plain p"
  by (auto simp: plain_def)

lemma scan_plain: "plain p \<Longrightarrow> scan_loop inrange p = length p"
  by (induction p arbitrary: inrange) simp_all

lemma match_chunk_plain:
  "plain chunk \<Longrightarrow> length chunk < fuel \<Longrightarrow>
   match_chunk fuel failed chunk s = Inr (if \<not> failed \<and> HasPrefix s chunk then Some (drop (length chunk) s) else None)"
proof (induction chunk arbitrary: fuel failed s)
  case Nil
  then show ?case by (cases fuel) simp_all
next
  case (Cons c chunk)
  obtain f where f: "fuel = Suc f" using Cons.prems(2) by (cases fuel) auto
  show ?case
  proof (cases s)
    case Nil
    then show ?thesis using Cons f by simp
  next
    case (Cons d t)
    then show ?thesis using Cons.IH [of f "failed \<or> c \<noteq> d" t] Cons.prems f by (auto simp: HasPrefix_def)
  qed
qed

lemma path_Match_plain:
  assumes "plain p"
  shows "path_Match p s \<longleftrightarrow> s = p"
proof (cases p)
  case Nil
  then show ?thesis by (simp add: path_Match_def)
next
  case (Cons c q)
  have "scanChunk p = (False, p, [])"
    using assms Cons scan_plain [OF assms, of False] by (simp add: scanChunk_def Let_def)
  moreover have "matchChunk p s = Inr (if HasPrefix s p then Some (drop (length p) s) else None)"
    using match_chunk_plain [OF assms, of "Suc (length p)" False s] by (simp add: matchChunk_def)
  ultimately show ?thesis using Cons
    by (cases "HasPrefix s p") (auto simp: path_Match_def HasPrefix_def prefix_def split: list.splits)
qed

text \<open>A directory pattern covers the files below it, at any depth.\<close>

lemma path_examples: "matchPath ''src/**'' ''src/a/b.go''" "\<not> matchPath ''src/**'' ''src''"
  by (simp_all add: matchPath_def HasSuffix_code TrimSuffix_def)

end
