(* ===== verification/Github_Poller.thy ===== *)
theory Github_Poller
  imports Job_Store Github_Filters
begin

text \<open>
  The GitHub connector of the bridge: the state it keeps between polls and restarts
  (\<open>bridge/state/state.go\<close>), the poller of one repository
  (\<open>connector/github/poller.go\<close>) and the connector that starts sessions for the events
  found (\<open>connector/github/github.go\<close>). The answers of GitHub and of the server of
  claude-plane are an argument. Encoding the state to JSON and back gives the same state. Log messages
  are left out, and errors are a value of their own without the text.
\<close>

section \<open>The state\<close>

record stateData =
  sd_Cursors :: "(string, string) fmap"
  sd_Processed :: "(string, time) fmap"

record bridge_state =
  bt_data :: stateData
  bt_disk :: "stateData option"

definition state_New :: "stateData option \<Rightarrow> bridge_state" where
  "state_New disk = \<lparr>bt_data = \<lparr>sd_Cursors = fmempty, sd_Processed = fmempty\<rparr>, bt_disk = disk\<rparr>"

text \<open>\<open>Save\<close> replaces the contents of the disk as a whole or, on an error, leaves them (\<open>ok\<close>).\<close>

definition state_Save :: "bool \<Rightarrow> bridge_state \<Rightarrow> bridge_state" where
  "state_Save ok b = (if ok then b\<lparr>bt_disk := Some (bt_data b)\<rparr> else b)"

definition state_Load :: "bridge_state \<Rightarrow> bridge_state" where
  "state_Load b = (case bt_disk b of None \<Rightarrow> b | Some d \<Rightarrow> b\<lparr>bt_data := d\<rparr>)"

definition GetCursor :: "string \<Rightarrow> bridge_state \<Rightarrow> string" where
  "GetCursor connectorID b = (case fmlookup (sd_Cursors (bt_data b)) connectorID of None \<Rightarrow> [] | Some c \<Rightarrow> c)"

definition SetCursor :: "bool \<Rightarrow> string \<Rightarrow> string \<Rightarrow> bridge_state \<Rightarrow> bridge_state" where
  "SetCursor ok connectorID cursor b =
     state_Save ok (b\<lparr>bt_data := (bt_data b)\<lparr>sd_Cursors := fmupd connectorID cursor (sd_Cursors (bt_data b))\<rparr>\<rparr>)"

definition IsProcessed :: "string \<Rightarrow> bridge_state \<Rightarrow> bool" where
  "IsProcessed eventID b \<longleftrightarrow> fmlookup (sd_Processed (bt_data b)) eventID \<noteq> None"

definition MarkProcessed :: "bool \<Rightarrow> time \<Rightarrow> string \<Rightarrow> bridge_state \<Rightarrow> bridge_state" where
  "MarkProcessed ok now eventID b =
     state_Save ok (b\<lparr>bt_data := (bt_data b)\<lparr>sd_Processed := fmupd eventID now (sd_Processed (bt_data b))\<rparr>\<rparr>)"

definition week :: time where "week = 7 * 24 * 3600 * 1000000000"

definition Prune :: "bool \<Rightarrow> time \<Rightarrow> time \<Rightarrow> bridge_state \<Rightarrow> bridge_state" where
  "Prune ok now maxAge b =
     (let maxAge = (if maxAge \<le> 0 then week else maxAge); cutoff = now - maxAge;
          keep = (\<lambda>i. case fmlookup (sd_Processed (bt_data b)) i of None \<Rightarrow> False | Some t \<Rightarrow> cutoff < t)
      in state_Save ok (b\<lparr>bt_data := (bt_data b)\<lparr>sd_Processed := fmfilter keep (sd_Processed (bt_data b))\<rparr>\<rparr>))"

section \<open>Requests\<close>

datatype 'a gh_answer = Unreachable | Answered (an_status: int) (an_remaining: string) (an_body: "'a option")

text \<open>The answers to the requests of one poll. The open pull requests may be asked for twice.\<close>

record gh_env =
  ge_prs :: "nat \<Rightarrow> string \<Rightarrow> PRData list gh_answer"
  ge_files :: "string \<Rightarrow> string list gh_answer"
  ge_checks :: "string \<Rightarrow> CheckRunData list gh_answer"
  ge_issues :: "string \<Rightarrow> IssueData list gh_answer"
  ge_issue_comments :: "string \<Rightarrow> IssueCommentData list gh_answer"
  ge_pr_comments :: "string \<Rightarrow> PRCommentData list gh_answer"
  ge_reviews :: "string \<Rightarrow> PRReviewData list gh_answer"
  ge_releases :: "string \<Rightarrow> ReleaseData list gh_answer"
  ge_now :: time
  ge_save :: bool

record TriggerConfig =
  tc_PullRequestOpened :: "Filters option"
  tc_CheckRunCompleted :: "Filters option"
  tc_IssueLabeled :: "Filters option"
  tc_IssueComment :: "Filters option"
  tc_PullRequestComment :: "Filters option"
  tc_PullRequestReview :: "Filters option"
  tc_ReleasePublished :: "Filters option"

record MatchedEvent =
  me_Template :: string
  me_Variables :: variables
  me_EventKey :: string

record RepoPoller =
  rp_repo :: string
  rp_template :: string
  rp_triggers :: TriggerConfig
  rp_connID :: string
  rp_apiBase :: string

definition rateLimitWarningThresh :: int where "rateLimitWarningThresh = 100"
definition defaultAPIBase :: string where "defaultAPIBase = ''https://api.github.com''"

definition NewRepoPoller :: "string \<Rightarrow> string \<Rightarrow> string \<Rightarrow> TriggerConfig \<Rightarrow> RepoPoller" where
  "NewRepoPoller repo template connID triggers =
     \<lparr>rp_repo = repo, rp_template = template, rp_triggers = triggers, rp_connID = connID, rp_apiBase = defaultAPIBase\<rparr>"

definition SetAPIBase :: "string \<Rightarrow> RepoPoller \<Rightarrow> RepoPoller" where
  "SetAPIBase base p = p\<lparr>rp_apiBase := base\<rparr>"

definition checkRateLimit :: "'a gh_answer \<Rightarrow> bool" where
  "checkRateLimit a =
     (case a of
        Unreachable \<Rightarrow> False
      | Answered _ remaining _ \<Rightarrow>
          if remaining = [] then False
          else case Atoi remaining of None \<Rightarrow> False | Some n \<Rightarrow> n < rateLimitWarningThresh)"

text \<open>The common end of every fetch: status and decoding. \<open>None\<close> is an error.\<close>

definition answer_body :: "'a gh_answer \<Rightarrow> 'a option" where
  "answer_body a = (case a of Unreachable \<Rightarrow> None | Answered code _ body \<Rightarrow> if code \<noteq> 200 then None else body)"

definition hex_digit :: "nat \<Rightarrow> char" where "hex_digit n = ''0123456789ABCDEF'' ! n"

definition QueryEscape :: "string \<Rightarrow> string" where
  "QueryEscape s = concat (map (\<lambda>c. let n = of_char c :: nat in
     if 48 \<le> n \<and> n \<le> 57 \<or> 65 \<le> n \<and> n \<le> 90 \<or> 97 \<le> n \<and> n \<le> 122 \<or> c \<in> set ''-_.~'' then [c]
     else if c = CHR '' '' then ''+'' else [CHR ''%'', hex_digit (n div 16), hex_digit (n mod 16)]) s)"

definition repo_url :: "RepoPoller \<Rightarrow> string \<Rightarrow> string" where
  "repo_url p tail = rp_apiBase p @ ''/repos/'' @ rp_repo p @ tail"

definition fetchOpenPRs :: "gh_env \<Rightarrow> nat \<Rightarrow> RepoPoller \<Rightarrow> bool \<times> PRData list option" where
  "fetchOpenPRs env n p =
     (let a = ge_prs env n (repo_url p ''/pulls?state=open&sort=updated&direction=desc&per_page=30'')
      in (checkRateLimit a, answer_body a))"

definition fetchPRFiles :: "gh_env \<Rightarrow> int \<Rightarrow> RepoPoller \<Rightarrow> string list option" where
  "fetchPRFiles env prNumber p = answer_body (ge_files env (repo_url p (''/pulls/'' @ itoa prNumber @ ''/files'')))"

definition fetchCheckRuns :: "gh_env \<Rightarrow> string \<Rightarrow> RepoPoller \<Rightarrow> bool \<times> CheckRunData list option" where
  "fetchCheckRuns env sha p =
     (let a = ge_checks env (repo_url p (''/commits/'' @ sha @ ''/check-runs?per_page=30''))
      in (checkRateLimit a, answer_body a))"

definition fetchPRReviews :: "gh_env \<Rightarrow> int \<Rightarrow> RepoPoller \<Rightarrow> bool \<times> PRReviewData list option" where
  "fetchPRReviews env prNumber p =
     (let a = ge_reviews env (repo_url p (''/pulls/'' @ itoa prNumber @ ''/reviews?per_page=100''))
      in (checkRateLimit a, answer_body a))"

definition getCachedOpenPRs :: "gh_env \<Rightarrow> RepoPoller \<Rightarrow> PRData list" where
  "getCachedOpenPRs env p = (case snd (fetchOpenPRs env 1 p) of None \<Rightarrow> [] | Some prs \<Rightarrow> prs)"

text \<open>Go compares strings byte by byte.\<close>

definition isAfter :: "string \<Rightarrow> string \<Rightarrow> bool" where
  "isAfter candidate base \<longleftrightarrow> base < candidate"

section \<open>The triggers\<close>

text \<open>
  The body of the loops: an item is passed over, known already, refused by the filters, or
  reported and remembered.
\<close>

definition report :: "gh_env \<Rightarrow> RepoPoller \<Rightarrow> bool \<Rightarrow> string \<Rightarrow> bool \<Rightarrow> variables \<Rightarrow>
    MatchedEvent list \<times> bridge_state \<Rightarrow> MatchedEvent list \<times> bridge_state" where
  "report env p skip eventKey hit vars = (\<lambda>(results, b).
     if skip \<or> IsProcessed eventKey b \<or> \<not> hit then (results, b)
     else (results @ [\<lparr>me_Template = rp_template p, me_Variables = vars, me_EventKey = eventKey\<rparr>],
           MarkProcessed (ge_save env) (ge_now env) eventKey b))"

definition gh_key :: "string \<Rightarrow> RepoPoller \<Rightarrow> int \<Rightarrow> string" where
  "gh_key kind p i = kind @ '':'' @ rp_repo p @ '':'' @ itoa i"

definition cursor_key :: "string \<Rightarrow> RepoPoller \<Rightarrow> string" where
  "cursor_key kind p = rp_connID p @ '':'' @ kind @ '':'' @ rp_repo p"

definition latest :: "string list \<Rightarrow> string" where
  "latest ts = foldl (\<lambda>l t. if isAfter t l then t else l) [] ts"

definition advance :: "gh_env \<Rightarrow> string \<Rightarrow> string \<Rightarrow> string \<Rightarrow> bridge_state \<Rightarrow> bridge_state" where
  "advance env cursorKey cursor latestUpdatedAt b =
     (if latestUpdatedAt \<noteq> [] \<and> isAfter latestUpdatedAt cursor then SetCursor (ge_save env) cursorKey latestUpdatedAt b else b)"

definition processPRs :: "gh_env \<Rightarrow> PRData list \<Rightarrow> Filters \<Rightarrow> RepoPoller \<Rightarrow> bridge_state \<Rightarrow> MatchedEvent list \<times> bridge_state" where
  "processPRs env prs trigger p b =
     (let cursorKey = cursor_key ''pr'' p; cursor = GetCursor cursorKey b;
          (results, b) = fold (\<lambda>pr.
             let e = event_data0\<lparr>ed_BaseBranch := pr_BaseRef pr, ed_Labels := pr_Labels pr, ed_Author := pr_User pr\<rparr>;
                 e = (if fl_Paths trigger \<noteq> []
                      then e\<lparr>ed_ChangedFiles := (case fetchPRFiles env (pr_Number pr) p of None \<Rightarrow> [] | Some fs \<Rightarrow> fs)\<rparr> else e)
             in report env p (cursor \<noteq> [] \<and> \<not> isAfter (pr_UpdatedAt pr) cursor) (gh_key ''pr'' p (pr_Number pr))
                  (filters_Match trigger e) (ExtractPRVariables pr (rp_repo p))) prs ([], b)
      in (results, advance env cursorKey cursor (latest (map pr_UpdatedAt prs)) b))"

definition report_checks :: "gh_env \<Rightarrow> Filters \<Rightarrow> RepoPoller \<Rightarrow> CheckRunData list \<Rightarrow>
    MatchedEvent list \<times> bridge_state \<Rightarrow> MatchedEvent list \<times> bridge_state" where
  "report_checks env trigger p runs = fold (\<lambda>cr.
     report env p False (gh_key ''check'' p (cr_ID cr))
       (filters_Match trigger (event_data0\<lparr>ed_CheckName := cr_Name cr, ed_Conclusion := cr_Conclusion cr\<rparr>))
       (ExtractCheckRunVariables cr (rp_repo p))) runs"

fun check_loop :: "gh_env \<Rightarrow> Filters \<Rightarrow> RepoPoller \<Rightarrow> PRData list \<Rightarrow> MatchedEvent list \<times> bridge_state \<Rightarrow>
    (MatchedEvent list \<times> bool) \<times> bridge_state" where
  "check_loop env trigger p [] (results, b) = ((results, False), b)"
| "check_loop env trigger p (pr # prs) (results, b) =
     (if pr_HeadSHA pr = [] then check_loop env trigger p prs (results, b)
      else case fetchCheckRuns env (pr_HeadSHA pr) p of
             (rateLow, None) \<Rightarrow> check_loop env trigger p prs (results, b)
           | (rateLow, Some runs) \<Rightarrow>
               (case report_checks env trigger p runs (results, b) of (results, b) \<Rightarrow>
                  if rateLow then ((results, True), b) else check_loop env trigger p prs (results, b)))"

definition processCheckRuns :: "gh_env \<Rightarrow> PRData list \<Rightarrow> Filters \<Rightarrow> RepoPoller \<Rightarrow> bridge_state \<Rightarrow>
    (MatchedEvent list \<times> bool) \<times> bridge_state" where
  "processCheckRuns env prs trigger p b = check_loop env trigger p prs ([], b)"

text \<open>The triggers that fetch a list themselves: \<open>None\<close> is the error of the fetch, the flag a low rate limit.\<close>

type_synonym stage = "bridge_state \<Rightarrow> (MatchedEvent list \<times> bool) option \<times> bridge_state"

definition processIssues :: "gh_env \<Rightarrow> Filters \<Rightarrow> RepoPoller \<Rightarrow> stage" where
  "processIssues env trigger p b =
     (let labels = (if fl_Labels trigger = [] then [] else ''&labels='' @ join '','' (map QueryEscape (fl_Labels trigger)));
          a = ge_issues env (repo_url p (''/issues?state=open&sort=updated&direction=desc&per_page=30'' @ labels))
      in case answer_body a of
           None \<Rightarrow> (None, b)
         | Some issues \<Rightarrow>
             (let (results, b) = fold (\<lambda>i. report env p (is_PullRequest i) (gh_key ''issue'' p (is_Number i))
                (filters_Match trigger (event_data0\<lparr>ed_Labels := is_Labels i, ed_Author := is_User i\<rparr>))
                (ExtractIssueVariables i (rp_repo p))) issues ([], b)
              in (Some (results, checkRateLimit a), b)))"

definition split_on :: "char \<Rightarrow> string \<Rightarrow> string list" where
  "split_on c s = SplitN s c (Suc (length s))"

definition extract_info :: "string \<Rightarrow> string \<Rightarrow> int \<times> string \<times> string" where
  "extract_info kind url =
     (let parts = split_on CHR ''/'' url; n = length parts
      in if 5 \<le> n
         then case Atoi (parts ! (n - 1)) of
                None \<Rightarrow> (0, [], [])
              | Some i \<Rightarrow> (i, [], ''https://github.com/'' @ parts ! (n - 4) @ ''/'' @ parts ! (n - 3) @ ''/'' @ kind @ ''/'' @ itoa i)
         else (0, [], []))"

definition extractIssueInfoFromURL :: "string \<Rightarrow> int \<times> string \<times> string" where
  "extractIssueInfoFromURL url = extract_info ''issues'' url"

definition extractPRInfoFromURL :: "string \<Rightarrow> int \<times> string \<times> string" where
  "extractPRInfoFromURL url = extract_info ''pull'' url"

definition since_param :: "string \<Rightarrow> string" where
  "since_param cursor = (if cursor \<noteq> [] then ''&since='' @ QueryEscape cursor else [])"

definition processIssueComments :: "gh_env \<Rightarrow> Filters \<Rightarrow> RepoPoller \<Rightarrow> stage" where
  "processIssueComments env trigger p b =
     (let cursorKey = cursor_key ''issue_comment'' p; cursor = GetCursor cursorKey b;
          a = ge_issue_comments env (repo_url p (''/issues/comments?sort=updated&direction=desc&per_page=30'' @ since_param cursor))
      in case answer_body a of
           None \<Rightarrow> (None, b)
         | Some comments \<Rightarrow>
             (let (results, b) = fold (\<lambda>c. report env p False (gh_key ''issue_comment'' p (ic_ID c))
                (filters_Match trigger (event_data0\<lparr>ed_Author := ic_User c\<rparr>))
                (case extractIssueInfoFromURL (ic_IssueURL c) of (i, t, u) \<Rightarrow> ExtractIssueCommentVariables c (rp_repo p) i t u))
                comments ([], b)
              in (Some (results, checkRateLimit a), advance env cursorKey cursor (latest (map ic_UpdatedAt comments)) b)))"

definition processPRComments :: "gh_env \<Rightarrow> Filters \<Rightarrow> RepoPoller \<Rightarrow> stage" where
  "processPRComments env trigger p b =
     (let cursorKey = cursor_key ''pr_comment'' p; cursor = GetCursor cursorKey b;
          a = ge_pr_comments env (repo_url p (''/pulls/comments?sort=updated&direction=desc&per_page=30'' @ since_param cursor))
      in case answer_body a of
           None \<Rightarrow> (None, b)
         | Some comments \<Rightarrow>
             (let (results, b) = fold (\<lambda>c. report env p False (gh_key ''pr_comment'' p (pc_ID c))
                (filters_Match trigger (event_data0\<lparr>ed_Author := pc_User c\<rparr>))
                (case extractPRInfoFromURL (pc_PullRequestURL c) of (i, t, u) \<Rightarrow> ExtractPRCommentVariables c (rp_repo p) i t u))
                comments ([], b)
              in (Some (results, checkRateLimit a), advance env cursorKey cursor (latest (map pc_UpdatedAt comments)) b)))"

definition report_reviews :: "gh_env \<Rightarrow> Filters \<Rightarrow> RepoPoller \<Rightarrow> PRData \<Rightarrow> PRReviewData list \<Rightarrow>
    MatchedEvent list \<times> bridge_state \<Rightarrow> MatchedEvent list \<times> bridge_state" where
  "report_reviews env trigger p pr reviews = fold (\<lambda>rv.
     report env p False (gh_key ''review'' p (rv_ID rv))
       (filters_Match trigger (event_data0\<lparr>ed_Author := rv_User rv, ed_ReviewState := ToLower (rv_State rv)\<rparr>))
       (ExtractPRReviewVariables rv (rp_repo p) (pr_Number pr) (pr_Title pr) (pr_HTMLURL pr))) reviews"

fun review_loop :: "gh_env \<Rightarrow> Filters \<Rightarrow> RepoPoller \<Rightarrow> PRData list \<Rightarrow> MatchedEvent list \<times> bridge_state \<Rightarrow>
    (MatchedEvent list \<times> bool) \<times> bridge_state" where
  "review_loop env trigger p [] (results, b) = ((results, False), b)"
| "review_loop env trigger p (pr # prs) (results, b) =
     (case fetchPRReviews env (pr_Number pr) p of
        (rateLow, None) \<Rightarrow> review_loop env trigger p prs (results, b)
      | (rateLow, Some reviews) \<Rightarrow>
          (case report_reviews env trigger p pr reviews (results, b) of (results, b) \<Rightarrow>
             if rateLow then ((results, True), b) else review_loop env trigger p prs (results, b)))"

definition processPRReviews :: "gh_env \<Rightarrow> PRData list \<Rightarrow> Filters \<Rightarrow> RepoPoller \<Rightarrow> bridge_state \<Rightarrow>
    (MatchedEvent list \<times> bool) \<times> bridge_state" where
  "processPRReviews env prs trigger p b = review_loop env trigger p prs ([], b)"

definition processReleases :: "gh_env \<Rightarrow> Filters \<Rightarrow> RepoPoller \<Rightarrow> stage" where
  "processReleases env trigger p b =
     (let a = ge_releases env (repo_url p ''/releases?per_page=10'')
      in case answer_body a of
           None \<Rightarrow> (None, b)
         | Some releases \<Rightarrow>
             (let (results, b) = fold (\<lambda>r. report env p False (gh_key ''release'' p (rl_ID r))
                (filters_Match trigger (event_data0\<lparr>ed_Tag := rl_TagName r, ed_Author := rl_Author r\<rparr>))
                (ExtractReleaseVariables r (rp_repo p))) releases ([], b)
              in (Some (results, checkRateLimit a), b)))"

section \<open>A poll\<close>

text \<open>The stages run one after the other; an error or a low rate limit ends the poll. The flag returned is the
  error.\<close>

fun run_stages :: "stage list \<Rightarrow> MatchedEvent list \<times> bridge_state \<Rightarrow> (MatchedEvent list \<times> bool) \<times> bridge_state" where
  "run_stages [] (results, b) = ((results, False), b)"
| "run_stages (f # fs) (results, b) =
     (case f b of
        (None, b) \<Rightarrow> ((results, True), b)
      | (Some (new, rateLow), b) \<Rightarrow>
          if rateLow then ((results @ new, False), b) else run_stages fs (results @ new, b))"

definition trigger_stage :: "Filters option \<Rightarrow> (Filters \<Rightarrow> stage) \<Rightarrow> stage list" where
  "trigger_stage t f = (case t of None \<Rightarrow> [] | Some flt \<Rightarrow> [f flt])"

definition pr_stage :: "gh_env \<Rightarrow> RepoPoller \<Rightarrow> Filters \<Rightarrow> stage" where
  "pr_stage env p t b =
     (case fetchOpenPRs env 0 p of
        (_, None) \<Rightarrow> (None, b)
      | (rateLow, Some prs) \<Rightarrow> (case processPRs env prs t p b of (results, b) \<Rightarrow> (Some (results, rateLow), b)))"

text \<open>Check runs use the pull requests fetched before, or fetch them when there is no trigger for pull requests.\<close>

definition check_stage :: "gh_env \<Rightarrow> RepoPoller \<Rightarrow> Filters \<Rightarrow> stage" where
  "check_stage env p t b =
     (case fetchOpenPRs env 0 p of
        (_, None) \<Rightarrow> (None, b)
      | (rateLow, Some prs) \<Rightarrow>
          (case processCheckRuns env prs t p b of ((results, rateLowCR), b) \<Rightarrow>
             (Some (results, (tc_PullRequestOpened (rp_triggers p) = None \<and> rateLow) \<or> rateLowCR), b)))"

definition review_stage :: "gh_env \<Rightarrow> RepoPoller \<Rightarrow> Filters \<Rightarrow> stage" where
  "review_stage env p t b =
     (case processPRReviews env (getCachedOpenPRs env p) t p b of ((results, rateLow), b) \<Rightarrow> (Some (results, rateLow), b))"

definition Poll :: "gh_env \<Rightarrow> RepoPoller \<Rightarrow> bridge_state \<Rightarrow> (MatchedEvent list \<times> bool) \<times> bridge_state" where
  "Poll env p b =
     (let t = rp_triggers p
      in run_stages
           (trigger_stage (tc_PullRequestOpened t) (pr_stage env p) @
            trigger_stage (tc_CheckRunCompleted t) (check_stage env p) @
            trigger_stage (tc_IssueLabeled t) (\<lambda>f. processIssues env f p) @
            trigger_stage (tc_IssueComment t) (\<lambda>f. processIssueComments env f p) @
            trigger_stage (tc_PullRequestComment t) (\<lambda>f. processPRComments env f p) @
            trigger_stage (tc_PullRequestReview t) (review_stage env p) @
            trigger_stage (tc_ReleasePublished t) (\<lambda>f. processReleases env f p)) ([], b))"

section \<open>The connector\<close>

record WatchConfig =
  wc_Repo :: string
  wc_Template :: string
  wc_MachineID :: string
  wc_PollInterval :: string
  wc_Triggers :: TriggerConfig

record CreateSessionRequest =
  cq_TemplateName :: string
  cq_MachineID :: string
  cq_Variables :: variables

text \<open>\<open>answers\<close> says for each request in turn whether the server accepts it; when the list ends, the
  connector has been stopped. The sessions created are returned.\<close>

definition create_request :: "WatchConfig \<Rightarrow> MatchedEvent \<Rightarrow> CreateSessionRequest" where
  "create_request watch e = \<lparr>cq_TemplateName = me_Template e, cq_MachineID = wc_MachineID watch, cq_Variables = me_Variables e\<rparr>"

definition pollOnce :: "gh_env \<Rightarrow> bool list \<Rightarrow> RepoPoller \<Rightarrow> WatchConfig \<Rightarrow> bridge_state \<Rightarrow>
    CreateSessionRequest list \<times> bridge_state" where
  "pollOnce env answers p watch b =
     (case Poll env p b of
        ((_, True), b) \<Rightarrow> ([], b)
      | ((events, False), b) \<Rightarrow> (map (create_request watch \<circ> fst) (filter snd (zip events answers)), b))"

text \<open>The check of the token when the connector starts: the name of the user, or \<open>None\<close>.\<close>

definition validateToken :: "string gh_answer \<Rightarrow> string option" where
  "validateToken a =
     (case a of
        Unreachable \<Rightarrow> None
      | Answered code _ login \<Rightarrow> if code = 401 then None else if code \<noteq> 200 then None else login)"

definition pruneEveryNCycles :: int where "pruneEveryNCycles = 100"
definition defaultPollInterval :: time where "defaultPollInterval = 60 * 1000000000"

text \<open>\<open>duration\<close> is \<open>time.ParseDuration\<close>.\<close>

definition parsePollInterval :: "(string \<Rightarrow> time option) \<Rightarrow> string \<Rightarrow> time" where
  "parsePollInterval duration s =
     (if s = [] then defaultPollInterval
      else case duration s of None \<Rightarrow> defaultPollInterval | Some d \<Rightarrow> if d \<le> 0 then defaultPollInterval else d)"

text \<open>One turn of \<open>runWatch\<close>: a poll and, every hundredth time, the pruning of the state.\<close>

definition watch_cycle :: "gh_env \<Rightarrow> bool list \<Rightarrow> RepoPoller \<Rightarrow> WatchConfig \<Rightarrow> int \<Rightarrow> bridge_state \<Rightarrow>
    CreateSessionRequest list \<times> int \<times> bridge_state" where
  "watch_cycle env answers p watch cycle b =
     (case pollOnce env answers p watch b of (created, b) \<Rightarrow>
        let cycle = cycle + 1
        in (created, cycle, if cycle > 1 \<and> cycle mod pruneEveryNCycles = 0 then Prune (ge_save env) (ge_now env) 0 b else b))"

end
