(* ===== verification/Github_Props.thy ===== *)
theory Github_Props
  imports Github_Poller
begin

text \<open>
  An event of GitHub starts a session at most once in a week, over any sequence of polls of any
  number of watches, prunings of the state and restarts. Every trigger is shown to
  change the state only by reports of unknown keys and by cursors (\<open>reports\<close>), and the invariant is
  proved over those. Polls of different watches are taken one after the other.
\<close>

section \<open>What a poll does to the state\<close>

inductive reports :: "time \<Rightarrow> bridge_state \<Rightarrow> string list \<Rightarrow> bridge_state \<Rightarrow> bool" for now where
  none: "reports now b [] b"
| mark: "reports now b ks b' \<Longrightarrow> \<not> IsProcessed k b' \<Longrightarrow> reports now b (ks @ [k]) (MarkProcessed True now k b')"
| cursor: "reports now b ks b' \<Longrightarrow> reports now b ks (SetCursor True c v b')"

lemma reports_trans: "reports now b' ks' b'' \<Longrightarrow> reports now b ks b' \<Longrightarrow> reports now b (ks @ ks') b''"
proof (induction rule: reports.induct)
  case (mark b' ks' b'' k)
  then show ?case by (metis append.assoc reports.mark)
qed (simp_all add: reports.cursor)

abbreviation keys :: "MatchedEvent list \<Rightarrow> string list" where
  "keys es \<equiv> map me_EventKey es"

text \<open>A loop or a stage is sound if the events it adds are the keys it has marked.\<close>

definition loop_ok :: "time \<Rightarrow> (MatchedEvent list \<times> bridge_state \<Rightarrow> MatchedEvent list \<times> bridge_state) \<Rightarrow> bool" where
  "loop_ok now f \<longleftrightarrow> (\<forall>rs b. \<exists>new b'. f (rs, b) = (rs @ new, b') \<and> reports now b (keys new) b')"

definition stage_ok :: "time \<Rightarrow> stage \<Rightarrow> bool" where
  "stage_ok now f \<longleftrightarrow> (\<forall>b. case f b of (None, b') \<Rightarrow> reports now b [] b' | (Some (new, _), b') \<Rightarrow> reports now b (keys new) b')"

lemma loop_okE:
  assumes "loop_ok now f"
  obtains new b' where "f (rs, b) = (rs @ new, b')" "reports now b (keys new) b'"
  using assms unfolding loop_ok_def by blast

lemma loop_ok_report: "ge_save env \<Longrightarrow> loop_ok (ge_now env) (report env p sk k hit vars)"
  unfolding loop_ok_def report_def
  by (auto intro: exI [of _ "[]"] reports.none reports.mark [of _ _ "[]", OF reports.none, simplified])

lemma loop_ok_fold: "(\<And>x. loop_ok now (f x)) \<Longrightarrow> loop_ok now (fold f xs)"
proof (induction xs)
  case Nil
  then show ?case by (auto simp: loop_ok_def intro: reports.none)
next
  case (Cons x xs)
  show ?case unfolding loop_ok_def
  proof (intro allI)
    fix rs b
    obtain new1 b1 where 1: "f x (rs, b) = (rs @ new1, b1)" "reports now b (keys new1) b1"
      using Cons.prems loop_okE by blast
    obtain new2 b2 where 2: "fold f xs (rs @ new1, b1) = (rs @ new1 @ new2, b2)" "reports now b1 (keys new2) b2"
      using Cons.IH [OF Cons.prems] loop_okE by (metis append.assoc)
    from 1 2 reports_trans [OF 2(2) 1(2)]
    show "\<exists>new b'. fold f (x # xs) (rs, b) = (rs @ new, b') \<and> reports now b (keys new) b'"
      by (intro exI [of _ "new1 @ new2"] exI [of _ b2]) simp
  qed
qed

lemma loop_start:
  assumes "loop_ok now f" "f ([], b) = (rs, b')"
  shows "reports now b (keys rs) b'"
  by (rule loop_okE [OF assms(1), of "[]" b]) (use assms(2) in simp)

lemma advance_reports: "ge_save env \<Longrightarrow> reports now b ks b' \<Longrightarrow> reports now b ks (advance env ck c l b')"
  by (simp add: advance_def reports.cursor)

lemmas loop_intros = loop_ok_fold loop_ok_report

lemma processPRs_ok: "ge_save env \<Longrightarrow> processPRs env prs t p b = (rs, b') \<Longrightarrow> reports (ge_now env) b (keys rs) b'"
  unfolding processPRs_def Let_def
  by (auto split: prod.splits intro!: advance_reports elim!: loop_start [rotated] intro: loop_intros)

lemma check_loop_ok: "ge_save env \<Longrightarrow> check_loop env t p prs (rs, b) = ((rs', low), b') \<Longrightarrow>
    \<exists>new. rs' = rs @ new \<and> reports (ge_now env) b (keys new) b'"
proof (induction prs arbitrary: rs b)
  case Nil
  then show ?case by (auto intro: reports.none)
next
  case (Cons pr prs)
  show ?case
  proof (cases "pr_HeadSHA pr = [] \<or> snd (fetchCheckRuns env (pr_HeadSHA pr) p) = None")
    case True
    then show ?thesis using Cons by (cases "fetchCheckRuns env (pr_HeadSHA pr) p") (auto split: if_splits)
  next
    case False
    then obtain l runs where f: "fetchCheckRuns env (pr_HeadSHA pr) p = (l, Some runs)" by (cases "fetchCheckRuns env (pr_HeadSHA pr) p") auto
    obtain new1 b1 where 1: "report_checks env t p runs (rs, b) = (rs @ new1, b1)" "reports (ge_now env) b (keys new1) b1"
      using Cons.prems(1) unfolding report_checks_def by (rule loop_okE [OF loop_ok_fold [OF loop_ok_report]])
    show ?thesis
    proof (cases l)
      case True
      then show ?thesis using Cons.prems(2) False f 1 by auto
    next
      case no: False
      then obtain new2 where "rs' = (rs @ new1) @ new2" "reports (ge_now env) b1 (keys new2) b'"
        using Cons.IH [OF Cons.prems(1), of "rs @ new1" b1] Cons.prems(2) False f 1(1) by auto
      then show ?thesis using reports_trans 1(2) by (intro exI [of _ "new1 @ new2"]) auto
    qed
  qed
qed

lemma review_loop_ok: "ge_save env \<Longrightarrow> review_loop env t p prs (rs, b) = ((rs', low), b') \<Longrightarrow>
    \<exists>new. rs' = rs @ new \<and> reports (ge_now env) b (keys new) b'"
proof (induction prs arbitrary: rs b)
  case Nil
  then show ?case by (auto intro: reports.none)
next
  case (Cons pr prs)
  show ?case
  proof (cases "snd (fetchPRReviews env (pr_Number pr) p)")
    case None
    then show ?thesis using Cons by (cases "fetchPRReviews env (pr_Number pr) p") auto
  next
    case (Some reviews)
    then obtain l where f: "fetchPRReviews env (pr_Number pr) p = (l, Some reviews)" by (cases "fetchPRReviews env (pr_Number pr) p") auto
    obtain new1 b1 where 1: "report_reviews env t p pr reviews (rs, b) = (rs @ new1, b1)" "reports (ge_now env) b (keys new1) b1"
      using Cons.prems(1) unfolding report_reviews_def by (rule loop_okE [OF loop_ok_fold [OF loop_ok_report]])
    show ?thesis
    proof (cases l)
      case True
      then show ?thesis using Cons.prems(2) f 1 by auto
    next
      case False
      then obtain new2 where "rs' = (rs @ new1) @ new2" "reports (ge_now env) b1 (keys new2) b'"
        using Cons.IH [OF Cons.prems(1), of "rs @ new1" b1] Cons.prems(2) f 1(1) by auto
      then show ?thesis using reports_trans 1(2) by (intro exI [of _ "new1 @ new2"]) auto
    qed
  qed
qed

lemma stage_okI:
  assumes "\<And>b b'. f b = (None, b') \<Longrightarrow> b' = b" "\<And>b new low b'. f b = (Some (new, low), b') \<Longrightarrow> reports now b (keys new) b'"
  shows "stage_ok now f"
  unfolding stage_ok_def
proof
  fix b
  show "case f b of (None, b') \<Rightarrow> reports now b [] b' | (Some (new, uu), b') \<Rightarrow> reports now b (keys new) b'"
    using assms(1) [of b] assms(2) [of b] reports.none [of now b] by (auto split: prod.splits option.splits)
qed

lemma stages_ok:
  assumes "ge_save env"
  shows "stage_ok (ge_now env) (pr_stage env p t)" "stage_ok (ge_now env) (check_stage env p t)"
    "stage_ok (ge_now env) (processIssues env t p)" "stage_ok (ge_now env) (processIssueComments env t p)"
    "stage_ok (ge_now env) (processPRComments env t p)" "stage_ok (ge_now env) (review_stage env p t)"
    "stage_ok (ge_now env) (processReleases env t p)"
proof -
  show "stage_ok (ge_now env) (pr_stage env p t)"
    by (rule stage_okI) (auto simp: pr_stage_def split: prod.splits option.splits dest: processPRs_ok [OF assms])
  show "stage_ok (ge_now env) (check_stage env p t)"
    by (rule stage_okI) (auto simp: check_stage_def processCheckRuns_def split: prod.splits option.splits dest: check_loop_ok [OF assms])
  show "stage_ok (ge_now env) (review_stage env p t)"
    by (rule stage_okI) (auto simp: review_stage_def processPRReviews_def split: prod.splits option.splits dest: review_loop_ok [OF assms])
  note simple = Let_def case_prod_unfold
  show "stage_ok (ge_now env) (processIssues env t p)"
    by (rule stage_okI) (auto simp: processIssues_def Let_def split: prod.splits option.splits
      elim!: loop_start [rotated] intro: loop_intros assms)
  show "stage_ok (ge_now env) (processReleases env t p)"
    by (rule stage_okI) (auto simp: processReleases_def Let_def split: prod.splits option.splits
      elim!: loop_start [rotated] intro: loop_intros assms)
  show "stage_ok (ge_now env) (processIssueComments env t p)"
    by (rule stage_okI) (auto simp: processIssueComments_def Let_def split: prod.splits option.splits
      intro!: advance_reports assms elim!: loop_start [rotated] intro: loop_intros)
  show "stage_ok (ge_now env) (processPRComments env t p)"
    by (rule stage_okI) (auto simp: processPRComments_def Let_def split: prod.splits option.splits
      intro!: advance_reports assms elim!: loop_start [rotated] intro: loop_intros)
qed

lemma run_stages_ok:
  "\<forall>f\<in>set fs. stage_ok now f \<Longrightarrow> run_stages fs (rs, b) = ((rs', err), b') \<Longrightarrow>
   \<exists>new. rs' = rs @ new \<and> reports now b (keys new) b'"
proof (induction fs arbitrary: rs b)
  case Nil
  then show ?case by (auto intro: reports.none)
next
  case (Cons f fs)
  have f: "case f b of (None, b') \<Rightarrow> reports now b [] b' | (Some (new, _), b') \<Rightarrow> reports now b (keys new) b'"
    using Cons.prems(1) by (simp add: stage_ok_def)
  show ?case
  proof (cases "f b")
    case (Pair r b1)
    show ?thesis
    proof (cases r)
      case None
      then show ?thesis using Cons.prems(2) Pair f by auto
    next
      case (Some x)
      obtain new1 low where x: "x = (new1, low)" by (cases x)
      have 1: "reports now b (keys new1) b1" using f Pair Some x by simp
      show ?thesis
      proof (cases low)
        case True
        then show ?thesis using Cons.prems(2) Pair Some x 1 by auto
      next
        case False
        then obtain new2 where "rs' = (rs @ new1) @ new2" "reports now b1 (keys new2) b'"
          using Cons.IH [of "rs @ new1" b1] Cons.prems Pair Some x by auto
        then show ?thesis using reports_trans [OF _ 1] by (intro exI [of _ "new1 @ new2"]) auto
      qed
    qed
  qed
qed

lemma Poll_reports:
  assumes "ge_save env" "Poll env p b = ((rs, err), b')"
  shows "reports (ge_now env) b (keys rs) b'"
proof -
  have "\<exists>new. rs = [] @ new \<and> reports (ge_now env) b (keys new) b'"
    by (rule run_stages_ok [OF _ assms(2) [unfolded Poll_def Let_def]])
      (auto simp: trigger_stage_def stages_ok [OF assms(1)] split: option.splits)
  then show ?thesis by simp
qed

section \<open>Nothing is overlooked\<close>

lemma IsProcessed_mark [simp]: "IsProcessed k (MarkProcessed ok now k' b) \<longleftrightarrow> k = k' \<or> IsProcessed k b"
  by (simp add: IsProcessed_def MarkProcessed_def state_Save_def)

text \<open>The keys a loop adds are those of the items that are not passed over, that the filters let through and that were
  not known, each once.\<close>

lemma report_exact:
  assumes "fold (\<lambda>x. report env p (sk x) (key x) (hit x) (vars x)) xs (rs, b) = (rs', b')"
  shows "\<exists>new. rs' = rs @ new \<and> distinct (keys new) \<and>
    set (keys new) = key ` {x \<in> set xs. \<not> sk x \<and> hit x \<and> \<not> IsProcessed (key x) b}"
  using assms
proof (induction xs arbitrary: rs b)
  case (Cons x xs)
  show ?case
  proof (cases "sk x \<or> IsProcessed (key x) b \<or> \<not> hit x")
    case True
    then have "report env p (sk x) (key x) (hit x) (vars x) (rs, b) = (rs, b)" by (simp add: report_def)
    moreover have "{y \<in> set (x # xs). \<not> sk y \<and> hit y \<and> \<not> IsProcessed (key y) b} = {y \<in> set xs. \<not> sk y \<and> hit y \<and> \<not> IsProcessed (key y) b}"
      using True by auto
    ultimately show ?thesis using Cons by simp
  next
    case False
    define e where "e = \<lparr>me_Template = rp_template p, me_Variables = vars x, me_EventKey = key x\<rparr>"
    define b1 where "b1 = MarkProcessed (ge_save env) (ge_now env) (key x) b"
    have "report env p (sk x) (key x) (hit x) (vars x) (rs, b) = (rs @ [e], b1)"
      using False by (simp add: report_def e_def b1_def)
    then have "fold (\<lambda>x. report env p (sk x) (key x) (hit x) (vars x)) xs (rs @ [e], b1) = (rs', b')" using Cons.prems by simp
    from Cons.IH [OF this] obtain new where new: "rs' = (rs @ [e]) @ new" "distinct (keys new)"
      "set (keys new) = key ` {y \<in> set xs. \<not> sk y \<and> hit y \<and> \<not> IsProcessed (key y) b1}" by blast
    have "key x \<notin> set (keys new)" unfolding new(3) by (auto simp: b1_def)
    moreover have "set (keys (e # new)) = key ` {y \<in> set (x # xs). \<not> sk y \<and> hit y \<and> \<not> IsProcessed (key y) b}"
      using False new(3) by (auto simp: e_def b1_def)
    ultimately show ?thesis using new(1,2) by (intro exI [of _ "e # new"]) (simp add: e_def)
  qed
qed simp

definition issues_url :: "Filters \<Rightarrow> RepoPoller \<Rightarrow> string" where
  "issues_url t p = repo_url p (''/issues?state=open&sort=updated&direction=desc&per_page=30'' @
     (if fl_Labels t = [] then [] else ''&labels='' @ join '','' (map QueryEscape (fl_Labels t))))"

text \<open>The issue trigger reports exactly what it should: when GitHub answers with a list of issues, the
  events found are, each once, those of the issues that are no pull requests, that the filters let through
  and that are not remembered.\<close>

theorem issues_reported_exactly:
  assumes "answer_body (ge_issues env (issues_url t p)) = Some issues"
  shows "case processIssues env t p b of
      (None, _) \<Rightarrow> False
    | (Some (events, _), b') \<Rightarrow> distinct (keys events) \<and>
        set (keys events) = (\<lambda>i. gh_key ''issue'' p (is_Number i)) `
          {i \<in> set issues. \<not> is_PullRequest i \<and> filters_Match t (event_data0\<lparr>ed_Labels := is_Labels i, ed_Author := is_User i\<rparr>) \<and>
             \<not> IsProcessed (gh_key ''issue'' p (is_Number i)) b}"
proof -
  define f where "f = (\<lambda>i. report env p (is_PullRequest i) (gh_key ''issue'' p (is_Number i))
    (filters_Match t (event_data0\<lparr>ed_Labels := is_Labels i, ed_Author := is_User i\<rparr>)) (ExtractIssueVariables i (rp_repo p)))"
  obtain events b' where e: "fold f issues ([], b) = (events, b')" by (cases "fold f issues ([], b)")
  have "processIssues env t p b = (Some (events, checkRateLimit (ge_issues env (issues_url t p))), b')"
    using assms e by (simp add: processIssues_def issues_url_def Let_def f_def)
  then show ?thesis using report_exact [OF e [unfolded f_def]] by auto
qed

section \<open>At most once a week\<close>

text \<open>\<open>gs_log\<close>: the keys of the events found, with the time, newest first.\<close>

record gh_sys =
  gs_state :: bridge_state
  gs_log :: "(string \<times> time) list"
  gs_now :: time

inductive gh_step :: "gh_sys \<Rightarrow> gh_sys \<Rightarrow> bool" where
  poll: "ge_save env \<Longrightarrow> gs_now s \<le> ge_now env \<Longrightarrow> Poll env p (gs_state s) = ((events, err), b) \<Longrightarrow>
    gh_step s \<lparr>gs_state = b, gs_log = rev (map (\<lambda>e. (me_EventKey e, ge_now env)) events) @ gs_log s, gs_now = ge_now env\<rparr>"
| prune: "gs_now s \<le> now \<Longrightarrow> gh_step s (s\<lparr>gs_state := Prune True now 0 (gs_state s), gs_now := now\<rparr>)"
| restart: "gh_step s (s\<lparr>gs_state := state_Load (state_New (bt_disk (gs_state s)))\<rparr>)"

definition gh_init :: "gh_sys \<Rightarrow> bool" where
  "gh_init s \<longleftrightarrow> gs_state s = state_New None \<and> gs_log s = []"

abbreviation gh_reachable :: "gh_sys \<Rightarrow> bool" where
  "gh_reachable \<equiv> reachable gh_init gh_step"

interpretation processed: expiring_memory "\<lambda>b. fmlookup (sd_Processed (bt_data b))" "MarkProcessed True" week
  by unfold_locales (simp add: MarkProcessed_def state_Save_def)

definition remembered :: "(string \<times> time) list \<Rightarrow> time \<Rightarrow> bridge_state \<Rightarrow> bool" where
  "remembered log now b \<longleftrightarrow> remembers week log now (fmlookup (sd_Processed (bt_data b))) \<and>
     (bt_disk b = Some (bt_data b) \<or> b = state_New None)"

lemma remembered_later: "remembered log now b \<Longrightarrow> now \<le> now' \<Longrightarrow> remembered log now' b"
  unfolding remembered_def using remembers_later by blast

lemma remembered_reports:
  "reports now b ks b' \<Longrightarrow> remembered log now b \<Longrightarrow> remembered (rev (map (\<lambda>k. (k, now)) ks) @ log) now b'"
proof (induction rule: reports.induct)
  case (mark b ks b' k)
  then show ?case using processed.remembers_log [of "rev (map (\<lambda>k. (k, now)) ks) @ log" now b' k]
    by (auto simp: remembered_def IsProcessed_def) (simp_all add: MarkProcessed_def state_Save_def)
qed (simp_all add: remembered_def SetCursor_def state_Save_def)

lemma remembered_prune:
  assumes "remembered log now b"
  shows "remembered log now (Prune True now 0 b)"
proof -
  have "fmlookup (sd_Processed (bt_data (Prune True now 0 b))) k = fmlookup (sd_Processed (bt_data b)) k \<or>
      (\<exists>t. fmlookup (sd_Processed (bt_data b)) k = Some t \<and> t + week \<le> now)" for k
    by (cases "fmlookup (sd_Processed (bt_data b)) k") (auto simp: Prune_def state_Save_def Let_def)
  then have "remembers week log now (fmlookup (sd_Processed (bt_data (Prune True now 0 b))))"
    using assms processed.remembers_forget [of log now b "Prune True now 0 b"] by (simp add: remembered_def)
  then show ?thesis by (simp add: remembered_def Prune_def state_Save_def Let_def)
qed

lemma remembered_restart: "remembered log now b \<Longrightarrow> remembered log now (state_Load (state_New (bt_disk b)))"
  by (auto simp: remembered_def state_Load_def state_New_def)

interpretation github_polls: invariant_system gh_init gh_step "\<lambda>s. remembered (gs_log s) (gs_now s) (gs_state s)"
proof
  show "remembered (gs_log s) (gs_now s) (gs_state s)" if "gh_init s" for s using that by (simp add: gh_init_def remembered_def)
  fix s t assume inv: "remembered (gs_log s) (gs_now s) (gs_state s)" and "gh_step s t"
  from this(2) show "remembered (gs_log t) (gs_now t) (gs_state t)"
  proof cases
    case (poll env p events err b)
    from remembered_reports [OF Poll_reports [OF poll(2,4)] remembered_later [OF inv poll(3)]] show ?thesis using poll(1) by (simp add: comp_def)
  next
    case (prune now)
    then show ?thesis using remembered_prune [OF remembered_later [OF inv prune(2)]] by simp
  next
    case restart
    then show ?thesis using remembered_restart [OF inv] by simp
  qed
qed


section \<open>Examples\<close>

definition no_triggers :: TriggerConfig where
  "no_triggers = \<lparr>tc_PullRequestOpened = None, tc_CheckRunCompleted = None, tc_IssueLabeled = None, tc_IssueComment = None,
     tc_PullRequestComment = None, tc_PullRequestReview = None, tc_ReleasePublished = None\<rparr>"

definition no_filters :: Filters where
  "no_filters = \<lparr>fl_Branches = [], fl_Labels = [], fl_CheckNames = [], fl_Conclusions = [], fl_Paths = [], fl_AuthorsIgnore = [],
     fl_ReviewStates = [], fl_TagPatterns = []\<rparr>"

definition release1 :: ReleaseData where
  "release1 = \<lparr>rl_ID = 5, rl_TagName = ''v1'', rl_Name = [], rl_Body = [], rl_HTMLURL = [], rl_Author = [], rl_PublishedAt = []\<rparr>"

definition issue1 :: IssueData where
  "issue1 = \<lparr>is_Number = 7, is_Title = [], is_Body = [], is_HTMLURL = [], is_PullRequest = False, is_User = [], is_Labels = []\<rparr>"

definition github :: "time \<Rightarrow> ReleaseData list gh_answer \<Rightarrow> gh_env" where
  "github now releases = \<lparr>ge_prs = (\<lambda>_ _. Unreachable), ge_files = (\<lambda>_. Unreachable), ge_checks = (\<lambda>_. Unreachable),
     ge_issues = (\<lambda>_. Answered 200 [] (Some [issue1])), ge_issue_comments = (\<lambda>_. Unreachable),
     ge_pr_comments = (\<lambda>_. Unreachable), ge_reviews = (\<lambda>_. Unreachable), ge_releases = (\<lambda>_. releases), ge_now = now, ge_save = True\<rparr>"

definition watch_releases :: "string \<Rightarrow> RepoPoller" where
  "watch_releases template = NewRepoPoller ''o/r'' template ''c'' (no_triggers\<lparr>tc_ReleasePublished := Some no_filters\<rparr>)"

lemmas filter_simps = filters_Match_def no_filters_def matchBranches_def matchLabels_def matchStringInList_def matchPaths_def
  matchAuthorsIgnore_def matchReviewStates_def matchTagPatterns_def

lemmas poll_simps = Poll_def trigger_stage_def NewRepoPoller_def no_triggers_def processReleases_def processIssues_def github_def
  answer_body_def report_def checkRateLimit_def MarkProcessed_def IsProcessed_def state_Save_def state_New_def gh_key_def
  filter_simps watch_releases_def release1_def issue1_def

lemma itoa_examples [simp]: "itoa 5 = ''5''" "itoa 7 = ''7''"
  by code_simp+

text \<open>A release is reported again when the memory of it has been pruned: the list of releases has no cursor.\<close>

definition released :: "gh_sys" where
  "released = \<lparr>gs_state = snd (Poll (github 1 (Answered 200 [] (Some [release1]))) (watch_releases ''t'') (state_New None)),
     gs_log = [(''release:o/r:5'', 1)], gs_now = 1\<rparr>"

definition pruned :: gh_sys where
  "pruned = released\<lparr>gs_state := Prune True (1 + week) 0 (gs_state released), gs_now := 1 + week\<rparr>"

definition released_again :: gh_sys where
  "released_again = \<lparr>gs_state = snd (Poll (github (2 + week) (Answered 200 [] (Some [release1]))) (watch_releases ''t'') (gs_state pruned)),
     gs_log = [(''release:o/r:5'', 2 + week), (''release:o/r:5'', 1)], gs_now = 2 + week\<rparr>"

lemma released_poll: "map me_EventKey (fst (fst (Poll (github t (Answered 200 [] (Some [release1]))) (watch_releases tm)
    (state_New None)))) = [''release:o/r:5'']"
  by (simp add: poll_simps)

lemma released_state [simp]: "gs_state released =
   \<lparr>bt_data = \<lparr>sd_Cursors = fmempty, sd_Processed = fmupd ''release:o/r:5'' 1 fmempty\<rparr>,
    bt_disk = Some \<lparr>sd_Cursors = fmempty, sd_Processed = fmupd ''release:o/r:5'' 1 fmempty\<rparr>\<rparr>"
  by (simp add: released_def poll_simps)

lemma released_reachable: "gh_reachable released"
proof -
  define env where "env = github 1 (Answered 200 [] (Some [release1]))"
  obtain events err b where p: "Poll env (watch_releases ''t'') (state_New None) = ((events, err), b)"
    by (metis prod.exhaust)
  have k: "map me_EventKey events = [''release:o/r:5'']" using released_poll [of 1 "''t''"] p by (simp add: env_def)
  have "gh_step \<lparr>gs_state = state_New None, gs_log = [], gs_now = 1\<rparr> released"
    using gh_step.poll [of env "\<lparr>gs_state = state_New None, gs_log = [], gs_now = 1\<rparr>" "watch_releases ''t''" events err b] p k
    by (cases events) (auto simp: released_def env_def github_def)
  then show ?thesis by (rule reach_step [OF reach_init, rotated]) (simp add: gh_init_def)
qed

lemma pruned_reachable: "gh_reachable pruned"
  unfolding pruned_def by (rule reach_step [OF released_reachable gh_step.prune]) (simp add: released_def week_def)

lemma pruned_state [simp]: "gs_state pruned = \<lparr>bt_data = \<lparr>sd_Cursors = fmempty, sd_Processed = fmempty\<rparr>,
    bt_disk = Some \<lparr>sd_Cursors = fmempty, sd_Processed = fmempty\<rparr>\<rparr>"
  by (auto simp: pruned_def Prune_def Let_def state_Save_def week_def intro!: fmap_ext split: option.splits)

lemma released_again_reachable: "gh_reachable released_again"
proof -
  define env where "env = github (2 + week) (Answered 200 [] (Some [release1]))"
  obtain events err b where p: "Poll env (watch_releases ''t'') (gs_state pruned) = ((events, err), b)"
    by (metis prod.exhaust)
  have "map me_EventKey (fst (fst (Poll env (watch_releases ''t'') (gs_state pruned)))) = [''release:o/r:5'']"
    by (simp add: env_def poll_simps)
  then have k: "map me_EventKey events = [''release:o/r:5'']" using p by simp
  have "gh_step pruned released_again"
    using gh_step.poll [of env pruned "watch_releases ''t''" events err b] p k
    by (cases events) (auto simp: released_again_def pruned_def released_def env_def github_def)
  then show ?thesis by (rule reach_step [OF pruned_reachable])
qed


theorem issues_reported_exactly_witness:
  "map me_EventKey (fst (the (fst (processIssues (github 1 Unreachable) no_filters (watch_releases ''t'') (state_New None))))) =
     [''issue:o/r:7''] \<and>
   (case processIssues (github 1 Unreachable) no_filters (watch_releases ''t'') (state_New None) of
      (None, _) \<Rightarrow> False | (Some (events, _), b') \<Rightarrow> set (keys events) = {''issue:o/r:7''})"
proof
  have "answer_body (ge_issues (github 1 Unreachable) (issues_url no_filters (watch_releases ''t''))) = Some [issue1]"
    by (simp add: github_def answer_body_def)
  moreover have "{i \<in> set [issue1]. \<not> is_PullRequest i \<and> filters_Match no_filters (event_data0\<lparr>ed_Labels := is_Labels i, ed_Author := is_User i\<rparr>) \<and>
      \<not> IsProcessed (gh_key ''issue'' (watch_releases ''t'') (is_Number i)) (state_New None)} = {issue1}"
    by (auto simp: poll_simps)
  moreover have "gh_key ''issue'' (watch_releases ''t'') (is_Number issue1) = ''issue:o/r:7''" by (simp add: poll_simps)
  ultimately show "case processIssues (github 1 Unreachable) no_filters (watch_releases ''t'') (state_New None) of
      (None, _) \<Rightarrow> False | (Some (events, _), b') \<Rightarrow> set (keys events) = {''issue:o/r:7''}"
    using issues_reported_exactly [of "github 1 Unreachable" no_filters "watch_releases ''t''" "[issue1]" "state_New None"]
    by (auto split: prod.splits option.splits)
qed (simp add: poll_simps)

text \<open>When a later trigger fails, \<open>pollOnce\<close> drops the events found before it, and they are not found again.\<close>

definition watch_both :: RepoPoller where
  "watch_both = NewRepoPoller ''o/r'' ''t'' ''c'' (no_triggers\<lparr>tc_IssueLabeled := Some no_filters, tc_ReleasePublished := Some no_filters\<rparr>)"

lemma failed_poll_loses_events:
  "fst (pollOnce (github 1 Unreachable) [True, True] watch_both watch (state_New None)) = [] \<and>
   fst (fst (Poll (github 2 (Answered 200 [] (Some []))) watch_both (snd (pollOnce (github 1 Unreachable) [True, True] watch_both watch (state_New None))))) = []"
  by (simp add: pollOnce_def poll_simps watch_both_def)

text \<open>A session that cannot be created is not tried again.\<close>

lemma refused_session_lost:
  "fst (pollOnce (github 1 (Answered 200 [] (Some [release1]))) [False] (watch_releases ''t'') watch (state_New None)) = [] \<and>
   fst (fst (Poll (github 2 (Answered 200 [] (Some [release1]))) (watch_releases ''t'')
     (snd (pollOnce (github 1 (Answered 200 [] (Some [release1]))) [False] (watch_releases ''t'') watch (state_New None))))) = []"
  by (simp add: pollOnce_def poll_simps)

text \<open>Two watches of one repository share the keys: the second finds nothing, whatever its template.\<close>

lemma second_watch_starved:
  "fst (fst (Poll (github 2 (Answered 200 [] (Some [release1]))) (watch_releases ''other'')
     (snd (Poll (github 1 (Answered 200 [] (Some [release1]))) (watch_releases ''t'') (state_New None))))) = []"
  by (simp add: poll_simps)

text \<open>A check run that is still running is reported when no conclusions are given.\<close>

lemma running_check_reported:
  assumes "cr_Status cr = ''in_progress''" "cr_Conclusion cr = []" "\<not> IsProcessed (gh_key ''check'' p (cr_ID cr)) b"
  shows "keys (fst (report_checks env no_filters p [cr] ([], b))) = [gh_key ''check'' p (cr_ID cr)]"
  using assms(3) by (simp add: report_checks_def report_def filter_simps)

end
