(* ===== verification/Provisioning.thy ===== *)
theory Provisioning
  imports Job_Handler
begin

text \<open>
  Provisioning of agents: the table of tokens (\<open>store/provisioning.go\<close>), short codes and the
  service (\<open>provision/shortcode.go\<close>, \<open>provision/service.go\<close>) and the handlers
  (\<open>handler/provision.go\<close>). A token carries a private key, which the holder of the token or of its
  short code receives. Looking a token up and redeeming it are two database calls of one
  request, so requests interleave between them. Issuing certificates and rendering the install
  script are arguments.
\<close>

section \<open>The table\<close>

record ProvisioningToken =
  pt_Token :: string
  pt_ShortCode :: string
  pt_MachineID :: string
  pt_TargetOS :: string
  pt_TargetArch :: string
  pt_CACertPEM :: string
  pt_AgentCertPEM :: string
  pt_AgentKeyPEM :: string
  pt_ServerAddress :: string
  pt_GRPCAddress :: string
  pt_CreatedBy :: string
  pt_CreatedAt :: time
  pt_ExpiresAt :: time
  pt_RedeemedAt :: "time option"

datatype provision_error =
    TokenNotFound
  | ErrTokenExpired
  | ErrTokenAlreadyRedeemed
  | UniqueViolation string
  | ErrInvalidMachineID
  | ErrInvalidTTL
  | ErrUnsupportedPlatform
  | ErrDuplicateActiveToken
  | ProvisionFailure

text \<open>The columns whose unique index refuses a new row; the index on machines covers the rows that are not redeemed.\<close>

definition violated :: "ProvisioningToken \<Rightarrow> ProvisioningToken list \<Rightarrow> string list" where
  "violated t rows =
     (if list_ex (\<lambda>r. pt_Token r = pt_Token t) rows then [''token''] else []) @
     (if list_ex (\<lambda>r. pt_ShortCode r = pt_ShortCode t) rows then [''short_code''] else []) @
     (if pt_RedeemedAt t = None \<and> list_ex (\<lambda>r. pt_MachineID r = pt_MachineID t \<and> pt_RedeemedAt r = None) rows then [''machine_id''] else [])"

text \<open>\<open>pick\<close> chooses the column that the database names when several are violated.\<close>

definition CreateProvisioningToken :: "(string list \<Rightarrow> string) \<Rightarrow> ProvisioningToken \<Rightarrow> ProvisioningToken list \<Rightarrow>
    provision_error + ProvisioningToken list" where
  "CreateProvisioningToken pick t rows =
     (let t = t\<lparr>pt_RedeemedAt := None\<rparr>
      in if violated t rows \<noteq> [] then Inl (UniqueViolation (pick (violated t rows))) else Inr (rows @ [t]))"

definition check_token :: "time \<Rightarrow> ProvisioningToken option \<Rightarrow> provision_error + ProvisioningToken" where
  "check_token now found =
     (case found of
        None \<Rightarrow> Inl TokenNotFound
      | Some t \<Rightarrow>
          if pt_RedeemedAt t \<noteq> None then Inl ErrTokenAlreadyRedeemed
          else if pt_ExpiresAt t < now then Inl ErrTokenExpired
          else Inr t)"

definition GetProvisioningToken :: "time \<Rightarrow> string \<Rightarrow> ProvisioningToken list \<Rightarrow> provision_error + ProvisioningToken" where
  "GetProvisioningToken now token rows = check_token now (find (\<lambda>t. pt_Token t = token) rows)"

definition GetProvisioningTokenByCode :: "time \<Rightarrow> string \<Rightarrow> ProvisioningToken list \<Rightarrow> provision_error + ProvisioningToken" where
  "GetProvisioningTokenByCode now code rows = check_token now (find (\<lambda>t. pt_ShortCode t = code) rows)"

definition redeemable :: "time \<Rightarrow> string \<Rightarrow> ProvisioningToken \<Rightarrow> bool" where
  "redeemable now token t \<longleftrightarrow> pt_Token t = token \<and> pt_RedeemedAt t = None \<and> now \<le> pt_ExpiresAt t"

definition redeem_row :: "time \<Rightarrow> string \<Rightarrow> ProvisioningToken \<Rightarrow> ProvisioningToken" where
  "redeem_row now token t =
     (if redeemable now token t
      then t\<lparr>pt_RedeemedAt := Some now, pt_CACertPEM := [], pt_AgentCertPEM := [], pt_AgentKeyPEM := []\<rparr> else t)"

definition RedeemProvisioningToken :: "time \<Rightarrow> string \<Rightarrow> ProvisioningToken list \<Rightarrow> provision_error + ProvisioningToken list" where
  "RedeemProvisioningToken now token rows =
     (if length (filter (redeemable now token) rows) = 1 then Inr (map (redeem_row now token) rows)
      else case find (\<lambda>t. pt_Token t = token) rows of
             None \<Rightarrow> Inl TokenNotFound
           | Some t \<Rightarrow>
               if pt_RedeemedAt t \<noteq> None then Inl ErrTokenAlreadyRedeemed
               else if pt_ExpiresAt t < now then Inl ErrTokenExpired
               else Inl ErrTokenAlreadyRedeemed)"

definition ListProvisioningTokens :: "ProvisioningToken list \<Rightarrow> ProvisioningToken list" where
  "ListProvisioningTokens rows =
     map (\<lambda>t. t\<lparr>pt_CACertPEM := [], pt_AgentCertPEM := [], pt_AgentKeyPEM := []\<rparr>) (sort_key (\<lambda>t. - pt_CreatedAt t) rows)"

definition RevokeProvisioningToken :: "string \<Rightarrow> ProvisioningToken list \<Rightarrow> provision_error + ProvisioningToken list" where
  "RevokeProvisioningToken token rows =
     (if list_ex (\<lambda>t. pt_Token t = token) rows then Inr (filter (\<lambda>t. pt_Token t \<noteq> token) rows) else Inl TokenNotFound)"

definition HasActiveProvisioningToken :: "time \<Rightarrow> string \<Rightarrow> ProvisioningToken list \<Rightarrow> bool" where
  "HasActiveProvisioningToken now machineID rows \<longleftrightarrow>
     list_ex (\<lambda>t. pt_MachineID t = machineID \<and> pt_RedeemedAt t = None \<and> now \<le> pt_ExpiresAt t) rows"

definition CleanExpiredProvisioningTokens :: "time \<Rightarrow> ProvisioningToken list \<Rightarrow> nat \<times> ProvisioningToken list" where
  "CleanExpiredProvisioningTokens now rows =
     (length (filter (\<lambda>t. pt_ExpiresAt t < now) rows), filter (\<lambda>t. \<not> pt_ExpiresAt t < now) rows)"

section \<open>Short codes\<close>

definition shortCodeAlphabet :: string where "shortCodeAlphabet = ''ABCDEFGHJKMNPQRSTUVWXYZ23456789''"
definition shortCodeLength :: nat where "shortCodeLength = 6"

text \<open>\<open>draws\<close> are the random numbers, each below the size of the alphabet; \<open>None\<close> is a failing generator.\<close>

definition GenerateShortCode :: "nat list option \<Rightarrow> string option" where
  "GenerateShortCode draws = map_option (\<lambda>ds. map (\<lambda>d. shortCodeAlphabet ! d) (take shortCodeLength ds)) draws"

definition ValidateShortCode :: "string \<Rightarrow> bool" where
  "ValidateShortCode code =
     (if length code \<noteq> shortCodeLength then False else list_all (\<lambda>ch. ch \<in> set shortCodeAlphabet) code)"

section \<open>The service\<close>

text \<open>The pattern of machine names: a letter or digit, then up to 63 letters, digits, underscores or hyphens.\<close>

definition alnum :: "char \<Rightarrow> bool" where
  "alnum c \<longleftrightarrow> (let n = of_char c :: nat in 48 \<le> n \<and> n \<le> 57 \<or> 65 \<le> n \<and> n \<le> 90 \<or> 97 \<le> n \<and> n \<le> 122)"

definition ValidMachineID :: "string \<Rightarrow> bool" where
  "ValidMachineID s =
     (case s of [] \<Rightarrow> False
      | c # cs \<Rightarrow> alnum c \<and> length cs \<le> 63 \<and> list_all (\<lambda>d. alnum d \<or> d = CHR ''_'' \<or> d = CHR ''-'') cs)"

record provision_env =
  pe_now :: time
  pe_tokenID :: string
  pe_draws :: "nat \<Rightarrow> nat list option"
  pe_pick :: "string list \<Rightarrow> string"
  pe_issue :: "string \<Rightarrow> (string \<times> string) option"
  pe_ca :: "string option"
  pe_machines :: "string list"
  pe_httpAddress :: string
  pe_grpcAddress :: string

record ProvisionResult =
  pq_Token :: string
  pq_ShortCode :: string
  pq_ExpiresAt :: time
  pq_CurlCommand :: string
  pq_JoinCommand :: string

definition validPlatforms :: "string list" where
  "validPlatforms = [''linux-amd64'', ''linux-arm64'', ''darwin-amd64'', ''darwin-arm64'']"

text \<open>The loop over new short codes: one attempt for each entry of \<open>draws\<close>.\<close>

fun code_loop :: "(string list \<Rightarrow> string) \<Rightarrow> nat list option list \<Rightarrow> ProvisioningToken \<Rightarrow> ProvisioningToken list \<Rightarrow>
    provision_error + string \<times> ProvisioningToken list" where
  "code_loop pick [] t rows = Inr ([], rows)"
| "code_loop pick (d # ds) t rows =
     (case GenerateShortCode d of
        None \<Rightarrow> Inl ProvisionFailure
      | Some code \<Rightarrow>
          (case CreateProvisioningToken pick (t\<lparr>pt_ShortCode := code\<rparr>) rows of
             Inr rows' \<Rightarrow> Inr (code, rows')
           | Inl (UniqueViolation col) \<Rightarrow>
               if col = ''machine_id'' then Inl ErrDuplicateActiveToken
               else if ds \<noteq> [] then code_loop pick ds t rows
               else Inl (UniqueViolation col)
           | Inl e \<Rightarrow> Inl e))"

definition maxRetries :: nat where "maxRetries = 3"

definition CreateAgentProvision :: "provision_env \<Rightarrow> string \<Rightarrow> string \<Rightarrow> string \<Rightarrow> string \<Rightarrow> time \<Rightarrow> ProvisioningToken list \<Rightarrow>
    provision_error + ProvisionResult \<times> ProvisioningToken list" where
  "CreateAgentProvision env machineID targetOS targetArch createdBy ttl rows =
     (let cn = ''agent-'' @ machineID;
          targetOS = (if targetOS = [] then ''linux'' else targetOS);
          targetArch = (if targetArch = [] then ''amd64'' else targetArch)
      in if \<not> ValidMachineID machineID \<or> \<not> ValidMachineID cn then Inl ErrInvalidMachineID
         else if ttl \<le> 0 then Inl ErrInvalidTTL
         else if targetOS @ ''-'' @ targetArch \<notin> set validPlatforms then Inl ErrUnsupportedPlatform
         else case pe_issue env cn of
                None \<Rightarrow> Inl ProvisionFailure
              | Some (certPEM, keyPEM) \<Rightarrow>
                  (case pe_ca env of
                     None \<Rightarrow> Inl ProvisionFailure
                   | Some ca \<Rightarrow>
                       (let t = \<lparr>pt_Token = pe_tokenID env, pt_ShortCode = [], pt_MachineID = machineID, pt_TargetOS = targetOS,
                              pt_TargetArch = targetArch, pt_CACertPEM = ca, pt_AgentCertPEM = certPEM, pt_AgentKeyPEM = keyPEM,
                              pt_ServerAddress = pe_httpAddress env, pt_GRPCAddress = pe_grpcAddress env, pt_CreatedBy = createdBy,
                              pt_CreatedAt = pe_now env, pt_ExpiresAt = pe_now env + ttl, pt_RedeemedAt = None\<rparr>
                        in case code_loop (pe_pick env) (map (pe_draws env) [0..<maxRetries]) t rows of
                             Inl e \<Rightarrow> Inl e
                           | Inr (shortCode, rows') \<Rightarrow>
                               Inr (\<lparr>pq_Token = pe_tokenID env, pq_ShortCode = shortCode, pq_ExpiresAt = pe_now env + ttl,
                                  pq_CurlCommand = ''curl -sfL '' @ pe_httpAddress env @ ''/api/v1/provision/'' @ pe_tokenID env @ ''/script | sudo bash'',
                                  pq_JoinCommand = ''./claude-plane-agent join '' @ shortCode @ '' --server '' @ pe_httpAddress env @
                                    (if HasPrefix (pe_httpAddress env) ''http://'' then '' --insecure'' else [])\<rparr>, rows'))))"

section \<open>The handlers\<close>

text \<open>A reply is its status with the token or the result, if any; the body of a request is \<open>None\<close> when it cannot be decoded.\<close>

datatype provision_reply = PError int | PCreated ProvisionResult | PTokens "ProvisioningToken list" | PNoContent | PKeys ProvisioningToken

definition admin_claims :: "UserClaims option \<Rightarrow> bool" where
  "admin_claims c \<longleftrightarrow> (case c of None \<Rightarrow> False | Some u \<Rightarrow> uc_Role u = ''admin'')"

definition hour :: time where "hour = 3600 * 1000000000"

definition CreateProvision :: "provision_env \<Rightarrow> UserClaims option \<Rightarrow> (string \<times> string \<times> string) option \<Rightarrow> ProvisioningToken list \<Rightarrow>
    provision_reply \<times> ProvisioningToken list" where
  "CreateProvision env claims req rows =
     (if \<not> admin_claims claims then (PError 403, rows)
      else case req of
             None \<Rightarrow> (PError 400, rows)
           | Some (machineID, os, arch) \<Rightarrow>
               if machineID = [] then (PError 400, rows)
               else if HasActiveProvisioningToken (pe_now env) machineID rows then (PError 409, rows)
               else if machineID \<in> set (pe_machines env) then (PError 409, rows)
               else case CreateAgentProvision env machineID os arch (uc_UserID (the claims)) hour rows of
                      Inr (result, rows') \<Rightarrow> (PCreated result, rows')
                    | Inl e \<Rightarrow>
                        (if e = ErrInvalidMachineID \<or> e = ErrUnsupportedPlatform then PError 400
                         else if e = ErrDuplicateActiveToken then PError 409 else PError 500, rows))"

definition ListTokens :: "UserClaims option \<Rightarrow> ProvisioningToken list \<Rightarrow> provision_reply" where
  "ListTokens claims rows = (if \<not> admin_claims claims then PError 403 else PTokens (ListProvisioningTokens rows))"

definition ph_RevokeToken :: "UserClaims option \<Rightarrow> string \<Rightarrow> ProvisioningToken list \<Rightarrow> provision_reply \<times> ProvisioningToken list" where
  "ph_RevokeToken claims tokenID rows =
     (if \<not> admin_claims claims then (PError 403, rows)
      else if tokenID = [] then (PError 400, rows)
      else case RevokeProvisioningToken tokenID rows of
             Inr rows' \<Rightarrow> (PNoContent, rows')
           | Inl e \<Rightarrow> (PError (if e = TokenNotFound then 404 else 500), rows))"

definition script_status :: "provision_error \<Rightarrow> int" where
  "script_status e = (case e of TokenNotFound \<Rightarrow> 404 | ErrTokenExpired \<Rightarrow> 410 | ErrTokenAlreadyRedeemed \<Rightarrow> 410 | _ \<Rightarrow> 500)"

text \<open>The two public handlers in two parts: the look-up, and the redemption of the token found, after which the keys are
  sent. \<open>renders\<close> says whether the install script can be produced.\<close>

definition ServeScript_find :: "time \<Rightarrow> string \<Rightarrow> ProvisioningToken list \<Rightarrow> provision_reply + ProvisioningToken" where
  "ServeScript_find now tokenID rows =
     (case GetProvisioningToken now tokenID rows of Inl e \<Rightarrow> Inl (PError (script_status e)) | Inr t \<Rightarrow> Inr t)"

definition ServeScript_redeem :: "time \<Rightarrow> bool \<Rightarrow> ProvisioningToken \<Rightarrow> ProvisioningToken list \<Rightarrow> provision_reply \<times> ProvisioningToken list" where
  "ServeScript_redeem now renders t rows =
     (case RedeemProvisioningToken now (pt_Token t) rows of
        Inl e \<Rightarrow> (PError (script_status e), rows)
      | Inr rows' \<Rightarrow> (if renders then PKeys t else PError 500, rows'))"

definition JoinByCode_find :: "time \<Rightarrow> string option \<Rightarrow> ProvisioningToken list \<Rightarrow> provision_reply + ProvisioningToken" where
  "JoinByCode_find now req rows =
     (case req of
        None \<Rightarrow> Inl (PError 400)
      | Some code \<Rightarrow>
          if \<not> ValidateShortCode code then Inl (PError 400)
          else case GetProvisioningTokenByCode now code rows of Inl _ \<Rightarrow> Inl (PError 404) | Inr t \<Rightarrow> Inr t)"

definition JoinByCode_redeem :: "time \<Rightarrow> ProvisioningToken \<Rightarrow> ProvisioningToken list \<Rightarrow> provision_reply \<times> ProvisioningToken list" where
  "JoinByCode_redeem now t rows =
     (case RedeemProvisioningToken now (pt_Token t) rows of Inl _ \<Rightarrow> (PError 404, rows) | Inr rows' \<Rightarrow> (PKeys t, rows'))"

section \<open>Requests that interleave\<close>

text \<open>\<open>pv_found\<close>: the requests between their two parts (\<open>True\<close> for the install script). \<open>pv_issued\<close> and \<open>pv_given\<close> are
  ghost state: the tokens with machine and key ever stored, and the tokens whose keys were sent, newest
  first.\<close>

record prov_sys =
  pv_tokens :: "ProvisioningToken list"
  pv_found :: "(bool \<times> ProvisioningToken) list"
  pv_issued :: "(string \<times> string \<times> string) list"
  pv_given :: "ProvisioningToken list"

definition ident :: "ProvisioningToken \<Rightarrow> string \<times> string \<times> string" where
  "ident t = (pt_Token t, pt_MachineID t, pt_AgentKeyPEM t)"

definition given_by :: "provision_reply \<Rightarrow> ProvisioningToken list" where
  "given_by r = (case r of PKeys t \<Rightarrow> [t] | _ \<Rightarrow> [])"

definition redeem_request :: "time \<Rightarrow> bool \<Rightarrow> bool \<times> ProvisioningToken \<Rightarrow> ProvisioningToken list \<Rightarrow> provision_reply \<times> ProvisioningToken list" where
  "redeem_request now renders rq rows =
     (case rq of (script, t) \<Rightarrow> if script then ServeScript_redeem now renders t rows else JoinByCode_redeem now t rows)"

inductive prov_step :: "prov_sys \<Rightarrow> prov_sys \<Rightarrow> bool" where
  create: "pe_tokenID env \<notin> fst ` set (pv_issued s) \<Longrightarrow> CreateProvision env claims req (pv_tokens s) = (r, rows) \<Longrightarrow>
    prov_step s (s\<lparr>pv_tokens := rows, pv_issued := map ident (drop (length (pv_tokens s)) rows) @ pv_issued s\<rparr>)"
| find_script: "ServeScript_find now tokenID (pv_tokens s) = Inr t \<Longrightarrow> prov_step s (s\<lparr>pv_found := pv_found s @ [(True, t)]\<rparr>)"
| find_code: "JoinByCode_find now req (pv_tokens s) = Inr t \<Longrightarrow> prov_step s (s\<lparr>pv_found := pv_found s @ [(False, t)]\<rparr>)"
| redeem: "k < length (pv_found s) \<Longrightarrow> redeem_request now renders (pv_found s ! k) (pv_tokens s) = (r, rows) \<Longrightarrow>
    prov_step s (s\<lparr>pv_tokens := rows, pv_found := take k (pv_found s) @ drop (Suc k) (pv_found s), pv_given := given_by r @ pv_given s\<rparr>)"
| revoke: "ph_RevokeToken claims tokenID (pv_tokens s) = (r, rows) \<Longrightarrow> prov_step s (s\<lparr>pv_tokens := rows\<rparr>)"
| clean: "CleanExpiredProvisioningTokens now (pv_tokens s) = (n, rows) \<Longrightarrow> prov_step s (s\<lparr>pv_tokens := rows\<rparr>)"

definition prov_init :: "prov_sys \<Rightarrow> bool" where
  "prov_init s \<longleftrightarrow> s = \<lparr>pv_tokens = [], pv_found = [], pv_issued = [], pv_given = []\<rparr>"

abbreviation prov_reachable :: "prov_sys \<Rightarrow> bool" where
  "prov_reachable \<equiv> reachable prov_init prov_step"

definition tokens_ok :: "(string \<times> string \<times> string) list \<Rightarrow> ProvisioningToken list \<Rightarrow> ProvisioningToken list \<Rightarrow> bool" where
  "tokens_ok issued given rows \<longleftrightarrow> distinct (map pt_Token rows) \<and>
     distinct (map pt_MachineID (filter (\<lambda>t. pt_RedeemedAt t = None) rows)) \<and>
     (\<forall>t\<in>set rows. pt_Token t \<in> fst ` set issued \<and>
        (if pt_RedeemedAt t = None then ident t \<in> set issued \<and> pt_Token t \<notin> pt_Token ` set given else pt_AgentKeyPEM t = []))"

definition prov_inv :: "prov_sys \<Rightarrow> bool" where
  "prov_inv s \<longleftrightarrow> distinct (map fst (pv_issued s)) \<and> tokens_ok (pv_issued s) (pv_given s) (pv_tokens s) \<and>
     ident ` snd ` set (pv_found s) \<subseteq> set (pv_issued s) \<and>
     distinct (map pt_Token (pv_given s)) \<and> ident ` set (pv_given s) \<subseteq> set (pv_issued s)"

lemma tokens_ok_filter: "tokens_ok issued given rows \<Longrightarrow> tokens_ok issued given (filter P rows)"
proof -
  assume ok: "tokens_ok issued given rows"
  have "filter (\<lambda>t. pt_RedeemedAt t = None) (filter P rows) = filter P (filter (\<lambda>t. pt_RedeemedAt t = None) rows)"
    by (simp add: conj_commute)
  then have "distinct (map pt_MachineID (filter (\<lambda>t. pt_RedeemedAt t = None) (filter P rows)))"
    using ok unfolding tokens_ok_def by (metis distinct_map_filter)
  then show ?thesis using ok unfolding tokens_ok_def by (simp add: distinct_map_filter)
qed

lemma tokens_ok_weaken: "tokens_ok issued (given @ given') rows \<Longrightarrow> tokens_ok issued given' rows"
  unfolding tokens_ok_def by (auto split: if_splits)

lemma tokens_ok_unique:
  assumes "tokens_ok issued given rows" "t \<in> set rows" "u \<in> set rows" "pt_Token t = pt_Token u"
  shows "t = u"
  using assms by (auto simp: tokens_ok_def distinct_map inj_on_def)

lemma CreateProvision_rows:
  assumes "CreateProvision env claims req rows = (r, rows')"
  obtains "rows' = rows" | t where "rows' = rows @ [t]" "pt_Token t = pe_tokenID env" "pt_RedeemedAt t = None" "violated t rows = []"
proof -
  have loop: "code_loop pick ds t rows = Inr (c, rows') \<Longrightarrow> rows' = rows \<or>
      (\<exists>u. rows' = rows @ [u] \<and> pt_Token u = pt_Token t \<and> pt_RedeemedAt u = None \<and> violated u rows = [])" for pick ds t c rows'
    by (induction ds) (auto simp: CreateProvisioningToken_def Let_def split: option.splits sum.splits provision_error.splits if_splits)
  show ?thesis using assms that
    by (auto simp: CreateProvision_def CreateAgentProvision_def Let_def split: if_splits option.splits prod.splits sum.splits dest!: loop)
qed

lemma tokens_ok_add:
  assumes "tokens_ok issued given rows" "pt_Token t \<notin> fst ` set issued" "pt_RedeemedAt t = None" "violated t rows = []"
    "ident ` set given \<subseteq> set issued"
  shows "tokens_ok (ident t # issued) given (rows @ [t])"
proof -
  have "pt_Token ` set given \<subseteq> fst ` set issued" using assms(5) by (force simp: ident_def)
  then have "pt_Token t \<notin> pt_Token ` set given" using assms(2) by blast
  moreover have "pt_Token t \<notin> pt_Token ` set rows" using assms(1,2) by (auto simp: tokens_ok_def)
  moreover have "pt_MachineID t \<notin> pt_MachineID ` set (filter (\<lambda>t. pt_RedeemedAt t = None) rows)"
    using assms(3,4) by (auto simp: violated_def list_ex_iff split: if_splits)
  ultimately show ?thesis using assms(1,3) by (auto simp: tokens_ok_def ident_def)
qed

lemma redeem_ok:
  assumes "tokens_ok issued given rows" "RedeemProvisioningToken now (pt_Token t) rows = Inr rows'"
    "ident t \<in> set issued" "distinct (map fst issued)"
  shows "tokens_ok issued (t # given) rows' \<and> tokens_ok issued given rows' \<and> pt_Token t \<notin> pt_Token ` set given"
proof -
  have l: "length (filter (redeemable now (pt_Token t)) rows) = 1" and rows': "rows' = map (redeem_row now (pt_Token t)) rows"
    using assms(2) by (auto simp: RedeemProvisioningToken_def split: if_splits option.splits)
  then obtain u where u: "u \<in> set rows" "redeemable now (pt_Token t) u" by (metis (mono_tags, lifting) filter_False length_0_conv zero_neq_one)
  have tok: "map pt_Token rows' = map pt_Token rows" by (simp add: rows' redeem_row_def)
  have un: "pt_RedeemedAt (redeem_row now (pt_Token t) x) = None \<longleftrightarrow> pt_RedeemedAt x = None \<and> pt_Token x \<noteq> pt_Token t" if "x \<in> set rows" for x
    using tokens_ok_unique [OF assms(1) that u(1)] u(2) by (auto simp: redeem_row_def redeemable_def)
  have fresh: "pt_Token t \<notin> pt_Token ` set given" using assms(1) u by (auto simp: tokens_ok_def redeemable_def)
  have "filter (\<lambda>t. pt_RedeemedAt t = None) rows' = filter (\<lambda>x. pt_RedeemedAt x = None \<and> pt_Token x \<noteq> pt_Token t) rows"
    using un unfolding rows' filter_map comp_def
    by (induction rows) (auto simp: redeem_row_def redeemable_def)
  then have m: "distinct (map pt_MachineID (filter (\<lambda>t. pt_RedeemedAt t = None) rows'))"
    using assms(1) distinct_map_filter [of pt_MachineID "filter (\<lambda>t. pt_RedeemedAt t = None) rows" "\<lambda>x. pt_Token x \<noteq> pt_Token t"]
    by (simp add: tokens_ok_def conj_commute)
  have rows: "pt_Token x \<in> fst ` set issued \<and> (if pt_RedeemedAt x = None
      then ident x \<in> set issued \<and> pt_Token x \<notin> pt_Token ` set (t # given) else pt_AgentKeyPEM x = [])" if x: "x \<in> set rows'" for x
  proof -
    obtain y where y: "y \<in> set rows" "x = redeem_row now (pt_Token t) y" using x unfolding rows' by auto
    have oky: "pt_Token y \<in> fst ` set issued" "if pt_RedeemedAt y = None then ident y \<in> set issued \<and> pt_Token y \<notin> pt_Token ` set given
        else pt_AgentKeyPEM y = []" using assms(1) y(1) by (auto simp: tokens_ok_def)
    show ?thesis
    proof (cases "redeemable now (pt_Token t) y")
      case True
      then show ?thesis using oky y(2) by (simp add: redeem_row_def)
    next
      case False
      then have "x = y" using y(2) by (simp add: redeem_row_def)
      then show ?thesis using oky un [OF y(1)] y(2) by auto
    qed
  qed
  moreover have "distinct (map pt_Token rows')" using assms(1) unfolding tok tokens_ok_def by blast
  ultimately have ok: "tokens_ok issued (t # given) rows'" using m unfolding tokens_ok_def by blast
  then show ?thesis using fresh tokens_ok_weaken [of issued "[t]" given rows'] by simp
qed

lemma redeem_request_ok:
  assumes "tokens_ok issued given rows" "redeem_request now renders (script, t) rows = (r, rows')"
    "ident t \<in> set issued" "distinct (map fst issued)"
  shows "tokens_ok issued (given_by r @ given) rows' \<and> (given_by r = [] \<or> (given_by r = [t] \<and> pt_Token t \<notin> pt_Token ` set given))"
proof (cases "RedeemProvisioningToken now (pt_Token t) rows")
  case (Inl e)
  then have "rows' = rows" "given_by r = []"
    using assms(2) by (auto simp: redeem_request_def ServeScript_redeem_def JoinByCode_redeem_def given_by_def split: if_splits)
  then show ?thesis using assms(1) by simp
next
  case (Inr rows'')
  then have "rows' = rows''" "given_by r = [] \<or> given_by r = [t]"
    using assms(2) by (auto simp: redeem_request_def ServeScript_redeem_def JoinByCode_redeem_def given_by_def split: if_splits)
  then show ?thesis using redeem_ok [OF assms(1) Inr assms(3,4)] by auto
qed

lemma found_in_rows:
  "ServeScript_find now i rows = Inr t \<Longrightarrow> t \<in> set rows \<and> pt_RedeemedAt t = None"
  "JoinByCode_find now req rows = Inr t \<Longrightarrow> t \<in> set rows \<and> pt_RedeemedAt t = None"
  by (auto simp: ServeScript_find_def JoinByCode_find_def GetProvisioningToken_def GetProvisioningTokenByCode_def check_token_def
      find_Some_iff split: sum.splits option.splits if_splits)

lemma prov_step_inv:
  assumes "prov_step s s'" "prov_inv s"
  shows "prov_inv s'"
  using assms(1)
proof cases
  case (create env claims req r rows)
  from create(3) show ?thesis
  proof (cases rule: CreateProvision_rows)
    case 1
    then show ?thesis using assms(2) create(1) by (simp add: prov_inv_def)
  next
    case (2 t)
    then have "tokens_ok (ident t # pv_issued s) (pv_given s) rows"
      using assms(2) create(2) by (simp add: prov_inv_def tokens_ok_add)
    then show ?thesis using assms(2) create(1,2) 2(1,2) by (auto simp: prov_inv_def ident_def)
  qed
next
  case (find_script now i t)
  then show ?thesis using assms(2) found_in_rows(1) [OF find_script(2)] by (auto simp: prov_inv_def tokens_ok_def)
next
  case (find_code now req t)
  then show ?thesis using assms(2) found_in_rows(2) [OF find_code(2)] by (auto simp: prov_inv_def tokens_ok_def)
next
  case (redeem k now renders r rows)
  obtain script t where k: "pv_found s ! k = (script, t)" by (cases "pv_found s ! k")
  have "(script, t) \<in> set (pv_found s)" using nth_mem [OF redeem(2)] k by simp
  then have t: "ident t \<in> set (pv_issued s)" using assms(2) by (force simp: prov_inv_def)
  have "tokens_ok (pv_issued s) (pv_given s) (pv_tokens s)" "distinct (map fst (pv_issued s))" using assms(2) by (simp_all add: prov_inv_def)
  note ok = redeem_request_ok [OF this(1) redeem(3) [unfolded k] t this(2)]
  have "set (take k (pv_found s) @ drop (Suc k) (pv_found s)) \<subseteq> set (pv_found s)" by (auto dest: in_set_takeD in_set_dropD)
  then have "ident ` snd ` set (take k (pv_found s) @ drop (Suc k) (pv_found s)) \<subseteq> set (pv_issued s)"
    using assms(2) unfolding prov_inv_def by blast
  then show ?thesis using ok t assms(2) redeem(1) by (auto simp: prov_inv_def)
next
  case (revoke claims i r rows)
  then have "\<exists>P. rows = filter P (pv_tokens s)"
    by (auto simp: ph_RevokeToken_def RevokeProvisioningToken_def split: if_splits intro: exI [of _ "\<lambda>_. True"])
  then show ?thesis using assms(2) revoke(1) tokens_ok_filter by (auto simp: prov_inv_def)
next
  case (clean now n rows)
  then show ?thesis using assms(2) by (auto simp: prov_inv_def CleanExpiredProvisioningTokens_def tokens_ok_filter)
qed

interpretation provisioning: invariant_system prov_init prov_step prov_inv
proof
  show "prov_inv s" if "prov_init s" for s using that by (simp add: prov_init_def prov_inv_def tokens_ok_def)
  show "prov_inv t" if "prov_inv s" "prov_step s t" for s t by (rule prov_step_inv [OF that(2,1)])
qed

text \<open>C23. A private key leaves the server at most once: in every interleaving of requests, of each token the keys are
  sent in at most one reply, that reply has the machine and the key the token was created for, a
  redeemed row keeps no key, and no machine has two tokens that can be redeemed.\<close>

theorem keys_given_once:
  assumes "prov_reachable s"
  shows "distinct (map pt_Token (pv_given s)) \<and> list_all (\<lambda>g. ident g \<in> set (pv_issued s)) (pv_given s) \<and>
    distinct (map fst (pv_issued s)) \<and>
    list_all (\<lambda>t. pt_RedeemedAt t = None \<or> pt_AgentKeyPEM t = []) (pv_tokens s) \<and>
    distinct (map pt_MachineID (filter (\<lambda>t. pt_RedeemedAt t = None) (pv_tokens s)))"
  using provisioning.reachable_inv [OF assms] unfolding prov_inv_def tokens_ok_def list_all_iff by (auto split: if_splits)

section \<open>Examples\<close>

definition prov_env :: "time \<Rightarrow> string \<Rightarrow> provision_env" where
  "prov_env now i = \<lparr>pe_now = now, pe_tokenID = i, pe_draws = (\<lambda>_. Some (if i = ''t1'' then [0, 1, 2, 3, 4, 5] else [6, 7, 8, 9, 10, 11])), pe_pick = hd,
     pe_issue = (\<lambda>cn. Some (''cert'', ''key'')), pe_ca = Some ''ca'', pe_machines = [], pe_httpAddress = ''https://s'', pe_grpcAddress = ''s:9''\<rparr>"

definition root :: "UserClaims option" where
  "root = Some \<lparr>uc_UserID = ''r'', uc_Role = ''admin''\<rparr>"

definition rows_m :: "ProvisioningToken list" where
  "rows_m = snd (CreateProvision (prov_env 1 ''t1'') root (Some (''m'', [], [])) [])"

lemma created_row: "map (\<lambda>t. (pt_Token t, pt_ShortCode t, pt_MachineID t, pt_AgentKeyPEM t, pt_RedeemedAt t, pt_ExpiresAt t)) rows_m =
    [(''t1'', ''ABCDEF'', ''m'', ''key'', None, 1 + hour)]"
  by code_simp

text \<open>A token that has expired blocks its machine: the check of the handler lets the request pass, the index refuses the row.
  Nothing calls \<open>CleanExpiredProvisioningTokens\<close>.\<close>

lemma expired_token_blocks:
  "fst (CreateProvision (prov_env (2 + hour) ''t2'') root (Some (''m'', [], [])) rows_m) = PError 409 \<and>
   \<not> HasActiveProvisioningToken (2 + hour) ''m'' rows_m"
  by code_simp

text \<open>Two joins with one code at the same time: both find the token, one is given the keys.\<close>

definition race0 :: prov_sys where
  "race0 = \<lparr>pv_tokens = rows_m, pv_found = [], pv_issued = map ident rows_m, pv_given = []\<rparr>"

definition race1 :: prov_sys where
  "race1 = race0\<lparr>pv_found := [(False, hd rows_m), (False, hd rows_m)]\<rparr>"

definition race2 :: prov_sys where
  "race2 = race1\<lparr>pv_tokens := map (redeem_row 2 ''t1'') rows_m, pv_found := [], pv_given := rows_m\<rparr>"

lemma race_reachable: "prov_reachable race2"
proof -
  let ?s0 = "\<lparr>pv_tokens = [], pv_found = [], pv_issued = [], pv_given = []\<rparr>"
  have "prov_step ?s0 race0"
    using prov_step.create [of "prov_env 1 ''t1''" ?s0 root "Some (''m'', [], [])" _ rows_m] by (simp add: race0_def rows_m_def prod_eq_iff)
  then have r0: "prov_reachable race0" by (rule reach_step [OF reach_init, rotated]) (simp add: prov_init_def)
  have f: "JoinByCode_find 2 (Some ''ABCDEF'') rows_m = Inr (hd rows_m)" by code_simp
  define s1 where "s1 = race0\<lparr>pv_found := [(False, hd rows_m)]\<rparr>"
  have "prov_step race0 s1" using prov_step.find_code [of 2 "Some ''ABCDEF''" race0 "hd rows_m"] f by (simp add: race0_def s1_def)
  then have r1: "prov_reachable s1" by (rule reach_step [OF r0])
  have "prov_step s1 race1" using prov_step.find_code [of 2 "Some ''ABCDEF''" s1 "hd rows_m"] f by (simp add: race0_def s1_def race1_def)
  then have r2: "prov_reachable race1" by (rule reach_step [OF r1])
  have a: "JoinByCode_redeem 2 (hd rows_m) rows_m = (PKeys (hd rows_m), map (redeem_row 2 ''t1'') rows_m)"
    and b: "JoinByCode_redeem 2 (hd rows_m) (map (redeem_row 2 ''t1'') rows_m) = (PError 404, map (redeem_row 2 ''t1'') rows_m)"
    and h: "[hd rows_m] = rows_m" by code_simp+
  define s2 where "s2 = race1\<lparr>pv_tokens := map (redeem_row 2 ''t1'') rows_m, pv_found := [(False, hd rows_m)], pv_given := rows_m\<rparr>"
  have "prov_step race1 s2"
    using prov_step.redeem [of 0 race1 2 True "PKeys (hd rows_m)" "map (redeem_row 2 ''t1'') rows_m"] a h
    by (simp add: race1_def race0_def s2_def redeem_request_def given_by_def)
  then have r3: "prov_reachable s2" by (rule reach_step [OF r2])
  have "prov_step s2 race2"
    using prov_step.redeem [of 0 s2 2 True "PError 404" "map (redeem_row 2 ''t1'') rows_m"] b
    by (simp add: race2_def race1_def race0_def s2_def redeem_request_def given_by_def)
  then show ?thesis by (rule reach_step [OF r3])
qed

theorem keys_given_once_witness:
  "map pt_AgentKeyPEM (pv_given race2) = [''key''] \<and> distinct (map pt_Token (pv_given race2)) \<and>
   list_all (\<lambda>t. pt_RedeemedAt t = None \<or> pt_AgentKeyPEM t = []) (pv_tokens race2)"
proof -
  have "map pt_AgentKeyPEM (pv_given race2) = [''key'']" by code_simp
  then show ?thesis using keys_given_once [OF race_reachable] by blast
qed

text \<open>Generated codes are accepted by the check of the join request.\<close>

lemma short_codes_valid:
  assumes "length ds = shortCodeLength" "list_all (\<lambda>d. d < length shortCodeAlphabet) ds" "GenerateShortCode (Some ds) = Some c"
  shows "ValidateShortCode c"
  using assms by (auto simp: GenerateShortCode_def ValidateShortCode_def list_all_iff)

end
