(* ===== verification/Notifications.thy ===== *)
theory Notifications
  imports Job_Store Event_Bus
begin

text \<open>
  Notifications: the tables of channels and subscriptions (\<open>store/notifications.go\<close>), the rate
  limiter (\<open>notify/ratelimit.go\<close>) and the subscriber of the event bus that sends messages
  (\<open>notify/dispatcher.go\<close>). Notifiers, renderers and the resolver of connector settings are
  arguments. A handler call is cut at the limiter: each subscription is a step of its own, so that the
  two workers of the bus subscription interleave.
\<close>

section \<open>The tables\<close>

record NotificationChannel =
  nc_ChannelID :: string
  nc_ChannelType :: string
  nc_Name :: string
  nc_Config :: string
  nc_Enabled :: bool
  nc_CreatedBy :: string
  nc_CreatedAt :: time
  nc_UpdatedAt :: time
  nc_ConnectorID :: "string option"

record NotificationSubscription =
  ns_UserID :: string
  ns_ChannelID :: string
  ns_EventType :: string

record ChannelSubscription =
  cs_ChannelID :: string
  cs_ChannelType :: string
  cs_Config :: string
  cs_ConnectorID :: "string option"

record notify_db =
  nd_channels :: "NotificationChannel list"
  nd_subs :: "NotificationSubscription list"

abbreviation channel_ids :: "notify_db \<Rightarrow> string list" where
  "channel_ids d \<equiv> map nc_ChannelID (nd_channels d)"

definition CreateNotificationChannel :: "string \<Rightarrow> time \<Rightarrow> NotificationChannel \<Rightarrow> notify_db \<Rightarrow> store_error + NotificationChannel \<times> notify_db" where
  "CreateNotificationChannel uid now ch d =
     (let ch = ch\<lparr>nc_ChannelID := uid, nc_CreatedAt := now, nc_UpdatedAt := now\<rparr>
      in if uid \<in> set (channel_ids d) then Inl ErrConstraint else Inr (ch, d\<lparr>nd_channels := nd_channels d @ [ch]\<rparr>))"

definition GetNotificationChannel :: "string \<Rightarrow> notify_db \<Rightarrow> store_error + NotificationChannel" where
  "GetNotificationChannel i d =
     (case find (\<lambda>c. nc_ChannelID c = i) (nd_channels d) of None \<Rightarrow> Inl ErrNotFound | Some c \<Rightarrow> Inr c)"

definition ListNotificationChannels :: "notify_db \<Rightarrow> NotificationChannel list" where
  "ListNotificationChannels d = sort_key (\<lambda>c. - nc_CreatedAt c) (nd_channels d)"

definition UpdateNotificationChannel :: "time \<Rightarrow> NotificationChannel \<Rightarrow> notify_db \<Rightarrow> store_error + NotificationChannel \<times> notify_db" where
  "UpdateNotificationChannel now ch d =
     (let d' = d\<lparr>nd_channels := map (\<lambda>c. if nc_ChannelID c = nc_ChannelID ch
            then c\<lparr>nc_Name := nc_Name ch, nc_Config := nc_Config ch, nc_Enabled := nc_Enabled ch, nc_UpdatedAt := now\<rparr> else c) (nd_channels d)\<rparr>
      in map_sum id (\<lambda>c. (c, d')) (GetNotificationChannel (nc_ChannelID ch) d'))"

definition DeleteNotificationChannel :: "string \<Rightarrow> notify_db \<Rightarrow> store_error + notify_db" where
  "DeleteNotificationChannel i d =
     (if i \<notin> set (channel_ids d) then Inl ErrNotFound
      else Inr (d\<lparr>nd_channels := filter (\<lambda>c. nc_ChannelID c \<noteq> i) (nd_channels d), nd_subs := filter (\<lambda>s. ns_ChannelID s \<noteq> i) (nd_subs d)\<rparr>))"

definition GetSubscriptions :: "string \<Rightarrow> notify_db \<Rightarrow> NotificationSubscription list" where
  "GetSubscriptions userID d = filter (\<lambda>s. ns_UserID s = userID) (nd_subs d)"

text \<open>The inserts of one transaction; the primary key and the foreign key may refuse one.\<close>

fun insert_subs :: "string \<Rightarrow> NotificationSubscription list \<Rightarrow> notify_db \<Rightarrow> store_error + notify_db" where
  "insert_subs userID [] d = Inr d"
| "insert_subs userID (s # ss) d =
     (let row = s\<lparr>ns_UserID := userID\<rparr>
      in if row \<in> set (nd_subs d) \<or> ns_ChannelID s \<notin> set (channel_ids d) then Inl ErrConstraint
         else insert_subs userID ss (d\<lparr>nd_subs := nd_subs d @ [row]\<rparr>))"

definition SetSubscriptions :: "string \<Rightarrow> NotificationSubscription list \<Rightarrow> notify_db \<Rightarrow> store_error + notify_db" where
  "SetSubscriptions userID subs d = insert_subs userID subs (d\<lparr>nd_subs := filter (\<lambda>s. ns_UserID s \<noteq> userID) (nd_subs d)\<rparr>)"

definition ListSubscriptionsForEvent :: "string \<Rightarrow> notify_db \<Rightarrow> ChannelSubscription list" where
  "ListSubscriptionsForEvent eventType d =
     remdups (concat (map (\<lambda>s. map (\<lambda>c. \<lparr>cs_ChannelID = nc_ChannelID c, cs_ChannelType = nc_ChannelType c, cs_Config = nc_Config c,
          cs_ConnectorID = nc_ConnectorID c\<rparr>)
        (filter (\<lambda>c. nc_ChannelID c = ns_ChannelID s \<and> nc_Enabled c) (nd_channels d)))
      (filter (\<lambda>s. ns_EventType s = eventType) (nd_subs d))))"

definition GetChannelByConnectorID :: "string \<Rightarrow> notify_db \<Rightarrow> store_error + NotificationChannel" where
  "GetChannelByConnectorID i d =
     (case find (\<lambda>c. nc_ConnectorID c = Some i) (nd_channels d) of None \<Rightarrow> Inl ErrNotFound | Some c \<Rightarrow> Inr c)"

section \<open>The rate limiter\<close>

record RateLimiter =
  rl_sent :: "(string, time) fmap"
  rl_interval :: time

definition NewRateLimiter :: "time \<Rightarrow> RateLimiter" where
  "NewRateLimiter interval = \<lparr>rl_sent = fmempty, rl_interval = interval\<rparr>"

definition limiter_key :: "string \<Rightarrow> string \<Rightarrow> string" where
  "limiter_key channelID eventType = channelID @ '':'' @ eventType"

definition evict :: "time \<Rightarrow> RateLimiter \<Rightarrow> RateLimiter" where
  "evict now rl =
     (if fcard (fmdom (rl_sent rl)) > 100
      then rl\<lparr>rl_sent := fmfilter (\<lambda>k. \<not> (case fmlookup (rl_sent rl) k of None \<Rightarrow> False | Some t \<Rightarrow> rl_interval rl \<le> now - t)) (rl_sent rl)\<rparr>
      else rl)"

definition Allow :: "time \<Rightarrow> string \<Rightarrow> string \<Rightarrow> RateLimiter \<Rightarrow> bool \<times> RateLimiter" where
  "Allow now channelID eventType rl =
     (let key = limiter_key channelID eventType; rl = evict now rl
      in if (case fmlookup (rl_sent rl) key of None \<Rightarrow> False | Some prev \<Rightarrow> now - prev < rl_interval rl) then (False, rl)
         else (True, rl\<lparr>rl_sent := fmupd key now (rl_sent rl)\<rparr>))"

section \<open>The dispatcher\<close>

text \<open>A message: the type of the channel, its settings, subject and body. \<open>dn_notifiers\<close> are the known types;
  \<open>dn_resolve\<close> is \<open>None\<close> where no resolver is set.\<close>

type_synonym message = "string \<times> string \<times> string \<times> string"

record dispatch_env =
  dn_notifiers :: "string list"
  dn_renderers :: "string \<Rightarrow> (Event \<Rightarrow> string \<times> string) option"
  dn_renderer :: "Event \<Rightarrow> string \<times> string"
  dn_resolve :: "(string \<Rightarrow> string option) option"

text \<open>What is sent to a subscription that the limiter lets through.\<close>

definition message_for :: "dispatch_env \<Rightarrow> Event \<Rightarrow> ChannelSubscription \<Rightarrow> message option" where
  "message_for env e sub =
     (if cs_ChannelType sub \<notin> set (dn_notifiers env) then None
      else let render = (case dn_renderers env (cs_ChannelType sub) of None \<Rightarrow> dn_renderer env | Some r \<Rightarrow> r);
               (subject, body) = render e;
               config = (case (cs_ConnectorID sub, dn_resolve env) of
                           (Some c, Some resolve) \<Rightarrow> if c = [] then Some (cs_Config sub) else resolve c
                         | _ \<Rightarrow> Some (cs_Config sub))
           in map_option (\<lambda>cfg. (cs_ChannelType sub, cfg, subject, body)) config)"

text \<open>One turn of the loop of the handler.\<close>

definition dispatch_one :: "dispatch_env \<Rightarrow> time \<Rightarrow> Event \<Rightarrow> ChannelSubscription \<Rightarrow> RateLimiter \<Rightarrow> message option \<times> RateLimiter" where
  "dispatch_one env now e sub rl =
     (case Allow now (cs_ChannelID sub) (ev_Type e) rl of
        (False, rl) \<Rightarrow> (None, rl)
      | (True, rl) \<Rightarrow> (message_for env e sub, rl))"

text \<open>The lines of the default renderer are sorted, so the order of the map does not matter.\<close>

definition DefaultEventRenderer :: "(any \<Rightarrow> string) \<Rightarrow> (string \<times> any) list \<Rightarrow> Event \<Rightarrow> string \<times> string" where
  "DefaultEventRenderer show_any order e =
     (let ls = sort (map (\<lambda>(k, v). k @ '': '' @ show_any v) order)
      in (ev_Type e, case ls of [] \<Rightarrow> [] | l # ls \<Rightarrow> l @ concat (map ((#) (CHR 10)) ls)))"

section \<open>The workers\<close>

definition dispatch_interval :: time where "dispatch_interval = 60 * 1000000000"

text \<open>\<open>ny_work\<close>: the handler calls under way with the subscriptions they still have to look at. \<open>ny_sent\<close> logs the
  messages sent, by channel and type of the event, newest first. The clock is read in the order in
  which the limiter is entered.\<close>

record notify_sys =
  ny_db :: notify_db
  ny_limiter :: RateLimiter
  ny_work :: "(Event \<times> ChannelSubscription list) list"
  ny_sent :: "((string \<times> string) \<times> time) list"
  ny_now :: time

inductive notify_step :: "notify_sys \<Rightarrow> notify_sys \<Rightarrow> bool" where
  event: "notify_step s (s\<lparr>ny_work := ny_work s @ [(e, ListSubscriptionsForEvent (ev_Type e) (ny_db s))]\<rparr>)"
| turn: "k < length (ny_work s) \<Longrightarrow> ny_work s ! k = (e, sub # subs) \<Longrightarrow> ny_now s \<le> now \<Longrightarrow>
    dispatch_one env now e sub (ny_limiter s) = (m, rl) \<Longrightarrow>
    notify_step s (s\<lparr>ny_limiter := rl, ny_work := (ny_work s)[k := (e, subs)], ny_now := now,
      ny_sent := (if m = None then ny_sent s else ((cs_ChannelID sub, ev_Type e), now) # ny_sent s)\<rparr>)"
| change: "notify_step s (s\<lparr>ny_db := d\<rparr>)"

definition notify_init :: "notify_sys \<Rightarrow> bool" where
  "notify_init s \<longleftrightarrow> ny_limiter s = NewRateLimiter dispatch_interval \<and> ny_work s = [] \<and> ny_sent s = []"

interpretation limiter: expiring_memory "\<lambda>rl. fmlookup (rl_sent rl)" "\<lambda>now k rl. rl\<lparr>rl_sent := fmupd k now (rl_sent rl)\<rparr>" dispatch_interval
  by unfold_locales simp

definition keyed :: "((string \<times> string) \<times> time) list \<Rightarrow> (string \<times> time) list" where
  "keyed log = map (\<lambda>((c, ty), t). (limiter_key c ty, t)) log"

lemma spaced_keyed: "spaced gap (keyed log) \<Longrightarrow> spaced gap log"
  by (induction log) (auto simp: keyed_def list_all_iff)

definition limiter_ok :: "((string \<times> string) \<times> time) list \<Rightarrow> time \<Rightarrow> RateLimiter \<Rightarrow> bool" where
  "limiter_ok log now rl \<longleftrightarrow> rl_interval rl = dispatch_interval \<and> remembers dispatch_interval (keyed log) now (fmlookup (rl_sent rl))"

lemma evict_ok:
  assumes "limiter_ok log now rl"
  shows "limiter_ok log now (evict now rl)"
proof -
  have "fmlookup (rl_sent (evict now rl)) k = fmlookup (rl_sent rl) k \<or>
      (\<exists>t. fmlookup (rl_sent rl) k = Some t \<and> t + dispatch_interval \<le> now)" for k
    using assms by (cases "fmlookup (rl_sent rl) k") (auto simp: evict_def limiter_ok_def)
  then show ?thesis using assms limiter.remembers_forget [of "keyed log" now rl "evict now rl"] by (auto simp: limiter_ok_def evict_def)
qed

lemma Allow_ok:
  assumes "limiter_ok log now rl" "Allow now c ty rl = (ok, rl')"
  shows "limiter_ok log now rl'" "ok \<Longrightarrow> limiter_ok (((c, ty), now) # log) now rl'"
proof -
  define r where "r = evict now rl"
  define k where "k = limiter_key c ty"
  have r: "limiter_ok log now r" using evict_ok [OF assms(1)] by (simp add: r_def)
  have A: "Allow now c ty rl = (if (case fmlookup (rl_sent r) k of None \<Rightarrow> False | Some prev \<Rightarrow> now - prev < rl_interval r)
      then (False, r) else (True, r\<lparr>rl_sent := fmupd k now (rl_sent r)\<rparr>))" unfolding Allow_def Let_def r_def k_def ..
  show "limiter_ok log now rl'" using r assms(2) limiter.remembers_mark [of "keyed log" now r k]
    unfolding A by (auto simp: limiter_ok_def split: if_splits)
  assume ok
  then have "rl' = r\<lparr>rl_sent := fmupd k now (rl_sent r)\<rparr>" "\<And>t. fmlookup (rl_sent r) k = Some t \<Longrightarrow> t + dispatch_interval \<le> now"
    using assms(2) r unfolding A by (auto simp: limiter_ok_def split: if_splits option.splits)
  then show "limiter_ok (((c, ty), now) # log) now rl'"
    using r limiter.remembers_log [of "keyed log" now r k] by (simp add: limiter_ok_def keyed_def k_def)
qed

lemma dispatch_ok:
  assumes "limiter_ok log now rl" "dispatch_one env now e sub rl = (m, rl')"
  shows "limiter_ok (if m = None then log else ((cs_ChannelID sub, ev_Type e), now) # log) now rl'"
proof -
  obtain ok where a: "Allow now (cs_ChannelID sub) (ev_Type e) rl = (ok, rl')" "m \<noteq> None \<Longrightarrow> ok"
    using assms(2) by (auto simp: dispatch_one_def split: prod.splits bool.splits)
  then show ?thesis using Allow_ok [OF assms(1) a(1)] by auto
qed

interpretation notifications: invariant_system notify_init notify_step "\<lambda>s. limiter_ok (ny_sent s) (ny_now s) (ny_limiter s)"
proof
  show "limiter_ok (ny_sent s) (ny_now s) (ny_limiter s)" if "notify_init s" for s
    using that by (simp add: notify_init_def limiter_ok_def NewRateLimiter_def keyed_def)
  fix s t assume inv: "limiter_ok (ny_sent s) (ny_now s) (ny_limiter s)" and "notify_step s t"
  from this(2) show "limiter_ok (ny_sent t) (ny_now t) (ny_limiter t)"
  proof cases
    case (turn k e sub subs now env m rl)
    have "limiter_ok (ny_sent s) now (ny_limiter s)" using inv remembers_later turn(4) by (auto simp: limiter_ok_def)
    from dispatch_ok [OF this turn(5)] show ?thesis using turn(1) by simp
  qed (use inv in simp_all)
qed


text \<open>Only enabled channels with a subscription to the type of the event are considered.\<close>

lemma subscriptions_listed:
  "sub \<in> set (ListSubscriptionsForEvent ty d) \<longleftrightarrow>
   (\<exists>c s. c \<in> set (nd_channels d) \<and> nc_Enabled c \<and> s \<in> set (nd_subs d) \<and> ns_EventType s = ty \<and> ns_ChannelID s = nc_ChannelID c \<and>
     sub = \<lparr>cs_ChannelID = nc_ChannelID c, cs_ChannelType = nc_ChannelType c, cs_Config = nc_Config c, cs_ConnectorID = nc_ConnectorID c\<rparr>)"
  unfolding ListSubscriptionsForEvent_def by (auto; metis)

section \<open>Examples\<close>

definition dnenv :: dispatch_env where
  "dnenv = \<lparr>dn_notifiers = [''email''], dn_renderers = (\<lambda>_. None), dn_renderer = (\<lambda>e. (ev_Type e, [])), dn_resolve = None\<rparr>"

definition mail_channel :: NotificationChannel where
  "mail_channel = \<lparr>nc_ChannelID = ''c'', nc_ChannelType = ''email'', nc_Name = [], nc_Config = ''{}'', nc_Enabled = True, nc_CreatedBy = [],
     nc_CreatedAt = 0, nc_UpdatedAt = 0, nc_ConnectorID = None\<rparr>"

definition mail_db :: notify_db where
  "mail_db = \<lparr>nd_channels = [mail_channel], nd_subs = [\<lparr>ns_UserID = ''u'', ns_ChannelID = ''c'', ns_EventType = ''run.failed''\<rparr>]\<rparr>"

definition failed_run :: Event where
  "failed_run = \<lparr>ev_EventID = ''e'', ev_Type = ''run.failed'', ev_Timestamp = 0, ev_Source = [], ev_Payload = fmempty\<rparr>"

definition ny0 :: notify_sys where
  "ny0 = \<lparr>ny_db = mail_db, ny_limiter = NewRateLimiter dispatch_interval, ny_work = [], ny_sent = [], ny_now = 0\<rparr>"

definition mail_sub :: ChannelSubscription where
  "mail_sub = \<lparr>cs_ChannelID = ''c'', cs_ChannelType = ''email'', cs_Config = ''{}'', cs_ConnectorID = None\<rparr>"

lemmas notify_simps = dnenv_def mail_sub_def failed_run_def dispatch_one_def Allow_def evict_def limiter_key_def NewRateLimiter_def
  message_for_def dispatch_interval_def Let_def fcard_finsert_disjoint fcard_fempty

lemma mail_subs: "ListSubscriptionsForEvent (ev_Type failed_run) mail_db = [mail_sub]"
  by (simp add: ListSubscriptionsForEvent_def mail_db_def mail_channel_def mail_sub_def failed_run_def)

text \<open>The event comes twice within a minute and once later: two messages.\<close>

definition ny1 :: notify_sys where
  "ny1 = ny0\<lparr>ny_work := [(failed_run, []), (failed_run, []), (failed_run, [])], ny_now := 70000000000,
     ny_limiter := \<lparr>rl_sent = fmupd ''c:run.failed'' 70000000000 (fmupd ''c:run.failed'' 5 fmempty), rl_interval = dispatch_interval\<rparr>,
     ny_sent := [((''c'', ''run.failed''), 70000000000), ((''c'', ''run.failed''), 5)]\<rparr>"

lemma reach_turn:
  assumes "reachable notify_init notify_step s" "k < length (ny_work s)" "ny_work s ! k = (e, sub # subs)" "ny_now s \<le> now"
    "dispatch_one env now e sub (ny_limiter s) = (m, rl)"
    "s' = s\<lparr>ny_limiter := rl, ny_work := (ny_work s)[k := (e, subs)], ny_now := now,
      ny_sent := (if m = None then ny_sent s else ((cs_ChannelID sub, ev_Type e), now) # ny_sent s)\<rparr>"
  shows "reachable notify_init notify_step s'"
  unfolding assms(6) by (rule reach_step [OF assms(1) notify_step.turn [OF assms(2-5)]])

lemma ny1_reachable: "reachable notify_init notify_step ny1"
proof -
  let ?w = "(failed_run, [mail_sub])" and ?d = "(failed_run, [])"
  have i: "reachable notify_init notify_step ny0" by (rule reach_init) (simp add: notify_init_def ny0_def)
  have e: "reachable notify_init notify_step (ny0\<lparr>ny_work := ws @ [?w]\<rparr>)" if "reachable notify_init notify_step (ny0\<lparr>ny_work := ws\<rparr>)" for ws
    using reach_step [OF that, OF notify_step.event [of _ failed_run]] by (simp add: mail_subs ny0_def)
  have "reachable notify_init notify_step (ny0\<lparr>ny_work := [?w, ?w, ?w]\<rparr>)"
    using e [OF e [OF e [of "[]"]]] i by (simp add: ny0_def)
  then have 3: "reachable notify_init notify_step (ny0\<lparr>ny_work := [?w, ?w, ?w]\<rparr>)" .
  define l1 where "l1 = \<lparr>rl_sent = fmupd ''c:run.failed'' 5 fmempty, rl_interval = dispatch_interval\<rparr>"
  define l2 where "l2 = \<lparr>rl_sent = fmupd ''c:run.failed'' 70000000000 (rl_sent l1), rl_interval = dispatch_interval\<rparr>"
  define m where "m = (''email'', ''{}'', ''run.failed'', [] :: string)"
  have d: "dispatch_one dnenv 5 failed_run mail_sub (NewRateLimiter dispatch_interval) = (Some m, l1)"
    "dispatch_one dnenv 6 failed_run mail_sub l1 = (None, l1)"
    "dispatch_one dnenv 70000000000 failed_run mail_sub l1 = (Some m, l2)"
    by (simp_all add: notify_simps ny0_def l1_def l2_def m_def)
  let ?k = "(''c'', ''run.failed'')"
  have 4: "reachable notify_init notify_step (ny0\<lparr>ny_work := [?d, ?w, ?w], ny_limiter := l1, ny_now := 5, ny_sent := [(?k, 5)]\<rparr>)"
    by (rule reach_turn [OF 3, where k = 0 and env = dnenv and e = failed_run and sub = mail_sub and subs = "[]" and now = 5 and m = "Some m" and rl = l1]) (simp_all add: ny0_def d, simp add: failed_run_def mail_sub_def)
  have 5: "reachable notify_init notify_step (ny0\<lparr>ny_work := [?d, ?d, ?w], ny_limiter := l1, ny_now := 6, ny_sent := [(?k, 5)]\<rparr>)"
    by (rule reach_turn [OF 4, where k = 1 and env = dnenv and e = failed_run and sub = mail_sub and subs = "[]" and now = 6 and m = "None" and rl = l1]) (simp_all add: ny0_def d)
  show ?thesis unfolding ny1_def
    by (rule reach_turn [OF 5, where k = 2 and env = dnenv and e = failed_run and sub = mail_sub and subs = "[]" and now = 70000000000 and m = "Some m" and rl = l2]) (simp_all add: ny0_def d, simp add: l2_def l1_def failed_run_def mail_sub_def)
qed


text \<open>A message that cannot be sent uses up the slot of its channel: the settings of the connector cannot be read,
  and the next event of the type is held back all the same.\<close>

lemma lost_message_blocks:
  assumes "cs_ConnectorID sub = Some c" "c \<noteq> []" "dn_resolve env = Some (\<lambda>_. None)"
  shows "case dispatch_one env 5 e sub (NewRateLimiter dispatch_interval) of (m, rl) \<Rightarrow>
     m = None \<and> fst (Allow 6 (cs_ChannelID sub) (ev_Type e) rl) = False"
  using assms by (simp add: notify_simps split: prod.splits)

end
