(* ===== verification/Machine_Api.thy ===== *)
theory Machine_Api
  imports Agent_Service
begin

text \<open>
  Machines over the REST API (\<open>api/machine_handler.go\<close>) with the rest of
  \<open>store/machines.go\<close>: listing, renaming, deleting and browsing directories. The columns
  \<open>created_at\<close>, \<open>last_health\<close> and \<open>cert_expires_at\<close>, which no condition reads, are left out. The
  caller is given by the role of its claims, \<open>None\<close> without claims; a body is \<open>None\<close> when it cannot be
  decoded.
\<close>

section \<open>The table\<close>

definition db_GetMachine :: "string \<Rightarrow> machines \<Rightarrow> machine_row option" where
  "db_GetMachine machineID t =
     (case fmlookup t machineID of None \<Rightarrow> None | Some r \<Rightarrow> if mc_deleted r then None else Some r)"

definition db_ListMachines :: "machines \<Rightarrow> (string \<times> machine_row) list" where
  "db_ListMachines t =
     map (\<lambda>m. (m, the (fmlookup t m))) (sorted_list_of_fset (ffilter (\<lambda>m. db_GetMachine m t \<noteq> None) (fmdom t)))"

definition UpdateMachineDisplayName :: "string \<Rightarrow> string \<Rightarrow> machines \<Rightarrow> machines option" where
  "UpdateMachineDisplayName machineID displayName t =
     (case fmlookup t machineID of
        None \<Rightarrow> None
      | Some r \<Rightarrow> Some (fmupd machineID (r\<lparr>mc_display_name := Some displayName\<rparr>) t))"

definition SoftDeleteMachine :: "string \<Rightarrow> machines \<Rightarrow> machines option" where
  "SoftDeleteMachine machineID t =
     (case fmlookup t machineID of
        None \<Rightarrow> None
      | Some r \<Rightarrow> if mc_deleted r then None else Some (fmupd machineID (r\<lparr>mc_deleted := True\<rparr>) t))"

section \<open>The handlers\<close>

record machineResponse =
  mr_MachineID :: string
  mr_DisplayName :: string
  mr_Status :: string
  mr_MaxSessions :: int
  mr_HomeDir :: string
  mr_LastSeenAt :: "time option"
  mr_Health :: "HealthInfo option"

datatype machine_reply =
    MError int
  | MMachine machineResponse
  | MMachines "machineResponse list"
  | MNoContent
  | MDirectory string string "(string \<times> string) list"

definition buildMachineResponse :: "time \<Rightarrow> ConnectionManager \<Rightarrow> string \<times> machine_row \<Rightarrow> machineResponse" where
  "buildMachineResponse now cm mr =
     (case mr of (m, r) \<Rightarrow>
        let resp = \<lparr>mr_MachineID = m, mr_DisplayName = (case mc_display_name r of None \<Rightarrow> [] | Some n \<Rightarrow> n), mr_Status = mc_status r,
                    mr_MaxSessions = mc_max_sessions r, mr_HomeDir = mc_home_dir r, mr_LastSeenAt = mc_last_seen_at r, mr_Health = None\<rparr>
        in case GetAgent m cm of
             None \<Rightarrow> resp
           | Some agent \<Rightarrow> resp\<lparr>mr_Status := ''connected'', mr_LastSeenAt := Some now, mr_Health := ag_health agent\<rparr>)"

definition api_ListMachines :: "time \<Rightarrow> ConnectionManager \<Rightarrow> machine_reply" where
  "api_ListMachines now cm = MMachines (map (buildMachineResponse now cm) (db_ListMachines (cm_machines cm)))"

definition api_GetMachine :: "time \<Rightarrow> string \<Rightarrow> ConnectionManager \<Rightarrow> machine_reply" where
  "api_GetMachine now machineID cm =
     (case db_GetMachine machineID (cm_machines cm) of
        None \<Rightarrow> MError 404
      | Some r \<Rightarrow> MMachine (buildMachineResponse now cm (machineID, r)))"

definition UpdateMachine :: "time \<Rightarrow> string option \<Rightarrow> string \<Rightarrow> string option option \<Rightarrow> ConnectionManager \<Rightarrow> machine_reply \<times> ConnectionManager" where
  "UpdateMachine now role machineID req cm =
     (if role \<noteq> Some ''admin'' then (MError 403, cm)
      else case req of
             None \<Rightarrow> (MError 400, cm)
           | Some None \<Rightarrow> (MError 400, cm)
           | Some (Some name) \<Rightarrow>
               (let trimmed = TrimSpace name
                in if trimmed = [] \<or> 255 < length trimmed then (MError 400, cm)
                   else case UpdateMachineDisplayName machineID trimmed (cm_machines cm) of
                          None \<Rightarrow> (MError 404, cm)
                        | Some t \<Rightarrow>
                            (case db_GetMachine machineID t of
                               None \<Rightarrow> MError 500
                             | Some r \<Rightarrow> MMachine (buildMachineResponse now (cm\<lparr>cm_machines := t\<rparr>) (machineID, r)),
                             cm\<lparr>cm_machines := t\<rparr>)))"

text \<open>Deleting, in two parts: the look at the connections, which answers with an error or goes on, and the change of the table.\<close>

definition delete_check :: "string option \<Rightarrow> string \<Rightarrow> ConnectionManager \<Rightarrow> machine_reply option" where
  "delete_check role machineID cm =
     (if role \<noteq> Some ''admin'' then Some (MError 403)
      else if GetAgent machineID cm \<noteq> None then Some (MError 409) else None)"

definition delete_store :: "string \<Rightarrow> ConnectionManager \<Rightarrow> machine_reply \<times> ConnectionManager" where
  "delete_store machineID cm =
     (case SoftDeleteMachine machineID (cm_machines cm) of
        None \<Rightarrow> (MError 404, cm)
      | Some t \<Rightarrow> (MNoContent, cm\<lparr>cm_machines := t\<rparr>))"

definition DeleteMachine :: "string option \<Rightarrow> string \<Rightarrow> ConnectionManager \<Rightarrow> machine_reply \<times> ConnectionManager" where
  "DeleteMachine role machineID cm =
     (case delete_check role machineID cm of Some e \<Rightarrow> (e, cm) | None \<Rightarrow> delete_store machineID cm)"

text \<open>Browsing a directory up to the wait: the command to the agent, or an answer. \<open>sent\<close> says whether the command could be sent,
  \<open>ch\<close> is the new channel of the request.\<close>

definition BrowseDirectory_start :: "string option \<Rightarrow> bool \<Rightarrow> bool \<Rightarrow> nat \<Rightarrow> string \<Rightarrow> string \<Rightarrow> string \<Rightarrow> ConnectionManager \<Rightarrow> RequestBroker \<Rightarrow>
    (machine_reply + string \<times> string) \<times> RequestBroker" where
  "BrowseDirectory_start role has_broker sent ch requestID machineID path cm b =
     (if role \<noteq> Some ''admin'' then (Inl (MError 403), b)
      else if GetAgent machineID cm = None then (Inl (MError 404), b)
      else if \<not> has_broker then (Inl (MError 503), b)
      else let dirPath = (if path \<noteq> [] then path
                          else case db_GetMachine machineID (cm_machines cm) of
                                 None \<Rightarrow> ''/''
                               | Some r \<Rightarrow> if mc_home_dir r \<noteq> [] then mc_home_dir r else ''/'');
               b = broker_Register ch requestID machineID b
           in if sent then (Inr (requestID, dirPath), b) else (Inl (MError 502), broker_Cancel requestID b))"

text \<open>The wait: a reply in the channel, ten seconds, or a client that is gone. \<open>None\<close> where the case is not ready.\<close>

datatype browse_case = Arrived | TimedOut | ClientGone

fun BrowseDirectory_wait :: "string \<Rightarrow> nat \<Rightarrow> browse_case \<Rightarrow> RequestBroker \<Rightarrow> (machine_reply option \<times> RequestBroker) option" where
  "BrowseDirectory_wait requestID ch Arrived b =
     (case getd [] (br_chans b) ch of
        [] \<Rightarrow> None
      | evt # rest \<Rightarrow>
          Some (Some (if dl_Error evt \<noteq> [] then MError 400 else MDirectory (dl_Path evt) (dl_Parent evt) (dl_Entries evt)),
            b\<lparr>br_chans := fmupd ch rest (br_chans b)\<rparr>))"
| "BrowseDirectory_wait requestID ch TimedOut b = Some (Some (MError 504), broker_Cancel requestID b)"
| "BrowseDirectory_wait requestID ch ClientGone b = Some (None, broker_Cancel requestID b)"

section \<open>Browsing\<close>

text \<open>A reply of the machine that was asked reaches the request, whatever other machines answer in between, and no request stays
  pending.\<close>

lemma browse_answered:
  assumes "BrowseDirectory_start role True True ch requestID m path cm b = (Inr cmd, b1)" and "m' \<noteq> m"
  shows "\<exists>b2. broker_Resolve requestID m' other b1 = Some b1 \<and> broker_Resolve requestID m evt b1 = Some b2 \<and>
    (\<exists>b3. BrowseDirectory_wait requestID ch Arrived b2 =
       Some (Some (if dl_Error evt \<noteq> [] then MError 400 else MDirectory (dl_Path evt) (dl_Parent evt) (dl_Entries evt)), b3) \<and>
       fmlookup (br_pending b3) requestID = None)"
  using assms by (auto simp: BrowseDirectory_start_def broker_Register_def broker_Resolve_def Let_def getd_def split: if_splits)

lemma browse_given_up:
  assumes "BrowseDirectory_wait requestID ch c b = Some (r, b')" "c \<noteq> Arrived"
  shows "fmlookup (br_pending b') requestID = None"
  using assms by (cases c) (auto simp: broker_Cancel_def)

section \<open>Connections and requests together\<close>

text \<open>The connection manager's own steps, and the requests of administrators, one after the other.\<close>

inductive machine_step :: "ConnectionManager \<Rightarrow> ConnectionManager \<Rightarrow> bool" where
  ma_manager: "cm_step cm cm' \<Longrightarrow> machine_step cm cm'"
| ma_update: "machine_step cm (snd (UpdateMachine now role m req cm))"
| ma_delete: "machine_step cm (snd (DeleteMachine role m cm))"

definition on_list :: "string \<Rightarrow> machines \<Rightarrow> bool" where
  "on_list m t \<longleftrightarrow> db_GetMachine m t \<noteq> None"

definition shown :: "ConnectionManager \<Rightarrow> bool" where
  "shown cm \<longleftrightarrow> (\<forall>m. fmlookup (cm_agents cm) m \<noteq> None \<longrightarrow> on_list m (cm_machines cm))"

definition machine_inv :: "ConnectionManager \<Rightarrow> bool" where
  "machine_inv cm \<longleftrightarrow> cm_inv cm \<and> shown cm"

lemma UpdateMachineStatus_shown:
  "UpdateMachineStatus up m st now t = Some t' \<Longrightarrow> on_list k t' \<longleftrightarrow> on_list k t"
  by (auto simp: on_list_def UpdateMachineStatus_def db_GetMachine_def split: if_splits option.splits)

lemma UpsertMachine_shown:
  "UpsertMachine up m s h t = Some t' \<Longrightarrow> on_list k t' \<longleftrightarrow> k = m \<or> on_list k t"
  by (auto simp: on_list_def UpsertMachine_def db_GetMachine_def split: if_splits option.splits)

lemma mark_disconnected_shown:
  "on_list k (cm_machines (mark_disconnected up now m cm)) \<longleftrightarrow> on_list k (cm_machines cm)"
  by (auto simp: mark_disconnected_def UpdateMachineStatus_shown split: option.splits)

lemma Register_shown:
  assumes "shown cm" shows "shown (snd (Register True True now m p agent cm))"
  using assms
  by (auto simp: shown_def Register_def reg_persist_def reg_insert_def remove_if_def Let_def UpsertMachine_shown UpdateMachineStatus_shown
      split: option.splits if_splits)

lemma removed_shown:
  assumes "shown cm" shows "shown (mark_disconnected up now m (cm\<lparr>cm_agents := fmdrop k (cm_agents cm)\<rparr>))"
  using assms by (auto simp: shown_def mark_disconnected_shown)

lemma shown_frames [simp]:
  "shown (scheduleDisconnectEvent m cm) = shown cm" "shown (cm_publishEvent e m cm) = shown cm"
  "shown (cm\<lparr>cm_heap := h\<rparr>) = shown cm" "shown (cm\<lparr>cm_armed := a\<rparr>) = shown cm" "shown (cm\<lparr>cm_pending := q\<rparr>) = shown cm"
  by (simp_all add: shown_def)

lemma sweep_one_shown: "shown cm \<Longrightarrow> shown (sweep_one up now p cm)"
  by (auto simp: sweep_one_def remove_if_def shown_def mark_disconnected_shown split: option.splits)

lemma cm_step_shown: "cm_step cm cm' \<Longrightarrow> shown cm \<Longrightarrow> shown cm'"
proof (induction rule: cm_step.induct)
  case (cm_sweep cm now order)
  have "shown cm \<Longrightarrow> shown (fold (sweep_one True now) ps cm)" for ps
    by (induction ps arbitrary: cm) (simp_all add: sweep_one_shown)
  then show ?case using cm_sweep by (simp add: sweepStaleAgents_def)
next
  case (cm_health cm p h)
  then show ?case by (simp add: UpdateHealth_def split: option.splits)
next
  case (cm_timer t cm m cm')
  then show ?case by (auto simp: fire_timer_def disconnect_callback_def split: option.splits)
next
  case (cm_close cm now m p)
  then show ?case by (simp add: DisconnectIfMatch_def remove_if_def removed_shown)
qed (simp_all add: Register_shown Disconnect_def removed_shown)

text \<open>A request changes rows, not what they say about the connection.\<close>

lemma row_update_inv:
  assumes "cm_inv cm" "fmlookup (cm_machines cm) m = Some r" "mc_status r' = mc_status r"
  shows "cm_inv (cm\<lparr>cm_machines := fmupd m r' (cm_machines cm)\<rparr>)"
proof -
  have "db_connected k (cm\<lparr>cm_machines := fmupd m r' (cm_machines cm)\<rparr>) = db_connected k cm" for k
    using assms(2,3) by (auto simp: db_connected_def)
  then show ?thesis using assms(1) by (simp add: cm_inv_def)
qed

lemma UpdateMachineDisplayName_on_list: "UpdateMachineDisplayName m n t = Some t' \<Longrightarrow> on_list k t' \<longleftrightarrow> on_list k t"
  by (auto simp: on_list_def UpdateMachineDisplayName_def db_GetMachine_def split: option.splits if_splits)

lemma registered_agent: "cm_inv cm \<Longrightarrow> GetAgent m cm = None \<longleftrightarrow> fmlookup (cm_agents cm) m = None"
  by (fastforce simp: GetAgent_def cm_inv_def split: option.splits)

lemma UpdateMachineDisplayName_inv: "cm_inv cm \<Longrightarrow> UpdateMachineDisplayName m n (cm_machines cm) = Some t' \<Longrightarrow> cm_inv (cm\<lparr>cm_machines := t'\<rparr>)"
  by (auto simp: UpdateMachineDisplayName_def split: option.splits intro: row_update_inv)

lemma UpdateMachine_inv: "machine_inv cm \<Longrightarrow> machine_inv (snd (UpdateMachine now role m req cm))"
  by (auto simp: UpdateMachine_def machine_inv_def shown_def Let_def UpdateMachineDisplayName_on_list
      split: option.splits intro: UpdateMachineDisplayName_inv)

lemma DeleteMachine_inv: "machine_inv cm \<Longrightarrow> machine_inv (snd (DeleteMachine role m cm))"
  by (auto simp: DeleteMachine_def delete_check_def delete_store_def SoftDeleteMachine_def machine_inv_def shown_def registered_agent
      row_update_inv on_list_def db_GetMachine_def split: option.splits if_splits)

lemma ma_manager_inv: "machine_inv cm \<Longrightarrow> cm_step cm cm' \<Longrightarrow> machine_inv cm'"
  using connections.inv_step cm_step_shown by (auto simp: machine_inv_def)

interpretation machines: invariant_system cm_init machine_step machine_inv
proof
  fix cm assume "cm_init cm"
  then show "machine_inv cm"
    using connections.inv_init by (auto simp: machine_inv_def shown_def cm_init_def cm_SetPublisher_def NewConnectionManager_def)
next
  fix cm cm' assume "machine_inv cm" "machine_step cm cm'"
  then show "machine_inv cm'"
    by (elim machine_step.cases) (auto intro: UpdateMachine_inv DeleteMachine_inv simp: ma_manager_inv)
qed


definition ma_hidden :: ConnectionManager where
  "ma_hidden = snd (DeleteMachine (Some ''admin'') ''m'' (Disconnect True 3 ''m'' cm1))"


text \<open>When an agent registers between the two parts of a deletion, its machine is deleted although it is connected.\<close>

lemma connected_machine_hidden:
  "let c0 = Disconnect True 3 ''m'' cm1;
       c1 = snd (Register True True 4 ''m'' 1 agent_m c0);
       c2 = snd (delete_store ''m'' c1)
   in delete_check (Some ''admin'') ''m'' c0 = None \<and> GetAgent ''m'' c2 \<noteq> None \<and> api_GetMachine 5 ''m'' c2 = MError 404"
  by code_simp

text \<open>Renaming a deleted machine changes its row and answers with an internal error.\<close>

lemma deleted_machine_renamed:
  "let (r, c) = UpdateMachine 5 (Some ''admin'') ''m'' (Some (Some ''new'')) ma_hidden
   in r = MError 500 \<and> map_option mc_display_name (fmlookup (cm_machines c) ''m'') = Some (Some ''new'')"
  by code_simp

end
