(* ===== verification/User_Admin.thy ===== *)
theory User_Admin
  imports Job_Handler
begin

text \<open>
  User accounts: the table (\<open>store/users.go\<close>) and the REST handlers (\<open>handler/users.go\<close>,
  \<open>handler/admin.go\<close>). Password hashing with Argon2 is an argument, as is whether other rows refer to a
  user, which makes the database refuse to delete the account. Bodies are decoded, \<open>None\<close> where
  decoding fails.
\<close>

section \<open>The table\<close>

record User =
  us_UserID :: string
  us_Email :: string
  us_DisplayName :: string
  us_PasswordHash :: string
  us_Role :: string
  us_CreatedAt :: time
  us_UpdatedAt :: time

definition db_CreateUser :: "time \<Rightarrow> User \<Rightarrow> User list \<Rightarrow> store_error + User list" where
  "db_CreateUser now u rows =
     (if list_ex (\<lambda>r. us_UserID r = us_UserID u \<or> us_Email r = us_Email u) rows then Inl ErrConstraint
      else Inr (rows @ [u\<lparr>us_CreatedAt := now, us_UpdatedAt := now\<rparr>]))"

definition SeedAdmin :: "(string \<Rightarrow> string option) \<Rightarrow> string \<Rightarrow> time \<Rightarrow> string \<Rightarrow> string \<Rightarrow> string \<Rightarrow> User list \<Rightarrow> store_error + User list" where
  "SeedAdmin hash uid now email password displayName rows =
     (case hash password of
        None \<Rightarrow> Inl ErrUnavailable
      | Some h \<Rightarrow> db_CreateUser now \<lparr>us_UserID = uid, us_Email = email, us_DisplayName = displayName, us_PasswordHash = h, us_Role = ''admin'',
                     us_CreatedAt = now, us_UpdatedAt = now\<rparr> rows)"

definition GetUserByEmail :: "string \<Rightarrow> User list \<Rightarrow> User option" where
  "GetUserByEmail email rows = find (\<lambda>u. us_Email u = email) rows"

definition db_ListUsers :: "User list \<Rightarrow> User list" where
  "db_ListUsers rows = sort_key us_CreatedAt rows"

definition GetUserByID :: "string \<Rightarrow> User list \<Rightarrow> store_error + User" where
  "GetUserByID i rows = (case find (\<lambda>u. us_UserID u = i) rows of None \<Rightarrow> Inl ErrNotFound | Some u \<Rightarrow> Inr u)"

definition update_users :: "string \<Rightarrow> (User \<Rightarrow> User) \<Rightarrow> User list \<Rightarrow> store_error + User list" where
  "update_users i f rows =
     (if list_ex (\<lambda>u. us_UserID u = i) rows then Inr (map (\<lambda>u. if us_UserID u = i then f u else u) rows) else Inl ErrNotFound)"

definition db_UpdateUser :: "time \<Rightarrow> string \<Rightarrow> string \<Rightarrow> string \<Rightarrow> User list \<Rightarrow> store_error + User list" where
  "db_UpdateUser now i displayName role rows =
     update_users i (\<lambda>u. u\<lparr>us_DisplayName := displayName, us_Role := role, us_UpdatedAt := now\<rparr>) rows"

definition UpdatePassword :: "time \<Rightarrow> string \<Rightarrow> string \<Rightarrow> User list \<Rightarrow> store_error + User list" where
  "UpdatePassword now i passwordHash rows = update_users i (\<lambda>u. u\<lparr>us_PasswordHash := passwordHash, us_UpdatedAt := now\<rparr>) rows"

definition UpdateDisplayName :: "time \<Rightarrow> string \<Rightarrow> string \<Rightarrow> User list \<Rightarrow> store_error + User list" where
  "UpdateDisplayName now i displayName rows = update_users i (\<lambda>u. u\<lparr>us_DisplayName := displayName, us_UpdatedAt := now\<rparr>) rows"

definition db_DeleteUser :: "(string \<Rightarrow> bool) \<Rightarrow> string \<Rightarrow> User list \<Rightarrow> store_error + User list" where
  "db_DeleteUser referenced i rows =
     (if \<not> list_ex (\<lambda>u. us_UserID u = i) rows then Inl ErrNotFound
      else if referenced i then Inl ErrConstraint
      else Inr (filter (\<lambda>u. us_UserID u \<noteq> i) rows))"

section \<open>The handlers\<close>

record TokenClaims = UserClaims +
  tk_JTI :: string
  tk_ExpiresAt :: time

record user_env =
  ue_now :: time
  ue_uid :: string
  ue_hash :: "string \<Rightarrow> string option"
  ue_verify :: "string \<Rightarrow> string \<Rightarrow> bool"
  ue_referenced :: "string \<Rightarrow> bool"

record UserHandler =
  uh_users :: "User list"
  uh_publisher :: bool
  uh_tokenRevoker :: bool
  uh_events :: "(string \<times> string \<times> string) list"
  uh_revoked :: "(string \<times> string \<times> time) list"

datatype user_reply = UError int | UUser User | UUsers "User list" | UOk | UNoContent

definition TypeUserCreated :: string where "TypeUserCreated = ''user.created''"
definition TypeUserDeleted :: string where "TypeUserDeleted = ''user.deleted''"

definition publishUserEvent :: "string \<Rightarrow> string \<Rightarrow> string \<Rightarrow> UserHandler \<Rightarrow> UserHandler" where
  "publishUserEvent eventType userID email h =
     (if uh_publisher h then h\<lparr>uh_events := uh_events h @ [(eventType, userID, email)]\<rparr> else h)"

definition requireAdmin :: "TokenClaims option \<Rightarrow> int option" where
  "requireAdmin c = (case c of None \<Rightarrow> Some 401 | Some u \<Rightarrow> if uc_Role u \<noteq> ''admin'' then Some 403 else None)"

definition password_ok :: "string \<Rightarrow> bool" where
  "password_ok p \<longleftrightarrow> 8 \<le> length p"

definition uh_ListUsers :: "TokenClaims option \<Rightarrow> UserHandler \<Rightarrow> user_reply \<times> UserHandler" where
  "uh_ListUsers c h = (case requireAdmin c of Some e \<Rightarrow> (UError e, h) | None \<Rightarrow> (UUsers (db_ListUsers (uh_users h)), h))"

definition uh_CreateUser :: "user_env \<Rightarrow> TokenClaims option \<Rightarrow> (string \<times> string \<times> string \<times> string) option \<Rightarrow> UserHandler \<Rightarrow> user_reply \<times> UserHandler" where
  "uh_CreateUser env c req h =
     (case requireAdmin c of
        Some e \<Rightarrow> (UError e, h)
      | None \<Rightarrow>
          (case req of
             None \<Rightarrow> (UError 400, h)
           | Some (email, password, displayName, role) \<Rightarrow>
               (let email = TrimSpace email; displayName = TrimSpace displayName; role' = (if role = [] then ''user'' else role)
                in if email = [] \<or> 255 < length displayName \<or> password = [] \<or> length password < 8 then (UError 400, h)
                   else if role' \<noteq> ''admin'' \<and> role' \<noteq> ''user'' then (UError 400, h)
                   else case ue_hash env password of
                          None \<Rightarrow> (UError 500, h)
                        | Some hash \<Rightarrow>
                            (let u = \<lparr>us_UserID = ue_uid env, us_Email = email, us_DisplayName = displayName, us_PasswordHash = hash, us_Role = role',
                                      us_CreatedAt = 0, us_UpdatedAt = 0\<rparr>
                             in case db_CreateUser (ue_now env) u (uh_users h) of
                                  Inl _ \<Rightarrow> (UError 409, h)
                                | Inr rows \<Rightarrow>
                                    (let h = h\<lparr>uh_users := rows\<rparr>
                                     in case GetUserByID (us_UserID u) rows of
                                          Inl _ \<Rightarrow> (UUser u, publishUserEvent TypeUserCreated (us_UserID u) (us_Email u) h)
                                        | Inr created \<Rightarrow> (UUser created, publishUserEvent TypeUserCreated (us_UserID created) (us_Email created) h))))))"

definition uh_UpdateUser :: "user_env \<Rightarrow> TokenClaims option \<Rightarrow> string \<Rightarrow> (string \<times> string) option \<Rightarrow> UserHandler \<Rightarrow> user_reply \<times> UserHandler" where
  "uh_UpdateUser env c userID req h =
     (case requireAdmin c of
        Some e \<Rightarrow> (UError e, h)
      | None \<Rightarrow>
          (case req of
             None \<Rightarrow> (UError 400, h)
           | Some (displayName, role) \<Rightarrow>
               (let displayName = TrimSpace displayName
                in if 255 < length displayName then (UError 400, h)
                   else if role \<noteq> [] \<and> role \<noteq> ''admin'' \<and> role \<noteq> ''user'' then (UError 400, h)
                   else case GetUserByID userID (uh_users h) of
                          Inl _ \<Rightarrow> (UError 404, h)
                        | Inr existing \<Rightarrow>
                            (case db_UpdateUser (ue_now env) userID (if displayName \<noteq> [] then displayName else us_DisplayName existing)
                                    (if role \<noteq> [] then role else us_Role existing) (uh_users h) of
                               Inl _ \<Rightarrow> (UError 404, h)
                             | Inr rows \<Rightarrow>
                                 (case GetUserByID userID rows of Inl _ \<Rightarrow> UError 500 | Inr u \<Rightarrow> UUser u, h\<lparr>uh_users := rows\<rparr>)))))"

definition ChangePassword :: "user_env \<Rightarrow> TokenClaims option \<Rightarrow> (string \<times> string) option \<Rightarrow> UserHandler \<Rightarrow> user_reply \<times> UserHandler" where
  "ChangePassword env claims req h =
     (case claims of
        None \<Rightarrow> (UError 401, h)
      | Some c \<Rightarrow>
          (case req of
             None \<Rightarrow> (UError 400, h)
           | Some (currentPassword, newPassword) \<Rightarrow>
               if currentPassword = [] \<or> newPassword = [] \<or> \<not> password_ok newPassword then (UError 400, h)
               else case GetUserByID (uc_UserID c) (uh_users h) of
                      Inl _ \<Rightarrow> (UError 500, h)
                    | Inr user \<Rightarrow>
                        if \<not> ue_verify env currentPassword (us_PasswordHash user) then (UError 401, h)
                        else case ue_hash env newPassword of
                               None \<Rightarrow> (UError 500, h)
                             | Some hash \<Rightarrow>
                                 (case UpdatePassword (ue_now env) (uc_UserID c) hash (uh_users h) of
                                    Inl _ \<Rightarrow> (UError 500, h)
                                  | Inr rows \<Rightarrow>
                                      (let h = h\<lparr>uh_users := rows\<rparr>
                                       in (UOk, if uh_tokenRevoker h \<and> tk_JTI c \<noteq> []
                                                then h\<lparr>uh_revoked := uh_revoked h @ [(tk_JTI c, uc_UserID c, tk_ExpiresAt c)]\<rparr> else h)))))"

definition ResetPassword :: "user_env \<Rightarrow> TokenClaims option \<Rightarrow> string \<Rightarrow> string option \<Rightarrow> UserHandler \<Rightarrow> user_reply \<times> UserHandler" where
  "ResetPassword env claims userID req h =
     (case requireAdmin claims of
        Some e \<Rightarrow> (UError e, h)
      | None \<Rightarrow>
          (case req of
             None \<Rightarrow> (UError 400, h)
           | Some newPassword \<Rightarrow>
               if newPassword = [] then (UError 400, h)
               else case GetUserByID userID (uh_users h) of
                      Inl _ \<Rightarrow> (UError 404, h)
                    | Inr target \<Rightarrow>
                        if us_Role target = ''admin'' \<and> uc_UserID (the claims) \<noteq> userID then (UError 403, h)
                        else if \<not> password_ok newPassword then (UError 400, h)
                        else case ue_hash env newPassword of
                               None \<Rightarrow> (UError 500, h)
                             | Some hash \<Rightarrow>
                                 (case UpdatePassword (ue_now env) userID hash (uh_users h) of
                                    Inl _ \<Rightarrow> (UError 500, h)
                                  | Inr rows \<Rightarrow> (UOk, h\<lparr>uh_users := rows\<rparr>))))"

definition UpdateProfile :: "user_env \<Rightarrow> TokenClaims option \<Rightarrow> string option \<Rightarrow> UserHandler \<Rightarrow> user_reply \<times> UserHandler" where
  "UpdateProfile env claims req h =
     (case claims of
        None \<Rightarrow> (UError 401, h)
      | Some c \<Rightarrow>
          (case req of
             None \<Rightarrow> (UError 400, h)
           | Some displayName \<Rightarrow>
               (let displayName = TrimSpace displayName
                in if 255 < length displayName then (UError 400, h)
                   else case UpdateDisplayName (ue_now env) (uc_UserID c) displayName (uh_users h) of
                          Inl _ \<Rightarrow> (UError 404, h)
                        | Inr rows \<Rightarrow>
                            (case GetUserByID (uc_UserID c) rows of Inl _ \<Rightarrow> UError 500 | Inr u \<Rightarrow> UUser u, h\<lparr>uh_users := rows\<rparr>))))"

definition uh_DeleteUser :: "user_env \<Rightarrow> TokenClaims option \<Rightarrow> string \<Rightarrow> UserHandler \<Rightarrow> user_reply \<times> UserHandler" where
  "uh_DeleteUser env claims userID h =
     (case requireAdmin claims of
        Some e \<Rightarrow> (UError e, h)
      | None \<Rightarrow>
          if uc_UserID (the claims) = userID then (UError 400, h)
          else case GetUserByID userID (uh_users h) of
                 Inl _ \<Rightarrow> (UError 404, h)
               | Inr existing \<Rightarrow>
                   (case db_DeleteUser (ue_referenced env) userID (uh_users h) of
                      Inl e \<Rightarrow> (UError (if e = ErrNotFound then 404 else 500), h)
                    | Inr rows \<Rightarrow> (UNoContent, publishUserEvent TypeUserDeleted userID (us_Email existing) (h\<lparr>uh_users := rows\<rparr>))))"

section \<open>Requests\<close>

datatype user_request =
    RListUsers
  | RCreateUser "(string \<times> string \<times> string \<times> string) option"
  | RUpdateUser string "(string \<times> string) option"
  | RChangePassword "(string \<times> string) option"
  | RResetPassword string "string option"
  | RUpdateProfile "string option"
  | RDeleteUser string

text \<open>The routes of \<open>RegisterUserRoutes\<close>.\<close>

fun user_route :: "user_env \<Rightarrow> TokenClaims option \<Rightarrow> user_request \<Rightarrow> UserHandler \<Rightarrow> user_reply \<times> UserHandler" where
  "user_route env c RListUsers h = uh_ListUsers c h"
| "user_route env c (RCreateUser r) h = uh_CreateUser env c r h"
| "user_route env c (RUpdateUser i r) h = uh_UpdateUser env c i r h"
| "user_route env c (RChangePassword r) h = ChangePassword env c r h"
| "user_route env c (RResetPassword i r) h = ResetPassword env c i r h"
| "user_route env c (RUpdateProfile r) h = UpdateProfile env c r h"
| "user_route env c (RDeleteUser i) h = uh_DeleteUser env c i h"

type_synonym user_call = "user_env \<times> TokenClaims option \<times> user_request"

fun user_calls :: "user_call list \<Rightarrow> UserHandler \<Rightarrow> UserHandler" where
  "user_calls [] h = h"
| "user_calls ((env, c, r) # cs) h = user_calls cs (snd (user_route env c r h))"

section \<open>What requests change\<close>

text \<open>The effect of a request on the table: nothing, a new account, an update of one account, or its removal.\<close>

inductive users_change :: "TokenClaims option \<Rightarrow> User list \<Rightarrow> User list \<Rightarrow> bool" for c where
  same: "users_change c rows rows"
| own: "c = Some u \<Longrightarrow> (\<And>r. us_UserID (f r) = us_UserID r \<and> us_Email (f r) = us_Email r \<and> us_Role (f r) = us_Role r) \<Longrightarrow>
    users_change c rows (map (\<lambda>r. if us_UserID r = uc_UserID u then f r else r) rows)"
| add: "requireAdmin c = None \<Longrightarrow> \<not> list_ex (\<lambda>r. us_UserID r = us_UserID u \<or> us_Email r = us_Email u) rows \<Longrightarrow>
    us_Role u = ''admin'' \<or> us_Role u = ''user'' \<Longrightarrow> users_change c rows (rows @ [u])"
| update: "requireAdmin c = None \<Longrightarrow> (\<And>r. us_UserID (f r) = us_UserID r \<and> us_Email (f r) = us_Email r) \<Longrightarrow>
    (\<forall>r\<in>set rows. us_UserID r = i \<longrightarrow> us_Role (f r) = ''admin'' \<or> us_Role (f r) = ''user'' \<or> (\<exists>r'\<in>set rows. us_Role (f r) = us_Role r')) \<Longrightarrow>
    users_change c rows (map (\<lambda>r. if us_UserID r = i then f r else r) rows)"
| remove: "requireAdmin c = None \<Longrightarrow> users_change c rows (filter P rows)"

lemma users_change_created:
  "users_change c (uh_users h) (uh_users (snd (uh_CreateUser env c r h)))"
  by (auto simp: uh_CreateUser_def db_CreateUser_def publishUserEvent_def Let_def split: option.splits sum.splits
      intro: same intro!: add)

lemma users_change_updated:
  "users_change c (uh_users h) (uh_users (snd (uh_UpdateUser env c i r h)))"
proof (cases "requireAdmin c")
  case None
  show ?thesis
    by (auto simp: uh_UpdateUser_def db_UpdateUser_def update_users_def GetUserByID_def Let_def None find_Some_iff
        split: option.splits sum.splits intro: same intro!: update)
qed (simp add: uh_UpdateUser_def same)

lemma users_change_own:
  "users_change c (uh_users h) (uh_users (snd (ChangePassword env c r h)))"
  "users_change c (uh_users h) (uh_users (snd (UpdateProfile env c r' h)))"
  by (auto simp: ChangePassword_def UpdateProfile_def UpdatePassword_def UpdateDisplayName_def update_users_def Let_def
      split: option.splits sum.splits intro: same intro!: own)

lemma users_change_reset:
  "users_change c (uh_users h) (uh_users (snd (ResetPassword env c i r h)))"
  by (auto simp: ResetPassword_def UpdatePassword_def update_users_def Let_def split: option.splits sum.splits intro: same intro!: update)

lemma users_change_deleted:
  "users_change c (uh_users h) (uh_users (snd (uh_DeleteUser env c i h)))"
  by (auto simp: uh_DeleteUser_def db_DeleteUser_def publishUserEvent_def split: option.splits sum.splits intro: same intro!: remove)

lemma users_change_route: "users_change c (uh_users h) (uh_users (snd (user_route env c r h)))"
proof (cases r)
  case RListUsers
  then show ?thesis by (auto simp: uh_ListUsers_def intro: same split: option.splits)
qed (simp_all add: users_change_created users_change_updated users_change_own users_change_reset users_change_deleted)

text \<open>Well-formed accounts.\<close>

definition users_ok :: "User list \<Rightarrow> bool" where
  "users_ok rows \<longleftrightarrow> distinct (map us_UserID rows) \<and> distinct (map us_Email rows) \<and>
     list_all (\<lambda>u. us_Role u = ''admin'' \<or> us_Role u = ''user'') rows"

lemma map_id_update: "(\<And>r. g (f r) = g r) \<Longrightarrow> map g (map (\<lambda>r. if P r then f r else r) rows) = map g rows"
  by (induction rows) auto

lemma users_change_ok: "users_change c rows rows' \<Longrightarrow> users_ok rows \<Longrightarrow> users_ok rows'"
proof (induction rule: users_change.induct)
  case (own u f rows)
  then show ?case
    unfolding users_ok_def by (subst (1 2) map_id_update) (auto simp: list_all_iff)
next
  case (update f rows i)
  then show ?case
    unfolding users_ok_def by (subst (1 2) map_id_update) (fastforce simp: list_all_iff)+
qed (auto simp: users_ok_def list_all_iff list_ex_iff distinct_map_filter)

lemma accounts_stay_ok: "users_ok (uh_users h) \<Longrightarrow> users_ok (uh_users (user_calls cs h))"
  by (induction cs h rule: user_calls.induct) (simp_all add: users_change_ok [OF users_change_route])

section \<open>Ordinary users\<close>

definition account :: "User \<Rightarrow> string \<times> string \<times> string" where
  "account u = (us_UserID u, us_Email u, us_Role u)"

definition ordinary :: "TokenClaims option \<Rightarrow> bool" where
  "ordinary c \<longleftrightarrow> requireAdmin c \<noteq> None"

definition caller_id :: "user_call \<Rightarrow> string option" where
  "caller_id call = map_option uc_UserID (fst (snd call))"

lemma ordinary_change:
  assumes "users_change c rows rows'" "ordinary c"
  shows "map account rows' = map account rows \<and>
    filter (\<lambda>u. Some (us_UserID u) \<noteq> map_option uc_UserID c) rows' = filter (\<lambda>u. Some (us_UserID u) \<noteq> map_option uc_UserID c) rows"
  using assms
proof (induction rule: users_change.induct)
  case (own u f rows)
  have "filter (\<lambda>r. us_UserID r \<noteq> uc_UserID u) (map (\<lambda>r. if us_UserID r = uc_UserID u then f r else r) rows) =
      filter (\<lambda>r. us_UserID r \<noteq> uc_UserID u) rows" using own(2) by (induction rows) auto
  then show ?case using own(1,2) by (auto simp: account_def eq_commute)
qed (simp_all add: ordinary_def)


section \<open>Concrete accounts\<close>

definition ua_env :: user_env where
  "ua_env = \<lparr>ue_now = 5, ue_uid = ''u9'', ue_hash = (\<lambda>p. Some (''h:'' @ p)), ue_verify = (\<lambda>p h. h = ''h:'' @ p), ue_referenced = (\<lambda>i. False)\<rparr>"

definition ua_user :: "string \<Rightarrow> string \<Rightarrow> User" where
  "ua_user i role = \<lparr>us_UserID = i, us_Email = i @ ''@x'', us_DisplayName = i, us_PasswordHash = ''h:secret00'', us_Role = role,
     us_CreatedAt = 1, us_UpdatedAt = 1\<rparr>"

definition ua_claims :: "string \<Rightarrow> string \<Rightarrow> TokenClaims" where
  "ua_claims i role = \<lparr>uc_UserID = i, uc_Role = role, tk_JTI = ''j-'' @ i, tk_ExpiresAt = 60\<rparr>"

definition ua_handler :: "User list \<Rightarrow> UserHandler" where
  "ua_handler us = \<lparr>uh_users = us, uh_publisher = True, uh_tokenRevoker = True, uh_events = [], uh_revoked = []\<rparr>"

lemma TrimSpace_empty: "TrimSpace [] = []"
  by code_simp

lemmas ua_defs = ua_env_def ua_user_def ua_claims_def ua_handler_def requireAdmin_def uh_UpdateUser_def ResetPassword_def ChangePassword_def
  GetUserByID_def db_UpdateUser_def UpdatePassword_def update_users_def password_ok_def TrimSpace_empty Let_def


text \<open>An administrator can take the role from the last administrator there is, itself: nobody is left to give it back.\<close>

lemma last_admin_demoted:
  "let h = user_calls [(ua_env, Some (ua_claims ''a'' ''admin''), RUpdateUser ''a'' (Some ([], ''user'')))]
         (ua_handler [ua_user ''a'' ''admin'', ua_user ''b'' ''user''])
   in list_all (\<lambda>u. us_Role u = ''user'') (uh_users h)"
  by (simp add: ua_defs)

text \<open>The password of another administrator cannot be reset, unless it is made an ordinary user first.\<close>

lemma admin_reset_refused:
  assumes "us_Role target = ''admin''" "GetUserByID i (uh_users h) = Inr target" "uc_UserID c \<noteq> i"
  shows "snd (ResetPassword env (Some c) i req h) = h"
  using assms by (simp add: ResetPassword_def split: option.splits)

lemma admin_reset_bypassed:
  "let h = ua_handler [ua_user ''a'' ''admin'', ua_user ''c'' ''admin'']; c = Some (ua_claims ''a'' ''admin'')
   in map us_PasswordHash (uh_users (user_calls [(ua_env, c, RResetPassword ''c'' (Some ''taken000''))] h)) = [''h:secret00'', ''h:secret00''] \<and>
      map (\<lambda>u. (us_PasswordHash u, us_Role u)) (uh_users (user_calls
        [(ua_env, c, RUpdateUser ''c'' (Some ([], ''user''))), (ua_env, c, RResetPassword ''c'' (Some ''taken000'')),
         (ua_env, c, RUpdateUser ''c'' (Some ([], ''admin'')))] h)) = [(''h:secret00'', ''admin''), (''h:taken000'', ''admin'')]"
  by (simp add: ua_defs)

end
