(* ===== verification/Authentication.thy ===== *)
theory Authentication
  imports User_Admin Blocklist Event_Store
begin

text \<open>
  Who is asking: API keys (\<open>store/apikeys.go\<close>, \<open>handler/apikeys.go\<close>), tokens (\<open>auth/jwt.go\<close>),
  login, registration and logout (\<open>api/auth_handler.go\<close>) and the middleware that turns a request's
  credentials into claims (\<open>api/middleware.go\<close>).

  The HMAC with the signing key, the JWT library, password hashing, the check of mail addresses and
  JSON are parameters. Scopes, a JSON column, are kept as the list they encode. Cookies are part of
  the answer.
\<close>

section \<open>Hexadecimal text\<close>

definition hex_digits :: string where "hex_digits = ''0123456789abcdef''"

definition hex_encode :: "string \<Rightarrow> string" where
  "hex_encode s = concat (map (\<lambda>c. let n = of_char c :: nat in [hex_digits ! (n div 16), hex_digits ! (n mod 16)]) s)"

text \<open>Decoding accepts upper-case digits too.\<close>

definition hex_val :: "char \<Rightarrow> nat option" where
  "hex_val c = (case filter (\<lambda>i. hex_digits ! i = fold_case c) [0..<16] of [] \<Rightarrow> None | i # _ \<Rightarrow> Some i)"

fun hex_decode :: "string \<Rightarrow> string option" where
  "hex_decode [] = Some []"
| "hex_decode [_] = None"
| "hex_decode (a # b # s) =
     (case (hex_val a, hex_val b, hex_decode s) of
        (Some i, Some j, Some r) \<Rightarrow> Some (char_of (16 * i + j) # r)
      | _ \<Rightarrow> None)"

lemma hex_val_digit: "n < 16 \<Longrightarrow> hex_val (hex_digits ! n) = Some n"
proof -
  have "list_all (\<lambda>n. hex_val (hex_digits ! n) = Some n) [0..<16]" by code_simp
  then show "n < 16 \<Longrightarrow> hex_val (hex_digits ! n) = Some n" by (simp add: list_all_iff)
qed

lemma hex_roundtrip [simp]: "hex_decode (hex_encode s) = Some s"
proof (induction s)
  case (Cons c s)
  have n: "(of_char c :: nat) div 16 < 16" "(of_char c :: nat) mod 16 < 16" using nat_of_char_less_256 [of c] by (simp_all add: less_mult_imp_div_less)
  have "16 * ((of_char c :: nat) div 16) + of_char c mod 16 = of_char c" by simp
  with Cons n show ?case by (simp add: hex_encode_def hex_val_digit Let_def del: mult_div_mod_eq)
qed (simp add: hex_encode_def)

section \<open>API keys\<close>

record APIKey =
  ak_KeyID :: string
  ak_KeyHMAC :: string
  ak_UserID :: string
  ak_Name :: string
  ak_Scopes :: "string list"
  ak_ExpiresAt :: "time option"
  ak_LastUsedAt :: "time option"
  ak_CreatedAt :: time

definition store_apiKeyPrefix :: string where "store_apiKeyPrefix = ''cpk''"

text \<open>The plaintext of a new key: prefix, eight characters of its identifier, random text.\<close>

definition plaintext :: "string \<Rightarrow> string \<Rightarrow> string" where
  "plaintext keyID randomPart = store_apiKeyPrefix @ ''_'' @ take 8 (filter (\<lambda>c. c \<noteq> CHR ''-'') keyID) @ ''_'' @ randomPart"

definition CreateAPIKey :: "(string \<Rightarrow> string) \<Rightarrow> time \<Rightarrow> string \<Rightarrow> string option \<Rightarrow> User list \<Rightarrow> string \<Rightarrow> string \<Rightarrow> string list \<Rightarrow> time option \<Rightarrow>
    APIKey list \<Rightarrow> store_error + string \<times> APIKey list" where
  "CreateAPIKey hmac now keyID randomPart users userID name scopes expiresAt rows =
     (case randomPart of
        None \<Rightarrow> Inl ErrUnavailable
      | Some r \<Rightarrow>
          if list_ex (\<lambda>k. ak_KeyID k = keyID) rows \<or> \<not> list_ex (\<lambda>u. us_UserID u = userID) users then Inl ErrConstraint
          else Inr (plaintext keyID r, rows @ [\<lparr>ak_KeyID = keyID, ak_KeyHMAC = hex_encode (hmac (plaintext keyID r)), ak_UserID = userID,
                 ak_Name = name, ak_Scopes = scopes, ak_ExpiresAt = expiresAt, ak_LastUsedAt = None, ak_CreatedAt = now\<rparr>]))"

definition GetAPIKeyByID :: "string \<Rightarrow> APIKey list \<Rightarrow> store_error + APIKey" where
  "GetAPIKeyByID keyID rows = (case find (\<lambda>k. ak_KeyID k = keyID) rows of None \<Rightarrow> Inl ErrNotFound | Some k \<Rightarrow> Inr k)"

text \<open>\<open>LIKE\<close> without an escape character.\<close>

fun like :: "string \<Rightarrow> string \<Rightarrow> bool" where
  "like [] s = (s = [])"
| "like (p # ps) s =
     (if p = CHR ''%'' then (like ps s \<or> (case s of [] \<Rightarrow> False | c # cs \<Rightarrow> like (p # ps) cs))
      else case s of [] \<Rightarrow> False | c # cs \<Rightarrow> (p = CHR ''_'' \<or> fold_case p = fold_case c) \<and> like ps cs)"

datatype key_error = KeyFormat | KeyCorrupt | KeyExpired | KeyNotFound

fun key_loop :: "time \<Rightarrow> string \<Rightarrow> APIKey list \<Rightarrow> key_error + APIKey" where
  "key_loop now computed [] = Inl KeyNotFound"
| "key_loop now computed (k # ks) =
     (case hex_decode (ak_KeyHMAC k) of
        None \<Rightarrow> Inl KeyCorrupt
      | Some stored \<Rightarrow>
          if computed \<noteq> stored then key_loop now computed ks
          else case ak_ExpiresAt k of
                 Some e \<Rightarrow> if e < now then Inl KeyExpired else Inr k
               | None \<Rightarrow> Inr k)"

definition ValidateAPIKey :: "(string \<Rightarrow> string) \<Rightarrow> time \<Rightarrow> string \<Rightarrow> APIKey list \<Rightarrow> key_error + APIKey" where
  "ValidateAPIKey hmac now key rows =
     (case SplitN key CHR ''_'' 3 of
        [a, keyIDPrefix, _] \<Rightarrow>
          if a \<noteq> store_apiKeyPrefix \<or> length keyIDPrefix \<noteq> 8 then Inl KeyFormat
          else key_loop now (hmac key) (filter (\<lambda>k. like (keyIDPrefix @ ''%'') (ak_KeyID k)) rows)
      | _ \<Rightarrow> Inl KeyFormat)"

definition ListAPIKeys :: "string \<Rightarrow> APIKey list \<Rightarrow> APIKey list" where
  "ListAPIKeys userID rows = sort_key (\<lambda>k. - ak_CreatedAt k) (filter (\<lambda>k. ak_UserID k = userID) rows)"

definition ListAllAPIKeys :: "APIKey list \<Rightarrow> APIKey list" where
  "ListAllAPIKeys rows = sort_key (\<lambda>k. - ak_CreatedAt k) rows"

definition DeleteAPIKey :: "string \<Rightarrow> APIKey list \<Rightarrow> store_error + APIKey list" where
  "DeleteAPIKey keyID rows =
     (if list_ex (\<lambda>k. ak_KeyID k = keyID) rows then Inr (filter (\<lambda>k. ak_KeyID k \<noteq> keyID) rows) else Inl ErrNotFound)"

definition UpdateAPIKeyLastUsed :: "time \<Rightarrow> string \<Rightarrow> APIKey list \<Rightarrow> APIKey list" where
  "UpdateAPIKeyLastUsed now keyID rows = map (\<lambda>k. if ak_KeyID k = keyID then k\<lparr>ak_LastUsedAt := Some now\<rparr> else k) rows"

section \<open>Tokens\<close>

record Claims =
  cl_ID :: string
  cl_Subject :: string
  cl_Issuer :: string
  cl_IssuedAt :: "time option"
  cl_ExpiresAt :: "time option"
  cl_UserID :: string
  cl_Email :: string
  cl_Role :: string
  cl_Scopes :: "string list"

definition claims_HasScope :: "Claims \<Rightarrow> string \<Rightarrow> bool" where
  "claims_HasScope c scope \<longleftrightarrow> list_ex (\<lambda>s. s = scope) (cl_Scopes c)"

text \<open>The JWT library: the precision of its dates, signing, and parsing with the checks of algorithm, issuer and expiry.\<close>

record jwt_lib =
  jw_date :: "time \<Rightarrow> time"
  jw_sign :: "Claims \<Rightarrow> string option"
  jw_parse :: "string \<Rightarrow> time \<Rightarrow> string \<Rightarrow> Claims option"

definition issuer :: string where "issuer = ''claude-plane''"

definition IssueToken :: "jwt_lib \<Rightarrow> time \<Rightarrow> time \<Rightarrow> string \<Rightarrow> User \<Rightarrow> string option" where
  "IssueToken jw ttl now jti u =
     jw_sign jw \<lparr>cl_ID = jti, cl_Subject = us_UserID u, cl_Issuer = issuer, cl_IssuedAt = Some (jw_date jw now),
       cl_ExpiresAt = Some (jw_date jw (now + ttl)), cl_UserID = us_UserID u, cl_Email = us_Email u, cl_Role = us_Role u, cl_Scopes = []\<rparr>"

definition ValidateToken :: "jwt_lib \<Rightarrow> time \<Rightarrow> string \<Rightarrow> Blocklist option \<Rightarrow> Claims option" where
  "ValidateToken jw now tokenString bl =
     (case jw_parse jw issuer now tokenString of
        None \<Rightarrow> None
      | Some claims \<Rightarrow>
          (case bl of None \<Rightarrow> Some claims | Some b \<Rightarrow> if IsRevoked (cl_ID claims) b then None else Some claims))"

definition svc_RevokeToken :: "bool \<Rightarrow> time \<Rightarrow> string \<Rightarrow> string \<Rightarrow> time \<Rightarrow> Blocklist option \<Rightarrow> bool \<times> Blocklist option" where
  "svc_RevokeToken up now jti userID expiresAt bl =
     (case bl of None \<Rightarrow> (False, None) | Some b \<Rightarrow> (case Blocklist_Add up now jti userID expiresAt b of (ok, b') \<Rightarrow> (ok, Some b')))"

section \<open>The middleware\<close>

definition EqualFold :: "string \<Rightarrow> string \<Rightarrow> bool" where
  "EqualFold a b \<longleftrightarrow> map fold_case a = map fold_case b"

text \<open>The cookie comes first, then the header; \<open>None\<close> is the answer 401.\<close>

definition request_token :: "string option \<Rightarrow> string \<Rightarrow> string option" where
  "request_token cookie header =
     (case cookie of
        Some (c # cs) \<Rightarrow> Some (c # cs)
      | _ \<Rightarrow>
          if header = [] then None
          else case SplitN header CHR '' '' 2 of
                 [scheme, token] \<Rightarrow> if EqualFold scheme ''Bearer'' then Some token else None
               | _ \<Rightarrow> None)"

definition apiKeyPrefix :: string where "apiKeyPrefix = ''cpk_''"

definition key_claims :: "User \<Rightarrow> APIKey \<Rightarrow> Claims" where
  "key_claims u k =
     \<lparr>cl_ID = [], cl_Subject = [], cl_Issuer = [], cl_IssuedAt = None, cl_ExpiresAt = None,
      cl_UserID = us_UserID u, cl_Email = us_Email u, cl_Role = us_Role u, cl_Scopes = ak_Scopes k\<rparr>"

text \<open>The claims, and the key whose time of use is noted afterwards.\<close>

definition validateAPIKeyToken :: "(string \<Rightarrow> string) \<Rightarrow> time \<Rightarrow> string \<Rightarrow> User list \<Rightarrow> APIKey list \<Rightarrow> (Claims \<times> string) option" where
  "validateAPIKeyToken hmac now token users keys =
     (case ValidateAPIKey hmac now token keys of
        Inl _ \<Rightarrow> None
      | Inr k \<Rightarrow>
          (case GetUserByID (ak_UserID k) users of
             Inl _ \<Rightarrow> None
           | Inr u \<Rightarrow> Some (key_claims u k, ak_KeyID k)))"

record auth_service =
  sv_jwt :: jwt_lib
  sv_hmac :: "string \<Rightarrow> string"
  sv_ttl :: time
  sv_hash :: "string \<Rightarrow> string option"
  sv_verify :: "string \<Rightarrow> string \<Rightarrow> bool"
  sv_address :: "string \<Rightarrow> bool"
  sv_digest :: "string \<Rightarrow> string"
  sv_apiKeys :: bool
  sv_mode :: string
  sv_inviteCode :: string

definition JWTAuthMiddleware :: "auth_service \<Rightarrow> time \<Rightarrow> string option \<Rightarrow> string \<Rightarrow> User list \<Rightarrow> APIKey list \<Rightarrow> Blocklist option \<Rightarrow>
    (Claims \<times> string option) option" where
  "JWTAuthMiddleware sv now cookie header users keys bl =
     (case request_token cookie header of
        None \<Rightarrow> None
      | Some token \<Rightarrow>
          if HasPrefix token apiKeyPrefix
          then if sv_apiKeys sv then map_option (\<lambda>(c, k). (c, Some k)) (validateAPIKeyToken (sv_hmac sv) now token users keys) else None
          else map_option (\<lambda>c. (c, None)) (ValidateToken (sv_jwt sv) now token bl))"

section \<open>Registration, login and logout\<close>

datatype auth_reply =
    AError int
  | APanic
  | ARegistered string string
  | ALoggedIn string User
  | AMe string string string string
  | ALoggedOut
  | AKeyCreated string string
  | AKeys "APIKey list"
  | ANoContent

definition inviteCodesEqual :: "auth_service \<Rightarrow> string \<Rightarrow> string \<Rightarrow> bool" where
  "inviteCodesEqual sv a b \<longleftrightarrow> sv_digest sv a = sv_digest sv b"

definition api_Register :: "auth_service \<Rightarrow> time \<Rightarrow> string \<Rightarrow> (string \<times> string \<times> string \<times> string) option \<Rightarrow> User list \<Rightarrow> auth_reply \<times> User list" where
  "api_Register sv now uid req users =
     (if sv_mode sv \<noteq> ''invite'' \<and> sv_mode sv \<noteq> ''open'' then (AError 403, users)
      else case req of
             None \<Rightarrow> (AError 400, users)
           | Some (email, password, displayName, inviteCode) \<Rightarrow>
               if sv_mode sv = ''invite'' \<and> (inviteCode = [] \<or> \<not> inviteCodesEqual sv inviteCode (sv_inviteCode sv)) then (AError 403, users)
               else if email = [] \<or> length password < 8 \<or> 128 < length password \<or> \<not> sv_address sv email then (AError 400, users)
               else case sv_hash sv password of
                      None \<Rightarrow> (AError 500, users)
                    | Some h \<Rightarrow>
                        (case db_CreateUser now \<lparr>us_UserID = uid, us_Email = email, us_DisplayName = displayName, us_PasswordHash = h,
                                us_Role = ''user'', us_CreatedAt = 0, us_UpdatedAt = 0\<rparr> users of
                           Inl _ \<Rightarrow> (AError 409, users)
                         | Inr users' \<Rightarrow> (ARegistered uid email, users')))"

definition Login :: "auth_service \<Rightarrow> time \<Rightarrow> string \<Rightarrow> (string \<times> string) option \<Rightarrow> User list \<Rightarrow> auth_reply" where
  "Login sv now jti req users =
     (case req of
        None \<Rightarrow> AError 400
      | Some (email, password) \<Rightarrow>
          if 128 < length password then AError 400
          else case GetUserByEmail email users of
                 None \<Rightarrow> AError 401
               | Some user \<Rightarrow>
                   if \<not> sv_verify sv password (us_PasswordHash user) then AError 401
                   else case IssueToken (sv_jwt sv) (sv_ttl sv) now jti user of
                          None \<Rightarrow> AError 500
                        | Some token \<Rightarrow> ALoggedIn token user)"

definition Me :: "Claims option \<Rightarrow> User list \<Rightarrow> auth_reply" where
  "Me claims users =
     (case claims of
        None \<Rightarrow> AError 401
      | Some c \<Rightarrow>
          (case GetUserByID (cl_UserID c) users of
             Inl _ \<Rightarrow> AMe (cl_UserID c) (cl_Email c) [] (cl_Role c)
           | Inr u \<Rightarrow> AMe (us_UserID u) (us_Email u) (us_DisplayName u) (us_Role u)))"

definition Logout :: "bool \<Rightarrow> time \<Rightarrow> Claims option \<Rightarrow> Blocklist option \<Rightarrow> auth_reply \<times> Blocklist option" where
  "Logout up now claims bl =
     (case claims of
        None \<Rightarrow> (AError 401, bl)
      | Some c \<Rightarrow>
          (case cl_ExpiresAt c of
             None \<Rightarrow> (APanic, bl)
           | Some e \<Rightarrow> (case svc_RevokeToken up now (cl_ID c) (cl_UserID c) e bl of (ok, bl') \<Rightarrow> (if ok then ALoggedOut else AError 500, bl'))))"

section \<open>The key handler\<close>

definition handlerClaims :: "Claims option \<Rightarrow> UserClaims option" where
  "handlerClaims c = map_option (\<lambda>c. \<lparr>uc_UserID = cl_UserID c, uc_Role = cl_Role c\<rparr>) c"

definition akh_Create :: "auth_service \<Rightarrow> time \<Rightarrow> string \<Rightarrow> string option \<Rightarrow> User list \<Rightarrow> UserClaims option \<Rightarrow> (string \<times> string list \<times> time option) option \<Rightarrow>
    APIKey list \<Rightarrow> auth_reply \<times> APIKey list" where
  "akh_Create sv now keyID randomPart users c req keys =
     (case req of
        None \<Rightarrow> (AError 400, keys)
      | Some (name, scopes, expiresAt) \<Rightarrow>
          (let name = TrimSpace name; userID = (case c of None \<Rightarrow> [] | Some u \<Rightarrow> uc_UserID u)
           in if name = [] then (AError 400, keys)
              else case CreateAPIKey (sv_hmac sv) now keyID randomPart users userID name scopes expiresAt keys of
                     Inl _ \<Rightarrow> (AError 500, keys)
                   | Inr (key, keys') \<Rightarrow>
                       (case GetAPIKeyByID keyID keys' of Inl _ \<Rightarrow> AError 500 | Inr _ \<Rightarrow> AKeyCreated key keyID, keys')))"

definition akh_List :: "UserClaims option \<Rightarrow> APIKey list \<Rightarrow> auth_reply" where
  "akh_List c keys =
     (case c of
        Some u \<Rightarrow> if uc_Role u = ''admin'' then AKeys (ListAllAPIKeys keys) else AKeys (ListAPIKeys (uc_UserID u) keys)
      | None \<Rightarrow> AKeys (ListAPIKeys [] keys))"

definition akh_Delete :: "UserClaims option \<Rightarrow> string \<Rightarrow> APIKey list \<Rightarrow> auth_reply \<times> APIKey list" where
  "akh_Delete c keyID keys =
     (case GetAPIKeyByID keyID keys of
        Inl _ \<Rightarrow> (AError 404, keys)
      | Inr existing \<Rightarrow>
          (case c of
             None \<Rightarrow> (AError 404, keys)
           | Some u \<Rightarrow>
               if uc_UserID u \<noteq> ak_UserID existing \<and> uc_Role u \<noteq> ''admin'' then (AError 404, keys)
               else case DeleteAPIKey keyID keys of Inl _ \<Rightarrow> (AError 404, keys) | Inr keys' \<Rightarrow> (ANoContent, keys')))"

end
