(* ===== verification/Authentication_Props.thy ===== *)
theory Authentication_Props
  imports Authentication
begin

text \<open>
  Which credentials the server accepts: exactly the API keys that were created, not deleted and not
  expired, for accounts that exist; and no token that was logged out.
\<close>

section \<open>The system\<close>

text \<open>\<open>au_made\<close> lists the keys ever created, plaintext and identifier; the clock and the logged-out tokens are in \<open>au_rv\<close>.\<close>

record auth_sys =
  au_users :: "User list"
  au_keys :: "APIKey list"
  au_rv :: revocation_sys
  au_made :: "(string \<times> string) list"

abbreviation au_now :: "auth_sys \<Rightarrow> time" where
  "au_now s \<equiv> rv_now (au_rv s)"

definition middleware :: "auth_service \<Rightarrow> string option \<Rightarrow> string \<Rightarrow> auth_sys \<Rightarrow> (Claims \<times> string option) option" where
  "middleware sv cookie header s =
     JWTAuthMiddleware sv (au_now s) cookie header (au_users s) (au_keys s) (Some (rv_bl (au_rv s)))"

text \<open>The first group of a UUID: eight hexadecimal digits.\<close>

definition uuid_like :: "string \<Rightarrow> bool" where
  "uuid_like i \<longleftrightarrow> 8 \<le> length i \<and> list_all (\<lambda>c. c \<in> set hex_digits) (take 8 i)"

definition made_by :: "auth_reply \<Rightarrow> (string \<times> string) list" where
  "made_by r = (case r of AKeyCreated p i \<Rightarrow> [(p, i)] | _ \<Rightarrow> [])"

inductive auth_step :: "auth_service \<Rightarrow> auth_sys \<Rightarrow> auth_sys \<Rightarrow> bool" for sv where
  au_create: "middleware sv cookie header s = Some (c, used) \<Longrightarrow> uuid_like i \<Longrightarrow> i \<notin> snd ` set (au_made s) \<Longrightarrow>
    (\<And>r. randomPart = Some r \<Longrightarrow> plaintext i r \<notin> fst ` set (au_made s)) \<Longrightarrow>
    akh_Create sv (au_now s) i randomPart (au_users s) (handlerClaims (Some c)) req (au_keys s) = (reply, keys) \<Longrightarrow>
    auth_step sv s (s\<lparr>au_keys := keys, au_made := made_by reply @ au_made s\<rparr>)"
| au_delete: "middleware sv cookie header s = Some (c, used) \<Longrightarrow>
    auth_step sv s (s\<lparr>au_keys := snd (akh_Delete (handlerClaims (Some c)) i (au_keys s))\<rparr>)"
| au_touch: "auth_step sv s (s\<lparr>au_keys := UpdateAPIKeyLastUsed (au_now s) i (au_keys s)\<rparr>)"
| au_register: "auth_step sv s (s\<lparr>au_users := snd (api_Register sv (au_now s) uid rreq (au_users s))\<rparr>)"
| au_account: "uh_users h = au_users s \<Longrightarrow> list_all (\<lambda>k. ue_referenced env (ak_UserID k)) (au_keys s) \<Longrightarrow>
    auth_step sv s (s\<lparr>au_users := uh_users (snd (user_route env tc ureq h))\<rparr>)"
| au_logout: "middleware sv cookie header s = Some (c, used) \<Longrightarrow> Logout up (au_now s) (Some c) (Some (rv_bl (au_rv s))) = (reply, Some bl) \<Longrightarrow>
    auth_step sv s (s\<lparr>au_rv := (au_rv s)\<lparr>rv_bl := bl,
      rv_revoked := (if reply = ALoggedOut then insert (cl_ID c, the (cl_ExpiresAt c)) (rv_revoked (au_rv s)) else rv_revoked (au_rv s))\<rparr>\<rparr>)"
| au_time: "revocation_step (au_rv s) rv \<Longrightarrow> auth_step sv s (s\<lparr>au_rv := rv\<rparr>)"

definition auth_init :: "auth_sys \<Rightarrow> bool" where
  "auth_init s \<longleftrightarrow> users_ok (au_users s) \<and> au_keys s = [] \<and> au_made s = [] \<and> revocation_init (au_rv s)"

section \<open>The invariant\<close>

definition keys_ok :: "(string \<Rightarrow> string) \<Rightarrow> (string \<times> string) list \<Rightarrow> APIKey list \<Rightarrow> bool" where
  "keys_ok hmac made keys \<longleftrightarrow> distinct (map ak_KeyID keys) \<and> distinct (map fst made) \<and> distinct (map snd made) \<and>
     (\<forall>k\<in>set keys. \<exists>p. (p, ak_KeyID k) \<in> set made \<and> ak_KeyHMAC k = hex_encode (hmac p)) \<and>
     (\<forall>(p, i)\<in>set made. uuid_like i \<and> (\<exists>r. p = plaintext i r))"

definition owned :: "User list \<Rightarrow> APIKey list \<Rightarrow> bool" where
  "owned users keys \<longleftrightarrow> (\<forall>k\<in>set keys. ak_UserID k \<in> us_UserID ` set users)"

definition auth_inv :: "auth_service \<Rightarrow> auth_sys \<Rightarrow> bool" where
  "auth_inv sv s \<longleftrightarrow> keys_ok (sv_hmac sv) (au_made s) (au_keys s) \<and> users_ok (au_users s) \<and> owned (au_users s) (au_keys s) \<and>
     revocation_inv (au_rv s)"

text \<open>What the creation of a key does: nothing, or one new row.\<close>

lemma CreateAPIKey_row:
  assumes "CreateAPIKey hmac now i randomPart users uid name scopes e keys = Inr (p, keys')"
  shows "\<exists>r k. randomPart = Some r \<and> p = plaintext i r \<and> keys' = keys @ [k] \<and> ak_KeyID k = i \<and> ak_KeyHMAC k = hex_encode (hmac p) \<and>
    ak_UserID k \<in> us_UserID ` set users \<and> i \<notin> ak_KeyID ` set keys"
  using assms by (auto simp: CreateAPIKey_def list_ex_iff image_iff split: option.splits if_splits)

lemma create_cases:
  assumes "akh_Create sv now i randomPart users c req keys = (reply, keys')"
  obtains (same) "keys' = keys" "made_by reply = []"
  | (new) r k where "randomPart = Some r" "keys' = keys @ [k]" "ak_KeyID k = i" "ak_KeyHMAC k = hex_encode (sv_hmac sv (plaintext i r))"
    "ak_UserID k \<in> us_UserID ` set users" "i \<notin> ak_KeyID ` set keys" "made_by reply = [(plaintext i r, i)]"
proof (cases "keys' = keys \<and> made_by reply = []")
  case False
  then obtain uid name scopes e p where c: "CreateAPIKey (sv_hmac sv) now i randomPart users uid name scopes e keys = Inr (p, keys')"
    and r: "reply = (case GetAPIKeyByID i keys' of Inl _ \<Rightarrow> AError 500 | Inr _ \<Rightarrow> AKeyCreated p i)"
    using assms by (auto simp: akh_Create_def made_by_def Let_def split: option.splits sum.splits if_splits)
  from c obtain r k where k: "randomPart = Some r" "p = plaintext i r" "keys' = keys @ [k]" "ak_KeyID k = i"
    "ak_KeyHMAC k = hex_encode (sv_hmac sv p)" "ak_UserID k \<in> us_UserID ` set users" "i \<notin> ak_KeyID ` set keys"
    using CreateAPIKey_row by blast
  have "\<exists>x. GetAPIKeyByID i keys' = Inr x" using k(3,4) by (auto simp: GetAPIKeyByID_def find_None_iff split: option.splits)
  then have "made_by reply = [(plaintext i r, i)]" using r k(2) by (auto simp: made_by_def)
  then show ?thesis using k by (intro new) auto
qed (use same in auto)

lemma create_ok:
  assumes ok: "keys_ok (sv_hmac sv) made keys" "owned users keys" and i: "uuid_like i" "i \<notin> snd ` set made"
    and fresh: "\<And>r. randomPart = Some r \<Longrightarrow> plaintext i r \<notin> fst ` set made"
    and create: "akh_Create sv now i randomPart users c req keys = (reply, keys')"
  shows "keys_ok (sv_hmac sv) (made_by reply @ made) keys' \<and> owned users keys'"
  using create
proof (cases rule: create_cases)
  case (new r k)
  have "keys_ok (sv_hmac sv) ((plaintext i r, i) # made) (keys @ [k])"
    using ok(1) i fresh [OF new(1)] new(3,4,6) unfolding keys_ok_def by (fastforce simp: image_iff)
  then show ?thesis using ok(2) new by (simp add: owned_def)
qed (use ok in simp)

lemma keys_ok_subset:
  assumes "keys_ok hmac made keys" "distinct (map ak_KeyID keys')"
    "\<And>k'. k' \<in> set keys' \<Longrightarrow> \<exists>k\<in>set keys. ak_KeyID k' = ak_KeyID k \<and> ak_KeyHMAC k' = ak_KeyHMAC k"
  shows "keys_ok hmac made keys'"
proof -
  have "\<exists>p. (p, ak_KeyID k') \<in> set made \<and> ak_KeyHMAC k' = hex_encode (hmac p)" if "k' \<in> set keys'" for k'
    using assms(1) assms(3) [OF that] by (auto simp: keys_ok_def)
  then show ?thesis using assms(1,2) by (simp add: keys_ok_def)
qed

lemma delete_ok:
  assumes "keys_ok hmac made keys" "owned users keys"
  shows "keys_ok hmac made (snd (akh_Delete c i keys)) \<and> owned users (snd (akh_Delete c i keys))"
proof -
  have "snd (akh_Delete c i keys) = keys \<or> snd (akh_Delete c i keys) = filter (\<lambda>k. ak_KeyID k \<noteq> i) keys"
    by (auto simp: akh_Delete_def DeleteAPIKey_def split: option.splits sum.splits)
  moreover have "keys_ok hmac made (filter (\<lambda>k. ak_KeyID k \<noteq> i) keys)"
    using assms(1) by (intro keys_ok_subset [OF assms(1)]) (auto simp: keys_ok_def distinct_map_filter)
  ultimately show ?thesis using assms by (auto simp: owned_def)
qed

lemma touch_ok:
  assumes "keys_ok hmac made keys" "owned users keys"
  shows "keys_ok hmac made (UpdateAPIKeyLastUsed now i keys) \<and> owned users (UpdateAPIKeyLastUsed now i keys)"
proof -
  have "map ak_KeyID (UpdateAPIKeyLastUsed now i keys) = map ak_KeyID keys" by (simp add: UpdateAPIKeyLastUsed_def)
  then have "distinct (map ak_KeyID (UpdateAPIKeyLastUsed now i keys))" using assms(1) by (simp only: keys_ok_def)
  then have "keys_ok hmac made (UpdateAPIKeyLastUsed now i keys)"
    by (rule keys_ok_subset [OF assms(1)]) (auto simp: UpdateAPIKeyLastUsed_def)
  then show ?thesis using assms(2) by (auto simp: owned_def UpdateAPIKeyLastUsed_def)
qed

lemma register_ok: "users_ok users \<Longrightarrow> users_ok (snd (api_Register sv now uid req users))"
  by (auto simp: api_Register_def db_CreateUser_def users_ok_def list_ex_iff split: option.splits sum.splits)

lemma register_keeps: "set users \<subseteq> set (snd (api_Register sv now uid req users))"
  by (auto simp: api_Register_def db_CreateUser_def split: option.splits sum.splits)

text \<open>An account that other rows refer to is not removed.\<close>

lemma update_users_ids:
  assumes "update_users i f rows = Inr rows'" "\<And>r. us_UserID (f r) = us_UserID r"
  shows "us_UserID ` set rows' = us_UserID ` set rows"
proof -
  have "rows' = map (\<lambda>u. if us_UserID u = i then f u else u) rows" using assms(1) by (simp add: update_users_def split: if_splits)
  then have "map us_UserID rows' = map us_UserID rows" using map_id_update [of us_UserID f] assms(2) by simp
  then show ?thesis by (metis set_map)
qed

lemma db_update_ids:
  "db_UpdateUser now i n q rows = Inr rows' \<Longrightarrow> us_UserID ` set rows' = us_UserID ` set rows"
  "UpdatePassword now i p rows = Inr rows' \<Longrightarrow> us_UserID ` set rows' = us_UserID ` set rows"
  "UpdateDisplayName now i n rows = Inr rows' \<Longrightarrow> us_UserID ` set rows' = us_UserID ` set rows"
  by (auto simp only: db_UpdateUser_def UpdatePassword_def UpdateDisplayName_def intro!: update_users_ids) simp_all

lemma update_ids:
  "us_UserID ` set (uh_users (snd (uh_UpdateUser env c i r h))) = us_UserID ` set (uh_users h)"
  "us_UserID ` set (uh_users (snd (ChangePassword env c r' h))) = us_UserID ` set (uh_users h)"
  "us_UserID ` set (uh_users (snd (ResetPassword env c i r'' h))) = us_UserID ` set (uh_users h)"
  "us_UserID ` set (uh_users (snd (UpdateProfile env c r'' h))) = us_UserID ` set (uh_users h)"
  unfolding uh_UpdateUser_def ChangePassword_def ResetPassword_def UpdateProfile_def Let_def
  by (simp_all split: option.splits sum.splits) (blast dest: db_update_ids)+

lemma route_keeps:
  assumes "j \<in> us_UserID ` set (uh_users h)" "ue_referenced env j"
  shows "j \<in> us_UserID ` set (uh_users (snd (user_route env c r h)))"
proof (cases r)
  case (RCreateUser q)
  then show ?thesis using assms(1)
    by (auto simp: uh_CreateUser_def db_CreateUser_def publishUserEvent_def Let_def split: option.splits sum.splits)
next
  case (RDeleteUser i)
  then show ?thesis using assms
    by (auto simp: uh_DeleteUser_def db_DeleteUser_def publishUserEvent_def split: option.splits sum.splits if_splits)
qed (use assms(1) in \<open>simp_all add: update_ids uh_ListUsers_def split: option.splits\<close>)

section \<open>The invariant is kept\<close>

lemma Logout_revocation:
  assumes "Logout up (rv_now rv) (Some c) (Some (rv_bl rv)) = (reply, Some bl)"
  shows "bl = rv_bl rv \<and> reply \<noteq> ALoggedOut \<or>
    (\<exists>ok. Blocklist_Add up (rv_now rv) (cl_ID c) (cl_UserID c) (the (cl_ExpiresAt c)) (rv_bl rv) = (ok, bl) \<and> (ok \<longleftrightarrow> reply = ALoggedOut))"
  using assms by (auto simp: Logout_def svc_RevokeToken_def split: option.splits prod.splits if_splits)

lemma logout_step:
  assumes "Logout up (rv_now rv) (Some c) (Some (rv_bl rv)) = (reply, Some bl)" "revocation_inv rv"
  shows "revocation_inv (rv\<lparr>rv_bl := bl,
    rv_revoked := (if reply = ALoggedOut then insert (cl_ID c, the (cl_ExpiresAt c)) (rv_revoked rv) else rv_revoked rv)\<rparr>)"
  using Logout_revocation [OF assms(1)]
proof (elim disjE conjE exE)
  assume "bl = rv_bl rv" "reply \<noteq> ALoggedOut"
  then show ?thesis using assms(2) by simp
next
  fix ok assume a: "Blocklist_Add up (rv_now rv) (cl_ID c) (cl_UserID c) (the (cl_ExpiresAt c)) (rv_bl rv) = (ok, bl)"
    and ok: "ok \<longleftrightarrow> reply = ALoggedOut"
  show ?thesis using revocations.inv_step [OF assms(2) rv_add [OF a]] ok by simp
qed

interpretation authentication: invariant_system auth_init "auth_step sv" "auth_inv sv" for sv
proof
  fix s assume "auth_init s"
  then show "auth_inv sv s" by (auto simp: auth_init_def auth_inv_def keys_ok_def owned_def intro: revocations.inv_init)
next
  fix s t assume "auth_inv sv s" and step: "auth_step sv s t"
  then have k: "keys_ok (sv_hmac sv) (au_made s) (au_keys s)" and o: "owned (au_users s) (au_keys s)" and u: "users_ok (au_users s)"
    and r: "revocation_inv (au_rv s)" by (simp_all add: auth_inv_def)
  from step show "auth_inv sv t"
  proof cases
    case (au_create cookie header c used i randomPart req reply keys)
    then show ?thesis using create_ok [OF k o au_create(3,4) _ au_create(6)] u r by (simp add: auth_inv_def)
  next
    case (au_delete cookie header c used i)
    then show ?thesis using delete_ok [OF k o] u r by (simp add: auth_inv_def)
  next
    case (au_touch i)
    then show ?thesis using touch_ok [OF k o] u r by (simp add: auth_inv_def)
  next
    case (au_register uid rreq)
    have "owned (snd (api_Register sv (au_now s) uid rreq (au_users s))) (au_keys s)" using o register_keeps by (fastforce simp: owned_def)
    then show ?thesis using au_register k u r by (simp add: auth_inv_def register_ok)
  next
    case (au_account h env tc ureq)
    have "owned (uh_users (snd (user_route env tc ureq h))) (au_keys s)"
      using o au_account(2,3) route_keeps [of _ h env tc ureq] by (auto simp: owned_def list_all_iff)
    moreover have "users_ok (uh_users (snd (user_route env tc ureq h)))"
      using users_change_ok [OF users_change_route] u au_account(2) by simp
    ultimately show ?thesis using au_account k r by (simp add: auth_inv_def)
  next
    case (au_logout cookie header c used up reply bl)
    then show ?thesis using logout_step k o u r by (simp add: auth_inv_def)
  next
    case (au_time rv)
    then show ?thesis using revocations.inv_step [OF r] k o u by (simp add: auth_inv_def)
  qed
qed

section \<open>Keys are recognized\<close>

lemma hex_plain: "c \<in> set hex_digits \<Longrightarrow> c \<noteq> CHR ''-'' \<and> c \<noteq> CHR ''_'' \<and> c \<noteq> CHR ''%''"
proof -
  have "list_all (\<lambda>c. c \<noteq> CHR ''-'' \<and> c \<noteq> CHR ''_'' \<and> c \<noteq> CHR ''%'') hex_digits" by code_simp
  then show "c \<in> set hex_digits \<Longrightarrow> c \<noteq> CHR ''-'' \<and> c \<noteq> CHR ''_'' \<and> c \<noteq> CHR ''%''" by (simp add: list_all_iff)
qed

lemma plaintext_uuid:
  assumes "uuid_like i"
  shows "plaintext i r = ''cpk_'' @ take 8 i @ ''_'' @ r"
proof -
  have "filter (\<lambda>c. c \<noteq> CHR ''-'') (take 8 i) = take 8 i" using assms hex_plain by (auto simp: uuid_like_def list_all_iff intro!: filter_True)
  then have "filter (\<lambda>c. c \<noteq> CHR ''-'') i = take 8 i @ filter (\<lambda>c. c \<noteq> CHR ''-'') (drop 8 i)"
    by (metis append_take_drop_id filter_append)
  then show ?thesis using assms by (simp add: plaintext_def store_apiKeyPrefix_def uuid_like_def)
qed

lemma SplitN_plaintext: "uuid_like i \<Longrightarrow> SplitN (plaintext i r) CHR ''_'' 3 = [''cpk'', take 8 i, r]"
proof -
  assume i: "uuid_like i"
  then have "CHR ''_'' \<notin> set (take 8 i)" using hex_plain by (auto simp: uuid_like_def list_all_iff)
  then show ?thesis
    using SplitN_sep [of "CHR ''_''" "''cpk''" "take 8 i @ ''_'' @ r" 1] SplitN_sep [of "CHR ''_''" "take 8 i" r 0]
    by (simp add: plaintext_uuid [OF i] numeral_3_eq_3)
qed

lemma like_prefix: "list_all (\<lambda>c. c \<noteq> CHR ''%'') p \<Longrightarrow> like (p @ ''%'') (p @ s)"
proof (induction p)
  case Nil
  show ?case by (induction s) auto
qed simp

lemma like_uuid: "uuid_like i \<Longrightarrow> like (take 8 i @ ''%'') i"
  using like_prefix [of "take 8 i" "drop 8 i"] hex_plain by (auto simp: uuid_like_def list_all_iff)

text \<open>The loop over the rows finds the row of the text that was hashed.\<close>

lemma hex_encode_eq [simp]: "hex_encode a = hex_encode b \<longleftrightarrow> a = b"
  by (metis hex_roundtrip option.inject)

lemma key_loop_found:
  assumes "\<forall>k\<in>set ks. \<exists>p. ak_KeyHMAC k = hex_encode p" "distinct (map ak_KeyHMAC ks)"
  shows "key_loop now computed ks = Inr k \<longleftrightarrow>
    k \<in> set ks \<and> ak_KeyHMAC k = hex_encode computed \<and> (\<forall>e. ak_ExpiresAt k = Some e \<longrightarrow> now \<le> e)"
  using assms
proof (induction ks)
  case (Cons x ks)
  obtain p where p: "ak_KeyHMAC x = hex_encode p" using Cons.prems(1) by auto
  show ?case
  proof (cases "computed = p")
    case True
    have "ak_KeyHMAC y \<noteq> hex_encode p" if "y \<in> set ks" for y using Cons.prems(2) that by (auto simp: p [symmetric] image_iff)
    then show ?thesis using p True by (auto split: option.splits)
  next
    case False
    then show ?thesis using Cons p by auto
  qed
qed simp

lemma keys_ok_text:
  assumes "keys_ok hmac made keys" "inj hmac" "k \<in> set keys"
  shows "ak_KeyHMAC k = hex_encode (hmac tok) \<longleftrightarrow> (tok, ak_KeyID k) \<in> set made"
proof -
  obtain p where p: "(p, ak_KeyID k) \<in> set made" "ak_KeyHMAC k = hex_encode (hmac p)" using assms(1,3) by (auto simp: keys_ok_def)
  have i: "inj_on snd (set made)" using assms(1) by (simp add: keys_ok_def distinct_map)
  have "q = p" if "(q, ak_KeyID k) \<in> set made" for q
    using inj_onD [OF i, of "(q, ak_KeyID k)" "(p, ak_KeyID k)"] that p(1) by simp
  then have "(tok, ak_KeyID k) \<in> set made \<longleftrightarrow> p = tok" using p(1) by blast
  then show ?thesis by (simp add: p(2) inj_eq [OF assms(2)])
qed

lemma keys_ok_distinct:
  assumes "keys_ok hmac made keys" "inj hmac"
  shows "distinct (map ak_KeyHMAC keys)"
proof -
  have "k = k'" if k: "k \<in> set keys" "k' \<in> set keys" "ak_KeyHMAC k = ak_KeyHMAC k'" for k k'
  proof -
    obtain p where p: "(p, ak_KeyID k) \<in> set made" "ak_KeyHMAC k = hex_encode (hmac p)" using assms(1) k(1) by (auto simp: keys_ok_def)
    then have "(p, ak_KeyID k') \<in> set made" using keys_ok_text [OF assms k(2)] k(3) by metis
    then have "ak_KeyID k = ak_KeyID k'" using p(1) assms(1) eq_key_imp_eq_value by (fastforce simp: keys_ok_def)
    then show ?thesis using assms(1) k(1,2) by (auto simp: keys_ok_def distinct_map inj_on_def)
  qed
  then show ?thesis using assms(1) by (auto simp: keys_ok_def distinct_map inj_on_def)
qed

lemma ValidateAPIKey_iff:
  assumes ok: "keys_ok hmac made keys" and inj: "inj hmac"
  shows "ValidateAPIKey hmac now tok keys = Inr k \<longleftrightarrow>
    k \<in> set keys \<and> (tok, ak_KeyID k) \<in> set made \<and> (\<forall>e. ak_ExpiresAt k = Some e \<longrightarrow> now \<le> e)"
proof -
  have loop: "key_loop now (hmac tok) (filter P keys) = Inr k \<longleftrightarrow>
      k \<in> set keys \<and> P k \<and> (tok, ak_KeyID k) \<in> set made \<and> (\<forall>e. ak_ExpiresAt k = Some e \<longrightarrow> now \<le> e)" for P
  proof -
    have "\<forall>k\<in>set (filter P keys). \<exists>p. ak_KeyHMAC k = hex_encode p" using ok by (auto simp: keys_ok_def)
    moreover have "distinct (map ak_KeyHMAC (filter P keys))" using keys_ok_distinct [OF ok inj] by (simp add: distinct_map_filter)
    ultimately show ?thesis using key_loop_found [of "filter P keys" now "hmac tok" k] keys_ok_text [OF ok inj, of k tok] by auto
  qed
  show ?thesis
  proof
    assume "ValidateAPIKey hmac now tok keys = Inr k"
    then obtain a p b where "key_loop now (hmac tok) (filter (\<lambda>k. like (p @ ''%'') (ak_KeyID k)) keys) = Inr k"
      by (auto simp: ValidateAPIKey_def split: list.splits if_splits)
    then show "k \<in> set keys \<and> (tok, ak_KeyID k) \<in> set made \<and> (\<forall>e. ak_ExpiresAt k = Some e \<longrightarrow> now \<le> e)" using loop by blast
  next
    assume k: "k \<in> set keys \<and> (tok, ak_KeyID k) \<in> set made \<and> (\<forall>e. ak_ExpiresAt k = Some e \<longrightarrow> now \<le> e)"
    then obtain r where i: "uuid_like (ak_KeyID k)" and tok: "tok = plaintext (ak_KeyID k) r" using ok by (auto simp: keys_ok_def)
    have "length (take 8 (ak_KeyID k)) = 8" using i by (simp add: uuid_like_def)
    then show "ValidateAPIKey hmac now tok keys = Inr k"
      using k loop like_uuid [OF i] SplitN_plaintext [OF i, of r]
      by (simp add: ValidateAPIKey_def store_apiKeyPrefix_def tok)
  qed
qed

lemma GetUserByID_iff: "users_ok users \<Longrightarrow> GetUserByID i users = Inr u \<longleftrightarrow> u \<in> set users \<and> us_UserID u = i"
proof -
  assume "users_ok users"
  then have d: "distinct (map us_UserID users)" by (simp add: users_ok_def)
  have "find (\<lambda>u. us_UserID u = i) users = Some u \<longleftrightarrow> u \<in> set users \<and> us_UserID u = i"
    using d by (induction users) (auto simp: image_iff)
  then show ?thesis by (auto simp: GetUserByID_def split: option.splits)
qed

text \<open>C24. An API key opens the door if and only if it is valid: in every state that requests can lead to, a
  credential of the form of a key is accepted exactly when it was created, has not been deleted and has not
  expired, and the request then acts as the account the key was made for, with the role this account has
  now and with the scopes of the key. This holds for every function without collisions in the place of the HMAC.\<close>

theorem api_keys_authenticate:
  assumes "inj (sv_hmac sv)" and "sv_apiKeys sv" and "reachable auth_init (auth_step sv) s"
    and "request_token cookie header = Some tok" and "HasPrefix tok apiKeyPrefix"
  shows "middleware sv cookie header s = Some (c, used) \<longleftrightarrow>
    (\<exists>k u. k \<in> set (au_keys s) \<and> (tok, ak_KeyID k) \<in> set (au_made s) \<and> (\<forall>e. ak_ExpiresAt k = Some e \<longrightarrow> au_now s \<le> e) \<and>
       u \<in> set (au_users s) \<and> us_UserID u = ak_UserID k \<and> c = key_claims u k \<and> used = Some (ak_KeyID k))"
proof -
  have inv: "auth_inv sv s" using assms(3) by (rule authentication.reachable_inv)
  then have valid: "validateAPIKeyToken (sv_hmac sv) (au_now s) tok (au_users s) (au_keys s) = Some (c, i) \<longleftrightarrow>
      (\<exists>k u. ValidateAPIKey (sv_hmac sv) (au_now s) tok (au_keys s) = Inr k \<and> GetUserByID (ak_UserID k) (au_users s) = Inr u \<and>
        c = key_claims u k \<and> i = ak_KeyID k)" for i
    by (auto simp: validateAPIKeyToken_def split: sum.splits)
  have users: "GetUserByID i (au_users s) = Inr u \<longleftrightarrow> u \<in> set (au_users s) \<and> us_UserID u = i" for i u
    using inv GetUserByID_iff by (auto simp: auth_inv_def)
  have keys: "keys_ok (sv_hmac sv) (au_made s) (au_keys s)" using inv by (simp add: auth_inv_def)
  have "middleware sv cookie header s = Some (c, used) \<longleftrightarrow>
      (\<exists>i. used = Some i \<and> validateAPIKeyToken (sv_hmac sv) (au_now s) tok (au_users s) (au_keys s) = Some (c, i))"
    using assms(2,4,5) by (auto simp: middleware_def JWTAuthMiddleware_def)
  then show ?thesis unfolding valid users ValidateAPIKey_iff [OF keys assms(1)] by blast
qed

text \<open>C25. A token that was logged out is never accepted again: when \<open>Logout\<close> has answered with success, no later
  request with the claims of that token passes the middleware, over clean-ups of the blocklist and restarts
  of the server. The JWT library is assumed to refuse expired tokens.\<close>

theorem logged_out_refused:
  assumes "\<forall>iss now tok c. jw_parse (sv_jwt sv) iss now tok = Some c \<longrightarrow> (\<exists>e. cl_ExpiresAt c = Some e \<and> now < e)"
    and "reachable auth_init (auth_step sv) s" and "(jti, e) \<in> rv_revoked (au_rv s)"
    and "middleware sv cookie header s = Some (c, None)"
  shows "(cl_ID c, cl_ExpiresAt c) \<noteq> (jti, Some e)"
proof -
  have inv: "revocation_inv (au_rv s)" using authentication.reachable_inv [OF assms(2)] by (simp add: auth_inv_def)
  obtain tok where tok: "jw_parse (sv_jwt sv) issuer (au_now s) tok = Some c" "\<not> IsRevoked (cl_ID c) (rv_bl (au_rv s))"
    using assms(4) by (auto simp: middleware_def JWTAuthMiddleware_def ValidateToken_def split: option.splits if_splits)
  show ?thesis
  proof
    assume eq: "(cl_ID c, cl_ExpiresAt c) = (jti, Some e)"
    then have "au_now s < e" using assms(1) tok(1) by fastforce
    then have "IsRevoked jti (rv_bl (au_rv s))" using inv assms(3) by (auto simp: revocation_inv_def IsRevoked_def)
    then show False using tok(2) eq by simp
  qed
qed

section \<open>Concrete credentials\<close>

text \<open>Two tokens of an administrator, valid until 100; the HMAC is the identity.\<close>

definition ac_claims :: "string \<Rightarrow> Claims" where
  "ac_claims jti = \<lparr>cl_ID = jti, cl_Subject = ''a'', cl_Issuer = issuer, cl_IssuedAt = Some 0, cl_ExpiresAt = Some 100,
     cl_UserID = ''a'', cl_Email = ''a@x'', cl_Role = ''admin'', cl_Scopes = []\<rparr>"

definition ac_jwt :: jwt_lib where
  "ac_jwt = \<lparr>jw_date = (\<lambda>t. t), jw_sign = (\<lambda>c. None),
     jw_parse = (\<lambda>iss now t. if now < 100 \<and> (t = ''t1'' \<or> t = ''t2'') then Some (ac_claims t) else None)\<rparr>"

definition ac_sv :: auth_service where
  "ac_sv = \<lparr>sv_jwt = ac_jwt, sv_hmac = (\<lambda>s. s), sv_ttl = 100, sv_hash = (\<lambda>p. None), sv_verify = (\<lambda>p h. False), sv_address = (\<lambda>e. True),
     sv_digest = (\<lambda>s. s), sv_apiKeys = True, sv_mode = ''closed'', sv_inviteCode = []\<rparr>"

definition au0 :: auth_sys where
  "au0 = \<lparr>au_users = [ua_user ''a'' ''admin''], au_keys = [], au_rv = rv0, au_made = []\<rparr>"

definition ac_key :: APIKey where
  "ac_key = \<lparr>ak_KeyID = ''0123abcd-9'', ak_KeyHMAC = hex_encode ''cpk_0123abcd_x_y'', ak_UserID = ''a'', ak_Name = ''ci'', ak_Scopes = [''s''],
     ak_ExpiresAt = Some 50, ak_LastUsedAt = None, ak_CreatedAt = 1\<rparr>"

definition au1 :: auth_sys where
  "au1 = au0\<lparr>au_keys := [ac_key], au_made := [(''cpk_0123abcd_x_y'', ''0123abcd-9'')]\<rparr>"

lemma au0_reachable: "reachable auth_init (auth_step ac_sv) au0"
  by (rule reach_init) (simp add: auth_init_def au0_def users_ok_def ua_user_def rv0_def revocation_init_def)

lemma au0_fields: "au_users au0 = [ua_user ''a'' ''admin'']" "au_keys au0 = []" "au_made au0 = []" "au_rv au0 = rv0"
  by (simp_all add: au0_def)

lemma rv0_now: "rv_now rv0 = 1"
  by (simp add: rv0_def)

lemma au0_admin: "middleware ac_sv None ''Bearer t1'' au0 = Some (ac_claims ''t1'', None)"
  by code_simp

lemma ac_created:
  "akh_Create ac_sv 1 ''0123abcd-9'' (Some ''x_y'') [ua_user ''a'' ''admin''] (handlerClaims (Some (ac_claims ''t1''))) (Some (''ci'', [''s''], Some 50)) []
   = (AKeyCreated ''cpk_0123abcd_x_y'' ''0123abcd-9'', [ac_key])"
proof -
  have "TrimSpace ''ci'' = ''ci''" "plaintext ''0123abcd-9'' ''x_y'' = ''cpk_0123abcd_x_y''" by code_simp+
  then show ?thesis
    by (simp add: akh_Create_def CreateAPIKey_def GetAPIKeyByID_def handlerClaims_def ac_claims_def ac_key_def ac_sv_def ua_user_def)
qed

lemma au1_reachable: "reachable auth_init (auth_step ac_sv) au1"
proof (rule reach_step [OF au0_reachable])
  have i: "uuid_like ''0123abcd-9''" by code_simp
  have c: "akh_Create ac_sv (au_now au0) ''0123abcd-9'' (Some ''x_y'') (au_users au0) (handlerClaims (Some (ac_claims ''t1''))) (Some (''ci'', [''s''], Some 50)) (au_keys au0)
      = (AKeyCreated ''cpk_0123abcd_x_y'' ''0123abcd-9'', [ac_key])"
    unfolding au0_fields rv0_now by (rule ac_created)
  show "auth_step ac_sv au0 au1" using au_create [OF au0_admin i _ _ c] by (simp add: au0_fields au1_def made_by_def)
qed

theorem api_keys_authenticate_witness:
  "middleware ac_sv None ''Bearer cpk_0123abcd_x_y'' au1 = Some (key_claims (ua_user ''a'' ''admin'') ac_key, Some ''0123abcd-9'')"
proof -
  have "request_token None ''Bearer cpk_0123abcd_x_y'' = Some ''cpk_0123abcd_x_y''" "HasPrefix ''cpk_0123abcd_x_y'' apiKeyPrefix" by code_simp+
  moreover have "inj (sv_hmac ac_sv)" "sv_apiKeys ac_sv" by (simp_all add: ac_sv_def inj_def)
  ultimately show ?thesis
    by (subst api_keys_authenticate [OF _ _ au1_reachable]) (simp_all add: au1_def au0_def rv0_def ac_key_def ua_user_def)
qed

definition ac_logout :: "auth_reply \<times> Blocklist option" where
  "ac_logout = Logout True 1 (Some (ac_claims ''t1'')) (Some (rv_bl rv0))"

definition au2 :: auth_sys where
  "au2 = au0\<lparr>au_rv := rv0\<lparr>rv_bl := the (snd ac_logout), rv_revoked := insert (''t1'', 100) (rv_revoked rv0)\<rparr>\<rparr>"

lemma au2_reachable: "reachable auth_init (auth_step ac_sv) au2"
proof (rule reach_step [OF au0_reachable])
  have "fst ac_logout = ALoggedOut" "snd ac_logout \<noteq> None" by code_simp+
  then have "Logout True (au_now au0) (Some (ac_claims ''t1'')) (Some (rv_bl (au_rv au0))) = (ALoggedOut, Some (the (snd ac_logout)))"
    by (cases ac_logout) (auto simp: au0_fields rv0_now ac_logout_def)
  from au_logout [OF au0_admin this] show "auth_step ac_sv au0 au2" by (simp add: au2_def au0_fields ac_claims_def)
qed

theorem logged_out_refused_witness:
  "middleware ac_sv None ''Bearer t1'' au2 = None \<and>
   (\<exists>c. middleware ac_sv None ''Bearer t2'' au2 = Some (c, None) \<and> (cl_ID c, cl_ExpiresAt c) \<noteq> (''t1'', Some 100))"
proof -
  have law: "\<forall>iss now tok c. jw_parse (sv_jwt ac_sv) iss now tok = Some c \<longrightarrow> (\<exists>e. cl_ExpiresAt c = Some e \<and> now < e)"
    by (auto simp: ac_sv_def ac_jwt_def ac_claims_def split: if_splits)
  have r: "(''t1'', 100) \<in> rv_revoked (au_rv au2)" by (simp add: au2_def)
  have "middleware ac_sv None ''Bearer t2'' au2 = Some (ac_claims ''t2'', None)" "middleware ac_sv None ''Bearer t1'' au2 = None" by code_simp+
  then show ?thesis using logged_out_refused [OF law au2_reachable r] by blast
qed

text \<open>A request with an API key carries no time of expiry, which \<open>Logout\<close> dereferences.\<close>

lemma logout_with_key_panics: "Logout up now (Some (key_claims u k)) bl = (APanic, bl)"
  by (simp add: Logout_def key_claims_def)

text \<open>A token keeps the role it was issued with: after the account has become an ordinary one, its requests are still those of
  an administrator.\<close>

lemma role_outlives_demotion:
  "let users = uh_users (snd (user_route ua_env (Some (ua_claims ''z'' ''admin'')) (RUpdateUser ''a'' (Some ([], ''user''))) (ua_handler (au_users au0))))
   in map us_Role users = [''user''] \<and> map_option (cl_Role \<circ> fst) (middleware ac_sv None ''Bearer t1'' (au0\<lparr>au_users := users\<rparr>)) = Some ''admin''"
  by code_simp

text \<open>The scopes of a key do not limit the keys it creates.\<close>

lemma key_mints_scopes:
  "akh_Create sv now i r users (handlerClaims (Some (c\<lparr>cl_Scopes := scopes\<rparr>))) req keys = akh_Create sv now i r users (handlerClaims (Some c)) req keys"
  by (simp add: handlerClaims_def)

end
