(* ===== verification/Spec2Isabelle.thy ===== *)
theory Spec2Isabelle
  imports Orchestrator_Rebuild Job_Api Resolver Scheduler_Props Idle_Detector Scrollback Blocklist
    Service_Run Agent_Server Session_Isolation Reaper Content_Ingest Webhook_Props Github_Props
    Provisioning Notifications Machine_Api Authentication_Props
begin

text \<open>
  Verification of claude-plane, a server that runs jobs (graphs of steps, each a command or
  an interactive session) on remote agents.

  \<^bold>\<open>The program.\<close> Users edit jobs over a REST API (\<open>server/handler\<close>), which writes SQL
  tables (\<open>server/store\<close>). A request, an event trigger (\<open>server/event\<close>) or a schedule
  (\<open>server/scheduler\<close>) asks the orchestrator (\<open>server/orchestrator\<close>) for a run; it
  snapshots the job, checks the graph and starts a runner, which hands ready steps to an
  executor and is called back with exit codes. Agents keep a stream to the server
  (\<open>server/connmgr\<close>); on the agent, sessions are recorded, watched for idleness and their
  output is searched for task values (\<open>internal/agent\<close>). Everything reports to an event bus,
  from which events are stored, posted to webhooks and sent as notifications. A separate process, the bridge
  (\<open>internal/bridge\<close>), polls GitHub and starts sessions for what it finds.
  All paths are below \<open>src/internal\<close>.

  \<^bold>\<open>Conventions.\<close> Structs are records, Go maps finite maps (with the zero value of a missing
  key written \<open>getd\<close>), errors values of a sum type, panics explicit results. SQL tables are
  lists of rows, with their constraints as guards. Fresh identifiers, clock readings, the
  iteration order of a Go map and the failure of a store call are arguments, so that every
  theorem holds for all of them. Strings are byte strings, times are integers, Go's
  \<open>int\<close> is an integer where the source bounds it or only counts with it, and a 64-bit word
  in the reconnection delay, where doubling may overflow. Code between two lock operations
  is one step of a transition system; goroutines and timers are separate steps, so the
  theorems cover their interleavings. \<open>Prelude\<close> has the finite-map lemmas, reachability
  and the locales \<open>invariant_system\<close>, which each transition system interprets,
  \<open>refinement_system\<close>, which carries reachability from a system to the one it refines, and
  \<open>expiring_memory\<close>, for tables that remember what happened lately (processed events of
  GitHub, sent notifications).

  \<^bold>\<open>The theories.\<close>
  \<^item> \<open>Job_Store\<close>, \<open>_Facts\<close>, \<open>_Roundtrip\<close>: \<open>store/jobs.go\<close>, \<open>task_values.go\<close> and the
    tables of \<open>migrations.go\<close>. Integrity under any sequence of operations, the snapshot a
    run takes, clones, deletion, read-back of steps and task values.
  \<^item> \<open>Dag_Validate\<close>: \<open>ValidateJobSteps\<close> and \<open>ValidateDAG\<close> of \<open>dag_runner.go\<close>. Kahn's
    algorithm accepts exactly the acyclic graphs.
  \<^item> \<open>Go_Strings\<close>, \<open>Resolver\<close>: string functions of Go's library and \<open>resolver.go\<close>.
    Substitution piece by piece, parameters with overrides.
  \<^item> \<open>Dag_Runner\<close>: the type \<open>DAGRunner\<close> with \<open>Start\<close>, \<open>OnStepCompleted\<close>, retries,
    deferral by session key, skipping and cancellation. \<open>Dag_Runner_Inv\<close> has the run
    invariant and its preservation by elementary changes, \<open>Dag_Runner_Loops\<close> lifts it to
    the loops, \<open>Dag_Run\<close> to the concurrent run, and \<open>Dag_Run_Props\<close> draws the
    conclusions: one verdict, dependencies respected, exclusive session keys, no deadlock,
    no panic, termination.
  \<^item> \<open>Orchestrator\<close>: \<open>orchestrator.go\<close>. \<open>_Limits\<close>: no reservation leaks and the limit of
    concurrent runs holds. \<open>_Runs\<close>: which requests are accepted, and that a created run
    is an initial state of the run system (the refinement that makes the theorems on runs
    apply). \<open>_Repair\<close>, \<open>_Rebuild\<close>: cancelling, repairing and retrying, with the locale
    \<open>status_store\<close> for the sweeps over step statuses.
  \<^item> \<open>Job_Handler\<close>, \<open>_Props\<close>, \<open>Job_Api\<close>: \<open>handler/jobs.go\<close> as a state machine. Graphs stay
    acyclic and local whatever requests arrive; strangers see and change nothing.
  \<^item> \<open>Event_Bus\<close>, \<open>_Props\<close>: \<open>event/bus.go\<close> and \<open>builders.go\<close>. No send on a closed
    channel, ordered delivery within the buffer's capacity, persistence first.
  \<^item> \<open>Triggers\<close>: \<open>store/triggers.go\<close> and \<open>trigger_subscriber.go\<close>, equal to a fold over
    the matching rows.
  \<^item> \<open>Scheduler\<close>, \<open>_Props\<close>: \<open>store/schedules.go\<close>, \<open>scheduler.go\<close>,
    \<open>handler/schedules.go\<close>. The cron library is a parameter with its documented laws
    (\<open>cron_laws\<close>); what it can fire follows the table.
  \<^item> \<open>Conn_Manager\<close>: \<open>connmgr/manager.go\<close> with the machine rows it writes.
  \<^item> \<open>Machine_Api\<close>: \<open>api/machine_handler.go\<close> and the rest of \<open>store/machines.go\<close>; what
    administrators see of the machines is what the connection manager knows.
  \<^item> \<open>Blocklist\<close>: \<open>auth/blocklist.go\<close> and \<open>store/tokens.go\<close>.
  \<^item> \<open>Idle_Detector\<close>, \<open>Scrollback\<close>, \<open>Agent_Util\<close>: \<open>idle_detector.go\<close>,
    \<open>scrollback.go\<close>, \<open>backoff.go\<close> and \<open>task_value_parser.go\<close> of the agent.
  \<^item> \<open>Session_Store\<close>, \<open>Session_Executor\<close>, \<open>_Props\<close>: \<open>store/sessions.go\<close> and
    \<open>executor/session_executor.go\<close>, which runs the steps of runners in sessions on agents.
    Every tracked step has a monitor that reports it. \<open>Executor_Run\<close> composes the
    executor with a run and shows that the composition refines the run system.
  \<^item> \<open>Session_Registry\<close>: \<open>session/registry.go\<close>, the fan-out of terminal output to browsers.
  \<^item> \<open>Agent_Service\<close>, \<open>_Props\<close>: \<open>server/grpc\<close> and \<open>broker/broker.go\<close>: machines register,
    open a stream and send messages. \<open>Service_Run\<close> composes the service with
    executor, run, fan-out and broker: whatever agents send, the run system is refined.
  \<^item> \<open>Agent_Sessions\<close>, \<open>_Props\<close>: \<open>agent/session_manager.go\<close> and \<open>session.go\<close>. The tables
    of the agent agree, and every session is relayed once and reported at its end.
  \<^item> \<open>Agent_Server\<close>: both ends of the stream. Task values and recordings arrive as they were
    produced.
  \<^item> \<open>Injection_Queue\<close>: \<open>session/injection_queue.go\<close> and \<open>store/injections.go\<close>, ordered
    delivery of injected text by one drainer per session.
  \<^item> \<open>Session_Handler\<close>: \<open>session/handler.go\<close> and \<open>store/templates.go\<close>.
    \<open>Session_Isolation\<close>: noninterference between users, by an unwinding argument.
  \<^item> \<open>Reaper\<close>: \<open>reaper/reaper.go\<close>; a sweep terminates exactly the overdue sessions.
  \<^item> \<open>Content_Ingest\<close>: \<open>ingest/content.go\<close>; the search index holds the lines of the whole
    output, however it was cut.
  \<^item> \<open>Event_Store\<close>: \<open>store/events.go\<close>, \<open>event/persist.go\<close>, \<open>event/retention.go\<close> and
    \<open>handler/events.go\<close>. The feed is complete, and the audit query agrees with the bus.
  \<^item> \<open>Webhooks\<close>, \<open>Webhook_Props\<close>: \<open>store/webhooks.go\<close> and \<open>event/webhook_delivery.go\<close>.
    A potential bounds the number of posts over all interleavings.
  \<^item> \<open>Github_Filters\<close>, \<open>Github_Poller\<close>, \<open>Github_Props\<close>: the GitHub connector,
    \<open>bridge/connector/github\<close>, with \<open>bridge/state/state.go\<close>. Events are reported at most once
    a week, and an answered issue request reports exactly what it should.
  \<^item> \<open>Provisioning\<close>: \<open>store/provisioning.go\<close>, \<open>server/provision\<close> and
    \<open>handler/provision.go\<close>; new agents get their keys once, in every interleaving.
  \<^item> \<open>Notifications\<close>: \<open>store/notifications.go\<close> and \<open>notify/dispatcher.go\<close>,
    \<open>ratelimit.go\<close>; messages about one type of event are at least a minute apart.
  \<^item> \<open>User_Admin\<close>: \<open>store/users.go\<close>, \<open>handler/users.go\<close> and \<open>admin.go\<close>; accounts stay
    well formed, and ordinary users change only their own name and password.
  \<^item> \<open>Authentication\<close>, \<open>_Props\<close>: \<open>store/apikeys.go\<close>, \<open>handler/apikeys.go\<close>, \<open>auth/jwt.go\<close>,
    \<open>api/auth_handler.go\<close> and \<open>api/middleware.go\<close>, composed with the blocklist and the
    accounts. Exactly the valid keys are accepted, and no token that was logged out. The HMAC is
    assumed to have no collisions and the JWT library to refuse expired tokens.
  \<^item> This theory: a job built through the API runs to its verdict.

  \<^bold>\<open>Loops and bounds.\<close> Loops are structural recursions, or functions with a measure: the sum
  of positive in-degrees for Kahn's algorithm and the ready queue, the unseen nodes for the
  downstream search, the remaining bytes for scans. The depth bound 10 of
  \<open>checkRunJobCycle\<close> is the source's. Reading a recording is a partial function, with a
  proof that it returns. Fuel is used for \<open>path.Match\<close>, where every turn consumes a byte
  of the pattern and its length is enough, and for the client of the event feed, where the
  theorem says that the number of stored events is enough.

  \<^bold>\<open>Where the code falls short.\<close> Next to the theorems stand lemmas on concrete runs that go
  wrong: a cron schedule never starts its own job, a retried run can stay open, a run without
  steps never completes, overlapping reloads of a schedule leak a cron entry, a late
  disconnect overwrites a new connection, a shared session that died is used again, a late
  status message revives a terminated session, the first prompt of a shared session is never
  submitted, a session identifier used twice crashes the agent, a webhook is posted to twice when
  the retry loop overtakes the first request, events of GitHub found before a failing trigger are
  lost, a release is reported again every week, an expired provisioning token blocks its
  machine for ever, the last administrator can give up its role,
  a demoted administrator keeps its rights until its token expires, and others.

  \<^bold>\<open>Not modelled.\<close> The remaining REST handlers and their stores, gRPC and websocket
  transport, pseudo terminals and processes, the rendering and sending of notifications, the
  Telegram connector, certificates and password hashing, routing, logging, configuration, process control and generated protocol code: input and output, library
  cryptography, or row-by-row SQL without an invariant of its own.
\<close>

section \<open>From the job API to a finished run\<close>

lemma jobs_inv_local: "jobs_inv d \<Longrightarrow> job_graph_local j d"
  using jobs_inv_graph(2) [of d j] by (auto simp: job_graph_local_def owned_ids)

lemma reachable_rtranclp: "step\<^sup>*\<^sup>* s t \<Longrightarrow> reachable init step s \<Longrightarrow> reachable init step t"
  by (induction rule: rtranclp_induct) (auto intro: reach_step)


definition rq_ab :: run_request where
  "rq_ab = \<lparr>rq_jobID = ''j'', rq_triggerType = ''manual'', rq_params = fmempty, rq_detail = '''',
     rq_runID = ''r1'', rq_reserveID = ''u'', rq_stepIDs = [''x1'', ''x2''], rq_orderDAG = [''a'', ''b''],
     rq_orderParams = [], rq_orderStart = [''b'', ''a'']\<rparr>"


end
